(* ===== verification/Prelude_CC64.thy ===== *)
theory Prelude_CC64
  imports Main "HOL-Library.Word"
begin

text \<open>
  The vocabulary every component shares: the machine types of the C sources, C strings and
  byte buffers, the result type of fallible code, bounds-checked buffer reads and writes, and
  the little-endian encoders and decoders of \<open>src/src/backend/object.c\<close> and
  \<open>src/src/linker/linker.c\<close>.

  Conventions. A C buffer is a \<open>byte list\<close>. A C string is the list of its bytes without the
  terminator. A \<open>size_t\<close> that counts memory is a \<open>nat\<close>, and every addition or multiplication
  the source guards keeps its guard against \<open>SIZE_MAX\<close>; one that it does not guard and whose
  operands are not already bounded is reduced modulo \<open>2 ^ 64\<close> (\<open>add64\<close>). A field with a
  fixed width on disk is a word of that width.
\<close>

unbundle bit_operations_syntax

named_theorems res_simps \<open>evaluation of the result monad\<close>
named_theorems le_simps \<open>little-endian encoders and decoders\<close>

type_synonym byte = "8 word"
type_synonym u16 = "16 word"
type_synonym u32 = "32 word"
type_synonym u64 = "64 word"
type_synonym cstring = "byte list"

definition SIZE_MAX :: nat where
  "SIZE_MAX = 2 ^ 64 - 1"

definition UINT32_MAX :: nat where
  "UINT32_MAX = 2 ^ 32 - 1"

definition INT32_MIN :: int where
  "INT32_MIN = - (2 ^ 31)"

definition INT32_MAX :: int where
  "INT32_MAX = 2 ^ 31 - 1"

abbreviation add64 :: "nat \<Rightarrow> nat \<Rightarrow> nat" where
  "add64 a b \<equiv> (a + b) mod 2 ^ 64"

lemma unat_u32_less: "unat (x :: u32) < 2 ^ 32"
  and unat_u64_less: "unat (y :: u64) < 2 ^ 64"
  using unsigned_less [of x] unsigned_less [of y] by simp_all

lemma word_small_cases:
  fixes k :: "'a::len word"
  assumes "unat k \<in> A"
  shows "k \<in> of_nat ` A"
proof -
  have "k = of_nat (unat k)" by simp
  with assms show ?thesis by blast
qed

text \<open>A C string literal, and the condition that a byte list is one.\<close>

definition cstr :: "string \<Rightarrow> cstring" where
  "cstr s = map of_char s"

definition is_cstring :: "cstring \<Rightarrow> bool" where
  "is_cstring s \<longleftrightarrow> 0 \<notin> set s"

subsection \<open>Results of fallible code\<close>

text \<open>
  \<open>OutOfBounds\<close> is an access outside a buffer, which is undefined behaviour in C and which the
  safety theorems exclude; \<open>Failed e\<close> is an error the code itself reports.
\<close>

datatype 'e failure = OutOfBounds | Failed 'e

type_synonym ('e, 'a) res = "'e failure + 'a"

text \<open>What a failing C function leaves behind: a diagnostic, or only a false return.\<close>

datatype diag = Silent | Diag nat cstring

definition bindE :: "('e, 'a) res \<Rightarrow> ('a \<Rightarrow> ('e, 'b) res) \<Rightarrow> ('e, 'b) res" where
  "bindE m f = (case m of Inl e \<Rightarrow> Inl e | Inr a \<Rightarrow> f a)"

definition guardE :: "bool \<Rightarrow> 'e \<Rightarrow> ('e, unit) res" where
  "guardE ok e = (if ok then Inr () else Inl (Failed e))"

definition of_option :: "'e \<Rightarrow> 'a option \<Rightarrow> ('e, 'a) res" where
  "of_option e m = (case m of None \<Rightarrow> Inl (Failed e) | Some a \<Rightarrow> Inr a)"

definition safe :: "('e, 'a) res \<Rightarrow> bool" where
  "safe m \<longleftrightarrow> m \<noteq> Inl OutOfBounds"

lemma bindE_simps [simp, res_simps]:
  "bindE (Inl e) f = Inl e" "bindE (Inr a) f = f a"
  by (simp_all add: bindE_def)

lemma guardE_simps [simp, res_simps]:
  "guardE True e = Inr ()" "guardE False e = Inl (Failed e)"
  by (simp_all add: guardE_def)

lemma of_option_simps [simp, res_simps]:
  "of_option e None = Inl (Failed e)" "of_option e (Some a) = Inr a"
  by (simp_all add: of_option_def)

lemma bindE_eq_Inr [simp]: "bindE m f = Inr b \<longleftrightarrow> (\<exists>a. m = Inr a \<and> f a = Inr b)"
  by (simp add: bindE_def split: sum.splits)

lemma guardE_eq_Inr [simp]: "guardE ok e = Inr u \<longleftrightarrow> ok"
  by (simp add: guardE_def)

lemma of_option_eq_Inr [simp]: "of_option e m = Inr a \<longleftrightarrow> m = Some a"
  by (simp add: of_option_def split: option.splits)

lemma bindE_assoc: "bindE (bindE m f) g = bindE m (\<lambda>a. bindE (f a) g)"
  by (simp add: bindE_def split: sum.splits)

lemma safe_bindE: "safe m \<Longrightarrow> (\<And>a. m = Inr a \<Longrightarrow> safe (f a)) \<Longrightarrow> safe (bindE m f)"
  by (auto simp: safe_def bindE_def split: sum.splits)

lemma safe_bindE_pair:
  "safe m \<Longrightarrow> (\<And>a b. m = Inr (a, b) \<Longrightarrow> safe (f a b)) \<Longrightarrow> safe (bindE m (\<lambda>(a, b). f a b))"
  by (rule safe_bindE) auto

lemma safe_simps [simp]:
  "safe (Inr a)" "safe (Inl (Failed e))" "\<not> safe (Inl OutOfBounds)"
  "safe (guardE ok e)" "safe (of_option e opt)"
  by (simp_all add: safe_def guardE_def of_option_def split: option.splits)

lemma safe_case_option:
  "(x = None \<Longrightarrow> safe n) \<Longrightarrow> (\<And>v. x = Some v \<Longrightarrow> safe (f v)) \<Longrightarrow>
     safe (case x of None \<Rightarrow> n | Some v \<Rightarrow> f v)"
  by (simp split: option.split)

lemma safe_if: "(c \<Longrightarrow> safe x) \<Longrightarrow> (\<not> c \<Longrightarrow> safe y) \<Longrightarrow> safe (if c then x else y)"
  by simp

text \<open>A loop over a list whose body may fail, threading a state: the C \<open>for\<close> loop.\<close>

fun foldE :: "('s \<Rightarrow> 'a \<Rightarrow> ('e, 's) res) \<Rightarrow> 's \<Rightarrow> 'a list \<Rightarrow> ('e, 's) res" where
  "foldE f s [] = Inr s"
| "foldE f s (x # xs) = bindE (f s x) (\<lambda>s'. foldE f s' xs)"

lemma foldE_append: "foldE f s (xs @ ys) = bindE (foldE f s xs) (\<lambda>s'. foldE f s' ys)"
  by (induction xs arbitrary: s) (simp_all add: bindE_assoc)

lemma safe_foldE: "(\<And>s x. x \<in> set xs \<Longrightarrow> safe (f s x)) \<Longrightarrow> safe (foldE f s xs)"
  by (induction xs arbitrary: s) (auto intro: safe_bindE)

text \<open>The invariant rule of such a loop: what the body keeps, the loop keeps.\<close>

lemma foldE_invariant:
  assumes "foldE f s xs = Inr t" and "P s"
    and "\<And>s x s'. P s \<Longrightarrow> x \<in> set xs \<Longrightarrow> f s x = Inr s' \<Longrightarrow> P s'"
  shows "P t"
  using assms
proof (induction xs arbitrary: s)
  case Nil
  then show ?case by simp
next
  case (Cons x xs)
  from Cons.prems(1) obtain u where u: "f s x = Inr u" "foldE f u xs = Inr t" by auto
  have "P u" by (rule Cons.prems(3) [OF Cons.prems(2) _ u(1)]) simp
  then show ?case by (rule Cons.IH [OF u(2)]) (rule Cons.prems(3), auto)
qed

text \<open>The indexed form: the body sees the position, and the invariant speaks of it.\<close>

lemma foldE_upt_invariant:
  assumes "foldE f s [m..<n] = Inr t" and "m \<le> n" and "P m s"
    and "\<And>s i s'. m \<le> i \<Longrightarrow> i < n \<Longrightarrow> P i s \<Longrightarrow> f s i = Inr s' \<Longrightarrow> P (Suc i) s'"
  shows "P n t"
  using assms(2) assms(1,3,4)
proof (induction n arbitrary: t rule: dec_induct)
  case base
  then show ?case by simp
next
  case (step n)
  from step.prems(1) step.hyps obtain u
    where u: "foldE f s [m..<n] = Inr u" and t: "f u n = Inr t"
    by (auto simp: foldE_append)
  have "P n u"
    by (rule step.IH [OF u step.prems(2)]) (rule step.prems(3), auto)
  then show ?case using t step.hyps by (intro step.prems(3)) auto
qed

text \<open>Progress of a loop: if every step succeeds under the invariant, so does the loop.\<close>

lemma foldE_upt_succeeds:
  assumes "m \<le> n" and "P m s"
    and "\<And>s i. m \<le> i \<Longrightarrow> i < n \<Longrightarrow> P i s \<Longrightarrow> \<exists>s'. f s i = Inr s' \<and> P (Suc i) s'"
  shows "\<exists>t. foldE f s [m..<n] = Inr t \<and> P n t"
  using assms
proof (induction n rule: dec_induct)
  case base
  then show ?case by simp
next
  case (step n)
  have "\<exists>t. foldE f s [m..<n] = Inr t \<and> P n t"
    by (rule step.IH [OF step.prems(1)]) (rule step.prems(2), auto)
  then obtain t where t: "foldE f s [m..<n] = Inr t" "P n t" by blast
  moreover obtain t' where "f t n = Inr t'" "P (Suc n) t'"
    using step.prems(2) [OF step.hyps(1) lessI t(2)] by blast
  ultimately show ?case using step.hyps by (auto simp: foldE_append)
qed

lemma foldE_upt_safe:
  assumes "P m s"
    and "\<And>s i. m \<le> i \<Longrightarrow> i < n \<Longrightarrow> P i s \<Longrightarrow> safe (f s i)"
    and "\<And>s i s'. m \<le> i \<Longrightarrow> i < n \<Longrightarrow> P i s \<Longrightarrow> f s i = Inr s' \<Longrightarrow> P (Suc i) s'"
  shows "safe (foldE f s [m..<n])"
proof (cases "m \<le> n")
  case True
  then show ?thesis using assms
  proof (induction "n - m" arbitrary: m s)
    case 0
    then show ?case by simp
  next
    case (Suc k)
    then have m: "m < n" by auto
    with Suc.prems(2,3) have "safe (f s m)" by blast
    have "safe (bindE (f s m) (\<lambda>s'. foldE f s' [Suc m..<n]))"
    proof (rule safe_bindE)
      show "safe (f s m)" by fact
      fix s' assume "f s m = Inr s'"
      then have P: "P (Suc m) s'" using Suc.prems(2,4) m by blast
      show "safe (foldE f s' [Suc m..<n])"
        by (rule Suc.hyps(1) [OF _ _ P]) (use Suc.hyps(2) m in \<open>auto intro: Suc.prems(3,4)\<close>)
    qed
    with m show ?case by (simp add: upt_conv_Cons)
  qed
qed simp

subsection \<open>Buffers\<close>

definition range_ok :: "nat \<Rightarrow> nat \<Rightarrow> nat \<Rightarrow> bool" where
  "range_ok offset len avail \<longleftrightarrow> offset \<le> avail \<and> len \<le> avail - offset"

lemma range_ok_iff: "range_ok offset len avail \<longleftrightarrow> offset + len \<le> avail"
  by (auto simp: range_ok_def)

text \<open>The bytes at \<open>offset .. offset + n\<close> of a buffer, and their replacement.\<close>

definition chunk :: "byte list \<Rightarrow> nat \<Rightarrow> nat \<Rightarrow> byte list" where
  "chunk bs offset n = take n (drop offset bs)"

definition fetch :: "byte list \<Rightarrow> nat \<Rightarrow> nat \<Rightarrow> ('e, byte list) res" where
  "fetch bs offset n =
     (if offset + n \<le> length bs then Inr (chunk bs offset n) else Inl OutOfBounds)"

definition patch :: "byte list \<Rightarrow> nat \<Rightarrow> byte list \<Rightarrow> byte list" where
  "patch bs offset new = take offset bs @ new @ drop (offset + length new) bs"

definition store :: "byte list \<Rightarrow> nat \<Rightarrow> byte list \<Rightarrow> ('e, byte list) res" where
  "store bs offset new =
     (if offset + length new \<le> length bs then Inr (patch bs offset new) else Inl OutOfBounds)"

lemma length_chunk [simp]: "length (chunk bs k n) = min n (length bs - k)"
  by (simp add: chunk_def)

lemma length_patch [simp]: "k + length new \<le> length bs \<Longrightarrow> length (patch bs k new) = length bs"
  by (simp add: patch_def)

lemma fetch_ok [res_simps]: "k + n \<le> length bs \<Longrightarrow> fetch bs k n = Inr (chunk bs k n)"
  by (simp add: fetch_def)

lemma store_ok [res_simps]: "k + length new \<le> length bs \<Longrightarrow> store bs k new = Inr (patch bs k new)"
  by (simp add: store_def)

lemma fetch_eq_Inr [simp]:
  "fetch bs k n = Inr x \<longleftrightarrow> k + n \<le> length bs \<and> x = chunk bs k n"
  by (auto simp: fetch_def)

lemma store_eq_Inr [simp]:
  "store bs k new = Inr x \<longleftrightarrow> k + length new \<le> length bs \<and> x = patch bs k new"
  by (auto simp: store_def)

lemma safe_fetch [simp]: "safe (fetch bs k n) \<longleftrightarrow> k + n \<le> length bs"
  by (simp add: fetch_def)

lemma safe_store [simp]: "safe (store bs k new) \<longleftrightarrow> k + length new \<le> length bs"
  by (simp add: store_def)

lemma nth_chunk: "i < n \<Longrightarrow> k + n \<le> length bs \<Longrightarrow> chunk bs k n ! i = bs ! (k + i)"
  by (simp add: chunk_def)

lemma nth_patch:
  assumes "k + length new \<le> length bs" and "i < length bs"
  shows "patch bs k new ! i =
     (if k \<le> i \<and> i < k + length new then new ! (i - k) else bs ! i)"
  using assms by (auto simp: patch_def nth_append)

lemma chunk_patch_same:
  "k + length new \<le> length bs \<Longrightarrow> chunk (patch bs k new) k (length new) = new"
  by (simp add: chunk_def patch_def)

lemma chunk_patch_disjoint:
  assumes "k + length new \<le> length bs" and "j + n \<le> k \<or> k + length new \<le> j"
  shows "chunk (patch bs k new) j n = chunk bs j n"
proof (rule nth_equalityI)
  show "length (chunk (patch bs k new) j n) = length (chunk bs j n)"
    using assms by simp
next
  fix i assume "i < length (chunk (patch bs k new) j n)"
  with assms show "chunk (patch bs k new) j n ! i = chunk bs j n ! i"
    by (auto simp: chunk_def nth_patch)
qed

lemma chunk_full [simp]: "chunk bs 0 (length bs) = bs"
  by (simp add: chunk_def)

lemma chunk_append1: "k + n \<le> length a \<Longrightarrow> chunk (a @ b) k n = chunk a k n"
  by (simp add: chunk_def)

lemma chunk_append2: "length a \<le> k \<Longrightarrow> chunk (a @ b) k n = chunk b (k - length a) n"
  by (simp add: chunk_def)

lemma chunk_chunk: "j + m \<le> n \<Longrightarrow> chunk (chunk bs k n) j m = chunk bs (k + j) m"
  by (simp add: chunk_def drop_take add.commute min_absorb1)

lemma patch_mid:
  "length a = k \<Longrightarrow> length new = length x \<Longrightarrow> patch (a @ x @ c) k new = a @ new @ c"
  by (simp add: patch_def)

lemma patch_append1:
  "k + length new \<le> length a \<Longrightarrow> patch (a @ b) k new = patch a k new @ b"
  by (simp add: patch_def)

lemma patch_append2:
  "length a \<le> k \<Longrightarrow> patch (a @ b) k new = a @ patch b (k - length a) new"
  by (simp add: patch_def)

lemma split_length:
  assumes "length x = m + n"
  obtains x1 x2 where "x = x1 @ x2" "length x1 = m" "length x2 = n"
  using assms that [of "take m x" "drop m x"] by simp

lemma store_mid:
  "length a = k \<Longrightarrow> length x = length bs \<Longrightarrow> store (a @ x @ c) k bs = Inr (a @ bs @ c)"
  by (simp add: store_def patch_mid)

text \<open>Equal-width chunks laid out one after the other are read back by their index.\<close>

lemma chunk_concat:
  assumes "\<forall>x \<in> set xs. length x = w" and "i < length xs"
  shows "chunk (concat xs) (i * w) w = xs ! i"
  using assms
proof (induction xs arbitrary: i)
  case Nil
  then show ?case by simp
next
  case (Cons x xs)
  then show ?case
    by (cases i) (simp_all add: chunk_append2, simp add: chunk_def)
qed

lemma length_concat_chunks:
  "\<forall>x \<in> set xs. length x = w \<Longrightarrow> length (concat xs) = length xs * w"
  by (induction xs) auto

end
