(* ===== verification/Bytes_LE.thy ===== *)
theory Bytes_LE
  imports Prelude_CC64
begin

text \<open>
  Little-endian fields. The object writer stores them with \<open>put_u16\<close>, \<open>put_u32\<close>,
  \<open>put_u64\<close> (\<open>src/src/backend/object.c\<close>), the linker stores them with \<open>write_u32\<close>,
  \<open>write_u64\<close> and reads them with \<open>read_u16\<close>, \<open>read_u32\<close>, \<open>read_u64\<close>, \<open>read_i64\<close>
  (\<open>src/src/linker/linker.c\<close>). The interface between the two sides is the locale
  \<open>field_codec\<close>: a fixed width, and reading back what was put.
\<close>

subsection \<open>Writers\<close>

definition put_u16 :: "u16 \<Rightarrow> byte list" where
  "put_u16 v = [ucast v, ucast (drop_bit 8 v)]"

definition put_u32 :: "u32 \<Rightarrow> byte list" where
  "put_u32 v = [ucast v, ucast (drop_bit 8 v), ucast (drop_bit 16 v), ucast (drop_bit 24 v)]"

definition put_u64 :: "u64 \<Rightarrow> byte list" where
  "put_u64 v = map (\<lambda>i. ucast (drop_bit (i * 8) v)) [0..<8]"

definition write_u32 :: "u32 \<Rightarrow> byte list" where
  "write_u32 v = map (\<lambda>i. ucast (drop_bit (i * 8) v)) [0..<4]"

definition write_u64 :: "u64 \<Rightarrow> byte list" where
  "write_u64 v = map (\<lambda>i. ucast (drop_bit (i * 8) v)) [0..<8]"

subsection \<open>Readers\<close>

definition read_u16 :: "byte list \<Rightarrow> u16" where
  "read_u16 d = ucast (d ! 0) OR push_bit 8 (ucast (d ! 1))"

definition read_u32 :: "byte list \<Rightarrow> u32" where
  "read_u32 d = ucast (d ! 0) OR push_bit 8 (ucast (d ! 1)) OR
     push_bit 16 (ucast (d ! 2)) OR push_bit 24 (ucast (d ! 3))"

definition read_u64 :: "byte list \<Rightarrow> u64" where
  "read_u64 d = foldl (\<lambda>v i. v OR push_bit (i * 8) (ucast (d ! i))) 0 [0..<8]"

definition read_i64 :: "byte list \<Rightarrow> int" where
  "read_i64 d = sint (read_u64 d)"

subsection \<open>The interface: fixed-width fields\<close>

locale field_codec =
  fixes enc :: "'a \<Rightarrow> byte list"
    and dec :: "byte list \<Rightarrow> 'a"
    and width :: nat
  assumes length_enc: "length (enc v) = width"
    and dec_enc: "dec (enc v @ rest) = v"
    and enc_dec: "length d = width \<Longrightarrow> enc (dec d) = d"
begin

lemma dec_enc_nil: "dec (enc v) = v"
  using dec_enc [of v "[]"] by simp

lemma enc_inject: "enc v = enc w \<longleftrightarrow> v = w"
  by (metis dec_enc_nil)

lemma dec_chunk_patch:
  "k + width \<le> length bs \<Longrightarrow> dec (chunk (patch bs k (enc v)) k width) = v"
  using chunk_patch_same [of k "enc v" bs] by (simp add: length_enc dec_enc_nil)

lemma dec_inject: "length d = width \<Longrightarrow> length e = width \<Longrightarrow> dec d = dec e \<longleftrightarrow> d = e"
  by (metis enc_dec)

lemma dec_mid: "length a = k \<Longrightarrow> dec (drop k (a @ enc v @ rest)) = v"
  by (simp add: dec_enc)

end

lemma write_u32_eq_put: "write_u32 v = put_u32 v"
  by (simp add: write_u32_def put_u32_def upt_rec)

lemma write_u64_eq_put: "write_u64 v = put_u64 v"
  by (simp add: write_u64_def put_u64_def)

lemma length_put [simp]:
  "length (put_u16 v) = 2" "length (put_u32 w) = 4" "length (put_u64 x) = 8"
  "length (write_u32 w) = 4" "length (write_u64 x) = 8"
  by (simp_all add: put_u16_def put_u32_def put_u64_def write_u32_def write_u64_def)

text \<open>
  Both directions reduce to the bits of a word: bit \<open>n\<close> of the value is bit \<open>n mod 8\<close> of
  byte \<open>n div 8\<close>.
\<close>

definition le_bytes :: "nat \<Rightarrow> 'a::len word \<Rightarrow> byte list" where
  "le_bytes k v = map (\<lambda>i. ucast (drop_bit (i * 8) v)) [0..<k]"

definition le_word :: "nat \<Rightarrow> byte list \<Rightarrow> 'a::len word" where
  "le_word k d = foldl (\<lambda>v i. v OR push_bit (i * 8) (ucast (d ! i))) 0 [0..<k]"

lemma bit_byteD: "bit (b :: byte) n \<Longrightarrow> n < 8"
  using bit_imp_le_length by fastforce

lemma bit_le_word:
  "bit (le_word k d :: 'a::len word) n \<longleftrightarrow>
     n < 8 * k \<and> n < LENGTH('a) \<and> bit (d ! (n div 8)) (n mod 8)"
proof (induction k)
  case 0
  then show ?case by (simp add: le_word_def)
next
  case (Suc k)
  have "bit (push_bit (k * 8) (ucast (d ! k)) :: 'a word) n \<longleftrightarrow>
      8 * k \<le> n \<and> n < 8 * Suc k \<and> n < LENGTH('a) \<and> bit (d ! (n div 8)) (n mod 8)"
  proof (cases "8 * k \<le> n \<and> n < 8 * Suc k")
    case True
    define m where "m = n - k * 8"
    with True have "n = m + k * 8" "m < 8" by auto
    then show ?thesis by (auto simp: bit_simps)
  next
    case False
    then show ?thesis by (auto simp: bit_simps dest!: bit_byteD)
  qed
  moreover have "bit (le_word (Suc k) d :: 'a word) n \<longleftrightarrow>
      bit (le_word k d :: 'a word) n \<or> bit (push_bit (k * 8) (ucast (d ! k)) :: 'a word) n"
    by (simp add: le_word_def bit_or_iff)
  ultimately show ?case using Suc.IH by auto
qed

lemma le_word_le_bytes:
  "8 * k = LENGTH('a) \<Longrightarrow> le_word k (le_bytes k v @ rest) = (v :: 'a::len word)"
proof (rule bit_word_eqI)
  fix n assume k: "8 * k = LENGTH('a)" and n: "n < LENGTH('a)"
  then have i: "n div 8 < k" by presburger
  then have "(le_bytes k v @ rest) ! (n div 8) = ucast (drop_bit (n div 8 * 8) v)"
    by (simp add: le_bytes_def nth_append)
  moreover have "n div 8 * 8 + n mod 8 = n" by presburger
  ultimately show "bit (le_word k (le_bytes k v @ rest) :: 'a word) n = bit v n"
    using k n by (simp add: bit_le_word bit_simps)
qed

lemma le_bytes_le_word:
  assumes "length d = k" and "8 * k = LENGTH('a)"
  shows "le_bytes k (le_word k d :: 'a::len word) = d"
proof (rule nth_equalityI)
  show "length (le_bytes k (le_word k d :: 'a word)) = length d"
    using assms by (simp add: le_bytes_def)
next
  fix i assume "i < length (le_bytes k (le_word k d :: 'a word))"
  then have i: "i < k" by (simp add: le_bytes_def)
  show "le_bytes k (le_word k d :: 'a word) ! i = d ! i"
  proof (rule bit_word_eqI)
    fix n assume "n < LENGTH(8)"
    then have "n < 8" by simp
    moreover from this i have "i * 8 + n < 8 * k" by simp
    moreover from \<open>n < 8\<close> have "(i * 8 + n) div 8 = i" "(i * 8 + n) mod 8 = n" by simp_all
    ultimately show "bit (le_bytes k (le_word k d :: 'a word) ! i) n = bit (d ! i) n"
      using i assms(2) by (simp add: le_bytes_def bit_simps bit_le_word)
  qed
qed

lemma put_eq_le_bytes:
  "put_u16 v = le_bytes 2 v" "put_u32 w = le_bytes 4 w" "put_u64 x = le_bytes 8 x"
  by (simp_all add: put_u16_def put_u32_def put_u64_def le_bytes_def upt_rec)

lemma read_eq_le_word:
  "read_u16 d = le_word 2 d" "read_u32 d = le_word 4 d" "read_u64 d = le_word 8 d"
  by (simp_all add: read_u16_def read_u32_def read_u64_def le_word_def upt_rec numeral_eq_Suc or.assoc)

interpretation u16: field_codec put_u16 read_u16 2
  by unfold_locales
    (simp_all add: put_eq_le_bytes read_eq_le_word le_word_le_bytes le_bytes_le_word,
      simp add: le_bytes_def)

interpretation u32: field_codec put_u32 read_u32 4
  by unfold_locales
    (simp_all add: put_eq_le_bytes read_eq_le_word le_word_le_bytes le_bytes_le_word,
      simp add: le_bytes_def)

interpretation u64: field_codec put_u64 read_u64 8
  by unfold_locales
    (simp_all add: put_eq_le_bytes read_eq_le_word le_word_le_bytes le_bytes_le_word,
      simp add: le_bytes_def)

lemma read_i64_put: "read_i64 (put_u64 v) = sint v"
  by (simp add: read_i64_def u64.dec_enc_nil)

end
