(* ===== verification/Crc.thy ===== *)
theory Crc
  imports Bytes_LE
begin

text \<open>
  The CRC-32 of \<open>src/src/backend/object.c\<close> (\<open>cc64_crc32\<close>, \<open>cc64_file_crc32\<close>) and its copy
  \<open>link_crc32\<close> in \<open>src/src/linker/linker.c\<close>. One iteration of the inner loop is
  \<open>crc_bit\<close>, one of the outer loop is \<open>crc_byte\<close>. The theorems show that the checksum tells
  apart any two messages of the same length that differ only within four consecutive bytes.
\<close>

definition crc_bit :: "u32 \<Rightarrow> u32" where
  "crc_bit crc = drop_bit 1 crc XOR (0xedb88320 AND (- (crc AND 1)))"

definition crc_byte :: "u32 \<Rightarrow> byte \<Rightarrow> u32" where
  "crc_byte crc b = (crc_bit ^^ 8) (crc XOR ucast b)"

definition cc64_crc32 :: "byte list \<Rightarrow> u32" where
  "cc64_crc32 data = NOT (foldl crc_byte 0xffffffff data)"

definition link_crc32 :: "byte list \<Rightarrow> u32" where
  "link_crc32 data = NOT (foldl crc_byte 0xffffffff data)"

text \<open>
  The file checksum clears the checksum field (bytes 68 to 71), sums the whole file and puts
  the field back, so the buffer itself is unchanged.
\<close>

definition cc64_file_crc32 :: "byte list \<Rightarrow> u32" where
  "cc64_file_crc32 data =
     (if length data < 72 then 0 else cc64_crc32 (patch data 68 (replicate 4 0)))"

subsection \<open>The interface: a checksum that detects short bursts\<close>

locale burst_checksum =
  fixes step :: "'s \<Rightarrow> byte \<Rightarrow> 's"
    and window :: nat
  assumes step_inj: "step s b = step t b \<Longrightarrow> s = t"
    and window_inj:
      "length u = window \<Longrightarrow> length v = window \<Longrightarrow> foldl step s u = foldl step s v \<Longrightarrow> u = v"
begin

lemma fold_inj: "foldl step s xs = foldl step t xs \<Longrightarrow> s = t"
  by (induction xs arbitrary: s t) (auto dest: step_inj)

lemma short_window_inj:
  assumes "length u = length v" "length u \<le> window" "foldl step s u = foldl step s v"
  shows "u = v"
proof -
  define pad where "pad = replicate (window - length u) (0 :: byte)"
  have "u @ pad = v @ pad"
    by (rule window_inj [where s = s]) (use assms in \<open>simp_all add: pad_def\<close>)
  then show ?thesis by simp
qed

lemma detects_burst:
  assumes "length u = length v" "length u \<le> window" "u \<noteq> v"
  shows "foldl step s (pre @ u @ post) \<noteq> foldl step s (pre @ v @ post)"
  using assms short_window_inj [of u v "foldl step s pre"]
  by (auto dest!: fold_inj [of "foldl step (foldl step s pre) u"])

end

subsection \<open>The shift register\<close>

lemma crc_bit_alt: "crc_bit c = drop_bit 1 c XOR (if odd c then 0xedb88320 else 0)"
  by (simp add: crc_bit_def and_one_eq mod_2_eq_odd)

lemma crc_bit_linear: "crc_bit (x XOR y) = crc_bit x XOR crc_bit y"
  by (auto simp: crc_bit_alt drop_bit_xor even_xor_iff ac_simps)

lemma crc_bit_bit31: "bit (crc_bit c) 31 \<longleftrightarrow> odd c"
  by (auto simp: crc_bit_alt bit_simps dest: bit_imp_le_length)

lemma crc_bit_zero: "crc_bit c = 0 \<Longrightarrow> c = 0"
proof -
  assume z: "crc_bit c = 0"
  then have "even c" using crc_bit_bit31 [of c] by simp
  with z have "drop_bit 1 c = 0" by (simp add: crc_bit_alt)
  then have "bit c n \<Longrightarrow> n = 0" for n
    using bit_drop_bit_eq [of 1 c] by (cases n) (simp_all add: fun_eq_iff)
  with \<open>even c\<close> have "\<not> bit c n" for n by (metis bit_0)
  then show "c = 0" by (auto intro: bit_word_eqI)
qed

lemma xor_cancel: "x XOR z = y XOR z \<Longrightarrow> x = (y :: 'a::len word)"
  by (metis xor.assoc xor_self_eq xor.right_neutral)

lemma xor_cancel_left: "z XOR x = z XOR y \<Longrightarrow> x = (y :: 'a::len word)"
  using xor_cancel [of x z y] by (simp add: xor.commute)

lemma crc_bits_linear: "(crc_bit ^^ n) (x XOR y) = (crc_bit ^^ n) x XOR (crc_bit ^^ n) y"
  by (induction n) (simp_all add: crc_bit_linear)

lemma crc_bits_inj: "(crc_bit ^^ n) x = (crc_bit ^^ n) y \<Longrightarrow> x = y"
proof -
  assume eq: "(crc_bit ^^ n) x = (crc_bit ^^ n) y"
  have zero: "(crc_bit ^^ n) c = 0 \<Longrightarrow> c = 0" for c
    by (induction n) (auto dest: crc_bit_zero)
  from eq have "(crc_bit ^^ n) (x XOR y) = 0" by (simp add: crc_bits_linear)
  then have "x XOR y = 0" by (rule zero)
  then have "x XOR y = y XOR y" by simp
  then show ?thesis by (rule xor_cancel)
qed

text \<open>Bits that have not reached the end of the register are only shifted.\<close>

lemma crc_bits_shift:
  "(\<And>i. i < n \<Longrightarrow> \<not> bit y i) \<Longrightarrow> (crc_bit ^^ n) y = drop_bit n y"
proof (induction n)
  case 0
  then show ?case by simp
next
  case (Suc n)
  then have "(crc_bit ^^ n) y = drop_bit n y" by simp
  moreover have "even (drop_bit n y)"
    using Suc.prems [of n] fun_cong [OF bit_drop_bit_eq [of n y], of 0] by (simp add: bit_0)
  ultimately have "(crc_bit ^^ Suc n) y = drop_bit 1 (drop_bit n y)"
    by (simp only: funpow.simps comp_apply crc_bit_alt if_False xor.right_neutral not_not simp_thms)
  then show ?case by (simp only: drop_bit_drop_bit plus_1_eq_Suc)
qed

lemma le_word_Cons:
  "(le_word (Suc k) (b # bs) :: u32) = ucast b XOR push_bit 8 (le_word k bs)"
proof (rule bit_word_eqI)
  fix n assume n: "n < LENGTH(32)"
  show "bit (le_word (Suc k) (b # bs) :: u32) n = bit (ucast b XOR push_bit 8 (le_word k bs) :: u32) n"
  proof (cases "n < 8")
    case True
    with n show ?thesis by (auto simp: bit_le_word bit_simps)
  next
    case False
    then obtain m where m: "n = m + 8" by (metis add.commute le_Suc_ex not_less)
    then have "n div 8 = Suc (m div 8)" "n mod 8 = m mod 8" by simp_all
    with m n show ?thesis by (auto simp: bit_le_word bit_simps dest: bit_byteD)
  qed
qed

text \<open>Up to four bytes enter the register as one little-endian number.\<close>

lemma fold_crc_byte:
  "length bs \<le> 4 \<Longrightarrow>
     foldl crc_byte s bs = (crc_bit ^^ (8 * length bs)) (s XOR le_word (length bs) bs)"
proof (induction bs arbitrary: s)
  case Nil
  then show ?case by (simp add: le_word_def)
next
  case (Cons b bs)
  let ?w = "le_word (length bs) bs :: u32"
  from Cons.prems have "\<not> bit ?w i" if "24 \<le> i" for i
    using that by (simp add: bit_le_word)
  then have "drop_bit 8 (push_bit 8 ?w) = ?w"
    by (auto intro!: bit_word_eqI simp: bit_simps) (meson not_le)
  moreover have "(crc_bit ^^ 8) (push_bit 8 ?w) = drop_bit 8 (push_bit 8 ?w)"
    by (rule crc_bits_shift) (simp add: bit_simps)
  ultimately have "crc_byte s b XOR ?w = (crc_bit ^^ 8) (s XOR ucast b XOR push_bit 8 ?w)"
    by (simp add: crc_byte_def crc_bits_linear xor.assoc)
  moreover have "foldl crc_byte s (b # bs) = (crc_bit ^^ (8 * length bs)) (crc_byte s b XOR ?w)"
    using Cons by simp
  ultimately have "foldl crc_byte s (b # bs) =
      (crc_bit ^^ (8 * length bs)) ((crc_bit ^^ 8) (s XOR ucast b XOR push_bit 8 ?w))"
    by (simp only:)
  also have "\<dots> = (crc_bit ^^ (8 * length bs + 8)) (s XOR ucast b XOR push_bit 8 ?w)"
    by (simp only: funpow_add comp_apply)
  also have "8 * length bs + 8 = 8 * length (b # bs)" by simp
  finally show ?case by (simp only: le_word_Cons xor.assoc list.size(4) add_Suc_right add_0_right)
qed

interpretation crc: burst_checksum crc_byte 4
proof unfold_locales
  fix s t :: u32 and b assume "crc_byte s b = crc_byte t b"
  then have "s XOR ucast b = t XOR ucast b"
    unfolding crc_byte_def by (rule crc_bits_inj)
  then show "s = t" by (rule xor_cancel)
next
  fix u v :: "byte list" and s :: u32
  assume len: "length u = 4" "length v = 4" and "foldl crc_byte s u = foldl crc_byte s v"
  then have "(crc_bit ^^ 32) (s XOR le_word 4 u) = (crc_bit ^^ 32) (s XOR le_word 4 v)"
    using fold_crc_byte [of u s] fold_crc_byte [of v s] by (simp only: le_numeral_extra mult_numeral_1 order_refl) simp
  then have "s XOR le_word 4 u = s XOR le_word 4 v" by (rule crc_bits_inj)
  then have "read_u32 u = read_u32 v"
    unfolding read_eq_le_word by (rule xor_cancel_left)
  with len show "u = v" by (simp add: u32.dec_inject)
qed

lemma link_crc32_eq: "link_crc32 = cc64_crc32"
  by (simp add: fun_eq_iff link_crc32_def cc64_crc32_def)

text \<open>
  Two byte sequences of the same length that differ only inside a window of at most four
  consecutive bytes never have the same CRC-32: every burst error of up to 32 bits is detected.
\<close>

lemma crc32_detects_burst:
  assumes "length u = length v" and "length u \<le> 4" and "u \<noteq> v"
  shows "cc64_crc32 (pre @ u @ post) \<noteq> cc64_crc32 (pre @ v @ post)"
  unfolding cc64_crc32_def using crc.detects_burst [OF assms] by (metis bit.double_compl)

lemma crc32_detects_burst_witness:
  "cc64_crc32 ([1, 2] @ [3, 4, 5, 6] @ [7]) \<noteq> cc64_crc32 ([1, 2] @ [3, 9, 5, 6] @ [7])"
  by (rule crc32_detects_burst) simp_all

end
