(* ===== verification/Object_Builder.thy ===== *)
theory Object_Builder
  imports Crc "HOL-Library.Product_Lexorder" "HOL-Library.List_Lexorder" "HOL-Library.Multiset"
begin

text \<open>
  The object builder of \<open>src/src/backend/object.c\<close> (declared in \<open>src/src/backend/object.h\<close>):
  the tables the encoder fills, the operations that fill them, the symbol search and the symbol
  order. A pointer into \<open>builder->sections\<close> is the index of the section, and \<open>None\<close> is the
  null pointer; the pair of a size and a capacity is the length of the list. A \<open>Symbol *\<close> of the
  front end is the part of the symbol the object code reads, with its address as identity.
\<close>

datatype linkage = LINKAGE_NONE | LINKAGE_INTERNAL | LINKAGE_EXTERNAL

datatype symbol_class =
  SYMBOL_VARIABLE | SYMBOL_FUNCTION | SYMBOL_TYPEDEF | SYMBOL_ENUM_CONSTANT

record symbol_ref =
  sr_address :: nat
  sr_name :: cstring
  sr_linkage :: linkage
  sr_class :: symbol_class

record ir_relocation =
  ir_offset :: nat
  ir_symbol :: symbol_ref
  ir_type :: u32
  ir_addend :: u64
  ir_width :: u32

record object_section =
  os_name :: cstring
  os_kind :: byte
  os_alignment :: u32
  os_data :: "byte list"
  os_relocations :: "ir_relocation list"

record object_symbol =
  ob_name :: cstring
  ob_value :: u64
  ob_section_index :: u32
  ob_binding :: byte
  ob_kind :: byte
  ob_size :: u64
  ob_defined :: bool
  ob_source_symbol :: "symbol_ref option"

record object_builder =
  b_sections :: "object_section list"
  b_symbols :: "object_symbol list"

text \<open>Relocation types (\<open>CC64O_REL_*\<close>) and the object size limit.\<close>

abbreviation (input) REL_ABS32 :: u32 where "REL_ABS32 \<equiv> 1"
abbreviation (input) REL_ABS64 :: u32 where "REL_ABS64 \<equiv> 2"
abbreviation (input) REL_PC32 :: u32 where "REL_PC32 \<equiv> 3"
abbreviation (input) REL_SECTION32 :: u32 where "REL_SECTION32 \<equiv> 4"
abbreviation (input) REL_DATA64 :: u32 where "REL_DATA64 \<equiv> 5"

definition MIB256 :: nat where
  "MIB256 = 256 * 1024 * 1024"

definition MIB512 :: nat where
  "MIB512 = 512 * 1024 * 1024"

subsection \<open>Checked size arithmetic\<close>

definition size_add_size :: "nat \<Rightarrow> nat \<Rightarrow> nat option" where
  "size_add_size left right = (if right > SIZE_MAX - left then None else Some (left + right))"

definition size_mul_size :: "nat \<Rightarrow> nat \<Rightarrow> nat option" where
  "size_mul_size left right =
     (if left \<noteq> 0 \<and> right > SIZE_MAX div left then None else Some (left * right))"

lemma size_add_size_Some:
  "left \<le> SIZE_MAX \<Longrightarrow> size_add_size left right = Some s \<longleftrightarrow> s = left + right \<and> s \<le> SIZE_MAX"
  by (auto simp: size_add_size_def)

lemma size_mul_size_Some:
  "size_mul_size left right = Some s \<longleftrightarrow> s = left * right \<and> s \<le> SIZE_MAX"
proof (cases "left = 0")
  case False
  then have "right > SIZE_MAX div left \<longleftrightarrow> left * right > SIZE_MAX"
    by (simp add: div_less_iff_less_mult mult.commute)
  then show ?thesis by (auto simp: size_mul_size_def)
qed (auto simp: size_mul_size_def)

subsection \<open>Operations\<close>

definition object_builder_init :: object_builder where
  "object_builder_init = \<lparr>b_sections = [], b_symbols = []\<rparr>"

definition object_add_section ::
  "object_builder \<Rightarrow> cstring \<Rightarrow> byte \<Rightarrow> u32 \<Rightarrow> (object_builder \<times> nat) option" where
  "object_add_section b name kind alignment =
     (if kind > 3 \<or> alignment = 0 \<or> alignment AND (alignment - 1) \<noteq> 0 \<or> alignment > 32768
      then None
      else Some (b\<lparr>b_sections := b_sections b @
          [\<lparr>os_name = name, os_kind = kind, os_alignment = alignment, os_data = [],
            os_relocations = []\<rparr>]\<rparr>, length (b_sections b)))"

definition object_append_data ::
  "object_builder \<Rightarrow> nat option \<Rightarrow> byte list \<Rightarrow> object_builder option" where
  "object_append_data b section data =
     (case section of None \<Rightarrow> None
      | Some i \<Rightarrow>
          (let s = b_sections b ! i; used = length (os_data s)
           in if used > MIB256 \<or> length data > MIB256 - used then None
              else if length data > SIZE_MAX - used then None
              else Some (b\<lparr>b_sections := (b_sections b)[i := s\<lparr>os_data := os_data s @ data\<rparr>]\<rparr>)))"

definition object_add_symbol ::
  "object_builder \<Rightarrow> cstring \<Rightarrow> u64 \<Rightarrow> u32 \<Rightarrow> byte \<Rightarrow> byte \<Rightarrow> u64 \<Rightarrow> bool \<Rightarrow>
     object_builder option" where
  "object_add_symbol b name value section_index binding kind sz defined =
     (if binding > 1 \<or> kind > 4 then None
      else Some (b\<lparr>b_symbols := b_symbols b @
          [\<lparr>ob_name = name, ob_value = value, ob_section_index = section_index,
            ob_binding = binding, ob_kind = kind, ob_size = sz, ob_defined = defined,
            ob_source_symbol = None\<rparr>]\<rparr>))"

text \<open>
  \<open>find_symbol\<close>: the first entry made for the symbol, or the first one that is not tied to a
  symbol and has its name; \<open>UINT32_MAX\<close> when there is none. Two pointers are equal when their
  addresses are.
\<close>

definition symbol_matches :: "symbol_ref \<Rightarrow> object_symbol \<Rightarrow> bool" where
  "symbol_matches s e =
     (case ob_source_symbol e of
        Some s' \<Rightarrow> sr_address s' = sr_address s
      | None \<Rightarrow> ob_name e = sr_name s)"

fun find_symbol_from :: "nat \<Rightarrow> object_symbol list \<Rightarrow> symbol_ref \<Rightarrow> u32" where
  "find_symbol_from i [] s = 0xffffffff"
| "find_symbol_from i (e # es) s =
     (if symbol_matches s e then of_nat i else find_symbol_from (Suc i) es s)"

definition find_symbol :: "object_builder \<Rightarrow> symbol_ref \<Rightarrow> u32" where
  "find_symbol b s = find_symbol_from 0 (b_symbols b) s"

definition relocation_shape_ok :: "u32 \<Rightarrow> u32 \<Rightarrow> bool" where
  "relocation_shape_ok type width \<longleftrightarrow>
     \<not> (type < 1 \<or> type > 5) \<and> \<not> (width \<noteq> 4 \<and> width \<noteq> 8) \<and>
     \<not> (type = REL_ABS32 \<and> width \<noteq> 4) \<and> \<not> (type = REL_ABS64 \<and> width \<noteq> 8) \<and>
     \<not> (type = REL_PC32 \<and> width \<noteq> 4) \<and> \<not> (type = REL_SECTION32 \<and> width \<noteq> 4) \<and>
     \<not> (type = REL_DATA64 \<and> width \<noteq> 8)"

definition object_add_relocation ::
  "object_builder \<Rightarrow> nat option \<Rightarrow> nat \<Rightarrow> symbol_ref option \<Rightarrow> u32 \<Rightarrow> u64 \<Rightarrow> u32 \<Rightarrow>
     object_builder option" where
  "object_add_relocation b section offset symbol type addend width =
     (case (section, symbol) of
        (Some i, Some s) \<Rightarrow>
          (if \<not> relocation_shape_ok type width \<or> offset > MIB256 \<or> unat width > MIB256 - offset
           then None
           else
             let b1 = (if find_symbol b s = 0xffffffff then
                         let binding = (if sr_linkage s = LINKAGE_INTERNAL then 0 else 1);
                             kind = (if sr_class s = SYMBOL_FUNCTION then 2 else 1)
                         in map_option (\<lambda>b'. b'\<lparr>b_symbols := (b_symbols b')
                                [length (b_symbols b') - 1 :=
                                   last (b_symbols b')\<lparr>ob_source_symbol := Some s\<rparr>]\<rparr>)
                              (object_add_symbol b (sr_name s) 0 0xffffffff binding kind 0 False)
                       else Some b)
             in map_option (\<lambda>b'. b'\<lparr>b_sections := (b_sections b')
                    [i := (b_sections b' ! i)\<lparr>os_relocations :=
                       \<lparr>ir_offset = offset, ir_symbol = s, ir_type = type, ir_addend = addend,
                        ir_width = width\<rparr> # os_relocations (b_sections b' ! i)\<rparr>]\<rparr>) b1)
      | _ \<Rightarrow> None)"

subsection \<open>The symbol order\<close>

fun strcmp :: "cstring \<Rightarrow> cstring \<Rightarrow> int" where
  "strcmp [] [] = 0"
| "strcmp [] (y # ys) = -1"
| "strcmp (x # xs) [] = 1"
| "strcmp (x # xs) (y # ys) = (if x < y then -1 else if y < x then 1 else strcmp xs ys)"

definition object_symbol_compare :: "object_symbol \<Rightarrow> object_symbol \<Rightarrow> int" where
  "object_symbol_compare a b =
     (if ob_binding a \<noteq> ob_binding b then (if ob_binding a < ob_binding b then -1 else 1)
      else let name = strcmp (ob_name a) (ob_name b) in
      if name \<noteq> 0 then name
      else if ob_value a \<noteq> ob_value b then (if ob_value a < ob_value b then -1 else 1)
      else if ob_section_index a \<noteq> ob_section_index b
        then (if ob_section_index a < ob_section_index b then -1 else 1)
      else if ob_kind a \<noteq> ob_kind b then (if ob_kind a < ob_kind b then -1 else 1)
      else if ob_size a \<noteq> ob_size b then (if ob_size a < ob_size b then -1 else 1)
      else if ob_defined a \<noteq> ob_defined b then (if ob_defined a then 1 else -1)
      else 0)"

text \<open>
  The standard library's \<open>qsort\<close>. Any sort by the comparison gives the same list up to entries
  that compare equal; this one is an insertion sort.
\<close>

fun qsort_insert :: "('a \<Rightarrow> 'a \<Rightarrow> int) \<Rightarrow> 'a \<Rightarrow> 'a list \<Rightarrow> 'a list" where
  "qsort_insert cmp x [] = [x]"
| "qsort_insert cmp x (y # ys) =
     (if cmp x y \<le> 0 then x # y # ys else y # qsort_insert cmp x ys)"

definition qsort :: "('a \<Rightarrow> 'a \<Rightarrow> int) \<Rightarrow> 'a list \<Rightarrow> 'a list" where
  "qsort cmp xs = foldr (qsort_insert cmp) xs []"

text \<open>The interface of a comparison function: it reads off a linear order of keys.\<close>

locale comparison =
  fixes cmp :: "'a \<Rightarrow> 'a \<Rightarrow> int" and key :: "'a \<Rightarrow> 'k::linorder"
  assumes cmp_le: "cmp a b \<le> 0 \<longleftrightarrow> key a \<le> key b"
begin

lemma mset_insert: "mset (qsort_insert cmp x ys) = add_mset x (mset ys)"
  by (induction ys) auto

lemma mset_sort: "mset (qsort cmp xs) = mset xs"
  by (induction xs) (simp_all add: qsort_def mset_insert)

lemma sorted_insert:
  "sorted (map key ys) \<Longrightarrow> sorted (map key (qsort_insert cmp x ys))"
proof (induction ys)
  case Nil
  then show ?case by simp
next
  case (Cons y ys)
  have "set (qsort_insert cmp x ys) = insert x (set ys)"
    using mset_insert [of x ys] by (metis set_mset_add_mset_insert set_mset_mset)
  with Cons show ?case by (auto simp: cmp_le)
qed

lemma sorted_sort: "sorted (map key (qsort cmp xs))"
  by (induction xs) (simp_all add: qsort_def sorted_insert)

lemma length_sort: "length (qsort cmp xs) = length xs"
  using mset_sort by (metis size_mset)

lemma set_sort: "set (qsort cmp xs) = set xs"
  using mset_sort by (metis set_mset_mset)

end

lemma strcmp_eq_0: "strcmp a b = 0 \<longleftrightarrow> a = b"
  by (induction a b rule: strcmp.induct) auto

lemma strcmp_le_0: "strcmp a b \<le> 0 \<longleftrightarrow> a \<le> b"
  by (induction a b rule: strcmp.induct) auto

definition object_symbol_key ::
  "object_symbol \<Rightarrow> byte \<times> cstring \<times> u64 \<times> u32 \<times> byte \<times> u64 \<times> bool" where
  "object_symbol_key a = (ob_binding a, ob_name a, ob_value a, ob_section_index a, ob_kind a,
     ob_size a, ob_defined a)"

lemma pair_le_iff:
  "(x :: 'a::linorder, y :: 'b::linorder) \<le> (x', y') \<longleftrightarrow> (if x \<noteq> x' then x < x' else y \<le> y')"
  by auto

lemma if_le_0: "(if c then x else y) \<le> (0 :: int) \<longleftrightarrow> (if c then x \<le> 0 else y \<le> 0)"
  by simp

interpretation symbol_order: comparison object_symbol_compare object_symbol_key
proof unfold_locales
  fix a b :: object_symbol
  have "strcmp (ob_name a) (ob_name b) \<noteq> 0 \<Longrightarrow>
      strcmp (ob_name a) (ob_name b) \<le> 0 \<longleftrightarrow> ob_name a < ob_name b"
    by (simp add: strcmp_le_0 strcmp_eq_0 less_le)
  then show "object_symbol_compare a b \<le> 0 \<longleftrightarrow> object_symbol_key a \<le> object_symbol_key b"
    unfolding object_symbol_compare_def object_symbol_key_def Let_def pair_le_iff if_le_0
    by (simp add: strcmp_eq_0 cong: if_cong)
qed

subsection \<open>The invariant of a builder\<close>

definition section_ok :: "object_section \<Rightarrow> bool" where
  "section_ok s \<longleftrightarrow> os_kind s \<le> 3 \<and> os_alignment s \<in> (\<lambda>k. 2 ^ k) ` {..15} \<and>
     length (os_data s) \<le> MIB256"

definition reloc_ok :: "object_symbol list \<Rightarrow> ir_relocation \<Rightarrow> bool" where
  "reloc_ok syms r \<longleftrightarrow> relocation_shape_ok (ir_type r) (ir_width r) \<and>
     ir_offset r + unat (ir_width r) \<le> MIB256 \<and> list_ex (symbol_matches (ir_symbol r)) syms"

definition builder_ok :: "object_builder \<Rightarrow> bool" where
  "builder_ok b \<longleftrightarrow>
     (\<forall>s \<in> set (b_sections b). section_ok s \<and> (\<forall>r \<in> set (os_relocations s). reloc_ok (b_symbols b) r)) \<and>
     (\<forall>y \<in> set (b_symbols b). ob_binding y \<le> 1 \<and> ob_kind y \<le> 4)"

lemma and_pred_zero_nat: "n \<noteq> 0 \<Longrightarrow> n AND (n - 1) = 0 \<Longrightarrow> \<exists>k. n = 2 ^ k" for n :: nat
proof (induction n rule: less_induct)
  case (less n)
  show ?case
  proof (cases "even n")
    case True
    then obtain m where n: "n = 2 * m" by blast
    with less.prems have "m > 0" by simp
    then have "n - 1 = Suc (2 * (m - 1))" using n by simp
    then have "2 * (m AND (m - 1)) = 0"
      using less.prems(2) n by (subst (asm) and_nat_rec) simp
    with n \<open>m > 0\<close> less.IH [of m] obtain k where "m = 2 ^ k" by auto
    with n have "n = 2 ^ Suc k" by simp
    then show ?thesis by blast
  next
    case False
    then obtain m where n: "n = Suc (2 * m)" by (auto elim: oddE)
    then have "2 * (m AND m) = 0" using less.prems(2) by (subst (asm) and_nat_rec) simp
    with n have "n = 2 ^ 0" by simp
    then show ?thesis by blast
  qed
qed

lemma alignment_power_of_two:
  assumes "a \<noteq> 0" "a AND (a - 1) = 0" "a \<le> (32768 :: u32)"
  shows "a \<in> (\<lambda>k. 2 ^ k) ` {..15}"
proof -
  have "unat (a - 1) = unat a - 1" using assms(1) by (simp add: unat_minus_one)
  then have "unat a AND (unat a - 1) = 0"
    using assms(2) unsigned_and_eq [of a "a - 1"] by (metis unsigned_0)
  moreover have "unat a \<noteq> 0" using assms(1) by (simp add: unat_eq_0)
  ultimately obtain k where k: "unat a = 2 ^ k" using and_pred_zero_nat by blast
  have "unat a \<le> 2 ^ 15" using assms(3) by (simp add: word_le_nat_alt)
  with k have "(2::nat) ^ k \<le> 2 ^ 15" by simp
  then have "k \<le> 15" by (rule power_le_imp_le_exp [rotated]) simp
  moreover have "a = of_nat (unat a)" by simp
  with k have "a = 2 ^ k" by simp
  ultimately show ?thesis by blast
qed

lemma reloc_ok_append: "reloc_ok syms r \<Longrightarrow> reloc_ok (syms @ es) r"
  by (auto simp: reloc_ok_def)

lemma builder_ok_append_symbol:
  "builder_ok b \<Longrightarrow> ob_binding e \<le> 1 \<Longrightarrow> ob_kind e \<le> 4 \<Longrightarrow>
     builder_ok (b\<lparr>b_symbols := b_symbols b @ [e]\<rparr>)"
  by (auto simp: builder_ok_def intro: reloc_ok_append)

lemma builder_ok_update_section:
  "builder_ok b \<Longrightarrow> section_ok s \<Longrightarrow> (\<forall>r \<in> set (os_relocations s). reloc_ok (b_symbols b) r) \<Longrightarrow>
     builder_ok (b\<lparr>b_sections := (b_sections b)[i := s]\<rparr>)"
  using set_update_subset_insert [of "b_sections b" i s] by (auto simp: builder_ok_def)

lemma find_symbol_from_found:
  "find_symbol_from i es s \<noteq> 0xffffffff \<Longrightarrow> list_ex (symbol_matches s) es"
  by (induction i es s rule: find_symbol_from.induct) (auto split: if_splits)

lemma add_section_ok:
  "builder_ok b \<Longrightarrow> object_add_section b name kind alignment = Some (b', i) \<Longrightarrow> builder_ok b'"
  using alignment_power_of_two [of alignment]
  by (auto simp: object_add_section_def builder_ok_def section_ok_def split: if_splits)

lemma add_symbol_ok:
  "builder_ok b \<Longrightarrow> object_add_symbol b n v x bnd k z d = Some b' \<Longrightarrow> builder_ok b'"
  by (auto simp: object_add_symbol_def intro: builder_ok_append_symbol split: if_splits)

lemma append_data_ok:
  assumes "builder_ok b" "object_append_data b section data = Some b'"
  shows "builder_ok b'"
proof -
  from assms(2) obtain i where i: "section = Some i"
    and b': "b' = b\<lparr>b_sections := (b_sections b)[i := (b_sections b ! i)\<lparr>os_data := os_data (b_sections b ! i) @ data\<rparr>]\<rparr>"
    and len: "length (os_data (b_sections b ! i)) + length data \<le> MIB256"
    by (auto simp: object_append_data_def Let_def split: option.splits if_splits)
  show ?thesis
  proof (cases "i < length (b_sections b)")
    case True
    then have "b_sections b ! i \<in> set (b_sections b)" by simp
    with assms(1) len have "section_ok ((b_sections b ! i)\<lparr>os_data := os_data (b_sections b ! i) @ data\<rparr>)"
      "\<forall>r \<in> set (os_relocations (b_sections b ! i)). reloc_ok (b_symbols b) r"
      by (auto simp: builder_ok_def section_ok_def)
    with assms(1) b' show ?thesis by (simp add: builder_ok_update_section)
  next
    case False
    with assms(1) b' show ?thesis by (simp add: list_update_beyond)
  qed
qed

lemma add_relocation_ok:
  assumes b: "builder_ok b"
    and add: "object_add_relocation b section offset symbol type addend width = Some b'"
  shows "builder_ok b'"
proof -
  from add obtain i s where idx: "section = Some i" "symbol = Some s"
    by (auto simp: object_add_relocation_def split: option.splits)
  define binding kind :: byte
    where "binding = (if sr_linkage s = LINKAGE_INTERNAL then 0 else 1)"
      and "kind = (if sr_class s = SYMBOL_FUNCTION then 2 else 1)"
  define e where "e = \<lparr>ob_name = sr_name s, ob_value = 0, ob_section_index = 0xffffffff,
     ob_binding = binding, ob_kind = kind, ob_size = 0, ob_defined = False, ob_source_symbol = Some s\<rparr>"
  define b1 where "b1 = (if find_symbol b s = 0xffffffff then b\<lparr>b_symbols := b_symbols b @ [e]\<rparr> else b)"
  let ?r = "\<lparr>ir_offset = offset, ir_symbol = s, ir_type = type, ir_addend = addend, ir_width = width\<rparr>"
  let ?sec = "(b_sections b1 ! i)\<lparr>os_relocations := ?r # os_relocations (b_sections b1 ! i)\<rparr>"
  from add idx have shape: "relocation_shape_ok type width" "offset + unat width \<le> MIB256"
    and b': "b' = b1\<lparr>b_sections := (b_sections b1)[i := ?sec]\<rparr>"
    by (auto simp: object_add_relocation_def object_add_symbol_def b1_def e_def binding_def kind_def
        Let_def split: if_splits)
  have b1: "builder_ok b1"
    using b by (auto simp: b1_def e_def binding_def kind_def intro!: builder_ok_append_symbol)
  have "list_ex (symbol_matches s) (b_symbols b1)"
    using find_symbol_from_found [of 0 "b_symbols b" s]
    by (auto simp: b1_def e_def find_symbol_def symbol_matches_def)
  with shape have r: "reloc_ok (b_symbols b1) ?r" by (simp add: reloc_ok_def)
  show ?thesis
  proof (cases "i < length (b_sections b1)")
    case True
    then have "b_sections b1 ! i \<in> set (b_sections b1)" by simp
    with b1 r have "section_ok ?sec" "\<forall>q \<in> set (os_relocations ?sec). reloc_ok (b_symbols b1) q"
      by (auto simp: builder_ok_def section_ok_def)
    with b1 b' show ?thesis by (simp add: builder_ok_update_section)
  next
    case False
    with b1 b' show ?thesis by (simp add: list_update_beyond)
  qed
qed

text \<open>A whole session with a builder: a call that returns false leaves it as it was.\<close>

datatype builder_op =
    AddSection cstring byte u32
  | AppendData "nat option" "byte list"
  | AddSymbol cstring u64 u32 byte byte u64 bool
  | AddRelocation "nat option" nat "symbol_ref option" u32 u64 u32

fun builder_apply :: "object_builder \<Rightarrow> builder_op \<Rightarrow> object_builder option" where
  "builder_apply b (AddSection n k a) = map_option fst (object_add_section b n k a)"
| "builder_apply b (AppendData s d) = object_append_data b s d"
| "builder_apply b (AddSymbol n v x bnd k z d) = object_add_symbol b n v x bnd k z d"
| "builder_apply b (AddRelocation s off y t a w) = object_add_relocation b s off y t a w"

inductive builder_reachable :: "object_builder \<Rightarrow> bool" where
  init: "builder_reachable object_builder_init"
| step: "builder_reachable b \<Longrightarrow> builder_apply b op = Some b' \<Longrightarrow> builder_reachable b'"

lemma builder_apply_ok: "builder_ok b \<Longrightarrow> builder_apply b op = Some b' \<Longrightarrow> builder_ok b'"
  by (cases op) (auto intro: add_section_ok append_data_ok add_symbol_ok add_relocation_ok)

text \<open>
  C22. Every object builder reachable from an empty one by any sequence of the four builder calls is
  well formed: section kinds, power-of-two alignments up to 32768 and the 256 MiB limit hold, every
  symbol has a valid binding and kind, and every relocation has a type matching its width, lies
  under the limit and refers to a symbol of the table.
\<close>

theorem builder_reachable_ok: "builder_reachable b \<Longrightarrow> builder_ok b"
proof (induction rule: builder_reachable.induct)
  case init
  show ?case by (simp add: builder_ok_def object_builder_init_def)
next
  case (step b op b')
  then show ?case by (blast intro: builder_apply_ok)
qed

theorem builder_reachable_ok_witness:
  "builder_ok \<lparr>b_sections = [\<lparr>os_name = cstr ''.text'', os_kind = 0, os_alignment = 16, os_data = [],
     os_relocations = []\<rparr>], b_symbols = []\<rparr>"
proof (rule builder_reachable_ok)
  have "builder_apply object_builder_init (AddSection (cstr ''.text'') 0 16) =
      Some \<lparr>b_sections = [\<lparr>os_name = cstr ''.text'', os_kind = 0, os_alignment = 16, os_data = [],
        os_relocations = []\<rparr>], b_symbols = []\<rparr>"
    by (simp add: object_builder_init_def object_add_section_def)
  then show "builder_reachable \<lparr>b_sections = [\<lparr>os_name = cstr ''.text'', os_kind = 0,
      os_alignment = 16, os_data = [], os_relocations = []\<rparr>], b_symbols = []\<rparr>"
    by (rule builder_reachable.step [OF builder_reachable.init])
qed

end
