(* ===== verification/Object_Writer.thy ===== *)
theory Object_Writer
  imports Object_Builder
begin

text \<open>
  The CC64O writer \<open>object_write_cc64o\<close> of \<open>src/src/backend/object.c\<close>: the string table, the
  order of relocations, the layout of the file and the stores that fill it, in the order the code
  performs them. The buffer is a byte list; each store is checked against its length.
\<close>

abbreviation (input) CC64O_HEADER_SIZE :: nat where "CC64O_HEADER_SIZE \<equiv> 96"
abbreviation (input) CC64O_SECTION_SIZE :: nat where "CC64O_SECTION_SIZE \<equiv> 40"
abbreviation (input) CC64O_SYMBOL_SIZE :: nat where "CC64O_SYMBOL_SIZE \<equiv> 32"
abbreviation (input) CC64O_RELOC_SIZE :: nat where "CC64O_RELOC_SIZE \<equiv> 32"

definition CC64_TARGET :: cstring where
  "CC64_TARGET = cstr ''x86_64-pc-dos64''"

definition CC64O_MAGIC :: "byte list" where
  "CC64O_MAGIC = cstr ''CC64OBJ'' @ [0]"

subsection \<open>The string table\<close>

record string_table =
  st_bytes :: "byte list"
  st_names :: "cstring list"

fun name_index :: "cstring list \<Rightarrow> cstring \<Rightarrow> nat option" where
  "name_index [] text = None"
| "name_index (n # ns) text = (if n = text then Some 0 else map_option Suc (name_index ns text))"

definition string_add :: "string_table \<Rightarrow> cstring \<Rightarrow> (diag, string_table \<times> u32) res" where
  "string_add t text =
     (case name_index (st_names t) text of
        Some i \<Rightarrow> Inr (t, sum_list (map (\<lambda>n. of_nat (length n) + 1) (take i (st_names t))))
      | None \<Rightarrow>
          (let len = length text + 1
           in if length (st_bytes t) > SIZE_MAX - len then Inl (Failed Silent)
              else Inr (\<lparr>st_bytes = st_bytes t @ text @ [0], st_names = st_names t @ [text]\<rparr>,
                        of_nat (length (st_bytes t)))))"

text \<open>The loops that enter every section name and every symbol name.\<close>

fun add_all :: "('t \<Rightarrow> cstring \<Rightarrow> ('e, 't \<times> u32) res) \<Rightarrow> 't \<Rightarrow> cstring list \<Rightarrow>
    ('e, 't \<times> u32 list) res" where
  "add_all add t [] = Inr (t, [])"
| "add_all add t (n # ns) =
     bindE (add t n) (\<lambda>(t1, off). bindE (add_all add t1 ns) (\<lambda>(t2, offs). Inr (t2, off # offs)))"

subsection \<open>Relocation order\<close>

definition reloc_less :: "object_builder \<Rightarrow> ir_relocation \<Rightarrow> ir_relocation \<Rightarrow> bool" where
  "reloc_less b p q \<longleftrightarrow> ir_offset p < ir_offset q \<or>
     (ir_offset p = ir_offset q \<and> find_symbol b (ir_symbol p) < find_symbol b (ir_symbol q))"

definition exchange :: "('a \<Rightarrow> 'a \<Rightarrow> bool) \<Rightarrow> nat \<Rightarrow> 'a list \<Rightarrow> nat \<Rightarrow> 'a list" where
  "exchange lt j xs k = (if lt (xs ! k) (xs ! j) then xs[j := xs ! k, k := xs ! j] else xs)"

definition exchange_sort :: "('a \<Rightarrow> 'a \<Rightarrow> bool) \<Rightarrow> 'a list \<Rightarrow> 'a list" where
  "exchange_sort lt xs =
     foldl (\<lambda>ys j. foldl (exchange lt j) ys [Suc j..<length xs]) xs [0..<length xs]"

definition ordered_relocations :: "object_builder \<Rightarrow> object_section \<Rightarrow> ir_relocation list" where
  "ordered_relocations b s = exchange_sort (reloc_less b) (os_relocations s)"

subsection \<open>Records\<close>

function alignment_power_from :: "nat \<Rightarrow> u32 \<Rightarrow> nat" where
  "alignment_power_from p alignment =
     (if 2 ^ p < unat alignment \<and> p < 15 then alignment_power_from (Suc p) alignment else p)"
  by pat_completeness auto
termination
  by (relation "measure (\<lambda>(p, alignment). 15 - p)") auto

declare alignment_power_from.simps [simp del]

definition alignment_power :: "u32 \<Rightarrow> nat" where
  "alignment_power alignment = alignment_power_from 0 alignment"

definition store_fields :: "byte list \<Rightarrow> nat \<Rightarrow> (nat \<times> byte list) list \<Rightarrow> ('e, byte list) res" where
  "store_fields file base flds = foldE (\<lambda>f (k, bs). store f (base + k) bs) file flds"

definition header_fields ::
  "nat \<Rightarrow> u32 \<Rightarrow> nat \<Rightarrow> nat \<Rightarrow> nat \<Rightarrow> nat \<Rightarrow> (nat \<times> byte list) list" where
  "header_fields string_offset target_offset nsections symbol_table nsymbols strings_size =
     [(0, CC64O_MAGIC), (8, put_u16 1), (10, put_u16 0x3433), (12, put_u16 1), (14, put_u16 62),
      (16, put_u32 (of_nat CC64O_HEADER_SIZE)),
      (20, put_u32 (of_nat (string_offset + unat target_offset))),
      (24, put_u32 (of_nat (length CC64_TARGET + 1))),
      (28, put_u32 (of_nat CC64O_HEADER_SIZE)), (32, put_u32 (of_nat nsections)),
      (36, put_u32 (of_nat symbol_table)), (40, put_u32 (of_nat nsymbols)),
      (44, put_u32 (of_nat string_offset)), (48, put_u32 (of_nat strings_size)),
      (52, replicate 44 0)]"

definition section_fields ::
  "nat \<Rightarrow> nat \<Rightarrow> u32 \<Rightarrow> u32 \<Rightarrow> object_section \<Rightarrow> (nat \<times> byte list) list" where
  "section_fields i relocation_end name_offset data_offset s =
     (let reloc_bytes = length (os_relocations s) * CC64O_RELOC_SIZE in
      [(0, put_u32 name_offset), (4, put_u32 data_offset), (8, put_u32 (of_nat (length (os_data s)))),
       (12, put_u32 (if reloc_bytes = 0 then 0
                     else of_nat (relocation_end - (relocation_end - reloc_bytes)))),
       (16, put_u32 (of_nat (length (os_relocations s)))),
       (20, put_u32 (of_nat (alignment_power (os_alignment s)))),
       (24, [os_kind s]), (25, [0]), (26, put_u16 (of_nat i)), (28, replicate 8 0),
       (36, put_u32 (if os_kind s = 3 then 0 else cc64_crc32 (os_data s)))])"

definition reloc_fields :: "object_builder \<Rightarrow> ir_relocation \<Rightarrow> (nat \<times> byte list) list" where
  "reloc_fields b r =
     [(0, put_u64 (of_nat (ir_offset r))), (8, put_u32 (find_symbol b (ir_symbol r))),
      (12, put_u32 (ir_type r)), (16, put_u64 (ir_addend r)), (24, put_u32 (ir_width r)),
      (28, put_u32 0)]"

definition symbol_fields :: "u32 \<Rightarrow> object_symbol \<Rightarrow> (nat \<times> byte list) list" where
  "symbol_fields name_offset y =
     [(0, put_u32 name_offset), (4, put_u32 (ucast (ob_value y))), (8, put_u32 (ob_section_index y)),
      (12, [ob_binding y]), (13, [ob_kind y]), (14, put_u16 0), (16, put_u64 (ob_size y)),
      (24, put_u32 0), (28, put_u32 0)]"

subsection \<open>Filling the file\<close>

definition place_data ::
  "byte list \<times> nat \<times> u32 list \<Rightarrow> object_section \<Rightarrow> (diag, byte list \<times> nat \<times> u32 list) res" where
  "place_data st s =
     (case st of (file, cursor, offs) \<Rightarrow>
        if os_kind s = 3 then Inr (file, cursor, offs @ [0])
        else if cursor > UINT32_MAX then Inl (Failed Silent)
        else bindE (if length (os_data s) \<noteq> 0 then store file cursor (os_data s) else Inr file)
               (\<lambda>f. Inr (f, cursor + length (os_data s), offs @ [of_nat cursor])))"

definition place_section ::
  "object_builder \<Rightarrow> nat \<Rightarrow> u32 list \<Rightarrow> u32 list \<Rightarrow> byte list \<Rightarrow> nat \<Rightarrow> (diag, byte list) res" where
  "place_section b relocation_end names datas file i =
     store_fields file (CC64O_HEADER_SIZE + i * CC64O_SECTION_SIZE)
       (section_fields i relocation_end (names ! i) (datas ! i) (b_sections b ! i))"

definition place_reloc ::
  "object_builder \<Rightarrow> byte list \<times> nat \<Rightarrow> ir_relocation \<Rightarrow> (diag, byte list \<times> nat) res" where
  "place_reloc b st r =
     (case st of (file, cursor) \<Rightarrow>
        bindE (store_fields file cursor (reloc_fields b r))
          (\<lambda>f. Inr (f, cursor + CC64O_RELOC_SIZE)))"

definition place_relocs ::
  "object_builder \<Rightarrow> byte list \<times> nat \<Rightarrow> nat \<Rightarrow> (diag, byte list \<times> nat) res" where
  "place_relocs b st i =
     (case st of (file, cursor) \<Rightarrow>
        let s = b_sections b ! i; record = CC64O_HEADER_SIZE + i * CC64O_SECTION_SIZE
        in bindE (store file (record + 12)
                    (put_u32 (if length (os_relocations s) = 0 then 0 else of_nat cursor)))
             (\<lambda>f. foldE (place_reloc b) (f, cursor) (ordered_relocations b s)))"

definition place_symbol ::
  "object_builder \<Rightarrow> nat \<Rightarrow> u32 list \<Rightarrow> byte list \<Rightarrow> nat \<Rightarrow> (diag, byte list) res" where
  "place_symbol b symbol_table names file i =
     (let y = b_symbols b ! i
      in if unat (ob_value y) > UINT32_MAX
         then Inl (Failed (Diag 4004 (cstr ''symbol value exceeds object field'')))
         else store_fields file (symbol_table + i * CC64O_SYMBOL_SIZE) (symbol_fields (names ! i) y))"

text \<open>
  The layout: the tables follow the header, then the relocation arrays, the strings and the
  payloads. Every sum is checked against \<open>SIZE_MAX\<close>, and the whole against the format limits.
\<close>

record object_layout =
  ol_symbols :: nat
  ol_relocs :: nat
  ol_strings :: nat
  ol_data :: nat
  ol_total :: nat

definition object_layout_of :: "object_builder \<Rightarrow> nat \<Rightarrow> (diag, object_layout) res" where
  "object_layout_of b strings_size =
     bindE (of_option Silent (size_add_size CC64O_HEADER_SIZE
              (length (b_sections b) * CC64O_SECTION_SIZE))) (\<lambda>symbol_table.
     bindE (of_option Silent (size_add_size symbol_table (length (b_symbols b) * CC64O_SYMBOL_SIZE)))
       (\<lambda>after_symbols.
     if symbol_table > UINT32_MAX then Inl (Failed Silent) else
     bindE (foldE (\<lambda>at s. bindE (of_option Silent (size_mul_size (length (os_relocations s)) CC64O_RELOC_SIZE))
              (\<lambda>bytes. of_option Silent (size_add_size at bytes))) after_symbols (b_sections b))
       (\<lambda>strings.
     bindE (of_option Silent (size_add_size strings strings_size)) (\<lambda>data_start.
     bindE (foldE (\<lambda>at s. if os_kind s = 3 then Inr at
              else of_option Silent (size_add_size at (length (os_data s)))) data_start (b_sections b))
       (\<lambda>filesize.
     if filesize > UINT32_MAX \<or> filesize > MIB512
     then Inl (Failed (Diag 4003 (cstr ''object file exceeds format limit'')))
     else Inr \<lparr>ol_symbols = symbol_table, ol_relocs = after_symbols, ol_strings = strings,
                ol_data = data_start, ol_total = filesize\<rparr>)))))"

definition sort_symbols :: "object_builder \<Rightarrow> object_builder" where
  "sort_symbols b = b\<lparr>b_symbols := qsort object_symbol_compare (b_symbols b)\<rparr>"

text \<open>The stores, in the order of the code.\<close>

definition fill_file ::
  "object_builder \<Rightarrow> object_layout \<Rightarrow> string_table \<Rightarrow> u32 \<Rightarrow> u32 list \<Rightarrow> u32 list \<Rightarrow>
     (diag, byte list) res" where
  "fill_file b l strings target names symbol_names =
     (let n = length (b_sections b); file = replicate (max 1 (ol_total l)) 0 in
      bindE (if length (st_bytes strings) \<noteq> 0 then store file (ol_strings l) (st_bytes strings)
             else Inr file) (\<lambda>file.
      bindE (foldE place_data (file, ol_data l, []) (b_sections b)) (\<lambda>(file, _, datas).
      bindE (store_fields file 0 (header_fields (ol_strings l) target n (ol_symbols l)
               (length (b_symbols b)) (length (st_bytes strings)))) (\<lambda>file.
      bindE (store file 64 (put_u32 (cc64_crc32 (take 64 file)))) (\<lambda>file.
      bindE (foldE (place_section b (ol_strings l) names datas) file [0..<n]) (\<lambda>file.
      bindE (foldE (place_relocs b) (file, ol_relocs l) [0..<n]) (\<lambda>(file, _).
      bindE (foldE (place_symbol b (ol_symbols l) symbol_names) file [0..<length (b_symbols b)])
        (\<lambda>file.
      store file 68 (put_u32 (cc64_file_crc32 (take (ol_total l) file)))))))))))"

definition object_image :: "object_builder \<Rightarrow> (diag, byte list) res" where
  "object_image b0 =
     (if length (b_sections b0) > 65535 \<or> length (b_symbols b0) > 1000000
      then Inl (Failed (Diag 4002 (cstr ''object table count exceeds format limit'')))
      else let b = sort_symbols b0 in
      bindE (string_add \<lparr>st_bytes = [], st_names = []\<rparr> []) (\<lambda>(t0, _).
      bindE (string_add t0 CC64_TARGET) (\<lambda>(t1, target).
      bindE (add_all string_add t1 (map os_name (b_sections b))) (\<lambda>(t2, names).
      bindE (add_all string_add t2 (map ob_name (b_symbols b))) (\<lambda>(strings, symbol_names).
      bindE (object_layout_of b (length (st_bytes strings))) (\<lambda>l.
      bindE (fill_file b l strings target names symbol_names) (\<lambda>file.
      Inr (take (ol_total l) file))))))))"

text \<open>
  The image is then written to the output file, which may fail; \<open>write_ok\<close> says whether the
  host wrote these bytes.
\<close>

definition object_write_cc64o ::
  "(cstring \<Rightarrow> byte list \<Rightarrow> bool) \<Rightarrow> object_builder \<Rightarrow> cstring \<Rightarrow> (diag, byte list) res" where
  "object_write_cc64o write_ok b path =
     bindE (object_image b) (\<lambda>image.
       if write_ok path image then Inr image
       else Inl (Failed (Diag 4001 (cstr ''cannot write CC64O output''))))"

end
