(* ===== verification/String_Table.thy ===== *)
theory String_Table
  imports Object_Writer
begin

text \<open>
  The string table of the object writer. The interface \<open>name_pool\<close> is what the writer relies on:
  adding a name returns an offset at which the pool holds that name and its terminator, and what
  the pool held before stays where it was. The loop \<open>add_all\<close> is proved against the interface.
\<close>

definition cstring_at :: "byte list \<Rightarrow> nat \<Rightarrow> cstring \<Rightarrow> bool" where
  "cstring_at bs off s \<longleftrightarrow> off + length s + 1 \<le> length bs \<and> chunk bs off (length s + 1) = s @ [0]"

lemma cstring_at_append: "cstring_at bs off s \<Longrightarrow> cstring_at (bs @ cs) off s"
  by (simp add: cstring_at_def chunk_append1)

locale name_pool =
  fixes add :: "'t \<Rightarrow> cstring \<Rightarrow> ('e, 't \<times> u32) res"
    and invar :: "'t \<Rightarrow> bool"
    and bytes :: "'t \<Rightarrow> byte list"
  assumes add_invar: "invar t \<Longrightarrow> add t s = Inr (t', off) \<Longrightarrow> invar t'"
    and add_keeps: "invar t \<Longrightarrow> add t s = Inr (t', off) \<Longrightarrow> \<exists>cs. bytes t' = bytes t @ cs"
    and add_at: "invar t \<Longrightarrow> add t s = Inr (t', off) \<Longrightarrow> length (bytes t') \<le> UINT32_MAX \<Longrightarrow>
      cstring_at (bytes t') (unat off) s"
begin

lemma add_all_pool:
  assumes "invar t" and "add_all add t names = Inr (t', offs)"
  shows "invar t' \<and> (\<exists>cs. bytes t' = bytes t @ cs) \<and> length offs = length names \<and>
    (length (bytes t') \<le> UINT32_MAX \<longrightarrow>
      (\<forall>i < length names. cstring_at (bytes t') (unat (offs ! i)) (names ! i)))"
  using assms
proof (induction names arbitrary: t offs)
  case Nil
  then show ?case by simp
next
  case (Cons n ns)
  from Cons.prems(2) obtain t1 off offs1
    where add: "add t n = Inr (t1, off)" and rest: "add_all add t1 ns = Inr (t', offs1)"
      and offs: "offs = off # offs1"
    by (auto split: prod.splits)
  have inv: "invar t1" by (rule add_invar [OF Cons.prems(1) add])
  from add_keeps [OF Cons.prems(1) add] obtain c1 where c1: "bytes t1 = bytes t @ c1" by blast
  note IH = Cons.IH [OF inv rest]
  then obtain c2 where c2: "bytes t' = bytes t1 @ c2" by blast
  have "cstring_at (bytes t') (unat off) n" if "length (bytes t') \<le> UINT32_MAX"
    using add_at [OF Cons.prems(1) add] that c2 by (simp add: cstring_at_append)
  with IH c1 c2 offs show ?case by (auto simp: nth_Cons split: nat.splits)
qed

end

subsection \<open>The table of the code\<close>

definition table_ok :: "string_table \<Rightarrow> bool" where
  "table_ok t \<longleftrightarrow> st_bytes t = concat (map (\<lambda>n. n @ [0]) (st_names t))"

lemma name_index_Some: "name_index ns s = Some i \<Longrightarrow> i < length ns \<and> ns ! i = s"
  by (induction ns arbitrary: i) (auto split: if_splits)

lemma offset_sum:
  "unat (sum_list (map (\<lambda>n. of_nat (length n) + 1) ns) :: u32) =
     length (concat (map (\<lambda>n. n @ [0 :: byte]) ns)) mod 2 ^ 32"
proof -
  have "(sum_list (map (\<lambda>n. of_nat (length n) + 1) ns) :: u32) =
      of_nat (length (concat (map (\<lambda>n. n @ [0 :: byte]) ns)))"
    by (induction ns) simp_all
  then show ?thesis by (simp add: unat_of_nat)
qed

lemma cstring_at_mid: "length a = off \<Longrightarrow> cstring_at (a @ (s @ [0]) @ c) off s"
  by (simp add: cstring_at_def chunk_def)

lemma cstring_at_nth_name:
  assumes "i < length ns"
  shows "cstring_at (concat (map (\<lambda>n. n @ [0]) ns))
     (length (concat (map (\<lambda>n. n @ [0 :: byte]) (take i ns)))) (ns ! i)"
proof -
  have "concat (map (\<lambda>n. n @ [0 :: byte]) ns) = concat (map (\<lambda>n. n @ [0]) (take i ns)) @
      (ns ! i @ [0]) @ concat (map (\<lambda>n. n @ [0]) (drop (Suc i) ns))"
    by (subst id_take_nth_drop [OF assms]) simp
  then show ?thesis by (metis cstring_at_mid)
qed

interpretation string_table: name_pool string_add table_ok st_bytes
proof unfold_locales
  fix t s t' off
  assume ok: "table_ok t" and add: "string_add t s = Inr (t', off)"
  show "table_ok t'"
    using ok add by (auto simp: string_add_def table_ok_def Let_def split: option.splits if_splits)
  show "\<exists>cs. st_bytes t' = st_bytes t @ cs"
    using add by (auto simp: string_add_def Let_def split: option.splits if_splits)
  assume len: "length (st_bytes t') \<le> UINT32_MAX"
  show "cstring_at (st_bytes t') (unat off) s"
  proof (cases "name_index (st_names t) s")
    case None
    with add have t': "st_bytes t' = st_bytes t @ (s @ [0]) @ []"
      and off: "off = of_nat (length (st_bytes t))"
      by (auto simp: string_add_def Let_def split: if_splits)
    with len have "unat off = length (st_bytes t)"
      by (simp add: unat_of_nat UINT32_MAX_def)
    with t' show ?thesis by (metis cstring_at_mid)
  next
    case (Some i)
    let ?enc = "\<lambda>ns. concat (map (\<lambda>n. n @ [0 :: byte]) ns)"
    from add Some have t': "t' = t"
      and off: "off = sum_list (map (\<lambda>n. of_nat (length n) + 1) (take i (st_names t)))"
      by (auto simp: string_add_def)
    from name_index_Some [OF Some] have i: "i < length (st_names t)" "st_names t ! i = s" by auto
    have "cstring_at (st_bytes t) (length (?enc (take i (st_names t)))) s"
      using cstring_at_nth_name [OF i(1)] ok i(2) by (simp add: table_ok_def)
    moreover from this len t' have "length (?enc (take i (st_names t))) < 2 ^ 32"
      by (simp add: cstring_at_def UINT32_MAX_def)
    ultimately show ?thesis using off offset_sum [of "take i (st_names t)"] t' by simp
  qed
qed

text \<open>
  Whatever names are entered into the object file's string table, repeated or not, every
  offset the table hands out is the position of that name and its terminator in the final table
  (as long as the table fits 32-bit offsets), and names already entered never move.
\<close>

lemma string_table_offsets:
  assumes "add_all string_add \<lparr>st_bytes = [], st_names = []\<rparr> names = Inr (t, offs)"
    and "length (st_bytes t) \<le> UINT32_MAX" and "i < length names"
  shows "chunk (st_bytes t) (unat (offs ! i)) (length (names ! i) + 1) = names ! i @ [0]"
proof -
  have "table_ok \<lparr>st_bytes = [], st_names = []\<rparr>" by (simp add: table_ok_def)
  from string_table.add_all_pool [OF this assms(1)] assms(2,3)
  have "cstring_at (st_bytes t) (unat (offs ! i)) (names ! i)" by blast
  then show ?thesis by (simp only: cstring_at_def)
qed

lemma string_table_offsets_witness:
  "chunk (cstr ''ab'' @ [0] @ cstr ''b'' @ [0]) (unat ([0, 3, 0] ! 2 :: u32))
     (length (cstr ''ab'') + 1) = cstr ''ab'' @ [0]"
proof -
  have "add_all string_add \<lparr>st_bytes = [], st_names = []\<rparr> [cstr ''ab'', cstr ''b'', cstr ''ab''] =
      Inr (\<lparr>st_bytes = cstr ''ab'' @ [0] @ cstr ''b'' @ [0], st_names = [cstr ''ab'', cstr ''b'']\<rparr>,
        [0, 3, 0 :: u32])"
    by (simp add: string_add_def cstr_def SIZE_MAX_def)
  from string_table_offsets [OF this, of 2] show ?thesis
    by (simp add: UINT32_MAX_def cstr_def)
qed

end
