(* ===== verification/Reloc_Order.thy ===== *)
theory Reloc_Order
  imports Object_Writer
begin

text \<open>
  The exchange sort that orders a section's relocations before they are written. The loop is
  proved for any strict comparison that reads off a linear order of keys (\<open>strict_comparison\<close>)
  and used for the comparison by offset and symbol index of the code.
\<close>

locale strict_comparison =
  fixes lt :: "'a \<Rightarrow> 'a \<Rightarrow> bool" and key :: "'a \<Rightarrow> 'k::linorder"
  assumes lt_iff: "lt a b \<longleftrightarrow> key a < key b"
begin

lemma length_exchange [simp]: "length (exchange lt j xs k) = length xs"
  by (simp add: exchange_def)

lemma mset_exchange:
  "j < length xs \<Longrightarrow> k < length xs \<Longrightarrow> mset (exchange lt j xs k) = mset xs"
  by (simp add: exchange_def mset_swap)

lemma take_exchange: "i \<le> j \<Longrightarrow> i \<le> k \<Longrightarrow> take i (exchange lt j xs k) = take i xs"
  by (simp add: exchange_def)

text \<open>The inner loop up to \<open>m\<close>: a permutation of the tail with its least element in front.\<close>

lemma inner_loop:
  assumes "j < length xs" and "Suc j \<le> m" and "m \<le> length xs"
  shows "let ys = foldl (exchange lt j) xs [Suc j..<m] in
     length ys = length xs \<and> take j ys = take j xs \<and> mset ys = mset xs \<and>
     (\<forall>k. j \<le> k \<and> k < m \<longrightarrow> key (ys ! j) \<le> key (ys ! k))"
  using assms(2,3)
proof (induction m rule: dec_induct)
  case base
  have "k = j" if "j \<le> k" "k < Suc j" for k using that by simp
  then have "\<forall>k. j \<le> k \<and> k < Suc j \<longrightarrow> key (xs ! j) \<le> key (xs ! k)" by blast
  then show ?case by (simp add: Let_def)
next
  case (step m)
  define ys where "ys = foldl (exchange lt j) xs [Suc j..<m]"
  from step have IH: "length ys = length xs" "take j ys = take j xs" "mset ys = mset xs"
      "\<And>k. j \<le> k \<Longrightarrow> k < m \<Longrightarrow> key (ys ! j) \<le> key (ys ! k)"
    by (auto simp: Let_def ys_def)
  have fold: "foldl (exchange lt j) xs [Suc j..<Suc m] = exchange lt j ys m"
    using step.hyps by (simp add: ys_def)
  have "key (exchange lt j ys m ! j) \<le> key (exchange lt j ys m ! k)"
    if k: "j \<le> k" "k < Suc m" for k
  proof (cases "lt (ys ! m) (ys ! j)")
    case True
    then have less: "key (ys ! m) < key (ys ! j)" by (simp add: lt_iff)
    have "exchange lt j ys m = ys[j := ys ! m, m := ys ! j]" using True by (simp add: exchange_def)
    then show ?thesis
      using k less IH(4) [of k] IH(1) step.hyps step.prems assms(1)
      by (cases "k = j"; cases "k = m") (auto simp: nth_list_update)
  next
    case False
    then have "exchange lt j ys m = ys" by (simp add: exchange_def)
    with False k IH(4) [of k] show ?thesis by (cases "k = m") (auto simp: lt_iff)
  qed
  moreover have "mset (exchange lt j ys m) = mset xs"
    using IH assms(1) step by (simp add: mset_exchange)
  moreover have "take j (exchange lt j ys m) = take j xs"
    using IH step.hyps by (simp add: take_exchange)
  ultimately show ?case unfolding Let_def fold using IH(1) by simp
qed

lemma outer_loop:
  "n \<le> length xs \<Longrightarrow>
     let ys = foldl (\<lambda>ys j. foldl (exchange lt j) ys [Suc j..<length xs]) xs [0..<n] in
     length ys = length xs \<and> mset ys = mset xs \<and>
     (\<forall>p q. p < n \<and> p \<le> q \<and> q < length xs \<longrightarrow> key (ys ! p) \<le> key (ys ! q))"
proof (induction n)
  case 0
  then show ?case by simp
next
  case (Suc n)
  define ys where "ys = foldl (\<lambda>ys j. foldl (exchange lt j) ys [Suc j..<length xs]) xs [0..<n]"
  define zs where "zs = foldl (exchange lt n) ys [Suc n..<length xs]"
  from Suc have IH: "length ys = length xs" "mset ys = mset xs"
      "\<And>p q. p < n \<Longrightarrow> p \<le> q \<Longrightarrow> q < length xs \<Longrightarrow> key (ys ! p) \<le> key (ys ! q)"
    by (auto simp: Let_def ys_def)
  from inner_loop [of n ys "length xs"] IH(1) Suc.prems
  have zs: "length zs = length xs" "take n zs = take n ys" "mset zs = mset ys"
      "\<And>k. n \<le> k \<Longrightarrow> k < length xs \<Longrightarrow> key (zs ! n) \<le> key (zs ! k)"
    by (auto simp: Let_def zs_def)
  have tail: "set (drop n zs) = set (drop n ys)"
  proof -
    have "mset (take n zs) + mset (drop n zs) = mset (take n ys) + mset (drop n ys)"
      using zs(3) by (metis append_take_drop_id mset_append)
    with zs(2) have "mset (drop n zs) = mset (drop n ys)" by simp
    then show ?thesis by (metis set_mset_mset)
  qed
  have "key (zs ! p) \<le> key (zs ! q)" if pq: "p < Suc n" "p \<le> q" "q < length xs" for p q
  proof (cases "p = n")
    case True
    with zs(4) pq show ?thesis by simp
  next
    case False
    with pq have p: "p < n" by simp
    then have zp: "zs ! p = ys ! p" by (metis nth_take zs(2))
    show ?thesis
    proof (cases "q < n")
      case True
      then have "zs ! q = ys ! q" by (metis nth_take zs(2))
      with zp IH(3) [OF p pq(2,3)] show ?thesis by simp
    next
      case False
      then obtain r where "q = n + r" by (metis le_Suc_ex not_less)
      with pq zs(1) have "zs ! q \<in> set (drop n zs)" by (auto simp: in_set_conv_nth intro!: exI [of _ r])
      then have "zs ! q \<in> set (drop n ys)" using tail by simp
      then obtain i where "i < length (drop n ys)" "drop n ys ! i = zs ! q"
        by (auto simp: in_set_conv_nth)
      then have "n + i < length ys" "zs ! q = ys ! (n + i)" by auto
      with IH(1,3) p zp show ?thesis by simp
    qed
  qed
  moreover have "foldl (\<lambda>ys j. foldl (exchange lt j) ys [Suc j..<length xs]) xs [0..<Suc n] = zs"
    by (simp add: ys_def zs_def)
  ultimately show ?case unfolding Let_def using zs IH by simp
qed

lemma exchange_sort_sorted: "sorted (map key (exchange_sort lt xs))"
  and exchange_sort_mset: "mset (exchange_sort lt xs) = mset xs"
  using outer_loop [of "length xs" xs]
  by (auto simp: Let_def exchange_sort_def sorted_iff_nth_mono)

lemma exchange_sort_length: "length (exchange_sort lt xs) = length xs"
  using exchange_sort_mset by (metis size_mset)

lemma exchange_sort_set: "set (exchange_sort lt xs) = set xs"
  using exchange_sort_mset by (metis set_mset_mset)

end

definition reloc_key :: "object_builder \<Rightarrow> ir_relocation \<Rightarrow> nat \<times> u32" where
  "reloc_key b r = (ir_offset r, find_symbol b (ir_symbol r))"

interpretation reloc_order: strict_comparison "reloc_less b" "reloc_key b" for b
  by unfold_locales (auto simp: reloc_less_def reloc_key_def)

text \<open>
  Whatever order the encoder recorded a section's relocations in, the writer emits the same
  relocations, none lost and none duplicated, ordered by offset and, at one offset, by symbol
  index.
\<close>

lemma relocations_ordered:
  "sorted (map (\<lambda>r. (ir_offset r, find_symbol b (ir_symbol r))) (ordered_relocations b s)) \<and>
   mset (ordered_relocations b s) = mset (os_relocations s)"
  using reloc_order.exchange_sort_sorted [of b "os_relocations s"]
    reloc_order.exchange_sort_mset [of b "os_relocations s"]
  by (simp add: ordered_relocations_def reloc_key_def [abs_def])

end
