(* ===== verification/Object_Format.thy ===== *)
theory Object_Format
  imports String_Table Reloc_Order
begin

text \<open>
  The CC64O file as one concatenation: the format the writer's stores produce. \<open>cc64o_file\<close> is
  the reference, header, section records, symbol records, relocation arrays, strings and payloads
  one after the other, and \<open>fill_file_eq\<close> shows that the stores of \<open>object_write_cc64o\<close>, in
  their order and with the relocation offsets patched in a second pass, produce it.
\<close>

subsection \<open>Stores that fill a region\<close>

fun laid_out :: "nat \<Rightarrow> (nat \<times> byte list) list \<Rightarrow> bool" where
  "laid_out k [] = True"
| "laid_out k ((j, bs) # fs) = (j = k \<and> laid_out (k + length bs) fs)"

abbreviation record_bytes :: "(nat \<times> byte list) list \<Rightarrow> byte list" where
  "record_bytes fs \<equiv> concat (map snd fs)"

lemma store_fields_laid_out:
  "laid_out k fs \<Longrightarrow> length a = base + k \<Longrightarrow> length x = length (record_bytes fs) \<Longrightarrow>
     store_fields (a @ x @ c) base fs = (Inr (a @ record_bytes fs @ c) :: (diag, byte list) res)"
proof (induction fs arbitrary: k a x)
  case Nil
  then show ?case by (simp add: store_fields_def)
next
  case (Cons f fs)
  obtain j bs where f: "f = (j, bs)" by (cases f)
  with Cons.prems have j: "j = k" "laid_out (k + length bs) fs" by simp_all
  from Cons.prems(3) f obtain x1 x2
    where x: "x = x1 @ x2" "length x1 = length bs" "length x2 = length (record_bytes fs)"
    by (metis (no_types) split_length list.simps(9) concat.simps(2) length_append snd_conv)
  have "store ((a @ x1) @ x2 @ c) (base + k) bs = Inr ((a @ bs) @ x2 @ c)"
    using store_mid [of a "base + k" x1 bs "x2 @ c"] Cons.prems(2) x(2) by simp
  moreover have "store_fields ((a @ bs) @ x2 @ c) base fs =
      (Inr ((a @ bs) @ record_bytes fs @ c) :: (diag, byte list) res)"
    by (rule Cons.IH [OF j(2) _ x(3)]) (use Cons.prems(2) in simp)
  ultimately show ?case using f j x by (simp add: store_fields_def)
qed

lemma foldE_blocks:
  assumes step: "\<And>i a x c. i < n \<Longrightarrow> length a = base + i * w \<Longrightarrow> length x = w \<Longrightarrow>
      f (a @ x @ c) i = Inr (a @ r i @ c)"
    and width: "\<And>i. i < n \<Longrightarrow> length (r i) = w"
    and a: "length a = base" and z: "length z = n * w"
  shows "foldE f (a @ z @ c) [0..<n] = Inr (a @ concat (map r [0..<n]) @ c)"
  using assms
proof (induction n arbitrary: z c)
  case 0
  then show ?case by simp
next
  case (Suc n)
  from Suc.prems(4) obtain z1 z2 where zz: "z = z1 @ z2" "length z1 = n * w" "length z2 = w"
    by (metis split_length mult_Suc add.commute)
  let ?R = "concat (map r [0..<n])"
  have "length ?R = n * w"
    using length_concat_chunks [of "map r [0..<n]" w] Suc.prems(2) by simp
  then have "f ((a @ ?R) @ z2 @ c) n = Inr ((a @ ?R) @ r n @ c)"
    using Suc.prems(3) zz(3) by (intro Suc.prems(1)) simp_all
  moreover have "foldE f (a @ z1 @ z2 @ c) [0..<n] = Inr (a @ ?R @ z2 @ c)"
    by (rule Suc.IH) (use Suc.prems zz in auto)
  ultimately show ?case using zz by (simp add: foldE_append)
qed

subsection \<open>Record sizes\<close>

lemma laid_out_records:
  "laid_out 0 (header_fields so t n st m ss)" "length (record_bytes (header_fields so t n st m ss)) = 96"
  "laid_out 0 (section_fields i re no d s)" "length (record_bytes (section_fields i re no d s)) = 40"
  "laid_out 0 (reloc_fields b r)" "length (record_bytes (reloc_fields b r)) = 32"
  "laid_out 0 (symbol_fields no y)" "length (record_bytes (symbol_fields no y)) = 32"
  by (simp_all add: header_fields_def section_fields_def reloc_fields_def symbol_fields_def Let_def
      CC64O_MAGIC_def cstr_def)

subsection \<open>The reference file\<close>

definition payload_of :: "object_section \<Rightarrow> byte list" where
  "payload_of s = (if os_kind s = 3 then [] else os_data s)"

fun payload_offsets :: "nat \<Rightarrow> object_section list \<Rightarrow> u32 list" where
  "payload_offsets at [] = []"
| "payload_offsets at (s # ss) =
     (if os_kind s = 3 then 0 else of_nat at) # payload_offsets (at + length (payload_of s)) ss"

definition reloc_block :: "object_builder \<Rightarrow> object_section \<Rightarrow> byte list" where
  "reloc_block b s = concat (map (\<lambda>r. record_bytes (reloc_fields b r)) (ordered_relocations b s))"

definition reloc_start :: "object_builder \<Rightarrow> nat \<Rightarrow> nat" where
  "reloc_start b i = 96 + length (b_sections b) * 40 + length (b_symbols b) * 32 +
     length (concat (map (reloc_block b) (take i (b_sections b))))"

definition section_bytes :: "object_builder \<Rightarrow> nat \<Rightarrow> u32 list \<Rightarrow> u32 list \<Rightarrow> nat \<Rightarrow> byte list" where
  "section_bytes b re names datas i =
     patch (record_bytes (section_fields i re (names ! i) (datas ! i) (b_sections b ! i))) 12
       (put_u32 (if length (os_relocations (b_sections b ! i)) = 0 then 0
                 else of_nat (reloc_start b i)))"

definition header_bytes :: "object_builder \<Rightarrow> object_layout \<Rightarrow> u32 \<Rightarrow> nat \<Rightarrow> byte list" where
  "header_bytes b l target ss =
     (let h = record_bytes (header_fields (ol_strings l) target (length (b_sections b)) (ol_symbols l)
                (length (b_symbols b)) ss)
      in patch h 64 (put_u32 (cc64_crc32 (take 64 h))))"

definition symbol_block :: "object_builder \<Rightarrow> u32 list \<Rightarrow> byte list" where
  "symbol_block b names = concat (map (\<lambda>i. record_bytes (symbol_fields (names ! i) (b_symbols b ! i)))
     [0..<length (b_symbols b)])"

definition cc64o_body ::
  "object_builder \<Rightarrow> object_layout \<Rightarrow> byte list \<Rightarrow> u32 \<Rightarrow> u32 list \<Rightarrow> byte list \<Rightarrow> byte list" where
  "cc64o_body b l strings target names symbols =
     header_bytes b l target (length strings) @
     concat (map (section_bytes b (ol_strings l) names (payload_offsets (ol_data l) (b_sections b)))
       [0..<length (b_sections b)]) @
     symbols @ concat (map (reloc_block b) (b_sections b)) @
     strings @ concat (map payload_of (b_sections b))"

definition cc64o_file ::
  "object_builder \<Rightarrow> object_layout \<Rightarrow> byte list \<Rightarrow> u32 \<Rightarrow> u32 list \<Rightarrow> u32 list \<Rightarrow> byte list" where
  "cc64o_file b l strings target names symbol_names =
     (let body = cc64o_body b l strings target names (symbol_block b symbol_names)
      in patch body 68 (put_u32 (cc64_file_crc32 body)))"

lemma length_reloc_block [simp]: "length (reloc_block b s) = length (os_relocations s) * 32"
  using length_concat_chunks [of "map (\<lambda>r. record_bytes (reloc_fields b r)) (ordered_relocations b s)" 32]
    reloc_order.exchange_sort_length [of b "os_relocations s"]
  by (simp add: reloc_block_def ordered_relocations_def laid_out_records)

lemma length_section_bytes [simp]: "length (section_bytes b re names datas i) = 40"
  by (simp add: section_bytes_def laid_out_records)

lemma length_header_bytes [simp]: "length (header_bytes b l target ss) = 96"
  by (simp add: header_bytes_def Let_def laid_out_records)

lemma length_symbol_block [simp]: "length (symbol_block b names) = length (b_symbols b) * 32"
  using length_concat_chunks [of "map (\<lambda>i. record_bytes (symbol_fields (names ! i) (b_symbols b ! i)))
     [0..<length (b_symbols b)]" 32]
  by (simp add: symbol_block_def laid_out_records)

lemma length_section_table [simp]:
  "length (concat (map (section_bytes b re names datas) [0..<n])) = n * 40"
  using length_concat_chunks [of "map (section_bytes b re names datas) [0..<n]" 40] by simp

lemma length_reloc_blocks:
  "length (concat (map (reloc_block b) ss)) = sum_list (map (\<lambda>s. length (os_relocations s)) ss) * 32"
  by (induction ss) simp_all

subsection \<open>The layout\<close>

lemma reloc_sizes_fold:
  assumes "foldE (\<lambda>at s. bindE (of_option Silent (size_mul_size (length (os_relocations s)) 32))
      (\<lambda>bytes. of_option Silent (size_add_size at bytes))) at ss = Inr y"
    and "at \<le> SIZE_MAX"
  shows "y = at + length (concat (map (reloc_block b) ss)) \<and> y \<le> SIZE_MAX"
  using assms
proof (induction ss arbitrary: at)
  case (Cons s ss)
  let ?at = "at + length (os_relocations s) * 32"
  let ?step = "\<lambda>at s. bindE (of_option Silent (size_mul_size (length (os_relocations s)) 32))
      (\<lambda>bytes. of_option Silent (size_add_size at bytes))"
  from Cons.prems have "foldE ?step ?at ss = Inr y" "?at \<le> SIZE_MAX"
    by (auto simp: size_mul_size_Some size_add_size_Some)
  from Cons.IH [OF this] show ?case by simp
qed simp

lemma payload_sizes_fold:
  assumes "foldE (\<lambda>at s. if os_kind s = 3 then Inr at
      else of_option Silent (size_add_size at (length (os_data s)))) at ss = Inr y"
    and "at \<le> SIZE_MAX"
  shows "y = at + length (concat (map payload_of ss)) \<and> y \<le> SIZE_MAX"
  using assms
proof (induction ss arbitrary: at)
  case (Cons s ss)
  let ?at = "at + length (payload_of s)"
  let ?step = "\<lambda>at s. if os_kind s = 3 then Inr at
      else of_option Silent (size_add_size at (length (os_data s)))"
  from Cons.prems have "foldE ?step ?at ss = Inr y" "?at \<le> SIZE_MAX"
    by (auto simp: size_add_size_Some payload_of_def split: if_splits)
  from Cons.IH [OF this] show ?case by simp
qed simp

lemma layout_eq:
  assumes "object_layout_of b n = Inr l"
  shows "ol_symbols l = 96 + length (b_sections b) * 40"
    and "ol_relocs l = ol_symbols l + length (b_symbols b) * 32"
    and "ol_strings l = ol_relocs l + length (concat (map (reloc_block b) (b_sections b)))"
    and "ol_data l = ol_strings l + n"
    and "ol_total l = ol_data l + length (concat (map payload_of (b_sections b)))"
    and "ol_total l \<le> MIB512"
proof -
  have lim: "96 \<le> SIZE_MAX" by (simp add: SIZE_MAX_def)
  from assms obtain st af r d t where steps:
    "size_add_size 96 (length (b_sections b) * 40) = Some st"
    "size_add_size st (length (b_symbols b) * 32) = Some af"
    "foldE (\<lambda>at s. bindE (of_option Silent (size_mul_size (length (os_relocations s)) 32))
        (\<lambda>bytes. of_option Silent (size_add_size at bytes))) af (b_sections b) = Inr r"
    "size_add_size r n = Some d"
    "foldE (\<lambda>at s. if os_kind s = 3 then Inr at
      else of_option Silent (size_add_size at (length (os_data s)))) d (b_sections b) = Inr t"
    "t \<le> MIB512"
    and l: "l = \<lparr>ol_symbols = st, ol_relocs = af, ol_strings = r, ol_data = d, ol_total = t\<rparr>"
    by (auto simp: object_layout_of_def split: if_splits simp del: foldE.simps)
  from steps(1) lim have st: "st = 96 + length (b_sections b) * 40" "st \<le> SIZE_MAX"
    by (simp_all add: size_add_size_Some)
  from steps(2) st(2) have af: "af = st + length (b_symbols b) * 32" "af \<le> SIZE_MAX"
    by (simp_all add: size_add_size_Some)
  from reloc_sizes_fold [OF steps(3) af(2)]
  have r: "r = af + length (concat (map (reloc_block b) (b_sections b)))" "r \<le> SIZE_MAX" by simp_all
  from steps(4) r(2) have d: "d = r + n" "d \<le> SIZE_MAX" by (simp_all add: size_add_size_Some)
  from payload_sizes_fold [OF steps(5) d(2)] steps(6) st af r d l
  show "ol_symbols l = 96 + length (b_sections b) * 40"
    and "ol_relocs l = ol_symbols l + length (b_symbols b) * 32"
    and "ol_strings l = ol_relocs l + length (concat (map (reloc_block b) (b_sections b)))"
    and "ol_data l = ol_strings l + n"
    and "ol_total l = ol_data l + length (concat (map payload_of (b_sections b)))"
    and "ol_total l \<le> MIB512"
    by simp_all
qed

subsection \<open>The loops fill their regions\<close>

lemma place_data_fold:
  assumes "length a = cur" "length z = length (concat (map payload_of ss))"
    and "cur + length z \<le> UINT32_MAX"
  shows "foldE place_data (a @ z @ c, cur, offs) ss =
    Inr (a @ concat (map payload_of ss) @ c, cur + length z, offs @ payload_offsets cur ss)"
  using assms
proof (induction ss arbitrary: a z cur offs)
  case Nil
  then show ?case by simp
next
  case (Cons s ss)
  from Cons.prems(2) obtain z1 z2 where z: "z = z1 @ z2" "length z1 = length (payload_of s)"
      "length z2 = length (concat (map payload_of ss))"
    by (metis split_length list.simps(9) concat.simps(2) length_append)
  let ?off = "if os_kind s = 3 then 0 else of_nat cur :: u32"
  have "place_data (a @ z @ c, cur, offs) s =
      Inr ((a @ payload_of s) @ z2 @ c, cur + length z1, offs @ [?off])"
    using Cons.prems z store_mid [of a cur z1 "os_data s" "z2 @ c"]
    by (auto simp: place_data_def payload_of_def split: if_splits)
  moreover have "foldE place_data ((a @ payload_of s) @ z2 @ c, cur + length z1, offs @ [?off]) ss =
      Inr ((a @ payload_of s) @ concat (map payload_of ss) @ c, (cur + length z1) + length z2,
        (offs @ [?off]) @ payload_offsets (cur + length z1) ss)"
    by (rule Cons.IH) (use Cons.prems z in auto)
  ultimately show ?case using z by (simp add: add.assoc)
qed

lemma place_reloc_fold:
  assumes "length z = length rs * 32"
  shows "foldE (place_reloc b) (a @ z @ c, length a) rs =
    Inr (a @ concat (map (\<lambda>r. record_bytes (reloc_fields b r)) rs) @ c, length a + length z)"
  using assms
proof (induction rs arbitrary: a z)
  case Nil
  then show ?case by simp
next
  case (Cons r rs)
  from Cons.prems have "length z = 32 + length rs * 32" by simp
  then obtain z1 z2 where z: "z = z1 @ z2" "length z1 = 32" "length z2 = length rs * 32"
    by (rule split_length)
  let ?a = "a @ record_bytes (reloc_fields b r)"
  have a: "length ?a = length a + 32" by (simp only: length_append laid_out_records)
  have "place_reloc b (a @ z @ c, length a) r = Inr (?a @ z2 @ c, length ?a)"
    using store_fields_laid_out [OF laid_out_records(5), of a "length a" z1 b r "z2 @ c"] z a
    by (simp add: place_reloc_def laid_out_records del: length_append)
  moreover have "length a + 32 + length z2 = length a + length z" using z by simp
  ultimately show ?case using Cons.IH [OF z(3), of ?a] a by simp
qed

lemma store_inner:
  "length a = k \<Longrightarrow> j + length v \<le> length x \<Longrightarrow> store (a @ x @ c) (k + j) v = Inr (a @ patch x j v @ c)"
  by (simp add: store_def patch_append1 patch_append2)

lemma place_relocs_fold:
  fixes b :: object_builder and S :: "nat \<Rightarrow> byte list"
  defines "n \<equiv> length (b_sections b)"
  defines "filled \<equiv> \<lambda>i. concat (map (reloc_block b) (take i (b_sections b)))"
  defines "S' \<equiv> \<lambda>i. patch (S i) 12 (put_u32
      (if length (os_relocations (b_sections b ! i)) = 0 then 0 else of_nat (reloc_start b i)))"
  assumes S: "\<And>i. i < n \<Longrightarrow> length (S i) = 40"
    and h: "length h = 96" and y: "length y = length (b_symbols b) * 32"
    and z: "length z = length (filled n)" and i: "i \<le> n"
  shows "foldE (place_relocs b) (h @ concat (map S [0..<n]) @ y @ z @ c, reloc_start b 0) [0..<i] =
    Inr (h @ concat (map S' [0..<i]) @ concat (map S [i..<n]) @ y @ filled i @
         drop (length (filled i)) z @ c, reloc_start b i)"
  using i
proof (induction i)
  case 0
  then show ?case by (simp add: filled_def)
next
  case (Suc i)
  let ?s = "b_sections b ! i"
  have i: "i < n" using Suc.prems by simp
  define A where "A = h @ concat (map S' [0..<i])"
  define R where "R = concat (map S [Suc i..<n])"
  have A: "length A = 96 + i * 40"
    using length_concat_chunks [of "map S' [0..<i]" 40] S i h
    by (simp add: A_def S'_def)
  have R: "length R = (n - Suc i) * 40"
    using length_concat_chunks [of "map S [Suc i..<n]" 40] S by (auto simp: R_def)
  have upt: "[i..<n] = i # [Suc i..<n]" using i by (simp add: upt_conv_Cons)
  have step: "filled (Suc i) = filled i @ reloc_block b ?s"
    using i by (simp add: filled_def n_def take_Suc_conv_app_nth)
  have "filled n = filled (Suc i) @ concat (map (reloc_block b) (drop (Suc i) (b_sections b)))"
    using i by (simp add: filled_def n_def flip: concat_append map_append)
  with z step have "length (drop (length (filled i)) z) \<ge> length (reloc_block b ?s)" by simp
  then obtain z1 z2 where zz: "drop (length (filled i)) z = z1 @ z2" "length z1 = length (reloc_block b ?s)"
    by (metis append_take_drop_id length_take min.absorb2)
  then have z2: "z2 = drop (length (filled (Suc i))) z"
    using step by (metis append_eq_conv_conj drop_drop length_append add.commute)
  define B where "B = A @ S' i @ R @ y @ filled i"
  have cursor: "reloc_start b i = length B"
    using A R y i S by (simp add: B_def reloc_start_def S'_def filled_def n_def)
  have st: "store (A @ S i @ R @ y @ filled i @ z1 @ z2 @ c) (96 + i * 40 + 12)
      (put_u32 (if length (os_relocations ?s) = 0 then 0 else of_nat (reloc_start b i))) =
      (Inr (A @ S' i @ R @ y @ filled i @ z1 @ z2 @ c) :: (diag, byte list) res)"
    unfolding S'_def by (rule store_inner) (simp_all add: A S [OF i])
  have rel: "foldE (place_reloc b) (B @ z1 @ z2 @ c, length B) (ordered_relocations b ?s) =
      Inr (B @ reloc_block b ?s @ z2 @ c, length B + length z1)"
    unfolding reloc_block_def
    by (rule place_reloc_fold)
      (simp add: zz reloc_order.exchange_sort_length ordered_relocations_def)
  have unf: "place_relocs b (F, k) i = bindE (store F (96 + i * 40 + 12)
      (put_u32 (if length (os_relocations ?s) = 0 then 0 else of_nat k)))
      (\<lambda>f. foldE (place_reloc b) (f, k) (ordered_relocations b ?s))" for F k
    by (simp only: place_relocs_def prod.case Let_def)
  have whole: "h @ concat (map S' [0..<i]) @ concat (map S [i..<n]) @ y @ filled i @
      drop (length (filled i)) z @ c = A @ S i @ R @ y @ filled i @ z1 @ z2 @ c"
    by (simp add: upt zz A_def R_def)
  have B: "A @ S' i @ R @ y @ filled i @ z1 @ z2 @ c = B @ z1 @ z2 @ c" by (simp add: B_def)
  have "place_relocs b (h @ concat (map S' [0..<i]) @ concat (map S [i..<n]) @ y @
      filled i @ drop (length (filled i)) z @ c, reloc_start b i) i =
      Inr (B @ reloc_block b ?s @ z2 @ c, length B + length z1)"
    by (simp only: unf whole st bindE_simps B cursor [symmetric]) (simp only: cursor rel)
  moreover have "length B + length z1 = reloc_start b (Suc i)"
    using cursor zz(2) step by (simp add: reloc_start_def filled_def)
  ultimately show ?case
    using Suc.IH i step z2 by (simp add: foldE_append B_def A_def R_def)
qed

subsection \<open>The stores produce the reference file\<close>

lemma place_section_step:
  assumes "length a = 96 + i * 40" "length x = 40"
  shows "place_section b re names datas (a @ x @ c) i =
    Inr (a @ record_bytes (section_fields i re (names ! i) (datas ! i) (b_sections b ! i)) @ c)"
  unfolding place_section_def
  by (rule store_fields_laid_out [where k = 0]) (simp_all add: laid_out_records assms)

lemma place_symbol_step:
  assumes "length a = st + i * 32" "length x = 32" "unat (ob_value (b_symbols b ! i)) \<le> UINT32_MAX"
  shows "place_symbol b st names (a @ x @ c) i =
    Inr (a @ record_bytes (symbol_fields (names ! i) (b_symbols b ! i)) @ c)"
proof -
  have "store_fields (a @ x @ c) (st + i * 32) (symbol_fields (names ! i) (b_symbols b ! i)) =
      (Inr (a @ record_bytes (symbol_fields (names ! i) (b_symbols b ! i)) @ c) :: (diag, byte list) res)"
    by (rule store_fields_laid_out [where k = 0]) (simp_all add: laid_out_records assms)
  with assms(3) show ?thesis by (simp add: place_symbol_def)
qed

lemma header_stores:
  assumes "length z = 96"
  shows "bindE (store_fields (z @ c) 0 (header_fields (ol_strings l) target (length (b_sections b))
      (ol_symbols l) (length (b_symbols b)) ss))
     (\<lambda>file. bindE (store file 64 (put_u32 (cc64_crc32 (take 64 file)))) K) =
     (K (header_bytes b l target ss @ c) :: (diag, 'a) res)"
proof -
  let ?h = "record_bytes (header_fields (ol_strings l) target (length (b_sections b)) (ol_symbols l)
     (length (b_symbols b)) ss)"
  have h: "length ?h = 96" by (simp only: laid_out_records)
  have "store_fields ([] @ z @ c) 0 (header_fields (ol_strings l) target (length (b_sections b))
      (ol_symbols l) (length (b_symbols b)) ss) =
      (Inr ([] @ ?h @ c) :: (diag, byte list) res)"
    by (rule store_fields_laid_out [where k = 0]) (simp_all add: laid_out_records assms)
  moreover have "store ([] @ ?h @ c) (0 + 64) (put_u32 (cc64_crc32 (take 64 (?h @ c)))) =
      (Inr ([] @ patch ?h 64 (put_u32 (cc64_crc32 (take 64 (?h @ c)))) @ c) :: (diag, byte list) res)"
    by (rule store_inner) (simp_all add: h)
  moreover have "take 64 (?h @ c) = take 64 ?h" by (simp only: take_append h) simp
  ultimately show ?thesis
    by (simp only: append_Nil add_0 bindE_simps header_bytes_def Let_def)
qed

lemma fill_file_eq:
  assumes l: "object_layout_of b (length (st_bytes strings)) = Inr l"
  shows "fill_file b l strings target names symbol_names =
    bindE (foldE (place_symbol b (ol_symbols l) symbol_names)
      (cc64o_body b l (st_bytes strings) target names (replicate (length (b_symbols b) * 32) 0))
      [0..<length (b_symbols b)])
    (\<lambda>file. store file 68 (put_u32 (cc64_file_crc32 (take (ol_total l) file))))"
proof -
  note lay = layout_eq [OF l]
  let ?n = "length (b_sections b)" and ?m = "length (b_symbols b)"
  let ?datas = "payload_offsets (ol_data l) (b_sections b)"
  let ?rb = "concat (map (reloc_block b) (b_sections b))"
  let ?pb = "concat (map payload_of (b_sections b))"
  define zh zs zy zr zt zd :: "byte list"
    where "zh = replicate 96 0" and "zs = replicate (?n * 40) 0" and "zy = replicate (?m * 32) 0"
      and "zr = replicate (length ?rb) 0" and "zt = replicate (length (st_bytes strings)) 0"
      and "zd = replicate (length ?pb) 0"
  note zdefs = zh_def zs_def zy_def zr_def zt_def zd_def
  let ?S = "\<lambda>i. record_bytes (section_fields i (ol_strings l) (names ! i) (?datas ! i) (b_sections b ! i))"
  let ?H = "header_bytes b l target (length (st_bytes strings))"
  have "max 1 (ol_total l) = 96 + ?n * 40 + ?m * 32 + length ?rb + length (st_bytes strings) + length ?pb"
    using lay by simp
  then have zero: "replicate (max 1 (ol_total l)) 0 = zh @ zs @ zy @ zr @ zt @ zd"
    by (simp add: zdefs replicate_add)
  have s1: "(if length (st_bytes strings) \<noteq> 0 then store (zh @ zs @ zy @ zr @ zt @ zd) (ol_strings l)
      (st_bytes strings) else Inr (zh @ zs @ zy @ zr @ zt @ zd)) =
      (Inr ((zh @ zs @ zy @ zr @ st_bytes strings) @ zd @ []) :: (diag, byte list) res)"
    using store_mid [of "zh @ zs @ zy @ zr" "ol_strings l" zt "st_bytes strings" zd] lay
    by (auto simp: zdefs)
  have s2: "foldE place_data ((zh @ zs @ zy @ zr @ st_bytes strings) @ zd @ [], ol_data l, [])
      (b_sections b) = Inr ((zh @ zs @ zy @ zr @ st_bytes strings) @ ?pb @ [],
        ol_data l + length zd, [] @ ?datas)"
    by (rule place_data_fold) (use lay in \<open>simp_all add: zdefs UINT32_MAX_def MIB512_def\<close>)
  have s3: "foldE (place_section b (ol_strings l) names ?datas)
      (?H @ zs @ zy @ zr @ st_bytes strings @ ?pb) [0..<?n] =
      Inr (?H @ concat (map ?S [0..<?n]) @ zy @ zr @ st_bytes strings @ ?pb)"
    by (rule foldE_blocks [where w = 40])
      (simp_all only: place_section_step laid_out_records length_header_bytes, simp_all add: zdefs)
  have s4: "foldE (place_relocs b) (?H @ concat (map ?S [0..<?n]) @ zy @ zr @ st_bytes strings @ ?pb,
      reloc_start b 0) [0..<?n] = Inr (cc64o_body b l (st_bytes strings) target names zy,
        reloc_start b ?n)"
    using place_relocs_fold [where S = ?S and h = ?H and y = zy and z = zr and i = ?n and b = b
        and c = "st_bytes strings @ ?pb"]
    by (simp add: laid_out_records zdefs cc64o_body_def section_bytes_def [abs_def])
  have start: "ol_relocs l = reloc_start b 0" using lay by (simp add: reloc_start_def)
  have s2': "foldE place_data ((zh @ zs @ zy @ zr @ st_bytes strings) @ zd @ [], ol_data l, [])
      (b_sections b) = Inr (zh @ zs @ zy @ zr @ st_bytes strings @ ?pb, ol_data l + length zd, ?datas)"
    using s2 by simp
  have zh: "length zh = 96" by (simp add: zh_def)
  show ?thesis
    unfolding fill_file_def Let_def zero s1 bindE_simps s2' prod.case header_stores [OF zh]
      s3 start s4
    by (simp only: zy_def)
qed

lemma length_cc64o_body:
  assumes "object_layout_of b (length strings) = Inr l" and "length symbols = length (b_symbols b) * 32"
  shows "length (cc64o_body b l strings target names symbols) = ol_total l"
  using layout_eq [OF assms(1)] assms(2) by (simp add: cc64o_body_def)

lemma ol_total_ge: "object_layout_of b n = Inr l \<Longrightarrow> 96 \<le> ol_total l"
  using layout_eq [of b n l] by simp

text \<open>The symbol loop, run to the end, has checked every value and filled the symbol table.\<close>

lemma symbol_loop:
  assumes l: "object_layout_of b (length strings) = Inr l"
    and loop: "foldE (place_symbol b (ol_symbols l) symbol_names)
      (cc64o_body b l strings target names (replicate (length (b_symbols b) * 32) 0))
      [0..<length (b_symbols b)] = Inr file"
  shows "file = cc64o_body b l strings target names (symbol_block b symbol_names)"
    and "\<forall>y \<in> set (b_symbols b). unat (ob_value y) \<le> UINT32_MAX"
proof -
  let ?m = "length (b_symbols b)"
  have step: "unat (ob_value (b_symbols b ! i)) \<le> UINT32_MAX"
    if "place_symbol b (ol_symbols l) symbol_names s i = Inr s'" for s i s'
    using that by (simp add: place_symbol_def Let_def split: if_splits)
  have "\<forall>j < ?m. unat (ob_value (b_symbols b ! j)) \<le> UINT32_MAX"
  proof (rule foldE_upt_invariant [OF loop,
        where P = "\<lambda>i s. \<forall>j < i. unat (ob_value (b_symbols b ! j)) \<le> UINT32_MAX"])
    fix s i s'
    assume "\<forall>j < i. unat (ob_value (b_symbols b ! j)) \<le> UINT32_MAX"
      and "place_symbol b (ol_symbols l) symbol_names s i = Inr s'"
    then show "\<forall>j < Suc i. unat (ob_value (b_symbols b ! j)) \<le> UINT32_MAX"
      using step less_Suc_eq by blast
  qed simp_all
  then show vals: "\<forall>y \<in> set (b_symbols b). unat (ob_value y) \<le> UINT32_MAX"
    by (auto simp: in_set_conv_nth)
  let ?a = "header_bytes b l target (length strings) @
     concat (map (section_bytes b (ol_strings l) names (payload_offsets (ol_data l) (b_sections b)))
       [0..<length (b_sections b)])"
  let ?c = "concat (map (reloc_block b) (b_sections b)) @ strings @ concat (map payload_of (b_sections b))"
  have "foldE (place_symbol b (ol_symbols l) symbol_names) (?a @ replicate (?m * 32) 0 @ ?c) [0..<?m] =
      Inr (?a @ symbol_block b symbol_names @ ?c)"
    unfolding symbol_block_def
    by (rule foldE_blocks [where w = 32])
      (use vals layout_eq(1) [OF l] in \<open>auto intro!: place_symbol_step simp: laid_out_records\<close>)
  with loop show "file = cc64o_body b l strings target names (symbol_block b symbol_names)"
    by (simp add: cc64o_body_def)
qed

text \<open>What a successful run of the writer has produced.\<close>

definition written ::
  "object_builder \<Rightarrow> byte list \<Rightarrow> object_layout \<Rightarrow> byte list \<Rightarrow> u32 \<Rightarrow> u32 list \<Rightarrow> u32 list \<Rightarrow> bool" where
  "written b file l strings target names symbol_names \<longleftrightarrow>
     length (b_sections b) \<le> 65535 \<and> length (b_symbols b) \<le> 1000000 \<and>
     (\<forall>y \<in> set (b_symbols b). unat (ob_value y) \<le> UINT32_MAX) \<and>
     object_layout_of b (length strings) = Inr l \<and>
     cstring_at strings (unat target) CC64_TARGET \<and>
     (\<forall>i < length (b_sections b). cstring_at strings (unat (names ! i)) (os_name (b_sections b ! i))) \<and>
     (\<forall>i < length (b_symbols b). cstring_at strings (unat (symbol_names ! i)) (ob_name (b_symbols b ! i))) \<and>
     (\<exists>names. strings = concat (map (\<lambda>n. n @ [0]) names)) \<and>
     file = cc64o_file b l strings target names symbol_names"

lemma sort_symbols_simps [simp]:
  "b_sections (sort_symbols b) = b_sections b" "length (b_symbols (sort_symbols b)) = length (b_symbols b)"
  "set (b_symbols (sort_symbols b)) = set (b_symbols b)"
  by (simp_all add: sort_symbols_def symbol_order.length_sort symbol_order.set_sort)

text \<open>The string table of an image: it holds the target triple and every name.\<close>

lemma image_strings:
  assumes "string_add \<lparr>st_bytes = [], st_names = []\<rparr> [] = Inr (t0, z)"
    and "string_add t0 CC64_TARGET = Inr (t1, target)"
    and "add_all string_add t1 ns = Inr (t2, names)"
    and "add_all string_add t2 ys = Inr (t3, symbol_names)"
    and "length (st_bytes t3) \<le> UINT32_MAX"
  shows "cstring_at (st_bytes t3) (unat target) CC64_TARGET \<and>
    (\<forall>i < length ns. cstring_at (st_bytes t3) (unat (names ! i)) (ns ! i)) \<and>
    (\<forall>i < length ys. cstring_at (st_bytes t3) (unat (symbol_names ! i)) (ys ! i)) \<and>
    table_ok t3"
proof -
  have ok: "table_ok \<lparr>st_bytes = [], st_names = []\<rparr>" by (simp add: table_ok_def)
  have "add_all string_add \<lparr>st_bytes = [], st_names = []\<rparr> ([[], CC64_TARGET] @ ns @ ys) =
      Inr (t3, [z, target] @ names @ symbol_names)"
  proof -
    have app: "add_all string_add t (xs @ zs) =
        bindE (add_all string_add t xs) (\<lambda>(t', os). bindE (add_all string_add t' zs)
          (\<lambda>(t'', os'). Inr (t'', os @ os')))" for t xs zs
      by (induction xs arbitrary: t) (auto simp: bindE_def split: sum.splits)
    show ?thesis using assms(1-4) by (simp add: app)
  qed
  from string_table.add_all_pool [OF ok this] assms(5)
  have all: "\<forall>i < 2 + length ns + length ys. cstring_at (st_bytes t3)
      (unat (([z, target] @ names @ symbol_names) ! i)) (([[], CC64_TARGET] @ ns @ ys) ! i)"
    and t3: "table_ok t3" by auto
  have len: "length names = length ns"
    using string_table.add_all_pool [OF _ assms(3)] string_table.add_invar [OF _ assms(2)]
      string_table.add_invar [OF ok assms(1)] by blast
  have "cstring_at (st_bytes t3) (unat target) CC64_TARGET" using all [rule_format, of 1] by simp
  moreover have "cstring_at (st_bytes t3) (unat (names ! i)) (ns ! i)" if "i < length ns" for i
    using all [rule_format, of "2 + i"] that len by (simp add: nth_append)
  moreover have "cstring_at (st_bytes t3) (unat (symbol_names ! i)) (ys ! i)" if "i < length ys" for i
    using all [rule_format, of "2 + length ns + i"] that len by (simp add: nth_append)
  ultimately show ?thesis using t3 by blast
qed

lemma fill_file_written:
  assumes l: "object_layout_of b (length (st_bytes t)) = Inr l"
    and fl: "fill_file b l t target names symbol_names = Inr file"
  shows "file = cc64o_file b l (st_bytes t) target names symbol_names"
    and "\<forall>y \<in> set (b_symbols b). unat (ob_value y) \<le> UINT32_MAX"
    and "length file = ol_total l"
proof -
  let ?body = "cc64o_body b l (st_bytes t) target names"
  from fl obtain f where f: "foldE (place_symbol b (ol_symbols l) symbol_names)
      (?body (replicate (length (b_symbols b) * 32) 0)) [0..<length (b_symbols b)] = Inr f"
    and st: "store f 68 (put_u32 (cc64_file_crc32 (take (ol_total l) f))) = (Inr file :: (diag, byte list) res)"
    by (auto simp: fill_file_eq [OF l])
  note loop = symbol_loop [OF l f]
  show "\<forall>y \<in> set (b_symbols b). unat (ob_value y) \<le> UINT32_MAX" by (rule loop(2))
  have len: "length f = ol_total l" using loop(1) length_cc64o_body [OF l] by simp
  show "file = cc64o_file b l (st_bytes t) target names symbol_names"
    using st loop(1) len by (simp add: cc64o_file_def Let_def)
  show "length file = ol_total l" using st len by auto
qed

lemma object_image_written:
  assumes "object_image b = Inr file"
  obtains l strings target names symbol_names
  where "written (sort_symbols b) file l strings target names symbol_names"
    and "length file = ol_total l"
proof -
  let ?b = "sort_symbols b" and ?e = "\<lparr>st_bytes = [], st_names = []\<rparr>"
  from assms obtain t0 z t1 target t2 names t symbol_names l f
    where counts: "length (b_sections b) \<le> 65535" "length (b_symbols b) \<le> 1000000"
    and adds: "string_add ?e [] = Inr (t0, z)" "string_add t0 CC64_TARGET = Inr (t1, target)"
      "add_all string_add t1 (map os_name (b_sections b)) = Inr (t2, names)"
      "add_all string_add t2 (map ob_name (b_symbols ?b)) = Inr (t, symbol_names)"
    and l: "object_layout_of ?b (length (st_bytes t)) = Inr l"
    and f: "fill_file ?b l t target names symbol_names = Inr f" and fl: "file = take (ol_total l) f"
    unfolding object_image_def Let_def by (auto split: if_splits)
  have len: "length (st_bytes t) \<le> UINT32_MAX"
    using layout_eq [OF l] by (simp add: MIB512_def UINT32_MAX_def)
  note strings = image_strings [OF adds len]
  note fill = fill_file_written [OF l f]
  have file': "file = f" using fl fill(3) by simp
  have "written ?b file l (st_bytes t) target names symbol_names"
    using counts strings fill l file' by (auto simp: written_def table_ok_def)
  then show ?thesis by (rule that) (simp add: file' fill(3))
qed

lemma safe_add_all: "safe (add_all string_add t ns)"
  by (induction ns arbitrary: t)
    (auto intro!: safe_bindE simp: string_add_def Let_def split: option.splits)

lemma safe_object_layout: "safe (object_layout_of b n)"
  by (auto simp: object_layout_of_def intro!: safe_bindE safe_foldE)

lemma safe_symbol_loop:
  assumes l: "object_layout_of b (length strings) = Inr l"
  shows "safe (foldE (place_symbol b (ol_symbols l) symbol_names)
      (cc64o_body b l strings target names (replicate (length (b_symbols b) * 32) 0))
      [0..<length (b_symbols b)])"
proof (rule foldE_upt_safe [where P = "\<lambda>i s. length s = ol_total l"])
  show "length (cc64o_body b l strings target names (replicate (length (b_symbols b) * 32) 0)) = ol_total l"
    by (simp add: length_cc64o_body [OF l])
next
  fix s :: "byte list" and i
  assume i: "i < length (b_symbols b)" and len: "length s = ol_total l"
  let ?k = "ol_symbols l + i * 32"
  have fits: "?k + 32 \<le> length s"
    using i len layout_eq [OF l] by simp
  have "length s = ?k + (32 + (length s - ?k - 32))" using fits by simp
  then obtain a r where s: "s = a @ r" "length a = ?k" "length r = 32 + (length s - ?k - 32)"
    by (rule split_length)
  from s(3) obtain x c where r: "r = x @ c" "length x = 32" by (rule split_length)
  have step: "place_symbol b (ol_symbols l) symbol_names s i =
      (if unat (ob_value (b_symbols b ! i)) > UINT32_MAX
       then Inl (Failed (Diag 4004 (cstr ''symbol value exceeds object field'')))
       else Inr (a @ record_bytes (symbol_fields (symbol_names ! i) (b_symbols b ! i)) @ c))"
  proof (cases "unat (ob_value (b_symbols b ! i)) > UINT32_MAX")
    case True
    then show ?thesis by (simp add: place_symbol_def)
  next
    case False
    then show ?thesis using place_symbol_step [OF s(2) r(2)] s(1) r(1) by simp
  qed
  show "safe (place_symbol b (ol_symbols l) symbol_names s i)" by (simp add: step)
  fix s' assume "place_symbol b (ol_symbols l) symbol_names s i = Inr s'"
  then have s': "s' = a @ record_bytes (symbol_fields (symbol_names ! i) (b_symbols b ! i)) @ c"
    by (simp add: step split: if_splits)
  have "length s' = length s"
    unfolding s' length_append laid_out_records using s r by simp
  then show "length s' = ol_total l" using len by simp
qed

text \<open>
  C21. Writing an object file never touches memory outside the file buffer: whatever the
  builder holds, \<open>object_write_cc64o\<close> either succeeds or reports one of its own errors.
\<close>

theorem object_image_safe: "object_image b \<noteq> Inl OutOfBounds"
proof -
  let ?b = "sort_symbols b"
  have add: "safe (string_add t s)" for t s
    by (simp add: string_add_def Let_def split: option.splits)
  have fill: "safe (fill_file ?b l t target names symbol_names)"
    if l: "object_layout_of ?b (length (st_bytes t)) = Inr l" for l t target names symbol_names
    unfolding fill_file_eq [OF l]
  proof (rule safe_bindE [OF safe_symbol_loop [OF l]])
    fix f
    assume "foldE (place_symbol ?b (ol_symbols l) symbol_names) (cc64o_body ?b l (st_bytes t) target
      names (replicate (length (b_symbols ?b) * 32) 0)) [0..<length (b_symbols ?b)] = Inr f"
    from symbol_loop(1) [OF l this]
    show "safe (store f 68 (put_u32 (cc64_file_crc32 (take (ol_total l) f))))"
      using length_cc64o_body [OF l] ol_total_ge [OF l] by simp
  qed
  have "safe (object_image b)"
    unfolding object_image_def Let_def
    by (intro safe_if safe_bindE safe_bindE_pair add safe_add_all safe_object_layout fill
        safe_simps) auto
  then show ?thesis by (simp add: safe_def)
qed

end
