(* ===== verification/Object_Reader.thy ===== *)
theory Object_Reader
  imports Object_Writer
begin

text \<open>
  The object reader of the linker, \<open>read_object_file\<close> in \<open>src/src/linker/linker.c\<close>, phase by
  phase in the order of the code: header contract, reserved bytes, source map, target triple,
  checksums, tables, claimed ranges, section records with their relocations, symbol records, and
  the check that undescribed bytes are zero. Every read of the file is bounds-checked, so a read
  the guards do not cover would show as \<open>OutOfBounds\<close>.
\<close>

record link_relocation =
  lr_offset :: u64
  lr_symbol_index :: u32
  lr_type :: u32
  lr_addend :: int
  lr_width :: u32

record link_section =
  ls_name :: cstring
  ls_kind :: byte
  ls_alignment :: nat
  ls_data :: "byte list"
  ls_size :: nat
  ls_relocations :: "link_relocation list"
  ls_output_offset :: nat
  ls_output_kind :: nat

record link_symbol =
  ly_name :: cstring
  ly_value :: nat
  ly_original_value :: nat
  ly_section_index :: u32
  ly_binding :: byte
  ly_kind :: byte
  ly_size :: u64
  ly_defined :: bool

record link_object =
  lo_bytes :: "byte list"
  lo_sections :: "link_section list"
  lo_symbols :: "link_symbol list"
  lo_ranges :: "(nat \<times> nat) list"

text \<open>\<open>link_error\<close>: the message is prefixed by the path and cut at the 512-byte buffer.\<close>

definition link_text :: "cstring option \<Rightarrow> string \<Rightarrow> cstring" where
  "link_text path msg = take 511
     ((case path of None \<Rightarrow> cstr ''linker'' | Some p \<Rightarrow> p) @ cstr '': '' @ cstr msg)"

definition link_error :: "nat \<Rightarrow> cstring option \<Rightarrow> string \<Rightarrow> (diag, 'a) res" where
  "link_error i path msg = Inl (Failed (Diag i (link_text path msg)))"

lemma link_error_simps [simp]:
  "safe (link_error i p m)" "link_error i p m \<noteq> Inr x" "bindE (link_error i p m) f = link_error i p m"
  by (simp_all add: link_error_def)

lemma case_link_error:
  "(case x of None \<Rightarrow> link_error i p m | Some v \<Rightarrow> f v) = Inr b \<longleftrightarrow> (\<exists>v. x = Some v \<and> f v = Inr b)"
  by (simp split: option.split)

definition check :: "bool \<Rightarrow> nat \<Rightarrow> cstring \<Rightarrow> string \<Rightarrow> (diag, unit) res" where
  "check ok i path msg = (if ok then Inr () else link_error i (Some path) msg)"

lemma check_simps [simp]:
  "safe (check ok i p m)" "check ok i p m = Inr u \<longleftrightarrow> ok"
  by (simp_all add: check_def)

subsection \<open>Claimed ranges\<close>

definition object_range_add :: "link_object \<Rightarrow> nat \<Rightarrow> nat \<Rightarrow> link_object option" where
  "object_range_add ob offset len =
     (if len = 0 then Some ob
      else if \<not> range_ok offset len (length (lo_bytes ob)) then None
      else if list_ex (\<lambda>(o2, l2). offset < o2 + l2 \<and> o2 < offset + len) (lo_ranges ob) then None
      else Some (ob\<lparr>lo_ranges := lo_ranges ob @ [(offset, len)]\<rparr>))"

definition object_uncovered_bytes_are_zero :: "link_object \<Rightarrow> bool" where
  "object_uncovered_bytes_are_zero ob =
     list_all (\<lambda>i. list_ex (\<lambda>(o2, l2). o2 \<le> i \<and> i < o2 + l2) (lo_ranges ob) \<or> lo_bytes ob ! i = 0)
       [0..<length (lo_bytes ob)]"

subsection \<open>The header\<close>

definition check_header :: "cstring \<Rightarrow> byte list \<Rightarrow> (diag, unit) res" where
  "check_header path bs =
     bindE (check (\<not> (length bs < CC64O_HEADER_SIZE \<or> length bs > MIB512 \<or>
              take 8 bs \<noteq> CC64O_MAGIC)) 5004 path ''invalid CC64O magic'') (\<lambda>_.
     bindE (fetch bs 8 2) (\<lambda>version. bindE (fetch bs 10 2) (\<lambda>endian.
     bindE (fetch bs 12 2) (\<lambda>abi. bindE (fetch bs 14 2) (\<lambda>machine.
     bindE (fetch bs 16 4) (\<lambda>hsize. bindE (fetch bs 60 4) (\<lambda>flags.
     bindE (check (\<not> (read_u16 version \<noteq> 1 \<or> read_u16 endian \<noteq> 0x3433 \<or> read_u16 abi \<noteq> 1 \<or>
              read_u16 machine \<noteq> 62 \<or> unat (read_u32 hsize) \<noteq> CC64O_HEADER_SIZE \<or>
              read_u32 flags \<noteq> 0)) 5005 path ''unsupported object contract'') (\<lambda>_.
     bindE (fetch bs 72 (CC64O_HEADER_SIZE - 72)) (\<lambda>reserved.
     check (list_all (\<lambda>b. b = 0) reserved) 5008 path ''object reserved bytes are nonzero'')))))))))"

definition read_source_map :: "cstring \<Rightarrow> byte list \<Rightarrow> (diag, nat \<times> nat) res" where
  "read_source_map path bs =
     bindE (fetch bs 52 4) (\<lambda>f1. bindE (fetch bs 56 4) (\<lambda>f2.
       let offset = unat (read_u32 f1); len = unat (read_u32 f2) in
       bindE (check (\<not> ((offset = 0) \<noteq> (len = 0) \<or> (len \<noteq> 0 \<and> \<not> range_ok offset len (length bs))))
                5008 path ''object source map range is invalid'') (\<lambda>_. Inr (offset, len))))"

definition read_target :: "cstring \<Rightarrow> byte list \<Rightarrow> (diag, nat \<times> nat) res" where
  "read_target path bs =
     bindE (fetch bs 20 4) (\<lambda>f1. bindE (fetch bs 24 4) (\<lambda>f2.
       let offset = unat (read_u32 f1); len = unat (read_u32 f2) in
       if \<not> range_ok offset len (length bs) \<or> len \<noteq> length CC64_TARGET + 1
       then link_error 5006 (Some path) ''object target triple is invalid''
       else bindE (fetch bs (offset + len - 1) 1) (\<lambda>terminator.
            bindE (fetch bs offset (length CC64_TARGET)) (\<lambda>name.
            bindE (check (terminator = [0] \<and> name = CC64_TARGET)
                     5006 path ''object target triple is invalid'') (\<lambda>_. Inr (offset, len))))))"

definition check_crcs :: "cstring \<Rightarrow> byte list \<Rightarrow> (diag, unit) res" where
  "check_crcs path bs =
     bindE (fetch bs 0 64) (\<lambda>header. bindE (fetch bs 64 4) (\<lambda>f1. bindE (fetch bs 68 4) (\<lambda>f2.
       check (\<not> (link_crc32 header \<noteq> read_u32 f1 \<or> cc64_file_crc32 bs \<noteq> read_u32 f2))
         5007 path ''object CRC mismatch'')))"

record object_tables =
  tb_section_offset :: nat
  tb_section_count :: nat
  tb_symbol_offset :: nat
  tb_symbol_count :: nat
  tb_string_offset :: nat
  tb_string_size :: nat

definition read_tables :: "cstring \<Rightarrow> byte list \<Rightarrow> (diag, object_tables) res" where
  "read_tables path bs =
     bindE (fetch bs 28 4) (\<lambda>f1. bindE (fetch bs 32 4) (\<lambda>f2. bindE (fetch bs 36 4) (\<lambda>f3.
     bindE (fetch bs 40 4) (\<lambda>f4. bindE (fetch bs 44 4) (\<lambda>f5. bindE (fetch bs 48 4) (\<lambda>f6.
       let section_offset = unat (read_u32 f1); section_count = unat (read_u32 f2);
           symbol_offset = unat (read_u32 f3); symbol_count = unat (read_u32 f4);
           string_offset = unat (read_u32 f5); string_size = unat (read_u32 f6) in
       bindE (check (\<not> (section_count > 65535 \<or> symbol_count > 1000000 \<or> string_size = 0 \<or>
                string_size > length bs \<or> section_offset < CC64O_HEADER_SIZE \<or>
                symbol_offset < CC64O_HEADER_SIZE \<or> string_offset < CC64O_HEADER_SIZE \<or>
                \<not> range_ok section_offset (section_count * CC64O_SECTION_SIZE) (length bs) \<or>
                \<not> range_ok symbol_offset (symbol_count * CC64O_SYMBOL_SIZE) (length bs) \<or>
                \<not> range_ok string_offset string_size (length bs)))
                5008 path ''object tables are truncated'') (\<lambda>_.
       Inr \<lparr>tb_section_offset = section_offset, tb_section_count = section_count,
            tb_symbol_offset = symbol_offset, tb_symbol_count = symbol_count,
            tb_string_offset = string_offset, tb_string_size = string_size\<rparr>)))))))"

definition range_add_list :: "link_object \<Rightarrow> (nat \<times> nat) list \<Rightarrow> link_object option" where
  "range_add_list ob rs = foldl (\<lambda>acc (offset, len). Option.bind acc (\<lambda>ob. object_range_add ob offset len))
     (Some ob) rs"

definition claim_tables ::
  "cstring \<Rightarrow> object_tables \<Rightarrow> nat \<times> nat \<Rightarrow> nat \<times> nat \<Rightarrow> link_object \<Rightarrow> (diag, link_object) res" where
  "claim_tables path tb source_map target ob =
     (case range_add_list ob
        ([(0, CC64O_HEADER_SIZE),
          (tb_section_offset tb, tb_section_count tb * CC64O_SECTION_SIZE),
          (tb_symbol_offset tb, tb_symbol_count tb * CC64O_SYMBOL_SIZE),
          (tb_string_offset tb, tb_string_size tb)] @
         (if snd source_map \<noteq> 0 then [source_map] else [])) of
        None \<Rightarrow> link_error 5008 (Some path) ''object tables overlap''
      | Some ob \<Rightarrow>
          (if tb_string_offset tb \<le> fst target \<and>
              (fst target + snd target) mod 2 ^ 32
                \<le> (tb_string_offset tb + tb_string_size tb) mod 2 ^ 32
           then Inr ob
           else case object_range_add ob (fst target) (snd target) of
             None \<Rightarrow> link_error 5008 (Some path) ''object target range overlaps tables''
           | Some ob \<Rightarrow> Inr ob))"

subsection \<open>Names\<close>

text \<open>
  The scan from \<open>name_offset\<close> to the terminator: \<open>None\<close> when it reaches the end of the table.
\<close>

definition scan_name :: "byte list \<Rightarrow> nat \<Rightarrow> cstring option" where
  "scan_name strings name_offset =
     (let name = takeWhile (\<lambda>b. b \<noteq> 0) (drop name_offset strings)
      in if name_offset + length name = length strings then None else Some name)"

subsection \<open>Sections and relocations\<close>

definition read_relocation ::
  "cstring \<Rightarrow> byte list \<Rightarrow> nat \<Rightarrow> nat \<Rightarrow> nat \<Rightarrow> link_relocation list \<Rightarrow> nat \<Rightarrow>
     (diag, link_relocation list) res" where
  "read_relocation path bs reloc_offset symbol_count section_size acc j =
     bindE (fetch bs (reloc_offset + j * CC64O_RELOC_SIZE) CC64O_RELOC_SIZE) (\<lambda>entry.
       let r = \<lparr>lr_offset = read_u64 entry, lr_symbol_index = read_u32 (drop 8 entry),
                lr_type = read_u32 (drop 12 entry), lr_addend = read_i64 (drop 16 entry),
                lr_width = read_u32 (drop 24 entry)\<rparr> in
       bindE (check (\<not> (unat (lr_symbol_index r) \<ge> symbol_count \<or> read_u32 (drop 28 entry) \<noteq> 0 \<or>
                (lr_type r = REL_ABS32 \<and> lr_width r \<noteq> 4) \<or> (lr_type r = REL_ABS64 \<and> lr_width r \<noteq> 8) \<or>
                (lr_type r = REL_PC32 \<and> lr_width r \<noteq> 4) \<or> (lr_type r = REL_SECTION32 \<and> lr_width r \<noteq> 4) \<or>
                (lr_type r = REL_DATA64 \<and> lr_width r \<noteq> 8) \<or> lr_type r < 1 \<or> lr_type r > 5 \<or>
                unat (lr_offset r) > section_size \<or>
                unat (lr_width r) > section_size - unat (lr_offset r)))
                5011 path ''invalid object relocation'') (\<lambda>_. Inr (acc @ [r])))"

definition read_section ::
  "cstring \<Rightarrow> object_tables \<Rightarrow> link_object \<Rightarrow> nat \<Rightarrow> (diag, link_object) res" where
  "read_section path tb ob i =
     (let bs = lo_bytes ob in
      bindE (fetch bs (tb_section_offset tb + i * CC64O_SECTION_SIZE) CC64O_SECTION_SIZE) (\<lambda>record.
      bindE (fetch bs (tb_string_offset tb) (tb_string_size tb)) (\<lambda>strings.
      let name_offset = unat (read_u32 record);
          payload_offset = unat (read_u32 (drop 4 record));
          payload_size = unat (read_u32 (drop 8 record));
          reloc_offset = unat (read_u32 (drop 12 record));
          reloc_count = unat (read_u32 (drop 16 record));
          alignment_power = unat (read_u32 (drop 20 record));
          kind = record ! 24;
          alignment = (if alignment_power > 15 then 0 else 2 ^ alignment_power) in
      bindE (check (\<not> (name_offset \<ge> tb_string_size tb \<or> kind > 3 \<or> alignment = 0 \<or>
               read_u16 (drop 26 record) \<noteq> of_nat i \<or> record ! 25 \<noteq> 0 \<or>
               read_u32 (drop 28 record) \<noteq> 0 \<or> read_u32 (drop 32 record) \<noteq> 0 \<or>
               (kind \<noteq> 3 \<and> (\<not> range_ok payload_offset payload_size (length bs) \<or>
                            payload_size > MIB256)) \<or>
               (kind = 3 \<and> payload_offset \<noteq> 0) \<or>
               (kind = 3 \<and> read_u32 (drop 36 record) \<noteq> 0)))
               5009 path ''invalid object section'') (\<lambda>_.
      bindE (if kind \<noteq> 3 then fetch bs payload_offset payload_size else Inr []) (\<lambda>payload.
      bindE (check (\<not> ((kind \<noteq> 3 \<and> read_u32 (drop 36 record) \<noteq> cc64_crc32 payload) \<or>
               (reloc_count \<noteq> 0 \<and>
                 (\<not> range_ok reloc_offset (reloc_count * CC64O_RELOC_SIZE) (length bs) \<or>
                  reloc_offset < CC64O_HEADER_SIZE))))
               5009 path ''invalid object section'') (\<lambda>_.
      case range_add_list ob
             ((if kind \<noteq> 3 then [(payload_offset, payload_size)] else []) @
              (if reloc_count \<noteq> 0 then [(reloc_offset, reloc_count * CC64O_RELOC_SIZE)] else [])) of
        None \<Rightarrow> link_error 5009 (Some path) ''object section ranges overlap''
      | Some ob \<Rightarrow>
      (case scan_name strings name_offset of
        None \<Rightarrow> link_error 5010 (Some path) ''invalid section name''
      | Some name \<Rightarrow>
      bindE (check (\<not> ((kind = 0 \<or> kind = 1) \<and> alignment < 16)) 5009 path
               ''executable section alignment is too small'') (\<lambda>_.
      bindE (check (\<not> list_ex (\<lambda>prior. ls_name prior = name) (lo_sections ob)) 5009 path
               ''duplicate object section'') (\<lambda>_.
      bindE (foldE (read_relocation path bs reloc_offset (tb_symbol_count tb) payload_size) []
               [0..<reloc_count]) (\<lambda>relocs.
      Inr (ob\<lparr>lo_sections := lo_sections ob @
        [\<lparr>ls_name = name, ls_kind = kind, ls_alignment = alignment, ls_data = payload,
          ls_size = payload_size, ls_relocations = relocs, ls_output_offset = 0,
          ls_output_kind = 0\<rparr>]\<rparr>)))))))))))"

subsection \<open>Symbols\<close>

definition read_symbol ::
  "cstring \<Rightarrow> object_tables \<Rightarrow> link_object \<Rightarrow> nat \<Rightarrow> (diag, link_object) res" where
  "read_symbol path tb ob i =
     (let bs = lo_bytes ob in
      bindE (fetch bs (tb_symbol_offset tb + i * CC64O_SYMBOL_SIZE) CC64O_SYMBOL_SIZE) (\<lambda>record.
      bindE (fetch bs (tb_string_offset tb) (tb_string_size tb)) (\<lambda>strings.
      let name_offset = unat (read_u32 record) in
      bindE (check (\<not> name_offset \<ge> tb_string_size tb) 5012 path ''invalid symbol name'') (\<lambda>_.
      case scan_name strings name_offset of
        None \<Rightarrow> link_error 5013 (Some path) ''unterminated symbol name''
      | Some name \<Rightarrow>
      (let value = unat (read_u32 (drop 4 record));
           section_index = read_u32 (drop 8 record);
           binding = record ! 12; kind = record ! 13; sz = read_u64 (drop 16 record) in
      bindE (check (\<not> (binding > 1 \<or> kind > 4 \<or> read_u16 (drop 14 record) \<noteq> 0 \<or>
               read_u32 (drop 24 record) \<noteq> 0 \<or> read_u32 (drop 28 record) \<noteq> 0 \<or>
               (section_index \<noteq> 0xffffffff \<and> unat section_index \<ge> tb_section_count tb)))
               5014 path ''invalid object symbol'') (\<lambda>_.
      bindE (check (\<not> (section_index \<noteq> 0xffffffff \<and>
                      value > ls_size (lo_sections ob ! unat section_index)))
               5014 path ''symbol value is outside its section'') (\<lambda>_.
      bindE (check (\<not> (section_index \<noteq> 0xffffffff \<and> kind \<ge> 1 \<and> kind \<le> 3 \<and>
                      unat sz > ls_size (lo_sections ob ! unat section_index) - value))
               5014 path ''symbol range is outside its section'') (\<lambda>_.
      Inr (ob\<lparr>lo_symbols := lo_symbols ob @
        [\<lparr>ly_name = name, ly_value = value, ly_original_value = value,
          ly_section_index = section_index, ly_binding = binding, ly_kind = kind, ly_size = sz,
          ly_defined = (section_index \<noteq> 0xffffffff)\<rparr>]\<rparr>)))))))))"

subsection \<open>The reader\<close>

definition parse_object :: "cstring \<Rightarrow> byte list \<Rightarrow> (diag, link_object) res" where
  "parse_object path bs =
     bindE (check_header path bs) (\<lambda>_.
     bindE (read_source_map path bs) (\<lambda>source_map.
     bindE (read_target path bs) (\<lambda>target.
     bindE (check_crcs path bs) (\<lambda>_.
     bindE (read_tables path bs) (\<lambda>tb.
     bindE (claim_tables path tb source_map target
              \<lparr>lo_bytes = bs, lo_sections = [], lo_symbols = [], lo_ranges = []\<rparr>) (\<lambda>ob.
     bindE (fetch bs (tb_string_offset tb + tb_string_size tb - 1) 1) (\<lambda>last_byte.
     bindE (check (last_byte = [0]) 5008 path ''object string table is unterminated'') (\<lambda>_.
     bindE (foldE (read_section path tb) ob [0..<tb_section_count tb]) (\<lambda>ob.
     bindE (foldE (read_symbol path tb) ob [0..<tb_symbol_count tb]) (\<lambda>ob.
     bindE (check (object_uncovered_bytes_are_zero ob) 5008 path
              ''object contains undescribed data'') (\<lambda>_.
     Inr ob)))))))))))"

text \<open>What the host does with the file: it may refuse at every call, or deliver the bytes.\<close>

datatype file_result = CannotOpen | CannotSeek | CannotSize | CannotRead | Contents "byte list"

definition read_object_file :: "(cstring \<Rightarrow> file_result) \<Rightarrow> cstring \<Rightarrow> (diag, link_object) res" where
  "read_object_file files path =
     (case files path of
        CannotOpen \<Rightarrow> link_error 5001 (Some path) ''cannot open object''
      | CannotSeek \<Rightarrow> link_error 5002 (Some path) ''cannot seek object''
      | CannotSize \<Rightarrow> link_error 5002 (Some path) ''cannot size object''
      | CannotRead \<Rightarrow> link_error 5003 (Some path) ''cannot read object''
      | Contents bs \<Rightarrow> parse_object path bs)"

end
