(* ===== verification/Object_Claims.thy ===== *)
theory Object_Claims
  imports Object_Reader
begin

text \<open>
  The claimed ranges of the object reader. \<open>object_range_add\<close> keeps a list of ranges and rejects
  one that overlaps; what the reader relies on is the set of claimed byte positions, and
  \<open>claim_set\<close> states that contract. The reader's batch of claims is proved against it.
\<close>

locale claim_set =
  fixes add :: "'s \<Rightarrow> nat \<Rightarrow> nat \<Rightarrow> 's option"
    and bound :: "'s \<Rightarrow> nat"
    and claimed :: "'s \<Rightarrow> nat set"
    and invar :: "'s \<Rightarrow> bool"
  assumes add_Some: "invar s \<Longrightarrow> add s k n = Some s' \<Longrightarrow>
      invar s' \<and> bound s' = bound s \<and> claimed s' = claimed s \<union> {k..<k + n} \<and>
      claimed s \<inter> {k..<k + n} = {} \<and> {k..<k + n} \<subseteq> {..<bound s}"
    and add_total: "invar s \<Longrightarrow> k + n \<le> bound s \<Longrightarrow> claimed s \<inter> {k..<k + n} = {} \<Longrightarrow>
      \<exists>s'. add s k n = Some s'"
begin

definition adds :: "'s \<Rightarrow> (nat \<times> nat) list \<Rightarrow> 's option" where
  "adds s rs = foldl (\<lambda>acc (k, n). Option.bind acc (\<lambda>s. add s k n)) (Some s) rs"

lemma foldl_None: "foldl (\<lambda>acc (k, n). Option.bind acc (\<lambda>s. add s k n)) None rs = None"
  by (induction rs) auto

lemma adds_Nil [simp]: "adds s [] = Some s"
  by (simp add: adds_def)

lemma adds_Cons: "adds s ((k, n) # rs) = (case add s k n of None \<Rightarrow> None | Some s' \<Rightarrow> adds s' rs)"
  by (simp add: adds_def foldl_None split: option.split)

lemma adds_Some:
  "invar s \<Longrightarrow> adds s rs = Some s' \<Longrightarrow>
     invar s' \<and> bound s' = bound s \<and> claimed s' = claimed s \<union> (\<Union>(k, n) \<in> set rs. {k..<k + n}) \<and>
     claimed s \<inter> (\<Union>(k, n) \<in> set rs. {k..<k + n}) = {} \<and>
     (\<forall>(k, n) \<in> set rs. {k..<k + n} \<subseteq> {..<bound s})"
proof (induction rs arbitrary: s)
  case Nil
  then show ?case by simp
next
  case (Cons r rs)
  obtain k n where r: "r = (k, n)" by (cases r)
  from Cons.prems(2) obtain u where u: "add s k n = Some u" "adds u rs = Some s'"
    by (auto simp: r adds_Cons split: option.splits)
  note first = add_Some [OF Cons.prems(1) u(1)]
  then have "invar u" by simp
  from Cons.IH [OF this u(2)] first show ?case by (auto simp: r)
qed

text \<open>Ranges that are pairwise disjoint, inside the bound and unclaimed can all be claimed.\<close>

lemma adds_total:
  "invar s \<Longrightarrow> \<forall>(k, n) \<in> set rs. k + n \<le> bound s \<and> claimed s \<inter> {k..<k + n} = {} \<Longrightarrow>
     sorted_wrt (\<lambda>(k, n) (j, m). {k..<k + n} \<inter> {j..<j + m} = {}) rs \<Longrightarrow> \<exists>s'. adds s rs = Some s'"
proof (induction rs arbitrary: s)
  case Nil
  then show ?case by simp
next
  case (Cons r rs)
  obtain k n where r: "r = (k, n)" by (cases r)
  with Cons.prems obtain u where u: "add s k n = Some u" using add_total [of s k n] by auto
  note first = add_Some [OF Cons.prems(1) u]
  have "\<forall>(j, m) \<in> set rs. j + m \<le> bound u \<and> claimed u \<inter> {j..<j + m} = {}"
  proof (intro ballI, clarify)
    fix j m assume jm: "(j, m) \<in> set rs"
    with Cons.prems(3) have "{k..<k + n} \<inter> {j..<j + m} = {}" by (auto simp: r)
    moreover have "j + m \<le> bound s" "claimed s \<inter> {j..<j + m} = {}" using Cons.prems(2) jm by auto
    ultimately show "j + m \<le> bound u \<and> claimed u \<inter> {j..<j + m} = {}"
      using first by (simp add: Int_Un_distrib2)
  qed
  with Cons.IH [of u] first Cons.prems(3) u show ?case by (simp add: r adds_Cons)
qed

end

subsection \<open>The list of ranges of the code\<close>

definition claimed_bytes :: "link_object \<Rightarrow> nat set" where
  "claimed_bytes ob = (\<Union>(k, n) \<in> set (lo_ranges ob). {k..<k + n})"

definition ranges_ok :: "link_object \<Rightarrow> bool" where
  "ranges_ok ob \<longleftrightarrow>
     (\<forall>(k, n) \<in> set (lo_ranges ob). n \<noteq> 0 \<and> k + n \<le> length (lo_bytes ob)) \<and>
     sorted_wrt (\<lambda>(k, n) (j, m). {k..<k + n} \<inter> {j..<j + m} = {}) (lo_ranges ob)"

lemma overlap_iff:
  "0 < n \<Longrightarrow> 0 < m \<Longrightarrow> {j..<j + m} \<inter> {k..<k + n} = {} \<longleftrightarrow> \<not> (k < j + m \<and> j < k + (n :: nat))"
proof (cases "k < j + m \<and> j < k + n")
  case True
  assume "0 < n" "0 < m"
  with True have "max j k \<in> {j..<j + m} \<inter> {k..<k + n}" by auto
  with True show ?thesis by auto
qed auto

lemma no_overlap_iff:
  fixes n :: nat and rs :: "(nat \<times> nat) list"
  assumes "0 < n" and "\<forall>(j, m) \<in> set rs. m \<noteq> 0"
  shows "list_ex (\<lambda>(j, m). k < j + m \<and> j < k + n) rs \<longleftrightarrow>
    (\<Union>(j, m) \<in> set rs. {j..<j + m}) \<inter> {k..<k + n} \<noteq> {}"
  using assms(2)
proof (induction rs)
  case Nil
  then show ?case by simp
next
  case (Cons r rs)
  obtain j m where r: "r = (j, m)" by (cases r)
  with Cons.prems have m: "0 < m" by simp
  have "(\<Union>(j, m) \<in> set (r # rs). {j..<j + m}) \<inter> {k..<k + n} =
      {j..<j + m} \<inter> {k..<k + n} \<union> (\<Union>(j, m) \<in> set rs. {j..<j + m}) \<inter> {k..<k + n}"
    by (simp add: r Int_Un_distrib2)
  with Cons overlap_iff [OF assms(1) m, of j k] show ?case by (simp add: r)
qed

lemma object_range_add_frame:
  "object_range_add ob k n = Some ob' \<Longrightarrow> ob' = ob\<lparr>lo_ranges := lo_ranges ob'\<rparr>"
  by (auto simp: object_range_add_def split: if_splits)

interpretation claims: claim_set object_range_add "\<lambda>ob. length (lo_bytes ob)" claimed_bytes ranges_ok
proof unfold_locales
  fix s k n
  assume ok: "ranges_ok s"
  then have pos: "\<forall>(j, m) \<in> set (lo_ranges s). m \<noteq> 0" by (auto simp: ranges_ok_def)
  {
    assume "k + n \<le> length (lo_bytes s)" "claimed_bytes s \<inter> {k..<k + n} = {}"
    then show "\<exists>s'. object_range_add s k n = Some s'"
      using no_overlap_iff [OF _ pos, of n k]
      by (auto simp: object_range_add_def claimed_bytes_def range_ok_iff)
  }
  fix s'
  assume add: "object_range_add s k n = Some s'"
  show "ranges_ok s' \<and> length (lo_bytes s') = length (lo_bytes s) \<and>
      claimed_bytes s' = claimed_bytes s \<union> {k..<k + n} \<and>
      claimed_bytes s \<inter> {k..<k + n} = {} \<and> {k..<k + n} \<subseteq> {..<length (lo_bytes s)}"
  proof (cases "n = 0")
    case True
    with add ok show ?thesis by (auto simp: object_range_add_def)
  next
    case False
    with add have fits: "k + n \<le> length (lo_bytes s)"
      and free: "\<not> list_ex (\<lambda>(j, m). k < j + m \<and> j < k + n) (lo_ranges s)"
      and s': "s' = s\<lparr>lo_ranges := lo_ranges s @ [(k, n)]\<rparr>"
      by (auto simp: object_range_add_def range_ok_iff split: if_splits)
    have free': "claimed_bytes s \<inter> {k..<k + n} = {}"
      using no_overlap_iff [OF _ pos, of n k] free False by (simp add: claimed_bytes_def)
    then have "\<forall>r \<in> set (lo_ranges s). (case r of (j, m) \<Rightarrow> {j..<j + m} \<inter> {k..<k + n} = {})"
      unfolding claimed_bytes_def by blast
    with ok fits False s' have "ranges_ok s'"
      by (auto simp: ranges_ok_def sorted_wrt_append case_prod_beta)
    with fits free' s' show ?thesis by (auto simp: claimed_bytes_def)
  qed
qed

lemma range_add_list_eq: "range_add_list = claims.adds"
  by (simp add: fun_eq_iff range_add_list_def claims.adds_def)

lemma range_add_list_frame:
  "range_add_list ob rs = Some ob' \<Longrightarrow> ob' = ob\<lparr>lo_ranges := lo_ranges ob'\<rparr>"
proof (induction rs arbitrary: ob)
  case Nil
  then show ?case by (simp add: range_add_list_eq)
next
  case (Cons r rs)
  obtain k n where r: "r = (k, n)" by (cases r)
  with Cons.prems obtain u where u: "object_range_add ob k n = Some u" "range_add_list u rs = Some ob'"
    by (auto simp: range_add_list_eq claims.adds_Cons split: option.splits)
  from Cons.IH [OF u(2)] object_range_add_frame [OF u(1)] show ?case by (cases ob, cases ob', cases u) simp
qed

text \<open>
  The reader's bookkeeping of claimed ranges is a set of byte positions: a nonempty range is
  accepted exactly when it lies in the file and no byte of it is claimed yet, and accepting it
  adds exactly its bytes to the claimed set.
\<close>

lemma object_range_add_refines:
  assumes "ranges_ok ob" and "0 < n"
  shows "case object_range_add ob k n of
      None \<Rightarrow> \<not> (k + n \<le> length (lo_bytes ob) \<and> claimed_bytes ob \<inter> {k..<k + n} = {})
    | Some ob' \<Rightarrow> k + n \<le> length (lo_bytes ob) \<and> claimed_bytes ob \<inter> {k..<k + n} = {} \<and>
        claimed_bytes ob' = claimed_bytes ob \<union> {k..<k + n} \<and> ranges_ok ob'"
proof (cases "object_range_add ob k n")
  case None
  with claims.add_total [OF assms(1), of k n] show ?thesis by auto
next
  case (Some ob')
  with claims.add_Some [OF assms(1) Some] assms(2) show ?thesis
    by (auto simp: object_range_add_def range_ok_iff split: if_splits)
qed

lemma object_range_add_refines_witness:
  "case object_range_add \<lparr>lo_bytes = replicate 9 0, lo_sections = [], lo_symbols = [],
      lo_ranges = [(0, 4)]\<rparr> 3 2 of
     None \<Rightarrow> \<not> (3 + 2 \<le> (9 :: nat) \<and> {0..<4} \<inter> {3..<3 + 2} = ({} :: nat set)) | Some ob' \<Rightarrow> False"
proof -
  let ?ob = "\<lparr>lo_bytes = replicate 9 0, lo_sections = [], lo_symbols = [], lo_ranges = [(0, 4)]\<rparr>"
  have ok: "ranges_ok ?ob" by (simp add: ranges_ok_def)
  have "object_range_add ?ob 3 2 = None" by (simp add: object_range_add_def range_ok_def)
  with object_range_add_refines [OF ok, of 2 3] show ?thesis by (simp add: claimed_bytes_def)
qed

text \<open>The final scan of the reader: every byte no range claims is zero.\<close>

lemma uncovered_iff:
  "object_uncovered_bytes_are_zero ob \<longleftrightarrow>
     (\<forall>i < length (lo_bytes ob). i \<in> claimed_bytes ob \<or> lo_bytes ob ! i = 0)"
proof -
  have "list_ex (\<lambda>(o2, l2). o2 \<le> i \<and> i < o2 + l2) rs \<longleftrightarrow> i \<in> (\<Union>(k, n) \<in> set rs. {k..<k + n})"
    for i :: nat and rs
    by (induction rs) auto
  then show ?thesis
    by (simp add: object_uncovered_bytes_are_zero_def claimed_bytes_def list_all_iff Ball_def)
qed

end
