(* ===== verification/Object_Accept.thy ===== *)
theory Object_Accept
  imports Object_Claims
begin

text \<open>
  What the object reader guarantees: it never reads outside the file, whatever the file holds,
  and an object it accepts is well formed (\<open>link_object_ok\<close>), which is what the later phases of
  the linker rely on.
\<close>

subsection \<open>Well-formed objects\<close>

definition link_reloc_ok :: "nat \<Rightarrow> nat \<Rightarrow> link_relocation \<Rightarrow> bool" where
  "link_reloc_ok nsymbols sz r \<longleftrightarrow>
     relocation_shape_ok (lr_type r) (lr_width r) \<and> unat (lr_symbol_index r) < nsymbols \<and>
     unat (lr_offset r) + unat (lr_width r) \<le> sz \<and>
     - (2 ^ 63) \<le> lr_addend r \<and> lr_addend r < 2 ^ 63"

definition link_section_ok :: "nat \<Rightarrow> link_section \<Rightarrow> bool" where
  "link_section_ok nsymbols s \<longleftrightarrow>
     ls_kind s \<le> 3 \<and> ls_alignment s \<in> (\<lambda>k. 2 ^ k) ` {..15} \<and>
     (ls_kind s \<le> 1 \<longrightarrow> 16 \<le> ls_alignment s) \<and> ls_size s < 2 ^ 32 \<and>
     (if ls_kind s = 3 then ls_data s = []
      else length (ls_data s) = ls_size s \<and> ls_size s \<le> MIB256) \<and>
     (\<forall>r \<in> set (ls_relocations s). link_reloc_ok nsymbols (ls_size s) r)"

definition link_symbol_ok :: "link_section list \<Rightarrow> link_symbol \<Rightarrow> bool" where
  "link_symbol_ok secs y \<longleftrightarrow>
     ly_binding y \<le> 1 \<and> ly_kind y \<le> 4 \<and> ly_value y < 2 ^ 32 \<and> ly_original_value y = ly_value y \<and>
     (ly_defined y \<longleftrightarrow> ly_section_index y \<noteq> 0xffffffff) \<and>
     (ly_defined y \<longrightarrow> unat (ly_section_index y) < length secs \<and>
        ly_value y \<le> ls_size (secs ! unat (ly_section_index y)) \<and>
        (1 \<le> ly_kind y \<and> ly_kind y \<le> 3 \<longrightarrow>
           ly_value y + unat (ly_size y) \<le> ls_size (secs ! unat (ly_section_index y))))"

definition link_object_ok :: "link_object \<Rightarrow> bool" where
  "link_object_ok ob \<longleftrightarrow>
     ranges_ok ob \<and> object_uncovered_bytes_are_zero ob \<and>
     distinct (map ls_name (lo_sections ob)) \<and> length (lo_sections ob) \<le> 65535 \<and>
     (\<forall>s \<in> set (lo_sections ob). link_section_ok (length (lo_symbols ob)) s) \<and>
     (\<forall>y \<in> set (lo_symbols ob). link_symbol_ok (lo_sections ob) y)"

definition tables_ok :: "object_tables \<Rightarrow> byte list \<Rightarrow> bool" where
  "tables_ok tb bs \<longleftrightarrow>
     tb_section_count tb \<le> 65535 \<and> 0 < tb_string_size tb \<and>
     tb_section_offset tb + tb_section_count tb * 40 \<le> length bs \<and>
     tb_symbol_offset tb + tb_symbol_count tb * 32 \<le> length bs \<and>
     tb_string_offset tb + tb_string_size tb \<le> length bs"

subsection \<open>The phases before the tables\<close>

lemma check_header_ok:
  shows "safe (check_header path bs)"
    and "check_header path bs = Inr u \<Longrightarrow> 96 \<le> length bs"
  by (auto simp: check_header_def intro!: safe_bindE)

lemma phases_safe:
  assumes "96 \<le> length bs"
  shows "safe (read_source_map path bs)" "safe (read_target path bs)" "safe (check_crcs path bs)"
    "safe (read_tables path bs)"
  using assms
  by (auto simp: read_source_map_def read_target_def check_crcs_def read_tables_def Let_def
      range_ok_iff intro!: safe_bindE split del: if_split intro!: safe_if)

lemma read_tables_ok: "read_tables path bs = Inr tb \<Longrightarrow> tables_ok tb bs"
  by (auto simp: read_tables_def Let_def tables_ok_def range_ok_iff)

lemma claim_tables_ok:
  assumes "claim_tables path tb sm target ob = Inr ob'" and "ranges_ok ob"
  shows "ob' = ob\<lparr>lo_ranges := lo_ranges ob'\<rparr>" and "ranges_ok ob'"
proof -
  from assms(1) obtain rs ob1 where 1: "range_add_list ob rs = Some ob1"
    and 2: "ob' = ob1 \<or> object_range_add ob1 (fst target) (snd target) = Some ob'"
    unfolding claim_tables_def by (auto split: option.splits if_splits)
  note frame = range_add_list_frame [OF 1] object_range_add_frame
  have ok1: "ranges_ok ob1" using claims.adds_Some [OF assms(2)] 1 by (simp add: range_add_list_eq)
  from 2 have "ob' = ob1\<lparr>lo_ranges := lo_ranges ob'\<rparr> \<and> ranges_ok ob'"
    using frame(2) claims.add_Some [OF ok1] ok1 by auto
  then show "ob' = ob\<lparr>lo_ranges := lo_ranges ob'\<rparr>" and "ranges_ok ob'"
    using frame(1) by (cases ob, cases ob', cases ob1, simp)+
qed

lemma claim_tables_safe: "safe (claim_tables path tb sm target ob)"
  by (simp add: claim_tables_def split: option.split)

subsection \<open>Sections\<close>

lemma read_relocation_safe:
  "off + n * 32 \<le> length bs \<Longrightarrow> j < n \<Longrightarrow> safe (read_relocation path bs off m sz acc j)"
  by (auto simp: read_relocation_def Let_def intro!: safe_bindE)

lemma reloc_type_cases:
  assumes "1 \<le> t" "t \<le> (5 :: u32)"
  shows "t = 1 \<or> t = 2 \<or> t = 3 \<or> t = 4 \<or> t = 5"
proof -
  have "unat t \<in> {1, 2, 3, 4, 5}" using assms unfolding word_le_nat_alt by auto
  from word_small_cases [OF this] show ?thesis by simp
qed

lemma read_relocation_ok:
  assumes "read_relocation path bs off m sz acc j = Inr acc'"
  shows "\<exists>r. acc' = acc @ [r] \<and> link_reloc_ok m sz r"
proof -
  from assms obtain r where acc': "acc' = acc @ [r]"
    and ok: "\<not> unat (lr_symbol_index r) \<ge> m" "\<not> lr_type r < 1" "\<not> lr_type r > 5"
      "\<not> unat (lr_offset r) > sz" "\<not> unat (lr_width r) > sz - unat (lr_offset r)"
    and shape: "\<not> (lr_type r = 1 \<and> lr_width r \<noteq> 4)" "\<not> (lr_type r = 2 \<and> lr_width r \<noteq> 8)"
      "\<not> (lr_type r = 3 \<and> lr_width r \<noteq> 4)" "\<not> (lr_type r = 4 \<and> lr_width r \<noteq> 4)"
      "\<not> (lr_type r = 5 \<and> lr_width r \<noteq> 8)"
    unfolding read_relocation_def Let_def bindE_eq_Inr check_simps de_Morgan_disj
    by (elim exE conjE) (rule that, simp_all only: Inr_inject sum.inject simp_thms)
  have "\<exists>e. r = \<lparr>lr_offset = read_u64 e, lr_symbol_index = read_u32 (drop 8 e),
      lr_type = read_u32 (drop 12 e), lr_addend = read_i64 (drop 16 e), lr_width = read_u32 (drop 24 e)\<rparr>"
    using assms unfolding acc' read_relocation_def Let_def bindE_eq_Inr
    by (elim exE conjE) (rule exI, simp only: same_append_eq list.inject sum.inject simp_thms, erule sym)
  then have "\<exists>w. lr_addend r = sint (w :: u64)" by (elim exE) (simp add: read_i64_def, blast)
  then have "- (2 ^ 63) \<le> lr_addend r \<and> lr_addend r < 2 ^ 63"
    using sint_ge [where 'a = 64] sint_lt [where 'a = 64] by auto
  moreover have "lr_type r = 1 \<or> lr_type r = 2 \<or> lr_type r = 3 \<or> lr_type r = 4 \<or> lr_type r = 5"
    using ok(2,3) by (intro reloc_type_cases) (simp_all only: not_less)
  with ok shape have "relocation_shape_ok (lr_type r) (lr_width r)"
    unfolding relocation_shape_ok_def by (elim disjE) simp_all
  ultimately show ?thesis using ok acc' by (simp add: link_reloc_ok_def)
qed

lemma read_relocations_ok:
  assumes "foldE (read_relocation path bs off m sz) [] [0..<n] = Inr rs"
  shows "\<forall>r \<in> set rs. link_reloc_ok m sz r"
  by (rule foldE_upt_invariant [OF assms, where P = "\<lambda>_ rs. \<forall>r \<in> set rs. link_reloc_ok m sz r"])
    (auto dest!: read_relocation_ok)

lemma read_relocations_safe:
  "off + n * 32 \<le> length bs \<Longrightarrow> safe (foldE (read_relocation path bs off m sz) [] [0..<n])"
  by (rule foldE_upt_safe [where P = "\<lambda>_ _. True"]) (auto intro: read_relocation_safe)

lemma read_section_safe:
  assumes "tables_ok tb (lo_bytes ob)" and "i < tb_section_count tb"
  shows "safe (read_section path tb ob i)"
proof -
  have fits: "tb_section_offset tb + i * 40 + 40 \<le> length (lo_bytes ob)"
    "tb_string_offset tb + tb_string_size tb \<le> length (lo_bytes ob)"
    using assms by (auto simp: tables_ok_def)
  have "safe (foldE (read_relocation path (lo_bytes ob) off m sz) [] [0..<n])"
    if "n \<noteq> 0 \<longrightarrow> range_ok off (n * 32) (length (lo_bytes ob))" for off m sz n
    using that read_relocations_safe [of off n] by (cases "n = 0") (auto simp: range_ok_iff)
  note rel = this
  show ?thesis
    unfolding read_section_def Let_def
    by (intro safe_bindE safe_case_option rel link_error_simps check_simps)
      (use fits in \<open>auto simp: range_ok_iff\<close>)
qed

lemma byte_le_1: "k \<le> (1 :: byte) \<Longrightarrow> k = 0 \<or> k = 1"
proof -
  assume "k \<le> 1"
  then have "unat k \<in> {0, 1}" by (auto simp: word_le_nat_alt)
  from word_small_cases [OF this] show ?thesis by simp
qed

text \<open>A section record that passes leaves a well-formed section with a new name.\<close>

lemma read_section_ok:
  assumes "read_section path tb ob i = Inr ob'" and "ranges_ok ob"
  shows "\<exists>s. ob' = ob\<lparr>lo_ranges := lo_ranges ob', lo_sections := lo_sections ob @ [s]\<rparr> \<and>
    ranges_ok ob' \<and> link_section_ok (tb_symbol_count tb) s \<and>
    ls_name s \<notin> ls_name ` set (lo_sections ob)"
  using assms(1)
  unfolding read_section_def Let_def bindE_eq_Inr check_simps case_link_error fetch_eq_Inr
proof (elim exE conjE, goal_cases)
  case p: (1 rd strings u1 payload u2 ob1 name u3 u4 relocs)
  let ?kind = "rd ! 24" and ?size = "unat (read_u32 (drop 8 rd))"
  let ?power = "unat (read_u32 (drop 20 rd))"
  let ?align = "if 15 < ?power then 0 else 2 ^ ?power :: nat"
  let ?s = "\<lparr>ls_name = name, ls_kind = ?kind, ls_alignment = ?align, ls_data = payload,
     ls_size = ?size, ls_relocations = relocs, ls_output_offset = 0, ls_output_kind = 0\<rparr>"
  have frame: "ob1 = ob\<lparr>lo_ranges := lo_ranges ob1\<rparr>" by (rule range_add_list_frame [OF p(8)])
  have same: "lo_sections ob1 = lo_sections ob" by (subst frame) simp
  have ok1: "ranges_ok ob1"
    using claims.adds_Some [OF assms(2)] p(8) by (simp add: range_add_list_eq)
  have kind: "?kind \<le> 3" and power: "?align \<noteq> 0" "?kind \<noteq> 3 \<Longrightarrow> ?size \<le> MIB256"
    and fits: "?kind \<noteq> 3 \<Longrightarrow> range_ok (unat (read_u32 (drop 4 rd))) ?size (length (lo_bytes ob))"
    using p(5) by (simp_all only: de_Morgan_disj de_Morgan_conj not_not not_less) (simp_all)
  from power(1) have p15: "?power \<le> 15" by (simp split: if_splits)
  then have align: "?align = 2 ^ ?power" by simp
  have exec: "?kind \<le> 1 \<Longrightarrow> 16 \<le> ?align"
    using p(10) byte_le_1 [of ?kind] by (auto simp only: de_Morgan_conj not_less)
  have data: "if ?kind = 3 then payload = [] else length payload = ?size \<and> ?size \<le> MIB256"
    using p(6) fits power(2) by (auto simp: range_ok_iff split: if_splits)
  have "?size < 2 ^ 32" by (rule unat_u32_less)
  with kind align p15 exec data read_relocations_ok [OF p(12)]
  have "link_section_ok (tb_symbol_count tb) ?s"
    unfolding link_section_ok_def by (simp only: link_section.simps) blast
  moreover have "name \<notin> ls_name ` set (lo_sections ob)"
    using p(11) by (auto simp: list_ex_iff same)
  moreover have "ob' = ob1\<lparr>lo_sections := lo_sections ob1 @ [?s]\<rparr>" using p(13) by simp
  then have "ob' = ob\<lparr>lo_ranges := lo_ranges ob', lo_sections := lo_sections ob @ [?s]\<rparr>"
    by (subst (asm) frame) (simp add: same)
  moreover have "ranges_ok ob'"
    using ok1 \<open>ob' = ob1\<lparr>lo_sections := lo_sections ob1 @ [?s]\<rparr>\<close> by (simp add: ranges_ok_def)
  ultimately show ?case by (intro exI [of _ ?s]) simp
qed

text \<open>The section loop.\<close>

definition sections_read :: "object_tables \<Rightarrow> link_object \<Rightarrow> nat \<Rightarrow> link_object \<Rightarrow> bool" where
  "sections_read tb ob0 i ob \<longleftrightarrow>
     lo_bytes ob = lo_bytes ob0 \<and> lo_symbols ob = lo_symbols ob0 \<and> ranges_ok ob \<and>
     length (lo_sections ob) = i \<and> distinct (map ls_name (lo_sections ob)) \<and>
     (\<forall>s \<in> set (lo_sections ob). link_section_ok (tb_symbol_count tb) s)"

lemma read_section_step:
  assumes "sections_read tb ob0 i ob" and "read_section path tb ob i = Inr ob'"
  shows "sections_read tb ob0 (Suc i) ob'"
proof -
  from assms(1) have "ranges_ok ob" by (simp add: sections_read_def)
  from read_section_ok [OF assms(2) this] obtain s
    where "ob' = ob\<lparr>lo_ranges := lo_ranges ob', lo_sections := lo_sections ob @ [s]\<rparr>" (is "ob' = ?ob")
      and s: "ranges_ok ob'" "link_section_ok (tb_symbol_count tb) s" "ls_name s \<notin> ls_name ` set (lo_sections ob)"
    by blast
  then have "lo_bytes ob' = lo_bytes ?ob" "lo_symbols ob' = lo_symbols ?ob" "lo_sections ob' = lo_sections ?ob"
    by simp_all
  with assms(1) s show ?thesis by (simp add: sections_read_def)
qed

subsection \<open>Symbols\<close>

definition symbols_read :: "link_object \<Rightarrow> nat \<Rightarrow> link_object \<Rightarrow> bool" where
  "symbols_read ob0 i ob \<longleftrightarrow>
     (\<exists>ys. ob = ob0\<lparr>lo_symbols := ys\<rparr> \<and> length ys = i \<and>
        (\<forall>y \<in> set ys. link_symbol_ok (lo_sections ob0) y))"

lemma read_symbol_ok:
  assumes "read_symbol path tb ob i = Inr ob'" and "length (lo_sections ob) = tb_section_count tb"
  shows "\<exists>y. ob' = ob\<lparr>lo_symbols := lo_symbols ob @ [y]\<rparr> \<and> link_symbol_ok (lo_sections ob) y"
  using assms(1)
  unfolding read_symbol_def Let_def bindE_eq_Inr check_simps case_link_error fetch_eq_Inr
proof (elim exE conjE, goal_cases)
  case p: (1 rd strings u1 name u2 u3 u4)
  let ?val = "unat (read_u32 (drop 4 rd))" and ?index = "read_u32 (drop 8 rd)"
  let ?sz = "read_u64 (drop 16 rd)" and ?kind = "rd ! 13"
  let ?y = "\<lparr>ly_name = name, ly_value = ?val, ly_original_value = ?val, ly_section_index = ?index,
     ly_binding = rd ! 12, ly_kind = ?kind, ly_size = ?sz, ly_defined = (?index \<noteq> 0xffffffff)\<rparr>"
  have "rd ! 12 \<le> 1" "?kind \<le> 4"
    and index: "?index \<noteq> 0xffffffff \<Longrightarrow> unat ?index < length (lo_sections ob)"
    using p(7) assms(2) by (simp_all only: de_Morgan_disj de_Morgan_conj not_not not_less not_le) simp_all
  moreover have val: "?index \<noteq> 0xffffffff \<Longrightarrow> ?val \<le> ls_size (lo_sections ob ! unat ?index)"
    using p(8) by auto
  moreover have "?val + unat ?sz \<le> ls_size (lo_sections ob ! unat ?index)"
    if "?index \<noteq> 0xffffffff" "1 \<le> ?kind" "?kind \<le> 3"
    using p(9) that val by auto
  moreover have "?val < 2 ^ 32" by (rule unat_u32_less)
  ultimately have "link_symbol_ok (lo_sections ob) ?y"
    unfolding link_symbol_ok_def by (simp only: link_symbol.simps) blast
  with p(10) show ?case by (intro exI [of _ ?y]) simp
qed

lemma read_symbol_safe:
  assumes "tables_ok tb (lo_bytes ob)" and "i < tb_symbol_count tb"
  shows "safe (read_symbol path tb ob i)"
proof -
  have "tb_symbol_offset tb + i * 32 + 32 \<le> length (lo_bytes ob)"
    "tb_string_offset tb + tb_string_size tb \<le> length (lo_bytes ob)"
    using assms by (auto simp: tables_ok_def)
  then show ?thesis
    unfolding read_symbol_def Let_def
    by (intro safe_bindE safe_case_option link_error_simps check_simps) auto
qed

lemma read_symbol_step:
  assumes "symbols_read ob0 i ob" "length (lo_sections ob0) = tb_section_count tb"
    and "read_symbol path tb ob i = Inr ob'"
  shows "symbols_read ob0 (Suc i) ob'"
  using read_symbol_ok [OF assms(3)] assms(1,2) by (fastforce simp: symbols_read_def)

subsection \<open>The whole reader\<close>

abbreviation fresh_object :: "byte list \<Rightarrow> link_object" where
  "fresh_object bs \<equiv> \<lparr>lo_bytes = bs, lo_sections = [], lo_symbols = [], lo_ranges = []\<rparr>"

lemma tables_claimed:
  assumes "claim_tables path tb sm target (fresh_object bs) = Inr ob"
  shows "sections_read tb (fresh_object bs) 0 ob"
proof -
  have "ranges_ok (fresh_object bs)" by (simp add: ranges_ok_def)
  note c = claim_tables_ok [OF assms this]
  show ?thesis unfolding sections_read_def by (subst (1 2 4 5 6) c(1)) (simp add: c(2))
qed

lemma sections_loop:
  assumes "foldE (read_section path tb) ob [0..<tb_section_count tb] = Inr ob'"
    and "sections_read tb ob0 0 ob"
  shows "sections_read tb ob0 (tb_section_count tb) ob'"
  by (rule foldE_upt_invariant [OF assms(1), where P = "sections_read tb ob0"])
    (use assms(2) in \<open>auto intro: read_section_step\<close>)

lemma symbols_loop:
  assumes "foldE (read_symbol path tb) ob [0..<n] = Inr ob'"
    and "length (lo_sections ob) = tb_section_count tb" "lo_symbols ob = []"
  shows "symbols_read ob n ob'"
proof (rule foldE_upt_invariant [OF assms(1), where P = "symbols_read ob"])
  show "symbols_read ob 0 ob" using assms(3) by (cases ob) (simp add: symbols_read_def)
qed (auto intro: read_symbol_step assms(2))

lemma parse_object_safe: "safe (parse_object path bs)"
proof -
  have sec: "safe (foldE (read_section path tb) ob [0..<tb_section_count tb])"
    if "tables_ok tb bs" "sections_read tb (fresh_object bs) 0 ob" for tb bs ob
  proof (rule foldE_upt_safe [where P = "sections_read tb (fresh_object bs)", OF that(2)])
    fix s i assume "i < tb_section_count tb" "sections_read tb (fresh_object bs) i s"
    with that(1) show "safe (read_section path tb s i)"
      by (intro read_section_safe) (simp_all add: sections_read_def)
  qed (rule read_section_step)
  have sym: "safe (foldE (read_symbol path tb) ob [0..<tb_symbol_count tb])"
    if "tables_ok tb bs" "lo_bytes ob = bs" "lo_symbols ob = []" "length (lo_sections ob) = tb_section_count tb"
    for tb bs ob
  proof (rule foldE_upt_safe [where P = "symbols_read ob"])
    show "symbols_read ob 0 ob" using that(3) by (cases ob) (simp add: symbols_read_def)
  next
    fix s i assume "i < tb_symbol_count tb" "symbols_read ob i s"
    with that show "safe (read_symbol path tb s i)"
      by (auto intro!: read_symbol_safe simp: symbols_read_def)
  qed (rule read_symbol_step [OF _ that(4)])
  show ?thesis
    unfolding parse_object_def
  proof (intro safe_bindE, goal_cases)
    case 1 show ?case by (rule check_header_ok)
  next
    case 2 then show ?case using check_header_ok(2) phases_safe by blast
  next
    case 3 then show ?case using check_header_ok(2) phases_safe by blast
  next
    case 4 then show ?case using check_header_ok(2) phases_safe by blast
  next
    case 5 then show ?case using check_header_ok(2) phases_safe by blast
  next
    case 6 show ?case by (rule claim_tables_safe)
  next
    case (7 _ _ _ _ tb)
    then show ?case using read_tables_ok [of path bs tb] by (auto simp: tables_ok_def)
  next
    case 8 show ?case by simp
  next
    case (9 _ _ _ _ tb ob)
    then show ?case by (intro sec [OF read_tables_ok tables_claimed])
  next
    case (10 _ _ _ _ tb ob _ _ ob1)
    have "sections_read tb (fresh_object bs) (tb_section_count tb) ob1"
      using 10 by (intro sections_loop [OF _ tables_claimed])
    with 10(5) show ?case by (intro sym [OF read_tables_ok]) (auto simp: sections_read_def)
  qed simp_all
qed

lemma read_object_file_never: "safe (read_object_file files path)"
  by (simp add: read_object_file_def parse_object_safe split: file_result.split)

text \<open>
  The object reader never reads outside the file: for every path and every content, hostile
  ones included, \<open>read_object_file\<close> accepts the object or reports one of its own errors.
\<close>

lemma read_object_file_safe: "read_object_file files path \<noteq> Inl OutOfBounds"
  using read_object_file_never by (simp add: safe_def)

lemma parse_object_ok:
  assumes "parse_object path bs = Inr ob"
  shows "link_object_ok ob \<and> lo_bytes ob = bs"
proof -
  from assms obtain tb sm target ob1 ob2 where tb: "read_tables path bs = Inr tb"
    and claim: "claim_tables path tb sm target (fresh_object bs) = Inr ob1"
    and secs: "foldE (read_section path tb) ob1 [0..<tb_section_count tb] = Inr ob2"
    and syms: "foldE (read_symbol path tb) ob2 [0..<tb_symbol_count tb] = Inr ob"
    and zero: "object_uncovered_bytes_are_zero ob"
    unfolding parse_object_def bindE_eq_Inr check_simps
    by (elim exE conjE) (rule that, assumption+, simp_all)
  note s = sections_loop [OF secs tables_claimed [OF claim]]
  then have ob2: "length (lo_sections ob2) = tb_section_count tb" "lo_symbols ob2 = []"
    by (simp_all add: sections_read_def)
  from symbols_loop [OF syms ob2] obtain ys where ob: "ob = ob2\<lparr>lo_symbols := ys\<rparr>"
    and ys: "length ys = tb_symbol_count tb" "\<forall>y \<in> set ys. link_symbol_ok (lo_sections ob2) y"
    by (auto simp: symbols_read_def)
  have "tb_section_count tb \<le> 65535" using read_tables_ok [OF tb] by (simp add: tables_ok_def)
  moreover have "ranges_ok ob2" using s by (simp add: sections_read_def)
  then have "ranges_ok ob" using ob by (simp add: ranges_ok_def)
  ultimately show ?thesis using s ob ys zero ob2
    by (simp add: link_object_ok_def sections_read_def)
qed

text \<open>
  C8. An object the reader accepts is well formed: section names are distinct, every section has a
  valid kind, a power-of-two alignment (at least 16 for code and read-only data) and a payload of
  its size, every relocation has a shape the linker knows, lies in its section and names an
  existing symbol, every defined symbol lies in an existing section, no two parts of the file
  overlap, and every byte no part describes is zero.
\<close>

theorem accepted_objects_ok:
  assumes "parse_object path bs = Inr ob"
  shows "link_object_ok ob \<and> lo_bytes ob = bs"
  by (rule parse_object_ok [OF assms])

end
