(* ===== verification/Object_Integrity.thy ===== *)
theory Object_Integrity
  imports Object_Accept
begin

text \<open>
  Corruption of object files: the two checksums of the header and the reserved bytes together
  reject every change confined to four consecutive bytes.
\<close>

lemma accepted_checksums:
  assumes "parse_object path bs = Inr ob"
  shows "96 \<le> length bs"
    and "cc64_crc32 (take 64 bs) = read_u32 (chunk bs 64 4)"
    and "cc64_crc32 (patch bs 68 (replicate 4 0)) = read_u32 (chunk bs 68 4)"
    and "72 \<le> i \<Longrightarrow> i < 96 \<Longrightarrow> bs ! i = 0"
proof -
  from assms have h: "check_header path bs = Inr ()" and c: "check_crcs path bs = Inr ()"
    by (auto simp: parse_object_def)
  from h show len: "96 \<le> length bs" by (rule check_header_ok)
  from h have "list_all (\<lambda>b. b = 0) (chunk bs 72 24)" by (simp add: check_header_def)
  then show "72 \<le> i \<Longrightarrow> i < 96 \<Longrightarrow> bs ! i = 0"
    using len nth_chunk [of "i - 72" 24 72 bs] by (simp add: list_all_length)
  show "cc64_crc32 (take 64 bs) = read_u32 (chunk bs 64 4)"
    "cc64_crc32 (patch bs 68 (replicate 4 0)) = read_u32 (chunk bs 68 4)"
    using c len by (simp_all add: check_crcs_def link_crc32_eq cc64_file_crc32_def chunk_def)
qed

lemma burst_by_index:
  assumes "length xs = length ys" "n \<le> 4" "p + n \<le> length xs"
    and "\<And>i. i < length xs \<Longrightarrow> \<not> (p \<le> i \<and> i < p + n) \<Longrightarrow> xs ! i = ys ! i"
    and "cc64_crc32 xs = cc64_crc32 ys"
  shows "xs = ys"
proof (rule ccontr)
  assume "xs \<noteq> ys"
  have split: "zs = take p zs @ chunk zs p n @ drop (p + n) zs" for zs :: "byte list"
    by (metis append_take_drop_id chunk_def drop_drop add.commute)
  have outside: "take p xs = take p ys" "drop (p + n) xs = drop (p + n) ys"
    using assms(1,3,4) by (auto intro!: nth_equalityI)
  with \<open>xs \<noteq> ys\<close> split [of xs] split [of ys] have "chunk xs p n \<noteq> chunk ys p n" by metis
  then have "cc64_crc32 (take p xs @ chunk xs p n @ drop (p + n) xs) \<noteq>
      cc64_crc32 (take p xs @ chunk ys p n @ drop (p + n) xs)"
    using crc.detects_burst [of "chunk xs p n" "chunk ys p n" "0xffffffff" "take p xs" "drop (p + n) xs"]
      assms(1-3) by (simp add: cc64_crc32_def)
  then show False using assms(5) outside split [of xs] split [of ys] by metis
qed

text \<open>
  Two accepted files of one length that agree outside a window of four bytes: a difference inside
  the file checksum field excludes one anywhere else, and without it the files are equal.
\<close>

definition accepted_pair :: "cstring \<Rightarrow> byte list \<Rightarrow> byte list \<Rightarrow> nat \<Rightarrow> nat \<Rightarrow> bool" where
  "accepted_pair path a b p n \<longleftrightarrow>
     (\<exists>ob. parse_object path a = Inr ob) \<and> (\<exists>ob. parse_object path b = Inr ob) \<and>
     length b = length a \<and> n \<le> 4 \<and> p + n \<le> length a \<and>
     (\<forall>i. \<not> (p \<le> i \<and> i < p + n) \<longrightarrow> a ! i = b ! i)"

lemma accepted_pairD:
  assumes "accepted_pair path a b p n"
  shows "length b = length a" "n \<le> 4" "p + n \<le> length a" "96 \<le> length a"
    and "\<not> (p \<le> i \<and> i < p + n) \<Longrightarrow> a ! i = b ! i"
    and "72 \<le> i \<Longrightarrow> i < 96 \<Longrightarrow> a ! i = b ! i"
    and "cc64_crc32 (take 64 a) = read_u32 (chunk a 64 4)"
    and "cc64_crc32 (take 64 b) = read_u32 (chunk b 64 4)"
    and "cc64_crc32 (patch a 68 (replicate 4 0)) = read_u32 (chunk a 68 4)"
    and "cc64_crc32 (patch b 68 (replicate 4 0)) = read_u32 (chunk b 68 4)"
proof -
  from assms obtain oa ob where "parse_object path a = Inr oa" "parse_object path b = Inr ob"
    by (auto simp: accepted_pair_def)
  note sums = accepted_checksums [OF this(1)] accepted_checksums [OF this(2)]
  from sums show "96 \<le> length a"
    and "cc64_crc32 (take 64 a) = read_u32 (chunk a 64 4)"
    and "cc64_crc32 (take 64 b) = read_u32 (chunk b 64 4)"
    and "cc64_crc32 (patch a 68 (replicate 4 0)) = read_u32 (chunk a 68 4)"
    and "cc64_crc32 (patch b 68 (replicate 4 0)) = read_u32 (chunk b 68 4)" by blast+
  show "72 \<le> i \<Longrightarrow> i < 96 \<Longrightarrow> a ! i = b ! i" using sums(4,8) by metis
qed (use assms in \<open>simp_all add: accepted_pair_def\<close>)

lemma field_eq:
  assumes "read_u32 (chunk a k 4) = read_u32 (chunk b k 4)" "length b = length a" "k + 4 \<le> length a"
    and "k \<le> j" "j < k + 4"
  shows "a ! j = b ! j"
proof -
  have "chunk a k 4 = chunk b k 4"
    using assms(1-3) u32.dec_inject [of "chunk a k 4" "chunk b k 4"] by simp
  then show ?thesis
    using assms nth_chunk [of "j - k" 4 k a] nth_chunk [of "j - k" 4 k b] by simp
qed

lemma zeroed:
  assumes "72 \<le> length bs" "j < length bs"
  shows "patch bs 68 (replicate 4 0) ! j = (if 68 \<le> j \<and> j < 72 then 0 else bs ! j)"
proof -
  have "replicate 4 (0 :: byte) ! (j - 68) = 0" if "68 \<le> j" "j < 72"
    using that by (intro nth_replicate) simp
  then show ?thesis using assms by (auto simp: nth_patch)
qed

lemma rest_eq:
  assumes pair: "accepted_pair path a b p n"
    and j: "68 \<le> j" "j < 72" "a ! j \<noteq> b ! j" and k: "k < 68 \<or> 72 \<le> k"
  shows "a ! k = b ! k"
proof (cases "p \<le> k \<and> k < p + n")
  case True
  note D = accepted_pairD [OF pair]
  have win: "p \<le> j" "j < p + n" using j(3) D(5) by blast+
  show ?thesis
  proof (cases "72 \<le> k")
    case high: True
    with True win j D(2) show ?thesis by (intro D(6)) simp_all
  next
    case False
    have "take 64 a = take 64 b"
      using D(1,2,4) win j(1) by (intro nth_equalityI) (auto intro!: D(5))
    with D(7,8) have "read_u32 (chunk a 64 4) = read_u32 (chunk b 64 4)" by metis
    moreover have "64 \<le> k" "k < 68" using True False win j k D(2) by auto
    ultimately show ?thesis using D(1,4) by (intro field_eq [of a 64]) simp_all
  qed
qed (rule accepted_pairD [OF pair])

lemma field_differs:
  assumes pair: "accepted_pair path a b p n" and "a \<noteq> b"
  shows "\<exists>j. 68 \<le> j \<and> j < 72 \<and> a ! j \<noteq> b ! j"
proof (rule ccontr)
  assume same: "\<not> ?thesis"
  note D = accepted_pairD [OF pair]
  let ?z = "\<lambda>bs. patch bs 68 (replicate 4 0)"
  have zlen: "length (?z a) = length a" "length (?z b) = length a" using D(1,4) by simp_all
  have big: "72 \<le> length a" "72 \<le> length b" using D(1,4) by simp_all
  have "chunk a 68 4 = chunk b 68 4"
    using same D(1,4) by (intro nth_equalityI) (auto simp: nth_chunk)
  with D(9,10) have "cc64_crc32 (?z a) = cc64_crc32 (?z b)" by metis
  moreover have "?z a ! i = ?z b ! i" if "i < length a" "\<not> (p \<le> i \<and> i < p + n)" for i
    using zeroed big D(1) that D(5) [OF that(2)] by simp
  ultimately have "?z a = ?z b"
    using burst_by_index [of "?z a" "?z b" n p] zlen D(2,3) by metis
  then have "a ! i = b ! i" if "i < length a" for i
    using zeroed big D(1) that same by (metis (full_types) not_le)
  with \<open>a \<noteq> b\<close> D(1) show False by (metis nth_equalityI)
qed

lemma accepted_pair_equal:
  assumes pair: "accepted_pair path a b p n"
  shows "a = b"
proof (rule ccontr)
  assume "a \<noteq> b"
  with field_differs [OF pair] obtain j where j: "68 \<le> j" "j < 72" "a ! j \<noteq> b ! j" by blast
  note D = accepted_pairD [OF pair]
  have "patch a 68 (replicate 4 0) = patch b 68 (replicate 4 0)"
    using rest_eq [OF pair j] D(1,4) zeroed by (intro nth_equalityI) auto
  with D(9,10) have "read_u32 (chunk a 68 4) = read_u32 (chunk b 68 4)" by metis
  from field_eq [OF this D(1), of j] j D(4) show False by simp
qed

text \<open>
  C20. Object files are protected against small corruption: if a file is accepted, then no file that
  differs from it only inside a window of at most four bytes is accepted, wherever the window
  lies, the checksum fields themselves included. This rests on the file checksum as the code computes
  it, over the whole file with its own field taken as zero; \<open>src/docs/specs/cc64o-v1.md\<close> says that it
  covers the bytes before offset 68 only.
\<close>

theorem burst_corruption_rejected:
  assumes "parse_object path (pre @ u @ post) = Inr ob"
    and "length v = length u" "length u \<le> 4" "v \<noteq> u"
  shows "\<exists>e. parse_object path (pre @ v @ post) = Inl e"
proof (rule ccontr)
  assume "\<not> ?thesis"
  then have "\<exists>ob. parse_object path (pre @ v @ post) = Inr ob" by (metis sumE)
  then have "accepted_pair path (pre @ u @ post) (pre @ v @ post) (length pre) (length u)"
    using assms by (auto simp: nth_append accepted_pair_def)
  from accepted_pair_equal [OF this] assms(4) show False by simp
qed

end
