(* ===== verification/Object_Roundtrip.thy ===== *)
theory Object_Roundtrip
  imports Object_Format Object_Integrity
begin

text \<open>
  The object format round trip: what \<open>object_write_cc64o\<close> writes, \<open>read_object_file\<close> reads back.
  The reader is run on the reference file of \<open>Object_Format\<close>, region by region.
\<close>

subsection \<open>What the linker sees of a builder\<close>

definition link_relocation_of :: "object_builder \<Rightarrow> ir_relocation \<Rightarrow> link_relocation" where
  "link_relocation_of b r =
     \<lparr>lr_offset = of_nat (ir_offset r), lr_symbol_index = find_symbol b (ir_symbol r),
      lr_type = ir_type r, lr_addend = sint (ir_addend r), lr_width = ir_width r\<rparr>"

definition link_section_of :: "object_builder \<Rightarrow> object_section \<Rightarrow> link_section" where
  "link_section_of b s =
     \<lparr>ls_name = os_name s, ls_kind = os_kind s, ls_alignment = unat (os_alignment s),
      ls_data = payload_of s, ls_size = length (os_data s),
      ls_relocations = map (link_relocation_of b) (ordered_relocations b s),
      ls_output_offset = 0, ls_output_kind = 0\<rparr>"

definition link_symbol_of :: "object_symbol \<Rightarrow> link_symbol" where
  "link_symbol_of y =
     \<lparr>ly_name = ob_name y, ly_value = unat (ob_value y), ly_original_value = unat (ob_value y),
      ly_section_index = ob_section_index y, ly_binding = ob_binding y, ly_kind = ob_kind y,
      ly_size = ob_size y, ly_defined = (ob_section_index y \<noteq> 0xffffffff)\<rparr>"

text \<open>
  The encoder's side of the contract, beyond the builder invariant: section names are distinct
  C strings, code and read-only data are aligned to 16, relocations lie in their section and
  symbols in theirs.
\<close>

definition linkable :: "object_builder \<Rightarrow> bool" where
  "linkable b \<longleftrightarrow>
     distinct (map os_name (b_sections b)) \<and>
     (\<forall>s \<in> set (b_sections b). is_cstring (os_name s) \<and> (os_kind s \<le> 1 \<longrightarrow> 16 \<le> os_alignment s) \<and>
        (\<forall>r \<in> set (os_relocations s). ir_offset r + unat (ir_width r) \<le> length (os_data s))) \<and>
     (\<forall>y \<in> set (b_symbols b). is_cstring (ob_name y) \<and>
        (ob_section_index y \<noteq> 0xffffffff \<longrightarrow>
           unat (ob_section_index y) < length (b_sections b) \<and>
           (let sz = length (os_data (b_sections b ! unat (ob_section_index y))) in
              unat (ob_value y) \<le> sz \<and>
              (1 \<le> ob_kind y \<and> ob_kind y \<le> 3 \<longrightarrow> unat (ob_value y) + unat (ob_size y) \<le> sz))))"

subsection \<open>Reading fields back\<close>

lemma laid_out_chunk:
  "laid_out k fs \<Longrightarrow> (j, bs) \<in> set fs \<Longrightarrow>
     k \<le> j \<and> j - k + length bs \<le> length (record_bytes fs) \<and>
     chunk (record_bytes fs) (j - k) (length bs) = bs"
proof (induction fs arbitrary: k)
  case Nil
  then show ?case by simp
next
  case (Cons f fs)
  obtain i cs where f: "f = (i, cs)" by (cases f)
  show ?case
  proof (cases "(j, bs) = f")
    case True
    with Cons.prems f show ?thesis by (simp add: chunk_append1)
  next
    case False
    with Cons.prems f have "(j, bs) \<in> set fs" "laid_out (k + length cs) fs" "i = k" by auto
    with Cons.IH [of "k + length cs"] f show ?thesis by (auto simp: chunk_append2)
  qed
qed

lemma chunk_mid: "length a = k \<Longrightarrow> j + n \<le> length x \<Longrightarrow> chunk (a @ x @ c) (k + j) n = chunk x j n"
  by (simp add: chunk_append2 chunk_append1)

lemma chunk_replicate: "j + n \<le> k \<Longrightarrow> chunk (replicate k x) j n = replicate n x"
  by (simp add: chunk_def)

lemma put_u32_0: "put_u32 0 = replicate 4 0"
  by (simp add: put_u32_def eval_nat_numeral)

lemma read_u32_0 [simp]: "read_u32 (replicate 4 0) = 0"
  using u32.dec_enc_nil [of 0] by (simp add: put_u32_0)

lemmas codec_simps = u16.dec_enc u32.dec_enc u64.dec_enc u16.dec_enc_nil u32.dec_enc_nil u64.dec_enc_nil

lemma unat_of_nat_u32: "k < 2 ^ 32 \<Longrightarrow> unat (of_nat k :: u32) = k"
  by (simp add: unat_of_nat)

lemma unat_of_nat_u64: "k < 2 ^ 64 \<Longrightarrow> unat (of_nat k :: u64) = k"
  by (simp add: unat_of_nat)

subsection \<open>The regions of the file\<close>

lemma writtenD:
  assumes "written b file l strings target names symbol_names"
  shows "length (b_sections b) \<le> 65535" "length (b_symbols b) \<le> 1000000"
    "object_layout_of b (length strings) = Inr l"
    "length file = ol_total l" "ol_total l \<le> MIB512" "96 \<le> ol_symbols l"
    "ol_symbols l = 96 + length (b_sections b) * 40"
    "ol_relocs l = ol_symbols l + length (b_symbols b) * 32"
    "ol_strings l = ol_relocs l + length (concat (map (reloc_block b) (b_sections b)))"
    "ol_data l = ol_strings l + length strings"
    "ol_total l = ol_data l + length (concat (map payload_of (b_sections b)))"
    "cstring_at strings (unat target) CC64_TARGET"
proof -
  from assms have l: "object_layout_of b (length strings) = Inr l" by (simp add: written_def)
  note lay = layout_eq [OF l]
  have "length (cc64o_body b l strings target names (symbol_block b symbol_names)) = ol_total l"
    by (simp add: length_cc64o_body [OF l])
  with assms lay show "length file = ol_total l"
    by (simp add: written_def cc64o_file_def Let_def)
  show "96 \<le> ol_symbols l" using lay by simp
qed (use assms layout_eq in \<open>auto simp: written_def\<close>)

lemma region:
  assumes W: "written b file l strings target names symbol_names"
    and body: "cc64o_body b l strings target names (symbol_block b symbol_names) = a @ x @ c"
    and k: "k = length a" "96 \<le> k" and j: "j + n \<le> length x"
  shows "chunk file (k + j) n = chunk x j n"
proof -
  note D = writtenD [OF W]
  have "length (cc64o_body b l strings target names (symbol_block b symbol_names)) = ol_total l"
    by (simp add: length_cc64o_body [OF D(3)])
  moreover have "file = cc64o_file b l strings target names symbol_names" using W by (simp add: written_def)
  ultimately have "chunk file (k + j) n =
      chunk (cc64o_body b l strings target names (symbol_block b symbol_names)) (k + j) n"
    using D(6,8-11) k(2) by (simp add: cc64o_file_def Let_def chunk_patch_disjoint)
  with body k j show ?thesis by (simp add: chunk_mid)
qed

definition payload_at :: "object_builder \<Rightarrow> object_layout \<Rightarrow> nat \<Rightarrow> nat" where
  "payload_at b l i = ol_data l + length (concat (map payload_of (take i (b_sections b))))"

lemma concat_split_at:
  assumes "i < length xs"
  shows "concat (map f xs) = concat (map f (take i xs)) @ f (xs ! i) @ concat (map f (drop (Suc i) xs))"
  by (subst id_take_nth_drop [OF assms]) simp

lemma regions:
  assumes W: "written b file l strings target names symbol_names"
  shows "k + n \<le> length strings \<Longrightarrow> chunk file (ol_strings l + k) n = chunk strings k n"
    and "i < length (b_sections b) \<Longrightarrow> chunk file (96 + i * 40) 40 = section_bytes b (ol_strings l) names
      (payload_offsets (ol_data l) (b_sections b)) i"
    and "i < length (b_symbols b) \<Longrightarrow> chunk file (ol_symbols l + i * 32) 32 =
      record_bytes (symbol_fields (symbol_names ! i) (b_symbols b ! i))"
    and "i < length (b_sections b) \<Longrightarrow> j < length (os_relocations (b_sections b ! i)) \<Longrightarrow>
      chunk file (reloc_start b i + j * 32) 32 =
        record_bytes (reloc_fields b (ordered_relocations b (b_sections b ! i) ! j))"
    and "i < length (b_sections b) \<Longrightarrow>
      chunk file (payload_at b l i) (length (payload_of (b_sections b ! i))) = payload_of (b_sections b ! i)"
proof -
  note D = writtenD [OF W]
  let ?H = "header_bytes b l target (length strings)"
  let ?sec = "section_bytes b (ol_strings l) names (payload_offsets (ol_data l) (b_sections b))"
  let ?S = "concat (map ?sec [0..<length (b_sections b)])"
  let ?Y = "symbol_block b symbol_names"
  let ?R = "concat (map (reloc_block b) (b_sections b))"
  let ?P = "concat (map payload_of (b_sections b))"
  have body: "cc64o_body b l strings target names ?Y = ?H @ ?S @ ?Y @ ?R @ strings @ ?P"
    by (simp add: cc64o_body_def)
  show "chunk file (ol_strings l + k) n = chunk strings k n" if "k + n \<le> length strings"
    by (rule region [OF W, of "?H @ ?S @ ?Y @ ?R" strings ?P]) (use that D body in simp_all)
  show "chunk file (96 + i * 40) 40 = ?sec i" if "i < length (b_sections b)"
  proof -
    have "chunk file (96 + i * 40) 40 = chunk ?S (i * 40) 40"
      by (rule region [OF W, of ?H ?S "?Y @ ?R @ strings @ ?P"]) (use that body in simp_all)
    with that chunk_concat [of "map ?sec [0..<length (b_sections b)]" 40 i] show ?thesis by simp
  qed
  show "chunk file (ol_symbols l + i * 32) 32 =
      record_bytes (symbol_fields (symbol_names ! i) (b_symbols b ! i))" if "i < length (b_symbols b)"
  proof -
    let ?sym = "\<lambda>i. record_bytes (symbol_fields (symbol_names ! i) (b_symbols b ! i))"
    have "chunk file (ol_symbols l + i * 32) 32 = chunk ?Y (i * 32) 32"
      by (rule region [OF W, of "?H @ ?S" ?Y "?R @ strings @ ?P"]) (use that body D in simp_all)
    with that chunk_concat [of "map ?sym [0..<length (b_symbols b)]" 32 i] show ?thesis
      by (simp add: symbol_block_def laid_out_records)
  qed
  assume i: "i < length (b_sections b)"
  let ?s = "b_sections b ! i"
  let ?R1 = "concat (map (reloc_block b) (take i (b_sections b)))"
  let ?R2 = "concat (map (reloc_block b) (drop (Suc i) (b_sections b)))"
  show "chunk file (reloc_start b i + j * 32) 32 = record_bytes (reloc_fields b (ordered_relocations b ?s ! j))"
    if j: "j < length (os_relocations ?s)"
  proof -
    have "chunk file (reloc_start b i + j * 32) 32 = chunk (reloc_block b ?s) (j * 32) 32"
      by (rule region [OF W, of "?H @ ?S @ ?Y @ ?R1" "reloc_block b ?s" "?R2 @ strings @ ?P"])
        (use j body concat_split_at [OF i, of "reloc_block b"] in \<open>simp_all add: reloc_start_def\<close>)
    with j chunk_concat [of "map (\<lambda>r. record_bytes (reloc_fields b r)) (ordered_relocations b ?s)" 32 j]
    show ?thesis
      by (simp add: reloc_block_def laid_out_records ordered_relocations_def reloc_order.exchange_sort_length)
  qed
  let ?P1 = "concat (map payload_of (take i (b_sections b)))"
  let ?P2 = "concat (map payload_of (drop (Suc i) (b_sections b)))"
  have "chunk file (payload_at b l i + 0) (length (payload_of ?s)) = chunk (payload_of ?s) 0 (length (payload_of ?s))"
    by (rule region [OF W, of "?H @ ?S @ ?Y @ ?R @ strings @ ?P1" "payload_of ?s" ?P2])
      (use body D concat_split_at [OF i, of payload_of] in \<open>simp_all add: payload_at_def\<close>)
  then show "chunk file (payload_at b l i) (length (payload_of ?s)) = payload_of ?s" by simp
qed

subsection \<open>The header is accepted\<close>

lemma header_regions:
  assumes W: "written b file l strings target names symbol_names"
  defines "h \<equiv> header_fields (ol_strings l) target (length (b_sections b)) (ol_symbols l)
    (length (b_symbols b)) (length strings)"
  shows "k + n \<le> 64 \<or> 72 \<le> k \<and> k + n \<le> 96 \<Longrightarrow> chunk file k n = chunk (record_bytes h) k n"
    and "chunk file 64 4 = put_u32 (cc64_crc32 (take 64 file))"
    and "chunk file 68 4 = put_u32 (cc64_file_crc32 file)"
proof -
  note D = writtenD [OF W]
  define body where "body = cc64o_body b l strings target names (symbol_block b symbol_names)"
  define rest where "rest = drop 96 body"
  let ?H = "header_bytes b l target (length strings)"
  have fl: "file = patch body 68 (put_u32 (cc64_file_crc32 body))"
    using W by (simp add: written_def cc64o_file_def body_def Let_def)
  have len: "length body = ol_total l" using length_cc64o_body [OF D(3)] by (simp add: body_def)
  have b: "body = ?H @ rest" by (simp add: body_def rest_def cc64o_body_def)
  have big: "96 \<le> length body" using D len by simp
  have H: "?H = patch (record_bytes h) 64 (put_u32 (cc64_crc32 (take 64 (record_bytes h))))"
    by (simp add: header_bytes_def h_def Let_def)
  have hl: "length (record_bytes h) = 96" by (simp only: h_def laid_out_records)
  show eq: "chunk file k n = chunk (record_bytes h) k n" if "k + n \<le> 64 \<or> 72 \<le> k \<and> k + n \<le> 96" for k n
  proof -
    have "chunk file k n = chunk body k n" using that big by (elim disjE conjE) (simp_all add: fl chunk_patch_disjoint)
    also have "\<dots> = chunk ?H k n" using that by (elim disjE conjE) (simp_all add: b chunk_append1)
    also have "\<dots> = chunk (record_bytes h) k n" using that hl by (elim disjE conjE) (simp_all add: H chunk_patch_disjoint)
    finally show ?thesis .
  qed
  have "chunk file 64 4 = chunk ?H 64 4"
    using big by (simp add: fl chunk_patch_disjoint b chunk_append1)
  also have "\<dots> = put_u32 (cc64_crc32 (take 64 (record_bytes h)))"
    using chunk_patch_same [of 64 "put_u32 (cc64_crc32 (take 64 (record_bytes h)))" "record_bytes h"] hl
    by (simp add: H)
  also have "take 64 (record_bytes h) = take 64 file" using eq [of 0 64] by (simp add: chunk_def)
  finally show "chunk file 64 4 = put_u32 (cc64_crc32 (take 64 file))" .
  have "patch file 68 (replicate 4 0) = patch body 68 (replicate 4 0)"
    using big by (simp add: fl patch_def)
  then have "cc64_file_crc32 file = cc64_file_crc32 body"
    using big by (simp add: cc64_file_crc32_def fl)
  then show "chunk file 68 4 = put_u32 (cc64_file_crc32 file)"
    using chunk_patch_same [of 68 "put_u32 (cc64_file_crc32 body)" body] big by (simp add: fl)
qed

lemma length_constants: "length CC64O_MAGIC = 8" "length CC64_TARGET = 15"
  by (simp_all add: CC64O_MAGIC_def CC64_TARGET_def cstr_def)

lemma header_field:
  assumes W: "written b file l strings target names symbol_names"
    and f: "(k, bs) \<in> set (header_fields (ol_strings l) target (length (b_sections b)) (ol_symbols l)
      (length (b_symbols b)) (length strings))" and k: "k + length bs \<le> 64"
  shows "chunk file k (length bs) = bs"
  using laid_out_chunk [OF laid_out_records(1) f] header_regions(1) [OF W, of k "length bs"] k by simp

lemma header_values:
  assumes W: "written b file l strings target names symbol_names"
  shows "chunk file 0 8 = CC64O_MAGIC" "chunk file 8 2 = put_u16 1" "chunk file 10 2 = put_u16 0x3433"
    "chunk file 12 2 = put_u16 1" "chunk file 14 2 = put_u16 62" "chunk file 16 4 = put_u32 96"
    "chunk file 20 4 = put_u32 (of_nat (ol_strings l + unat target))" "chunk file 24 4 = put_u32 16"
    "chunk file 28 4 = put_u32 96" "chunk file 32 4 = put_u32 (of_nat (length (b_sections b)))"
    "chunk file 36 4 = put_u32 (of_nat (ol_symbols l))"
    "chunk file 40 4 = put_u32 (of_nat (length (b_symbols b)))"
    "chunk file 44 4 = put_u32 (of_nat (ol_strings l))"
    "chunk file 48 4 = put_u32 (of_nat (length strings))"
  using header_field [OF W, of 0 CC64O_MAGIC]
    header_field [OF W, of 8 "put_u16 1"] header_field [OF W, of 10 "put_u16 0x3433"]
    header_field [OF W, of 12 "put_u16 1"] header_field [OF W, of 14 "put_u16 62"]
    header_field [OF W, of 16 "put_u32 96"] header_field [OF W, of 20 "put_u32 (of_nat (ol_strings l + unat target))"]
    header_field [OF W, of 24 "put_u32 16"] header_field [OF W, of 28 "put_u32 96"]
    header_field [OF W, of 32 "put_u32 (of_nat (length (b_sections b)))"]
    header_field [OF W, of 36 "put_u32 (of_nat (ol_symbols l))"]
    header_field [OF W, of 40 "put_u32 (of_nat (length (b_symbols b)))"]
    header_field [OF W, of 44 "put_u32 (of_nat (ol_strings l))"]
    header_field [OF W, of 48 "put_u32 (of_nat (length strings))"]
  by (simp_all add: header_fields_def length_constants)

lemma header_reserved:
  assumes W: "written b file l strings target names symbol_names"
    and "52 \<le> k" "k + n \<le> 64 \<or> 72 \<le> k \<and> k + n \<le> 96"
  shows "chunk file k n = replicate n 0"
proof -
  let ?h = "header_fields (ol_strings l) target (length (b_sections b)) (ol_symbols l)
    (length (b_symbols b)) (length strings)"
  have "(52, replicate 44 0) \<in> set ?h" by (simp add: header_fields_def)
  from laid_out_chunk [OF laid_out_records(1) this]
  have "chunk (record_bytes ?h) 52 44 = replicate 44 0" by simp
  moreover have "k - 52 + n \<le> 44" using assms(2,3) by auto
  ultimately have "chunk (record_bytes ?h) (52 + (k - 52)) n = replicate n 0"
    using chunk_chunk [of "k - 52" n 44 "record_bytes ?h" 52] by (simp add: chunk_replicate)
  then show ?thesis using header_regions(1) [OF W assms(3)] assms(2) by simp
qed

lemma check_header_written:
  assumes W: "written b file l strings target names symbol_names"
  shows "check_header path file = Inr ()"
proof -
  note D = writtenD [OF W]
  have "take 8 file = CC64O_MAGIC" using header_values(1) [OF W] by (simp add: chunk_def)
  moreover have "96 \<le> length file" "length file \<le> MIB512" using D by simp_all
  ultimately show ?thesis
    using header_values [OF W] header_reserved [OF W, of 60 4] header_reserved [OF W, of 72 24]
    by (simp add: check_header_def fetch_def codec_simps list_all_iff)
qed

lemma read_source_map_written:
  assumes W: "written b file l strings target names symbol_names"
  shows "read_source_map path file = Inr (0, 0)"
  using writtenD [OF W] header_reserved [OF W, of 52 4] header_reserved [OF W, of 56 4]
  by (simp add: read_source_map_def fetch_def)

lemma read_target_written:
  assumes W: "written b file l strings target names symbol_names"
  shows "read_target path file = Inr (ol_strings l + unat target, 16)"
proof -
  note D = writtenD [OF W]
  have t: "unat target + 16 \<le> length strings" "chunk strings (unat target) 16 = CC64_TARGET @ [0]"
    using D(12) by (simp_all add: cstring_at_def length_constants)
  have all: "chunk file (ol_strings l + unat target) 16 = CC64_TARGET @ [0]"
    using regions(1) [OF W, of "unat target" 16] t by simp
  have len: "ol_strings l + unat target + 16 \<le> length file" using t D by simp
  have "chunk file (ol_strings l + unat target) 15 = chunk (CC64_TARGET @ [0]) 0 15"
    using chunk_chunk [of 0 15 16 "file" "ol_strings l + unat target"] all by simp
  then have "chunk file (ol_strings l + unat target) 15 = CC64_TARGET"
    by (simp add: CC64_TARGET_def cstr_def chunk_def)
  moreover have "chunk file (ol_strings l + unat target + 15) 1 = chunk (CC64_TARGET @ [0]) 15 1"
    using chunk_chunk [of 15 1 16 "file" "ol_strings l + unat target"] all by (simp add: ac_simps)
  then have "chunk file (ol_strings l + unat target + 15) 1 = [0]"
    by (simp add: CC64_TARGET_def cstr_def chunk_def)
  moreover have "unat (of_nat (ol_strings l + unat target) :: u32) = ol_strings l + unat target"
    using len D by (intro unat_of_nat_u32) (simp add: MIB512_def)
  ultimately show ?thesis
    using len D header_values(7,8) [OF W]
    by (simp add: read_target_def fetch_def codec_simps range_ok_iff length_constants del: of_nat_add)
qed

lemma check_crcs_written:
  assumes W: "written b file l strings target names symbol_names"
  shows "check_crcs path file = Inr ()"
  using writtenD [OF W] header_regions(2,3) [OF W]
  by (simp add: check_crcs_def fetch_def codec_simps link_crc32_eq chunk_def)

definition written_tables :: "object_builder \<Rightarrow> object_layout \<Rightarrow> byte list \<Rightarrow> object_tables" where
  "written_tables b l strings =
     \<lparr>tb_section_offset = 96, tb_section_count = length (b_sections b), tb_symbol_offset = ol_symbols l,
      tb_symbol_count = length (b_symbols b), tb_string_offset = ol_strings l,
      tb_string_size = length strings\<rparr>"

lemma read_tables_written:
  assumes W: "written b file l strings target names symbol_names"
  shows "read_tables path file = Inr (written_tables b l strings)"
proof -
  note D = writtenD [OF W]
  have "strings \<noteq> []" using D(12) by (auto simp: cstring_at_def)
  moreover have "unat (of_nat (length (b_sections b)) :: u32) = length (b_sections b)"
    "unat (of_nat (length (b_symbols b)) :: u32) = length (b_symbols b)"
    "unat (of_nat (ol_symbols l) :: u32) = ol_symbols l"
    "unat (of_nat (ol_strings l) :: u32) = ol_strings l"
    "unat (of_nat (length strings) :: u32) = length strings"
    by (intro unat_of_nat_u32, use D in \<open>simp add: MIB512_def\<close>)+
  moreover have "ol_symbols l + length (b_symbols b) * 32 \<le> length file"
    "96 + length (b_sections b) * 40 \<le> length file" "ol_strings l + length strings \<le> length file"
    "96 \<le> ol_strings l"
    using D by simp_all
  ultimately show ?thesis
    using header_values [OF W] D(1,2,6)
    by (simp add: read_tables_def fetch_def codec_simps range_ok_iff written_tables_def)
qed

subsection \<open>The tables are claimed\<close>

definition read_state :: "object_builder \<Rightarrow> byte list \<Rightarrow> object_layout \<Rightarrow> nat \<Rightarrow> link_object \<Rightarrow> bool" where
  "read_state b file l i ob \<longleftrightarrow>
     ob = \<lparr>lo_bytes = file, lo_sections = map (link_section_of b) (take i (b_sections b)),
           lo_symbols = [], lo_ranges = lo_ranges ob\<rparr> \<and>
     ranges_ok ob \<and> claimed_bytes ob = {0..<reloc_start b i} \<union> {ol_strings l..<payload_at b l i}"

lemma reloc_start_bounds:
  assumes W: "written b file l strings target names symbol_names"
  shows "reloc_start b 0 = ol_relocs l" "reloc_start b (length (b_sections b)) = ol_strings l"
    and "i < length (b_sections b) \<Longrightarrow>
      reloc_start b (Suc i) = reloc_start b i + length (os_relocations (b_sections b ! i)) * 32"
    and "reloc_start b i \<le> ol_strings l"
    and "payload_at b l 0 = ol_data l" "payload_at b l (length (b_sections b)) = ol_total l"
    and "i < length (b_sections b) \<Longrightarrow>
      payload_at b l (Suc i) = payload_at b l i + length (payload_of (b_sections b ! i))"
    and "payload_at b l i \<le> ol_total l"
proof -
  note D = writtenD [OF W]
  have mono: "length (concat (map f (take i xs))) \<le> length (concat (map f xs))" for f :: "object_section \<Rightarrow> byte list" and xs
    by (subst (2) append_take_drop_id [of i xs, symmetric]) (simp only: map_append concat_append length_append le_add1)
  show "reloc_start b 0 = ol_relocs l" "reloc_start b (length (b_sections b)) = ol_strings l"
    "payload_at b l 0 = ol_data l" "payload_at b l (length (b_sections b)) = ol_total l"
    using D by (simp_all add: reloc_start_def payload_at_def)
  show "i < length (b_sections b) \<Longrightarrow>
      reloc_start b (Suc i) = reloc_start b i + length (os_relocations (b_sections b ! i)) * 32"
    "i < length (b_sections b) \<Longrightarrow>
      payload_at b l (Suc i) = payload_at b l i + length (payload_of (b_sections b ! i))"
    by (simp_all add: reloc_start_def payload_at_def take_Suc_conv_app_nth)
  show "reloc_start b i \<le> ol_strings l" "payload_at b l i \<le> ol_total l"
    using D mono [of "reloc_block b" "b_sections b"] mono [of payload_of "b_sections b"]
    by (simp_all add: reloc_start_def payload_at_def)
qed

lemma claim_tables_written:
  assumes W: "written b file l strings target names symbol_names"
  shows "\<exists>ob. claim_tables path (written_tables b l strings) (0, 0) (ol_strings l + unat target, 16)
    (fresh_object file) = Inr ob \<and> read_state b file l 0 ob"
proof -
  note D = writtenD [OF W]
  let ?n = "length (b_sections b)" and ?m = "length (b_symbols b)"
  let ?rs = "[(0, 96), (96, ?n * 40), (ol_symbols l, ?m * 32), (ol_strings l, length strings)]"
  have ok: "ranges_ok (fresh_object file)" by (simp add: ranges_ok_def)
  have "\<exists>ob. claims.adds (fresh_object file) ?rs = Some ob"
    by (rule claims.adds_total [OF ok]) (use D in \<open>auto simp: claimed_bytes_def\<close>)
  then obtain ob where ob: "range_add_list (fresh_object file) ?rs = Some ob"
    by (auto simp: range_add_list_eq)
  note claimed = claims.adds_Some [OF ok, folded range_add_list_eq, OF ob]
  have t: "unat target + 16 \<le> length strings" using D(12) by (simp add: cstring_at_def length_constants)
  have "claimed_bytes ob = {0..<reloc_start b 0} \<union> {ol_strings l..<payload_at b l 0}"
    using claimed D(7-10) reloc_start_bounds(1,5) [OF W] by (auto simp: claimed_bytes_def)
  moreover have "claim_tables path (written_tables b l strings) (0, 0) (ol_strings l + unat target, 16)
      (fresh_object file) = Inr ob"
    using ob t D by (simp add: claim_tables_def written_tables_def MIB512_def)
  moreover have "ob = \<lparr>lo_bytes = file, lo_sections = map (link_section_of b) (take 0 (b_sections b)),
      lo_symbols = [], lo_ranges = lo_ranges ob\<rparr>"
    using range_add_list_frame [OF ob] by simp
  ultimately show ?thesis using claimed by (auto simp: read_state_def)
qed

subsection \<open>Names are found\<close>

lemma scan_name_written:
  assumes "cstring_at strings off s" "is_cstring s"
  shows "scan_name strings off = Some s" and "off < length strings"
proof -
  from assms(1) have len: "off + length s + 1 \<le> length strings"
    and "take (length s + 1) (drop off strings) = s @ [0]"
    by (simp_all add: cstring_at_def chunk_def)
  then obtain r where r: "drop off strings = s @ 0 # r"
    by (metis append_take_drop_id append.assoc append_Cons append_Nil)
  have "takeWhile (\<lambda>b. b \<noteq> 0) (drop off strings) = s"
    using assms(2) unfolding r by (subst takeWhile_append2) (auto simp: is_cstring_def)
  with len show "scan_name strings off = Some s" "off < length strings"
    by (simp_all add: scan_name_def)
qed

subsection \<open>Relocations are read back\<close>

lemma find_symbol_from_less:
  "list_ex (symbol_matches s) es \<Longrightarrow> i + length es < 2 ^ 32 \<Longrightarrow>
     unat (find_symbol_from i es s) < i + length es"
proof (induction i es s rule: find_symbol_from.induct)
  case (2 i e es s)
  then show ?case by (auto simp: unat_of_nat_u32)
qed simp

lemma read_relocation_written:
  assumes W: "written b file l strings target names symbol_names"
    and i: "i < length (b_sections b)" and j: "j < length (os_relocations (b_sections b ! i))"
    and r: "reloc_ok (b_symbols b) r" "ir_offset r + unat (ir_width r) \<le> sz"
      "r = ordered_relocations b (b_sections b ! i) ! j"
  shows "read_relocation path file (reloc_start b i) (length (b_symbols b)) sz acc j =
    Inr (acc @ [link_relocation_of b r])"
proof -
  have bytes: "record_bytes (reloc_fields b r) = put_u64 (of_nat (ir_offset r)) @
      put_u32 (find_symbol b (ir_symbol r)) @ put_u32 (ir_type r) @ put_u64 (ir_addend r) @
      put_u32 (ir_width r) @ put_u32 0"
    by (simp add: reloc_fields_def)
  have "j * 32 + 32 \<le> length (reloc_block b (b_sections b ! i))" using j by simp
  then have "reloc_start b i + j * 32 + 32 \<le> length file"
    using reloc_start_bounds(3) [OF W i] reloc_start_bounds(4) [OF W, of "Suc i"] writtenD(4,10,11) [OF W]
    by simp
  then have fetch: "fetch file (reloc_start b i + j * 32) 32 =
      (Inr (record_bytes (reloc_fields b r)) :: (diag, byte list) res)"
    using regions(4) [OF W i j] r(3) by (simp add: fetch_def)
  have off: "unat (of_nat (ir_offset r) :: u64) = ir_offset r"
    using r(1) by (intro unat_of_nat_u64) (simp add: reloc_ok_def MIB256_def)
  have sym: "unat (find_symbol b (ir_symbol r)) < length (b_symbols b)"
    using find_symbol_from_less [of "ir_symbol r" "b_symbols b" 0] r(1) writtenD(2) [OF W]
    by (simp add: reloc_ok_def find_symbol_def)
  have shape: "relocation_shape_ok (ir_type r) (ir_width r)" using r(1) by (simp add: reloc_ok_def)
  show ?thesis
    using sym shape r(2)
    unfolding read_relocation_def fetch bytes bindE_simps Let_def
    by (simp add: codec_simps off link_relocation_of_def relocation_shape_ok_def read_i64_def not_le check_def)
qed

lemma read_relocations_written:
  assumes W: "written b file l strings target names symbol_names"
    and i: "i < length (b_sections b)" and s: "s = b_sections b ! i"
    and rs: "\<forall>r \<in> set (os_relocations s). reloc_ok (b_symbols b) r \<and> ir_offset r + unat (ir_width r) \<le> sz"
  shows "foldE (read_relocation path file (reloc_start b i) (length (b_symbols b)) sz) []
    [0..<length (os_relocations s)] = Inr (map (link_relocation_of b) (ordered_relocations b s))"
proof -
  let ?rs = "ordered_relocations b s" and ?n = "length (os_relocations s)"
  have len: "length ?rs = ?n" and set: "set ?rs = set (os_relocations s)"
    by (simp_all add: ordered_relocations_def reloc_order.exchange_sort_length reloc_order.exchange_sort_set)
  have "\<exists>t. foldE (read_relocation path file (reloc_start b i) (length (b_symbols b)) sz) [] [0..<?n] = Inr t \<and>
      t = map (link_relocation_of b) (take ?n ?rs)"
  proof (rule foldE_upt_succeeds)
    fix acc j assume j: "j < ?n" and acc: "acc = map (link_relocation_of b) (take j ?rs)"
    have "?rs ! j \<in> set (os_relocations s)" using j len set by (metis nth_mem)
    with rs have "reloc_ok (b_symbols b) (?rs ! j)" "ir_offset (?rs ! j) + unat (ir_width (?rs ! j)) \<le> sz"
      by auto
    then have "read_relocation path file (reloc_start b i) (length (b_symbols b)) sz acc j =
        Inr (acc @ [link_relocation_of b (?rs ! j)])"
      using read_relocation_written [OF W i] j s by simp
    then show "\<exists>s'. read_relocation path file (reloc_start b i) (length (b_symbols b)) sz acc j = Inr s' \<and>
        s' = map (link_relocation_of b) (take (Suc j) ?rs)"
      using j len acc by (simp add: take_Suc_conv_app_nth)
  qed simp_all
  then show ?thesis using len by simp
qed

lemma payload_offsets_nth:
  "i < length ss \<Longrightarrow> payload_offsets at ss ! i =
     (if os_kind (ss ! i) = 3 then 0 else of_nat (at + length (concat (map payload_of (take i ss)))))"
proof (induction ss arbitrary: at i)
  case (Cons s ss)
  then show ?case by (cases i) (auto simp: ac_simps)
qed simp

lemma section_record:
  assumes W: "written b file l strings target names symbol_names" and i: "i < length (b_sections b)"
    and s: "s = b_sections b ! i"
  shows "chunk file (96 + i * 40) 40 =
    put_u32 (names ! i) @ put_u32 (if os_kind s = 3 then 0 else of_nat (payload_at b l i)) @
    put_u32 (of_nat (length (os_data s))) @
    put_u32 (if os_relocations s = [] then 0 else of_nat (reloc_start b i)) @
    put_u32 (of_nat (length (os_relocations s))) @ put_u32 (of_nat (alignment_power (os_alignment s))) @
    [os_kind s] @ [0] @ put_u16 (of_nat i) @ put_u32 0 @ put_u32 0 @
    put_u32 (if os_kind s = 3 then 0 else cc64_crc32 (os_data s))"
  using regions(2) [OF W i] payload_offsets_nth [OF i, of "ol_data l"] i
  by (simp add: section_bytes_def section_fields_def Let_def patch_append1 patch_append2 s payload_at_def
      put_u32_0 numeral_eq_Suc) (simp add: patch_def)

lemma alignment_power_from:
  "unat a = 2 ^ k \<Longrightarrow> k \<le> 15 \<Longrightarrow> p \<le> k \<Longrightarrow> alignment_power_from p a = k"
proof (induction "k - p" arbitrary: p)
  case 0
  then show ?case by (simp add: alignment_power_from.simps [of p])
next
  case (Suc d)
  then have "p < k" by simp
  moreover have "alignment_power_from (Suc p) a = k" using Suc by (intro Suc.hyps) auto
  ultimately show ?case using Suc.prems by (simp add: alignment_power_from.simps [of p])
qed

lemma section_alignment:
  assumes "section_ok s"
  shows "alignment_power (os_alignment s) \<le> 15" "2 ^ alignment_power (os_alignment s) = unat (os_alignment s)"
proof -
  from assms obtain k where k: "k \<le> 15" "os_alignment s = 2 ^ k" by (auto simp: section_ok_def)
  have "(2 :: nat) ^ k \<le> 2 ^ 15" using k(1) by (intro power_increasing) simp_all
  then have "unat (of_nat (2 ^ k) :: u32) = 2 ^ k" by (intro unat_of_nat_u32) simp
  then have "unat (2 ^ k :: u32) = 2 ^ k" by simp
  with k alignment_power_from [of "os_alignment s" k 0]
  show "alignment_power (os_alignment s) \<le> 15" "2 ^ alignment_power (os_alignment s) = unat (os_alignment s)"
    by (simp_all add: alignment_power_def)
qed

lemma read_stateD:
  assumes "read_state b file l i ob"
  shows "lo_bytes ob = file" "lo_sections ob = map (link_section_of b) (take i (b_sections b))"
    "lo_symbols ob = []" "ranges_ok ob"
    "claimed_bytes ob = {0..<reloc_start b i} \<union> {ol_strings l..<payload_at b l i}"
  using assms by (cases ob, simp add: read_state_def)+

lemma section_claims:
  assumes W: "written b file l strings target names symbol_names" and i: "i < length (b_sections b)"
    and s: "s = b_sections b ! i" and st: "read_state b file l i ob"
  shows "\<exists>ob'. range_add_list ob
      ((if os_kind s \<noteq> 3 then [(payload_at b l i, length (os_data s))] else []) @
       (if length (os_relocations s) \<noteq> 0
        then [(reloc_start b i, length (os_relocations s) * 32)] else [])) = Some ob' \<and>
    ob' = ob\<lparr>lo_ranges := lo_ranges ob'\<rparr> \<and> ranges_ok ob' \<and>
    claimed_bytes ob' = {0..<reloc_start b (Suc i)} \<union> {ol_strings l..<payload_at b l (Suc i)}"
proof -
  let ?p = "payload_at b l i" and ?r = "reloc_start b i"
  let ?rs = "(if os_kind s \<noteq> 3 then [(?p, length (os_data s))] else []) @
     (if length (os_relocations s) \<noteq> 0 then [(?r, length (os_relocations s) * 32)] else [])"
  note D = writtenD [OF W]
  note nxt = reloc_start_bounds(3,7) [OF W i, folded s]
  have bounds: "reloc_start b (Suc i) \<le> ol_strings l" "payload_at b l (Suc i) \<le> length file"
    "ol_strings l \<le> ?p" "ol_strings l \<le> length file"
    using reloc_start_bounds(4,8) [OF W, of "Suc i"] D by (simp_all add: payload_at_def)
  note bytes = read_stateD(1) [OF st] and ok = read_stateD(4) [OF st] and claimed = read_stateD(5) [OF st]
  have "\<exists>ob'. claims.adds ob ?rs = Some ob'"
    by (rule claims.adds_total [OF ok])
      (use bounds nxt claimed bytes in \<open>auto simp: payload_of_def\<close>)
  then obtain ob' where ob': "range_add_list ob ?rs = Some ob'" by (auto simp: range_add_list_eq)
  note new = claims.adds_Some [OF ok, folded range_add_list_eq, OF ob']
  have "claimed_bytes ob' = {0..<reloc_start b (Suc i)} \<union> {ol_strings l..<payload_at b l (Suc i)}"
    using new nxt claimed bounds by (auto simp: payload_of_def split: if_splits)
  with ob' new range_add_list_frame [OF ob'] show ?thesis by blast
qed

lemma section_fields_read:
  assumes R: "R = put_u32 a @ put_u32 p @ put_u32 z @ put_u32 q @ put_u32 n @ put_u32 w @
    [k] @ [0] @ put_u16 j @ put_u32 0 @ put_u32 0 @ put_u32 c"
  shows "read_u32 R = a" "read_u32 (drop 4 R) = p" "read_u32 (drop 8 R) = z" "read_u32 (drop 12 R) = q"
    "read_u32 (drop 16 R) = n" "read_u32 (drop 20 R) = w" "R ! 24 = k" "R ! 25 = 0"
    "read_u16 (drop 26 R) = j" "read_u32 (drop 28 R) = 0" "read_u32 (drop 32 R) = 0"
    "read_u32 (drop 36 R) = c"
  by (simp_all add: R codec_simps nth_append)

lemma check_True [simp]: "check True i p m = Inr ()"
  by (simp add: check_def)

lemma read_section_written:
  assumes W: "written b file l strings target names symbol_names"
    and ok: "builder_ok b" "linkable b" and i: "i < length (b_sections b)"
    and st: "read_state b file l i ob"
  shows "\<exists>ob'. read_section path (written_tables b l strings) ob i = Inr ob' \<and> read_state b file l (Suc i) ob'"
proof -
  define s where "s = b_sections b ! i"
  have s: "s \<in> set (b_sections b)" using i by (simp add: s_def)
  note D = writtenD [OF W]
  note R = section_record [OF W i s_def]
  note F = section_fields_read [OF R]
  from section_claims [OF W i s_def st] obtain ob1 where claims: "range_add_list ob
      ((if os_kind s \<noteq> 3 then [(payload_at b l i, length (os_data s))] else []) @
       (if length (os_relocations s) \<noteq> 0
        then [(reloc_start b i, length (os_relocations s) * 32)] else [])) = Some ob1"
    and frame: "ob1 = ob\<lparr>lo_ranges := lo_ranges ob1\<rparr>" and ok1: "ranges_ok ob1"
    and claimed: "claimed_bytes ob1 = {0..<reloc_start b (Suc i)} \<union> {ol_strings l..<payload_at b l (Suc i)}"
    by blast
  note S = read_stateD [OF st]
  note nxt = reloc_start_bounds(3,7) [OF W i, folded s_def] reloc_start_bounds(4,8) [OF W, of "Suc i"]
  from ok(1) s have sec: "section_ok s" and rel: "\<forall>r \<in> set (os_relocations s). reloc_ok (b_symbols b) r"
    by (auto simp: builder_ok_def)
  from ok(2) s have name: "is_cstring (os_name s)" and exec: "os_kind s \<le> 1 \<Longrightarrow> 16 \<le> os_alignment s"
    and inside: "\<forall>r \<in> set (os_relocations s). ir_offset r + unat (ir_width r) \<le> length (os_data s)"
    by (auto simp: linkable_def)
  have at: "cstring_at strings (unat (names ! i)) (os_name s)"
    using W i by (simp add: written_def s_def)
  note scan = scan_name_written [OF at name]
  note power = section_alignment [OF sec]
  have small: "unat (of_nat (length (os_data s)) :: u32) = length (os_data s)"
    "unat (of_nat (alignment_power (os_alignment s)) :: u32) = alignment_power (os_alignment s)"
    using sec power(1) by (auto intro!: unat_of_nat_u32 simp: section_ok_def MIB256_def)
  have cnt: "unat (of_nat (length (os_relocations s)) :: u32) = length (os_relocations s)"
    "unat (of_nat (reloc_start b i) :: u32) = reloc_start b i"
    "unat (of_nat (payload_at b l i) :: u32) = payload_at b l i"
    by (intro unat_of_nat_u32, use nxt D in \<open>simp add: MIB512_def\<close>)+
  have relocs: "foldE (read_relocation path file (unat (if os_relocations s = [] then 0 else of_nat (reloc_start b i) :: u32))
      (length (b_symbols b)) (length (os_data s))) [] [0..<length (os_relocations s)] =
      Inr (map (link_relocation_of b) (ordered_relocations b s))"
  proof (cases "os_relocations s = []")
    case True
    then have "ordered_relocations b s = []"
      using reloc_order.exchange_sort_length [of b "os_relocations s"] by (simp add: ordered_relocations_def)
    with True show ?thesis by simp
  next
    case False
    with read_relocations_written [OF W i s_def, of "length (os_data s)"] rel inside cnt show ?thesis by simp
  qed
  let ?s = "link_section_of b s"
  define ob' where "ob' = ob1\<lparr>lo_sections := lo_sections ob1 @ [?s]\<rparr>"
  have rcd: "fetch file (96 + i * 40) 40 = (Inr (chunk file (96 + i * 40) 40) :: (diag, byte list) res)"
    using i D by (simp add: fetch_def)
  have table: "fetch file (ol_strings l) (length strings) = (Inr strings :: (diag, byte list) res)"
    using regions(1) [OF W, of 0 "length strings"] D by (simp add: fetch_def)
  have new: "\<not> list_ex (\<lambda>prior. ls_name prior = os_name s) (lo_sections ob1)"
  proof -
    have "distinct (map os_name (b_sections b))" using ok(2) by (simp add: linkable_def)
    then have "os_name s \<notin> os_name ` set (take i (b_sections b))"
      using i unfolding s_def by (metis distinct_append id_take_nth_drop list.set_intros(1) list.set_map
          map_append disjoint_iff list.simps(9))
    moreover have "lo_sections ob1 = map (link_section_of b) (take i (b_sections b))"
      by (subst frame) (simp add: S(2))
    ultimately show ?thesis by (auto simp: list_ex_iff link_section_of_def) (metis image_eqI)
  qed
  have kind: "\<not> 3 < os_kind s" "length (os_data s) \<le> MIB256" using sec by (simp_all add: section_ok_def not_less)
  have pos: "unat (os_alignment s) \<noteq> 0" by (metis power(2) power_not_zero zero_neq_numeral)
  have align: "\<not> 15 < alignment_power (os_alignment s)" using power(1) by simp
  have exec': "\<not> ((os_kind s = 0 \<or> os_kind s = 1) \<and> unat (os_alignment s) < 16)"
    using exec by (auto simp: word_le_nat_alt)
  have "os_kind s \<noteq> 3 \<Longrightarrow> payload_of s = os_data s" by (simp add: payload_of_def)
  then have fits: "os_kind s \<noteq> 3 \<Longrightarrow> range_ok (payload_at b l i) (length (os_data s)) (length file)"
    "range_ok (reloc_start b i) (length (os_relocations s) * 32) (length file)" "96 \<le> reloc_start b i"
    using nxt D(4,10,11) by (simp_all add: range_ok_iff) (simp_all add: reloc_start_def)
  have payload: "(if os_kind s \<noteq> 3 then fetch file (payload_at b l i) (length (os_data s)) else Inr []) =
      (Inr (payload_of s) :: (diag, byte list) res)"
    using regions(5) [OF W i, folded s_def] fits(1)
    by (cases "os_kind s = 3") (simp_all add: payload_of_def fetch_def range_ok_iff)
  have "read_section path (written_tables b l strings) ob i = Inr ob'"
    unfolding read_section_def Let_def S(1)
    using claims relocs new kind align power(2) pos exec' fits payload scan
    by (cases "os_kind s = 3"; cases "os_relocations s = []")
      (simp_all add: written_tables_def rcd table F small cnt link_section_of_def ob'_def payload_of_def)
  moreover have "read_state b file l (Suc i) ob'"
    using i ok1 claimed frame S(1-3)
    by (cases ob1, cases ob) (simp add: read_state_def ob'_def ranges_ok_def claimed_bytes_def take_Suc_conv_app_nth s_def)
  ultimately show ?thesis by blast
qed

subsection \<open>Symbols are read back\<close>

lemma symbol_fields_read:
  assumes R: "R = record_bytes (symbol_fields n y)"
  shows "read_u32 R = n" "read_u32 (drop 4 R) = ucast (ob_value y)"
    "read_u32 (drop 8 R) = ob_section_index y" "R ! 12 = ob_binding y" "R ! 13 = ob_kind y"
    "read_u16 (drop 14 R) = 0" "read_u64 (drop 16 R) = ob_size y" "read_u32 (drop 24 R) = 0"
    "read_u32 (drop 28 R) = 0"
  by (simp_all add: R symbol_fields_def codec_simps nth_append)

lemma read_symbol_written:
  assumes W: "written b file l strings target names symbol_names"
    and ok: "builder_ok b" "linkable b" and i: "i < length (b_symbols b)"
    and ob: "lo_bytes ob = file" "lo_sections ob = map (link_section_of b) (b_sections b)"
    and y: "y = b_symbols b ! i"
  shows "read_symbol path (written_tables b l strings) ob i =
    Inr (ob\<lparr>lo_symbols := lo_symbols ob @ [link_symbol_of y]\<rparr>)"
proof -
  note D = writtenD [OF W]
  note R = symbol_fields_read [OF regions(3) [OF W i, folded y]]
  have yin: "y \<in> set (b_symbols b)" using i y by simp
  have rcd: "fetch file (ol_symbols l + i * 32) 32 =
      (Inr (chunk file (ol_symbols l + i * 32) 32) :: (diag, byte list) res)"
    using i D by (simp add: fetch_def)
  have table: "fetch file (ol_strings l) (length strings) = (Inr strings :: (diag, byte list) res)"
    using regions(1) [OF W, of 0 "length strings"] D by (simp add: fetch_def)
  have "cstring_at strings (unat (symbol_names ! i)) (ob_name y)" "is_cstring (ob_name y)"
    using W i ok(2) yin by (auto simp: written_def y linkable_def)
  note scan = scan_name_written [OF this]
  have "unat (ob_value y) \<le> UINT32_MAX" using W yin by (simp add: written_def)
  then have val: "unat (ucast (ob_value y) :: u32) = unat (ob_value y)"
    by (simp add: unsigned_ucast_eq take_bit_eq_mod UINT32_MAX_def)
  have kinds: "\<not> 1 < ob_binding y" "\<not> 4 < ob_kind y" using ok(1) yin by (auto simp: builder_ok_def not_less)
  let ?i = "unat (ob_section_index y)"
  have inside: "?i < length (b_sections b)" "unat (ob_value y) \<le> ls_size (lo_sections ob ! ?i)"
    "1 \<le> ob_kind y \<Longrightarrow> ob_kind y \<le> 3 \<Longrightarrow>
       unat (ob_value y) + unat (ob_size y) \<le> ls_size (lo_sections ob ! ?i)"
    if "ob_section_index y \<noteq> 0xffffffff"
    using ok(2) yin that ob(2) by (auto simp: linkable_def link_section_of_def Let_def)
  have le: "unat (ob_size y) \<le> ls_size (lo_sections ob ! ?i) - unat (ob_value y)"
    if "ob_section_index y \<noteq> 0xffffffff" "1 \<le> ob_kind y" "ob_kind y \<le> 3"
    using inside(3) [OF that] by simp
  show ?thesis
    unfolding read_symbol_def Let_def ob(1)
    using scan kinds inside(1,2) le
    by (cases "ob_section_index y = 0xffffffff")
      (simp_all add: written_tables_def rcd table R val link_symbol_of_def not_less check_def)
qed

subsection \<open>The round trip\<close>

lemma sections_written:
  assumes W: "written b file l strings target names symbol_names"
    and ok: "builder_ok b" "linkable b" and st: "read_state b file l 0 ob"
  shows "\<exists>ob'. foldE (read_section path (written_tables b l strings)) ob [0..<length (b_sections b)] = Inr ob' \<and>
    read_state b file l (length (b_sections b)) ob'"
  by (rule foldE_upt_succeeds [where P = "read_state b file l"])
    (use st in \<open>auto intro: read_section_written [OF W ok]\<close>)

lemma symbols_written:
  assumes W: "written b file l strings target names symbol_names"
    and ok: "builder_ok b" "linkable b" and st: "read_state b file l (length (b_sections b)) ob"
  shows "foldE (read_symbol path (written_tables b l strings)) ob [0..<length (b_symbols b)] =
    Inr (ob\<lparr>lo_symbols := map link_symbol_of (b_symbols b)\<rparr>)"
proof -
  note S = read_stateD [OF st]
  let ?P = "\<lambda>j s. s = ob\<lparr>lo_symbols := map link_symbol_of (take j (b_symbols b))\<rparr>"
  have "\<exists>t. foldE (read_symbol path (written_tables b l strings)) ob [0..<length (b_symbols b)] = Inr t \<and>
      ?P (length (b_symbols b)) t"
  proof (rule foldE_upt_succeeds [where P = ?P])
    show "?P 0 ob" using S(3) by (cases ob) simp
  next
    fix s j assume j: "j < length (b_symbols b)" and s: "?P j s"
    show "\<exists>s'. read_symbol path (written_tables b l strings) s j = Inr s' \<and> ?P (Suc j) s'"
      using read_symbol_written [OF W ok j, of s, OF _ _ refl] s S j
      by (simp add: take_Suc_conv_app_nth)
  qed simp
  then show ?thesis by simp
qed

lemma parse_written:
  assumes W: "written b file l strings target names symbol_names" and ok: "builder_ok b" "linkable b"
  shows "\<exists>ob. parse_object path file = Inr ob \<and>
    lo_sections ob = map (link_section_of b) (b_sections b) \<and>
    lo_symbols ob = map link_symbol_of (b_symbols b)"
proof -
  note D = writtenD [OF W]
  from claim_tables_written [OF W] obtain ob0 where ob0: "claim_tables path (written_tables b l strings)
      (0, 0) (ol_strings l + unat target, 16) (fresh_object file) = Inr ob0" "read_state b file l 0 ob0"
    by blast
  from sections_written [OF W ok ob0(2)] obtain ob1
    where ob1: "foldE (read_section path (written_tables b l strings)) ob0 [0..<length (b_sections b)] = Inr ob1"
      "read_state b file l (length (b_sections b)) ob1" by blast
  let ?ob = "ob1\<lparr>lo_symbols := map link_symbol_of (b_symbols b)\<rparr>"
  note S = read_stateD [OF ob1(2)]
  from W obtain ns where "strings = concat (map (\<lambda>n. n @ [0]) ns)" by (auto simp: written_def)
  moreover have "strings \<noteq> []" using D(12) by (auto simp: cstring_at_def)
  ultimately have last0: "last strings = 0"
    by (induction ns rule: rev_induct) auto
  have "chunk strings (length strings - 1) 1 = [last strings]"
    using \<open>strings \<noteq> []\<close> by (cases strings rule: rev_cases) (simp_all add: chunk_def)
  then have lastb: "fetch file (ol_strings l + length strings - 1) 1 = (Inr [0] :: (diag, byte list) res)"
    using regions(1) [OF W, of "length strings - 1" 1] \<open>strings \<noteq> []\<close> D last0
    by (simp add: fetch_def Suc_leI)
  have "claimed_bytes ?ob = {0..<length file}"
    using S(5) reloc_start_bounds(2,6) [OF W] D by (auto simp: claimed_bytes_def)
  then have "object_uncovered_bytes_are_zero ?ob" using S(1) by (simp add: uncovered_iff)
  then have "parse_object path file = Inr ?ob"
    using ob0(1) ob1(1) symbols_written [OF W ok ob1(2)] lastb
    by (simp add: parse_object_def check_header_written [OF W] read_source_map_written [OF W]
        read_target_written [OF W] check_crcs_written [OF W] read_tables_written [OF W])
      (simp add: written_tables_def)
  then show ?thesis using S by simp
qed

lemma sorted_builder_ok:
  "builder_ok b \<Longrightarrow> builder_ok (sort_symbols b)" "linkable b \<Longrightarrow> linkable (sort_symbols b)"
  by (auto simp: builder_ok_def reloc_ok_def list_ex_iff linkable_def)

lemma image_parses:
  assumes "builder_ok b" and "linkable b" and "object_image b = Inr file"
  shows "\<exists>ob. parse_object path file = Inr ob \<and>
    lo_sections ob = map (link_section_of (sort_symbols b)) (b_sections b) \<and>
    lo_symbols ob = map link_symbol_of (qsort object_symbol_compare (b_symbols b))"
proof -
  from object_image_written [OF assms(3)] obtain l strings target names symbol_names
    where "written (sort_symbols b) file l strings target names symbol_names" by metis
  from parse_written [OF this sorted_builder_ok(1) [OF assms(1)] sorted_builder_ok(2) [OF assms(2)]]
  show ?thesis by (simp add: sort_symbols_def)
qed


subsection \<open>A sample object\<close>

text \<open>One function that calls itself: the smallest object with a relocation.\<close>

definition sample_builder :: object_builder where
  "sample_builder =
     \<lparr>b_sections = [\<lparr>os_name = cstr ''.text'', os_kind = 0, os_alignment = 16,
        os_data = [0xe8, 0, 0, 0, 0, 0xc3],
        os_relocations = [\<lparr>ir_offset = 1, ir_symbol = \<lparr>sr_address = 1, sr_name = cstr ''f'',
          sr_linkage = LINKAGE_EXTERNAL, sr_class = SYMBOL_FUNCTION\<rparr>, ir_type = 3, ir_addend = -4,
          ir_width = 4\<rparr>]\<rparr>],
      b_symbols = [\<lparr>ob_name = cstr ''f'', ob_value = 0, ob_section_index = 0, ob_binding = 1,
        ob_kind = 2, ob_size = 6, ob_defined = True, ob_source_symbol = None\<rparr>]\<rparr>"

lemma sample_sorted: "sort_symbols sample_builder = sample_builder"
  by (simp add: sort_symbols_def sample_builder_def qsort_def)

lemma sample_ok: "builder_ok sample_builder" "linkable sample_builder"
proof -
  have "(16 :: u32) \<in> (\<lambda>k. 2 ^ k) ` {..15}" by (rule image_eqI [of _ _ 4]) simp_all
  then show "builder_ok sample_builder"
    by (simp add: sample_builder_def builder_ok_def section_ok_def reloc_ok_def MIB256_def
        relocation_shape_ok_def symbol_matches_def)
  show "linkable sample_builder"
    by (simp add: sample_builder_def linkable_def is_cstring_def cstr_def)
qed

lemma fill_file_total:
  assumes l: "object_layout_of b (length (st_bytes t)) = Inr l"
    and vals: "\<forall>y \<in> set (b_symbols b). unat (ob_value y) \<le> UINT32_MAX"
  shows "\<exists>f. fill_file b l t target names symbol_names = Inr f"
proof -
  let ?m = "length (b_symbols b)"
  have "\<exists>f. foldE (place_symbol b (ol_symbols l) symbol_names)
      (cc64o_body b l (st_bytes t) target names (replicate (?m * 32) 0)) [0..<?m] = Inr f"
    unfolding cc64o_body_def
    by (rule exI, subst append_assoc [symmetric], rule foldE_blocks [where w = 32])
      (use vals layout_eq(1) [OF l] in \<open>auto intro!: place_symbol_step simp: laid_out_records\<close>)
  then obtain f where f: "foldE (place_symbol b (ol_symbols l) symbol_names)
      (cc64o_body b l (st_bytes t) target names (replicate (?m * 32) 0)) [0..<?m] = Inr f" by blast
  with symbol_loop(1) [OF l f] length_cc64o_body [OF l] ol_total_ge [OF l]
  show ?thesis by (simp add: fill_file_eq [OF l])
qed

lemma sample_image: "\<exists>file. object_image sample_builder = Inr file"
proof -
  let ?t = "\<lparr>st_bytes = [0] @ (CC64_TARGET @ [0]) @ (cstr ''.text'' @ [0]) @ (cstr ''f'' @ [0]),
     st_names = [[], CC64_TARGET, cstr ''.text'', cstr ''f'']\<rparr>"
  have "\<exists>l. object_layout_of sample_builder (length (st_bytes ?t)) = Inr l"
    by (simp add: object_layout_of_def sample_builder_def size_add_size_def size_mul_size_def SIZE_MAX_def
        UINT32_MAX_def MIB512_def length_constants) (simp add: cstr_def)
  then obtain l where l: "object_layout_of sample_builder (length (st_bytes ?t)) = Inr l" by blast
  have vals: "\<forall>y \<in> set (b_symbols sample_builder). unat (ob_value y) \<le> UINT32_MAX"
    by (simp add: sample_builder_def)
  have "string_add \<lparr>st_bytes = [], st_names = []\<rparr> [] = Inr (\<lparr>st_bytes = [0], st_names = [[]]\<rparr>, 0)"
    by (simp add: string_add_def SIZE_MAX_def)
  moreover have "string_add \<lparr>st_bytes = [0], st_names = [[]]\<rparr> CC64_TARGET =
      Inr (\<lparr>st_bytes = [0] @ (CC64_TARGET @ [0]), st_names = [[], CC64_TARGET]\<rparr>, 1)"
    by (simp add: string_add_def SIZE_MAX_def CC64_TARGET_def cstr_def)
  moreover have "\<exists>ns. add_all string_add \<lparr>st_bytes = [0] @ (CC64_TARGET @ [0]), st_names = [[], CC64_TARGET]\<rparr>
      (map os_name (b_sections sample_builder)) = Inr (\<lparr>st_bytes = [0] @ (CC64_TARGET @ [0]) @
        (cstr ''.text'' @ [0]), st_names = [[], CC64_TARGET, cstr ''.text'']\<rparr>, ns)"
    by (simp add: string_add_def SIZE_MAX_def CC64_TARGET_def cstr_def sample_builder_def)
  moreover have "\<exists>ns. add_all string_add \<lparr>st_bytes = [0] @ (CC64_TARGET @ [0]) @
        (cstr ''.text'' @ [0]), st_names = [[], CC64_TARGET, cstr ''.text'']\<rparr>
      (map ob_name (b_symbols sample_builder)) = Inr (?t, ns)"
    by (simp add: string_add_def SIZE_MAX_def CC64_TARGET_def cstr_def sample_builder_def)
  moreover have "length (b_sections sample_builder) = 1" "length (b_symbols sample_builder) = 1"
    by (simp_all add: sample_builder_def)
  ultimately show ?thesis
    using l fill_file_total [OF l vals]
    by (fastforce simp: object_image_def sample_sorted)
qed

lemma sample_parses:
  obtains fl ob where "object_image sample_builder = Inr fl" "parse_object path fl = Inr ob"
    "lo_sections ob = map (link_section_of sample_builder) (b_sections sample_builder)"
  using sample_image image_parses [OF sample_ok, of _ path] sample_sorted by metis


theorem accepted_objects_ok_witness:
  "\<exists>file ob. object_image sample_builder = Inr file \<and> parse_object [] file = Inr ob \<and>
     link_object_ok ob \<and> lo_bytes ob = file"
proof -
  obtain fl ob where "object_image sample_builder = Inr fl" "parse_object [] fl = Inr ob"
    by (rule sample_parses)
  with accepted_objects_ok [OF this(2)] show ?thesis by blast
qed

theorem burst_corruption_rejected_witness:
  "\<exists>file b rest. object_image sample_builder = Inr file \<and> file = b # rest \<and>
     (\<exists>e. parse_object [] ((b + 1) # rest) = Inl e)"
proof -
  obtain fl ob where f: "object_image sample_builder = Inr fl" "parse_object [] fl = Inr ob"
    by (rule sample_parses)
  then have "96 \<le> length fl" by (auto simp: parse_object_def dest: check_header_ok(2))
  then obtain b rest where "fl = b # rest" by (cases fl) auto
  with f burst_corruption_rejected [of "[]" "[]" "[b]" rest ob "[b + 1]"] show ?thesis by simp
qed

end
