(* ===== verification/Link_Output.thy ===== *)
theory Link_Output
  imports Object_Accept
begin

text \<open>
  The output sections of the linker (\<open>OutputSection\<close> in \<open>src/src/linker/linker.c\<close>): appending
  and aligning, the placement of every input section by \<open>link_objects\<close>, and the bases of the
  four outputs. The growth of a buffer is left to the list; until common symbols are allocated an
  output's buffer holds exactly \<open>size\<close> bytes.
\<close>

record output_section =
  ou_kind :: byte
  ou_alignment :: nat
  ou_data :: "byte list"
  ou_size :: nat
  ou_offset :: nat

text \<open>An array access: an index past the end is undefined behaviour.\<close>

definition index :: "'a list \<Rightarrow> nat \<Rightarrow> ('e, 'a) res" where
  "index xs i = (if i < length xs then Inr (xs ! i) else Inl OutOfBounds)"

lemma index_simps [simp]:
  "index xs i = Inr x \<longleftrightarrow> i < length xs \<and> x = xs ! i" "safe (index xs i) \<longleftrightarrow> i < length xs"
  by (auto simp: index_def)

text \<open>\<open>x & ~mask\<close> on a 64-bit \<open>size_t\<close>.\<close>

definition mask_off :: "nat \<Rightarrow> nat \<Rightarrow> nat" where
  "mask_off x m = unat ((of_nat x :: u64) AND NOT (of_nat m))"

subsection \<open>Operations\<close>

definition output_append :: "output_section \<Rightarrow> byte list \<Rightarrow> output_section option" where
  "output_append section data =
     (if length data > SIZE_MAX - ou_size section then None
      else Some (section\<lparr>ou_data := ou_data section @ data, ou_size := ou_size section + length data\<rparr>))"

definition output_append_zeros :: "output_section \<Rightarrow> nat \<Rightarrow> output_section option" where
  "output_append_zeros section n =
     (if n = 0 then Some section else output_append section (replicate n 0))"

definition output_align_to :: "output_section \<Rightarrow> nat \<Rightarrow> output_section option" where
  "output_align_to section alignment =
     (if alignment \<le> 1 then Some section
      else let m = alignment - 1; target = mask_off (add64 (ou_size section) m) m
           in if target < ou_size section then None
              else output_append_zeros section (target - ou_size section))"

definition align_output :: "nat \<Rightarrow> nat \<Rightarrow> nat option" where
  "align_output alignment offset =
     (let m = (if alignment = 0 then 1 else alignment) - 1
      in if offset > SIZE_MAX - m then None else Some (mask_off (offset + m) m))"

subsection \<open>Placement\<close>

definition initial_outputs :: "output_section list" where
  "initial_outputs = map (\<lambda>(kind, alignment). \<lparr>ou_kind = kind, ou_alignment = alignment, ou_data = [],
     ou_size = 0, ou_offset = 0\<rparr>) [(0, 16), (1, 16), (2, 8), (3, 8)]"

text \<open>The entry trampoline; its call displacement is at \<open>CC64_ENTRY_CALL_FIELD\<close>.\<close>

definition entry_stub :: "byte list" where
  "entry_stub = [0x48, 0x83, 0xec, 0x28, 0x48, 0x89, 0x3c, 0x24,
     0x48, 0xc7, 0x44, 0x24, 0x10, 0, 0, 0, 0, 0xe8, 0, 0, 0, 0,
     0x89, 0xc1, 0x48, 0x83, 0xc4, 0x28, 0xb8, 0, 0x4c, 0, 0, 0x88, 0xc8, 0xcd, 0x21, 0xc3]"

abbreviation (input) CC64_ENTRY_CALL_FIELD :: nat where "CC64_ENTRY_CALL_FIELD \<equiv> 18"

definition put_section ::
  "output_section list \<Rightarrow> link_section \<Rightarrow> (diag, output_section list \<times> link_section) res" where
  "put_section outs s =
     (let k = unat (ls_kind s) in
      bindE (index outs k) (\<lambda>out.
      bindE (of_option Silent (output_align_to out (ls_alignment s))) (\<lambda>out1.
      bindE (of_option Silent (if ls_kind s \<noteq> 3 then output_append out1 (ls_data s)
                               else output_append_zeros out1 (ls_size s))) (\<lambda>out2.
      Inr (outs[k := out2], s\<lparr>ls_output_offset := ou_size out1, ls_output_kind := k\<rparr>)))))"

fun put_sections ::
  "output_section list \<Rightarrow> link_section list \<Rightarrow> (diag, output_section list \<times> link_section list) res" where
  "put_sections outs [] = Inr (outs, [])"
| "put_sections outs (s # ss) =
     bindE (put_section outs s) (\<lambda>(outs, s').
     bindE (put_sections outs ss) (\<lambda>(outs, ss'). Inr (outs, s' # ss')))"

fun put_objects ::
  "output_section list \<Rightarrow> link_object list \<Rightarrow> (diag, output_section list \<times> link_object list) res" where
  "put_objects outs [] = Inr (outs, [])"
| "put_objects outs (ob # obs) =
     bindE (put_sections outs (lo_sections ob)) (\<lambda>(outs, ss).
     bindE (put_objects outs obs) (\<lambda>(outs, obs'). Inr (outs, ob\<lparr>lo_sections := ss\<rparr> # obs')))"

fun assign_bases :: "nat \<Rightarrow> output_section list \<Rightarrow> (diag, output_section list) res" where
  "assign_bases base [] = Inr []"
| "assign_bases base (out # outs) =
     bindE (of_option Silent (align_output (ou_alignment out) base)) (\<lambda>b.
     if b > SIZE_MAX - ou_size out then Inl (Failed Silent)
     else bindE (assign_bases (b + ou_size out) outs) (\<lambda>outs'. Inr (out\<lparr>ou_offset := b\<rparr> # outs')))"

subsection \<open>Aligning rounds up\<close>

lemma mask_off_eq:
  assumes "k < 64" "x < 2 ^ 64"
  shows "mask_off x (2 ^ k - 1) = x div 2 ^ k * 2 ^ k"
proof -
  have m: "(of_nat (2 ^ k - 1) :: u64) = mask k"
    by (simp add: of_nat_diff mask_eq_exp_minus_1)
  have "mask_off x (2 ^ k - 1) = unat ((of_nat x :: u64) AND NOT (mask k))"
    by (simp only: mask_off_def m)
  also have "(of_nat x :: u64) AND NOT (mask k) = push_bit k (drop_bit k (of_nat x))"
    by (rule bit_word_eqI) (auto simp: bit_simps)
  also have "unat (push_bit k (drop_bit k (of_nat x)) :: u64) = take_bit 64 (push_bit k (drop_bit k (take_bit 64 x)))"
    by (simp only: unsigned_push_bit_eq unsigned_drop_bit_eq unsigned_of_nat) simp
  also have "\<dots> = x div 2 ^ k * 2 ^ k mod 2 ^ 64"
    using assms(2) by (simp add: take_bit_eq_mod push_bit_eq_mult drop_bit_eq_div)
  also have "\<dots> = x div 2 ^ k * 2 ^ k"
    using assms(2) by (simp add: le_less_trans [OF div_times_less_eq_dividend])
  finally show ?thesis .
qed

definition round_up :: "nat \<Rightarrow> nat \<Rightarrow> nat" where
  "round_up x a = (x + (a - 1)) div a * a"

lemma round_up_props:
  assumes "0 < a"
  shows "x \<le> round_up x a" "round_up x a < x + a" "a dvd round_up x a"
proof -
  show "a dvd round_up x a" by (simp add: round_up_def)
  have "(x + (a - 1)) mod a < a" using assms by simp
  moreover have "x + (a - 1) = round_up x a + (x + (a - 1)) mod a"
    by (simp add: round_up_def)
  ultimately show "x \<le> round_up x a" "round_up x a < x + a" using assms by linarith+
qed

lemma align_output_Some:
  assumes "align_output (2 ^ k) x = Some y" "k < 64"
  shows "y = round_up x (2 ^ k)" "y \<le> SIZE_MAX"
proof -
  have "(2 :: nat) ^ k \<le> 2 ^ 63" using assms(2) by (intro power_increasing) simp_all
  then have "2 ^ k - 1 \<le> SIZE_MAX" by (simp add: SIZE_MAX_def)
  moreover from assms(1) have "\<not> x > SIZE_MAX - (2 ^ k - 1)"
    and y: "y = mask_off (x + (2 ^ k - 1)) (2 ^ k - 1)"
    by (simp_all add: align_output_def Let_def split: if_splits)
  ultimately have le: "x + (2 ^ k - 1) \<le> SIZE_MAX" by linarith
  with mask_off_eq [OF assms(2), of "x + (2 ^ k - 1)"] show "y = round_up x (2 ^ k)"
    unfolding y by (simp add: round_up_def SIZE_MAX_def)
  then show "y \<le> SIZE_MAX"
    using le le_trans [OF div_times_less_eq_dividend] by (simp add: round_up_def)
qed

text \<open>An output whose buffer and size agree.\<close>

definition output_ok :: "output_section \<Rightarrow> bool" where
  "output_ok out \<longleftrightarrow> length (ou_data out) = ou_size out \<and> ou_size out \<le> SIZE_MAX"

lemma output_append_Some:
  "output_ok out \<Longrightarrow> output_append out data = Some out' \<Longrightarrow>
     output_ok out' \<and> out' = out\<lparr>ou_data := ou_data out @ data, ou_size := ou_size out + length data\<rparr>"
  by (auto simp: output_append_def output_ok_def split: if_splits)

lemma output_append_zeros_Some:
  assumes "output_ok out" "output_append_zeros out n = Some out'"
  shows "output_ok out' \<and> out' = out\<lparr>ou_data := ou_data out @ replicate n 0, ou_size := ou_size out + n\<rparr>"
  using assms output_append_Some [OF assms(1), of "replicate n 0" out']
  by (cases "n = 0") (auto simp: output_append_zeros_def)

lemma output_align_to_Some:
  assumes "output_ok out" "output_align_to out a = Some out'" "a \<in> (\<lambda>k. 2 ^ k) ` {..15}"
  shows "output_ok out' \<and> ou_size out' = round_up (ou_size out) a \<and>
    out' = out\<lparr>ou_data := ou_data out @ replicate (ou_size out' - ou_size out) 0, ou_size := ou_size out'\<rparr>"
proof (cases "a \<le> 1")
  case True
  with assms(3) have "a = 1" by (auto simp: le_Suc_eq)
  with assms show ?thesis by (simp add: output_align_to_def round_up_def)
next
  case False
  let ?x = "add64 (ou_size out) (a - 1)"
  from assms(3) obtain k where k: "a = 2 ^ k" "k \<le> 15" by blast
  from False assms(2) have ge: "\<not> mask_off ?x (a - 1) < ou_size out"
    and z: "output_append_zeros out (mask_off ?x (a - 1) - ou_size out) = Some out'"
    by (auto simp: output_align_to_def Let_def split: if_splits)
  have m: "mask_off ?x (a - 1) = ?x div a * a" using mask_off_eq [of k ?x] k by simp
  have "ou_size out + (a - 1) < 2 ^ 64"
  proof (rule ccontr)
    assume "\<not> ?thesis"
    moreover have "ou_size out < 2 ^ 64" using assms(1) by (simp add: output_ok_def SIZE_MAX_def)
    moreover have "a \<le> 2 ^ 15" unfolding k(1) using k(2) by (intro power_increasing) simp_all
    ultimately have "?x = ou_size out + (a - 1) - 2 ^ 64" by (subst le_mod_geq) simp_all
    with \<open>a \<le> 2 ^ 15\<close> \<open>\<not> ou_size out + (a - 1) < 2 ^ 64\<close> have "?x < ou_size out" by simp
    then have "?x div a * a < ou_size out" using div_times_less_eq_dividend le_less_trans by blast
    with ge m show False by simp
  qed
  then have r: "mask_off ?x (a - 1) = round_up (ou_size out) a" using m by (simp add: round_up_def)
  note new = output_append_zeros_Some [OF assms(1) z]
  then have "ou_size out' = ou_size out + (mask_off ?x (a - 1) - ou_size out)"
    using arg_cong [OF conjunct2 [OF new], of ou_size] by simp
  then have sz: "ou_size out' = round_up (ou_size out) a" using ge r by simp
  have up: "ou_size out + (round_up (ou_size out) a - ou_size out) = round_up (ou_size out) a"
    using ge r by simp
  show ?thesis
  proof (intro conjI)
    show "out' = out\<lparr>ou_data := ou_data out @ replicate (ou_size out' - ou_size out) 0, ou_size := ou_size out'\<rparr>"
      using conjunct2 [OF new] unfolding sz r up by assumption
  qed (rule conjunct1 [OF new], rule sz)
qed

subsection \<open>Placed sections\<close>

definition outputs_ok :: "output_section list \<Rightarrow> bool" where
  "outputs_ok outs \<longleftrightarrow> length outs = 4 \<and> (\<forall>out \<in> set outs. output_ok out)"

definition section_content :: "link_section \<Rightarrow> byte list" where
  "section_content s = (if ls_kind s = 3 then replicate (ls_size s) 0 else ls_data s)"

definition placed :: "output_section list \<Rightarrow> link_section \<Rightarrow> bool" where
  "placed outs s \<longleftrightarrow>
     ls_output_kind s = unat (ls_kind s) \<and> unat (ls_kind s) < length outs \<and>
     ls_alignment s dvd ls_output_offset s \<and>
     ls_output_offset s + ls_size s \<le> length (ou_data (outs ! unat (ls_kind s))) \<and>
     chunk (ou_data (outs ! unat (ls_kind s))) (ls_output_offset s) (ls_size s) = section_content s"

definition extends :: "output_section list \<Rightarrow> output_section list \<Rightarrow> bool" where
  "extends outs outs' \<longleftrightarrow> length outs' = length outs \<and>
     (\<forall>k < length outs. \<exists>d. ou_data (outs' ! k) = ou_data (outs ! k) @ d \<and>
        ou_offset (outs' ! k) = ou_offset (outs ! k) \<and> ou_alignment (outs' ! k) = ou_alignment (outs ! k))"

definition before :: "link_section \<Rightarrow> link_section \<Rightarrow> bool" where
  "before s t \<longleftrightarrow> (ls_output_kind s = ls_output_kind t \<longrightarrow>
     ls_output_offset s + ls_size s \<le> ls_output_offset t)"

text \<open>Only the two output fields of a section change when it is placed.\<close>

definition same_section :: "link_section \<Rightarrow> link_section \<Rightarrow> bool" where
  "same_section s s' \<longleftrightarrow> s' = s\<lparr>ls_output_offset := ls_output_offset s', ls_output_kind := ls_output_kind s'\<rparr>"

lemma same_sectionD:
  assumes "same_section s s'"
  shows "ls_name s' = ls_name s" "ls_kind s' = ls_kind s" "ls_alignment s' = ls_alignment s"
    "ls_data s' = ls_data s" "ls_size s' = ls_size s" "ls_relocations s' = ls_relocations s"
  using assms by (cases s, cases s', simp add: same_section_def)+

lemma extends_refl: "extends outs outs"
  by (simp add: extends_def)

lemma extends_trans: "extends a b \<Longrightarrow> extends b c \<Longrightarrow> extends a c"
  unfolding extends_def by (metis append.assoc)

lemma placed_extends: "placed outs s \<Longrightarrow> extends outs outs' \<Longrightarrow> placed outs' s"
  unfolding placed_def extends_def by (metis chunk_append1 length_append trans_le_add1)

lemma outputs_okD: "outputs_ok outs \<Longrightarrow> k < 4 \<Longrightarrow> output_ok (outs ! k)"
  by (simp add: outputs_ok_def)

lemma put_section_ok:
  assumes ok: "outputs_ok outs" "link_section_ok n s" and put: "put_section outs s = Inr (outs', s')"
  shows "outputs_ok outs'" "extends outs outs'" "placed outs' s'" "same_section s s'"
    and "length (ou_data (outs ! ls_output_kind s')) \<le> ls_output_offset s'"
proof -
  let ?k = "unat (ls_kind s)"
  from put obtain out1 out2 where al: "output_align_to (outs ! ?k) (ls_alignment s) = Some out1"
    and ap: "(if ls_kind s \<noteq> 3 then output_append out1 (ls_data s) else output_append_zeros out1 (ls_size s)) = Some out2"
    and outs': "outs' = outs[?k := out2]" and k: "?k < length outs"
    and s': "s' = s\<lparr>ls_output_offset := ou_size out1, ls_output_kind := ?k\<rparr>"
    by (auto simp: put_section_def Let_def)
  have out: "output_ok (outs ! ?k)" using ok(1) k by (simp add: outputs_ok_def)
  have a: "ls_alignment s \<in> (\<lambda>k. 2 ^ k) ` {..15}" using ok(2) by (simp add: link_section_ok_def)
  note A = output_align_to_Some [OF out al a]
  have out1: "output_ok out1" using A by simp
  have data: "ls_kind s \<noteq> 3 \<Longrightarrow> length (ls_data s) = ls_size s"
    using ok(2) by (simp add: link_section_ok_def)
  have B': "output_ok out2 \<and> out2 = out1\<lparr>ou_data := ou_data out1 @ section_content s,
      ou_size := ou_size out1 + ls_size s\<rparr>"
  proof (cases "ls_kind s = 3")
    case True
    with ap have "output_append_zeros out1 (ls_size s) = Some out2" by simp
    moreover have "section_content s = replicate (ls_size s) 0" using True by (simp add: section_content_def)
    ultimately show ?thesis using output_append_zeros_Some [OF out1] by metis
  next
    case False
    with ap have "output_append out1 (ls_data s) = Some out2" by simp
    from output_append_Some [OF out1 this] have "output_ok out2 \<and>
        out2 = out1\<lparr>ou_data := ou_data out1 @ ls_data s, ou_size := ou_size out1 + length (ls_data s)\<rparr>" .
    moreover have "section_content s = ls_data s" using False by (simp add: section_content_def)
    ultimately show ?thesis using data [OF False] by metis
  qed
  note B = conjunct1 [OF B'] conjunct2 [OF B']
  have len: "length (section_content s) = ls_size s" using data by (simp add: section_content_def)
  have d1: "\<exists>d. ou_data out1 = ou_data (outs ! ?k) @ d"
    using arg_cong [OF conjunct2 [OF conjunct2 [OF A]], of ou_data] by auto
  have d2: "ou_data out2 = ou_data out1 @ section_content s"
    using arg_cong [OF B(2), of ou_data] by simp
  have fields: "ou_offset out2 = ou_offset (outs ! ?k)" "ou_alignment out2 = ou_alignment (outs ! ?k)"
    using arg_cong [OF B(2), of ou_offset] arg_cong [OF B(2), of ou_alignment]
      arg_cong [OF conjunct2 [OF conjunct2 [OF A]], of ou_offset]
      arg_cong [OF conjunct2 [OF conjunct2 [OF A]], of ou_alignment] by simp_all
  show "outputs_ok outs'" using ok(1) B(1) unfolding outs' outputs_ok_def
    by (auto dest!: set_update_subset_insert [THEN subsetD])
  show "extends outs outs'"
    using d1 d2 fields k unfolding extends_def outs' by (auto simp: nth_list_update)
  have size1: "length (ou_data out1) = ou_size out1" using out1 by (simp add: output_ok_def)
  have content: "section_content s' = section_content s" by (simp add: section_content_def s')
  have "ls_alignment s dvd ou_size out1" using A a round_up_props(3) by auto
  then show "placed outs' s'"
    using k d2 size1 len chunk_full [of "section_content s"] content
    by (simp add: placed_def s' outs' chunk_append2)
  show "same_section s s'" by (simp add: same_section_def s')
  show "length (ou_data (outs ! ls_output_kind s')) \<le> ls_output_offset s'"
    using d1 size1 by (auto simp: s')
qed

text \<open>The placement loops, over one object and over all of them.\<close>

definition placing :: "output_section list \<Rightarrow> output_section list \<Rightarrow> link_section list \<Rightarrow> link_section list \<Rightarrow> bool" where
  "placing outs outs' ss ss' \<longleftrightarrow>
     outputs_ok outs' \<and> extends outs outs' \<and> list_all2 same_section ss ss' \<and>
     (\<forall>s \<in> set ss'. placed outs' s \<and> length (ou_data (outs ! ls_output_kind s)) \<le> ls_output_offset s) \<and>
     sorted_wrt before ss'"

lemma placing_Nil: "outputs_ok outs \<Longrightarrow> placing outs outs [] []"
  by (simp add: placing_def extends_refl)

lemma extends_length:
  "extends outs outs' \<Longrightarrow> k < length outs \<Longrightarrow> length (ou_data (outs ! k)) \<le> length (ou_data (outs' ! k))"
  unfolding extends_def by (metis le_add1 length_append)

lemma placing_append:
  assumes 1: "placing a b ss ss'" and 2: "placing b c ts ts'"
  shows "placing a c (ss @ ts) (ss' @ ts')"
proof -
  have ext: "extends a b" "extends b c" using 1 2 by (simp_all add: placing_def)
  have b: "placed b s" if "s \<in> set ss'" for s using 1 that by (simp add: placing_def)
  have c: "placed c t" "length (ou_data (b ! ls_output_kind t)) \<le> ls_output_offset t" if "t \<in> set ts'" for t
    using 2 that by (simp_all add: placing_def)
  have "before s t" if "s \<in> set ss'" "t \<in> set ts'" for s t
    using b [OF that(1)] c [OF that(2)] by (auto simp: before_def placed_def)
  moreover have "length (ou_data (a ! ls_output_kind t)) \<le> ls_output_offset t" if "t \<in> set ts'" for t
  proof -
    have "ls_output_kind t < length a" using c(1) [OF that] ext by (simp add: placed_def extends_def)
    from extends_length [OF ext(1) this] c(2) [OF that] show ?thesis by simp
  qed
  ultimately show ?thesis
    using 1 2 extends_trans [OF ext] placed_extends [OF b ext(2)]
    by (auto simp: placing_def sorted_wrt_append intro: list_all2_appendI)
qed

lemma put_sections_ok:
  "outputs_ok outs \<Longrightarrow> \<forall>s \<in> set ss. link_section_ok n s \<Longrightarrow> put_sections outs ss = Inr (outs', ss') \<Longrightarrow>
     placing outs outs' ss ss'"
proof (induction ss arbitrary: outs ss')
  case Nil
  then show ?case by (simp add: placing_Nil)
next
  case (Cons s ss)
  from Cons.prems(3) obtain outs1 s1 ss1 where 1: "put_section outs s = Inr (outs1, s1)"
    and 2: "put_sections outs1 ss = Inr (outs', ss1)" and ss': "ss' = s1 # ss1" by auto
  have s: "link_section_ok n s" using Cons.prems(2) by simp
  note P = put_section_ok [OF Cons.prems(1) s 1]
  then have "placing outs outs1 [s] [s1]" by (simp add: placing_def)
  moreover have "placing outs1 outs' ss ss1" using Cons.IH [OF P(1) _ 2] Cons.prems(2) by simp
  ultimately show ?case using placing_append [of outs outs1 "[s]" "[s1]" outs' ss ss1] ss' by simp
qed

definition all_sections :: "link_object list \<Rightarrow> link_section list" where
  "all_sections obs = concat (map lo_sections obs)"

lemma put_objects_ok:
  "outputs_ok outs \<Longrightarrow> \<forall>ob \<in> set obs. link_object_ok ob \<Longrightarrow> put_objects outs obs = Inr (outs', obs') \<Longrightarrow>
     placing outs outs' (all_sections obs) (all_sections obs') \<and>
     list_all2 (\<lambda>ob ob'. ob' = ob\<lparr>lo_sections := lo_sections ob'\<rparr> \<and>
       list_all2 same_section (lo_sections ob) (lo_sections ob')) obs obs'"
proof (induction obs arbitrary: outs obs')
  case Nil
  then show ?case by (simp add: placing_Nil all_sections_def)
next
  case (Cons ob obs)
  from Cons.prems(3) obtain outs1 ss1 obs1 where 1: "put_sections outs (lo_sections ob) = Inr (outs1, ss1)"
    and 2: "put_objects outs1 obs = Inr (outs', obs1)" and obs': "obs' = ob\<lparr>lo_sections := ss1\<rparr> # obs1" by auto
  have "\<forall>s \<in> set (lo_sections ob). link_section_ok (length (lo_symbols ob)) s"
    using Cons.prems(2) by (simp add: link_object_ok_def)
  from put_sections_ok [OF Cons.prems(1) this 1] have P: "placing outs outs1 (lo_sections ob) ss1" .
  then have "outputs_ok outs1" by (simp add: placing_def)
  from Cons.IH [OF this _ 2] Cons.prems(2) have Q: "placing outs1 outs' (all_sections obs) (all_sections obs1)"
    "list_all2 (\<lambda>ob ob'. ob' = ob\<lparr>lo_sections := lo_sections ob'\<rparr> \<and>
       list_all2 same_section (lo_sections ob) (lo_sections ob')) obs obs1" by simp_all
  from placing_append [OF P Q(1)] Q(2) P obs' show ?case by (simp add: all_sections_def placing_def)
qed

subsection \<open>Bases\<close>

text \<open>The outputs follow each other, each base rounded up from the end of the one before.\<close>

lemma assign_bases_ok:
  assumes "assign_bases base outs = Inr outs'" 
    "\<forall>out \<in> set outs. ou_alignment out \<in> (\<lambda>k. 2 ^ k) ` {..15} \<and> ou_size out \<le> SIZE_MAX"
  shows "list_all2 (\<lambda>o1 o2. o2 = o1\<lparr>ou_offset := ou_offset o2\<rparr>) outs outs' \<and>
    (\<forall>out \<in> set outs'. base \<le> ou_offset out \<and> ou_alignment out dvd ou_offset out \<and>
       ou_offset out + ou_size out \<le> SIZE_MAX) \<and>
    sorted_wrt (\<lambda>o1 o2. ou_offset o1 + ou_size o1 \<le> ou_offset o2) outs'"
  using assms
proof (induction outs arbitrary: base outs')
  case Nil
  then show ?case by simp
next
  case (Cons out outs)
  from Cons.prems(1) obtain b rest where al: "align_output (ou_alignment out) base = Some b"
    and sz: "\<not> b > SIZE_MAX - ou_size out" and rest: "assign_bases (b + ou_size out) outs = Inr rest"
    and outs': "outs' = out\<lparr>ou_offset := b\<rparr> # rest" by (auto split: if_splits)
  from Cons.prems(2) obtain k where k: "ou_alignment out = 2 ^ k" "k \<le> 15" by auto
  have b: "b = round_up base (2 ^ k)" "b \<le> SIZE_MAX" using align_output_Some [of k base b] al k by simp_all
  have "base \<le> b" "2 ^ k dvd b" using round_up_props [of "2 ^ k" base] b(1) by simp_all
  moreover have "b + ou_size out \<le> SIZE_MAX" using sz b(2) Cons.prems(2) by auto
  moreover note IH = Cons.IH [OF rest]
  moreover have "base \<le> ou_offset o2" if "o2 \<in> set rest" for o2
    using IH Cons.prems(2) that \<open>base \<le> b\<close> by (meson le_add1 le_trans list.set_intros(2))
  ultimately show ?case using Cons.prems(2) k(1) unfolding outs' by simp
qed

end
