(* ===== verification/Link_Symbols.thy ===== *)
theory Link_Symbols
  imports Link_Output
begin

text \<open>
  Symbol resolution (\<open>resolve_symbols\<close> in \<open>src/src/linker/linker.c\<close>): the table of global
  symbols, the final address of every symbol, the allocation of common symbols in the last output
  and the rules for repeated definitions.
\<close>

record global_symbol =
  gs_name :: cstring
  gs_address :: nat
  gs_size :: nat
  gs_defined :: bool
  gs_common :: bool

subsection \<open>The table\<close>

fun find_global :: "global_symbol list \<Rightarrow> cstring \<Rightarrow> nat option" where
  "find_global [] name = None"
| "find_global (g # gs) name = (if gs_name g = name then Some 0 else map_option Suc (find_global gs name))"

definition add_global :: "global_symbol list \<Rightarrow> cstring \<Rightarrow> global_symbol list" where
  "add_global gs name =
     (if find_global gs name \<noteq> None then gs
      else gs @ [\<lparr>gs_name = name, gs_address = 0, gs_size = 0, gs_defined = False, gs_common = False\<rparr>])"

text \<open>The contract of the table: names are found where they stand, and adding keeps the rest.\<close>

locale numbered_names =
  fixes find :: "'t \<Rightarrow> cstring \<Rightarrow> nat option"
    and add :: "'t \<Rightarrow> cstring \<Rightarrow> 't"
    and names :: "'t \<Rightarrow> cstring list"
    and invar :: "'t \<Rightarrow> bool"
  assumes find_iff: "invar t \<Longrightarrow> find t n = Some i \<longleftrightarrow> i < length (names t) \<and> names t ! i = n"
    and add_invar: "invar t \<Longrightarrow> invar (add t n)"
    and add_names: "invar t \<Longrightarrow>
      names (add t n) = (if n \<in> set (names t) then names t else names t @ [n])"
begin

lemma find_add_self: "invar t \<Longrightarrow> \<exists>i. find (add t n) n = Some i"
  using add_invar [of t n] add_names [of t n] by (auto simp: find_iff in_set_conv_nth nth_append)

lemma find_add_other: "invar t \<Longrightarrow> find t m = Some i \<Longrightarrow> find (add t n) m = Some i"
  using add_invar [of t n] add_names [of t n] by (auto simp: find_iff nth_append)

lemma find_None: "invar t \<Longrightarrow> find t n = None \<longleftrightarrow> n \<notin> set (names t)"
  using find_iff [of t n] by (cases "find t n") (auto simp: in_set_conv_nth)

lemma find_inj: "invar t \<Longrightarrow> find t m = Some i \<Longrightarrow> find t n = Some i \<Longrightarrow> m = n"
  by (simp add: find_iff)

end

lemma find_global_Some: "find_global gs n = Some i \<Longrightarrow> i < length gs \<and> gs_name (gs ! i) = n"
  by (induction gs arbitrary: i) (auto split: if_splits)

lemma find_global_None: "find_global gs n = None \<longleftrightarrow> n \<notin> gs_name ` set gs"
  by (induction gs) auto

interpretation globals: numbered_names find_global add_global "map gs_name" "\<lambda>gs. distinct (map gs_name gs)"
proof unfold_locales
  fix gs :: "global_symbol list" and n i
  assume d: "distinct (map gs_name gs)"
  show "find_global gs n = Some i \<longleftrightarrow> i < length (map gs_name gs) \<and> map gs_name gs ! i = n"
  proof
    assume "find_global gs n = Some i"
    then show "i < length (map gs_name gs) \<and> map gs_name gs ! i = n" using find_global_Some by fastforce
  next
    assume i: "i < length (map gs_name gs) \<and> map gs_name gs ! i = n"
    then have "n \<in> gs_name ` set gs" by (auto simp: in_set_conv_nth intro!: image_eqI [of _ _ "gs ! i"])
    then obtain j where j: "find_global gs n = Some j" using find_global_None [of gs n] by auto
    then have "j = i" using nth_eq_iff_index_eq [OF d, of i j] find_global_Some [OF j] i by auto
    with j show "find_global gs n = Some i" by simp
  qed
  show "distinct (map gs_name (add_global gs n))"
    using d find_global_None [of gs n] by (auto simp: add_global_def)
  show "map gs_name (add_global gs n) =
      (if n \<in> set (map gs_name gs) then map gs_name gs else map gs_name gs @ [n])"
    using find_global_None [of gs n] by (auto simp: add_global_def)
qed

subsection \<open>Resolution\<close>

definition runtime_symbol_name :: "cstring \<Rightarrow> bool" where
  "runtime_symbol_name name = list_ex (\<lambda>s. name = cstr s)
     [''cc64_putc'', ''cc64_write'', ''cc64_read'', ''cc64_alloc'', ''cc64_free'', ''cc64_open'',
      ''cc64_create'', ''cc64_lseek'', ''cc64_close'', ''cc64_delete'', ''cc64_exit'',
      ''cc64_console_ready'', ''cc64_console_line'', ''cc64_time_fields'', ''cc64_date_fields'']"

definition is_common :: "link_symbol \<Rightarrow> bool" where
  "is_common y \<longleftrightarrow> ly_kind y = 4 \<and> ly_section_index y = 0xffffffff"

text \<open>The address of a symbol that lies in a section.\<close>

definition locate_symbol ::
  "link_object \<Rightarrow> output_section list \<Rightarrow> link_symbol \<Rightarrow> (diag, link_symbol) res" where
  "locate_symbol ob outs y =
     (if ly_section_index y = 0xffffffff then Inr y
      else bindE (index (lo_sections ob) (unat (ly_section_index y))) (\<lambda>s.
        if ls_output_offset s > 2 ^ 64 - 1 - ly_value y then Inl (Failed Silent)
        else bindE (index outs (ls_output_kind s)) (\<lambda>out.
          Inr (y\<lparr>ly_value := add64 (ly_value y) (add64 (ou_offset out) (ls_output_offset s)),
                 ly_defined := True\<rparr>))))"

definition resolve_common ::
  "output_section list \<Rightarrow> global_symbol list \<Rightarrow> nat \<Rightarrow> link_symbol \<Rightarrow>
     (diag, (output_section list \<times> global_symbol list) \<times> link_symbol) res" where
  "resolve_common outs gs i y =
     bindE (index outs 3) (\<lambda>bss.
     if ou_size bss > SIZE_MAX - 7 then Inl (Failed Silent) else
     let offset = mask_off (ou_size bss + 7) 7; g = gs ! i in
     if unat (ly_size y) > SIZE_MAX - offset then Inl (Failed Silent) else
     let outs' = outs[3 := bss\<lparr>ou_size := offset + unat (ly_size y)\<rparr>];
         y' = y\<lparr>ly_value := add64 (ou_offset bss) offset, ly_defined := True\<rparr> in
     if gs_defined g \<and> \<not> gs_common g
     then link_error 5020 None ''common symbol conflicts with definition''
     else let g' = (if \<not> gs_defined g \<or> unat (ly_size y) > gs_size g
                    then g\<lparr>gs_address := ly_value y', gs_size := unat (ly_size y)\<rparr> else g)
          in Inr ((outs', gs[i := g'\<lparr>gs_defined := True, gs_common := True\<rparr>]), y'))"

definition resolve_definition ::
  "link_object \<Rightarrow> global_symbol list \<Rightarrow> nat \<Rightarrow> link_symbol \<Rightarrow> (diag, global_symbol list) res" where
  "resolve_definition ob gs i y =
     (let g = gs ! i in
      if gs_defined g \<and> ly_defined y \<and> \<not> gs_common g then
        bindE (if ly_kind y = 1
               then bindE (index (lo_sections ob) (unat (ly_section_index y))) (\<lambda>s.
                      Inr (ls_kind s = 3 \<and> gs_size g = unat (ly_size y)))
               else Inr False) (\<lambda>both_tentative.
        if \<not> both_tentative \<and> \<not> runtime_symbol_name (ly_name y)
        then link_error 5020 None ''duplicate global definition'' else Inr gs)
      else if ly_defined y then
        Inr (gs[i := g\<lparr>gs_address := ly_value y, gs_size := unat (ly_size y),
                       gs_defined := True, gs_common := False\<rparr>])
      else Inr gs)"

definition resolve_symbol ::
  "link_object \<Rightarrow> output_section list \<times> global_symbol list \<Rightarrow> link_symbol \<Rightarrow>
     (diag, (output_section list \<times> global_symbol list) \<times> link_symbol) res" where
  "resolve_symbol ob st y =
     (case st of (outs, gs) \<Rightarrow>
      bindE (locate_symbol ob outs y) (\<lambda>y.
      if ly_binding y \<noteq> 1 then Inr ((outs, gs), y)
      else let gs = add_global gs (ly_name y) in
        (case find_global gs (ly_name y) of
           None \<Rightarrow> Inl OutOfBounds
         | Some i \<Rightarrow>
             if is_common y then resolve_common outs gs i y
             else bindE (resolve_definition ob gs i y) (\<lambda>gs. Inr ((outs, gs), y)))))"

fun resolve_object ::
  "link_object \<Rightarrow> output_section list \<times> global_symbol list \<Rightarrow> link_symbol list \<Rightarrow>
     (diag, (output_section list \<times> global_symbol list) \<times> link_symbol list) res" where
  "resolve_object ob st [] = Inr (st, [])"
| "resolve_object ob st (y # ys) =
     bindE (resolve_symbol ob st y) (\<lambda>(st, y').
     bindE (resolve_object ob st ys) (\<lambda>(st, ys'). Inr (st, y' # ys')))"

fun resolve_symbols ::
  "output_section list \<times> global_symbol list \<Rightarrow> link_object list \<Rightarrow>
     (diag, (output_section list \<times> global_symbol list) \<times> link_object list) res" where
  "resolve_symbols st [] = Inr (st, [])"
| "resolve_symbols st (ob # obs) =
     bindE (resolve_object ob st (lo_symbols ob)) (\<lambda>(st, ys).
     bindE (resolve_symbols st obs) (\<lambda>(st, obs'). Inr (st, ob\<lparr>lo_symbols := ys\<rparr> # obs')))"

subsection \<open>What a resolved table says\<close>

text \<open>The occurrences of a global name among the symbols seen so far, in link order.\<close>

definition occurrences :: "link_symbol list \<Rightarrow> cstring \<Rightarrow> link_symbol list" where
  "occurrences ys n = filter (\<lambda>y. ly_binding y = 1 \<and> ly_name y = n) ys"

definition is_definition :: "link_symbol \<Rightarrow> bool" where
  "is_definition y \<longleftrightarrow> ly_section_index y \<noteq> 0xffffffff"

definition global_ok :: "link_symbol list \<Rightarrow> global_symbol \<Rightarrow> bool" where
  "global_ok ys g \<longleftrightarrow>
     (let mine = occurrences ys (gs_name g) in
      if \<not> gs_defined g then \<forall>y \<in> set mine. \<not> is_definition y \<and> \<not> is_common y
      else if gs_common g then
        (\<forall>y \<in> set mine. \<not> is_definition y \<and> (is_common y \<longrightarrow> unat (ly_size y) \<le> gs_size g)) \<and>
        (\<exists>y \<in> set mine. is_common y \<and> ly_value y = gs_address g \<and> unat (ly_size y) = gs_size g)
      else (\<exists>y. List.find is_definition mine = Some y \<and>
              gs_address g = ly_value y \<and> gs_size g = unat (ly_size y)) \<and>
           (\<forall>y \<in> set mine. is_definition y \<longrightarrow> List.find is_definition mine = Some y \<or>
              runtime_symbol_name (ly_name y) \<or> (ly_kind y = 1 \<and> unat (ly_size y) = gs_size g)))"

definition resolved :: "link_symbol list \<Rightarrow> global_symbol list \<Rightarrow> bool" where
  "resolved ys gs \<longleftrightarrow>
     distinct (map gs_name gs) \<and>
     (\<forall>y \<in> set ys. ly_binding y = 1 \<longrightarrow> ly_name y \<in> gs_name ` set gs) \<and>
     (\<forall>g \<in> set gs. global_ok ys g)"

definition same_symbol :: "link_symbol \<Rightarrow> link_symbol \<Rightarrow> bool" where
  "same_symbol y y' \<longleftrightarrow> y' = y\<lparr>ly_value := ly_value y', ly_defined := ly_defined y'\<rparr>"

lemma same_symbolD:
  assumes "same_symbol y y'"
  shows "ly_name y' = ly_name y" "ly_original_value y' = ly_original_value y"
    "ly_section_index y' = ly_section_index y" "ly_binding y' = ly_binding y"
    "ly_kind y' = ly_kind y" "ly_size y' = ly_size y"
    "is_common y' = is_common y" "is_definition y' = is_definition y"
  using assms by (cases y, cases y', simp add: same_symbol_def is_common_def is_definition_def)+

lemma occurrences_append:
  "occurrences (ys @ [y]) n =
     occurrences ys n @ (if ly_binding y = 1 \<and> ly_name y = n then [y] else [])"
  by (simp add: occurrences_def)

lemma find_append: "List.find P (xs @ ys) = (case List.find P xs of None \<Rightarrow> List.find P ys | Some x \<Rightarrow> Some x)"
  by (induction xs) auto

lemma global_ok_other:
  assumes "\<not> (ly_binding y = 1 \<and> ly_name y = gs_name g)"
  shows "global_ok (ys @ [y]) g = global_ok ys g"
proof -
  have "occurrences (ys @ [y]) (gs_name g) = occurrences ys (gs_name g)"
    using assms by (auto simp: occurrences_append)
  then show ?thesis by (simp only: global_ok_def)
qed

lemma resolved_add:
  assumes "resolved ys gs"
  shows "resolved ys (add_global gs n)"
proof (cases "find_global gs n")
  case (Some i)
  with assms show ?thesis by (simp add: add_global_def)
next
  case None
  then have "n \<notin> gs_name ` set gs" by (simp add: find_global_None)
  with assms have "occurrences ys n = []" by (auto simp: resolved_def occurrences_def filter_empty_conv)
  then have "global_ok ys \<lparr>gs_name = n, gs_address = 0, gs_size = 0, gs_defined = False, gs_common = False\<rparr>"
    by (simp add: global_ok_def)
  with assms None globals.add_invar [of gs n] show ?thesis
    by (auto simp: resolved_def add_global_def)
qed

lemma resolved_update:
  assumes r: "resolved ys gs" and i: "find_global gs (ly_name y) = Some i" and b: "ly_binding y = 1"
    and g: "global_ok (ys @ [y]) g" "gs_name g = ly_name y"
  shows "resolved (ys @ [y]) (gs[i := g])"
proof -
  note I = find_global_Some [OF i]
  have names: "map gs_name (gs[i := g]) = map gs_name gs"
    using I g(2) by (metis list_update_id map_update nth_map)
  have "global_ok (ys @ [y]) h" if "h \<in> set (gs[i := g])" for h
  proof -
    from that obtain j where j: "j < length gs" "h = gs[i := g] ! j" by (auto simp: in_set_conv_nth)
    show ?thesis
    proof (cases "j = i")
      case True
      with j g(1) show ?thesis by simp
    next
      case False
      with j have h: "h = gs ! j" by simp
      have d: "distinct (map gs_name gs)" using r by (simp add: resolved_def)
      have "gs_name h \<noteq> ly_name y"
        using nth_eq_iff_index_eq [OF d, of i j] False I j h by auto
      then show ?thesis using r h j by (simp add: global_ok_other resolved_def)
    qed
  qed
  moreover have "ly_name z \<in> gs_name ` set (gs[i := g])" if "z \<in> set (ys @ [y])" "ly_binding z = 1" for z
  proof -
    have "gs_name ` set (gs[i := g]) = gs_name ` set gs" using names by (metis list.set_map)
    moreover have "ly_name y \<in> gs_name ` set gs" using I by (metis image_eqI nth_mem)
    ultimately show ?thesis using that r by (auto simp: resolved_def)
  qed
  ultimately show ?thesis using r names by (simp add: resolved_def)
qed

subsection \<open>Every step keeps the table right\<close>

lemma resolve_common_ok:
  assumes run: "resolve_common outs gs i y = Inr ((outs', gs'), y')" and c: "is_common y"
    and r: "resolved ys gs" and i: "find_global gs (ly_name y) = Some i" and b: "ly_binding y = 1"
  shows "resolved (ys @ [y']) gs'" "same_symbol y y'"
    "\<exists>n. outs' = outs[3 := (outs ! 3)\<lparr>ou_size := n\<rparr>]"
proof -
  let ?g = "gs ! i" and ?sz = "unat (ly_size y)"
  let ?g' = "(if \<not> gs_defined ?g \<or> ?sz > gs_size ?g then ?g\<lparr>gs_address := ly_value y', gs_size := ?sz\<rparr> else ?g)
     \<lparr>gs_defined := True, gs_common := True\<rparr>"
  from run obtain n v where y': "y' = y\<lparr>ly_value := v, ly_defined := True\<rparr>"
    and outs': "outs' = outs[3 := (outs ! 3)\<lparr>ou_size := n\<rparr>]"
    and free: "\<not> (gs_defined ?g \<and> \<not> gs_common ?g)" and gs': "gs' = gs[i := ?g']"
    by (auto simp: resolve_common_def Let_def split: if_splits)
  show same: "same_symbol y y'" by (simp add: same_symbol_def y')
  show "\<exists>n. outs' = outs[3 := (outs ! 3)\<lparr>ou_size := n\<rparr>]" using outs' by blast
  note I = find_global_Some [OF i]
  have old: "global_ok ys ?g" using r I by (simp add: resolved_def)
  note S = same_symbolD [OF same]
  have nm: "gs_name ?g' = ly_name y'" using I S by simp
  have "\<not> is_definition y'" "is_common y'" using c S by (simp_all add: is_common_def is_definition_def)
  moreover have "occurrences (ys @ [y']) (gs_name ?g') = occurrences ys (gs_name ?g) @ [y']"
    using b S(1,4) I by (simp add: occurrences_append)
  ultimately have "global_ok (ys @ [y']) ?g'"
    using old free S(6) unfolding global_ok_def Let_def by (auto split: if_splits)
  moreover have "find_global gs (ly_name y') = Some i" "ly_binding y' = 1" using i b S by simp_all
  ultimately show "resolved (ys @ [y']) gs'" unfolding gs' using nm by (intro resolved_update [OF r])
qed

lemma resolve_definition_ok:
  assumes run: "resolve_definition ob gs i y = Inr gs'" and c: "\<not> is_common y"
    and d: "ly_defined y \<longleftrightarrow> is_definition y"
    and r: "resolved ys gs" and i: "find_global gs (ly_name y) = Some i" and b: "ly_binding y = 1"
  shows "resolved (ys @ [y]) gs'"
proof -
  let ?g = "gs ! i"
  note I = find_global_Some [OF i]
  have old: "global_ok ys ?g" and nm: "gs_name ?g = ly_name y" using r I by (simp_all add: resolved_def)
  have occ: "occurrences (ys @ [y]) (gs_name ?g) = occurrences ys (gs_name ?g) @ [y]"
    using b nm by (simp add: occurrences_append)
  have keep: "resolved (ys @ [y]) gs" if "global_ok (ys @ [y]) ?g"
    using resolved_update [OF r i b that nm] by simp
  consider (dup) "gs_defined ?g" "is_definition y" "\<not> gs_common ?g"
    | (def) "is_definition y" "\<not> gs_defined ?g \<or> gs_common ?g" | (ref) "\<not> is_definition y" by blast
  then show ?thesis
  proof cases
    case dup
    with run d have "gs' = gs"
      and "(ly_kind y = 1 \<and> gs_size ?g = unat (ly_size y)) \<or> runtime_symbol_name (ly_name y)"
      by (auto simp: resolve_definition_def Let_def link_error_def split: if_splits)
    with old dup occ have "global_ok (ys @ [y]) ?g"
      unfolding global_ok_def Let_def by (auto simp: find_append)
    then show ?thesis using keep \<open>gs' = gs\<close> by simp
  next
    case def
    let ?g' = "?g\<lparr>gs_address := ly_value y, gs_size := unat (ly_size y), gs_defined := True, gs_common := False\<rparr>"
    have gs': "gs' = gs[i := ?g']" using run d def by (auto simp: resolve_definition_def Let_def)
    have "\<forall>z \<in> set (occurrences ys (gs_name ?g)). \<not> is_definition z"
      using old def(2) by (auto simp: global_ok_def Let_def split: if_splits)
    then have "List.find is_definition (occurrences ys (gs_name ?g)) = None"
      by (simp add: find_None_iff)
    with old def occ have "global_ok (ys @ [y]) ?g'"
      unfolding global_ok_def Let_def by (auto simp: find_append split: if_splits)
    then show ?thesis unfolding gs' using nm by (intro resolved_update [OF r i b]) simp_all
  next
    case ref
    then have "gs' = gs" using run d by (auto simp: resolve_definition_def Let_def)
    moreover have "global_ok (ys @ [y]) ?g"
      using old ref c occ unfolding global_ok_def Let_def by (auto simp: find_append split: if_splits option.splits)
    ultimately show ?thesis using keep by simp
  qed
qed

text \<open>Only the size of the last output changes, when common symbols are allocated.\<close>

definition bss_grown :: "output_section list \<Rightarrow> output_section list \<Rightarrow> bool" where
  "bss_grown outs outs' \<longleftrightarrow> (\<exists>n. outs' = outs[3 := (outs ! 3)\<lparr>ou_size := n\<rparr>])"

lemma bss_grownD:
  assumes "bss_grown outs outs'"
  shows "length outs' = length outs" "ou_offset (outs' ! k) = ou_offset (outs ! k)"
    "ou_data (outs' ! k) = ou_data (outs ! k)" "k \<noteq> 3 \<Longrightarrow> outs' ! k = outs ! k"
proof -
  obtain n where o: "outs' = outs[3 := (outs ! 3)\<lparr>ou_size := n\<rparr>]"
    using assms unfolding bss_grown_def by blast
  show "length outs' = length outs" by (simp add: o)
  have nth: "outs' ! k = (if k = 3 \<and> 3 < length outs then (outs ! 3)\<lparr>ou_size := n\<rparr> else outs ! k)"
    by (cases "3 < length outs") (simp_all add: o nth_list_update list_update_beyond)
  then show "ou_offset (outs' ! k) = ou_offset (outs ! k)" "ou_data (outs' ! k) = ou_data (outs ! k)"
    "k \<noteq> 3 \<Longrightarrow> outs' ! k = outs ! k" by simp_all
qed

lemma bss_grown_refl: "bss_grown outs outs"
  unfolding bss_grown_def by (rule exI [of _ "ou_size (outs ! 3)"]) (simp add: list_update_id)

lemma bss_grown_trans:
  assumes "bss_grown a b" "bss_grown b c"
  shows "bss_grown a c"
proof (cases "3 < length a")
  case True
  obtain n m where "b = a[3 := (a ! 3)\<lparr>ou_size := n\<rparr>]" "c = b[3 := (b ! 3)\<lparr>ou_size := m\<rparr>]"
    using assms unfolding bss_grown_def by blast
  with True have "c = a[3 := (a ! 3)\<lparr>ou_size := m\<rparr>]" by simp
  then show ?thesis unfolding bss_grown_def by blast
next
  case False
  with assms have "b = a" "c = b" unfolding bss_grown_def by (metis list_update_beyond not_less)+
  then have "c = a" by simp
  then show ?thesis by (simp add: bss_grown_refl)
qed

definition symbol_address :: "output_section list \<Rightarrow> link_object \<Rightarrow> link_symbol \<Rightarrow> nat" where
  "symbol_address outs ob y =
     (let s = lo_sections ob ! unat (ly_section_index y) in
      add64 (ly_value y) (add64 (ou_offset (outs ! ls_output_kind s)) (ls_output_offset s)))"

definition symbol_done :: "output_section list \<Rightarrow> link_object \<Rightarrow> link_symbol \<Rightarrow> link_symbol \<Rightarrow> bool" where
  "symbol_done outs ob y y' \<longleftrightarrow> same_symbol y y' \<and>
     (is_definition y \<longrightarrow> ly_value y' = symbol_address outs ob y)"

lemma symbol_done_grown: "bss_grown outs outs' \<Longrightarrow> symbol_done outs' ob y y' = symbol_done outs ob y y'"
  by (simp add: symbol_done_def symbol_address_def bss_grownD)

lemma locate_symbol_ok:
  assumes "locate_symbol ob outs y = Inr y'" "ly_defined y \<longleftrightarrow> is_definition y"
  shows "symbol_done outs ob y y'" "ly_defined y' \<longleftrightarrow> is_definition y'"
  using assms by (auto simp: locate_symbol_def symbol_done_def same_symbol_def is_definition_def
      symbol_address_def Let_def split: if_splits)

lemma resolve_symbol_ok:
  assumes run: "resolve_symbol ob (outs, gs) y = Inr ((outs', gs'), y')"
    and r: "resolved ys gs" and d: "ly_defined y \<longleftrightarrow> is_definition y"
  shows "resolved (ys @ [y']) gs' \<and> bss_grown outs outs' \<and> symbol_done outs ob y y'"
proof -
  from run obtain y1 where loc: "locate_symbol ob outs y = Inr y1" by (auto simp: resolve_symbol_def)
  note L = locate_symbol_ok [OF loc d]
  from L(1) have same: "same_symbol y y1" by (simp add: symbol_done_def)
  show ?thesis
  proof (cases "ly_binding y1 = 1")
    case False
    with run loc have "outs' = outs" "gs' = gs" "y' = y1" by (simp_all add: resolve_symbol_def)
    moreover have "global_ok (ys @ [y1]) g = global_ok ys g" for g using False by (simp add: global_ok_other)
    ultimately show ?thesis using r L(1) False by (auto simp: resolved_def bss_grown_refl)
  next
    case True
    let ?gs = "add_global gs (ly_name y1)"
    have r': "resolved ys ?gs" by (rule resolved_add [OF r])
    from run loc True obtain i where i: "find_global ?gs (ly_name y1) = Some i"
      by (auto simp: resolve_symbol_def Let_def split: option.splits)
    show ?thesis
    proof (cases "is_common y1")
      case common: True
      with run loc True i have "resolve_common outs ?gs i y1 = Inr ((outs', gs'), y')"
        by (simp add: resolve_symbol_def)
      note C = resolve_common_ok [OF this common r' i True]
      have "\<not> is_definition y" using common same_symbolD [OF same] by (simp add: is_common_def is_definition_def)
      moreover have "same_symbol y y'"
        using same C(2) by (cases y, cases y1, cases y', simp add: same_symbol_def)
      ultimately show ?thesis using C(1,3) by (simp add: symbol_done_def bss_grown_def)
    next
      case False
      with run loc True i have D: "resolve_definition ob ?gs i y1 = Inr gs' \<and> outs' = outs \<and> y' = y1"
        by (auto simp: resolve_symbol_def)
      with resolve_definition_ok [OF conjunct1 [OF D] False L(2) r' i True] L(1) show ?thesis
        by (simp add: bss_grown_refl)
    qed
  qed
qed

lemma resolve_object_ok:
  "resolve_object ob (outs, gs) ts = Inr ((outs', gs'), ts') \<Longrightarrow> resolved ys gs \<Longrightarrow>
     \<forall>y \<in> set ts. ly_defined y \<longleftrightarrow> is_definition y \<Longrightarrow>
     resolved (ys @ ts') gs' \<and> bss_grown outs outs' \<and> list_all2 (symbol_done outs ob) ts ts'"
proof (induction ts arbitrary: outs gs ys ts')
  case Nil
  then show ?case by (simp add: bss_grown_refl)
next
  case (Cons y ts)
  from Cons.prems(1) obtain outs1 gs1 y1 ts1 where 1: "resolve_symbol ob (outs, gs) y = Inr ((outs1, gs1), y1)"
    and 2: "resolve_object ob (outs1, gs1) ts = Inr ((outs', gs'), ts1)" and ts': "ts' = y1 # ts1" by auto
  have "ly_defined y \<longleftrightarrow> is_definition y" using Cons.prems(3) by simp
  note A = resolve_symbol_ok [OF 1 Cons.prems(2) this]
  then have r1: "resolved (ys @ [y1]) gs1" and grown: "bss_grown outs outs1" by simp_all
  from Cons.IH [OF 2 r1] Cons.prems(3) have B: "resolved ((ys @ [y1]) @ ts1) gs'" "bss_grown outs1 outs'"
    "list_all2 (symbol_done outs1 ob) ts ts1" by simp_all
  have "list_all2 (symbol_done outs ob) ts ts1"
    using B(3) symbol_done_grown [OF grown, of ob] by (simp add: list_all2_conv_all_nth)
  with A B bss_grown_trans [OF grown B(2)] ts' show ?case by simp
qed

definition all_symbols :: "link_object list \<Rightarrow> link_symbol list" where
  "all_symbols obs = concat (map lo_symbols obs)"

definition object_done :: "output_section list \<Rightarrow> link_object \<Rightarrow> link_object \<Rightarrow> bool" where
  "object_done outs ob ob' \<longleftrightarrow> ob' = ob\<lparr>lo_symbols := lo_symbols ob'\<rparr> \<and>
     list_all2 (symbol_done outs ob) (lo_symbols ob) (lo_symbols ob')"

lemma object_done_grown:
  "bss_grown outs outs' \<Longrightarrow> object_done outs' ob ob' = object_done outs ob ob'"
  using symbol_done_grown [of outs outs' ob] by (simp add: object_done_def list_all2_conv_all_nth)

lemma resolve_symbols_ok:
  "resolve_symbols (outs, gs) obs = Inr ((outs', gs'), obs') \<Longrightarrow> resolved ys gs \<Longrightarrow>
     \<forall>ob \<in> set obs. \<forall>y \<in> set (lo_symbols ob). ly_defined y \<longleftrightarrow> is_definition y \<Longrightarrow>
     resolved (ys @ all_symbols obs') gs' \<and> bss_grown outs outs' \<and> list_all2 (object_done outs) obs obs'"
proof (induction obs arbitrary: outs gs ys obs')
  case Nil
  then show ?case by (simp add: bss_grown_refl all_symbols_def)
next
  case (Cons ob obs)
  from Cons.prems(1) obtain outs1 gs1 ts1 obs1
    where 1: "resolve_object ob (outs, gs) (lo_symbols ob) = Inr ((outs1, gs1), ts1)"
    and 2: "resolve_symbols (outs1, gs1) obs = Inr ((outs', gs'), obs1)"
    and obs': "obs' = ob\<lparr>lo_symbols := ts1\<rparr> # obs1" by auto
  have "\<forall>y \<in> set (lo_symbols ob). ly_defined y \<longleftrightarrow> is_definition y" using Cons.prems(3) by simp
  note A = resolve_object_ok [OF 1 Cons.prems(2) this]
  then have r1: "resolved (ys @ ts1) gs1" and grown: "bss_grown outs outs1" by simp_all
  from Cons.IH [OF 2 r1] Cons.prems(3) have B: "resolved ((ys @ ts1) @ all_symbols obs1) gs'"
    "bss_grown outs1 outs'" "list_all2 (object_done outs1) obs obs1" by simp_all
  have "list_all2 (object_done outs) obs obs1"
    using B(3) object_done_grown [OF grown] by (simp add: list_all2_conv_all_nth)
  moreover have "object_done outs ob (ob\<lparr>lo_symbols := ts1\<rparr>)" using A by (simp add: object_done_def)
  ultimately show ?case using B bss_grown_trans [OF grown B(2)] obs' by (simp add: all_symbols_def)
qed

subsection \<open>Resolution stays in bounds\<close>

text \<open>Symbols lie in sections that exist, and sections in outputs that exist.\<close>

definition symbols_in_range :: "nat \<Rightarrow> link_object \<Rightarrow> bool" where
  "symbols_in_range n ob \<longleftrightarrow>
     (\<forall>y \<in> set (lo_symbols ob). is_definition y \<longrightarrow> unat (ly_section_index y) < length (lo_sections ob)) \<and>
     (\<forall>y \<in> set (lo_symbols ob). ly_defined y \<longleftrightarrow> is_definition y) \<and>
     (\<forall>s \<in> set (lo_sections ob). ls_output_kind s < n)"

lemma locate_symbol_safe:
  assumes "is_definition y \<Longrightarrow> unat (ly_section_index y) < length (lo_sections ob)"
    and "\<forall>s \<in> set (lo_sections ob). ls_output_kind s < length outs"
  shows "safe (locate_symbol ob outs y)"
  unfolding locate_symbol_def using assms
  by (intro safe_if safe_bindE) (auto simp: is_definition_def)

lemma resolve_common_safe: "length outs = 4 \<Longrightarrow> safe (resolve_common outs gs i y)"
  unfolding resolve_common_def Let_def by (intro safe_bindE safe_if) auto

lemma resolve_definition_safe:
  assumes "is_definition y \<Longrightarrow> unat (ly_section_index y) < length (lo_sections ob)"
    and "ly_defined y \<longleftrightarrow> is_definition y"
  shows "safe (resolve_definition ob gs i y)"
  unfolding resolve_definition_def Let_def using assms
  by (intro safe_if safe_bindE) auto

lemma resolve_symbol_safe:
  assumes outs: "length outs = 4" and gs: "resolved ys gs" and ob: "symbols_in_range 4 ob"
    and y: "y \<in> set (lo_symbols ob)"
  shows "safe (resolve_symbol ob (outs, gs) y)"
  unfolding resolve_symbol_def prod.case Let_def
proof (intro safe_bindE safe_if)
  have range: "is_definition y \<Longrightarrow> unat (ly_section_index y) < length (lo_sections ob)"
    and d: "ly_defined y \<longleftrightarrow> is_definition y" using ob y by (auto simp: symbols_in_range_def)
  show "safe (locate_symbol ob outs y)"
    using ob outs range by (intro locate_symbol_safe) (auto simp: symbols_in_range_def)
  fix y1 assume loc: "locate_symbol ob outs y = Inr y1"
  note L = locate_symbol_ok [OF loc d]
  then have "same_symbol y y1" by (simp add: symbol_done_def)
  note S = same_symbolD [OF this]
  let ?gs = "add_global gs (ly_name y1)"
  have "distinct (map gs_name gs)" using gs by (simp add: resolved_def)
  from globals.find_add_self [OF this] obtain i where i: "find_global ?gs (ly_name y1) = Some i" by blast
  have "safe (resolve_definition ob ?gs i y1)"
    using L(2) S range by (intro resolve_definition_safe) simp_all
  then show "safe (case find_global ?gs (ly_name y1) of None \<Rightarrow> Inl OutOfBounds
      | Some i \<Rightarrow> if is_common y1 then resolve_common outs ?gs i y1
          else bindE (resolve_definition ob ?gs i y1) (\<lambda>gs. Inr ((outs, gs), y1)))"
    using i outs resolve_common_safe by (auto intro: safe_bindE)
qed simp

lemma resolve_object_safe:
  "length outs = 4 \<Longrightarrow> resolved ys gs \<Longrightarrow> symbols_in_range 4 ob \<Longrightarrow> set ts \<subseteq> set (lo_symbols ob) \<Longrightarrow>
     safe (resolve_object ob (outs, gs) ts)"
proof (induction ts arbitrary: outs gs ys)
  case Nil
  then show ?case by simp
next
  case (Cons y ts)
  have y: "y \<in> set (lo_symbols ob)" using Cons.prems(4) by simp
  then have d: "ly_defined y \<longleftrightarrow> is_definition y" using Cons.prems(3) by (auto simp: symbols_in_range_def)
  have "safe (resolve_object ob st ts)" if "resolve_symbol ob (outs, gs) y = Inr (st, y1)" for st y1
  proof -
    obtain outs1 gs1 where st: "st = (outs1, gs1)" by (cases st)
    from resolve_symbol_ok [OF that [unfolded st] Cons.prems(2) d] Cons.prems(1,3,4) st bss_grownD(1)
    show ?thesis using Cons.IH by (metis (no_types, lifting) dual_order.trans set_subset_Cons)
  qed
  then show ?case
    unfolding resolve_object.simps
    by (intro safe_bindE_pair resolve_symbol_safe [OF Cons.prems(1,2,3) y] safe_simps) auto
qed

lemma resolve_symbols_safe:
  "length outs = 4 \<Longrightarrow> resolved ys gs \<Longrightarrow> \<forall>ob \<in> set obs. symbols_in_range 4 ob \<Longrightarrow>
     safe (resolve_symbols (outs, gs) obs)"
proof (induction obs arbitrary: outs gs ys)
  case Nil
  then show ?case by simp
next
  case (Cons ob obs)
  have ob: "symbols_in_range 4 ob" using Cons.prems(3) by simp
  then have d: "\<forall>y \<in> set (lo_symbols ob). ly_defined y \<longleftrightarrow> is_definition y" by (auto simp: symbols_in_range_def)
  have "safe (resolve_symbols st obs)" if "resolve_object ob (outs, gs) (lo_symbols ob) = Inr (st, ts1)" for st ts1
  proof -
    obtain outs1 gs1 where st: "st = (outs1, gs1)" by (cases st)
    from resolve_object_ok [OF that [unfolded st] Cons.prems(2) d]
    have "resolved (ys @ ts1) gs1" "length outs1 = 4" using bss_grownD(1) Cons.prems(1) by metis+
    with Cons.IH Cons.prems(3) st show ?thesis by simp
  qed
  then show ?case
    unfolding resolve_symbols.simps
    by (intro safe_bindE_pair resolve_object_safe [OF Cons.prems(1,2) ob order_refl] safe_simps) auto
qed

subsection \<open>The rules of resolution\<close>

text \<open>
  C18. When symbol resolution succeeds, the table holds every global name exactly once, and for each
  name: an undefined one has no definition in any object; one that any object defines has the
  address and size of its first definition in link order, and every further definition is a
  tentative one of the same size or names a runtime service; one that is only common has an
  address allocated for it, of the largest size any object asked for. Every symbol in a section
  has the address its section was placed at plus its offset.
\<close>

theorem symbol_resolution:
  assumes "resolve_symbols (outs, []) obs = Inr ((outs', gs), obs')"
    and "\<forall>ob \<in> set obs. \<forall>y \<in> set (lo_symbols ob). ly_defined y \<longleftrightarrow> is_definition y"
  shows "resolved (all_symbols obs') gs \<and> list_all2 (object_done outs) obs obs'"
  using resolve_symbols_ok [OF assms(1) _ assms(2), of "[]"] by (simp add: resolved_def)

theorem symbol_resolution_witness:
  "resolved
     [\<lparr>ly_name = cstr ''main'', ly_value = 52, ly_original_value = 4, ly_section_index = 0, ly_binding = 1,
       ly_kind = 2, ly_size = 8, ly_defined = True\<rparr>,
      \<lparr>ly_name = cstr ''buf'', ly_value = 0, ly_original_value = 0, ly_section_index = 0xffffffff,
       ly_binding = 1, ly_kind = 4, ly_size = 24, ly_defined = True\<rparr>]
     [\<lparr>gs_name = cstr ''main'', gs_address = 52, gs_size = 8, gs_defined = True, gs_common = False\<rparr>,
      \<lparr>gs_name = cstr ''buf'', gs_address = 0, gs_size = 24, gs_defined = True, gs_common = True\<rparr>]"
proof -
  let ?s = "\<lparr>ls_name = cstr ''.text'', ls_kind = 0, ls_alignment = 16, ls_data = replicate 12 0, ls_size = 12,
     ls_relocations = [], ls_output_offset = 48, ls_output_kind = 0\<rparr>"
  let ?m = "\<lparr>ly_name = cstr ''main'', ly_value = 4, ly_original_value = 4, ly_section_index = 0, ly_binding = 1,
     ly_kind = 2, ly_size = 8, ly_defined = True\<rparr>"
  let ?c = "\<lparr>ly_name = cstr ''buf'', ly_value = 0, ly_original_value = 0, ly_section_index = 0xffffffff,
     ly_binding = 1, ly_kind = 4, ly_size = 24, ly_defined = False\<rparr>"
  let ?ob = "\<lparr>lo_bytes = [], lo_sections = [?s], lo_symbols = [?m, ?c], lo_ranges = []\<rparr>"
  let ?gs = "[\<lparr>gs_name = cstr ''main'', gs_address = 52, gs_size = 8, gs_defined = True, gs_common = False\<rparr>,
     \<lparr>gs_name = cstr ''buf'', gs_address = 0, gs_size = 24, gs_defined = True, gs_common = True\<rparr>]"
  have names: "cstr ''main'' \<noteq> cstr ''buf''" by (simp add: cstr_def)
  have m: "resolve_symbol ?ob (initial_outputs, []) ?m = Inr ((initial_outputs, [hd ?gs]), ?m\<lparr>ly_value := 52\<rparr>)"
    by (simp add: resolve_symbol_def locate_symbol_def index_def initial_outputs_def add_global_def
        is_common_def resolve_definition_def)
  have c: "\<exists>outs. resolve_symbol ?ob (initial_outputs, [hd ?gs]) ?c = Inr ((outs, ?gs), ?c\<lparr>ly_defined := True\<rparr>)"
    using names by (simp add: resolve_symbol_def locate_symbol_def index_def initial_outputs_def add_global_def
        is_common_def resolve_common_def mask_off_def SIZE_MAX_def)
  from m c obtain outs where "resolve_symbols (initial_outputs, []) [?ob] =
      Inr ((outs, ?gs), [?ob\<lparr>lo_symbols := [?m\<lparr>ly_value := 52\<rparr>, ?c\<lparr>ly_defined := True\<rparr>]\<rparr>])" by auto
  from symbol_resolution [OF this] show ?thesis by (simp add: is_definition_def all_symbols_def)
qed

end
