(* ===== verification/Link_Image.thy ===== *)
theory Link_Image
  imports Link_Symbols
begin

text \<open>
  The second half of the linker (\<open>src/src/linker/linker.c\<close>): the payload assembled from the
  outputs, the relocations applied to it, the relocations left to the loader, and the image
  written for the raw and the MZ64 format.
\<close>

datatype image_format = IMAGE_RAW_COM | IMAGE_MZ64

record image_relocation =
  im_destination :: nat
  im_addend :: int

text \<open>Signed views: the conversion of an unsigned 64-bit value to \<open>int64_t\<close>.\<close>

definition to_int64 :: "nat \<Rightarrow> int" where
  "to_int64 v = sint (of_nat v :: u64)"

definition INT64_MAX :: int where "INT64_MAX = 2 ^ 63 - 1"

subsection \<open>Assembling the payload\<close>

definition image_extents :: "output_section list \<Rightarrow> (nat \<times> nat) option" where
  "image_extents outs =
     foldl (\<lambda>acc i. Option.bind acc (\<lambda>(payload, memory).
        let out = outs ! i in
        if ou_offset out > SIZE_MAX - ou_size out then None
        else let e = ou_offset out + ou_size out
             in Some (if i \<noteq> 3 \<and> e > payload then e else payload, if e > memory then e else memory)))
       (Some (0, 0)) [0..<4]"

definition flatten_output ::
  "output_section list \<Rightarrow> nat \<Rightarrow> byte list \<Rightarrow> nat \<Rightarrow> (diag, byte list) res" where
  "flatten_output outs payload_size payload i =
     (if i = 3 then Inr payload
      else bindE (index outs i) (\<lambda>out.
        if ou_size out = 0 then Inr payload
        else if ou_offset out > (payload_size + 2 ^ 64 - ou_size out) mod 2 ^ 64 then Inl (Failed Silent)
        else bindE (fetch (ou_data out) 0 (ou_size out)) (store payload (ou_offset out))))"

definition flatten_outputs :: "output_section list \<Rightarrow> nat \<Rightarrow> (diag, byte list) res" where
  "flatten_outputs outs payload_size =
     (if payload_size = 0 then Inr []
      else foldE (flatten_output outs payload_size) (replicate payload_size 0) [0..<4])"

subsection \<open>Relocations\<close>

definition checked_add_signed :: "nat \<Rightarrow> int \<Rightarrow> int option" where
  "checked_add_signed v addend =
     (if addend \<ge> 0 then
        (let extra = nat addend in
         if v > 2 ^ 64 - 1 - extra then None
         else if int (v + extra) > INT64_MAX then None else Some (int (v + extra)))
      else
        (let amount = nat (- (addend + 1)) + 1 in
         if v < amount then
           (if int v > INT64_MAX + 1 then Some (to_int64 ((v + 2 ^ 64 - amount) mod 2 ^ 64)) else None)
         else
           (let difference = v - amount in
            if int difference > INT64_MAX then Some (int difference - 2 ^ 63) else Some (int difference))))"

fun insert_position :: "image_relocation list \<Rightarrow> nat \<Rightarrow> nat \<Rightarrow> nat" where
  "insert_position items destination 0 = 0"
| "insert_position items destination (Suc p) =
     (if im_destination (items ! p) > destination then insert_position items destination p else Suc p)"

text \<open>
  The array doubles from 8 entries of 16 bytes, and the doubling that would pass \<open>SIZE_MAX / 16\<close>
  entries is refused: that is the one from 2^59 entries.
\<close>

definition append_image_relocation ::
  "image_relocation list \<Rightarrow> nat \<Rightarrow> int \<Rightarrow> image_relocation list option" where
  "append_image_relocation items destination addend =
     (if length items = 2 ^ 59 then None
      else let p = insert_position items destination (length items)
           in Some (take p items @ [\<lparr>im_destination = destination, im_addend = addend\<rparr>] @ drop p items))"

text \<open>The value a relocation refers to: the symbol's own address, or the resolved global's.\<close>

definition reloc_value :: "global_symbol list \<Rightarrow> link_symbol \<Rightarrow> (diag, nat) res" where
  "reloc_value gs y =
     (if ly_binding y \<noteq> 1 then Inr (ly_value y)
      else case find_global gs (ly_name y) of
        None \<Rightarrow> Inl (Failed (Diag 5021 (take 511 (cstr ''linker: '' @
                  take 255 (cstr ''unresolved symbol '' @ [39] @ ly_name y @ [39])))))
      | Some i \<Rightarrow>
          if \<not> gs_defined (gs ! i)
          then Inl (Failed (Diag 5021 (take 511 (cstr ''linker: '' @
                  take 255 (cstr ''unresolved symbol '' @ [39] @ ly_name y @ [39])))))
          else Inr (gs_address (gs ! i)))"

text \<open>The field at \<open>position\<close> receives the value the type of the relocation asks for.\<close>

definition relocate_at ::
  "image_format \<Rightarrow> link_relocation \<Rightarrow> link_symbol \<Rightarrow> nat \<Rightarrow> nat \<Rightarrow>
     byte list \<times> image_relocation list \<Rightarrow> (diag, byte list \<times> image_relocation list) res" where
  "relocate_at format r y v position st =
     (case st of (payload, items) \<Rightarrow>
      if lr_type r = REL_DATA64 then
        (if format = IMAGE_RAW_COM
         then link_error 5022 None ''load-biased relocation is not valid in raw COM''
         else if position mod 8 \<noteq> 0
         then link_error 5032 None ''data relocation destination is not aligned''
         else case checked_add_signed v (lr_addend r) of
             None \<Rightarrow> link_error 5033 None ''data relocation is out of range''
           | Some target \<Rightarrow>
               (case append_image_relocation items position target of
                  None \<Rightarrow> link_error 5033 None ''data relocation is out of range''
                | Some items \<Rightarrow>
                    bindE (store payload position (write_u64 0)) (\<lambda>payload. Inr (payload, items))))
      else if lr_type r = REL_ABS32 \<or> lr_type r = REL_ABS64
      then link_error 5022 None ''absolute relocation is not load-safe''
      else if lr_type r = REL_PC32 then
        (case checked_add_signed v (lr_addend r) of
           None \<Rightarrow> link_error 5024 None ''PC-relative relocation overflow''
         | Some target \<Rightarrow>
             (let result = target - to_int64 (position + unat (lr_width r)) in
              if result < INT32_MIN \<or> result > INT32_MAX
              then link_error 5024 None ''PC-relative relocation overflow''
              else bindE (store payload position (write_u32 (word_of_int result))) (\<lambda>payload.
                   Inr (payload, items))))
      else if lr_type r = REL_SECTION32 then
        (case checked_add_signed (ly_original_value y) (lr_addend r) of
           None \<Rightarrow> link_error 5025 None ''section relocation overflow''
         | Some result \<Rightarrow>
             if result < 0 \<or> result > int UINT32_MAX
             then link_error 5025 None ''section relocation overflow''
             else bindE (store payload position (write_u32 (word_of_int result))) (\<lambda>payload.
                  Inr (payload, items)))
      else Inr (payload, items))"

definition apply_relocation ::
  "image_format \<Rightarrow> output_section list \<Rightarrow> global_symbol list \<Rightarrow> link_object \<Rightarrow> link_section \<Rightarrow>
     byte list \<times> image_relocation list \<Rightarrow> link_relocation \<Rightarrow>
     (diag, byte list \<times> image_relocation list) res" where
  "apply_relocation format outs gs ob s st r =
     bindE (index outs (ls_output_kind s)) (\<lambda>out.
     bindE (if (lr_type r = REL_ABS32 \<and> lr_width r \<noteq> 4) \<or> (lr_type r = REL_ABS64 \<and> lr_width r \<noteq> 8) \<or>
               (lr_type r = REL_PC32 \<and> lr_width r \<noteq> 4) \<or> (lr_type r = REL_SECTION32 \<and> lr_width r \<noteq> 4) \<or>
               (lr_type r = REL_DATA64 \<and> lr_width r \<noteq> 8)
            then link_error 5031 None ''relocation type and width do not match'' else Inr ()) (\<lambda>_.
     bindE (index (lo_symbols ob) (unat (lr_symbol_index r))) (\<lambda>y.
     bindE (reloc_value gs y) (\<lambda>v.
     let section_position = add64 (ls_output_offset s) (unat (lr_offset r)) in
     if ou_offset out > SIZE_MAX - section_position
     then link_error 5023 None ''relocation is outside output section'' else
     let position = ou_offset out + section_position in
     if position > length (fst st) \<or> unat (lr_width r) > length (fst st) - position
     then link_error 5023 None ''relocation is outside output section''
     else relocate_at format r y v position st))))"

definition apply_section ::
  "image_format \<Rightarrow> output_section list \<Rightarrow> global_symbol list \<Rightarrow> link_object \<Rightarrow>
     byte list \<times> image_relocation list \<Rightarrow> link_section \<Rightarrow>
     (diag, byte list \<times> image_relocation list) res" where
  "apply_section format outs gs ob st s =
     foldE (apply_relocation format outs gs ob s) st (ls_relocations s)"

definition apply_relocations ::
  "image_format \<Rightarrow> output_section list \<Rightarrow> global_symbol list \<Rightarrow>
     byte list \<Rightarrow> link_object list \<Rightarrow> (diag, byte list \<times> image_relocation list) res" where
  "apply_relocations format outs gs payload obs =
     foldE (\<lambda>st ob. foldE (apply_section format outs gs ob) st (lo_sections ob)) (payload, []) obs"

subsection \<open>The image\<close>

definition image_relocation_entry :: "image_relocation \<Rightarrow> byte list" where
  "image_relocation_entry r = write_u64 (of_nat (im_destination r)) @ write_u64 (word_of_int (im_addend r))"

definition mz64_header_fields :: "output_section \<Rightarrow> nat \<Rightarrow> nat \<Rightarrow> nat \<Rightarrow> (nat \<times> byte list) list" where
  "mz64_header_fields text payload_size memory_size n =
     [(0, cstr ''MZ64''), (4, write_u32 48), (8, write_u64 (of_nat payload_size)),
      (16, write_u32 (of_nat (ou_offset text))), (24, write_u32 (of_nat n)),
      (28, write_u32 (of_nat (48 + payload_size))), (32, write_u64 (of_nat memory_size))]"

definition linked_image ::
  "output_section list \<Rightarrow> byte list \<Rightarrow> image_format \<Rightarrow> image_relocation list \<Rightarrow> cstring \<Rightarrow>
     (diag, byte list) res" where
  "linked_image outs payload format items output =
     (case image_extents outs of None \<Rightarrow> Inl (Failed Silent)
      | Some (payload_size, memory_size) \<Rightarrow>
        bindE (index outs 0) (\<lambda>text.
        if memory_size > 16 * 1024 * 1024 \<or> payload_size > UINT32_MAX \<or> ou_offset text \<ge> payload_size
        then link_error 5034 (Some output) ''linked image exceeds target limits''
        else if length items > SIZE_MAX div 16 then Inl (Failed Silent) else
        let file_size = (if format = IMAGE_RAW_COM then memory_size
                         else (48 + payload_size + length items * 16) mod 2 ^ 64) in
        if file_size < payload_size \<or> file_size > UINT32_MAX
        then link_error 5034 (Some output) ''linked image size overflow'' else
        let image = replicate (max 1 file_size) 0 in
        if format = IMAGE_RAW_COM then
          bindE (if payload_size \<noteq> 0 then bindE (fetch payload 0 payload_size) (store image 0)
                 else Inr image) (\<lambda>image. Inr (take file_size image))
        else
          bindE (store_fields image 0 (mz64_header_fields text payload_size memory_size (length items)))
            (\<lambda>image.
          if 48 + payload_size > UINT32_MAX then Inl (Failed Silent) else
          bindE (if payload_size \<noteq> 0 then bindE (fetch payload 0 payload_size) (store image 48)
                 else Inr image) (\<lambda>image.
          bindE (foldE (\<lambda>image i. store image (48 + payload_size + i * 16)
                          (image_relocation_entry (items ! i))) image [0..<length items])
            (\<lambda>image. Inr (take file_size image))))))"

definition write_linked_image ::
  "(cstring \<Rightarrow> byte list \<Rightarrow> bool) \<Rightarrow> output_section list \<Rightarrow> byte list \<Rightarrow> image_format \<Rightarrow>
     image_relocation list \<Rightarrow> cstring \<Rightarrow> (diag, byte list) res" where
  "write_linked_image write_ok outs payload format items output =
     bindE (linked_image outs payload format items output) (\<lambda>image.
       if write_ok output image then Inr image
       else link_error 5029 (Some output)
              (if format = IMAGE_RAW_COM then ''cannot write raw image'' else ''cannot write MZ64 image''))"

subsection \<open>Checked signed addition\<close>

lemma checked_add_exact:
  assumes "v < 2 ^ 63" and "- (2 ^ 63) \<le> a" and "a < 2 ^ 63"
  shows "checked_add_signed v a = (if 0 \<le> int v + a \<and> int v + a < 2 ^ 63 then Some (int v + a) else None)"
proof (cases "0 \<le> a")
  case True
  with assms show ?thesis by (auto simp: checked_add_signed_def INT64_MAX_def Let_def)
next
  case False
  define m where "m = nat (- a)"
  have m: "nat (- (a + 1)) + 1 = m" "int m = - a" using False by (simp_all add: m_def)
  from assms(1) have v: "int v < 2 ^ 63" by simp
  show ?thesis using False m v by (auto simp: checked_add_signed_def INT64_MAX_def Let_def of_nat_diff)
qed

text \<open>
  On addresses below 2^63 the linker's checked addition is exact: it yields the mathematical sum
  when that is a nonnegative 64-bit signed value, and fails otherwise.
\<close>

lemma checked_add_signed_exact:
  assumes "v < 2 ^ 63" and "- (2 ^ 63) \<le> a" and "a < 2 ^ 63"
  shows "checked_add_signed v a = (if 0 \<le> int v + a \<and> int v + a < 2 ^ 63 then Some (int v + a) else None)"
  by (rule checked_add_exact [OF assms])

lemma checked_add_signed_exact_witness:
  "checked_add_signed 100 (-4) = Some 96 \<and> checked_add_signed 2 (-4) = None"
  using checked_add_signed_exact [of 100 "-4"] checked_add_signed_exact [of 2 "-4"] by simp

subsection \<open>The relocations left to the loader\<close>

lemma insert_position_le: "insert_position items d p \<le> p"
  by (induction p) auto

lemma insert_position_props:
  "sorted (map im_destination items) \<Longrightarrow> p \<le> length items \<Longrightarrow>
     (\<forall>i < insert_position items d p. im_destination (items ! i) \<le> d) \<and>
     (\<forall>i. insert_position items d p \<le> i \<and> i < p \<longrightarrow> d < im_destination (items ! i))"
proof (induction p)
  case 0
  then show ?case by simp
next
  case (Suc p)
  show ?case
  proof (cases "im_destination (items ! p) > d")
    case True
    with Suc show ?thesis by (auto simp: less_Suc_eq)
  next
    case False
    have "im_destination (items ! i) \<le> im_destination (items ! p)" if "i \<le> p" for i
      using Suc.prems sorted_nth_mono [of "map im_destination items" i p] that by simp
    with False show ?thesis by (auto simp: less_Suc_eq_le not_less) (meson le_trans)
  qed
qed

lemma append_image_relocation_ok:
  assumes "append_image_relocation items d a = Some items'" and "sorted (map im_destination items)"
  shows "sorted (map im_destination items')" "length items \<noteq> 2 ^ 59"
    and "mset items' = add_mset \<lparr>im_destination = d, im_addend = a\<rparr> (mset items)"
proof -
  let ?p = "insert_position items d (length items)"
  note P = insert_position_props [OF assms(2) order_refl, of d]
  have split: "mset items = mset (take ?p items) + mset (drop ?p items)"
    by (metis append_take_drop_id mset_append)
  have items': "items' = take ?p items @ [\<lparr>im_destination = d, im_addend = a\<rparr>] @ drop ?p items"
    using assms(1) by (simp add: append_image_relocation_def Let_def split: if_splits)
  show "mset items' = add_mset \<lparr>im_destination = d, im_addend = a\<rparr> (mset items)"
    by (subst split) (simp add: items')
  show "length items \<noteq> 2 ^ 59" using assms(1) by (auto simp: append_image_relocation_def)
  have "\<forall>x \<in> set (take ?p items). im_destination x \<le> d"
    using P by (auto simp: in_set_conv_nth)
  moreover have "\<forall>x \<in> set (drop ?p items). d \<le> im_destination x"
    using P by (auto simp: in_set_conv_nth intro!: less_imp_le)
  ultimately show "sorted (map im_destination items')"
    using assms(2) sorted_wrt_take [OF assms(2), of ?p] sorted_wrt_drop [OF assms(2), of ?p]
    by (fastforce simp: items' sorted_append take_map drop_map)
qed

subsection \<open>Extents and assembly\<close>

abbreviation ou_end :: "output_section \<Rightarrow> nat" where
  "ou_end out \<equiv> ou_offset out + ou_size out"

lemma image_extents_iff:
  "image_extents outs = Some (p, m) \<longleftrightarrow>
     (\<forall>i \<in> {0, 1, 2, 3}. \<not> ou_offset (outs ! i) > SIZE_MAX - ou_size (outs ! i)) \<and>
     p = max (ou_end (outs ! 0)) (max (ou_end (outs ! 1)) (ou_end (outs ! 2))) \<and>
     m = max p (ou_end (outs ! 3))"
proof -
  define step where "step = (\<lambda>acc i. Option.bind acc (\<lambda>(payload, memory).
        let out = outs ! i in
        if ou_offset out > SIZE_MAX - ou_size out then None
        else let e = ou_offset out + ou_size out
             in Some (if i \<noteq> 3 \<and> e > payload then e else payload, if e > memory then e else memory)))"
  have upt: "[0..<4] = [0, 1, 2, 3 :: nat]" by (simp add: upt_rec)
  have None: "step None i = None" for i by (simp add: step_def)
  have Some: "step (Some (q, k)) i = (if ou_offset (outs ! i) > SIZE_MAX - ou_size (outs ! i) then None
      else Some (if i \<noteq> 3 then max q (ou_end (outs ! i)) else q, max k (ou_end (outs ! i))))" for q k i
    by (simp add: step_def Let_def max_def)
  have all: "image_extents outs = step (step (step (step (Some (0, 0)) 0) 1) 2) 3"
    unfolding image_extents_def upt step_def [symmetric] by (simp only: foldl.simps)
  let ?bad = "\<lambda>i. ou_offset (outs ! i) > SIZE_MAX - ou_size (outs ! i)"
  show ?thesis
  proof (cases "?bad 0 \<or> ?bad 1 \<or> ?bad 2 \<or> ?bad 3")
    case True
    then show ?thesis unfolding all by (elim disjE) (simp_all add: None Some)
  next
    case False
    then have "image_extents outs = Some (max (max (max 0 (ou_end (outs ! 0))) (ou_end (outs ! 1))) (ou_end (outs ! 2)),
        max (max (max (max 0 (ou_end (outs ! 0))) (ou_end (outs ! 1))) (ou_end (outs ! 2))) (ou_end (outs ! 3)))"
      unfolding all by (simp add: Some)
    moreover have "max (max (max 0 a) b) c = max a (max b c)" for a b c :: nat by simp
    moreover have "(Some (x, max x y) = Some (p, m)) = (p = x \<and> m = max p y)" for x y :: nat by auto
    ultimately have "(image_extents outs = Some (p, m)) =
        (p = max (ou_end (outs ! 0)) (max (ou_end (outs ! 1)) (ou_end (outs ! 2))) \<and>
         m = max p (ou_end (outs ! 3)))" by (simp only:)
    moreover have "\<forall>i \<in> {0, 1, 2, 3}. \<not> ?bad i" using False by simp
    ultimately show ?thesis by blast
  qed
qed

lemma image_extents_Some:
  assumes "image_extents outs = Some (p, m)"
  shows "ou_end (outs ! 0) \<le> p" "ou_end (outs ! 1) \<le> p" "ou_end (outs ! 2) \<le> p"
    "p \<le> m" "ou_end (outs ! 3) \<le> m"
    "p = ou_end (outs ! 0) \<or> p = ou_end (outs ! 1) \<or> p = ou_end (outs ! 2)"
    "m = p \<or> m = ou_end (outs ! 3)"
  using assms unfolding image_extents_iff by (auto simp: max_def)

lemma flatten_step:
  assumes i: "i \<noteq> 3" "i < length outs" and fits: "ou_end (outs ! i) \<le> length payload"
    and data: "ou_size (outs ! i) = length (ou_data (outs ! i))" and lim: "length payload \<le> SIZE_MAX"
  shows "flatten_output outs (length payload) payload i =
    Inr (patch payload (ou_offset (outs ! i)) (ou_data (outs ! i)))"
proof (cases "ou_size (outs ! i) = 0")
  case True
  with i data show ?thesis by (simp add: flatten_output_def index_def patch_def)
next
  case False
  have "(length payload + 2 ^ 64 - ou_size (outs ! i)) mod 2 ^ 64 = length payload - ou_size (outs ! i)"
  proof -
    have "length payload + 2 ^ 64 - ou_size (outs ! i) = (length payload - ou_size (outs ! i)) + 2 ^ 64"
      using fits by simp
    moreover have "length payload - ou_size (outs ! i) < 2 ^ 64"
      using lim le_less_trans [OF diff_le_self, of "length payload" "2 ^ 64"] by (simp add: SIZE_MAX_def)
    ultimately show ?thesis by (metis mod_add_self2 mod_less)
  qed
  with i fits data False show ?thesis
    by (simp add: flatten_output_def index_def fetch_def store_def)
qed

lemma flatten_outputs_ok:
  assumes outs: "length outs = 4" "\<And>i. i < 3 \<Longrightarrow> ou_size (outs ! i) = length (ou_data (outs ! i))"
    and ext: "image_extents outs = Some (p, m)" "p \<le> SIZE_MAX"
    and order: "ou_end (outs ! 0) \<le> ou_offset (outs ! 1)" "ou_end (outs ! 1) \<le> ou_offset (outs ! 2)"
  shows "\<exists>payload. flatten_outputs outs p = Inr payload \<and> length payload = p \<and>
    (\<forall>i < 3. chunk payload (ou_offset (outs ! i)) (ou_size (outs ! i)) = ou_data (outs ! i))"
proof (cases "p = 0")
  case True
  have "ou_end (outs ! i) = 0" if "i < 3" for i
  proof -
    from that consider "i = 0" | "i = 1" | "i = 2" by linarith
    then show ?thesis using image_extents_Some(1-3) [OF ext(1)] True by cases auto
  qed
  then show ?thesis using True outs(2) by (auto simp: flatten_outputs_def chunk_def)
next
  case False
  let ?o = "\<lambda>i. ou_offset (outs ! i)" and ?d = "\<lambda>i. ou_data (outs ! i)"
  note E = image_extents_Some(1-3) [OF ext(1)]
  define p0 p1 p2 p3 where "p0 = replicate p (0 :: byte)" and "p1 = patch p0 (?o 0) (?d 0)"
    and "p2 = patch p1 (?o 1) (?d 1)" and "p3 = patch p2 (?o 2) (?d 2)"
  have len: "length p0 = p" "length p1 = p" "length p2 = p" "length p3 = p"
    using E outs(2) [of 0] outs(2) [of 1] outs(2) [of 2] by (simp_all add: p0_def p1_def p2_def p3_def)
  have step: "flatten_output outs p q i = Inr (patch q (?o i) (?d i))"
    if "length q = p" "i < 3" "ou_end (outs ! i) \<le> p" for q i
    using flatten_step [of i outs q] that outs ext(2) by simp
  have upt: "[0..<4] = [0, 1, 2, 3 :: nat]" by (simp add: upt_rec)
  have st: "flatten_output outs p p0 0 = Inr p1" "flatten_output outs p p1 1 = Inr p2"
    "flatten_output outs p p2 2 = Inr p3" "flatten_output outs p p3 3 = Inr p3"
    unfolding p1_def [symmetric] p2_def p3_def
    using step [OF len(1), of 0] step [OF len(2), of 1] step [OF len(3), of 2] E p1_def p2_def
    by (simp_all add: flatten_output_def [of _ _ _ 3])
  have "flatten_outputs outs p = Inr p3"
    unfolding flatten_outputs_def upt p0_def [symmetric] foldE.simps st bindE_simps using False by simp
  moreover have "chunk p3 (?o i) (ou_size (outs ! i)) = ?d i" if "i < 3" for i
  proof -
    have s: "ou_size (outs ! 0) = length (?d 0)" "ou_size (outs ! 1) = length (?d 1)"
      "ou_size (outs ! 2) = length (?d 2)" using outs(2) by simp_all
    from that consider "i = 0" | "i = 1" | "i = 2" by linarith
    then show ?thesis
    proof cases
      case 1
      have "chunk p3 (?o 0) (length (?d 0)) = chunk p2 (?o 0) (length (?d 0))"
        unfolding p3_def using E s order len by (intro chunk_patch_disjoint) simp_all
      also have "\<dots> = chunk p1 (?o 0) (length (?d 0))"
        unfolding p2_def using E s order len by (intro chunk_patch_disjoint) simp_all
      also have "\<dots> = ?d 0" unfolding p1_def using E s len by (intro chunk_patch_same) simp
      finally show ?thesis using 1 s by simp
    next
      case 2
      have "chunk p3 (?o 1) (length (?d 1)) = chunk p2 (?o 1) (length (?d 1))"
        unfolding p3_def using E s order len by (intro chunk_patch_disjoint) simp_all
      also have "\<dots> = ?d 1" unfolding p2_def using E s len by (intro chunk_patch_same) simp
      finally show ?thesis using 2 s by simp
    next
      case 3
      have "chunk p3 (?o 2) (length (?d 2)) = ?d 2"
        unfolding p3_def using E s len by (intro chunk_patch_same) simp
      then show ?thesis using 3 s by simp
    qed
  qed
  ultimately show ?thesis using len(4) by blast
qed

subsection \<open>One relocation\<close>

definition reloc_position :: "output_section list \<Rightarrow> link_section \<Rightarrow> link_relocation \<Rightarrow> nat" where
  "reloc_position outs s r =
     ou_offset (outs ! ls_output_kind s) + add64 (ls_output_offset s) (unat (lr_offset r))"

definition reloc_symbol :: "link_object \<Rightarrow> link_relocation \<Rightarrow> link_symbol" where
  "reloc_symbol ob r = lo_symbols ob ! unat (lr_symbol_index r)"

lemma bindE_store: "bindE (store payload k bs) f = Inr x \<longleftrightarrow>
   k + length bs \<le> length payload \<and> f (patch payload k bs) = Inr x"
  by (auto simp: store_def)

lemma apply_relocationD:
  assumes "apply_relocation format outs gs ob s (payload, items) r = Inr st'"
  obtains v where "ls_output_kind s < length outs" "unat (lr_symbol_index r) < length (lo_symbols ob)"
    "reloc_value gs (reloc_symbol ob r) = Inr v"
    "reloc_position outs s r + unat (lr_width r) \<le> length payload"
    "lr_type r = 3 \<or> lr_type r = 4 \<Longrightarrow> lr_width r = 4" "lr_type r = 5 \<Longrightarrow> lr_width r = 8"
    "relocate_at format r (reloc_symbol ob r) v (reloc_position outs s r) (payload, items) = Inr st'"
  using assms unfolding apply_relocation_def bindE_eq_Inr index_simps
proof (elim exE conjE, goal_cases)
  case (1 out u y v)
  let ?p = "reloc_position outs s r"
  from 1(8) have "\<not> (?p > length payload \<or> unat (lr_width r) > length payload - ?p)"
    "relocate_at format r y v ?p (payload, items) = Inr st'"
    by (simp_all add: Let_def reloc_position_def 1(3) split: if_split_asm)
  with 1 show ?case by (intro 1(1) [of v]) (auto simp: reloc_symbol_def split: if_splits)
qed

lemma relocate_at_cases:
  assumes "relocate_at format r y v p (payload, items) = Inr (payload', items')"
  shows "(lr_type r = 5 \<and> format \<noteq> IMAGE_RAW_COM \<and> p mod 8 = 0 \<and>
            (\<exists>t. checked_add_signed v (lr_addend r) = Some t \<and> p + 8 \<le> length payload \<and>
               payload' = patch payload p (write_u64 0) \<and> append_image_relocation items p t = Some items')) \<or>
         (lr_type r = 3 \<and> items' = items \<and>
            (\<exists>t d. checked_add_signed v (lr_addend r) = Some t \<and> p + 4 \<le> length payload \<and>
               d = t - to_int64 (p + unat (lr_width r)) \<and> INT32_MIN \<le> d \<and> d \<le> INT32_MAX \<and>
               payload' = patch payload p (write_u32 (word_of_int d)))) \<or>
         (lr_type r = 4 \<and> items' = items \<and>
            (\<exists>t. checked_add_signed (ly_original_value y) (lr_addend r) = Some t \<and> p + 4 \<le> length payload \<and>
               0 \<le> t \<and> t \<le> int UINT32_MAX \<and> payload' = patch payload p (write_u32 (word_of_int t)))) \<or>
         (lr_type r \<notin> {1, 2, 3, 4, 5} \<and> payload' = payload \<and> items' = items)"
proof -
  consider "lr_type r = 5" | "lr_type r = 1 \<or> lr_type r = 2" | "lr_type r = 3" | "lr_type r = 4"
    | "lr_type r \<notin> {1, 2, 3, 4, 5}" by blast
  then show ?thesis
    using assms
    by cases (auto simp: relocate_at_def bindE_store case_link_error Let_def not_less split: if_splits)
qed


text \<open>What the loader will be told: sorted, aligned, inside the payload, and nothing for a raw image.\<close>

definition items_ok :: "image_format \<Rightarrow> nat \<Rightarrow> image_relocation list \<Rightarrow> bool" where
  "items_ok format n items \<longleftrightarrow>
     sorted (map im_destination items) \<and> length items \<le> 2 ^ 59 \<and> (format = IMAGE_RAW_COM \<longrightarrow> items = []) \<and>
     (\<forall>r \<in> set items. 8 dvd im_destination r \<and> im_destination r + 8 \<le> n \<and>
        0 \<le> im_addend r)"

lemma items_ok_Nil [simp]: "items_ok format n []"
  by (simp add: items_ok_def)

lemma checked_add_nonneg:
  assumes "checked_add_signed v a = Some r" "- (2 ^ 63) \<le> a"
  shows "0 \<le> r"
proof (cases "0 \<le> a")
  case True
  with assms(1) show ?thesis by (auto simp: checked_add_signed_def Let_def split: if_splits)
next
  case False
  define m where "m = nat (- a)"
  have m: "nat (- (a + 1)) + 1 = m" "int m \<le> 2 ^ 63" using False assms(2) by (simp_all add: m_def)
  show ?thesis
    using False m assms(1) by (auto simp: checked_add_signed_def INT64_MAX_def Let_def of_nat_diff split: if_splits)
qed

lemma relocate_at_frame:
  assumes run: "relocate_at format r y v p (payload, items) = Inr (payload', items')"
    and items: "items_ok format (length payload) items"
    and r: "- (2 ^ 63) \<le> lr_addend r"
  shows "length payload' = length payload" "items_ok format (length payload') items'"
proof -
  note C = relocate_at_cases [OF run]
  have len: "length (write_u64 0) = 8" "length (write_u32 w) = 4" for w
    by (simp_all add: write_u32_eq_put write_u64_def write_u32_def)
  from C show l: "length payload' = length payload" by (auto simp: len)
  from C consider (data) t where "format \<noteq> IMAGE_RAW_COM" "p mod 8 = 0" "p + 8 \<le> length payload"
      "checked_add_signed v (lr_addend r) = Some t" "append_image_relocation items p t = Some items'"
    | (same) "items' = items" by (cases "items' = items") auto
  then show "items_ok format (length payload') items'"
  proof cases
    case data
    have "sorted (map im_destination items)" using items by (simp add: items_ok_def)
    note A = append_image_relocation_ok [OF data(5) this]
    have "set items' = insert \<lparr>im_destination = p, im_addend = t\<rparr> (set items)"
      using A(3) by (metis set_mset_add_mset_insert set_mset_mset)
    moreover have "length items' = Suc (length items)" using arg_cong [OF A(3), of size] by simp
    moreover have "length items \<le> 2 ^ 59" using items by (simp add: items_ok_def)
    ultimately show ?thesis using A(1,2) data items checked_add_nonneg [OF data(4) r] l
      by (auto simp: items_ok_def dvd_eq_mod_eq_0)
  next
    case same
    with items l show ?thesis by simp
  qed
qed

lemma to_int64_small:
  assumes "v < 2 ^ 63"
  shows "to_int64 v = int v"
proof -
  have "int v < 2 ^ 63" using assms by simp
  then have "signed_take_bit 63 (int v) = int v" by (intro signed_take_bit_int_eq_self) simp_all
  then show ?thesis by (simp add: to_int64_def signed_of_nat)
qed

lemma sint_u32_word_of_int:
  assumes "INT32_MIN \<le> d" "d \<le> INT32_MAX"
  shows "sint (word_of_int d :: u32) = d"
proof -
  have "signed_take_bit 31 d = d" using assms
    by (intro signed_take_bit_int_eq_self) (simp_all add: INT32_MIN_def INT32_MAX_def)
  then show ?thesis by (simp add: signed_of_int)
qed

lemma read_u32_patched:
  assumes "p + 4 \<le> length payload"
  shows "read_u32 (chunk (patch payload p (write_u32 w)) p 4) = w"
proof -
  have "chunk (patch payload p (put_u32 w)) p (length (put_u32 w)) = put_u32 w"
    using assms by (intro chunk_patch_same) simp
  then show ?thesis by (simp add: write_u32_eq_put u32.dec_enc_nil)
qed

text \<open>
  C19. A PC-relative relocation stores the signed distance the processor needs: the address after the
  field plus the stored displacement is the target address plus the addend, and no other byte of
  the payload and no loader relocation changes.
\<close>

theorem pc_relative_exact:
  assumes "relocate_at format r y v p (payload, items) = Inr (payload', items')"
    and "lr_type r = REL_PC32" "lr_width r = 4" "v < 2 ^ 63" "p + 4 < 2 ^ 63"
    and "- (2 ^ 63) \<le> lr_addend r" "lr_addend r < 2 ^ 63"
  shows "int (p + 4) + sint (read_u32 (chunk payload' p 4)) = int v + lr_addend r \<and>
    items' = items \<and> length payload' = length payload \<and>
    take p payload' = take p payload \<and> drop (p + 4) payload' = drop (p + 4) payload"
proof -
  from relocate_at_cases [OF assms(1)] assms(2,3) obtain t d where
    t: "checked_add_signed v (lr_addend r) = Some t" and p: "p + 4 \<le> length payload"
    and d: "d = t - to_int64 (p + 4)" "INT32_MIN \<le> d" "d \<le> INT32_MAX"
    and payload': "payload' = patch payload p (write_u32 (word_of_int d))" and "items' = items" by auto
  from t have "t = int v + lr_addend r"
    using checked_add_exact [OF assms(4,6,7)] by (simp split: if_splits)
  moreover have "to_int64 (p + 4) = int (p + 4)" by (rule to_int64_small [OF assms(5)])
  moreover have "sint (read_u32 (chunk payload' p 4)) = d"
    unfolding payload' read_u32_patched [OF p] by (rule sint_u32_word_of_int [OF d(2,3)])
  moreover have "length (write_u32 (word_of_int d)) = 4" by (simp add: write_u32_def)
  ultimately show ?thesis using d(1) \<open>items' = items\<close> p by (simp add: payload' patch_def)
qed

theorem pc_relative_exact_witness:
  "let r = \<lparr>lr_offset = 2, lr_symbol_index = 0, lr_type = 3, lr_addend = -4 + 4, lr_width = 4\<rparr>;
       y = \<lparr>ly_name = [], ly_value = 0, ly_original_value = 0, ly_section_index = 0, ly_binding = 0,
            ly_kind = 0, ly_size = 0, ly_defined = True\<rparr>
   in relocate_at IMAGE_MZ64 r y 1 2 ([1, 2, 3, 4, 5, 6, 7], []) = Inr ([1, 2, 251, 255, 255, 255, 7], []) \<and>
      int (2 + 4) + sint (read_u32 (chunk [1, 2, 251, 255, 255, 255, 7] 2 4)) = 1"
proof -
  let ?r = "\<lparr>lr_offset = 2, lr_symbol_index = 0, lr_type = 3, lr_addend = 0, lr_width = 4\<rparr>"
  let ?y = "\<lparr>ly_name = [], ly_value = 0, ly_original_value = 0, ly_section_index = 0, ly_binding = 0,
            ly_kind = 0, ly_size = 0, ly_defined = True\<rparr>"
  have "relocate_at IMAGE_MZ64 ?r ?y 1 2 ([1, 2, 3, 4, 5, 6, 7], []) = Inr ([1, 2, 251, 255, 255, 255, 7], [])"
    by (simp add: relocate_at_def checked_add_signed_def INT64_MAX_def to_int64_def INT32_MIN_def INT32_MAX_def
        store_def patch_def write_u32_eq_put put_u32_def)
  then show ?thesis using pc_relative_exact [of IMAGE_MZ64 ?r ?y 1 2] by simp
qed

subsection \<open>All relocations\<close>

definition image_state_ok :: "image_format \<Rightarrow> nat \<Rightarrow> byte list \<times> image_relocation list \<Rightarrow> bool" where
  "image_state_ok format n st \<longleftrightarrow> length (fst st) = n \<and> items_ok format n (snd st)"

definition relocs_in_range :: "nat \<Rightarrow> link_object \<Rightarrow> bool" where
  "relocs_in_range n ob \<longleftrightarrow> (\<forall>s \<in> set (lo_sections ob). ls_output_kind s < n \<and>
     (\<forall>r \<in> set (ls_relocations s). link_reloc_ok (length (lo_symbols ob)) (ls_size s) r))"

lemma apply_relocation_frame:
  assumes "apply_relocation format outs gs ob s st r = Inr st'" "image_state_ok format n st"
    "link_reloc_ok m sz r"
  shows "image_state_ok format n st'"
proof -
  obtain payload items payload' items' where st: "st = (payload, items)" "st' = (payload', items')"
    by (cases st, cases st') blast
  from assms(1) [unfolded st] obtain v where
    "relocate_at format r (reloc_symbol ob r) v (reloc_position outs s r) (payload, items) = Inr (payload', items')"
    by (rule apply_relocationD) blast
  from relocate_at_frame [OF this] assms(2,3) show ?thesis
    by (auto simp: image_state_ok_def link_reloc_ok_def st)
qed

lemma apply_relocations_frame:
  assumes "apply_relocations format outs gs payload obs = Inr st" and "\<forall>ob \<in> set obs. relocs_in_range k ob"
  shows "image_state_ok format (length payload) st"
  using assms(1) [unfolded apply_relocations_def]
proof (rule foldE_invariant)
  show "image_state_ok format (length payload) (payload, [])" by (simp add: image_state_ok_def)
next
  fix st ob st' assume st: "image_state_ok format (length payload) st" and ob: "ob \<in> set obs"
    and run: "foldE (apply_section format outs gs ob) st (lo_sections ob) = Inr st'"
  from run st show "image_state_ok format (length payload) st'"
  proof (rule foldE_invariant)
    fix st s st' assume st: "image_state_ok format (length payload) st" and s: "s \<in> set (lo_sections ob)"
      and run: "apply_section format outs gs ob st s = Inr st'"
    from run [unfolded apply_section_def] st show "image_state_ok format (length payload) st'"
      by (rule foldE_invariant) (use assms(2) ob s in \<open>auto simp: relocs_in_range_def intro: apply_relocation_frame\<close>)
  qed
qed

lemma relocate_at_safe:
  assumes "p + unat (lr_width r) \<le> length (fst st)"
    "lr_type r = 3 \<or> lr_type r = 4 \<Longrightarrow> lr_width r = 4" "lr_type r = 5 \<Longrightarrow> lr_width r = 8"
  shows "safe (relocate_at format r y v p st)"
  using assms unfolding relocate_at_def case_prod_beta Let_def
  by (intro safe_if safe_case_option safe_bindE) simp_all

lemma apply_relocation_safe:
  assumes "ls_output_kind s < length outs" "link_reloc_ok (length (lo_symbols ob)) sz r"
  shows "safe (apply_relocation format outs gs ob s st r)"
proof -
  obtain payload items where st: "st = (payload, items)" by (cases st)
  have y: "unat (lr_symbol_index r) < length (lo_symbols ob)" using assms(2) by (simp add: link_reloc_ok_def)
  have v: "safe (reloc_value gs (lo_symbols ob ! i))" for i
    unfolding reloc_value_def by (intro safe_if safe_case_option) simp_all
  show ?thesis unfolding apply_relocation_def Let_def st
    by (intro safe_bindE safe_if relocate_at_safe) (use assms y v in \<open>auto split: if_splits\<close>)
qed

lemma apply_relocations_safe:
  assumes "\<forall>ob \<in> set obs. relocs_in_range (length outs) ob"
  shows "safe (apply_relocations format outs gs payload obs)"
  unfolding apply_relocations_def apply_section_def
proof (intro safe_foldE)
  fix st st' st'' ob s r assume "ob \<in> set obs" "s \<in> set (lo_sections ob)" "r \<in> set (ls_relocations s)"
  with assms show "safe (apply_relocation format outs gs ob s st'' r)"
    by (intro apply_relocation_safe [where sz = "ls_size s"]) (auto simp: relocs_in_range_def)
qed

subsection \<open>Writing the image\<close>

definition mz64_header :: "nat \<Rightarrow> nat \<Rightarrow> nat \<Rightarrow> nat \<Rightarrow> byte list" where
  "mz64_header entry payload_size memory_size n =
     cstr ''MZ64'' @ write_u32 48 @ write_u64 (of_nat payload_size) @ write_u32 (of_nat entry) @
     replicate 4 0 @ write_u32 (of_nat n) @ write_u32 (of_nat (48 + payload_size)) @
     write_u64 (of_nat memory_size) @ replicate 8 0"

definition mz64_image :: "nat \<Rightarrow> nat \<Rightarrow> image_relocation list \<Rightarrow> byte list \<Rightarrow> byte list" where
  "mz64_image entry memory_size items payload =
     mz64_header entry (length payload) memory_size (length items) @ payload @
     concat (map image_relocation_entry items)"

lemma length_mz64 [simp]:
  "length (mz64_header e p m n) = 48" "length (image_relocation_entry r) = 16"
  by (simp_all add: mz64_header_def image_relocation_entry_def cstr_def)

lemma length_entries [simp]: "length (concat (map image_relocation_entry items)) = length items * 16"
  by (induction items) simp_all

lemma store_entries:
  "foldE (\<lambda>image i. store image (length a + i * 16) (image_relocation_entry (items ! i)))
       (a @ concat (map image_relocation_entry (take k items)) @ replicate ((length items - k) * 16) 0) [k..<length items] =
     Inr (a @ concat (map image_relocation_entry items))" if "k \<le> length items"
  using that
proof (induction "length items - k" arbitrary: k)
  case 0
  then show ?case by simp
next
  case (Suc n)
  then have k: "k < length items" by simp
  then have "replicate ((length items - k) * 16) (0 :: byte) = replicate 16 0 @ replicate ((length items - Suc k) * 16) 0"
    by (simp add: replicate_add [symmetric] Suc_diff_Suc [symmetric] del: replicate_add)
  then have st: "store (a @ concat (map image_relocation_entry (take k items)) @ replicate ((length items - k) * 16) 0)
      (length a + k * 16) (image_relocation_entry (items ! k)) =
    Inr (a @ concat (map image_relocation_entry (take (Suc k) items)) @ replicate ((length items - Suc k) * 16) 0)"
    using store_mid [of "a @ concat (map image_relocation_entry (take k items))" "length a + k * 16"
      "replicate 16 0" "image_relocation_entry (items ! k)" "replicate ((length items - Suc k) * 16) 0"] k
    by (simp add: take_Suc_conv_app_nth)
  have "n = length items - Suc k" "Suc k \<le> length items" using Suc.hyps(2) k by simp_all
  from Suc.hyps(1) [OF this] show ?case
    unfolding upt_conv_Cons [OF k] foldE.simps st bindE_simps .
qed

lemma store_header:
  "store_fields (replicate (48 + n) 0) 0 (mz64_header_fields text p m k) =
     (Inr (mz64_header (ou_offset text) p m k @ replicate n 0) :: (diag, byte list) res)"
proof -
  have "store_fields (replicate (48 + n) 0) 0 (mz64_header_fields text p m k) =
     (Inr (patch (patch (patch (patch (patch (patch (patch (replicate (48 + n) 0)
        0 (cstr ''MZ64'')) 4 (write_u32 48)) 8 (write_u64 (of_nat p))) 16 (write_u32 (of_nat (ou_offset text))))
        24 (write_u32 (of_nat k))) 28 (write_u32 (of_nat (48 + p)))) 32 (write_u64 (of_nat m))) :: (diag, byte list) res)"
    by (simp add: store_fields_def mz64_header_fields_def store_def cstr_def)
  also have "\<dots> = Inr (mz64_header (ou_offset text) p m k @ replicate n 0)"
    by (simp add: patch_def mz64_header_def cstr_def replicate_add [symmetric])
  finally show ?thesis .
qed

end
