(* ===== verification/Link_MZ64.thy ===== *)
theory Link_MZ64
  imports Link_Image
begin

text \<open>
  The image \<open>write_linked_image\<close> (\<open>src/src/linker/linker.c\<close>) builds, in closed form, and the
  reader's side of the MZ64 contract: what \<open>linked_image\<close> writes loads as it was linked.
\<close>


text \<open>
  The image in closed form, once the limits hold: for a raw image the payload followed by the
  zeroed memory, for MZ64 the header, the payload and the relocation table.
\<close>

lemma linked_image_run:
  assumes outs: "length outs = 4" "image_extents outs = Some (p, m)" and p: "length payload = p"
    and items: "length items \<le> 2 ^ 59"
  shows "linked_image outs payload format items output =
     (if m > 16 * 1024 * 1024 \<or> p > UINT32_MAX \<or> ou_offset (outs ! 0) \<ge> p
      then link_error 5034 (Some output) ''linked image exceeds target limits''
      else if (if format = IMAGE_RAW_COM then m else 48 + p + length items * 16) > UINT32_MAX
      then link_error 5034 (Some output) ''linked image size overflow''
      else Inr (if format = IMAGE_RAW_COM then payload @ replicate (m - p) 0
               else mz64_image (ou_offset (outs ! 0)) m items payload))"
    (is "_ = (if ?bad then _ else if ?size > _ then _ else ?good)")
proof -
  have pm: "p \<le> m" by (rule image_extents_Some(4) [OF outs(2)])
  show ?thesis
  proof (cases "?bad")
    case True
    with outs show ?thesis unfolding linked_image_def outs(2) option.case prod.case by (simp add: index_def)
  next
    case ok: False
    have few: "\<not> length items > SIZE_MAX div 16" using items by (simp add: SIZE_MAX_def)
    have "48 + p + length items * 16 < 2 ^ 64" using ok items by (simp add: UINT32_MAX_def)
    then have sz: "(48 + p + length items * 16) mod 2 ^ 64 = 48 + p + length items * 16" by simp
    show ?thesis
    proof (cases "?size > UINT32_MAX")
      case True
      with ok few sz outs pm show ?thesis
        unfolding linked_image_def outs(2) option.case prod.case
        by (cases "format = IMAGE_RAW_COM") (simp_all add: index_def Let_def)
    next
      case False
      show ?thesis
      proof (cases "format = IMAGE_RAW_COM")
        case True
        have "store (replicate m 0) 0 payload = Inr (payload @ replicate (m - p) 0)"
          using p pm by (simp add: store_def patch_def)
        with True False ok few outs pm p show ?thesis
          unfolding linked_image_def outs(2) option.case prod.case
          by (simp add: index_def Let_def fetch_def max_def chunk_def)
      next
        case mz: False
        let ?h = "mz64_header (ou_offset (outs ! 0)) p m (length items)"
        have 1: "store_fields (replicate (48 + p + length items * 16) 0) 0 (mz64_header_fields (outs ! 0) p m (length items)) =
            (Inr (?h @ replicate (p + length items * 16) 0) :: (diag, byte list) res)"
          using store_header [of "p + length items * 16" "outs ! 0" p m "length items"] by (simp only: add.assoc)
        have 2: "store (?h @ replicate (p + length items * 16) 0) 48 payload =
            (Inr (?h @ payload @ replicate (length items * 16) 0) :: (diag, byte list) res)"
          unfolding replicate_add by (rule store_mid) (simp_all add: p)
        have 3: "foldE (\<lambda>image i. store image (48 + p + i * 16) (image_relocation_entry (items ! i)))
            (?h @ payload @ replicate (length items * 16) 0) [0..<length items] =
            (Inr (mz64_image (ou_offset (outs ! 0)) m items payload) :: (diag, byte list) res)"
          using store_entries [of 0 items "?h @ payload"] by (simp add: p mz64_image_def)
        have "max 1 (48 + p + length items * 16) = 48 + p + length items * 16" by simp
        moreover have "48 + p \<le> UINT32_MAX" using False mz by simp
        moreover have "take (48 + p + length items * 16) (mz64_image (ou_offset (outs ! 0)) m items payload) =
            mz64_image (ou_offset (outs ! 0)) m items payload" by (simp add: mz64_image_def p)
        moreover have "p \<noteq> 0" using ok by simp
        ultimately show ?thesis using False ok few sz outs(1) mz p
          unfolding linked_image_def outs(2) option.case prod.case
          by (simp add: index_def Let_def 1 2 3 fetch_def chunk_def del: replicate.simps)
      qed
    qed
  qed
qed

lemma linked_image_eq:
  assumes "length outs = 4" and ext: "image_extents outs = Some (p, m)" and p: "length payload = p"
    and "length items \<le> 2 ^ 59"
  shows "safe (linked_image outs payload format items output)"
    and "linked_image outs payload format items output = Inr img \<Longrightarrow>
      m \<le> 16 * 1024 * 1024 \<and> ou_offset (outs ! 0) < p \<and>
      img = (if format = IMAGE_RAW_COM then payload @ replicate (m - p) 0
               else mz64_image (ou_offset (outs ! 0)) m items payload) \<and> length img \<le> UINT32_MAX"
proof -
  note run = linked_image_run [OF assms, of format "output"]
  have pm: "p \<le> m" by (rule image_extents_Some(4) [OF ext])
  show "safe (linked_image outs payload format items output)" unfolding run by simp
  let ?bad = "m > 16 * 1024 * 1024 \<or> p > UINT32_MAX \<or> ou_offset (outs ! 0) \<ge> p"
  let ?size = "if format = IMAGE_RAW_COM then m else 48 + p + length items * 16"
  let ?good = "Inr (if format = IMAGE_RAW_COM then payload @ replicate (m - p) 0
               else mz64_image (ou_offset (outs ! 0)) m items payload) :: (diag, byte list) res"
  assume "linked_image outs payload format items output = Inr img"
  then have "\<not> ?bad" "\<not> ?size > UINT32_MAX" "?good = Inr img"
    unfolding run by (simp_all split: if_splits)
  then show "m \<le> 16 * 1024 * 1024 \<and> ou_offset (outs ! 0) < p \<and>
      img = (if format = IMAGE_RAW_COM then payload @ replicate (m - p) 0
               else mz64_image (ou_offset (outs ! 0)) m items payload) \<and> length img \<le> UINT32_MAX"
    using pm p by (auto simp: mz64_image_def)
qed

subsection \<open>The loader's view\<close>

text \<open>
  A reference reading of the MZ64 contract (\<open>src/docs/specs/mz64-v1.md\<close>): the checks of the
  header, the payload, the entry offset, the memory size and the slots of the relocation records, as far
  as they can be made on the file; and the loader, which also rejects a record whose represented value,
  the load address plus the addend, is not eight-byte aligned. The load address is a multiple of eight,
  \<open>0x2a0\<close> behind the start of a paragraph.
\<close>

record loaded_image =
  ld_payload :: "byte list"
  ld_entry :: nat
  ld_memory :: nat
  ld_relocations :: "(nat \<times> int) list"

definition mz64_read :: "byte list \<Rightarrow> loaded_image option" where
  "mz64_read bs =
     (let payload_size = unat (read_u64 (chunk bs 8 8)); entry = unat (read_u32 (chunk bs 16 4));
          n = unat (read_u32 (chunk bs 24 4)); table = unat (read_u32 (chunk bs 28 4));
          memory = unat (read_u64 (chunk bs 32 8));
          relocs = map (\<lambda>i. (unat (read_u64 (chunk bs (table + i * 16) 8)),
                             read_i64 (chunk bs (table + i * 16 + 8) 8))) [0..<n]
      in if 48 \<le> length bs \<and> chunk bs 0 4 = cstr ''MZ64'' \<and> read_u32 (chunk bs 4 4) = 48 \<and>
            48 + payload_size \<le> table \<and> table + n * 16 = length bs \<and> entry < payload_size \<and>
            payload_size \<le> memory \<and> memory \<le> 16 * 1024 * 1024 \<and>
            read_u32 (chunk bs 20 4) = 0 \<and> read_u64 (chunk bs 40 8) = 0 \<and>
            (\<forall>(d, a) \<in> set relocs. 8 dvd d \<and> d + 8 \<le> memory)
         then Some \<lparr>ld_payload = chunk bs 48 payload_size, ld_entry = entry, ld_memory = memory,
                    ld_relocations = relocs\<rparr>
         else None)"

definition mz64_load :: "byte list \<Rightarrow> loaded_image option" where
  "mz64_load bs =
     (case mz64_read bs of None \<Rightarrow> None
      | Some ld \<Rightarrow> if \<forall>(d, a) \<in> set (ld_relocations ld). 8 dvd a then Some ld else None)"

lemma chunk_at: "length a = k \<Longrightarrow> length b = n \<Longrightarrow> chunk (a @ b @ c) k n = b"
  by (simp add: chunk_def)

lemma read_written:
  "read_u32 (write_u32 w) = w" "read_u64 (write_u64 x) = x"
proof -
  have "write_u64 x = put_u64 x" by (simp add: write_u64_def put_u64_def upt_rec)
  then show "read_u64 (write_u64 x) = x" by (simp add: u64.dec_enc_nil)
  show "read_u32 (write_u32 w) = w" by (simp add: write_u32_eq_put u32.dec_enc_nil)
qed

lemma header_chunks:
  "chunk (mz64_header e p m n @ c) 0 4 = cstr ''MZ64''"
  "chunk (mz64_header e p m n @ c) 4 4 = write_u32 48"
  "chunk (mz64_header e p m n @ c) 8 8 = write_u64 (of_nat p)"
  "chunk (mz64_header e p m n @ c) 16 4 = write_u32 (of_nat e)"
  "chunk (mz64_header e p m n @ c) 20 4 = replicate 4 0"
  "chunk (mz64_header e p m n @ c) 24 4 = write_u32 (of_nat n)"
  "chunk (mz64_header e p m n @ c) 28 4 = write_u32 (of_nat (48 + p))"
  "chunk (mz64_header e p m n @ c) 32 8 = write_u64 (of_nat m)"
  "chunk (mz64_header e p m n @ c) 40 8 = replicate 8 0"
  by (simp_all add: mz64_header_def chunk_def cstr_def)


lemma entries_read:
  assumes "length a = k" "i < length items" 
  shows "chunk (a @ concat (map image_relocation_entry items)) (k + i * 16) 8 =
           write_u64 (of_nat (im_destination (items ! i)))"
    and "chunk (a @ concat (map image_relocation_entry items)) (k + i * 16 + 8) 8 =
           write_u64 (word_of_int (im_addend (items ! i)))"
proof -
  let ?c = "concat (map image_relocation_entry items)"
  have "chunk ?c (i * 16) 16 = image_relocation_entry (items ! i)"
    using chunk_concat [of "map image_relocation_entry items" 16 i] assms(2) by simp
  moreover have "chunk (chunk ?c (i * 16) 16) j 8 = chunk ?c (i * 16 + j) 8" if "j + 8 \<le> 16" for j
    by (rule chunk_chunk [OF that])
  ultimately have e: "chunk ?c (i * 16 + j) 8 = chunk (image_relocation_entry (items ! i)) j 8"
    if "j + 8 \<le> 16" for j using that by simp
  show "chunk (a @ ?c) (k + i * 16) 8 = write_u64 (of_nat (im_destination (items ! i)))"
    using e [of 0] assms(1) by (simp add: chunk_append2 image_relocation_entry_def chunk_def)
  show "chunk (a @ ?c) (k + i * 16 + 8) 8 = write_u64 (word_of_int (im_addend (items ! i)))"
    using e [of 8] assms(1) by (simp add: chunk_append2 image_relocation_entry_def chunk_def add.assoc)
qed

lemma mz64_read_image:
  assumes "entry < length payload" "length payload \<le> m" "m \<le> 16 * 1024 * 1024"
    and len: "length (mz64_image entry m items payload) \<le> UINT32_MAX"
    and items: "items_ok IMAGE_MZ64 (length payload) items"
  shows "mz64_read (mz64_image entry m items payload) = Some \<lparr>ld_payload = payload, ld_entry = entry,
     ld_memory = m, ld_relocations = map (\<lambda>r. (im_destination r, sint (word_of_int (im_addend r) :: u64))) items\<rparr>"
proof -
  let ?p = "length payload" and ?n = "length items" and ?c = "concat (map image_relocation_entry items)"
  let ?h = "mz64_header entry ?p m ?n" and ?img = "mz64_image entry m items payload"
  have img: "?img = ?h @ (payload @ ?c)" "?img = (?h @ payload) @ ?c" by (simp_all add: mz64_image_def)
  have small: "48 + ?p + ?n * 16 < 2 ^ 32" using len by (simp add: img UINT32_MAX_def)
  have u: "unat (of_nat ?p :: u64) = ?p" "unat (of_nat entry :: u32) = entry" "unat (of_nat ?n :: u32) = ?n"
    "unat (of_nat (48 + ?p) :: u32) = 48 + ?p" "unat (of_nat m :: u64) = m"
    using small assms by (simp_all only: unat_of_nat) simp_all
  note H = header_chunks [of entry ?p m ?n "payload @ ?c", folded img(1)]
  have dest: "im_destination r < 2 ^ 64" if "r \<in> set items" for r
    using items that small by (fastforce simp: items_ok_def)
  have e: "unat (read_u64 (chunk ?img (48 + ?p + i * 16) 8)) = im_destination (items ! i)"
    "read_i64 (chunk ?img (48 + ?p + i * 16 + 8) 8) = sint (word_of_int (im_addend (items ! i)) :: u64)"
    if "i < ?n" for i
    using entries_read [of "?h @ payload" "48 + ?p" i items, folded img(2)] that dest [of "items ! i"]
    by (simp_all add: read_written read_i64_def unat_of_nat)
  have relocs: "map (\<lambda>i. (unat (read_u64 (chunk ?img (48 + ?p + i * 16) 8)),
        read_i64 (chunk ?img (48 + ?p + i * 16 + 8) 8))) [0..<?n] =
      map (\<lambda>r. (im_destination r, sint (word_of_int (im_addend r) :: u64))) items"
    by (rule nth_equalityI) (simp_all only: length_map length_upt nth_map nth_upt e minus_nat.diff_0 add_0)
  have ok: "\<forall>(d, a) \<in> set (map (\<lambda>r. (im_destination r, sint (word_of_int (im_addend r) :: u64))) items).
      8 dvd d \<and> d + 8 \<le> m"
    using items assms(2) by (fastforce simp: items_ok_def)
  have zero: "read_u32 (replicate 4 0) = 0" "read_u64 (replicate 8 0) = 0"
    using read_written(1) [of 0] read_written(2) [of 0] by (simp_all add: write_u32_def write_u64_def map_replicate_const)
  have data: "chunk ?img 48 ?p = payload" by (simp add: img(1) chunk_at)
  show ?thesis
    unfolding mz64_read_def H read_written u relocs Let_def data zero using assms ok
    by (simp add: img)
qed

end
