(* ===== verification/Linker.thy ===== *)
theory Linker
  imports Link_MZ64
begin

text \<open>
  \<open>link_objects\<close> of \<open>src/src/linker/linker.c\<close>: every object is read (and, on request, removed)
  in order, its sections are placed behind the entry trampoline, symbols are resolved, the payload
  is assembled and relocated, the call of the trampoline is patched to the startup routine and the
  image is written.
\<close>

text \<open>The file system the linker sees: what reading, removing and writing a path does.\<close>

record link_env =
  env_files :: "cstring \<Rightarrow> file_result"
  env_remove :: "cstring \<Rightarrow> bool"
  env_write :: "cstring \<Rightarrow> byte list \<Rightarrow> bool"

fun load_objects :: "link_env \<Rightarrow> bool \<Rightarrow> cstring list \<Rightarrow> (diag, link_object list) res" where
  "load_objects env release [] = Inr []"
| "load_objects env release (path # paths) =
     bindE (read_object_file (env_files env) path) (\<lambda>ob.
     if release \<and> \<not> env_remove env path
     then link_error 5043 (Some path) ''cannot release object after reading it''
     else let env' = (if release then env\<lparr>env_files := (env_files env)(path := CannotOpen)\<rparr> else env)
          in bindE (load_objects env' release paths) (\<lambda>obs. Inr (ob # obs)))"

definition place_objects :: "link_object list \<Rightarrow> (diag, output_section list \<times> link_object list) res" where
  "place_objects obs =
     bindE (index initial_outputs 0) (\<lambda>text.
     bindE (of_option Silent (output_append text entry_stub)) (\<lambda>text.
     bindE (put_objects (initial_outputs[0 := text]) obs) (\<lambda>(outs, obs).
     bindE (assign_bases 0 outs) (\<lambda>outs. Inr (outs, obs)))))"

definition patch_entry ::
  "output_section list \<Rightarrow> global_symbol list \<Rightarrow> cstring \<Rightarrow> byte list \<Rightarrow> (diag, byte list) res" where
  "patch_entry outs gs output payload =
     (let defined = (\<lambda>name. case find_global gs name of None \<Rightarrow> None
                            | Some i \<Rightarrow> if gs_defined (gs ! i) then Some (gs ! i) else None) in
      case defined (cstr ''main'') of None \<Rightarrow> link_error 5027 (Some output) ''undefined main symbol''
      | Some _ \<Rightarrow>
      (case defined (cstr ''cc64_start'') of
         None \<Rightarrow> link_error 5042 (Some output) ''undefined target startup symbol''
       | Some start \<Rightarrow>
         bindE (index outs 0) (\<lambda>text.
         let field = add64 (ou_offset text) CC64_ENTRY_CALL_FIELD;
             displacement = to_int64 (gs_address start) - to_int64 (add64 field 4) in
         if field > length payload \<or> 4 > length payload - field
         then link_error 5028 (Some output) ''entry trampoline overflow''
         else if displacement < INT32_MIN \<or> displacement > INT32_MAX
         then link_error 5028 (Some output) ''entry trampoline overflow''
         else store payload field (write_u32 (word_of_int displacement)))))"

definition link_loaded ::
  "link_env \<Rightarrow> image_format \<Rightarrow> cstring \<Rightarrow> link_object list \<Rightarrow> (diag, byte list) res" where
  "link_loaded env format output obs =
     bindE (place_objects obs) (\<lambda>(outs, obs).
     bindE (resolve_symbols (outs, []) obs) (\<lambda>((outs, gs), obs).
     case image_extents outs of
       None \<Rightarrow> link_error 5034 (Some output) ''linked image exceeds target limits''
     | Some (payload_size, memory_size) \<Rightarrow>
       (case flatten_outputs outs payload_size of
          Inl OutOfBounds \<Rightarrow> Inl OutOfBounds
        | Inl (Failed _) \<Rightarrow> link_error 5034 (Some output) ''linked image exceeds target limits''
        | Inr payload \<Rightarrow>
          bindE (apply_relocations format outs gs payload obs) (\<lambda>(payload, items).
          bindE (patch_entry outs gs output payload) (\<lambda>payload.
          write_linked_image (env_write env) outs payload format items output)))))"

definition link_objects ::
  "link_env \<Rightarrow> cstring list \<Rightarrow> cstring option \<Rightarrow> image_format \<Rightarrow> bool \<Rightarrow> (diag, byte list) res" where
  "link_objects env objects output format release_inputs =
     (case output of
        None \<Rightarrow> link_error 5041 output ''linker requires objects and output''
      | Some out \<Rightarrow>
          if objects = [] then link_error 5041 output ''linker requires objects and output''
          else bindE (load_objects env release_inputs objects) (link_loaded env format out))"

subsection \<open>Placement\<close>

text \<open>The outputs once placed: trampoline first, outputs in order, sections disjoint inside them.\<close>

definition outputs_laid_out :: "output_section list \<Rightarrow> bool" where
  "outputs_laid_out outs \<longleftrightarrow>
     length outs = 4 \<and> (\<forall>k < 3. ou_size (outs ! k) = length (ou_data (outs ! k))) \<and>
     ou_offset (outs ! 0) = 0 \<and> take 38 (ou_data (outs ! 0)) = entry_stub \<and>
     ou_end (outs ! 0) \<le> ou_offset (outs ! 1) \<and> ou_end (outs ! 1) \<le> ou_offset (outs ! 2) \<and>
     ou_end (outs ! 2) \<le> ou_offset (outs ! 3) \<and>
     (\<forall>k < 4. ou_alignment (outs ! k) dvd ou_offset (outs ! k) \<and>
        ou_offset (outs ! k) + length (ou_data (outs ! k)) \<le> SIZE_MAX)"

definition sections_laid_out :: "output_section list \<Rightarrow> link_section list \<Rightarrow> bool" where
  "sections_laid_out outs ss \<longleftrightarrow>
     (\<forall>s \<in> set ss. placed outs s \<and> (ls_output_kind s = 0 \<longrightarrow> 38 \<le> ls_output_offset s)) \<and>
     sorted_wrt before ss"

lemma length_entry_stub [simp]: "length entry_stub = 38"
  by (simp add: entry_stub_def)

lemma four_cases: "(\<forall>k < (4 :: nat). P k) \<longleftrightarrow> P 0 \<and> P 1 \<and> P 2 \<and> P 3"
  by (auto simp: less_Suc_eq numeral_eq_Suc)

lemma three_cases: "(\<forall>k < (3 :: nat). P k) \<longleftrightarrow> P 0 \<and> P 1 \<and> P 2"
  by (auto simp: less_Suc_eq numeral_eq_Suc)

definition start_outputs :: "output_section list" where
  "start_outputs = initial_outputs[0 := (initial_outputs ! 0)\<lparr>ou_data := entry_stub, ou_size := 38\<rparr>]"

lemma start_outputs_ok:
  "outputs_ok start_outputs" "length start_outputs = 4" "ou_data (start_outputs ! 0) = entry_stub"
  "k < 4 \<Longrightarrow> ou_alignment (start_outputs ! k) \<in> {8, 16}"
proof -
  show "outputs_ok start_outputs"
    by (simp add: start_outputs_def initial_outputs_def outputs_ok_def output_ok_def SIZE_MAX_def)
  show "length start_outputs = 4" "ou_data (start_outputs ! 0) = entry_stub"
    by (simp_all add: start_outputs_def initial_outputs_def)
  have "\<forall>k < 4. ou_alignment (start_outputs ! k) \<in> {8, 16}"
    unfolding four_cases by (simp add: start_outputs_def initial_outputs_def)
  then show "k < 4 \<Longrightarrow> ou_alignment (start_outputs ! k) \<in> {8, 16}" by blast
qed

lemma place_objects_eq:
  "place_objects obs = bindE (put_objects start_outputs obs) (\<lambda>(outs, obs).
     bindE (assign_bases 0 outs) (\<lambda>outs. Inr (outs, obs)))"
proof -
  have "index initial_outputs 0 = (Inr (initial_outputs ! 0) :: (diag, output_section) res)"
    by (simp add: index_def initial_outputs_def)
  moreover have "output_append (initial_outputs ! 0) entry_stub =
      Some ((initial_outputs ! 0)\<lparr>ou_data := entry_stub, ou_size := 38\<rparr>)"
    by (simp add: output_append_def initial_outputs_def SIZE_MAX_def)
  ultimately show ?thesis
    unfolding place_objects_def start_outputs_def by (simp only: bindE_simps of_option_simps)
qed

lemma place_objects_ok:
  assumes run: "place_objects obs = Inr (outs, obs')" and ok: "\<forall>ob \<in> set obs. link_object_ok ob"
  shows "outputs_laid_out outs" "sections_laid_out outs (all_sections obs')"
    and "list_all2 (\<lambda>ob ob'. ob' = ob\<lparr>lo_sections := lo_sections ob'\<rparr> \<and>
       list_all2 same_section (lo_sections ob) (lo_sections ob')) obs obs'"
proof -
  from run obtain outs1 where put: "put_objects start_outputs obs = Inr (outs1, obs')"
    and bases: "assign_bases 0 outs1 = Inr outs" by (auto simp: place_objects_eq)
  from put_objects_ok [OF start_outputs_ok(1) ok put]
  have P: "placing start_outputs outs1 (all_sections obs) (all_sections obs')"
    and same: "list_all2 (\<lambda>ob ob'. ob' = ob\<lparr>lo_sections := lo_sections ob'\<rparr> \<and>
       list_all2 same_section (lo_sections ob) (lo_sections ob')) obs obs'" by blast+
  from P have ok1: "outputs_ok outs1" and ext: "extends start_outputs outs1"
    and pl: "\<forall>s \<in> set (all_sections obs'). placed outs1 s \<and>
      length (ou_data (start_outputs ! ls_output_kind s)) \<le> ls_output_offset s"
    and sorted: "sorted_wrt before (all_sections obs')" by (simp_all add: placing_def)
  have len: "length outs1 = 4" using ok1 by (simp add: outputs_ok_def)
  have al: "ou_alignment (outs1 ! k) = ou_alignment (start_outputs ! k)" if "k < 4" for k
    using ext that start_outputs_ok(2) by (auto simp: extends_def)
  have pow: "(8 :: nat) = 2 ^ 3" "(16 :: nat) = 2 ^ 4" by simp_all
  have "\<forall>out \<in> set outs1. ou_alignment out \<in> (\<lambda>k. 2 ^ k) ` {..15} \<and> ou_size out \<le> SIZE_MAX"
  proof
    fix out assume "out \<in> set outs1"
    then obtain k where k: "k < 4" "out = outs1 ! k" using len by (auto simp: in_set_conv_nth)
    have "(8 :: nat) \<in> (\<lambda>k. 2 ^ k) ` {..15}" "(16 :: nat) \<in> (\<lambda>k. 2 ^ k) ` {..15}"
      unfolding pow by (intro imageI, simp)+
    then have "ou_alignment out \<in> (\<lambda>k. 2 ^ k) ` {..15}"
      using start_outputs_ok(4) [OF k(1)] al [OF k(1)] k(2) by auto
    moreover have "ou_size out \<le> SIZE_MAX" using ok1 \<open>out \<in> set outs1\<close> by (simp add: outputs_ok_def output_ok_def)
    ultimately show "ou_alignment out \<in> (\<lambda>k. 2 ^ k) ` {..15} \<and> ou_size out \<le> SIZE_MAX" ..
  qed
  note B = assign_bases_ok [OF bases this]
  have len': "length outs = 4" using B len by (metis list_all2_lengthD)
  have same_out: "ou_data (outs ! k) = ou_data (outs1 ! k)" "ou_size (outs ! k) = ou_size (outs1 ! k)"
    "ou_alignment (outs ! k) = ou_alignment (outs1 ! k)" if "k < 4" for k
  proof -
    have "outs ! k = (outs1 ! k)\<lparr>ou_offset := ou_offset (outs ! k)\<rparr>"
      using B that len by (auto dest: list_all2_nthD)
    then show "ou_data (outs ! k) = ou_data (outs1 ! k)" "ou_size (outs ! k) = ou_size (outs1 ! k)"
      "ou_alignment (outs ! k) = ou_alignment (outs1 ! k)"
      by (metis output_section.select_convs output_section.simps output_section.surjective output_section.update_convs(5))+
  qed
  obtain out1 outs1' where split: "outs1 = out1 # outs1'" using len by (cases outs1) auto
  have zero: "ou_offset (outs ! 0) = 0"
  proof -
    from bases obtain b rest where b: "align_output (ou_alignment out1) 0 = Some b"
      and outs: "outs = out1\<lparr>ou_offset := b\<rparr> # rest" by (auto simp: split split: if_splits)
    have "ou_alignment out1 \<in> {8, 16}" using start_outputs_ok(4) [of 0] al [of 0] split by simp
    then consider "ou_alignment out1 = 2 ^ 3" | "ou_alignment out1 = 2 ^ 4" by auto
    then obtain k where k: "ou_alignment out1 = 2 ^ k" "k < 64" by cases (rule that, assumption, simp)+
    have "b = round_up 0 (2 ^ k)" using align_output_Some(1) [of k 0 b] b k by simp
    then show ?thesis using outs by (simp add: round_up_def)
  qed
  have sz: "ou_size (outs ! k) = length (ou_data (outs ! k))" if "k < 4" for k
    using that outputs_okD [OF ok1 that] same_out [OF that] by (simp add: output_ok_def)
  have order: "ou_end (outs ! i) \<le> ou_offset (outs ! j)" if "i < j" "j < 4" for i j
    using B len' that by (simp add: sorted_wrt_iff_nth_less)
  have each: "ou_alignment (outs ! k) dvd ou_offset (outs ! k)"
    "ou_offset (outs ! k) + length (ou_data (outs ! k)) \<le> SIZE_MAX" if "k < 4" for k
    using B len' that sz [OF that] by (metis nth_mem)+
  obtain d where d: "ou_data (outs1 ! 0) = entry_stub @ d"
    using ext start_outputs_ok(2,3) by (fastforce simp: extends_def)
  show "outputs_laid_out outs"
    unfolding outputs_laid_out_def
    using len' sz order [of 0 1] order [of 1 2] order [of 2 3] zero each same_out(1) [of 0] d by simp
  have "placed outs s \<and> (ls_output_kind s = 0 \<longrightarrow> 38 \<le> ls_output_offset s)" if s: "s \<in> set (all_sections obs')" for s
  proof -
    have p1: "placed outs1 s" and after: "length (ou_data (start_outputs ! ls_output_kind s)) \<le> ls_output_offset s"
      using pl s by blast+
    from p1 have "unat (ls_kind s) < 4" using len by (simp add: placed_def)
    with p1 have "placed outs s" using len len' same_out(1) by (simp add: placed_def)
    moreover have "38 \<le> ls_output_offset s" if "ls_output_kind s = 0"
      using after that start_outputs_ok(3) by simp
    ultimately show ?thesis by blast
  qed
  then show "sections_laid_out outs (all_sections obs')" using sorted by (simp add: sections_laid_out_def)
  show "list_all2 (\<lambda>ob ob'. ob' = ob\<lparr>lo_sections := lo_sections ob'\<rparr> \<and>
       list_all2 same_section (lo_sections ob) (lo_sections ob')) obs obs'" by (rule same)
qed

subsection \<open>The bytes no relocation touches\<close>

definition relocated :: "output_section list \<Rightarrow> link_object list \<Rightarrow> nat \<Rightarrow> bool" where
  "relocated outs obs i \<longleftrightarrow>
     (\<exists>ob \<in> set obs. \<exists>s \<in> set (lo_sections ob). \<exists>r \<in> set (ls_relocations s).
        reloc_position outs s r \<le> i \<and> i < reloc_position outs s r + unat (lr_width r))"

lemma apply_relocation_other:
  assumes run: "apply_relocation format outs gs ob s st r = Inr st'"
    and i: "\<not> (reloc_position outs s r \<le> i \<and> i < reloc_position outs s r + unat (lr_width r))"
      "i < length (fst st)"
  shows "fst st' ! i = fst st ! i"
proof -
  obtain payload items payload' items' where st: "st = (payload, items)" "st' = (payload', items')"
    by (cases st, cases st') blast
  from run [unfolded st] obtain v where w: "lr_type r = 3 \<or> lr_type r = 4 \<Longrightarrow> lr_width r = 4"
      "lr_type r = 5 \<Longrightarrow> lr_width r = 8"
    and at: "relocate_at format r (reloc_symbol ob r) v (reloc_position outs s r) (payload, items) = Inr (payload', items')"
    by (rule apply_relocationD) blast
  let ?p = "reloc_position outs s r"
  from relocate_at_cases [OF at] w have "payload' = payload \<or>
      (\<exists>bs. length bs = unat (lr_width r) \<and> ?p + length bs \<le> length payload \<and> payload' = patch payload ?p bs)"
  proof (elim disjE conjE exE, goal_cases)
    case (1 t) then show ?case by (intro disjI2 exI [of _ "write_u64 0"]) simp
  next
    case (2 t d) then show ?case by (intro disjI2 exI [of _ "write_u32 (word_of_int d)"]) simp
  next
    case (3 t) then show ?case by (intro disjI2 exI [of _ "write_u32 (word_of_int t)"]) simp
  qed simp
  with i st show ?thesis by (auto simp: nth_patch)
qed

lemma apply_relocations_other:
  assumes "apply_relocations format outs gs payload obs = Inr st" and "\<not> relocated outs obs i" "i < length payload"
    and "\<forall>ob \<in> set obs. relocs_in_range k ob"
  shows "fst st ! i = payload ! i"
proof -
  define P where "P = (\<lambda>st. image_state_ok format (length payload) st \<and> fst st ! i = payload ! i)"
  from assms(1) [unfolded apply_relocations_def apply_section_def] have "P st"
  proof (rule foldE_invariant)
    show "P (payload, [])" by (simp add: P_def image_state_ok_def)
  next
    fix st ob st' assume st: "P st" and ob: "ob \<in> set obs"
      and run: "foldE (\<lambda>st s. foldE (apply_relocation format outs gs ob s) st (ls_relocations s)) st (lo_sections ob) = Inr st'"
    from run st show "P st'"
    proof (rule foldE_invariant)
      fix st s st' assume st: "P st" and s: "s \<in> set (lo_sections ob)"
        and run: "foldE (apply_relocation format outs gs ob s) st (ls_relocations s) = Inr st'"
      from run st show "P st'"
      proof (rule foldE_invariant)
        fix st r st' assume st: "P st" and r: "r \<in> set (ls_relocations s)"
          and run: "apply_relocation format outs gs ob s st r = Inr st'"
        have "image_state_ok format (length payload) st'"
        proof (rule apply_relocation_frame [OF run])
          show "image_state_ok format (length payload) st" using st by (simp add: P_def)
          show "link_reloc_ok (length (lo_symbols ob)) (ls_size s) r"
            using assms(4) ob s r by (simp add: relocs_in_range_def)
        qed
        moreover have "fst st' ! i = fst st ! i"
        proof (rule apply_relocation_other [OF run])
          show "\<not> (reloc_position outs s r \<le> i \<and> i < reloc_position outs s r + unat (lr_width r))"
            using assms(2) ob s r by (auto simp: relocated_def)
          show "i < length (fst st)" using st assms(3) by (simp add: P_def image_state_ok_def)
        qed
        ultimately show "P st'" using st by (simp add: P_def)
      qed
    qed
  qed
  then show ?thesis by (simp add: P_def)
qed

subsection \<open>A successful link, step by step\<close>

lemma link_loadedD:
  assumes "link_loaded env format output obs = Inr img"
  obtains outs1 obs1 outs gs obs2 p m payload0 payload1 items payload
  where "place_objects obs = Inr (outs1, obs1)" "resolve_symbols (outs1, []) obs1 = Inr ((outs, gs), obs2)"
    "image_extents outs = Some (p, m)" "flatten_outputs outs p = Inr payload0"
    "apply_relocations format outs gs payload0 obs2 = Inr (payload1, items)"
    "patch_entry outs gs output payload1 = Inr payload"
    "linked_image outs payload format items output = Inr img" "env_write env output img"
proof -
  from assms obtain outs1 obs1 outs gs obs2 where 1: "place_objects obs = Inr (outs1, obs1)"
      "resolve_symbols (outs1, []) obs1 = Inr ((outs, gs), obs2)"
    and rest: "(case image_extents outs of None \<Rightarrow> link_error 5034 (Some output) ''linked image exceeds target limits''
     | Some (payload_size, memory_size) \<Rightarrow>
       (case flatten_outputs outs payload_size of
          Inl OutOfBounds \<Rightarrow> Inl OutOfBounds
        | Inl (Failed _) \<Rightarrow> link_error 5034 (Some output) ''linked image exceeds target limits''
        | Inr payload \<Rightarrow>
          bindE (apply_relocations format outs gs payload obs2) (\<lambda>(payload, items).
          bindE (patch_entry outs gs output payload) (\<lambda>payload.
          write_linked_image (env_write env) outs payload format items output)))) = Inr img"
    unfolding link_loaded_def bindE_eq_Inr by (elim exE conjE) (auto split: prod.splits)
  from rest obtain p m where 2: "image_extents outs = Some (p, m)" by (cases "image_extents outs") auto
  with rest obtain payload0 where 3: "flatten_outputs outs p = Inr payload0"
    by (cases "flatten_outputs outs p") (auto split: failure.splits)
  from rest 2 3 obtain payload1 items payload where
    4: "apply_relocations format outs gs payload0 obs2 = Inr (payload1, items)"
      "patch_entry outs gs output payload1 = Inr payload"
    and w: "write_linked_image (env_write env) outs payload format items output = Inr img" by auto
  from w have "linked_image outs payload format items output = Inr img" "env_write env output img"
    by (auto simp: write_linked_image_def split: if_splits)
  with 1 2 3 4 show thesis by (rule that)
qed

lemma list_all2_set2: "list_all2 P xs ys \<Longrightarrow> y \<in> set ys \<Longrightarrow> \<exists>x \<in> set xs. P x y"
  by (induction rule: list_all2_induct) auto

lemma placed_objects_ready:
  assumes run: "place_objects obs = Inr (outs, obs1)" and ok: "\<forall>ob \<in> set obs. link_object_ok ob"
  shows "\<forall>ob \<in> set obs1. symbols_in_range 4 ob" "\<forall>ob \<in> set obs1. relocs_in_range 4 ob"
proof -
  note P = place_objects_ok [OF run ok]
  have len: "length outs = 4" using P(1) by (simp add: outputs_laid_out_def)
  have "symbols_in_range 4 ob1 \<and> relocs_in_range 4 ob1" if "ob1 \<in> set obs1" for ob1
  proof -
    obtain ob where ob: "ob \<in> set obs" "ob1 = ob\<lparr>lo_sections := lo_sections ob1\<rparr>"
      and ss: "list_all2 same_section (lo_sections ob) (lo_sections ob1)"
      using list_all2_set2 [OF P(3) \<open>ob1 \<in> set obs1\<close>] by blast
    have ok: "link_object_ok ob" using ok ob(1) by blast
    have sym: "lo_symbols ob1 = lo_symbols ob" using arg_cong [OF ob(2), of lo_symbols] by simp
    have n: "length (lo_sections ob1) = length (lo_sections ob)" using ss by (simp add: list_all2_lengthD)
    have kind: "ls_output_kind s < 4" if "s \<in> set (lo_sections ob1)" for s
    proof -
      have "s \<in> set (all_sections obs1)" using that \<open>ob1 \<in> set obs1\<close> by (auto simp: all_sections_def)
      then show ?thesis using P(2) len by (simp add: sections_laid_out_def placed_def)
    qed
    have rel: "link_reloc_ok (length (lo_symbols ob1)) (ls_size s1) r"
      if "s1 \<in> set (lo_sections ob1)" "r \<in> set (ls_relocations s1)" for s1 r
    proof -
      obtain s where s: "s \<in> set (lo_sections ob)" "same_section s s1"
        using list_all2_set2 [OF ss \<open>s1 \<in> set (lo_sections ob1)\<close>] by blast
      have "link_section_ok (length (lo_symbols ob)) s" using ok s(1) by (simp add: link_object_ok_def)
      then show ?thesis using that(2) same_sectionD [OF s(2)] sym by (simp add: link_section_ok_def)
    qed
    have "link_symbol_ok (lo_sections ob) y" if "y \<in> set (lo_symbols ob1)" for y
      using ok that sym by (simp add: link_object_ok_def)
    with kind rel n show ?thesis
      by (fastforce simp: symbols_in_range_def relocs_in_range_def link_symbol_ok_def is_definition_def)
  qed
  then show "\<forall>ob \<in> set obs1. symbols_in_range 4 ob" "\<forall>ob \<in> set obs1. relocs_in_range 4 ob" by blast+
qed

lemma resolved_objects:
  assumes run: "resolve_symbols (outs1, []) obs1 = Inr ((outs, gs), obs2)"
    and ready: "\<forall>ob \<in> set obs1. symbols_in_range 4 ob" "\<forall>ob \<in> set obs1. relocs_in_range 4 ob"
  shows "bss_grown outs1 outs" "map lo_sections obs2 = map lo_sections obs1"
    "\<forall>ob \<in> set obs2. relocs_in_range 4 ob"
proof -
  have "\<forall>ob \<in> set obs1. \<forall>y \<in> set (lo_symbols ob). ly_defined y \<longleftrightarrow> is_definition y"
    using ready(1) by (auto simp: symbols_in_range_def)
  from resolve_symbols_ok [OF run _ this, of "[]"]
  have R: "bss_grown outs1 outs" "list_all2 (object_done outs1) obs1 obs2" by (simp_all add: resolved_def)
  show "bss_grown outs1 outs" by (rule R(1))
  have same: "lo_sections ob2 = lo_sections ob1" "length (lo_symbols ob2) = length (lo_symbols ob1)"
    if "object_done outs1 ob1 ob2" for ob1 ob2
  proof -
    have "ob2 = ob1\<lparr>lo_symbols := lo_symbols ob2\<rparr>" using that by (simp add: object_done_def)
    from arg_cong [OF this, of lo_sections] show "lo_sections ob2 = lo_sections ob1" by simp
    show "length (lo_symbols ob2) = length (lo_symbols ob1)"
      using that list_all2_lengthD [of _ "lo_symbols ob1" "lo_symbols ob2"] unfolding object_done_def by metis
  qed
  show "map lo_sections obs2 = map lo_sections obs1"
    using R(2) by (auto simp: list_all2_conv_all_nth same intro!: nth_equalityI)
  show "\<forall>ob \<in> set obs2. relocs_in_range 4 ob"
  proof
    fix ob2 assume "ob2 \<in> set obs2"
    then obtain ob1 where "ob1 \<in> set obs1" "object_done outs1 ob1 ob2"
      using list_all2_set2 [OF R(2)] by blast
    then show "relocs_in_range 4 ob2" using ready(2) same by (simp add: relocs_in_range_def)
  qed
qed

lemma assembled_payload:
  assumes laid: "outputs_laid_out outs1" and grown: "bss_grown outs1 outs" and ext: "image_extents outs = Some (p, m)"
  shows "\<exists>payload. flatten_outputs outs p = Inr payload \<and> length payload = p \<and>
    (\<forall>i < 3. chunk payload (ou_offset (outs ! i)) (ou_size (outs ! i)) = ou_data (outs ! i))"
proof (rule flatten_outputs_ok)
  note G = bss_grownD [OF grown]
  show "length outs = 4" using laid G(1) by (simp add: outputs_laid_out_def)
  have same: "outs ! i = outs1 ! i" if "i < 3" for i using that G(4) [of i] by simp
  show "ou_size (outs ! i) = length (ou_data (outs ! i))" if "i < 3" for i
    using that laid same by (simp add: outputs_laid_out_def)
  show "image_extents outs = Some (p, m)" by (rule ext)
  have laid_order: "ou_end (outs1 ! 0) \<le> ou_offset (outs1 ! 1)" "ou_end (outs1 ! 1) \<le> ou_offset (outs1 ! 2)"
    using laid unfolding outputs_laid_out_def by blast+
  show "ou_end (outs ! 0) \<le> ou_offset (outs ! 1)" "ou_end (outs ! 1) \<le> ou_offset (outs ! 2)"
    using laid_order same [of 0] same [of 1] same [of 2] by simp_all
  have "ou_end (outs ! i) \<le> SIZE_MAX" if "i < 3" for i
    using that laid same [of i] by (simp add: outputs_laid_out_def)
  then show "p \<le> SIZE_MAX" using image_extents_Some(6) [OF ext] by auto
qed

subsection \<open>Safety\<close>

lemma place_objects_safe:
  assumes "\<forall>ob \<in> set obs. link_object_ok ob"
  shows "safe (place_objects obs)"
proof -
  have put1: "safe (put_section outs s)" if "length outs = 4" "link_section_ok n s" for outs s n
  proof -
    have "unat (ls_kind s) < 4" using that(2) by (simp add: link_section_ok_def word_le_nat_alt)
    then show ?thesis unfolding put_section_def Let_def using that(1) by (intro safe_bindE) simp_all
  qed
  have len1: "length outs' = 4" if "put_section outs s = Inr (outs', s')" "length outs = 4" for outs s outs' s'
    using that by (auto simp: put_section_def Let_def)
  have puts: "safe (put_sections outs ss) \<and> (\<forall>outs' ss'. put_sections outs ss = Inr (outs', ss') \<longrightarrow> length outs' = 4)"
    if "length outs = 4" "\<forall>s \<in> set ss. link_section_ok n s" for outs ss n
    using that
  proof (induction ss arbitrary: outs)
    case (Cons s ss)
    then show ?case using put1 [of outs n s] len1 [of outs s] by (auto intro!: safe_bindE_pair)
  qed simp
  have objs: "safe (put_objects outs obs)"
    if "length outs = 4" "\<forall>ob \<in> set obs. link_object_ok ob" for outs and obs :: "link_object list"
    using that
  proof (induction obs arbitrary: outs)
    case (Cons ob obs)
    have "\<forall>s \<in> set (lo_sections ob). link_section_ok (length (lo_symbols ob)) s"
      using Cons.prems(2) by (simp add: link_object_ok_def)
    note P = puts [OF Cons.prems(1) this]
    show ?case using P Cons.IH Cons.prems(2) by (auto intro!: safe_bindE_pair)
  qed simp
  have bases: "safe (assign_bases b outs)" for b outs
    by (induction outs arbitrary: b) (auto intro!: safe_bindE)
  show ?thesis unfolding place_objects_eq
    by (intro safe_bindE_pair safe_bindE objs bases) (simp_all add: start_outputs_ok assms)
qed

lemma patch_entry_safe: "length outs = 4 \<Longrightarrow> safe (patch_entry outs gs output payload)"
  unfolding patch_entry_def Let_def
  by (intro safe_case_option safe_bindE safe_if) auto

lemma link_loaded_safe:
  assumes ok: "\<forall>ob \<in> set obs. link_object_ok ob"
  shows "safe (link_loaded env format output obs)"
proof -
  have step: "safe (case image_extents outs of
       None \<Rightarrow> link_error 5034 (Some output) ''linked image exceeds target limits''
     | Some (payload_size, memory_size) \<Rightarrow>
       (case flatten_outputs outs payload_size of
          Inl OutOfBounds \<Rightarrow> Inl OutOfBounds
        | Inl (Failed _) \<Rightarrow> link_error 5034 (Some output) ''linked image exceeds target limits''
        | Inr payload \<Rightarrow>
          bindE (apply_relocations format outs gs payload obs2) (\<lambda>(payload, items).
          bindE (patch_entry outs gs output payload) (\<lambda>payload.
          write_linked_image (env_write env) outs payload format items output))))"
    if place: "place_objects obs = Inr (outs1, obs1)"
      and res: "resolve_symbols (outs1, []) obs1 = Inr ((outs, gs), obs2)" for outs1 obs1 outs gs obs2
  proof (cases "image_extents outs")
    case None
    then show ?thesis by simp
  next
    case (Some pm)
    obtain p m where pm: "pm = (p, m)" by (cases pm)
    note P = place_objects_ok [OF place ok] and R = resolved_objects [OF res placed_objects_ready [OF place ok]]
    have len: "length outs = 4" using P(1) bss_grownD(1) [OF R(1)] by (simp add: outputs_laid_out_def)
    obtain payload where fl: "flatten_outputs outs p = Inr payload" "length payload = p"
      using assembled_payload [OF P(1) R(1)] Some pm by blast
    have "safe (bindE (apply_relocations format outs gs payload obs2) (\<lambda>(payload, items).
          bindE (patch_entry outs gs output payload) (\<lambda>payload.
          write_linked_image (env_write env) outs payload format items output)))"
    proof (intro safe_bindE_pair safe_bindE)
      show "safe (apply_relocations format outs gs payload obs2)"
        using R(3) len by (intro apply_relocations_safe) simp
      show "safe (patch_entry outs gs output payload')" for payload' by (rule patch_entry_safe [OF len])
      fix payload1 items payload2
      assume ap: "apply_relocations format outs gs payload obs2 = Inr (payload1, items)"
        and pe: "patch_entry outs gs output payload1 = Inr payload2"
      have st: "length payload1 = p" "length items \<le> 2 ^ 59"
        using apply_relocations_frame [OF ap R(3)] fl(2) by (simp_all add: image_state_ok_def items_ok_def)
      have "length payload2 = p" using pe st(1)
        by (auto simp: patch_entry_def Let_def split: option.splits if_splits)
      from linked_image_eq(1) [OF len Some [unfolded pm] this st(2)]
      show "safe (write_linked_image (env_write env) outs payload2 format items output)"
        unfolding write_linked_image_def by (intro safe_bindE) simp_all
    qed
    with Some pm fl(1) show ?thesis by simp
  qed
  show ?thesis unfolding link_loaded_def
  proof (intro safe_bindE_pair)
    show "safe (place_objects obs)" by (rule place_objects_safe [OF ok])
    fix outs1 obs1 assume place: "place_objects obs = Inr (outs1, obs1)"
    have "length outs1 = 4" using place_objects_ok(1) [OF place ok] by (simp add: outputs_laid_out_def)
    then show "safe (resolve_symbols (outs1, []) obs1)"
      using placed_objects_ready(1) [OF place ok] by (intro resolve_symbols_safe [where ys = "[]"]) (simp_all add: resolved_def)
  qed (auto intro!: step split: prod.split)
qed

lemma load_objects_safe: "safe (load_objects env release paths)"
proof (induction paths arbitrary: env)
  case (Cons path paths)
  then show ?case by (simp add: Let_def read_object_file_never safe_bindE)
qed simp

lemma load_objects_ok:
  "load_objects env release paths = Inr obs \<Longrightarrow> length obs = length paths \<and> (\<forall>ob \<in> set obs. link_object_ok ob)"
proof (induction paths arbitrary: env obs)
  case (Cons path paths)
  from Cons.prems obtain ob env' obs' where "read_object_file (env_files env) path = Inr ob"
      "load_objects env' release paths = Inr obs'" "obs = ob # obs'"
    by (auto simp: Let_def split: if_splits)
  moreover from this(1) have "link_object_ok ob"
    by (auto simp: read_object_file_def split: file_result.splits dest: parse_object_ok)
  ultimately show ?case using Cons.IH by auto
qed simp

text \<open>
  C7. Linking never reads or writes outside one of its buffers, whatever the object files hold: a
  corrupt object, a missing symbol, a relocation that does not fit or an image that is too large
  ends in an error the linker reports.
\<close>

theorem link_objects_safe: "link_objects env objects output format release \<noteq> Inl OutOfBounds"
proof -
  have "safe (link_loaded env format out obs)" if "load_objects env release objects = Inr obs" for out obs
    using load_objects_ok [OF that] by (intro link_loaded_safe) simp
  then have "safe (link_objects env objects output format release)"
    by (auto simp: link_objects_def load_objects_safe intro!: safe_bindE split: option.split)
  then show ?thesis by (simp add: safe_def)
qed

text \<open>Where a section's bytes stand in the payload.\<close>

definition section_start :: "output_section list \<Rightarrow> link_section \<Rightarrow> nat" where
  "section_start outs s = ou_offset (outs ! ls_output_kind s) + ls_output_offset s"

text \<open>The facts every success shares.\<close>

lemma link_loaded_image:
  assumes run: "link_loaded env format output obs = Inr img" and ok: "\<forall>ob \<in> set obs. link_object_ok ob"
  obtains outs1 obs1 outs gs obs2 p m payload0 payload1 items payload
  where "place_objects obs = Inr (outs1, obs1)" "resolve_symbols (outs1, []) obs1 = Inr ((outs, gs), obs2)"
    "outputs_laid_out outs1" "sections_laid_out outs1 (all_sections obs1)" "bss_grown outs1 outs"
    "map lo_sections obs2 = map lo_sections obs1" "\<forall>ob \<in> set obs2. relocs_in_range 4 ob"
    "length payload0 = p" "length payload1 = p" "length payload = p" "p \<le> m" "m \<le> 16 * 1024 * 1024" "0 < p"
    "\<And>i. i < 3 \<Longrightarrow> chunk payload0 (ou_offset (outs ! i)) (ou_size (outs ! i)) = ou_data (outs ! i)"
    "apply_relocations format outs gs payload0 obs2 = Inr (payload1, items)" "items_ok format p items"
    "patch_entry outs gs output payload1 = Inr payload"
    "img = (if format = IMAGE_RAW_COM then payload @ replicate (m - p) 0
            else mz64_image 0 m items payload)" "length img \<le> UINT32_MAX"
    "ou_end (outs ! 0) \<le> p" "ou_end (outs ! 1) \<le> p" "ou_end (outs ! 2) \<le> p"
proof -
  from run obtain outs1 obs1 outs gs obs2 p m payload0 payload1 items payload
    where place: "place_objects obs = Inr (outs1, obs1)"
      and res: "resolve_symbols (outs1, []) obs1 = Inr ((outs, gs), obs2)"
      and ext: "image_extents outs = Some (p, m)" and fl: "flatten_outputs outs p = Inr payload0"
      and ap: "apply_relocations format outs gs payload0 obs2 = Inr (payload1, items)"
      and pe: "patch_entry outs gs output payload1 = Inr payload"
      and img: "linked_image outs payload format items output = Inr img"
    by (rule link_loadedD)
  note P = place_objects_ok [OF place ok] and R = resolved_objects [OF res placed_objects_ready [OF place ok]]
  have len: "length outs = 4" using P(1) bss_grownD(1) [OF R(1)] by (simp add: outputs_laid_out_def)
  from assembled_payload [OF P(1) R(1) ext] fl have f: "length payload0 = p"
    "\<And>i. i < 3 \<Longrightarrow> chunk payload0 (ou_offset (outs ! i)) (ou_size (outs ! i)) = ou_data (outs ! i)" by auto
  have st: "length payload1 = p" "items_ok format p items"
    using apply_relocations_frame [OF ap R(3)] f(1) by (simp_all add: image_state_ok_def)
  have p: "length payload = p" using pe st(1)
    by (auto simp: patch_entry_def Let_def split: option.splits if_splits)
  have few: "length items \<le> 2 ^ 59" using st(2) by (simp add: items_ok_def)
  note I = linked_image_eq(2) [OF len ext p few img]
  have zero: "ou_offset (outs ! 0) = 0"
    using P(1) bss_grownD(2) [OF R(1)] by (simp add: outputs_laid_out_def)
  have J: "m \<le> 16 * 1024 * 1024" "0 < p" "length img \<le> UINT32_MAX"
    "img = (if format = IMAGE_RAW_COM then payload @ replicate (m - p) 0 else mz64_image 0 m items payload)"
    using I unfolding zero by blast+
  show thesis
    by (rule that [OF place res P(1,2) R f(1) st(1) p image_extents_Some(4) [OF ext] J(1,2) f(2) ap st(2) pe J(4,3)
          image_extents_Some(1-3) [OF ext]])
qed

text \<open>
  C14. A linked MZ64 image keeps the rules of the image contract: the header, the payload, the entry
  offset 0, the memory size of at most 16 MiB and the relocation table are read back as they were
  linked, and the relocations are sorted, and their slots are 8-aligned and inside the initialized
  payload. One rule is left: the contract also wants every represented value aligned, which the linker
  does not check, so the loader accepts the image exactly when every addend is a multiple of eight.
\<close>

theorem linked_mz64_loads:
  assumes "link_loaded env IMAGE_MZ64 output obs = Inr img" and "\<forall>ob \<in> set obs. link_object_ok ob"
  shows "\<exists>ld. mz64_read img = Some ld \<and>
    mz64_load img = (if \<forall>(d, a) \<in> set (ld_relocations ld). 8 dvd a then Some ld else None) \<and>
    ld_entry ld = 0 \<and> env_write env output img \<and>
    length (ld_payload ld) \<le> ld_memory ld \<and> ld_memory ld \<le> 16 * 1024 * 1024 \<and>
    sorted (map fst (ld_relocations ld)) \<and>
    (\<forall>(d, a) \<in> set (ld_relocations ld). 8 dvd d \<and> d + 8 \<le> length (ld_payload ld))"
proof -
  obtain outs gs payload1 items payload m p where "env_write env output img"
    and p: "length payload = p" "p \<le> m" "m \<le> 16 * 1024 * 1024" "0 < p" "items_ok IMAGE_MZ64 p items"
    and img: "img = mz64_image 0 m items payload" "length img \<le> UINT32_MAX"
  proof -
    have w: "env_write env output img" using assms(1) by (rule link_loadedD)
    show thesis using assms by (rule link_loaded_image) (rule that [OF w], simp_all)
  qed
  have "mz64_read img = Some \<lparr>ld_payload = payload, ld_entry = 0,
     ld_memory = m, ld_relocations = map (\<lambda>r. (im_destination r, sint (word_of_int (im_addend r) :: u64))) items\<rparr>"
    unfolding img(1) using p img by (intro mz64_read_image) simp_all
  moreover have "mz64_load img = (if \<forall>(d, a) \<in> set (ld_relocations ld). 8 dvd a then Some ld else None)" if "mz64_read img = Some ld" for ld
    using that by (simp add: mz64_load_def)
  ultimately show ?thesis using p \<open>env_write env output img\<close>
    by (intro exI [of _ "\<lparr>ld_payload = payload, ld_entry = 0, ld_memory = m,
        ld_relocations = map (\<lambda>r. (im_destination r, sint (word_of_int (im_addend r) :: u64))) items\<rparr>"])
      (auto simp: items_ok_def o_def simp del: split_paired_All split_paired_Ex)
qed

subsection \<open>What the payload holds\<close>

lemma section_region:
  assumes laid: "outputs_laid_out outs" "sections_laid_out outs ss" and s: "s \<in> set ss"
  shows "ls_output_kind s < 4" "38 \<le> section_start outs s"
    "ls_output_offset s + ls_size s \<le> length (ou_data (outs ! ls_output_kind s))"
    "section_start outs s + ls_size s \<le> SIZE_MAX"
    "ls_output_kind s < k \<Longrightarrow> k < 4 \<Longrightarrow> section_start outs s + ls_size s \<le> ou_offset (outs ! k)"
proof -
  have p: "placed outs s" "ls_output_kind s = 0 \<longrightarrow> 38 \<le> ls_output_offset s"
    using laid(2) s by (simp_all add: sections_laid_out_def)
  have L: "length outs = 4" "ou_offset (outs ! 0) = 0" "length entry_stub \<le> length (ou_data (outs ! 0))"
    using laid(1) unfolding outputs_laid_out_def by (metis, metis, metis length_take min.cobounded1)
  show k: "ls_output_kind s < 4" using p(1) L(1) by (simp add: placed_def)
  show e: "ls_output_offset s + ls_size s \<le> length (ou_data (outs ! ls_output_kind s))"
    using p(1) by (simp add: placed_def)
  have "ou_offset (outs ! ls_output_kind s) + length (ou_data (outs ! ls_output_kind s)) \<le> SIZE_MAX"
    using laid(1) k by (simp only: outputs_laid_out_def)
  with e show "section_start outs s + ls_size s \<le> SIZE_MAX" by (simp add: section_start_def)
  have sz: "\<And>k. k < 3 \<Longrightarrow> ou_size (outs ! k) = length (ou_data (outs ! k))"
    and order: "ou_end (outs ! 0) \<le> ou_offset (outs ! 1)" "ou_end (outs ! 1) \<le> ou_offset (outs ! 2)"
      "ou_end (outs ! 2) \<le> ou_offset (outs ! 3)"
    using laid(1) unfolding outputs_laid_out_def by blast+
  have mono: "ou_end (outs ! i) \<le> ou_offset (outs ! j)" if "i < j" "j < 4" for i j
  proof -
    from that consider "i = 0" "j = 1" | "i = 0" "j = 2" | "i = 0" "j = 3" | "i = 1" "j = 2" | "i = 1" "j = 3"
      | "i = 2" "j = 3" by linarith
    then show ?thesis using order by cases simp_all
  qed
  show "section_start outs s + ls_size s \<le> ou_offset (outs ! k)" if "ls_output_kind s < k" "k < 4"
  proof -
    have "section_start outs s + ls_size s \<le> ou_end (outs ! ls_output_kind s)"
      using e sz [of "ls_output_kind s"] that by (simp add: section_start_def)
    then show ?thesis using mono [OF that] by linarith
  qed
  show "38 \<le> section_start outs s"
  proof (cases "ls_output_kind s = 0")
    case True
    then show ?thesis using p(2) by (simp add: section_start_def)
  next
    case False
    then have "ou_end (outs ! 0) \<le> ou_offset (outs ! ls_output_kind s)" using mono [of 0] k by simp
    then show ?thesis using L sz [of 0] by (simp add: section_start_def)
  qed
qed

text \<open>Two sections that share a position are one section.\<close>

lemma sections_disjoint:
  assumes laid: "outputs_laid_out outs" "sections_laid_out outs ss" and st: "s \<in> set ss" "t \<in> set ss"
    and s: "section_start outs s \<le> x" "x < section_start outs s + ls_size s"
    and t: "section_start outs t \<le> x" "x < section_start outs t + ls_size t"
  shows "s = t"
proof -
  note S = section_region [OF laid st(1)] and T = section_region [OF laid st(2)]
  have "ls_output_kind s = ls_output_kind t"
  proof (rule ccontr)
    assume "ls_output_kind s \<noteq> ls_output_kind t"
    then consider "ls_output_kind s < ls_output_kind t" | "ls_output_kind t < ls_output_kind s" by linarith
    then show False
      using S(5) [of "ls_output_kind t"] T(5) [of "ls_output_kind s"] S(1) T(1) s t
      by cases (simp_all add: section_start_def)
  qed
  note kinds = this
  obtain i j where ij: "i < length ss" "ss ! i = s" "j < length ss" "ss ! j = t"
    using st by (metis in_set_conv_nth)
  have "sorted_wrt before ss" using laid(2) by (simp add: sections_laid_out_def)
  then have "i < j \<Longrightarrow> before s t" "j < i \<Longrightarrow> before t s" using ij by (auto simp: sorted_wrt_iff_nth_less)
  moreover have "\<not> before s t" "\<not> before t s" using kinds s t by (simp_all add: before_def section_start_def)
  ultimately have "i = j" by linarith
  then show ?thesis using ij by simp
qed

lemma relocated_inside:
  assumes laid: "outputs_laid_out outs" "sections_laid_out outs (all_sections obs1)" and same: "bss_grown outs outs'"
    and obs: "map lo_sections obs2 = map lo_sections obs1" "\<forall>ob \<in> set obs2. relocs_in_range n ob"
    and x: "relocated outs' obs2 x"
  obtains s r where "s \<in> set (all_sections obs1)" "r \<in> set (ls_relocations s)"
    "section_start outs s + unat (lr_offset r) \<le> x" "x < section_start outs s + unat (lr_offset r) + unat (lr_width r)"
    "x < section_start outs s + ls_size s"
proof -
  from x obtain ob s r where ob: "ob \<in> set obs2" "s \<in> set (lo_sections ob)" "r \<in> set (ls_relocations s)"
    and at: "reloc_position outs' s r \<le> x" "x < reloc_position outs' s r + unat (lr_width r)"
    by (auto simp: relocated_def)
  have "all_sections obs2 = all_sections obs1" by (simp only: all_sections_def obs(1))
  moreover have "s \<in> set (all_sections obs2)" using ob(1,2) by (auto simp: all_sections_def)
  ultimately have s: "s \<in> set (all_sections obs1)" by simp
  note S = section_region [OF laid s]
  have r: "unat (lr_offset r) + unat (lr_width r) \<le> ls_size s"
    using obs(2) ob by (auto simp: relocs_in_range_def link_reloc_ok_def)
  have "ls_output_offset s + unat (lr_offset r) < 2 ^ 64" using S(4) r by (simp add: section_start_def SIZE_MAX_def)
  then have "reloc_position outs' s r = section_start outs s + unat (lr_offset r)"
    using bss_grownD(2) [OF same] by (simp add: reloc_position_def section_start_def)
  with at r show thesis by (intro that [OF s ob(3)]) simp_all
qed

lemma patch_entryD:
  assumes "patch_entry outs gs output payload = Inr payload'" and "ou_offset (outs ! 0) = 0"
  obtains m i where "find_global gs (cstr ''main'') = Some m" "gs_defined (gs ! m)"
    "find_global gs (cstr ''cc64_start'') = Some i" "gs_defined (gs ! i)" "22 \<le> length payload"
    "INT32_MIN \<le> to_int64 (gs_address (gs ! i)) - 22" "to_int64 (gs_address (gs ! i)) - 22 \<le> INT32_MAX"
    "payload' = patch payload 18 (write_u32 (word_of_int (to_int64 (gs_address (gs ! i)) - 22)))"
proof -
  have "to_int64 22 = 22" by (simp add: to_int64_def)
  with assms show thesis
    by (auto simp: patch_entry_def Let_def intro: that split: option.splits if_splits)
qed

definition symbol_of :: "link_object list \<Rightarrow> cstring \<Rightarrow> nat option" where
  "symbol_of obs name =
     (case place_objects obs of Inl _ \<Rightarrow> None
      | Inr (outs, obs) \<Rightarrow> (case resolve_symbols (outs, []) obs of Inl _ \<Rightarrow> None
          | Inr ((outs, gs), obs) \<Rightarrow> (case find_global gs name of None \<Rightarrow> None
              | Some i \<Rightarrow> if gs_defined (gs ! i) then Some (gs_address (gs ! i)) else None)))"

definition covers :: "link_relocation \<Rightarrow> nat \<Rightarrow> bool" where
  "covers r i \<longleftrightarrow> unat (lr_offset r) \<le> i \<and> i < unat (lr_offset r) + unat (lr_width r)"

text \<open>
  C3. Every byte of every input section that no relocation of the section covers stands in the
  linked image at the section's place: sections are neither overlapped nor disturbed by the
  trampoline, by each other or by relocations of other sections.
\<close>

theorem linked_sections_kept:
  assumes run: "link_loaded env IMAGE_MZ64 output obs = Inr img" and ok: "\<forall>ob \<in> set obs. link_object_ok ob"
    and place: "place_objects obs = Inr (outs, obs')" and s: "s \<in> set (all_sections obs')" "ls_kind s \<noteq> 3"
    and i: "i < ls_size s" "\<not> list_ex (\<lambda>r. covers r i) (ls_relocations s)"
  shows "\<exists>ld. mz64_read img = Some ld \<and> section_start outs s + i < length (ld_payload ld) \<and>
    ld_payload ld ! (section_start outs s + i) = ls_data s ! i"
  using run ok
proof (rule link_loaded_image)
  fix outs1 obs1 outs2 gs obs2 p m payload0 payload1 items payload
  assume "place_objects obs = Inr (outs1, obs1)" and L1: "outputs_laid_out outs1"
    and L2: "sections_laid_out outs1 (all_sections obs1)" and G: "bss_grown outs1 outs2"
    and obs2: "map lo_sections obs2 = map lo_sections obs1" "\<forall>ob \<in> set obs2. relocs_in_range 4 ob"
    and len: "length payload0 = p" "length payload1 = p" "length payload = p" "p \<le> m" "m \<le> 16 * 1024 * 1024" "0 < p"
    and data: "\<And>i. i < 3 \<Longrightarrow> chunk payload0 (ou_offset (outs2 ! i)) (ou_size (outs2 ! i)) = ou_data (outs2 ! i)"
    and ap: "apply_relocations IMAGE_MZ64 outs2 gs payload0 obs2 = Inr (payload1, items)" "items_ok IMAGE_MZ64 p items"
    and pe: "patch_entry outs2 gs output payload1 = Inr payload"
    and img: "img = (if IMAGE_MZ64 = IMAGE_RAW_COM then payload @ replicate (m - p) 0 else mz64_image 0 m items payload)"
      "length img \<le> UINT32_MAX"
    and ends: "ou_end (outs2 ! 0) \<le> p" "ou_end (outs2 ! 1) \<le> p" "ou_end (outs2 ! 2) \<le> p"
  then have o: "outs1 = outs" "obs1 = obs'" using place by simp_all
  let ?k = "ls_output_kind s" and ?x = "section_start outs s + i"
  note laid = L1 [unfolded o] L2 [unfolded o] and S = section_region [OF L1 [unfolded o] L2 [unfolded o] s(1)]
  have pl: "placed outs s" using laid(2) s(1) by (simp add: sections_laid_out_def)
  then have kind: "?k = unat (ls_kind s)" by (simp add: placed_def)
  have k: "?k < 3"
  proof -
    have "?k \<noteq> 3"
    proof
      assume "?k = 3"
      then have "of_nat (unat (ls_kind s)) = (of_nat 3 :: byte)" using kind by simp
      then show False using s(2) by simp
    qed
    then show ?thesis using S(1) by linarith
  qed
  have same: "outs2 ! ?k = outs ! ?k" using bss_grownD(4) [OF G] k o by simp
  have sz: "ou_size (outs ! ?k) = length (ou_data (outs ! ?k))" using laid(1) k by (simp add: outputs_laid_out_def)
  have fits: "ou_end (outs ! ?k) \<le> p"
  proof -
    from k consider "?k = 0" | "?k = 1" | "?k = 2" by linarith
    then show ?thesis using ends same by cases simp_all
  qed
  have x: "?x < p" using fits S(3) sz i(1) by (simp add: section_start_def)
  have "payload0 ! ?x = ls_data s ! i"
  proof -
    have "ls_data s = chunk (ou_data (outs ! ?k)) (ls_output_offset s) (ls_size s)"
      using pl s(2) by (simp add: placed_def section_content_def)
    then have "ls_data s ! i = ou_data (outs ! ?k) ! (ls_output_offset s + i)" using i(1) S(3) by (simp add: nth_chunk)
    also have "\<dots> = chunk payload0 (ou_offset (outs ! ?k)) (ou_size (outs ! ?k)) ! (ls_output_offset s + i)"
      using data [OF k] same by simp
    also have "\<dots> = payload0 ! ?x" using fits len(1) S(3) sz i(1) by (simp add: nth_chunk section_start_def add.assoc)
    finally show ?thesis by simp
  qed
  moreover have "\<not> relocated outs2 obs2 ?x"
  proof
    assume "relocated outs2 obs2 ?x"
    from relocated_inside [OF L1 L2 G obs2 this] obtain t r where t: "t \<in> set (all_sections obs')"
        "r \<in> set (ls_relocations t)" "section_start outs t + unat (lr_offset r) \<le> ?x"
        "?x < section_start outs t + unat (lr_offset r) + unat (lr_width r)" "?x < section_start outs t + ls_size t"
      unfolding o by blast
    have "s = t" using sections_disjoint [OF laid s(1) t(1), of ?x] t i(1) by simp
    with t i(2) show False by (auto simp: list_ex_iff covers_def)
  qed
  then have "payload1 ! ?x = payload0 ! ?x"
    using apply_relocations_other [OF ap(1) _ _ obs2(2)] x len(1) by simp
  moreover have "payload ! ?x = payload1 ! ?x"
  proof -
    have "ou_offset (outs2 ! 0) = 0" using L1 bss_grownD(2) [OF G] by (simp add: outputs_laid_out_def)
    from pe this show ?thesis by (rule patch_entryD) (use S(2) x len(2) in \<open>simp add: nth_patch\<close>)
  qed
  moreover have "mz64_read img = Some \<lparr>ld_payload = payload, ld_entry = 0,
     ld_memory = m, ld_relocations = map (\<lambda>r. (im_destination r, sint (word_of_int (im_addend r) :: u64))) items\<rparr>"
    unfolding img(1) using len img ap(2) by (simp add: mz64_read_image)
  ultimately show ?thesis using x len(3) by simp
qed

text \<open>
  C17. The program starts: a successful link has a defined \<open>main\<close> and a defined \<open>cc64_start\<close>, the image
  begins with the entry trampoline, and the call in it, at offset 17, has the displacement that leads
  from the byte after the call to the address of \<open>cc64_start\<close>.
\<close>

theorem linked_entry_calls_start:
  assumes run: "link_loaded env IMAGE_MZ64 output obs = Inr img" and ok: "\<forall>ob \<in> set obs. link_object_ok ob"
  shows "\<exists>ld start. mz64_read img = Some ld \<and> symbol_of obs (cstr ''main'') \<noteq> None \<and>
    symbol_of obs (cstr ''cc64_start'') = Some start \<and>
    chunk (ld_payload ld) 0 18 = take 18 entry_stub \<and> chunk (ld_payload ld) 22 16 = drop 22 entry_stub \<and>
    22 + sint (read_u32 (chunk (ld_payload ld) 18 4)) = to_int64 start"
  using run ok
proof (rule link_loaded_image)
  fix outs1 obs1 outs2 gs obs2 p m payload0 payload1 items payload
  assume place: "place_objects obs = Inr (outs1, obs1)" and L1: "outputs_laid_out outs1"
    and res: "resolve_symbols (outs1, []) obs1 = Inr ((outs2, gs), obs2)"
    and L2: "sections_laid_out outs1 (all_sections obs1)" and G: "bss_grown outs1 outs2"
    and obs2: "map lo_sections obs2 = map lo_sections obs1" "\<forall>ob \<in> set obs2. relocs_in_range 4 ob"
    and len: "length payload0 = p" "length payload1 = p" "length payload = p" "p \<le> m" "m \<le> 16 * 1024 * 1024" "0 < p"
    and data: "\<And>i. i < 3 \<Longrightarrow> chunk payload0 (ou_offset (outs2 ! i)) (ou_size (outs2 ! i)) = ou_data (outs2 ! i)"
    and ap: "apply_relocations IMAGE_MZ64 outs2 gs payload0 obs2 = Inr (payload1, items)" "items_ok IMAGE_MZ64 p items"
    and pe: "patch_entry outs2 gs output payload1 = Inr payload"
    and img: "img = (if IMAGE_MZ64 = IMAGE_RAW_COM then payload @ replicate (m - p) 0 else mz64_image 0 m items payload)"
      "length img \<le> UINT32_MAX"
    and ends: "ou_end (outs2 ! 0) \<le> p" "ou_end (outs2 ! 1) \<le> p" "ou_end (outs2 ! 2) \<le> p"
  have zero: "ou_offset (outs2 ! 0) = 0" "outs2 ! 0 = outs1 ! 0" and stub: "take 38 (ou_data (outs1 ! 0)) = entry_stub"
    and sz: "ou_size (outs1 ! 0) = length (ou_data (outs1 ! 0))"
    using L1 bss_grownD(2) [OF G] bss_grownD(4) [OF G, of 0] unfolding outputs_laid_out_def by simp_all
  have n: "38 \<le> length (ou_data (outs1 ! 0))" using stub by (metis length_entry_stub length_take min.cobounded1)
  then have p: "38 \<le> p" using ends(1) zero sz by simp
  have "payload0 ! x = entry_stub ! x" if "x < 38" for x
  proof -
    have "entry_stub ! x = chunk payload0 0 (ou_size (outs1 ! 0)) ! x"
      using data [of 0] zero stub that n by (metis nth_take zero_less_numeral)
    also have "\<dots> = payload0 ! x" using that n sz ends(1) zero len(1) by (simp add: nth_chunk)
    finally show ?thesis by simp
  qed
  moreover have "\<not> relocated outs2 obs2 x" if "x < 38" for x
    using relocated_inside [OF L1 L2 G obs2, of x] section_region(2) [OF L1 L2] that by (metis add_leD1 le_trans not_less)
  ultimately have byte: "payload1 ! x = entry_stub ! x" if "x < 38" for x
    using apply_relocations_other [OF ap(1) _ _ obs2(2), of x] that p len(1) by simp
  have load: "mz64_read img = Some \<lparr>ld_payload = payload, ld_entry = 0,
     ld_memory = m, ld_relocations = map (\<lambda>r. (im_destination r, sint (word_of_int (im_addend r) :: u64))) items\<rparr>"
    unfolding img(1) using len img ap(2) by (simp add: mz64_read_image)
  from pe zero(1) obtain a i where gs: "find_global gs (cstr ''main'') = Some a" "gs_defined (gs ! a)"
    "find_global gs (cstr ''cc64_start'') = Some i" "gs_defined (gs ! i)"
    and d: "INT32_MIN \<le> to_int64 (gs_address (gs ! i)) - 22" "to_int64 (gs_address (gs ! i)) - 22 \<le> INT32_MAX"
    and payload: "payload = patch payload1 18 (write_u32 (word_of_int (to_int64 (gs_address (gs ! i)) - 22)))"
    by (rule patch_entryD) blast
  let ?w = "write_u32 (word_of_int (to_int64 (gs_address (gs ! i)) - 22))"
  have w: "18 + length ?w \<le> length payload1" using p len(2) by simp
  have bytes: "chunk payload k n = chunk entry_stub k n" if "k + n \<le> 18 \<or> 22 \<le> k \<and> k + n \<le> 38" for k n
  proof -
    have "chunk payload k n = chunk payload1 k n"
      unfolding payload using that w by (intro chunk_patch_disjoint) auto
    also have "\<dots> = chunk entry_stub k n"
      using that byte p len(2) by (intro nth_equalityI) (auto simp: nth_chunk)
    finally show ?thesis .
  qed
  have call: "22 + sint (read_u32 (chunk payload 18 4)) = to_int64 (gs_address (gs ! i))"
    unfolding payload using sint_u32_word_of_int [OF d] p len(2) by (subst read_u32_patched) simp_all
  have "symbol_of obs (cstr ''main'') = Some (gs_address (gs ! a))"
    "symbol_of obs (cstr ''cc64_start'') = Some (gs_address (gs ! i))"
    using place res gs by (simp_all add: symbol_of_def)
  then show ?thesis using load bytes [of 0 18] bytes [of 22 16] call by (simp add: chunk_def)
qed

subsection \<open>A sample link\<close>

definition sample_section :: link_section where
  "sample_section = \<lparr>ls_name = cstr ''.text'', ls_kind = 0, ls_alignment = 16,
     ls_data = [0xe8, 0, 0, 0, 0, 0xc3], ls_size = 6,
     ls_relocations = [\<lparr>lr_offset = 1, lr_symbol_index = 0, lr_type = 3, lr_addend = 0, lr_width = 4\<rparr>],
     ls_output_offset = 0, ls_output_kind = 0\<rparr>"

definition sample_symbol :: "cstring \<Rightarrow> nat \<Rightarrow> link_symbol" where
  "sample_symbol name v = \<lparr>ly_name = name, ly_value = v, ly_original_value = v, ly_section_index = 0,
     ly_binding = 1, ly_kind = 2, ly_size = 1, ly_defined = True\<rparr>"

definition sample_object :: link_object where
  "sample_object = \<lparr>lo_bytes = [], lo_sections = [sample_section],
     lo_symbols = [sample_symbol (cstr ''main'') 5, sample_symbol (cstr ''cc64_start'') 0], lo_ranges = []\<rparr>"

definition sample_env :: link_env where
  "sample_env = \<lparr>env_files = (\<lambda>_. CannotOpen), env_remove = (\<lambda>_. True), env_write = (\<lambda>_ _. True)\<rparr>"

lemma sample_object_ok: "link_object_ok sample_object"
proof -
  have "(16 :: nat) = 2 ^ 4" by simp
  then have "(16 :: nat) \<in> (\<lambda>k. 2 ^ k) ` {..15}" by (rule image_eqI) simp
  then show ?thesis
    by (simp add: link_object_ok_def sample_object_def ranges_ok_def object_uncovered_bytes_are_zero_def
        link_section_ok_def sample_section_def link_reloc_ok_def relocation_shape_ok_def link_symbol_ok_def
        sample_symbol_def MIB256_def)
qed

definition sample_text_output :: "byte list" where
  "sample_text_output = entry_stub @ replicate 10 0 @ [0xe8, 0, 0, 0, 0, 0xc3]"

definition sample_outputs :: "output_section list" where
  "sample_outputs = map (\<lambda>(k, a, d, b). \<lparr>ou_kind = k, ou_alignment = a, ou_data = d, ou_size = length d, ou_offset = b\<rparr>)
     [(0, 16, sample_text_output, 0), (1, 16, [], 64), (2, 8, [], 64), (3, 8, [], 64)]"

definition sample_placed :: link_object where
  "sample_placed = sample_object\<lparr>lo_sections := [sample_section\<lparr>ls_output_offset := 48\<rparr>]\<rparr>"

lemma sample_place: "place_objects [sample_object] = Inr (sample_outputs, [sample_placed])"
  by (simp add: place_objects_eq start_outputs_def initial_outputs_def put_section_def index_def
      output_align_to_def mask_off_def output_append_zeros_def output_append_def SIZE_MAX_def
      align_output_def sample_object_def sample_section_def sample_placed_def sample_outputs_def sample_text_output_def
      entry_stub_def)

lemma sample_resolve:
  "resolve_symbols (sample_outputs, []) [sample_placed] =
     Inr ((sample_outputs, [\<lparr>gs_name = cstr ''main'', gs_address = 53, gs_size = 1, gs_defined = True, gs_common = False\<rparr>,
        \<lparr>gs_name = cstr ''cc64_start'', gs_address = 48, gs_size = 1, gs_defined = True, gs_common = False\<rparr>]),
      [sample_placed\<lparr>lo_symbols := [(sample_symbol (cstr ''main'') 5)\<lparr>ly_value := 53\<rparr>,
         (sample_symbol (cstr ''cc64_start'') 0)\<lparr>ly_value := 48\<rparr>]\<rparr>])"
proof -
  have names: "cstr ''main'' \<noteq> cstr ''cc64_start''" by (simp add: cstr_def)
  then show ?thesis
    by (simp add: resolve_symbol_def locate_symbol_def index_def sample_outputs_def add_global_def
        is_common_def resolve_definition_def sample_placed_def sample_object_def sample_section_def sample_symbol_def)
qed


definition sample_globals :: "global_symbol list" where
  "sample_globals = [\<lparr>gs_name = cstr ''main'', gs_address = 53, gs_size = 1, gs_defined = True, gs_common = False\<rparr>,
     \<lparr>gs_name = cstr ''cc64_start'', gs_address = 48, gs_size = 1, gs_defined = True, gs_common = False\<rparr>]"

lemma sample_find: "find_global sample_globals (cstr ''main'') = Some 0"
  "find_global sample_globals (cstr ''cc64_start'') = Some 1"
  by (simp_all add: sample_globals_def cstr_def)

lemma sample_outputs_nth:
  "length sample_outputs = 4" "ou_offset (sample_outputs ! 0) = 0" "ou_size (sample_outputs ! 0) = 54"
  "ou_data (sample_outputs ! 0) = sample_text_output"
  "i \<in> {1, 2, 3} \<Longrightarrow> ou_offset (sample_outputs ! i) = 64 \<and> ou_size (sample_outputs ! i) = 0"
  by (auto simp: sample_outputs_def sample_text_output_def)

lemma sample_extents: "image_extents sample_outputs = Some (64, 64)"
  by (simp add: image_extents_iff sample_outputs_nth SIZE_MAX_def)

lemma sample_flatten:
  "flatten_outputs sample_outputs 64 = (Inr (sample_text_output @ replicate 10 0) :: (diag, byte list) res)"
proof -
  have upt: "[0..<4] = [0, 1, 2, 3 :: nat]" by (simp add: upt_rec)
  have len: "length sample_text_output = 54" by (simp add: sample_text_output_def)
  have "replicate 64 (0 :: byte) = replicate 54 0 @ replicate 10 0" by (simp only: replicate_add [symmetric]) simp
  moreover have "store (replicate 54 (0 :: byte) @ replicate 10 0) 0 sample_text_output = 
      (Inr (sample_text_output @ replicate 10 0) :: (diag, byte list) res)"
    using store_mid [of "[]" 0 "replicate 54 0" sample_text_output "replicate 10 0"] len by simp
  ultimately show ?thesis using len
    by (simp add: flatten_outputs_def upt flatten_output_def index_def sample_outputs_nth fetch_def chunk_def
        del: replicate.simps)
qed

text \<open>The relocation makes the first instruction call \<open>main\<close>: the displacement is 0.\<close>

lemma sample_apply:
  "apply_relocations IMAGE_MZ64 sample_outputs sample_globals (sample_text_output @ replicate 10 0)
     [sample_placed\<lparr>lo_symbols := [(sample_symbol (cstr ''main'') 5)\<lparr>ly_value := 53\<rparr>,
         (sample_symbol (cstr ''cc64_start'') 0)\<lparr>ly_value := 48\<rparr>]\<rparr>] =
     Inr (sample_text_output @ replicate 10 0, [])"
proof -
  have len: "length sample_text_output = 54" by (simp add: sample_text_output_def)
  have g: "gs_defined (sample_globals ! 0)" "gs_address (sample_globals ! 0) = 53" by (simp_all add: sample_globals_def)
  have "write_u32 0 = [0, 0, 0, 0]" by (simp add: write_u32_eq_put put_u32_def)
  then have st: "store (sample_text_output @ replicate 10 0) 49 (write_u32 0) =
      (Inr (sample_text_output @ replicate 10 0) :: (diag, byte list) res)"
    using store_mid [of "entry_stub @ replicate 10 0 @ [0xe8]" 49 "[0, 0, 0, 0]" "[0, 0, 0, 0]" "0xc3 # replicate 10 0"]
    by (simp add: sample_text_output_def)
  have "checked_add_signed 53 0 = Some 53" "to_int64 53 = 53"
    by (simp_all add: checked_add_signed_def INT64_MAX_def to_int64_def)
  then show ?thesis using len g sample_find
    by (simp add: apply_relocations_def apply_section_def apply_relocation_def sample_placed_def sample_object_def
        sample_section_def sample_symbol_def index_def sample_outputs_nth reloc_value_def relocate_at_def
        SIZE_MAX_def INT32_MIN_def INT32_MAX_def st)
qed

lemma sample_patch: "\<exists>payload. length payload = 64 \<and>
    patch_entry sample_outputs sample_globals [] (sample_text_output @ replicate 10 0) = Inr payload"
proof -
  have len: "length sample_text_output = 54" by (simp add: sample_text_output_def)
  have g: "gs_defined (sample_globals ! 0)" "gs_defined (sample_globals ! 1)" "gs_address (sample_globals ! 1) = 48"
    by (simp_all add: sample_globals_def)
  have "to_int64 48 = 48" "to_int64 22 = 22" by (simp_all add: to_int64_def)
  then have "patch_entry sample_outputs sample_globals [] (sample_text_output @ replicate 10 0) =
      Inr (patch (sample_text_output @ replicate 10 0) 18 (write_u32 26))"
    using len g sample_find unfolding patch_entry_def Let_def
    by (simp add: index_def sample_outputs_nth INT32_MIN_def INT32_MAX_def store_def)
  then show ?thesis using len by simp
qed

lemma sample_links: "\<exists>img. link_loaded sample_env IMAGE_MZ64 [] [sample_object] = Inr img"
proof -
  obtain payload where p: "length payload = 64"
    "patch_entry sample_outputs sample_globals [] (sample_text_output @ replicate 10 0) = Inr payload"
    using sample_patch by blast
  note run = linked_image_run [OF sample_outputs_nth(1) sample_extents p(1), of "[]" IMAGE_MZ64 "[]"]
  show ?thesis
    unfolding link_loaded_def sample_place bindE_simps prod.case sample_resolve sample_globals_def [symmetric]
      sample_extents option.case sample_flatten sum.case sample_apply p(2) write_linked_image_def
    using run by (simp add: sample_outputs_nth UINT32_MAX_def sample_env_def)
qed

theorem linked_mz64_loads_witness:
  "\<exists>img ld. link_loaded sample_env IMAGE_MZ64 [] [sample_object] = Inr img \<and> mz64_read img = Some ld \<and>
     ld_entry ld = 0 \<and> ld_memory ld \<le> 16 * 1024 * 1024"
  using sample_links linked_mz64_loads [of sample_env "[]" "[sample_object]"] sample_object_ok by fastforce

theorem linked_sections_kept_witness:
  "\<exists>img ld. link_loaded sample_env IMAGE_MZ64 [] [sample_object] = Inr img \<and> mz64_read img = Some ld \<and>
     ld_payload ld ! 53 = 0xc3"
proof -
  obtain img where "link_loaded sample_env IMAGE_MZ64 [] [sample_object] = Inr img" using sample_links by blast
  moreover have "sample_section\<lparr>ls_output_offset := 48\<rparr> \<in> set (all_sections [sample_placed])"
    by (simp add: all_sections_def sample_placed_def)
  moreover have "\<not> list_ex (\<lambda>r. covers r 5) (ls_relocations (sample_section\<lparr>ls_output_offset := 48\<rparr>))"
    by (simp add: sample_section_def covers_def)
  ultimately have "\<exists>ld. mz64_read img = Some ld \<and>
      section_start sample_outputs (sample_section\<lparr>ls_output_offset := 48\<rparr>) + 5 < length (ld_payload ld) \<and>
      ld_payload ld ! (section_start sample_outputs (sample_section\<lparr>ls_output_offset := 48\<rparr>) + 5) =
        ls_data (sample_section\<lparr>ls_output_offset := 48\<rparr>) ! 5"
    using sample_object_ok
    by (intro linked_sections_kept [OF _ _ sample_place]) (simp_all add: sample_section_def)
  moreover have "section_start sample_outputs (sample_section\<lparr>ls_output_offset := 48\<rparr>) = 48"
    "ls_data sample_section ! 5 = 0xc3"
    by (simp_all add: section_start_def sample_section_def sample_outputs_nth)
  ultimately show ?thesis using \<open>link_loaded sample_env IMAGE_MZ64 [] [sample_object] = Inr img\<close> by auto
qed

theorem linked_entry_calls_start_witness:
  "\<exists>img ld start. link_loaded sample_env IMAGE_MZ64 [] [sample_object] = Inr img \<and> mz64_read img = Some ld \<and>
     symbol_of [sample_object] (cstr ''cc64_start'') = Some start \<and>
     22 + sint (read_u32 (chunk (ld_payload ld) 18 4)) = to_int64 start"
  using sample_links linked_entry_calls_start [of sample_env "[]" "[sample_object]"] sample_object_ok by fastforce

end
