(* ===== verification/Runtime_String.thy ===== *)
theory Runtime_String
  imports Prelude_CC64
begin

text \<open>
  The string routines of the target library (\<open>src/src/runtime/target_string.c\<close>). Memory is one
  buffer and a pointer is an offset into it, so overlapping operands are two offsets that alias;
  a loop that runs off the buffer is \<open>OutOfBounds\<close>. A character argument of type \<open>int\<close> is an
  integer, cast to \<open>unsigned char\<close> by \<open>word_of_int\<close>.
\<close>

definition load :: "byte list \<Rightarrow> nat \<Rightarrow> ('e, byte) res" where
  "load mem a = (if a < length mem then Inr (mem ! a) else Inl OutOfBounds)"

definition put :: "byte list \<Rightarrow> nat \<Rightarrow> byte \<Rightarrow> ('e, byte list) res" where
  "put mem a b = (if a < length mem then Inr (mem[a := b]) else Inl OutOfBounds)"

definition copy_byte :: "nat \<Rightarrow> nat \<Rightarrow> byte list \<Rightarrow> nat \<Rightarrow> ('e, byte list) res" where
  "copy_byte d s mem i = bindE (load mem (s + i)) (put mem (d + i))"

subsection \<open>Blocks\<close>

definition memcpy :: "byte list \<Rightarrow> nat \<Rightarrow> nat \<Rightarrow> nat \<Rightarrow> ('e, byte list) res" where
  "memcpy mem destination source n = foldE (copy_byte destination source) mem [0..<n]"

definition memmove :: "byte list \<Rightarrow> nat \<Rightarrow> nat \<Rightarrow> nat \<Rightarrow> ('e, byte list) res" where
  "memmove mem destination source n =
     (if destination = source \<or> n = 0 then Inr mem
      else if destination < source then foldE (copy_byte destination source) mem [0..<n]
      else foldE (copy_byte destination source) mem (rev [0..<n]))"

definition memset :: "byte list \<Rightarrow> nat \<Rightarrow> int \<Rightarrow> nat \<Rightarrow> ('e, byte list) res" where
  "memset mem destination v n =
     (let b = word_of_int v in foldE (\<lambda>mem i. put mem (destination + i) b) mem [0..<n])"

fun memcmp_from :: "byte list \<Rightarrow> nat \<Rightarrow> nat \<Rightarrow> nat \<Rightarrow> nat \<Rightarrow> ('e, int) res" where
  "memcmp_from mem a b 0 i = Inr 0"
| "memcmp_from mem a b (Suc n) i =
     bindE (load mem (a + i)) (\<lambda>x. bindE (load mem (b + i)) (\<lambda>y.
       if x \<noteq> y then Inr (if x < y then -1 else 1) else memcmp_from mem a b n (Suc i)))"

definition memcmp :: "byte list \<Rightarrow> nat \<Rightarrow> nat \<Rightarrow> nat \<Rightarrow> ('e, int) res" where
  "memcmp mem left right n = memcmp_from mem left right n 0"

subsection \<open>Lengths and copies of strings\<close>

function strlen_from :: "byte list \<Rightarrow> nat \<Rightarrow> nat \<Rightarrow> ('e, nat) res" where
  "strlen_from mem p i =
     (if p + i \<ge> length mem then Inl OutOfBounds
      else if mem ! (p + i) = 0 then Inr i else strlen_from mem p (Suc i))"
  by pat_completeness auto
termination by (relation "measure (\<lambda>(mem, p, i). length mem - (p + i))") auto

definition strlen :: "byte list \<Rightarrow> nat \<Rightarrow> ('e, nat) res" where
  "strlen mem text = strlen_from mem text 0"

text \<open>
  The copying loop of \<open>strcpy\<close> and \<open>strcat\<close>: the source byte is read again in every round, so
  the loop sees what it has written when the operands overlap.
\<close>

function copy_string :: "byte list \<Rightarrow> nat \<Rightarrow> nat \<Rightarrow> nat \<Rightarrow> ('e, byte list) res" where
  "copy_string mem d s i =
     (if s + i \<ge> length mem then Inl OutOfBounds
      else if mem ! (s + i) = 0 then put mem (d + i) 0
      else if d + i \<ge> length mem then Inl OutOfBounds
      else copy_string (mem[d + i := mem ! (s + i)]) d s (Suc i))"
  by pat_completeness auto
termination by (relation "measure (\<lambda>(mem, d, s, i). length mem - (s + i))") auto

definition strcpy :: "byte list \<Rightarrow> nat \<Rightarrow> nat \<Rightarrow> ('e, byte list) res" where
  "strcpy mem destination source = copy_string mem destination source 0"

definition strcat :: "byte list \<Rightarrow> nat \<Rightarrow> nat \<Rightarrow> ('e, byte list) res" where
  "strcat mem destination source =
     bindE (strlen mem destination) (\<lambda>at. copy_string mem (destination + at) source 0)"

fun strncpy_from :: "byte list \<Rightarrow> nat \<Rightarrow> nat \<Rightarrow> nat \<Rightarrow> nat \<Rightarrow> ('e, byte list) res" where
  "strncpy_from mem d s 0 i = Inr mem"
| "strncpy_from mem d s (Suc n) i =
     bindE (load mem (s + i)) (\<lambda>b.
       if b \<noteq> 0 then bindE (put mem (d + i) b) (\<lambda>mem. strncpy_from mem d s n (Suc i))
       else foldE (\<lambda>mem j. put mem (d + j) 0) mem [i..<i + Suc n])"

definition strncpy :: "byte list \<Rightarrow> nat \<Rightarrow> nat \<Rightarrow> nat \<Rightarrow> ('e, byte list) res" where
  "strncpy mem destination source n = strncpy_from mem destination source n 0"

subsection \<open>Comparisons\<close>

function strcmp_from :: "byte list \<Rightarrow> nat \<Rightarrow> nat \<Rightarrow> nat \<Rightarrow> ('e, int) res" where
  "strcmp_from mem a b i =
     (if a + i \<ge> length mem \<or> b + i \<ge> length mem then Inl OutOfBounds
      else let x = mem ! (a + i); y = mem ! (b + i) in
        if x \<noteq> y then Inr (if x < y then -1 else 1)
        else if x = 0 then Inr 0 else strcmp_from mem a b (Suc i))"
  by pat_completeness auto
termination by (relation "measure (\<lambda>(mem, a, b, i). length mem - (a + i))") auto

definition strcmp :: "byte list \<Rightarrow> nat \<Rightarrow> nat \<Rightarrow> ('e, int) res" where
  "strcmp mem left right = strcmp_from mem left right 0"

fun strncmp_from :: "byte list \<Rightarrow> nat \<Rightarrow> nat \<Rightarrow> nat \<Rightarrow> nat \<Rightarrow> ('e, int) res" where
  "strncmp_from mem a b 0 i = Inr 0"
| "strncmp_from mem a b (Suc n) i =
     bindE (load mem (a + i)) (\<lambda>x. bindE (load mem (b + i)) (\<lambda>y.
       if x \<noteq> y then Inr (if x < y then -1 else 1)
       else if x = 0 then Inr 0 else strncmp_from mem a b n (Suc i)))"

definition strncmp :: "byte list \<Rightarrow> nat \<Rightarrow> nat \<Rightarrow> nat \<Rightarrow> ('e, int) res" where
  "strncmp mem left right n = strncmp_from mem left right n 0"

subsection \<open>Searches\<close>

function strchr_from :: "byte list \<Rightarrow> nat \<Rightarrow> byte \<Rightarrow> nat \<Rightarrow> ('e, nat option) res" where
  "strchr_from mem p c i =
     (if p + i \<ge> length mem then Inl OutOfBounds
      else if mem ! (p + i) = c then Inr (Some (p + i))
      else if mem ! (p + i) = 0 then Inr None else strchr_from mem p c (Suc i))"
  by pat_completeness auto
termination by (relation "measure (\<lambda>(mem, p, c, i). length mem - (p + i))") auto

definition strchr :: "byte list \<Rightarrow> nat \<Rightarrow> int \<Rightarrow> ('e, nat option) res" where
  "strchr mem text character = strchr_from mem text (word_of_int character) 0"

function strrchr_from :: "byte list \<Rightarrow> nat \<Rightarrow> byte \<Rightarrow> nat option \<Rightarrow> nat \<Rightarrow> ('e, nat option) res" where
  "strrchr_from mem p c found i =
     (if p + i \<ge> length mem then Inl OutOfBounds
      else let found = (if mem ! (p + i) = c then Some (p + i) else found) in
        if mem ! (p + i) = 0 then Inr found else strrchr_from mem p c found (Suc i))"
  by pat_completeness auto
termination by (relation "measure (\<lambda>(mem, p, c, found, i). length mem - (p + i))") auto

definition strrchr :: "byte list \<Rightarrow> nat \<Rightarrow> int \<Rightarrow> ('e, nat option) res" where
  "strrchr mem text character = strrchr_from mem text (word_of_int character) None 0"

text \<open>The inner loop of \<open>strpbrk\<close>: whether the byte occurs in the accept string.\<close>

function accepts_from :: "byte list \<Rightarrow> nat \<Rightarrow> byte \<Rightarrow> nat \<Rightarrow> ('e, bool) res" where
  "accepts_from mem q c j =
     (if q + j \<ge> length mem then Inl OutOfBounds
      else if mem ! (q + j) = 0 then Inr False
      else if c = mem ! (q + j) then Inr True else accepts_from mem q c (Suc j))"
  by pat_completeness auto
termination by (relation "measure (\<lambda>(mem, q, c, j). length mem - (q + j))") auto

function strpbrk_from :: "byte list \<Rightarrow> nat \<Rightarrow> nat \<Rightarrow> nat \<Rightarrow> ('e, nat option) res" where
  "strpbrk_from mem p q i =
     (if p + i \<ge> length mem then Inl OutOfBounds
      else if mem ! (p + i) = 0 then Inr None
      else case accepts_from mem q (mem ! (p + i)) 0 of
          Inl e \<Rightarrow> Inl e
        | Inr hit \<Rightarrow> if hit then Inr (Some (p + i)) else strpbrk_from mem p q (Suc i))"
  by pat_completeness auto
termination by (relation "measure (\<lambda>(mem, p, q, i). length mem - (p + i))") auto

definition strpbrk :: "byte list \<Rightarrow> nat \<Rightarrow> nat \<Rightarrow> ('e, nat option) res" where
  "strpbrk mem text accept = strpbrk_from mem text accept 0"

text \<open>The inner loop of \<open>strstr\<close>: the offset at which the needle ends or differs.\<close>

function match_from :: "byte list \<Rightarrow> nat \<Rightarrow> nat \<Rightarrow> nat \<Rightarrow> ('e, nat) res" where
  "match_from mem p q k =
     (if q + k \<ge> length mem then Inl OutOfBounds
      else if mem ! (q + k) = 0 then Inr k
      else if p + k \<ge> length mem then Inl OutOfBounds
      else if mem ! (p + k) = mem ! (q + k) then match_from mem p q (Suc k) else Inr k)"
  by pat_completeness auto
termination by (relation "measure (\<lambda>(mem, p, q, k). length mem - (q + k))") auto

function strstr_from :: "byte list \<Rightarrow> nat \<Rightarrow> nat \<Rightarrow> nat \<Rightarrow> ('e, nat option) res" where
  "strstr_from mem p q i =
     (if p + i \<ge> length mem then Inl OutOfBounds
      else if mem ! (p + i) = 0 then Inr None
      else case match_from mem (p + i) q 0 of
          Inl e \<Rightarrow> Inl e
        | Inr k \<Rightarrow> if mem ! (q + k) = 0 then Inr (Some (p + i)) else strstr_from mem p q (Suc i))"
  by pat_completeness auto
termination by (relation "measure (\<lambda>(mem, p, q, i). length mem - (p + i))") auto

definition strstr :: "byte list \<Rightarrow> nat \<Rightarrow> nat \<Rightarrow> ('e, nat option) res" where
  "strstr mem text needle =
     bindE (load mem needle) (\<lambda>b. if b = 0 then Inr (Some text) else strstr_from mem text needle 0)"

declare strlen_from.simps [simp del] copy_string.simps [simp del] strcmp_from.simps [simp del]
  strchr_from.simps [simp del] strrchr_from.simps [simp del] accepts_from.simps [simp del]
  strpbrk_from.simps [simp del] match_from.simps [simp del] strstr_from.simps [simp del]

lemma load_eq [simp]: "load mem a = Inr b \<longleftrightarrow> a < length mem \<and> b = mem ! a"
  and put_eq [simp]: "put mem a b = Inr mem' \<longleftrightarrow> a < length mem \<and> mem' = mem[a := b]"
  by (auto simp: load_def put_def)

subsection \<open>Blocks\<close>

lemma patch_one: "a < length mem \<Longrightarrow> patch mem a [b] = mem[a := b]"
  by (simp add: patch_def upd_conv_take_nth_drop)

lemma patch_snoc:
  "a + Suc (length bs) \<le> length mem \<Longrightarrow> (patch mem a bs)[a + length bs := b] = patch mem a (bs @ [b])"
  by (rule nth_equalityI) (auto simp: nth_patch nth_list_update nth_append)

lemma patch_cons:
  "Suc a + length bs \<le> length mem \<Longrightarrow> (patch mem (Suc a) bs)[a := b] = patch mem a (b # bs)"
  by (rule nth_equalityI) (auto simp: nth_patch nth_list_update nth_Cons')

lemma copy_up:
  assumes "k \<le> n" "d + n \<le> length mem" "s + n \<le> length mem" "d \<le> s \<or> s + n \<le> d"
  shows "foldE (copy_byte d s) mem [0..<k] = (Inr (patch mem d (chunk mem s k)) :: ('e, byte list) res)"
  using assms(1)
proof (induction k)
  case 0
  then show ?case by (simp add: chunk_def patch_def)
next
  case (Suc k)
  let ?m = "patch mem d (chunk mem s k)"
  have len: "length (chunk mem s k) = k" "length ?m = length mem" using Suc.prems assms by simp_all
  have "?m ! (s + k) = mem ! (s + k)" using Suc.prems assms len by (auto simp: nth_patch)
  moreover have "chunk mem s (Suc k) = chunk mem s k @ [mem ! (s + k)]"
    using Suc.prems assms(3) by (simp add: chunk_def take_Suc_conv_app_nth)
  moreover have "?m[d + k := b] = patch mem d (chunk mem s k @ [b])" for b
    using patch_snoc [of d "chunk mem s k" mem b] Suc.prems assms len by simp
  ultimately have "copy_byte d s ?m k = (Inr (patch mem d (chunk mem s (Suc k))) :: ('e, byte list) res)"
    using Suc.prems assms len by (simp add: copy_byte_def)
  with Suc show ?case by (simp add: foldE_append)
qed

lemma copy_down:
  assumes "d + n \<le> length mem" "s + n \<le> length mem" "s \<le> d" "k \<le> n"
  shows "foldE (copy_byte d s) (patch mem (d + k) (chunk mem (s + k) (n - k))) (rev [0..<k]) =
    (Inr (patch mem d (chunk mem s n)) :: ('e, byte list) res)"
  using assms(4)
proof (induction k)
  case 0
  then show ?case by simp
next
  case (Suc k)
  let ?m = "patch mem (d + Suc k) (chunk mem (s + Suc k) (n - Suc k))"
  have len: "length (chunk mem (s + Suc k) (n - Suc k)) = n - Suc k" "length ?m = length mem"
    using Suc.prems assms by simp_all
  have "?m ! (s + k) = mem ! (s + k)" using Suc.prems assms len by (simp add: nth_patch)
  moreover have "?m[d + k := b] = patch mem (d + k) (b # chunk mem (s + Suc k) (n - Suc k))" for b
    using patch_cons [of "d + k" "chunk mem (s + Suc k) (n - Suc k)" mem b] Suc.prems assms len by simp
  moreover have "mem ! (s + k) # chunk mem (s + Suc k) (n - Suc k) = chunk mem (s + k) (n - k)"
    using Suc.prems assms(2)
    by (simp add: chunk_def Cons_nth_drop_Suc [symmetric] take_Suc_Cons [symmetric] Suc_diff_Suc del: take_Suc_Cons)
  ultimately have "copy_byte d s ?m k = (Inr (patch mem (d + k) (chunk mem (s + k) (n - k))) :: ('e, byte list) res)"
    using Suc.prems assms len by (simp add: copy_byte_def)
  with Suc show ?case by simp
qed

text \<open>
  \<open>memmove\<close> moves a block correctly however source and destination overlap: afterwards the
  destination holds what the source held before and every other byte is unchanged.
\<close>

lemma memmove_exact:
  assumes "destination + n \<le> length mem" "source + n \<le> length mem"
  shows "memmove mem destination source n = Inr (patch mem destination (chunk mem source n))"
proof (cases "destination = source \<or> n = 0")
  case True
  then have "patch mem destination (chunk mem source n) = mem"
    using assms by (intro nth_equalityI) (auto simp: nth_patch nth_chunk)
  with True show ?thesis by (simp add: memmove_def)
next
  case False
  then show ?thesis
    using assms copy_up [of n n destination mem source] copy_down [of destination n mem source n]
    by (auto simp: memmove_def patch_def chunk_def)
qed


lemma memmove_exact_witness:
  "memmove [1, 2, 3, 4, 5] 1 0 4 = (Inr [1, 1, 2, 3, 4] :: (unit, byte list) res)"
  using memmove_exact [of 1 4 "[1, 2, 3, 4, 5]" 0] by (simp add: patch_def chunk_def)

lemma memcpy_disjoint:
  assumes "d + n \<le> length mem" "s + n \<le> length mem" "d \<le> s \<or> s + n \<le> d"
  shows "memcpy mem d s n = Inr (patch mem d (chunk mem s n))"
  using copy_up [OF order_refl assms] by (simp add: memcpy_def)

subsection \<open>Strings in memory\<close>

fun string_at :: "byte list \<Rightarrow> nat \<Rightarrow> cstring \<Rightarrow> bool" where
  "string_at mem p [] \<longleftrightarrow> p < length mem \<and> mem ! p = 0"
| "string_at mem p (b # s) \<longleftrightarrow> p < length mem \<and> mem ! p = b \<and> b \<noteq> 0 \<and> string_at mem (Suc p) s"

lemma string_at_end: "string_at mem p s \<Longrightarrow> p + length s < length mem \<and> mem ! (p + length s) = 0"
  by (induction mem p s rule: string_at.induct) auto

lemma string_at_nth: "string_at mem p s \<Longrightarrow> i < length s \<Longrightarrow> mem ! (p + i) = s ! i \<and> s ! i \<noteq> 0"
proof (induction mem p s arbitrary: i rule: string_at.induct)
  case (2 mem p b s)
  then show ?case by (cases i) auto
qed simp

lemma string_at_drop: "string_at mem p s \<Longrightarrow> k \<le> length s \<Longrightarrow> string_at mem (p + k) (drop k s)"
proof (induction mem p s arbitrary: k rule: string_at.induct)
  case (2 mem p b s)
  then show ?case by (cases k) auto
qed simp

lemma string_at_cong:
  "(\<And>i. p \<le> i \<Longrightarrow> i \<le> p + length s \<Longrightarrow> i < length mem \<Longrightarrow> mem' ! i = mem ! i) \<Longrightarrow> length mem' = length mem \<Longrightarrow>
     string_at mem p s \<Longrightarrow> string_at mem' p s"
  by (induction mem p s rule: string_at.induct) auto

lemma strlen_from_at: "string_at mem (p + i) s \<Longrightarrow> strlen_from mem p i = Inr (i + length s)"
proof (induction s arbitrary: i)
  case Nil
  then show ?case by (simp add: strlen_from.simps [of mem p i])
next
  case (Cons b s)
  then show ?case by (simp add: strlen_from.simps [of mem p i])
qed

lemma find_upt_Suc:
  "List.find P [0..<Suc n] = (if P 0 then Some 0 else map_option Suc (List.find (\<lambda>k. P (Suc k)) [0..<n]))"
proof -
  have "List.find P (map Suc xs) = map_option Suc (List.find (\<lambda>k. P (Suc k)) xs)" for xs
    by (induction xs) auto
  moreover have "[0..<Suc n] = 0 # map Suc [0..<n]" by (simp add: map_Suc_upt upt_conv_Cons del: upt_Suc)
  ultimately show ?thesis by simp
qed

text \<open>The reference order on strings: unsigned bytes, the shorter first.\<close>

fun compare_strings :: "cstring \<Rightarrow> cstring \<Rightarrow> int" where
  "compare_strings [] [] = 0"
| "compare_strings [] (y # t) = -1"
| "compare_strings (x # s) [] = 1"
| "compare_strings (x # s) (y # t) = (if x < y then -1 else if y < x then 1 else compare_strings s t)"

lemma compare_strings_props:
  "compare_strings s t = 0 \<longleftrightarrow> s = t"
  "compare_strings s t = -1 \<longleftrightarrow> (s, t) \<in> lexord {(x, y). x < y}"
  "compare_strings s t \<in> {-1, 0, 1}"
  by (induction s t rule: compare_strings.induct) auto

lemma strcmp_from_at:
  "string_at mem (a + i) s \<Longrightarrow> string_at mem (b + i) t \<Longrightarrow> strcmp_from mem a b i = Inr (compare_strings s t)"
proof (induction s t arbitrary: i rule: compare_strings.induct)
  case (2 y t)
  then show ?case by (auto simp: strcmp_from.simps [of mem a b] word_neq_0_conv)
next
  case (4 x s y t)
  then show ?case by (auto simp: strcmp_from.simps [of mem a b i])
qed (auto simp: strcmp_from.simps [of mem a b])

lemma strncmp_from_at:
  "string_at mem (a + i) s \<Longrightarrow> string_at mem (b + i) t \<Longrightarrow>
     strncmp_from mem a b n i = Inr (compare_strings (take n s) (take n t))"
proof (induction n arbitrary: s t i)
  case (Suc n)
  then show ?case
    by (cases s; cases t) (auto simp: load_def word_neq_0_conv)
qed simp

text \<open>
  On two strings that memory holds, \<open>strcmp\<close> returns 0 exactly when they are equal and -1
  exactly when the first comes before the second in the lexicographic order of unsigned bytes;
  \<open>strncmp\<close> is the same on the first \<open>n\<close> bytes.
\<close>

lemma strcmp_lexicographic:
  assumes "string_at mem a s" "string_at mem b t"
  shows "\<exists>r r'. strcmp mem a b = Inr r \<and> strncmp mem a b n = Inr r' \<and>
    r \<in> {-1, 0, 1} \<and> r' \<in> {-1, 0, 1} \<and> (r = 0 \<longleftrightarrow> s = t) \<and> (r' = 0 \<longleftrightarrow> take n s = take n t) \<and>
    (r = -1 \<longleftrightarrow> (s, t) \<in> lexord {(x, y). x < y}) \<and>
    (r' = -1 \<longleftrightarrow> (take n s, take n t) \<in> lexord {(x, y). x < y})"
proof (intro exI conjI)
  show "strcmp mem a b = Inr (compare_strings s t)" unfolding strcmp_def
    by (rule strcmp_from_at) (use assms in simp_all)
  show "strncmp mem a b n = Inr (compare_strings (take n s) (take n t))" unfolding strncmp_def
    by (rule strncmp_from_at) (use assms in simp_all)
qed (rule compare_strings_props)+

lemma strcmp_lexicographic_witness:
  "strcmp [97, 98, 0, 97, 200, 0] 0 3 = (Inr (-1) :: (unit, int) res)"
proof -
  have "string_at [97, 98, 0, 97, 200, 0] 0 [97, 98]" "string_at [97, 98, 0, 97, 200, 0] 3 [97, 200]" by simp_all
  from strcmp_lexicographic [OF this, of 1] show ?thesis by auto
qed

lemma strchr_from_at:
  "string_at mem (p + i) s \<Longrightarrow>
     strchr_from mem p c i = Inr (map_option (\<lambda>k. p + i + k) (List.find (\<lambda>k. (s @ [0]) ! k = c) [0..<Suc (length s)]))"
proof (induction s arbitrary: i)
  case Nil
  then show ?case by (simp add: strchr_from.simps [of mem p])
next
  case (Cons b s)
  have "List.find (\<lambda>k. ((b # s) @ [0]) ! k = c) [0..<Suc (length (b # s))] =
      (if b = c then Some 0 else map_option Suc (List.find (\<lambda>k. (s @ [0]) ! k = c) [0..<Suc (length s)]))"
    unfolding find_upt_Suc [of _ "length (b # s)"] by (simp del: upt_Suc)
  with Cons show ?case
    by (auto simp: strchr_from.simps [of mem p c i] option.map_comp o_def simp del: upt_Suc)
qed

lemma match_from_at:
  "string_at mem (p + k) s \<Longrightarrow> string_at mem (q + k) t \<Longrightarrow>
     \<exists>j. match_from mem p q k = Inr j \<and> (mem ! (q + j) = 0 \<longleftrightarrow> take (length t) s = t)"
proof (induction t arbitrary: s k)
  case Nil
  then show ?case by (simp add: match_from.simps [of mem p q])
next
  case (Cons y t)
  show ?case
  proof (cases s)
    case Nil
    with Cons.prems show ?thesis by (simp add: match_from.simps [of mem p q])
  next
    case s: (Cons x s')
    show ?thesis
    proof (cases "x = y")
      case True
      with Cons.IH [of "Suc k" s'] Cons.prems s show ?thesis by (simp add: match_from.simps [of mem p q k])
    next
      case False
      with Cons.prems s show ?thesis by (simp add: match_from.simps [of mem p q k])
    qed
  qed
qed

lemma strstr_from_at:
  "string_at mem (p + i) s \<Longrightarrow> string_at mem q t \<Longrightarrow> t \<noteq> [] \<Longrightarrow>
     strstr_from mem p q i = (Inr (map_option (\<lambda>k. p + i + k)
       (List.find (\<lambda>k. take (length t) (drop k s) = t) [0..<length s])) :: ('e, nat option) res)"
proof (induction s arbitrary: i)
  case Nil
  then show ?case by (simp add: strstr_from.simps [of mem p q])
next
  case (Cons b s)
  have "List.find (\<lambda>k. take (length t) (drop k (b # s)) = t) [0..<length (b # s)] =
      (if take (length t) (b # s) = t then Some 0
       else map_option Suc (List.find (\<lambda>k. take (length t) (drop k s) = t) [0..<length s]))"
    unfolding list.size add_Suc_right add_0_right find_upt_Suc by (simp del: upt_Suc)
  moreover obtain j where "match_from mem (p + i) q 0 = (Inr j :: ('e, nat) res)" "mem ! (q + j) = 0 \<longleftrightarrow> take (length t) (b # s) = t"
    using match_from_at [of mem "p + i" 0 "b # s" q t] Cons.prems(1,2) by auto
  moreover have "string_at mem (p + Suc i) s" using Cons.prems(1) by simp
  note Cons.IH [OF this Cons.prems(2,3)]
  ultimately show ?case using Cons.prems(1)
    by (auto simp: strstr_from.simps [of mem p q i] option.map_comp o_def simp del: upt_Suc)
qed

text \<open>
  \<open>strstr\<close> finds the first occurrence of the needle: the result is the address of the least
  position at which the text continues with the needle, and no position if there is none.
\<close>

lemma strstr_first:
  assumes "string_at mem p s" "string_at mem q t"
  shows "strstr mem p q = Inr (map_option (\<lambda>k. p + k)
    (List.find (\<lambda>k. take (length t) (drop k s) = t) [0..<Suc (length s)]))"
proof (cases "t = []")
  case True
  then show ?thesis using assms(2) by (simp add: strstr_def load_def upt_conv_Cons del: upt_Suc)
next
  case False
  then obtain b t' where t: "t = b # t'" by (cases t) auto
  have "List.find (\<lambda>k. take (length t) (drop k s) = t) [0..<Suc (length s)] =
    List.find (\<lambda>k. take (length t) (drop k s) = t) [0..<length s]"
  proof -
    have "List.find P (xs @ [x]) = (if \<not> P x then List.find P xs else List.find P (xs @ [x]))" for P xs and x :: nat
      by (induction xs) auto
    from this [of "\<lambda>k. take (length t) (drop k s) = t" "[0..<length s]" "length s"] False show ?thesis by simp
  qed
  then show ?thesis using strstr_from_at [of mem p 0 s q t] assms False t by (simp add: strstr_def load_def)
qed

lemma strstr_first_witness:
  "strstr [97, 97, 98, 0, 97, 98, 0] 0 4 = (Inr (Some 1) :: (unit, nat option) res)"
proof -
  have "string_at [97, 97, 98, 0, 97, 98, 0] 0 [97, 97, 98]" "string_at [97, 97, 98, 0, 97, 98, 0] 4 [97, 98]" by simp_all
  from strstr_first [OF this] show ?thesis by (simp add: upt_rec)
qed

subsection \<open>Copies\<close>

lemma patch_update:
  "Suc a + length bs \<le> length mem \<Longrightarrow> patch (mem[a := b]) (Suc a) bs = patch mem a (b # bs)"
  by (rule nth_equalityI) (auto simp: nth_patch nth_list_update nth_Cons')

lemma copy_string_at:
  "string_at mem (s + i) str \<Longrightarrow> d + i + length str < length mem \<Longrightarrow>
     d + i + length str < s + i \<or> s + i + length str < d + i \<Longrightarrow>
     copy_string mem d s i = (Inr (patch mem (d + i) (str @ [0])) :: ('e, byte list) res)"
proof (induction str arbitrary: mem i)
  case Nil
  then show ?case by (simp add: copy_string.simps [of mem d s i] put_def patch_one)
next
  case (Cons b str)
  let ?m = "mem[d + i := b]"
  have "string_at ?m (s + Suc i) str"
    by (rule string_at_cong [of _ _ mem]) (use Cons.prems in \<open>auto simp: nth_list_update\<close>)
  from Cons.IH [OF this] have "copy_string ?m d s (Suc i) = (Inr (patch ?m (d + Suc i) (str @ [0])) :: ('e, byte list) res)"
    using Cons.prems by auto
  then show ?case using Cons.prems patch_update [of "d + i" "str @ [0]" mem b]
    by (simp add: copy_string.simps [of mem d s i])
qed

lemma string_at_patched:
  "p + length str < length mem \<Longrightarrow> is_cstring str \<Longrightarrow> string_at (patch mem p (str @ [0])) p str"
proof -
  have "\<lbrakk>q + length t < length m; 0 \<notin> set t; \<forall>i < length t. m ! (q + i) = t ! i; m ! (q + length t) = 0\<rbrakk> \<Longrightarrow> string_at m q t"
    for m q t
  proof (induction t arbitrary: q)
    case (Cons b t)
    have "\<forall>i < length t. m ! (Suc q + i) = t ! i" using Cons.prems(3) by (auto dest: spec [of _ "Suc _"])
    with Cons show ?case by (auto dest: spec [of _ 0])
  qed simp
  then show "p + length str < length mem \<Longrightarrow> is_cstring str \<Longrightarrow> ?thesis"
    by (auto simp: nth_patch nth_append is_cstring_def)
qed

lemma string_at_cstring: "string_at mem p s \<Longrightarrow> is_cstring s"
  by (induction mem p s rule: string_at.induct) (auto simp: is_cstring_def)

lemma zero_fill:
  "d + i + n \<le> length mem \<Longrightarrow>
     foldE (\<lambda>mem j. put mem (d + j) 0) mem [i..<i + n] = Inr (patch mem (d + i) (replicate n 0))"
proof (induction n arbitrary: mem i)
  case 0
  then show ?case by (simp add: patch_def)
next
  case (Suc n)
  have "[i..<i + Suc n] = i # [Suc i..<Suc i + n]" by (simp add: upt_conv_Cons del: upt_Suc)
  with Suc.IH [of "Suc i" "mem[d + i := 0]"] Suc.prems patch_update [of "d + i" "replicate n 0" mem 0]
  show ?case by (simp add: put_def del: upt_Suc)
qed

lemma strncpy_from_at:
  "string_at mem (s + i) str \<Longrightarrow> d + i + n \<le> length mem \<Longrightarrow> d + i + n \<le> s + i \<or> s + i + length str < d + i \<Longrightarrow>
     strncpy_from mem d s n i = (Inr (patch mem (d + i) (take n (str @ replicate n 0))) :: ('e, byte list) res)"
proof (induction n arbitrary: mem i str)
  case 0
  then show ?case by (simp add: patch_def)
next
  case (Suc n)
  show ?case
  proof (cases str)
    case Nil
    then show ?thesis using Suc.prems zero_fill [of d i "Suc n" mem] by (simp add: load_def del: upt_Suc)
  next
    case (Cons b str')
    let ?m = "mem[d + i := b]"
    have "string_at ?m (s + Suc i) str'"
      by (rule string_at_cong [of _ _ mem]) (use Suc.prems Cons in \<open>auto simp: nth_list_update\<close>)
    from Suc.IH [OF this] have "strncpy_from ?m d s n (Suc i) =
        (Inr (patch ?m (d + Suc i) (take n (str' @ replicate n 0))) :: ('e, byte list) res)" using Suc.prems Cons by auto
    then show ?thesis using Suc.prems Cons patch_update [of "d + i" "take n (str' @ replicate n 0)" mem b]
      by (simp add: load_def put_def replicate_append_same [symmetric] del: replicate.simps)
  qed
qed

text \<open>
  The string copies, for a destination that does not overlap the source string: \<open>strcpy\<close> writes
  the string and its terminator, \<open>strcat\<close> writes them behind the string that is there, so that
  memory then holds the concatenation, and \<open>strncpy\<close> writes exactly \<open>n\<close> bytes, padded with zeros.
\<close>

lemma string_copies:
  assumes s: "string_at mem source s" and t: "string_at mem destination t"
    and fits: "destination + length t + length s < length mem" "destination + n \<le> length mem"
    and apart: "destination + length t + length s < source \<or> source + length s < destination"
      "destination + n \<le> source \<or> source + length s < destination"
  shows "strcpy mem destination source = (Inr (patch mem destination (s @ [0])) :: ('e, byte list) res) \<and>
    strncpy mem destination source n = (Inr (patch mem destination (take n (s @ replicate n 0))) :: ('e, byte list) res) \<and>
    (\<exists>mem'. strcat mem destination source = (Inr mem' :: ('e, byte list) res) \<and> string_at mem' destination (t @ s) \<and>
       mem' = patch mem (destination + length t) (s @ [0]))"
proof (intro conjI exI)
  show "strcpy mem destination source = (Inr (patch mem destination (s @ [0])) :: ('e, byte list) res)"
    using copy_string_at [of mem source 0 s destination] s fits apart by (auto simp: strcpy_def)
  show "strncpy mem destination source n = (Inr (patch mem destination (take n (s @ replicate n 0))) :: ('e, byte list) res)"
    using strncpy_from_at [of mem source 0 s destination n] s fits apart by (auto simp: strncpy_def)
  let ?m = "patch mem (destination + length t) (s @ [0])"
  show "strcat mem destination source = (Inr ?m :: ('e, byte list) res)"
    using copy_string_at [of mem source 0 s "destination + length t"] strlen_from_at [of mem destination 0 t] s t fits apart
    by (auto simp: strcat_def strlen_def)
  have "?m = patch mem destination ((t @ s) @ [0])"
  proof (rule nth_equalityI)
    fix i assume "i < length ?m"
    then show "?m ! i = patch mem destination ((t @ s) @ [0]) ! i"
      using fits(1) string_at_nth [OF t, of "i - destination"] by (auto simp: nth_patch nth_append)
  qed (use fits in simp)
  then show "string_at ?m destination (t @ s)"
    using string_at_patched [of destination "t @ s" mem] string_at_cstring [OF s] string_at_cstring [OF t] fits(1)
    by (auto simp: is_cstring_def)
qed simp

lemma string_copies_witness:
  "strcpy [97, 0, 0, 0, 98, 0] 0 4 = (Inr [98, 0, 0, 0, 98, 0] :: (unit, byte list) res) \<and>
   strcat [97, 0, 0, 0, 98, 0] 0 4 = (Inr [97, 98, 0, 0, 98, 0] :: (unit, byte list) res) \<and>
   strncpy [97, 0, 0, 0, 98, 0] 0 4 3 = (Inr [98, 0, 0, 0, 98, 0] :: (unit, byte list) res)"
proof -
  have "string_at [97, 0, 0, 0, 98, 0] 4 [98]" "string_at [97, 0, 0, 0, 98, 0] 0 [97]" by simp_all
  from string_copies [OF this, of 3, where 'e = unit] show ?thesis
    by (auto simp: patch_def numeral_eq_Suc)
qed

end
