(* ===== verification/Runtime_Stdlib.thy ===== *)
theory Runtime_Stdlib
  imports Runtime_String "HOL-Library.Multiset"
begin

text \<open>
  Character classification (\<open>src/src/runtime/target_ctype.c\<close>) and the conversions, the
  pseudo-random numbers and the sort of \<open>src/src/runtime/target_stdlib.c\<close>. An \<open>int\<close> is an integer;
  a predicate is a boolean; a conversion returns its value, the address where it stopped and
  whether it set \<open>errno\<close> to \<open>ERANGE\<close>.
\<close>

subsection \<open>Characters\<close>

definition isdigit :: "int \<Rightarrow> bool" where
  "isdigit c \<longleftrightarrow> c \<ge> 48 \<and> c \<le> 57"

definition isxdigit :: "int \<Rightarrow> bool" where
  "isxdigit c \<longleftrightarrow> (if c \<ge> 48 \<and> c \<le> 57 then True else if c \<ge> 97 \<and> c \<le> 102 then True
                  else if c \<ge> 65 \<and> c \<le> 70 then True else False)"

definition islower :: "int \<Rightarrow> bool" where
  "islower c \<longleftrightarrow> c \<ge> 97 \<and> c \<le> 122"

definition isupper :: "int \<Rightarrow> bool" where
  "isupper c \<longleftrightarrow> c \<ge> 65 \<and> c \<le> 90"

definition isalpha :: "int \<Rightarrow> bool" where
  "isalpha c \<longleftrightarrow> islower c \<or> isupper c"

definition isalnum :: "int \<Rightarrow> bool" where
  "isalnum c \<longleftrightarrow> isalpha c \<or> isdigit c"

definition isspace :: "int \<Rightarrow> bool" where
  "isspace c \<longleftrightarrow> c = 32 \<or> c = 9 \<or> c = 10 \<or> c = 13 \<or> c = 11 \<or> c = 12"

definition isblank :: "int \<Rightarrow> bool" where
  "isblank c \<longleftrightarrow> c = 32 \<or> c = 9"

definition iscntrl :: "int \<Rightarrow> bool" where
  "iscntrl c \<longleftrightarrow> (c \<ge> 0 \<and> c < 32) \<or> c = 127"

definition isprint :: "int \<Rightarrow> bool" where
  "isprint c \<longleftrightarrow> c \<ge> 32 \<and> c < 127"

definition isgraph :: "int \<Rightarrow> bool" where
  "isgraph c \<longleftrightarrow> c > 32 \<and> c < 127"

definition ispunct :: "int \<Rightarrow> bool" where
  "ispunct c \<longleftrightarrow> isgraph c \<and> \<not> isalnum c"

definition tolower :: "int \<Rightarrow> int" where
  "tolower c = (if isupper c then c + 32 else c)"

definition toupper :: "int \<Rightarrow> int" where
  "toupper c = (if islower c then c - 32 else c)"

lemmas ctype_defs = isdigit_def isxdigit_def islower_def isupper_def isalpha_def isalnum_def isspace_def
  isblank_def iscntrl_def isprint_def isgraph_def ispunct_def tolower_def toupper_def

subsection \<open>Conversions\<close>

definition CC64_LONG_MAX :: u64 where "CC64_LONG_MAX = 0x7FFFFFFFFFFFFFFF"
definition CC64_LONG_MIN :: u64 where "CC64_LONG_MIN = 0x8000000000000000"
definition CC64_ULONG_MAX :: u64 where "CC64_ULONG_MAX = 0xFFFFFFFFFFFFFFFF"

function skip_space :: "byte list \<Rightarrow> nat \<Rightarrow> ('e, nat) res" where
  "skip_space mem cursor =
     (if cursor \<ge> length mem then Inl OutOfBounds
      else if isspace (uint (mem ! cursor)) then skip_space mem (Suc cursor) else Inr cursor)"
  by pat_completeness auto
termination by (relation "measure (\<lambda>(mem, c). length mem - c)") auto

definition digit_of :: "byte \<Rightarrow> int" where
  "digit_of b =
     (if b \<ge> 48 \<and> b \<le> 57 then uint b - 48
      else if b \<ge> 97 \<and> b \<le> 122 then uint b - 97 + 10
      else if b \<ge> 65 \<and> b \<le> 90 then uint b - 65 + 10 else - 1)"

function convert_digits ::
  "byte list \<Rightarrow> u32 \<Rightarrow> u64 \<Rightarrow> nat \<Rightarrow> u64 \<Rightarrow> bool \<Rightarrow> ('e, u64 \<times> nat \<times> bool) res" where
  "convert_digits mem limit_base ceiling cursor v overflow =
     (if cursor \<ge> length mem then Inl OutOfBounds
      else let digit = digit_of (mem ! cursor) in
        if digit < 0 \<or> word_of_int digit \<ge> limit_base then Inr (v, cursor, overflow)
        else let d = word_of_int digit :: u64; base = ucast limit_base :: u64;
                 overflow = (if v > (ceiling - d) div base then True else overflow)
             in convert_digits mem limit_base ceiling (Suc cursor) (v * base + d) overflow)"
  by pat_completeness auto
termination by (relation "measure (\<lambda>(mem, b, c, cursor, v, overflow). length mem - cursor)") auto

definition convert_unsigned ::
  "byte list \<Rightarrow> nat \<Rightarrow> int \<Rightarrow> u64 \<Rightarrow> ('e, u64 \<times> nat \<times> bool) res" where
  "convert_unsigned mem text base ceiling =
     bindE (skip_space mem text) (\<lambda>cursor.
     bindE (load mem cursor) (\<lambda>b0.
     let cursor = (if b0 = 43 then Suc cursor else cursor) in
     bindE (if base = 0 \<or> base = 16 then bindE (load mem cursor) (\<lambda>b.
              if b = 48 then bindE (load mem (Suc cursor)) (\<lambda>x. Inr (x = 120 \<or> x = 88)) else Inr False)
            else Inr False) (\<lambda>prefixed.
     bindE (if prefixed then Inr (cursor + 2, 16)
            else if base = 0 then bindE (load mem cursor) (\<lambda>b. Inr (cursor, if b = 48 then 8 else 10))
            else Inr (cursor, base)) (\<lambda>(cursor, base).
     convert_digits mem (word_of_int base) ceiling cursor 0 False))))"

definition strtoul :: "byte list \<Rightarrow> nat \<Rightarrow> int \<Rightarrow> ('e, u64 \<times> nat \<times> bool) res" where
  "strtoul mem text base = convert_unsigned mem text base CC64_ULONG_MAX"

definition strtol :: "byte list \<Rightarrow> nat \<Rightarrow> int \<Rightarrow> ('e, int \<times> nat \<times> bool) res" where
  "strtol mem text base =
     bindE (skip_space mem text) (\<lambda>cursor.
     bindE (load mem cursor) (\<lambda>b.
     let negative = (b = 45) in
     bindE (convert_unsigned mem text base (CC64_LONG_MAX + 1)) (\<lambda>(magnitude, stop, overflow).
     if overflow then Inr (sint (if negative then CC64_LONG_MIN else CC64_LONG_MAX), stop, True)
     else if negative then
       (if magnitude > CC64_LONG_MAX + 1 then Inr (sint CC64_LONG_MIN, stop, True)
        else Inr (sint (CC64_LONG_MIN + magnitude), stop, False))
     else if magnitude > CC64_LONG_MAX then Inr (sint CC64_LONG_MAX, stop, True)
     else Inr (sint magnitude, stop, False))))"

definition atoi :: "byte list \<Rightarrow> nat \<Rightarrow> ('e, int) res" where
  "atoi mem text = bindE (strtol mem text 10) (\<lambda>(v, stop, overflow). Inr (sint (word_of_int v :: u32)))"

definition strtoimax :: "byte list \<Rightarrow> nat \<Rightarrow> int \<Rightarrow> ('e, int \<times> nat \<times> bool) res" where
  "strtoimax mem text base = bindE (strtoul mem text base) (\<lambda>(v, stop, overflow). Inr (sint v, stop, overflow))"

subsection \<open>Random numbers\<close>

definition rand :: "u64 \<Rightarrow> int \<times> u64" where
  "rand next_random =
     (let next_random = next_random * 1103515245 + 12345
      in (uint (drop_bit 16 next_random AND 0x7FFF), next_random))"

definition srand :: "u32 \<Rightarrow> u64" where
  "srand seed = ucast seed"

subsection \<open>Sorting\<close>

text \<open>The items are the list of their values; \<open>slot\<close> is the saved item being inserted.\<close>

fun insert_slot :: "('a \<Rightarrow> 'a \<Rightarrow> int) \<Rightarrow> 'a list \<Rightarrow> 'a \<Rightarrow> nat \<Rightarrow> 'a list" where
  "insert_slot compare items slot 0 = items[0 := slot]"
| "insert_slot compare items slot (Suc p) =
     (if compare (items ! p) slot > 0
      then insert_slot compare (items[Suc p := items ! p]) slot p
      else items[Suc p := slot])"

text \<open>A refused slot allocation leaves the items as they are.\<close>

definition qsort :: "bool \<Rightarrow> nat \<Rightarrow> ('a \<Rightarrow> 'a \<Rightarrow> int) \<Rightarrow> 'a list \<Rightarrow> 'a list" where
  "qsort slot_allocated item_size compare items =
     (if item_size = 0 \<or> length items < 2 then items
      else if \<not> slot_allocated then items
      else foldl (\<lambda>items index. insert_slot compare items (items ! index) index) items [1..<length items])"

declare skip_space.simps [simp del] convert_digits.simps [simp del]

subsection \<open>Sorting\<close>

lemma insert_slot_length [simp]: "length (insert_slot cmp xs x p) = length xs"
  by (induction p arbitrary: xs) auto

text \<open>What one insertion does to a prefix: the item moves behind the last item not greater.\<close>

lemma insert_slot_prefix:
  assumes "\<And>a b. compare a b > 0 \<longleftrightarrow> (key a :: 'k :: linorder) > key b"
  shows "length ys = p \<Longrightarrow> sorted (map key ys) \<Longrightarrow>
    insert_slot compare (ys @ y # zs) x p = takeWhile (\<lambda>a. key a \<le> key x) ys @ x # dropWhile (\<lambda>a. key a \<le> key x) ys @ zs"
proof (induction p arbitrary: ys y zs)
  case 0
  then show ?case by simp
next
  case (Suc p)
  then obtain us u where ys: "ys = us @ [u]" "length us = p" by (metis length_Suc_conv_rev)
  show ?case
  proof (cases "key u > key x")
    case True
    have "insert_slot compare (ys @ y # zs) x (Suc p) = insert_slot compare (us @ u # u # zs) x p"
      using True ys assms by (simp add: nth_append list_update_append)
    also have "\<dots> = takeWhile (\<lambda>a. key a \<le> key x) us @ x # dropWhile (\<lambda>a. key a \<le> key x) us @ u # zs"
      using Suc.IH [OF ys(2)] Suc.prems(2) ys(1) by (simp add: sorted_append)
    finally show ?thesis
      using True dropWhile_append3 [of "\<lambda>a. key a \<le> key x" u us "[]"] by (simp add: ys takeWhile_tail)
  next
    case False
    have "key a \<le> key x" if "a \<in> set ys" for a
      using that False Suc.prems(2) ys by (fastforce simp: sorted_append)
    then have "takeWhile (\<lambda>a. key a \<le> key x) ys = ys" "dropWhile (\<lambda>a. key a \<le> key x) ys = []" by auto
    with False ys assms show ?thesis by (simp add: nth_append list_update_append)
  qed
qed

lemma insort_split:
  "sorted (map key ys) \<Longrightarrow>
     sorted (map key (takeWhile (\<lambda>a. key a \<le> key x) ys @ x # dropWhile (\<lambda>a. key a \<le> key x) ys)) \<and>
     mset (takeWhile (\<lambda>a. key a \<le> key x) ys @ x # dropWhile (\<lambda>a. key a \<le> key x) ys) = add_mset x (mset ys) \<and>
     (\<forall>k. filter (\<lambda>a. key a = k) (takeWhile (\<lambda>a. key a \<le> key x) ys @ x # dropWhile (\<lambda>a. key a \<le> key x) ys) =
          filter (\<lambda>a. key a = k) (ys @ [x]))"
proof (induction ys)
  case (Cons y ys)
  show ?case
  proof (cases "key y \<le> key x")
    case True
    with Cons show ?thesis by (auto simp: ball_Un dest: set_takeWhileD set_dropWhileD)
  next
    case False
    with Cons.prems have "\<forall>a \<in> set (y # ys). key x < key a" by auto
    then have "filter (\<lambda>a. key a = key x) (y # ys) = []" by (auto simp: filter_empty_conv)
    with False Cons.prems \<open>\<forall>a \<in> set (y # ys). key x < key a\<close> show ?thesis by (auto intro: less_imp_le)
  qed
qed simp

text \<open>
  C23. \<open>qsort\<close> is a stable sort: with a comparison that orders items by a key, the result is the
  library's stable sort of the items by that key, so it holds the same items, in ascending order,
  and equal items keep their order.
\<close>

theorem qsort_stable:
  assumes "\<And>a b. compare a b > 0 \<longleftrightarrow> (key a :: 'k :: linorder) > key b" and "0 < item_size"
  shows "qsort True item_size compare items = sort_key key items"
proof -
  let ?step = "\<lambda>items index. insert_slot compare items (items ! index) index"
  have loop: "\<exists>ys. foldl ?step items [1..<n] = ys @ drop n items \<and> mset ys = mset (take n items) \<and>
      sorted (map key ys) \<and> (\<forall>k. filter (\<lambda>a. key a = k) ys = filter (\<lambda>a. key a = k) (take n items))"
    if "1 \<le> n" "n \<le> length items" for n
    using that
  proof (induction n rule: dec_induct)
    case base
    then show ?case by (intro exI [of _ "take 1 items"]) (cases items, auto)
  next
    case (step n)
    then obtain ys where ys: "foldl ?step items [1..<n] = ys @ drop n items" "mset ys = mset (take n items)"
      "sorted (map key ys)" "\<forall>k. filter (\<lambda>a. key a = k) ys = filter (\<lambda>a. key a = k) (take n items)" by auto
    have len: "length ys = n" using ys(2) step.prems by (metis length_take min.absorb2 size_mset Suc_leD)
    let ?x = "items ! n"
    let ?ys = "takeWhile (\<lambda>a. key a \<le> key ?x) ys @ ?x # dropWhile (\<lambda>a. key a \<le> key ?x) ys"
    have d: "drop n items = ?x # drop (Suc n) items" using step.prems by (simp add: Cons_nth_drop_Suc)
    have t: "take (Suc n) items = take n items @ [?x]" using step.prems by (simp add: take_Suc_conv_app_nth)
    have "foldl ?step items [1..<Suc n] = insert_slot compare (ys @ drop n items) ((ys @ drop n items) ! n) n"
      using step.hyps ys(1) by simp
    also have "\<dots> = ?ys @ drop (Suc n) items"
      unfolding d using insert_slot_prefix [of compare key, OF assms(1) len ys(3)] len by (simp add: nth_append)
    finally have "foldl ?step items [1..<Suc n] = ?ys @ drop (Suc n) items" .
    with insort_split [OF ys(3), of ?x] ys(2,4) t show ?case by (intro exI [of _ ?ys]) simp
  qed
  show ?thesis
  proof (cases "length items < 2")
    case True
    then have "sort_key key items = items" by (cases items; cases "tl items") auto
    with True show ?thesis by (simp add: qsort_def)
  next
    case False
    obtain ys where ys: "foldl ?step items [1..<length items] = ys" "mset ys = mset items" "sorted (map key ys)"
      "\<forall>k. filter (\<lambda>a. key a = k) ys = filter (\<lambda>a. key a = k) items"
      using loop [of "length items"] False by auto
    have "sort_key key items = ys"
    proof (rule properties_for_sort_key)
      fix k
      show "filter (\<lambda>x. key k = key x) ys = filter (\<lambda>x. key k = key x) items"
        using spec [OF ys(4), of "key k"] by (simp only: eq_commute [of "key k"])
    qed (use ys(2,3) in simp_all)
    with ys(1) False assms(2) show ?thesis by (simp add: qsort_def)
  qed
qed

theorem qsort_stable_witness:
  "qsort True 8 (\<lambda>a b :: int \<times> int. fst a - fst b) [(2, 1), (1, 2), (2, 3), (1, 4)] = [(1, 2), (1, 4), (2, 1), (2, 3)]"
  using qsort_stable [of "\<lambda>a b :: int \<times> int. fst a - fst b" fst 8] by simp

subsection \<open>Conversions\<close>

definition digit_in :: "nat \<Rightarrow> byte \<Rightarrow> bool" where
  "digit_in base b \<longleftrightarrow> 0 \<le> digit_of b \<and> digit_of b < int base"

definition digits_value :: "nat \<Rightarrow> nat \<Rightarrow> byte list \<Rightarrow> nat" where
  "digits_value base = foldl (\<lambda>v b. v * base + nat (digit_of b))"

lemma digit_of_less: "digit_of b < 36"
proof -
  have "uint b \<le> 57" if "b \<le> 57" using that by (simp add: word_le_def)
  moreover have "uint b \<le> 122" if "b \<le> 122" using that by (simp add: word_le_def)
  moreover have "uint b \<le> 90" if "b \<le> 90" using that by (simp add: word_le_def)
  ultimately show ?thesis by (auto simp: digit_of_def)
qed

lemma unat_small: "0 \<le> d \<Longrightarrow> d < 36 \<Longrightarrow> unat (word_of_int d :: u32) = nat d"
  "0 \<le> d \<Longrightarrow> d < 36 \<Longrightarrow> unat (word_of_int d :: u64) = nat d"
proof -
  have "int (unat (word_of_int d :: u32)) = d" "int (unat (word_of_int d :: u64)) = d" if "0 \<le> d" "d < 36"
    using that by (simp_all add: uint_word_of_int)
  then show "0 \<le> d \<Longrightarrow> d < 36 \<Longrightarrow> unat (word_of_int d :: u32) = nat d"
    "0 \<le> d \<Longrightarrow> d < 36 \<Longrightarrow> unat (word_of_int d :: u64) = nat d" by linarith+
qed

lemma overflow_test:
  assumes "d < base" "2 \<le> base" "base \<le> 36" "35 \<le> unat (ceiling :: u64)"
  shows "v > (ceiling - of_nat d) div of_nat base \<longleftrightarrow> unat v * base + d > unat ceiling"
proof -
  have d: "unat (of_nat d :: u64) = d" and b: "unat (of_nat base :: u64) = base"
    using assms by (simp_all add: unat_of_nat)
  have "(of_nat d :: u64) \<le> ceiling" using d assms by (simp add: word_le_nat_alt)
  then have "unat (ceiling - of_nat d) = unat ceiling - d" using d by (simp add: unat_sub)
  then have "unat ((ceiling - of_nat d) div of_nat base) = (unat ceiling - d) div base" using b by (simp add: unat_div)
  moreover have "(unat ceiling - d) div base < unat v \<longleftrightarrow> unat ceiling - d < unat v * base"
    using assms(2) by (simp add: div_less_iff_less_mult)
  ultimately show ?thesis using assms by (auto simp: word_less_nat_alt)
qed

lemma convert_digits_value:
  "\<forall>b \<in> set bs. digit_in base b \<Longrightarrow> chunk mem c (length bs) = bs \<Longrightarrow> c + length bs < length mem \<Longrightarrow>
     \<not> digit_in base (mem ! (c + length bs)) \<Longrightarrow> overflow = (V > unat ceiling) \<Longrightarrow>
     2 \<le> base \<Longrightarrow> base \<le> 36 \<Longrightarrow> 35 \<le> unat ceiling \<Longrightarrow>
     convert_digits mem (of_nat base) ceiling c (of_nat V) overflow =
       (Inr (of_nat (digits_value base V bs), c + length bs, digits_value base V bs > unat ceiling)
          :: ('e, u64 \<times> nat \<times> bool) res)"
proof (induction bs arbitrary: c V overflow)
  case Nil
  let ?d = "digit_of (mem ! c)"
  have "?d < 0 \<or> word_of_int ?d \<ge> (of_nat base :: u32)"
  proof (cases "?d < 0")
    case False
    then have "unat (word_of_int ?d :: u32) = nat ?d" using digit_of_less by (intro unat_small) simp_all
    moreover have "unat (of_nat base :: u32) = base" using Nil by (simp add: unat_of_nat)
    ultimately show ?thesis using False Nil.prems(4) by (simp add: digit_in_def word_le_nat_alt)
  qed simp
  then show ?case using Nil by (simp add: convert_digits.simps [of mem _ _ c] digits_value_def Let_def)
next
  case (Cons b bs)
  have at: "c < length mem" "mem ! c = b" and tail: "chunk mem (Suc c) (length bs) = bs"
    using Cons.prems(2,3) by (auto simp: chunk_def Cons_nth_drop_Suc [symmetric])
  let ?d = "digit_of b"
  have d: "0 \<le> ?d" "?d < int base" using Cons.prems(1) by (simp_all add: digit_in_def)
  have small: "unat (word_of_int ?d :: u32) = nat ?d" "word_of_int ?d = (of_nat (nat ?d) :: u64)"
    using d digit_of_less [of b] by (simp_all add: unat_small)
  have base: "unat (of_nat base :: u32) = base" "ucast (of_nat base :: u32) = (of_nat base :: u64)"
  proof -
    show "unat (of_nat base :: u32) = base" using Cons.prems by (simp add: unat_of_nat)
    moreover have "unat (of_nat base :: u64) = base" using Cons.prems by (simp add: unat_of_nat)
    ultimately show "ucast (of_nat base :: u32) = (of_nat base :: u64)" using Cons.prems(7)
      by (intro unsigned_word_eqI [where ?'a = nat]) (simp add: unsigned_ucast_eq take_bit_nat_eq_self)
  qed
  have ok: "\<not> word_of_int ?d \<ge> (of_nat base :: u32)" using small(1) base(1) d by (simp add: word_le_nat_alt)
  let ?V = "V * base + nat ?d"
  have flag0: "(if of_nat V > (ceiling - of_nat (nat ?d)) div of_nat base then True else overflow) = (?V > unat ceiling)"
  proof (cases "V > unat ceiling")
    case True
    have "V \<le> V * base" using Cons.prems(6) by simp
    then have "unat ceiling < ?V" using True by linarith
    moreover have "overflow" using True Cons.prems(5) by simp
    ultimately show ?thesis by simp
  next
    case False
    then have "V < 2 ^ 64" using unat_u64_less [of ceiling] by linarith
    then have "unat (of_nat V :: u64) = V" by (simp add: unat_of_nat)
    then show ?thesis
      using overflow_test [of "nat ?d" base ceiling "of_nat V"] Cons.prems d False by simp
  qed
  have flag: "(if of_nat V > (ceiling - word_of_int ?d) div of_nat base then True else overflow) = (?V > unat ceiling)"
    unfolding small(2) by (rule flag0)
  have "convert_digits mem (of_nat base) ceiling c (of_nat V) overflow =
      (convert_digits mem (of_nat base) ceiling (Suc c) (of_nat ?V) (?V > unat ceiling)
          :: ('e, u64 \<times> nat \<times> bool) res)"
    using at(1) d ok unfolding convert_digits.simps [of mem _ _ c] at(2) Let_def base(2) flag by simp
  also have "\<dots> = Inr (of_nat (digits_value base ?V bs), Suc c + length bs, digits_value base ?V bs > unat ceiling)"
    by (rule Cons.IH) (use Cons.prems tail in auto)
  finally show ?case by (simp add: digits_value_def)
qed

text \<open>The start of a plain number: no space, no sign, no prefix.\<close>

lemma convert_plain:
  assumes bs: "bs \<noteq> []" "\<forall>b \<in> set bs. digit_in base b" "chunk mem p (length bs) = bs" "p + length bs < length mem"
    and stop: "\<not> digit_in base (mem ! (p + length bs))" and base: "2 \<le> base" "base \<le> 36" "base \<noteq> 16"
    and c: "35 \<le> unat ceiling"
  shows "skip_space mem p = (Inr p :: ('e, nat) res)" "mem ! p \<noteq> 45"
    "convert_unsigned mem p (int base) ceiling =
       (Inr (of_nat (digits_value base 0 bs), p + length bs, digits_value base 0 bs > unat ceiling) :: ('e, u64 \<times> nat \<times> bool) res)"
proof -
  obtain b bs' where b: "bs = b # bs'" using bs(1) by (cases bs) auto
  have "chunk mem p (length bs) ! 0 = mem ! p" using nth_chunk [of 0 "length bs" p mem] bs(4) b by simp
  then have at: "p < length mem" "mem ! p = b" "0 \<le> digit_of b" using bs b by (auto simp: digit_in_def)
  have nosp: "\<not> isspace (uint b)" "b \<noteq> 43" "b \<noteq> 45"
    using at(3) by (auto simp: digit_of_def isspace_def word_le_def split: if_splits)
  show "skip_space mem p = (Inr p :: ('e, nat) res)" using at nosp by (simp add: skip_space.simps [of mem p])
  then show "convert_unsigned mem p (int base) ceiling =
       (Inr (of_nat (digits_value base 0 bs), p + length bs, digits_value base 0 bs > unat ceiling) :: ('e, u64 \<times> nat \<times> bool) res)"
    using at nosp base convert_digits_value [OF bs(2-4) stop, where overflow = False and V = 0 and ceiling = ceiling] c
    by (simp add: convert_unsigned_def load_def)
  show "mem ! p \<noteq> 45" using at nosp by simp
qed

text \<open>
  C24. \<open>strtoul\<close> and \<open>strtol\<close> on a sequence of digits without spaces, sign or prefix in front, in a base
  from 2 to 36 other than 16: they stop at the first byte that is not a digit
  of the base; \<open>strtoul\<close> returns the exact value and leaves \<open>errno\<close> alone when the value fits 64
  bits, and otherwise sets \<open>ERANGE\<close> and returns the value modulo 2^64; \<open>strtol\<close> returns the exact
  value up to 2^63 - 1, and otherwise that maximum with \<open>ERANGE\<close>. So \<open>strtoul\<close> does not saturate, as
  the comment at the head of the source says it does.
\<close>

theorem conversions_exact:
  assumes "bs \<noteq> []" "list_all (digit_in base) bs" "chunk mem p (length bs) = bs" "p + length bs < length mem"
    and "\<not> digit_in base (mem ! (p + length bs))" and "2 \<le> base" "base \<le> 36" "base \<noteq> 16"
  defines "N \<equiv> digits_value base 0 bs"
  shows "strtoul mem p (int base) = (Inr (of_nat N, p + length bs, N > 2 ^ 64 - 1) :: ('e, u64 \<times> nat \<times> bool) res) \<and>
    strtol mem p (int base) =
      (Inr (min (int N) (2 ^ 63 - 1), p + length bs, N > 2 ^ 63 - 1) :: ('e, int \<times> nat \<times> bool) res)"
proof
  have ds: "\<forall>b \<in> set bs. digit_in base b" using assms(2) by (simp add: list_all_iff)
  note plain = convert_plain [OF assms(1) ds assms(3-8), folded N_def]
  have max: "unat CC64_ULONG_MAX = 2 ^ 64 - 1" "unat (CC64_LONG_MAX + 1) = 2 ^ 63" "unat CC64_LONG_MAX = 2 ^ 63 - 1"
    "sint CC64_LONG_MAX = 2 ^ 63 - 1"
    by (simp_all add: CC64_ULONG_MAX_def CC64_LONG_MAX_def)
  show "strtoul mem p (int base) = (Inr (of_nat N, p + length bs, N > 2 ^ 64 - 1) :: ('e, u64 \<times> nat \<times> bool) res)"
    unfolding strtoul_def using plain(3) [of CC64_ULONG_MAX] max(1) by simp
  have run: "convert_unsigned mem p (int base) (CC64_LONG_MAX + 1) =
      (Inr (of_nat N, p + length bs, N > 2 ^ 63) :: ('e, u64 \<times> nat \<times> bool) res)"
    using plain(3) [of "CC64_LONG_MAX + 1"] max(2) by simp
  have ld: "load mem p = (Inr (mem ! p) :: ('e, byte) res)" using assms(4) by (simp add: load_def)
  have skip: "skip_space mem p = (Inr p :: ('e, nat) res)" and sign: "mem ! p \<noteq> 45"
    using plain(1,2) [of CC64_ULONG_MAX] max(1) by simp_all
  show "strtol mem p (int base) =
      (Inr (min (int N) (2 ^ 63 - 1), p + length bs, N > 2 ^ 63 - 1) :: ('e, int \<times> nat \<times> bool) res)"
  proof (cases "N > 2 ^ 63")
    case True
    then show ?thesis unfolding strtol_def skip bindE_simps ld run using sign max(4) by simp
  next
    case False
    then have u: "unat (of_nat N :: u64) = N" by (simp add: unat_of_nat)
    then have gt: "(of_nat N :: u64) > CC64_LONG_MAX \<longleftrightarrow> N > 2 ^ 63 - 1" using max(3) by (simp add: word_less_nat_alt)
    have s: "sint (of_nat N :: u64) = int N" if "\<not> N > 2 ^ 63 - 1"
    proof -
      have "int N < 2 ^ 63" using that by simp
      then have "signed_take_bit 63 (int N) = int N" by (intro signed_take_bit_int_eq_self) simp_all
      then show ?thesis by (simp add: signed_of_nat)
    qed
    show ?thesis unfolding strtol_def skip bindE_simps ld run using sign max(4) gt s False
      by (cases "N > 2 ^ 63 - 1") simp_all
  qed
qed

theorem conversions_exact_witness:
  "strtoul [52, 50, 0] 0 10 = (Inr (42, 2, False) :: (unit, u64 \<times> nat \<times> bool) res)"
  using conversions_exact [of "[52, 50]" 10 "[52, 50, 0]" 0, where 'e = unit]
  by (simp add: digit_in_def digit_of_def chunk_def digits_value_def)

text \<open>
  C25. A minus sign is not converted: whatever digits follow it, \<open>strtol\<close> stops at the sign and returns
  -2^63 without an error, because the sign is consumed by a local cursor only and the magnitude is
  converted from the start of the text again. \<open>atoi\<close> of such a text is 0.
\<close>

theorem strtol_minus_sign:
  assumes "skip_space mem p = (Inr c :: ('e, nat) res)" "c < length mem" "mem ! c = 45"
    and "base = 0 \<or> 2 \<le> base \<and> base \<le> 36"
  shows "strtol mem p base = (Inr (- (2 ^ 63), c, False) :: ('e, int \<times> nat \<times> bool) res)"
proof -
  have stop: "convert_digits mem b cl c 0 False = (Inr (0, c, False) :: ('e, u64 \<times> nat \<times> bool) res)" for b cl
    using assms(2,3) by (simp add: convert_digits.simps [of mem _ _ c] digit_of_def)
  have ld: "load mem c = (Inr 45 :: ('e, byte) res)" using assms(2,3) by (simp add: load_def)
  have "convert_unsigned mem p base (CC64_LONG_MAX + 1) = (Inr (0, c, False) :: ('e, u64 \<times> nat \<times> bool) res)"
    unfolding convert_unsigned_def assms(1) bindE_simps ld using assms(4) by (auto simp: ld stop)
  then show ?thesis unfolding strtol_def assms(1) bindE_simps ld
    by (simp add: CC64_LONG_MAX_def CC64_LONG_MIN_def)
qed

theorem strtol_minus_sign_witness:
  "strtol [32, 45, 53, 0] 0 10 = (Inr (- (2 ^ 63), 1, False) :: (unit, int \<times> nat \<times> bool) res)"
proof -
  have "skip_space [32, 45, 53, 0] 0 = (Inr 1 :: (unit, nat) res)"
    by (simp add: skip_space.simps isspace_def)
  from strtol_minus_sign [OF this, of 10] show ?thesis by simp
qed

end
