(* ===== verification/Runtime_Text.thy ===== *)
theory Runtime_Text
  imports Runtime_Stdlib
begin

text \<open>
  Counted searches, tokenizing, case-insensitive comparison and error texts
  (\<open>src/src/runtime/target_text.c\<close>), over the memory of \<open>Runtime_String\<close>.
\<close>

subsection \<open>Counted searches\<close>

fun memchr_from :: "byte list \<Rightarrow> nat \<Rightarrow> byte \<Rightarrow> nat \<Rightarrow> nat \<Rightarrow> ('e, nat option) res" where
  "memchr_from mem at wanted 0 index = Inr None"
| "memchr_from mem at wanted (Suc n) index =
     bindE (load mem (at + index)) (\<lambda>b.
       if b = wanted then Inr (Some (at + index)) else memchr_from mem at wanted n (Suc index))"

definition memchr :: "byte list \<Rightarrow> nat \<Rightarrow> int \<Rightarrow> nat \<Rightarrow> ('e, nat option) res" where
  "memchr mem bytes v n = memchr_from mem bytes (word_of_int v) n 0"

fun memrchr_from :: "byte list \<Rightarrow> nat \<Rightarrow> byte \<Rightarrow> nat \<Rightarrow> ('e, nat option) res" where
  "memrchr_from mem at wanted 0 = Inr None"
| "memrchr_from mem at wanted (Suc n) =
     bindE (load mem (at + n)) (\<lambda>b. if b = wanted then Inr (Some (at + n)) else memrchr_from mem at wanted n)"

definition memrchr :: "byte list \<Rightarrow> nat \<Rightarrow> int \<Rightarrow> nat \<Rightarrow> ('e, nat option) res" where
  "memrchr mem bytes v n = memrchr_from mem bytes (word_of_int v) n"

subsection \<open>Tokens\<close>

text \<open>Both scanning loops: on while the byte is not NUL and its membership is as asked.\<close>

function scan_set :: "bool \<Rightarrow> byte list \<Rightarrow> nat \<Rightarrow> nat \<Rightarrow> ('e, nat) res" where
  "scan_set member mem separators cursor =
     (if cursor \<ge> length mem then Inl OutOfBounds
      else if mem ! cursor = 0 then Inr cursor
      else case strchr mem separators (uint (mem ! cursor)) of
          Inl e \<Rightarrow> Inl e
        | Inr found \<Rightarrow> if (found \<noteq> None) = member then scan_set member mem separators (Suc cursor) else Inr cursor)"
  by pat_completeness auto
termination by (relation "measure (\<lambda>(m, mem, s, cursor). length mem - cursor)") auto

text \<open>The result: the token, the memory and the new state.\<close>

definition strtok_r ::
  "byte list \<Rightarrow> nat option \<Rightarrow> nat option \<Rightarrow> nat option option \<Rightarrow>
     ('e, nat option \<times> byte list \<times> nat option option) res" where
  "strtok_r mem text separators state =
     (case (state, separators) of
        (Some saved, Some seps) \<Rightarrow>
          (case (if text \<noteq> None then text else saved) of
             None \<Rightarrow> Inr (None, mem, state)
           | Some cursor \<Rightarrow>
               bindE (scan_set True mem seps cursor) (\<lambda>cursor.
               bindE (load mem cursor) (\<lambda>b.
               if b = 0 then Inr (None, mem, Some None)
               else bindE (scan_set False mem seps cursor) (\<lambda>stop.
                 bindE (load mem stop) (\<lambda>b.
                 if b \<noteq> 0 then bindE (put mem stop 0) (\<lambda>mem. Inr (Some cursor, mem, Some (Some (stop + 1))))
                 else Inr (Some cursor, mem, Some None))))))
      | _ \<Rightarrow> Inr (None, mem, state))"

text \<open>\<open>strtok\<close> keeps its state in a static variable.\<close>

definition strtok ::
  "byte list \<Rightarrow> nat option \<Rightarrow> nat option \<Rightarrow> nat option \<Rightarrow> ('e, nat option \<times> byte list \<times> nat option) res" where
  "strtok mem text separators token_state =
     bindE (strtok_r mem text separators (Some token_state)) (\<lambda>(token, mem, state).
       Inr (token, mem, case state of Some s \<Rightarrow> s | None \<Rightarrow> token_state))"

subsection \<open>Case-insensitive comparison\<close>

function strcasecmp :: "byte list \<Rightarrow> nat \<Rightarrow> nat \<Rightarrow> ('e, int) res" where
  "strcasecmp mem left right =
     (if left \<ge> length mem \<or> right \<ge> length mem then Inl OutOfBounds
      else let a = tolower (uint (mem ! left)); b = tolower (uint (mem ! right)) in
        if a \<noteq> b then Inr (if a < b then -1 else 1)
        else if a = 0 then Inr 0 else strcasecmp mem (Suc left) (Suc right))"
  by pat_completeness auto
termination by (relation "measure (\<lambda>(mem, l, r). length mem - l)") auto

fun strncasecmp_from :: "byte list \<Rightarrow> nat \<Rightarrow> nat \<Rightarrow> nat \<Rightarrow> nat \<Rightarrow> ('e, int) res" where
  "strncasecmp_from mem left right 0 index = Inr 0"
| "strncasecmp_from mem left right (Suc n) index =
     bindE (load mem (left + index)) (\<lambda>x. bindE (load mem (right + index)) (\<lambda>y.
       let a = tolower (uint x); b = tolower (uint y) in
       if a \<noteq> b then Inr (if a < b then -1 else 1)
       else if a = 0 then Inr 0 else strncasecmp_from mem left right n (Suc index)))"

definition strncasecmp :: "byte list \<Rightarrow> nat \<Rightarrow> nat \<Rightarrow> nat \<Rightarrow> ('e, int) res" where
  "strncasecmp mem left right n = strncasecmp_from mem left right n 0"

subsection \<open>Error texts\<close>

definition error_texts :: "(int \<times> string) list" where
  "error_texts = [
    (1, ''Operation not permitted''), (2, ''No such file or directory''), (3, ''No such process''),
    (4, ''Interrupted system call''), (5, ''Input/output error''), (6, ''No such device or address''),
    (7, ''Argument list too long''), (8, ''Exec format error''), (9, ''Bad file descriptor''),
    (10, ''No child processes''), (11, ''Resource temporarily unavailable''), (12, ''Cannot allocate memory''),
    (13, ''Permission denied''), (14, ''Bad address''), (16, ''Device or resource busy''), (17, ''File exists''),
    (18, ''Invalid cross-device link''), (19, ''No such device''), (20, ''Not a directory''),
    (21, ''Is a directory''), (22, ''Invalid argument''), (23, ''Too many open files''),
    (24, ''Too many open files in system''), (25, ''Inappropriate ioctl for device''), (27, ''File too large''),
    (28, ''No space left on device''), (29, ''Illegal seek''), (30, ''Read-only file system''),
    (31, ''Too many links''), (32, ''Broken pipe''), (36, ''File name too long''),
    (38, ''Function not implemented''), (40, ''Too many levels of symbolic links'')]"

text \<open>The digits of a value, least significant first, at most \<open>limit\<close> of them.\<close>

fun digits_from :: "nat \<Rightarrow> nat \<Rightarrow> byte list" where
  "digits_from 0 v = []"
| "digits_from (Suc limit) v =
     of_nat (48 + v mod 10) # (if v div 10 \<noteq> 0 then digits_from limit (v div 10) else [])"

text \<open>The text in the static record of \<open>size\<close> bytes, without its terminator.\<close>

definition describe :: "int \<Rightarrow> nat \<Rightarrow> cstring" where
  "describe code n =
     (let prefix = take (n - 1) (cstr ''Unknown error '');
          digits = rev (digits_from 24 (if code < 0 then 0 else nat code))
      in prefix @ take (n - 1 - length prefix) digits)"

definition strerror :: "int \<Rightarrow> cstring" where
  "strerror code =
     (case List.find (\<lambda>(c, text). c = code) error_texts of
        Some (c, text) \<Rightarrow> cstr text | None \<Rightarrow> describe code 32)"

declare scan_set.simps [simp del] strcasecmp.simps [simp del]

lemma strchr_member:
  assumes "string_at mem q seps" "b \<noteq> 0"
  shows "\<exists>f. strchr mem q (uint b) = (Inr f :: ('e, nat option) res) \<and> (f \<noteq> None \<longleftrightarrow> b \<in> set seps)"
proof -
  let ?f = "List.find (\<lambda>k. (seps @ [0]) ! k = b) [0..<Suc (length seps)]"
  have "strchr mem q (uint b) = (Inr (map_option (\<lambda>k. q + k) ?f) :: ('e, nat option) res)"
    using strchr_from_at [of mem q 0 seps b] assms(1) by (simp add: strchr_def)
  moreover have "?f \<noteq> None \<longleftrightarrow> b \<in> set seps"
  proof -
    have "?f = None \<longleftrightarrow> (\<forall>k < Suc (length seps). (seps @ [0]) ! k \<noteq> b)"
      by (auto simp: find_None_iff simp del: upt_Suc)
    also have "\<dots> \<longleftrightarrow> b \<notin> set (seps @ [0])" by (metis in_set_conv_nth length_append_singleton)
    finally show ?thesis using assms(2) by auto
  qed
  ultimately show ?thesis by auto
qed

lemma scan_set_at:
  assumes "string_at mem q seps"
  shows "string_at mem c s \<Longrightarrow>
    scan_set member mem q c = (Inr (c + length (takeWhile (\<lambda>b. (b \<in> set seps) = member) s)) :: ('e, nat) res)"
proof (induction s arbitrary: c)
  case Nil
  then show ?case by (simp add: scan_set.simps [of member mem q c])
next
  case (Cons b s)
  then have at: "c < length mem" "mem ! c = b" "b \<noteq> 0" "string_at mem (Suc c) s" by simp_all
  obtain f where f: "strchr mem q (uint b) = (Inr f :: ('e, nat option) res)" "f \<noteq> None \<longleftrightarrow> b \<in> set seps"
    using strchr_member [OF assms at(3)] by blast
  from f(2) Cons.IH [OF at(4)] show ?case
    unfolding scan_set.simps [of member mem q c] at(2) f(1) sum.case using at by auto
qed

text \<open>
  One tokenizing step splits the text as the library documents: leading separators are skipped,
  the token is the longest run of bytes that are not separators, it is terminated in place, and the
  saved position is what follows the separator behind it, or none at the end of the text; a text of
  separators only has no token.
\<close>

lemma strtok_token:
  assumes str: "string_at mem p s" and seps: "string_at mem q seps"
  defines "rest \<equiv> dropWhile (\<lambda>b. b \<in> set seps) s"
  defines "token \<equiv> takeWhile (\<lambda>b. b \<notin> set seps) rest"
  shows "if rest = [] then strtok mem (Some p) (Some q) saved = (Inr (None, mem, None) :: ('e, nat option \<times> byte list \<times> nat option) res)
    else \<exists>at mem' saved'. strtok mem (Some p) (Some q) saved = (Inr (Some at, mem', saved') :: ('e, nat option \<times> byte list \<times> nat option) res) \<and>
      at = p + (length s - length rest) \<and> string_at mem' at token \<and> length mem' = length mem \<and>
      (case saved' of None \<Rightarrow> token = rest
       | Some next \<Rightarrow> next = at + length token + 1 \<and> string_at mem' next (drop (Suc (length token)) rest))"
proof -
  let ?pre = "takeWhile (\<lambda>b. b \<in> set seps) s"
  have s: "s = ?pre @ rest" by (simp add: rest_def)
  let ?at = "p + length ?pre"
  have rest: "string_at mem ?at rest"
    using string_at_drop [OF str, of "length ?pre"] s by (metis append_eq_conv_conj length_takeWhile_le)
  have pre: "length ?pre = length s - length rest" using arg_cong [OF s, of length] by simp
  have skip: "scan_set True mem q p = (Inr ?at :: ('e, nat) res)"
    using scan_set_at [OF seps str, of True] by simp
  have ld: "load mem ?at = (Inr (mem ! ?at) :: ('e, byte) res)"
    using string_at_end [OF rest] by (simp add: load_def)
  show ?thesis
  proof (cases rest)
    case Nil
    then show ?thesis using skip ld rest by (simp add: strtok_def strtok_r_def)
  next
    case (Cons b rest')
    let ?stop = "?at + length token"
    have b: "mem ! ?at = b" "b \<noteq> 0" using rest Cons by simp_all
    have run: "scan_set False mem q ?at = (Inr ?stop :: ('e, nat) res)"
      using scan_set_at [OF seps rest, of False] by (simp add: token_def)
    have split: "rest = token @ drop (length token) rest"
      unfolding token_def by (metis append_eq_conv_conj takeWhile_dropWhile_id)
    have stop: "string_at mem ?stop (drop (length token) rest)"
      by (rule string_at_drop [OF rest]) (simp add: token_def length_takeWhile_le)
    have ld': "load mem ?stop = (Inr (mem ! ?stop) :: ('e, byte) res)"
      using string_at_end [OF stop] by (simp add: load_def)
    show ?thesis
    proof (cases "drop (length token) rest")
      case Nil
      then have all: "token = rest" using split by simp
      then have "mem ! ?stop = 0" using stop Nil by simp
      then have "strtok mem (Some p) (Some q) saved =
          (Inr (Some ?at, mem, None) :: ('e, nat option \<times> byte list \<times> nat option) res)"
        using skip ld run ld' b by (simp add: strtok_def strtok_r_def)
      then show ?thesis using Cons rest all pre by simp
    next
      case (Cons x rem)
      then have x: "mem ! ?stop = x" "x \<noteq> 0" "?stop < length mem" "string_at mem (Suc ?stop) rem"
        using stop by simp_all
      let ?m = "mem[?stop := 0]"
      have run': "strtok mem (Some p) (Some q) saved =
          (Inr (Some ?at, ?m, Some (?stop + 1)) :: ('e, nat option \<times> byte list \<times> nat option) res)"
        using skip ld run ld' b x by (simp add: strtok_def strtok_r_def put_def)
      have tok: "string_at ?m ?at token"
      proof -
        have gen: "string_at m a (t @ u) \<Longrightarrow> string_at (m[a + length t := 0]) a t" for m a t u
        proof (induction t arbitrary: a)
          case Nil
          then show ?case using string_at_end [of m a u] by simp
        next
          case (Cons y t)
          then show ?case using Cons.IH [of "Suc a"] by simp
        qed
        show ?thesis using gen [of mem ?at token "drop (length token) rest"] rest split by simp
      qed
      have nxt: "string_at ?m (Suc ?stop) rem"
        by (rule string_at_cong [OF _ _ x(4)]) simp_all
      have "drop (Suc (length token)) rest = rem" using arg_cong [OF Cons, of tl] by (simp add: drop_Suc tl_drop)
      with run' tok nxt pre \<open>rest = b # rest'\<close> show ?thesis by simp
    qed
  qed
qed


lemma strtok_token_witness:
  "\<exists>mem'. strtok [44, 97, 98, 44, 99, 0, 44, 0] (Some 0) (Some 6) None =
     (Inr (Some 1, mem', Some 4) :: (unit, nat option \<times> byte list \<times> nat option) res) \<and>
     string_at mem' 1 [97, 98]"
proof -
  have "string_at [44, 97, 98, 44, 99, 0, 44, 0] 0 [44, 97, 98, 44, 99]"
    "string_at [44, 97, 98, 44, 99, 0, 44, 0] 6 [44]" by simp_all
  from strtok_token [OF this, of None, where 'e = unit] show ?thesis
    by (auto split: option.splits)
qed

subsection \<open>Unknown errors\<close>

lemma ascii_digit: "d < 10 \<Longrightarrow> uint (of_nat (48 + d) :: byte) = 48 + int d"
proof -
  assume "d < 10"
  then have "take_bit 8 (48 + d) = 48 + d" by (intro take_bit_nat_eq_self) simp
  then show ?thesis by (simp only: unsigned_of_nat) simp
qed

lemma digits_from_nonempty: "0 < limit \<Longrightarrow> digits_from limit v \<noteq> []"
  by (cases limit) simp_all

lemma digits_from_digit: "\<forall>b \<in> set (digits_from limit v). digit_in 10 b"
proof (induction limit v rule: digits_from.induct)
  case (2 limit v)
  have "digit_in 10 (of_nat (48 + d))" if "d < 10" for d
  proof -
    have "uint (of_nat (48 + d) :: byte) = 48 + int d" by (rule ascii_digit [OF that])
    then show ?thesis using that by (simp add: digit_in_def digit_of_def word_le_def)
  qed
  from this [of "v mod 10"] 2 show ?case by simp
qed simp

lemma digits_from_value:
  "v < 10 ^ limit \<Longrightarrow> 0 < limit \<Longrightarrow> digits_value 10 0 (rev (digits_from limit v)) = v"
proof (induction limit v rule: digits_from.induct)
  case (2 limit v)
  have "uint (of_nat (48 + v mod 10) :: byte) = 48 + int (v mod 10)" by (rule ascii_digit) simp
  then have d: "digit_of (of_nat (48 + v mod 10)) = int (v mod 10)" by (simp add: digit_of_def word_le_def)
  show ?case
  proof (cases "v div 10 = 0")
    case True
    then show ?thesis using d by (simp add: digits_value_def)
  next
    case False
    then have "0 < limit" using 2 by (cases limit) auto
    moreover have "v div 10 < 10 ^ limit" using 2 by (simp add: div_less_iff_less_mult mult.commute)
    ultimately have "digits_value 10 0 (rev (digits_from limit (v div 10))) = v div 10" using 2 False by blast
    with d False show ?thesis by (simp add: digits_value_def)
  qed
qed simp

lemma digits_from_length: "v < 10 ^ k \<Longrightarrow> 0 < k \<Longrightarrow> length (digits_from limit v) \<le> k"
proof (induction limit v arbitrary: k rule: digits_from.induct)
  case (2 limit v)
  show ?case
  proof (cases "v div 10 = 0")
    case False
    obtain j where k: "k = Suc j" using 2(3) by (cases k) auto
    then have "0 < j" using 2(2) False by (cases j) auto
    note j = k this
    then have "v div 10 < 10 ^ j" using 2 by (simp add: div_less_iff_less_mult mult.commute)
    then show ?thesis using 2(1) [OF False, of j] j False by simp
  qed (use 2 in simp)
qed simp

text \<open>
  The text for an error number outside the table is the fixed prefix followed by the decimal digits
  of the number, complete and readable back, for every nonnegative \<open>int\<close>.
\<close>

lemma strerror_unknown:
  assumes "0 \<le> code" "code < 2 ^ 31" "code \<notin> fst ` set error_texts"
  shows "\<exists>ds. strerror code = cstr ''Unknown error '' @ ds \<and> ds \<noteq> [] \<and> list_all (digit_in 10) ds \<and>
    digits_value 10 0 ds = nat code"
proof -
  let ?ds = "rev (digits_from 24 (nat code))"
  have n: "nat code < 10 ^ 10" using assms(1,2) by simp
  have "List.find (\<lambda>(c, text). c = code) error_texts = None"
    using assms(3) by (force simp: find_None_iff)
  then have "strerror code = describe code 32" by (simp add: strerror_def)
  moreover have "length (cstr ''Unknown error '') = 14" by (simp add: cstr_def)
  moreover have "length ?ds \<le> 17" using digits_from_length [OF n, of 24] by simp
  ultimately have "strerror code = cstr ''Unknown error '' @ ?ds" using assms(1) by (simp add: describe_def)
  moreover have "?ds \<noteq> []" using digits_from_nonempty [of 24 "nat code"] by simp
  moreover have "digits_value 10 0 ?ds = nat code" using n by (intro digits_from_value) simp_all
  ultimately show ?thesis using digits_from_digit [of 24 "nat code"] by (auto simp: list_all_iff)
qed

lemma strerror_unknown_witness:
  "\<exists>ds. strerror 41 = cstr ''Unknown error '' @ ds \<and> digits_value 10 0 ds = 41"
  using strerror_unknown [of 41] by (auto simp: error_texts_def)

end
