(* ===== verification/Runtime_Alloc.thy ===== *)
theory Runtime_Alloc
  imports Bytes_LE
begin

text \<open>
  The target heap (\<open>src/src/runtime/target_alloc.c\<close>) and the table of mappings
  (\<open>src/src/runtime/target_map.c\<close>). The address space is a function from addresses to bytes; the
  two service thunks of the operating system, which are not in the sources, are a parameter over a
  state of their own. A pointer is its address: 0 is the null pointer and \<open>2^64 - 1\<close> the value a
  refused request returns.
\<close>

record 'w services =
  cc64_alloc :: "'w \<Rightarrow> nat \<Rightarrow> nat \<times> 'w"
  cc64_free :: "'w \<Rightarrow> nat \<Rightarrow> 'w"

record 'w target =
  t_mem :: "nat \<Rightarrow> byte"
  t_world :: 'w

abbreviation (input) REFUSED :: nat where "REFUSED \<equiv> 2 ^ 64 - 1"
abbreviation (input) CC64_HEAP_HEADER :: nat where "CC64_HEAP_HEADER \<equiv> 16"

definition write_mem :: "(nat \<Rightarrow> byte) \<Rightarrow> nat \<Rightarrow> byte list \<Rightarrow> nat \<Rightarrow> byte" where
  "write_mem mem a bs = (\<lambda>x. if a \<le> x \<and> x < a + length bs then bs ! (x - a) else mem x)"

definition read_mem :: "(nat \<Rightarrow> byte) \<Rightarrow> nat \<Rightarrow> nat \<Rightarrow> byte list" where
  "read_mem mem a n = map (\<lambda>i. mem (a + i)) [0..<n]"

definition alloc_refused :: "nat \<Rightarrow> bool" where
  "alloc_refused pointer \<longleftrightarrow> pointer = REFUSED"

subsection \<open>The heap\<close>

definition malloc :: "'w services \<Rightarrow> 'w target \<Rightarrow> nat \<Rightarrow> nat \<times> 'w target" where
  "malloc sv st n =
     (let n = (if n = 0 then 1 else n) in
      if n > SIZE_MAX - CC64_HEAP_HEADER then (0, st)
      else case cc64_alloc sv (t_world st) (n + CC64_HEAP_HEADER) of (base, w) \<Rightarrow>
        let st = st\<lparr>t_world := w\<rparr> in
        if alloc_refused base then (0, st)
        else (base + CC64_HEAP_HEADER, st\<lparr>t_mem := write_mem (t_mem st) base (put_u64 (of_nat n))\<rparr>))"

definition free :: "'w services \<Rightarrow> 'w target \<Rightarrow> nat \<Rightarrow> 'w target" where
  "free sv st pointer =
     (if pointer = 0 then st
      else st\<lparr>t_world := cc64_free sv (t_world st) (pointer - CC64_HEAP_HEADER)\<rparr>)"

definition calloc :: "'w services \<Rightarrow> 'w target \<Rightarrow> nat \<Rightarrow> nat \<Rightarrow> nat \<times> 'w target" where
  "calloc sv st n sz =
     (if n \<noteq> 0 \<and> sz > SIZE_MAX div n then (0, st)
      else case malloc sv st (n * sz) of (pointer, st) \<Rightarrow>
        (pointer, if pointer \<noteq> 0 then st\<lparr>t_mem := write_mem (t_mem st) pointer (replicate (n * sz) 0)\<rparr> else st))"

definition realloc :: "'w services \<Rightarrow> 'w target \<Rightarrow> nat \<Rightarrow> nat \<Rightarrow> nat \<times> 'w target" where
  "realloc sv st pointer n =
     (if pointer = 0 then malloc sv st n
      else if n = 0 then (0, free sv st pointer)
      else let previous = unat (read_u64 (read_mem (t_mem st) (pointer - CC64_HEAP_HEADER) 8)) in
        if n \<le> previous then (pointer, st)
        else case malloc sv st n of (new, st) \<Rightarrow>
          if new = 0 then (REFUSED, st)
          else let st = st\<lparr>t_mem := write_mem (t_mem st) new (read_mem (t_mem st) pointer previous)\<rparr>
               in (new, free sv st pointer))"

subsection \<open>Mappings\<close>

record mapping =
  mp_base :: nat
  mp_length :: nat
  mp_in_use :: bool

datatype errno = ENOMEM | EINVAL

text \<open>The table of 64 records, unused at the start; priming it once more changes nothing.\<close>

definition no_mappings :: "mapping list" where
  "no_mappings = replicate 64 \<lparr>mp_base = 0, mp_length = 0, mp_in_use = False\<rparr>"

fun find_index :: "('a \<Rightarrow> bool) \<Rightarrow> 'a list \<Rightarrow> nat option" where
  "find_index P [] = None"
| "find_index P (x # xs) = (if P x then Some 0 else map_option Suc (find_index P xs))"

definition find_mapping :: "mapping list \<Rightarrow> nat \<Rightarrow> nat option" where
  "find_mapping maps address =
     find_index (\<lambda>m. mp_in_use m \<and> mp_base m \<le> address \<and> address < mp_base m + mp_length m) maps"

definition mmap ::
  "'w services \<Rightarrow> 'w \<Rightarrow> mapping list \<Rightarrow> nat \<Rightarrow> (errno + nat) \<times> 'w \<times> mapping list" where
  "mmap sv w maps len =
     (if len = 0 then (Inl EINVAL, w, maps)
      else let n = unat ((of_nat len + 15 :: u64) AND NOT 15) in
        case find_index (\<lambda>m. \<not> mp_in_use m) maps of
          None \<Rightarrow> (Inl ENOMEM, w, maps)
        | Some i \<Rightarrow> (case cc64_alloc sv w n of (block, w) \<Rightarrow>
            if block = 0 then (Inl ENOMEM, w, maps)
            else (Inr block, w, maps[i := \<lparr>mp_base = block, mp_length = n, mp_in_use = True\<rparr>])))"

definition munmap ::
  "'w services \<Rightarrow> 'w \<Rightarrow> mapping list \<Rightarrow> nat \<Rightarrow> nat \<Rightarrow> (errno + unit) \<times> 'w \<times> mapping list" where
  "munmap sv w maps address len =
     (case find_mapping maps address of
        None \<Rightarrow> (Inl EINVAL, w, maps)
      | Some i \<Rightarrow>
          if len \<noteq> 0 \<and> len \<noteq> mp_length (maps ! i) then (Inl EINVAL, w, maps)
          else (Inr (), cc64_free sv w (mp_base (maps ! i)),
                maps[i := \<lparr>mp_base = 0, mp_length = 0, mp_in_use = False\<rparr>]))"

definition mprotect :: "mapping list \<Rightarrow> nat \<Rightarrow> errno + unit" where
  "mprotect maps address = (if find_mapping maps address = None then Inl ENOMEM else Inr ())"

definition madvise :: "mapping list \<Rightarrow> nat \<Rightarrow> errno + unit" where
  "madvise maps address = (if find_mapping maps address = None then Inl ENOMEM else Inr ())"

subsection \<open>Reallocation\<close>

lemma write_mem_other: "x < a \<or> a + length bs \<le> x \<Longrightarrow> write_mem mem a bs x = mem x"
  by (auto simp: write_mem_def)

lemma read_mem_written: "read_mem (write_mem mem a bs) a (length bs) = bs"
  by (rule nth_equalityI) (auto simp: read_mem_def write_mem_def)

lemma read_mem_cong: "(\<And>i. i < n \<Longrightarrow> mem' (a + i) = mem (a + i)) \<Longrightarrow> read_mem mem' a n = read_mem mem a n"
  by (simp add: read_mem_def)

text \<open>The size a block was allocated with, as its header has it.\<close>

definition block_size :: "(nat \<Rightarrow> byte) \<Rightarrow> nat \<Rightarrow> nat" where
  "block_size mem p = unat (read_u64 (read_mem mem (p - 16) 8))"

text \<open>
  \<open>realloc\<close> of a live block: when the operating system's next block does not overlap the old one,
  the result is the same pointer or a new block whose header holds the requested size, and in both
  cases the block holds the bytes it held before; when the request is refused, the result is the
  refusal value and the old block, header included, is untouched.
\<close>

lemma realloc_keeps:
  assumes p: "16 \<le> p" and n: "0 < n" "n + 16 < 2 ^ 64"
    and disjoint: "\<And>base w'. cc64_alloc sv (t_world st) (n + 16) = (base, w') \<Longrightarrow> base \<noteq> 2 ^ 64 - 1 \<Longrightarrow>
      base + 16 + n < 2 ^ 64 \<and> (base + 16 + n \<le> p - 16 \<or> p + block_size (t_mem st) p \<le> base)"
  shows "case realloc sv st p n of (q, st') \<Rightarrow>
    if q = 2 ^ 64 - 1 then t_mem st' = t_mem st
    else read_mem (t_mem st') q (min n (block_size (t_mem st) p)) = read_mem (t_mem st) p (min n (block_size (t_mem st) p)) \<and>
         (q = p \<and> t_mem st' = t_mem st \<or> block_size (t_mem st') q = n)"
proof -
  let ?prev = "block_size (t_mem st) p"
  have p0: "p \<noteq> 0" "n \<noteq> 0" using p n by simp_all
  show ?thesis
  proof (cases "n \<le> ?prev")
    case True
    then have "realloc sv st p n = (p, st)" using p0 by (simp add: realloc_def block_size_def)
    then show ?thesis using True by simp
  next
    case False
    obtain base w' where a: "cc64_alloc sv (t_world st) (n + 16) = (base, w')" by fastforce
    have ok: "\<not> n > SIZE_MAX - 16" using n by (simp add: SIZE_MAX_def)
    show ?thesis
    proof (cases "base = 2 ^ 64 - 1")
      case True
      then have "malloc sv st n = (0, st\<lparr>t_world := w'\<rparr>)" using a ok p0 by (simp add: malloc_def alloc_refused_def)
      then have "realloc sv st p n = (2 ^ 64 - 1, st\<lparr>t_world := w'\<rparr>)"
        using False p0 by (simp add: realloc_def block_size_def)
      then show ?thesis by simp
    next
      case granted: False
      let ?m = "write_mem (t_mem st) base (put_u64 (of_nat n))"
      let ?m' = "write_mem ?m (base + 16) (read_mem ?m p ?prev)"
      have m: "malloc sv st n = (base + 16, st\<lparr>t_world := w', t_mem := ?m\<rparr>)"
        using a ok p0 granted by (simp add: malloc_def alloc_refused_def)
      have apart: "base + 16 + n < 2 ^ 64" "base + 16 + n \<le> p - 16 \<or> p + ?prev \<le> base"
        using disjoint [OF a granted] by blast+
      have "read_mem ?m p ?prev = read_mem (t_mem st) p ?prev"
        using apart(2) by (intro read_mem_cong write_mem_other) auto
      then have r: "realloc sv st p n = (base + 16, free sv (st\<lparr>t_world := w', t_mem := ?m'\<rparr>) p)"
        using False p0 m unfolding block_size_def by (simp add: realloc_def Let_def)
      have kept: "read_mem ?m' (base + 16) ?prev = read_mem (t_mem st) p ?prev"
        using read_mem_written [of ?m "base + 16" "read_mem ?m p ?prev"] \<open>read_mem ?m p ?prev = _\<close>
        by (simp add: read_mem_def)
      have "read_mem ?m' base 8 = read_mem ?m base 8"
        by (intro read_mem_cong write_mem_other) simp
      also have "\<dots> = put_u64 (of_nat n)" using read_mem_written [of "t_mem st" base "put_u64 (of_nat n)"] by simp
      finally have "block_size ?m' (base + 16) = n"
        using n by (simp add: block_size_def u64.dec_enc_nil unat_of_nat)
      then show ?thesis using r kept False p0 apart(1) by (simp add: free_def)
    qed
  qed
qed


text \<open>An allocator that hands out ascending addresses, for the concrete instances.\<close>

definition bump_services :: "nat services" where
  "bump_services = \<lparr>cc64_alloc = (\<lambda>w n. (w, w + n)), cc64_free = (\<lambda>w a. w)\<rparr>"

lemma realloc_keeps_witness:
  "case realloc bump_services \<lparr>t_mem = write_mem (\<lambda>_. 7) 1000 (put_u64 4), t_world = 2000\<rparr> 1016 8 of (q, st') \<Rightarrow>
     q = 2016 \<and> read_mem (t_mem st') q 4 = read_mem (write_mem (\<lambda>_. 7) 1000 (put_u64 4)) 1016 4"
proof -
  let ?m = "write_mem (\<lambda>_. 7) 1000 (put_u64 4)" and ?st = "\<lparr>t_mem = write_mem (\<lambda>_. 7) 1000 (put_u64 4), t_world = 2000 :: nat\<rparr>"
  have "read_mem ?m 1000 8 = put_u64 4" using read_mem_written [of "\<lambda>_. 7" 1000 "put_u64 4"] by simp
  then have b: "block_size ?m 1016 = 4" by (simp add: block_size_def u64.dec_enc_nil)
  have "fst (realloc bump_services ?st 1016 8) = 2016"
    using b by (simp add: realloc_def block_size_def malloc_def bump_services_def alloc_refused_def SIZE_MAX_def)
  then show ?thesis
    using realloc_keeps [of 1016 8 bump_services ?st] b by (auto simp: bump_services_def split: prod.splits)
qed

text \<open>
  C26. A refused mapping request is not noticed: \<open>mmap\<close> compares the block with the null pointer only,
  so the refusal value of the service is recorded as a live mapping, although the caller receives the
  value that means failure; the slot stays taken.
\<close>

theorem mmap_refusal_recorded:
  assumes "len \<noteq> 0" "find_index (\<lambda>m. \<not> mp_in_use m) maps = Some i"
    and "\<And>n. fst (cc64_alloc sv w n) = 2 ^ 64 - 1"
  shows "\<exists>w' n. mmap sv w maps len = (Inr (2 ^ 64 - 1), w', maps[i := \<lparr>mp_base = 2 ^ 64 - 1, mp_length = n, mp_in_use = True\<rparr>])"
  using assms(1,2) assms(3) [of "unat ((of_nat len + 15 :: u64) AND NOT 15)"]
  by (auto simp: mmap_def Let_def split: prod.split)

theorem mmap_refusal_recorded_witness:
  "\<exists>w' n. mmap \<lparr>cc64_alloc = (\<lambda>w n. (2 ^ 64 - 1, w)), cc64_free = (\<lambda>w a. w)\<rparr> () no_mappings 100 =
     (Inr (2 ^ 64 - 1), w', no_mappings[0 := \<lparr>mp_base = 2 ^ 64 - 1, mp_length = n, mp_in_use = True\<rparr>])"
proof -
  have "find_index (\<lambda>m. \<not> mp_in_use m) no_mappings = Some 0" by (simp add: no_mappings_def numeral_eq_Suc)
  then show ?thesis by (intro mmap_refusal_recorded) simp_all
qed

end
