(* ===== verification/Runtime_Env.thy ===== *)
theory Runtime_Env
  imports Runtime_String
begin

text \<open>
  The target environment of \<open>src/src/runtime/target_env.c\<close>: no variables, one directory that lists
  as empty, no child processes. A path is the string itself or no pointer; an error is the value of
  \<open>errno\<close> the routine leaves.
\<close>

datatype env_errno = ERANGE | ENOENT | ENOTDIR | EBADF | ECHILD

definition getenv :: "cstring \<Rightarrow> cstring option" where
  "getenv name = None"

text \<open>The buffer is filled with the root and its terminator.\<close>

definition getcwd :: "byte list \<Rightarrow> nat option \<Rightarrow> nat \<Rightarrow> ('e, (env_errno + nat) \<times> byte list) res" where
  "getcwd mem buffer n =
     (let root = cstr ''/'' @ [0] in
      case buffer of None \<Rightarrow> Inr (Inl ERANGE, mem)
      | Some p \<Rightarrow> if n < length root then Inr (Inl ERANGE, mem)
                  else bindE (store mem p root) (\<lambda>mem. Inr (Inr p, mem)))"

definition chdir :: "cstring option \<Rightarrow> env_errno option" where
  "chdir path =
     (case path of None \<Rightarrow> None
      | Some s \<Rightarrow> if s = cstr ''/'' \<or> s = cstr ''.'' then None else Some ENOENT)"

text \<open>The one directory record: whether its listing was served.\<close>

type_synonym dir = bool

definition opendir :: "dir \<Rightarrow> cstring option \<Rightarrow> (env_errno + unit) \<times> dir" where
  "opendir served path =
     (case path of None \<Rightarrow> (Inl ENOENT, served)
      | Some s \<Rightarrow> if s \<noteq> cstr ''/'' \<and> s \<noteq> cstr ''.'' \<and> s \<noteq> cstr ''./'' then (Inl ENOTDIR, served)
                  else (Inr (), False))"

definition readdir :: "bool \<Rightarrow> dir \<Rightarrow> (env_errno option \<times> cstring option) \<times> dir" where
  "readdir valid served =
     (if \<not> valid then ((Some EBADF, None), served)
      else if served then ((None, None), served) else ((None, None), True))"

definition closedir :: "bool \<Rightarrow> dir \<Rightarrow> (env_errno option \<times> int) \<times> dir" where
  "closedir valid served = (if \<not> valid then ((Some EBADF, -1), served) else ((None, 0), True))"

definition rewinddir :: "bool \<Rightarrow> dir \<Rightarrow> dir" where
  "rewinddir valid served = (if valid then False else served)"

definition dirfd :: "bool \<Rightarrow> int" where
  "dirfd valid = (if valid then 0 else -1)"

text \<open>What \<open>wait\<close> leaves in the status, its error and its result.\<close>

definition wait_child :: "int option \<Rightarrow> int option \<times> env_errno \<times> int" where
  "wait_child status = (map_option (\<lambda>_. 0) status, ECHILD, -1)"

definition waitpid :: "int \<Rightarrow> int option \<Rightarrow> int \<Rightarrow> int option \<times> env_errno \<times> int" where
  "waitpid process status options = wait_child status"

end
