(* ===== verification/Arena.thy ===== *)
theory Arena
  imports Prelude_CC64
begin

text \<open>
  The arena allocator of the compiler (\<open>src/src/common/arena.c\<close>): blocks that are filled from the
  front, marks and releases. A block is named by the number of blocks made before it, and a pointer
  is a block and an offset into it. Blocks come from \<open>cc64_xmalloc\<close>, which ends the process instead
  of failing.
\<close>

record arena_block =
  ab_id :: nat
  ab_used :: nat
  ab_capacity :: nat

record arena =
  ar_blocks :: "arena_block list"
  ar_total :: nat
  ar_limit :: nat
  ar_next :: nat

record arena_mark =
  am_block :: "nat option"
  am_used :: nat
  am_total :: nat

subsection \<open>Operations\<close>

definition align_size :: "nat \<Rightarrow> nat option" where
  "align_size v = (if v > SIZE_MAX - 15 then None else Some ((v + 15) div 16 * 16))"

definition size_add :: "nat \<Rightarrow> nat \<Rightarrow> nat option" where
  "size_add left right = (if right > SIZE_MAX - left then None else Some (left + right))"

definition size_mul :: "nat \<Rightarrow> nat \<Rightarrow> nat option" where
  "size_mul left right = (if left \<noteq> 0 \<and> right > SIZE_MAX div left then None else Some (left * right))"

definition arena_create :: "nat \<Rightarrow> arena" where
  "arena_create limit = \<lparr>ar_blocks = [], ar_total = 0, ar_limit = limit, ar_next = 0\<rparr>"

text \<open>Taking \<open>capacity\<close> bytes from the head block.\<close>

definition arena_take :: "arena \<Rightarrow> nat \<Rightarrow> (nat \<times> nat) option \<times> arena" where
  "arena_take ar capacity =
     (case ar_blocks ar of [] \<Rightarrow> (None, ar)
      | b # bs \<Rightarrow> (Some (ab_id b, ab_used b),
           ar\<lparr>ar_blocks := b\<lparr>ab_used := ab_used b + capacity\<rparr> # bs, ar_total := ar_total ar + capacity\<rparr>))"

text \<open>\<open>sizeof\<close> of a block record, four words.\<close>

abbreviation (input) SIZEOF_ARENA_BLOCK :: nat where "SIZEOF_ARENA_BLOCK \<equiv> 32"

definition arena_alloc :: "arena \<Rightarrow> nat \<Rightarrow> (nat \<times> nat) option \<times> arena" where
  "arena_alloc ar bytes =
     (case align_size (if bytes = 0 then 1 else bytes) of None \<Rightarrow> (None, ar)
      | Some capacity \<Rightarrow>
        (case size_add (ar_total ar) capacity of None \<Rightarrow> (None, ar)
         | Some new_total \<Rightarrow>
           if new_total > ar_limit ar then (None, ar)
           else if (case ar_blocks ar of [] \<Rightarrow> True | b # _ \<Rightarrow> ab_capacity b - ab_used b < capacity) then
             (let wanted = (if capacity > 65536 then capacity else 65536);
                  remaining = ar_limit ar - ar_total ar;
                  block_capacity = (if wanted > remaining then remaining else wanted)
              in if block_capacity < capacity then (None, ar)
                 else if size_add block_capacity SIZEOF_ARENA_BLOCK = None then (None, ar)
                 else arena_take (ar\<lparr>ar_blocks := \<lparr>ab_id = ar_next ar, ab_used = 0, ab_capacity = block_capacity\<rparr> # ar_blocks ar,
                                    ar_next := ar_next ar + 1\<rparr>) capacity)
           else arena_take ar capacity))"

definition arena_alloc_array :: "arena \<Rightarrow> nat \<Rightarrow> nat \<Rightarrow> (nat \<times> nat) option \<times> arena" where
  "arena_alloc_array ar n sz =
     (case size_mul n sz of None \<Rightarrow> (None, ar) | Some bytes \<Rightarrow> arena_alloc ar bytes)"

definition arena_mark :: "arena option \<Rightarrow> arena_mark" where
  "arena_mark ar =
     (case ar of None \<Rightarrow> \<lparr>am_block = None, am_used = 0, am_total = 0\<rparr>
      | Some a \<Rightarrow> (case ar_blocks a of [] \<Rightarrow> \<lparr>am_block = None, am_used = 0, am_total = ar_total a\<rparr>
          | b # _ \<Rightarrow> \<lparr>am_block = Some (ab_id b), am_used = ab_used b, am_total = ar_total a\<rparr>))"

text \<open>The blocks freed by a release, and the arena after it. The mark's block loses its successors.\<close>

definition arena_release :: "arena \<Rightarrow> arena_mark \<Rightarrow> nat list \<times> arena" where
  "arena_release ar m =
     (let freed = takeWhile (\<lambda>b. Some (ab_id b) \<noteq> am_block m) (ar_blocks ar);
          rest = dropWhile (\<lambda>b. Some (ab_id b) \<noteq> am_block m) (ar_blocks ar)
      in (map ab_id freed,
          ar\<lparr>ar_blocks := (case rest of [] \<Rightarrow> [] | b # _ \<Rightarrow> [b\<lparr>ab_used := am_used m\<rparr>]), ar_total := am_total m\<rparr>))"

definition arena_destroy :: "arena \<Rightarrow> nat list" where
  "arena_destroy ar = map ab_id (ar_blocks ar)"

subsection \<open>Runs\<close>

text \<open>
  A client's run: it allocates, takes marks and releases them in the reverse order, and drops with a
  release everything it allocated since the mark. The state has the arena, the live allocations as
  (block, offset, bytes), the open marks with the number of allocations that precede them, and the
  blocks that were freed.
\<close>

record arena_run =
  rn_arena :: arena
  rn_live :: "(nat \<times> nat \<times> nat) list"
  rn_marks :: "(arena_mark \<times> nat) list"
  rn_freed :: "nat list"

inductive arena_step :: "arena_run \<Rightarrow> arena_run \<Rightarrow> bool" where
  step_alloc: "arena_alloc (rn_arena r) bytes = (Some (b, off), ar) \<Longrightarrow>
     arena_step r (r\<lparr>rn_arena := ar, rn_live := rn_live r @ [(b, off, bytes)]\<rparr>)"
| step_refused: "arena_alloc (rn_arena r) bytes = (None, ar) \<Longrightarrow> arena_step r (r\<lparr>rn_arena := ar\<rparr>)"
| step_mark: "arena_step r (r\<lparr>rn_marks := (arena_mark (Some (rn_arena r)), length (rn_live r)) # rn_marks r\<rparr>)"
| step_release: "rn_marks r = (m, n) # ms \<Longrightarrow> arena_release (rn_arena r) m = (freed, ar) \<Longrightarrow>
     arena_step r (r\<lparr>rn_arena := ar, rn_live := take n (rn_live r), rn_marks := ms, rn_freed := rn_freed r @ freed\<rparr>)"

inductive arena_reaches :: "nat \<Rightarrow> arena_run \<Rightarrow> bool" for limit where
  reach_start: "arena_reaches limit \<lparr>rn_arena = arena_create limit, rn_live = [], rn_marks = [], rn_freed = []\<rparr>"
| reach_step: "arena_reaches limit r \<Longrightarrow> arena_step r r' \<Longrightarrow> arena_reaches limit r'"

text \<open>The bytes an allocation occupies, and that two of them are apart.\<close>

definition padded :: "nat \<Rightarrow> nat" where
  "padded bytes = (max 1 bytes + 15) div 16 * 16"

definition apart :: "nat \<times> nat \<times> nat \<Rightarrow> nat \<times> nat \<times> nat \<Rightarrow> bool" where
  "apart x y = (case (x, y) of ((b, off, n), (b', off', n')) \<Rightarrow> b \<noteq> b' \<or> off + n \<le> off' \<or> off' + n' \<le> off)"

subsection \<open>The invariant\<close>

definition block_ok :: "(nat \<times> nat \<times> nat) list \<Rightarrow> arena_block \<Rightarrow> bool" where
  "block_ok live b \<longleftrightarrow> ab_used b \<le> ab_capacity b \<and> 16 dvd ab_used b \<and>
     (\<forall>(i, off, n) \<in> set live. i = ab_id b \<longrightarrow> off + padded n \<le> ab_used b)"

definition mark_ok :: "arena \<Rightarrow> (nat \<times> nat \<times> nat) list \<Rightarrow> arena_mark \<Rightarrow> nat \<Rightarrow> bool" where
  "mark_ok ar live m n \<longleftrightarrow> n \<le> length live \<and> am_total m \<le> ar_limit ar \<and>
     (case am_block m of
        None \<Rightarrow> \<forall>(i, off, k) \<in> set (take n live). \<forall>b \<in> set (ar_blocks ar). i < ab_id b
      | Some j \<Rightarrow> j < ar_next ar \<and> 16 dvd am_used m \<and>
          (\<forall>(i, off, k) \<in> set (take n live). i \<le> j \<and> (i = j \<longrightarrow> off + padded k \<le> am_used m)) \<and>
          (\<forall>b \<in> set (ar_blocks ar). ab_id b = j \<longrightarrow> am_used m \<le> ab_capacity b) \<and>
          (j \<in> ab_id ` set (ar_blocks ar) \<or> (\<forall>b \<in> set (ar_blocks ar). j < ab_id b)))"

text \<open>An older mark lies no later than a newer one.\<close>

definition mark_order :: "arena_mark \<times> nat \<Rightarrow> arena_mark \<times> nat \<Rightarrow> bool" where
  "mark_order x y \<longleftrightarrow> snd y \<le> snd x \<and>
     (case (am_block (fst x), am_block (fst y)) of (Some j, Some j') \<Rightarrow> j' \<le> j | _ \<Rightarrow> True)"

definition arena_ok :: "arena \<Rightarrow> (nat \<times> nat \<times> nat) list \<Rightarrow> bool" where
  "arena_ok ar live \<longleftrightarrow>
     ar_total ar \<le> ar_limit ar \<and> sorted_wrt (\<lambda>b c. ab_id c < ab_id b) (ar_blocks ar) \<and>
     (\<forall>b \<in> set (ar_blocks ar). ab_id b < ar_next ar \<and> block_ok live b) \<and>
     (\<forall>(i, off, n) \<in> set live. i < ar_next ar \<and> 16 dvd off \<and>
        (ar_blocks ar \<noteq> [] \<longrightarrow> i \<le> ab_id (hd (ar_blocks ar)))) \<and>
     sorted_wrt apart live"

definition run_ok :: "nat \<Rightarrow> arena_run \<Rightarrow> bool" where
  "run_ok limit r \<longleftrightarrow>
     ar_limit (rn_arena r) = limit \<and> arena_ok (rn_arena r) (rn_live r) \<and>
     (\<forall>i \<in> set (rn_freed r). i < ar_next (rn_arena r) \<and> i \<notin> ab_id ` set (ar_blocks (rn_arena r)) \<and>
        i \<notin> fst ` set (rn_live r)) \<and>
     (\<forall>(m, n) \<in> set (rn_marks r). mark_ok (rn_arena r) (rn_live r) m n) \<and>
     sorted_wrt mark_order (rn_marks r)"

lemma padded_props: "bytes \<le> padded bytes" "16 dvd padded bytes" "16 \<le> padded bytes"
proof -
  show "16 dvd padded bytes" by (simp add: padded_def)
  have "(max 1 bytes + 15) mod 16 < 16" by simp
  moreover have "max 1 bytes + 15 = padded bytes + (max 1 bytes + 15) mod 16" by (simp add: padded_def)
  ultimately show "bytes \<le> padded bytes" "16 \<le> padded bytes"
    using \<open>16 dvd padded bytes\<close> by (auto simp: dvd_def)
qed

text \<open>What a successful allocation does, in one statement for both branches.\<close>

lemma arena_alloc_Some:
  assumes "arena_alloc ar bytes = (Some (i, off), ar')"
  shows "\<exists>b bs. ab_id b = i \<and> ab_used b = off \<and> off + padded bytes \<le> ab_capacity b \<and>
    ar_total ar + padded bytes \<le> ar_limit ar \<and>
    (ar_blocks ar = b # bs \<and> ar_next ar' = ar_next ar \<or>
     bs = ar_blocks ar \<and> i = ar_next ar \<and> off = 0 \<and> ar_next ar' = Suc (ar_next ar)) \<and>
    ar_blocks ar' = b\<lparr>ab_used := off + padded bytes\<rparr> # bs \<and>
    ar_total ar' = ar_total ar + padded bytes \<and> ar_limit ar' = ar_limit ar"
proof -
  have pad: "align_size (if bytes = 0 then 1 else bytes) = Some c \<Longrightarrow> c = padded bytes" for c
    by (auto simp: align_size_def padded_def max_def split: if_splits)
  obtain c where "align_size (if bytes = 0 then 1 else bytes) = Some c"
    using assms unfolding arena_alloc_def by (cases "align_size (if bytes = 0 then 1 else bytes)") auto
  then have al: "align_size (if bytes = 0 then 1 else bytes) = Some (padded bytes)" using pad by simp
  obtain t where t: "size_add (ar_total ar) (padded bytes) = Some t"
    using assms unfolding arena_alloc_def al option.case by (cases "size_add (ar_total ar) (padded bytes)") auto
  then have t': "t = ar_total ar + padded bytes" by (simp add: size_add_def split: if_splits)
  let ?full = "case ar_blocks ar of [] \<Rightarrow> True | b # _ \<Rightarrow> ab_capacity b - ab_used b < padded bytes"
  have lim: "t \<le> ar_limit ar" using assms unfolding arena_alloc_def al t option.case by (auto split: if_splits)
  note run = assms [unfolded arena_alloc_def al t option.case]
  show ?thesis
  proof (cases ?full)
    case True
    let ?cap = "if (if padded bytes > 65536 then padded bytes else 65536) > ar_limit ar - ar_total ar
                then ar_limit ar - ar_total ar else if padded bytes > 65536 then padded bytes else 65536"
    let ?b = "\<lparr>ab_id = ar_next ar, ab_used = 0, ab_capacity = ?cap\<rparr>"
    from run lim True have "\<not> ?cap < padded bytes"
      and "arena_take (ar\<lparr>ar_blocks := ?b # ar_blocks ar, ar_next := ar_next ar + 1\<rparr>) (padded bytes) = (Some (i, off), ar')"
      by (simp_all only: Let_def not_less [symmetric] if_False if_True split: if_split_asm) auto
    then show ?thesis using lim t'
      by (intro exI [of _ ?b] exI [of _ "ar_blocks ar"]) (auto simp: arena_take_def)
  next
    case False
    then obtain b bs where b: "ar_blocks ar = b # bs" "\<not> ab_capacity b - ab_used b < padded bytes"
      by (auto split: list.splits)
    from run lim False have "arena_take ar (padded bytes) = (Some (i, off), ar')" by simp
    then show ?thesis using lim t' b padded_props(3) [of bytes]
      by (intro exI [of _ b] exI [of _ bs]) (auto simp: arena_take_def)
  qed
qed


lemma arena_alloc_None: "arena_alloc ar bytes = (None, ar') \<Longrightarrow> ar' = ar"
  unfolding arena_alloc_def arena_take_def Let_def
  by (auto split: option.splits if_splits list.splits)

lemma alloc_cases:
  assumes "arena_alloc ar bytes = (Some (i, off), ar')"
  obtains (head) b bs where "ar_blocks ar = b # bs" "ab_id b = i" "ab_used b = off"
      "off + padded bytes \<le> ab_capacity b" "ar_blocks ar' = b\<lparr>ab_used := off + padded bytes\<rparr> # bs"
      "ar_next ar' = ar_next ar" "ar_total ar' \<le> ar_limit ar" "ar_limit ar' = ar_limit ar"
  | (fresh) b where "ab_id b = ar_next ar" "i = ar_next ar" "off = 0" "padded bytes \<le> ab_capacity b"
      "ar_blocks ar' = b\<lparr>ab_used := padded bytes\<rparr> # ar_blocks ar" "ar_next ar' = Suc (ar_next ar)"
      "ar_total ar' \<le> ar_limit ar" "ar_limit ar' = ar_limit ar"
  using arena_alloc_Some [OF assms] by auto

lemma arena_ok_alloc:
  assumes ok: "arena_ok ar live" and run: "arena_alloc ar bytes = (Some (i, off), ar')"
  shows "arena_ok ar' (live @ [(i, off, bytes)])"
proof -
  note pad = padded_props [of bytes]
  have near: "off' + k \<le> off' + padded k" for off' k using padded_props(1) [of k] by simp
  from run show ?thesis
  proof (cases rule: alloc_cases)
    case (head b bs)
    have b: "block_ok live b" "ab_id b < ar_next ar" using ok head(1) by (simp_all add: arena_ok_def)
    have others: "ab_id c \<noteq> i" if "c \<in> set bs" for c using ok head(1,2) that by (auto simp: arena_ok_def)
    have apart: "apart y (i, off, bytes)" if "y \<in> set live" for y
    proof -
      obtain i' off' k where y: "y = (i', off', k)" by (cases y)
      show ?thesis
      proof (cases "i' = i")
        case True
        then have "off' + padded k \<le> off" using b(1) that y head(2,3) by (auto simp: block_ok_def)
        then show ?thesis using near [of off' k] by (simp add: apart_def y)
      qed (simp add: apart_def y)
    qed
    have "block_ok (live @ [(i, off, bytes)]) (b\<lparr>ab_used := off + padded bytes\<rparr>)"
      using b(1) head pad by (fastforce simp: block_ok_def)
    moreover have "block_ok (live @ [(i, off, bytes)]) c" if "c \<in> set bs" for c
      using ok head(1) others [OF that] that by (auto simp: arena_ok_def block_ok_def)
    moreover have "16 dvd off" using b(1) head(3) by (simp add: block_ok_def)
    ultimately show ?thesis using ok head b apart
      by (auto simp: arena_ok_def sorted_wrt_append)
  next
    case (fresh b)
    have ids: "i' < ar_next ar" if "(i', off', k) \<in> set live" for i' off' k using ok that by (auto simp: arena_ok_def)
    have "block_ok (live @ [(i, off, bytes)]) (b\<lparr>ab_used := padded bytes\<rparr>)"
      using fresh pad ids by (fastforce simp: block_ok_def)
    moreover have "block_ok (live @ [(i, off, bytes)]) c" "ab_id c < ar_next ar" if "c \<in> set (ar_blocks ar)" for c
      using ok fresh that by (auto simp: arena_ok_def block_ok_def)
    moreover have "apart y (i, off, bytes)" if "y \<in> set live" for y
      using ids that fresh(2) by (cases y) (fastforce simp: apart_def)
    ultimately show ?thesis using ok fresh ids
      by (fastforce simp: arena_ok_def sorted_wrt_append)
  qed
qed

lemma mark_ok_alloc:
  assumes ok: "arena_ok ar live" and run: "arena_alloc ar bytes = (Some (i, off), ar')" and m: "mark_ok ar live m n"
  shows "mark_ok ar' (live @ [x]) m n"
proof -
  have n: "n \<le> length live" using m by (simp add: mark_ok_def)
  have ids: "i' < ar_next ar" if "(i', off', k) \<in> set (take n live)" for i' off' k
    using ok in_set_takeD [OF that] by (auto simp: arena_ok_def)
  from run show ?thesis
  proof (cases rule: alloc_cases)
    case head
    with m n show ?thesis by (auto simp: mark_ok_def split: option.splits)
  next
    case fresh
    with m n ids show ?thesis by (fastforce simp: mark_ok_def split: option.splits)
  qed
qed

lemma arena_ok_take:
  assumes "arena_ok ar live"
  shows "arena_ok ar (take n live)"
  using assms by (auto simp: arena_ok_def block_ok_def sorted_wrt_take dest!: in_set_takeD)

lemma mark_new:
  assumes ok: "arena_ok ar live"
  shows "mark_ok ar live (arena_mark (Some ar)) (length live)"
    and "mark_ok ar live m n \<Longrightarrow> mark_order (arena_mark (Some ar), length live) (m, n)"
proof -
  show "mark_ok ar live (arena_mark (Some ar)) (length live)"
  proof (cases "ar_blocks ar")
    case Nil
    then show ?thesis using ok by (simp add: mark_ok_def arena_mark_def arena_ok_def)
  next
    case (Cons b bs)
    then have "block_ok live b" "ab_id b < ar_next ar" using ok by (simp_all add: arena_ok_def)
    moreover have "i \<le> ab_id b" if "(i, off, k) \<in> set live" for i off k using ok Cons that by (auto simp: arena_ok_def)
    moreover have "ab_id c \<noteq> ab_id b" if "c \<in> set bs" for c using ok Cons that by (auto simp: arena_ok_def)
    ultimately show ?thesis using Cons ok by (auto simp: mark_ok_def arena_mark_def arena_ok_def block_ok_def)
  qed
  show "mark_order (arena_mark (Some ar), length live) (m, n)" if m: "mark_ok ar live m n"
  proof (cases "ar_blocks ar")
    case Nil
    with m show ?thesis by (auto simp: mark_order_def mark_ok_def arena_mark_def)
  next
    case (Cons b bs)
    have "c \<in> set (ar_blocks ar) \<Longrightarrow> ab_id c \<le> ab_id b" for c using ok Cons by (auto simp: arena_ok_def)
    with m Cons show ?thesis by (fastforce simp: mark_order_def mark_ok_def arena_mark_def split: option.splits)
  qed
qed

lemma release_blocks:
  assumes ok: "arena_ok ar live" and m: "mark_ok ar live m n" and run: "arena_release ar m = (freed, ar')"
  obtains (none) "ar_blocks ar' = []" "freed = map ab_id (ar_blocks ar)"
      "\<And>j b. am_block m = Some j \<Longrightarrow> b \<in> set (ar_blocks ar) \<Longrightarrow> j < ab_id b"
  | (some) pre b bs where "am_block m = Some (ab_id b)" "ar_blocks ar = pre @ b # bs" "freed = map ab_id pre"
      "ar_blocks ar' = [b\<lparr>ab_used := am_used m\<rparr>]" "\<And>c. c \<in> set pre \<Longrightarrow> ab_id b < ab_id c"
proof (cases "\<exists>b \<in> set (ar_blocks ar). am_block m = Some (ab_id b)")
  case True
  then obtain pre b bs where split: "ar_blocks ar = pre @ b # bs" "am_block m = Some (ab_id b)"
      "\<forall>c \<in> set pre. am_block m \<noteq> Some (ab_id c)"
    using split_list_first_prop [of "ar_blocks ar" "\<lambda>b. am_block m = Some (ab_id b)"] by blast
  have later: "ab_id b < ab_id c" if "c \<in> set pre" for c
    using ok split(1) that by (auto simp: arena_ok_def sorted_wrt_append)
  then have "\<forall>c \<in> set pre. ab_id c \<noteq> ab_id b" by fastforce
  then have "takeWhile (\<lambda>b. Some (ab_id b) \<noteq> am_block m) (ar_blocks ar) = pre"
    "dropWhile (\<lambda>b. Some (ab_id b) \<noteq> am_block m) (ar_blocks ar) = b # bs"
    using split(1,2) by (simp_all add: takeWhile_append2 dropWhile_append2)
  note tw = this
  have "freed = map ab_id pre" "ar_blocks ar' = [b\<lparr>ab_used := am_used m\<rparr>]"
    using run unfolding arena_release_def Let_def tw by auto
  then show thesis using split some later by blast
next
  case False
  then have "takeWhile (\<lambda>b. Some (ab_id b) \<noteq> am_block m) (ar_blocks ar) = ar_blocks ar"
    "dropWhile (\<lambda>b. Some (ab_id b) \<noteq> am_block m) (ar_blocks ar) = []" by auto
  note tw = this
  have "freed = map ab_id (ar_blocks ar)" "ar_blocks ar' = []"
    using run unfolding arena_release_def Let_def tw by auto
  moreover have "j < ab_id b" if "am_block m = Some j" "b \<in> set (ar_blocks ar)" for j b
    using m that False by (force simp: mark_ok_def)
  ultimately show thesis using none by blast
qed

lemma release_ok:
  assumes ok: "arena_ok ar live" and m: "mark_ok ar live m n" and run: "arena_release ar m = (freed, ar')"
  shows "arena_ok ar' (take n live)" "ar_limit ar' = ar_limit ar" "ar_next ar' = ar_next ar"
    "ab_id ` set (ar_blocks ar') \<subseteq> ab_id ` set (ar_blocks ar)"
    "\<forall>i \<in> set freed. i < ar_next ar \<and> i \<notin> ab_id ` set (ar_blocks ar') \<and> i \<notin> fst ` set (take n live)"
    "mark_ok ar live m' n' \<Longrightarrow> mark_order (m, n) (m', n') \<Longrightarrow> mark_ok ar' (take n live) m' n'"
proof -
  have frame: "ar_limit ar' = ar_limit ar" "ar_next ar' = ar_next ar" "ar_total ar' = am_total m"
    using run by (auto simp: arena_release_def Let_def)
  then show "ar_limit ar' = ar_limit ar" "ar_next ar' = ar_next ar" by simp_all
  have tot: "am_total m \<le> ar_limit ar" using m by (simp add: mark_ok_def)
  note taken = arena_ok_take [OF ok, of n]
  have old: "ab_id b < ar_next ar" if "b \<in> set (ar_blocks ar)" for b using ok that by (simp add: arena_ok_def)
  from ok m run show "arena_ok ar' (take n live)"
  proof (cases rule: release_blocks)
    case none
    then show ?thesis using taken frame tot by (auto simp: arena_ok_def)
  next
    case (some pre b bs)
    then have "block_ok (take n live) (b\<lparr>ab_used := am_used m\<rparr>)" "ab_id b < ar_next ar"
      "\<forall>(i, off, k) \<in> set (take n live). i \<le> ab_id b"
      using m old by (auto simp: mark_ok_def block_ok_def)
    then show ?thesis using taken frame tot some by (auto simp: arena_ok_def)
  qed
  from ok m run show "ab_id ` set (ar_blocks ar') \<subseteq> ab_id ` set (ar_blocks ar)"
    by (cases rule: release_blocks) auto
  from ok m run show "\<forall>i \<in> set freed. i < ar_next ar \<and> i \<notin> ab_id ` set (ar_blocks ar') \<and> i \<notin> fst ` set (take n live)"
  proof (cases rule: release_blocks)
    case none
    have "i < ab_id b" if "(i, off, k) \<in> set (take n live)" "b \<in> set (ar_blocks ar)" for i off k b
    proof (cases "am_block m")
      case None
      then show ?thesis using m that by (auto simp: mark_ok_def)
    next
      case (Some j)
      then have "i \<le> j" using m that(1) by (auto simp: mark_ok_def)
      then show ?thesis using none(3) [OF Some that(2)] by simp
    qed
    then show ?thesis using none(1,2) old by fastforce
  next
    case (some pre b bs)
    have "i \<le> ab_id b" if "(i, off, k) \<in> set (take n live)" for i off k
      using m some(1) that by (auto simp: mark_ok_def)
    then show ?thesis using some old by fastforce
  qed
  assume m': "mark_ok ar live m' n'" and o: "mark_order (m, n) (m', n')"
  then have n': "take n' (take n live) = take n' live" "n' \<le> length (take n live)"
    using m by (auto simp: mark_order_def mark_ok_def min_def)
  from ok m run show "mark_ok ar' (take n live) m' n'"
  proof (cases rule: release_blocks)
    case none
    then show ?thesis using m' n' frame by (auto simp: mark_ok_def split: option.splits)
  next
    case (some pre b bs)
    show ?thesis
    proof (cases "am_block m'")
      case None
      then show ?thesis using m' n' frame some by (auto simp: mark_ok_def)
    next
      case (Some j)
      then have "j \<le> ab_id b" using o some(1) by (simp add: mark_order_def)
      moreover have "ab_id b = j \<longrightarrow> am_used m' \<le> ab_capacity b" using m' Some some(2) by (auto simp: mark_ok_def)
      ultimately show ?thesis using m' n' frame some Some by (auto simp: mark_ok_def)
    qed
  qed
qed

lemma run_ok_step:
  assumes "arena_step r r'" "run_ok limit r"
  shows "run_ok limit r'"
  using assms
proof (cases rule: arena_step.cases)
  case (step_alloc bytes b off ar)
  have ok: "arena_ok (rn_arena r) (rn_live r)" using assms(2) by (simp add: run_ok_def)
  have freed: "i < ar_next ar \<and> i \<notin> ab_id ` set (ar_blocks ar) \<and> i \<noteq> b" if "i \<in> set (rn_freed r)" for i
  proof -
    have "i < ar_next (rn_arena r)" "i \<notin> ab_id ` set (ar_blocks (rn_arena r))" using assms(2) that by (auto simp: run_ok_def)
    with step_alloc(2) show ?thesis by (cases rule: alloc_cases) auto
  qed
  have "ar_limit ar = ar_limit (rn_arena r)" using step_alloc(2) by (cases rule: alloc_cases) auto
  then show ?thesis
    using assms(2) step_alloc(1) arena_ok_alloc [OF ok step_alloc(2)] mark_ok_alloc [OF ok step_alloc(2)] freed
    by (auto simp: run_ok_def)
next
  case (step_refused bytes ar)
  then show ?thesis using assms(2) arena_alloc_None by (cases r) auto
next
  case step_mark
  have ok: "arena_ok (rn_arena r) (rn_live r)" using assms(2) by (simp add: run_ok_def)
  show ?thesis unfolding step_mark using assms(2) mark_new [OF ok] by (auto simp: run_ok_def)
next
  case (step_release m n ms freed ar)
  have ok: "arena_ok (rn_arena r) (rn_live r)" and m: "mark_ok (rn_arena r) (rn_live r) m n"
    using assms(2) step_release(2) by (simp_all add: run_ok_def)
  note R = release_ok [OF ok m step_release(3)]
  have "mark_ok ar (take n (rn_live r)) m' n'" if "(m', n') \<in> set ms" for m' n'
    using assms(2) step_release(2) that by (intro R(6)) (auto simp: run_ok_def)
  moreover have "i \<notin> fst ` set (take n (rn_live r))" if "i \<in> set (rn_freed r)" for i
    using assms(2) that by (auto simp: run_ok_def dest!: in_set_takeD)
  moreover have "ab_id c \<notin> set (rn_freed r)" if "c \<in> set (ar_blocks ar)" for c
  proof -
    have "ab_id c \<in> ab_id ` set (ar_blocks (rn_arena r))" using R(4) that by blast
    then show ?thesis using assms(2) by (auto simp: run_ok_def)
  qed
  ultimately show ?thesis using assms(2) step_release(1,2) R(1-3,5) by (auto simp: run_ok_def)
qed

lemma reaches_ok: "arena_reaches limit r \<Longrightarrow> run_ok limit r"
proof (induction rule: arena_reaches.induct)
  case reach_start
  then show ?case by (simp add: run_ok_def arena_ok_def arena_create_def)
qed (rule run_ok_step)

text \<open>
  C10. However a client allocates, marks and releases in nested order, no two live allocations overlap,
  each is 16-aligned, no block that holds a live allocation has been freed, none is outside its block
  while the arena still has it, and the arena never accounts for more than its limit.
\<close>

theorem arena_runs_safe:
  assumes "arena_reaches limit r"
  shows "sorted_wrt apart (rn_live r) \<and> ar_total (rn_arena r) \<le> limit \<and>
    list_all (\<lambda>(i, off, n). 16 dvd off \<and> i \<notin> set (rn_freed r) \<and>
      list_all (\<lambda>b. ab_id b = i \<longrightarrow> off + n \<le> ab_capacity b) (ar_blocks (rn_arena r))) (rn_live r)"
proof -
  have r: "run_ok limit r" by (rule reaches_ok [OF assms])
  have "16 dvd off \<and> i \<notin> set (rn_freed r) \<and> (\<forall>b \<in> set (ar_blocks (rn_arena r)). ab_id b = i \<longrightarrow> off + n \<le> ab_capacity b)"
    if "(i, off, n) \<in> set (rn_live r)" for i off n
  proof -
    have "off + n \<le> ab_capacity b" if "b \<in> set (ar_blocks (rn_arena r))" "ab_id b = i" for b
    proof -
      have "off + padded n \<le> ab_used b" "ab_used b \<le> ab_capacity b"
        using r that \<open>(i, off, n) \<in> set (rn_live r)\<close> by (auto simp: run_ok_def arena_ok_def block_ok_def)
      then show ?thesis using padded_props(1) [of n] by linarith
    qed
    moreover have "i \<notin> set (rn_freed r)" using r that by (force simp: run_ok_def)
    ultimately show ?thesis using r that by (auto simp: run_ok_def arena_ok_def)
  qed
  then show ?thesis using r by (auto simp: run_ok_def arena_ok_def list_all_iff)
qed


theorem arena_runs_safe_witness:
  "\<exists>r. arena_reaches 64 r \<and> rn_live r = [(0, 0, 5), (0, 16, 20)] \<and> ar_total (rn_arena r) \<le> 64"
proof -
  let ?a = "\<lambda>used. \<lparr>ar_blocks = [\<lparr>ab_id = 0, ab_used = used, ab_capacity = 64\<rparr>], ar_total = used, ar_limit = 64, ar_next = 1\<rparr>"
  let ?r = "\<lparr>rn_arena = arena_create 64, rn_live = [], rn_marks = [], rn_freed = []\<rparr>"
  have 1: "arena_alloc (arena_create 64) 5 = (Some (0, 0), ?a 16)"
    by (simp add: arena_alloc_def arena_create_def align_size_def size_add_def arena_take_def SIZE_MAX_def Let_def)
  have 2: "arena_alloc (?a 16) 20 = (Some (0, 16), ?a 48)"
    by (simp add: arena_alloc_def align_size_def size_add_def arena_take_def SIZE_MAX_def Let_def)
  have "arena_reaches 64 ?r" by (rule reach_start)
  then have "arena_reaches 64 (?r\<lparr>rn_arena := ?a 16, rn_live := [(0, 0, 5)]\<rparr>)"
    using step_alloc [of ?r 5 0 0 "?a 16"] 1 by (auto intro: reach_step)
  then have r: "arena_reaches 64 (?r\<lparr>rn_arena := ?a 48, rn_live := [(0, 0, 5), (0, 16, 20)]\<rparr>)"
    using step_alloc [of "?r\<lparr>rn_arena := ?a 16, rn_live := [(0, 0, 5)]\<rparr>" 20 0 16 "?a 48"] 2 by (auto intro: reach_step)
  from arena_runs_safe [OF this] r show ?thesis by (intro exI [of _ "?r\<lparr>rn_arena := ?a 48, rn_live := [(0, 0, 5), (0, 16, 20)]\<rparr>"]) simp
qed

end
