(* ===== verification/Sources.thy ===== *)
theory Sources
  imports Arena
begin

text \<open>
  The source manager (\<open>src/src/common/source.c\<close>) and the diagnostic sink
  (\<open>src/src/common/diagnostic.c\<close>) of the compiler. A source's bytes and path are copied into the
  arena, which is threaded through every operation; what reading a file gives is a parameter.
\<close>

subsection \<open>Sources\<close>

record source =
  so_path :: cstring
  so_bytes :: "byte list"
  so_id :: u32

record source_manager =
  sm_arena :: arena
  sm_sources :: "source list"
  sm_capacity :: nat

text \<open>\<open>sizeof\<close> of the manager, of a source and of a pointer on the host.\<close>

abbreviation (input) SIZEOF_MANAGER :: nat where "SIZEOF_MANAGER \<equiv> 32"
abbreviation (input) SIZEOF_SOURCE :: nat where "SIZEOF_SOURCE \<equiv> 32"
abbreviation (input) SIZEOF_POINTER :: nat where "SIZEOF_POINTER \<equiv> 8"

definition source_manager_create :: "arena \<Rightarrow> source_manager option \<times> arena" where
  "source_manager_create ar =
     (case arena_alloc ar SIZEOF_MANAGER of (None, ar) \<Rightarrow> (None, ar)
      | (Some p, ar) \<Rightarrow> (Some \<lparr>sm_arena = ar, sm_sources = [], sm_capacity = 0\<rparr>, ar))"

text \<open>The growth of the table: a failure leaves the manager without the new table.\<close>

definition grow_sources :: "source_manager \<Rightarrow> source_manager option \<times> arena" where
  "grow_sources sm =
     (if length (sm_sources sm) = sm_capacity sm then
        (let wanted = (if sm_capacity sm = 0 then 8 else (sm_capacity sm * 2) mod 2 ^ 64) in
         if wanted < sm_capacity sm then (None, sm_arena sm)
         else case arena_alloc_array (sm_arena sm) wanted SIZEOF_POINTER of
             (None, ar) \<Rightarrow> (None, ar)
           | (Some p, ar) \<Rightarrow> (Some (sm\<lparr>sm_arena := ar, sm_capacity := wanted\<rparr>), ar))
      else (Some sm, sm_arena sm))"

definition source_manager_add ::
  "source_manager \<Rightarrow> cstring option \<Rightarrow> byte list \<Rightarrow> source option \<times> source_manager" where
  "source_manager_add sm path bytes =
     (case path of None \<Rightarrow> (None, sm)
      | Some p \<Rightarrow>
        if length bytes = SIZE_MAX then (None, sm)
        else case grow_sources sm of
            (None, ar) \<Rightarrow> (None, sm\<lparr>sm_arena := ar\<rparr>)
          | (Some sm, _) \<Rightarrow>
            (case arena_alloc (sm_arena sm) SIZEOF_SOURCE of (record_at, ar) \<Rightarrow>
             case arena_alloc ar (length bytes + 1) of (copy_at, ar) \<Rightarrow>
             if record_at = None \<or> copy_at = None then (None, sm\<lparr>sm_arena := ar\<rparr>)
             else case arena_alloc ar (length p + 1) of
                 (None, ar) \<Rightarrow> (None, sm\<lparr>sm_arena := ar\<rparr>)
               | (Some path_at, ar) \<Rightarrow>
                   let source = \<lparr>so_path = p, so_bytes = bytes, so_id = of_nat (length (sm_sources sm)) + 1\<rparr>
                   in (Some source, sm\<lparr>sm_arena := ar, sm_sources := sm_sources sm @ [source]\<rparr>)))"

text \<open>Reading a file: its bytes, or no file that can be opened, sized, read and closed.\<close>

definition source_manager_load ::
  "(cstring \<Rightarrow> byte list option) \<Rightarrow> (cstring \<Rightarrow> bool) \<Rightarrow> source_manager \<Rightarrow> cstring \<Rightarrow>
     source option \<times> source_manager" where
  "source_manager_load sized readable sm path =
     (case sized path of None \<Rightarrow> (None, sm)
      | Some bytes \<Rightarrow>
        if length bytes \<ge> SIZE_MAX then (None, sm)
        else case arena_alloc (sm_arena sm) (length bytes + 1) of
            (None, ar) \<Rightarrow> (None, sm\<lparr>sm_arena := ar\<rparr>)
          | (Some p, ar) \<Rightarrow>
              if \<not> readable path then (None, sm\<lparr>sm_arena := ar\<rparr>)
              else source_manager_add (sm\<lparr>sm_arena := ar\<rparr>) (Some path) bytes)"

definition source_by_id :: "source_manager \<Rightarrow> u32 \<Rightarrow> source option" where
  "source_by_id sm i =
     (if i = 0 \<or> unat i > length (sm_sources sm) then None else Some (sm_sources sm ! (unat i - 1)))"

subsection \<open>Diagnostics\<close>

datatype diagnostic_phase =
  DIAG_DRIVER | DIAG_LEX | DIAG_PREPROCESS | DIAG_PARSE | DIAG_SEMANTIC | DIAG_IR | DIAG_BACKEND
  | DIAG_LINK | DIAG_RUNTIME | DIAG_INTERNAL

fun diagnostic_phase_name :: "diagnostic_phase \<Rightarrow> cstring" where
  "diagnostic_phase_name DIAG_DRIVER = cstr ''driver''"
| "diagnostic_phase_name DIAG_LEX = cstr ''lex''"
| "diagnostic_phase_name DIAG_PREPROCESS = cstr ''preprocess''"
| "diagnostic_phase_name DIAG_PARSE = cstr ''parse''"
| "diagnostic_phase_name DIAG_SEMANTIC = cstr ''semantic''"
| "diagnostic_phase_name DIAG_IR = cstr ''ir''"
| "diagnostic_phase_name DIAG_BACKEND = cstr ''backend''"
| "diagnostic_phase_name DIAG_LINK = cstr ''link''"
| "diagnostic_phase_name DIAG_RUNTIME = cstr ''runtime''"
| "diagnostic_phase_name DIAG_INTERNAL = cstr ''internal''"

record diagnostic =
  dg_id :: u32
  dg_phase :: diagnostic_phase
  dg_source :: "source option"
  dg_line :: nat
  dg_column :: nat
  dg_message :: cstring

record diagnostic_sink =
  ds_items :: "diagnostic list"
  ds_limit :: nat

definition diagnostic_emit :: "diagnostic_sink \<Rightarrow> diagnostic \<Rightarrow> diagnostic_sink" where
  "diagnostic_emit sink d =
     (let sink = (if ds_limit sink = 0 then sink\<lparr>ds_limit := 100\<rparr> else sink)
      in if length (ds_items sink) = ds_limit sink then sink
         else sink\<lparr>ds_items := ds_items sink @ [d]\<rparr>)"

definition diagnostic_error_count :: "diagnostic_sink \<Rightarrow> nat" where
  "diagnostic_error_count sink = length (ds_items sink)"

definition diagnostic_sink_destroy :: "diagnostic_sink \<Rightarrow> diagnostic_sink" where
  "diagnostic_sink_destroy sink = sink\<lparr>ds_items := []\<rparr>"


abbreviation effective_limit :: "nat \<Rightarrow> nat" where
  "effective_limit limit \<equiv> (if limit = 0 then 100 else limit)"

lemma diagnostic_emit_props:
  assumes "length (ds_items sink) \<le> effective_limit (ds_limit sink)"
  shows "ds_limit (diagnostic_emit sink d) = effective_limit (ds_limit sink)"
    and "ds_items (diagnostic_emit sink d) = take (effective_limit (ds_limit sink)) (ds_items sink @ [d])"
  using assms by (cases "ds_limit sink = 0"; simp add: diagnostic_emit_def Let_def min_def)+

text \<open>
  The sink keeps the first diagnostics in the order they were emitted, up to its limit of 100
  unless the caller set one, and drops the rest.
\<close>

lemma diagnostics_kept:
  "ds_items (foldl diagnostic_emit \<lparr>ds_items = [], ds_limit = limit\<rparr> ds) = take (if limit = 0 then 100 else limit) ds"
proof -
  have "effective_limit (ds_limit (foldl diagnostic_emit \<lparr>ds_items = [], ds_limit = limit\<rparr> ds)) = effective_limit limit \<and>
      ds_items (foldl diagnostic_emit \<lparr>ds_items = [], ds_limit = limit\<rparr> ds) = take (effective_limit limit) ds"
  proof (induction ds rule: rev_induct)
    case Nil
    then show ?case by simp
  next
    case (snoc d ds)
    let ?s = "foldl diagnostic_emit \<lparr>ds_items = [], ds_limit = limit\<rparr> ds"
    from snoc have IH: "effective_limit (ds_limit ?s) = effective_limit limit"
      "ds_items ?s = take (effective_limit limit) ds" by blast+
    then have "length (ds_items ?s) \<le> effective_limit (ds_limit ?s)" by simp
    note E = diagnostic_emit_props [OF this, of d, unfolded IH]
    have f: "foldl diagnostic_emit \<lparr>ds_items = [], ds_limit = limit\<rparr> (ds @ [d]) = diagnostic_emit ?s d" by simp
    have "take n (take n ds @ [d]) = take n (ds @ [d])" for n by (simp add: min_def)
    then show ?case unfolding f E by simp
  qed
  then show ?thesis by simp
qed

lemma grow_sources_same:
  "grow_sources sm = (Some sm', ar) \<Longrightarrow> sm_sources sm' = sm_sources sm"
  by (auto simp: grow_sources_def Let_def split: if_splits prod.splits option.splits)

lemma source_manager_add_sources:
  "source_manager_add sm path bytes = (r, sm') \<Longrightarrow>
     (case r of None \<Rightarrow> sm_sources sm' = sm_sources sm
      | Some s \<Rightarrow> sm_sources sm' = sm_sources sm @ [s] \<and> Some (so_path s) = path \<and> so_bytes s = bytes \<and>
          so_id s = of_nat (length (sm_sources sm)) + 1)"
  by (auto simp: source_manager_add_def Let_def split: option.splits prod.splits if_splits
      dest!: grow_sources_same)

text \<open>
  A source is found again under the number it was given: after a successful addition the new
  number yields the new source with its path and bytes, and every earlier number yields what it
  yielded before; a failed addition changes no lookup.
\<close>

lemma source_lookup:
  assumes "source_manager_add sm path bytes = (r, sm')" and "length (sm_sources sm) < 2 ^ 32 - 1"
  shows "(case r of None \<Rightarrow> source_by_id sm' i = source_by_id sm i
    | Some s \<Rightarrow> so_bytes s = bytes \<and> Some (so_path s) = path \<and>
        source_by_id sm' i = (if i = so_id s then Some s else source_by_id sm i))"
proof (cases r)
  case None
  then show ?thesis using source_manager_add_sources [OF assms(1)] by (simp add: source_by_id_def)
next
  case (Some s)
  note A = source_manager_add_sources [OF assms(1), unfolded Some option.case]
  let ?n = "length (sm_sources sm)"
  have "so_id s = of_nat (Suc ?n)" using A by (simp add: add.commute)
  then have id: "unat (so_id s) = Suc ?n" using assms(2) by (simp add: unat_of_nat del: of_nat_Suc)
  have "source_by_id sm' i = (if i = so_id s then Some s else source_by_id sm i)"
  proof (cases "i = so_id s")
    case True
    moreover have "so_id s \<noteq> 0" using id by (metis nat.distinct(1) unsigned_0)
    ultimately show ?thesis using id A by (simp add: source_by_id_def)
  next
    case False
    then have "unat i \<noteq> Suc ?n" using id by (metis unsigned_word_eqI)
    moreover have "i \<noteq> 0 \<Longrightarrow> unat i \<noteq> 0" by (simp add: unat_0_iff)
    ultimately show ?thesis using False A by (auto simp: source_by_id_def nth_append)
  qed
  with A Some show ?thesis by simp
qed

lemma source_lookup_witness:
  "\<exists>s sm'. source_manager_add \<lparr>sm_arena = arena_create 1000, sm_sources = [], sm_capacity = 0\<rparr> (Some [97]) [1, 2] = (Some s, sm') \<and>
     source_by_id sm' 1 = Some s \<and> so_bytes s = [1, 2]"
proof -
  let ?sm = "\<lparr>sm_arena = arena_create 1000, sm_sources = [], sm_capacity = 0\<rparr>"
  obtain s sm' where r: "source_manager_add ?sm (Some [97]) [1, 2] = (Some s, sm')" "so_id s = 1"
    by (simp add: source_manager_add_def grow_sources_def arena_alloc_array_def size_mul_def arena_alloc_def
        arena_create_def align_size_def size_add_def arena_take_def SIZE_MAX_def Let_def)
  from source_lookup [OF r(1), of 1] r show ?thesis by simp
qed

end
