(* ===== verification/Lexer.thy ===== *)
theory Lexer
  imports Sources
begin

text \<open>
  The lexer (\<open>src/src/frontend/lexer.c\<close>): splices, white space and comments, the five kinds of
  tokens, the token list and the classification of keywords. Positions, lines and columns are
  natural numbers, as in the source; a token holds them at 32 bits. The scratch buffer is the list of
  the bytes in use and a capacity. A token that \<open>finish_token\<close> refuses to fill is \<open>None\<close>: the C code
  leaves the caller's variable as it was.
\<close>

subsection \<open>Data\<close>

datatype token_kind =
  TOKEN_EOF | TOKEN_NEWLINE | TOKEN_IDENTIFIER | TOKEN_NUMBER | TOKEN_CHARACTER | TOKEN_STRING
  | TOKEN_PUNCTUATOR | TOKEN_KEYWORD

record token =
  tk_kind :: token_kind
  tk_flags :: u32
  tk_source :: source
  tk_start :: u32
  tk_end :: u32
  tk_line :: u32
  tk_column :: u32
  tk_text :: cstring
  tk_hideset :: "cstring list option"

record token_list =
  tl_items :: "token list"
  tl_capacity :: nat

record lexer =
  lx_arena :: arena
  lx_source :: source
  lx_position :: nat
  lx_line :: nat
  lx_column :: nat
  lx_diagnostics :: diagnostic_sink
  lx_keep_newlines :: bool
  lx_scratch :: cstring
  lx_scratch_capacity :: nat

abbreviation lx_bytes :: "lexer \<Rightarrow> byte list" where
  "lx_bytes lx \<equiv> so_bytes (lx_source lx)"

abbreviation lx_length :: "lexer \<Rightarrow> nat" where
  "lx_length lx \<equiv> length (lx_bytes lx)"

abbreviation lx_byte :: "lexer \<Rightarrow> byte" where
  "lx_byte lx \<equiv> lx_bytes lx ! lx_position lx"

definition punctuators :: "cstring list" where
  "punctuators = map cstr
    [''...'', ''<<='', ''>>='', ''->'', ''++'', ''--'', ''<<'', ''>>'', ''<='', ''>='',
     ''=='', ''!='', ''&&'', ''||'', ''+='', ''-='', ''*='', ''/='', ''%='', ''&='', ''^='', ''|='',
     ''##'', ''+'', ''-'', ''*'', ''/'', ''%'', ''='',
     ''<'', ''>'', ''!'', ''~'', ''&'', ''^'', ''|'', ''?'', '':'', '';'', '','', ''.'',
     ''('', '')'', ''['', '']'', ''{'', ''}'', ''#'']"

definition is_ident_start :: "byte \<Rightarrow> bool" where
  "is_ident_start b \<longleftrightarrow> b = 95 \<or> (b \<ge> 97 \<and> b \<le> 122) \<or> (b \<ge> 65 \<and> b \<le> 90)"

definition is_ident_continue :: "byte \<Rightarrow> bool" where
  "is_ident_continue b \<longleftrightarrow> is_ident_start b \<or> (b \<ge> 48 \<and> b \<le> 57)"

definition lex_is_digit :: "byte \<Rightarrow> bool" where
  "lex_is_digit b \<longleftrightarrow> b \<ge> 48 \<and> b \<le> 57"

definition lexer_emit :: "lexer \<Rightarrow> u32 \<Rightarrow> nat \<Rightarrow> nat \<Rightarrow> string \<Rightarrow> lexer" where
  "lexer_emit lx number line column message =
     lx\<lparr>lx_diagnostics := diagnostic_emit (lx_diagnostics lx)
       \<lparr>dg_id = number, dg_phase = DIAG_LEX, dg_source = Some (lx_source lx), dg_line = line, dg_column = column,
        dg_message = cstr message\<rparr>\<rparr>"

subsection \<open>Splices\<close>

text \<open>Both read the byte at the position first; every call has it inside the source.\<close>

definition splice_at :: "lexer \<Rightarrow> bool \<times> lexer" where
  "splice_at lx =
     (if lx_byte lx \<noteq> 92 then (False, lx)
      else let after = lx_position lx + 1;
               after = (if after < lx_length lx \<and> lx_bytes lx ! after = 13 then after + 1 else after)
        in if after \<ge> lx_length lx \<or> lx_bytes lx ! after \<noteq> 10 then (False, lx)
           else (True, lx\<lparr>lx_position := after + 1, lx_line := lx_line lx + 1, lx_column := 1\<rparr>))"

definition advance_byte :: "lexer \<Rightarrow> byte \<Rightarrow> lexer" where
  "advance_byte lx b =
     (let lx = lx\<lparr>lx_position := lx_position lx + 1\<rparr>
      in if b = 10 then lx\<lparr>lx_line := lx_line lx + 1, lx_column := 1\<rparr>
         else lx\<lparr>lx_column := lx_column lx + 1\<rparr>)"

lemma splice_at_cases:
  assumes "splice_at lx = (r, lx')"
  shows "lx_source lx' = lx_source lx" "r \<Longrightarrow> lx_position lx < lx_position lx'"
    "r \<Longrightarrow> lx_position lx' \<le> lx_length lx"
    "\<not> r \<Longrightarrow> lx' = lx"
  using assms by (auto simp: splice_at_def Let_def split: if_splits)

function skip_splices :: "lexer \<Rightarrow> lexer" where
  "skip_splices lx =
     (if lx_position lx < lx_length lx then
        (case splice_at lx of (spliced, lx') \<Rightarrow> if spliced then skip_splices lx' else lx')
      else lx)"
  by pat_completeness auto
termination
proof (relation "measure (\<lambda>lx. lx_length lx - lx_position lx)", goal_cases)
  case (2 lx r lx')
  then show ?case using splice_at_cases [of lx r lx'] by simp
qed simp

declare skip_splices.simps [simp del]

function logical_position :: "byte list \<Rightarrow> nat \<Rightarrow> nat" where
  "logical_position bytes position =
     (if position \<ge> length bytes \<or> bytes ! position \<noteq> 92 then position
      else let after = position + 1;
               after = (if after < length bytes \<and> bytes ! after = 13 then after + 1 else after)
        in if after \<ge> length bytes \<or> bytes ! after \<noteq> 10 then position
           else logical_position bytes (after + 1))"
  by pat_completeness auto
termination
  by (relation "measure (\<lambda>(bytes, position). length bytes - position)") auto

declare logical_position.simps [simp del]

text \<open>
  A step of the lexer stays in its source, never moves back, and counts at most one line or column
  for a byte.
\<close>

definition moves :: "lexer \<Rightarrow> lexer \<Rightarrow> bool" where
  "moves lx lx' \<longleftrightarrow> lx_source lx' = lx_source lx \<and> lx_keep_newlines lx' = lx_keep_newlines lx \<and> lx_arena lx' = lx_arena lx \<and>
     lx_line lx' + lx_position lx \<le> lx_line lx + lx_position lx' \<and>
     lx_column lx' + lx_position lx \<le> lx_column lx + lx_position lx' \<and>
     lx_position lx \<le> lx_position lx' \<and> (lx_position lx \<le> lx_length lx \<longrightarrow> lx_position lx' \<le> lx_length lx)"

lemma moves_refl [simp, intro]: "moves lx lx"
  by (simp add: moves_def)

lemma moves_trans [trans]: "moves lx lx' \<Longrightarrow> moves lx' lx'' \<Longrightarrow> moves lx lx''"
  by (auto simp: moves_def)

lemma movesD:
  assumes "moves lx lx'"
  shows "lx_source lx' = lx_source lx" "lx_position lx \<le> lx_position lx'"
    "lx_keep_newlines lx' = lx_keep_newlines lx"
    "lx_position lx \<le> lx_length lx \<Longrightarrow> lx_position lx' \<le> lx_length lx"
  using assms by (auto simp: moves_def)

lemma moves_measure:
  "moves lx1 lx2 \<Longrightarrow> lx_source lx1 = lx_source lx \<Longrightarrow> lx_position lx < lx_position lx1 \<Longrightarrow>
     lx_position lx < lx_length lx \<Longrightarrow> lx_length lx2 - lx_position lx2 < lx_length lx - lx_position lx"
  unfolding moves_def by (metis diff_less_mono2 order_less_le_trans)

lemma moves_update [simp]:
  "moves lx (lx'\<lparr>lx_scratch := t\<rparr>) = moves lx lx'" "moves lx (lx'\<lparr>lx_scratch_capacity := k\<rparr>) = moves lx lx'"
  "moves lx (lx'\<lparr>lx_diagnostics := d\<rparr>) = moves lx lx'"
  "moves (lx\<lparr>lx_diagnostics := d\<rparr>) lx' = moves lx lx'" "moves (lx\<lparr>lx_scratch := t\<rparr>) lx' = moves lx lx'"
  by (simp_all add: moves_def)

lemma splice_at_moves: "splice_at lx = (r, lx') \<Longrightarrow> moves lx lx'"
  by (auto simp: splice_at_def Let_def moves_def split: if_splits)

lemma skip_splices_moves: "moves lx (skip_splices lx)"
proof (induction lx rule: skip_splices.induct)
  case (1 lx)
  obtain r lx' where s: "splice_at lx = (r, lx')" by (cases "splice_at lx")
  show ?case
    using 1 [OF _ s [symmetric]] splice_at_moves [OF s] unfolding skip_splices.simps [of lx] s
    by (auto intro: moves_trans)
qed

subsection \<open>White space and comments\<close>

definition skip_line_end :: "lexer \<Rightarrow> lexer" where
  "skip_line_end lx =
     (if lx_position lx \<ge> lx_length lx then lx
      else if lx_byte lx = 13 then
        let lx = lx\<lparr>lx_position := lx_position lx + 1\<rparr>;
            lx = (if lx_position lx < lx_length lx \<and> lx_byte lx = 10 then lx\<lparr>lx_position := lx_position lx + 1\<rparr> else lx)
        in lx\<lparr>lx_line := lx_line lx + 1, lx_column := 1\<rparr>
      else if lx_byte lx = 10 then advance_byte lx 10
      else lx)"

text \<open>The rest of a line comment, and the rest of a block comment with whether it was closed.\<close>

function line_comment :: "lexer \<Rightarrow> lexer" where
  "line_comment lx =
     (if lx_position lx < lx_length lx then
        let lx' = skip_splices lx in
        if lx_position lx' \<ge> lx_length lx' \<or> lx_byte lx' = 10 \<or> lx_byte lx' = 13 then lx'
        else line_comment (lx'\<lparr>lx_position := lx_position lx' + 1, lx_column := lx_column lx' + 1\<rparr>)
      else lx)"
  by pat_completeness auto
termination
proof (relation "measure (\<lambda>lx. lx_length lx - lx_position lx)", goal_cases)
  case (2 lx lx')
  then show ?case using skip_splices_moves [of lx] by (auto simp: moves_def)
qed simp

declare line_comment.simps [simp del]

function block_comment :: "lexer \<Rightarrow> bool \<times> lexer" where
  "block_comment lx =
     (if lx_position lx < lx_length lx then
        if lx_position lx + 1 < lx_length lx \<and> lx_byte lx = 42 \<and> lx_bytes lx ! (lx_position lx + 1) = 47 then
          (True, lx\<lparr>lx_position := lx_position lx + 2, lx_column := lx_column lx + 2\<rparr>)
        else block_comment (advance_byte lx (lx_byte lx))
      else (False, lx))"
  by pat_completeness auto
termination
  by (relation "measure (\<lambda>lx. lx_length lx - lx_position lx)") (auto simp: advance_byte_def Let_def)

declare block_comment.simps [simp del]

lemma advance_byte_moves: "lx_position lx < lx_length lx \<Longrightarrow> moves lx (advance_byte lx b)"
  by (auto simp: advance_byte_def moves_def Let_def)

lemma line_comment_moves: "moves lx (line_comment lx)"
proof (induction lx rule: line_comment.induct)
  case (1 lx)
  note sm = skip_splices_moves [of lx]
  let ?lx = "skip_splices lx"
  have "moves lx (line_comment (?lx\<lparr>lx_position := lx_position ?lx + 1, lx_column := lx_column ?lx + 1\<rparr>))"
    if "lx_position lx < lx_length lx" "\<not> (lx_position ?lx \<ge> lx_length ?lx \<or> lx_byte ?lx = 10 \<or> lx_byte ?lx = 13)"
  proof -
    have "moves lx (?lx\<lparr>lx_position := lx_position ?lx + 1, lx_column := lx_column ?lx + 1\<rparr>)"
      using sm that by (auto simp: moves_def)
    then show ?thesis using 1 [OF that(1) refl that(2)] by (rule moves_trans)
  qed
  then show ?case using sm unfolding line_comment.simps [of lx] by (simp add: Let_def)
qed

lemma block_comment_moves: "moves lx (snd (block_comment lx))"
proof (induction lx rule: block_comment.induct)
  case (1 lx)
  have "moves lx (snd (block_comment (advance_byte lx (lx_byte lx))))"
    if "lx_position lx < lx_length lx"
      "\<not> (lx_position lx + 1 < lx_length lx \<and> lx_byte lx = 42 \<and> lx_bytes lx ! (lx_position lx + 1) = 47)"
    using advance_byte_moves [OF that(1)] 1 [OF that] by (rule moves_trans)
  moreover have "moves lx (lx\<lparr>lx_position := lx_position lx + 2, lx_column := lx_column lx + 2\<rparr>)"
    if "lx_position lx + 1 < lx_length lx" using that by (auto simp: moves_def)
  ultimately show ?case unfolding block_comment.simps [of lx] by auto
qed

function skip_blank :: "lexer \<Rightarrow> bool \<Rightarrow> bool \<Rightarrow> lexer \<times> bool \<times> bool" where
  "skip_blank lx has_space at_bol =
     (if lx_position lx < lx_length lx then
        case splice_at lx of (spliced, lx') \<Rightarrow>
          if spliced then skip_blank lx' has_space at_bol
          else let b = lx_byte lx in
            if b = 32 \<or> b = 9 \<or> b = 12 \<or> b = 11 then skip_blank (advance_byte lx b) True at_bol
            else if b = 13 \<or> b = 10 then (lx, has_space, True)
            else if b = 47 \<and> lx_position lx + 1 < lx_length lx then
              let following = lx_bytes lx ! (lx_position lx + 1);
                  lx' = lx\<lparr>lx_position := lx_position lx + 2, lx_column := lx_column lx + 2\<rparr>
              in if following = 47 then skip_blank (line_comment lx') True at_bol
                 else if following = 42 then
                   (case block_comment lx' of (closed, lx'') \<Rightarrow>
                     skip_blank
                       (if closed then lx''
                        else lexer_emit lx'' 1001 (lx_line lx) (lx_column lx) ''unterminated block comment'')
                       (closed \<or> has_space) at_bol)
                 else (lx, has_space, at_bol)
            else (lx, has_space, at_bol)
      else (lx, has_space, at_bol))"
  by pat_completeness auto
termination
proof (relation "measure (\<lambda>(lx, _). lx_length lx - lx_position lx)", goal_cases)
  case (2 lx has_space at_bol r lx')
  then show ?case using splice_at_cases [of lx r lx'] by simp
next
  case 3
  then show ?case by (simp add: advance_byte_def Let_def)
next
  case (4 lx has_space at_bol r lx' b following lx'')
  then show ?case using moves_measure [OF line_comment_moves [of lx''], of lx] by simp
next
  case (5 lx has_space at_bol r lx' b following lx'' closed lx3)
  then have "snd (block_comment lx'') = lx3" by (metis snd_conv)
  then have m: "lx_length lx3 - lx_position lx3 < lx_length lx - lx_position lx"
    using 5 moves_measure [OF block_comment_moves [of lx''], of lx] by simp
  then show ?case by (simp add: lexer_emit_def)
qed simp

declare skip_blank.simps [simp del]

definition lex_skip_space :: "lexer \<Rightarrow> lexer \<times> bool \<times> bool" where
  "lex_skip_space lx = skip_blank (skip_splices lx) False (lx_column lx = 1)"

lemma skip_blank_moves: "moves lx (fst (skip_blank lx has_space at_bol))"
proof (induction lx has_space at_bol rule: skip_blank.induct)
  case (1 lx has_space at_bol)
  obtain r lx' where s: "splice_at lx = (r, lx')" by (cases "splice_at lx")
  let ?two = "lx\<lparr>lx_position := lx_position lx + 2, lx_column := lx_column lx + 2\<rparr>"
  obtain closed lx3 where c: "block_comment ?two = (closed, lx3)" by (cases "block_comment ?two")
  have two: "lx_position lx + 1 < lx_length lx \<Longrightarrow> moves lx ?two" by (simp add: moves_def)
  have b: "moves ?two lx3" using block_comment_moves [of ?two] c by simp
  show ?case
  proof (cases "lx_position lx < lx_length lx")
    case True
    note IH = 1 [OF True s [symmetric]]
    let ?b = "lx_byte lx" and ?next = "lx_bytes lx ! (lx_position lx + 1)"
    have A: "r \<Longrightarrow> moves lx (fst (skip_blank lx' has_space at_bol))"
      using IH(1) splice_at_moves [OF s] by (auto intro: moves_trans)
    have B: "\<not> r \<Longrightarrow> ?b = 32 \<or> ?b = 9 \<or> ?b = 12 \<or> ?b = 11 \<Longrightarrow> moves lx (fst (skip_blank (advance_byte lx ?b) True at_bol))"
      using IH(2) [OF _ refl] advance_byte_moves [OF True] by (auto intro: moves_trans)
    have C: "moves lx (fst (skip_blank (line_comment ?two) True at_bol))"
      if "\<not> r" "\<not> (?b = 32 \<or> ?b = 9 \<or> ?b = 12 \<or> ?b = 11)" "\<not> (?b = 13 \<or> ?b = 10)"
        "?b = 47 \<and> lx_position lx + 1 < lx_length lx" "?next = 47"
      using moves_trans [OF two [OF that(4) [THEN conjunct2]] moves_trans [OF line_comment_moves
        IH(3) [OF that(1) refl that(2-4) refl refl that(5)]]] .
    have D: "moves lx (fst (skip_blank (if closed then lx3 else lexer_emit lx3 1001 (lx_line lx) (lx_column lx) ''unterminated block comment'')
        (closed \<or> has_space) at_bol))"
      if "\<not> r" "\<not> (?b = 32 \<or> ?b = 9 \<or> ?b = 12 \<or> ?b = 11)" "\<not> (?b = 13 \<or> ?b = 10)"
        "?b = 47 \<and> lx_position lx + 1 < lx_length lx" "?next \<noteq> 47" "?next = 42"
    proof -
      have "moves lx (if closed then lx3 else lexer_emit lx3 1001 (lx_line lx) (lx_column lx) ''unterminated block comment'')"
        using moves_trans [OF two [OF that(4) [THEN conjunct2]] b] by (simp add: lexer_emit_def)
      then show ?thesis using IH(4) [OF that(1) refl that(2-4) refl refl that(5,6) c [symmetric]] by (rule moves_trans)
    qed
    show ?thesis unfolding skip_blank.simps [of lx] s using True A B C D c
      by (simp add: Let_def)
  qed (simp add: skip_blank.simps [of lx])
qed

lemma lex_skip_space_moves: "lex_skip_space lx = (lx', has_space, at_bol) \<Longrightarrow> moves lx lx'"
  using skip_blank_moves [of "skip_splices lx" False "lx_column lx = 1"] skip_splices_moves [of lx]
  by (auto simp: lex_skip_space_def intro: moves_trans)

subsection \<open>The text of a token\<close>

definition scratch_begin :: "lexer \<Rightarrow> lexer" where
  "scratch_begin lx = lx\<lparr>lx_scratch := []\<rparr>"

definition append_text :: "lexer \<Rightarrow> byte \<Rightarrow> lexer" where
  "append_text lx b =
     (let lx = (if length (lx_scratch lx) + 1 \<ge> lx_scratch_capacity lx
                then lx\<lparr>lx_scratch_capacity := (if lx_scratch_capacity lx = 0 then 64 else lx_scratch_capacity lx * 2)\<rparr>
                else lx)
      in lx\<lparr>lx_scratch := lx_scratch lx @ [b]\<rparr>)"

definition append_spliced :: "lexer \<Rightarrow> lexer" where
  "append_spliced lx =
     (let lx = skip_splices lx in
      if lx_position lx < lx_length lx then advance_byte (append_text lx (lx_byte lx)) (lx_byte lx) else lx)"

abbreviation (input) TOKEN_FLAG_BOL :: u32 where "TOKEN_FLAG_BOL \<equiv> 1"
abbreviation (input) TOKEN_FLAG_SPACE :: u32 where "TOKEN_FLAG_SPACE \<equiv> 2"

definition finish_token ::
  "lexer \<Rightarrow> nat \<Rightarrow> nat \<Rightarrow> nat \<Rightarrow> bool \<Rightarrow> bool \<Rightarrow> token_kind \<Rightarrow> token option \<times> lexer" where
  "finish_token lx start line column at_bol has_space kind =
     (if start > UINT32_MAX \<or> lx_position lx > UINT32_MAX \<or> line > UINT32_MAX \<or> column > UINT32_MAX then
        (None, lexer_emit lx 1004 line column ''source is too large for 32-bit token positions'')
      else case arena_alloc (lx_arena lx) (length (lx_scratch lx) + 1) of
          (None, ar) \<Rightarrow> (None, lexer_emit (lx\<lparr>lx_arena := ar\<rparr>) 1004 line column ''cannot store token text'')
        | (Some text_at, ar) \<Rightarrow>
            (Some \<lparr>tk_kind = kind,
                   tk_flags = (if at_bol then TOKEN_FLAG_BOL else 0) OR (if has_space then TOKEN_FLAG_SPACE else 0),
                   tk_source = lx_source lx, tk_start = of_nat start, tk_end = of_nat (lx_position lx),
                   tk_line = of_nat line, tk_column = of_nat column,
                   tk_text = lx_scratch lx, tk_hideset = None\<rparr>,
             lx\<lparr>lx_arena := ar\<rparr>))"

lemma append_text_simps [simp]:
  "lx_source (append_text lx b) = lx_source lx" "lx_position (append_text lx b) = lx_position lx"
  "lx_keep_newlines (append_text lx b) = lx_keep_newlines lx"
  "lx_scratch (append_text lx b) = lx_scratch lx @ [b]"
  by (simp_all add: append_text_def Let_def)

lemma moves_append_text [simp]: "moves lx (append_text lx' b) = moves lx lx'"
  by (simp add: append_text_def Let_def)

lemma advance_byte_simps [simp]:
  "lx_source (advance_byte lx b) = lx_source lx" "lx_position (advance_byte lx b) = Suc (lx_position lx)"
  "lx_keep_newlines (advance_byte lx b) = lx_keep_newlines lx" "lx_scratch (advance_byte lx b) = lx_scratch lx"
  by (simp_all add: advance_byte_def Let_def)

lemma append_spliced_moves: "moves lx (append_spliced lx)"
proof -
  define on where "on = skip_splices lx"
  have "moves lx (append_text on (lx_byte on))" using skip_splices_moves [of lx] by (simp add: on_def)
  then have "moves lx (advance_byte (append_text on (lx_byte on)) (lx_byte on))" if "lx_position on < lx_length on"
    by (rule moves_trans [OF _ advance_byte_moves]) (use that in simp)
  then show ?thesis using skip_splices_moves [of lx] by (simp add: append_spliced_def on_def Let_def)
qed

lemma skip_splices_stable:
  "lx_position (skip_splices lx) < lx_length (skip_splices lx) \<Longrightarrow> \<not> fst (splice_at (skip_splices lx))"
proof (induction lx rule: skip_splices.induct)
  case (1 lx)
  obtain r lx' where s: "splice_at lx = (r, lx')" by (cases "splice_at lx")
  show ?case
    using 1(1) [OF _ s [symmetric]] 1(2) splice_at_cases(4) [OF s]
    unfolding skip_splices.simps [of lx] s by (cases r) (auto simp: s split: if_splits)
qed

lemma skip_splices_idem [simp]: "skip_splices (skip_splices lx) = skip_splices lx"
proof (cases "splice_at (skip_splices lx)")
  case (Pair r lx')
  then show ?thesis using skip_splices_stable [of lx] splice_at_cases(4) [OF Pair]
    unfolding skip_splices.simps [of "skip_splices lx"] by (cases r) auto
qed

lemma append_spliced_progress:
  assumes "lx_position (skip_splices lx) < lx_length (skip_splices lx)"
  shows "lx_length lx - lx_position (append_spliced (skip_splices lx)) < lx_length lx - lx_position lx"
    and "lx_position lx < lx_position (append_spliced (skip_splices lx))"
    and "lx_source (append_spliced (skip_splices lx)) = lx_source lx"
  using assms movesD [OF skip_splices_moves [of lx]] by (simp_all add: append_spliced_def Let_def)

text \<open>The loops of an identifier, a number and a quoted literal.\<close>

function identifier_loop :: "lexer \<Rightarrow> lexer" where
  "identifier_loop lx =
     (if lx_position lx < lx_length lx then
        let lx' = skip_splices lx in
        if lx_position lx' \<ge> lx_length lx' \<or> \<not> is_ident_continue (lx_byte lx') then lx'
        else identifier_loop (append_spliced lx')
      else lx)"
  by pat_completeness auto
termination
proof (relation "measure (\<lambda>lx. lx_length lx - lx_position lx)", goal_cases)
  case (2 lx lx')
  then show ?case using append_spliced_progress [of lx] by simp
qed simp

function number_loop :: "lexer \<Rightarrow> lexer" where
  "number_loop lx =
     (if lx_position lx < lx_length lx then
        let lx' = skip_splices lx in
        if lx_position lx' \<ge> lx_length lx' then lx'
        else let b = lx_byte lx' in
          if \<not> is_ident_continue b \<and> b \<noteq> 46 then
            (if (b = 43 \<or> b = 45) \<and> lx_scratch lx' \<noteq> [] then
               let previous = last (lx_scratch lx') in
               if previous = 101 \<or> previous = 69 \<or> previous = 112 \<or> previous = 80
               then number_loop (append_spliced lx') else lx'
             else lx')
          else number_loop (append_spliced lx')
      else lx)"
  by pat_completeness auto
termination
proof (relation "measure (\<lambda>lx. lx_length lx - lx_position lx)", goal_cases)
  case (2 lx lx')
  then show ?case using append_spliced_progress [of lx] by simp
next
  case (3 lx lx')
  then show ?case using append_spliced_progress [of lx] by simp
qed simp

function quoted_loop :: "byte \<Rightarrow> lexer \<Rightarrow> bool \<times> lexer" where
  "quoted_loop quote lx =
     (if lx_position lx < lx_length lx then
        let lx' = skip_splices lx in
        if lx_position lx' \<ge> lx_length lx' then (False, lx')
        else let b = lx_byte lx' in
          if b = 13 \<or> b = 10 then (False, lx')
          else if b = 92 then
            let lx'' = skip_splices (advance_byte (append_text lx' b) b)
            in quoted_loop quote
                 (if lx_position lx'' < lx_length lx'' \<and> lx_byte lx'' \<noteq> 13 \<and> lx_byte lx'' \<noteq> 10
                  then append_spliced lx'' else lx'')
          else let lx'' = advance_byte (append_text lx' b) b in
            if b = quote then (True, lx'') else quoted_loop quote lx''
      else (False, lx))"
  by pat_completeness auto
termination
proof (relation "measure (\<lambda>(quote, lx). lx_length lx - lx_position lx)", goal_cases)
  case (2 quote lx lx' b lx'')
  let ?after = "advance_byte (append_text lx' b) b"
  have m: "moves ?after (if lx_position lx'' < lx_length lx'' \<and> lx_byte lx'' \<noteq> 13 \<and> lx_byte lx'' \<noteq> 10
      then append_spliced lx'' else lx'')"
    using skip_splices_moves [of ?after] append_spliced_moves [of lx''] 2(7) by (auto intro: moves_trans)
  have "moves lx lx'" using skip_splices_moves [of lx] 2(2) by simp
  then have "lx_source ?after = lx_source lx" "lx_position lx < lx_position ?after"
    using movesD by fastforce+
  then show ?case using moves_measure [OF m, of lx] 2(1) by simp
next
  case (3 quote lx lx' b lx'')
  then show ?case using movesD [OF skip_splices_moves [of lx]] by simp
qed simp

declare identifier_loop.simps [simp del] number_loop.simps [simp del] quoted_loop.simps [simp del]

fun probe_matches :: "byte list \<Rightarrow> nat \<Rightarrow> cstring \<Rightarrow> bool" where
  "probe_matches bytes probe [] = True"
| "probe_matches bytes probe (c # w) =
     (let probe = logical_position bytes probe in
      if probe \<ge> length bytes \<or> bytes ! probe \<noteq> c then False else probe_matches bytes (probe + 1) w)"

fun take_punctuator :: "lexer \<Rightarrow> cstring \<Rightarrow> lexer" where
  "take_punctuator lx [] = lx"
| "take_punctuator lx (c # w) =
     (let lx = skip_splices (append_text lx c) in
      if lx_position lx \<ge> lx_length lx then lx else take_punctuator (advance_byte lx (lx_byte lx)) w)"

subsection \<open>One token\<close>

definition lex_quoted ::
  "lexer \<Rightarrow> nat \<Rightarrow> nat \<Rightarrow> nat \<Rightarrow> bool \<Rightarrow> bool \<Rightarrow> byte \<Rightarrow> token_kind \<Rightarrow> bool \<times> token option \<times> lexer" where
  "lex_quoted lx start line column at_bol has_space quote kind =
     (case quoted_loop quote (advance_byte (append_text (scratch_begin lx) quote) quote) of (closed, lx) \<Rightarrow>
      let lx = (if closed then lx
                else lexer_emit lx 1002 line column
                  (if kind = TOKEN_STRING then ''unterminated string literal'' else ''unterminated character literal''))
      in (closed, finish_token lx start line column at_bol has_space kind))"

definition starts_number :: "lexer \<Rightarrow> bool" where
  "starts_number lx \<longleftrightarrow> lex_is_digit (lx_byte lx) \<or>
     (lx_byte lx = 46 \<and> lx_position lx + 1 < lx_length lx \<and> lex_is_digit (lx_bytes lx ! (lx_position lx + 1)))"

definition find_punctuator :: "lexer \<Rightarrow> cstring option" where
  "find_punctuator lx = List.find (probe_matches (lx_bytes lx) (lx_position lx)) punctuators"

text \<open>The token that starts at the position, which is inside the source and not on a line end.\<close>

definition lex_token :: "lexer \<Rightarrow> bool \<Rightarrow> bool \<Rightarrow> bool \<times> token option \<times> lexer" where
  "lex_token lx has_space at_bol =
     (let start = lx_position lx; line = lx_line lx; column = lx_column lx; b = lx_byte lx in
      if is_ident_start b then
        (True, finish_token (identifier_loop (scratch_begin lx)) start line column at_bol has_space TOKEN_IDENTIFIER)
      else if starts_number lx then
        (True, finish_token (number_loop (scratch_begin lx)) start line column at_bol has_space TOKEN_NUMBER)
      else if b = 39 \<or> b = 34 then
        lex_quoted lx start line column at_bol has_space b (if b = 34 then TOKEN_STRING else TOKEN_CHARACTER)
      else case find_punctuator lx of
          Some w \<Rightarrow>
            (True, finish_token (take_punctuator (scratch_begin lx) w) start line column at_bol has_space TOKEN_PUNCTUATOR)
        | None \<Rightarrow>
            (False, finish_token (append_spliced (scratch_begin (lexer_emit lx 1003 line column ''invalid input byte'')))
               start line column at_bol has_space TOKEN_PUNCTUATOR))"

function lexer_next :: "lexer \<Rightarrow> bool \<times> token option \<times> lexer" where
  "lexer_next lx =
     (case lex_skip_space lx of (lx', has_space, at_bol) \<Rightarrow>
      let lx' = skip_splices lx'; start = lx_position lx'; line = lx_line lx'; column = lx_column lx' in
      if lx_position lx' \<ge> lx_length lx' then
        (True, finish_token (scratch_begin lx') start line column at_bol has_space TOKEN_EOF)
      else if lx_byte lx' = 13 \<or> lx_byte lx' = 10 then
        let lx' = skip_line_end lx' in
        if \<not> lx_keep_newlines lx' then lexer_next lx'
        else (True, finish_token (append_text (scratch_begin lx') 10) start line column True has_space TOKEN_NEWLINE)
      else lex_token lx' has_space at_bol)"
  by pat_completeness auto
termination
proof (relation "measure (\<lambda>lx. lx_length lx - lx_position lx)", goal_cases)
  case (2 lx lx0 p has_space at_bol lx1 start line column lx2)
  have m: "moves lx lx1" using lex_skip_space_moves skip_splices_moves [of lx0] 2 by (metis moves_trans)
  have "lx_source lx2 = lx_source lx1" "lx_position lx1 < lx_position lx2" "lx_position lx1 < lx_length lx1"
    using 2 by (auto simp: skip_line_end_def Let_def)
  then show ?case using movesD [OF m] by simp
qed simp

declare lexer_next.simps [simp del]

definition lexer_create :: "arena \<Rightarrow> source \<Rightarrow> diagnostic_sink \<Rightarrow> lexer" where
  "lexer_create ar source sink =
     \<lparr>lx_arena = ar, lx_source = source, lx_position = 0, lx_line = 1, lx_column = 1, lx_diagnostics = sink,
      lx_keep_newlines = True, lx_scratch = [], lx_scratch_capacity = 0\<rparr>"

definition lexer_destroy :: "lexer \<Rightarrow> lexer" where
  "lexer_destroy lx = lx\<lparr>lx_scratch := [], lx_scratch_capacity := 0\<rparr>"

fun token_kind_name :: "token_kind \<Rightarrow> cstring" where
  "token_kind_name TOKEN_EOF = cstr ''eof''"
| "token_kind_name TOKEN_NEWLINE = cstr ''newline''"
| "token_kind_name TOKEN_IDENTIFIER = cstr ''identifier''"
| "token_kind_name TOKEN_NUMBER = cstr ''number''"
| "token_kind_name TOKEN_CHARACTER = cstr ''character''"
| "token_kind_name TOKEN_STRING = cstr ''string''"
| "token_kind_name TOKEN_PUNCTUATOR = cstr ''punctuator''"
| "token_kind_name TOKEN_KEYWORD = cstr ''keyword''"

subsection \<open>Token lists\<close>

definition keyword_table :: "cstring list" where
  "keyword_table = map cstr
    [''auto'', ''break'', ''case'', ''char'', ''const'', ''continue'', ''default'', ''do'',
     ''double'', ''else'', ''enum'', ''extern'', ''float'', ''for'', ''goto'', ''if'',
     ''inline'', ''int'', ''long'', ''register'', ''restrict'', ''return'', ''short'',
     ''signed'', ''sizeof'', ''static'', ''struct'', ''switch'', ''typedef'', ''union'',
     ''unsigned'', ''void'', ''volatile'', ''while'', ''true'', ''false'', ''_Alignas'', ''_Alignof'',
     ''_Atomic'', ''_Bool'', ''_Complex'', ''_Generic'', ''_Imaginary'', ''_Noreturn'',
     ''_Static_assert'', ''_Thread_local'', ''static_assert'', ''__uint128_t'']"

definition classify_keyword :: "token \<Rightarrow> token" where
  "classify_keyword t =
     (if tk_kind t \<noteq> TOKEN_IDENTIFIER then t
      else if tk_text t \<in> set keyword_table then t\<lparr>tk_kind := TOKEN_KEYWORD\<rparr> else t)"

definition token_list_classify_keywords :: "token_list \<Rightarrow> token_list" where
  "token_list_classify_keywords list = list\<lparr>tl_items := map classify_keyword (tl_items list)\<rparr>"

definition token_list_init :: token_list where
  "token_list_init = \<lparr>tl_items = [], tl_capacity = 0\<rparr>"

definition token_list_free :: "token_list \<Rightarrow> token_list" where
  "token_list_free list = token_list_init"

text \<open>\<open>sizeof\<close> of a token: two words of 4 bytes, a pointer, four positions and two pointers.\<close>

abbreviation (input) SIZEOF_TOKEN :: nat where "SIZEOF_TOKEN \<equiv> 48"
abbreviation (input) CC64_RESERVE_CAP :: nat where "CC64_RESERVE_CAP \<equiv> 1365"
abbreviation (input) CC64_LIST_STEP :: nat where "CC64_LIST_STEP \<equiv> 4096"

definition token_list_reserve :: "token_list option \<Rightarrow> nat \<Rightarrow> bool \<times> token_list option" where
  "token_list_reserve list capacity =
     (case list of None \<Rightarrow> (False, None)
      | Some l \<Rightarrow>
        let capacity = (if capacity > CC64_RESERVE_CAP then CC64_RESERVE_CAP else capacity) in
        if capacity \<le> tl_capacity l then (True, Some l)
        else if capacity > SIZE_MAX div SIZEOF_TOKEN then (False, Some l)
        else (True, Some (l\<lparr>tl_capacity := capacity\<rparr>)))"

definition token_list_push :: "token_list \<Rightarrow> token \<Rightarrow> token_list option" where
  "token_list_push list t =
     (if length (tl_items list) = tl_capacity list then
        let wanted = (if tl_capacity list = 0 then 32
                      else if tl_capacity list < 4096 then tl_capacity list * 2
                      else tl_capacity list + CC64_LIST_STEP)
        in if wanted > SIZE_MAX div SIZEOF_TOKEN then None
           else Some (list\<lparr>tl_items := tl_items list @ [t], tl_capacity := wanted\<rparr>)
      else Some (list\<lparr>tl_items := tl_items list @ [t]\<rparr>))"

definition token_list_last :: "token_list \<Rightarrow> token option" where
  "token_list_last list = (if tl_items list = [] then None else Some (last (tl_items list)))"

end
