(* ===== verification/Lexer_Text.thy ===== *)
theory Lexer_Text
  imports Lexer
begin

text \<open>
  What a token of \<open>src/src/frontend/lexer.c\<close> stands for: the text of a token is the part of the source
  it covers with its splices removed, and what lies between two tokens is white space and comments.
\<close>

subsection \<open>Reading a source without its splices\<close>

text \<open>Where the splice at a position ends: a backslash, a line end of one or two bytes.\<close>

definition splice_end :: "byte list \<Rightarrow> nat \<Rightarrow> nat option" where
  "splice_end bytes p =
     (if p < length bytes \<and> bytes ! p = 92 then
        (let q = (if p + 1 < length bytes \<and> bytes ! (p + 1) = 13 then p + 2 else p + 1)
         in if q < length bytes \<and> bytes ! q = 10 then Some (q + 1) else None)
      else None)"

inductive reads :: "byte list \<Rightarrow> nat \<Rightarrow> nat \<Rightarrow> cstring \<Rightarrow> bool" for bytes where
  nothing: "reads bytes p p []"
| joined: "splice_end bytes p = Some n \<Longrightarrow> reads bytes n q t \<Longrightarrow> reads bytes p q t"
| a_byte: "p < length bytes \<Longrightarrow> splice_end bytes p = None \<Longrightarrow> reads bytes (Suc p) q t \<Longrightarrow> reads bytes p q (bytes ! p # t)"

lemma splice_end_progress: "splice_end bytes p = Some n \<Longrightarrow> p < n \<and> n \<le> length bytes"
  by (auto simp: splice_end_def Let_def split: if_splits)

text \<open>The same as a function of the two ends.\<close>

function spelled :: "byte list \<Rightarrow> nat \<Rightarrow> nat \<Rightarrow> cstring" where
  "spelled bytes p q =
     (if p \<ge> q then []
      else case splice_end bytes p of Some n \<Rightarrow> spelled bytes n q
        | None \<Rightarrow> bytes ! p # spelled bytes (Suc p) q)"
  by pat_completeness auto
termination
proof (relation "measure (\<lambda>(bytes, p, q). q - p)", goal_cases)
  case (3 bytes p q n)
  then show ?case using splice_end_progress [of bytes p n] by auto
qed auto

declare spelled.simps [simp del]

lemma reads_le: "reads bytes p q t \<Longrightarrow> p + length t \<le> q"
  by (induction rule: reads.induct) (auto dest: splice_end_progress)

lemma reads_bound: "reads bytes p q t \<Longrightarrow> p \<le> length bytes \<Longrightarrow> q \<le> length bytes"
  by (induction rule: reads.induct) (auto dest: splice_end_progress)

lemma reads_trans: "reads bytes p q t \<Longrightarrow> reads bytes q r u \<Longrightarrow> reads bytes p r (t @ u)"
  by (induction rule: reads.induct) (auto intro: reads.intros)

lemma reads_one: "p < length bytes \<Longrightarrow> splice_end bytes p = None \<Longrightarrow> reads bytes p (Suc p) [bytes ! p]"
  by (rule reads.a_byte [OF _ _ reads.nothing])

lemma reads_spelled: "reads bytes p q t \<Longrightarrow> t = spelled bytes p q"
proof (induction rule: reads.induct)
  case (nothing p)
  then show ?case by (simp add: spelled.simps)
next
  case (joined p n q t)
  then show ?case using splice_end_progress [of bytes p n] reads_le [OF joined(2)]
    by (simp add: spelled.simps [of bytes p q])
next
  case (a_byte p q t)
  then show ?case using reads_le [OF a_byte(3)] by (simp add: spelled.simps [of bytes p q])
qed

lemma splice_at_end: "lx_position lx < lx_length lx \<Longrightarrow>
    (case splice_at lx of (r, lx') \<Rightarrow> splice_end (lx_bytes lx) (lx_position lx) = (if r then Some (lx_position lx') else None))"
  by (auto simp: splice_at_def splice_end_def Let_def)

lemma skip_splices_reads:
  "reads (lx_bytes lx) (lx_position lx) (lx_position (skip_splices lx)) [] \<and> lx_scratch (skip_splices lx) = lx_scratch lx"
proof (induction lx rule: skip_splices.induct)
  case (1 lx)
  obtain r lx' where s: "splice_at lx = (r, lx')" by (cases "splice_at lx")
  have keep: "lx_scratch lx' = lx_scratch lx" "lx_source lx' = lx_source lx"
    using s by (auto simp: splice_at_def Let_def split: if_splits)
  show ?case
  proof (cases "lx_position lx < lx_length lx")
    case True
    show ?thesis using 1 [OF True s [symmetric]] splice_at_end [OF True] splice_at_cases(4) [OF s] keep
      unfolding skip_splices.simps [of lx] by (auto simp: s True intro: reads.intros)
  qed (simp add: skip_splices.simps [of lx] reads.intros)
qed

lemma logical_position_skip:
  "logical_position (lx_bytes lx) (lx_position lx) = lx_position (skip_splices lx)"
proof (induction lx rule: skip_splices.induct)
  case (1 lx)
  obtain r lx' where s: "splice_at lx = (r, lx')" by (cases "splice_at lx")
  show ?case
  proof (cases "lx_position lx < lx_length lx")
    case True
    show ?thesis using 1 [OF True s [symmetric]] s True
      unfolding skip_splices.simps [of lx] logical_position.simps [of "lx_bytes lx" "lx_position lx"]
      by (auto simp: splice_at_def Let_def split: if_splits)
  qed (simp add: skip_splices.simps [of lx] logical_position.simps)
qed

text \<open>Steps of the lexer that extend its text by what they read.\<close>

definition extends_text :: "lexer \<Rightarrow> lexer \<Rightarrow> bool" where
  "extends_text lx lx' \<longleftrightarrow> moves lx lx' \<and>
     (\<exists>t. lx_scratch lx' = lx_scratch lx @ t \<and> reads (lx_bytes lx) (lx_position lx) (lx_position lx') t)"

lemma extends_text_refl [simp]: "extends_text lx lx"
  by (auto simp: extends_text_def intro: reads.intros)

lemma extends_text_trans: "extends_text lx lx' \<Longrightarrow> extends_text lx' lx'' \<Longrightarrow> extends_text lx lx''"
  using movesD(1) [of lx lx'] by (auto simp: extends_text_def intro: reads_trans moves_trans)

lemma extends_skip: "extends_text lx (skip_splices lx)"
  using skip_splices_reads [of lx] skip_splices_moves [of lx] by (auto simp: extends_text_def)

lemma extends_byte:
  assumes "lx_position lx < lx_length lx" "skip_splices lx = lx"
  shows "extends_text lx (advance_byte (append_text lx (lx_byte lx)) (lx_byte lx))"
proof -
  obtain r lx' where s: "splice_at lx = (r, lx')" by (cases "splice_at lx")
  have "\<not> r" using skip_splices_stable [of lx] assms s by simp
  then have "splice_end (lx_bytes lx) (lx_position lx) = None" using splice_at_end [OF assms(1)] s by simp
  moreover have "moves lx (advance_byte (append_text lx (lx_byte lx)) (lx_byte lx))"
    using advance_byte_moves [of "append_text lx (lx_byte lx)"] assms(1) moves_trans [of lx "append_text lx (lx_byte lx)"] by simp
  ultimately show ?thesis using reads_one [OF assms(1)] by (auto simp: extends_text_def)
qed

lemma extends_append_spliced: "extends_text lx (append_spliced lx)"
  using extends_skip [of lx] extends_byte [of "skip_splices lx"]
  by (auto simp: append_spliced_def Let_def intro: extends_text_trans)

lemma extends_identifier: "extends_text lx (identifier_loop lx)"
proof (induction lx rule: identifier_loop.induct)
  case (1 lx)
  show ?case using 1 extends_skip [of lx] extends_append_spliced [of "skip_splices lx"]
    unfolding identifier_loop.simps [of lx] by (auto simp: Let_def intro: extends_text_trans)
qed

lemma extends_number: "extends_text lx (number_loop lx)"
proof (induction lx rule: number_loop.induct)
  case (1 lx)
  have app: "extends_text lx (append_spliced (skip_splices lx))"
    by (rule extends_text_trans [OF extends_skip extends_append_spliced])
  show ?case using 1 [OF _ refl] extends_skip [of lx] app extends_text_trans [OF app]
    unfolding number_loop.simps [of lx] by (auto simp: Let_def)
qed

lemma extends_quoted: "extends_text lx (snd (quoted_loop quote lx))"
proof (induction quote lx rule: quoted_loop.induct)
  case (1 quote lx)
  define on where "on = skip_splices lx"
  define b where "b = lx_byte on"
  define after where "after = advance_byte (append_text on b) b"
  define esc where "esc = (if lx_position (skip_splices after) < lx_length (skip_splices after) \<and>
      lx_byte (skip_splices after) \<noteq> 13 \<and> lx_byte (skip_splices after) \<noteq> 10
      then append_spliced (skip_splices after) else skip_splices after)"
  have on: "extends_text lx on" unfolding on_def by (rule extends_skip)
  have stable: "skip_splices on = on" by (simp add: on_def)
  have run: "quoted_loop quote lx =
      (if lx_position lx < lx_length lx then
         if lx_position on \<ge> lx_length on then (False, on)
         else if b = 13 \<or> b = 10 then (False, on)
         else if b = 92 then quoted_loop quote esc
         else if b = quote then (True, after) else quoted_loop quote after
       else (False, lx))"
    unfolding quoted_loop.simps [of quote lx] Let_def esc_def after_def b_def on_def ..
  show ?case
  proof (cases "lx_position lx < lx_length lx \<and> \<not> lx_position on \<ge> lx_length on \<and> \<not> (b = 13 \<or> b = 10)")
    case True
    then have "extends_text on after" unfolding after_def b_def using stable by (intro extends_byte) auto
    then have after: "extends_text lx after" by (rule extends_text_trans [OF on])
    have esc: "extends_text lx esc"
      using extends_skip [of after] extends_append_spliced [of "skip_splices after"] after
      unfolding esc_def by (auto intro: extends_text_trans)
    have "b = 92 \<Longrightarrow> extends_text esc (snd (quoted_loop quote esc))"
      using True 1(1) [of on b "skip_splices after"] by (auto simp: on_def b_def after_def esc_def)
    moreover have "b \<noteq> 92 \<Longrightarrow> b \<noteq> quote \<Longrightarrow> extends_text after (snd (quoted_loop quote after))"
      using True 1(2) [of on b after] by (auto simp: on_def b_def after_def)
    ultimately show ?thesis using True after extends_text_trans [OF esc] extends_text_trans [OF after]
      unfolding run by auto
  next
    case False
    then show ?thesis using on unfolding run by auto
  qed
qed

lemma extends_punctuator:
  "probe_matches (lx_bytes lx) (lx_position lx) w \<Longrightarrow>
     extends_text lx (take_punctuator lx w) \<and> lx_scratch (take_punctuator lx w) = lx_scratch lx @ w"
proof (induction w arbitrary: lx)
  case (Cons c w)
  let ?lx = "skip_splices (append_text lx c)"
  let ?next = "advance_byte ?lx (lx_byte ?lx)"
  have src: "lx_source ?lx = lx_source lx" "lx_keep_newlines ?lx = lx_keep_newlines lx"
    using movesD(1,3) [OF skip_splices_moves [of "append_text lx c"]] by simp_all
  have pos: "logical_position (lx_bytes lx) (lx_position lx) = lx_position ?lx"
    using logical_position_skip [of "append_text lx c"] by simp
  have at: "lx_position ?lx < lx_length lx" "lx_byte ?lx = c" "probe_matches (lx_bytes lx) (lx_position ?lx + 1) w"
    using Cons.prems by (auto simp: pos src Let_def split: if_splits)
  have scr: "lx_scratch ?lx = lx_scratch lx @ [c]" 
    using skip_splices_reads [of "append_text lx c"] by simp
  have read: "reads (lx_bytes lx) (lx_position lx) (lx_position ?lx) []"
    using skip_splices_reads [of "append_text lx c"] by simp
  obtain r lx' where s: "splice_at ?lx = (r, lx')" by (cases "splice_at ?lx")
  have "splice_end (lx_bytes lx) (lx_position ?lx) = None"
    using splice_at_end [of ?lx] skip_splices_stable [of "append_text lx c"] at(1) s src by simp
  then have "reads (lx_bytes lx) (lx_position lx) (lx_position ?next) [c]"
    using reads_trans [OF read reads_one] at(1,2) src by fastforce
  moreover have "moves lx ?lx" using moves_trans [OF _ skip_splices_moves [of "append_text lx c"], of lx] by simp
  then have "moves lx ?next" by (rule moves_trans [OF _ advance_byte_moves]) (use at(1) src in simp)
  ultimately have step: "extends_text lx ?next" using scr src by (auto simp: extends_text_def)
  have "extends_text ?next (take_punctuator ?next w) \<and> lx_scratch (take_punctuator ?next w) = lx_scratch ?next @ w"
    using Cons.IH [of ?next] at(3) src by simp
  then show ?case using extends_text_trans [OF step] at(1) src scr by (simp add: Let_def)
qed simp

lemma finish_tokenD:
  assumes "finish_token lx start line column at_bol has_space kind = (Some t, lx')"
  shows "tk_kind t = kind" "tk_text t = lx_scratch lx" "unat (tk_start t) = start" "unat (tk_end t) = lx_position lx"
    "lx_source lx' = lx_source lx" "lx_position lx' = lx_position lx" "lx_keep_newlines lx' = lx_keep_newlines lx"
    "tk_source t = lx_source lx" "unat (tk_line t) = line" "unat (tk_column t) = column"
  using assms unat_of_nat [where ?'a = 32]
  by (auto simp: finish_token_def lexer_emit_def UINT32_MAX_def unat_of_nat split: if_splits option.splits prod.splits)

lemma extends_position: "extends_text lx lx' \<Longrightarrow> lx_position lx \<le> lx_position lx'"
  by (auto simp: extends_text_def dest!: reads_le)

lemma skip_splices_none: "splice_end (lx_bytes lx) (lx_position lx) = None \<Longrightarrow> skip_splices lx = lx"
proof (cases "lx_position lx < lx_length lx")
  case True
  obtain r lx' where s: "splice_at lx = (r, lx')" by (cases "splice_at lx")
  assume "splice_end (lx_bytes lx) (lx_position lx) = None"
  then show ?thesis using splice_at_end [OF True] splice_at_cases(4) [OF s] s
    by (cases r) (simp_all add: skip_splices.simps)
qed (simp add: skip_splices.simps)

lemma splice_end_skip: "splice_end (lx_bytes lx) (lx_position (skip_splices lx)) = None"
proof (cases "lx_position (skip_splices lx) < lx_length (skip_splices lx)")
  case True
  then show ?thesis using splice_at_end [OF True] skip_splices_stable [OF True] movesD(1) [OF skip_splices_moves [of lx]]
    by (auto split: prod.splits)
next
  case False
  then show ?thesis using movesD(1) [OF skip_splices_moves [of lx]] by (simp add: splice_end_def)
qed

lemma append_spliced_stable:
  "splice_end (lx_bytes lx) (lx_position lx) = None \<Longrightarrow> lx_position lx < lx_length lx \<Longrightarrow>
     lx_position (append_spliced lx) = Suc (lx_position lx)"
  by (simp add: append_spliced_def Let_def skip_splices_none)

lemma punctuators_nonempty: "w \<in> set punctuators \<Longrightarrow> w \<noteq> []"
  by (auto simp: punctuators_def cstr_def)

text \<open>Every token is finished after a text that covers at least one byte.\<close>

lemma lex_token_shape:
  assumes "lx_position lx < lx_length lx" "splice_end (lx_bytes lx) (lx_position lx) = None"
  shows "\<exists>good lx1 kind. lex_token lx has_space at_bol =
      (good, finish_token lx1 (lx_position lx) (lx_line lx) (lx_column lx) at_bol has_space kind) \<and>
    extends_text (scratch_begin lx) lx1 \<and> lx_position lx < lx_position lx1 \<and>
    kind \<notin> {TOKEN_EOF, TOKEN_NEWLINE, TOKEN_KEYWORD}"
proof -
  define s where "s = scratch_begin lx"
  have base: "lx_source s = lx_source lx" "lx_position s = lx_position lx" "lx_scratch s = []"
     by (simp_all add: s_def scratch_begin_def)
  then have stable: "skip_splices s = s" using assms(2) by (intro skip_splices_none) simp
  have app: "lx_position (append_spliced s) = Suc (lx_position lx)"
    using append_spliced_stable [of s] assms base by simp
  let ?tok = "\<lambda>lx1 kind. finish_token lx1 (lx_position lx) (lx_line lx) (lx_column lx) at_bol has_space kind"
  have shape: ?thesis if "lex_token lx has_space at_bol = (good, ?tok lx1 kind)" "extends_text s lx1"
      "lx_position lx < lx_position lx1" "kind \<notin> {TOKEN_EOF, TOKEN_NEWLINE, TOKEN_KEYWORD}" for good lx1 kind
    using that unfolding s_def by blast
  show ?thesis
  proof (cases "is_ident_start (lx_byte lx)")
    case True
    then have "identifier_loop s = identifier_loop (append_spliced s)"
      using base assms(1) stable by (subst identifier_loop.simps) (simp add: Let_def is_ident_continue_def)
    then have "lx_position lx < lx_position (identifier_loop s)"
      using extends_position [OF extends_identifier [of "append_spliced s"]] app by simp
    then show ?thesis using True
      by (intro shape [OF _ extends_identifier, of True TOKEN_IDENTIFIER]) (auto simp: lex_token_def Let_def s_def)
  next
    case ident: False
    show ?thesis
    proof (cases "starts_number lx")
      case True
      then have "is_ident_continue (lx_byte lx) \<or> lx_byte lx = 46"
        by (auto simp: starts_number_def lex_is_digit_def is_ident_continue_def)
      then have "number_loop s = number_loop (append_spliced s)"
        using base assms(1) stable by (subst number_loop.simps) (auto simp add: Let_def)
      then have "lx_position lx < lx_position (number_loop s)"
        using extends_position [OF extends_number [of "append_spliced s"]] app by simp
      then show ?thesis using True ident
        by (intro shape [OF _ extends_number, of True TOKEN_NUMBER]) (auto simp: lex_token_def Let_def s_def)
    next
      case number: False
      show ?thesis
      proof (cases "lx_byte lx = 39 \<or> lx_byte lx = 34")
        case True
        let ?b = "lx_byte lx"
        define after where "after = advance_byte (append_text s ?b) ?b"
        obtain closed lx1 where q: "quoted_loop ?b after = (closed, lx1)" by (cases "quoted_loop ?b after")
        define kind where "kind = (if ?b = 34 then TOKEN_STRING else TOKEN_CHARACTER)"
        define lx2 where "lx2 = (if closed then lx1 else lexer_emit lx1 1002 (lx_line lx) (lx_column lx)
          (if kind = TOKEN_STRING then ''unterminated string literal'' else ''unterminated character literal''))"
        have "extends_text s after" using extends_byte [of s] assms(1) stable base by (simp add: after_def)
        then have "extends_text s lx1" using extends_quoted [of after ?b] q by (metis extends_text_trans snd_conv)
        then have "extends_text s lx2" by (simp add: lx2_def extends_text_def lexer_emit_def)
        moreover have "Suc (lx_position lx) \<le> lx_position lx2"
          using extends_position [OF extends_quoted [of after ?b]] base q by (simp add: lx2_def after_def lexer_emit_def)
        moreover have "lex_token lx has_space at_bol = (closed, ?tok lx2 kind)"
          using True ident number q
          by (auto simp: lex_token_def lex_quoted_def Let_def kind_def lx2_def after_def s_def)
        ultimately show ?thesis by (intro shape) (auto simp: kind_def split: if_splits)
      next
        case False
        then show ?thesis
        proof (cases "find_punctuator lx")
          case None
          define bad where "bad = scratch_begin (lexer_emit lx 1003 (lx_line lx) (lx_column lx) ''invalid input byte'')"
          have "lx_position (append_spliced bad) = Suc (lx_position lx)"
            using append_spliced_stable [of bad] assms by (simp add: bad_def scratch_begin_def lexer_emit_def)
          moreover have "extends_text s (append_spliced bad)" using extends_append_spliced [of bad]
            by (simp add: extends_text_def lexer_emit_def scratch_begin_def bad_def s_def)
          ultimately show ?thesis using False ident number None
            by (intro shape [of False "append_spliced bad" TOKEN_PUNCTUATOR]) (auto simp: lex_token_def Let_def bad_def)
        next
          case (Some w)
          then have w: "probe_matches (lx_bytes s) (lx_position s) w" "w \<noteq> []"
            using base punctuators_nonempty by (auto simp: find_punctuator_def find_Some_iff)
          then have "reads (lx_bytes s) (lx_position s) (lx_position (take_punctuator s w)) w"
            using extends_punctuator [of s w] base by (auto simp: extends_text_def)
          then have "lx_position lx < lx_position (take_punctuator s w)"
            using reads_le base w(2) by (cases w) fastforce+
          then show ?thesis using False ident number Some extends_punctuator [OF w(1)]
            by (intro shape [of True "take_punctuator s w" TOKEN_PUNCTUATOR]) (auto simp: lex_token_def Let_def s_def)
        qed
      qed
    qed
  qed
qed

lemma lex_token_text:
  assumes "lex_token lx has_space at_bol = (good, Some t, lx')" "lx_position lx < lx_length lx"
    "splice_end (lx_bytes lx) (lx_position lx) = None"
  shows "unat (tk_start t) = lx_position lx \<and> unat (tk_end t) = lx_position lx' \<and> lx_source lx' = lx_source lx \<and>
    lx_keep_newlines lx' = lx_keep_newlines lx \<and> lx_position lx < lx_position lx' \<and>
    reads (lx_bytes lx) (lx_position lx) (lx_position lx') (tk_text t) \<and> tk_source t = lx_source lx \<and>
    tk_kind t \<notin> {TOKEN_EOF, TOKEN_NEWLINE, TOKEN_KEYWORD}"
proof -
  obtain lx1 kind where F: "finish_token lx1 (lx_position lx) (lx_line lx) (lx_column lx) at_bol has_space kind = (Some t, lx')"
    and ext: "extends_text (scratch_begin lx) lx1" and more: "lx_position lx < lx_position lx1"
      "kind \<notin> {TOKEN_EOF, TOKEN_NEWLINE, TOKEN_KEYWORD}"
    using lex_token_shape [OF assms(2,3), of has_space at_bol] assms(1) by auto
  have "moves (scratch_begin lx) lx1" "reads (lx_bytes lx) (lx_position lx) (lx_position lx1) (lx_scratch lx1)"
    using ext by (auto simp: extends_text_def scratch_begin_def)
  then show ?thesis using finish_tokenD [OF F] movesD(1,3) [of "scratch_begin lx" lx1] more
    by (simp add: scratch_begin_def)
qed

subsection \<open>Where the lexer gives up\<close>

text \<open>The bytes behind an opening quote up to the closing one: a backslash takes the next byte with it.\<close>

fun literal_closed :: "byte \<Rightarrow> cstring \<Rightarrow> bool" where
  "literal_closed quote [] = False"
| "literal_closed quote (c # w) =
     (if c = 92 then (case w of [] \<Rightarrow> False | _ # w \<Rightarrow> literal_closed quote w)
      else if c = quote then w = [] else literal_closed quote w)"

definition at_line_end :: "byte list \<Rightarrow> nat \<Rightarrow> bool" where
  "at_line_end bytes p \<longleftrightarrow> p = length bytes \<or> bytes ! p = 13 \<or> bytes ! p = 10"

text \<open>
  A token the lexer cannot go on behind: a literal that is open when its line or the source ends, or a byte that
  begins no token, which is handed out as a punctuator.
\<close>

definition gives_up :: "byte list \<Rightarrow> token \<Rightarrow> bool" where
  "gives_up bytes t \<longleftrightarrow>
     (case tk_kind t of
        TOKEN_STRING \<Rightarrow> \<not> literal_closed 34 (tl (tk_text t)) \<and> at_line_end bytes (unat (tk_end t))
      | TOKEN_CHARACTER \<Rightarrow> \<not> literal_closed 39 (tl (tk_text t)) \<and> at_line_end bytes (unat (tk_end t))
      | TOKEN_PUNCTUATOR \<Rightarrow> \<forall>w \<in> set punctuators. \<not> probe_matches bytes (unat (tk_start t)) w
      | _ \<Rightarrow> False)"

lemma skip_splices_scratch [simp]: "lx_scratch (skip_splices lx) = lx_scratch lx"
proof (induction lx rule: skip_splices.induct)
  case (1 lx)
  obtain r lx' where s: "splice_at lx = (r, lx')" by (cases "splice_at lx")
  then have "lx_scratch lx' = lx_scratch lx"
    by (auto simp: splice_at_def advance_byte_def Let_def split: if_splits)
  then show ?case using 1 s by (subst skip_splices.simps) auto
qed

lemma advance_byte_scratch [simp]: "lx_scratch (advance_byte lx b) = lx_scratch lx"
  by (simp add: advance_byte_def Let_def)

lemma quoted_loop_text:
  "quoted_loop quote lx = (closed, lx') \<Longrightarrow> quote \<noteq> 92 \<Longrightarrow> lx_position lx \<le> lx_length lx \<Longrightarrow>
     \<exists>w. lx_scratch lx' = lx_scratch lx @ w \<and> (closed \<longleftrightarrow> literal_closed quote w) \<and>
       (\<not> closed \<longrightarrow> at_line_end (lx_bytes lx) (lx_position lx'))"
proof (induction quote lx arbitrary: closed lx' rule: quoted_loop.induct)
  case (1 quote lx)
  define on where "on = skip_splices lx"
  define b where "b = lx_byte on"
  define after where "after = advance_byte (append_text on b) b"
  define esc where "esc = (if lx_position (skip_splices after) < lx_length (skip_splices after) \<and>
      lx_byte (skip_splices after) \<noteq> 13 \<and> lx_byte (skip_splices after) \<noteq> 10
      then append_spliced (skip_splices after) else skip_splices after)"
  have run: "quoted_loop quote lx =
      (if lx_position lx < lx_length lx then
         if lx_position on \<ge> lx_length on then (False, on)
         else if b = 13 \<or> b = 10 then (False, on)
         else if b = 92 then quoted_loop quote esc
         else if b = quote then (True, after) else quoted_loop quote after
       else (False, lx))"
    unfolding quoted_loop.simps [of quote lx] Let_def esc_def after_def b_def on_def ..
  note on = movesD [OF skip_splices_moves [of lx], folded on_def]
  have on_pos: "lx_position on \<le> lx_length on" using on 1(5) by auto
  show ?case
  proof (cases "lx_position lx < lx_length lx \<and> lx_position on < lx_length on \<and> b \<noteq> 13 \<and> b \<noteq> 10")
    case False
    then have stop: "\<not> closed" "lx' = (if lx_position lx < lx_length lx then on else lx)" 
      using 1(3) unfolding run by (auto split: if_splits)
    then have "at_line_end (lx_bytes lx) (lx_position lx')"
      using False on on_pos 1(5) by (auto simp: at_line_end_def b_def split: if_splits)
    then show ?thesis using stop by (intro exI [of _ "[]"]) (simp add: on_def)
  next
    case inside: True
    then have in_on: "lx_position lx < lx_length lx" "\<not> lx_position on \<ge> lx_length on" "\<not> (b = 13 \<or> b = 10)" by auto
    have after: "lx_scratch after = lx_scratch lx @ [b]" "lx_source after = lx_source lx" "lx_position after \<le> lx_length after"
      using on inside movesD [OF advance_byte_moves [of "append_text on b" b]] by (auto simp: after_def on_def)
    show ?thesis
    proof (cases "b = 92")
      case True
      have esc: "lx_source esc = lx_source lx" "lx_position esc \<le> lx_length esc"
        using after movesD [OF skip_splices_moves [of after]] movesD [OF append_spliced_moves [of "skip_splices after"]]
        by (auto simp: esc_def)
      have rec: "quoted_loop quote esc = (closed, lx')" using 1(3) in_on True unfolding run by simp
      show ?thesis
      proof (cases "lx_position (skip_splices after) < lx_length (skip_splices after) \<and>
          lx_byte (skip_splices after) \<noteq> 13 \<and> lx_byte (skip_splices after) \<noteq> 10")
        case one: True
        then have "lx_scratch esc = lx_scratch lx @ [b, lx_byte (skip_splices after)]"
          using after(1) by (simp add: esc_def append_spliced_def Let_def)
        moreover obtain w where "lx_scratch lx' = lx_scratch esc @ w \<and> (closed \<longleftrightarrow> literal_closed quote w) \<and>
            (\<not> closed \<longrightarrow> at_line_end (lx_bytes esc) (lx_position lx'))"
          using 1(1) [of on b "skip_splices after" closed lx'] in_on True rec 1(4) esc
          by (auto simp: on_def b_def after_def esc_def)
        ultimately show ?thesis using esc(1) True by (intro exI [of _ "b # lx_byte (skip_splices after) # w"]) simp
      next
        case False
        then have e: "esc = skip_splices after" unfolding esc_def by (rule if_not_P)
        have "\<not> closed \<and> lx' = esc"
          using rec [unfolded e] False unfolding quoted_loop.simps [of quote "skip_splices after"] e by (auto simp: Let_def split: if_splits)
        moreover have "at_line_end (lx_bytes lx) (lx_position esc)"
          using False esc by (auto simp: at_line_end_def e)
        ultimately show ?thesis using True after(1) e by (intro exI [of _ "[b]"]) simp
      qed
    next
      case no_escape: False
      show ?thesis
      proof (cases "b = quote")
        case True
        then have "closed" "lx' = after" using 1(3) in_on no_escape unfolding run by auto
        then show ?thesis using after(1) True no_escape by (intro exI [of _ "[b]"]) simp
      next
        case False
        then have rec: "quoted_loop quote after = (closed, lx')" using 1(3) in_on no_escape unfolding run by simp
        then obtain w where "lx_scratch lx' = lx_scratch after @ w \<and> (closed \<longleftrightarrow> literal_closed quote w) \<and>
            (\<not> closed \<longrightarrow> at_line_end (lx_bytes after) (lx_position lx'))"
          using 1(2) [of on b after closed lx'] in_on False no_escape 1(4) after by (auto simp: on_def b_def after_def)
        then show ?thesis using after(1,2) False no_escape by (intro exI [of _ "b # w"]) simp
      qed
    qed
  qed
qed

text \<open>The lexer reports success exactly for the tokens it can go on behind.\<close>

lemma lex_token_good:
  assumes "lex_token lx has_space at_bol = (good, Some t, lx')" "lx_position lx < lx_length lx"
    "splice_end (lx_bytes lx) (lx_position lx) = None"
  shows "good \<longleftrightarrow> \<not> gives_up (lx_bytes lx) t"
proof -
  note T = lex_token_text [OF assms]
  let ?tok = "\<lambda>lx1 kind. finish_token lx1 (lx_position lx) (lx_line lx) (lx_column lx) at_bol has_space kind"
  have done_with: ?thesis if "good" "?tok lx1 kind = (Some t, lx')" "kind \<in> {TOKEN_IDENTIFIER, TOKEN_NUMBER}" for lx1 kind
    using that finish_tokenD [OF that(2)] by (auto simp: gives_up_def)
  show ?thesis
  proof (cases "is_ident_start (lx_byte lx) \<or> starts_number lx")
    case True
    then show ?thesis using assms(1) done_with by (auto simp: lex_token_def Let_def split: if_splits)
  next
    case plain: False
    show ?thesis
    proof (cases "lx_byte lx = 39 \<or> lx_byte lx = 34")
      case True
      let ?b = "lx_byte lx"
      define kind where "kind = (if ?b = 34 then TOKEN_STRING else TOKEN_CHARACTER)"
      define after where "after = advance_byte (append_text (scratch_begin lx) ?b) ?b"
      obtain closed lx1 where q: "quoted_loop ?b after = (closed, lx1)" by (cases "quoted_loop ?b after")
      define lx2 where "lx2 = (if closed then lx1 else lexer_emit lx1 1002 (lx_line lx) (lx_column lx)
          (if kind = TOKEN_STRING then ''unterminated string literal'' else ''unterminated character literal''))"
      have run: "good = closed" "?tok lx2 kind = (Some t, lx')"
        using assms(1) plain True q by (auto simp: lex_token_def lex_quoted_def Let_def kind_def lx2_def after_def)
      have base: "lx_position after = lx_position lx + 1" "lx_source after = lx_source lx" "lx_scratch after = [?b]"
        by (simp_all add: after_def advance_byte_def scratch_begin_def Let_def)
      have "?b \<noteq> 92" using True by auto
      from quoted_loop_text [OF q this] base assms(2) obtain w where w: "lx_scratch lx1 = [?b] @ w"
          "closed \<longleftrightarrow> literal_closed ?b w" "\<not> closed \<longrightarrow> at_line_end (lx_bytes lx) (lx_position lx1)"
        by auto
      have same: "lx_scratch lx2 = lx_scratch lx1" "lx_position lx2 = lx_position lx1" by (simp_all add: lx2_def lexer_emit_def)
      note F = finish_tokenD [OF run(2)]
      have "tk_text t = ?b # w" "tk_kind t = kind" "unat (tk_end t) = lx_position lx1" using F w(1) same T by simp_all
      then show ?thesis using run(1) w(2,3) True by (auto simp: gives_up_def kind_def)
    next
      case False
      show ?thesis
      proof (cases "find_punctuator lx")
        case None
        define bad where "bad = append_spliced (scratch_begin (lexer_emit lx 1003 (lx_line lx) (lx_column lx) ''invalid input byte''))"
        have run: "\<not> good" "?tok bad TOKEN_PUNCTUATOR = (Some t, lx')"
          using assms(1) plain False None by (auto simp: lex_token_def Let_def bad_def)
        have "\<forall>w \<in> set punctuators. \<not> probe_matches (lx_bytes lx) (lx_position lx) w"
          using None by (simp add: find_punctuator_def find_None_iff)
        then show ?thesis using run finish_tokenD [OF run(2)] T by (simp add: gives_up_def)
      next
        case (Some w)
        define on where "on = take_punctuator (scratch_begin lx) w"
        have run: "good" "?tok on TOKEN_PUNCTUATOR = (Some t, lx')"
          using assms(1) plain False Some by (auto simp: lex_token_def Let_def on_def)
        have "\<exists>w \<in> set punctuators. probe_matches (lx_bytes lx) (lx_position lx) w"
          using Some by (auto simp: find_punctuator_def find_Some_iff intro: nth_mem)
        then show ?thesis using run finish_tokenD [OF run(2)] T by (auto simp: gives_up_def)
      qed
    qed
  qed
qed

end
