(* ===== verification/Lex_Source.thy ===== *)
theory Lex_Source
  imports Lexer_Text
begin

text \<open>
  Lexing a whole source (\<open>lex_source_marked\<close> of \<open>src/src/frontend/lexer.c\<close>): what lies between two
  tokens, termination of the token loop, and the partition of a source into tokens and blanks.
\<close>

subsection \<open>Between tokens\<close>

text \<open>
  White space, comments and splices; with \<open>ends\<close>, line ends too. A line comment is read without
  splices up to a line end; a block comment ends at the first closing, or with the source.
\<close>

definition closes :: "byte list \<Rightarrow> nat \<Rightarrow> bool" where
  "closes bytes i \<longleftrightarrow> i + 1 < length bytes \<and> bytes ! i = 42 \<and> bytes ! (i + 1) = 47"

definition block_ends :: "byte list \<Rightarrow> nat \<Rightarrow> nat \<Rightarrow> bool" where
  "block_ends bytes p q \<longleftrightarrow>
     (if q < p + 2 \<or> \<not> closes bytes (q - 2) then q = length bytes \<and> (\<forall>i. p \<le> i \<longrightarrow> \<not> closes bytes i)
      else \<forall>i. p \<le> i \<and> i < q - 2 \<longrightarrow> \<not> closes bytes i)"

inductive blank :: "byte list \<Rightarrow> bool \<Rightarrow> nat \<Rightarrow> nat \<Rightarrow> bool" for bytes ends where
  nothing: "blank bytes ends p p"
| joined: "splice_end bytes p = Some n \<Longrightarrow> blank bytes ends n q \<Longrightarrow> blank bytes ends p q"
| space: "p < length bytes \<Longrightarrow> bytes ! p \<in> {32, 9, 12, 11} \<Longrightarrow> blank bytes ends (Suc p) q \<Longrightarrow> blank bytes ends p q"
| line_comment: "p + 1 < length bytes \<Longrightarrow> bytes ! p = 47 \<Longrightarrow> bytes ! (p + 1) = 47 \<Longrightarrow>
    reads bytes (p + 2) n t \<Longrightarrow> 10 \<notin> set t \<Longrightarrow> 13 \<notin> set t \<Longrightarrow> blank bytes ends n q \<Longrightarrow> blank bytes ends p q"
| block_comment: "p + 1 < length bytes \<Longrightarrow> bytes ! p = 47 \<Longrightarrow> bytes ! (p + 1) = 42 \<Longrightarrow>
    block_ends bytes (p + 2) n \<Longrightarrow> p + 2 \<le> n \<Longrightarrow> blank bytes ends n q \<Longrightarrow> blank bytes ends p q"
| line_end: "ends \<Longrightarrow> p < length bytes \<Longrightarrow> bytes ! p \<in> {10, 13} \<Longrightarrow> blank bytes ends (Suc p) q \<Longrightarrow> blank bytes ends p q"

lemma blank_le: "blank bytes ends p q \<Longrightarrow> p \<le> q"
  by (induction rule: blank.induct) (auto dest: splice_end_progress reads_le)

lemma blank_trans: "blank bytes ends p q \<Longrightarrow> blank bytes ends q r \<Longrightarrow> blank bytes ends p r"
  by (induction rule: blank.induct) (auto intro: blank.intros)

lemma reads_blank: "reads bytes p q t \<Longrightarrow> t = [] \<Longrightarrow> blank bytes ends p q"
  by (induction rule: reads.induct) (auto intro: blank.intros)

lemma line_comment_reads:
  "\<exists>t. reads (lx_bytes lx) (lx_position lx) (lx_position (line_comment lx)) t \<and> 10 \<notin> set t \<and> 13 \<notin> set t"
proof (induction lx rule: line_comment.induct)
  case (1 lx)
  define on where "on = skip_splices lx"
  define after where "after = on\<lparr>lx_position := lx_position on + 1, lx_column := lx_column on + 1\<rparr>"
  have src: "lx_source on = lx_source lx" using movesD(1) [OF skip_splices_moves [of lx]] by (simp add: on_def)
  have skip: "reads (lx_bytes lx) (lx_position lx) (lx_position on) []"
    using skip_splices_reads [of lx] by (simp add: on_def)
  have run: "line_comment lx =
      (if lx_position lx < lx_length lx then
         if lx_position on \<ge> lx_length on \<or> lx_byte on = 10 \<or> lx_byte on = 13 then on else line_comment after
       else lx)"
    unfolding line_comment.simps [of lx] Let_def on_def after_def ..
  show ?case
  proof (cases "lx_position lx < lx_length lx \<and> \<not> (lx_position on \<ge> lx_length on \<or> lx_byte on = 10 \<or> lx_byte on = 13)")
    case True
    have asrc: "lx_source after = lx_source lx" "lx_position after = Suc (lx_position on)" by (simp_all add: after_def src)
    from True 1 [of on] obtain t where t: "reads (lx_bytes lx) (lx_position after) (lx_position (line_comment after)) t"
      "10 \<notin> set t" "13 \<notin> set t" using asrc by (auto simp: on_def after_def)
    have "splice_end (lx_bytes lx) (lx_position on) = None" using splice_end_skip [of lx] by (simp add: on_def)
    then have "reads (lx_bytes lx) (lx_position on) (lx_position (line_comment after)) (lx_byte on # t)"
      using True t(1) asrc src by (auto intro: reads.a_byte)
    then have "reads (lx_bytes lx) (lx_position lx) (lx_position (line_comment after)) (lx_byte on # t)"
      using reads_trans [OF skip] by fastforce
    then show ?thesis using True t(2,3) unfolding run by (intro exI [of _ "lx_byte on # t"]) auto
  next
    case False
    then show ?thesis using skip reads.nothing unfolding run by (intro exI [of _ "[]"]) auto
  qed
qed

lemma block_comment_ends:
  assumes "block_comment lx = (closed, lx')" "lx_position lx \<le> lx_length lx" "p \<le> lx_position lx"
    "\<forall>i. p \<le> i \<and> i < lx_position lx \<longrightarrow> \<not> closes (lx_bytes lx) i"
  shows "block_ends (lx_bytes lx) p (lx_position lx')"
  using assms
proof (induction lx rule: block_comment.induct)
  case (1 lx)
  let ?here = "lx_position lx + 1 < lx_length lx \<and> lx_byte lx = 42 \<and> lx_bytes lx ! (lx_position lx + 1) = 47"
  have here: "?here = closes (lx_bytes lx) (lx_position lx)" by (simp add: closes_def)
  show ?case
  proof (cases "lx_position lx < lx_length lx")
    case True
    show ?thesis
    proof (cases ?here)
      case True
      then have "lx_position lx' = lx_position lx + 2" using 1(2) unfolding block_comment.simps [of lx] by auto
      then show ?thesis using True 1(4,5) unfolding here by (simp add: block_ends_def)
    next
      case False
      then have rec: "block_comment (advance_byte lx (lx_byte lx)) = (closed, lx')"
        using 1(2) True unfolding block_comment.simps [of lx] by (auto split: if_splits)
      have "\<forall>i. p \<le> i \<and> i < Suc (lx_position lx) \<longrightarrow> \<not> closes (lx_bytes lx) i"
        using 1(5) False unfolding here by (auto simp: less_Suc_eq)
      then show ?thesis using 1(1) [OF True False rec] True 1(4) by simp
    qed
  next
    case False
    then have "lx' = lx" "lx_position lx = lx_length lx" using 1(2,3) unfolding block_comment.simps [of lx] by auto
    moreover have "\<not> closes (lx_bytes lx) i" if "p \<le> i" for i
      using that 1(5) calculation(2) by (cases "i < lx_position lx") (auto simp: closes_def)
    ultimately show ?thesis by (auto simp: block_ends_def)
  qed
qed

lemma skip_blank_blank:
  "skip_blank lx has_space at_bol = (lx', has_space', at_bol') \<Longrightarrow> lx_position lx \<le> lx_length lx \<Longrightarrow>
     blank (lx_bytes lx) ends (lx_position lx) (lx_position lx')"
proof (induction lx has_space at_bol rule: skip_blank.induct)
  case (1 lx has_space at_bol)
  obtain r lx0 where s: "splice_at lx = (r, lx0)" by (cases "splice_at lx")
  define two where "two = lx\<lparr>lx_position := lx_position lx + 2, lx_column := lx_column lx + 2\<rparr>"
  obtain closed lx3 where c: "block_comment two = (closed, lx3)" by (cases "block_comment two")
  define after where "after = (if closed then lx3 else lexer_emit lx3 1001 (lx_line lx) (lx_column lx) ''unterminated block comment'')"
  define b where "b = lx_byte lx"
  define following where "following = lx_bytes lx ! (lx_position lx + 1)"
  have run: "skip_blank lx has_space at_bol =
     (if lx_position lx < lx_length lx then
        if r then skip_blank lx0 has_space at_bol
        else if b = 32 \<or> b = 9 \<or> b = 12 \<or> b = 11 then skip_blank (advance_byte lx b) True at_bol
        else if b = 13 \<or> b = 10 then (lx, has_space, True)
        else if b = 47 \<and> lx_position lx + 1 < lx_length lx then
          if following = 47 then skip_blank (line_comment two) True at_bol
          else if following = 42 then skip_blank after (closed \<or> has_space) at_bol
          else (lx, has_space, at_bol)
        else (lx, has_space, at_bol)
      else (lx, has_space, at_bol))"
    unfolding skip_blank.simps [of lx] s prod.case Let_def two_def [symmetric] c after_def b_def following_def ..
  note res = 1(5) [unfolded run]
  consider (stop) "lx' = lx"
    | (splice) "lx_position lx < lx_length lx" r "skip_blank lx0 has_space at_bol = (lx', has_space', at_bol')"
    | (space) "lx_position lx < lx_length lx" "\<not> r" "b = 32 \<or> b = 9 \<or> b = 12 \<or> b = 11"
        "skip_blank (advance_byte lx b) True at_bol = (lx', has_space', at_bol')"
    | (line) "lx_position lx < lx_length lx" "\<not> r" "\<not> (b = 32 \<or> b = 9 \<or> b = 12 \<or> b = 11)" "\<not> (b = 13 \<or> b = 10)"
        "b = 47 \<and> lx_position lx + 1 < lx_length lx" "following = 47"
        "skip_blank (line_comment two) True at_bol = (lx', has_space', at_bol')"
    | (block) "lx_position lx < lx_length lx" "\<not> r" "\<not> (b = 32 \<or> b = 9 \<or> b = 12 \<or> b = 11)" "\<not> (b = 13 \<or> b = 10)"
        "b = 47 \<and> lx_position lx + 1 < lx_length lx" "following \<noteq> 47" "following = 42"
        "skip_blank after (closed \<or> has_space) at_bol = (lx', has_space', at_bol')"
    using res by (auto split: if_splits)
  then show ?case
  proof cases
    case stop
    then show ?thesis by (simp add: blank.nothing)
  next
    case splice
    note m = splice_at_moves [OF s]
    have "splice_end (lx_bytes lx) (lx_position lx) = Some (lx_position lx0)" using splice_at_end [OF splice(1)] splice(2) s by simp
    then show ?thesis using 1(1) [OF splice(1) s [symmetric] splice(2,3)] movesD [OF m] 1(6) by (simp add: blank.joined)
  next
    case space
    then show ?thesis using 1(2) [OF space(1) s [symmetric] space(2) refl space(3)[unfolded b_def] space(4) [unfolded b_def]]
      by (auto simp: b_def intro: blank.space)
  next
    case line
    have src: "lx_source two = lx_source lx" "lx_position two = lx_position lx + 2" by (simp_all add: two_def)
    note m = movesD [OF line_comment_moves [of two]]
    obtain t where t: "reads (lx_bytes lx) (lx_position lx + 2) (lx_position (line_comment two)) t" "10 \<notin> set t" "13 \<notin> set t"
      using line_comment_reads [of two] src by auto
    have "blank (lx_bytes lx) ends (lx_position (line_comment two)) (lx_position lx')"
      using 1(3) [OF line(1) s [symmetric] line(2) b_def line(3-5) following_def two_def line(6,7)] m src line(5) by simp
    then show ?thesis using line t by (auto simp: b_def following_def intro: blank.line_comment)
  next
    case block
    have src: "lx_source two = lx_source lx" "lx_position two = lx_position lx + 2" by (simp_all add: two_def)
    have a: "lx_source after = lx_source lx3" "lx_position after = lx_position lx3" by (simp_all add: after_def lexer_emit_def)
    have "moves two lx3" using block_comment_moves [of two] c by simp
    note m = movesD [OF this]
    have "block_ends (lx_bytes lx) (lx_position lx + 2) (lx_position lx3)"
      using block_comment_ends [OF c, of "lx_position lx + 2"] src block(5) by fastforce
    moreover have "blank (lx_bytes lx) ends (lx_position lx3) (lx_position lx')"
      using 1(4) [OF block(1) s [symmetric] block(2) b_def block(3-5) following_def two_def block(6,7) c [symmetric]]
        block(8) m src a block(5) by (simp add: after_def)
    ultimately show ?thesis using block m src by (auto simp: b_def following_def intro: blank.block_comment)
  qed
qed

lemma lex_skip_space_blank:
  assumes "lex_skip_space lx = (lx', has_space, at_bol)" "lx_position lx \<le> lx_length lx"
  shows "blank (lx_bytes lx) ends (lx_position lx) (lx_position lx')"
proof -
  note m = movesD [OF skip_splices_moves [of lx]]
  have "blank (lx_bytes lx) ends (lx_position lx) (lx_position (skip_splices lx))"
    using skip_splices_reads [of lx] by (intro reads_blank) auto
  moreover have "blank (lx_bytes lx) ends (lx_position (skip_splices lx)) (lx_position lx')"
    using skip_blank_blank [of "skip_splices lx" False "lx_column lx = 1" lx' has_space at_bol ends] assms m
    by (simp add: lex_skip_space_def)
  ultimately show ?thesis by (rule blank_trans)
qed

subsection \<open>One token\<close>

text \<open>What a token covers: the end of the source, one line end, or a text read without splices.\<close>

definition covers :: "byte list \<Rightarrow> token \<Rightarrow> bool" where
  "covers bytes t \<longleftrightarrow>
     (let p = unat (tk_start t); q = unat (tk_end t) in
      p \<le> q \<and> q \<le> length bytes \<and>
      (case tk_kind t of
         TOKEN_EOF \<Rightarrow> p = length bytes \<and> tk_text t = []
       | TOKEN_NEWLINE \<Rightarrow> tk_text t = [10] \<and> take (q - p) (drop p bytes) \<in> {[10], [13], [13, 10]}
       | _ \<Rightarrow> p < q \<and> tk_text t = spelled bytes p q))"

lemma skip_line_end_covers:
  assumes "lx_position lx < lx_length lx" "lx_byte lx = 13 \<or> lx_byte lx = 10"
  shows "take (lx_position (skip_line_end lx) - lx_position lx) (drop (lx_position lx) (lx_bytes lx)) \<in> {[10], [13], [13, 10]}"
    "blank (lx_bytes lx) True (lx_position lx) (lx_position (skip_line_end lx))"
    "lx_source (skip_line_end lx) = lx_source lx" "lx_keep_newlines (skip_line_end lx) = lx_keep_newlines lx"
    "lx_position lx < lx_position (skip_line_end lx)" "lx_position (skip_line_end lx) \<le> lx_length lx"
proof -
  have one: "take 1 (drop (lx_position lx) (lx_bytes lx)) = [lx_byte lx]"
    using assms(1) by (simp add: take_Suc_conv_app_nth)
  have two: "take 2 (drop (lx_position lx) (lx_bytes lx)) = [lx_byte lx, lx_bytes lx ! Suc (lx_position lx)]"
    if "Suc (lx_position lx) < lx_length lx"
    using that by (simp add: numeral_2_eq_2 take_Suc_conv_app_nth)
  show "take (lx_position (skip_line_end lx) - lx_position lx) (drop (lx_position lx) (lx_bytes lx)) \<in> {[10], [13], [13, 10]}"
    using assms one two by (auto simp: skip_line_end_def Let_def Suc_diff_le numeral_2_eq_2)
  show "blank (lx_bytes lx) True (lx_position lx) (lx_position (skip_line_end lx))"
    using assms by (auto simp: skip_line_end_def Let_def intro!: blank.line_end blank.nothing)
  show "lx_source (skip_line_end lx) = lx_source lx" "lx_keep_newlines (skip_line_end lx) = lx_keep_newlines lx"
    "lx_position lx < lx_position (skip_line_end lx)" "lx_position (skip_line_end lx) \<le> lx_length lx"
    using assms by (auto simp: skip_line_end_def Let_def)
qed

lemma lexer_next_token:
  "lexer_next lx = (good, Some t, lx') \<Longrightarrow> lx_position lx \<le> lx_length lx \<Longrightarrow>
     blank (lx_bytes lx) (\<not> lx_keep_newlines lx) (lx_position lx) (unat (tk_start t)) \<and>
     unat (tk_end t) = lx_position lx' \<and> lx_source lx' = lx_source lx \<and> lx_keep_newlines lx' = lx_keep_newlines lx \<and>
     covers (lx_bytes lx) t \<and> tk_source t = lx_source lx \<and> tk_kind t \<noteq> TOKEN_KEYWORD \<and>
     (good \<longleftrightarrow> \<not> gives_up (lx_bytes lx) t)"
proof (induction lx rule: lexer_next.induct)
  case (1 lx)
  obtain lx0 has_space at_bol where sk: "lex_skip_space lx = (lx0, has_space, at_bol)" by (cases "lex_skip_space lx") auto
  define on where "on = skip_splices lx0"
  have m: "moves lx on" using lex_skip_space_moves [OF sk] skip_splices_moves [of lx0] by (auto simp: on_def intro: moves_trans)
  note on = movesD [OF m] 
  have b: "blank (lx_bytes lx) (\<not> lx_keep_newlines lx) (lx_position lx) (lx_position on)"
    using lex_skip_space_blank [OF sk 1(3)] skip_splices_reads [of lx0] movesD(1) [OF lex_skip_space_moves [OF sk]]
    by (auto simp: on_def intro: blank_trans reads_blank)
  have run: "lexer_next lx =
     (if lx_position on \<ge> lx_length on then
        (True, finish_token (scratch_begin on) (lx_position on) (lx_line on) (lx_column on) at_bol has_space TOKEN_EOF)
      else if lx_byte on = 13 \<or> lx_byte on = 10 then
        if \<not> lx_keep_newlines (skip_line_end on) then lexer_next (skip_line_end on)
        else (True, finish_token (append_text (scratch_begin (skip_line_end on)) 10) (lx_position on) (lx_line on) (lx_column on)
          True has_space TOKEN_NEWLINE)
      else lex_token on has_space at_bol)"
    unfolding lexer_next.simps [of lx] sk prod.case Let_def on_def ..
  show ?case
  proof (cases "lx_position on \<ge> lx_length on")
    case True
    then have "lx_position on = lx_length lx" using on 1(3) by simp
    moreover have tok: "good" "finish_token (scratch_begin on) (lx_position on) (lx_line on) (lx_column on) at_bol has_space TOKEN_EOF = (Some t, lx')"
      using 1(2) True unfolding run by simp_all
    note F = finish_tokenD [OF tok(2)]
    ultimately show ?thesis using b on F 1(3) tok(1) by (simp add: covers_def gives_up_def Let_def scratch_begin_def)
  next
    case inside: False
    show ?thesis
    proof (cases "lx_byte on = 13 \<or> lx_byte on = 10")
      case True
      note e = skip_line_end_covers [of on, OF _ True]
      show ?thesis
      proof (cases "lx_keep_newlines lx")
        case True
        then have tok: "good" "finish_token (append_text (scratch_begin (skip_line_end on)) 10) (lx_position on) (lx_line on) (lx_column on)
          True has_space TOKEN_NEWLINE = (Some t, lx')"
          using 1(2) inside \<open>lx_byte on = 13 \<or> lx_byte on = 10\<close> e(4) on(3) unfolding run by simp_all
        note F = finish_tokenD [OF tok(2)]
        have src: "lx_source (skip_line_end on) = lx_source lx" "lx_keep_newlines (skip_line_end on) = lx_keep_newlines lx"
          "lx_position on < lx_position (skip_line_end on)" "lx_position (skip_line_end on) \<le> lx_length lx"
          using e inside on by simp_all
        show ?thesis using F b src e(1) inside on(1) True tok(1) by (simp add: covers_def gives_up_def Let_def scratch_begin_def)
      next
        case False
        then have rec: "lexer_next (skip_line_end on) = (good, Some t, lx')"
          using 1(2) inside \<open>lx_byte on = 13 \<or> lx_byte on = 10\<close> e(4) on(3) unfolding run by simp
        have "blank (lx_bytes lx) True (lx_position lx) (lx_position (skip_line_end on))"
          using blank_trans [OF b] e(2) inside on(1) False by simp
        then show ?thesis
          using 1(1) [OF sk [symmetric] refl on_def refl refl refl _ _ refl] False rec e(3-6) inside on
            \<open>lx_byte on = 13 \<or> lx_byte on = 10\<close>
          by (auto intro: blank_trans)
      qed
    next
      case False
      then have tok: "lex_token on has_space at_bol = (good, Some t, lx')" using 1(2) inside unfolding run by simp
      have pos: "lx_position on < lx_length on" using inside by simp
      have plain: "splice_end (lx_bytes on) (lx_position on) = None"
        using splice_end_skip [of lx0] movesD(1) [OF lex_skip_space_moves [OF sk]] on(1) by (simp add: on_def)
      note T = lex_token_text [OF tok pos plain]
      have "reads (lx_bytes lx) (lx_position on) (lx_position lx') (tk_text t)" using T on by simp
      note R = reads_spelled [OF this] reads_bound [OF this]
      have "covers (lx_bytes lx) t" using T R on(1) pos
        by (cases "tk_kind t") (auto simp: covers_def Let_def)
      then show ?thesis using T b on lex_token_good [OF tok pos plain] by auto
    qed
  qed
qed

lemma covers_bounds:
  assumes "covers bytes t"
  shows "unat (tk_end t) \<le> length bytes \<and>
     (if tk_kind t = TOKEN_EOF then unat (tk_start t) = length bytes \<and> unat (tk_end t) = length bytes
      else unat (tk_start t) < unat (tk_end t))"
proof -
  have "0 < n" if "take n xs \<in> {[10 :: byte], [13], [13, 10]}" for n xs
    using that by (cases n) auto
  from this [of "unat (tk_end t) - unat (tk_start t)" "drop (unat (tk_start t)) bytes"] assms show ?thesis
    by (cases "tk_kind t") (auto simp: covers_def Let_def)
qed

lemma lexer_next_progress:
  assumes "lexer_next lx = (good, Some t, lx')" "tk_kind t \<noteq> TOKEN_EOF"
  shows "lx_length lx' - lx_position lx' < lx_length lx - lx_position lx"
proof (cases "lx_position lx \<le> lx_length lx")
  case True
  have N: "blank (lx_bytes lx) (\<not> lx_keep_newlines lx) (lx_position lx) (unat (tk_start t))"
    "unat (tk_end t) = lx_position lx'" "lx_source lx' = lx_source lx" "covers (lx_bytes lx) t"
    using lexer_next_token [OF assms(1) True] by auto
  have "unat (tk_start t) < unat (tk_end t)" "unat (tk_end t) \<le> lx_length lx"
    using covers_bounds [OF N(4)] assms(2) by auto
  then show ?thesis using blank_le [OF N(1)] N(2,3) by simp
next
  case False
  obtain lx0 has_space at_bol where sk: "lex_skip_space lx = (lx0, has_space, at_bol)" by (cases "lex_skip_space lx") auto
  have m: "moves lx (skip_splices lx0)" using lex_skip_space_moves [OF sk] skip_splices_moves [of lx0] by (rule moves_trans)
  have "tk_kind t = TOKEN_EOF"
    using assms(1) False movesD [OF m] unfolding lexer_next.simps [of lx] sk
    by (auto simp: Let_def dest: finish_tokenD(1))
  then show ?thesis using assms(2) by simp
qed

subsection \<open>The whole source\<close>

text \<open>
  The loop of \<open>lex_source_marked\<close>: whether it succeeded, the list, the arena and the diagnostics. There
  is no value when a token was not filled: the C code then pushes and tests a variable it never wrote.
\<close>

function lex_tokens :: "lexer \<Rightarrow> token_list \<Rightarrow> (bool \<times> token_list \<times> arena \<times> diagnostic_sink) option" where
  "lex_tokens lx list =
     (case lexer_next lx of (good, filled, lx') \<Rightarrow>
      (case filled of None \<Rightarrow> None
       | Some t \<Rightarrow>
         (case token_list_push list t of
            None \<Rightarrow> Some (False, list, lx_arena lx', lx_diagnostics lx')
          | Some list' \<Rightarrow>
            if \<not> good \<or> tk_kind t = TOKEN_EOF then Some (True, list', lx_arena lx', lx_diagnostics lx')
            else lex_tokens lx' list')))"
  by pat_completeness auto
termination
proof (relation "measure (\<lambda>(lx, list). lx_length lx - lx_position lx)", goal_cases)
  case (2 lx list good p filled lx' t list')
  then show ?case using lexer_next_progress [of lx good t lx'] by simp
qed simp

declare lex_tokens.simps [simp del]

definition lex_source_marked ::
  "arena \<Rightarrow> source \<Rightarrow> diagnostic_sink \<Rightarrow> bool \<Rightarrow> (bool \<times> token_list \<times> arena \<times> diagnostic_sink) option" where
  "lex_source_marked ar source sink keep_newlines =
     (let list = token_list_init in
      case token_list_reserve (Some list) (length (so_bytes source) div 3 + 64) of
        (False, list') \<Rightarrow> Some (False, list, ar, sink)
      | (True, list') \<Rightarrow>
          lex_tokens ((lexer_create ar source sink)\<lparr>lx_keep_newlines := keep_newlines\<rparr>) (the list'))"

definition lex_source ::
  "arena \<Rightarrow> source \<Rightarrow> diagnostic_sink \<Rightarrow> (bool \<times> token_list \<times> arena \<times> diagnostic_sink) option" where
  "lex_source ar source sink = lex_source_marked ar source sink True"

text \<open>
  A list of tokens that covers a source from a position on, with blanks between them: it goes on to the
  end of the source, or to the first token the lexer gives up at.
\<close>

fun segmented :: "source \<Rightarrow> bool \<Rightarrow> nat \<Rightarrow> token list \<Rightarrow> bool" where
  "segmented src ends p [] = False"
| "segmented src ends p (t # ts) \<longleftrightarrow>
     tk_source t = src \<and> blank (so_bytes src) ends p (unat (tk_start t)) \<and> covers (so_bytes src) t \<and>
     (if tk_kind t = TOKEN_EOF \<or> gives_up (so_bytes src) t then ts = [] else segmented src ends (unat (tk_end t)) ts)"

lemma lex_tokens_segmented:
  "lex_tokens lx list = Some (True, list', ar, sink) \<Longrightarrow> lx_position lx \<le> lx_length lx \<Longrightarrow>
     \<exists>ts. tl_items list' = tl_items list @ ts \<and> segmented (lx_source lx) (\<not> lx_keep_newlines lx) (lx_position lx) ts \<and>
       length ts \<le> lx_length lx - lx_position lx + 1"
proof (induction lx list rule: lex_tokens.induct)
  case (1 lx list)
  obtain good filled lx' where n: "lexer_next lx = (good, filled, lx')" by (cases "lexer_next lx") auto
  obtain t where t: "filled = Some t" using 1(2) n by (cases filled) (simp_all add: lex_tokens.simps [of lx])
  note N = lexer_next_token [OF n [unfolded t] 1(3)]
  have cov: "covers (lx_bytes lx) t" using N by blast
  note B = covers_bounds [OF cov]
  have le: "lx_position lx \<le> unat (tk_start t)" using N blank_le by blast
  obtain list1 where push: "token_list_push list t = Some list1" using 1(2) n t
    by (cases "token_list_push list t") (simp_all add: lex_tokens.simps [of lx])
  have items: "tl_items list1 = tl_items list @ [t]"
    using push by (auto simp: token_list_push_def Let_def split: if_splits)
  show ?case
  proof (cases "\<not> good \<or> tk_kind t = TOKEN_EOF")
    case True
    then have "list' = list1" using 1(2) n t push by (simp add: lex_tokens.simps [of lx])
    then show ?thesis using N items True by (intro exI [of _ "[t]"]) auto
  next
    case False
    then have rec: "lex_tokens lx' list1 = Some (True, list', ar, sink)"
      using 1(2) n t push by (simp add: lex_tokens.simps [of lx])
    obtain ts where ts: "tl_items list' = tl_items list1 @ ts"
      "segmented (lx_source lx') (\<not> lx_keep_newlines lx') (lx_position lx') ts" "length ts \<le> lx_length lx' - lx_position lx' + 1"
      using 1(1) [OF n [symmetric] refl t push False rec] N B by auto
    have "length (t # ts) \<le> lx_length lx - lx_position lx + 1" using ts(3) N B False le by auto
    then show ?thesis using ts(1,2) items N False by (intro exI [of _ "t # ts"]) auto
  qed
qed

text \<open>
  C1. A token list is a partition of its source. When lexing succeeds, the bytes of the source belong,
  in order, to tokens or to blanks between tokens: a blank is white space, splices and comments (and
  line ends, when the caller does not want them as tokens), and the text of every other token than a
  line end is the source it covers with the splices removed. The list ends with the token of the end of
  the source, which stands at its very end, or at the first token the lexer gives up at: a string or
  character literal that is not closed on its line, or a byte no token begins with. Lexing then succeeds
  too, and what stands behind that token is not lexed. There are at most as many tokens as bytes, and
  one more.
\<close>

theorem lexing_partition:
  assumes "lex_source_marked ar src sink keep_newlines = Some (True, list, ar', sink')"
  shows "segmented src (\<not> keep_newlines) 0 (tl_items list) \<and> length (tl_items list) \<le> length (so_bytes src) + 1"
proof -
  let ?lx = "(lexer_create ar src sink)\<lparr>lx_keep_newlines := keep_newlines\<rparr>"
  obtain list0 where "lex_tokens ?lx list0 = Some (True, list, ar', sink')" "tl_items list0 = []"
    using assms by (auto simp: lex_source_marked_def token_list_reserve_def token_list_init_def Let_def split: if_splits)
  from lex_tokens_segmented [OF this(1)] this(2) show ?thesis
    by (auto simp: lexer_create_def)
qed

subsection \<open>Lexing ends with a token list\<close>

definition counted :: "lexer \<Rightarrow> bool" where
  "counted lx \<longleftrightarrow> lx_position lx \<le> lx_length lx \<and> lx_line lx \<le> lx_position lx + 1 \<and> lx_column lx \<le> lx_position lx + 1"

definition room :: "arena \<Rightarrow> nat \<Rightarrow> bool" where
  "room ar rest \<longleftrightarrow> ar_total ar + 17 * rest + 16 \<le> ar_limit ar \<and> ar_limit ar \<le> SIZE_MAX - 48"

lemma moves_counted: "moves lx lx' \<Longrightarrow> counted lx \<Longrightarrow> counted lx'"
  by (auto simp: moves_def counted_def)

lemma arena_alloc_room:
  assumes "0 < n" "ar_total ar + n + 15 \<le> ar_limit ar" "ar_limit ar \<le> SIZE_MAX - 48"
  shows "\<exists>p ar'. arena_alloc ar n = (Some p, ar') \<and> ar_total ar' \<le> ar_total ar + n + 15 \<and> ar_limit ar' = ar_limit ar"
proof -
  define k where "k = (n + 15) div 16 * 16"
  have k: "k \<le> n + 15" by (simp add: k_def)
  then have "\<not> n > SIZE_MAX - 15" "\<not> k > SIZE_MAX - ar_total ar" "\<not> ar_total ar + k > ar_limit ar"
    using assms by (auto simp: SIZE_MAX_def)
  then show ?thesis using assms(1,3) k 
    by (auto simp: arena_alloc_def align_size_def size_add_def k_def [symmetric] Let_def arena_take_def SIZE_MAX_def
        split: list.splits)
qed

lemma finish_token_filled:
  assumes "counted lx" "lx_length lx < UINT32_MAX" "start \<le> lx_position lx" "line \<le> lx_length lx + 1" "column \<le> lx_length lx + 1"
    and "ar_total (lx_arena lx) + length (lx_scratch lx) + 16 \<le> ar_limit (lx_arena lx)" "ar_limit (lx_arena lx) \<le> SIZE_MAX - 48"
  shows "\<exists>t lx'. finish_token lx start line column at_bol has_space kind = (Some t, lx') \<and> counted lx' \<and>
    lx_source lx' = lx_source lx \<and> lx_position lx' = lx_position lx \<and> ar_limit (lx_arena lx') = ar_limit (lx_arena lx) \<and>
    ar_total (lx_arena lx') \<le> ar_total (lx_arena lx) + length (lx_scratch lx) + 16"
proof -
  have "ar_total (lx_arena lx) + (length (lx_scratch lx) + 1) + 15 \<le> ar_limit (lx_arena lx)" using assms(6) by simp
  from arena_alloc_room [OF _ this assms(7)] obtain p ar where
    "arena_alloc (lx_arena lx) (length (lx_scratch lx) + 1) = (Some p, ar)"
    "ar_total ar \<le> ar_total (lx_arena lx) + (length (lx_scratch lx) + 1) + 15" "ar_limit ar = ar_limit (lx_arena lx)"
    by auto
  then show ?thesis using assms(1-5) by (auto simp: finish_token_def counted_def)
qed

lemma skip_line_end_moves: "moves lx (skip_line_end lx)"
  by (auto simp: skip_line_end_def Let_def moves_def advance_byte_def)

lemma lexer_next_filled:
  "counted lx \<Longrightarrow> lx_length lx < UINT32_MAX \<Longrightarrow> room (lx_arena lx) (lx_length lx - lx_position lx) \<Longrightarrow>
     \<exists>good t lx'. lexer_next lx = (good, Some t, lx') \<and> counted lx' \<and> lx_source lx' = lx_source lx \<and>
       (tk_kind t \<noteq> TOKEN_EOF \<longrightarrow> room (lx_arena lx') (lx_length lx' - lx_position lx'))"
proof (induction lx rule: lexer_next.induct)
  case (1 lx)
  obtain lx0 has_space at_bol where sk: "lex_skip_space lx = (lx0, has_space, at_bol)" by (cases "lex_skip_space lx") auto
  define on where "on = skip_splices lx0"
  have m: "moves lx on" using lex_skip_space_moves [OF sk] skip_splices_moves [of lx0] by (auto simp: on_def intro: moves_trans)
  have run: "lexer_next lx =
     (if lx_position on \<ge> lx_length on then
        (True, finish_token (scratch_begin on) (lx_position on) (lx_line on) (lx_column on) at_bol has_space TOKEN_EOF)
      else if lx_byte on = 13 \<or> lx_byte on = 10 then
        if \<not> lx_keep_newlines (skip_line_end on) then lexer_next (skip_line_end on)
        else (True, finish_token (append_text (scratch_begin (skip_line_end on)) 10) (lx_position on) (lx_line on) (lx_column on)
          True has_space TOKEN_NEWLINE)
      else lex_token on has_space at_bol)"
    unfolding lexer_next.simps [of lx] sk prod.case Let_def on_def ..
  have con: "counted on" using moves_counted [OF m 1(2)] .
  have src: "lx_source on = lx_source lx" "lx_arena on = lx_arena lx" "lx_position lx \<le> lx_position on"
    using m by (auto simp: moves_def)
  have lines: "lx_line on \<le> lx_length on + 1" "lx_column on \<le> lx_length on + 1" using con by (auto simp: counted_def)
  have finish: ?case
    if fin: "lexer_next lx = (good, finish_token lx1 (lx_position on) (lx_line on) (lx_column on) b has_space kind)"
      and m1: "moves on lx1" and scr: "length (lx_scratch lx1) + lx_position on \<le> lx_position lx1"
      and step: "kind = TOKEN_EOF \<or> lx_position on < lx_position lx1" for good lx1 b kind
  proof -
    have s1: "lx_source lx1 = lx_source lx" "lx_arena lx1 = lx_arena lx" "lx_position on \<le> lx_position lx1"
      using m1 src by (auto simp: moves_def)
    have c1: "counted lx1" using moves_counted [OF m1 con] .
    have len: "lx_position lx1 \<le> lx_length lx" using c1 s1 by (simp add: counted_def)
    then have fit: "length (lx_scratch lx1) \<le> lx_length lx - lx_position lx" using scr src(3) by simp
    then have "ar_total (lx_arena lx1) + length (lx_scratch lx1) + 16 \<le> ar_limit (lx_arena lx1)"
      "ar_limit (lx_arena lx1) \<le> SIZE_MAX - 48" using 1(4) s1 by (auto simp: room_def)
    from finish_token_filled [OF c1 _ s1(3) _ _ this, of "lx_line on" "lx_column on" b has_space kind] 1(3) s1 src lines
    obtain t lx' where t: "finish_token lx1 (lx_position on) (lx_line on) (lx_column on) b has_space kind = (Some t, lx')"
      "counted lx'" "lx_source lx' = lx_source lx1" "lx_position lx' = lx_position lx1" "ar_limit (lx_arena lx') = ar_limit (lx_arena lx1)"
      "ar_total (lx_arena lx') \<le> ar_total (lx_arena lx1) + length (lx_scratch lx1) + 16" by auto
    have "room (lx_arena lx') (lx_length lx' - lx_position lx')" if "tk_kind t \<noteq> TOKEN_EOF"
    proof -
      have "lx_position on < lx_position lx1" using that step finish_tokenD(1) [OF t(1)] by simp
      then have "length (lx_scratch lx1) + 16 + 17 * (lx_length lx - lx_position lx1) \<le> 17 * (lx_length lx - lx_position lx)"
        using scr len src(3) by (simp add: diff_mult_distrib2)
      then show ?thesis using 1(4) t s1 by (simp add: room_def)
    qed
    then show ?thesis using fin t s1 by auto
  qed
  show ?case
  proof (cases "lx_position on \<ge> lx_length on")
    case True
    then have "lexer_next lx = (True, finish_token (scratch_begin on) (lx_position on) (lx_line on) (lx_column on) at_bol has_space TOKEN_EOF)"
      unfolding run by simp
    then show ?thesis by (rule finish) (simp_all add: scratch_begin_def)
  next
    case inside: False
    then have pos: "lx_position on < lx_length on" by simp
    show ?thesis
    proof (cases "lx_byte on = 13 \<or> lx_byte on = 10")
      case True
      note e = skip_line_end_covers [OF pos True]
      show ?thesis
      proof (cases "lx_keep_newlines (skip_line_end on)")
        case True
        then have "lexer_next lx = (True, finish_token (append_text (scratch_begin (skip_line_end on)) 10) (lx_position on) (lx_line on)
            (lx_column on) True has_space TOKEN_NEWLINE)"
          using inside \<open>lx_byte on = 13 \<or> lx_byte on = 10\<close> unfolding run by simp
        then show ?thesis by (rule finish) (use e(5) skip_line_end_moves [of on] in \<open>simp_all add: scratch_begin_def\<close>)
      next
        case False
        have "counted (skip_line_end on)" "room (lx_arena (skip_line_end on)) (lx_length (skip_line_end on) - lx_position (skip_line_end on))"
          using moves_counted [OF skip_line_end_moves con] 1(4) src movesD [OF skip_line_end_moves [of on]] skip_line_end_moves [of on]
          by (auto simp: room_def moves_def)
        then show ?thesis
          using 1(1) [OF sk [symmetric] refl on_def refl refl refl inside True refl False] False inside True 1(3) e(3) src
          unfolding run by auto
      qed
    next
      case False
      have "splice_end (lx_bytes on) (lx_position on) = None"
        using splice_end_skip [of lx0] movesD(1) [OF lex_skip_space_moves [OF sk]] src(1) by (simp add: on_def)
      from lex_token_shape [OF pos this, of has_space at_bol] obtain good lx1 kind where
        shape: "lex_token on has_space at_bol = (good, finish_token lx1 (lx_position on) (lx_line on) (lx_column on) at_bol has_space kind)"
        "extends_text (scratch_begin on) lx1" "lx_position on < lx_position lx1" by blast
      have "moves on lx1" "length (lx_scratch lx1) + lx_position on \<le> lx_position lx1"
        using shape(2) by (auto simp: extends_text_def scratch_begin_def dest: reads_le)
      then show ?thesis using shape False inside unfolding run by (intro finish [unfolded run]) auto
    qed
  qed
qed

lemma lex_tokens_filled:
  "counted lx \<Longrightarrow> lx_length lx < UINT32_MAX \<Longrightarrow> room (lx_arena lx) (lx_length lx - lx_position lx) \<Longrightarrow>
     tl_capacity list \<le> length (tl_items list) + 8192 \<Longrightarrow>
     length (tl_items list) + (lx_length lx - lx_position lx) \<le> 2 ^ 33 \<Longrightarrow>
     \<exists>list' ar sink. lex_tokens lx list = Some (True, list', ar, sink)"
proof (induction lx list rule: lex_tokens.induct)
  case (1 lx list)
  obtain good t lx' where n: "lexer_next lx = (good, Some t, lx')" "counted lx'" "lx_source lx' = lx_source lx"
    "tk_kind t \<noteq> TOKEN_EOF \<longrightarrow> room (lx_arena lx') (lx_length lx' - lx_position lx')"
    using lexer_next_filled [OF 1(2-4)] by blast
  have "\<exists>list'. token_list_push list t = Some list' \<and> length (tl_items list') = Suc (length (tl_items list)) \<and>
      tl_capacity list' \<le> length (tl_items list') + 8192"
    using 1(5,6) by (auto simp: token_list_push_def Let_def SIZE_MAX_def)
  then obtain list' where push: "token_list_push list t = Some list'" "length (tl_items list') = Suc (length (tl_items list))"
    "tl_capacity list' \<le> length (tl_items list') + 8192" by blast
  show ?case
  proof (cases "\<not> good \<or> tk_kind t = TOKEN_EOF")
    case True
    then show ?thesis using n(1) push(1) by (simp add: lex_tokens.simps [of lx])
  next
    case False
    then have "lx_length lx' - lx_position lx' < lx_length lx - lx_position lx"
      using lexer_next_progress [of lx good t lx'] n(1) by simp
    then show ?thesis
      using 1(1) [OF n(1) [symmetric] refl refl push(1) False n(2)] n False push(2,3) 1(3,6) push(1)
      by (simp add: lex_tokens.simps [of lx])
  qed
qed

lemma lex_source_filled:
  assumes "length (so_bytes src) < UINT32_MAX"
    and "ar_total ar + 17 * length (so_bytes src) + 16 \<le> ar_limit ar" and "ar_limit ar \<le> SIZE_MAX - 48"
  shows "\<exists>list ar' sink'. lex_source_marked ar src sink keep_newlines = Some (True, list, ar', sink')"
proof -
  let ?lx = "(lexer_create ar src sink)\<lparr>lx_keep_newlines := keep_newlines\<rparr>"
  define list where "list = \<lparr>tl_items = [] :: token list, tl_capacity = min 1365 (length (so_bytes src) div 3 + 64)\<rparr>"
  have list: "token_list_reserve (Some token_list_init) (length (so_bytes src) div 3 + 64) = (True, Some list)"
    "tl_items list = []" "tl_capacity list \<le> 8192"
    by (simp_all add: token_list_reserve_def token_list_init_def Let_def SIZE_MAX_def list_def min_def)
  have "counted ?lx" "room (lx_arena ?lx) (lx_length ?lx - lx_position ?lx)"
    using assms(2,3) by (simp_all add: counted_def room_def lexer_create_def)
  from lex_tokens_filled [OF this(1) _ this(2), of list] list(2,3) assms(1)
  obtain list' ar' sink' where "lex_tokens ?lx list = Some (True, list', ar', sink')"
    by (auto simp: lexer_create_def UINT32_MAX_def)
  then show ?thesis using list(1) by (simp add: lex_source_marked_def)
qed

text \<open>
  C13. Lexing ends with a token list, whatever the source holds: a source of fewer than \<open>2 ^ 32 - 1\<close>
  bytes is lexed to a list without using a token that was never filled, provided that the arena can
  grow by 17 bytes for every byte of the source and 16 more.
\<close>

theorem lexing_completes:
  assumes "length (so_bytes src) < UINT32_MAX"
    and "ar_total ar + 17 * length (so_bytes src) + 16 \<le> ar_limit ar" and "ar_limit ar \<le> SIZE_MAX - 48"
  shows "\<exists>list ar' sink'. lex_source_marked ar src sink keep_newlines = Some (True, list, ar', sink')"
  using assms by (rule lex_source_filled)

definition sample_source :: source where
  "sample_source = \<lparr>so_path = [], so_bytes = cstr ''a <<= 1 // x'', so_id = 1\<rparr>"

theorem lexing_completes_witness:
  "\<exists>list ar' sink'. lex_source_marked (arena_create 1000) sample_source \<lparr>ds_items = [], ds_limit = 0\<rparr> True = Some (True, list, ar', sink')"
  by (rule lexing_completes) (simp_all add: sample_source_def cstr_def UINT32_MAX_def SIZE_MAX_def arena_create_def)

theorem lexing_partition_witness:
  "\<exists>list ar' sink'. lex_source_marked (arena_create 1000) sample_source \<lparr>ds_items = [], ds_limit = 0\<rparr> True = Some (True, list, ar', sink') \<and>
     segmented sample_source False 0 (tl_items list)"
proof -
  obtain list ar' sink' where
    run: "lex_source_marked (arena_create 1000) sample_source \<lparr>ds_items = [], ds_limit = 0\<rparr> True = Some (True, list, ar', sink')"
    using lex_source_filled [of sample_source "arena_create 1000" "\<lparr>ds_items = [], ds_limit = 0\<rparr>" True]
    by (auto simp: sample_source_def cstr_def UINT32_MAX_def SIZE_MAX_def arena_create_def)
  show ?thesis using lexing_partition [OF run] run by auto
qed

subsection \<open>The longest punctuator\<close>

text \<open>The bytes at a position with the splices before and between them removed.\<close>

inductive spells :: "byte list \<Rightarrow> nat \<Rightarrow> cstring \<Rightarrow> bool" for bytes where
  "spells bytes p []"
| "logical_position bytes p = q \<Longrightarrow> q < length bytes \<Longrightarrow> spells bytes (Suc q) w \<Longrightarrow> spells bytes p (bytes ! q # w)"

lemma probe_matches_spells: "probe_matches bytes p w \<longleftrightarrow> spells bytes p w"
proof (induction w arbitrary: p)
  case Nil
  then show ?case by (simp add: spells.intros)
next
  case (Cons c w)
  have "spells bytes p (c # w) \<longleftrightarrow> logical_position bytes p < length bytes \<and> bytes ! logical_position bytes p = c \<and>
      spells bytes (Suc (logical_position bytes p)) w"
    by (subst spells.simps) auto
  then show ?case using Cons.IH [of "Suc (logical_position bytes p)"] by (auto simp: Let_def)
qed

text \<open>The table holds the longer punctuators first.\<close>

lemma punctuators_ordered: "sorted_wrt (\<lambda>w v. length v \<le> length w) punctuators"
proof -
  have "sorted_wrt (\<ge>) (map length punctuators)"
    by (simp add: punctuators_def cstr_def)
  then show ?thesis by (simp add: sorted_wrt_map)
qed

text \<open>
  C11. Punctuators are lexed by the longest match: the one the lexer takes from its table is spelled at
  the position, splices removed, and no longer punctuator of C is.
\<close>

theorem longest_punctuator:
  assumes "find_punctuator lx = Some w"
  shows "w \<in> set punctuators \<and> spells (lx_bytes lx) (lx_position lx) w \<and>
    (\<forall>v \<in> set punctuators. spells (lx_bytes lx) (lx_position lx) v \<longrightarrow> length v \<le> length w)"
proof -
  obtain i where i: "i < length punctuators" "punctuators ! i = w" "probe_matches (lx_bytes lx) (lx_position lx) w"
    "\<forall>j < i. \<not> probe_matches (lx_bytes lx) (lx_position lx) (punctuators ! j)"
    using assms by (auto simp: find_punctuator_def find_Some_iff)
  have "length v \<le> length w" if v: "v \<in> set punctuators" "spells (lx_bytes lx) (lx_position lx) v" for v
  proof (rule ccontr)
    assume longer: "\<not> length v \<le> length w"
    obtain j where j: "j < length punctuators" "punctuators ! j = v" using v(1) by (auto simp: in_set_conv_nth)
    have "\<not> i < j" using sorted_wrt_nth_less [OF punctuators_ordered _ j(1), of i] i(2) j(2) longer by auto
    then have "j < i" using i(2) j longer by (cases "i = j") auto
    then show False using i(4) j v(2) by (auto simp: probe_matches_spells)
  qed
  then show ?thesis using i by (auto simp: probe_matches_spells)
qed

theorem longest_punctuator_witness:
  "spells (so_bytes sample_source) 2 (cstr ''<<='') \<and> cstr ''<<='' \<in> set punctuators"
proof -
  let ?lx = "(lexer_create (arena_create 1000) sample_source \<lparr>ds_items = [], ds_limit = 0\<rparr>)\<lparr>lx_position := 2\<rparr>"
  have "find_punctuator ?lx = Some (cstr ''<<='')"
    by (simp add: find_punctuator_def lexer_create_def sample_source_def punctuators_def cstr_def logical_position.simps)
  from longest_punctuator [OF this] show ?thesis by (simp add: lexer_create_def)
qed

end
