(* ===== verification/Pre_Macro.thy ===== *)
theory Pre_Macro
  imports Lex_Source
begin

text \<open>
  Macro expansion of the preprocessor (\<open>src/src/frontend/preprocessor.c\<close>): hide sets, the table of
  macros, arguments, the operators \<open>#\<close> and \<open>##\<close>, and the expansion of a run of tokens. A position in a
  run is the list of the tokens from it on. The arena, the sources and the diagnostics the C struct
  points at are fields; the source manager allocates from the same arena, and \<open>cc64_xmalloc\<close> ends
  the process instead of failing.
\<close>

subsection \<open>State\<close>

record macro =
  ma_name :: cstring
  ma_function_like :: bool
  ma_variadic :: bool
  ma_parameters :: "cstring list"
  ma_body :: "token list"

record pp_options =
  po_include_paths :: "cstring list"
  po_predefines :: "cstring list"
  po_preserve_newlines :: bool

text \<open>The include stack is innermost first; \<open>line_delta\<close> is 64 bits wide.\<close>

record preprocessor =
  pp_arena :: arena
  pp_sources :: source_manager
  pp_diagnostics :: diagnostic_sink
  pp_options :: pp_options
  pp_macros :: "macro list"
  pp_token_count :: nat
  pp_include_stack :: "cstring list"
  pp_line_delta :: u64
  pp_display_path :: "cstring option"
  pp_rejected_definition :: bool

abbreviation (input) CC64_PP_MAX_INCLUDE_DEPTH :: nat where "CC64_PP_MAX_INCLUDE_DEPTH \<equiv> 32"
abbreviation (input) CC64_PP_MAX_MACRO_DEPTH :: nat where "CC64_PP_MAX_MACRO_DEPTH \<equiv> 64"
abbreviation (input) CC64_PP_MAX_TOKENS :: nat where "CC64_PP_MAX_TOKENS \<equiv> 1048576"

definition pp_emit :: "preprocessor \<Rightarrow> u32 \<Rightarrow> token option \<Rightarrow> cstring \<Rightarrow> preprocessor" where
  "pp_emit pp number t message =
     pp\<lparr>pp_diagnostics := diagnostic_emit (pp_diagnostics pp)
       \<lparr>dg_id = number, dg_phase = DIAG_PREPROCESS, dg_source = map_option tk_source t,
        dg_line = (case t of None \<Rightarrow> 0 | Some t \<Rightarrow> unat (tk_line t)),
        dg_column = (case t of None \<Rightarrow> 0 | Some t \<Rightarrow> unat (tk_column t)), dg_message = message\<rparr>\<rparr>"

definition token_is :: "token \<Rightarrow> string \<Rightarrow> bool" where
  "token_is t s \<longleftrightarrow> tk_text t = cstr s"

definition head_is :: "token list \<Rightarrow> string \<Rightarrow> bool" where
  "head_is ts s \<longleftrightarrow> ts \<noteq> [] \<and> token_is (hd ts) s"

subsection \<open>Hide sets\<close>

type_synonym hideset = "cstring list option"

definition hideset_contains :: "hideset \<Rightarrow> cstring \<Rightarrow> bool" where
  "hideset_contains hs name = (case hs of None \<Rightarrow> False | Some names \<Rightarrow> name \<in> set names)"

definition hideset_add :: "hideset \<Rightarrow> cstring \<Rightarrow> hideset" where
  "hideset_add hs name =
     (if hideset_contains hs name then (case hs of None \<Rightarrow> Some [name] | Some names \<Rightarrow> Some names)
      else (case hs of None \<Rightarrow> Some [name] | Some names \<Rightarrow> Some (names @ [name])))"

definition hideset_union :: "hideset \<Rightarrow> hideset \<Rightarrow> hideset" where
  "hideset_union left right =
     (case right of None \<Rightarrow> left | Some names \<Rightarrow> fold (\<lambda>name hs. hideset_add hs name) names left)"

definition token_blocked_by_hide :: "token \<Rightarrow> cstring option \<Rightarrow> bool" where
  "token_blocked_by_hide t name = (case name of None \<Rightarrow> False | Some n \<Rightarrow> tk_kind t = TOKEN_IDENTIFIER \<and> tk_text t = n)"

definition hides :: "token \<Rightarrow> cstring option \<Rightarrow> bool" where
  "hides t name = (case name of None \<Rightarrow> False | Some n \<Rightarrow> hideset_contains (tk_hideset t) n)"

subsection \<open>The table of macros\<close>

fun macro_named :: "macro list \<Rightarrow> cstring \<Rightarrow> macro option" where
  "macro_named [] name = None"
| "macro_named (m # ms) name = (if ma_name m = name then Some m else macro_named ms name)"

definition find_macro :: "preprocessor \<Rightarrow> token \<Rightarrow> macro option" where
  "find_macro pp t = (if tk_kind t = TOKEN_IDENTIFIER then macro_named (pp_macros pp) (tk_text t) else None)"

text \<open>A new definition takes the place of an older one of the name, or goes in front.\<close>

fun replace_macro :: "macro list \<Rightarrow> macro \<Rightarrow> macro list option" where
  "replace_macro [] m = None"
| "replace_macro (old # ms) m =
     (if ma_name old = ma_name m then Some (m # ms) else map_option (Cons old) (replace_macro ms m))"

definition define_macro :: "macro list \<Rightarrow> macro \<Rightarrow> macro list" where
  "define_macro ms m = (case replace_macro ms m of None \<Rightarrow> m # ms | Some ms \<Rightarrow> ms)"

fun undef_macro :: "macro list \<Rightarrow> cstring \<Rightarrow> macro list" where
  "undef_macro [] name = []"
| "undef_macro (m # ms) name = (if ma_name m = name then ms else m # undef_macro ms name)"

subsection \<open>Tokens\<close>

definition output_push :: "preprocessor \<Rightarrow> token_list \<Rightarrow> token \<Rightarrow> bool \<times> preprocessor \<times> token_list" where
  "output_push pp out t =
     (if pp_token_count pp \<ge> CC64_PP_MAX_TOKENS then
        (False, pp_emit pp 1101 (Some t) (cstr ''preprocessor token limit exceeded''), out)
      else case token_list_push out t of
          None \<Rightarrow> (False, pp_emit pp 1101 (Some t) (cstr ''preprocessor token limit exceeded''), out)
        | Some out \<Rightarrow> (True, pp\<lparr>pp_token_count := pp_token_count pp + 1\<rparr>, out))"

definition skip_newlines :: "token list \<Rightarrow> token list" where
  "skip_newlines ts = dropWhile (\<lambda>t. tk_kind t = TOKEN_NEWLINE) ts"

definition make_text_token :: "token \<Rightarrow> token_kind \<Rightarrow> cstring \<Rightarrow> token" where
  "make_text_token like kind s = like\<lparr>tk_kind := kind, tk_text := s, tk_hideset := None\<rparr>"

text \<open>All tokens of a list pushed in order; no value when one cannot be.\<close>

fun push_all :: "token_list \<Rightarrow> token list \<Rightarrow> token_list option" where
  "push_all out [] = Some out"
| "push_all out (t # ts) = (case token_list_push out t of None \<Rightarrow> None | Some out \<Rightarrow> push_all out ts)"

fun parameter_index :: "cstring list \<Rightarrow> cstring \<Rightarrow> nat option" where
  "parameter_index [] name = None"
| "parameter_index (p # ps) name = (if p = name then Some 0 else map_option Suc (parameter_index ps name))"

definition is_parameter :: "macro \<Rightarrow> token \<Rightarrow> nat option" where
  "is_parameter m t = (if tk_kind t = TOKEN_IDENTIFIER then parameter_index (ma_parameters m) (tk_text t) else None)"

subsection \<open>Arguments\<close>

datatype argument_end = Unterminated | Unpushed | Collected token_list nat "token list"

text \<open>
  One argument: the tokens up to a comma outside parentheses, which is stepped over, or up to the
  closing parenthesis, which is not. \<open>last_one\<close> is the test that keeps commas in a variadic macro's
  last argument.
\<close>

fun collect_argument :: "bool \<Rightarrow> nat \<Rightarrow> token_list \<Rightarrow> token list \<Rightarrow> argument_end" where
  "collect_argument last_one depth acc [] = Unterminated"
| "collect_argument last_one depth acc (t # ts) =
     (if token_is t '')'' \<and> depth = 0 then Collected acc depth (t # ts)
      else if tk_kind t = TOKEN_NEWLINE then collect_argument last_one depth acc ts
      else if \<not> token_is t ''('' \<and> \<not> token_is t '')'' \<and> token_is t '','' \<and> depth = 0 \<and> \<not> last_one then Collected acc depth ts
      else
        let depth = (if token_is t ''('' then depth + 1 else if token_is t '')'' \<and> depth \<noteq> 0 then depth - 1 else depth) in
        case token_list_push acc t of None \<Rightarrow> Unpushed | Some acc \<Rightarrow> collect_argument last_one depth acc ts)"

lemma collect_argument_le: "collect_argument v d acc ts = Collected acc' d' ts' \<Longrightarrow> length ts' \<le> length ts"
  by (induction v d acc ts arbitrary: d' rule: collect_argument.induct)
    (fastforce simp: Let_def split: if_splits option.splits)+

lemma collect_argument_less:
  "collect_argument v d acc ts = Collected acc' d' ts' \<Longrightarrow> \<not> (head_is ts '')'' \<and> d = 0) \<Longrightarrow> length ts' < length ts"
  by (cases ts) (auto simp: Let_def head_is_def split: if_splits option.splits dest: collect_argument_le)

lemma skip_newlines_le: "length (skip_newlines ts) \<le> length ts"
  by (simp add: skip_newlines_def length_dropWhile_le)

text \<open>The arguments up to the closing parenthesis, which is stepped over; \<open>first\<close> is the token that errors name.\<close>

function collect_arguments ::
  "macro \<Rightarrow> token \<Rightarrow> nat \<Rightarrow> token_list list \<Rightarrow> nat \<Rightarrow> token list \<Rightarrow> preprocessor \<Rightarrow> (token_list list \<times> token list) option \<times> preprocessor" where
  "collect_arguments m first capacity args depth ts pp =
     (let ts = skip_newlines ts in
      if ts = [] then (None, pp_emit pp 1102 None (cstr ''unterminated macro argument list''))
      else if head_is ts '')'' \<and> depth = 0 then (Some (args, tl ts), pp)
      else if length args = capacity \<and> \<not> (ma_variadic m \<and> ma_parameters m \<noteq> []) then
        (None, pp_emit pp 1103 (Some first) (cstr ''too many macro arguments''))
      else
        let capacity = (if length args = capacity then capacity + 1 else capacity) in
        case collect_argument (ma_variadic m \<and> length args + 1 \<ge> length (ma_parameters m)) depth token_list_init ts of
          Unterminated \<Rightarrow> (None, pp_emit pp 1102 None (cstr ''unterminated macro argument list''))
        | Unpushed \<Rightarrow> (None, pp)
        | Collected arg depth ts \<Rightarrow> collect_arguments m first capacity (args @ [arg]) depth ts pp)"
  by pat_completeness auto
termination
proof (relation "measure (\<lambda>(m, first, capacity, args, depth, ts, pp). length ts)", goal_cases)
  case (2 m first capacity args depth ts pp ts1 c1 arg d1 ts2)
  have "length ts2 < length ts1" using collect_argument_less [of _ depth token_list_init ts1 arg d1 ts2] 2 by blast
  then show ?case using 2(1) skip_newlines_le [of ts] by simp
qed simp

declare collect_arguments.simps [simp del]

definition parse_arguments :: "preprocessor \<Rightarrow> macro \<Rightarrow> token list \<Rightarrow> (token_list list \<times> token list) option \<times> preprocessor" where
  "parse_arguments pp m ts =
     (let open_at = skip_newlines ts in
      if \<not> head_is open_at ''('' then (None, pp)
      else
        let required = length (ma_parameters m) in
        case collect_arguments m (hd ts) (if required = 0 then 1 else required) [] 0 (tl open_at) pp of
          (None, pp) \<Rightarrow> (None, pp)
        | (Some (args, rest), pp) \<Rightarrow>
          if ma_variadic m then
            (if length args + 1 < required then (None, pp_emit pp 1104 None (cstr ''too few macro arguments''))
             else (Some (args, rest), pp))
          else if length args \<noteq> required then
            (None, pp_emit pp 1104 None (if required = 0 then cstr ''macro takes no arguments'' else cstr ''too few macro arguments''))
          else (Some (args, rest), pp))"

text \<open>Argument \<open>k\<close>: the lists past the last argument are empty.\<close>

definition argument :: "token_list list \<Rightarrow> nat \<Rightarrow> token list" where
  "argument args k = (if k < length args then tl_items (args ! k) else [])"

subsection \<open>The operators of a body\<close>

definition escape_byte :: "byte \<Rightarrow> byte list" where
  "escape_byte b = (if b = 34 \<or> b = 92 then [92, b] else [b])"

definition stringize_item :: "bool \<Rightarrow> token \<Rightarrow> cstring" where
  "stringize_item leading t =
     (if \<not> leading \<and> tk_flags t AND TOKEN_FLAG_SPACE \<noteq> 0 then [32] else []) @ concat (map escape_byte (tk_text t))"

definition stringize_arguments :: "token list \<Rightarrow> cstring" where
  "stringize_arguments ts =
     [34] @ (case ts of [] \<Rightarrow> [] | t # ts \<Rightarrow> stringize_item True t @ concat (map (stringize_item False) ts)) @ [34]"

definition byte_at :: "cstring \<Rightarrow> nat \<Rightarrow> byte" where
  "byte_at s k = (if k < length s then s ! k else 0)"

definition pasted_kind :: "cstring \<Rightarrow> token_kind" where
  "pasted_kind s =
     (let first = byte_at s 0; second = byte_at s 1 in
      if first \<ge> 48 \<and> first \<le> 57 then TOKEN_NUMBER
      else if first = 46 \<and> second \<ge> 48 \<and> second \<le> 57 then TOKEN_NUMBER
      else if first = 34 then TOKEN_STRING
      else if first = 39 then TOKEN_CHARACTER
      else if (first \<ge> 97 \<and> first \<le> 122) \<or> (first \<ge> 65 \<and> first \<le> 90) \<or> first = 95 then TOKEN_IDENTIFIER
      else TOKEN_PUNCTUATOR)"

definition append_paste :: "token_list \<Rightarrow> token \<Rightarrow> token_list option" where
  "append_paste list right =
     (case token_list_last list of None \<Rightarrow> token_list_push list right
      | Some left \<Rightarrow>
        let joined = tk_text left @ tk_text right in
        Some (list\<lparr>tl_items := butlast (tl_items list) @
          [left\<lparr>tk_text := joined, tk_end := tk_end right, tk_kind := pasted_kind joined\<rparr>]\<rparr>))"

text \<open>
  The body with the arguments in place, from a token on. The result of pasting to a first argument
  token is not looked at.
\<close>

definition paste_right :: "macro \<Rightarrow> token_list list \<Rightarrow> token_list \<Rightarrow> token \<Rightarrow> token_list option" where
  "paste_right m args acc right =
     (case is_parameter m right of
        Some k \<Rightarrow>
          (case argument args k of [] \<Rightarrow> Some acc
           | t # ts \<Rightarrow> push_all (case append_paste acc t of None \<Rightarrow> acc | Some acc \<Rightarrow> acc) ts)
      | None \<Rightarrow> append_paste acc right)"

function substitute_body :: "macro \<Rightarrow> token_list list \<Rightarrow> token list \<Rightarrow> token_list \<Rightarrow> token_list option" where
  "substitute_body m args [] acc = Some acc"
| "substitute_body m args (t # ts) acc =
     (if token_is t ''#'' \<and> ts \<noteq> [] \<and> is_parameter m (hd ts) \<noteq> None then
        (case token_list_push acc (make_text_token t TOKEN_STRING (stringize_arguments (argument args (the (is_parameter m (hd ts)))))) of
           None \<Rightarrow> None
         | Some acc \<Rightarrow> substitute_body m args (tl ts) acc)
      else
        case (case is_parameter m t of
                Some k \<Rightarrow> push_all acc (argument args k)
              | None \<Rightarrow> if token_is t ''##'' then Some acc else token_list_push acc t) of
          None \<Rightarrow> None
        | Some acc \<Rightarrow>
          if head_is ts ''##'' then
            (case tl ts of [] \<Rightarrow> Some acc
             | right # rest \<Rightarrow>
               (case paste_right m args acc right of None \<Rightarrow> None | Some acc \<Rightarrow> substitute_body m args rest acc))
          else substitute_body m args ts acc)"
  by pat_completeness auto
termination
proof (relation "measure (\<lambda>(m, args, ts, acc). length ts)", goal_cases)
  case (3 m args t ts acc y right rest)
  then have "tl ts = right # rest" by simp
  then show ?case by (cases ts) auto
qed (auto simp: less_Suc_eq_le)

declare substitute_body.simps(2) [simp del]

subsection \<open>Expansion\<close>

text \<open>The context of an expansion; the depth is left to the recursion.\<close>

record expand_context =
  ec_source :: "source option"
  ec_invocation_line :: nat
  ec_has_invocation :: bool
  ec_hideset :: hideset

text \<open>Decimal digits of a number.\<close>

fun decimal_digits :: "nat \<Rightarrow> cstring" where
  "decimal_digits n = (if n < 10 then [of_nat (48 + n)] else decimal_digits (n div 10) @ [of_nat (48 + n mod 10)])"

declare decimal_digits.simps [simp del]

definition predefined_token :: "preprocessor \<Rightarrow> expand_context \<Rightarrow> token \<Rightarrow> token" where
  "predefined_token pp context t =
     (if token_is t ''__FILE__'' then
        let path = (case pp_display_path pp of
                      None \<Rightarrow> (case ec_source context of None \<Rightarrow> cstr ''<unknown>'' | Some s \<Rightarrow> so_path s)
                    | Some p \<Rightarrow> p)
        in make_text_token t TOKEN_STRING ([34] @ path @ [34])
      else if token_is t ''__LINE__'' then
        let source_line = (if ec_has_invocation context then ec_invocation_line context else unat (tk_line t));
            logical_line = sint (of_nat source_line + pp_line_delta pp)
        in make_text_token t TOKEN_NUMBER (decimal_digits (nat logical_line))
      else t)"

definition nested_context :: "expand_context \<Rightarrow> token \<Rightarrow> expand_context" where
  "nested_context context t =
     (let context = (if ec_has_invocation context then context
                     else context\<lparr>ec_invocation_line := unat (tk_line t), ec_has_invocation := True\<rparr>)
      in if tk_kind t = TOKEN_IDENTIFIER then context\<lparr>ec_hideset := hideset_add (ec_hideset context) (tk_text t)\<rparr> else context)"

type_synonym expansion = "preprocessor \<Rightarrow> expand_context \<Rightarrow> cstring option \<Rightarrow> token list \<Rightarrow> token_list \<Rightarrow> bool \<times> preprocessor \<times> token_list"

text \<open>The body of a function-like macro; \<open>nested\<close> expands a run one level down.\<close>

definition expand_function_body ::
  "expansion \<Rightarrow> macro \<Rightarrow> token_list list \<Rightarrow> preprocessor \<Rightarrow> expand_context \<Rightarrow> token_list \<Rightarrow> bool \<times> preprocessor \<times> token_list" where
  "expand_function_body nested m args pp context out =
     (case substitute_body m args (ma_body m) token_list_init of None \<Rightarrow> (False, pp, out)
      | Some substituted \<Rightarrow> nested pp context (Some (ma_name m)) (tl_items substituted) out)"

text \<open>Whether the name of a macro may be expanded here.\<close>

definition expandable :: "expand_context \<Rightarrow> cstring option \<Rightarrow> token \<Rightarrow> macro \<Rightarrow> bool" where
  "expandable context hide_name t m \<longleftrightarrow>
     \<not> hideset_contains (tk_hideset t) (ma_name m) \<and> \<not> hideset_contains (ec_hideset context) (ma_name m) \<and>
     \<not> hides t hide_name \<and> \<not> token_blocked_by_hide t hide_name"

definition hidden_copy :: "token \<Rightarrow> cstring option \<Rightarrow> token" where
  "hidden_copy t hide_name =
     (case hide_name of None \<Rightarrow> t
      | Some n \<Rightarrow> t\<lparr>tk_hideset := hideset_add (hideset_union (tk_hideset t) None) n\<rparr>)"

lemma collect_arguments_le:
  "collect_arguments m first capacity args depth ts pp = (Some (args', rest), pp') \<Longrightarrow> length rest \<le> length ts"
proof (induction m first capacity args depth ts pp rule: collect_arguments.induct)
  case (1 m first capacity args depth ts pp)
  define k where "k = collect_argument (ma_variadic m \<and> length args + 1 \<ge> length (ma_parameters m)) depth token_list_init (skip_newlines ts)"
  have run: "collect_arguments m first capacity args depth ts pp =
     (if skip_newlines ts = [] then (None, pp_emit pp 1102 None (cstr ''unterminated macro argument list''))
      else if head_is (skip_newlines ts) '')'' \<and> depth = 0 then (Some (args, tl (skip_newlines ts)), pp)
      else if length args = capacity \<and> \<not> (ma_variadic m \<and> ma_parameters m \<noteq> []) then
        (None, pp_emit pp 1103 (Some first) (cstr ''too many macro arguments''))
      else case k of
          Unterminated \<Rightarrow> (None, pp_emit pp 1102 None (cstr ''unterminated macro argument list''))
        | Unpushed \<Rightarrow> (None, pp)
        | Collected arg depth ts \<Rightarrow>
            collect_arguments m first (if length args = capacity then capacity + 1 else capacity) (args @ [arg]) depth ts pp)"
    unfolding k_def by (subst collect_arguments.simps) (simp only: Let_def)
  show ?case
  proof (cases k)
    case (Collected arg d1 ts2)
    have le: "length ts2 \<le> length ts" using collect_argument_le [OF Collected [unfolded k_def]] skip_newlines_le [of ts] by simp
    show ?thesis
    proof (cases "skip_newlines ts = [] \<or> (head_is (skip_newlines ts) '')'' \<and> depth = 0) \<or>
        (length args = capacity \<and> \<not> (ma_variadic m \<and> ma_parameters m \<noteq> []))")
      case False
      then have "collect_arguments m first (if length args = capacity then capacity + 1 else capacity) (args @ [arg]) d1 ts2 pp = (Some (args', rest), pp')"
        using "1.prems" run Collected by auto
      moreover have "length rest \<le> length ts2"
        by (rule "1.IH" [OF refl _ _ _ refl Collected [unfolded k_def]]) (use False calculation in auto)
      ultimately show ?thesis using le by simp
    qed (use "1.prems" run skip_newlines_le [of ts] in \<open>auto split: if_splits\<close>)
  qed (use "1.prems" run skip_newlines_le [of ts] in \<open>auto split: if_splits\<close>)
qed

lemma parse_arguments_less:
  "parse_arguments pp m ts = (Some (args, rest), pp') \<Longrightarrow> length rest < length ts"
  using skip_newlines_le [of ts]
  by (cases "skip_newlines ts")
    (auto simp: parse_arguments_def Let_def head_is_def split: if_splits option.splits prod.splits dest!: collect_arguments_le)

function expand_tokens :: "expansion \<Rightarrow> expansion" where
  "expand_tokens nested pp context hide_name [] out = (True, pp, out)"
| "expand_tokens nested pp context hide_name (t # ts) out =
     (if tk_kind t = TOKEN_NEWLINE then
        (if po_preserve_newlines (pp_options pp) then
           (case token_list_push out t of None \<Rightarrow> (False, pp, out)
            | Some out \<Rightarrow> expand_tokens nested pp context hide_name ts out)
         else expand_tokens nested pp context hide_name ts out)
      else if token_is t ''__FILE__'' \<or> token_is t ''__LINE__'' then
        (case output_push pp out (if hides t hide_name then t else predefined_token pp context t) of
           (False, pp, out) \<Rightarrow> (False, pp, out)
         | (True, pp, out) \<Rightarrow> expand_tokens nested pp context hide_name ts out)
      else case (case find_macro pp t of None \<Rightarrow> None
                 | Some m \<Rightarrow> if expandable context hide_name t m \<and> (ma_function_like m \<longrightarrow> head_is (skip_newlines ts) ''('')
                             then Some m else None) of
          None \<Rightarrow>
            (case output_push pp out (hidden_copy t hide_name) of
               (False, pp, out) \<Rightarrow> (False, pp, out)
             | (True, pp, out) \<Rightarrow> expand_tokens nested pp context hide_name ts out)
        | Some m \<Rightarrow>
          if \<not> ma_function_like m then
            (case nested pp (nested_context context t) (Some (ma_name m)) (ma_body m) out of
               (False, pp, out) \<Rightarrow> (False, pp, out)
             | (True, pp, out) \<Rightarrow> expand_tokens nested pp context hide_name ts out)
          else
            (case parse_arguments pp m ts of
               (None, pp) \<Rightarrow> (False, pp, out)
             | (Some (args, rest), pp) \<Rightarrow>
               (case expand_function_body nested m args pp (nested_context context t) out of
                  (False, pp, out) \<Rightarrow> (False, pp, out)
                | (True, pp, out) \<Rightarrow> expand_tokens nested pp context hide_name rest out)))"
  by pat_completeness auto
termination
  by (relation "measure (\<lambda>(nested, pp, context, hide_name, ts, out). length ts)") (auto dest!: parse_arguments_less [OF sym] simp: less_SucI)

declare expand_tokens.simps(2) [simp del]

text \<open>A run at a depth that leaves \<open>levels\<close> more levels below the limit.\<close>

primrec expand_range :: "nat \<Rightarrow> expansion" where
  "expand_range 0 pp context hide_name ts out =
     (False, pp_emit pp 1105 (if ts = [] then None else Some (hd ts)) (cstr ''macro expansion depth exceeded''), out)"
| "expand_range (Suc levels) pp context hide_name ts out = expand_tokens (expand_range levels) pp context hide_name ts out"

text \<open>
  One token of a source, or one invocation: whether it went well, the tokens after it, the state
  and the output. A kept newline is not stepped over; the loop over a source handles newlines
  itself.
\<close>

definition expand_macro_at ::
  "preprocessor \<Rightarrow> expand_context \<Rightarrow> token \<Rightarrow> token list \<Rightarrow> token_list \<Rightarrow> bool \<times> token list \<times> preprocessor \<times> token_list" where
  "expand_macro_at pp context t ts out =
     (if tk_kind t = TOKEN_NEWLINE then
        (if po_preserve_newlines (pp_options pp) then
           (case token_list_push out t of None \<Rightarrow> (False, t # ts, pp, out) | Some out \<Rightarrow> (True, t # ts, pp, out))
         else (True, ts, pp, out))
      else if token_is t ''__FILE__'' \<or> token_is t ''__LINE__'' then
        (case output_push pp out (predefined_token pp context t) of (good, pp, out) \<Rightarrow> (good, ts, pp, out))
      else case find_macro pp t of
          None \<Rightarrow> (case output_push pp out t of (good, pp, out) \<Rightarrow> (good, ts, pp, out))
        | Some m \<Rightarrow>
          if hideset_contains (tk_hideset t) (ma_name m) then
            (case output_push pp out t of (good, pp, out) \<Rightarrow> (good, ts, pp, out))
          else if \<not> ma_function_like m then
            (case expand_range (CC64_PP_MAX_MACRO_DEPTH - 1) pp (nested_context context t) (Some (ma_name m)) (ma_body m) out of
               (good, pp, out) \<Rightarrow> (good, ts, pp, out))
          else if \<not> head_is (skip_newlines ts) ''('' then
            (case output_push pp out t of (good, pp, out) \<Rightarrow> (good, ts, pp, out))
          else
            (case parse_arguments pp m ts of
               (None, pp) \<Rightarrow> (False, t # ts, pp, out)
             | (Some (args, rest), pp) \<Rightarrow>
               (case expand_function_body (expand_range (CC64_PP_MAX_MACRO_DEPTH - 1)) m args pp (nested_context context t) out of
                  (good, pp, out) \<Rightarrow> (good, if good then rest else t # ts, pp, out))))"

end
