(* ===== verification/Pre_Expr.thy ===== *)
theory Pre_Expr
  imports Pre_Macro "HOL-Library.Signed_Division"
begin

text \<open>
  Conditional expressions of the preprocessor (\<open>src/src/frontend/preprocessor.c\<close>): integer and character
  constants, the operators on 64-bit values, the parser by precedence, the operator \<open>defined\<close> and the
  evaluation of a directive's expression. The position of the parser is the list of the tokens left.
\<close>

subsection \<open>Constants\<close>

record expr_value =
  ev_bits :: u64
  ev_unsigned :: bool

definition expr_make :: "u64 \<Rightarrow> bool \<Rightarrow> expr_value" where
  "expr_make bits uns = \<lparr>ev_bits = bits, ev_unsigned = uns\<rparr>"

definition digit_value :: "byte \<Rightarrow> nat option" where
  "digit_value b =
     (if b \<ge> 48 \<and> b \<le> 57 then Some (unat b - 48) else if b \<ge> 97 \<and> b \<le> 122 then Some (unat b - 87)
      else if b \<ge> 65 \<and> b \<le> 90 then Some (unat b - 55) else None)"

definition is_digit_in :: "nat \<Rightarrow> byte \<Rightarrow> bool" where
  "is_digit_in base b \<longleftrightarrow> (case digit_value b of None \<Rightarrow> False | Some d \<Rightarrow> d < base)"

definition digits_value :: "nat \<Rightarrow> cstring \<Rightarrow> nat" where
  "digits_value base ds = foldl (\<lambda>n b. n * base + the (digit_value b)) 0 ds"

text \<open>
  The standard library's \<open>strtoull\<close> on a text without leading space or sign, which a preprocessing
  number never has: the value, the text left and whether the value was out of range. A prefix \<open>0x\<close>
  counts only before a hexadecimal digit.
\<close>

definition strtoull :: "nat \<Rightarrow> cstring \<Rightarrow> u64 \<times> cstring \<times> bool" where
  "strtoull base s =
     (let prefixed = (base = 16 \<and> length s > 2 \<and> s ! 0 = 48 \<and> (s ! 1 = 120 \<or> s ! 1 = 88) \<and> is_digit_in 16 (s ! 2));
          start = (if prefixed then drop 2 s else s);
          ds = takeWhile (is_digit_in base) start;
          v = digits_value base ds
      in if v \<ge> 2 ^ 64 then (- 1, dropWhile (is_digit_in base) start, True)
         else (of_nat v, dropWhile (is_digit_in base) start, False))"

text \<open>The letters after a constant: whether one makes it unsigned, and nothing if another byte is there.\<close>

fun integer_suffix :: "cstring \<Rightarrow> bool \<Rightarrow> bool \<times> bool" where
  "integer_suffix [] uns = (uns, True)"
| "integer_suffix (b # bs) uns =
     (if b = 117 \<or> b = 85 then integer_suffix bs True
      else if b \<noteq> 108 \<and> b \<noteq> 76 then (uns, False) else integer_suffix bs uns)"

text \<open>Value, unsignedness and validity.\<close>

definition parse_integer_token :: "token \<Rightarrow> u64 \<times> bool \<times> bool" where
  "parse_integer_token t =
     (let s = tk_text t;
          base = (if byte_at s 0 = 48 \<and> (byte_at s 1 = 120 \<or> byte_at s 1 = 88) then 16
                  else if byte_at s 0 = 48 \<and> byte_at s 1 \<noteq> 0 then 8 else 10)
      in case strtoull base s of (v, rest, over) \<Rightarrow>
         case integer_suffix rest False of
           (uns, False) \<Rightarrow> (0, uns, False)
         | (uns, True) \<Rightarrow> (v, uns, \<not> over \<and> s \<noteq> []))"

definition is_xdigit :: "byte \<Rightarrow> bool" where
  "is_xdigit b \<longleftrightarrow> (b \<ge> 48 \<and> b \<le> 57) \<or> (b \<ge> 97 \<and> b \<le> 102) \<or> (b \<ge> 65 \<and> b \<le> 70)"

definition is_octal :: "byte \<Rightarrow> bool" where
  "is_octal b \<longleftrightarrow> b \<ge> 48 \<and> b \<le> 55"

text \<open>One character of a constant: its value and the text after it.\<close>

definition decode_character :: "cstring \<Rightarrow> (u64 \<times> cstring) option" where
  "decode_character s =
     (case s of [] \<Rightarrow> Some (0, [])
      | b # rest \<Rightarrow>
        if b \<noteq> 92 then Some (ucast b, rest)
        else case rest of [] \<Rightarrow> None
        | e # p \<Rightarrow>
          if e = 97 then Some (7, p) else if e = 98 then Some (8, p) else if e = 102 then Some (12, p)
          else if e = 110 then Some (10, p) else if e = 114 then Some (13, p) else if e = 116 then Some (9, p)
          else if e = 118 then Some (11, p)
          else if e = 120 then
            (let ds = takeWhile is_xdigit p in
             if ds = [] \<or> length ds > 2 then None else Some (of_nat (digits_value 16 ds), dropWhile is_xdigit p))
          else if is_octal e then
            (let ds = take 2 (takeWhile is_octal p) in
             Some (of_nat (digits_value 8 (e # ds)), drop (length ds) p))
          else Some (ucast e, p))"

subsection \<open>Operators\<close>

definition truth :: "bool \<Rightarrow> u64" where
  "truth b = (if b then 1 else 0)"

text \<open>
  A binary operator: whether it is valid, and its value. Signed sums, differences, products, quotients
  and shifts that do not fit are undefined in C; here they wrap around.
\<close>

definition expr_binary :: "cstring \<Rightarrow> expr_value \<Rightarrow> expr_value \<Rightarrow> bool \<times> expr_value" where
  "expr_binary op left right =
     (let uns = (ev_unsigned left \<or> ev_unsigned right); a = ev_bits left; b = ev_bits right;
          shift = unat (b AND 63); is = (\<lambda>s. op = cstr s) in
      if \<not> uns \<and> is ''+'' then (True, expr_make (a + b) False)
      else if \<not> uns \<and> is ''-'' then (True, expr_make (a - b) False)
      else if \<not> uns \<and> is ''*'' then (True, expr_make (a * b) False)
      else if \<not> uns \<and> is ''/'' then
        (if b = 0 then (False, expr_make 0 False) else (True, expr_make (word_of_int (sint a sdiv sint b)) False))
      else if \<not> uns \<and> is ''%'' then
        (if b = 0 then (False, expr_make 0 False) else (True, expr_make (word_of_int (sint a smod sint b)) False))
      else if \<not> uns \<and> is ''<'' then (True, expr_make (truth (sint a < sint b)) False)
      else if \<not> uns \<and> is ''>'' then (True, expr_make (truth (sint a > sint b)) False)
      else if \<not> uns \<and> is ''<='' then (True, expr_make (truth (sint a \<le> sint b)) False)
      else if \<not> uns \<and> is ''>='' then (True, expr_make (truth (sint a \<ge> sint b)) False)
      else if \<not> uns \<and> is ''<<'' then (True, expr_make (push_bit shift a) False)
      else if \<not> uns \<and> is ''>>'' then (True, expr_make (signed_drop_bit shift a) False)
      else if uns \<and> is ''+'' then (True, expr_make (a + b) True)
      else if uns \<and> is ''-'' then (True, expr_make (a - b) True)
      else if uns \<and> is ''*'' then (True, expr_make (a * b) True)
      else if uns \<and> is ''/'' then
        (if b = 0 then (False, expr_make 0 True) else (True, expr_make (a div b) True))
      else if uns \<and> is ''%'' then
        (if b = 0 then (False, expr_make 0 True) else (True, expr_make (a mod b) True))
      else if uns \<and> is ''<'' then (True, expr_make (truth (a < b)) False)
      else if uns \<and> is ''>'' then (True, expr_make (truth (a > b)) False)
      else if uns \<and> is ''<='' then (True, expr_make (truth (a \<le> b)) False)
      else if uns \<and> is ''>='' then (True, expr_make (truth (a \<ge> b)) False)
      else if is ''=='' then (True, expr_make (truth (a = b)) False)
      else if is ''!='' then (True, expr_make (truth (a \<noteq> b)) False)
      else if is ''&'' then (True, expr_make (a AND b) uns)
      else if is ''|'' then (True, expr_make (a OR b) uns)
      else if is ''^'' then (True, expr_make (a XOR b) uns)
      else if is ''<<'' then (True, expr_make (push_bit shift a) uns)
      else if is ''>>'' then (True, expr_make (drop_bit shift a) uns)
      else if is ''&&'' then (True, expr_make (truth (a \<noteq> 0 \<and> b \<noteq> 0)) False)
      else if is ''||'' then (True, expr_make (truth (a \<noteq> 0 \<or> b \<noteq> 0)) False)
      else (False, expr_make 0 False))"

definition binary_precedence :: "token \<Rightarrow> nat" where
  "binary_precedence t =
     (if token_is t ''||'' then 1 else if token_is t ''&&'' then 2 else if token_is t ''|'' then 3
      else if token_is t ''^'' then 4 else if token_is t ''&'' then 5
      else if token_is t ''=='' \<or> token_is t ''!='' then 6
      else if token_is t ''<'' \<or> token_is t ''>'' \<or> token_is t ''<='' \<or> token_is t ''>='' then 7
      else if token_is t ''<<'' \<or> token_is t ''>>'' then 8
      else if token_is t ''+'' \<or> token_is t ''-'' then 9
      else if token_is t ''*'' \<or> token_is t ''/'' \<or> token_is t ''%'' then 10 else 0)"

subsection \<open>The parser\<close>

text \<open>
  What a parsing function gives: whether it returned true, the value, the tokens left and the failure
  flag. After a false return the value may be one the code never wrote; it is not used then.
\<close>

type_synonym parsed = "bool \<times> expr_value \<times> token list \<times> bool"

abbreviation (input) none_value :: expr_value where
  "none_value \<equiv> expr_make 0 False"

text \<open>A character constant: the text from the first quote on.\<close>

definition character_value :: "token \<Rightarrow> u64 option" where
  "character_value t =
     (let after = dropWhile (\<lambda>b. b \<noteq> 39) (tk_text t);
          cursor = (case after of [] \<Rightarrow> [] | b # bs \<Rightarrow> bs)
      in if cursor = [] \<or> hd cursor = 39 then None else map_option fst (decode_character cursor))"

text \<open>An operand that is one token.\<close>

definition parse_constant :: "token \<Rightarrow> expr_value \<times> bool" where
  "parse_constant t =
     (case tk_kind t of
        TOKEN_NUMBER \<Rightarrow> (case parse_integer_token t of (v, uns, valid) \<Rightarrow> (expr_make v uns, \<not> valid))
      | TOKEN_CHARACTER \<Rightarrow> (case character_value t of None \<Rightarrow> (none_value, True) | Some v \<Rightarrow> (expr_make v False, False))
      | TOKEN_IDENTIFIER \<Rightarrow> (none_value, False)
      | TOKEN_KEYWORD \<Rightarrow> (none_value, False)
      | _ \<Rightarrow> (none_value, True))"

text \<open>The recursion is bounded by \<open>fuel\<close>; no value means that it did not end.\<close>

fun expr_parse_unary :: "nat \<Rightarrow> token list \<Rightarrow> bool \<Rightarrow> parsed option"
  and expr_parse_binary :: "nat \<Rightarrow> nat \<Rightarrow> token list \<Rightarrow> bool \<Rightarrow> parsed option"
  and binary_loop :: "nat \<Rightarrow> nat \<Rightarrow> expr_value \<Rightarrow> token list \<Rightarrow> bool \<Rightarrow> parsed option" where
  "expr_parse_unary 0 ts failed = None"
| "expr_parse_unary (Suc fuel) ts failed =
     (case ts of [] \<Rightarrow> Some (True, none_value, [], True)
      | t # ts \<Rightarrow>
        if token_is t ''!'' then
          (case expr_parse_unary fuel ts failed of None \<Rightarrow> None
           | Some (good, v, ts, failed) \<Rightarrow>
               Some (if good then (True, expr_make (truth (ev_bits v = 0)) False, ts, failed) else (False, v, ts, failed)))
        else if token_is t ''~'' then
          (case expr_parse_unary fuel ts failed of None \<Rightarrow> None
           | Some (good, v, ts, failed) \<Rightarrow>
               Some (if good then (True, v\<lparr>ev_bits := NOT (ev_bits v)\<rparr>, ts, failed) else (False, v, ts, failed)))
        else if token_is t ''+'' then expr_parse_unary fuel ts failed
        else if token_is t ''-'' then
          (case expr_parse_unary fuel ts failed of None \<Rightarrow> None
           | Some (good, v, ts, failed) \<Rightarrow>
               Some (if good then (True, v\<lparr>ev_bits := - ev_bits v\<rparr>, ts, failed) else (False, v, ts, failed)))
        else if token_is t ''('' then
          (case expr_parse_binary fuel 0 ts failed of None \<Rightarrow> None
           | Some (good, v, ts, failed) \<Rightarrow>
               Some (if \<not> good then (False, v, ts, failed)
                     else if \<not> head_is ts '')'' then (False, v, ts, True)
                     else (\<not> failed, v, tl ts, failed)))
        else case parse_constant t of (v, bad) \<Rightarrow> Some (True, v, ts, failed \<or> bad))"
| "expr_parse_binary 0 minimum ts failed = None"
| "expr_parse_binary (Suc fuel) minimum ts failed =
     (case expr_parse_unary fuel ts failed of None \<Rightarrow> None
      | Some (good, left, ts, failed) \<Rightarrow>
          if \<not> good then Some (False, left, ts, failed) else binary_loop fuel minimum left ts failed)"
| "binary_loop 0 minimum left ts failed = None"
| "binary_loop (Suc fuel) minimum left ts failed =
     (if failed \<or> ts = [] then Some (True, left, ts, failed)
      else
        let precedence = binary_precedence (hd ts) in
        if precedence = 0 \<or> precedence < minimum then Some (True, left, ts, failed)
        else case expr_parse_binary fuel (precedence + 1) (tl ts) failed of None \<Rightarrow> None
          | Some (good, right, ts', failed) \<Rightarrow>
              if \<not> good then Some (False, left, ts', failed)
              else case expr_binary (tk_text (hd ts)) left right of
                  (False, computed) \<Rightarrow> Some (False, computed, ts', True)
                | (True, computed) \<Rightarrow> binary_loop fuel minimum computed ts' failed)"

fun expr_parse_conditional :: "nat \<Rightarrow> token list \<Rightarrow> bool \<Rightarrow> parsed option" where
  "expr_parse_conditional 0 ts failed = None"
| "expr_parse_conditional (Suc fuel) ts failed =
     (case expr_parse_binary fuel 0 ts failed of None \<Rightarrow> None
      | Some (good, condition, ts, failed) \<Rightarrow>
        if \<not> good then Some (False, condition, ts, failed)
        else if \<not> head_is ts ''?'' then Some (True, condition, ts, failed)
        else case expr_parse_conditional fuel (tl ts) failed of None \<Rightarrow> None
          | Some (good, yes, ts, failed) \<Rightarrow>
            if \<not> good then Some (False, yes, ts, failed)
            else if \<not> head_is ts '':'' then Some (False, yes, ts, True)
            else case expr_parse_conditional fuel (tl ts) failed of None \<Rightarrow> None
              | Some (good, no, ts, failed) \<Rightarrow>
                  Some (if \<not> good then (False, no, ts, failed)
                        else (True, if ev_bits condition \<noteq> 0 then yes else no, ts, failed)))"

subsection \<open>Evaluating a directive\<close>

text \<open>The tokens with each use of \<open>defined\<close> replaced by a number.\<close>

function replace_defined :: "preprocessor \<Rightarrow> token \<Rightarrow> token list \<Rightarrow> token_list \<Rightarrow> token_list option \<times> preprocessor" where
  "replace_defined pp directive [] out = (Some out, pp)"
| "replace_defined pp directive (t # ts) out =
     (if \<not> token_is t ''defined'' then
        (case token_list_push out t of None \<Rightarrow> (None, pp) | Some out \<Rightarrow> replace_defined pp directive ts out)
      else
        let parentheses = head_is ts ''(''; after = (if parentheses then tl ts else ts) in
        if after = [] \<or> tk_kind (hd after) \<noteq> TOKEN_IDENTIFIER then
          (None, pp_emit pp 1132 (Some directive) (cstr ''operator 'defined' requires an identifier''))
        else
          let found = (find_macro pp (hd after) \<noteq> None \<or> token_is (hd after) ''__FILE__'' \<or> token_is (hd after) ''__LINE__'') in
          if parentheses \<and> \<not> head_is (tl after) '')'' then
            (None, pp_emit pp 1132 (Some directive) (cstr ''expected ')' after 'defined'' @ [39]))
          else
            case token_list_push out (make_text_token t TOKEN_NUMBER (if found then cstr ''1'' else cstr ''0'')) of
              None \<Rightarrow> (None, pp)
            | Some out \<Rightarrow> replace_defined pp directive (if parentheses then tl (tl after) else tl after) out)"
  by pat_completeness auto
termination
  by (relation "measure (\<lambda>(pp, directive, ts, out). length ts)") (auto simp: less_Suc_eq_le split: if_splits)

declare replace_defined.simps(2) [simp del]

text \<open>Enough fuel for the tokens, by \<open>conditional_ends\<close> below.\<close>

definition expression_fuel :: "token list \<Rightarrow> nat" where
  "expression_fuel ts = 3 * length ts + 3"

definition evaluate_expression :: "preprocessor \<Rightarrow> token list \<Rightarrow> token \<Rightarrow> (bool \<times> preprocessor) option" where
  "evaluate_expression pp body directive =
     (case replace_defined pp directive body token_list_init of
        (None, pp) \<Rightarrow> Some (False, pp)
      | (Some replaced, pp) \<Rightarrow>
        (case expand_range CC64_PP_MAX_MACRO_DEPTH pp
               \<lparr>ec_source = Some (tk_source directive), ec_invocation_line = 0, ec_has_invocation = False, ec_hideset = None\<rparr>
               None (tl_items replaced) token_list_init of
           (False, pp, expanded) \<Rightarrow> Some (False, pp)
         | (True, pp, expanded) \<Rightarrow>
           if tl_items expanded = [] then Some (False, pp_emit pp 1133 (Some directive) (cstr ''empty conditional expression''))
           else case expr_parse_conditional (expression_fuel (tl_items expanded)) (tl_items expanded) False of
               None \<Rightarrow> None
             | Some (parsed, v, rest, failed) \<Rightarrow>
                 if \<not> parsed \<or> failed \<or> rest \<noteq> [] then
                   Some (False, pp_emit pp 1134 (Some directive) (cstr ''invalid conditional expression''))
                 else Some (ev_bits v \<noteq> 0, pp)))"

end
