(* ===== verification/Name_Table.thy ===== *)
theory Name_Table
  imports Main
begin

text \<open>
  The contract of a table that is searched by name: scopes (\<open>src/src/semantic/semantic.c\<close>) and macro
  tables (\<open>src/src/frontend/preprocessor.c\<close>) promise it, and what a sequence of declarations leaves in
  a table follows from it once.
\<close>

locale name_map =
  fixes ok :: "'t \<Rightarrow> bool"
    and lookup :: "'t \<Rightarrow> 'n \<Rightarrow> 'v option"
    and insert :: "'t \<Rightarrow> 'e \<Rightarrow> 't"
    and entry :: "'e \<Rightarrow> bool"
    and key :: "'e \<Rightarrow> 'n"
    and val :: "'e \<Rightarrow> 'v"
  assumes ok_insert: "ok t \<Longrightarrow> entry e \<Longrightarrow> ok (insert t e)"
    and lookup_insert: "ok t \<Longrightarrow> entry e \<Longrightarrow> lookup (insert t e) = (lookup t)(key e \<mapsto> val e)"
begin

lemma ok_inserts: "ok t \<Longrightarrow> \<forall>e \<in> set es. entry e \<Longrightarrow> ok (foldl insert t es)"
  by (induction es arbitrary: t) (auto simp: ok_insert)

text \<open>The last declaration of a name counts, and other names keep what they had.\<close>

lemma lookup_inserts:
  "ok t \<Longrightarrow> \<forall>e \<in> set es. entry e \<Longrightarrow>
     lookup (foldl insert t es) n = (case find (\<lambda>e. key e = n) (rev es) of None \<Rightarrow> lookup t n | Some e \<Rightarrow> Some (val e))"
proof (induction es rule: rev_induct)
  case (snoc e es)
  then show ?case using ok_inserts [of t es] by (auto simp: lookup_insert)
qed simp

end

datatype ('e, 'n) table_op = Insert 'e | Remove 'n

locale name_table = name_map ok lookup insert entry key val
  for ok :: "'t \<Rightarrow> bool" and lookup :: "'t \<Rightarrow> 'n \<Rightarrow> 'v option" and insert :: "'t \<Rightarrow> 'e \<Rightarrow> 't"
    and entry :: "'e \<Rightarrow> bool" and key :: "'e \<Rightarrow> 'n" and val :: "'e \<Rightarrow> 'v" +
  fixes remove :: "'t \<Rightarrow> 'n \<Rightarrow> 't"
  assumes ok_remove: "ok t \<Longrightarrow> ok (remove t n)"
    and lookup_remove: "ok t \<Longrightarrow> lookup (remove t n) = (lookup t)(n := None)"
begin

definition apply_op :: "'t \<Rightarrow> ('e, 'n) table_op \<Rightarrow> 't" where
  "apply_op t x = (case x of Insert e \<Rightarrow> insert t e | Remove n \<Rightarrow> remove t n)"

definition map_op :: "('n \<Rightarrow> 'v option) \<Rightarrow> ('e, 'n) table_op \<Rightarrow> 'n \<Rightarrow> 'v option" where
  "map_op M x = (case x of Insert e \<Rightarrow> M(key e \<mapsto> val e) | Remove n \<Rightarrow> M(n := None))"

definition op_ok :: "('e, 'n) table_op \<Rightarrow> bool" where
  "op_ok x = (case x of Insert e \<Rightarrow> entry e | Remove n \<Rightarrow> True)"

lemma lookup_ops:
  "ok t \<Longrightarrow> \<forall>x \<in> set xs. op_ok x \<Longrightarrow> ok (foldl apply_op t xs) \<and> lookup (foldl apply_op t xs) = foldl map_op (lookup t) xs"
proof (induction xs rule: rev_induct)
  case (snoc x xs)
  then show ?case
    by (cases x) (auto simp: apply_op_def map_op_def op_ok_def ok_insert ok_remove lookup_insert lookup_remove)
qed simp

end

end
