(* ===== verification/Pre_Macro_Ok.thy ===== *)
theory Pre_Macro_Ok
  imports Pre_Macro Name_Table
begin

text \<open>
  Macro expansion of \<open>src/src/frontend/preprocessor.c\<close>: it never reaches its depth limit when there are
  fewer macros than levels, arguments are read back from how they are written, and stringizing gives
  a literal that reads as the argument's spelling.
\<close>

subsection \<open>The table of macros during an expansion\<close>

lemma pp_emit_macros [simp]: "pp_macros (pp_emit pp n t msg) = pp_macros pp" "pp_options (pp_emit pp n t msg) = pp_options pp"
  "pp_include_stack (pp_emit pp n t msg) = pp_include_stack pp"
  by (simp_all add: pp_emit_def)

lemma output_push_macros: "output_push pp out t = (b, pp', out') \<Longrightarrow> pp_macros pp' = pp_macros pp \<and> pp_options pp' = pp_options pp \<and> pp_include_stack pp' = pp_include_stack pp"
  by (auto simp: output_push_def split: if_splits option.splits)

lemma collect_arguments_macros: "collect_arguments m first capacity args depth ts pp = (r, pp') \<Longrightarrow> pp_macros pp' = pp_macros pp \<and> pp_options pp' = pp_options pp \<and> pp_include_stack pp' = pp_include_stack pp"
proof (induction m first capacity args depth ts pp rule: collect_arguments.induct)
  case (1 m first capacity args depth ts pp)
  show ?case using "1.prems" "1.IH" [OF refl _ _ _ refl]
    by (subst (asm) collect_arguments.simps) (auto simp: Let_def split: if_splits argument_end.splits)
qed

lemma parse_arguments_macros: "parse_arguments pp m ts = (r, pp') \<Longrightarrow> pp_macros pp' = pp_macros pp \<and> pp_options pp' = pp_options pp \<and> pp_include_stack pp' = pp_include_stack pp"
  by (auto simp: parse_arguments_def Let_def split: if_splits option.splits prod.splits dest: collect_arguments_macros)

definition keeps_macros :: "expansion \<Rightarrow> bool" where
  "keeps_macros nested \<longleftrightarrow> (\<forall>pp c h ts out b pp' out'. nested pp c h ts out = (b, pp', out') \<longrightarrow> pp_macros pp' = pp_macros pp \<and> pp_options pp' = pp_options pp \<and> pp_include_stack pp' = pp_include_stack pp)"

lemma keeps_macrosD: "keeps_macros nested \<Longrightarrow> nested pp c h ts out = (b, pp', out') \<Longrightarrow> pp_macros pp' = pp_macros pp \<and> pp_options pp' = pp_options pp \<and> pp_include_stack pp' = pp_include_stack pp"
  unfolding keeps_macros_def by blast

lemma function_body_macros:
  "keeps_macros nested \<Longrightarrow> expand_function_body nested m args pp c out = (b, pp', out') \<Longrightarrow> pp_macros pp' = pp_macros pp \<and> pp_options pp' = pp_options pp \<and> pp_include_stack pp' = pp_include_stack pp"
  by (auto simp: expand_function_body_def split: option.splits dest: keeps_macrosD)

text \<open>The macro a token invokes.\<close>

definition invoked :: "preprocessor \<Rightarrow> expand_context \<Rightarrow> cstring option \<Rightarrow> token \<Rightarrow> token list \<Rightarrow> macro option" where
  "invoked pp context hide_name t ts =
     (case find_macro pp t of None \<Rightarrow> None
      | Some m \<Rightarrow> if expandable context hide_name t m \<and> (ma_function_like m \<longrightarrow> head_is (skip_newlines ts) ''('') then Some m else None)"

lemma macro_named_Some: "macro_named ms name = Some m \<Longrightarrow> m \<in> set ms \<and> ma_name m = name"
  by (induction ms) (auto split: if_splits)

lemma invoked_Some:
  "invoked pp context hide_name t ts = Some m \<Longrightarrow> m \<in> set (pp_macros pp) \<and> tk_kind t = TOKEN_IDENTIFIER \<and> tk_text t = ma_name m \<and>
     \<not> hideset_contains (ec_hideset context) (ma_name m)"
  by (auto simp: invoked_def find_macro_def expandable_def split: option.splits if_splits dest: macro_named_Some)

text \<open>
  One step of the walk over a run, with \<open>k\<close> for what follows: the cases of the loop body of
  \<open>expand_range\<close>.
\<close>

definition continue_with :: "bool \<times> preprocessor \<times> token_list \<Rightarrow> (preprocessor \<Rightarrow> token_list \<Rightarrow> bool \<times> preprocessor \<times> token_list) \<Rightarrow> bool \<times> preprocessor \<times> token_list" where
  "continue_with r k = (case r of (b, pp, out) \<Rightarrow> if b then k pp out else (False, pp, out))"

lemma expand_tokens_step:
  "expand_tokens nested pp context hide_name (t # ts) out =
     (let k = (\<lambda>ts pp out. expand_tokens nested pp context hide_name ts out) in
      if tk_kind t = TOKEN_NEWLINE then
        (if po_preserve_newlines (pp_options pp) then (case token_list_push out t of None \<Rightarrow> (False, pp, out) | Some out \<Rightarrow> k ts pp out)
         else k ts pp out)
      else if token_is t ''__FILE__'' \<or> token_is t ''__LINE__'' then
        continue_with (output_push pp out (if hides t hide_name then t else predefined_token pp context t)) (k ts)
      else case invoked pp context hide_name t ts of
          None \<Rightarrow> continue_with (output_push pp out (hidden_copy t hide_name)) (k ts)
        | Some m \<Rightarrow>
          if \<not> ma_function_like m then
            continue_with (nested pp (nested_context context t) (Some (ma_name m)) (ma_body m) out) (k ts)
          else
            (case parse_arguments pp m ts of
               (None, pp) \<Rightarrow> (False, pp, out)
             | (Some (args, rest), pp) \<Rightarrow>
                 continue_with (expand_function_body nested m args pp (nested_context context t) out) (k rest)))"
  unfolding expand_tokens.simps(2) invoked_def [symmetric] continue_with_def Let_def
  by (intro if_cong refl option.case_cong prod.case_cong) (simp_all split: prod.split bool.split)

lemma continue_with_eq: "continue_with r k = (b, pp, out) \<longleftrightarrow> (case r of (b1, pp1, out1) \<Rightarrow> if b1 then k pp1 out1 = (b, pp, out) else (False, pp1, out1) = (b, pp, out))"
  by (simp add: continue_with_def split: prod.split)

lemma expand_tokens_macros:
  assumes "keeps_macros nested"
  shows "keeps_macros (expand_tokens nested)"
proof -
  have "pp_macros pp' = pp_macros pp \<and> pp_options pp' = pp_options pp \<and> pp_include_stack pp' = pp_include_stack pp" if "expand_tokens nested pp c h ts out = (b, pp', out')" for pp c h ts out b pp' out'
    using that
  proof (induction "length ts" arbitrary: ts pp out rule: less_induct)
    case less
    show ?case
    proof (cases ts)
      case (Cons t us)
      have ih: "pp_macros pp' = pp_macros pp1 \<and> pp_options pp' = pp_options pp1 \<and> pp_include_stack pp' = pp_include_stack pp1"
        if "expand_tokens nested pp1 c h vs out1 = (b, pp', out')" "length vs \<le> length us" for pp1 vs out1
        using less.hyps [of vs pp1 out1] that Cons by simp
      have step: "pp_macros pp' = pp_macros pp \<and> pp_options pp' = pp_options pp \<and> pp_include_stack pp' = pp_include_stack pp"
        if "continue_with r (\<lambda>pp out. expand_tokens nested pp c h vs out) = (b, pp', out')" "length vs \<le> length us"
          "\<And>b1 pp1 out1. r = (b1, pp1, out1) \<Longrightarrow> pp_macros pp1 = pp_macros pp \<and> pp_options pp1 = pp_options pp \<and> pp_include_stack pp1 = pp_include_stack pp" for r vs
        using that ih [of _ vs] by (cases r) (auto simp: continue_with_def split: if_splits)
      note run = less.prems [unfolded Cons expand_tokens_step Let_def]
      consider (newline) "tk_kind t = TOKEN_NEWLINE" | (pre) "tk_kind t \<noteq> TOKEN_NEWLINE" "token_is t ''__FILE__'' \<or> token_is t ''__LINE__''"
        | (plain) "tk_kind t \<noteq> TOKEN_NEWLINE" "\<not> (token_is t ''__FILE__'' \<or> token_is t ''__LINE__'')" "invoked pp c h t us = None"
        | (macro) m where "tk_kind t \<noteq> TOKEN_NEWLINE" "\<not> (token_is t ''__FILE__'' \<or> token_is t ''__LINE__'')" "invoked pp c h t us = Some m"
        by (cases "invoked pp c h t us") auto
      then show ?thesis
      proof cases
        case newline
        then show ?thesis using run ih [of _ us] by (auto split: if_splits option.splits)
      next
        case pre
        then show ?thesis using run step [of _ us] output_push_macros by auto
      next
        case plain
        then show ?thesis using run step [of _ us] output_push_macros by auto
      next
        case macro
        show ?thesis
        proof (cases "ma_function_like m")
          case False
          then show ?thesis using run macro step [of _ us] keeps_macrosD [OF assms] by auto
        next
          case True
          obtain r pp1 where P: "parse_arguments pp m us = (r, pp1)" by (cases "parse_arguments pp m us")
          note same = parse_arguments_macros [OF P]
          show ?thesis
          proof (cases r)
            case None
            then show ?thesis using run macro True P same by auto
          next
            case (Some ar)
            obtain args rest where ar: "ar = (args, rest)" by (cases ar)
            have "length rest \<le> length us" using parse_arguments_less [OF P [unfolded Some ar]] by simp
            then show ?thesis using run macro True P Some ar step [of _ rest] function_body_macros [OF assms] same by auto
          qed
        qed
      qed
    qed (use less.prems in simp)
  qed
  then show ?thesis unfolding keeps_macros_def by blast
qed

lemma expand_range_macros: "keeps_macros (expand_range levels)"
proof (induction levels)
  case 0
  then show ?case by (auto simp: keeps_macros_def)
next
  case (Suc levels)
  have "expand_range (Suc levels) = expand_tokens (expand_range levels)" by (intro ext) simp
  then show ?case using expand_tokens_macros [OF Suc] by simp
qed

subsection \<open>The depth limit\<close>

definition hidden :: "hideset \<Rightarrow> cstring set" where
  "hidden hs = (case hs of None \<Rightarrow> {} | Some names \<Rightarrow> set names)"

lemma hideset_contains_hidden: "hideset_contains hs n \<longleftrightarrow> n \<in> hidden hs"
  by (simp add: hideset_contains_def hidden_def split: option.split)

lemma hidden_add: "hidden (hideset_add hs n) = insert n (hidden hs)"
  by (auto simp: hideset_add_def hideset_contains_def hidden_def split: option.split)

lemma hidden_nested: "tk_kind t = TOKEN_IDENTIFIER \<Longrightarrow> hidden (ec_hideset (nested_context c t)) = insert (tk_text t) (hidden (ec_hideset c))"
  by (simp add: nested_context_def hidden_add Let_def)

definition macro_names :: "macro list \<Rightarrow> cstring set" where
  "macro_names ms = ma_name ` set ms"

text \<open>Two ways to expand nested runs that agree wherever an expansion in a context can call them.\<close>

definition agree :: "macro list \<Rightarrow> expand_context \<Rightarrow> expansion \<Rightarrow> expansion \<Rightarrow> bool" where
  "agree M c n1 n2 \<longleftrightarrow> (\<forall>pp t h ts out. pp_macros pp = M \<longrightarrow> tk_kind t = TOKEN_IDENTIFIER \<longrightarrow>
     tk_text t \<in> macro_names M - hidden (ec_hideset c) \<longrightarrow> n1 pp (nested_context c t) h ts out = n2 pp (nested_context c t) h ts out)"

lemma agreeD: "agree M c n1 n2 \<Longrightarrow> pp_macros pp = M \<Longrightarrow> invoked pp c h t us = Some m \<Longrightarrow>
    n1 pp1 (nested_context c t) h1 ts out = n2 pp1 (nested_context c t) h1 ts out" if "pp_macros pp1 = M"
  using invoked_Some [of pp c h t us m] that unfolding agree_def macro_names_def hideset_contains_hidden by fastforce

lemma continue_cong:
  "(\<And>b1 pp1 out1. r = (b1, pp1, out1) \<Longrightarrow> b1 \<Longrightarrow> k1 pp1 out1 = k2 pp1 out1) \<Longrightarrow> continue_with r k1 = continue_with r k2"
  by (cases r) (simp add: continue_with_def)

lemma expand_tokens_agree:
  assumes "agree M c n1 n2" "keeps_macros n1"
  shows "pp_macros pp = M \<Longrightarrow> expand_tokens n1 pp c h ts out = expand_tokens n2 pp c h ts out"
proof (induction "length ts" arbitrary: ts pp out rule: less_induct)
  case less
  show ?case
  proof (cases ts)
    case (Cons t us)
    have ih: "expand_tokens n1 pp1 c h vs out1 = expand_tokens n2 pp1 c h vs out1" if "pp_macros pp1 = M" "length vs \<le> length us" for pp1 vs out1
      using less.hyps [of vs pp1 out1] that Cons by simp
    have step: "continue_with r (\<lambda>pp out. expand_tokens n1 pp c h vs out) = continue_with r (\<lambda>pp out. expand_tokens n2 pp c h vs out)"
      if "length vs \<le> length us" "\<And>b1 pp1 out1. r = (b1, pp1, out1) \<Longrightarrow> pp_macros pp1 = M" for r vs
      by (rule continue_cong) (use that ih in blast)
    consider (newline) "tk_kind t = TOKEN_NEWLINE" | (pre) "tk_kind t \<noteq> TOKEN_NEWLINE" "token_is t ''__FILE__'' \<or> token_is t ''__LINE__''"
      | (plain) "tk_kind t \<noteq> TOKEN_NEWLINE" "\<not> (token_is t ''__FILE__'' \<or> token_is t ''__LINE__'')" "invoked pp c h t us = None"
      | (macro) m where "tk_kind t \<noteq> TOKEN_NEWLINE" "\<not> (token_is t ''__FILE__'' \<or> token_is t ''__LINE__'')" "invoked pp c h t us = Some m"
      by (cases "invoked pp c h t us") auto
    then show ?thesis
    proof cases
      case newline
      then show ?thesis using ih [of _ us] less.prems by (auto simp: Cons expand_tokens_step split: option.split)
    next
      case pre
      have "continue_with (output_push pp out (if hides t h then t else predefined_token pp c t)) (\<lambda>pp out. expand_tokens n1 pp c h us out) =
          continue_with (output_push pp out (if hides t h then t else predefined_token pp c t)) (\<lambda>pp out. expand_tokens n2 pp c h us out)"
        by (rule step [OF order_refl]) (use output_push_macros less.prems in blast)
      then show ?thesis using pre by (simp add: Cons expand_tokens_step)
    next
      case plain
      have "continue_with (output_push pp out (hidden_copy t h)) (\<lambda>pp out. expand_tokens n1 pp c h us out) =
          continue_with (output_push pp out (hidden_copy t h)) (\<lambda>pp out. expand_tokens n2 pp c h us out)"
        by (rule step [OF order_refl]) (use output_push_macros less.prems in blast)
      then show ?thesis using plain by (simp add: Cons expand_tokens_step)
    next
      case macro
      note same = agreeD [OF _ assms(1) less.prems macro(3)]
      show ?thesis
      proof (cases "ma_function_like m")
        case False
        have "continue_with (n1 pp (nested_context c t) (Some (ma_name m)) (ma_body m) out) (\<lambda>pp out. expand_tokens n1 pp c h us out) =
            continue_with (n1 pp (nested_context c t) (Some (ma_name m)) (ma_body m) out) (\<lambda>pp out. expand_tokens n2 pp c h us out)"
          by (rule step [OF order_refl]) (use keeps_macrosD [OF assms(2)] less.prems in blast)
        then show ?thesis using macro False same [OF less.prems] by (simp add: Cons expand_tokens_step)
      next
        case True
        obtain r pp1 where P: "parse_arguments pp m us = (r, pp1)" by (cases "parse_arguments pp m us")
        have M1: "pp_macros pp1 = M" using parse_arguments_macros [OF P] less.prems by simp
        show ?thesis
        proof (cases r)
          case None
          then show ?thesis using macro True P by (simp add: Cons expand_tokens_step)
        next
          case (Some ar)
          obtain args rest where ar: "ar = (args, rest)" by (cases ar)
          have le: "length rest \<le> length us" using parse_arguments_less [OF P [unfolded Some ar]] by simp
          have body: "expand_function_body n2 m args pp1 (nested_context c t) out = expand_function_body n1 m args pp1 (nested_context c t) out"
            using same [OF M1] by (simp add: expand_function_body_def split: option.split)
          have "continue_with (expand_function_body n1 m args pp1 (nested_context c t) out) (\<lambda>pp out. expand_tokens n1 pp c h rest out) =
              continue_with (expand_function_body n1 m args pp1 (nested_context c t) out) (\<lambda>pp out. expand_tokens n2 pp c h rest out)"
            by (rule step [OF le]) (use function_body_macros [OF assms(2)] M1 in blast)
          then show ?thesis using macro True P Some ar body by (simp add: Cons expand_tokens_step)
        qed
      qed
    qed
  qed simp
qed

lemma expand_range_levels:
  "card (macro_names (pp_macros pp) - hidden (ec_hideset c)) < levels \<Longrightarrow>
     expand_range (levels + extra) pp c h ts out = expand_range levels pp c h ts out"
proof (induction levels arbitrary: pp c h ts out)
  case (Suc levels)
  have fin: "finite (macro_names (pp_macros pp))" by (simp add: macro_names_def)
  have "agree (pp_macros pp) c (expand_range (levels + extra)) (expand_range levels)"
    unfolding agree_def
  proof (intro allI impI)
    fix pp1 :: preprocessor and t :: token and h1 ts1 out1
    assume M: "pp_macros pp1 = pp_macros pp" and t: "tk_kind t = TOKEN_IDENTIFIER"
      and n: "tk_text t \<in> macro_names (pp_macros pp) - hidden (ec_hideset c)"
    have "macro_names (pp_macros pp) - hidden (ec_hideset (nested_context c t)) \<subset> macro_names (pp_macros pp) - hidden (ec_hideset c)"
      using n unfolding hidden_nested [OF t] by blast
    then have "card (macro_names (pp_macros pp) - hidden (ec_hideset (nested_context c t))) < card (macro_names (pp_macros pp) - hidden (ec_hideset c))"
      using fin by (intro psubset_card_mono) auto
    then show "expand_range (levels + extra) pp1 (nested_context c t) h1 ts1 out1 = expand_range levels pp1 (nested_context c t) h1 ts1 out1"
      using Suc.prems M by (intro Suc.IH) simp
  qed
  from expand_tokens_agree [OF this expand_range_macros refl] show ?case by simp
qed simp

text \<open>
  C30. Expansion stops by itself. As long as fewer macros are defined than there are levels below the
  depth limit, the limit has no effect: any number of further levels gives the same tokens, the same
  diagnostics and the same state, since an expansion never enters a macro it is already inside.
\<close>

theorem expansion_bounded:
  assumes "card (macro_names (pp_macros pp)) < CC64_PP_MAX_MACRO_DEPTH"
  shows "expand_range (CC64_PP_MAX_MACRO_DEPTH + extra) pp context hide_name ts out =
    expand_range CC64_PP_MAX_MACRO_DEPTH pp context hide_name ts out"
proof (rule expand_range_levels)
  have "card (macro_names (pp_macros pp) - hidden (ec_hideset context)) \<le> card (macro_names (pp_macros pp))"
    by (intro card_mono) (auto simp: macro_names_def)
  then show "card (macro_names (pp_macros pp) - hidden (ec_hideset context)) < CC64_PP_MAX_MACRO_DEPTH" using assms by simp
qed

subsection \<open>Arguments\<close>

text \<open>A list that can take \<open>n\<close> more tokens.\<close>

definition room_for :: "nat \<Rightarrow> token_list \<Rightarrow> bool" where
  "room_for n list \<longleftrightarrow> tl_capacity list + 4096 * n \<le> 2 ^ 57"

lemma push_room:
  assumes "room_for (Suc n) list"
  shows "\<exists>list'. token_list_push list t = Some list' \<and> tl_items list' = tl_items list @ [t] \<and> room_for n list'"
proof -
  have "2 ^ 58 \<le> SIZE_MAX div 48" by (simp add: SIZE_MAX_def)
  then show ?thesis using assms by (auto simp: token_list_push_def room_for_def Let_def)
qed

text \<open>The depth of parentheses after tokens, and tokens that are one argument of a macro.\<close>

definition depth_after :: "nat \<Rightarrow> token \<Rightarrow> nat" where
  "depth_after d t = (if token_is t ''('' then d + 1 else if token_is t '')'' then d - 1 else d)"

fun argument_tokens :: "bool \<Rightarrow> nat \<Rightarrow> token list \<Rightarrow> bool" where
  "argument_tokens last_one d [] \<longleftrightarrow> d = 0"
| "argument_tokens last_one d (t # ts) \<longleftrightarrow>
     tk_kind t \<noteq> TOKEN_NEWLINE \<and> \<not> (token_is t '')'' \<and> d = 0) \<and> \<not> (token_is t '','' \<and> d = 0 \<and> \<not> last_one) \<and>
     argument_tokens last_one (depth_after d t) ts"

lemma cstr_single: "token_is t ''('' \<Longrightarrow> \<not> token_is t '')''" "token_is t ''('' \<Longrightarrow> \<not> token_is t '',''" "token_is t '')'' \<Longrightarrow> \<not> token_is t '',''"
  by (simp_all add: token_is_def cstr_def)

lemma collect_written:
  "argument_tokens v d ts \<Longrightarrow> room_for (length ts) acc \<Longrightarrow> \<exists>acc'. tl_items acc' = tl_items acc @ ts \<and>
     (\<forall>close rest. token_is close '')'' \<longrightarrow> collect_argument v d acc (ts @ close # rest) = Collected acc' 0 (close # rest)) \<and>
     (\<forall>comma rest. token_is comma '','' \<longrightarrow> tk_kind comma \<noteq> TOKEN_NEWLINE \<longrightarrow> \<not> v \<longrightarrow> collect_argument v d acc (ts @ comma # rest) = Collected acc' 0 rest)"
proof (induction ts arbitrary: d acc)
  case Nil
  then show ?case using cstr_single by (intro exI [of _ acc]) auto
next
  case (Cons t ts)
  obtain acc1 where push: "token_list_push acc t = Some acc1" "tl_items acc1 = tl_items acc @ [t]" "room_for (length ts) acc1"
    using push_room [of "length ts" acc t] Cons.prems(2) by auto
  have step: "collect_argument v d acc (t # us) = collect_argument v (depth_after d t) acc1 us" for us
    using Cons.prems(1) push(1) cstr_single [of t] by (auto simp: depth_after_def Let_def)
  from Cons.IH [of "depth_after d t" acc1] Cons.prems(1) push(2,3) show ?case unfolding append_Cons step by simp
qed

text \<open>Arguments as they are written between the parentheses, with a comma between them.\<close>

fun written :: "token \<Rightarrow> token list list \<Rightarrow> token list" where
  "written comma [] = []"
| "written comma [a] = a"
| "written comma (a # b # as) = a @ comma # written comma (b # as)"

text \<open>
  Argument lists that can be read: each is one argument, of at most \<open>2 ^ 40\<close> tokens. The arguments the
  code keeps: all of them but an empty one at the end.
\<close>

definition readable :: "macro \<Rightarrow> nat \<Rightarrow> token list list \<Rightarrow> bool" where
  "readable m k as \<longleftrightarrow> k + length as \<le> length (ma_parameters m) \<and>
     (\<forall>j < length as. argument_tokens (ma_variadic m \<and> k + j + 1 \<ge> length (ma_parameters m)) 0 (as ! j) \<and> length (as ! j) \<le> 2 ^ 40)"

fun kept :: "token list list \<Rightarrow> token list list" where
  "kept [] = []"
| "kept [a] = (if a = [] then [] else [a])"
| "kept (a # b # as) = a # kept (b # as)"

lemma kept_eq: "kept as = (if as \<noteq> [] \<and> last as = [] then butlast as else as)"
  by (induction as rule: kept.induct) auto

lemma argument_first:
  assumes "argument_tokens v 0 a" "a \<noteq> []"
  shows "skip_newlines (a @ us) = a @ us" "\<not> head_is (a @ us) '')''"
  using assms by (cases a; simp add: skip_newlines_def head_is_def)+

lemma written_start:
  assumes "token_is comma '',''" "tk_kind comma \<noteq> TOKEN_NEWLINE" "argument_tokens v 0 a" "a # as = [a] \<longrightarrow> a \<noteq> []"
  shows "skip_newlines (written comma (a # as) @ us) = written comma (a # as) @ us \<and> \<not> head_is (written comma (a # as) @ us) '')'' \<and>
    written comma (a # as) \<noteq> []"
  using assms argument_first [OF assms(3)] cstr_single [of comma]
  by (cases a; cases as) (auto simp: skip_newlines_def head_is_def)

lemma collect_arguments_written:
  assumes "token_is comma '',''" "tk_kind comma \<noteq> TOKEN_NEWLINE" "token_is close '')''" "tk_kind close \<noteq> TOKEN_NEWLINE"
  shows "readable m (length args) as \<Longrightarrow> capacity = max 1 (length (ma_parameters m)) \<Longrightarrow>
     \<exists>args'. collect_arguments m first capacity args 0 (written comma as @ close # rest) pp = (Some (args @ args', rest), pp) \<and>
       map tl_items args' = kept as"
proof (induction as arbitrary: args)
  case Nil
  then show ?case using assms by (subst collect_arguments.simps) (simp add: skip_newlines_def head_is_def)
next
  case (Cons a as)
  show ?case
  proof (cases "a # as = [[]]")
    case True
    then show ?thesis using assms by (subst collect_arguments.simps) (simp add: skip_newlines_def head_is_def)
  next
    case False
    let ?v = "ma_variadic m \<and> length args + 1 \<ge> length (ma_parameters m)"
    have a: "argument_tokens ?v 0 a" "length a \<le> 2 ^ 40" using Cons.prems(1) by (auto simp: readable_def)
    have one: "a # as = [a] \<longrightarrow> a \<noteq> []" using False by auto
    note start = written_start [OF assms(1,2) a(1) one, of "close # rest"]
    have cap: "length args < capacity" using Cons.prems by (auto simp: readable_def)
    have room: "room_for (length a) token_list_init" using a(2) by (simp add: room_for_def token_list_init_def)
    obtain arg where arg: "tl_items arg = a"
      "\<And>c r. token_is c '')'' \<Longrightarrow> collect_argument ?v 0 token_list_init (a @ c # r) = Collected arg 0 (c # r)"
      "\<And>c r. token_is c '','' \<Longrightarrow> tk_kind c \<noteq> TOKEN_NEWLINE \<Longrightarrow> \<not> ?v \<Longrightarrow> collect_argument ?v 0 token_list_init (a @ c # r) = Collected arg 0 r"
      using collect_written [OF a(1) room] by (auto simp: token_list_init_def)
    have rest_ok: "readable m (length (args @ [arg])) as"
      unfolding readable_def
    proof (intro conjI impI allI)
      show "length (args @ [arg]) + length as \<le> length (ma_parameters m)" using Cons.prems(1) by (simp add: readable_def)
      fix j assume "j < length as"
      then have "Suc j < length (a # as)" by simp
      then show "argument_tokens (ma_variadic m \<and> length (args @ [arg]) + j + 1 \<ge> length (ma_parameters m)) 0 (as ! j)" "length (as ! j) \<le> 2 ^ 40"
        using Cons.prems(1) unfolding readable_def by (metis (no_types, lifting) add.assoc add.commute length_append_singleton nth_Cons_Suc plus_1_eq_Suc)+
    qed
    have next_ts: "collect_argument ?v 0 token_list_init (written comma (a # as) @ close # rest) =
        Collected arg 0 (written comma as @ close # rest)"
    proof (cases as)
      case Nil
      then show ?thesis using arg(2) [OF assms(3)] by simp
    next
      case (Cons b bs)
      then have "\<not> ?v" using \<open>readable m (length args) (a # as)\<close> by (auto simp: readable_def)
      from arg(3) [OF assms(1,2) this] Cons show ?thesis by simp
    qed
    have "collect_arguments m first capacity args 0 (written comma (a # as) @ close # rest) pp =
        collect_arguments m first capacity (args @ [arg]) 0 (written comma as @ close # rest) pp"
      using start cap next_ts by (subst collect_arguments.simps) (auto simp: Let_def)
    moreover have "kept (a # as) = a # kept as" using one by (cases as) auto
    ultimately show ?thesis using Cons.IH [OF rest_ok Cons.prems(2)] arg(1) by (auto intro: exI [of _ "arg # _"])
  qed
qed

text \<open>
  C31. Arguments are read as they are written: for a macro with as many parameters as there are
  arguments, the tokens between the parentheses are split at the commas outside inner parentheses,
  the last argument of a variadic macro keeps its commas, and reading stops after the closing
  parenthesis, with nothing reported. That holds when the last argument is not empty. An empty last
  argument is dropped: a variadic macro then gets one argument less, and for any other macro the
  invocation is reported as having too few arguments, although C counts the empty argument.
\<close>

theorem arguments_read_back:
  assumes "readable m 0 as" "length as = length (ma_parameters m)"
    and "token_is open_at ''(''" "token_is comma '',''" "token_is close '')''"
    and "tk_kind open_at \<noteq> TOKEN_NEWLINE" "tk_kind comma \<noteq> TOKEN_NEWLINE" "tk_kind close \<noteq> TOKEN_NEWLINE"
  shows "\<exists>args. parse_arguments pp m (open_at # written comma as @ close # rest) =
      (if as \<noteq> [] \<and> last as = [] \<and> \<not> ma_variadic m then (None, pp_emit pp 1104 None (cstr ''too few macro arguments''))
       else (Some (args, rest), pp)) \<and>
    map tl_items args = (if as \<noteq> [] \<and> last as = [] then butlast as else as)"
proof -
  obtain args where args: "collect_arguments m open_at (max 1 (length (ma_parameters m))) [] 0 (written comma as @ close # rest) pp = (Some (args, rest), pp)"
    "map tl_items args = kept as"
    using collect_arguments_written [OF assms(4,7,5,8), of m "[]" as "max 1 (length (ma_parameters m))" open_at rest pp] assms(1) by auto
  have cap: "(if length (ma_parameters m) = 0 then 1 else length (ma_parameters m)) = max 1 (length (ma_parameters m))" by (cases "ma_parameters m") auto
  have "length args = (if as \<noteq> [] \<and> last as = [] then length (ma_parameters m) - 1 else length (ma_parameters m))"
    using args(2) assms(2) kept_eq [of as] by (metis length_map length_butlast)
  moreover have "as \<noteq> [] \<longrightarrow> 0 < length (ma_parameters m)" using assms(2) by (cases as) auto
  ultimately show ?thesis using args(1) args(2) [unfolded kept_eq] assms(3,6) cap
    by (intro exI [of _ args]) (auto simp: parse_arguments_def skip_newlines_def head_is_def Let_def)
qed

subsection \<open>Stringizing\<close>

text \<open>What a literal reads as, between its quotes: a backslash stands for the byte after it.\<close>

fun literal_value :: "cstring \<Rightarrow> cstring" where
  "literal_value [] = []"
| "literal_value [b] = [b]"
| "literal_value (b # c # bs) = (if b = 92 then c # literal_value bs else b # literal_value (c # bs))"

fun closes_early :: "cstring \<Rightarrow> bool" where
  "closes_early [] = False"
| "closes_early [b] = (b = 34 \<or> b = 92)"
| "closes_early (b # c # bs) = (if b = 92 then closes_early bs else b = 34 \<or> closes_early (c # bs))"

lemma literal_plain: "b \<noteq> 34 \<Longrightarrow> b \<noteq> 92 \<Longrightarrow> literal_value (b # cs) = b # literal_value cs \<and> closes_early (b # cs) = closes_early cs"
  by (cases cs) simp_all

lemma literal_escaped:
  "literal_value (concat (map escape_byte bs) @ cs) = bs @ literal_value cs \<and>
     closes_early (concat (map escape_byte bs) @ cs) = closes_early cs"
proof (induction bs)
  case (Cons b bs)
  show ?case
  proof (cases "b = 34 \<or> b = 92")
    case True
    then show ?thesis using Cons by (auto simp: escape_byte_def)
  next
    case False
    then show ?thesis using Cons literal_plain [of b] by (simp add: escape_byte_def)
  qed
qed simp

text \<open>The spelling of an argument: its tokens, with one space where a token was preceded by white space.\<close>

fun argument_spelling :: "token list \<Rightarrow> cstring" where
  "argument_spelling [] = []"
| "argument_spelling (t # ts) =
     tk_text t @ concat (map (\<lambda>u. (if tk_flags u AND TOKEN_FLAG_SPACE \<noteq> 0 then [32] else []) @ tk_text u) ts)"

lemma literal_items:
  "literal_value (concat (map (stringize_item False) ts) @ cs) =
     concat (map (\<lambda>u. (if tk_flags u AND TOKEN_FLAG_SPACE \<noteq> 0 then [32] else []) @ tk_text u) ts) @ literal_value cs \<and>
   closes_early (concat (map (stringize_item False) ts) @ cs) = closes_early cs"
proof (induction ts)
  case (Cons t ts)
  have item: "stringize_item False t = (if tk_flags t AND TOKEN_FLAG_SPACE \<noteq> 0 then [32] else []) @ concat (map escape_byte (tk_text t))"
    by (simp add: stringize_item_def)
  show ?case unfolding list.map concat.simps item append_assoc
    using Cons literal_plain [of 32] literal_escaped [of "tk_text t" "concat (map (stringize_item False) ts) @ cs"] by simp
qed simp

text \<open>
  C32. The operator \<open>#\<close> gives a string literal that is closed only by its last byte and that reads as the
  spelling of the argument, whatever quotes and backslashes the argument holds.
\<close>

theorem stringize_reads_back:
  "\<exists>body. stringize_arguments ts = [34] @ body @ [34] \<and> literal_value body = argument_spelling ts \<and> \<not> closes_early body"
proof (cases ts)
  case (Cons t us)
  have "literal_value (concat (map escape_byte (tk_text t)) @ concat (map (stringize_item False) us)) = argument_spelling ts \<and>
      \<not> closes_early (concat (map escape_byte (tk_text t)) @ concat (map (stringize_item False) us))"
    using literal_escaped [of "tk_text t" "concat (map (stringize_item False) us)"] literal_items [of us "[]"] Cons by simp
  then show ?thesis using Cons by (simp add: stringize_arguments_def stringize_item_def)
qed (simp add: stringize_arguments_def)

subsection \<open>The table of macros\<close>

definition table_ok :: "macro list \<Rightarrow> bool" where
  "table_ok ms \<longleftrightarrow> distinct (map ma_name ms)"

lemma macro_named_None: "macro_named ms n = None \<longleftrightarrow> n \<notin> ma_name ` set ms"
  by (induction ms) auto

lemma replace_macro_None: "replace_macro ms m = None \<longleftrightarrow> ma_name m \<notin> ma_name ` set ms"
  by (induction ms) auto

lemma replace_macro_Some:
  "replace_macro ms m = Some ms' \<Longrightarrow> map ma_name ms' = map ma_name ms \<and> (\<forall>n. macro_named ms' n = (if n = ma_name m then Some m else macro_named ms n))"
  by (induction ms arbitrary: ms') (auto split: if_splits)

lemma define_macro_ok: "table_ok ms \<Longrightarrow> table_ok (define_macro ms m)"
  by (auto simp: table_ok_def define_macro_def replace_macro_None dest: replace_macro_Some split: option.split)

lemma define_macro_lookup: "macro_named (define_macro ms m) = (macro_named ms)(ma_name m \<mapsto> m)"
  by (rule ext) (auto simp: define_macro_def dest: replace_macro_Some split: option.split)

lemma undef_macro_names: "m \<in> set (undef_macro ms n) \<Longrightarrow> m \<in> set ms"
  by (induction ms) (auto split: if_splits)

lemma undef_macro_ok: "table_ok ms \<Longrightarrow> table_ok (undef_macro ms n)"
  by (induction ms) (auto simp: table_ok_def dest: undef_macro_names)

lemma undef_macro_lookup: "table_ok ms \<Longrightarrow> macro_named (undef_macro ms n) = (macro_named ms)(n := None)"
  by (induction ms) (auto simp: table_ok_def fun_eq_iff macro_named_None)

interpretation macro_table: name_table table_ok macro_named define_macro "\<lambda>m. True" ma_name "\<lambda>m. m" undef_macro
  by unfold_locales (simp_all add: define_macro_ok define_macro_lookup undef_macro_ok undef_macro_lookup)

text \<open>A sequence of definitions and undefinitions, on the table and on a map.\<close>

definition macro_step :: "macro list \<Rightarrow> (macro, cstring) table_op \<Rightarrow> macro list" where
  "macro_step ms x = (case x of Insert m \<Rightarrow> define_macro ms m | Remove n \<Rightarrow> undef_macro ms n)"

definition map_step :: "(cstring \<Rightarrow> macro option) \<Rightarrow> (macro, cstring) table_op \<Rightarrow> cstring \<Rightarrow> macro option" where
  "map_step M x = (case x of Insert m \<Rightarrow> M(ma_name m \<mapsto> m) | Remove n \<Rightarrow> M(n := None))"

text \<open>
  C33. The list of macros is a map from names: after any sequence of definitions, redefinitions and
  undefinitions a name is found with its last definition, unless it was undefined since, and no
  name is held twice.
\<close>

theorem macros_are_a_map:
  "macro_named (foldl macro_step [] xs) = foldl map_step Map.empty xs \<and> distinct (map ma_name (foldl macro_step [] xs))"
proof -
  have steps: "macro_step = macro_table.apply_op" "map_step = macro_table.map_op"
    by (intro ext, simp add: macro_step_def macro_table.apply_op_def map_step_def macro_table.map_op_def)+
  have "macro_named [] = Map.empty" by (rule ext) simp
  moreover have "table_ok []" "\<forall>x \<in> set xs. macro_table.op_ok x"
    by (auto simp: table_ok_def macro_table.op_ok_def split: table_op.split)
  ultimately show ?thesis using macro_table.lookup_ops [of "[]" xs] unfolding steps table_ok_def by simp
qed

subsection \<open>Two ways to lose an expansion\<close>

definition plain_token :: "token_kind \<Rightarrow> string \<Rightarrow> token" where
  "plain_token k s = \<lparr>tk_kind = k, tk_flags = 0, tk_source = sample_source, tk_start = 0, tk_end = 0, tk_line = 1, tk_column = 1,
     tk_text = cstr s, tk_hideset = None\<rparr>"

abbreviation ident :: "string \<Rightarrow> token" where
  "ident \<equiv> plain_token TOKEN_IDENTIFIER"

abbreviation punct :: "string \<Rightarrow> token" where
  "punct \<equiv> plain_token TOKEN_PUNCTUATOR"

definition sample_pp :: "macro list \<Rightarrow> preprocessor" where
  "sample_pp ms = \<lparr>pp_arena = arena_create 1000000, pp_sources = \<lparr>sm_arena = arena_create 1000000, sm_sources = [], sm_capacity = 0\<rparr>,
     pp_diagnostics = \<lparr>ds_items = [], ds_limit = 100\<rparr>,
     pp_options = \<lparr>po_include_paths = [], po_predefines = [], po_preserve_newlines = False\<rparr>, pp_macros = ms, pp_token_count = 0,
     pp_include_stack = [], pp_line_delta = 0, pp_display_path = None, pp_rejected_definition = False\<rparr>"

definition sample_context :: expand_context where
  "sample_context = \<lparr>ec_source = None, ec_invocation_line = 0, ec_has_invocation = False, ec_hideset = None\<rparr>"

text \<open>The macro \<open>f(x)\<close> with the body \<open>x + 1\<close>, and \<open>c(a, b, d)\<close> with the body \<open>a ## b ## d\<close>.\<close>

definition add_one :: macro where
  "add_one = \<lparr>ma_name = cstr ''f'', ma_function_like = True, ma_variadic = False, ma_parameters = [cstr ''x''],
     ma_body = [ident ''x'', punct ''+'', plain_token TOKEN_NUMBER ''1'']\<rparr>"

definition join_three :: macro where
  "join_three = \<lparr>ma_name = cstr ''c'', ma_function_like = True, ma_variadic = False,
     ma_parameters = [cstr ''a'', cstr ''b'', cstr ''d''],
     ma_body = [ident ''a'', punct ''##'', ident ''b'', punct ''##'', ident ''d'']\<rparr>"

definition spelled_output :: "bool \<times> preprocessor \<times> token_list \<Rightarrow> cstring list" where
  "spelled_output r = map tk_text (tl_items (snd (snd r)))"

lemma substitute_join:
  "map_option (\<lambda>tl. map tk_text (tl_items tl)) (substitute_body join_three
     [\<lparr>tl_items = [ident ''p''], tl_capacity = 32\<rparr>, \<lparr>tl_items = [ident ''q''], tl_capacity = 32\<rparr>, \<lparr>tl_items = [ident ''r''], tl_capacity = 32\<rparr>]
     (ma_body join_three) token_list_init) = Some [cstr ''pq'', cstr ''r'']"
  by (simp add: join_three_def substitute_body.simps(2) is_parameter_def plain_token_def token_is_def cstr_def head_is_def argument_def
      token_list_push_def token_list_init_def SIZE_MAX_def paste_right_def append_paste_def token_list_last_def Let_def)

lemma expand_range_63: "expand_range 63 pp c h ts out = expand_tokens (expand_range 62) pp c h ts out"
proof -
  have "(63 :: nat) = Suc 62" by simp
  then show ?thesis by (simp only: expand_range.simps)
qed

lemma push_sample: "length (tl_items out) < 32 \<Longrightarrow> tl_capacity out = 32 \<Longrightarrow> token_list_push out t = Some (out\<lparr>tl_items := tl_items out @ [t]\<rparr>)"
  by (simp add: token_list_push_def)

lemma push_first: "token_list_push token_list_init t = Some \<lparr>tl_items = [t], tl_capacity = 32\<rparr>"
  by (simp add: token_list_push_def token_list_init_def SIZE_MAX_def Let_def)

lemmas token_eval = plain_token_def token_is_def cstr_def head_is_def skip_newlines_def

text \<open>The tokens after the first \<open>f\<close> of \<open>f(f(1))\<close>.\<close>

definition inner_call :: "token list" where
  "inner_call = [ident ''f'', punct ''('', plain_token TOKEN_NUMBER ''1'', punct '')'']"

lemma inner_arguments:
  "parse_arguments (sample_pp [add_one]) add_one (punct ''('' # inner_call @ [punct '')'']) =
     (Some ([\<lparr>tl_items = inner_call, tl_capacity = 32\<rparr>], []), sample_pp [add_one])"
  by (simp add: parse_arguments_def collect_arguments.simps token_eval add_one_def inner_call_def push_first push_sample Let_def)

lemma inner_body:
  "substitute_body add_one [\<lparr>tl_items = inner_call, tl_capacity = 32\<rparr>] (ma_body add_one) token_list_init =
     Some \<lparr>tl_items = inner_call @ [punct ''+'', plain_token TOKEN_NUMBER ''1''], tl_capacity = 32\<rparr>"
  by (simp add: substitute_body.simps(2) is_parameter_def token_eval add_one_def inner_call_def argument_def push_first push_sample)

lemma output_push_sample:
  "pp_token_count pp < CC64_PP_MAX_TOKENS \<Longrightarrow> token_list_push out t = Some out' \<Longrightarrow>
     output_push pp out t = (True, pp\<lparr>pp_token_count := pp_token_count pp + 1\<rparr>, out')"
  by (simp add: output_push_def)

lemma inner_expansion:
  "spelled_output (expand_tokens nested (sample_pp [add_one]) (nested_context sample_context (ident ''f'')) (Some (cstr ''f''))
     (inner_call @ [punct ''+'', plain_token TOKEN_NUMBER ''1'']) token_list_init) =
     map cstr [''f'', ''('', ''1'', '')'', ''+'', ''1'']"
  by (simp add: expand_tokens_step inner_call_def token_eval invoked_def find_macro_def sample_pp_def add_one_def expandable_def
      nested_context_def sample_context_def hideset_contains_def hideset_add_def hides_def token_blocked_by_hide_def
      output_push_sample push_first push_sample continue_with_def hidden_copy_def hideset_union_def spelled_output_def Let_def)

text \<open>
  An argument is put into the body of a macro as it was written, without being expanded first, and
  then expanded as part of the body, where the macro's own name is hidden: with \<open>f(x)\<close> defined as
  \<open>x + 1\<close>, the invocation \<open>f(f(1))\<close> becomes \<open>f(1) + 1\<close>, not \<open>1 + 1 + 1\<close>. And of two \<open>##\<close> in a row
  only the first pastes: with \<open>c(a, b, d)\<close> defined as \<open>a ## b ## d\<close>, the arguments \<open>p\<close>, \<open>q\<close> and \<open>r\<close>
  leave the two tokens \<open>pq\<close> and \<open>r\<close>.
\<close>

lemma expansion_lost:
  "(case expand_macro_at (sample_pp [add_one]) sample_context (ident ''f'') (punct ''('' # inner_call @ [punct '')'']) token_list_init of
      (good, rest, r) \<Rightarrow> spelled_output (good, r)) = map cstr [''f'', ''('', ''1'', '')'', ''+'', ''1''] \<and>
   map_option (\<lambda>tl. map tk_text (tl_items tl)) (substitute_body join_three
     [\<lparr>tl_items = [ident ''p''], tl_capacity = 32\<rparr>, \<lparr>tl_items = [ident ''q''], tl_capacity = 32\<rparr>, \<lparr>tl_items = [ident ''r''], tl_capacity = 32\<rparr>]
     (ma_body join_three) token_list_init) = Some [cstr ''pq'', cstr ''r'']"
proof
  have m: "find_macro (sample_pp [add_one]) (ident ''f'') = Some add_one" "ma_name add_one = cstr ''f''" "ma_function_like add_one"
    by (simp_all add: find_macro_def sample_pp_def add_one_def plain_token_def)
  have call: "head_is (skip_newlines (punct ''('' # inner_call @ [punct '')''])) ''(''" by (simp add: token_eval)
  obtain b pp1 out1 where run: "expand_tokens (expand_range 62) (sample_pp [add_one]) (nested_context sample_context (ident ''f'')) (Some (cstr ''f''))
     (inner_call @ [punct ''+'', plain_token TOKEN_NUMBER ''1'']) token_list_init = (b, pp1, out1)" by (metis prod_cases3)
  have f: "tk_kind (ident ''f'') = TOKEN_IDENTIFIER" "\<not> token_is (ident ''f'') ''__FILE__''" "\<not> token_is (ident ''f'') ''__LINE__''"
    "tk_hideset (ident ''f'') = None" by (simp_all add: token_eval)
  have body: "expand_function_body (expand_range 63) add_one [\<lparr>tl_items = inner_call, tl_capacity = 32\<rparr>] (sample_pp [add_one])
      (nested_context sample_context (ident ''f'')) token_list_init = (b, pp1, out1)"
    using run by (simp add: expand_function_body_def inner_body m(2) expand_range_63)
  have "spelled_output (b, pp1, out1) = map cstr [''f'', ''('', ''1'', '')'', ''+'', ''1'']"
    using inner_expansion [of "expand_range 62"] unfolding run .
  then show "(case expand_macro_at (sample_pp [add_one]) sample_context (ident ''f'') (punct ''('' # inner_call @ [punct '')'']) token_list_init of
      (good, rest, r) \<Rightarrow> spelled_output (good, r)) = map cstr [''f'', ''('', ''1'', '')'', ''+'', ''1'']"
    using m call f body inner_arguments by (simp add: expand_macro_at_def hideset_contains_def)
qed (rule substitute_join)

subsection \<open>Witnesses\<close>

theorem expansion_bounded_witness:
  "expand_range (64 + 6) (sample_pp [add_one]) sample_context None [ident ''f''] token_list_init =
     expand_range 64 (sample_pp [add_one]) sample_context None [ident ''f''] token_list_init"
  by (rule expansion_bounded) (simp add: macro_names_def sample_pp_def)

lemma comma_tokens: "token_is (punct ''('') ''(''" "token_is (punct '','') '',''" "token_is (punct '')'') '')''"
  "tk_kind (punct s) \<noteq> TOKEN_NEWLINE"
  by (simp_all add: token_eval)

theorem arguments_read_back_witness:
  "(\<exists>args. parse_arguments (sample_pp []) join_three (punct ''('' # written (punct '','') [[ident ''p''], [ident ''q''], [ident ''r'']] @ [punct '')'', ident ''z'']) =
     (Some (args, [ident ''z'']), sample_pp []) \<and> map tl_items args = [[ident ''p''], [ident ''q''], [ident ''r'']]) \<and>
   parse_arguments (sample_pp []) join_three (punct ''('' # written (punct '','') [[ident ''p''], [ident ''q''], []] @ [punct '')'', ident ''z'']) =
     (None, pp_emit (sample_pp []) 1104 None (cstr ''too few macro arguments''))"
proof -
  have "readable join_three 0 [[ident ''p''], [ident ''q''], [ident ''r'']]" "readable join_three 0 [[ident ''p''], [ident ''q''], []]"
    by (auto simp: readable_def join_three_def token_eval depth_after_def less_Suc_eq nth_Cons')
  from this [THEN arguments_read_back, OF _ comma_tokens(1-3) comma_tokens(4) comma_tokens(4) comma_tokens(4), of "sample_pp []" "[ident ''z'']"]
  show ?thesis by (simp add: join_three_def)
qed

end
