(* ===== verification/Pre_Expr_Ok.thy ===== *)
theory Pre_Expr_Ok
  imports Pre_Expr Pre_Macro_Ok
begin

text \<open>
  The expression parser of \<open>src/src/frontend/preprocessor.c\<close> ends: fuel in proportion to the tokens is
  enough, no more tokens are left than were given, and more fuel changes no result.
\<close>

subsection \<open>Parsing ends\<close>

definition ends :: "nat \<Rightarrow> parsed option \<Rightarrow> bool" where
  "ends n r \<longleftrightarrow> (\<exists>good v ts failed. r = Some (good, v, ts, failed) \<and> length ts \<le> n)"

lemma endsI: "length ts \<le> n \<Longrightarrow> ends n (Some (good, v, ts, failed))"
  by (simp add: ends_def)

lemma parse_ends:
  "3 * length ts + 1 \<le> fuel \<Longrightarrow> ends (length ts - 1) (expr_parse_unary fuel ts failed)"
  "3 * length ts + 2 \<le> fuel \<Longrightarrow> ends (length ts - 1) (expr_parse_binary fuel minimum ts failed)"
  "3 * length ts + 1 \<le> fuel \<Longrightarrow> ends (length ts) (binary_loop fuel minimum left ts failed)"
proof (induction fuel ts failed and fuel minimum ts failed and fuel minimum left ts failed
    rule: expr_parse_unary_expr_parse_binary_binary_loop.induct)
  case (2 fuel ts failed)
  show ?case
  proof (cases ts)
    case (Cons t us)
    have fu: "3 * length us + 2 \<le> fuel" using 2(6) Cons by simp
    consider (not) "token_is t ''!''" | (neg) "\<not> token_is t ''!''" "token_is t ''~''"
      | (plus) "\<not> token_is t ''!''" "\<not> token_is t ''~''" "token_is t ''+''"
      | (minus) "\<not> token_is t ''!''" "\<not> token_is t ''~''" "\<not> token_is t ''+''" "token_is t ''-''"
      | (paren) "\<not> token_is t ''!''" "\<not> token_is t ''~''" "\<not> token_is t ''+''" "\<not> token_is t ''-''" "token_is t ''(''"
      | (const) "\<not> token_is t ''!''" "\<not> token_is t ''~''" "\<not> token_is t ''+''" "\<not> token_is t ''-''" "\<not> token_is t ''(''" by blast
    then show ?thesis
    proof cases
      case not
      from 2(1) [OF Cons not] fu obtain g v rs f where "expr_parse_unary fuel us failed = Some (g, v, rs, f)" "length rs \<le> length us - 1"
        by (auto simp: ends_def)
      then show ?thesis using Cons not by (auto simp: ends_def)
    next
      case neg
      from 2(2) [OF Cons neg] fu obtain g v rs f where "expr_parse_unary fuel us failed = Some (g, v, rs, f)" "length rs \<le> length us - 1"
        by (auto simp: ends_def)
      then show ?thesis using Cons neg by (auto simp: ends_def)
    next
      case plus
      from 2(3) [OF Cons plus] fu obtain g v rs f where "expr_parse_unary fuel us failed = Some (g, v, rs, f)" "length rs \<le> length us - 1"
        by (auto simp: ends_def)
      then show ?thesis using Cons plus by (auto simp: ends_def)
    next
      case minus
      from 2(4) [OF Cons minus] fu obtain g v rs f where "expr_parse_unary fuel us failed = Some (g, v, rs, f)" "length rs \<le> length us - 1"
        by (auto simp: ends_def)
      then show ?thesis using Cons minus by (auto simp: ends_def)
    next
      case paren
      from 2(5) [OF Cons paren] fu obtain g v rs f where "expr_parse_binary fuel 0 us failed = Some (g, v, rs, f)" "length rs \<le> length us - 1"
        by (auto simp: ends_def)
      then show ?thesis using Cons paren by (auto simp: ends_def)
    next
      case const
      then show ?thesis using Cons by (auto simp: ends_def split: prod.split)
    qed
  qed (auto simp: ends_def)
next
  case (4 fuel minimum ts failed)
  from 4(1) 4(3) obtain g v rs f where u: "expr_parse_unary fuel ts failed = Some (g, v, rs, f)" "length rs \<le> length ts - 1"
    by (auto simp: ends_def)
  show ?case
  proof (cases g)
    case True
    have "3 * length rs + 1 \<le> fuel" using u(2) 4(3) by (cases ts) auto
    from 4(2) [OF u(1) refl refl refl _ this] True u have "ends (length rs) (binary_loop fuel minimum v rs f)" by simp
    then show ?thesis using u True by (auto simp: ends_def)
  next
    case False
    then show ?thesis using u by (auto simp: ends_def)
  qed
next
  case (6 fuel minimum left ts failed)
  show ?case
  proof (cases "failed \<or> ts = [] \<or> binary_precedence (hd ts) = 0 \<or> binary_precedence (hd ts) < minimum")
    case True
    then show ?thesis by (auto simp: ends_def Let_def)
  next
    case False
    then obtain t us where ts: "ts = t # us" by (cases ts) auto
    have p: "\<not> (failed \<or> ts = [])" "\<not> (binary_precedence (hd ts) = 0 \<or> binary_precedence (hd ts) < minimum)" using False by auto
    from 6(1) [OF p(1) refl p(2)] 6(3) ts obtain g v rs f
      where r: "expr_parse_binary fuel (binary_precedence (hd ts) + 1) (tl ts) failed = Some (g, v, rs, f)" "length rs \<le> length us - 1"
      by (auto simp: ends_def)
    show ?thesis
    proof (cases g)
      case False
      then show ?thesis using p r ts by (auto simp: ends_def Let_def)
    next
      case True
      obtain ok c where c: "expr_binary (tk_text (hd ts)) left v = (ok, c)" by (cases "expr_binary (tk_text (hd ts)) left v")
      show ?thesis
      proof (cases ok)
        case False
        then show ?thesis using p r ts c True by (auto simp: ends_def Let_def)
      next
        case ok: True
        have "3 * length rs + 1 \<le> fuel" using r(2) 6(3) ts by (cases us) auto
        from 6(2) [OF p(1) refl p(2) r(1) refl refl refl _ _ _ this] c True ok
        have "ends (length rs) (binary_loop fuel minimum c rs f)" by simp
        then show ?thesis using p r ts c True ok by (auto simp: ends_def Let_def)
      qed
    qed
  qed
qed simp_all

lemma conditional_ends: "3 * length ts + 3 \<le> fuel \<Longrightarrow> ends (length ts - 1) (expr_parse_conditional fuel ts failed)"
proof (induction fuel ts failed rule: expr_parse_conditional.induct)
  case (2 fuel ts failed)
  have "3 * length ts + 2 \<le> fuel" using "2.prems" by simp
  from parse_ends(2) [OF this, of 0 failed] obtain g1 c ts1 f1
    where b: "expr_parse_binary fuel 0 ts failed = Some (g1, c, ts1, f1)" "length ts1 \<le> length ts - 1" by (auto simp: ends_def)
  show ?case
  proof (cases "g1 \<and> head_is ts1 ''?''")
    case True
    have l1: "length (tl ts1) + 2 \<le> length ts" using b(2) True by (cases ts1; cases ts) (auto simp: head_is_def)
    have g1: "\<not> \<not> g1" "\<not> \<not> head_is ts1 ''?''" using True by auto
    from "2.IH"(1) [OF b(1) refl refl refl g1] l1 "2.prems" obtain g2 y ts2 f2
      where y: "expr_parse_conditional fuel (tl ts1) f1 = Some (g2, y, ts2, f2)" "length ts2 \<le> length (tl ts1) - 1"
      by (auto simp: ends_def)
    show ?thesis
    proof (cases "g2 \<and> head_is ts2 '':''")
      case True
      have l2: "length (tl ts2) + 2 \<le> length ts" using y(2) l1 True by (cases ts2) (auto simp: head_is_def)
      have g2: "\<not> \<not> g2" "\<not> \<not> head_is ts2 '':''" using True by auto
      from "2.IH"(2) [OF b(1) refl refl refl g1 y(1) refl refl refl g2] l2 "2.prems" obtain g3 z ts3 f3
        where z: "expr_parse_conditional fuel (tl ts2) f2 = Some (g3, z, ts3, f3)" "length ts3 \<le> length (tl ts2) - 1"
        by (auto simp: ends_def)
      have "length ts3 \<le> length ts - 1" using z(2) l2 by simp
      then show ?thesis using b y z g1 g2 by (auto simp: ends_def)
    next
      case False
      have "length ts2 \<le> length ts - 1" using y(2) l1 by simp
      then show ?thesis using b y g1 False by (auto simp: ends_def)
    qed
  next
    case False
    then show ?thesis using b by (auto simp: ends_def)
  qed
qed simp

subsection \<open>More fuel\<close>

lemma more_fuel:
  "expr_parse_unary fuel ts failed = Some r \<Longrightarrow> expr_parse_unary (Suc fuel) ts failed = Some r"
  "expr_parse_binary fuel minimum ts failed = Some r \<Longrightarrow> expr_parse_binary (Suc fuel) minimum ts failed = Some r"
  "binary_loop fuel minimum left ts failed = Some r \<Longrightarrow> binary_loop (Suc fuel) minimum left ts failed = Some r"
proof (induction fuel ts failed and fuel minimum ts failed and fuel minimum left ts failed arbitrary: r and r and r
    rule: expr_parse_unary_expr_parse_binary_binary_loop.induct)
  case (2 fuel ts failed)
  note run = expr_parse_unary.simps(2) [of fuel] expr_parse_unary.simps(2) [of "Suc fuel"]
  show ?case
  proof (cases ts)
    case (Cons t us)
    consider (not) "token_is t ''!''" | (neg) "\<not> token_is t ''!''" "token_is t ''~''"
      | (plus) "\<not> token_is t ''!''" "\<not> token_is t ''~''" "token_is t ''+''"
      | (minus) "\<not> token_is t ''!''" "\<not> token_is t ''~''" "\<not> token_is t ''+''" "token_is t ''-''"
      | (paren) "\<not> token_is t ''!''" "\<not> token_is t ''~''" "\<not> token_is t ''+''" "\<not> token_is t ''-''" "token_is t ''(''"
      | (const) "\<not> token_is t ''!''" "\<not> token_is t ''~''" "\<not> token_is t ''+''" "\<not> token_is t ''-''" "\<not> token_is t ''(''" by blast
    then show ?thesis
    proof cases
      case not
      obtain e where e: "expr_parse_unary fuel us failed = Some e"
        using 2(6) Cons not by (cases "expr_parse_unary fuel us failed") auto
      show ?thesis using 2(6) unfolding run using Cons not e 2(1) [OF Cons not e] by simp
    next
      case neg
      obtain e where e: "expr_parse_unary fuel us failed = Some e"
        using 2(6) Cons neg by (cases "expr_parse_unary fuel us failed") auto
      show ?thesis using 2(6) unfolding run using Cons neg e 2(2) [OF Cons neg e] by simp
    next
      case plus
      obtain e where e: "expr_parse_unary fuel us failed = Some e"
        using 2(6) Cons plus by (cases "expr_parse_unary fuel us failed") auto
      show ?thesis using 2(6) unfolding run using Cons plus e 2(3) [OF Cons plus e] by simp
    next
      case minus
      obtain e where e: "expr_parse_unary fuel us failed = Some e"
        using 2(6) Cons minus by (cases "expr_parse_unary fuel us failed") auto
      show ?thesis using 2(6) unfolding run using Cons minus e 2(4) [OF Cons minus e] by simp
    next
      case paren
      obtain e where e: "expr_parse_binary fuel 0 us failed = Some e"
        using 2(6) Cons paren by (cases "expr_parse_binary fuel 0 us failed") auto
      show ?thesis using 2(6) unfolding run using Cons paren e 2(5) [OF Cons paren e] by simp
    next
      case const
      then show ?thesis using 2(6) unfolding run by (simp add: Cons)
    qed
  qed (use 2(6) in \<open>simp add: run\<close>)
next
  case (4 fuel minimum ts failed)
  obtain g v rs f where u: "expr_parse_unary fuel ts failed = Some (g, v, rs, f)"
    using 4(3) by (cases "expr_parse_unary fuel ts failed") auto
  show ?case using 4(3) 4(1) [OF u] 4(2) [OF u refl refl refl] u
    unfolding expr_parse_binary.simps(2) [of fuel] expr_parse_binary.simps(2) [of "Suc fuel"]
    by (auto split: if_splits)
next
  case (6 fuel minimum left ts failed)
  show ?case
  proof (cases "failed \<or> ts = [] \<or> binary_precedence (hd ts) = 0 \<or> binary_precedence (hd ts) < minimum")
    case True
    then show ?thesis using 6(3) by (auto simp: Let_def)
  next
    case False
    then have p: "\<not> (failed \<or> ts = [])" "\<not> (binary_precedence (hd ts) = 0 \<or> binary_precedence (hd ts) < minimum)" by auto
    obtain g v rs f where r: "expr_parse_binary fuel (binary_precedence (hd ts) + 1) (tl ts) failed = Some (g, v, rs, f)"
      using 6(3) p by (cases "expr_parse_binary fuel (binary_precedence (hd ts) + 1) (tl ts) failed") (auto simp: Let_def)
    obtain ok c where c: "expr_binary (tk_text (hd ts)) left v = (ok, c)" by (cases "expr_binary (tk_text (hd ts)) left v")
    note r' = 6(1) [OF p(1) refl p(2) r]
    have loop: "binary_loop (Suc fuel) minimum c rs f = Some r" if "g" "ok" "binary_loop fuel minimum c rs f = Some r"
      using 6(2) [OF p(1) refl p(2) r refl refl refl] that c by simp
    show ?thesis
      using 6(3) p r r' c loop unfolding binary_loop.simps(2) [of fuel] binary_loop.simps(2) [of "Suc fuel"] Let_def
      by (cases g; cases ok) (auto simp del: expr_parse_binary.simps binary_loop.simps split: if_splits)
  qed
qed simp_all

lemma conditional_more_fuel: "expr_parse_conditional fuel ts failed = Some r \<Longrightarrow> expr_parse_conditional (Suc fuel) ts failed = Some r"
proof (induction fuel ts failed arbitrary: r rule: expr_parse_conditional.induct)
  case (2 fuel ts failed)
  obtain g1 c ts1 f1 where b: "expr_parse_binary fuel 0 ts failed = Some (g1, c, ts1, f1)"
    using "2.prems" by (cases "expr_parse_binary fuel 0 ts failed") auto
  note b' = more_fuel(2) [OF b]
  note run = "2.prems" [unfolded expr_parse_conditional.simps(2) [of fuel]]
  show ?case
  proof (cases "g1 \<and> head_is ts1 ''?''")
    case True
    have g1: "\<not> \<not> g1" "\<not> \<not> head_is ts1 ''?''" using True by auto
    obtain g2 y ts2 f2 where y: "expr_parse_conditional fuel (tl ts1) f1 = Some (g2, y, ts2, f2)"
      using "2.prems" b True by (cases "expr_parse_conditional fuel (tl ts1) f1") auto
    note y' = "2.IH"(1) [OF b refl refl refl g1 y]
    show ?thesis
    proof (cases "g2 \<and> head_is ts2 '':''")
      case True
      have g2: "\<not> \<not> g2" "\<not> \<not> head_is ts2 '':''" using True by auto
      obtain g3 z ts3 f3 where z: "expr_parse_conditional fuel (tl ts2) f2 = Some (g3, z, ts3, f3)"
        using "2.prems" b y g1 True by (cases "expr_parse_conditional fuel (tl ts2) f2") auto
      note z' = "2.IH"(2) [OF b refl refl refl g1 y refl refl refl g2 z]
      show ?thesis unfolding expr_parse_conditional.simps(2) [of "Suc fuel"] using run b b' y y' z z' g1 g2
        by (simp del: expr_parse_binary.simps expr_parse_conditional.simps)
    next
      case False
      then show ?thesis unfolding expr_parse_conditional.simps(2) [of "Suc fuel"] using run b b' y y' g1
        by (cases g2) (auto simp del: expr_parse_binary.simps expr_parse_conditional.simps)
    qed
  next
    case False
    then show ?thesis unfolding expr_parse_conditional.simps(2) [of "Suc fuel"] using run b b'
      by (cases g1) (auto simp del: expr_parse_binary.simps expr_parse_conditional.simps)
  qed
qed simp

lemma steps_up: "P (n::nat) \<Longrightarrow> n \<le> k \<Longrightarrow> (\<And>i. P i \<Longrightarrow> P (Suc i)) \<Longrightarrow> P k"
  by (induction k) (auto simp: le_Suc_eq)

lemma more_fuel_le:
  "expr_parse_unary n ts failed = Some r \<Longrightarrow> n \<le> k \<Longrightarrow> expr_parse_unary k ts failed = Some r"
  "expr_parse_binary n minimum ts failed = Some r \<Longrightarrow> n \<le> k \<Longrightarrow> expr_parse_binary k minimum ts failed = Some r"
  "binary_loop n minimum left ts failed = Some r \<Longrightarrow> n \<le> k \<Longrightarrow> binary_loop k minimum left ts failed = Some r"
  "expr_parse_conditional n ts failed = Some r \<Longrightarrow> n \<le> k \<Longrightarrow> expr_parse_conditional k ts failed = Some r"
  by (erule steps_up, assumption, erule more_fuel conditional_more_fuel)+

end
