(* ===== verification/Pre_Grammar.thy ===== *)
theory Pre_Grammar
  imports Pre_Expr_Ok
begin

text \<open>
  The expression parser of \<open>src/src/frontend/preprocessor.c\<close> against the C grammar: expressions as the
  grammar derives them, their spelling, what the parser makes of them, and the proof that it does.
\<close>

subsection \<open>The grammar\<close>

text \<open>
  The binary operators of the C grammar, from the loosest level to the tightest, and the level of a
  token; 0 when it is none.
\<close>

definition c_operators :: "string list list" where
  "c_operators = [[''||''], [''&&''], [''|''], [''^''], [''&''], [''=='', ''!=''], [''<'', ''>'', ''<='', ''>=''],
     [''<<'', ''>>''], [''+'', ''-''], [''*'', ''/'', ''%'']]"

fun level_from :: "nat \<Rightarrow> string list list \<Rightarrow> token \<Rightarrow> nat" where
  "level_from n [] t = 0"
| "level_from n (ops # rest) t = (if list_ex (token_is t) ops then n else level_from (Suc n) rest t)"

abbreviation c_level :: "token \<Rightarrow> nat" where
  "c_level t \<equiv> level_from 1 c_operators t"

lemma binary_precedence_level: "binary_precedence t = c_level t"
  by (simp add: binary_precedence_def c_operators_def)

lemma c_level_le: "c_level t \<le> 10"
  by (simp add: c_operators_def)

text \<open>
  Conditional expressions of C as the grammar derives them (C11 6.5.3 to 6.5.15, without the forms that
  no preprocessing expression has), and their spelling. A conditional may stand inside parentheses and
  between \<open>?\<close> and \<open>:\<close>, and behind the colon.
\<close>

datatype expression =
    Operand token
  | Prefixed token expression
  | Joined expression token expression
  | Grouped token expression token
  | Chosen expression token expression token expression

fun spelling :: "expression \<Rightarrow> token list" where
  "spelling (Operand t) = [t]"
| "spelling (Prefixed t e) = t # spelling e"
| "spelling (Joined l t r) = spelling l @ t # spelling r"
| "spelling (Grouped p e q) = p # spelling e @ [q]"
| "spelling (Chosen c p y q n) = spelling c @ p # spelling y @ q # spelling n"

fun tightness :: "expression \<Rightarrow> nat" where
  "tightness (Joined l t r) = c_level t"
| "tightness (Chosen c p y q n) = 0"
| "tightness e = 11"

fun chosen :: "expression \<Rightarrow> bool" where
  "chosen (Chosen c p y q n) \<longleftrightarrow> True"
| "chosen e \<longleftrightarrow> False"

definition is_prefix :: "token \<Rightarrow> bool" where
  "is_prefix t \<longleftrightarrow> list_ex (token_is t) [''!'', ''~'', ''+'', ''-'']"

text \<open>
  Binary operators group to the left: the left operand may be of the operator's own level. The
  condition in front of \<open>?\<close> is a binary expression or tighter.
\<close>

fun derivable :: "expression \<Rightarrow> bool" where
  "derivable (Operand t) \<longleftrightarrow> \<not> is_prefix t \<and> \<not> token_is t ''('' \<and> \<not> snd (parse_constant t)"
| "derivable (Prefixed t e) \<longleftrightarrow> is_prefix t \<and> tightness e = 11 \<and> derivable e"
| "derivable (Joined l t r) \<longleftrightarrow> c_level t > 0 \<and> tightness l \<ge> c_level t \<and> tightness r > c_level t \<and> derivable l \<and> derivable r"
| "derivable (Grouped p e q) \<longleftrightarrow> token_is p ''('' \<and> token_is q '')'' \<and> derivable e"
| "derivable (Chosen c p y q n) \<longleftrightarrow>
     \<not> chosen c \<and> derivable c \<and> token_is p ''?'' \<and> derivable y \<and> token_is q '':'' \<and> derivable n"

text \<open>
  What the parser makes of an expression: every operand is evaluated, and a conditional inside
  parentheses is not read. No value when parsing fails.
\<close>

definition prefix_value :: "token \<Rightarrow> expr_value \<Rightarrow> expr_value" where
  "prefix_value t v =
     (if token_is t ''!'' then expr_make (truth (ev_bits v = 0)) False
      else if token_is t ''~'' then v\<lparr>ev_bits := NOT (ev_bits v)\<rparr>
      else if token_is t ''-'' then v\<lparr>ev_bits := - ev_bits v\<rparr> else v)"

fun parsed_value :: "expression \<Rightarrow> expr_value option" where
  "parsed_value (Operand t) = Some (fst (parse_constant t))"
| "parsed_value (Prefixed t e) = map_option (prefix_value t) (parsed_value e)"
| "parsed_value (Joined l t r) =
     (case (parsed_value l, parsed_value r) of
        (Some x, Some y) \<Rightarrow> (case expr_binary (tk_text t) x y of (True, v) \<Rightarrow> Some v | (False, v) \<Rightarrow> None)
      | _ \<Rightarrow> None)"
| "parsed_value (Grouped p e q) = (if chosen e then None else parsed_value e)"
| "parsed_value (Chosen c p y q n) =
     (case (parsed_value c, parsed_value y, parsed_value n) of
        (Some v, Some a, Some b) \<Rightarrow> Some (if ev_bits v \<noteq> 0 then a else b)
      | _ \<Rightarrow> None)"

subsection \<open>Parsing what the grammar derives\<close>

definition runs_unary :: "token list \<Rightarrow> parsed \<Rightarrow> bool" where
  "runs_unary ts r \<longleftrightarrow> (\<exists>n. expr_parse_unary n ts False = Some r)"

definition runs_binary :: "nat \<Rightarrow> token list \<Rightarrow> parsed \<Rightarrow> bool" where
  "runs_binary m ts r \<longleftrightarrow> (\<exists>n. expr_parse_binary n m ts False = Some r)"

definition runs_loop :: "nat \<Rightarrow> expr_value \<Rightarrow> token list \<Rightarrow> parsed \<Rightarrow> bool" where
  "runs_loop m v ts r \<longleftrightarrow> (\<exists>n. binary_loop n m v ts False = Some r)"

definition runs_choice :: "token list \<Rightarrow> parsed \<Rightarrow> bool" where
  "runs_choice ts r \<longleftrightarrow> (\<exists>n. expr_parse_conditional n ts False = Some r)"

lemmas runs_defs = runs_unary_def runs_binary_def runs_loop_def runs_choice_def

lemma runs_binary_unary:
  assumes "runs_unary ts (True, v, us, False)" "runs_loop m v us r"
  shows "runs_binary m ts r"
proof -
  obtain n k where "expr_parse_unary n ts False = Some (True, v, us, False)" "binary_loop k m v us False = Some r"
    using assms by (auto simp: runs_defs)
  then have "expr_parse_unary (max n k) ts False = Some (True, v, us, False)" "binary_loop (max n k) m v us False = Some r"
    by (auto intro: more_fuel_le)
  then have "expr_parse_binary (Suc (max n k)) m ts False = Some r" by simp
  then show ?thesis unfolding runs_defs by blast
qed

lemma runs_binary_fails: "runs_unary ts (False, v, us, f) \<Longrightarrow> runs_binary m ts (False, v, us, f)"
  unfolding runs_defs by (elim exE, rule_tac x = "Suc n" in exI) simp

lemma runs_loop_stops:
  assumes "ts = [] \<or> binary_precedence (hd ts) = 0 \<or> binary_precedence (hd ts) < m"
  shows "runs_loop m v ts (True, v, ts, False)"
proof -
  have "binary_loop (Suc 0) m v ts False = Some (True, v, ts, False)" using assms by (auto simp: Let_def)
  then show ?thesis unfolding runs_defs by blast
qed

lemma runs_loop_steps:
  assumes "binary_precedence t > 0" "m \<le> binary_precedence t" "runs_binary (binary_precedence t + 1) ts (True, w, us, False)"
    and "expr_binary (tk_text t) v w = (True, x)" "runs_loop m x us r"
  shows "runs_loop m v (t # ts) r"
proof -
  obtain n k where "expr_parse_binary n (binary_precedence t + 1) ts False = Some (True, w, us, False)" "binary_loop k m x us False = Some r"
    using assms(3,5) by (auto simp: runs_defs)
  then have "expr_parse_binary (max n k) (binary_precedence t + 1) ts False = Some (True, w, us, False)"
    "binary_loop (max n k) m x us False = Some r" by (auto intro: more_fuel_le)
  then have "binary_loop (Suc (max n k)) m v (t # ts) False = Some r" using assms(1,2,4) by (simp add: Let_def)
  then show ?thesis unfolding runs_defs by blast
qed

lemma runs_loop_fails:
  assumes "binary_precedence t > 0" "m \<le> binary_precedence t" "runs_binary (binary_precedence t + 1) ts (good, w, us, f)"
    and "if good then expr_binary (tk_text t) v w = (False, x) else f"
  shows "\<exists>y. runs_loop m v (t # ts) (False, y, us, True)"
proof -
  obtain n where n: "expr_parse_binary n (binary_precedence t + 1) ts False = Some (good, w, us, f)"
    using assms(3) by (auto simp: runs_defs)
  have "binary_loop (Suc n) m v (t # ts) False = Some (False, if good then x else v, us, True)"
    using n assms(1,2,4) by (cases good) (simp_all add: Let_def)
  then show ?thesis unfolding runs_defs by blast
qed

lemma runs_unary_operand:
  assumes "derivable (Operand t)"
  shows "runs_unary (t # ts) (True, fst (parse_constant t), ts, False)"
proof -
  have "expr_parse_unary (Suc 0) (t # ts) False = Some (True, fst (parse_constant t), ts, False)"
    using assms by (cases "parse_constant t") (simp add: is_prefix_def)
  then show ?thesis unfolding runs_defs by blast
qed

lemma runs_unary_prefix:
  assumes "is_prefix t" "runs_unary ts (good, v, us, f)"
  shows "\<exists>w. runs_unary (t # ts) (good, if good then prefix_value t v else w, us, f)"
proof -
  obtain n where n: "expr_parse_unary n ts False = Some (good, v, us, f)" using assms(2) by (auto simp: runs_defs)
  have same: "token_is t a \<Longrightarrow> token_is t b \<Longrightarrow> cstr a = cstr b" for a b by (simp add: token_is_def)
  have "expr_parse_unary (Suc n) (t # ts) False = Some (good, if good then prefix_value t v else v, us, f)"
    using n assms(1) same [of "''+''" "''-''"] by (auto simp: is_prefix_def prefix_value_def cstr_def)
  then show ?thesis unfolding runs_defs by blast
qed

lemma runs_unary_group:
  assumes "token_is p ''(''" "runs_binary 0 ts (True, v, q # us, False)" "token_is q '')''"
  shows "runs_unary (p # ts) (True, v, us, False)"
proof -
  obtain n where n: "expr_parse_binary n 0 ts False = Some (True, v, q # us, False)" using assms(2) by (auto simp: runs_defs)
  have "expr_parse_unary (Suc n) (p # ts) False = Some (True, v, us, False)"
    using n assms(1,3) by (simp add: token_is_def cstr_def head_is_def)
  then show ?thesis unfolding runs_defs by blast
qed

lemma runs_unary_group_fails:
  assumes "token_is p ''(''" "runs_binary 0 ts (False, v, us, True)"
  shows "runs_unary (p # ts) (False, v, us, True)"
proof -
  obtain n where n: "expr_parse_binary n 0 ts False = Some (False, v, us, True)" using assms(2) by (auto simp: runs_defs)
  have "expr_parse_unary (Suc n) (p # ts) False = Some (False, v, us, True)"
    using n assms(1) by (simp add: token_is_def cstr_def)
  then show ?thesis unfolding runs_defs by blast
qed

lemma runs_unary_group_open:
  assumes "token_is p ''(''" "runs_binary 0 ts (True, v, us, False)" "\<not> head_is us '')''"
  shows "runs_unary (p # ts) (False, v, us, True)"
proof -
  obtain n where n: "expr_parse_binary n 0 ts False = Some (True, v, us, False)" using assms(2) by (auto simp: runs_defs)
  have "expr_parse_unary (Suc n) (p # ts) False = Some (False, v, us, True)"
    using n assms(1,3) by (simp add: token_is_def cstr_def)
  then show ?thesis unfolding runs_defs by blast
qed

lemma punctuation_ends:
  "token_is t ''?'' \<or> token_is t '':'' \<Longrightarrow> binary_precedence t = 0"
  "token_is t '':'' \<Longrightarrow> \<not> token_is t ''?''"
  by (auto simp: binary_precedence_def token_is_def cstr_def)

text \<open>What parsing an expression in front of \<open>rest\<close> gives, as an operand and as a whole.\<close>

definition parses_unary :: "expression \<Rightarrow> bool" where
  "parses_unary e \<longleftrightarrow> (\<forall>rest.
     (case parsed_value e of
        Some v \<Rightarrow> runs_unary (spelling e @ rest) (True, v, rest, False)
      | None \<Rightarrow> \<exists>v us. runs_unary (spelling e @ rest) (False, v, us, True)))"

definition parses_binary :: "expression \<Rightarrow> bool" where
  "parses_binary e \<longleftrightarrow> (\<forall>m rest. m \<le> tightness e \<longrightarrow> rest = [] \<or> binary_precedence (hd rest) \<le> tightness e \<longrightarrow>
     (case parsed_value e of
        Some v \<Rightarrow> \<forall>r. runs_loop m v rest r \<longrightarrow> runs_binary m (spelling e @ rest) r
      | None \<Rightarrow> \<exists>v us. runs_binary m (spelling e @ rest) (False, v, us, True)))"

lemma parses_unaryD:
  assumes "parses_unary e"
  shows "parsed_value e = Some v \<Longrightarrow> runs_unary (spelling e @ rest) (True, v, rest, False)"
    and "parsed_value e = None \<Longrightarrow> \<exists>v us. runs_unary (spelling e @ rest) (False, v, us, True)"
  using assms [unfolded parses_unary_def, rule_format, of rest] by simp_all

lemma parses_binaryD:
  assumes "parses_binary e" "m \<le> tightness e" "rest = [] \<or> binary_precedence (hd rest) \<le> tightness e"
  shows "parsed_value e = Some v \<Longrightarrow> runs_loop m v rest r \<Longrightarrow> runs_binary m (spelling e @ rest) r"
    and "parsed_value e = None \<Longrightarrow> \<exists>v us. runs_binary m (spelling e @ rest) (False, v, us, True)"
  using assms(1) [unfolded parses_binary_def, rule_format, OF assms(2,3)] by (simp_all del: split_paired_All)

lemma parses_unary_binary:
  assumes "parses_unary e"
  shows "parses_binary e"
  unfolding parses_binary_def
proof (intro allI impI)
  fix m rest
  show "case parsed_value e of
      Some v \<Rightarrow> \<forall>r. runs_loop m v rest r \<longrightarrow> runs_binary m (spelling e @ rest) r
    | None \<Rightarrow> \<exists>v us. runs_binary m (spelling e @ rest) (False, v, us, True)"
  proof (cases "parsed_value e")
    case None
    then show ?thesis using parses_unaryD(2) [OF assms None, of rest] runs_binary_fails by (simp only: option.case) blast
  next
    case (Some v)
    show ?thesis unfolding Some option.case by (intro allI impI runs_binary_unary [OF parses_unaryD(1) [OF assms Some]])
  qed
qed

lemma parses_joined:
  assumes l: "parses_binary l" and r: "parses_binary r" and d: "derivable (Joined l t r)"
  shows "parses_binary (Joined l t r)"
  unfolding parses_binary_def
proof (intro allI impI)
  fix m rest
  assume m: "m \<le> tightness (Joined l t r)" and rest: "rest = [] \<or> binary_precedence (hd rest) \<le> tightness (Joined l t r)"
  let ?p = "binary_precedence t"
  have p: "?p > 0" "m \<le> ?p" "?p \<le> tightness l" "?p + 1 \<le> tightness r" "m \<le> tightness l"
    using d m by (auto simp: binary_precedence_level)
  have left: "t # spelling r @ rest = [] \<or> binary_precedence (hd (t # spelling r @ rest)) \<le> tightness l" using p by simp
  have right: "rest = [] \<or> binary_precedence (hd rest) \<le> tightness r" using rest p by (auto simp: binary_precedence_level)
  have stop: "rest = [] \<or> binary_precedence (hd rest) = 0 \<or> binary_precedence (hd rest) < ?p + 1"
    using rest by (auto simp: binary_precedence_level)
  note L = parses_binaryD [OF l p(5) left] and R = parses_binaryD [OF r p(4) right]
  show "case parsed_value (Joined l t r) of
      Some v \<Rightarrow> \<forall>q. runs_loop m v rest q \<longrightarrow> runs_binary m (spelling (Joined l t r) @ rest) q
    | None \<Rightarrow> \<exists>v us. runs_binary m (spelling (Joined l t r) @ rest) (False, v, us, True)"
  proof (cases "parsed_value l")
    case None
    then show ?thesis using L(2) by simp
  next
    case (Some x)
    show ?thesis
    proof (cases "parsed_value r")
      case None
      from R(2) [OF this] obtain w us where "runs_binary (?p + 1) (spelling r @ rest) (False, w, us, True)" by blast
      then obtain z where "runs_loop m x (t # spelling r @ rest) (False, z, us, True)"
        using runs_loop_fails [OF p(1,2), of _ False w us True x] by auto
      from L(1) [OF Some this] None Some show ?thesis by auto
    next
      case (Some y)
      have run: "runs_binary (?p + 1) (spelling r @ rest) (True, y, rest, False)"
        by (rule R(1) [OF Some runs_loop_stops [OF stop]])
      obtain ok v where v: "expr_binary (tk_text t) x y = (ok, v)" by (cases "expr_binary (tk_text t) x y")
      show ?thesis
      proof (cases ok)
        case True
        then show ?thesis using runs_loop_steps [OF p(1,2) run, of x v] L(1) [OF \<open>parsed_value l = Some x\<close>] v Some
            \<open>parsed_value l = Some x\<close> by simp
      next
        case False
        from runs_loop_fails [OF p(1,2) run, of x v] False v obtain z where "runs_loop m x (t # spelling r @ rest) (False, z, rest, True)" by auto
        from L(1) [OF \<open>parsed_value l = Some x\<close> this] show ?thesis using v False Some \<open>parsed_value l = Some x\<close> by auto
      qed
    qed
  qed
qed

text \<open>The part of an expression in front of its question mark.\<close>

fun condition_of :: "expression \<Rightarrow> expression" where
  "condition_of (Chosen c p y q n) = c"
| "condition_of e = e"

lemma condition_of_plain: "\<not> chosen e \<Longrightarrow> condition_of e = e"
  by (cases e) simp_all

lemma tight_not_chosen: "0 < tightness e \<Longrightarrow> \<not> chosen e"
  by (cases e) simp_all

lemma parses_derivable: "derivable e \<Longrightarrow> (if tightness e = 11 then parses_unary e else True) \<and> parses_binary (condition_of e)"
proof (induction e)
  case (Operand t)
  then show ?case using runs_unary_operand [OF Operand] parses_unary_binary by (simp add: parses_unary_def)
next
  case (Prefixed t e)
  have e: "parses_unary e" and t: "is_prefix t" using Prefixed by auto
  have "parses_unary (Prefixed t e)" unfolding parses_unary_def
  proof
    fix rest
    show "case parsed_value (Prefixed t e) of Some v \<Rightarrow> runs_unary (spelling (Prefixed t e) @ rest) (True, v, rest, False)
      | None \<Rightarrow> \<exists>v us. runs_unary (spelling (Prefixed t e) @ rest) (False, v, us, True)"
    proof (cases "parsed_value e")
      case None
      then obtain v us where "runs_unary (spelling e @ rest) (False, v, us, True)" using parses_unaryD(2) [OF e] by blast
      from runs_unary_prefix [OF t this] None show ?thesis by auto
    next
      case (Some v)
      note parses_unaryD(1) [OF e this, of rest]
      from runs_unary_prefix [OF t this] Some show ?thesis by auto
    qed
  qed
  then show ?case using parses_unary_binary by simp
next
  case (Joined l t r)
  then have "\<not> chosen l" "\<not> chosen r" by (auto intro!: tight_not_chosen)
  then have "parses_binary l" "parses_binary r" using Joined by (auto simp: condition_of_plain)
  then show ?case using parses_joined [OF _ _ Joined.prems] c_level_le [of t] by auto
next
  case (Grouped p e q)
  have e: "parses_binary (condition_of e)" and pq: "token_is p ''(''" "token_is q '')''" using Grouped by auto
  have q: "binary_precedence q = 0" using pq(2) by (auto simp: binary_precedence_def token_is_def cstr_def)
  have "parses_unary (Grouped p e q)" unfolding parses_unary_def
  proof
    fix rest
    show "case parsed_value (Grouped p e q) of Some v \<Rightarrow> runs_unary (spelling (Grouped p e q) @ rest) (True, v, rest, False)
      | None \<Rightarrow> \<exists>v us. runs_unary (spelling (Grouped p e q) @ rest) (False, v, us, True)"
    proof (cases "chosen e")
      case False
      have at: "q # rest = [] \<or> binary_precedence (hd (q # rest)) \<le> tightness e" using q by simp
      note E = parses_binaryD [OF e [unfolded condition_of_plain [OF False]] le0 at]
      have stop: "runs_loop 0 v (q # rest) (True, v, q # rest, False)" for v by (rule runs_loop_stops) (use q in simp)
      show ?thesis
        using E(1) [OF _ stop] E(2) runs_unary_group [OF pq(1) _ pq(2)] runs_unary_group_fails [OF pq(1)] False
        by (cases "parsed_value e") (simp, blast, simp)
    next
      case True
      then obtain c i y j n where c: "e = Chosen c i y j n" by (cases e) auto
      then have i: "token_is i ''?''" using Grouped.prems by simp
      then have at: "i # xs = [] \<or> binary_precedence (hd (i # xs)) \<le> tightness c" for xs using punctuation_ends(1) [of i] by simp
      note E = parses_binaryD [OF e [unfolded c condition_of.simps] le0 at]
      have stop: "runs_loop 0 v (i # xs) (True, v, i # xs, False)" for v xs
        by (rule runs_loop_stops) (use punctuation_ends(1) [of i] i in simp)
      have shut: "\<not> head_is (i # xs) '')''" for xs using i by (auto simp: head_is_def token_is_def cstr_def)
      show ?thesis
        using E(1) [OF _ stop] E(2) runs_unary_group_open [OF pq(1) _ shut] runs_unary_group_fails [OF pq(1)]
        by (cases "parsed_value c") (simp add: c, blast, simp add: c, blast)
    qed
  qed
  then show ?case using parses_unary_binary by simp
next
  case (Chosen c p y q n)
  then show ?case by (simp add: condition_of_plain)
qed

lemma runs_choice_plain:
  assumes "runs_binary 0 ts (good, v, us, f)" "good \<Longrightarrow> \<not> head_is us ''?''"
  shows "runs_choice ts (good, v, us, f)"
proof -
  obtain n where "expr_parse_binary n 0 ts False = Some (good, v, us, f)" using assms(1) by (auto simp: runs_defs)
  then have "expr_parse_conditional (Suc n) ts False = Some (good, v, us, f)" using assms(2) by (cases good) auto
  then show ?thesis unfolding runs_defs by blast
qed

lemma runs_choice_taken:
  assumes "runs_binary 0 ts (True, c, p # us, False)" "token_is p ''?''" "runs_choice us (True, a, q # ws, False)" "token_is q '':''"
    and "runs_choice ws (good, b, xs, f)"
  shows "runs_choice ts (good, if good then (if ev_bits c \<noteq> 0 then a else b) else b, xs, f)"
proof -
  obtain i j k where "expr_parse_binary i 0 ts False = Some (True, c, p # us, False)"
    "expr_parse_conditional j us False = Some (True, a, q # ws, False)" "expr_parse_conditional k ws False = Some (good, b, xs, f)"
    using assms by (auto simp: runs_defs)
  then have "expr_parse_binary (max i (max j k)) 0 ts False = Some (True, c, p # us, False)"
    "expr_parse_conditional (max i (max j k)) us False = Some (True, a, q # ws, False)"
    "expr_parse_conditional (max i (max j k)) ws False = Some (good, b, xs, f)" by (auto intro: more_fuel_le)
  then have "expr_parse_conditional (Suc (max i (max j k))) ts False = Some (good, if good then (if ev_bits c \<noteq> 0 then a else b) else b, xs, f)"
    using assms(2,4) by (simp add: head_is_def)
  then show ?thesis unfolding runs_defs by blast
qed

lemma runs_choice_fails:
  assumes "runs_binary 0 ts (True, c, p # us, False)" "token_is p ''?''" "runs_choice us (False, a, ws, f)"
  shows "runs_choice ts (False, a, ws, f)"
proof -
  obtain i j where "expr_parse_binary i 0 ts False = Some (True, c, p # us, False)"
    "expr_parse_conditional j us False = Some (False, a, ws, f)" using assms by (auto simp: runs_defs)
  then have "expr_parse_binary (max i j) 0 ts False = Some (True, c, p # us, False)"
    "expr_parse_conditional (max i j) us False = Some (False, a, ws, f)" by (auto intro: more_fuel_le)
  then have "expr_parse_conditional (Suc (max i j)) ts False = Some (False, a, ws, f)" using assms(2) by (simp add: head_is_def)
  then show ?thesis unfolding runs_defs by blast
qed

text \<open>An expression is parsed up to the end of the tokens or a colon.\<close>

lemma parses_plain:
  assumes "derivable e" "\<not> chosen e" "rest = [] \<or> head_is rest '':''"
  shows "case parsed_value e of
      Some v \<Rightarrow> runs_choice (spelling e @ rest) (True, v, rest, False)
    | None \<Rightarrow> \<exists>v us. runs_choice (spelling e @ rest) (False, v, us, True)"
proof -
  have e: "parses_binary e" using parses_derivable [OF assms(1)] by (simp add: condition_of_plain [OF assms(2)])
  have at: "rest = [] \<or> binary_precedence (hd rest) \<le> tightness e" and stop: "runs_loop 0 v rest (True, v, rest, False)"
    and plain: "\<not> head_is rest ''?''" for v
    using assms(3) punctuation_ends [of "hd rest"] by (auto simp: head_is_def intro: runs_loop_stops)
  show ?thesis
  proof (cases "parsed_value e")
    case None
    from parses_binaryD(2) [OF e le0 at None] None show ?thesis by (auto intro: runs_choice_plain)
  next
    case (Some v)
    from parses_binaryD(1) [OF e le0 at Some stop] Some show ?thesis using plain by (auto intro: runs_choice_plain)
  qed
qed

lemma parses_choice:
  "derivable e \<Longrightarrow> rest = [] \<or> head_is rest '':'' \<Longrightarrow>
     (case parsed_value e of
        Some v \<Rightarrow> runs_choice (spelling e @ rest) (True, v, rest, False)
      | None \<Rightarrow> \<exists>v us. runs_choice (spelling e @ rest) (False, v, us, True))"
proof (induction e arbitrary: rest)
  case (Chosen c p y q n)
  have c: "parses_binary c" and p: "token_is p ''?''" and q: "token_is q '':''"
    using parses_derivable [of c] Chosen.prems(1) by (auto simp: condition_of_plain)
  let ?after = "p # spelling y @ q # spelling n @ rest"
  have at: "?after = [] \<or> binary_precedence (hd ?after) \<le> tightness c" using punctuation_ends(1) [of p] p by simp
  have stop: "runs_loop 0 v ?after (True, v, ?after, False)" for v by (rule runs_loop_stops) (use punctuation_ends(1) [of p] p in simp)
  show ?case
  proof (cases "parsed_value c")
    case None
    from parses_binaryD(2) [OF c le0 at None] None show ?thesis by (auto intro: runs_choice_plain)
  next
    case v: (Some v)
    note run = parses_binaryD(1) [OF c le0 at v stop]
    have Y: "case parsed_value y of
        Some v \<Rightarrow> runs_choice (spelling y @ q # spelling n @ rest) (True, v, q # spelling n @ rest, False)
      | None \<Rightarrow> \<exists>v us. runs_choice (spelling y @ q # spelling n @ rest) (False, v, us, True)"
      using Chosen.IH(2) [of "q # spelling n @ rest"] Chosen.prems(1) by (simp add: head_is_def)
    have N: "case parsed_value n of
        Some v \<Rightarrow> runs_choice (spelling n @ rest) (True, v, rest, False)
      | None \<Rightarrow> \<exists>v us. runs_choice (spelling n @ rest) (False, v, us, True)"
      using Chosen.IH(3) Chosen.prems by simp
    show ?thesis
    proof (cases "parsed_value y")
      case None
      then show ?thesis using Y v by simp (blast intro: runs_choice_fails [OF run p])
    next
      case a: (Some a)
      have first: "runs_choice (spelling y @ q # spelling n @ rest) (True, a, q # spelling n @ rest, False)"
        using Y a by simp
      show ?thesis
      proof (cases "parsed_value n")
        case None
        then show ?thesis using N a v by simp (blast intro: runs_choice_taken [OF run p first q, of False, simplified])
      next
        case (Some b)
        then show ?thesis using N runs_choice_taken [OF run p first q, of True b rest False] a v by simp
      qed
    qed
  qed
qed (rule parses_plain; simp)+

text \<open>With the fuel a directive is evaluated with.\<close>

lemma expression_fuel_enough:
  assumes "runs_choice ts r"
  shows "expr_parse_conditional (expression_fuel ts) ts False = Some r"
proof -
  obtain n where n: "expr_parse_conditional n ts False = Some r" using assms by (auto simp: runs_defs)
  obtain s where s: "expr_parse_conditional (expression_fuel ts) ts False = Some s"
    using conditional_ends [of ts "expression_fuel ts" False] by (auto simp: ends_def expression_fuel_def)
  have "expr_parse_conditional (max n (expression_fuel ts)) ts False = Some r"
    "expr_parse_conditional (max n (expression_fuel ts)) ts False = Some s" using n s by (auto intro: more_fuel_le)
  then show ?thesis using s by simp
qed

lemma derivable_parsed:
  assumes "derivable e"
  shows "parsed_value e = Some v \<Longrightarrow> expr_parse_conditional (expression_fuel (spelling e)) (spelling e) False = Some (True, v, [], False)"
    and "parsed_value e = None \<Longrightarrow>
      \<exists>v us. expr_parse_conditional (expression_fuel (spelling e)) (spelling e) False = Some (False, v, us, True)"
  using parses_choice [OF assms, of "[]"] expression_fuel_enough [of "spelling e"] by auto

end
