(* ===== verification/Pre_Operators.thy ===== *)
theory Pre_Operators
  imports Pre_Grammar
begin

text \<open>
  The values of conditional expressions as C defines them, and the operators and expressions of
  \<open>src/src/frontend/preprocessor.c\<close> against them: where they agree, and what the code rejects or reads
  otherwise.
\<close>

unbundle bit_operations_syntax

subsection \<open>Operators on integers\<close>

text \<open>
  A value of C: whether its type is \<open>uintmax_t\<close> or \<open>intmax_t\<close>, and its integer. A signed result outside
  its type is undefined, an unsigned one is taken modulo \<open>2 ^ 64\<close>.
\<close>

type_synonym c_number = "bool \<times> int"

definition in_type :: "bool \<Rightarrow> int \<Rightarrow> bool" where
  "in_type u z \<longleftrightarrow> (if u then 0 \<le> z \<and> z < 2 ^ 64 else - (2 ^ 63) \<le> z \<and> z < 2 ^ 63)"

definition arithmetic :: "bool \<Rightarrow> int \<Rightarrow> c_number option" where
  "arithmetic u z = (if u then Some (True, z mod 2 ^ 64) else if in_type False z then Some (False, z) else None)"

definition converted :: "bool \<Rightarrow> int \<Rightarrow> int" where
  "converted u z = (if u then z mod 2 ^ 64 else z)"

text \<open>Operators on operands of one type; quotients truncate towards zero.\<close>

definition integer_result :: "string \<Rightarrow> int \<Rightarrow> int \<Rightarrow> int option" where
  "integer_result s x y =
     (if s = ''+'' then Some (x + y) else if s = ''-'' then Some (x - y) else if s = ''*'' then Some (x * y)
      else if s = ''/'' then (if y = 0 then None else Some (x sdiv y))
      else if s = ''%'' then (if y = 0 \<or> x = - (2 ^ 63) \<and> y = - 1 then None else Some (x smod y))
      else if s = ''&'' then Some (x AND y) else if s = ''|'' then Some (x OR y) else if s = ''^'' then Some (x XOR y)
      else None)"

definition integer_relation :: "string \<Rightarrow> int \<Rightarrow> int \<Rightarrow> bool option" where
  "integer_relation s x y =
     (if s = ''<'' then Some (x < y) else if s = ''>'' then Some (x > y) else if s = ''<='' then Some (x \<le> y)
      else if s = ''>='' then Some (x \<ge> y) else if s = ''=='' then Some (x = y) else if s = ''!='' then Some (x \<noteq> y)
      else None)"

text \<open>
  A binary operator of C other than \<open>&&\<close> and \<open>||\<close> (C11 6.5.5 to 6.5.12). A shift has the type of its left
  operand and a count below 64, a negative value is not shifted to the left, and its shift to the right
  is arithmetic; the other operators convert both operands to unsigned when one of them is.
\<close>

fun c_binary :: "string \<Rightarrow> c_number \<Rightarrow> c_number \<Rightarrow> c_number option" where
  "c_binary s (ul, x) (ur, y) =
     (if s = ''<<'' then (if 0 \<le> y \<and> y < 64 \<and> 0 \<le> x then arithmetic ul (x * 2 ^ nat y) else None)
      else if s = ''>>'' then (if 0 \<le> y \<and> y < 64 then Some (ul, x div 2 ^ nat y) else None)
      else
        let u = (ul \<or> ur); a = converted u x; b = converted u y in
        case integer_relation s a b of Some t \<Rightarrow> Some (False, of_bool t)
        | None \<Rightarrow> (case integer_result s a b of None \<Rightarrow> None | Some z \<Rightarrow> arithmetic u z))"

text \<open>A value of the code as an integer, and the number of C it stands for.\<close>

definition as_integer :: "bool \<Rightarrow> expr_value \<Rightarrow> int" where
  "as_integer uns v = (if uns then uint (ev_bits v) else sint (ev_bits v))"

definition means :: "expr_value \<Rightarrow> c_number \<Rightarrow> bool" where
  "means v n \<longleftrightarrow> n = (ev_unsigned v, as_integer (ev_unsigned v) v)"

definition fits :: "bool \<Rightarrow> int \<Rightarrow> bool" where
  "fits uns z \<longleftrightarrow> uns \<or> (- (2 ^ 63) \<le> z \<and> z < 2 ^ 63)"

lemma sint_of_fits: "- (2 ^ 63) \<le> z \<Longrightarrow> z < 2 ^ 63 \<Longrightarrow> sint (word_of_int z :: u64) = z"
  by (simp add: sint_sbintrunc' signed_take_bit_int_eq_self)

lemma as_integer_word: "fits uns z \<Longrightarrow> as_integer uns (expr_make (word_of_int z) u) = converted uns z"
  by (auto simp: as_integer_def expr_make_def fits_def converted_def uint_word_of_int sint_of_fits take_bit_eq_mod)

lemma expr_binary_signed:
  assumes "\<not> ev_unsigned l" "\<not> ev_unsigned r"
  shows "expr_binary (cstr ''+'') l r = (True, expr_make (ev_bits l + ev_bits r) False)"
    "expr_binary (cstr ''-'') l r = (True, expr_make (ev_bits l - ev_bits r) False)"
    "expr_binary (cstr ''*'') l r = (True, expr_make (ev_bits l * ev_bits r) False)"
    "ev_bits r \<noteq> 0 \<Longrightarrow> expr_binary (cstr ''/'') l r = (True, expr_make (word_of_int (sint (ev_bits l) sdiv sint (ev_bits r))) False)"
    "ev_bits r \<noteq> 0 \<Longrightarrow> expr_binary (cstr ''%'') l r = (True, expr_make (word_of_int (sint (ev_bits l) smod sint (ev_bits r))) False)"
    "expr_binary (cstr ''<<'') l r = (True, expr_make (push_bit (unat (ev_bits r AND 63)) (ev_bits l)) False)"
    "expr_binary (cstr ''>>'') l r = (True, expr_make (signed_drop_bit (unat (ev_bits r AND 63)) (ev_bits l)) False)"
    "expr_binary (cstr ''&'') l r = (True, expr_make (ev_bits l AND ev_bits r) False)"
    "expr_binary (cstr ''|'') l r = (True, expr_make (ev_bits l OR ev_bits r) False)"
    "expr_binary (cstr ''^'') l r = (True, expr_make (ev_bits l XOR ev_bits r) False)"
    "expr_binary (cstr ''<'') l r = (True, expr_make (truth (sint (ev_bits l) < sint (ev_bits r))) False)"
    "expr_binary (cstr ''>'') l r = (True, expr_make (truth (sint (ev_bits l) > sint (ev_bits r))) False)"
    "expr_binary (cstr ''<='') l r = (True, expr_make (truth (sint (ev_bits l) \<le> sint (ev_bits r))) False)"
    "expr_binary (cstr ''>='') l r = (True, expr_make (truth (sint (ev_bits l) \<ge> sint (ev_bits r))) False)"
  using assms by (simp_all add: expr_binary_def cstr_def)

lemma expr_binary_unsigned:
  assumes "ev_unsigned l \<or> ev_unsigned r"
  shows "expr_binary (cstr ''+'') l r = (True, expr_make (ev_bits l + ev_bits r) True)"
    "expr_binary (cstr ''-'') l r = (True, expr_make (ev_bits l - ev_bits r) True)"
    "expr_binary (cstr ''*'') l r = (True, expr_make (ev_bits l * ev_bits r) True)"
    "ev_bits r \<noteq> 0 \<Longrightarrow> expr_binary (cstr ''/'') l r = (True, expr_make (ev_bits l div ev_bits r) True)"
    "ev_bits r \<noteq> 0 \<Longrightarrow> expr_binary (cstr ''%'') l r = (True, expr_make (ev_bits l mod ev_bits r) True)"
    "expr_binary (cstr ''<<'') l r = (True, expr_make (push_bit (unat (ev_bits r AND 63)) (ev_bits l)) True)"
    "expr_binary (cstr ''>>'') l r = (True, expr_make (drop_bit (unat (ev_bits r AND 63)) (ev_bits l)) True)"
    "expr_binary (cstr ''&'') l r = (True, expr_make (ev_bits l AND ev_bits r) True)"
    "expr_binary (cstr ''|'') l r = (True, expr_make (ev_bits l OR ev_bits r) True)"
    "expr_binary (cstr ''^'') l r = (True, expr_make (ev_bits l XOR ev_bits r) True)"
    "expr_binary (cstr ''<'') l r = (True, expr_make (truth (ev_bits l < ev_bits r)) False)"
    "expr_binary (cstr ''>'') l r = (True, expr_make (truth (ev_bits l > ev_bits r)) False)"
    "expr_binary (cstr ''<='') l r = (True, expr_make (truth (ev_bits l \<le> ev_bits r)) False)"
    "expr_binary (cstr ''>='') l r = (True, expr_make (truth (ev_bits l \<ge> ev_bits r)) False)"
  using assms by (auto simp: expr_binary_def cstr_def)

lemma expr_binary_both:
  "expr_binary (cstr ''=='') l r = (True, expr_make (truth (ev_bits l = ev_bits r)) False)"
  "expr_binary (cstr ''!='') l r = (True, expr_make (truth (ev_bits l \<noteq> ev_bits r)) False)"
  "expr_binary (cstr ''&&'') l r = (True, expr_make (truth (ev_bits l \<noteq> 0 \<and> ev_bits r \<noteq> 0)) False)"
  "expr_binary (cstr ''||'') l r = (True, expr_make (truth (ev_bits l \<noteq> 0 \<or> ev_bits r \<noteq> 0)) False)"
  by (simp_all add: expr_binary_def cstr_def)

lemma word_of_as_integer: "word_of_int (as_integer u v) = ev_bits v"
  by (simp add: as_integer_def)

lemma same_integer: "as_integer u v = as_integer u w \<longleftrightarrow> ev_bits v = ev_bits w"
  by (metis word_of_as_integer as_integer_def)

lemma zero_integer: "as_integer u v = 0 \<longleftrightarrow> ev_bits v = 0"
  using same_integer [of u v "expr_make 0 False"] by (cases u) (simp_all add: as_integer_def expr_make_def)

lemma shift_count:
  assumes "0 \<le> as_integer u r" "as_integer u r < 64"
  shows "unat (ev_bits r AND 63) = nat (as_integer u r)"
proof -
  obtain k where k: "as_integer u r = int k" "k < 64" using assms by (metis nat_eq_iff2 nat_less_iff of_nat_numeral zless_nat_eq_int_zless)
  then have b: "ev_bits r = word_of_nat k" using word_of_as_integer [of u r] by simp
  have "ev_bits r AND 63 = take_bit 6 (ev_bits r)" by (simp add: take_bit_eq_mask mask_eq_exp_minus_1)
  then have "unat (ev_bits r AND 63) = take_bit 6 (unat (ev_bits r))" by (simp only: unsigned_take_bit_eq)
  then have "unat (ev_bits r AND 63) = unat (ev_bits r) mod 2 ^ 6" by (simp only: take_bit_eq_mod)
  then show ?thesis using k by (simp add: b unat_of_nat)
qed

lemma nonnegative_division:
  assumes "0 \<le> x" "0 \<le> y"
  shows "x sdiv y = x div y" "x smod y = x mod (y::int)"
  using assms by (auto simp: signed_divide_int_def signed_modulo_int_def sgn_if)

lemma word_of_int_bits:
  "word_of_int (x AND y) = (word_of_int x AND word_of_int y :: u64)"
  "word_of_int (x OR y) = (word_of_int x OR word_of_int y :: u64)"
  "word_of_int (x XOR y) = (word_of_int x XOR word_of_int y :: u64)"
  by (rule bit_word_eqI, simp add: bit_word_of_int_iff bit_simps)+

lemma word_of_int_drop: "word_of_int (drop_bit n (uint a)) = drop_bit n (a::u64)"
  by (rule bit_word_eqI) (auto simp: bit_word_of_int_iff bit_drop_bit_eq bit_uint_iff dest: bit_imp_le_length)

lemma integer_result_binary:
  assumes u: "u \<longleftrightarrow> ev_unsigned l \<or> ev_unsigned r" and z: "integer_result s (as_integer u l) (as_integer u r) = Some z"
  shows "expr_binary (cstr s) l r = (True, expr_make (word_of_int z) u)"
proof -
  consider (ring) "s = ''+'' \<and> z = as_integer u l + as_integer u r" | (minus) "s = ''-'' \<and> z = as_integer u l - as_integer u r"
    | (times) "s = ''*'' \<and> z = as_integer u l * as_integer u r"
    | (over) "s = ''/'' \<and> as_integer u r \<noteq> 0 \<and> z = as_integer u l sdiv as_integer u r"
    | (remainder) "s = ''%'' \<and> as_integer u r \<noteq> 0 \<and> z = as_integer u l smod as_integer u r"
    | (bits) "s = ''&'' \<and> z = as_integer u l AND as_integer u r" | (alt) "s = ''|'' \<and> z = as_integer u l OR as_integer u r"
    | (xor) "s = ''^'' \<and> z = as_integer u l XOR as_integer u r"
    using z unfolding integer_result_def by (auto split: if_splits)
  then show ?thesis
  proof cases
    case over
    then have "ev_bits r \<noteq> 0" by (simp add: zero_integer)
    then show ?thesis using over u expr_binary_signed(4) [of l r] expr_binary_unsigned(4) [of l r]
      by (cases u) (simp_all add: as_integer_def nonnegative_division word_div_def)
  next
    case remainder
    then have "ev_bits r \<noteq> 0" by (simp add: zero_integer)
    then show ?thesis using remainder u expr_binary_signed(5) [of l r] expr_binary_unsigned(5) [of l r]
      by (cases u) (simp_all add: as_integer_def nonnegative_division word_mod_def)
  qed (use u expr_binary_signed(1-3,8-10) [of l r] expr_binary_unsigned(1-3,8-10) [of l r] in \<open>cases u; auto simp: word_of_as_integer word_of_int_bits\<close>)+
qed

lemma division_by_zero:
  assumes "ev_bits r = 0"
  shows "expr_binary (cstr ''/'') l r = (False, expr_make 0 (ev_unsigned l \<or> ev_unsigned r))"
    "expr_binary (cstr ''%'') l r = (False, expr_make 0 (ev_unsigned l \<or> ev_unsigned r))"
  by (cases "ev_unsigned l"; cases "ev_unsigned r"; simp add: expr_binary_def cstr_def assms)+

lemma division_valid:
  "fst (expr_binary (cstr ''/'') l r) = (ev_bits r \<noteq> 0)" "fst (expr_binary (cstr ''%'') l r) = (ev_bits r \<noteq> 0)"
  using division_by_zero [of r l] expr_binary_signed(4,5) [of l r] expr_binary_unsigned(4,5) [of l r]
  by (metis fst_conv)+

lemma integer_relation_binary:
  assumes u: "u \<longleftrightarrow> ev_unsigned l \<or> ev_unsigned r" and b: "integer_relation s (as_integer u l) (as_integer u r) = Some b"
  shows "expr_binary (cstr s) l r = (True, expr_make (truth b) False)"
proof -
  consider (lt) "s = ''<'' \<and> b = (as_integer u l < as_integer u r)" | (gt) "s = ''>'' \<and> b = (as_integer u l > as_integer u r)"
    | (le) "s = ''<='' \<and> b = (as_integer u l \<le> as_integer u r)" | (ge) "s = ''>='' \<and> b = (as_integer u l \<ge> as_integer u r)"
    | (eq) "s = ''=='' \<and> b = (as_integer u l = as_integer u r)" | (ne) "s = ''!='' \<and> b = (as_integer u l \<noteq> as_integer u r)"
    using b unfolding integer_relation_def by (auto split: if_splits)
  then show ?thesis
  proof cases
  qed (use u expr_binary_signed(11-14) [of l r] expr_binary_unsigned(11-14) [of l r] in
      \<open>cases u; auto simp: expr_binary_both zero_integer same_integer; auto simp: as_integer_def word_less_def word_le_def\<close>)+
qed

lemma shifted_left:
  assumes "0 \<le> as_integer u r" "as_integer u r < 64" "u \<longleftrightarrow> ev_unsigned l \<or> ev_unsigned r"
  shows "expr_binary (cstr ''<<'') l r = (True, expr_make (word_of_int (as_integer u l * 2 ^ nat (as_integer u r))) u)"
  using assms shift_count [of u r] expr_binary_signed(6) [of l r] expr_binary_unsigned(6) [of l r]
  by (cases u) (auto simp: word_of_as_integer push_bit_eq_mult)

lemma shifted_right:
  assumes "0 \<le> as_integer u r" "as_integer u r < 64" "u \<longleftrightarrow> ev_unsigned l \<or> ev_unsigned r"
  shows "expr_binary (cstr ''>>'') l r = (True, expr_make (word_of_int (as_integer u l div 2 ^ nat (as_integer u r))) u)"
  using assms shift_count [of u r] expr_binary_signed(7) [of l r] expr_binary_unsigned(7) [of l r]
  by (cases u) (auto simp: as_integer_def word_of_int_drop simp flip: drop_bit_eq_div sint_signed_drop_bit_eq)

subsection \<open>Operators and the numbers they compute\<close>

lemma meansD:
  assumes "means v (u, z)"
  shows "ev_unsigned v = u" "as_integer u v = z" "ev_bits v = word_of_int z"
  using assms by (auto simp: means_def word_of_as_integer)

lemma means_in_type: "means v (u, z) \<Longrightarrow> in_type u z"
  using uint_lt2p [of "ev_bits v"] sint_ge [of "ev_bits v"] sint_lt [of "ev_bits v"]
  by (auto simp: means_def in_type_def as_integer_def)

lemma as_integer_converted:
  assumes "means v (w, z)" "w \<longrightarrow> u"
  shows "as_integer u v = converted u z"
  using assms uint_lt2p [of "ev_bits v"] uint_sint [of "ev_bits v"]
  by (cases w; cases u) (auto simp: means_def as_integer_def converted_def take_bit_eq_mod)

lemma means_make:
  assumes "arithmetic u z = Some (w, y)"
  shows "means (expr_make (word_of_int z) u) (w, y)"
proof -
  have "fits u z" "w = u" "y = converted u z" using assms by (auto simp: arithmetic_def fits_def in_type_def converted_def split: if_splits)
  then show ?thesis using as_integer_word [of u z u] by (simp add: means_def expr_make_def)
qed

lemma means_truth: "means (expr_make (truth b) False) (False, of_bool b)"
  by (simp add: means_def expr_make_def as_integer_def truth_def)

lemma in_type_converted: "in_type u z \<Longrightarrow> converted u z = z"
  by (auto simp: in_type_def converted_def)

lemma in_type_quotient:
  assumes "in_type u x"
  shows "in_type u (x div 2 ^ n)"
proof -
  have "x div 2 ^ n \<le> x" "0 \<le> x div 2 ^ n" if "0 \<le> x"
    using zdiv_mono2 [OF that, of 1 "2 ^ n"] that by (simp_all add: pos_imp_zdiv_nonneg_iff)
  moreover have "x \<le> x div 2 ^ n" "x div 2 ^ n < 0" if "x < 0"
    using zdiv_mono2_neg [OF that, of 1 "2 ^ n"] div_neg_pos_less0 [OF that, of "2 ^ n"] by simp_all
  ultimately show ?thesis using assms unfolding in_type_def by (cases "0 \<le> x") auto
qed

lemma binary_means:
  assumes l: "means l (ul, x)" and r: "means r (ur, y)" and n: "c_binary s (ul, x) (ur, y) = Some n"
    and shift: "s = ''<<'' \<or> s = ''>>'' \<Longrightarrow> ul \<or> \<not> ur"
  shows "\<exists>v. expr_binary (cstr s) l r = (True, v) \<and> means v n"
proof -
  let ?u = "ul \<or> ur"
  have u: "?u \<longleftrightarrow> ev_unsigned l \<or> ev_unsigned r" using meansD(1) [OF l] meansD(1) [OF r] by simp
  have a: "as_integer ?u l = converted ?u x" and b: "as_integer ?u r = converted ?u y"
    using as_integer_converted [OF l, of ?u] as_integer_converted [OF r, of ?u] by auto
  show ?thesis
  proof (cases "s = ''<<'' \<or> s = ''>>''")
    case True
    then have ul: "?u = ul" using shift by auto
    have y: "0 \<le> y" "y < 64" using n True by (auto split: if_splits)
    then have cy: "converted ul y = y" by (simp add: converted_def)
    have cx: "converted ul x = x" using in_type_converted means_in_type [OF l] by blast
    note vals = a [unfolded ul cx] b [unfolded ul cy]
    show ?thesis
    proof (cases "s = ''<<''")
      case True
      then have "arithmetic ul (x * 2 ^ nat y) = Some n" using n y by (simp split: if_splits)
      with means_make [of ul "x * 2 ^ nat y" "fst n" "snd n"] shifted_left [of ul r l] True show ?thesis
        using y vals u ul by (auto simp del: expr_make_def)
    next
      case False
      then have s: "s = ''>>''" and n: "n = (ul, x div 2 ^ nat y)" using n y True by auto
      have "in_type ul (x div 2 ^ nat y)" using in_type_quotient means_in_type [OF l] by blast
      then have "arithmetic ul (x div 2 ^ nat y) = Some n" using n by (cases ul) (auto simp: arithmetic_def in_type_def)
      with means_make [of ul "x div 2 ^ nat y" "fst n" "snd n"] shifted_right [of ul r l] s show ?thesis
        using y vals u ul by auto
    qed
  next
    case False
    show ?thesis
    proof (cases "integer_relation s (converted ?u x) (converted ?u y)")
      case (Some t)
      then have "n = (False, of_bool t)" using n False by (simp add: Let_def split: if_splits)
      then show ?thesis using integer_relation_binary [OF u, of s t] Some a b means_truth [of t] by auto
    next
      case None
      then obtain z where z: "integer_result s (converted ?u x) (converted ?u y) = Some z" "arithmetic ?u z = Some n"
        using n False by (auto simp: Let_def split: option.splits if_splits)
      then show ?thesis using integer_result_binary [OF u, of s z] a b means_make [of ?u z "fst n" "snd n"] by auto
    qed
  qed
qed

lemma logical_binary:
  assumes "means l (ul, x)" "means r (ur, y)"
  shows "expr_binary (cstr ''&&'') l r = (True, expr_make (truth (x \<noteq> 0 \<and> y \<noteq> 0)) False)"
    "expr_binary (cstr ''||'') l r = (True, expr_make (truth (x \<noteq> 0 \<or> y \<noteq> 0)) False)"
proof -
  have "ev_bits l = 0 \<longleftrightarrow> x = 0" "ev_bits r = 0 \<longleftrightarrow> y = 0"
    using meansD(2) [OF assms(1)] meansD(2) [OF assms(2)] zero_integer [of ul l] zero_integer [of ur r] by auto
  then show "expr_binary (cstr ''&&'') l r = (True, expr_make (truth (x \<noteq> 0 \<and> y \<noteq> 0)) False)"
    "expr_binary (cstr ''||'') l r = (True, expr_make (truth (x \<noteq> 0 \<or> y \<noteq> 0)) False)"
    by (simp_all add: expr_binary_both)
qed

text \<open>
  C35. The binary operators of a conditional expression against C's. On operands of the types and
  numbers C gives them, every operator but \<open>&&\<close> and \<open>||\<close> computes the number and the type that C
  defines for the result, whenever C defines one, with one exception: a signed operand shifted by an
  unsigned count. C gives such a shift the type of the left operand; the code reads the left operand as
  unsigned and gives an unsigned result. \<open>&&\<close> and \<open>||\<close> give the signed values 0 and 1, and a division
  or remainder is invalid exactly when the divisor is zero.
\<close>

theorem operators_exact:
  assumes "means l (ul, x)" and "means r (ur, y)"
  shows "(\<not> (s \<in> {''<<'', ''>>''} \<and> \<not> ul \<and> ur) \<longrightarrow> c_binary s (ul, x) (ur, y) = Some n \<longrightarrow>
      (\<exists>v. expr_binary (cstr s) l r = (True, v) \<and> means v n)) \<and>
    (\<not> ul \<and> ur \<and> y < 64 \<longrightarrow>
      (\<exists>v. expr_binary (cstr ''<<'') l r = (True, v) \<and> means v (True, x * 2 ^ nat y mod 2 ^ 64)) \<and>
      (\<exists>v. expr_binary (cstr ''>>'') l r = (True, v) \<and> means v (True, x mod 2 ^ 64 div 2 ^ nat y))) \<and>
    (\<exists>v. expr_binary (cstr ''&&'') l r = (True, v) \<and> means v (False, of_bool (x \<noteq> 0 \<and> y \<noteq> 0))) \<and>
    (\<exists>v. expr_binary (cstr ''||'') l r = (True, v) \<and> means v (False, of_bool (x \<noteq> 0 \<or> y \<noteq> 0))) \<and>
    (s \<in> {''/'', ''%''} \<longrightarrow> fst (expr_binary (cstr s) l r) = (y \<noteq> 0))"
proof (intro conjI impI)
  assume shift: "\<not> (s \<in> {''<<'', ''>>''} \<and> \<not> ul \<and> ur)" and n: "c_binary s (ul, x) (ur, y) = Some n"
  show "\<exists>v. expr_binary (cstr s) l r = (True, v) \<and> means v n" by (rule binary_means [OF assms n]) (use shift in blast)
next
  assume mixed: "\<not> ul \<and> ur \<and> y < 64"
  then have "True \<longleftrightarrow> ev_unsigned l \<or> ev_unsigned r" "0 \<le> as_integer True r" "as_integer True r = y"
    using meansD(1,2) [OF assms(2)] means_in_type [OF assms(2)] by (auto simp: in_type_def)
  moreover have "as_integer True l = x mod 2 ^ 64" using as_integer_converted [OF assms(1), of True] by (simp add: converted_def)
  ultimately have run: "expr_binary (cstr ''<<'') l r = (True, expr_make (word_of_int (x mod 2 ^ 64 * 2 ^ nat y)) True)"
    "expr_binary (cstr ''>>'') l r = (True, expr_make (word_of_int (x mod 2 ^ 64 div 2 ^ nat y)) True)"
    using shifted_left [of True r l] shifted_right [of True r l] mixed by simp_all
  have "arithmetic True (x mod 2 ^ 64 * 2 ^ nat y) = Some (True, x * 2 ^ nat y mod 2 ^ 64)"
    by (simp add: arithmetic_def mod_mult_left_eq)
  from means_make [OF this] run(1)
  show "\<exists>v. expr_binary (cstr ''<<'') l r = (True, v) \<and> means v (True, x * 2 ^ nat y mod 2 ^ 64)" by blast
  have "in_type True (x mod 2 ^ 64 div 2 ^ nat y)" by (intro in_type_quotient) (simp add: in_type_def)
  then have "arithmetic True (x mod 2 ^ 64 div 2 ^ nat y) = Some (True, x mod 2 ^ 64 div 2 ^ nat y)"
    by (simp add: arithmetic_def in_type_def)
  from means_make [OF this] run(2)
  show "\<exists>v. expr_binary (cstr ''>>'') l r = (True, v) \<and> means v (True, x mod 2 ^ 64 div 2 ^ nat y)" by blast
next
  show "\<exists>v. expr_binary (cstr ''&&'') l r = (True, v) \<and> means v (False, of_bool (x \<noteq> 0 \<and> y \<noteq> 0))"
    "\<exists>v. expr_binary (cstr ''||'') l r = (True, v) \<and> means v (False, of_bool (x \<noteq> 0 \<or> y \<noteq> 0))"
    using logical_binary [OF assms] means_truth by blast+
next
  assume s: "s \<in> {''/'', ''%''}"
  have "y = 0 \<longleftrightarrow> ev_bits r = 0" using meansD(2) [OF assms(2)] zero_integer [of ur r] by auto
  then show "fst (expr_binary (cstr s) l r) = (y \<noteq> 0)" using s by (auto simp: division_valid)
qed

theorem operators_exact_witness:
  "(\<exists>v. expr_binary (cstr ''/'') (expr_make 7 False) (expr_make (- 2) False) = (True, v) \<and> means v (False, - 3)) \<and>
   c_binary ''>>'' (False, - 1) (True, 1) = Some (False, - 1) \<and>
   (\<exists>v. expr_binary (cstr ''>>'') (expr_make (- 1) False) (expr_make 1 True) = (True, v) \<and> means v (True, 2 ^ 63 - 1))"
proof -
  have m: "means (expr_make 7 False) (False, 7)" "means (expr_make (- 2) False) (False, - 2)"
    "means (expr_make (- 1) False) (False, - 1)" "means (expr_make 1 True) (True, 1)"
    by (simp_all add: means_def as_integer_def expr_make_def)
  have "c_binary ''/'' (False, 7) (False, - 2) = Some (False, - 3)"
    by (simp add: converted_def integer_relation_def integer_result_def arithmetic_def in_type_def signed_divide_int_def)
  with operators_exact [OF m(1,2), of "''/''" "(False, - 3)"] operators_exact [OF m(3,4), of "''/''" "(False, 0)"]
  show ?thesis by simp
qed

subsection \<open>The values of C\<close>

text \<open>
  The operator a token spells, the type of an expression (whether it is unsigned), and its value as C
  defines it (C11 6.10.1, 6.5.3 to 6.5.15): \<open>&&\<close>, \<open>||\<close> and \<open>?:\<close> evaluate only the operands they need,
  and \<open>?:\<close> converts its result to the common type of the two it chooses from. There is no value where
  C leaves it undefined. A constant has the value \<open>parse_constant\<close> reads.
\<close>

definition operator_of :: "token \<Rightarrow> string option" where
  "operator_of t = find (token_is t) (concat c_operators)"

definition constant_number :: "token \<Rightarrow> c_number" where
  "constant_number t = (let v = fst (parse_constant t) in (ev_unsigned v, as_integer (ev_unsigned v) v))"

fun c_type :: "expression \<Rightarrow> bool" where
  "c_type (Operand t) = fst (constant_number t)"
| "c_type (Prefixed t e) = (\<not> token_is t ''!'' \<and> c_type e)"
| "c_type (Joined l t r) =
     (if c_level t \<in> {1, 2, 6, 7} then False else if c_level t = 8 then c_type l else c_type l \<or> c_type r)"
| "c_type (Grouped p e q) = c_type e"
| "c_type (Chosen c p y q n) = (c_type y \<or> c_type n)"

fun c_value :: "expression \<Rightarrow> c_number option" where
  "c_value (Operand t) = Some (constant_number t)"
| "c_value (Prefixed t e) =
     (case c_value e of None \<Rightarrow> None
      | Some (u, x) \<Rightarrow>
          if token_is t ''!'' then Some (False, of_bool (x = 0))
          else if token_is t ''~'' then arithmetic u (NOT x)
          else if token_is t ''-'' then arithmetic u (- x) else Some (u, x))"
| "c_value (Joined l t r) =
     (case operator_of t of None \<Rightarrow> None
      | Some s \<Rightarrow>
        (case c_value l of None \<Rightarrow> None
         | Some (ul, x) \<Rightarrow>
             if s = ''&&'' \<and> x = 0 then Some (False, 0)
             else if s = ''||'' \<and> x \<noteq> 0 then Some (False, 1)
             else case c_value r of None \<Rightarrow> None
               | Some (ur, y) \<Rightarrow>
                   if s \<in> {''&&'', ''||''} then Some (False, of_bool (y \<noteq> 0)) else c_binary s (ul, x) (ur, y)))"
| "c_value (Grouped p e q) = c_value e"
| "c_value (Chosen c p y q n) =
     (case c_value c of None \<Rightarrow> None
      | Some (u, x) \<Rightarrow>
          map_option (\<lambda>(u, z). (c_type y \<or> c_type n, converted (c_type y \<or> c_type n) z))
            (if x \<noteq> 0 then c_value y else c_value n))"

text \<open>
  Expressions the code reads as C does: every operand has a value, whether C evaluates it or not, no
  conditional stands inside parentheses, no signed operand is shifted by an unsigned count, and no
  constant without a suffix is above \<open>INTMAX_MAX\<close>.
\<close>

fun settled :: "expression \<Rightarrow> bool" where
  "settled (Operand t) \<longleftrightarrow> 0 \<le> snd (constant_number t)"
| "settled (Prefixed t e) \<longleftrightarrow> settled e \<and> c_value (Prefixed t e) \<noteq> None"
| "settled (Joined l t r) \<longleftrightarrow> settled l \<and> settled r \<and> c_value (Joined l t r) \<noteq> None \<and>
     \<not> (c_level t = 8 \<and> \<not> c_type l \<and> c_type r)"
| "settled (Grouped p e q) \<longleftrightarrow> settled e \<and> \<not> chosen e"
| "settled (Chosen c p y q n) \<longleftrightarrow> settled c \<and> settled y \<and> settled n"

lemma byte_of_char: "(of_char a :: byte) = of_char b \<longleftrightarrow> a = b"
proof -
  have "unat (of_char c :: byte) = of_char c" for c
    using nat_of_char_less_256 [of c] of_nat_of_char [of c, where 'a = byte, symmetric] by (simp add: unat_of_nat)
  then show ?thesis by (metis of_char_eq_iff)
qed

lemma cstr_eq: "cstr a = cstr b \<longleftrightarrow> a = b"
  unfolding cstr_def by (rule inj_map_eq_map) (simp add: inj_def byte_of_char)

lemma operator_of_level:
  assumes "operator_of t = Some s"
  shows "tk_text t = cstr s" "c_level t = 8 \<longleftrightarrow> s \<in> {''<<'', ''>>''}"
    "c_level t \<in> {1, 2} \<longleftrightarrow> s \<in> {''&&'', ''||''}" "c_level t \<in> {6, 7} \<longleftrightarrow> s \<in> {''=='', ''!='', ''<'', ''>'', ''<='', ''>=''}"
proof -
  obtain i where i: "i < length (concat c_operators)" "token_is t (concat c_operators ! i)" "s = concat c_operators ! i"
    using assms unfolding operator_of_def find_Some_iff by blast
  then have spelled: "tk_text t = cstr s" and s: "s \<in> set (concat c_operators)"
    using nth_mem [OF i(1)] by (simp_all only: token_is_def)
  show "tk_text t = cstr s" by (fact spelled)
  have level: "c_level t = (if s = ''||'' then 1 else if s = ''&&'' then 2 else if s = ''|'' then 3 else if s = ''^'' then 4
      else if s = ''&'' then 5 else if s \<in> {''=='', ''!=''} then 6 else if s \<in> {''<'', ''>'', ''<='', ''>=''} then 7
      else if s \<in> {''<<'', ''>>''} then 8 else if s \<in> {''+'', ''-''} then 9 else if s \<in> {''*'', ''/'', ''%''} then 10 else 0)"
    by (simp add: c_operators_def token_is_def spelled cstr_eq)
  show "c_level t = 8 \<longleftrightarrow> s \<in> {''<<'', ''>>''}" unfolding level by auto
  show "c_level t \<in> {1, 2} \<longleftrightarrow> s \<in> {''&&'', ''||''}" unfolding level by auto
  show "c_level t \<in> {6, 7} \<longleftrightarrow> s \<in> {''=='', ''!='', ''<'', ''>'', ''<='', ''>=''}" unfolding level by auto
qed

lemma prefix_means:
  assumes "means v (u, x)" "c_value (Prefixed t e) = Some n" "c_value e = Some (u, x)" "is_prefix t"
  shows "means (prefix_value t v) n"
proof -
  have bits: "ev_bits v = word_of_int x" and u: "ev_unsigned v = u" and zero: "ev_bits v = 0 \<longleftrightarrow> x = 0"
    using meansD [OF assms(1)] zero_integer [of u v] by auto
  have with_bits: "v\<lparr>ev_bits := w\<rparr> = expr_make w u" for w using u by (cases v) (simp add: expr_make_def)
  have flip: "NOT (ev_bits v) = word_of_int (NOT x)" "- ev_bits v = word_of_int (- x)"
    unfolding bits by (simp_all add: not_eq_complement)
  consider (not) "token_is t ''!''" | (flip) "\<not> token_is t ''!''" "token_is t ''~''"
    | (minus) "\<not> token_is t ''!''" "\<not> token_is t ''~''" "token_is t ''-''"
    | (plus) "\<not> token_is t ''!''" "\<not> token_is t ''~''" "\<not> token_is t ''-''" by blast
  then show ?thesis
  proof cases
    case not
    then show ?thesis using assms(2,3) means_truth [of "x = 0"] by (auto simp: prefix_value_def zero)
  next
    case flip
    then have "arithmetic u (NOT x) = Some n" using assms(2,3) by simp
    with means_make [of u "NOT x" "fst n" "snd n"] have "means (expr_make (NOT (ev_bits v)) u) n" unfolding \<open>NOT (ev_bits v) = _\<close> by simp
    then show ?thesis using flip by (simp add: prefix_value_def with_bits)
  next
    case minus
    then have "arithmetic u (- x) = Some n" using assms(2,3) by simp
    with means_make [of u "- x" "fst n" "snd n"] have "means (expr_make (- ev_bits v) u) n" unfolding \<open>- ev_bits v = _\<close> by simp
    then show ?thesis using minus by (simp add: prefix_value_def with_bits)
  next
    case plus
    then show ?thesis using assms(1-3) by (simp add: prefix_value_def)
  qed
qed

lemma c_binary_type:
  assumes "c_binary s (ul, x) (ur, y) = Some (u, z)" "operator_of t = Some s" "s \<notin> {''&&'', ''||''}"
  shows "u = (if c_level t \<in> {1, 2, 6, 7} then False else if c_level t = 8 then ul else ul \<or> ur)"
proof -
  note L = operator_of_level [OF assms(2)]
  have "c_level t \<notin> {1, 2}" using L(3) assms(3) by blast
  then have not: "c_level t \<noteq> 1" "c_level t \<noteq> 2" by auto
  show ?thesis
  proof (cases "c_level t = 8")
    case True
    then have "s = ''<<'' \<or> s = ''>>''" using L(2) by simp
    then show ?thesis using assms(1) True by (auto simp: arithmetic_def split: if_splits)
  next
    case False
    then have plain: "s \<noteq> ''<<''" "s \<noteq> ''>>''" using L(2) by auto
    have rel: "integer_relation s a b = None \<longleftrightarrow> \<not> (c_level t = 6 \<or> c_level t = 7)" for a b
      using L(4) by (auto simp: integer_relation_def)
    show ?thesis using assms(1) plain False not rel
      by (auto simp: Let_def arithmetic_def split: if_splits option.splits)
  qed
qed

lemma settled_joined:
  assumes l: "means v (ul, x)" "c_value l = Some (ul, x)" "c_type l = ul" and r: "means w (ur, y)" "c_value r = Some (ur, y)" "c_type r = ur"
    and "settled (Joined l t r)" "c_value (Joined l t r) = Some (u, z)"
  shows "\<exists>q. expr_binary (tk_text t) v w = (True, q) \<and> means q (u, z) \<and> c_type (Joined l t r) = u"
proof -
  obtain s where s: "operator_of t = Some s" using assms(8) by (auto split: option.splits)
  note L = operator_of_level [OF s]
  show ?thesis
  proof (cases "s \<in> {''&&'', ''||''}")
    case True
    then have "c_level t \<in> {1, 2}" using L(3) by simp
    then have type: "\<not> c_type (Joined l t r)" by auto
    have "(u, z) = (False, of_bool (if s = ''&&'' then x \<noteq> 0 \<and> y \<noteq> 0 else x \<noteq> 0 \<or> y \<noteq> 0))"
      using assms(8) s l(2) r(2) True by (auto split: if_splits)
    then show ?thesis using True L(1) logical_binary [OF l(1) r(1)] means_truth type
      by (intro exI [of _ "expr_make (truth (if s = ''&&'' then x \<noteq> 0 \<and> y \<noteq> 0 else x \<noteq> 0 \<or> y \<noteq> 0)) False"]) auto
  next
    case False
    then have n: "c_binary s (ul, x) (ur, y) = Some (u, z)" using assms(8) s l(2) r(2) by (auto simp del: c_binary.simps)
    have "ul \<or> \<not> ur" if "s = ''<<'' \<or> s = ''>>''" using assms(7) that L(2) l(3) r(3) by auto
    then obtain q where q: "expr_binary (cstr s) v w = (True, q)" "means q (u, z)" using binary_means [OF l(1) r(1) n] by blast
    have "c_type (Joined l t r) = u" using c_binary_type [OF n s False] l(3) r(3) by simp
    then show ?thesis using q L(1) by simp
  qed
qed

text \<open>A settled expression has the value C gives it.\<close>

definition same_value :: "expression \<Rightarrow> c_number \<Rightarrow> expr_value \<Rightarrow> bool" where
  "same_value e n v \<longleftrightarrow> c_value e = Some n \<and> parsed_value e = Some v \<and> c_type e = fst n \<and> in_type (fst n) (snd n) \<and>
     ev_bits v = word_of_int (snd n) \<and> (chosen e \<or> means v n)"

lemma same_valueI: "means v n \<Longrightarrow> c_value e = Some n \<Longrightarrow> parsed_value e = Some v \<Longrightarrow> c_type e = fst n \<Longrightarrow> same_value e n v"
  using meansD(3) [of v "fst n" "snd n"] means_in_type [of v "fst n" "snd n"] by (simp add: same_value_def)

lemma same_valueD: "same_value e n v \<Longrightarrow> \<not> chosen e \<Longrightarrow> means v n"
  by (simp add: same_value_def)

lemma converted_in_type: "in_type w z \<Longrightarrow> w \<longrightarrow> u \<Longrightarrow> in_type u (converted u z) \<and> word_of_int (converted u z) = (word_of_int z :: u64)"
  by (auto simp: in_type_def converted_def word_of_int_eq_iff take_bit_eq_mod)

lemma settled_same: "derivable e \<Longrightarrow> settled e \<Longrightarrow> \<exists>n v. same_value e n v"
proof (induction e)
  case (Operand t)
  have "means (fst (parse_constant t)) (constant_number t)" by (simp add: means_def constant_number_def Let_def)
  from same_valueI [OF this, of "Operand t"] show ?case by (simp del: split_paired_Ex) blast
next
  case (Prefixed t e)
  then have "\<not> chosen e" using tight_not_chosen [of e] by simp
  moreover have "\<exists>n v. same_value e n v" using Prefixed by simp
  ultimately obtain n v where e: "same_value e n v" "\<not> chosen e" by blast
  obtain w where w: "c_value (Prefixed t e) = Some w" using Prefixed.prems(2) by auto
  have m: "means (prefix_value t v) w"
    using prefix_means [of v "fst n" "snd n" t e w] same_valueD [OF e] e(1) w Prefixed.prems(1) by (simp add: same_value_def)
  have "c_type (Prefixed t e) = fst w"
    using w e(1) by (cases n) (auto simp: same_value_def arithmetic_def split: if_splits)
  from same_valueI [OF m w _ this] e(1) show ?case by (auto simp: same_value_def)
next
  case (Joined l t r)
  have tight: "\<not> chosen l" "\<not> chosen r" using Joined.prems(1) tight_not_chosen [of l] tight_not_chosen [of r] by auto
  then obtain n v k w where l: "same_value l n v" "means v n" and r: "same_value r k w" "means w k"
    using Joined same_valueD by (metis derivable.simps(3) settled.simps(3))
  obtain m where m: "c_value (Joined l t r) = Some m" using Joined.prems(2) by auto
  from settled_joined [of v "fst n" "snd n" l w "fst k" "snd k" r t "fst m" "snd m"] l r m Joined.prems(2)
  obtain q where q: "expr_binary (tk_text t) v w = (True, q)" "means q m" "c_type (Joined l t r) = fst m"
    by (auto simp: same_value_def)
  have "parsed_value (Joined l t r) = Some q" using q(1) l(1) r(1) by (simp add: same_value_def)
  from same_valueI [OF q(2) m this q(3)] show ?case by blast
next
  case (Grouped p e q)
  then obtain n v where "same_value e n v" "\<not> chosen e" by auto
  then show ?case by (intro exI [of _ n] exI [of _ v]) (simp add: same_value_def)
next
  case (Chosen c p y q n)
  then have "\<exists>n v. same_value c n v" "\<exists>n v. same_value y n v" "\<exists>m v. same_value n m v" by simp_all
  then obtain nc vc ny vy nn vn where c': "same_value c nc vc" and y: "same_value y ny vy" and n: "same_value n nn vn" by blast
  have c: "same_value c nc vc" "means vc nc" using c' same_valueD [OF c'] Chosen.prems(1) by auto
  have zero: "ev_bits vc = 0 \<longleftrightarrow> snd nc = 0"
    using meansD(2) [of vc "fst nc" "snd nc"] zero_integer [of "fst nc" vc] c(2) by simp
  let ?u = "c_type y \<or> c_type n" and ?k = "if snd nc \<noteq> 0 then ny else nn" and ?v = "if snd nc \<noteq> 0 then vy else vn"
  have "in_type (fst ?k) (snd ?k)" "fst ?k \<longrightarrow> ?u" "ev_bits ?v = word_of_int (snd ?k)" using y n by (auto simp: same_value_def)
  with converted_in_type [of "fst ?k" "snd ?k" ?u]
  have k: "in_type ?u (converted ?u (snd ?k))" "ev_bits ?v = word_of_int (converted ?u (snd ?k))" by auto
  have "c_value (Chosen c p y q n) = Some (?u, converted ?u (snd ?k))" "parsed_value (Chosen c p y q n) = Some ?v"
    using c y n zero by (auto simp: same_value_def split: prod.splits)
  then show ?case using k by (intro exI [of _ "(?u, converted ?u (snd ?k))"] exI [of _ ?v]) (simp add: same_value_def)
qed

abbreviation (input) evaluated :: "token list \<Rightarrow> parsed option" where
  "evaluated ts \<equiv> expr_parse_conditional (expression_fuel ts) ts False"

text \<open>
  C34. Conditions have the value C gives them. For every expression of the C grammar, with its ten levels
  of binary operators grouping to the left, prefix operators, parentheses and conditionals, that is
  settled, parsing the tokens of its spelling succeeds, reads all of them and gives the number that C
  defines, with the type that C defines when it is not a conditional. Settled are the expressions all
  of whose operands have a value in C, the ones C does not evaluate included, without a conditional
  inside parentheses, a signed operand shifted by an unsigned count, or an unsuffixed constant from
  \<open>2 ^ 63\<close> on; constants have the value \<open>parse_integer_token\<close> and \<open>decode_character\<close> read. This holds with
  the fuel the evaluation of a directive uses.
\<close>

theorem expressions_follow_grammar:
  assumes "derivable e" and "settled e"
  shows "\<exists>u z v. c_value e = Some (u, z) \<and> in_type u z \<and> evaluated (spelling e) = Some (True, v, [], False) \<and>
    ev_bits v = word_of_int z \<and> (\<not> chosen e \<longrightarrow> ev_unsigned v = u)"
proof -
  obtain n v where v: "same_value e n v" using settled_same [OF assms] by blast
  then have "parsed_value e = Some v" by (simp add: same_value_def)
  from derivable_parsed(1) [OF assms(1) this] v show ?thesis
    by (intro exI [of _ "fst n"] exI [of _ "snd n"] exI [of _ v]) (auto simp: same_value_def means_def)
qed

abbreviation (input) number :: "string \<Rightarrow> token" where "number s \<equiv> plain_token TOKEN_NUMBER s"

lemma plain_kinds [simp]: "tk_kind (plain_token k s) = k" "tk_text (plain_token k s) = cstr s"
  by (simp_all add: plain_token_def)

lemma small_numbers:
  "parse_constant (number ''0'') = (expr_make 0 False, False)"
  "parse_constant (number ''1'') = (expr_make 1 False, False)"
  "parse_constant (number ''2'') = (expr_make 2 False, False)"
  "parse_constant (number ''3'') = (expr_make 3 False, False)"
  by (simp_all add: parse_constant_def parse_integer_token_def strtoull_def token_is_def cstr_def byte_at_def is_digit_in_def
      digit_value_def digits_value_def Let_def)

lemma small_constants:
  "constant_number (number ''0'') = (False, 0)" "constant_number (number ''1'') = (False, 1)"
  "constant_number (number ''2'') = (False, 2)" "constant_number (number ''3'') = (False, 3)"
  by (simp_all add: constant_number_def small_numbers expr_make_def as_integer_def)

lemma tokens_spelled [simp]: "token_is (plain_token k s) w \<longleftrightarrow> s = w"
  by (simp add: token_is_def cstr_eq)

text \<open>\<open>1 ? 3 - 2 * 1 : 2\<close>\<close>

theorem expressions_follow_grammar_witness:
  "\<exists>v. expr_parse_conditional 30 [number ''1'', punct ''?'', number ''3'', punct ''-'', number ''2'', punct ''*'', number ''1'',
     punct '':'', number ''2''] False = Some (True, v, [], False) \<and> ev_bits v = 1"
proof -
  let ?y = "Joined (Operand (number ''3'')) (punct ''-'') (Joined (Operand (number ''2'')) (punct ''*'') (Operand (number ''1'')))"
  let ?e = "Chosen (Operand (number ''1'')) (punct ''?'') ?y (punct '':'') (Operand (number ''2''))"
  have derivable: "derivable ?e" by (simp add: small_numbers is_prefix_def c_operators_def)
  have binary: "c_binary ''*'' (False, 2) (False, 1) = Some (False, 2)" "c_binary ''-'' (False, 3) (False, 2) = Some (False, 1)"
    by (simp_all add: Let_def converted_def integer_relation_def integer_result_def arithmetic_def in_type_def)
  have op: "operator_of (punct ''-'') = Some ''-''" "operator_of (punct ''*'') = Some ''*''"
    by (simp_all add: operator_of_def c_operators_def)
  have y: "c_value ?y = Some (False, 1)" by (simp add: small_constants op binary del: c_binary.simps)
  then have "settled ?e" by (simp add: small_constants op binary c_operators_def del: c_binary.simps)
  moreover have "c_value ?e = Some (False, 1)" unfolding c_value.simps(5) y by (simp add: small_constants converted_def)
  ultimately show ?thesis using expressions_follow_grammar [OF derivable] by (auto simp: expression_fuel_def)
qed

subsection \<open>Conditions that are rejected\<close>

fun parts :: "expression \<Rightarrow> expression list" where
  "parts (Operand t) = [Operand t]"
| "parts (Prefixed t e) = Prefixed t e # parts e"
| "parts (Joined l t r) = Joined l t r # parts l @ parts r"
| "parts (Grouped p e q) = Grouped p e q # parts e"
| "parts (Chosen c p y q n) = Chosen c p y q n # parts c @ parts y @ parts n"

text \<open>A parenthesised conditional, and a division or remainder by an expression whose value is zero.\<close>

fun refused :: "expression \<Rightarrow> bool" where
  "refused (Grouped p e q) \<longleftrightarrow> chosen e"
| "refused (Joined l t r) \<longleftrightarrow> (token_is t ''/'' \<or> token_is t ''%'') \<and> settled r \<and> map_option snd (c_value r) = Some 0"
| "refused e \<longleftrightarrow> False"

lemma parsed_value_parts: "sub \<in> set (parts e) \<Longrightarrow> parsed_value sub = None \<Longrightarrow> parsed_value e = None"
  by (induction e) (auto split: option.splits)

lemma parts_derivable: "derivable e \<Longrightarrow> sub \<in> set (parts e) \<Longrightarrow> derivable sub"
  by (induction e) auto

lemma refused_value:
  assumes "derivable e" "refused e"
  shows "parsed_value e = None"
proof (cases e)
  case (Joined l t r)
  then have d: "derivable r" "settled r" and t: "token_is t ''/'' \<or> token_is t ''%''" and z: "map_option snd (c_value r) = Some 0"
    using assms by auto
  obtain n v where v: "same_value r n v" using settled_same [OF d] by blast
  then have "ev_bits v = 0" "parsed_value r = Some v" using z by (auto simp: same_value_def)
  moreover have "\<not> fst (expr_binary (tk_text t) x v)" for x
    using t calculation(1) division_valid [of x v] by (auto simp: token_is_def)
  ultimately show ?thesis unfolding Joined
    by (auto split: option.splits prod.splits bool.splits) (metis fst_conv)
qed (use assms in auto)

text \<open>
  C36. What the code rejects although C may not. A condition that derives from the C grammar is rejected
  when a conditional expression stands in parentheses anywhere in it, since a parenthesis is parsed as
  a binary expression only; and when anywhere in it something is divided by a settled operand of value
  zero, since the code evaluates the operands of \<open>&&\<close>, \<open>||\<close> and \<open>?:\<close> that C does not.
\<close>

theorem conditions_misread:
  assumes "derivable e" and "sub \<in> set (parts e)" and "refused sub"
  shows "\<exists>v us. evaluated (spelling e) = Some (False, v, us, True)"
  using derivable_parsed(2) [OF assms(1) parsed_value_parts [OF assms(2) refused_value [OF parts_derivable [OF assms(1,2)] assms(3)]]] .

text \<open>\<open>0 && 1 / 0\<close> has the value 0 in C, and \<open>(1 ? 2 : 3)\<close> the value 2.\<close>

theorem conditions_misread_witness:
  "c_value (Joined (Operand (number ''0'')) (punct ''&&'') (Joined (Operand (number ''1'')) (punct ''/'') (Operand (number ''0'')))) = Some (False, 0) \<and>
   (\<exists>v us. evaluated [number ''0'', punct ''&&'', number ''1'', punct ''/'', number ''0''] = Some (False, v, us, True)) \<and>
   c_value (Grouped (punct ''('') (Chosen (Operand (number ''1'')) (punct ''?'') (Operand (number ''2'')) (punct '':'') (Operand (number ''3''))) (punct '')'')) = Some (False, 2) \<and>
   (\<exists>v us. evaluated [punct ''('', number ''1'', punct ''?'', number ''2'', punct '':'', number ''3'', punct '')''] = Some (False, v, us, True))"
proof -
  let ?d = "Joined (Operand (number ''1'')) (punct ''/'') (Operand (number ''0''))"
  let ?e = "Joined (Operand (number ''0'')) (punct ''&&'') ?d"
  let ?g = "Grouped (punct ''('') (Chosen (Operand (number ''1'')) (punct ''?'') (Operand (number ''2'')) (punct '':'') (Operand (number ''3''))) (punct '')'')"
  have "derivable ?e" "?d \<in> set (parts ?e)" "refused ?d"
    by (simp_all add: small_numbers small_constants is_prefix_def c_operators_def)
  note e = conditions_misread [OF this]
  have "derivable ?g" "?g \<in> set (parts ?g)" "refused ?g"
    by (simp_all add: small_numbers small_constants is_prefix_def c_operators_def)
  note g = conditions_misread [OF this]
  have "c_value ?e = Some (False, 0)" "c_value ?g = Some (False, 2)"
    by (simp_all add: small_constants operator_of_def c_operators_def converted_def)
  then show ?thesis using e g by simp
qed

end
