(* ===== verification/Pre_Directive.thy ===== *)
theory Pre_Directive
  imports Pre_Expr
begin

text \<open>
  Directives of the preprocessor (\<open>src/src/frontend/preprocessor.c\<close>): macro definitions, file inclusion,
  the stack of conditionals, the loop over a source, and the entry points of the preprocessor. Reading
  files is the parameter \<open>files\<close>, as in the source manager. A stack has its innermost entry first. No
  value means that lexing used a token that was never filled.
\<close>

subsection \<open>Macro definitions\<close>

text \<open>\<open>sizeof\<close> of a macro, seven words, and of a parameter.\<close>

abbreviation (input) SIZEOF_MACRO :: nat where "SIZEOF_MACRO \<equiv> 56"
abbreviation (input) SIZEOF_PARAMETER :: nat where "SIZEOF_PARAMETER \<equiv> 8"

definition pp_alloc :: "preprocessor \<Rightarrow> nat \<Rightarrow> nat \<Rightarrow> bool \<times> preprocessor" where
  "pp_alloc pp n sz = (case arena_alloc_array (pp_arena pp) n sz of (p, ar) \<Rightarrow> (p \<noteq> None, pp\<lparr>pp_arena := ar\<rparr>))"

text \<open>
  The parameters after an opening parenthesis: their names, whether they end in \<open>...\<close>, and the
  tokens after the closing parenthesis.
\<close>

function macro_parameters ::
  "preprocessor \<Rightarrow> token \<Rightarrow> cstring list \<Rightarrow> bool \<Rightarrow> token list \<Rightarrow> (cstring list \<times> bool \<times> token list) option \<times> preprocessor" where
  "macro_parameters pp directive names variadic [] =
     (None, pp_emit pp 1112 (Some directive) (cstr ''expected ')' in macro parameters''))"
| "macro_parameters pp directive names variadic (t # ts) =
     (if token_is t '')'' then (Some (names, variadic, ts), pp)
      else if token_is t ''...'' then
        (case pp_alloc pp 1 SIZEOF_PARAMETER of
           (False, pp) \<Rightarrow> (None, pp)
         | (True, pp) \<Rightarrow>
           (case pp_alloc pp (length names + 1) SIZEOF_PARAMETER of
              (False, pp) \<Rightarrow> (None, pp)
            | (True, pp) \<Rightarrow>
                macro_parameters pp directive (names @ [cstr ''__VA_ARGS__'']) True (if head_is ts '','' then tl ts else ts)))
      else if tk_kind t \<noteq> TOKEN_IDENTIFIER then
        (None, pp_emit pp 1111 (Some t) (cstr ''macro parameter must be an identifier''))
      else
        (case pp_alloc pp (length names + 1) SIZEOF_PARAMETER of
           (False, pp) \<Rightarrow> (None, pp)
         | (True, pp) \<Rightarrow>
             if head_is ts '','' then macro_parameters pp directive (names @ [tk_text t]) variadic (tl ts)
             else if \<not> head_is ts '')'' then
               (None, pp_emit pp 1112 (Some directive) (cstr ''expected ')' in macro parameters''))
             else macro_parameters pp directive (names @ [tk_text t]) variadic ts))"
  by pat_completeness auto
termination
  by (relation "measure (\<lambda>(pp, directive, names, variadic, ts). length ts)") (auto simp: less_Suc_eq_le)

declare macro_parameters.simps(2) [simp del]

text \<open>The name, its parameters and its body.\<close>

definition parse_macro_definition :: "preprocessor \<Rightarrow> token list \<Rightarrow> token \<Rightarrow> bool \<times> preprocessor" where
  "parse_macro_definition pp body directive =
     (case body of
        [] \<Rightarrow> (False, pp_emit pp 1110 (Some directive) (cstr ''macro name must be an identifier''))
      | t # ts \<Rightarrow>
        if tk_kind t \<noteq> TOKEN_IDENTIFIER then
          (False, pp_emit pp 1110 (Some directive) (cstr ''macro name must be an identifier''))
        else case arena_alloc (pp_arena pp) SIZEOF_MACRO of
            (None, ar) \<Rightarrow> (False, pp\<lparr>pp_arena := ar\<rparr>)
          | (Some p, ar) \<Rightarrow>
            let pp = pp\<lparr>pp_arena := ar\<rparr>;
                function_like = (head_is ts ''('' \<and> tk_flags (hd ts) AND TOKEN_FLAG_SPACE = 0)
            in case (if function_like then macro_parameters pp directive [] False (tl ts) else (Some ([], False, ts), pp)) of
                (None, pp) \<Rightarrow> (False, pp)
              | (Some (names, variadic, ts), pp) \<Rightarrow>
                (case (if ts = [] then (True, pp) else pp_alloc pp (length ts) SIZEOF_TOKEN) of
                   (False, pp) \<Rightarrow> (False, pp)
                 | (True, pp) \<Rightarrow>
                     (True, pp\<lparr>pp_macros := define_macro (pp_macros pp)
                        \<lparr>ma_name = tk_text t, ma_function_like = function_like, ma_variadic = variadic,
                         ma_parameters = names, ma_body = ts\<rparr>\<rparr>)))"

subsection \<open>File names\<close>

definition source_path_join :: "cstring option \<Rightarrow> cstring \<Rightarrow> cstring" where
  "source_path_join directory name =
     (case directory of None \<Rightarrow> name
      | Some d \<Rightarrow>
        if byte_at name 0 = 47 \<or> d = [] \<or> d = [46] then name
        else d @ (if last d = 47 then [] else [47]) @ name)"

definition source_directory :: "cstring \<Rightarrow> cstring" where
  "source_directory path =
     (if 47 \<notin> set path then [46]
      else let d = rev (tl (dropWhile (\<lambda>b. b \<noteq> 47) (rev path))) in if d = [] then [47] else d)"

text \<open>The name between angle brackets: the texts of its tokens up to the closing bracket.\<close>

fun angled_name :: "token list \<Rightarrow> cstring \<Rightarrow> cstring option" where
  "angled_name [] name = None"
| "angled_name (t # ts) name = (if token_is t ''>'' then Some name else angled_name ts (name @ tk_text t))"

text \<open>The name, and whether it stands in angle brackets.\<close>

definition include_text :: "preprocessor \<Rightarrow> token list \<Rightarrow> token \<Rightarrow> cstring option \<times> bool \<times> preprocessor" where
  "include_text pp body directive =
     (case body of
        [] \<Rightarrow> (None, False, pp_emit pp 1120 (Some directive) (cstr ''#include expects a file name''))
      | t # ts \<Rightarrow>
        if tk_kind t = TOKEN_STRING \<and> byte_at (tk_text t) 0 = 34 then
          (if length (tk_text t) < 2 then None else Some (butlast (tl (tk_text t))), False, pp)
        else if token_is t ''<'' \<and> angled_name ts [] \<noteq> None then (angled_name ts [], True, pp)
        else (None, token_is t ''<'', pp_emit pp 1120 (Some directive) (cstr ''malformed #include file name'')))"

text \<open>The part of a name after its last separator; nothing when it has none or ends in one.\<close>

definition name_leaf :: "cstring \<Rightarrow> cstring option" where
  "name_leaf name =
     (if 47 \<notin> set name \<and> 92 \<notin> set name then None
      else let leaf = rev (takeWhile (\<lambda>b. b \<noteq> 47 \<and> b \<noteq> 92) (rev name)) in if leaf = [] then None else Some leaf)"

text \<open>The files to try in turn: the name as it is, and then its last part alone.\<close>

definition include_candidates :: "preprocessor \<Rightarrow> source \<Rightarrow> cstring \<Rightarrow> bool \<Rightarrow> cstring list" where
  "include_candidates pp source name angled =
     (let paths = map Some (po_include_paths (pp_options pp));
          here = (\<lambda>d n. source_path_join (Some d) n # (if angled then [] else [source_path_join (Some [46]) n]) @
            map (\<lambda>path. source_path_join path n) paths)
      in here (if angled then [46] else source_directory (so_path source)) name @
         (case name_leaf name of None \<Rightarrow> [] | Some leaf \<Rightarrow> here [46] leaf))"

type_synonym files = "(cstring \<Rightarrow> byte list option) \<times> (cstring \<Rightarrow> bool)"

fun first_loaded :: "files \<Rightarrow> preprocessor \<Rightarrow> cstring list \<Rightarrow> source option \<times> preprocessor" where
  "first_loaded files pp [] = (None, pp)"
| "first_loaded files pp (path # paths) =
     (case source_manager_load (fst files) (snd files) ((pp_sources pp)\<lparr>sm_arena := pp_arena pp\<rparr>) path of (found, sm) \<Rightarrow>
      let pp = pp\<lparr>pp_sources := sm, pp_arena := sm_arena sm\<rparr> in
      if found = None then first_loaded files pp paths else (found, pp))"

subsection \<open>Directives\<close>

record cond_state =
  cs_parent_active :: bool
  cs_active :: bool
  cs_seen_true :: bool
  cs_line :: u32

definition is_active :: "cond_state list \<Rightarrow> bool" where
  "is_active stack \<longleftrightarrow> stack = [] \<or> cs_active (hd stack)"

text \<open>What processing a source gives: whether it went well, the state and the output.\<close>

type_synonym processed = "(bool \<times> preprocessor \<times> token_list) option"

text \<open>The newline that is put behind an included file.\<close>

definition closing_newline :: "token_list \<Rightarrow> source \<Rightarrow> token" where
  "closing_newline out included =
     (case token_list_last out of
        None \<Rightarrow> \<lparr>tk_kind = TOKEN_NEWLINE, tk_flags = 0, tk_source = included, tk_start = 0, tk_end = 0, tk_line = 1,
          tk_column = 1, tk_text = [10], tk_hideset = None\<rparr>
      | Some t \<Rightarrow> t\<lparr>tk_kind := TOKEN_NEWLINE, tk_source := included, tk_line := 1, tk_column := 1, tk_text := [10],
          tk_hideset := None\<rparr>)"

definition process_include ::
  "files \<Rightarrow> (preprocessor \<Rightarrow> source \<Rightarrow> token_list \<Rightarrow> processed) \<Rightarrow> preprocessor \<Rightarrow> source \<Rightarrow> token list \<Rightarrow> token \<Rightarrow> token_list \<Rightarrow> processed" where
  "process_include files nested pp source body directive out =
     (case include_text pp body directive of
        (None, angled, pp) \<Rightarrow> Some (False, pp, out)
      | (Some name, angled, pp) \<Rightarrow>
        if length (pp_include_stack pp) \<ge> CC64_PP_MAX_INCLUDE_DEPTH then
          Some (False, pp_emit pp 1121 (Some directive) (cstr ''include depth limit exceeded''), out)
        else case first_loaded files pp (include_candidates pp source name angled) of
            (None, pp) \<Rightarrow> Some (False, pp_emit pp 1122 (Some directive) (cstr ''cannot open include file''), out)
          | (Some included, pp) \<Rightarrow>
            if so_path included \<in> set (pp_include_stack pp) then
              Some (False, pp_emit pp 1123 (Some directive) (cstr ''include cycle detected''), out)
            else case nested (pp\<lparr>pp_include_stack := so_path included # pp_include_stack pp\<rparr>) included out of
                None \<Rightarrow> None
              | Some (good, pp, out) \<Rightarrow>
                (case (if good \<and> po_preserve_newlines (pp_options pp) \<and>
                          (case token_list_last out of None \<Rightarrow> True | Some t \<Rightarrow> tk_kind t \<noteq> TOKEN_NEWLINE)
                       then output_push pp out (closing_newline out included) else (good, pp, out)) of
                   (good, pp, out) \<Rightarrow> Some (good, pp\<lparr>pp_include_stack := tl (pp_include_stack pp)\<rparr>, out)))"

text \<open>A conditional opened by \<open>#if\<close>, \<open>#ifdef\<close> or \<open>#ifndef\<close>.\<close>

definition open_conditional :: "cond_state list \<Rightarrow> bool \<Rightarrow> u32 \<Rightarrow> cond_state list" where
  "open_conditional stack holds line =
     (let active = is_active stack in
      \<lparr>cs_parent_active = active, cs_active = active \<and> holds, cs_seen_true = active \<and> holds, cs_line = line\<rparr> # stack)"

text \<open>The text of an \<open>#error\<close>: the texts of the tokens, a space between two.\<close>

fun error_message :: "token list \<Rightarrow> cstring" where
  "error_message [] = []"
| "error_message [t] = tk_text t"
| "error_message (t # ts) = tk_text t @ 32 # error_message ts"

text \<open>\<open>#line\<close>: the line counted from then on, and the file named from then on.\<close>

definition process_line :: "preprocessor \<Rightarrow> token list \<Rightarrow> token \<Rightarrow> u32 \<Rightarrow> bool \<times> preprocessor" where
  "process_line pp body directive directive_line =
     (case body of
        [] \<Rightarrow> (False, pp_emit pp 1129 (Some directive) (cstr ''#line expects a line number''))
      | t # ts \<Rightarrow>
        if tk_kind t \<noteq> TOKEN_NUMBER then (False, pp_emit pp 1129 (Some directive) (cstr ''#line expects a line number''))
        else case strtoull 10 (tk_text t) of (n, rest, over) \<Rightarrow>
          if rest = tk_text t \<or> rest \<noteq> [] \<or> n = 0 then
            (False, pp_emit pp 1129 (Some directive) (cstr ''invalid #line number''))
          else if n > 2 ^ 63 - 1 then
            (False, pp_emit pp 1129 (Some directive) (cstr ''#line number is too large''))
          else
            let pp = pp\<lparr>pp_line_delta := n - ucast directive_line - 1\<rparr> in
            (True, if ts \<noteq> [] \<and> tk_kind (hd ts) = TOKEN_STRING \<and> byte_at (tk_text (hd ts)) 0 = 34
                   then pp\<lparr>pp_display_path := Some (butlast (tl (tk_text (hd ts))))\<rparr> else pp))"

text \<open>
  A directive: whether it went well, the state, the stack of conditionals and the output. Conditional
  directives work on the stack everywhere; the others do nothing in a group that is skipped.
\<close>

type_synonym directed = "(bool \<times> preprocessor \<times> cond_state list \<times> token_list) option"

definition conditional_directive ::
  "preprocessor \<Rightarrow> token \<Rightarrow> token list \<Rightarrow> u32 \<Rightarrow> cond_state list \<Rightarrow> (bool \<times> preprocessor \<times> cond_state list) option option" where
  "conditional_directive pp directive body directive_line stack =
     (let name = tk_text directive; active = is_active stack in
      if name = cstr ''if'' then
        Some (case (if active then evaluate_expression pp body directive else Some (False, pp)) of
           None \<Rightarrow> None
         | Some (holds, pp) \<Rightarrow> Some (True, pp, open_conditional stack holds directive_line))
      else if name = cstr ''ifdef'' \<or> name = cstr ''ifndef'' then
        let defined = (body \<noteq> [] \<and> find_macro pp (hd body) \<noteq> None) in
        Some (Some (True, pp, open_conditional stack (if name = cstr ''ifdef'' then defined else \<not> defined) directive_line))
      else if name = cstr ''elif'' then
        Some (case stack of
           [] \<Rightarrow> Some (False, pp_emit pp 1124 (Some directive) (cstr ''#elif without #if''), stack)
         | c # cs \<Rightarrow>
           if cs_seen_true c \<or> \<not> cs_parent_active c then Some (True, pp, c\<lparr>cs_active := False\<rparr> # cs)
           else case evaluate_expression pp body directive of
               None \<Rightarrow> None
             | Some (holds, pp) \<Rightarrow> Some (True, pp, c\<lparr>cs_active := holds, cs_seen_true := holds\<rparr> # cs))
      else if name = cstr ''else'' then
        Some (case stack of
           [] \<Rightarrow> Some (False, pp_emit pp 1125 (Some directive) (cstr ''#else without #if''), stack)
         | c # cs \<Rightarrow>
           Some (True, pp, (if cs_seen_true c then c\<lparr>cs_active := False\<rparr>
             else c\<lparr>cs_active := cs_parent_active c, cs_seen_true := True\<rparr>) # cs))
      else if name = cstr ''endif'' then
        Some (case stack of
           [] \<Rightarrow> Some (False, pp_emit pp 1126 (Some directive) (cstr ''#endif without #if''), stack)
         | c # cs \<Rightarrow> Some (True, pp, cs))
      else None)"

definition plain_directive ::
  "files \<Rightarrow> (preprocessor \<Rightarrow> source \<Rightarrow> token_list \<Rightarrow> processed) \<Rightarrow> preprocessor \<Rightarrow> source \<Rightarrow> token \<Rightarrow> token list \<Rightarrow> u32 \<Rightarrow>
     token_list \<Rightarrow> processed" where
  "plain_directive files nested pp source directive body directive_line out =
     (let name = tk_text directive in
      if name = cstr ''define'' then
        (case parse_macro_definition pp body directive of (good, pp) \<Rightarrow> Some (good, pp, out))
      else if name = cstr ''undef'' then
        (if body = [] \<or> tk_kind (hd body) \<noteq> TOKEN_IDENTIFIER then
           Some (False, pp_emit pp 1127 (Some directive) (cstr ''#undef expects a macro name''), out)
         else Some (True, pp\<lparr>pp_macros := undef_macro (pp_macros pp) (tk_text (hd body))\<rparr>, out))
      else if name = cstr ''include'' then
        (case expand_range CC64_PP_MAX_MACRO_DEPTH pp
            \<lparr>ec_source = Some source, ec_invocation_line = 0, ec_has_invocation = False, ec_hideset = None\<rparr>
            None body token_list_init of
           (False, pp, expanded) \<Rightarrow> Some (False, pp, out)
         | (True, pp, expanded) \<Rightarrow> process_include files nested pp source (tl_items expanded) directive out)
      else if name = cstr ''error'' then Some (False, pp_emit pp 1128 (Some directive) (error_message body), out)
      else if name = cstr ''line'' then
        (case process_line pp body directive directive_line of (good, pp) \<Rightarrow> Some (good, pp, out))
      else if name = cstr ''pragma'' \<or> name = cstr ''ident'' \<or> name = cstr ''sccs'' then Some (True, pp, out)
      else Some (False, pp_emit pp 1130 (Some directive)
             (take 511 (cstr ''unknown preprocessing directive '' @ [39] @ name @ [39])), out))"

definition process_directive ::
  "files \<Rightarrow> (preprocessor \<Rightarrow> source \<Rightarrow> token_list \<Rightarrow> processed) \<Rightarrow> preprocessor \<Rightarrow> source \<Rightarrow> token list \<Rightarrow> u32 \<Rightarrow> cond_state list \<Rightarrow>
     token_list \<Rightarrow> directed" where
  "process_directive files nested pp source line directive_line stack out =
     (case line of
        [] \<Rightarrow> Some (True, pp, stack, out)
      | directive # body \<Rightarrow>
        if tk_kind directive = TOKEN_NEWLINE then Some (True, pp, stack, out)
        else case conditional_directive pp directive body directive_line stack of
            Some r \<Rightarrow> map_option (\<lambda>(good, pp, stack). (good, pp, stack, out)) r
          | None \<Rightarrow>
            if \<not> is_active stack then Some (True, pp, stack, out)
            else map_option (\<lambda>(good, pp, out). (good, pp, stack, out))
                   (plain_directive files nested pp source directive body directive_line out))"

subsection \<open>A source\<close>

text \<open>The tokens of a directive's line, and the tokens after the line and its newline.\<close>

definition in_line :: "token \<Rightarrow> bool" where
  "in_line t \<longleftrightarrow> tk_kind t \<noteq> TOKEN_NEWLINE \<and> tk_flags t AND TOKEN_FLAG_BOL = 0"

definition after_line :: "token list \<Rightarrow> token list" where
  "after_line ts = (case dropWhile in_line ts of [] \<Rightarrow> [] | t # rest \<Rightarrow> if tk_kind t = TOKEN_NEWLINE then rest else t # rest)"

definition is_conditional_name :: "token \<Rightarrow> bool" where
  "is_conditional_name t \<longleftrightarrow> list_ex (token_is t) [''if'', ''ifdef'', ''ifndef'', ''elif'', ''else'', ''endif'']"

lemma after_line_le: "length (after_line ts) \<le> length ts"
  using length_dropWhile_le [of in_line ts] by (auto simp: after_line_def split: list.split)

lemma expand_macro_at_le:
  "expand_macro_at pp context t ts out = (True, rest, pp', out') \<Longrightarrow> tk_kind t \<noteq> TOKEN_NEWLINE \<Longrightarrow> length rest \<le> length ts"
  by (auto simp: expand_macro_at_def split: if_splits option.splits prod.splits dest!: parse_arguments_less)

text \<open>The loop over the tokens: whether it went well, the state, the stack and the output at the end.\<close>

function source_loop ::
  "files \<Rightarrow> (preprocessor \<Rightarrow> source \<Rightarrow> token_list \<Rightarrow> processed) \<Rightarrow> source \<Rightarrow> preprocessor \<Rightarrow> token list \<Rightarrow> cond_state list \<Rightarrow>
     token_list \<Rightarrow> directed" where
  "source_loop files nested source pp [] stack out = Some (True, pp, stack, out)"
| "source_loop files nested source pp (t # ts) stack out =
     (if tk_kind t = TOKEN_EOF then Some (True, pp, stack, out)
      else if tk_kind t = TOKEN_NEWLINE then
        (if is_active stack \<and> po_preserve_newlines (pp_options pp) then
           (case output_push pp out t of
              (False, pp, out) \<Rightarrow> Some (False, pp, stack, out)
            | (True, pp, out) \<Rightarrow> source_loop files nested source pp ts stack out)
         else source_loop files nested source pp ts stack out)
      else if tk_flags t AND TOKEN_FLAG_BOL \<noteq> 0 \<and> token_is t ''#'' then
        let line = takeWhile in_line ts in
        if line \<noteq> [] \<and> \<not> is_active stack \<and> \<not> is_conditional_name (hd line) then
          source_loop files nested source pp (dropWhile in_line ts) stack out
        else
          (case process_directive files nested pp source line (tk_line t) stack out of
             None \<Rightarrow> None
           | Some (False, pp, stack, out) \<Rightarrow> Some (False, pp, stack, out)
           | Some (True, pp, stack, out) \<Rightarrow> source_loop files nested source pp (after_line ts) stack out)
      else if \<not> is_active stack then source_loop files nested source pp ts stack out
      else
        (case expand_macro_at pp
            \<lparr>ec_source = Some source, ec_invocation_line = 0, ec_has_invocation = False, ec_hideset = None\<rparr> t ts out of
           (False, rest, pp, out) \<Rightarrow> Some (False, pp, stack, out)
         | (True, rest, pp, out) \<Rightarrow> source_loop files nested source pp rest stack out))"
  by pat_completeness auto
termination
proof (relation "measure (\<lambda>(files, nested, source, pp, ts, stack, out). length ts)", goal_cases)
  case 4
  then show ?case by (auto simp: length_dropWhile_le le_imp_less_Suc)
next
  case (5 files nested source pp t ts stack out)
  then show ?case using after_line_le [of ts] by (simp add: le_imp_less_Suc)
next
  case (7 files nested source pp t ts stack out)
  then show ?case by (auto dest!: expand_macro_at_le [OF sym] simp: le_imp_less_Suc)
qed auto

declare source_loop.simps(2) [simp del]

text \<open>
  A source, included files and all, with \<open>levels\<close> more levels of inclusion; \<open>process_include\<close> stops at
  32 entries of the include stack, so levels above 33 are never used.
\<close>

fun process_source :: "nat \<Rightarrow> files \<Rightarrow> preprocessor \<Rightarrow> source \<Rightarrow> token_list \<Rightarrow> processed" where
  "process_source 0 files pp source out = None"
| "process_source (Suc levels) files pp source out =
     (case lex_source_marked (pp_arena pp) source (pp_diagnostics pp) (po_preserve_newlines (pp_options pp)) of
        None \<Rightarrow> None
      | Some (lexed, raw, ar, sink) \<Rightarrow>
        let pp = pp\<lparr>pp_arena := ar, pp_diagnostics := sink\<rparr> in
        if \<not> lexed then Some (False, pp, out)
        else case source_loop files (process_source levels files) source
            (pp\<lparr>pp_display_path := Some (so_path source), pp_line_delta := 0\<rparr>) (tl_items raw) [] out of
          None \<Rightarrow> None
        | Some (good, pp', stack, out) \<Rightarrow>
          let restored = pp'\<lparr>pp_display_path := pp_display_path pp, pp_line_delta := pp_line_delta pp\<rparr> in
          if stack = [] then Some (good, restored, out)
          else Some (False, restored\<lparr>pp_diagnostics := diagnostic_emit (pp_diagnostics restored)
            \<lparr>dg_id = 1131, dg_phase = DIAG_PREPROCESS, dg_source = Some source, dg_line = 1, dg_column = 1,
             dg_message = cstr ''unterminated conditional directive''\<rparr>\<rparr>, out))"

subsection \<open>Entry points\<close>

fun is_name_from :: "nat \<Rightarrow> cstring \<Rightarrow> bool" where
  "is_name_from k [] \<longleftrightarrow> True"
| "is_name_from k (b # bs) \<longleftrightarrow>
     ((b \<ge> 97 \<and> b \<le> 122) \<or> (b \<ge> 65 \<and> b \<le> 90) \<or> b = 95 \<or> (k \<noteq> 0 \<and> b \<ge> 48 \<and> b \<le> 57)) \<and> is_name_from (k + 1) bs"

definition is_valid_macro_name :: "cstring \<Rightarrow> bool" where
  "is_valid_macro_name name \<longleftrightarrow> name \<noteq> [] \<and> is_name_from 0 name"

text \<open>
  A definition \<open>NAME\<close> or \<open>NAME=VALUE\<close>, read as the line \<open>#define NAME VALUE\<close>. There is no value when no
  source can be added: the C code lexes a null source then.
\<close>

definition preprocessor_define_text :: "preprocessor \<Rightarrow> cstring \<Rightarrow> preprocessor option" where
  "preprocessor_define_text pp definition_text =
     (let name = takeWhile (\<lambda>b. b \<noteq> 61) definition_text;
          expanded = (case dropWhile (\<lambda>b. b \<noteq> 61) definition_text of [] \<Rightarrow> None | b # v \<Rightarrow> Some v)
      in if \<not> is_valid_macro_name name then
           Some ((pp_emit pp 1135 None (cstr ''invalid command-line macro name''))\<lparr>pp_rejected_definition := True\<rparr>)
         else
           let line = cstr ''#define '' @ name @ (case expanded of None \<Rightarrow> [] | Some v \<Rightarrow> 32 # v) in
           case source_manager_add ((pp_sources pp)\<lparr>sm_arena := pp_arena pp\<rparr>) (Some (cstr ''<command-line>'')) line of
             (None, sm) \<Rightarrow> None
           | (Some source, sm) \<Rightarrow>
             (case lex_source_marked (sm_arena sm) source (pp_diagnostics pp) (po_preserve_newlines (pp_options pp)) of
                None \<Rightarrow> None
              | Some (lexed, raw, ar, sink) \<Rightarrow>
                let pp = pp\<lparr>pp_sources := sm, pp_arena := ar, pp_diagnostics := sink\<rparr> in
                if \<not> lexed then Some pp
                else
                  let tokens = rev (dropWhile (\<lambda>t. tk_kind t = TOKEN_EOF) (rev (tl_items raw)))
                  in Some (snd (parse_macro_definition pp (drop 2 tokens) (hd (tl_items raw))))))"

fun define_all :: "preprocessor \<Rightarrow> cstring list \<Rightarrow> preprocessor option" where
  "define_all pp [] = Some pp"
| "define_all pp (d # ds) = (case preprocessor_define_text pp d of None \<Rightarrow> None | Some pp \<Rightarrow> define_all pp ds)"

definition define_predefined :: "preprocessor \<Rightarrow> preprocessor option" where
  "define_predefined pp = define_all pp (map cstr
     [''__CC64__=1'', ''__CC64_TARGET__=1'', ''__STDC__=1'', ''__STDC_VERSION__=201710L'', ''__STDC_HOSTED__=0''])"

text \<open>\<open>sizeof\<close> of the preprocessor.\<close>

abbreviation (input) SIZEOF_PREPROCESSOR :: nat where "SIZEOF_PREPROCESSOR \<equiv> 128"

text \<open>The preprocessor, or none when the arena is full.\<close>

definition preprocessor_create ::
  "arena \<Rightarrow> source_manager \<Rightarrow> diagnostic_sink \<Rightarrow> pp_options \<Rightarrow> preprocessor option option" where
  "preprocessor_create ar sources sink options =
     (case arena_alloc ar SIZEOF_PREPROCESSOR of
        (None, ar) \<Rightarrow> Some None
      | (Some p, ar) \<Rightarrow>
        (case define_predefined \<lparr>pp_arena = ar, pp_sources = sources, pp_diagnostics = sink, pp_options = options, pp_macros = [],
             pp_token_count = 0, pp_include_stack = [], pp_line_delta = 0, pp_display_path = None, pp_rejected_definition = False\<rparr> of
           None \<Rightarrow> None
         | Some pp \<Rightarrow> map_option Some (define_all pp (po_predefines options))))"

definition end_token :: "source \<Rightarrow> token" where
  "end_token source = \<lparr>tk_kind = TOKEN_EOF, tk_flags = 0, tk_source = source, tk_start = 0, tk_end = 0, tk_line = 1, tk_column = 1,
     tk_text = [], tk_hideset = None\<rparr>"

definition preprocessor_run :: "files \<Rightarrow> preprocessor \<Rightarrow> source \<Rightarrow> token_list \<Rightarrow> processed" where
  "preprocessor_run files pp source out =
     (let pp = pp\<lparr>pp_include_stack := [so_path source]\<rparr> in
      case (if pp_rejected_definition pp then Some (False, pp, out)
            else process_source CC64_PP_MAX_INCLUDE_DEPTH files pp source out) of
        None \<Rightarrow> None
      | Some (good, pp, out) \<Rightarrow>
        (case (if good then output_push pp out (end_token source) else (False, pp, out)) of
           (good, pp, out) \<Rightarrow> Some (good, pp\<lparr>pp_include_stack := []\<rparr>, token_list_classify_keywords out)))"

text \<open>Whether a source was preprocessed, and its tokens; a run that fails leaves an empty list.\<close>

definition preprocess_source ::
  "files \<Rightarrow> arena \<Rightarrow> source_manager \<Rightarrow> diagnostic_sink \<Rightarrow> source \<Rightarrow> pp_options \<Rightarrow> token_list \<Rightarrow> (bool \<times> token_list) option" where
  "preprocess_source files ar sources sink source options out =
     (case preprocessor_create ar sources sink options of
        None \<Rightarrow> None
      | Some None \<Rightarrow> Some (False, out)
      | Some (Some pp) \<Rightarrow>
        (case token_list_reserve (Some out) (length (so_bytes source) div 3 + 1024) of
           (False, reserved) \<Rightarrow> Some (False, out)
         | (True, reserved) \<Rightarrow>
           (case preprocessor_run files pp source (the reserved) of
              None \<Rightarrow> None
            | Some (good, pp, out) \<Rightarrow> Some (good, if good then out else token_list_init))))"

subsection \<open>Printing\<close>

text \<open>The text of a list of tokens, with a marker where the line or the source changes when asked for.\<close>

definition token_lead :: "bool \<Rightarrow> token option \<Rightarrow> token \<Rightarrow> cstring" where
  "token_lead line_markers previous t =
     (if line_markers \<and> (case previous of None \<Rightarrow> True | Some p \<Rightarrow> tk_source t \<noteq> tk_source p \<or> tk_line t \<noteq> tk_line p) then
        (if previous = None then [] else [10]) @ cstr ''# '' @ decimal_digits (unat (tk_line t)) @ [32, 34] @
          so_path (tk_source t) @ [34, 10]
      else if previous = None then [] else [32])"

fun written_tokens :: "bool \<Rightarrow> token option \<Rightarrow> token list \<Rightarrow> cstring" where
  "written_tokens line_markers previous [] =
     (case previous of None \<Rightarrow> [] | Some p \<Rightarrow> if tk_kind p = TOKEN_NEWLINE then [] else [10])"
| "written_tokens line_markers previous (t # ts) =
     (if tk_kind t = TOKEN_EOF then written_tokens line_markers previous []
      else if tk_kind t = TOKEN_NEWLINE then 10 # written_tokens line_markers (Some t) ts
      else token_lead line_markers previous t @ tk_text t @ written_tokens line_markers (Some t) ts)"

definition write_token_list :: "token_list \<Rightarrow> bool \<Rightarrow> cstring" where
  "write_token_list list line_markers = written_tokens line_markers None (tl_items list)"

end
