(* ===== verification/Pre_Conditional.thy ===== *)
theory Pre_Conditional
  imports Pre_Directive Pre_Macro_Ok
begin

text \<open>
  Conditional directives of \<open>src/src/frontend/preprocessor.c\<close>: at most one group of every \<open>#if\<close> chain is
  processed, a skipped group has no effect at all, and a definition on a last line without a newline.
\<close>

subsection \<open>Chains\<close>

text \<open>
  Runs of conditional directives, with the number of groups of every open chain that were active so
  far. A step is a directive that went well.
\<close>

inductive conditional_run :: "cond_state list \<Rightarrow> nat list \<Rightarrow> bool" where
  start: "conditional_run [] []"
| opened: "conditional_run stack taken \<Longrightarrow> tk_text d \<in> {cstr ''if'', cstr ''ifdef'', cstr ''ifndef''} \<Longrightarrow>
    conditional_directive pp d body line stack = Some (Some (True, pp', c # stack)) \<Longrightarrow>
    conditional_run (c # stack) (of_bool (cs_active c) # taken)"
| turned: "conditional_run (c # stack) (n # taken) \<Longrightarrow> tk_text d \<in> {cstr ''elif'', cstr ''else''} \<Longrightarrow>
    conditional_directive pp d body line (c # stack) = Some (Some (True, pp', c' # stack)) \<Longrightarrow>
    conditional_run (c' # stack) ((n + of_bool (cs_active c')) # taken)"
| closed: "conditional_run (c # stack) (n # taken) \<Longrightarrow> tk_text d = cstr ''endif'' \<Longrightarrow>
    conditional_directive pp d body line (c # stack) = Some (Some (True, pp', stack)) \<Longrightarrow>
    conditional_run stack taken"

text \<open>A chain whose surroundings are the stack below it.\<close>

definition chain_ok :: "cond_state list \<Rightarrow> cond_state \<Rightarrow> nat \<Rightarrow> bool" where
  "chain_ok stack c n \<longleftrightarrow> cs_parent_active c = is_active stack \<and> n = of_bool (is_active stack \<and> cs_seen_true c) \<and>
     (cs_active c \<longrightarrow> is_active stack \<and> cs_seen_true c)"

fun chains_ok :: "cond_state list \<Rightarrow> nat list \<Rightarrow> bool" where
  "chains_ok [] [] \<longleftrightarrow> True"
| "chains_ok (c # stack) (n # taken) \<longleftrightarrow> chain_ok stack c n \<and> chains_ok stack taken"
| "chains_ok stack taken \<longleftrightarrow> False"

lemma opened_ok:
  assumes "conditional_directive pp d body line stack = Some (Some (True, pp', c # stack))"
    and "tk_text d \<in> {cstr ''if'', cstr ''ifdef'', cstr ''ifndef''}"
  shows "chain_ok stack c (of_bool (cs_active c))"
proof -
  have "\<exists>holds. c = hd (open_conditional stack holds line)"
    using assms by (auto simp: conditional_directive_def cstr_def Let_def open_conditional_def split: if_splits option.splits)
  then show ?thesis by (auto simp: open_conditional_def Let_def chain_ok_def)
qed

lemma turned_ok:
  assumes "conditional_directive pp d body line (c # stack) = Some (Some (True, pp', c' # stack))"
    and "tk_text d \<in> {cstr ''elif'', cstr ''else''}" and "chain_ok stack c n"
  shows "chain_ok stack c' (n + of_bool (cs_active c'))"
  using assms by (auto simp: conditional_directive_def cstr_def chain_ok_def split: if_splits option.splits)

lemma conditional_run_ok: "conditional_run stack taken \<Longrightarrow> chains_ok stack taken"
proof (induction rule: conditional_run.induct)
  case (opened stack taken d pp body line pp' c)
  then show ?case using opened_ok [OF opened(3,2)] by simp
next
  case (turned c stack n taken d pp body line pp' c')
  then show ?case using turned_ok [OF turned(3,2)] by simp
qed simp_all

lemma chains_ok_nth:
  "chains_ok stack taken \<Longrightarrow> i < length stack \<Longrightarrow> i < length taken \<and> chain_ok (drop (Suc i) stack) (stack ! i) (taken ! i)"
proof (induction stack taken arbitrary: i rule: chains_ok.induct)
  case (2 c stack n taken)
  then show ?case by (cases i) auto
qed simp_all

text \<open>
  C37. At most one group of every \<open>#if\<close> chain is processed. After any run of conditional directives, nested
  to any depth and with any conditions, the number of groups that were active so far in an open chain
  is 0 inside a skipped group, and otherwise 1 or 0 as the chain has seen a true condition or not; a
  group is active only when its surroundings are and its chain's condition held, and it is then the one.
\<close>

theorem one_group_taken:
  assumes "conditional_run stack taken" "i < length stack"
  shows "taken ! i = of_bool (is_active (drop (Suc i) stack) \<and> cs_seen_true (stack ! i)) \<and>
    (cs_active (stack ! i) \<longrightarrow> is_active (drop (Suc i) stack) \<and> taken ! i = 1)"
  using chains_ok_nth [OF conditional_run_ok [OF assms(1)] assms(2)] by (simp add: chain_ok_def)

theorem one_group_taken_witness:
  "\<exists>c'. conditional_run [c'] [1] \<and> \<not> cs_active c' \<and>
     ([1] :: nat list) ! 0 = of_bool (is_active (drop (Suc 0) [c']) \<and> cs_seen_true ([c'] ! 0))"
proof -
  let ?d = "ident ''ifndef''" and ?e = "ident ''else''"
  have 1: "conditional_directive (sample_pp []) ?d [ident ''f''] 1 [] =
      Some (Some (True, sample_pp [], open_conditional [] True 1))"
    by (simp add: conditional_directive_def plain_token_def cstr_def find_macro_def sample_pp_def)
  obtain c where c: "open_conditional [] True 1 = [c]" "cs_active c" "cs_seen_true c" "cs_parent_active c"
    by (simp add: open_conditional_def is_active_def)
  have run: "conditional_run [c] [1]"
    using conditional_run.opened [OF conditional_run.start _ 1 [unfolded c(1)]] c(2) by (simp add: plain_token_def)
  have 2: "conditional_directive (sample_pp []) ?e [] 1 [c] = Some (Some (True, sample_pp [], [c\<lparr>cs_active := False\<rparr>]))"
    using c by (simp add: conditional_directive_def plain_token_def cstr_def)
  have r: "conditional_run [c\<lparr>cs_active := False\<rparr>] [1]"
    using conditional_run.turned [OF run _ 2] by (simp add: plain_token_def)
  show ?thesis using one_group_taken [OF r, of 0] r by (intro exI [of _ "c\<lparr>cs_active := False\<rparr>"]) simp
qed

subsection \<open>Skipped groups\<close>

text \<open>
  Tokens that close what they open: the depth of the conditionals open inside them, none of them left
  open at the end and no \<open>#elif\<close>, \<open>#else\<close> or \<open>#endif\<close> that belongs to a conditional around them.
\<close>

definition starts_directive :: "token \<Rightarrow> bool" where
  "starts_directive t \<longleftrightarrow> tk_kind t \<noteq> TOKEN_NEWLINE \<and> tk_flags t AND TOKEN_FLAG_BOL \<noteq> 0 \<and> token_is t ''#''"

definition opens :: "token \<Rightarrow> bool" where
  "opens t \<longleftrightarrow> list_ex (token_is t) [''if'', ''ifdef'', ''ifndef'']"

definition turns :: "token \<Rightarrow> bool" where
  "turns t \<longleftrightarrow> list_ex (token_is t) [''elif'', ''else'']"

function closed_group :: "nat \<Rightarrow> token list \<Rightarrow> bool" where
  "closed_group depth [] \<longleftrightarrow> depth = 0"
| "closed_group depth (t # ts) \<longleftrightarrow> tk_kind t \<noteq> TOKEN_EOF \<and>
     (if \<not> starts_directive t then closed_group depth ts
      else if takeWhile in_line ts = [] then closed_group depth (dropWhile in_line ts)
      else
        let name = hd (takeWhile in_line ts) in
        if opens name then closed_group (Suc depth) (dropWhile in_line ts)
        else if turns name then depth > 0 \<and> closed_group depth (dropWhile in_line ts)
        else if token_is name ''endif'' then depth > 0 \<and> closed_group (depth - 1) (dropWhile in_line ts)
        else closed_group depth (dropWhile in_line ts))"
  by pat_completeness auto
termination
  by (relation "measure (\<lambda>(depth, ts). length ts)") (auto simp: length_dropWhile_le le_imp_less_Suc)

declare closed_group.simps(2) [simp del]

text \<open>The conditionals opened inside a skipped group.\<close>

definition skipped :: "cond_state \<Rightarrow> bool" where
  "skipped c \<longleftrightarrow> \<not> cs_active c \<and> \<not> cs_parent_active c"

lemma process_directive_skipped:
  assumes "line \<noteq> []" "tk_kind (hd line) \<noteq> TOKEN_NEWLINE" "\<not> is_active (ds @ c # cs)" "list_all skipped ds"
    and "is_conditional_name (hd line)" "token_is (hd line) ''endif'' \<or> turns (hd line) \<Longrightarrow> ds \<noteq> []"
  shows "\<exists>ds'. process_directive files nested pp source line n (ds @ c # cs) out = Some (True, pp, ds' @ c # cs, out) \<and>
    list_all skipped ds' \<and> length ds' = (if opens (hd line) then Suc (length ds) else if token_is (hd line) ''endif'' then length ds - 1 else length ds)"
proof -
  obtain d body where line: "line = d # body" using assms(1) by (cases line) auto
  consider (opens) "opens d" | (elif) "token_is d ''elif''" | (els) "token_is d ''else''" | (endif) "token_is d ''endif''"
    using assms(5) line by (auto simp: is_conditional_name_def opens_def)
  then show ?thesis
  proof cases
    case opens
    then have "process_directive files nested pp source line n (ds @ c # cs) out =
        Some (True, pp, (\<lparr>cs_parent_active = False, cs_active = False, cs_seen_true = False, cs_line = n\<rparr> # ds) @ c # cs, out)"
      using assms(2,3) by (auto simp: process_directive_def line conditional_directive_def open_conditional_def opens_def token_is_def cstr_def Let_def)
    then show ?thesis using opens assms(4) line by (intro exI [of _ "_ # ds"] conjI) (auto simp: skipped_def)
  next
    case elif
    then obtain e es where ds: "ds = e # es" using assms(6) line by (cases ds) (auto simp: turns_def)
    then have "process_directive files nested pp source line n (ds @ c # cs) out = Some (True, pp, (e\<lparr>cs_active := False\<rparr> # es) @ c # cs, out)"
      using assms(2,4) elif by (simp add: process_directive_def line conditional_directive_def token_is_def cstr_def skipped_def)
    then show ?thesis using elif assms(4) line ds
      by (intro exI [of _ "e\<lparr>cs_active := False\<rparr> # es"] conjI) (auto simp: skipped_def opens_def token_is_def cstr_def)
  next
    case els
    then obtain e es where ds: "ds = e # es" using assms(6) line by (cases ds) (auto simp: turns_def)
    define e' where "e' = (if cs_seen_true e then e\<lparr>cs_active := False\<rparr> else e\<lparr>cs_active := cs_parent_active e, cs_seen_true := True\<rparr>)"
    have "process_directive files nested pp source line n (ds @ c # cs) out = Some (True, pp, (e' # es) @ c # cs, out)"
      using assms(2) els ds by (simp add: process_directive_def line conditional_directive_def token_is_def cstr_def e'_def)
    then show ?thesis using els assms(4) line ds
      by (intro exI [of _ "e' # es"] conjI) (auto simp: skipped_def opens_def token_is_def cstr_def e'_def)
  next
    case endif
    then obtain e es where ds: "ds = e # es" using assms(6) line by (cases ds) auto
    then have "process_directive files nested pp source line n (ds @ c # cs) out = Some (True, pp, es @ c # cs, out)"
      using assms(2) endif by (simp add: process_directive_def line conditional_directive_def token_is_def cstr_def)
    then show ?thesis using endif assms(4) line ds by (intro exI [of _ es] conjI) (auto simp: opens_def token_is_def cstr_def)
  qed
qed

text \<open>The step of the loop at a directive.\<close>

lemma source_loop_directive:
  assumes "tk_kind t \<noteq> TOKEN_EOF" "starts_directive t"
  shows "source_loop files nested source pp (t # ts) stack out =
     (if takeWhile in_line ts \<noteq> [] \<and> \<not> is_active stack \<and> \<not> is_conditional_name (hd (takeWhile in_line ts)) then
        source_loop files nested source pp (dropWhile in_line ts) stack out
      else case process_directive files nested pp source (takeWhile in_line ts) (tk_line t) stack out of
          None \<Rightarrow> None
        | Some (good, pp, stack, out) \<Rightarrow>
            if good then source_loop files nested source pp (after_line ts) stack out else Some (False, pp, stack, out))"
  using assms unfolding source_loop.simps(2) starts_directive_def Let_def
  by (simp split: option.split prod.split bool.split)

lemma source_loop_inactive:
  assumes "tk_kind t \<noteq> TOKEN_EOF" "\<not> starts_directive t" "\<not> is_active stack"
  shows "source_loop files nested source pp (t # ts) stack out = source_loop files nested source pp ts stack out"
  using assms unfolding source_loop.simps(2) starts_directive_def Let_def by auto

lemma after_line_inactive:
  assumes "\<not> is_active stack"
  shows "source_loop files nested source pp (after_line ts) stack out = source_loop files nested source pp (dropWhile in_line ts) stack out"
proof (cases "dropWhile in_line ts")
  case (Cons t us)
  then show ?thesis using source_loop_inactive [of t stack files nested source pp us out] assms
    by (simp add: after_line_def starts_directive_def)
qed (simp only: after_line_def list.case)

lemma line_append:
  assumes "rest = [] \<or> \<not> in_line (hd rest)"
  shows "takeWhile in_line (ts @ rest) = takeWhile in_line ts" "dropWhile in_line (ts @ rest) = dropWhile in_line ts @ rest"
proof -
  have "takeWhile in_line rest = []" "dropWhile in_line rest = rest" using assms by (cases rest; simp)+
  then show "takeWhile in_line (ts @ rest) = takeWhile in_line ts" "dropWhile in_line (ts @ rest) = dropWhile in_line ts @ rest"
    by (induction ts) auto
qed

lemma takeWhile_hd: "takeWhile P xs \<noteq> [] \<Longrightarrow> P (hd (takeWhile P xs))"
  by (cases xs) (auto split: if_splits)

lemma conditional_name_cases: "is_conditional_name t \<longleftrightarrow> opens t \<or> turns t \<or> token_is t ''endif''"
  by (auto simp: is_conditional_name_def opens_def turns_def)

lemma kinds_exclusive: "opens t \<Longrightarrow> \<not> turns t \<and> \<not> token_is t ''endif''" "turns t \<Longrightarrow> \<not> opens t \<and> \<not> token_is t ''endif''"
  "token_is t ''endif'' \<Longrightarrow> \<not> opens t \<and> \<not> turns t"
  by (auto simp: opens_def turns_def token_is_def cstr_def)

lemma skip_closed_group:
  assumes "closed_group depth ts" "rest = [] \<or> \<not> in_line (hd rest)" "\<not> cs_active c" "list_all skipped ds" "depth = length ds"
  shows "source_loop files nested source pp (ts @ rest) (ds @ c # cs) out = source_loop files nested source pp rest (c # cs) out"
  using assms(1,4,5)
proof (induction depth ts arbitrary: ds rule: closed_group.induct)
  case (1 depth)
  then show ?case by simp
next
  case (2 depth t ts)
  have off: "\<not> is_active (es @ c # cs)" if "list_all skipped es" for es
    using that assms(3) by (cases es) (auto simp: is_active_def skipped_def)
  have kind: "tk_kind t \<noteq> TOKEN_EOF" and
    closed: "if \<not> starts_directive t then closed_group depth ts
      else if takeWhile in_line ts = [] then closed_group depth (dropWhile in_line ts)
      else if opens (hd (takeWhile in_line ts)) then closed_group (Suc depth) (dropWhile in_line ts)
      else if turns (hd (takeWhile in_line ts)) then depth > 0 \<and> closed_group depth (dropWhile in_line ts)
      else if token_is (hd (takeWhile in_line ts)) ''endif'' then depth > 0 \<and> closed_group (depth - 1) (dropWhile in_line ts)
      else closed_group depth (dropWhile in_line ts)"
    using "2.prems"(1) unfolding closed_group.simps(2) Let_def by auto
  show ?case
  proof (cases "starts_directive t")
    case False
    then show ?thesis using source_loop_inactive [OF kind False off [OF "2.prems"(2)]] "2.IH"(1) [OF False] closed "2.prems" by simp
  next
    case dir: True
    let ?line = "takeWhile in_line ts" and ?after = "dropWhile in_line ts"
    note step = source_loop_directive [OF kind dir, of files nested source pp "ts @ rest", unfolded line_append [OF assms(2)]]
    show ?thesis
    proof (cases "?line \<noteq> [] \<and> \<not> is_conditional_name (hd ?line)")
      case True
      then have "closed_group depth ?after" using closed dir conditional_name_cases by auto
      moreover have "source_loop files nested source pp (?after @ rest) (ds @ c # cs) out = source_loop files nested source pp rest (c # cs) out"
        using "2.IH"(6) [of "hd ?line"] True dir conditional_name_cases calculation "2.prems"(2,3) by auto
      ultimately show ?thesis using step [of "ds @ c # cs" out] True off [OF "2.prems"(2)] by simp
    next
      case no_text: False
      show ?thesis
      proof (cases "?line = []")
        case True
        then have "closed_group depth ?after" using closed dir by simp
        then have "source_loop files nested source pp (?after @ rest) (ds @ c # cs) out = source_loop files nested source pp rest (c # cs) out"
          using "2.IH"(2) True dir "2.prems"(2,3) by auto
        then show ?thesis using step [of "ds @ c # cs" out] True
            after_line_inactive [OF off [OF "2.prems"(2)], of files nested source pp "ts @ rest" out]
          by (simp add: process_directive_def line_append [OF assms(2)])
      next
        case line: False
        have cond: "is_conditional_name (hd ?line)" using no_text line by simp
        have "in_line (hd ?line)" using takeWhile_hd line .
        then have nl: "tk_kind (hd ?line) \<noteq> TOKEN_NEWLINE" by (simp add: in_line_def)
        have deep: "ds \<noteq> []" if "token_is (hd ?line) ''endif'' \<or> turns (hd ?line)"
        proof -
          have "\<not> opens (hd ?line)" using that kinds_exclusive by blast
          then have "depth > 0" using closed dir line that by (simp split: if_splits)
          then show ?thesis using "2.prems"(3) by auto
        qed
        from process_directive_skipped [OF line nl off [OF "2.prems"(2)] "2.prems"(2) cond deep, of files nested pp source "tk_line t" out]
        obtain ds' where run: "process_directive files nested pp source ?line (tk_line t) (ds @ c # cs) out = Some (True, pp, ds' @ c # cs, out)"
          and ds': "list_all skipped ds'" "length ds' = (if opens (hd ?line) then Suc (length ds) else if token_is (hd ?line) ''endif'' then length ds - 1 else length ds)"
          by blast
        have "source_loop files nested source pp (?after @ rest) (ds' @ c # cs) out = source_loop files nested source pp rest (c # cs) out"
        proof -
          consider (opens) "opens (hd ?line)" | (turns) "turns (hd ?line)" | (endif) "token_is (hd ?line) ''endif''"
            using cond conditional_name_cases by blast
          then show ?thesis
          proof cases
            case opens
            then show ?thesis using "2.IH"(3) [of "hd ?line" ds'] closed dir line ds' "2.prems"(3) by auto
          next
            case turns
            then show ?thesis using "2.IH"(4) [of "hd ?line" ds'] closed dir line ds' "2.prems"(3) kinds_exclusive(2) [OF turns] by simp
          next
            case endif
            then show ?thesis using "2.IH"(5) [of "hd ?line" ds'] closed dir line ds' "2.prems"(3) kinds_exclusive(3) [OF endif] by simp
          qed
        qed
        then show ?thesis using step [of "ds @ c # cs" out] cond run
            after_line_inactive [OF off [OF ds'(1)], of files nested source pp "ts @ rest" out]
          by (simp add: line_append [OF assms(2)])
      qed
    qed
  qed
qed

text \<open>
  C38. A group that is skipped has no effect. Whatever it holds, as long as the conditionals opened in it
  are closed in it, the loop over the source comes to the token behind it with the state, the stack of
  conditionals and the output it had in front of it: nothing in it is defined, included, expanded or
  reported, and no condition in it is evaluated.
\<close>

theorem skipped_group_ignored:
  assumes "\<not> cs_active c" "closed_group 0 ts" "rest = [] \<or> \<not> in_line (hd rest)"
  shows "source_loop files nested source pp (ts @ rest) (c # cs) out = source_loop files nested source pp rest (c # cs) out"
  using skip_closed_group [OF assms(2,3,1), of "[]"] by simp

abbreviation (input) hash :: token where "hash \<equiv> (punct ''#'')\<lparr>tk_flags := TOKEN_FLAG_BOL\<rparr>"
abbreviation (input) newline :: token where "newline \<equiv> plain_token TOKEN_NEWLINE ''.''"

lemma hash_starts: "starts_directive hash" "tk_kind hash \<noteq> TOKEN_EOF"
  by (simp_all add: starts_directive_def plain_token_def token_is_def)

lemma line_tokens: "in_line (ident s)" "in_line (punct s)" "\<not> in_line newline" "\<not> in_line hash" "\<not> starts_directive (ident s)" "\<not> starts_directive newline"
  by (simp_all add: in_line_def starts_directive_def plain_token_def)

theorem skipped_group_ignored_witness:
  "source_loop (\<lambda>path. None, \<lambda>path. False) (\<lambda>pp source out. None) sample_source (sample_pp [])
     ([hash, ident ''if'', ident ''x'', newline, hash, ident ''error'', newline, hash, ident ''endif'', newline] @ [hash, ident ''endif''])
     [\<lparr>cs_parent_active = True, cs_active = False, cs_seen_true = False, cs_line = 1\<rparr>] token_list_init =
   source_loop (\<lambda>path. None, \<lambda>path. False) (\<lambda>pp source out. None) sample_source (sample_pp []) [hash, ident ''endif'']
     [\<lparr>cs_parent_active = True, cs_active = False, cs_seen_true = False, cs_line = 1\<rparr>] token_list_init"
proof (rule skipped_group_ignored)
  have "tk_kind (ident s) \<noteq> TOKEN_EOF" "tk_kind newline \<noteq> TOKEN_EOF" for s by (simp_all add: plain_token_def)
  moreover have "opens (ident ''if'')" "\<not> opens (ident ''endif'')" "\<not> opens (ident ''error'')" "\<not> turns (ident ''error'')"
    "\<not> turns (ident ''endif'')" "token_is (ident ''endif'') ''endif''" "\<not> token_is (ident ''error'') ''endif''"
    by (simp_all add: opens_def turns_def token_is_def plain_token_def cstr_def)
  ultimately show "closed_group 0 [hash, ident ''if'', ident ''x'', newline, hash, ident ''error'', newline, hash, ident ''endif'', newline]"
    using line_tokens hash_starts by (simp add: closed_group.simps(2) Let_def)
qed (simp_all add: in_line_def)

subsection \<open>A definition on the last line\<close>

abbreviation (input) end_of_file :: token where "end_of_file \<equiv> plain_token TOKEN_EOF []"

lemma object_macro_defined:
  assumes "tk_kind t = TOKEN_IDENTIFIER" "\<not> head_is ts ''(''" "ts \<noteq> []"
    and "arena_alloc (pp_arena pp) 56 = (Some p, ar)" "arena_alloc_array ar (length ts) 48 = (Some q, ar')"
  shows "parse_macro_definition pp (t # ts) d = (True, pp\<lparr>pp_arena := ar', pp_macros := define_macro (pp_macros pp)
    \<lparr>ma_name = tk_text t, ma_function_like = False, ma_variadic = False, ma_parameters = [], ma_body = ts\<rparr>\<rparr>)"
  using assms by (simp add: parse_macro_definition_def pp_alloc_def Let_def)

lemma written_tokens_end:
  "tk_kind e = TOKEN_EOF \<Longrightarrow> written_tokens lm p (xs @ e # ys) = written_tokens lm p xs"
  by (induction xs arbitrary: p) simp_all

text \<open>
  C40. The end of a file can become part of a macro. When the last line of a file defines an object-like
  macro and has no newline, so that the token that marks the end of the file stands on the line, that
  token becomes the last token of the macro's body, behind the tokens written there, if the arena has
  room for the definition. And a list of tokens is printed up to such a token only: whatever stands
  behind it in the output is lost.
\<close>

theorem end_of_file_in_macro:
  assumes "starts_directive h" "tk_kind h \<noteq> TOKEN_EOF" "tk_text d = cstr ''define''" "tk_kind t = TOKEN_IDENTIFIER"
    and "\<forall>u \<in> {d, t, e} \<union> set ts. in_line u" "tk_kind e = TOKEN_EOF" "\<not> head_is (ts @ [e]) ''(''" "is_active stack"
    and "arena_alloc (pp_arena pp) SIZEOF_MACRO = (Some p, ar)" "arena_alloc_array ar (length ts + 1) SIZEOF_TOKEN = (Some q, ar')"
  shows "(\<exists>pp'. source_loop files nested source pp (h # d # t # ts @ [e]) stack out = Some (True, pp', stack, out) \<and>
      macro_named (pp_macros pp') = (macro_named (pp_macros pp))(tk_text t \<mapsto>
        \<lparr>ma_name = tk_text t, ma_function_like = False, ma_variadic = False, ma_parameters = [], ma_body = ts @ [e]\<rparr>)) \<and>
    write_token_list (out\<lparr>tl_items := before @ e # behind\<rparr>) markers = write_token_list (out\<lparr>tl_items := before\<rparr>) markers"
proof
  let ?line = "d # t # ts @ [e]"
  let ?m = "\<lparr>ma_name = tk_text t, ma_function_like = False, ma_variadic = False, ma_parameters = [], ma_body = ts @ [e]\<rparr>"
  let ?pp = "pp\<lparr>pp_arena := ar', pp_macros := define_macro (pp_macros pp) ?m\<rparr>"
  have "\<forall>u \<in> set ?line. in_line u" using assms(5) by auto
  then have line: "takeWhile in_line ?line = ?line" "after_line ?line = []"
    by (simp_all only: takeWhile_eq_all_conv dropWhile_eq_Nil_conv [THEN iffD2] after_line_def list.case)
  have "parse_macro_definition pp (t # ts @ [e]) d = (True, ?pp)"
    using object_macro_defined [of t "ts @ [e]" pp p ar q ar' d] assms(4,7,9,10) by simp
  then have "process_directive files nested pp source ?line (tk_line h) stack out = Some (True, ?pp, stack, out)"
    using assms(3,5,8) by (simp add: in_line_def process_directive_def conditional_directive_def plain_directive_def cstr_def Let_def)
  then have "source_loop files nested source pp (h # ?line) stack out = Some (True, ?pp, stack, out)"
    using source_loop_directive [OF assms(2,1), of files nested source pp ?line stack out] line assms(8) by simp
  moreover have "macro_named (pp_macros ?pp) = (macro_named (pp_macros pp))(tk_text t \<mapsto> ?m)" by (simp add: define_macro_lookup)
  ultimately show "\<exists>pp'. source_loop files nested source pp (h # ?line) stack out = Some (True, pp', stack, out) \<and>
      macro_named (pp_macros pp') = (macro_named (pp_macros pp))(tk_text t \<mapsto> ?m)" by blast
next
  show "write_token_list (out\<lparr>tl_items := before @ e # behind\<rparr>) markers = write_token_list (out\<lparr>tl_items := before\<rparr>) markers"
    using assms(6) by (simp add: write_token_list_def written_tokens_end)
qed

text \<open>\<open>#define A 1\<close> without a newline.\<close>

theorem end_of_file_in_macro_witness:
  "\<exists>pp. source_loop (\<lambda>path. None, \<lambda>path. False) (\<lambda>pp source out. None) sample_source (sample_pp [])
      [hash, ident ''define'', ident ''A'', plain_token TOKEN_NUMBER ''1'', end_of_file] [] token_list_init = Some (True, pp, [], token_list_init) \<and>
    map_option (\<lambda>m. map tk_kind (ma_body m)) (macro_named (pp_macros pp) (cstr ''A'')) = Some [TOKEN_NUMBER, TOKEN_EOF]"
proof -
  obtain p ar where a: "arena_alloc (pp_arena (sample_pp [])) SIZEOF_MACRO = (Some p, ar)" "\<exists>q ar'. arena_alloc_array ar 2 SIZEOF_TOKEN = (Some q, ar')"
    by (simp add: sample_pp_def arena_alloc_def arena_create_def align_size_def size_add_def arena_take_def SIZE_MAX_def
        arena_alloc_array_def size_mul_def Let_def)
  let ?ts = "[plain_token TOKEN_NUMBER ''1'']"
  obtain q ar' where b: "arena_alloc_array ar (length ?ts + 1) SIZEOF_TOKEN = (Some q, ar')" using a(2) by (auto simp: numeral_2_eq_2)
  have "tk_text (ident ''define'') = cstr ''define''" "tk_kind (ident ''A'') = TOKEN_IDENTIFIER"
    "\<forall>u \<in> {ident ''define'', ident ''A'', end_of_file} \<union> set ?ts. in_line u" "tk_kind end_of_file = TOKEN_EOF"
    "\<not> head_is (?ts @ [end_of_file]) ''(''" "is_active []"
    by (simp_all add: plain_token_def head_is_def token_is_def cstr_def in_line_def is_active_def)
  from end_of_file_in_macro [OF hash_starts this a(1) b] show ?thesis by (fastforce simp: plain_token_def)
qed

end
