(* ===== verification/Pre_Include_Ok.thy ===== *)
theory Pre_Include_Ok
  imports Pre_Conditional
begin

text \<open>
  File inclusion of \<open>src/src/frontend/preprocessor.c\<close>: every operation leaves the include stack as it found
  it, and the levels of \<open>process_source\<close> are enough, since the stack is full before they are used up.
\<close>

subsection \<open>The include stack is kept\<close>

named_theorems keeps_stack

lemma pp_alloc_stack [keeps_stack]: "pp_alloc pp n sz = (b, pp') \<Longrightarrow> pp_include_stack pp' = pp_include_stack pp"
  by (auto simp: pp_alloc_def split: prod.splits)

lemma macro_parameters_stack [keeps_stack]:
  "macro_parameters pp d names v ts = (r, pp') \<Longrightarrow> pp_include_stack pp' = pp_include_stack pp"
proof (induction pp d names v ts rule: macro_parameters.induct)
  case (2 pp d names v t ts)
  show ?case using 2(4) 2(1-3)
    unfolding macro_parameters.simps(2) by (fastforce split: if_splits prod.splits bool.splits dest: pp_alloc_stack)
qed auto

lemma parse_macro_definition_stack [keeps_stack]:
  "parse_macro_definition pp body d = (b, pp') \<Longrightarrow> pp_include_stack pp' = pp_include_stack pp"
  by (auto simp: parse_macro_definition_def Let_def split: list.splits if_splits option.splits prod.splits bool.splits
      dest!: macro_parameters_stack pp_alloc_stack)

lemma replace_defined_stack [keeps_stack]:
  "replace_defined pp d ts out = (r, pp') \<Longrightarrow> pp_include_stack pp' = pp_include_stack pp"
proof (induction pp d ts out rule: replace_defined.induct)
  case (2 pp d t ts out)
  show ?case using 2(3) 2(1,2)
    unfolding replace_defined.simps(2) Let_def by (fastforce split: if_splits option.splits)
qed auto

lemma expand_range_stack [keeps_stack]:
  "expand_range levels pp c h ts out = (b, pp', out') \<Longrightarrow> pp_include_stack pp' = pp_include_stack pp"
  using keeps_macrosD [OF expand_range_macros] by blast

lemma evaluate_expression_stack [keeps_stack]:
  "evaluate_expression pp body d = Some (b, pp') \<Longrightarrow> pp_include_stack pp' = pp_include_stack pp"
  unfolding evaluate_expression_def
  by (auto split: option.splits prod.splits bool.splits if_splits dest!: replace_defined_stack expand_range_stack)

lemma conditional_directive_stack [keeps_stack]:
  "conditional_directive pp d body line stack = Some (Some (b, pp', stack')) \<Longrightarrow> pp_include_stack pp' = pp_include_stack pp"
  unfolding conditional_directive_def Let_def
  by (auto split: if_splits option.splits list.splits dest: evaluate_expression_stack)

lemma output_push_stack [keeps_stack]: "output_push pp out t = (b, pp', out') \<Longrightarrow> pp_include_stack pp' = pp_include_stack pp"
  using output_push_macros by blast

lemma expand_macro_at_stack [keeps_stack]:
  "expand_macro_at pp c t ts out = (b, rest, pp', out') \<Longrightarrow> pp_include_stack pp' = pp_include_stack pp"
  unfolding expand_macro_at_def
  by (auto split: if_splits option.splits prod.splits dest!: output_push_stack expand_range_stack parse_arguments_macros
      function_body_macros [OF expand_range_macros])

lemma process_line_stack [keeps_stack]: "process_line pp body d n = (b, pp') \<Longrightarrow> pp_include_stack pp' = pp_include_stack pp"
  by (auto simp: process_line_def Let_def split: list.splits if_splits prod.splits)

lemma first_loaded_stack [keeps_stack]: "first_loaded files pp paths = (r, pp') \<Longrightarrow> pp_include_stack pp' = pp_include_stack pp"
  by (induction files pp paths rule: first_loaded.induct) (auto simp: Let_def split: prod.splits if_splits)

lemma include_text_stack [keeps_stack]: "include_text pp body d = (r, a, pp') \<Longrightarrow> pp_include_stack pp' = pp_include_stack pp"
  by (auto simp: include_text_def split: list.splits if_splits)

type_synonym inclusion = "preprocessor \<Rightarrow> source \<Rightarrow> token_list \<Rightarrow> processed"

definition keeps_includes :: "inclusion \<Rightarrow> bool" where
  "keeps_includes nested \<longleftrightarrow>
     (\<forall>pp src out b pp' out'. nested pp src out = Some (b, pp', out') \<longrightarrow> pp_include_stack pp' = pp_include_stack pp)"

lemma keeps_includesD: "keeps_includes nested \<Longrightarrow> nested pp src out = Some (b, pp', out') \<Longrightarrow> pp_include_stack pp' = pp_include_stack pp"
  unfolding keeps_includes_def by blast

lemma process_include_stack:
  assumes "keeps_includes nested" "process_include files nested pp src body d out = Some (b, pp', out')"
  shows "pp_include_stack pp' = pp_include_stack pp"
  using assms(2) unfolding process_include_def
  by (auto split: prod.splits option.splits if_splits
      dest!: include_text_stack first_loaded_stack keeps_includesD [OF assms(1)] output_push_stack)

lemma plain_directive_stack:
  assumes "keeps_includes nested" "plain_directive files nested pp src d body n out = Some (b, pp', out')"
  shows "pp_include_stack pp' = pp_include_stack pp"
  using assms(2) unfolding plain_directive_def Let_def
  by (auto split: prod.splits if_splits bool.splits
      dest!: parse_macro_definition_stack expand_range_stack process_line_stack process_include_stack [OF assms(1)])

lemma process_directive_stack:
  assumes "keeps_includes nested" "process_directive files nested pp src line n stack out = Some (b, pp', stack', out')"
  shows "pp_include_stack pp' = pp_include_stack pp"
  using assms(2) unfolding process_directive_def
  by (auto split: list.splits if_splits option.splits dest!: conditional_directive_stack plain_directive_stack [OF assms(1)])

text \<open>The loop at a token that starts no directive.\<close>

lemma source_loop_plain:
  assumes "tk_kind t \<noteq> TOKEN_EOF" "\<not> starts_directive t"
  shows "source_loop files nested src pp (t # ts) stack out =
     (if \<not> is_active stack \<or> (tk_kind t = TOKEN_NEWLINE \<and> \<not> po_preserve_newlines (pp_options pp)) then
        source_loop files nested src pp ts stack out
      else case (if tk_kind t = TOKEN_NEWLINE then (case output_push pp out t of (b, pp, out) \<Rightarrow> (b, ts, pp, out))
                 else expand_macro_at pp \<lparr>ec_source = Some src, ec_invocation_line = 0, ec_has_invocation = False, ec_hideset = None\<rparr> t ts out) of
          (b, rest, pp, out) \<Rightarrow> if b then source_loop files nested src pp rest stack out else Some (False, pp, stack, out))"
  using assms unfolding source_loop.simps(2) starts_directive_def Let_def
  by (auto split: prod.split bool.split)

definition plain_step :: "source \<Rightarrow> preprocessor \<Rightarrow> token \<Rightarrow> token list \<Rightarrow> token_list \<Rightarrow> bool \<times> token list \<times> preprocessor \<times> token_list" where
  "plain_step src pp t ts out =
     (if tk_kind t = TOKEN_NEWLINE then (case output_push pp out t of (b, pp, out) \<Rightarrow> (b, ts, pp, out))
      else expand_macro_at pp \<lparr>ec_source = Some src, ec_invocation_line = 0, ec_has_invocation = False, ec_hideset = None\<rparr> t ts out)"

lemma plain_step_stack: "plain_step src pp t ts out = (b, rest, pp', out') \<Longrightarrow> pp_include_stack pp' = pp_include_stack pp"
  by (auto simp: plain_step_def split: if_splits prod.splits dest: output_push_stack expand_macro_at_stack)

lemma plain_step_le: "plain_step src pp t ts out = (True, rest, pp', out') \<Longrightarrow> length rest \<le> length ts"
  by (auto simp: plain_step_def split: if_splits prod.splits dest: expand_macro_at_le)

lemmas source_loop_step = source_loop_plain [folded plain_step_def]

lemma source_loop_stack:
  assumes "keeps_includes nested"
  shows "source_loop files nested src pp ts stack out = Some (b, pp', stack', out') \<Longrightarrow> pp_include_stack pp' = pp_include_stack pp"
proof (induction "length ts" arbitrary: ts pp stack out rule: less_induct)
  case less
  show ?case
  proof (cases ts)
    case Nil
    then show ?thesis using less.prems by simp
  next
    case (Cons t us)
    have IH: "source_loop files nested src pp1 vs stack1 out1 = Some (b, pp', stack', out') \<Longrightarrow> length vs \<le> length us \<Longrightarrow>
        pp_include_stack pp' = pp_include_stack pp1" for vs pp1 stack1 out1
      using less.hyps [of vs pp1 stack1 out1] Cons by simp
    consider (eof) "tk_kind t = TOKEN_EOF" | (plain) "tk_kind t \<noteq> TOKEN_EOF" "\<not> starts_directive t" | (dir) "tk_kind t \<noteq> TOKEN_EOF" "starts_directive t" by blast
    then show ?thesis
    proof cases
      case eof
      then show ?thesis using less.prems Cons by (simp add: source_loop.simps(2))
    next
      case plain
      obtain b1 rest pp1 out1 where r: "plain_step src pp t us out = (b1, rest, pp1, out1)" by (metis prod_cases4)
      show ?thesis using less.prems IH [of pp us stack out] IH [of pp1 rest stack out1] plain_step_stack [OF r] plain_step_le [of src pp t us out rest pp1 out1] r
        unfolding Cons source_loop_step [OF plain] by (auto split: if_splits)
    next
      case dir
      show ?thesis
      proof (cases "takeWhile in_line us \<noteq> [] \<and> \<not> is_active stack \<and> \<not> is_conditional_name (hd (takeWhile in_line us))")
        case True
        then show ?thesis using less.prems IH [OF _ length_dropWhile_le] unfolding Cons source_loop_directive [OF dir] by simp
      next
        case False
        then obtain b1 pp1 stack1 out1 where
          r: "process_directive files nested pp src (takeWhile in_line us) (tk_line t) stack out = Some (b1, pp1, stack1, out1)"
          using less.prems unfolding Cons source_loop_directive [OF dir] by (auto split: option.splits)
        from process_directive_stack [OF assms r] show ?thesis
          using less.prems False r IH [OF _ after_line_le, of pp1 stack1 out1] unfolding Cons source_loop_directive [OF dir]
          by (cases b1) auto
      qed
    qed
  qed
qed

lemma process_source_stack: "keeps_includes (process_source levels files)"
proof (induction levels)
  case 0
  then show ?case by (simp add: keeps_includes_def)
next
  case (Suc levels)
  have "pp_include_stack pp' = pp_include_stack pp" if "process_source (Suc levels) files pp src out = Some (b, pp', out')" for pp src out b pp' out'
    using that by (auto simp: Let_def split: option.splits prod.splits if_splits dest!: source_loop_stack [OF Suc])
  then show ?case unfolding keeps_includes_def by blast
qed

subsection \<open>The levels are enough\<close>

text \<open>Two ways to process nested sources that agree where the stack has one more entry than \<open>k\<close>, up to 32.\<close>

definition agree_above :: "nat \<Rightarrow> inclusion \<Rightarrow> inclusion \<Rightarrow> bool" where
  "agree_above k n1 n2 \<longleftrightarrow>
     (\<forall>pp src out. length (pp_include_stack pp) = Suc k \<longrightarrow> k < CC64_PP_MAX_INCLUDE_DEPTH \<longrightarrow> n1 pp src out = n2 pp src out)"

lemma process_include_agree:
  assumes "agree_above k n1 n2" "length (pp_include_stack pp) = k"
  shows "process_include files n1 pp src body d out = process_include files n2 pp src body d out"
proof -
  obtain name angled pp1 where t: "include_text pp body d = (name, angled, pp1)" by (metis prod_cases3)
  note s1 = include_text_stack [OF t]
  show ?thesis
  proof (cases "name = None \<or> k \<ge> 32")
    case True
    then show ?thesis using t s1 assms(2) by (cases name) (simp_all add: process_include_def)
  next
    case False
    then obtain nm where nm: "name = Some nm" by auto
    obtain found pp2 where f: "first_loaded files pp1 (include_candidates pp1 src nm angled) = (found, pp2)" by (metis surj_pair)
    have "length (pp_include_stack pp2) = k" using first_loaded_stack [OF f] s1 assms(2) by simp
    then have "n1 (pp2\<lparr>pp_include_stack := so_path inc # pp_include_stack pp2\<rparr>) inc out = n2 (pp2\<lparr>pp_include_stack := so_path inc # pp_include_stack pp2\<rparr>) inc out" for inc
      using assms(1) False unfolding agree_above_def by simp
    then show ?thesis using t nm f s1 assms(2) False by (cases found) (simp_all add: process_include_def)
  qed
qed

lemma process_directive_agree:
  assumes "agree_above k n1 n2" "length (pp_include_stack pp) = k"
  shows "process_directive files n1 pp src line n stack out = process_directive files n2 pp src line n stack out"
proof -
  have "process_include files n1 pp1 src items d out = process_include files n2 pp1 src items d out"
    if "expand_range 64 pp c None body token_list_init = (True, pp1, ex)" for pp1 c body ex items d
    by (rule process_include_agree [OF assms(1)]) (use expand_range_stack [OF that] assms(2) in simp)
  then have "plain_directive files n1 pp src d body n out = plain_directive files n2 pp src d body n out" for d body
    unfolding plain_directive_def Let_def by (intro if_cong refl) (auto split: prod.split bool.split)
  then show ?thesis unfolding process_directive_def by (simp split: list.split option.split)
qed

lemma source_loop_agree:
  assumes "agree_above k n1 n2" "keeps_includes n1"
  shows "length (pp_include_stack pp) = k \<Longrightarrow> source_loop files n1 src pp ts stack out = source_loop files n2 src pp ts stack out"
proof (induction "length ts" arbitrary: ts pp stack out rule: less_induct)
  case less
  show ?case
  proof (cases ts)
    case Nil
    then show ?thesis by simp
  next
    case (Cons t us)
    have IH: "length (pp_include_stack pp1) = k \<Longrightarrow> length vs \<le> length us \<Longrightarrow>
        source_loop files n1 src pp1 vs stack1 out1 = source_loop files n2 src pp1 vs stack1 out1" for vs pp1 stack1 out1
      using less.hyps [of vs pp1 stack1 out1] Cons by simp
    consider (eof) "tk_kind t = TOKEN_EOF" | (plain) "tk_kind t \<noteq> TOKEN_EOF" "\<not> starts_directive t" | (dir) "tk_kind t \<noteq> TOKEN_EOF" "starts_directive t" by blast
    then show ?thesis
    proof cases
      case eof
      then show ?thesis using Cons by (simp add: source_loop.simps(2))
    next
      case plain
      obtain b1 rest pp1 out1 where r: "plain_step src pp t us out = (b1, rest, pp1, out1)" by (metis prod_cases4)
      show ?thesis using less.prems IH [of pp us stack out] IH [of pp1 rest stack out1] plain_step_stack [OF r] plain_step_le [of src pp t us out rest pp1 out1] r
        unfolding Cons source_loop_step [OF plain] by auto
    next
      case dir
      note same = process_directive_agree [OF assms(1) less.prems]
      obtain r where r: "process_directive files n1 pp src (takeWhile in_line us) (tk_line t) stack out = r" by blast
      have "source_loop files n1 src pp1 (after_line us) stack1 out1 = source_loop files n2 src pp1 (after_line us) stack1 out1"
        if "r = Some (b, pp1, stack1, out1)" for b pp1 stack1 out1
        using IH [OF _ after_line_le] process_directive_stack [OF assms(2) r [unfolded that]] less.prems by simp
      then show ?thesis using IH [OF less.prems length_dropWhile_le] same r
        unfolding Cons source_loop_directive [OF dir] by (auto split: option.split)
    qed
  qed
qed

lemma process_source_levels:
  "33 - length (pp_include_stack pp) \<le> levels \<Longrightarrow> 0 < levels \<Longrightarrow>
     process_source (levels + extra) files pp src out = process_source levels files pp src out"
proof (induction levels arbitrary: pp src out)
  case (Suc levels)
  have agree: "agree_above (length (pp_include_stack pp)) (process_source (levels + extra) files) (process_source levels files)"
    unfolding agree_above_def
  proof (intro allI impI)
    fix pp1 :: preprocessor and src1 out1
    assume "length (pp_include_stack pp1) = Suc (length (pp_include_stack pp))" "length (pp_include_stack pp) < 32"
    then show "process_source (levels + extra) files pp1 src1 out1 = process_source levels files pp1 src1 out1"
      using Suc.prems by (intro Suc.IH) auto
  qed
  note same = source_loop_agree [OF agree process_source_stack]
  show ?case by (auto simp: Let_def same split: option.split prod.split)
qed simp

text \<open>
  C39. Inclusion ends by itself. The 32 levels a source is processed with are enough: while a source is
  processed its path is on the include stack, which stops at 32 entries, so any number of further
  levels gives the same result, whatever the files include. And processing leaves the include stack as
  it was.
\<close>

theorem includes_end:
  assumes "pp_include_stack pp \<noteq> []"
  shows "process_source (CC64_PP_MAX_INCLUDE_DEPTH + extra) files pp src out = process_source CC64_PP_MAX_INCLUDE_DEPTH files pp src out \<and>
    (case process_source CC64_PP_MAX_INCLUDE_DEPTH files pp src out of None \<Rightarrow> True
     | Some (good, pp', out') \<Rightarrow> pp_include_stack pp' = pp_include_stack pp)"
proof
  have "length (pp_include_stack pp) \<noteq> 0" using assms by simp
  then show "process_source (32 + extra) files pp src out = process_source 32 files pp src out"
    by (intro process_source_levels) linarith+
  show "case process_source 32 files pp src out of None \<Rightarrow> True | Some (good, pp', out') \<Rightarrow> pp_include_stack pp' = pp_include_stack pp"
    using keeps_includesD [OF process_source_stack] by (auto split: option.split)
qed

theorem includes_end_witness:
  "process_source (32 + 5) (\<lambda>path. Some [], \<lambda>path. True) ((sample_pp [])\<lparr>pp_include_stack := [[97]]\<rparr>) sample_source token_list_init =
     process_source 32 (\<lambda>path. Some [], \<lambda>path. True) ((sample_pp [])\<lparr>pp_include_stack := [[97]]\<rparr>) sample_source token_list_init"
  using includes_end [of "(sample_pp [])\<lparr>pp_include_stack := [[97]]\<rparr>" 5] by simp

end
