(* ===== verification/Numeric.thy ===== *)
theory Numeric
  imports Prelude_CC64
begin

text \<open>
  Floating constants of the front end (\<open>src/src/frontend/numeric.c\<close>): 128-bit intermediates, the
  scaling by powers of ten, the assembly of a binary64 encoding, and the conversions between
  binary32 and binary64 encodings. Encodings are words; a scale or a decimal exponent is an integer,
  which stays within a few thousand. The text is the string without its terminator, and the scanners
  return what is left of it.
\<close>

definition power_of_ten :: "u64 list" where
  "power_of_ten = [1, 10, 100, 1000, 10000, 100000, 1000000, 10000000, 100000000, 1000000000, 10000000000,
     100000000000, 1000000000000, 10000000000000, 100000000000000, 1000000000000000, 10000000000000000,
     100000000000000000, 1000000000000000000, 10000000000000000000]"

definition power_of_five :: "u64 list" where
  "power_of_five = [1, 5, 25, 125, 625, 3125, 15625, 78125, 390625, 1953125, 9765625, 48828125, 244140625,
     1220703125, 6103515625, 30517578125, 152587890625, 762939453125, 3814697265625, 19073486328125,
     95367431640625, 476837158203125, 2384185791015625, 11920928955078125, 59604644775390625,
     298023223876953125, 1490116119384765625, 7450580596923828125]"

abbreviation (input) CC64_DECIMAL_MAX_DIGITS :: nat where "CC64_DECIMAL_MAX_DIGITS \<equiv> 19"
abbreviation (input) CC64_DECIMAL_MAX_SCALE_EXPONENT :: nat where "CC64_DECIMAL_MAX_SCALE_EXPONENT \<equiv> 19"
abbreviation (input) CC64_DECIMAL_MAX_DIVISOR_EXPONENT :: nat where "CC64_DECIMAL_MAX_DIVISOR_EXPONENT \<equiv> 27"

text \<open>The number of shifts until nothing is left.\<close>

function bit_length :: "u64 \<Rightarrow> nat" where
  "bit_length v = (if v = 0 then 0 else Suc (bit_length (drop_bit 1 v)))"
  by pat_completeness auto
termination
proof (relation "measure unat")
  fix v :: u64 assume "v \<noteq> 0"
  then have "0 < unat v" by (simp add: unat_gt_0)
  moreover have "unat (drop_bit 1 v) = unat v div 2"
    by (simp add: drop_bit_eq_div unat_div)
  ultimately show "(drop_bit 1 v, v) \<in> measure unat" by simp
qed simp

declare bit_length.simps [simp del]

subsection \<open>128-bit intermediates\<close>

record wide =
  wd_high :: u64
  wd_low :: u64

definition wide_from_u64 :: "u64 \<Rightarrow> wide" where
  "wide_from_u64 v = \<lparr>wd_high = 0, wd_low = v\<rparr>"

definition wide_shift_left :: "wide \<Rightarrow> nat \<Rightarrow> wide" where
  "wide_shift_left v bits =
     (if bits = 0 then \<lparr>wd_high = wd_high v, wd_low = wd_low v\<rparr>
      else if bits \<ge> 128 then \<lparr>wd_high = 0, wd_low = 0\<rparr>
      else if bits \<ge> 64 then \<lparr>wd_high = push_bit (bits - 64) (wd_low v), wd_low = 0\<rparr>
      else \<lparr>wd_high = push_bit bits (wd_high v) OR drop_bit (64 - bits) (wd_low v), wd_low = push_bit bits (wd_low v)\<rparr>)"

definition wide_bit :: "wide \<Rightarrow> nat \<Rightarrow> u64" where
  "wide_bit v b = drop_bit (b mod 64) (if b \<ge> 64 then wd_high v else wd_low v) AND 1"

text \<open>One round of the restoring division.\<close>

definition divide_step :: "wide \<Rightarrow> u64 \<Rightarrow> wide \<times> u64 \<Rightarrow> nat \<Rightarrow> wide \<times> u64" where
  "divide_step v divisor st b =
     (case st of (result, rest) \<Rightarrow>
      let source = wide_bit v b;
          carry = (drop_bit 63 rest \<noteq> 0);
          rest = push_bit 1 rest OR source;
          take = (carry \<or> rest \<ge> divisor);
          rest = (if take then rest - divisor else rest)
      in (if b < 64 then (if take then result\<lparr>wd_low := wd_low result OR push_bit b 1\<rparr> else result)
          else (if take then result\<lparr>wd_high := wd_high result OR push_bit (b - 64) 1\<rparr> else result), rest))"

definition wide_divide :: "wide \<Rightarrow> u64 \<Rightarrow> wide \<times> u64" where
  "wide_divide v divisor = foldl (divide_step v divisor) (\<lparr>wd_high = 0, wd_low = 0\<rparr>, 0) (rev [0..<128])"

definition wide_multiply :: "u64 \<Rightarrow> u64 \<Rightarrow> wide" where
  "wide_multiply left right =
     (let left_low = left AND 0xFFFFFFFF; left_high = drop_bit 32 left;
          right_low = right AND 0xFFFFFFFF; right_high = drop_bit 32 right;
          p0 = left_low * right_low; p1 = left_low * right_high;
          p2 = left_high * right_low; p3 = left_high * right_high;
          carry = drop_bit 32 p0;
          low = p0 AND 0xFFFFFFFF;
          sum = (p1 AND 0xFFFFFFFF) + (p2 AND 0xFFFFFFFF) + carry;
          low = low OR push_bit 32 (sum AND 0xFFFFFFFF);
          carry = drop_bit 32 p1 + drop_bit 32 p2 + drop_bit 32 sum;
          sum = (p3 AND 0xFFFFFFFF) + carry
      in \<lparr>wd_high = (sum AND 0xFFFFFFFF) OR push_bit 32 (drop_bit 32 p3 + drop_bit 32 sum), wd_low = low\<rparr>)"

definition wide_normalize :: "wide \<Rightarrow> int \<Rightarrow> bool \<Rightarrow> wide \<times> int \<times> bool" where
  "wide_normalize v scale sticky =
     (if wd_high v = 0 then (v, scale, sticky)
      else let amount = bit_length (wd_high v) in
        let (low, sticky) =
          (if amount < 64 then
             (push_bit (64 - amount) (wd_high v) OR drop_bit amount (wd_low v),
              if wd_low v AND (push_bit (amount - 1) 1 - 1) \<noteq> 0 then True else sticky)
           else (wd_high v,
              if wd_high v AND 0x7FFFFFFFFFFFFFFF \<noteq> 0 \<or> wd_low v \<noteq> 0 then True else sticky))
        in (\<lparr>wd_high = 0, wd_low = low\<rparr>, scale - int amount, sticky))"

subsection \<open>Assembling an encoding\<close>

definition sign_bit64 :: "bool \<Rightarrow> u64" where
  "sign_bit64 negative = (if negative then push_bit 63 1 else 0)"

text \<open>The significand at the chosen quantum, rounded; no value when it does not fit.\<close>

definition round_significand :: "u64 \<Rightarrow> int \<Rightarrow> bool \<Rightarrow> u64 option" where
  "round_significand numerator shift sticky =
     (if shift \<ge> 0 then
        (if shift \<ge> 64 then None
         else let significand = push_bit (nat shift) numerator in
           if drop_bit (nat shift) significand \<noteq> numerator then None else Some significand)
      else
        let right = nat (- shift);
            (significand, guard, rest) =
              (if right > 64 then (0, False, sticky)
               else if right = 64 then
                 (0, drop_bit 63 numerator AND 1 \<noteq> 0, sticky \<or> numerator AND 0x7FFFFFFFFFFFFFFF \<noteq> 0)
               else (drop_bit right numerator, drop_bit (right - 1) numerator AND 1 \<noteq> 0,
                 if right > 1 \<and> numerator AND (push_bit (right - 1) 1 - 1) \<noteq> 0 then True else sticky))
        in Some (if guard \<and> (rest \<or> significand AND 1 \<noteq> 0) then significand + 1 else significand))"

definition assemble_double :: "u64 \<Rightarrow> int \<Rightarrow> bool \<Rightarrow> bool \<Rightarrow> u64 option" where
  "assemble_double numerator scale sticky negative =
     (if numerator = 0 then Some (sign_bit64 negative)
      else let len = bit_length numerator;
               exponent = int len - 1 - scale;
               fraction_bits = (if exponent \<ge> - 1022 then 52 - exponent else 1074)
        in case round_significand numerator (fraction_bits - scale) sticky of
             None \<Rightarrow> None
           | Some significand \<Rightarrow>
             if significand = 0 then Some (sign_bit64 negative)
             else let width = bit_length significand; unbiased = int width - 1 - fraction_bits in
               if unbiased < - 1022 then Some (sign_bit64 negative OR significand)
               else if unbiased > 1023 then None
               else let significand = (if width > 53 then drop_bit (width - 53) significand else significand)
                    in Some ((push_bit 52 (word_of_int (unbiased + 1023)) OR (significand AND 0x000FFFFFFFFFFFFF))
                             OR sign_bit64 negative))"

subsection \<open>Scanning\<close>

record decimal =
  dc_mantissa :: u64
  dc_digits :: nat
  dc_exponent :: int
  dc_truncated :: bool
  dc_seen :: bool

definition is_digit :: "byte \<Rightarrow> bool" where
  "is_digit b \<longleftrightarrow> \<not> (b < 48 \<or> b > 57)"

fun scan_integer :: "decimal \<Rightarrow> cstring \<Rightarrow> decimal \<times> cstring" where
  "scan_integer d [] = (d, [])"
| "scan_integer d (b # text) =
     (if \<not> is_digit b then (d, b # text)
      else let d = d\<lparr>dc_seen := True\<rparr> in
        scan_integer (if dc_digits d < CC64_DECIMAL_MAX_DIGITS
          then d\<lparr>dc_mantissa := dc_mantissa d * 10 + ucast (b - 48), dc_digits := dc_digits d + 1\<rparr>
          else d\<lparr>dc_exponent := dc_exponent d + 1,
                 dc_truncated := (if dc_mantissa d \<noteq> 0 then True else dc_truncated d)\<rparr>) text)"

fun scan_fraction :: "decimal \<Rightarrow> cstring \<Rightarrow> decimal \<times> cstring" where
  "scan_fraction d [] = (d, [])"
| "scan_fraction d (b # text) =
     (if \<not> is_digit b then (d, b # text)
      else let d = d\<lparr>dc_seen := True\<rparr> in
        scan_fraction (if dc_digits d < CC64_DECIMAL_MAX_DIGITS
          then d\<lparr>dc_mantissa := dc_mantissa d * 10 + ucast (b - 48), dc_digits := dc_digits d + 1,
                 dc_exponent := dc_exponent d - 1\<rparr>
          else d\<lparr>dc_truncated := True\<rparr>) text)"

fun scan_exponent :: "nat \<Rightarrow> cstring \<Rightarrow> nat \<times> cstring" where
  "scan_exponent v [] = (v, [])"
| "scan_exponent v (b # text) =
     (if is_digit b then scan_exponent (if v < 10000 then v * 10 + unat (b - 48) else v) text
      else (v, b # text))"

text \<open>A sign, as the scanners of the number and of its exponent treat it.\<close>

fun scan_sign :: "cstring \<Rightarrow> bool \<times> cstring" where
  "scan_sign [] = (False, [])"
| "scan_sign (b # text) = (if b = 43 \<or> b = 45 then (b = 45, text) else (False, b # text))"

definition scan_decimal :: "cstring \<Rightarrow> (bool \<times> decimal) option" where
  "scan_decimal text =
     (let (negative, text) = scan_sign text;
          (d, text) = scan_integer \<lparr>dc_mantissa = 0, dc_digits = 0, dc_exponent = 0, dc_truncated = False, dc_seen = False\<rparr> text;
          (d, text) = (case text of b # rest \<Rightarrow> if b = 46 then scan_fraction d rest else (d, text) | [] \<Rightarrow> (d, text))
      in if \<not> dc_seen d then None
         else case (case text of
             b # rest \<Rightarrow>
               if b = 101 \<or> b = 69 then
                 (let (negative_exponent, rest) = scan_sign rest in
                  if (case rest of [] \<Rightarrow> True | c # _ \<Rightarrow> \<not> is_digit c) then None
                  else let (v, rest) = scan_exponent 0 rest in
                    if v > 4000 then None
                    else Some (d\<lparr>dc_exponent := dc_exponent d + (if negative_exponent then - int v else int v)\<rparr>, rest))
               else Some (d, text)
           | [] \<Rightarrow> Some (d, text)) of
             None \<Rightarrow> None
           | Some (d, text) \<Rightarrow> if text \<noteq> [] then None else Some (negative, d))"

subsection \<open>Scaling\<close>

function scale_up :: "nat \<Rightarrow> wide \<times> int \<times> bool \<Rightarrow> wide \<times> int \<times> bool" where
  "scale_up exponent st =
     (if exponent = 0 then st
      else let step = (if exponent > CC64_DECIMAL_MAX_SCALE_EXPONENT then CC64_DECIMAL_MAX_SCALE_EXPONENT else exponent)
        in case st of (v, scale, sticky) \<Rightarrow> (case wide_normalize v scale sticky of (v, scale, sticky) \<Rightarrow>
          scale_up (exponent - step) (wide_multiply (wd_low v) (power_of_ten ! step), scale, sticky)))"
  by pat_completeness auto
termination by (relation "measure fst") auto

function scale_down :: "nat \<Rightarrow> wide \<times> int \<times> bool \<Rightarrow> (wide \<times> int \<times> bool) option" where
  "scale_down exponent st =
     (if exponent = 0 then Some st
      else let step = (if exponent > CC64_DECIMAL_MAX_DIVISOR_EXPONENT then CC64_DECIMAL_MAX_DIVISOR_EXPONENT else exponent)
        in case st of (v, scale, sticky) \<Rightarrow> (case wide_normalize v scale sticky of (v, scale, sticky) \<Rightarrow>
          let divisor = power_of_five ! step;
              divisor_width = bit_length divisor;
              width = bit_length (wd_low v);
              widen = 63 + divisor_width - width
          in if divisor_width > 64 then None
             else if width + widen > 128 then None
             else case wide_divide (wide_shift_left v widen) divisor of (quot, remainder) \<Rightarrow>
               scale_down (exponent - step)
                 (quot, scale + (int widen + int step), if remainder \<noteq> 0 then True else sticky)))"
  by pat_completeness auto
termination by (relation "measure fst") auto

definition cc64_decimal_to_double :: "cstring option \<Rightarrow> u64 option" where
  "cc64_decimal_to_double text =
     (case text of None \<Rightarrow> None
      | Some s \<Rightarrow> (case scan_decimal s of None \<Rightarrow> None
        | Some (negative, d) \<Rightarrow>
          if dc_mantissa d = 0 then Some (sign_bit64 negative)
          else let st = scale_up (nat (dc_exponent d)) (wide_from_u64 (dc_mantissa d), 0, dc_truncated d) in
            (case scale_down (nat (- dc_exponent d)) st of None \<Rightarrow> None
             | Some (v, scale, sticky) \<Rightarrow>
               (case wide_normalize v scale sticky of (v, scale, sticky) \<Rightarrow>
                 assemble_double (wd_low v) scale sticky negative))))"

declare scale_up.simps [simp del] scale_down.simps [simp del]

subsection \<open>Between binary64 and binary32\<close>

definition sign_bit32 :: "bool \<Rightarrow> u32 \<Rightarrow> u32" where
  "sign_bit32 negative pattern = (if negative then pattern OR 0x80000000 else pattern)"

definition cc64_double_to_float :: "u64 \<Rightarrow> u32" where
  "cc64_double_to_float bits =
     (let exponent_field = drop_bit 52 bits AND 0x7FF;
          mantissa = bits AND 0x000FFFFFFFFFFFFF;
          negative = (drop_bit 63 bits \<noteq> 0)
      in if exponent_field = 0x7FF then
           sign_bit32 negative (0x7F800000 OR (if mantissa \<noteq> 0 then 0x00400000 else 0))
         else if exponent_field = 0 \<and> mantissa = 0 then (if negative then 0x80000000 else 0)
         else
           let exponent = uint exponent_field - 1023;
               significand = mantissa OR push_bit 52 1;
               amount = (if exponent_field = 0 then 30 else 29);
               round_bit = (drop_bit (amount - 1) significand AND 1 \<noteq> 0);
               sticky = (significand AND (push_bit (amount - 1) 1 - 1) \<noteq> 0);
               result = drop_bit amount significand;
               result = (if round_bit \<and> (sticky \<or> result AND 1 \<noteq> 0) then result + 1 else result);
               (result, exponent) = (if drop_bit 24 result \<noteq> 0 then (drop_bit 1 result, exponent + 1) else (result, exponent))
           in if exponent > 127 then (if negative then 0xFF800000 else 0x7F800000)
              else if exponent < - 126 then
                (if exponent < - 149 then (if negative then 0x80000000 else 0)
                 else sign_bit32 negative (ucast (drop_bit (nat (- 126 - exponent)) result)))
              else sign_bit32 negative (push_bit 23 (word_of_int (exponent + 127)) OR (ucast result AND 0x007FFFFF)))"

text \<open>The position of the leading one of a 23-bit fraction; 0 when bit 0 is the only one left.\<close>

fun highest_from :: "u32 \<Rightarrow> nat \<Rightarrow> nat" where
  "highest_from mantissa 0 = 0"
| "highest_from mantissa (Suc b) = (if mantissa AND push_bit (Suc b) 1 \<noteq> 0 then Suc b else highest_from mantissa b)"

definition cc64_float_to_double :: "u32 \<Rightarrow> u64" where
  "cc64_float_to_double bits =
     (let negative = (bits AND 0x80000000 \<noteq> 0);
          exponent = drop_bit 23 bits AND 0xFF;
          mantissa = bits AND 0x007FFFFF;
          sign = (if negative then 0x8000000000000000 else 0) :: u64
      in if exponent = 0xFF then sign OR 0x7FF0000000000000 OR push_bit 29 (ucast mantissa)
         else if exponent = 0 then
           (if mantissa = 0 then sign
            else let highest = highest_from mantissa 22;
                     rest = mantissa AND (push_bit highest 1 - 1);
                     fraction = push_bit (52 - highest) (ucast rest);
                     biased = int highest - 149 + 1023
                 in sign OR push_bit 52 (word_of_int biased) OR fraction)
         else sign OR push_bit 52 (ucast (exponent - 127 + 1023)) OR push_bit 29 (ucast mantissa))"

subsection \<open>The 128-bit operations\<close>

definition wide_value :: "wide \<Rightarrow> nat" where
  "wide_value v = unat (wd_high v) * 2 ^ 64 + unat (wd_low v)"

lemma unat_drop_bit: "unat (drop_bit n (x :: u64)) = unat x div 2 ^ n"
proof -
  have "take_bit LENGTH(64) (unat x) = unat x" by (rule take_bit_nat_eq_self [OF unsigned_less])
  then show ?thesis unfolding unsigned_drop_bit_eq by (simp only: drop_bit_eq_div)
qed

lemma unat_low32: "unat ((x :: u64) AND 0xFFFFFFFF) = unat x mod 2 ^ 32"
proof -
  have "unat (x AND 0xFFFFFFFF) = unat x AND 0xFFFFFFFF" by (simp only: unsigned_and_eq) simp
  also have "(0xFFFFFFFF :: nat) = mask 32" by (simp add: mask_eq_exp_minus_1)
  finally show ?thesis by (simp only: take_bit_eq_mask [symmetric] take_bit_eq_mod)
qed

lemma unat_push32:
  assumes "unat (hi :: u64) < 2 ^ 32"
  shows "unat (push_bit 32 hi) = unat hi * 2 ^ 32"
  using assms by (simp only: unsigned_push_bit_eq) (simp add: push_bit_eq_mult take_bit_nat_eq_self)

lemma unat_join:
  assumes "unat (lo :: u64) < 2 ^ 32" "unat (hi :: u64) < 2 ^ 32"
  shows "unat (lo OR push_bit 32 hi) = unat lo + unat hi * 2 ^ 32"
proof -
  have "take_bit 32 (unat lo) = unat lo" using assms(1) by (simp add: take_bit_nat_eq_self)
  then have "unat lo AND push_bit 32 (unat hi) = 0"
    by (intro bit_eqI) (metis bit_0_eq bit_and_iff bit_push_bit_iff bit_take_bit_iff bot_apply bot_bool_def not_less)
  then have "unat lo OR push_bit 32 (unat hi) = unat lo + push_bit 32 (unat hi)" 
    by (simp add: disjunctive_add_eq_or)
  moreover have "unat (lo OR push_bit 32 hi) = unat lo OR push_bit 32 (unat hi)"
    unfolding unsigned_or_eq unat_push32 [OF assms(2)] by (simp only: push_bit_eq_mult)
  ultimately show ?thesis by (simp only: push_bit_eq_mult)
qed

lemma unat_mult_small:
  "unat (x :: u64) \<le> 2 ^ 32 - 1 \<Longrightarrow> unat (y :: u64) \<le> 2 ^ 32 - 1 \<Longrightarrow> unat (x * y) = unat x * unat y"
proof -
  assume a: "unat x \<le> 2 ^ 32 - 1" "unat y \<le> 2 ^ 32 - 1"
  have "unat x * unat y \<le> (2 ^ 32 - 1) * (2 ^ 32 - 1)" using a by (rule mult_le_mono)
  then have "unat x * unat y < 2 ^ 64" by simp
  then show ?thesis by (simp add: unat_word_ariths)
qed

lemma unat_add_small: "unat (x :: u64) + unat y < 2 ^ 64 \<Longrightarrow> unat (x + y) = unat x + unat y"
  by (simp add: unat_word_ariths)


lemma schoolbook:
  fixes B :: nat
  assumes B: "0 < B" and lt: "a < B" "b < B" "c < B" "d < B"
  defines "s1 \<equiv> a * d mod B + b * c mod B + a * c div B"
  defines "s2 \<equiv> b * d mod B + (a * d div B + b * c div B + s1 div B)"
  shows "((s2 mod B + (b * d div B + s2 div B) * B) * (B * B) + (a * c mod B + s1 mod B * B) = (a + b * B) * (c + d * B))"
    and "b * d div B + s2 div B < B"
proof -
  have dm: "x = x mod B + x div B * B" for x by simp
  have 1: "a * c mod B + s1 mod B * B + (s1 div B) * (B * B) = a * c + (a * d mod B + b * c mod B) * B"
    using dm [of s1] dm [of "a * c"] unfolding s1_def by algebra
  have 2: "(s2 mod B + (b * d div B + s2 div B) * B) = b * d + a * d div B + b * c div B + s1 div B"
    using dm [of s2] dm [of "b * d"] unfolding s2_def by algebra
  show eq: "(s2 mod B + (b * d div B + s2 div B) * B) * (B * B) + (a * c mod B + s1 mod B * B) = (a + b * B) * (c + d * B)"
    using 1 2 dm [of "a * d"] dm [of "b * c"] by algebra
  have "(a + b * B) < B * B" "(c + d * B) < B * B"
    using lt mult_le_mono1 [of "Suc b" B B] mult_le_mono1 [of "Suc d" B B] by auto
  then have "(a + b * B) * (c + d * B) < (B * B) * (B * B)" by (rule mult_strict_mono) (use B in auto)
  then have "(s2 mod B + (b * d div B + s2 div B) * B) * (B * B) < (B * B) * (B * B)" using eq by linarith
  then have "s2 mod B + (b * d div B + s2 div B) * B < B * B" by simp
  then have "(b * d div B + s2 div B) * B < B * B" by linarith
  then show "b * d div B + s2 div B < B" using B by simp
qed

lemma unat_low32_less: "unat ((x :: u64) AND 0xFFFFFFFF) < 2 ^ 32"
  by (simp only: unat_low32) simp

lemma unat_high32_less: "unat (drop_bit 32 (x :: u64)) < 2 ^ 32"
  using unat_u64_less [of x] by (simp only: unat_drop_bit) (rule less_mult_imp_div_less, simp)


lemma unat_sum2: "unat (x :: u64) = i \<Longrightarrow> unat y = j \<Longrightarrow> i + j < 2 ^ 64 \<Longrightarrow> unat (x + y) = i + j"
  using unat_add_small by metis

lemma unat_sum3: "unat (x :: u64) = i \<Longrightarrow> unat y = j \<Longrightarrow> unat z = k \<Longrightarrow> i + j + k < 2 ^ 64 \<Longrightarrow> unat (x + y + z) = i + j + k"
  by (intro unat_sum2) auto

lemma sum_below: "i < 2 ^ 32 \<Longrightarrow> j < 2 ^ 32 \<Longrightarrow> k < 2 ^ 32 \<Longrightarrow> i + j + k < (2 ^ 64 :: nat)"
  by simp

lemma sum_below4: "l < 2 ^ 32 \<Longrightarrow> i < 2 ^ 32 \<Longrightarrow> j < 2 ^ 32 \<Longrightarrow> k < 2 ^ 32 \<Longrightarrow> l + (i + j + k) < (2 ^ 64 :: nat)"
  by simp

lemma wide_multiply_exact: "wide_value (wide_multiply left right) = unat left * unat right"
proof -
  define a b c d where n: "a = unat left mod 2 ^ 32" "b = unat left div 2 ^ 32" "c = unat right mod 2 ^ 32" "d = unat right div 2 ^ 32"
  have lt: "a < 2 ^ 32" "b < 2 ^ 32" "c < 2 ^ 32" "d < 2 ^ 32"
    using unat_high32_less [of left] unat_high32_less [of right] by (simp_all add: n unat_drop_bit)
  let ?x = "left AND 0xFFFFFFFF" and ?y = "drop_bit 32 left" and ?z = "right AND 0xFFFFFFFF" and ?w = "drop_bit 32 right"
  have u: "unat ?x = a" "unat ?y = b" "unat ?z = c" "unat ?w = d" by (simp_all only: n unat_low32 unat_drop_bit)
  have p: "unat (?x * ?z) = a * c" "unat (?x * ?w) = a * d" "unat (?y * ?z) = b * c" "unat (?y * ?w) = b * d"
    using lt by (subst unat_mult_small; simp add: u)+
  define s1 where "s1 = (?x * ?w AND 0xFFFFFFFF) + (?y * ?z AND 0xFFFFFFFF) + drop_bit 32 (?x * ?z)"
  define s2 where "s2 = (?y * ?w AND 0xFFFFFFFF) + (drop_bit 32 (?x * ?w) + drop_bit 32 (?y * ?z) + drop_bit 32 s1)"
  have h: "v div 2 ^ 32 < 2 ^ 32" if "v = unat (t :: u64)" for v t
    using unat_high32_less [of t] that by (simp only: unat_drop_bit)
  have m: "v mod 2 ^ 32 < (2 ^ 32 :: nat)" for v by simp
  note parts = unat_low32 unat_drop_bit p
  have e1: "unat s1 = a * d mod 2 ^ 32 + b * c mod 2 ^ 32 + a * c div 2 ^ 32"
    unfolding s1_def by (rule unat_sum3, (simp only: parts)+) (intro sum_below m h [OF p(1) [symmetric]])
  have e2: "unat s2 = b * d mod 2 ^ 32 + (a * d div 2 ^ 32 + b * c div 2 ^ 32 + unat s1 div 2 ^ 32)"
    unfolding s2_def
    by (rule unat_sum2 [OF _ unat_sum3], (simp only: parts)+) 
      (intro sum_below sum_below4 m h [OF p(2) [symmetric]] h [OF p(3) [symmetric]] h [of _ s1, OF refl])+
  note s = schoolbook [OF _ lt, folded e1, folded e2]
  have lt3: "b * d div 2 ^ 32 + unat s2 div 2 ^ 32 < 2 ^ 32" using s(2) by simp
  have e3: "unat (drop_bit 32 (?y * ?w) + drop_bit 32 s2) = b * d div 2 ^ 32 + unat s2 div 2 ^ 32"
    by (rule unat_sum2, (simp only: parts)+) (use lt3 in simp)
  have "wide_multiply left right = \<lparr>wd_high = (s2 AND 0xFFFFFFFF) OR push_bit 32 (drop_bit 32 (?y * ?w) + drop_bit 32 s2),
      wd_low = (?x * ?z AND 0xFFFFFFFF) OR push_bit 32 (s1 AND 0xFFFFFFFF)\<rparr>"
    by (simp only: wide_multiply_def Let_def s1_def s2_def)
  then have "wide_value (wide_multiply left right) =
      (unat s2 mod 2 ^ 32 + (b * d div 2 ^ 32 + unat s2 div 2 ^ 32) * 2 ^ 32) * 2 ^ 64 +
      (a * c mod 2 ^ 32 + unat s1 mod 2 ^ 32 * 2 ^ 32)"
    unfolding wide_value_def using lt3
    by (simp only: wide.simps unat_join unat_low32_less unat_low32 e3 p m)
  also have "\<dots> = (a + b * 2 ^ 32) * (c + d * 2 ^ 32)"
    using s(1) by (simp only: power_add [symmetric] arith_simps) simp
  also have "\<dots> = unat left * unat right" by (simp add: n)
  finally show ?thesis .
qed


lemma wide_value_parts: "take_bit 64 (wide_value v) = unat (wd_low v)" "drop_bit 64 (wide_value v) = unat (wd_high v)"
  using unat_u64_less [of "wd_low v"] by (simp_all add: wide_value_def take_bit_eq_mod drop_bit_eq_div)

lemma wide_value_less: "wide_value v < 2 ^ 128"
  using unat_u64_less [of "wd_low v"] unat_u64_less [of "wd_high v"] by (simp add: wide_value_def)

lemma bit_wide_low: "n < 64 \<Longrightarrow> bit (wd_low v) n = bit (wide_value v) n"
  using bit_take_bit_iff [of 64 "wide_value v" n] by (simp add: wide_value_parts bit_unsigned_iff)

lemma bit_wide_high: "64 \<le> n \<Longrightarrow> n < 128 \<Longrightarrow> bit (wd_high v) (n - 64) = bit (wide_value v) n"
  using bit_drop_bit_eq [of 64 "wide_value v"] by (simp add: wide_value_parts bit_unsigned_iff fun_eq_iff)

lemma and_one_bit: "drop_bit n (x :: u64) AND 1 = of_bool (bit x n)"
  by (simp add: and_one_eq odd_iff_mod_2_eq_one [symmetric] bit_iff_odd_drop_bit mod2_eq_if)

lemma wide_bit_eq: "b < 128 \<Longrightarrow> wide_bit v b = of_bool (bit (wide_value v) b)"
  unfolding wide_bit_def and_one_bit using bit_wide_low [of b v] bit_wide_high [of b v]
  by (cases "b < 64") (auto simp: not_less le_mod_geq)

lemma unat_or_bit:
  assumes "\<not> bit (x :: u64) n" "n < 64"
  shows "unat (x OR push_bit n 1) = unat x + 2 ^ n"
proof -
  have "x AND push_bit n 1 = 0"
    using assms(1) by (intro bit_word_eqI) (auto simp: bit_and_iff bit_exp_iff)
  then have "x OR push_bit n 1 = x + 2 ^ n" by (simp add: disjunctive_add_eq_or push_bit_eq_mult)
  moreover have "unat (x OR push_bit n 1) = unat x OR 2 ^ n"
  proof -
    have "unat (push_bit n (1 :: u64)) = 2 ^ n"
      using assms(2) by (simp only: unsigned_push_bit_eq) (simp add: push_bit_eq_mult take_bit_nat_eq_self)
    then show ?thesis by (simp only: unsigned_or_eq)
  qed
  moreover have "unat x AND 2 ^ n = 0"
    using assms by (intro bit_eqI) (auto simp: bit_and_iff bit_exp_iff bit_unsigned_iff)
  ultimately show ?thesis by (simp add: disjunctive_add_eq_or)
qed

lemma wide_set_bit:
  assumes "wide_value r = q * 2 ^ Suc b" "b < 128"
  shows "wide_value (if b < 64 then r\<lparr>wd_low := wd_low r OR push_bit b 1\<rparr> else r\<lparr>wd_high := wd_high r OR push_bit (b - 64) 1\<rparr>)
    = (2 * q + 1) * 2 ^ b"
proof -
  have "\<not> bit (wide_value r) b" unfolding assms(1) by (simp add: bit_iff_odd)
  then have "b < 64 \<Longrightarrow> \<not> bit (wd_low r) b" "64 \<le> b \<Longrightarrow> \<not> bit (wd_high r) (b - 64)"
    using bit_wide_low bit_wide_high assms(2) by auto
  moreover have "(2 :: nat) ^ b = 2 ^ (b - 64) * 2 ^ 64" if "64 \<le> b"
    using that by (simp only: power_add [symmetric]) simp
  ultimately show ?thesis using assms unat_or_bit [of "wd_low r" b] unat_or_bit [of "wd_high r" "b - 64"]
    by (cases "b < 64") (simp_all add: wide_value_def algebra_simps)
qed

lemma divide_step_exact:
  assumes b: "b < 128" and D: "divisor \<noteq> 0"
    and inv: "wide_value r = wide_value v div 2 ^ Suc b div unat divisor * 2 ^ Suc b"
             "unat rest = wide_value v div 2 ^ Suc b mod unat divisor"
    and step: "divide_step v divisor (r, rest) b = (r', rest')"
  shows "wide_value r' = wide_value v div 2 ^ b div unat divisor * 2 ^ b"
    and "unat rest' = wide_value v div 2 ^ b mod unat divisor"
proof -
  define d where "d = unat divisor"
  define x where "x = wide_value v div 2 ^ Suc b"
  define y where "y = wide_value v div 2 ^ b"
  define s where "s = (of_bool (bit (wide_value v) b) :: nat)"
  have d: "0 < d" "d < 2 ^ 64" unfolding d_def by (rule unat_gt_0 [THEN iffD2, OF D], rule unat_u64_less)
  have y: "y = 2 * x + s"
    unfolding x_def y_def s_def bit_iff_odd using div_mult2_eq [of "wide_value v" "2 ^ b" 2]
    by (simp add: mult.commute [of _ "2 :: nat"])
  define r2 where "r2 = 2 * (x mod d) + s"
  have yd: "y = 2 * (x div d) * d + r2" unfolding y r2_def using div_mult_mod_eq [of x d] by (metis add.assoc distrib_left mult.assoc)
  have s1: "s \<le> 1" by (simp add: s_def)
  have "x mod d < d" using d by simp
  then have r2: "r2 < 2 * d" using s1 by (simp add: r2_def)
  have q: "y div d = (if d \<le> r2 then 2 * (x div d) + 1 else 2 * (x div d))" 
    "y mod d = (if d \<le> r2 then r2 - d else r2)"
  proof -
    have "y div d = 2 * (x div d) + r2 div d" "y mod d = r2 mod d" unfolding yd using d(1) by simp_all
    moreover have "d \<le> r2 \<Longrightarrow> r2 div d = 1 \<and> r2 mod d = r2 - d" using r2 d(1)
      by (simp add: le_div_geq le_mod_geq)
    ultimately have "d \<le> r2 \<Longrightarrow> y div d = 2 * (x div d) + 1 \<and> y mod d = r2 - d" by simp
    moreover have "\<not> d \<le> r2 \<Longrightarrow> y div d = 2 * (x div d) \<and> y mod d = r2" using yd by simp
    ultimately show "y div d = (if d \<le> r2 then 2 * (x div d) + 1 else 2 * (x div d))"
      "y mod d = (if d \<le> r2 then r2 - d else r2)" by simp_all
  qed
  define shifted where "shifted = push_bit 1 rest OR wide_bit v b"
  have rest: "unat rest = x mod d" using inv(2) by (simp add: x_def d_def)
  have sw: "wide_bit v b = of_nat s" using b by (simp add: wide_bit_eq s_def)
  have sh: "shifted = of_nat r2"
  proof -
    have "push_bit 1 rest AND of_nat s = 0"
      by (intro bit_word_eqI) (auto simp: bit_simps bit_0 s_def)
    then have "shifted = push_bit 1 rest + of_nat s" unfolding shifted_def sw by (simp only: disjunctive_add_eq_or)
    also have "\<dots> = of_nat (2 * unat rest) + of_nat s" by (simp add: push_bit_eq_mult)
    finally show ?thesis by (simp add: r2_def rest)
  qed
  have "drop_bit 63 rest \<noteq> 0 \<longleftrightarrow> unat (drop_bit 63 rest) \<noteq> 0" by (simp only: unat_eq_0)
  also have "\<dots> \<longleftrightarrow> 2 ^ 63 \<le> x mod d" unfolding unat_drop_bit rest by (simp add: div_eq_0_iff not_less)
  also have "\<dots> \<longleftrightarrow> 2 ^ 64 \<le> r2" using s1 by (auto simp: r2_def)
  finally have carry: "drop_bit 63 rest \<noteq> 0 \<longleftrightarrow> 2 ^ 64 \<le> r2" .
  have small: "unat shifted = r2" if "r2 < 2 ^ 64" using that unfolding sh by (simp add: unat_of_nat)
  have take: "(drop_bit 63 rest \<noteq> 0 \<or> divisor \<le> shifted) \<longleftrightarrow> d \<le> r2"
    using d(2) small unfolding carry word_le_nat_alt d_def [symmetric] by (cases "r2 < 2 ^ 64") auto
  have rest': "rest' = (if d \<le> r2 then shifted - divisor else shifted)"
    and r': "r' = (if d \<le> r2 then (if b < 64 then r\<lparr>wd_low := wd_low r OR push_bit b 1\<rparr> 
        else r\<lparr>wd_high := wd_high r OR push_bit (b - 64) 1\<rparr>) else r)"
    using step take unfolding divide_step_def shifted_def [symmetric] Let_def prod.case by (auto split: if_splits)
  have "divisor = of_nat d" by (simp add: d_def)
  then have "shifted - divisor = of_nat (r2 - d)" if "d \<le> r2" using that unfolding sh by (simp add: of_nat_diff)
  moreover have "unat (of_nat (r2 - d) :: u64) = r2 - d"
    using r2 d(2) unfolding unat_of_nat by (intro mod_less) simp
  ultimately have "d \<le> r2 \<Longrightarrow> unat (shifted - divisor) = r2 - d" by (simp only:)
  moreover have "\<not> d \<le> r2 \<Longrightarrow> unat shifted = r2" using small d(2) by simp
  ultimately have "unat rest' = (if d \<le> r2 then r2 - d else r2)" unfolding rest' by simp
  then show "unat rest' = wide_value v div 2 ^ b mod unat divisor" using q(2) by (simp add: y_def d_def)
  have r: "wide_value r = (x div d) * 2 ^ Suc b" using inv(1) by (simp add: x_def d_def)
  show "wide_value r' = wide_value v div 2 ^ b div unat divisor * 2 ^ b"
    unfolding r' y_def [symmetric] d_def [symmetric] q(1) using wide_set_bit [OF r b] r by (simp add: algebra_simps)
qed


lemma wide_divide_exact:
  assumes "divisor \<noteq> 0" "wide_divide v divisor = (result, rest)"
  shows "wide_value result = wide_value v div unat divisor" "unat rest = wide_value v mod unat divisor"
proof -
  let ?run = "\<lambda>n. foldl (divide_step v divisor) (\<lparr>wd_high = 0, wd_low = 0\<rparr>, 0) (rev [128 - n..<128])"
  have run: "n \<le> 128 \<Longrightarrow> wide_value (fst (?run n)) = wide_value v div 2 ^ (128 - n) div unat divisor * 2 ^ (128 - n)
    \<and> unat (snd (?run n)) = wide_value v div 2 ^ (128 - n) mod unat divisor" for n
  proof (induction n)
    case 0
    then show ?case using wide_value_less [of v] by (simp add: wide_value_def)
  next
    case (Suc n)
    define b where "b = 128 - Suc n"
    have b: "b < 128" "128 - n = Suc b" using Suc.prems by (simp_all add: b_def)
    obtain r s where rs: "?run n = (r, s)" by (cases "?run n")
    have up: "[b..<128] = b # [Suc b..<128]" using b by (simp add: upt_conv_Cons)
    obtain r' s' where st: "divide_step v divisor (r, s) b = (r', s')" by (cases "divide_step v divisor (r, s) b")
    have "?run (Suc n) = (r', s')" using rs st unfolding b(2) b_def [symmetric] up by simp
    moreover have "wide_value r = wide_value v div 2 ^ Suc b div unat divisor * 2 ^ Suc b"
       "unat s = wide_value v div 2 ^ Suc b mod unat divisor" using Suc.IH Suc.prems rs unfolding b(2) by auto
    ultimately show ?case using divide_step_exact [OF b(1) assms(1) _ _ st] unfolding b_def [symmetric] by simp
  qed
  from run [of 128] assms(2) show "wide_value result = wide_value v div unat divisor" 
     "unat rest = wide_value v mod unat divisor" by (simp_all add: wide_divide_def)
qed


text \<open>
  The 128-bit helpers the decimal conversion rests on compute what their names say, with no
  overflow lost: \<open>wide_multiply\<close> returns the exact 128-bit product of any two 64-bit factors, and
  \<open>wide_divide\<close> the exact quotient and remainder of any 128-bit dividend by any divisor that is not
  zero, also when the running remainder needs a 65th bit.
\<close>

lemma wide_arithmetic_exact:
  "wide_value (wide_multiply left right) = unat left * unat right
   \<and> (divisor \<noteq> 0 \<longrightarrow> wide_value (fst (wide_divide v divisor)) = wide_value v div unat divisor
     \<and> unat (snd (wide_divide v divisor)) = wide_value v mod unat divisor)"
  using wide_divide_exact [of divisor v "fst (wide_divide v divisor)" "snd (wide_divide v divisor)"]
  by (auto simp: wide_multiply_exact)

lemma wide_arithmetic_exact_witness:
  "wide_value (fst (wide_divide \<lparr>wd_high = 5, wd_low = 7\<rparr> 0xFFFFFFFFFFFFFFFF)) = 5 \<and>
   unat (snd (wide_divide \<lparr>wd_high = 5, wd_low = 7\<rparr> 0xFFFFFFFFFFFFFFFF)) = 12"
  using wide_arithmetic_exact [of 1 1 "0xFFFFFFFFFFFFFFFF" "\<lparr>wd_high = 5, wd_low = 7\<rparr>"] 
  by (simp add: wide_value_def)

subsection \<open>Digits that are lost\<close>

lemma scan_fraction_full:
  assumes "\<forall>b \<in> set ds. is_digit b" "19 \<le> dc_digits d"
  shows "dc_mantissa (fst (scan_fraction d ds)) = dc_mantissa d \<and> snd (scan_fraction d ds) = []
    \<and> (ds \<noteq> [] \<or> dc_seen d \<longrightarrow> dc_seen (fst (scan_fraction d ds)))"
  using assms by (induction ds arbitrary: d) auto

lemma scan_fraction_zeros:
  "dc_digits d + n \<le> 19 \<Longrightarrow> dc_mantissa d = 0 \<Longrightarrow> scan_fraction d (replicate n 48 @ ds) =
     scan_fraction (d\<lparr>dc_digits := dc_digits d + n, dc_exponent := dc_exponent d - int n, dc_seen := dc_seen d \<or> 0 < n\<rparr>) ds"
proof (induction n arbitrary: d)
  case (Suc n)
  have m: "d\<lparr>dc_mantissa := 0\<rparr> = d" using Suc.prems(2) by simp
  show ?case using Suc.prems by (simp add: Suc.IH is_digit_def m diff_diff_eq)
qed simp

text \<open>
  C27. The scanner keeps the first nineteen digits of a constant, and counts the zeros before the first
  digit that is not zero among them. So a constant that is zero, a point, eighteen more zeros and
  any digits is read as zero: \<open>0.0000000000000000001\<close> is not the smallest constant
  near \<open>1e-19\<close> but exactly \<open>0.0\<close>, although \<open>1e-19\<close> is representable.
\<close>

theorem leading_zeros_lost:
  assumes "\<forall>b \<in> set ds. is_digit b"
  shows "cc64_decimal_to_double (Some ([48, 46] @ replicate 18 48 @ ds)) = Some 0"
proof -
  define d where "d = \<lparr>dc_mantissa = 0, dc_digits = 1, dc_exponent = 0, dc_truncated = False, dc_seen = True\<rparr>"
  define d' where "d' = \<lparr>dc_mantissa = 0, dc_digits = 19, dc_exponent = -18, dc_truncated = False, dc_seen = True\<rparr>"
  have run: "scan_fraction d (replicate 18 48 @ ds) = scan_fraction d' ds"
    using scan_fraction_zeros [of d 18 ds] by (simp add: d_def d'_def)
  obtain e where e: "scan_fraction d' ds = (e, [])" "dc_mantissa e = 0" "dc_seen e"
    using scan_fraction_full [OF assms, of d'] by (cases "scan_fraction d' ds") (simp add: d'_def)
  have "scan_decimal ([48, 46] @ replicate 18 48 @ ds) = Some (False, e)"
    using run e by (simp add: scan_decimal_def is_digit_def d_def)
  then show ?thesis using e by (simp add: cc64_decimal_to_double_def sign_bit64_def)
qed

theorem leading_zeros_lost_witness:
  "cc64_decimal_to_double (Some ([48, 46] @ replicate 18 48 @ [49])) = Some 0"
  using leading_zeros_lost [of "[49]"] by (simp add: is_digit_def)

subsection \<open>Widening and narrowing\<close>

definition pack_double :: "bool \<Rightarrow> u64 \<Rightarrow> u64 \<Rightarrow> u64" where
  "pack_double negative E F = (if negative then 0x8000000000000000 else 0) OR push_bit 52 E OR F"

definition pack_float :: "bool \<Rightarrow> u32 \<Rightarrow> u32 \<Rightarrow> u32" where
  "pack_float negative E F = (if negative then 0x80000000 else 0) OR push_bit 23 E OR F"

lemma masks:
  "(0x7FF :: u64) = mask 11" "(0x000FFFFFFFFFFFFF :: u64) = mask 52"
  "(0xFF :: u32) = mask 8" "(0x007FFFFF :: u32) = mask 23"
  by (simp_all add: mask_eq_exp_minus_1)

lemma sign_bits: "bit (0x8000000000000000 :: int) n \<longleftrightarrow> n = 63" "bit (0x80000000 :: int) n \<longleftrightarrow> n = 31"
   "bit (0x800000 :: int) n \<longleftrightarrow> n = 23"
   "bit (0x10000000000000 :: int) n \<longleftrightarrow> n = 52"
  using bit_exp_iff [where ?'a = int, of 52 n] bit_exp_iff [where ?'a = int, of 23 n] bit_exp_iff [where ?'a = int, of 63 n] bit_exp_iff [where ?'a = int, of 31 n] by auto

lemma bit_below: "drop_bit n x = 0 \<Longrightarrow> bit (x :: 'a :: len word) i \<Longrightarrow> i < n"
  by (metis bit_0_eq bit_drop_bit_eq bot_apply bot_bool_def comp_apply le_add_diff_inverse not_less)

lemma pack_double_fields:
  assumes "drop_bit 11 E = 0" "drop_bit 52 F = 0"
  shows "drop_bit 52 (pack_double negative E F) AND 0x7FF = E"
    and "pack_double negative E F AND 0x000FFFFFFFFFFFFF = F"
    and "(drop_bit 63 (pack_double negative E F) \<noteq> 0) = negative"
proof -
  have below: "bit E i \<Longrightarrow> i < 11" "bit F i \<Longrightarrow> i < 52" "bit E i \<Longrightarrow> i < 12" for i
    using bit_below [OF assms(1)] bit_below [OF assms(2)] by (auto intro: less_trans)
  show "drop_bit 52 (pack_double negative E F) AND 0x7FF = E"
    unfolding masks pack_double_def by (intro bit_word_eqI) (auto simp: bit_simps sign_bits not_le not_less dest: below)
  show "pack_double negative E F AND 0x000FFFFFFFFFFFFF = F"
    unfolding masks pack_double_def by (intro bit_word_eqI) (auto simp: bit_simps sign_bits not_le not_less dest: below)
  have "bit (drop_bit 63 (pack_double negative E F)) 0 = negative" "\<And>i. 0 < i \<Longrightarrow> \<not> bit (drop_bit 63 (pack_double negative E F)) i"
    unfolding masks pack_double_def
    by (auto simp: bit_simps sign_bits dest: bit_imp_le_length below)
  then show "(drop_bit 63 (pack_double negative E F) \<noteq> 0) = negative"
    by (metis bit_0_eq bit_word_eqI bot_apply bot_bool_def gr0I)
qed

lemma float_sign: "(b AND 0x80000000 \<noteq> 0) = bit (b :: u32) 31"
proof -
  have s: "b AND 0x80000000 = (if bit b 31 then 0x80000000 else 0)"
    by (intro bit_word_eqI) (auto simp: bit_simps sign_bits)
  then show ?thesis by simp
qed

lemma float_fields:
  "b = pack_float (b AND 0x80000000 \<noteq> 0) (drop_bit 23 b AND 0xFF) (b AND 0x007FFFFF)" for b :: u32
proof -
  have top: "\<not> bit b 31 \<Longrightarrow> bit b n \<Longrightarrow> n - 23 < 8" for n
    using bit_imp_le_length [of b n] by (cases "n = 31") auto
  show ?thesis unfolding masks pack_float_def float_sign
    by (intro bit_word_eqI) (auto simp: bit_simps sign_bits not_le not_less dest: top)
qed

lemma small_word: "unat x < 2 ^ n \<Longrightarrow> drop_bit n (x :: u64) = 0"
  by (metis div_eq_0_iff unat_drop_bit unsigned_0 unsigned_word_eqI)

text \<open>A binary32 encoding with a normal exponent, widened and narrowed.\<close>

lemma narrow_normal:
  assumes E: "unat E < 2 ^ 11" "897 \<le> unat E" "unat E \<le> 1150" and m: "drop_bit 23 (m :: u32) = 0"
  shows "cc64_double_to_float (pack_double negative E (push_bit 29 (ucast m))) =
    sign_bit32 negative (push_bit 23 (word_of_int (uint E - 896)) OR m)"
proof -
  let ?F = "push_bit 29 (ucast m) :: u64"
  have below: "bit m i \<Longrightarrow> i < 23" for i using bit_below [OF m] .
  have F: "drop_bit 52 ?F = 0" 
    by (intro bit_word_eqI) (auto simp: bit_simps dest: below)
  note fields = pack_double_fields [OF small_word [OF E(1)] F, of negative]
  define sig where "sig = ?F OR push_bit 52 1"
  have round: "drop_bit 28 sig AND 1 = 0" unfolding sig_def
    by (intro bit_word_eqI) (auto simp: bit_simps)
  have result: "drop_bit 29 sig = ucast m OR push_bit 23 1" unfolding sig_def
    by (intro bit_word_eqI) (auto simp: bit_simps dest: below)
  have top: "drop_bit 24 (ucast m OR push_bit 23 1 :: u64) = 0"
    by (intro bit_word_eqI) (auto simp: bit_simps dest: below)
  have low: "ucast (ucast m OR push_bit 23 1 :: u64) AND 0x007FFFFF = m" unfolding masks
    by (intro bit_word_eqI) (auto simp: bit_simps sign_bits dest: below)
  have e: "uint E = int (unat E)" by simp
  have "E \<noteq> 0x7FF" "E \<noteq> 0" using E by auto
  moreover have "\<not> uint E - 1023 > 127" "\<not> uint E - 1023 < - 126" using E(2,3) e by linarith+
  ultimately show ?thesis
    unfolding cc64_double_to_float_def fields Let_def sig_def [symmetric]
    using round result top low by simp
qed

text \<open>The significand of a subnormal binary32 value, its leading one at \<open>h\<close>.\<close>

lemma highest_from_bit:
  "drop_bit (Suc n) (m :: u32) = 0 \<Longrightarrow> n < 32 \<Longrightarrow> m \<noteq> 0 \<Longrightarrow>
     highest_from m n \<le> n \<and> bit m (highest_from m n) \<and> drop_bit (Suc (highest_from m n)) m = 0"
proof (induction n)
  case 0
  have "bit m 0" 
  proof (rule ccontr)
    assume "\<not> bit m 0"
    then have "m = 0" using bit_below [OF 0(1)] by (intro bit_word_eqI) (metis bit_0_eq bot_apply bot_bool_def less_Suc0)
    then show False using 0(3) by simp
  qed
  then show ?case using 0 by simp
next
  case (Suc n)
  have "m AND push_bit (Suc n) 1 = (if bit m (Suc n) then push_bit (Suc n) 1 else 0)"
    by (intro bit_word_eqI) (auto simp: bit_simps)
  moreover have "bit (push_bit (Suc n) (1 :: u32)) (Suc n)" using Suc.prems(2) by (simp only: bit_push_bit_iff) simp
  then have "push_bit (Suc n) (1 :: u32) \<noteq> 0" by (metis bit_0_eq bot_apply bot_bool_def)
  ultimately have hi: "(m AND push_bit (Suc n) 1 \<noteq> 0) = bit m (Suc n)" by simp
  show ?case
  proof (cases "bit m (Suc n)")
    case True
    then show ?thesis using Suc.prems hi by simp
  next
    case False
    have "drop_bit (Suc n) m = 0"
    proof (intro bit_word_eqI)
      fix i
      have "bit m (Suc n + i) \<Longrightarrow> Suc n + i < Suc (Suc n)" using bit_below [OF Suc.prems(1)] .
      then show "bit (drop_bit (Suc n) m) i = bit 0 i" using False by (cases i) (auto simp: bit_simps)
    qed
    then show ?thesis using Suc hi False by simp
  qed
qed

lemma narrow_subnormal:
  assumes h: "h \<le> 22" "bit m h" "drop_bit (Suc h) (m :: u32) = 0"
  shows "cc64_double_to_float (pack_double negative (word_of_int (int h + 874))
      (push_bit (52 - h) (ucast (m AND (push_bit h 1 - 1))))) = sign_bit32 negative m"
proof -
  let ?E = "word_of_int (int h + 874) :: u64" and ?F = "push_bit (52 - h) (ucast (m AND (push_bit h 1 - 1))) :: u64"
  have E: "uint ?E = int h + 874" using h(1) by (subst uint_word_of_int) simp
  have E': "unat ?E = h + 874" unfolding nat_uint_eq [symmetric] E by simp
  have mask: "push_bit h 1 - 1 = (mask h :: u32)" by (simp add: mask_eq_exp_minus_1 push_bit_eq_mult)
  have below: "bit m i \<Longrightarrow> i \<le> h" for i using bit_below [OF h(3)] by fastforce
  have F: "drop_bit 52 ?F = 0"  unfolding mask
    by (intro bit_word_eqI) (auto simp: bit_simps)
  have "drop_bit 11 ?E = 0" by (rule small_word) (use h(1) E' in simp)
  note fields = pack_double_fields [OF this F, of negative]
  define sig where "sig = ?F OR push_bit 52 1"
  have sig: "sig = push_bit (52 - h) (ucast m)" 
  proof (intro bit_word_eqI)
    fix n assume n: "n < LENGTH(64)"
    define k where "k = n - (52 - h)"
    have F: "bit ?F n \<longleftrightarrow> 52 - h \<le> n \<and> k < h \<and> bit m k" unfolding mask k_def using h(1) n
      by (auto simp: bit_simps)
    have "bit (push_bit 52 (1 :: u64)) n \<longleftrightarrow> 52 - h \<le> n \<and> k = h" using h(1) n by (auto simp: k_def bit_simps sign_bits)
    then have "bit sig n \<longleftrightarrow> 52 - h \<le> n \<and> bit m k" unfolding sig_def bit_or_iff F
      using h(2) below by (auto simp: le_less)
    also have "\<dots> \<longleftrightarrow> bit (push_bit (52 - h) (ucast m) :: u64) n" using n h(1) below
      by (auto simp: bit_simps k_def dest: below)
    finally show "bit sig n = bit (push_bit (52 - h) (ucast m) :: u64) n" .
  qed
  have round: "drop_bit 28 sig AND 1 = 0" unfolding sig using h(1)
    by (intro bit_word_eqI) (auto simp: bit_simps)
  have result: "drop_bit 29 sig = push_bit (23 - h) (ucast m)" unfolding sig using h(1)
    by (intro bit_word_eqI) (auto simp: bit_simps dest: below)
  have top: "drop_bit 24 (push_bit (23 - h) (ucast m) :: u64) = 0" using h(1)
    by (intro bit_word_eqI) (auto simp: bit_simps dest: below)
  have low: "ucast (drop_bit (23 - h) (push_bit (23 - h) (ucast m)) :: u64) = m" using h(1)
    by (intro bit_word_eqI) (auto simp: bit_simps)
  have "?E \<noteq> 0x7FF" "?E \<noteq> 0" using E h(1) by auto
  moreover have "\<not> uint ?E - 1023 > 127" "uint ?E - 1023 < - 126" "\<not> uint ?E - 1023 < - 149" 
     "nat (- 126 - (uint ?E - 1023)) = 23 - h" using h(1) unfolding E by auto
  ultimately show ?thesis
    unfolding cc64_double_to_float_def fields Let_def sig_def [symmetric]
    using round result top low by simp
qed

lemma widen_special:
  "drop_bit 23 b AND 0xFF = 0xFF \<Longrightarrow> b AND 0x007FFFFF = 0 \<Longrightarrow>
     cc64_float_to_double b = pack_double (b AND 0x80000000 \<noteq> 0) 0x7FF 0"
  "drop_bit 23 b AND 0xFF = 0 \<Longrightarrow> b AND 0x007FFFFF = 0 \<Longrightarrow>
     cc64_float_to_double b = pack_double (b AND 0x80000000 \<noteq> 0) 0 0"
  by (simp_all add: cc64_float_to_double_def pack_double_def)

lemma pack_zero: "pack_float negative E 0 = sign_bit32 negative (push_bit 23 E)"
  by (simp add: pack_float_def sign_bit32_def or.commute)

definition is_nan32 :: "u32 \<Rightarrow> bool" where
  "is_nan32 b \<longleftrightarrow> drop_bit 23 b AND 0xFF = 0xFF \<and> b AND 0x007FFFFF \<noteq> 0"

text \<open>
  C28. Widening loses nothing: every binary32 encoding that is not a NaN, zeros, subnormals and
  infinities of both signs included, comes back unchanged when it is widened to binary64 and
  narrowed again.
\<close>

theorem widen_narrow:
  assumes "\<not> is_nan32 b"
  shows "cc64_double_to_float (cc64_float_to_double b) = b"
proof -
  define s where "s = (b AND 0x80000000 \<noteq> 0)"
  define E where "E = drop_bit 23 b AND 0xFF"
  define m where "m = b AND 0x007FFFFF"
  have b: "b = pack_float s E m" unfolding s_def E_def m_def by (rule float_fields)
  have m0: "drop_bit 23 m = 0" unfolding m_def masks by (intro bit_word_eqI) (auto simp: bit_simps)
  have "E = take_bit 8 (drop_bit 23 b)" unfolding E_def masks by (simp only: take_bit_eq_mask)
  then have "uint E = take_bit 8 (uint (drop_bit 23 b))" by (simp only: unsigned_take_bit_eq)
  then have E255: "0 \<le> uint E" "uint E \<le> 255" using take_bit_int_less_exp [of 8 "uint (drop_bit 23 b)"] by simp_all
  consider "E = 0xFF" "m = 0" | "E = 0" "m = 0" | "E = 0" "m \<noteq> 0" | "E \<noteq> 0xFF" "E \<noteq> 0"
    using assms unfolding is_nan32_def E_def m_def by blast
  then show ?thesis
  proof cases
    case 1
    have "cc64_double_to_float (pack_double s 0x7FF 0) = sign_bit32 s 0x7F800000"
      using pack_double_fields [of "0x7FF" 0 s] by (simp add: cc64_double_to_float_def drop_bit_eq_div)
    then show ?thesis using widen_special(1) 1 b pack_zero [of s "0xFF"] unfolding E_def m_def s_def by simp
  next
    case 2
    have "cc64_double_to_float (pack_double s 0 0) = sign_bit32 s 0"
      using pack_double_fields [of 0 0 s] by (simp add: cc64_double_to_float_def sign_bit32_def)
    then show ?thesis using widen_special(2) 2 b pack_zero [of s 0] unfolding E_def m_def s_def by simp
  next
    case 3
    define h where "h = highest_from m 22"
    have h: "h \<le> 22" "bit m h" "drop_bit (Suc h) m = 0"
      using highest_from_bit [of 22 m] m0 3(2) by (simp_all add: h_def)
    have "cc64_float_to_double b = pack_double s (word_of_int (int h + 874)) (push_bit (52 - h) (ucast (m AND (push_bit h 1 - 1))))"
      using 3 unfolding cc64_float_to_double_def pack_double_def Let_def s_def [symmetric] E_def [symmetric] m_def [symmetric] h_def [symmetric] 
      by (simp add: add.commute [of 874])
    then show ?thesis using narrow_subnormal [OF h, of s] b 3(1) by (simp add: pack_float_def sign_bit32_def or.commute)
  next
    case 4
    let ?E = "ucast (E - 127 + 1023) :: u64"
    have e: "E - 127 + 1023 = word_of_int (uint E + 896)" by simp
    have u: "uint ?E = uint E + 896" using E255 unfolding e by (simp add: unsigned_ucast_eq uint_word_ariths take_bit_eq_mod)
    have "cc64_float_to_double b = pack_double s ?E (push_bit 29 (ucast m))"
      using 4 unfolding cc64_float_to_double_def pack_double_def Let_def s_def [symmetric] E_def [symmetric] m_def [symmetric] 
      by simp
    moreover have "uint E \<noteq> 255" "uint E \<noteq> 0" using 4 by (auto simp: word_uint_eq_iff)
    then have "1 \<le> uint E" "uint E \<le> 254" using E255 by linarith+
    then have "unat ?E < 2 ^ 11" "897 \<le> unat ?E" "unat ?E \<le> 1150"
      unfolding nat_uint_eq [symmetric] u by auto
    note narrow_normal [OF this m0, of s]
    moreover have "(word_of_int (uint ?E - 896) :: u32) = E" unfolding u by simp
    moreover have "sign_bit32 s (push_bit 23 E OR m) = b" unfolding b
      by (simp add: pack_float_def sign_bit32_def or.assoc or.left_commute or.commute)
    ultimately show ?thesis by (simp only:)
  qed
qed

theorem widen_narrow_witness: "cc64_double_to_float (cc64_float_to_double 0x80000001) = 0x80000001"
  using widen_narrow [of "0x80000001"] by (simp add: is_nan32_def)

end
