(* ===== verification/Decimal.thy ===== *)
theory Decimal
  imports Numeric Complex_Main
begin

text \<open>
  How far the decimal conversion of \<open>src/src/frontend/numeric.c\<close> is exact: what normalising a
  128-bit intermediate drops, and a constant that is rounded to the wrong side.
\<close>

subsection \<open>Back to one word\<close>

lemma bit_length_bounds: "v \<noteq> 0 \<Longrightarrow> 2 ^ (bit_length v - 1) \<le> unat v \<and> unat v < 2 ^ bit_length v \<and> 0 < bit_length v"
proof (induction v rule: bit_length.induct)
  case (1 v)
  have h: "unat (drop_bit 1 v) = unat v div 2" by (simp only: unat_drop_bit) simp
  show ?case
  proof (cases "drop_bit 1 v = 0")
    case True
    then have "unat v div 2 = 0" using h by simp
    moreover have "unat v \<noteq> 0" using 1(2) by (simp add: unat_eq_zero)
    ultimately have "unat v = 1" by linarith
    moreover have "bit_length v = 1" using True 1(2) bit_length.simps [of v] bit_length.simps [of 0] by simp
    ultimately show ?thesis by simp
  next
    case False
    have len: "bit_length v = Suc (bit_length (drop_bit 1 v))" using 1(2) bit_length.simps [of v] by simp
    have ih: "2 ^ (bit_length (drop_bit 1 v) - 1) \<le> unat v div 2" "unat v div 2 < 2 ^ bit_length (drop_bit 1 v)" "0 < bit_length (drop_bit 1 v)"
      using 1(1) [OF 1(2) False] unfolding h by auto
    obtain k where k: "bit_length (drop_bit 1 v) = Suc k" using ih(3) gr0_implies_Suc by blast
    show ?thesis using ih unfolding len k by auto
  qed
qed

lemma low_mask:
  assumes "n < 64"
  shows "((x :: u64) AND (push_bit n 1 - 1) \<noteq> 0) = (unat x mod 2 ^ n \<noteq> 0)"
proof -
  have "push_bit n 1 - 1 = (mask n :: u64)" by (simp add: mask_eq_exp_minus_1 push_bit_eq_mult)
  then have "x AND (push_bit n 1 - 1) = take_bit n x" by (simp only: take_bit_eq_mask)
  moreover have "unat (take_bit n x) = unat x mod 2 ^ n" unfolding unsigned_take_bit_eq by (rule take_bit_eq_mod)
  ultimately show ?thesis by (metis unat_eq_zero)
qed

lemma wide_value_div:
  assumes "0 < n" "n < 64" "unat (wd_high v) < 2 ^ n"
  shows "unat (push_bit (64 - n) (wd_high v) OR drop_bit n (wd_low v)) = wide_value v div 2 ^ n"
proof -
  have p: "(2 :: nat) ^ 64 = 2 ^ (64 - n) * 2 ^ n" using assms(2) by (simp only: power_add [symmetric]) simp
  have eq: "wide_value v div 2 ^ n = unat (wd_high v) * 2 ^ (64 - n) + unat (wd_low v) div 2 ^ n"
    unfolding wide_value_def p mult.assoc [symmetric] by simp
  have lo: "unat (wd_low v) div 2 ^ n < 2 ^ (64 - n)"
    using unat_u64_less [of "wd_low v"] unfolding p by (rule less_mult_imp_div_less)
  have "Suc (unat (wd_high v)) * 2 ^ (64 - n) \<le> 2 ^ n * 2 ^ (64 - n)" using assms(3) by (intro mult_le_mono1) simp
  then have less: "wide_value v div 2 ^ n < 2 ^ 64" unfolding eq p using lo by (simp add: mult.commute)
  have "take_bit (64 - n) (unat (wd_low v) div 2 ^ n) = unat (wd_low v) div 2 ^ n"
    using lo by (rule take_bit_nat_eq_self)
  then have disj: "push_bit (64 - n) (unat (wd_high v)) AND (unat (wd_low v) div 2 ^ n) = 0"
    by (intro bit_eqI) (metis bit_0_eq bit_and_iff bit_push_bit_iff bit_take_bit_iff bot_apply bot_bool_def not_less)
  have "unat (wd_high v) * 2 ^ (64 - n) < 2 ^ 64" using less unfolding eq by linarith
  then have sh: "unat (push_bit (64 - n) (wd_high v)) = push_bit (64 - n) (unat (wd_high v))"
    by (simp only: unsigned_push_bit_eq) (simp add: push_bit_eq_mult take_bit_nat_eq_self)
  have "unat (push_bit (64 - n) (wd_high v) OR drop_bit n (wd_low v)) =
      push_bit (64 - n) (unat (wd_high v)) OR (unat (wd_low v) div 2 ^ n)"
    unfolding unsigned_or_eq sh unat_drop_bit ..
  also have "\<dots> = push_bit (64 - n) (unat (wd_high v)) + unat (wd_low v) div 2 ^ n"
    using disj by (simp only: disjunctive_add_eq_or)
  finally show ?thesis unfolding eq push_bit_eq_mult .
qed

text \<open>
  Normalisation keeps the leading 64 bits: the word that is left and the bits that are dropped
  make up the value that came in, and the scale falls by the number of dropped bits. The sticky flag
  misses one of them: it is raised for the dropped bits except the highest, so a value whose only
  dropped one is that bit is reported as exact, half a unit below what it was.
\<close>

lemma wide_normalize_drops:
  assumes "wd_high v \<noteq> 0" "bit_length (wd_high v) < 64"
    and "wide_normalize v scale sticky = (v', scale', sticky')"
    and "amount = bit_length (wd_high v)"
  shows "wd_high v' = 0 \<and> 2 ^ 63 \<le> wide_value v' \<and>
    wide_value v = wide_value v' * 2 ^ amount + wide_value v mod 2 ^ amount \<and>
    scale' = scale - int amount \<and>
    sticky' = (sticky \<or> wide_value v mod 2 ^ (amount - 1) \<noteq> 0)"
proof (intro conjI)
  have a: "0 < amount" "amount < 64" "unat (wd_high v) < 2 ^ amount" "2 ^ (amount - 1) \<le> unat (wd_high v)"
    using bit_length_bounds [OF assms(1)] assms(2) unfolding assms(4) by auto
  let ?low = "push_bit (64 - amount) (wd_high v) OR drop_bit amount (wd_low v)"
  have run: "v' = \<lparr>wd_high = 0, wd_low = ?low\<rparr>" "scale' = scale - int amount"
    "sticky' = (if wd_low v AND (push_bit (amount - 1) 1 - 1) \<noteq> 0 then True else sticky)"
    using assms(1-3) unfolding wide_normalize_def assms(4) by (auto simp: Let_def split: if_splits)
  show "wd_high v' = 0" "scale' = scale - int amount" by (simp_all add: run)
  have low: "wide_value v' = wide_value v div 2 ^ amount"
    using wide_value_div [of amount v] a by (simp add: run wide_value_def)
  show "wide_value v = wide_value v' * 2 ^ amount + wide_value v mod 2 ^ amount" unfolding low by (rule div_mult_mod_eq [symmetric])
  have "2 ^ 63 * (2 :: nat) ^ amount = 2 ^ (amount - 1) * 2 ^ 64" using a(1) by (simp only: power_add [symmetric]) simp
  also have "\<dots> \<le> wide_value v" unfolding wide_value_def using a(4) by (intro trans_le_add1 mult_le_mono1)
  finally show "2 ^ 63 \<le> wide_value v'" unfolding low by (simp only: less_eq_div_iff_mult_less_eq zero_less_power)
  have "(2 :: nat) ^ 64 = 2 ^ (64 - (amount - 1)) * 2 ^ (amount - 1)" using a by (simp only: power_add [symmetric]) simp
  then have "wide_value v mod 2 ^ (amount - 1) = unat (wd_low v) mod 2 ^ (amount - 1)"
    unfolding wide_value_def by (simp only: mult.assoc [symmetric] mod_mult_self3)
  then show "sticky' = (sticky \<or> wide_value v mod 2 ^ (amount - 1) \<noteq> 0)"
    unfolding run using low_mask [of "amount - 1" "wd_low v"] a by auto
qed

lemma wide_normalize_drops_witness:
  "wide_value \<lparr>wd_high = 1, wd_low = 1\<rparr> = wide_value \<lparr>wd_high = 0, wd_low = 2 ^ 63\<rparr> * 2 + 1 \<and>
   wide_normalize \<lparr>wd_high = 1, wd_low = 1\<rparr> 0 False = (\<lparr>wd_high = 0, wd_low = 2 ^ 63\<rparr>, - 1, False)"
proof -
  have l: "bit_length 1 = 1" using bit_length.simps [of 1] bit_length.simps [of 0] by simp
  have n: "wide_normalize \<lparr>wd_high = 1, wd_low = 1\<rparr> 0 False = (\<lparr>wd_high = 0, wd_low = 2 ^ 63\<rparr>, - 1, False)"
    by (simp add: wide_normalize_def l)
  show ?thesis using wide_normalize_drops [OF _ _ n refl] n by (simp add: l wide_value_def)
qed


subsection \<open>A constant that is rounded to the wrong side\<close>

lemma unat_of_nat_mod: "unat (of_nat n :: u64) = n mod 2 ^ 64"
  by (simp add: unat_of_nat)

lemma wide_of_value: "v = \<lparr>wd_high = of_nat (wide_value v div 2 ^ 64), wd_low = of_nat (wide_value v)\<rparr>"
proof -
  have "of_nat (wide_value v div 2 ^ 64) = wd_high v"
    using unat_u64_less [of "wd_low v"] by (simp add: wide_value_def)
  moreover have "of_nat (wide_value v) = wd_low v"
    by (rule unsigned_word_eqI [where ?'a = nat]) (use unat_u64_less [of "wd_low v"] in \<open>simp only: unat_of_nat_mod, simp add: wide_value_def\<close>)
  ultimately show ?thesis by simp
qed

lemma wide_divide_eq:
  assumes "divisor \<noteq> 0"
  shows "wide_divide v divisor = (\<lparr>wd_high = of_nat (wide_value v div unat divisor div 2 ^ 64),
    wd_low = of_nat (wide_value v div unat divisor)\<rparr>, of_nat (wide_value v mod unat divisor))"
proof -
  obtain q r where run: "wide_divide v divisor = (q, r)" by (cases "wide_divide v divisor")
  note d = wide_divide_exact [OF assms run]
  have "of_nat (unat r) = r" by simp
  then have "r = of_nat (wide_value v mod unat divisor)" by (simp only: d(2))
  then show ?thesis unfolding run using wide_of_value [of q] by (simp only: d(1))
qed

text \<open>The rational number a normal binary64 encoding stands for.\<close>

definition double_value :: "u64 \<Rightarrow> rat" where
  "double_value w = (if drop_bit 63 w \<noteq> 0 then - 1 else 1) *
     (of_nat (2 ^ 52 + unat (w AND 0x000FFFFFFFFFFFFF)) * 2 powi (int (unat (drop_bit 52 w AND 0x7FF)) - 1075))"

lemmas bit_length_eval = bit_length.simps drop_bit_eq_div

lemma bit_lengths: "bit_length 17 = 5" "bit_length 7450580596923828125 = 63" "bit_length 6065802694000329494 = 63"
  "bit_length 1953125 = 21" "bit_length 6513106048680027647 = 63"
  "bit_length 6360455125664089 = 53"
  by (simp_all add: bit_length_eval)

lemma scan_17: "scan_decimal (cstr ''1.7e-35'') =
    Some (False, \<lparr>dc_mantissa = 17, dc_digits = 2, dc_exponent = - 36, dc_truncated = False, dc_seen = True\<rparr>)"
  by (simp add: scan_decimal_def cstr_def is_digit_def)

lemma scale_17: "scale_down 36 (wide_from_u64 17, 0, False) = Some (\<lparr>wd_high = 0, wd_low = 6513106048680027647\<rparr>, 178, True)"
proof -
  have 1: "scale_down 36 (wide_from_u64 17, 0, False) = scale_down 9 (\<lparr>wd_high = 0, wd_low = 6065802694000329494\<rparr>, 148, True)"
    unfolding scale_down.simps [of 36]
    by (simp add: wide_normalize_def wide_from_u64_def power_of_five_def bit_lengths wide_shift_left_def wide_divide_eq wide_value_def)
  have 2: "scale_down 9 (\<lparr>wd_high = 0, wd_low = 6065802694000329494\<rparr>, 148, True) =
      scale_down 0 (\<lparr>wd_high = 0, wd_low = 6513106048680027647\<rparr>, 178, True)"
    unfolding scale_down.simps [of 9]
    by (simp add: wide_normalize_def power_of_five_def bit_lengths wide_shift_left_def wide_divide_eq wide_value_def)
  show ?thesis unfolding 1 2 scale_down.simps [of 0] by simp
qed

lemma convert_17: "cc64_decimal_to_double (Some (cstr ''1.7e-35'')) = Some 4086621717523333465"
  by (simp add: cc64_decimal_to_double_def scan_17 scale_17 scale_up.simps wide_normalize_def assemble_double_def
      round_significand_def bit_lengths sign_bit64_def) 

text \<open>
  C29. A decimal constant is not always rounded to the nearest binary64 value. A division by a power
  of five keeps only about 63 bits of its quotient, and a second one divides what was kept: the
  constant \<open>1.7e-35\<close> is converted to an encoding whose successor is closer to it.
\<close>

theorem decimal_misrounded:
  "cc64_decimal_to_double (Some (cstr ''1.7e-35'')) = Some 4086621717523333465 \<and>
   \<bar>double_value (4086621717523333465 + 1) - 17 / 10 ^ 36\<bar> < \<bar>double_value 4086621717523333465 - 17 / 10 ^ 36\<bar>"
proof (rule conjI [OF convert_17])
  have "double_value 4086621717523333465 = 6360455125664089 * 2 powi (- 168)"
    "double_value (4086621717523333465 + 1) = 6360455125664090 * 2 powi (- 168)"
    by (simp_all add: double_value_def drop_bit_eq_div)
  then show "\<bar>double_value (4086621717523333465 + 1) - 17 / 10 ^ 36\<bar> < \<bar>double_value 4086621717523333465 - 17 / 10 ^ 36\<bar>"
    by (simp add: power_int_def field_simps)
qed

end
