(* ===== verification/Types.thy ===== *)
theory Types
  imports Arena Object_Builder
begin

text \<open>
  Types and scopes of the compiler (\<open>src/src/semantic/semantic.c\<close>, declared in
  \<open>src/src/semantic/semantic.h\<close>). A \<open>Type *\<close> is the number of a record in a store, so that two
  pointers are equal when the numbers are and the records can refer to each other in a circle, as a
  structure does that holds a pointer to itself; \<open>None\<close> is the null pointer. The \<open>next\<close> field of a
  type, which nothing here reads, is left out.
\<close>

subsection \<open>Data\<close>

datatype type_kind =
  TYPE_VOID | TYPE_BOOL | TYPE_CHAR | TYPE_SIGNED_CHAR | TYPE_UNSIGNED_CHAR | TYPE_SHORT
  | TYPE_UNSIGNED_SHORT | TYPE_INT | TYPE_UNSIGNED_INT | TYPE_LONG | TYPE_UNSIGNED_LONG | TYPE_LONG_LONG
  | TYPE_UNSIGNED_LONG_LONG | TYPE_FLOAT | TYPE_DOUBLE | TYPE_POINTER | TYPE_ARRAY | TYPE_FUNCTION
  | TYPE_STRUCT | TYPE_UNION | TYPE_ENUM | TYPE_UINT128 | TYPE_VOID_EXPR

datatype storage_class =
  STORAGE_NONE | STORAGE_EXTERN | STORAGE_STATIC | STORAGE_TYPEDEF | STORAGE_AUTO | STORAGE_REGISTER

abbreviation (input) TYPE_QUAL_CONST :: u32 where "TYPE_QUAL_CONST \<equiv> 1"

record member =
  mb_name :: "cstring option"
  mb_type :: "nat option"
  mb_offset :: nat

text \<open>The fields of a symbol that types and scopes read or that a declaration sets.\<close>

record sym =
  sy_address :: nat
  sy_name :: cstring
  sy_type :: "nat option"
  sy_class :: symbol_class
  sy_storage :: storage_class
  sy_linkage :: linkage
  sy_defined :: bool
  sy_initialized :: bool
  sy_is_parameter :: bool
  sy_offset :: nat
  sy_enum_value :: int

record ctype =
  ty_kind :: type_kind
  ty_qualifiers :: u32
  ty_size :: nat
  ty_alignment :: nat
  ty_base :: "nat option"
  ty_array_count :: nat
  ty_incomplete :: bool
  ty_tag :: "cstring option"
  ty_members :: "member list"
  ty_return :: "nat option"
  ty_parameters :: "sym list"
  ty_parameter_count :: nat
  ty_variadic :: bool
  ty_origin :: "nat option"

abbreviation (input) TYPE_TABLE_SLOTS :: nat where "TYPE_TABLE_SLOTS \<equiv> 32"

text \<open>
  The store, the arena that records come from with its number, and the table of shared records with
  the number of the arena it is for.
\<close>

record types =
  ts_types :: "ctype list"
  ts_arena :: arena
  ts_number :: nat
  ts_table_number :: "nat option"
  ts_basics :: "nat option list"
  ts_pointers :: "nat option list"

text \<open>The value of an enumeration constant, which indexes the table.\<close>

fun kind_number :: "type_kind \<Rightarrow> nat" where
  "kind_number TYPE_VOID = 0" | "kind_number TYPE_BOOL = 1" | "kind_number TYPE_CHAR = 2"
| "kind_number TYPE_SIGNED_CHAR = 3" | "kind_number TYPE_UNSIGNED_CHAR = 4" | "kind_number TYPE_SHORT = 5"
| "kind_number TYPE_UNSIGNED_SHORT = 6" | "kind_number TYPE_INT = 7" | "kind_number TYPE_UNSIGNED_INT = 8"
| "kind_number TYPE_LONG = 9" | "kind_number TYPE_UNSIGNED_LONG = 10" | "kind_number TYPE_LONG_LONG = 11"
| "kind_number TYPE_UNSIGNED_LONG_LONG = 12" | "kind_number TYPE_FLOAT = 13" | "kind_number TYPE_DOUBLE = 14"
| "kind_number TYPE_POINTER = 15" | "kind_number TYPE_ARRAY = 16" | "kind_number TYPE_FUNCTION = 17"
| "kind_number TYPE_STRUCT = 18" | "kind_number TYPE_UNION = 19" | "kind_number TYPE_ENUM = 20"
| "kind_number TYPE_UINT128 = 21" | "kind_number TYPE_VOID_EXPR = 22"

subsection \<open>Constructors\<close>

text \<open>\<open>sizeof\<close> of a type record: fourteen words, the kind and the qualifiers sharing one.\<close>

abbreviation (input) SIZEOF_TYPE :: nat where "SIZEOF_TYPE \<equiv> 112"

definition new_type :: "type_kind \<Rightarrow> nat \<Rightarrow> nat \<Rightarrow> nat \<Rightarrow> ctype" where
  "new_type kind bytes alignment self =
     \<lparr>ty_kind = kind, ty_qualifiers = 0, ty_size = bytes, ty_alignment = alignment, ty_base = None,
      ty_array_count = 0, ty_incomplete = False, ty_tag = None, ty_members = [], ty_return = None,
      ty_parameters = [], ty_parameter_count = 0, ty_variadic = False, ty_origin = Some self\<rparr>"

text \<open>A record in the arena, initialised by a function of its number.\<close>

definition store_type :: "types \<Rightarrow> (nat \<Rightarrow> ctype) \<Rightarrow> nat option \<times> types" where
  "store_type st build =
     (case arena_alloc (ts_arena st) SIZEOF_TYPE of
        (None, ar) \<Rightarrow> (None, st\<lparr>ts_arena := ar\<rparr>)
      | (Some p, ar) \<Rightarrow>
          (Some (length (ts_types st)),
           st\<lparr>ts_arena := ar, ts_types := ts_types st @ [build (length (ts_types st))]\<rparr>))"

definition type_alloc :: "types \<Rightarrow> type_kind \<Rightarrow> nat \<Rightarrow> nat \<Rightarrow> nat option \<times> types" where
  "type_alloc st kind bytes alignment = store_type st (new_type kind bytes alignment)"

definition type_table_uses :: "types \<Rightarrow> bool" where
  "type_table_uses st \<longleftrightarrow> ts_table_number st = Some (ts_number st)"

definition type_table_select :: "types \<Rightarrow> types" where
  "type_table_select st =
     (if type_table_uses st then st
      else st\<lparr>ts_basics := replicate TYPE_TABLE_SLOTS None, ts_pointers := replicate TYPE_TABLE_SLOTS None,
              ts_table_number := Some (ts_number st)\<rparr>)"

text \<open>Size and alignment of a kind, as \<open>type_basic\<close> sets them; no value for a derived type.\<close>

fun basic_layout :: "type_kind \<Rightarrow> (nat \<times> nat) option" where
  "basic_layout TYPE_VOID = Some (1, 1)"
| "basic_layout TYPE_BOOL = Some (1, 1)"
| "basic_layout TYPE_CHAR = Some (1, 1)"
| "basic_layout TYPE_SIGNED_CHAR = Some (1, 1)"
| "basic_layout TYPE_UNSIGNED_CHAR = Some (1, 1)"
| "basic_layout TYPE_SHORT = Some (2, 2)"
| "basic_layout TYPE_UNSIGNED_SHORT = Some (2, 2)"
| "basic_layout TYPE_INT = Some (4, 4)"
| "basic_layout TYPE_UNSIGNED_INT = Some (4, 4)"
| "basic_layout TYPE_ENUM = Some (4, 4)"
| "basic_layout TYPE_STRUCT = Some (0, 1)"
| "basic_layout TYPE_UNION = Some (0, 1)"
| "basic_layout TYPE_LONG = Some (8, 8)"
| "basic_layout TYPE_UNSIGNED_LONG = Some (8, 8)"
| "basic_layout TYPE_LONG_LONG = Some (8, 8)"
| "basic_layout TYPE_UNSIGNED_LONG_LONG = Some (8, 8)"
| "basic_layout TYPE_FLOAT = Some (4, 4)"
| "basic_layout TYPE_DOUBLE = Some (8, 8)"
| "basic_layout TYPE_UINT128 = Some (16, 16)"
| "basic_layout TYPE_VOID_EXPR = Some (0, 1)"
| "basic_layout _ = None"

text \<open>
  The kinds below the table's size are all kinds, so the code that would mark a shared structure as
  incomplete is never reached.
\<close>

definition type_basic :: "types \<Rightarrow> type_kind \<Rightarrow> nat option \<times> types" where
  "type_basic st kind =
     (case basic_layout kind of None \<Rightarrow> (None, st)
      | Some (bytes, alignment) \<Rightarrow>
        if kind_number kind \<ge> TYPE_TABLE_SLOTS \<or> kind = TYPE_STRUCT \<or> kind = TYPE_UNION then
          type_alloc st kind bytes alignment
        else let st = type_table_select st in
          (case ts_basics st ! kind_number kind of
             Some t \<Rightarrow> (Some t, st)
           | None \<Rightarrow>
             (case type_alloc st kind bytes alignment of
                (None, st) \<Rightarrow> (None, st)
              | (Some t, st) \<Rightarrow> (Some t, st\<lparr>ts_basics := (ts_basics st)[kind_number kind := Some t]\<rparr>))))"

abbreviation type_at :: "types \<Rightarrow> nat \<Rightarrow> ctype" where
  "type_at st t \<equiv> ts_types st ! t"

definition type_pointer :: "types \<Rightarrow> nat option \<Rightarrow> u32 \<Rightarrow> nat option \<times> types" where
  "type_pointer st base qualifiers =
     (case base of None \<Rightarrow> (None, st)
      | Some b \<Rightarrow>
        let kind = ty_kind (type_at st b);
            shared = (qualifiers = 0 \<and> kind_number kind < TYPE_TABLE_SLOTS \<and> kind \<noteq> TYPE_STRUCT \<and> kind \<noteq> TYPE_UNION);
            st = (if shared then type_table_select st else st);
            existing = (if shared then ts_pointers st ! kind_number kind else None)
        in if (case existing of None \<Rightarrow> False | Some e \<Rightarrow> ty_base (type_at st e) = Some b) then (existing, st)
           else (case store_type st (\<lambda>self. (new_type TYPE_POINTER 8 8 self)\<lparr>ty_base := Some b, ty_qualifiers := qualifiers\<rparr>) of
                   (None, st) \<Rightarrow> (None, st)
                 | (Some t, st) \<Rightarrow>
                     (Some t, if shared \<and> ts_pointers st ! kind_number kind = None
                              then st\<lparr>ts_pointers := (ts_pointers st)[kind_number kind := Some t]\<rparr> else st)))"

text \<open>The recursion follows the base of an array; \<open>fuel\<close> bounds it, and no value means it did not end.\<close>

primrec type_is_complete :: "nat \<Rightarrow> ctype list \<Rightarrow> nat option \<Rightarrow> bool option" where
  "type_is_complete 0 T type = None"
| "type_is_complete (Suc fuel) T type =
     (case type of None \<Rightarrow> Some False
      | Some t \<Rightarrow>
        let x = T ! t in
        if ty_kind x = TYPE_VOID then Some False
        else if ty_kind x = TYPE_STRUCT \<or> ty_kind x = TYPE_UNION then Some (\<not> ty_incomplete x)
        else if ty_kind x = TYPE_ARRAY then
          (if ty_incomplete x then Some False else type_is_complete fuel T (ty_base x))
        else Some True)"

definition type_array :: "types \<Rightarrow> nat option \<Rightarrow> nat \<Rightarrow> bool \<Rightarrow> nat option \<times> types" where
  "type_array st base n known =
     (case base of None \<Rightarrow> (None, st)
      | Some b \<Rightarrow>
        let x = type_at st b in
        if type_is_complete (Suc (length (ts_types st))) (ts_types st) base \<noteq> Some True then (None, st)
        else if ty_size x = 0 \<and> known \<and> n \<noteq> 0 then (None, st)
        else if ty_size x \<noteq> 0 \<and> known \<and> n > SIZE_MAX div ty_size x then (None, st)
        else store_type st (\<lambda>self. (new_type TYPE_ARRAY (if known then n * ty_size x else 0) (ty_alignment x) self)
               \<lparr>ty_base := Some b, ty_array_count := n, ty_incomplete := \<not> known\<rparr>))"

definition type_function :: "types \<Rightarrow> nat option \<Rightarrow> sym list \<Rightarrow> nat \<Rightarrow> bool \<Rightarrow> nat option \<times> types" where
  "type_function st return_type parameters n variadic =
     (if return_type = None then (None, st)
      else store_type st (\<lambda>self. (new_type TYPE_FUNCTION 0 1 self)
             \<lparr>ty_return := return_type, ty_parameters := parameters, ty_parameter_count := n, ty_variadic := variadic\<rparr>))"

definition type_copy :: "types \<Rightarrow> nat option \<Rightarrow> u32 \<Rightarrow> nat option \<times> types" where
  "type_copy st from qualifiers =
     (case from of None \<Rightarrow> (None, st)
      | Some t \<Rightarrow>
        let x = type_at st t in
        store_type st (\<lambda>self. x\<lparr>ty_qualifiers := qualifiers, ty_origin := (if ty_origin x \<noteq> None then ty_origin x else Some t)\<rparr>))"

definition type_origin :: "ctype list \<Rightarrow> nat option \<Rightarrow> nat option" where
  "type_origin T type =
     (case type of None \<Rightarrow> None | Some t \<Rightarrow> if ty_origin (T ! t) \<noteq> None then ty_origin (T ! t) else type)"

subsection \<open>Predicates\<close>

definition kind_of :: "ctype list \<Rightarrow> nat option \<Rightarrow> type_kind option" where
  "kind_of T type = map_option (\<lambda>t. ty_kind (T ! t)) type"

abbreviation (input) integer_kinds :: "type_kind set" where
  "integer_kinds \<equiv> {TYPE_BOOL, TYPE_CHAR, TYPE_SIGNED_CHAR, TYPE_UNSIGNED_CHAR, TYPE_SHORT, TYPE_UNSIGNED_SHORT, TYPE_INT,
     TYPE_UNSIGNED_INT, TYPE_LONG, TYPE_UNSIGNED_LONG, TYPE_LONG_LONG, TYPE_UNSIGNED_LONG_LONG, TYPE_UINT128, TYPE_ENUM}"

abbreviation (input) unsigned_kinds :: "type_kind set" where
  "unsigned_kinds \<equiv> {TYPE_BOOL, TYPE_UNSIGNED_CHAR, TYPE_UNSIGNED_SHORT, TYPE_UNSIGNED_INT, TYPE_UNSIGNED_LONG,
     TYPE_UNSIGNED_LONG_LONG}"

definition type_is_integer :: "ctype list \<Rightarrow> nat option \<Rightarrow> bool" where
  "type_is_integer T type = (case kind_of T type of None \<Rightarrow> False | Some k \<Rightarrow> k \<in> integer_kinds)"

definition type_is_arithmetic :: "ctype list \<Rightarrow> nat option \<Rightarrow> bool" where
  "type_is_arithmetic T type =
     (type_is_integer T type \<or> kind_of T type = Some TYPE_FLOAT \<or> kind_of T type = Some TYPE_DOUBLE)"

definition type_is_pointer :: "ctype list \<Rightarrow> nat option \<Rightarrow> bool" where
  "type_is_pointer T type = (kind_of T type = Some TYPE_POINTER)"

definition type_is_scalar :: "ctype list \<Rightarrow> nat option \<Rightarrow> bool" where
  "type_is_scalar T type = (type_is_arithmetic T type \<or> type_is_pointer T type)"

definition type_is_void :: "ctype list \<Rightarrow> nat option \<Rightarrow> bool" where
  "type_is_void T type = (kind_of T type = Some TYPE_VOID \<or> kind_of T type = Some TYPE_VOID_EXPR)"

definition type_is_signed :: "ctype list \<Rightarrow> nat option \<Rightarrow> bool" where
  "type_is_signed T type =
     (if \<not> type_is_integer T type then False
      else case kind_of T type of None \<Rightarrow> False | Some k \<Rightarrow> k \<notin> unsigned_kinds)"

primrec type_has_const :: "nat \<Rightarrow> ctype list \<Rightarrow> nat option \<Rightarrow> bool option" where
  "type_has_const 0 T type = None"
| "type_has_const (Suc fuel) T type =
     (case type of None \<Rightarrow> Some False
      | Some t \<Rightarrow>
        if ty_qualifiers (T ! t) AND TYPE_QUAL_CONST \<noteq> 0 then Some True
        else if ty_kind (T ! t) = TYPE_ARRAY then type_has_const fuel T (ty_base (T ! t))
        else Some False)"

text \<open>The copy comes from \<open>cc64_xmalloc\<close>, which ends the process instead of failing.\<close>

definition type_unqualified :: "types \<Rightarrow> nat option \<Rightarrow> nat option \<times> types" where
  "type_unqualified st type =
     (case type of None \<Rightarrow> (None, st)
      | Some t \<Rightarrow>
        if ty_qualifiers (type_at st t) = 0 then (type, st)
        else (Some (length (ts_types st)), st\<lparr>ts_types := ts_types st @ [(type_at st t)\<lparr>ty_qualifiers := 0\<rparr>]\<rparr>))"

definition type_size :: "ctype list \<Rightarrow> nat option \<Rightarrow> nat" where
  "type_size T type = (case type of None \<Rightarrow> 0 | Some t \<Rightarrow> ty_size (T ! t))"

definition type_alignment :: "ctype list \<Rightarrow> nat option \<Rightarrow> nat" where
  "type_alignment T type = (case type of None \<Rightarrow> 1 | Some t \<Rightarrow> ty_alignment (T ! t))"

text \<open>The parameters of two functions, pair by pair.\<close>

fun parameters_compatible :: "(nat option \<Rightarrow> nat option \<Rightarrow> bool option) \<Rightarrow> sym list \<Rightarrow> sym list \<Rightarrow> bool option" where
  "parameters_compatible compatible (p # ps) (q # qs) =
     (case compatible (sy_type p) (sy_type q) of
        None \<Rightarrow> None | Some False \<Rightarrow> Some False | Some True \<Rightarrow> parameters_compatible compatible ps qs)"
| "parameters_compatible compatible ps qs = Some (ps = [] \<and> qs = [])"

primrec type_compatible :: "nat \<Rightarrow> ctype list \<Rightarrow> nat option \<Rightarrow> nat option \<Rightarrow> bool option" where
  "type_compatible 0 T left right = None"
| "type_compatible (Suc fuel) T left right =
     (case left of None \<Rightarrow> Some False
      | Some l \<Rightarrow> case right of None \<Rightarrow> Some False
      | Some r \<Rightarrow>
        let x = T ! l; y = T ! r in
        if ty_kind x = TYPE_ENUM \<or> ty_kind y = TYPE_ENUM then
          Some ((if ty_kind x = TYPE_ENUM then TYPE_INT else ty_kind x) = (if ty_kind y = TYPE_ENUM then TYPE_INT else ty_kind y))
        else if ty_kind x \<noteq> ty_kind y then Some False
        else case ty_kind x of
            TYPE_POINTER \<Rightarrow> type_compatible fuel T (ty_base x) (ty_base y)
          | TYPE_ARRAY \<Rightarrow>
              (case type_compatible fuel T (ty_base x) (ty_base y) of
                 None \<Rightarrow> None
               | Some c \<Rightarrow> Some (c \<and> (ty_incomplete x \<or> ty_incomplete y \<or> ty_array_count x = ty_array_count y)))
          | TYPE_FUNCTION \<Rightarrow>
              (case type_compatible fuel T (ty_return x) (ty_return y) of
                 None \<Rightarrow> None
               | Some c \<Rightarrow>
                   if \<not> c \<or> ty_parameter_count x \<noteq> ty_parameter_count y \<or> ty_variadic x \<noteq> ty_variadic y then Some False
                   else parameters_compatible (type_compatible fuel T) (ty_parameters x) (ty_parameters y))
          | TYPE_STRUCT \<Rightarrow> Some (type_origin T left = type_origin T right \<or> (ty_tag x \<noteq> None \<and> ty_tag x = ty_tag y))
          | TYPE_UNION \<Rightarrow> Some (type_origin T left = type_origin T right \<or> (ty_tag x \<noteq> None \<and> ty_tag x = ty_tag y))
          | _ \<Rightarrow> Some True)"

text \<open>Enough fuel for every store whose records refer to earlier ones.\<close>

definition compatible :: "types \<Rightarrow> nat option \<Rightarrow> nat option \<Rightarrow> bool" where
  "compatible st left right = (type_compatible (Suc (length (ts_types st))) (ts_types st) left right = Some True)"

subsection \<open>Conversions\<close>

fun kind_rank :: "type_kind \<Rightarrow> nat" where
  "kind_rank TYPE_BOOL = 1" | "kind_rank TYPE_CHAR = 1" | "kind_rank TYPE_SIGNED_CHAR = 1" | "kind_rank TYPE_UNSIGNED_CHAR = 1"
| "kind_rank TYPE_SHORT = 2" | "kind_rank TYPE_UNSIGNED_SHORT = 2"
| "kind_rank TYPE_INT = 3" | "kind_rank TYPE_UNSIGNED_INT = 3" | "kind_rank TYPE_ENUM = 3"
| "kind_rank TYPE_LONG = 4" | "kind_rank TYPE_UNSIGNED_LONG = 4"
| "kind_rank TYPE_LONG_LONG = 5" | "kind_rank TYPE_UNSIGNED_LONG_LONG = 5"
| "kind_rank TYPE_UINT128 = 6"
| "kind_rank _ = 0"

definition integer_rank :: "types \<Rightarrow> nat \<Rightarrow> nat" where
  "integer_rank st t = kind_rank (ty_kind (type_at st t))"

definition type_integer_promote :: "types \<Rightarrow> nat option \<Rightarrow> nat option \<times> types" where
  "type_integer_promote st type =
     (if \<not> type_is_integer (ts_types st) type then (type, st)
      else case type of None \<Rightarrow> (type, st)
        | Some t \<Rightarrow>
          if integer_rank st t < 3 then type_basic st TYPE_INT
          else if ty_kind (type_at st t) = TYPE_ENUM then type_basic st TYPE_INT
          else (type, st))"

text \<open>
  The common type of two arithmetic operands. Without memory for a promoted type the C code
  dereferences a null pointer; here that is \<open>None\<close>.
\<close>

definition type_usual_arithmetic :: "types \<Rightarrow> nat option \<Rightarrow> nat option \<Rightarrow> nat option \<times> types" where
  "type_usual_arithmetic st left right =
     (if left = None \<or> right = None \<or> \<not> type_is_arithmetic (ts_types st) left \<or> \<not> type_is_arithmetic (ts_types st) right
      then (None, st)
      else if kind_of (ts_types st) left = Some TYPE_DOUBLE \<or> kind_of (ts_types st) right = Some TYPE_DOUBLE
      then type_basic st TYPE_DOUBLE
      else if kind_of (ts_types st) left = Some TYPE_FLOAT \<or> kind_of (ts_types st) right = Some TYPE_FLOAT
      then type_basic st TYPE_FLOAT
      else case type_integer_promote st left of (left, st) \<Rightarrow>
        case type_integer_promote st right of (right, st) \<Rightarrow>
          if compatible st left right then (left, st)
          else case left of None \<Rightarrow> (None, st) | Some l \<Rightarrow> case right of None \<Rightarrow> (None, st) | Some r \<Rightarrow>
            let left_unsigned = (\<not> type_is_signed (ts_types st) left);
                right_unsigned = (\<not> type_is_signed (ts_types st) right);
                left_rank = integer_rank st l;
                right_rank = integer_rank st r
            in if left_rank = right_rank then (if left_unsigned then left else right, st)
               else if left_rank > right_rank then
                 (if \<not> left_unsigned \<and> right_unsigned \<and> ty_size (type_at st l) \<le> ty_size (type_at st r) then (right, st) else (left, st))
               else (if right_unsigned \<and> \<not> left_unsigned \<and> ty_size (type_at st r) \<le> ty_size (type_at st l) then (left, st) else (right, st)))"

fun type_kind_name :: "type_kind \<Rightarrow> cstring" where
  "type_kind_name TYPE_VOID = cstr ''void''"
| "type_kind_name TYPE_BOOL = cstr ''_Bool''"
| "type_kind_name TYPE_CHAR = cstr ''char''"
| "type_kind_name TYPE_SIGNED_CHAR = cstr ''signed char''"
| "type_kind_name TYPE_UNSIGNED_CHAR = cstr ''unsigned char''"
| "type_kind_name TYPE_SHORT = cstr ''short''"
| "type_kind_name TYPE_UNSIGNED_SHORT = cstr ''unsigned short''"
| "type_kind_name TYPE_INT = cstr ''int''"
| "type_kind_name TYPE_UNSIGNED_INT = cstr ''unsigned int''"
| "type_kind_name TYPE_LONG = cstr ''long''"
| "type_kind_name TYPE_UNSIGNED_LONG = cstr ''unsigned long''"
| "type_kind_name TYPE_LONG_LONG = cstr ''long long''"
| "type_kind_name TYPE_UNSIGNED_LONG_LONG = cstr ''unsigned long long''"
| "type_kind_name TYPE_FLOAT = cstr ''float''"
| "type_kind_name TYPE_DOUBLE = cstr ''double''"
| "type_kind_name TYPE_POINTER = cstr ''pointer''"
| "type_kind_name TYPE_ARRAY = cstr ''array''"
| "type_kind_name TYPE_FUNCTION = cstr ''function''"
| "type_kind_name TYPE_STRUCT = cstr ''struct''"
| "type_kind_name TYPE_UNION = cstr ''union''"
| "type_kind_name TYPE_ENUM = cstr ''enum''"
| "type_kind_name TYPE_UINT128 = cstr ''unsigned 128-bit integer''"
| "type_kind_name TYPE_VOID_EXPR = cstr ''void expression''"

end
