(* ===== verification/Types_Ok.thy ===== *)
theory Types_Ok
  imports Types
begin

text \<open>
  The type store of \<open>src/src/semantic/semantic.c\<close>: the invariant its constructors keep, the end of the
  recursions over it, compatibility as a symmetric relation, and the usual arithmetic conversions
  against the C standard.
\<close>

subsection \<open>The invariant\<close>

text \<open>A record refers to earlier records only, and its size and alignment follow from its kind.\<close>

definition layout_ok :: "ctype list \<Rightarrow> ctype \<Rightarrow> bool" where
  "layout_ok T x \<longleftrightarrow>
     (case ty_kind x of
        TYPE_POINTER \<Rightarrow> ty_base x \<noteq> None \<and> ty_size x = 8 \<and> ty_alignment x = 8
      | TYPE_ARRAY \<Rightarrow> (\<exists>b. ty_base x = Some b \<and> ty_alignment x = ty_alignment (T ! b) \<and>
          ty_size x = (if ty_incomplete x then 0 else ty_array_count x * ty_size (T ! b)) \<and> ty_size x \<le> SIZE_MAX)
      | TYPE_FUNCTION \<Rightarrow> ty_return x \<noteq> None \<and> ty_size x = 0 \<and> ty_alignment x = 1
      | TYPE_STRUCT \<Rightarrow> True
      | TYPE_UNION \<Rightarrow> True
      | k \<Rightarrow> basic_layout k = Some (ty_size x, ty_alignment x))"

definition refers_below :: "nat \<Rightarrow> ctype \<Rightarrow> bool" where
  "refers_below i x \<longleftrightarrow>
     (\<forall>b. ty_base x = Some b \<longrightarrow> b < i) \<and> (\<forall>r. ty_return x = Some r \<longrightarrow> r < i) \<and>
     (\<forall>p \<in> set (ty_parameters x). \<forall>t. sy_type p = Some t \<longrightarrow> t < i)"

definition store_ok :: "ctype list \<Rightarrow> bool" where
  "store_ok T \<longleftrightarrow> (\<forall>i < length T. refers_below i (T ! i) \<and> layout_ok T (T ! i))"

definition shared_ok :: "ctype list \<Rightarrow> nat option list \<Rightarrow> (ctype \<Rightarrow> nat \<Rightarrow> bool) \<Rightarrow> bool" where
  "shared_ok T slots P \<longleftrightarrow> length slots = 32 \<and> (\<forall>k < 32. \<forall>t. slots ! k = Some t \<longrightarrow> t < length T \<and> P (T ! t) k)"

definition types_ok :: "types \<Rightarrow> bool" where
  "types_ok st \<longleftrightarrow> store_ok (ts_types st) \<and>
     shared_ok (ts_types st) (ts_basics st) (\<lambda>x k. kind_number (ty_kind x) = k \<and> ty_qualifiers x = 0) \<and>
     shared_ok (ts_types st) (ts_pointers st) (\<lambda>x k. ty_kind x = TYPE_POINTER \<and> ty_qualifiers x = 0 \<and>
       (\<exists>b. ty_base x = Some b \<and> kind_number (ty_kind (ts_types st ! b)) = k))"

definition valid :: "types \<Rightarrow> nat option \<Rightarrow> bool" where
  "valid st type \<longleftrightarrow> (\<forall>t. type = Some t \<longrightarrow> t < length (ts_types st))"

lemma kind_number_less: "kind_number k < 32"
  by (cases k) auto

lemma kind_number_inject: "kind_number k = kind_number l \<longleftrightarrow> k = l"
  by (cases k; cases l) auto

lemma layout_ok_append:
  "layout_ok T x \<Longrightarrow> refers_below (length T) x \<Longrightarrow> layout_ok (T @ ys) x"
  by (auto simp: layout_ok_def refers_below_def nth_append split: type_kind.splits)

lemma refers_below_mono: "refers_below i x \<Longrightarrow> i \<le> j \<Longrightarrow> refers_below j x"
  by (auto simp: refers_below_def)

lemma store_ok_append:
  assumes "store_ok T" "refers_below (length T) x" "layout_ok T x"
  shows "store_ok (T @ [x])"
  unfolding store_ok_def
proof (intro allI impI)
  fix i assume i: "i < length (T @ [x])"
  show "refers_below i ((T @ [x]) ! i) \<and> layout_ok (T @ [x]) ((T @ [x]) ! i)"
  proof (cases "i < length T")
    case True
    then have "refers_below i (T ! i)" "layout_ok T (T ! i)" using assms(1) by (auto simp: store_ok_def)
    then show ?thesis using layout_ok_append [of T "T ! i" "[x]"] refers_below_mono [of i "T ! i" "length T"] True
      by (simp add: nth_append)
  next
    case False
    then have "i = length T" using i by simp
    then show ?thesis using assms(2,3) layout_ok_append [of T x "[x]"] by simp
  qed
qed

lemma store_okD:
  assumes "store_ok T" "i < length T"
  shows "ty_base (T ! i) = Some b \<Longrightarrow> b < i" "ty_return (T ! i) = Some r \<Longrightarrow> r < i"
    "p \<in> set (ty_parameters (T ! i)) \<Longrightarrow> sy_type p = Some t \<Longrightarrow> t < i" "layout_ok T (T ! i)" "refers_below i (T ! i)"
  using assms by (auto simp: store_ok_def refers_below_def)

lemma shared_ok_append:
  "shared_ok T slots P \<Longrightarrow> (\<And>x k. x \<in> set T \<Longrightarrow> P x k \<Longrightarrow> Q x k) \<Longrightarrow> shared_ok (T @ ys) slots Q"
  by (auto simp: shared_ok_def nth_append)

text \<open>A new record at the end keeps everything else.\<close>

lemma types_ok_append:
  assumes "types_ok st" "refers_below (length (ts_types st)) x" "layout_ok (ts_types st) x"
  shows "types_ok (st\<lparr>ts_arena := ar, ts_types := ts_types st @ [x]\<rparr>)"
proof -
  have low: "b < length (ts_types st)" if y: "y \<in> set (ts_types st)" and yb: "ty_base y = Some b" for y b
  proof -
    obtain i where "i < length (ts_types st)" "ts_types st ! i = y" using y by (auto simp: in_set_conv_nth)
    then show ?thesis using store_okD(1) [of "ts_types st" i b] assms(1) yb by (simp add: types_ok_def)
  qed
  note parts = assms(1) [unfolded types_ok_def]
  have "shared_ok (ts_types st @ [x]) (ts_basics st) (\<lambda>x k. kind_number (ty_kind x) = k \<and> ty_qualifiers x = 0)"
    by (rule shared_ok_append [OF conjunct1 [OF conjunct2 [OF parts]]])
  moreover have "shared_ok (ts_types st @ [x]) (ts_pointers st) (\<lambda>y k. ty_kind y = TYPE_POINTER \<and> ty_qualifiers y = 0 \<and>
       (\<exists>b. ty_base y = Some b \<and> kind_number (ty_kind ((ts_types st @ [x]) ! b)) = k))"
    by (rule shared_ok_append [OF conjunct2 [OF conjunct2 [OF parts]]]) (auto simp: nth_append dest: low)
  ultimately show ?thesis using store_ok_append [OF conjunct1 [OF parts] assms(2,3)] by (simp add: types_ok_def)
qed

lemma store_type_ok:
  assumes "types_ok st" "refers_below (length (ts_types st)) (build (length (ts_types st)))"
    "layout_ok (ts_types st) (build (length (ts_types st)))" "store_type st build = (r, st')"
  shows "types_ok st' \<and> valid st' r \<and> (\<exists>ys. ts_types st' = ts_types st @ ys) \<and>
    (\<forall>t. r = Some t \<longrightarrow> t = length (ts_types st) \<and> ts_types st' = ts_types st @ [build t]) \<and>
    ts_basics st' = ts_basics st \<and> ts_pointers st' = ts_pointers st \<and> ts_number st' = ts_number st \<and>
    ts_table_number st' = ts_table_number st"
proof -
  have other: "types_ok (st\<lparr>ts_arena := ar\<rparr>) = types_ok st" for ar by (simp add: types_ok_def)
  show ?thesis using assms(4) types_ok_append [OF assms(1-3)] assms(1)
    by (auto simp: store_type_def valid_def other split: prod.splits option.splits)
qed

lemma select_ok: "types_ok st \<Longrightarrow> types_ok (type_table_select st) \<and> ts_types (type_table_select st) = ts_types st \<and>
    ts_number (type_table_select st) = ts_number st \<and> ts_table_number (type_table_select st) = Some (ts_number st)"
  by (auto simp: type_table_select_def type_table_uses_def types_ok_def shared_ok_def)

lemma type_alloc_ok:
  assumes "types_ok st" "basic_layout kind = Some (bytes, alignment)" "type_alloc st kind bytes alignment = (r, st')"
  shows "types_ok st' \<and> valid st' r \<and> (\<exists>ys. ts_types st' = ts_types st @ ys) \<and>
    (\<forall>t. r = Some t \<longrightarrow> t = length (ts_types st) \<and> ts_types st' = ts_types st @ [new_type kind bytes alignment t]) \<and>
    ts_basics st' = ts_basics st \<and> ts_pointers st' = ts_pointers st \<and> ts_number st' = ts_number st \<and>
    ts_table_number st' = ts_table_number st"
proof (rule store_type_ok [OF assms(1) _ _ assms(3) [unfolded type_alloc_def]])
  show "refers_below (length (ts_types st)) (new_type kind bytes alignment (length (ts_types st)))"
    by (simp add: refers_below_def new_type_def)
  show "layout_ok (ts_types st) (new_type kind bytes alignment (length (ts_types st)))"
    using assms(2) by (cases kind) (auto simp: layout_ok_def new_type_def)
qed

lemma shared_ok_update:
  "shared_ok T slots P \<Longrightarrow> t < length T \<Longrightarrow> P (T ! t) k \<Longrightarrow> shared_ok T (slots[k := Some t]) P"
  by (cases "k < length slots") (auto simp: shared_ok_def nth_list_update list_update_beyond split: if_splits)

lemma share_basic:
  "types_ok st \<Longrightarrow> t < length (ts_types st) \<Longrightarrow> ty_qualifiers (type_at st t) = 0 \<Longrightarrow>
     types_ok (st\<lparr>ts_basics := (ts_basics st)[kind_number (ty_kind (type_at st t)) := Some t]\<rparr>)"
  by (simp add: types_ok_def shared_ok_update)

lemma share_pointer:
  "types_ok st \<Longrightarrow> t < length (ts_types st) \<Longrightarrow> ty_qualifiers (type_at st t) = 0 \<Longrightarrow> ty_kind (type_at st t) = TYPE_POINTER \<Longrightarrow>
     ty_base (type_at st t) = Some b \<Longrightarrow>
     types_ok (st\<lparr>ts_pointers := (ts_pointers st)[kind_number (ty_kind (type_at st b)) := Some t]\<rparr>)"
  by (simp add: types_ok_def shared_ok_update)

text \<open>What a constructor does to the store: the invariant, a valid result, and only additions.\<close>

definition grows :: "types \<Rightarrow> nat option \<Rightarrow> types \<Rightarrow> bool" where
  "grows st r st' \<longleftrightarrow> types_ok st' \<and> valid st' r \<and> (\<exists>ys. ts_types st' = ts_types st @ ys) \<and> ts_number st' = ts_number st"

lemma grows_same: "types_ok st \<Longrightarrow> valid st r \<Longrightarrow> grows st r st"
  by (simp add: grows_def)

lemma grows_trans: "grows st r st' \<Longrightarrow> grows st' r' st'' \<Longrightarrow> grows st r' st''"
  by (auto simp: grows_def)

lemma grows_select: "types_ok st \<Longrightarrow> grows st None (type_table_select st)"
  using select_ok [of st] by (auto simp: grows_def valid_def)

lemma grows_store:
  assumes "types_ok st" "refers_below (length (ts_types st)) (build (length (ts_types st)))"
    "layout_ok (ts_types st) (build (length (ts_types st)))" "store_type st build = (r, st')"
  shows "grows st r st'"
  using store_type_ok [OF assms] by (simp add: grows_def)

lemma type_basic_ok:
  assumes "types_ok st" "type_basic st kind = (r, st')"
  shows "grows st r st' \<and> (\<forall>t. r = Some t \<longrightarrow> ty_kind (type_at st' t) = kind) \<and>
    (r \<noteq> None \<and> kind \<noteq> TYPE_STRUCT \<and> kind \<noteq> TYPE_UNION \<longrightarrow>
       ts_table_number st' = Some (ts_number st') \<and> ts_basics st' ! kind_number kind = r)"
proof (cases "basic_layout kind")
  case None
  then have "r = None" "st' = st" using assms(2) by (simp_all add: type_basic_def)
  then show ?thesis using assms(1) by (simp add: grows_def valid_def)
next
  case (Some lay)
  obtain bytes alignment where lay: "basic_layout kind = Some (bytes, alignment)" using Some by (cases lay) auto
  show ?thesis
  proof (cases "kind = TYPE_STRUCT \<or> kind = TYPE_UNION")
    case True
    then have "type_alloc st kind bytes alignment = (r, st')" using assms(2) lay by (auto simp: type_basic_def)
    note A = type_alloc_ok [OF assms(1) lay this]
    then have "grows st r st'" unfolding grows_def by blast
    moreover have "\<forall>t. r = Some t \<longrightarrow> ty_kind (type_at st' t) = kind"
    proof (intro allI impI)
      fix t assume "r = Some t"
      then have "t = length (ts_types st)" "ts_types st' = ts_types st @ [new_type kind bytes alignment t]" using A by blast+
      then show "ty_kind (type_at st' t) = kind" by (simp add: new_type_def)
    qed
    ultimately show ?thesis using True by blast
  next
    case False
    define s0 where "s0 = type_table_select st"
    have s0: "types_ok s0" "ts_types s0 = ts_types st" "ts_number s0 = ts_number st" "ts_table_number s0 = Some (ts_number st)"
      using select_ok [OF assms(1)] by (simp_all add: s0_def)
    have run: "(r, st') = (case ts_basics s0 ! kind_number kind of
             Some t \<Rightarrow> (Some t, s0)
           | None \<Rightarrow>
             (case type_alloc s0 kind bytes alignment of
                (None, st) \<Rightarrow> (None, st)
              | (Some t, st) \<Rightarrow> (Some t, st\<lparr>ts_basics := (ts_basics st)[kind_number kind := Some t]\<rparr>)))"
      using assms(2) lay False kind_number_less [of kind] unfolding type_basic_def s0_def by (simp add: Let_def)
    show ?thesis
    proof (cases "ts_basics s0 ! kind_number kind")
      case (Some t)
      then have "r = Some t" "st' = s0" using run by auto
      moreover have "t < length (ts_types s0) \<and> kind_number (ty_kind (type_at s0 t)) = kind_number kind"
        using s0(1) Some kind_number_less [of kind] by (auto simp: types_ok_def shared_ok_def)
      ultimately show ?thesis using s0 Some by (auto simp: grows_def valid_def kind_number_inject)
    next
      case None
      obtain r1 s1 where al: "type_alloc s0 kind bytes alignment = (r1, s1)" by (cases "type_alloc s0 kind bytes alignment")
      note A = type_alloc_ok [OF s0(1) lay al]
      show ?thesis
      proof (cases r1)
        case None
        then show ?thesis using run \<open>ts_basics s0 ! kind_number kind = None\<close> al A s0 by (auto simp: grows_def valid_def)
      next
        case (Some t)
        then have st': "r = Some t" "st' = s1\<lparr>ts_basics := (ts_basics s1)[kind_number kind := Some t]\<rparr>"
          using run \<open>ts_basics s0 ! kind_number kind = None\<close> al by auto
        have T: "ts_types s1 = ts_types s0 @ [new_type kind bytes alignment t]" "t = length (ts_types s0)" using A Some by auto
        have ok1: "types_ok s1" using A by blast
        have new: "t < length (ts_types s1)" "type_at s1 t = new_type kind bytes alignment t" unfolding T(1) by (simp_all add: T(2))
        then have kind: "ty_kind (type_at s1 t) = kind" "ty_qualifiers (type_at s1 t) = 0" by (simp_all add: new_type_def)
        have "types_ok st'" using share_basic [OF ok1 new(1) kind(2)] unfolding st' kind(1) .
        moreover have "length (ts_basics s1) = 32" using ok1 by (simp add: types_ok_def shared_ok_def)
        ultimately show ?thesis using A T s0 kind_number_less [of kind] new(1) kind(1) unfolding st' by (simp add: grows_def valid_def)
      qed
    qed
  qed
qed

lemma layout_ok_cong:
  assumes "ty_kind y = ty_kind x" "ty_base y = ty_base x" "ty_size y = ty_size x" "ty_alignment y = ty_alignment x"
    "ty_array_count y = ty_array_count x" "ty_incomplete y = ty_incomplete x" "ty_return y = ty_return x"
  shows "layout_ok T y = layout_ok T x"
  unfolding layout_ok_def by (simp only: assms)

lemma copy_ok:
  assumes "types_ok st" "t < length (ts_types st)"
  shows "refers_below (length (ts_types st)) ((type_at st t)\<lparr>ty_qualifiers := q, ty_origin := o1\<rparr>)"
    "layout_ok (ts_types st) ((type_at st t)\<lparr>ty_qualifiers := q, ty_origin := o1\<rparr>)"
    "refers_below (length (ts_types st)) ((type_at st t)\<lparr>ty_qualifiers := q\<rparr>)"
    "layout_ok (ts_types st) ((type_at st t)\<lparr>ty_qualifiers := q\<rparr>)"
proof -
  have "refers_below (length (ts_types st)) (type_at st t)" "layout_ok (ts_types st) (type_at st t)"
    using store_okD(4,5) [of "ts_types st" t] assms refers_below_mono by (auto simp: types_ok_def)
  moreover have "layout_ok T (x\<lparr>ty_qualifiers := q, ty_origin := o1\<rparr>) = layout_ok T x"
    "layout_ok T (x\<lparr>ty_qualifiers := q\<rparr>) = layout_ok T x" for T x
    by (rule layout_ok_cong; simp)+
  ultimately show "refers_below (length (ts_types st)) ((type_at st t)\<lparr>ty_qualifiers := q, ty_origin := o1\<rparr>)"
    "layout_ok (ts_types st) ((type_at st t)\<lparr>ty_qualifiers := q, ty_origin := o1\<rparr>)"
    "refers_below (length (ts_types st)) ((type_at st t)\<lparr>ty_qualifiers := q\<rparr>)"
    "layout_ok (ts_types st) ((type_at st t)\<lparr>ty_qualifiers := q\<rparr>)"
    by (simp_all add: refers_below_def)
qed

lemma type_copy_ok:
  assumes "types_ok st" "valid st from" "type_copy st from q = (r, st')"
  shows "grows st r st'"
proof (cases "from")
  case None
  then show ?thesis using assms by (simp add: type_copy_def grows_same valid_def)
next
  case (Some t)
  then show ?thesis using assms copy_ok [OF assms(1), of t]
    by (intro grows_store [OF assms(1)]) (auto simp: type_copy_def Let_def valid_def)
qed

lemma type_unqualified_ok:
  assumes "types_ok st" "valid st type" "type_unqualified st type = (r, st')"
  shows "grows st r st'"
proof (cases "type")
  case None
  then show ?thesis using assms by (simp add: type_unqualified_def grows_same valid_def)
next
  case (Some t)
  have t: "t < length (ts_types st)" using assms(2) Some by (simp add: valid_def)
  show ?thesis
  proof (cases "ty_qualifiers (type_at st t) = 0")
    case True
    then show ?thesis using assms Some by (simp add: type_unqualified_def grows_same)
  next
    case False
    then have r: "r = Some (length (ts_types st))" "st' = st\<lparr>ts_types := ts_types st @ [(type_at st t)\<lparr>ty_qualifiers := 0\<rparr>]\<rparr>"
      using assms(3) Some by (simp_all add: type_unqualified_def)
    have "types_ok (st\<lparr>ts_arena := ts_arena st, ts_types := ts_types st @ [(type_at st t)\<lparr>ty_qualifiers := 0\<rparr>]\<rparr>)"
      by (rule types_ok_append [OF assms(1) copy_ok(3,4) [OF assms(1) t]])
    then show ?thesis unfolding r by (simp add: grows_def valid_def)
  qed
qed

lemma type_function_ok:
  assumes "types_ok st" "valid st ret" "\<forall>p \<in> set ps. valid st (sy_type p)" "type_function st ret ps n v = (r, st')"
  shows "grows st r st'"
proof (cases ret)
  case None
  then show ?thesis using assms by (simp add: type_function_def grows_same valid_def)
next
  case (Some t)
  show ?thesis
    by (rule grows_store [OF assms(1) _ _ assms(4) [unfolded type_function_def Some option.distinct if_False, simplified]])
      (use assms(2,3) Some in \<open>auto simp: refers_below_def layout_ok_def new_type_def valid_def\<close>)
qed

lemma type_array_ok:
  assumes "types_ok st" "valid st base" "type_array st base n known = (r, st')"
  shows "grows st r st'"
proof (cases base)
  case None
  then show ?thesis using assms by (simp add: type_array_def grows_same valid_def)
next
  case (Some b)
  let ?x = "type_at st b"
  let ?build = "\<lambda>self. (new_type TYPE_ARRAY (if known then n * ty_size ?x else 0) (ty_alignment ?x) self)
               \<lparr>ty_base := Some b, ty_array_count := n, ty_incomplete := \<not> known\<rparr>"
  consider (none) "r = None" "st' = st" | (store) "\<not> (ty_size ?x \<noteq> 0 \<and> known \<and> n > SIZE_MAX div ty_size ?x)" "store_type st ?build = (r, st')"
  proof -
    define p1 where "p1 \<longleftrightarrow> type_is_complete (Suc (length (ts_types st))) (ts_types st) base \<noteq> Some True"
    define p2 where "p2 \<longleftrightarrow> ty_size ?x = 0 \<and> known \<and> n \<noteq> 0"
    define p3 where "p3 \<longleftrightarrow> ty_size ?x \<noteq> 0 \<and> known \<and> n > SIZE_MAX div ty_size ?x"
    have "(r, st') = (if p1 then (None, st) else if p2 then (None, st) else if p3 then (None, st) else store_type st ?build)"
      unfolding p1_def p2_def p3_def assms(3) [symmetric] unfolding Some type_array_def option.case Let_def ..
    then show thesis using none store unfolding p3_def [symmetric] by (cases p1; cases p2; cases p3) simp_all
  qed
  then show ?thesis
  proof cases
    case none
    then show ?thesis using assms(1) by (simp add: grows_same valid_def)
  next
    case store
    have "known \<longrightarrow> n * ty_size ?x \<le> SIZE_MAX"
    proof (cases "ty_size ?x = 0")
      case False
      then show ?thesis using store(1) by (auto simp: not_less less_eq_div_iff_mult_less_eq)
    qed simp
    then show ?thesis
      by (intro grows_store [OF assms(1) _ _ store(2)])
        (use assms(2) Some in \<open>auto simp: refers_below_def layout_ok_def new_type_def valid_def\<close>)
  qed
qed

lemma type_pointer_ok:
  assumes "types_ok st" "valid st base" "type_pointer st base q = (r, st')"
  shows "grows st r st'"
proof (cases base)
  case None
  then show ?thesis using assms by (simp add: type_pointer_def grows_same valid_def)
next
  case (Some b)
  have b: "b < length (ts_types st)" using assms(2) Some by (simp add: valid_def)
  define kind where "kind = ty_kind (type_at st b)"
  define shared where "shared \<longleftrightarrow> q = 0 \<and> kind_number kind < 32 \<and> kind \<noteq> TYPE_STRUCT \<and> kind \<noteq> TYPE_UNION"
  define s0 where "s0 = (if shared then type_table_select st else st)"
  define existing where "existing = (if shared then ts_pointers s0 ! kind_number kind else None)"
  let ?build = "\<lambda>self. (new_type TYPE_POINTER 8 8 self)\<lparr>ty_base := Some b, ty_qualifiers := q\<rparr>"
  have s0: "types_ok s0" "ts_types s0 = ts_types st" "ts_number s0 = ts_number st"
    using select_ok [OF assms(1)] assms(1) by (simp_all add: s0_def)
  have g0: "grows st r' s0" if "valid s0 r'" for r' using s0 that by (simp add: grows_def)
  have run: "(r, st') =
     (if (case existing of None \<Rightarrow> False | Some e \<Rightarrow> ty_base (type_at s0 e) = Some b) then (existing, s0)
      else (case store_type s0 ?build of
              (None, st) \<Rightarrow> (None, st)
            | (Some t, st) \<Rightarrow>
                (Some t, if shared \<and> ts_pointers st ! kind_number kind = None
                         then st\<lparr>ts_pointers := (ts_pointers st)[kind_number kind := Some t]\<rparr> else st)))"
    using assms(3) unfolding Some type_pointer_def option.case Let_def existing_def s0_def shared_def kind_def by simp
  show ?thesis
  proof (cases "case existing of None \<Rightarrow> False | Some e \<Rightarrow> ty_base (type_at s0 e) = Some b")
    case True
    then obtain e where e: "existing = Some e" by (cases existing) auto
    then have "shared" "ts_pointers s0 ! kind_number kind = Some e" by (auto simp: existing_def split: if_splits)
    then have "valid s0 existing"
      using s0(1) e kind_number_less [of kind] by (auto simp: types_ok_def shared_ok_def valid_def)
    then show ?thesis using run True g0 by auto
  next
    case False
    obtain r1 s1 where al: "store_type s0 ?build = (r1, s1)" by (cases "store_type s0 ?build")
    have below: "refers_below (length (ts_types s0)) (?build self)" "layout_ok (ts_types s0) (?build self)" for self
      using b s0(2) by (auto simp: refers_below_def layout_ok_def new_type_def)
    note A = store_type_ok [OF s0(1) below al]
    have g1: "grows st r1 s1" using A s0 unfolding grows_def by auto
    show ?thesis
    proof (cases r1)
      case None
      then show ?thesis using run False al g1 by simp
    next
      case (Some t)
      have T: "ts_types s1 = ts_types s0 @ [?build t]" "t = length (ts_types s0)" using A Some by blast+
      have at: "t < length (ts_types s1)" "type_at s1 t = ?build t" unfolding T(1) by (simp_all add: T(2))
      have kb: "ty_kind (type_at s1 b) = kind" using b s0(2) T(1) by (simp add: kind_def nth_append)
      have "types_ok (s1\<lparr>ts_pointers := (ts_pointers s1)[kind_number kind := Some t]\<rparr>)" if shared
        using share_pointer [of s1 t b] A at that unfolding kb by (simp add: new_type_def shared_def)
      then show ?thesis using run False al Some g1 by (auto simp: grows_def valid_def)
    qed
  qed
qed

lemma type_integer_promote_ok:
  assumes "types_ok st" "valid st type" "type_integer_promote st type = (r, st')"
  shows "grows st r st'"
  using assms type_basic_ok [of st TYPE_INT r st']
  by (auto simp: type_integer_promote_def grows_same split: if_splits option.splits)

lemma grows_valid: "grows st r st' \<Longrightarrow> valid st x \<Longrightarrow> valid st' x"
  by (auto simp: grows_def valid_def)

lemma type_usual_arithmetic_ok:
  assumes "types_ok st" "valid st left" "valid st right" "type_usual_arithmetic st left right = (r, st')"
  shows "grows st r st'"
proof -
  obtain l1 s1 where L: "type_integer_promote st left = (l1, s1)" by (cases "type_integer_promote st left")
  obtain r1 s2 where R: "type_integer_promote s1 right = (r1, s2)" by (cases "type_integer_promote s1 right")
  note g1 = type_integer_promote_ok [OF assms(1,2) L]
  have ok1: "types_ok s1" using g1 by (simp add: grows_def)
  note g2 = type_integer_promote_ok [OF ok1 grows_valid [OF g1 assms(3)] R]
  have vs: "valid s2 l1" "valid s2 r1" using grows_valid [OF g2, of l1] g1 g2 unfolding grows_def by blast+
  have g: "grows st x s2" if "valid s2 x" for x using grows_trans [OF g1 g2] that by (simp add: grows_def)
  define res where "res = (if compatible s2 l1 r1 then (l1, s2)
          else case l1 of None \<Rightarrow> (None, s2) | Some l \<Rightarrow> case r1 of None \<Rightarrow> (None, s2) | Some r \<Rightarrow>
            if integer_rank s2 l = integer_rank s2 r then (if \<not> type_is_signed (ts_types s2) l1 then l1 else r1, s2)
               else if integer_rank s2 l > integer_rank s2 r then
                 (if type_is_signed (ts_types s2) l1 \<and> \<not> type_is_signed (ts_types s2) r1 \<and> ty_size (type_at s2 l) \<le> ty_size (type_at s2 r)
                  then (r1, s2) else (l1, s2))
               else (if \<not> type_is_signed (ts_types s2) r1 \<and> type_is_signed (ts_types s2) l1 \<and> ty_size (type_at s2 r) \<le> ty_size (type_at s2 l)
                  then (l1, s2) else (r1, s2)))"
  have res: "snd res = s2 \<and> fst res \<in> {l1, r1, None}"
    unfolding res_def by (simp split: option.split)
  define a where "a \<longleftrightarrow> left = None \<or> right = None \<or> \<not> type_is_arithmetic (ts_types st) left \<or> \<not> type_is_arithmetic (ts_types st) right"
  define b where "b \<longleftrightarrow> kind_of (ts_types st) left = Some TYPE_DOUBLE \<or> kind_of (ts_types st) right = Some TYPE_DOUBLE"
  define c where "c \<longleftrightarrow> kind_of (ts_types st) left = Some TYPE_FLOAT \<or> kind_of (ts_types st) right = Some TYPE_FLOAT"
  have run: "(r, st') = (if a then (None, st) else if b then type_basic st TYPE_DOUBLE else if c then type_basic st TYPE_FLOAT else res)"
    unfolding assms(4) [symmetric] type_usual_arithmetic_def L R prod.case Let_def a_def b_def c_def res_def not_not ..
  consider "r = None" "st' = st" | (basic) k where "type_basic st k = (r, st')" | "st' = s2" "r \<in> {l1, r1, None}"
    using run res by (cases a; cases b; cases c) (metis fst_conv snd_conv)+
  then show ?thesis
  proof cases
    case 1
    then show ?thesis using assms(1) by (simp add: grows_same valid_def)
  next
    case basic
    then show ?thesis using type_basic_ok [OF assms(1)] by blast
  next
    case 3
    then show ?thesis using g [of l1] g [of r1] g [of None] vs by (auto simp: valid_def)
  qed
qed

subsection \<open>Reachable stores\<close>

text \<open>An empty table over an arena, and a call of any of the constructors on types of the store.\<close>

definition types_start :: "arena \<Rightarrow> nat \<Rightarrow> types" where
  "types_start ar n = \<lparr>ts_types = [], ts_arena = ar, ts_number = n, ts_table_number = None,
     ts_basics = replicate TYPE_TABLE_SLOTS None, ts_pointers = replicate TYPE_TABLE_SLOTS None\<rparr>"

inductive types_step :: "types \<Rightarrow> types \<Rightarrow> bool" where
  basic: "type_basic st kind = (r, st') \<Longrightarrow> types_step st st'"
| pointer: "valid st base \<Longrightarrow> type_pointer st base q = (r, st') \<Longrightarrow> types_step st st'"
| array: "valid st base \<Longrightarrow> type_array st base n known = (r, st') \<Longrightarrow> types_step st st'"
| "function": "valid st ret \<Longrightarrow> \<forall>p \<in> set ps. valid st (sy_type p) \<Longrightarrow> type_function st ret ps n v = (r, st') \<Longrightarrow> types_step st st'"
| copy: "valid st type \<Longrightarrow> type_copy st type q = (r, st') \<Longrightarrow> types_step st st'"
| unqualified: "valid st type \<Longrightarrow> type_unqualified st type = (r, st') \<Longrightarrow> types_step st st'"
| arithmetic: "valid st left \<Longrightarrow> valid st right \<Longrightarrow> type_usual_arithmetic st left right = (r, st') \<Longrightarrow> types_step st st'"

inductive types_reachable :: "types \<Rightarrow> bool" where
  start: "types_reachable (types_start ar n)"
| step: "types_reachable st \<Longrightarrow> types_step st st' \<Longrightarrow> types_reachable st'"

lemma types_step_grows: "types_step st st' \<Longrightarrow> types_ok st \<Longrightarrow> \<exists>r. grows st r st'"
  by (induction rule: types_step.induct)
    (metis type_basic_ok type_pointer_ok type_array_ok type_function_ok type_copy_ok type_unqualified_ok type_usual_arithmetic_ok)+

lemma types_reachable_ok: "types_reachable st \<Longrightarrow> types_ok st"
proof (induction rule: types_reachable.induct)
  case (start ar n)
  then show ?case by (simp add: types_start_def types_ok_def store_ok_def shared_ok_def)
next
  case (step st st')
  then show ?case using types_step_grows [of st st'] by (auto simp: grows_def)
qed

text \<open>Asking again for a shared kind gives the same record and changes nothing.\<close>

lemma type_basic_again:
  assumes "types_ok st" "type_basic st kind = (Some t, st')" "kind \<noteq> TYPE_STRUCT" "kind \<noteq> TYPE_UNION"
  shows "type_basic st' kind = (Some t, st')"
proof -
  have A: "ts_table_number st' = Some (ts_number st')" "ts_basics st' ! kind_number kind = Some t"
    using type_basic_ok [OF assms(1,2)] assms(3,4) by auto
  have "basic_layout kind \<noteq> None" using assms(2) by (auto simp: type_basic_def split: option.splits)
  moreover have "type_table_select st' = st'" using A by (simp add: type_table_select_def type_table_uses_def)
  ultimately show ?thesis using A(2) assms(3,4) kind_number_less [of kind]
    by (auto simp: type_basic_def Let_def)
qed

text \<open>
  C5. In every store that calls of the type constructors can build, each record refers to earlier
  records only, has the size and alignment of its kind (an array the product of its element's size
  and its count, without overflow), and the tables of shared records hold an unqualified record of
  the right kind in each slot; a call only adds records, and asking twice for a basic type gives
  the same record.
\<close>

theorem reachable_types_ok:
  assumes "types_reachable st" "types_step st st'"
  shows "types_ok st \<and> types_ok st' \<and> (\<exists>added. ts_types st' = ts_types st @ added) \<and>
    (\<forall>kind t st''. kind \<notin> {TYPE_STRUCT, TYPE_UNION} \<longrightarrow> type_basic st kind = (Some t, st'') \<longrightarrow>
       ty_kind (type_at st'' t) = kind \<and> type_basic st'' kind = (Some t, st''))"
proof -
  note ok = types_reachable_ok [OF assms(1)]
  obtain r where "grows st r st'" using types_step_grows [OF assms(2) ok] by blast
  moreover have "ty_kind (type_at st'' t) = kind" if "type_basic st kind = (Some t, st'')" for kind t st''
    using type_basic_ok [OF ok that] by blast
  ultimately show ?thesis using ok type_basic_again [OF ok] unfolding grows_def by blast
qed

definition sample_types :: types where
  "sample_types = types_start (arena_create 1000) 0"

lemma type_basic_room:
  assumes "arena_alloc (ts_arena st) 112 = (Some p, ar)" "basic_layout kind = Some lay"
  shows "fst (type_basic st kind) \<noteq> None"
proof -
  have room: "\<exists>t s'. type_alloc s kind b al = (Some t, s')" if "ts_arena s = ts_arena st" for s b al
    using assms(1) that by (simp add: type_alloc_def store_type_def)
  have "ts_arena (type_table_select st) = ts_arena st" by (simp add: type_table_select_def)
  then obtain t s' u u' where "type_alloc st kind (fst lay) (snd lay) = (Some t, s')"
    "type_alloc (type_table_select st) kind (fst lay) (snd lay) = (Some u, u')" using room by blast
  then show ?thesis using assms(2)
    by (cases lay) (auto simp: type_basic_def Let_def split: option.split)
qed

theorem reachable_types_ok_witness:
  "types_ok (snd (type_basic sample_types TYPE_INT)) \<and>
     type_basic (snd (type_basic sample_types TYPE_INT)) TYPE_INT = type_basic sample_types TYPE_INT"
proof -
  have reach: "types_reachable sample_types" unfolding sample_types_def by (rule types_reachable.start)
  obtain r st' where run: "type_basic sample_types TYPE_INT = (r, st')" by (cases "type_basic sample_types TYPE_INT")
  have "fst (arena_alloc (arena_create 1000) 112) \<noteq> None"
    by (simp add: arena_alloc_def arena_create_def align_size_def size_add_def arena_take_def SIZE_MAX_def Let_def)
  then obtain p ar where "arena_alloc (ts_arena sample_types) 112 = (Some p, ar)"
    by (cases "arena_alloc (arena_create 1000) 112") (auto simp: sample_types_def types_start_def)
  then have "r \<noteq> None" using type_basic_room [of sample_types p ar TYPE_INT] run by simp
  moreover note reachable_types_ok [OF reach types_step.basic [OF run]]
  ultimately show ?thesis using run by (metis insertE option.exhaust singletonD snd_conv type_kind.distinct)
qed

subsection \<open>The recursions end\<close>

lemma same_below: "t < length T \<Longrightarrow> (T @ ys) ! t = T ! t"
  by (simp add: nth_append)

definition under :: "nat \<Rightarrow> nat option \<Rightarrow> bool" where
  "under n type \<longleftrightarrow> (\<forall>t. type = Some t \<longrightarrow> t < n)"

lemma under_simps [simp]: "under n None" "under n (Some t) = (t < n)"
  by (auto simp: under_def)

lemma refers_under:
  assumes "store_ok T" "t < length T" "t < Suc n"
  shows "under n (ty_base (T ! t))" "under (length T) (ty_base (T ! t))" "under n (ty_return (T ! t))"
    "under (length T) (ty_return (T ! t))" "p \<in> set (ty_parameters (T ! t)) \<Longrightarrow> under n (sy_type p) \<and> under (length T) (sy_type p)"
  using store_okD [OF assms(1,2)] assms(2,3) by (fastforce simp: under_def)+

lemma is_complete_ends:
  assumes "store_ok T"
  shows "under n type \<Longrightarrow> under (length T) type \<Longrightarrow> n < fuel \<Longrightarrow>
     type_is_complete fuel (T @ ys) type = type_is_complete (Suc n) T type \<and> type_is_complete (Suc n) T type \<noteq> None"
proof (induction n arbitrary: fuel type)
  case 0
  then show ?case by (cases fuel; cases type) auto
next
  case (Suc n)
  then obtain f where f: "fuel = Suc f" "n < f" by (cases fuel) auto
  show ?case
  proof (cases type)
    case (Some t)
    then have t: "t < length T" "t < Suc n" using Suc.prems by auto
    show ?thesis using Suc.IH [OF refers_under(1,2) [OF assms t] f(2)]
      unfolding type_is_complete.simps(2) [of "Suc n"] f(1) type_is_complete.simps(2) [of f] Some option.case Let_def
        same_below [OF t(1)]
      by (auto simp del: type_is_complete.simps)
  qed (use f in simp)
qed

lemma has_const_ends:
  assumes "store_ok T"
  shows "under n type \<Longrightarrow> under (length T) type \<Longrightarrow> n < fuel \<Longrightarrow>
     type_has_const fuel (T @ ys) type = type_has_const (Suc n) T type \<and> type_has_const (Suc n) T type \<noteq> None"
proof (induction n arbitrary: fuel type)
  case 0
  then show ?case by (cases fuel; cases type) auto
next
  case (Suc n)
  then obtain f where f: "fuel = Suc f" "n < f" by (cases fuel) auto
  show ?case
  proof (cases type)
    case (Some t)
    then have t: "t < length T" "t < Suc n" using Suc.prems by auto
    show ?thesis using Suc.IH [OF refers_under(1,2) [OF assms t] f(2)]
      unfolding type_has_const.simps(2) [of "Suc n"] f(1) type_has_const.simps(2) [of f] Some option.case same_below [OF t(1)]
      by (auto simp del: type_has_const.simps)
  qed (use f in simp)
qed

lemma parameters_compatible_cong:
  "(\<And>p q. p \<in> set ps \<Longrightarrow> q \<in> set qs \<Longrightarrow> f (sy_type p) (sy_type q) = g (sy_type p) (sy_type q) \<and> g (sy_type p) (sy_type q) \<noteq> None) \<Longrightarrow>
     parameters_compatible f ps qs = parameters_compatible g ps qs \<and> parameters_compatible g ps qs \<noteq> None"
  by (induction f ps qs rule: parameters_compatible.induct) (auto split: option.splits bool.splits)

lemma compatible_ends:
  assumes "store_ok T"
  shows "under n left \<Longrightarrow> under (length T) left \<Longrightarrow> under (length T) right \<Longrightarrow> n < fuel \<Longrightarrow>
     type_compatible fuel (T @ ys) left right = type_compatible (Suc n) T left right \<and> type_compatible (Suc n) T left right \<noteq> None"
proof (induction n arbitrary: fuel left right)
  case 0
  then show ?case by (cases fuel; cases left) auto
next
  case (Suc n)
  then obtain f where f: "fuel = Suc f" "n < f" by (cases fuel) auto
  show ?case
  proof (cases left; cases right)
    fix l r assume lr: "left = Some l" "right = Some r"
    have l: "l < length T" "l < Suc n" and r: "r < length T" using Suc.prems lr by auto
    have r2: "under (length T) (ty_base (T ! r))" "under (length T) (ty_return (T ! r))"
      "q \<in> set (ty_parameters (T ! r)) \<Longrightarrow> under (length T) (sy_type q)" for q
      using refers_under(2,4,5) [OF assms r lessI] by blast+
    note ih = Suc.IH [OF _ _ _ f(2)]
    have base: "type_compatible f (T @ ys) (ty_base (T ! l)) (ty_base (T ! r)) = type_compatible (Suc n) T (ty_base (T ! l)) (ty_base (T ! r)) \<and>
        type_compatible (Suc n) T (ty_base (T ! l)) (ty_base (T ! r)) \<noteq> None"
      by (rule ih [OF refers_under(1,2) [OF assms l] r2(1)])
    have ret: "type_compatible f (T @ ys) (ty_return (T ! l)) (ty_return (T ! r)) = type_compatible (Suc n) T (ty_return (T ! l)) (ty_return (T ! r)) \<and>
        type_compatible (Suc n) T (ty_return (T ! l)) (ty_return (T ! r)) \<noteq> None"
      by (rule ih [OF refers_under(3,4) [OF assms l] r2(2)])
    have par: "parameters_compatible (type_compatible f (T @ ys)) (ty_parameters (T ! l)) (ty_parameters (T ! r)) =
          parameters_compatible (type_compatible (Suc n) T) (ty_parameters (T ! l)) (ty_parameters (T ! r)) \<and>
        parameters_compatible (type_compatible (Suc n) T) (ty_parameters (T ! l)) (ty_parameters (T ! r)) \<noteq> None"
      by (rule parameters_compatible_cong) (use ih refers_under(5) [OF assms l] r2(3) in blast)
    have org: "type_origin (T @ ys) (Some l) = type_origin T (Some l)" "type_origin (T @ ys) (Some r) = type_origin T (Some r)"
      using l r by (simp_all add: type_origin_def same_below)
    show ?thesis
      unfolding type_compatible.simps(2) [of "Suc n"] f(1) type_compatible.simps(2) [of f] lr option.case Let_def
        same_below [OF l(1)] same_below [OF r] org
      using base ret par
      by (cases "ty_kind (T ! l)") (auto simp del: type_compatible.simps split: option.split)
  qed (use f in auto)
qed

text \<open>
  C15. The recursions over a type end: in a well-formed store one unit of fuel more than there are
  records is enough for completeness, for a const at the innermost element and for compatibility,
  more fuel gives the same answer, and records added later do not change it.
\<close>

theorem type_recursions_end:
  assumes "store_ok T" "under (length T) left" "under (length T) right" "length T < fuel"
  shows "type_is_complete fuel (T @ added) left = type_is_complete (Suc (length T)) T left \<and>
    type_is_complete fuel T left \<noteq> None \<and>
    type_has_const fuel (T @ added) left = type_has_const (Suc (length T)) T left \<and>
    type_has_const fuel T left \<noteq> None \<and>
    type_compatible fuel (T @ added) left right = type_compatible (Suc (length T)) T left right \<and>
    type_compatible fuel T left right \<noteq> None"
  using is_complete_ends [OF assms(1,2,2,4)] has_const_ends [OF assms(1,2,2,4)] compatible_ends [OF assms(1,2,2,3,4)]
  by (metis append_Nil2)

lemma sample_store_ok: "store_ok [new_type TYPE_INT 4 4 0, (new_type TYPE_POINTER 8 8 1)\<lparr>ty_base := Some 0\<rparr>]"
  by (auto simp: store_ok_def refers_below_def layout_ok_def new_type_def less_Suc_eq)

theorem type_recursions_end_witness:
  "type_compatible 9 [new_type TYPE_INT 4 4 0, (new_type TYPE_POINTER 8 8 1)\<lparr>ty_base := Some 0\<rparr>] (Some 1) (Some 1) \<noteq> None"
proof -
  have len: "Suc 0 < length [new_type TYPE_INT 4 4 0, (new_type TYPE_POINTER 8 8 1)\<lparr>ty_base := Some 0\<rparr>]" by simp
  then have "under (length [new_type TYPE_INT 4 4 0, (new_type TYPE_POINTER 8 8 1)\<lparr>ty_base := Some 0\<rparr>]) (Some 1)" by simp
  note ends = type_recursions_end [OF sample_store_ok this this, of 9 "[]"]
  show ?thesis by (rule conjunct2 [OF conjunct2 [OF conjunct2 [OF conjunct2 [OF conjunct2 [OF ends]]]]]) simp
qed

subsection \<open>Compatibility\<close>

lemma parameters_compatible_sym:
  "(\<And>(p :: sym) (q :: sym). f (sy_type p) (sy_type q) = f (sy_type q) (sy_type p)) \<Longrightarrow> parameters_compatible f ps qs = parameters_compatible f qs ps"
proof (induction ps arbitrary: qs)
  case Nil
  then show ?case by (cases qs) simp_all
next
  case (Cons p ps)
  note swap = Cons.prems and ih = Cons.IH [OF Cons.prems]
  show ?case
  proof (cases qs)
    case qs: (Cons q qs1)
    have e: "f (sy_type q) (sy_type p) = f (sy_type p) (sy_type q)" by (rule swap)
    show ?thesis unfolding qs parameters_compatible.simps(1) e ih [of qs1] ..
  qed simp
qed

lemma type_compatible_sym: "type_compatible fuel T left right = type_compatible fuel T right left"
proof (induction fuel arbitrary: left right)
  case (Suc fuel)
  note par = parameters_compatible_sym [of "type_compatible fuel T", OF Suc.IH]
  show ?case
  proof (cases left; cases right)
    fix l r assume lr: "left = Some l" "right = Some r"
    show ?thesis
      unfolding type_compatible.simps(2) lr option.case Let_def Suc.IH [of "ty_base (T ! l)" "ty_base (T ! r)"]
        Suc.IH [of "ty_return (T ! l)" "ty_return (T ! r)"] par [of "ty_parameters (T ! l)" "ty_parameters (T ! r)"]
      by (cases "ty_kind (T ! l)"; cases "ty_kind (T ! r)") (auto split: option.split intro: sym)
  qed simp_all
qed simp

lemma parameters_compatible_refl:
  "(\<And>p. p \<in> set ps \<Longrightarrow> f (sy_type p) (sy_type p) = Some True) \<Longrightarrow> parameters_compatible f ps ps = Some True"
  by (induction ps) auto

definition parameters_typed :: "ctype list \<Rightarrow> bool" where
  "parameters_typed T \<longleftrightarrow> (\<forall>x \<in> set T. \<forall>p \<in> set (ty_parameters x). sy_type p \<noteq> None)"

lemma type_compatible_refl:
  assumes "store_ok T" "parameters_typed T"
  shows "t < length T \<Longrightarrow> t < fuel \<Longrightarrow> type_compatible fuel T (Some t) (Some t) = Some True"
proof (induction fuel arbitrary: t)
  case (Suc f)
  note low = store_okD [OF assms(1) Suc.prems(1)]
  have sub: "type_compatible f T x x = Some True" if "x = Some u" "u < t" for x u
    using Suc.IH [of u] Suc.prems that by simp
  have base: "type_compatible f T (ty_base (T ! t)) (ty_base (T ! t)) = Some True" if "ty_base (T ! t) \<noteq> None"
    using sub low(1) that by blast
  have ret: "type_compatible f T (ty_return (T ! t)) (ty_return (T ! t)) = Some True" if "ty_return (T ! t) \<noteq> None"
    using sub low(2) that by blast
  have "sy_type p \<noteq> None" if "p \<in> set (ty_parameters (T ! t))" for p
    using assms(2) Suc.prems(1) that by (auto simp: parameters_typed_def)
  then have par: "parameters_compatible (type_compatible f T) (ty_parameters (T ! t)) (ty_parameters (T ! t)) = Some True"
    by (intro parameters_compatible_refl) (use sub low(3) in blast)
  show ?case
    using base ret par low(4) unfolding type_compatible.simps(2) option.case Let_def layout_ok_def
    by (cases "ty_kind (T ! t)") auto
qed simp

subsection \<open>The usual arithmetic conversions\<close>

text \<open>
  C17 6.3.1.8 on kinds, with the widths of this target: \<open>long\<close> and \<open>long long\<close> have 64 bits, and the
  128-bit kind is the widest.
\<close>

definition promoted :: "type_kind \<Rightarrow> type_kind" where
  "promoted k = (if kind_rank k < 3 \<or> k = TYPE_ENUM then TYPE_INT else k)"

fun unsigned_version :: "type_kind \<Rightarrow> type_kind" where
  "unsigned_version TYPE_INT = TYPE_UNSIGNED_INT"
| "unsigned_version TYPE_LONG = TYPE_UNSIGNED_LONG"
| "unsigned_version TYPE_LONG_LONG = TYPE_UNSIGNED_LONG_LONG"
| "unsigned_version k = k"

definition kind_bytes :: "type_kind \<Rightarrow> nat" where
  "kind_bytes k = (case basic_layout k of None \<Rightarrow> 0 | Some (b, a) \<Rightarrow> b)"

definition kind_unsigned :: "type_kind \<Rightarrow> bool" where
  "kind_unsigned k \<longleftrightarrow> k \<in> unsigned_kinds \<or> k = TYPE_UINT128"

definition common_kind :: "type_kind \<Rightarrow> type_kind \<Rightarrow> type_kind" where
  "common_kind k l =
     (if k = TYPE_DOUBLE \<or> l = TYPE_DOUBLE then TYPE_DOUBLE
      else if k = TYPE_FLOAT \<or> l = TYPE_FLOAT then TYPE_FLOAT
      else let k = promoted k; l = promoted l in
        if k = l then k
        else if kind_unsigned k = kind_unsigned l then (if kind_rank k \<ge> kind_rank l then k else l)
        else let (u, s) = (if kind_unsigned k then (k, l) else (l, k)) in
          if kind_rank u \<ge> kind_rank s then u
          else if kind_bytes s > kind_bytes u then s
          else unsigned_version s)"

abbreviation (input) arithmetic_kinds :: "type_kind set" where
  "arithmetic_kinds \<equiv> integer_kinds \<union> {TYPE_FLOAT, TYPE_DOUBLE}"

text \<open>What the code computes from the two kinds.\<close>

definition code_kind :: "type_kind \<Rightarrow> type_kind \<Rightarrow> type_kind" where
  "code_kind k l =
     (if k = TYPE_DOUBLE \<or> l = TYPE_DOUBLE then TYPE_DOUBLE
      else if k = TYPE_FLOAT \<or> l = TYPE_FLOAT then TYPE_FLOAT
      else let k = promoted k; l = promoted l in
        if k = l then k
        else let ku = k \<in> unsigned_kinds; lu = l \<in> unsigned_kinds in
          if kind_rank k = kind_rank l then (if ku then k else l)
          else if kind_rank k > kind_rank l then (if \<not> ku \<and> lu \<and> kind_bytes k \<le> kind_bytes l then l else k)
          else (if lu \<and> \<not> ku \<and> kind_bytes l \<le> kind_bytes k then k else l))"

text \<open>The three ordered pairs where the code departs from the standard.\<close>

definition wrong_pair :: "type_kind \<Rightarrow> type_kind \<Rightarrow> bool" where
  "wrong_pair k l \<longleftrightarrow> (k, l) \<in> {(TYPE_LONG, TYPE_UNSIGNED_LONG_LONG), (TYPE_LONG_LONG, TYPE_UNSIGNED_LONG),
     (TYPE_UNSIGNED_LONG, TYPE_LONG_LONG)}"

lemma code_kind_common:
  assumes "k \<in> arithmetic_kinds" "l \<in> arithmetic_kinds"
  shows "(code_kind k l = common_kind k l) = (\<not> wrong_pair k l)"
  using assms
  by (cases k; cases l)
    (simp_all add: code_kind_def common_kind_def wrong_pair_def promoted_def kind_bytes_def kind_unsigned_def Let_def)

lemma promote_kind:
  assumes "types_ok st" "t < length (ts_types st)" "ty_kind (type_at st t) = k" "k \<in> integer_kinds"
    "type_integer_promote st (Some t) = (Some u, st')"
  shows "ty_kind (type_at st' u) = promoted k"
proof -
  have int: "type_is_integer (ts_types st) (Some t)" using assms(3,4) by (simp add: type_is_integer_def kind_of_def)
  show ?thesis
  proof (cases "kind_rank k < 3 \<or> k = TYPE_ENUM")
    case True
    then have "type_basic st TYPE_INT = (Some u, st')" using assms(3,5) int by (auto simp: type_integer_promote_def integer_rank_def split: if_splits)
    then show ?thesis using type_basic_ok [OF assms(1)] True by (simp add: promoted_def)
  next
    case False
    then show ?thesis using assms(3,5) int by (auto simp: type_integer_promote_def integer_rank_def promoted_def split: if_splits)
  qed
qed

lemma basic_size:
  assumes "types_ok st" "t < length (ts_types st)" "ty_kind (type_at st t) \<in> integer_kinds"
  shows "ty_size (type_at st t) = kind_bytes (ty_kind (type_at st t))"
  using store_okD(4) [of "ts_types st" t] assms unfolding types_ok_def layout_ok_def kind_bytes_def
  by (cases "ty_kind (type_at st t)") auto

lemma compatible_integer:
  assumes "ty_kind (type_at st l) \<in> integer_kinds - {TYPE_ENUM}" "ty_kind (type_at st r) \<in> integer_kinds - {TYPE_ENUM}"
  shows "compatible st (Some l) (Some r) \<longleftrightarrow> ty_kind (type_at st l) = ty_kind (type_at st r)"
  using assms unfolding compatible_def type_compatible.simps(2) option.case Let_def
  by (cases "ty_kind (type_at st l)") (auto split: type_kind.splits)

text \<open>
  Compatibility of types is a symmetric relation, and a reflexive one in every well-formed store
  whose parameters have types.
\<close>

lemma compatible_symmetric:
  assumes "store_ok (ts_types st)" "parameters_typed (ts_types st)" "t < length (ts_types st)"
  shows "compatible st (Some t) (Some t) \<and> (\<forall>left right. compatible st left right = compatible st right left)"
  using type_compatible_refl [OF assms(1,2,3), of "Suc (length (ts_types st))"] assms(3) type_compatible_sym
  unfolding compatible_def by (metis less_SucI)

lemma compatible_symmetric_witness:
  "compatible (sample_types\<lparr>ts_types := [new_type TYPE_INT 4 4 0, (new_type TYPE_POINTER 8 8 1)\<lparr>ty_base := Some 0\<rparr>]\<rparr>) (Some 1) (Some 1)"
  using compatible_symmetric [of "sample_types\<lparr>ts_types := [new_type TYPE_INT 4 4 0, (new_type TYPE_POINTER 8 8 1)\<lparr>ty_base := Some 0\<rparr>]\<rparr>" 1]
    sample_store_ok by (simp add: parameters_typed_def new_type_def)

lemma kind_kept: "grows st r st' \<Longrightarrow> t < length (ts_types st) \<Longrightarrow> type_at st' t = type_at st t"
  by (auto simp: grows_def nth_append)

lemma usual_arithmetic_kind:
  assumes "types_ok st" "l < length (ts_types st)" "r < length (ts_types st)"
    "ty_kind (type_at st l) = k" "ty_kind (type_at st r) = m" "k \<in> arithmetic_kinds" "m \<in> arithmetic_kinds"
    "type_usual_arithmetic st (Some l) (Some r) = (Some t, st')"
  shows "ty_kind (type_at st' t) = code_kind k m"
proof -
  have ar: "type_is_arithmetic (ts_types st) (Some l)" "type_is_arithmetic (ts_types st) (Some r)"
    using assms(4-7) by (auto simp: type_is_arithmetic_def type_is_integer_def kind_of_def)
  have kinds: "kind_of (ts_types st) (Some l) = Some k" "kind_of (ts_types st) (Some r) = Some m"
    using assms(4,5) by (simp_all add: kind_of_def)
  note run = assms(8) [unfolded type_usual_arithmetic_def kinds option.inject, simplified ar]
  consider (d) "k = TYPE_DOUBLE \<or> m = TYPE_DOUBLE" | (f) "k \<noteq> TYPE_DOUBLE \<and> m \<noteq> TYPE_DOUBLE" "k = TYPE_FLOAT \<or> m = TYPE_FLOAT"
    | (i) "k \<notin> {TYPE_DOUBLE, TYPE_FLOAT}" "m \<notin> {TYPE_DOUBLE, TYPE_FLOAT}" by blast
  then show ?thesis
  proof cases
    case d
    then have "type_basic st TYPE_DOUBLE = (Some t, st')" using run by auto
    then show ?thesis using type_basic_ok [OF assms(1)] d unfolding code_kind_def by auto
  next
    case f
    then have "type_basic st TYPE_FLOAT = (Some t, st')" using run by auto
    then show ?thesis using type_basic_ok [OF assms(1)] f unfolding code_kind_def by auto
  next
    case i
    have int: "k \<in> integer_kinds" "m \<in> integer_kinds" using i assms(6,7) by auto
    obtain l1 s1 where L: "type_integer_promote st (Some l) = (l1, s1)" by (cases "type_integer_promote st (Some l)")
    obtain r1 s2 where R: "type_integer_promote s1 (Some r) = (r1, s2)" by (cases "type_integer_promote s1 (Some r)")
    have g1: "grows st l1 s1" by (rule type_integer_promote_ok [OF assms(1) _ L]) (use assms(2) in \<open>simp add: valid_def\<close>)
    have ok1: "types_ok s1" and r_in: "r < length (ts_types s1)" and rk: "ty_kind (type_at s1 r) = m"
      using g1 assms(3,5) kind_kept [OF g1 assms(3)] by (auto simp: grows_def)
    have g2: "grows s1 r1 s2" by (rule type_integer_promote_ok [OF ok1 _ R]) (use r_in in \<open>simp add: valid_def\<close>)
    have step: "(Some t, st') = (if compatible s2 l1 r1 then (l1, s2)
          else case l1 of None \<Rightarrow> (None, s2) | Some l \<Rightarrow> case r1 of None \<Rightarrow> (None, s2) | Some r \<Rightarrow>
            let left_unsigned = (\<not> type_is_signed (ts_types s2) l1); right_unsigned = (\<not> type_is_signed (ts_types s2) r1);
                left_rank = integer_rank s2 l; right_rank = integer_rank s2 r
            in if left_rank = right_rank then (if left_unsigned then l1 else r1, s2)
               else if left_rank > right_rank then
                 (if \<not> left_unsigned \<and> right_unsigned \<and> ty_size (type_at s2 l) \<le> ty_size (type_at s2 r) then (r1, s2) else (l1, s2))
               else (if right_unsigned \<and> \<not> left_unsigned \<and> ty_size (type_at s2 r) \<le> ty_size (type_at s2 l) then (l1, s2) else (r1, s2)))"
      using run i unfolding L R prod.case by simp
    obtain a b where ab: "l1 = Some a" "r1 = Some b"
    proof -
      have "l1 \<noteq> None \<and> r1 \<noteq> None" using step by (cases l1; cases r1) (auto simp: compatible_def split: if_splits)
      then show thesis using that by blast
    qed
    have al: "a < length (ts_types s1)" "b < length (ts_types s2)" using g1 g2 ab by (simp_all add: grows_def valid_def)
    have ka: "ty_kind (type_at s2 a) = promoted k"
      using promote_kind [OF assms(1,2,4) int(1) L [unfolded ab]] kind_kept [OF g2 al(1)] by simp
    have kb: "ty_kind (type_at s2 b) = promoted m"
      using promote_kind [OF ok1 r_in rk int(2) R [unfolded ab]] .
    have ok2: "types_ok s2" and al2: "a < length (ts_types s2)" using g2 al by (auto simp: grows_def)
    have pk: "promoted k \<in> integer_kinds - {TYPE_ENUM}" "promoted m \<in> integer_kinds - {TYPE_ENUM}"
      using int by (auto simp: promoted_def)
    have sizes: "ty_size (type_at s2 a) = kind_bytes (promoted k)" "ty_size (type_at s2 b) = kind_bytes (promoted m)"
      using basic_size [OF ok2 al2] basic_size [OF ok2 al(2)] pk unfolding ka kb by blast+
    have uns: "type_is_signed (ts_types s2) (Some a) = (promoted k \<notin> unsigned_kinds)" "type_is_signed (ts_types s2) (Some b) = (promoted m \<notin> unsigned_kinds)"
      using pk ka kb by (auto simp: type_is_signed_def type_is_integer_def kind_of_def)
    have comp: "compatible s2 (Some a) (Some b) = (promoted k = promoted m)"
      using compatible_integer [of s2 a b] pk unfolding ka kb by blast
    have rank: "integer_rank s2 a = kind_rank (promoted k)" "integer_rank s2 b = kind_rank (promoted m)"
      by (simp_all add: integer_rank_def ka kb)
    note step' = step [unfolded ab option.case comp Let_def uns rank sizes not_not]
    have "st' = s2 \<and> (t = a \<longrightarrow> ty_kind (type_at s2 t) = promoted k) \<and> (t = b \<longrightarrow> ty_kind (type_at s2 t) = promoted m)"
      using step' ka kb by (simp split: if_splits)
    then show ?thesis using step' i unfolding code_kind_def Let_def by (auto split: if_splits simp del: insert_iff)
  qed
qed

text \<open>
  C9. The usual arithmetic conversions give the common type the C standard asks for, for every pair
  of arithmetic operands except three: \<open>long\<close> with \<open>unsigned long long\<close>, \<open>long long\<close> with
  \<open>unsigned long\<close>, and \<open>unsigned long\<close> with \<open>long long\<close>, in that order, where the result has the
  wrong rank or sign.
\<close>

theorem usual_arithmetic_standard:
  assumes "types_ok st" "l < length (ts_types st)" "r < length (ts_types st)"
    "ty_kind (type_at st l) = k" "ty_kind (type_at st r) = m" "k \<in> arithmetic_kinds" "m \<in> arithmetic_kinds"
    "type_usual_arithmetic st (Some l) (Some r) = (Some t, st')"
  shows "(ty_kind (type_at st' t) = common_kind k m) = (\<not> wrong_pair k m)"
  unfolding usual_arithmetic_kind [OF assms] by (rule code_kind_common [OF assms(6,7)])

definition long_types :: types where
  "long_types = sample_types\<lparr>ts_types := [new_type TYPE_LONG 8 8 0, new_type TYPE_UNSIGNED_LONG_LONG 8 8 1]\<rparr>"

lemma long_types_ok: "types_ok long_types"
  by (auto simp: types_ok_def long_types_def sample_types_def types_start_def store_ok_def shared_ok_def refers_below_def layout_ok_def
      new_type_def less_Suc_eq)

text \<open>A \<open>long\<close> plus an \<open>unsigned long long\<close> is a \<open>long\<close>.\<close>

theorem usual_arithmetic_standard_witness:
  "type_usual_arithmetic long_types (Some 0) (Some 1) = (Some 0, long_types) \<and>
     ty_kind (type_at long_types 0) \<noteq> common_kind TYPE_LONG TYPE_UNSIGNED_LONG_LONG"
proof -
  have kinds: "ty_kind (type_at long_types 0) = TYPE_LONG" "ty_kind (type_at long_types 1) = TYPE_UNSIGNED_LONG_LONG"
    "ty_size (type_at long_types 0) = 8" "ty_size (type_at long_types 1) = 8" "length (ts_types long_types) = 2"
    by (simp_all add: long_types_def new_type_def)
  have comp: "\<not> compatible long_types (Some 0) (Some 1)" using compatible_integer [of long_types 0 1] kinds by simp
  have run: "type_usual_arithmetic long_types (Some 0) (Some 1) = (Some 0, long_types)"
    using comp kinds by (simp add: type_usual_arithmetic_def type_is_arithmetic_def type_is_integer_def type_is_signed_def kind_of_def
        type_integer_promote_def integer_rank_def)
  show ?thesis using usual_arithmetic_standard [OF long_types_ok _ _ kinds(1,2) _ _ run] run kinds by (simp add: wrong_pair_def)
qed

end
