(* ===== verification/Scopes.thy ===== *)
theory Scopes
  imports Types Name_Table
begin

text \<open>
  Scopes of the compiler (\<open>src/src/semantic/semantic.c\<close>): chains of bindings that are searched from
  the innermost scope outwards. A \<open>Scope *\<close> is a number in a store, and a symbol is named by its
  address; a binding keeps a copy of the name it was made with.
\<close>

record binding =
  bd_name :: cstring
  bd_tag :: bool
  bd_symbol :: "nat option"
  bd_type :: "nat option"

record scope =
  sc_parent :: "nat option"
  sc_bindings :: "binding list"

record scopes =
  ss_scopes :: "scope list"
  ss_arena :: arena

abbreviation (input) SIZEOF_SCOPE :: nat where "SIZEOF_SCOPE \<equiv> 16"
abbreviation (input) SIZEOF_BINDING :: nat where "SIZEOF_BINDING \<equiv> 40"

definition scope_create :: "scopes \<Rightarrow> nat option \<Rightarrow> nat option \<times> scopes" where
  "scope_create ss parent =
     (case arena_alloc (ss_arena ss) SIZEOF_SCOPE of
        (None, ar) \<Rightarrow> (None, ss\<lparr>ss_arena := ar\<rparr>)
      | (Some p, ar) \<Rightarrow>
          (Some (length (ss_scopes ss)),
           ss\<lparr>ss_arena := ar, ss_scopes := ss_scopes ss @ [\<lparr>sc_parent = parent, sc_bindings = []\<rparr>]\<rparr>))"

fun find_symbol_binding :: "binding list \<Rightarrow> cstring \<Rightarrow> nat option" where
  "find_symbol_binding [] name = None"
| "find_symbol_binding (b # bs) name =
     (if \<not> bd_tag b \<and> bd_symbol b \<noteq> None \<and> bd_name b = name then bd_symbol b else find_symbol_binding bs name)"

fun find_tag_binding :: "binding list \<Rightarrow> cstring \<Rightarrow> nat option option" where
  "find_tag_binding [] name = None"
| "find_tag_binding (b # bs) name =
     (if bd_tag b \<and> bd_name b = name then Some (bd_type b) else find_tag_binding bs name)"

text \<open>The walk over the parents; \<open>fuel\<close> bounds it, and no value means it did not end.\<close>

primrec scope_lookup :: "nat \<Rightarrow> scope list \<Rightarrow> nat option \<Rightarrow> cstring \<Rightarrow> nat option option" where
  "scope_lookup 0 S at_scope name = None"
| "scope_lookup (Suc fuel) S at_scope name =
     (case at_scope of None \<Rightarrow> Some None
      | Some s \<Rightarrow>
        (case find_symbol_binding (sc_bindings (S ! s)) name of
           Some found \<Rightarrow> Some (Some found)
         | None \<Rightarrow> scope_lookup fuel S (sc_parent (S ! s)) name))"

definition scope_lookup_here :: "scope list \<Rightarrow> nat option \<Rightarrow> cstring \<Rightarrow> nat option" where
  "scope_lookup_here S at_scope name =
     (case at_scope of None \<Rightarrow> None | Some s \<Rightarrow> find_symbol_binding (sc_bindings (S ! s)) name)"

primrec scope_lookup_tag :: "nat \<Rightarrow> scope list \<Rightarrow> nat option \<Rightarrow> cstring \<Rightarrow> nat option option" where
  "scope_lookup_tag 0 S at_scope name = None"
| "scope_lookup_tag (Suc fuel) S at_scope name =
     (case at_scope of None \<Rightarrow> Some None
      | Some s \<Rightarrow>
        (case find_tag_binding (sc_bindings (S ! s)) name of
           Some found \<Rightarrow> Some found
         | None \<Rightarrow> scope_lookup_tag fuel S (sc_parent (S ! s)) name))"

definition bind :: "scopes \<Rightarrow> nat \<Rightarrow> binding \<Rightarrow> bool \<times> scopes" where
  "bind ss s b =
     (case arena_alloc (ss_arena ss) SIZEOF_BINDING of
        (None, ar) \<Rightarrow> (False, ss\<lparr>ss_arena := ar\<rparr>)
      | (Some p, ar) \<Rightarrow>
          (True, ss\<lparr>ss_arena := ar,
             ss_scopes := (ss_scopes ss)[s := (ss_scopes ss ! s)\<lparr>sc_bindings := b # sc_bindings (ss_scopes ss ! s)\<rparr>]\<rparr>))"

definition scope_add_symbol :: "scopes \<Rightarrow> nat \<Rightarrow> sym \<Rightarrow> bool \<times> scopes" where
  "scope_add_symbol ss s symbol =
     bind ss s \<lparr>bd_name = sy_name symbol, bd_tag = False, bd_symbol = Some (sy_address symbol), bd_type = sy_type symbol\<rparr>"

definition scope_add_tag :: "scopes \<Rightarrow> nat \<Rightarrow> cstring \<Rightarrow> nat option \<Rightarrow> bool \<times> scopes" where
  "scope_add_tag ss s name type = bind ss s \<lparr>bd_name = name, bd_tag = True, bd_symbol = None, bd_type = type\<rparr>"

subsection \<open>One scope is a map\<close>

text \<open>A symbol's binding goes in front of the others and hides those of its name.\<close>

abbreviation (input) symbol_binding :: "binding \<Rightarrow> bool" where
  "symbol_binding b \<equiv> \<not> bd_tag b \<and> bd_symbol b \<noteq> None"

interpretation scope_names: name_map "\<lambda>bs. True" find_symbol_binding "\<lambda>bs b. b # bs" symbol_binding bd_name "\<lambda>b. the (bd_symbol b)"
  by unfold_locales (auto simp: fun_eq_iff)

lemma last_declaration_counts:
  assumes "\<forall>b \<in> set declared. symbol_binding b"
  shows "find_symbol_binding (rev declared @ bs) name =
    (case find (\<lambda>b. bd_name b = name) (rev declared) of None \<Rightarrow> find_symbol_binding bs name | Some b \<Rightarrow> bd_symbol b)"
proof -
  have fold: "foldl (\<lambda>bs b. b # bs) bs declared = rev declared @ bs" by (induction declared arbitrary: bs) auto
  have "bd_symbol b \<noteq> None" if "find (\<lambda>b. bd_name b = name) (rev declared) = Some b" for b
    using assms that by (auto simp: find_Some_iff) (metis nth_mem length_rev set_rev option.distinct(1))
  then show ?thesis using scope_names.lookup_inserts [of declared bs name] assms unfolding fold by (auto split: option.split)
qed

subsection \<open>Lookups\<close>

text \<open>Every parent is an earlier scope, so the scopes around a scope are a finite chain.\<close>

definition scopes_ok :: "scope list \<Rightarrow> bool" where
  "scopes_ok S \<longleftrightarrow> (\<forall>s < length S. \<forall>p. sc_parent (S ! s) = Some p \<longrightarrow> p < s)"

primrec chain :: "nat \<Rightarrow> scope list \<Rightarrow> nat option \<Rightarrow> nat list" where
  "chain 0 S at_scope = []"
| "chain (Suc fuel) S at_scope =
     (case at_scope of None \<Rightarrow> [] | Some s \<Rightarrow> s # chain fuel S (sc_parent (S ! s)))"

text \<open>The first binding of a name in a chain.\<close>

fun first_symbol :: "scope list \<Rightarrow> nat list \<Rightarrow> cstring \<Rightarrow> nat option" where
  "first_symbol S [] name = None"
| "first_symbol S (s # ss) name =
     (case find_symbol_binding (sc_bindings (S ! s)) name of None \<Rightarrow> first_symbol S ss name | Some found \<Rightarrow> Some found)"

fun first_tag :: "scope list \<Rightarrow> nat list \<Rightarrow> cstring \<Rightarrow> nat option" where
  "first_tag S [] name = None"
| "first_tag S (s # ss) name =
     (case find_tag_binding (sc_bindings (S ! s)) name of None \<Rightarrow> first_tag S ss name | Some found \<Rightarrow> found)"

lemma lookup_chain:
  "scopes_ok S \<Longrightarrow> (\<And>s. at_scope = Some s \<Longrightarrow> s < length S \<and> s < n) \<Longrightarrow>
     scope_lookup (Suc n) S at_scope name = Some (first_symbol S (chain (Suc n) S at_scope) name) \<and>
     scope_lookup_tag (Suc n) S at_scope name = Some (first_tag S (chain (Suc n) S at_scope) name)"
proof (induction n arbitrary: at_scope)
  case (Suc n)
  show ?case
  proof (cases at_scope)
    case (Some s)
    have s: "s < length S" "s < Suc n" using Suc.prems(2) [OF Some] by auto
    have p: "p < length S \<and> p < n" if "sc_parent (S ! s) = Some p" for p
      using Suc.prems(1) s that unfolding scopes_ok_def by (meson less_SucE order.strict_trans order_less_le_trans less_Suc_eq_le)
    show ?thesis
      using Suc.IH [OF Suc.prems(1), of "sc_parent (S ! s)"] p Some by (auto split: option.splits)
  qed simp
qed (auto split: option.splits)

lemma chain_members: "scopes_ok S \<Longrightarrow> (\<And>s. at_scope = Some s \<Longrightarrow> s < length S) \<Longrightarrow>
   t \<in> set (chain n S at_scope) \<Longrightarrow> t < length S \<and> (\<forall>s. at_scope = Some s \<longrightarrow> t \<le> s)"
proof (induction n arbitrary: at_scope)
  case (Suc n)
  then obtain s where s: "at_scope = Some s" by (cases at_scope) auto
  have sl: "s < length S" using Suc.prems(2) s by simp
  show ?case
  proof (cases "t = s")
    case False
    then have t: "t \<in> set (chain n S (sc_parent (S ! s)))" using Suc.prems(3) s by simp
    then obtain p where p: "sc_parent (S ! s) = Some p" by (cases n; cases "sc_parent (S ! s)") auto
    have "p < s" using Suc.prems(1) sl p by (auto simp: scopes_ok_def)
    then show ?thesis using Suc.IH [OF Suc.prems(1) _ t] p sl s by fastforce
  qed (use s sl in auto)
qed simp

text \<open>Adding a binding to the front of one scope.\<close>

abbreviation add_binding :: "scope list \<Rightarrow> nat \<Rightarrow> binding \<Rightarrow> scope list" where
  "add_binding S s b \<equiv> S[s := (S ! s)\<lparr>sc_bindings := b # sc_bindings (S ! s)\<rparr>]"

lemma add_binding_parent: "sc_parent (add_binding S s b ! t) = sc_parent (S ! t)"
  by (cases "s < length S"; cases "t = s") (simp_all add: list_update_beyond)

lemma add_binding_ok: "scopes_ok S \<Longrightarrow> scopes_ok (add_binding S s b)"
  unfolding scopes_ok_def add_binding_parent by simp

lemma add_binding_chain: "chain n (add_binding S s b) at_scope = chain n S at_scope"
proof (induction n arbitrary: at_scope)
  case (Suc n)
  then show ?case by (simp only: chain.simps add_binding_parent)
qed simp

lemma first_symbol_added:
  assumes "s < length S" "\<not> bd_tag b" "bd_symbol b = Some a"
  shows "first_symbol (add_binding S s b) xs name =
    (if s \<in> set xs \<and> name = bd_name b \<and> first_symbol S (takeWhile (\<lambda>x. x \<noteq> s) xs) name = None then Some a
     else first_symbol S xs name)"
  using assms by (induction xs) (auto split: option.splits)

lemma first_tag_added:
  assumes "s < length S" "\<not> bd_tag b"
  shows "first_tag (add_binding S s b) xs name = first_tag S xs name"
  using assms by (induction xs) (auto simp: nth_list_update split: option.splits)

lemma lookup_in_chain:
  assumes "scopes_ok S" "c < length S"
  shows "scope_lookup (Suc (length S)) S (Some c) name = Some (first_symbol S (chain (Suc (length S)) S (Some c)) name)"
    "scope_lookup_tag (Suc (length S)) S (Some c) name = Some (first_tag S (chain (Suc (length S)) S (Some c)) name)"
  using lookup_chain [OF assms(1), of "Some c" "length S" name] assms(2) by (simp_all del: chain.simps scope_lookup.simps scope_lookup_tag.simps)

text \<open>
  C12. Declaring a symbol in a scope shadows and nothing else: from every scope whose chain of
  enclosing scopes holds that scope, the declared name is found as the new symbol unless a scope
  further in binds the name; every other name, every other scope and every tag is found as before.
  The search always ends.
\<close>

theorem scope_shadowing:
  assumes "scopes_ok (ss_scopes ss)" "s < length (ss_scopes ss)" "c < length (ss_scopes ss)"
    and "scope_add_symbol ss s symbol = (True, ss')" and "n = Suc (length (ss_scopes ss))"
  shows "scope_lookup n (ss_scopes ss') (Some c) name =
      (if s \<in> set (chain n (ss_scopes ss) (Some c)) \<and> name = sy_name symbol \<and>
          first_symbol (ss_scopes ss) (takeWhile (\<lambda>x. x \<noteq> s) (chain n (ss_scopes ss) (Some c))) name = None
       then Some (Some (sy_address symbol)) else scope_lookup n (ss_scopes ss) (Some c) name) \<and>
    scope_lookup n (ss_scopes ss) (Some c) name \<noteq> None \<and>
    scope_lookup_here (ss_scopes ss') (Some c) name =
      (if c = s \<and> name = sy_name symbol then Some (sy_address symbol) else scope_lookup_here (ss_scopes ss) (Some c) name) \<and>
    scope_lookup_tag n (ss_scopes ss') (Some c) name = scope_lookup_tag n (ss_scopes ss) (Some c) name \<and>
    scopes_ok (ss_scopes ss')"
proof -
  define b where "b = \<lparr>bd_name = sy_name symbol, bd_tag = False, bd_symbol = Some (sy_address symbol), bd_type = sy_type symbol\<rparr>"
  have S: "ss_scopes ss' = add_binding (ss_scopes ss) s b"
    using assms(4) by (auto simp: scope_add_symbol_def bind_def b_def split: prod.splits option.splits)
  note ok' = add_binding_ok [OF assms(1), of s b]
  have look: "scope_lookup n (ss_scopes ss') (Some c) name = Some (first_symbol (add_binding (ss_scopes ss) s b) (chain n (ss_scopes ss) (Some c)) name)"
    "scope_lookup_tag n (ss_scopes ss') (Some c) name = Some (first_tag (add_binding (ss_scopes ss) s b) (chain n (ss_scopes ss) (Some c)) name)"
    using lookup_in_chain [OF ok', of c name] assms(3,5) unfolding S by (simp_all only: length_list_update add_binding_chain)
  have b: "\<not> bd_tag b" "bd_symbol b = Some (sy_address symbol)" "bd_name b = sy_name symbol" by (simp_all add: b_def)
  note old = lookup_in_chain [OF assms(1,3), of name, folded assms(5)]
  show ?thesis
    unfolding look first_symbol_added [OF assms(2) b(1,2)] first_tag_added [OF assms(2) b(1)] old b(3)
    using ok' assms(2) b unfolding S by (auto simp: scope_lookup_here_def nth_list_update)
qed

definition sample_scopes :: scopes where
  "sample_scopes = \<lparr>ss_scopes = [\<lparr>sc_parent = None, sc_bindings = []\<rparr>, \<lparr>sc_parent = Some 0, sc_bindings = []\<rparr>],
     ss_arena = arena_create 1000\<rparr>"

definition sample_symbol :: sym where
  "sample_symbol = \<lparr>sy_address = 7, sy_name = cstr ''x'', sy_type = None, sy_class = SYMBOL_VARIABLE, sy_storage = STORAGE_NONE,
     sy_linkage = LINKAGE_NONE, sy_defined = True, sy_initialized = False, sy_is_parameter = False, sy_offset = 0, sy_enum_value = 0\<rparr>"

theorem scope_shadowing_witness:
  "\<exists>ss'. scope_add_symbol sample_scopes 0 sample_symbol = (True, ss') \<and>
     scope_lookup 3 (ss_scopes ss') (Some 1) (cstr ''x'') = Some (Some 7)"
proof -
  obtain ss' where add: "scope_add_symbol sample_scopes 0 sample_symbol = (True, ss')"
    by (simp add: scope_add_symbol_def bind_def sample_scopes_def arena_alloc_def arena_create_def align_size_def size_add_def
        arena_take_def SIZE_MAX_def Let_def)
  have "scopes_ok (ss_scopes sample_scopes)" by (auto simp: scopes_ok_def sample_scopes_def less_Suc_eq)
  from scope_shadowing [OF this _ _ add refl, of 1 "cstr ''x''"] add show ?thesis
    by (simp add: sample_scopes_def sample_symbol_def eval_nat_numeral)
qed

end
