(* ===== verification/Abi.thy ===== *)
theory Abi
  imports Types
begin

text \<open>
  Argument passing (\<open>src/src/backend/abi.c\<close>): how the eightbytes of a structure are classified, and
  where each argument of a call travels. Byte counts are \<open>size_t\<close> values and wrap.
\<close>

subsection \<open>Classes of eightbytes\<close>

datatype agg_class = AGG_INTEGER | AGG_SSE

record arg_slot =
  as_ok :: bool
  as_in_register :: bool
  as_memory :: bool
  as_pieces :: nat
  as_classes :: "agg_class list"
  as_registers :: "nat list"
  as_stack_offset :: nat
  as_size :: nat

definition size_wrap :: "nat \<Rightarrow> nat" where
  "size_wrap n = n mod 2 ^ 64"

definition is_vector_type :: "ctype list \<Rightarrow> nat option \<Rightarrow> bool" where
  "is_vector_type T type = (case type of None \<Rightarrow> False | Some t \<Rightarrow> ty_kind (T ! t) = TYPE_FLOAT \<or> ty_kind (T ! t) = TYPE_DOUBLE)"

text \<open>The classes found so far, and which pieces something has reached.\<close>

type_synonym marks = "agg_class list \<times> bool list"

definition mark_piece :: "ctype list \<Rightarrow> nat \<Rightarrow> nat \<Rightarrow> marks \<Rightarrow> marks" where
  "mark_piece T t offset m =
     (let index = offset div 8 in
      if index \<ge> 2 then m
      else let wanted = (if is_vector_type T (Some t) then AGG_SSE else AGG_INTEGER) in
        if wanted = AGG_INTEGER \<or> \<not> snd m ! index then ((fst m)[index := wanted], (snd m)[index := True]) else m)"

text \<open>A loop over the elements of an array, from element \<open>index\<close> on, with \<open>left\<close> elements to go.\<close>

primrec walk_elements :: "(nat \<Rightarrow> marks \<Rightarrow> (bool \<times> marks) option) \<Rightarrow> nat \<Rightarrow> nat \<Rightarrow> nat \<Rightarrow> nat \<Rightarrow> marks \<Rightarrow> (bool \<times> marks) option" where
  "walk_elements walk 0 index offset element m = Some (True, m)"
| "walk_elements walk (Suc left) index offset element m =
     (case walk (size_wrap (offset + index * element)) m of
        None \<Rightarrow> None
      | Some (False, m) \<Rightarrow> Some (False, m)
      | Some (True, m) \<Rightarrow> walk_elements walk left (Suc index) offset element m)"

abbreviation (input) aggregate_kinds :: "type_kind set" where
  "aggregate_kinds \<equiv> {TYPE_STRUCT, TYPE_UNION}"

text \<open>One member of a structure; \<open>walk\<close> is the walk over a structure inside it.\<close>

definition walk_field :: "(nat \<Rightarrow> nat \<Rightarrow> marks \<Rightarrow> (bool \<times> marks) option) \<Rightarrow> ctype list \<Rightarrow> member \<Rightarrow> nat \<Rightarrow> marks \<Rightarrow> (bool \<times> marks) option" where
  "walk_field walk T member base m =
     (let offset = size_wrap (base + mb_offset member) in
      case mb_type member of None \<Rightarrow> Some (False, m)
      | Some field \<Rightarrow>
        if ty_kind (T ! field) \<in> aggregate_kinds then walk field offset m
        else if ty_kind (T ! field) = TYPE_ARRAY then
          (let element = type_size T (ty_base (T ! field)) in
           if element = 0 then Some (True, m)
           else walk_elements (walk (the (ty_base (T ! field)))) (ty_array_count (T ! field)) 0 offset element m)
        else
          (let bytes = type_size T (Some field) in
           if bytes = 0 then Some (True, m)
           else if size_wrap (offset mod 8 + bytes) > 8 then Some (False, m)
           else Some (True, mark_piece T field offset m)))"

primrec walk_fields :: "(nat \<Rightarrow> nat \<Rightarrow> marks \<Rightarrow> (bool \<times> marks) option) \<Rightarrow> ctype list \<Rightarrow> member list \<Rightarrow> nat \<Rightarrow> marks \<Rightarrow> (bool \<times> marks) option" where
  "walk_fields walk T [] base m = Some (True, m)"
| "walk_fields walk T (member # members) base m =
     (case walk_field walk T member base m of
        None \<Rightarrow> None
      | Some (False, m) \<Rightarrow> Some (False, m)
      | Some (True, m) \<Rightarrow> walk_fields walk T members base m)"

text \<open>The recursion is bounded by \<open>fuel\<close>; no value means that it did not end.\<close>

primrec walk_members :: "nat \<Rightarrow> ctype list \<Rightarrow> nat \<Rightarrow> nat \<Rightarrow> marks \<Rightarrow> (bool \<times> marks) option" where
  "walk_members 0 T t base m = None"
| "walk_members (Suc fuel) T t base m = walk_fields (walk_members fuel T) T (ty_members (T ! t)) base m"

text \<open>The number of eightbytes, the classes and whether the object goes to memory.\<close>

definition abi_aggregate_pieces :: "nat \<Rightarrow> ctype list \<Rightarrow> nat option \<Rightarrow> agg_class list \<Rightarrow> bool \<Rightarrow> (nat \<times> agg_class list \<times> bool) option" where
  "abi_aggregate_pieces fuel T type pieces memory =
     (case type of None \<Rightarrow> Some (0, pieces, memory)
      | Some t \<Rightarrow>
        if ty_kind (T ! t) \<noteq> TYPE_STRUCT \<and> ty_kind (T ! t) \<noteq> TYPE_UNION then Some (0, pieces, False)
        else if ty_incomplete (T ! t) then Some (0, pieces, False)
        else let bytes = type_size T type in
          if bytes = 0 then Some (0, pieces, False)
          else if bytes > 16 then Some (0, pieces, True)
          else case walk_members fuel T t 0 (pieces, [False, False]) of
                 None \<Rightarrow> None
               | Some (False, m) \<Rightarrow> Some (0, fst m, True)
               | Some (True, m) \<Rightarrow>
                   Some ((bytes + 7) div 8,
                     map (\<lambda>p. if p < (bytes + 7) div 8 \<and> \<not> snd m ! p then AGG_INTEGER else fst m ! p) [0..<length (fst m)],
                     False))"

subsection \<open>Assigning arguments\<close>

definition abi_round_up :: "nat \<Rightarrow> nat \<Rightarrow> nat" where
  "abi_round_up n alignment =
     (let low = alignment - 1 in
      if n > SIZE_MAX - low then SIZE_MAX else n + low - (n + low) mod alignment)"

text \<open>The numbers handed out, one for each class, in order.\<close>

fun hand_out :: "agg_class list \<Rightarrow> nat \<Rightarrow> nat \<Rightarrow> nat list \<times> nat \<times> nat" where
  "hand_out [] general vector = ([], general, vector)"
| "hand_out (AGG_SSE # cs) general vector =
     (case hand_out cs general (Suc vector) of (rs, g, v) \<Rightarrow> (vector # rs, g, v))"
| "hand_out (AGG_INTEGER # cs) general vector =
     (case hand_out cs (Suc general) vector of (rs, g, v) \<Rightarrow> (general # rs, g, v))"

definition take_registers :: "agg_class list \<Rightarrow> nat \<Rightarrow> nat \<Rightarrow> nat \<Rightarrow> nat list \<Rightarrow> bool \<times> nat \<times> nat \<times> nat list" where
  "take_registers classes pieces general vector registers =
     (let need_vector = length (filter (\<lambda>c. c = AGG_SSE) (take pieces classes));
          need_general = length (filter (\<lambda>c. c \<noteq> AGG_SSE) (take pieces classes)) in
      if general + need_general > 6 \<or> vector + need_vector > 8 then (False, general, vector, registers)
      else case hand_out (take pieces classes) general vector of
        (rs, general, vector) \<Rightarrow> (True, general, vector, rs @ drop (length rs) registers))"

definition empty_slot :: arg_slot where
  "empty_slot = \<lparr>as_ok = True, as_in_register = False, as_memory = False, as_pieces = 0,
     as_classes = [AGG_INTEGER, AGG_INTEGER], as_registers = [0, 0], as_stack_offset = 0, as_size = 0\<rparr>"

text \<open>
  One argument: its slot, the registers used so far in each file and the size of the argument area;
  the last component tells that the function gives up.
\<close>

type_synonym assignment = "arg_slot \<times> nat \<times> nat \<times> nat \<times> bool"

definition stack_slot :: "arg_slot \<Rightarrow> nat \<Rightarrow> nat \<Rightarrow> nat \<Rightarrow> nat \<Rightarrow> assignment" where
  "stack_slot slot general vector stack bytes =
     (let stack = abi_round_up stack 8 in
      (slot\<lparr>as_stack_offset := stack, as_size := bytes\<rparr>, general, vector, size_wrap (stack + bytes), False))"

definition assign_wide :: "nat \<Rightarrow> nat \<Rightarrow> nat \<Rightarrow> assignment" where
  "assign_wide general vector stack =
     (case take_registers [AGG_INTEGER, AGG_INTEGER] 2 general vector [0, 0] of
        (True, g, v, rs) \<Rightarrow>
          (empty_slot\<lparr>as_pieces := 2, as_registers := rs, as_in_register := True\<rparr>, g, v, stack, False)
      | (False, g, v, rs) \<Rightarrow> stack_slot (empty_slot\<lparr>as_pieces := 2\<rparr>) general vector stack 16)"

definition assign_aggregate :: "nat \<Rightarrow> ctype list \<Rightarrow> nat \<Rightarrow> nat \<Rightarrow> nat \<Rightarrow> nat \<Rightarrow> assignment option" where
  "assign_aggregate fuel T t general vector stack =
     (case abi_aggregate_pieces fuel T (Some t) [AGG_INTEGER, AGG_INTEGER] False of
        None \<Rightarrow> None
      | Some (pieces, classes, memory) \<Rightarrow>
        let slot = empty_slot\<lparr>as_classes := classes, as_memory := memory\<rparr> in
        if pieces = 0 \<and> \<not> memory then Some (slot\<lparr>as_ok := False\<rparr>, general, vector, stack, False)
        else let bytes = abi_round_up (type_size T (Some t)) 8 in
          if bytes = SIZE_MAX then Some (slot\<lparr>as_size := bytes, as_ok := False\<rparr>, general, vector, stack, True)
          else let slot = slot\<lparr>as_size := bytes, as_pieces := pieces\<rparr> in
            if pieces \<noteq> 0 then
              (case take_registers classes pieces general vector [0, 0] of
                 (True, g, v, rs) \<Rightarrow> Some (slot\<lparr>as_registers := rs, as_in_register := True\<rparr>, g, v, stack, False)
               | (False, g, v, rs) \<Rightarrow> Some (stack_slot slot general vector stack bytes))
            else Some (stack_slot slot general vector stack bytes))"

definition assign_scalar :: "ctype list \<Rightarrow> nat \<Rightarrow> nat \<Rightarrow> nat \<Rightarrow> nat \<Rightarrow> assignment" where
  "assign_scalar T t general vector stack =
     (let slot = empty_slot\<lparr>as_size := 8\<rparr> in
      if ty_kind (T ! t) = TYPE_FLOAT \<or> ty_kind (T ! t) = TYPE_DOUBLE then
        (if vector < 8 then
           (slot\<lparr>as_in_register := True, as_classes := [AGG_SSE, AGG_INTEGER], as_pieces := 1, as_registers := [vector, 0]\<rparr>,
            general, Suc vector, stack, False)
         else stack_slot slot general vector stack 8)
      else if general < 6 then
        (slot\<lparr>as_in_register := True, as_pieces := 1, as_registers := [general, 0]\<rparr>, Suc general, vector, stack, False)
      else stack_slot slot general vector stack 8)"

definition assign_argument :: "nat \<Rightarrow> ctype list \<Rightarrow> nat option \<Rightarrow> nat \<Rightarrow> nat \<Rightarrow> nat \<Rightarrow> assignment option" where
  "assign_argument fuel T type general vector stack =
     (case type of None \<Rightarrow> Some (empty_slot\<lparr>as_ok := False\<rparr>, general, vector, stack, False)
      | Some t \<Rightarrow>
        if ty_kind (T ! t) = TYPE_UINT128 then Some (assign_wide general vector stack)
        else if ty_kind (T ! t) \<in> aggregate_kinds then assign_aggregate fuel T t general vector stack
        else Some (assign_scalar T t general vector stack))"

text \<open>The loop; slots after an argument that makes the function give up keep what they held.\<close>

fun assign_from :: "nat \<Rightarrow> ctype list \<Rightarrow> nat option list \<Rightarrow> arg_slot list \<Rightarrow> nat \<Rightarrow> nat \<Rightarrow> nat \<Rightarrow> (nat \<times> arg_slot list) option" where
  "assign_from fuel T (type # types) (old # slots) general vector stack =
     (case assign_argument fuel T type general vector stack of
        None \<Rightarrow> None
      | Some (slot, general, vector, stack, gives_up) \<Rightarrow>
          if gives_up then Some (0, slot # slots)
          else map_option (apsnd (Cons slot)) (assign_from fuel T types slots general vector stack))"
| "assign_from fuel T types slots general vector stack = Some (abi_round_up stack 8, slots)"

definition abi_assign_arguments :: "nat \<Rightarrow> ctype list \<Rightarrow> nat option list \<Rightarrow> bool \<Rightarrow> arg_slot list \<Rightarrow> (nat \<times> arg_slot list) option" where
  "abi_assign_arguments fuel T types returns_memory slots =
     assign_from fuel T types slots (if returns_memory then 1 else 0) 0 0"

end
