(* ===== verification/Abi_Ok.thy ===== *)
theory Abi_Ok
  imports Abi Types_Ok
begin

text \<open>
  Argument passing of \<open>src/src/backend/abi.c\<close>: no register is used twice, the argument area holds
  disjoint aligned slots, and the class of an eightbyte follows from the scalars in it.
\<close>

subsection \<open>Registers\<close>

text \<open>The registers of an argument, each with its file.\<close>

definition used :: "arg_slot \<Rightarrow> (agg_class \<times> nat) list" where
  "used slot = (if as_in_register slot then zip (take (as_pieces slot) (as_classes slot)) (take (as_pieces slot) (as_registers slot)) else [])"

text \<open>Registers of a file from one number up to another.\<close>

definition between :: "nat \<Rightarrow> nat \<Rightarrow> nat \<Rightarrow> nat \<Rightarrow> (agg_class \<times> nat) set" where
  "between g v g' v' = {(c, r). if c = AGG_SSE then v \<le> r \<and> r < v' else g \<le> r \<and> r < g'}"

lemma between_disjoint: "between g v g' v' \<inter> between g' v' g'' v'' = {}"
  by (auto simp: between_def)

lemma between_mono: "g0 \<le> g \<Longrightarrow> v0 \<le> v \<Longrightarrow> g' \<le> g1 \<Longrightarrow> v' \<le> v1 \<Longrightarrow> between g v g' v' \<subseteq> between g0 v0 g1 v1"
  by (auto simp: between_def)

lemma hand_out_ok:
  "hand_out cs g v = (rs, g', v') \<Longrightarrow> length rs = length cs \<and>
     g' = g + length (filter (\<lambda>c. c \<noteq> AGG_SSE) cs) \<and> v' = v + length (filter (\<lambda>c. c = AGG_SSE) cs) \<and>
     distinct (zip cs rs) \<and> set (zip cs rs) \<subseteq> between g v g' v'"
proof (induction cs g v arbitrary: rs g' v' rule: hand_out.induct)
  case (2 cs g v)
  obtain rs1 g1 v1 where r: "hand_out cs g (Suc v) = (rs1, g1, v1)" by (cases "hand_out cs g (Suc v)")
  have e: "rs = v # rs1" "g' = g1" "v' = v1" using 2(2) r by simp_all
  note ih = 2(1) [OF r]
  have "set (zip cs rs1) \<subseteq> between g (Suc v) g1 v1" using ih by blast
  moreover have "between g (Suc v) g1 v1 \<subseteq> between g v g1 v1 - {(AGG_SSE, v)}" by (auto simp: between_def)
  moreover have "(AGG_SSE, v) \<in> between g v g1 v1" using ih by (simp add: between_def)
  ultimately have "set (zip cs rs1) \<subseteq> between g v g1 v1" "(AGG_SSE, v) \<notin> set (zip cs rs1)" "(AGG_SSE, v) \<in> between g v g1 v1" by blast+
  then show ?case using ih unfolding e by simp
next
  case (3 cs g v)
  obtain rs1 g1 v1 where r: "hand_out cs (Suc g) v = (rs1, g1, v1)" by (cases "hand_out cs (Suc g) v")
  have e: "rs = g # rs1" "g' = g1" "v' = v1" using 3(2) r by simp_all
  note ih = 3(1) [OF r]
  have "set (zip cs rs1) \<subseteq> between (Suc g) v g1 v1" using ih by blast
  moreover have "between (Suc g) v g1 v1 \<subseteq> between g v g1 v1 - {(AGG_INTEGER, g)}" by (auto simp: between_def)
  moreover have "(AGG_INTEGER, g) \<in> between g v g1 v1" using ih by (simp add: between_def)
  ultimately have "set (zip cs rs1) \<subseteq> between g v g1 v1" "(AGG_INTEGER, g) \<notin> set (zip cs rs1)" "(AGG_INTEGER, g) \<in> between g v g1 v1" by blast+
  then show ?case using ih unfolding e by simp
qed simp

lemma take_registers_ok:
  assumes "take_registers cs n g v rs = (b, g', v', rs')" "g \<le> 6" "v \<le> 8" "n \<le> length cs" "n \<le> length rs"
  shows "g \<le> g' \<and> v \<le> v' \<and> g' \<le> 6 \<and> v' \<le> 8 \<and>
    (b \<longrightarrow> distinct (zip (take n cs) (take n rs')) \<and> set (zip (take n cs) (take n rs')) \<subseteq> between g v g' v' \<and> length rs' = length rs)"
proof -
  obtain r1 g1 v1 where h: "hand_out (take n cs) g v = (r1, g1, v1)" by (cases "hand_out (take n cs) g v")
  show ?thesis using hand_out_ok [OF h] assms h by (auto simp: take_registers_def Let_def min_def split: if_splits)
qed

subsection \<open>One argument\<close>

text \<open>Where an argument goes, in terms of the counters before and after it.\<close>

definition placed :: "arg_slot \<Rightarrow> nat \<Rightarrow> nat \<Rightarrow> nat \<Rightarrow> nat \<Rightarrow> nat \<Rightarrow> nat \<Rightarrow> bool" where
  "placed slot g v st g' v' st' \<longleftrightarrow>
     g \<le> g' \<and> v \<le> v' \<and> g' \<le> 6 \<and> v' \<le> 8 \<and> distinct (used slot) \<and> set (used slot) \<subseteq> between g v g' v' \<and>
     (if as_ok slot \<and> \<not> as_in_register slot
      then as_stack_offset slot = abi_round_up st 8 \<and> st' = size_wrap (abi_round_up st 8 + as_size slot)
      else st' = st)"

lemma stack_slot_placed:
  assumes "stack_slot slot g v st bytes = (slot', g', v', st', gu)" "g \<le> 6" "v \<le> 8" "\<not> as_in_register slot" "as_ok slot"
  shows "placed slot' g v st g' v' st' \<and> \<not> gu \<and> as_size slot' = bytes \<and> \<not> as_in_register slot'"
  using assms by (auto simp: stack_slot_def Let_def placed_def used_def)

lemma mark_piece_length: "length (fst (mark_piece T t o1 m)) = length (fst m) \<and> length (snd (mark_piece T t o1 m)) = length (snd m)"
  by (simp add: mark_piece_def Let_def)

lemma walk_elements_length:
  "(\<And>b1 m r. walk b1 m = Some r \<Longrightarrow> length (fst (snd r)) = length (fst m)) \<Longrightarrow>
     walk_elements walk n i off el m = Some r \<Longrightarrow> length (fst (snd r)) = length (fst m)"
  by (induction n arbitrary: i m) (fastforce split: option.splits prod.splits bool.splits)+

lemma walk_field_length:
  assumes "\<And>t b1 m r. walk t b1 m = Some r \<Longrightarrow> length (fst (snd r)) = length (fst m)" "walk_field walk T x base m = Some r"
  shows "length (fst (snd r)) = length (fst m)"
  using assms(2) assms(1) walk_elements_length [of "walk (the (ty_base (T ! the (mb_type x))))", OF assms(1)]
  by (auto simp: walk_field_def Let_def mark_piece_length split: option.splits if_splits)

lemma walk_fields_length:
  assumes "\<And>t b1 m r. walk t b1 m = Some r \<Longrightarrow> length (fst (snd r)) = length (fst m)"
  shows "walk_fields walk T ms base m = Some r \<Longrightarrow> length (fst (snd r)) = length (fst m)"
proof (induction ms arbitrary: m)
  case (Cons x ms)
  obtain b1 m1 where w: "walk_field walk T x base m = Some (b1, m1)" using Cons.prems by (cases "walk_field walk T x base m") auto
  have "length (fst m1) = length (fst m)" using walk_field_length [OF assms w] by simp
  then show ?case using Cons w by (cases b1) auto
qed auto

lemma walk_members_length: "walk_members fuel T t base m = Some r \<Longrightarrow> length (fst (snd r)) = length (fst m)"
proof (induction fuel arbitrary: t base m r)
  case (Suc fuel)
  show ?case using walk_fields_length [of "walk_members fuel T", OF Suc.IH] Suc.prems by simp
qed simp

lemma aggregate_pieces_ok:
  assumes "abi_aggregate_pieces fuel T type [AGG_INTEGER, AGG_INTEGER] False = Some (n, cs, mem)"
  shows "n \<le> 2 \<and> length cs = 2 \<and> (n \<noteq> 0 \<longrightarrow> type_size T type \<le> 8 * n)"
proof (cases "type")
  case (Some t)
  then show ?thesis using assms walk_members_length [of fuel T t 0 "([AGG_INTEGER, AGG_INTEGER], [False, False])"]
    by (auto simp: abi_aggregate_pieces_def Let_def split: if_splits option.splits bool.splits)
qed (use assms in \<open>auto simp: abi_aggregate_pieces_def\<close>)

lemma aggregate_placed:
  assumes "assign_aggregate fuel T t g v st = Some (slot, g', v', st', gu)" "g \<le> 6" "v \<le> 8"
  shows "placed slot g v st g' v' st' \<and> (gu \<longrightarrow> abi_round_up (type_size T (Some t)) 8 = SIZE_MAX) \<and>
    (as_ok slot \<and> \<not> as_in_register slot \<longrightarrow> as_size slot = abi_round_up (type_size T (Some t)) 8)"
proof -
  obtain n cs mem where P: "abi_aggregate_pieces fuel T (Some t) [AGG_INTEGER, AGG_INTEGER] False = Some (n, cs, mem)"
    using assms(1) by (cases "abi_aggregate_pieces fuel T (Some t) [AGG_INTEGER, AGG_INTEGER] False") (auto simp: assign_aggregate_def)
  note pieces = aggregate_pieces_ok [OF P]
  obtain b g1 v1 rs where R: "take_registers cs n g v [0, 0] = (b, g1, v1, rs)" by (cases "take_registers cs n g v [0, 0]")
  have regs: "g \<le> g1 \<and> v \<le> v1 \<and> g1 \<le> 6 \<and> v1 \<le> 8 \<and>
    (b \<longrightarrow> distinct (zip (take n cs) (take n rs)) \<and> set (zip (take n cs) (take n rs)) \<subseteq> between g v g1 v1 \<and> length rs = 2)"
    using take_registers_ok [OF R assms(2,3)] pieces by simp
  let ?bytes = "abi_round_up (type_size T (Some t)) 8"
  let ?slot = "empty_slot\<lparr>as_classes := cs, as_memory := mem\<rparr>"
  consider (bad) "n = 0" "\<not> mem" | (large) "n \<noteq> 0 \<or> mem" "?bytes = SIZE_MAX" | (reg) "n \<noteq> 0" "?bytes \<noteq> SIZE_MAX" b
    | (stack) "n \<noteq> 0 \<or> mem" "?bytes \<noteq> SIZE_MAX" "n = 0 \<or> \<not> b" by metis
  then show ?thesis
  proof cases
    case bad
    then have "(slot, g', v', st', gu) = (?slot\<lparr>as_ok := False\<rparr>, g, v, st, False)" using assms(1) P by (simp add: assign_aggregate_def)
    then show ?thesis using assms(2,3) by (simp add: placed_def used_def empty_slot_def)
  next
    case large
    then have "(slot, g', v', st', gu) = (?slot\<lparr>as_size := ?bytes, as_ok := False\<rparr>, g, v, st, True)"
      using assms(1) P by (auto simp: assign_aggregate_def Let_def)
    then show ?thesis using assms(2,3) large by (simp add: placed_def used_def empty_slot_def)
  next
    case reg
    then have "(slot, g', v', st', gu) = (?slot\<lparr>as_size := ?bytes, as_pieces := n, as_registers := rs, as_in_register := True\<rparr>, g1, v1, st, False)"
      using assms(1) P R by (simp add: assign_aggregate_def Let_def)
    then show ?thesis using regs reg by (simp add: placed_def used_def empty_slot_def)
  next
    case stack
    then have "stack_slot (?slot\<lparr>as_size := ?bytes, as_pieces := n\<rparr>) g v st ?bytes = (slot, g', v', st', gu)"
      using assms(1) P R by (auto simp: assign_aggregate_def Let_def split: if_splits)
    from stack_slot_placed [OF this assms(2,3)] show ?thesis by (simp add: empty_slot_def)
  qed
qed

lemma argument_placed:
  assumes "assign_argument fuel T type g v st = Some (slot, g', v', st', gu)" "g \<le> 6" "v \<le> 8"
  shows "placed slot g v st g' v' st' \<and> (gu \<longrightarrow> abi_round_up (type_size T type) 8 = SIZE_MAX) \<and>
    (as_ok slot \<and> \<not> as_in_register slot \<longrightarrow> as_size slot \<in> {8, 16, abi_round_up (type_size T type) 8})"
proof (cases "type")
  case None
  then have "(slot, g', v', st', gu) = (empty_slot\<lparr>as_ok := False\<rparr>, g, v, st, False)" using assms(1) by (simp add: assign_argument_def)
  then show ?thesis using assms(2,3) by (simp add: placed_def used_def empty_slot_def)
next
  case (Some t)
  consider (wide) "ty_kind (T ! t) = TYPE_UINT128" | (agg) "ty_kind (T ! t) \<noteq> TYPE_UINT128" "ty_kind (T ! t) \<in> aggregate_kinds"
    | (scalar) "ty_kind (T ! t) \<noteq> TYPE_UINT128" "ty_kind (T ! t) \<notin> aggregate_kinds" by blast
  then show ?thesis
  proof cases
    case wide
    obtain b g1 v1 rs where R: "take_registers [AGG_INTEGER, AGG_INTEGER] 2 g v [0, 0] = (b, g1, v1, rs)"
      by (cases "take_registers [AGG_INTEGER, AGG_INTEGER] 2 g v [0, 0]")
    have run: "assign_wide g v st = (slot, g', v', st', gu)" using assms(1) Some wide by (simp add: assign_argument_def)
    show ?thesis
    proof (cases b)
      case True
      then have "(slot, g', v', st', gu) = (empty_slot\<lparr>as_pieces := 2, as_registers := rs, as_in_register := True\<rparr>, g1, v1, st, False)"
        using run R by (simp add: assign_wide_def)
      moreover obtain x y where "rs = [x, y]" using take_registers_ok [OF R assms(2,3)] True by (auto simp: length_Suc_conv)
      ultimately show ?thesis using take_registers_ok [OF R assms(2,3)] True by (simp add: placed_def used_def empty_slot_def)
    next
      case False
      then have "stack_slot (empty_slot\<lparr>as_pieces := 2\<rparr>) g v st 16 = (slot, g', v', st', gu)" using run R by (simp add: assign_wide_def)
      from stack_slot_placed [OF this assms(2,3)] show ?thesis by (simp add: empty_slot_def)
    qed
  next
    case agg
    then have "assign_aggregate fuel T t g v st = Some (slot, g', v', st', gu)" using assms(1) Some by (auto simp: assign_argument_def)
    from aggregate_placed [OF this assms(2,3)] Some show ?thesis by blast
  next
    case scalar
    let ?slot = "empty_slot\<lparr>as_size := 8\<rparr>"
    have run: "assign_scalar T t g v st = (slot, g', v', st', gu)" using assms(1) Some scalar by (auto simp: assign_argument_def)
    consider (float) "ty_kind (T ! t) \<in> {TYPE_FLOAT, TYPE_DOUBLE}" "v < 8" | (general) "ty_kind (T ! t) \<notin> {TYPE_FLOAT, TYPE_DOUBLE}" "g < 6"
      | (stack) "if ty_kind (T ! t) \<in> {TYPE_FLOAT, TYPE_DOUBLE} then \<not> v < 8 else \<not> g < 6"
      by (cases "ty_kind (T ! t) \<in> {TYPE_FLOAT, TYPE_DOUBLE}"; cases "v < 8"; cases "g < 6") presburger+
    then show ?thesis
    proof cases
      case float
      then have "(slot, g', v', st', gu) = (?slot\<lparr>as_in_register := True, as_classes := [AGG_SSE, AGG_INTEGER], as_pieces := 1, as_registers := [v, 0]\<rparr>, g, Suc v, st, False)"
        using run by (auto simp: assign_scalar_def Let_def)
      then show ?thesis using assms(2) float by (simp add: placed_def used_def empty_slot_def between_def)
    next
      case general
      then have "(slot, g', v', st', gu) = (?slot\<lparr>as_in_register := True, as_pieces := 1, as_registers := [g, 0]\<rparr>, Suc g, v, st, False)"
        using run by (auto simp: assign_scalar_def Let_def)
      then show ?thesis using assms(3) general by (simp add: placed_def used_def empty_slot_def between_def)
    next
      case stack
      then have "stack_slot ?slot g v st 8 = (slot, g', v', st', gu)" using run by (auto simp: assign_scalar_def Let_def split: if_splits)
      from stack_slot_placed [OF this assms(2,3)] show ?thesis by (simp add: empty_slot_def)
    qed
  qed
qed

subsection \<open>The walk ends\<close>

text \<open>
  Structures contain other structures by value only down to some depth, which \<open>rank\<close> measures, as
  a complete type cannot contain itself.
\<close>

definition nested :: "ctype list \<Rightarrow> (nat \<Rightarrow> nat) \<Rightarrow> bool" where
  "nested T rank \<longleftrightarrow> (\<forall>t < length T. \<forall>m \<in> set (ty_members (T ! t)). \<forall>u. mb_type m = Some u \<longrightarrow> u < length T \<and>
     (ty_kind (T ! u) \<in> aggregate_kinds \<longrightarrow> rank u < rank t) \<and>
     (ty_kind (T ! u) = TYPE_ARRAY \<longrightarrow> (\<forall>b. ty_base (T ! u) = Some b \<longrightarrow> b < length T \<and> rank b < rank t)))"

lemma walk_elements_ends: "(\<And>b m. walk b m \<noteq> None) \<Longrightarrow> walk_elements walk n i off el m \<noteq> None"
  by (induction n arbitrary: i m) (fastforce split: option.splits bool.splits)+

lemma walk_fields_ends:
  assumes "nested T rank" "t < length T"
    and "\<And>u b m. u < length T \<Longrightarrow> rank u < rank t \<Longrightarrow> walk u b m \<noteq> None"
  shows "set ds \<subseteq> set (ty_members (T ! t)) \<Longrightarrow> walk_fields walk T ds base m \<noteq> None"
proof (induction ds arbitrary: m)
  case (Cons d ds)
  have "walk_field walk T d base m \<noteq> None"
  proof (cases "mb_type d")
    case (Some u)
    have n: "u < length T" "ty_kind (T ! u) \<in> aggregate_kinds \<Longrightarrow> rank u < rank t"
      "\<And>b. ty_kind (T ! u) = TYPE_ARRAY \<Longrightarrow> ty_base (T ! u) = Some b \<Longrightarrow> b < length T \<and> rank b < rank t"
      using assms(1,2) Cons.prems Some unfolding nested_def by (meson list.set_intros(1) subsetD)+
    have agg: "ty_kind (T ! u) \<in> aggregate_kinds \<Longrightarrow> walk u b m' \<noteq> None" for b m' using n assms(3) by blast
    have arr: "walk_elements (walk b) k i off el m' \<noteq> None" if "ty_kind (T ! u) = TYPE_ARRAY" "ty_base (T ! u) = Some b" for b k i off el m'
      using n(3) [OF that] assms(3) by (intro walk_elements_ends) blast
    show ?thesis
      using agg arr Some by (cases "ty_base (T ! u)") (auto simp: walk_field_def Let_def type_size_def)
  qed (simp add: walk_field_def Let_def)
  then show ?case using Cons.IH Cons.prems by (auto split: option.splits bool.splits)
qed simp

lemma walk_members_ends: "nested T rank \<Longrightarrow> t < length T \<Longrightarrow> rank t < fuel \<Longrightarrow> walk_members fuel T t base m \<noteq> None"
proof (induction fuel arbitrary: t base m)
  case (Suc fuel)
  have "walk_members fuel T u b m' \<noteq> None" if "u < length T" "rank u < rank t" for u b m'
    by (rule Suc.IH) (use Suc.prems that in auto)
  from walk_fields_ends [OF Suc.prems(1,2) this subset_refl] show ?case by simp
qed simp

lemma aggregate_pieces_ends:
  assumes "nested T rank" "\<And>t. type = Some t \<Longrightarrow> t < length T \<and> rank t < fuel"
  shows "abi_aggregate_pieces fuel T type cs memory \<noteq> None"
proof (cases "type")
  case (Some t)
  obtain b m where "walk_members fuel T t 0 (cs, [False, False]) = Some (b, m)"
    using walk_members_ends [OF assms(1), of t fuel 0 "(cs, [False, False])"] assms(2) [OF Some] by fastforce
  then show ?thesis using Some by (cases b) (auto simp: abi_aggregate_pieces_def Let_def)
qed (simp add: abi_aggregate_pieces_def)

lemma assign_argument_ends:
  assumes "nested T rank" "\<And>t. type = Some t \<Longrightarrow> t < length T \<and> rank t < fuel"
  shows "assign_argument fuel T type g v st \<noteq> None"
proof (cases "type")
  case (Some t)
  obtain n cs mem where P: "abi_aggregate_pieces fuel T (Some t) [AGG_INTEGER, AGG_INTEGER] False = Some (n, cs, mem)"
    using aggregate_pieces_ends [OF assms(1), of "Some t" fuel "[AGG_INTEGER, AGG_INTEGER]" False] assms(2) Some by fastforce
  obtain b g1 v1 rs where R: "take_registers cs n g v [0, 0] = (b, g1, v1, rs)" by (cases "take_registers cs n g v [0, 0]")
  have "assign_aggregate fuel T t g v st \<noteq> None" by (cases b) (auto simp: assign_aggregate_def P R stack_slot_def Let_def)
  then show ?thesis using Some by (simp add: assign_argument_def del: not_None_eq)
qed (simp add: assign_argument_def)

lemma assign_from_ends:
  assumes "nested T rank"
  shows "(\<And>t. Some t \<in> set types \<Longrightarrow> t < length T \<and> rank t < fuel) \<Longrightarrow> assign_from fuel T types slots g v st \<noteq> None"
proof (induction types arbitrary: slots g v st)
  case (Cons type types)
  have "assign_argument fuel T type g v st \<noteq> None" by (rule assign_argument_ends [OF assms]) (use Cons.prems in auto)
  moreover have "assign_from fuel T types slots' g' v' st' \<noteq> None" for slots' g' v' st' by (rule Cons.IH) (use Cons.prems in auto)
  ultimately show ?case by (cases slots) (auto split: prod.split)
qed (cases slots; simp)

subsection \<open>All arguments\<close>

text \<open>The slots in the argument area, and the largest size they can grow to.\<close>

definition on_stack :: "arg_slot list \<Rightarrow> (nat \<times> nat) list" where
  "on_stack slots = map (\<lambda>s. (as_stack_offset s, as_size s)) (filter (\<lambda>s. as_ok s \<and> \<not> as_in_register s) slots)"

lemma round_up_8: "n \<le> SIZE_MAX - 7 \<Longrightarrow> 8 dvd abi_round_up n 8 \<and> n \<le> abi_round_up n 8 \<and> abi_round_up n 8 \<le> n + 7"
proof -
  assume n: "n \<le> SIZE_MAX - 7"
  then have "abi_round_up n 8 = n + 7 - (n + 7) mod 8" by (simp add: abi_round_up_def Let_def)
  then have "abi_round_up n 8 = (n + 7) div 8 * 8" by (simp add: minus_mod_eq_div_mult)
  then show ?thesis by simp
qed

lemma round_up_aligned: "8 dvd n \<Longrightarrow> n \<le> SIZE_MAX - 7 \<Longrightarrow> abi_round_up n 8 = n"
  using round_up_8 [of n] by presburger

text \<open>Room for every argument, so that no size wraps around.\<close>

definition area_bound :: "ctype list \<Rightarrow> nat option list \<Rightarrow> nat" where
  "area_bound T types = sum_list (map (\<lambda>type. type_size T type + 16) types)"

lemma argument_step:
  assumes "assign_argument fuel T type g v st = Some (slot, g1, v1, st1, gu)" "g \<le> 6" "v \<le> 8" "8 dvd st"
    "st + type_size T type + 16 \<le> SIZE_MAX - 7"
  shows "\<not> gu \<and> 8 dvd st1 \<and> st \<le> st1 \<and> st1 \<le> st + type_size T type + 16 \<and>
    (\<forall>p \<in> set (on_stack [slot]). 8 dvd fst p \<and> st \<le> fst p \<and> fst p + snd p \<le> st1)"
proof -
  note placed = argument_placed [OF assms(1-3)]
  note size = round_up_8 [of "type_size T type"]
  have gu: "\<not> gu"
  proof
    assume gu
    then have "abi_round_up (type_size T type) 8 = SIZE_MAX" using placed by blast
    then show False using size assms(5) by (simp add: SIZE_MAX_def)
  qed
  have stay: "abi_round_up st 8 = st" by (rule round_up_aligned) (use assms(4,5) in simp_all)
  have bytes: "8 dvd as_size slot \<and> as_size slot \<le> type_size T type + 16" if "as_ok slot" "\<not> as_in_register slot"
    using placed that size assms(5) by auto
  have "st + as_size slot < 2 ^ 64" if "as_ok slot" "\<not> as_in_register slot"
    using bytes [OF that] assms(5) by (simp add: SIZE_MAX_def)
  then show ?thesis using placed gu stay bytes assms(4) by (auto simp: placed_def on_stack_def size_wrap_def)
qed

lemma on_stack_Cons: "on_stack (s # ss) = on_stack [s] @ on_stack ss"
  by (simp add: on_stack_def)

lemma assign_from_ok:
  "assign_from fuel T types slots0 g v st = Some (area, slots) \<Longrightarrow> length slots0 = length types \<Longrightarrow> g \<le> 6 \<Longrightarrow> v \<le> 8 \<Longrightarrow>
     8 dvd st \<Longrightarrow> st + area_bound T types \<le> SIZE_MAX - 7 \<Longrightarrow>
     distinct (concat (map used slots)) \<and> set (concat (map used slots)) \<subseteq> between g v 6 8 \<and>
     sorted_wrt (\<lambda>a b. fst a + snd a \<le> fst b) (on_stack slots) \<and>
     (\<forall>p \<in> set (on_stack slots). 8 dvd fst p \<and> st \<le> fst p \<and> fst p + snd p \<le> area) \<and> 8 dvd area \<and> st \<le> area \<and>
     length slots = length types"
proof (induction types arbitrary: slots0 g v st area slots)
  case Nil
  then show ?case using round_up_8 [of st] by (simp add: on_stack_def area_bound_def)
next
  case (Cons type types)
  obtain old slots1 where s0: "slots0 = old # slots1" "length slots1 = length types" using Cons.prems(2) by (cases slots0) auto
  obtain slot g1 v1 st1 gu where A: "assign_argument fuel T type g v st = Some (slot, g1, v1, st1, gu)"
    using Cons.prems(1) s0 by (cases "assign_argument fuel T type g v st") auto
  have room: "st + type_size T type + 16 + area_bound T types \<le> SIZE_MAX - 7" using Cons.prems(6) by (simp add: area_bound_def)
  then have "st + type_size T type + 16 \<le> SIZE_MAX - 7" by linarith
  note step = argument_step [OF A Cons.prems(3-5) this]
  note placed = argument_placed [OF A Cons.prems(3,4), THEN conjunct1, unfolded placed_def]
  obtain rest where rest: "assign_from fuel T types slots1 g1 v1 st1 = Some (area, rest)" "slots = slot # rest"
    using Cons.prems(1) s0 A step by auto
  have "st1 + area_bound T types \<le> SIZE_MAX - 7" using step room by linarith
  note ih = Cons.IH [OF rest(1) s0(2) _ _ _ this]
  have lim: "g1 \<le> 6" "v1 \<le> 8" "g \<le> g1" "v \<le> v1" "8 dvd st1" "st \<le> st1" using placed step by auto
  note ih = ih [OF lim(1,2,5)]
  have regs: "distinct (concat (map used slots))" "set (concat (map used slots)) \<subseteq> between g v 6 8"
    using ih placed between_disjoint [of g v g1 v1 6 8] between_mono [of g g v v g1 6 v1 8] between_mono [of g g1 v v1 6 6 8 8] lim
    unfolding rest(2) by (simp_all del: set_concat) blast+
  have srt: "sorted_wrt (\<lambda>a b. fst a + snd a \<le> fst b) (on_stack slots)"
    unfolding rest(2) on_stack_Cons [of slot rest] using ih step by (fastforce simp: sorted_wrt_append on_stack_def)
  have all: "\<forall>p \<in> set (on_stack slots). 8 dvd fst p \<and> st \<le> fst p \<and> fst p + snd p \<le> area"
    unfolding rest(2) on_stack_Cons [of slot rest] using ih step lim by fastforce
  show ?case using regs srt all ih lim rest(2) by simp
qed

text \<open>
  C6. Argument assignment returns and hands out no register twice: over all arguments of a call the
  registers named are pairwise different, general ones are below six and vector ones below eight,
  and the first general register is not used when it holds the address of the result. The arguments
  that go to the argument area lie there in order without overlapping, each at a multiple of eight,
  and the size the function returns covers all of them.
\<close>

theorem arguments_disjoint:
  assumes "nested T rank" "\<And>t. Some t \<in> set types \<Longrightarrow> t < length T \<and> rank t < fuel"
    and "length slots0 = length types" "area_bound T types \<le> SIZE_MAX - 7"
  shows "\<exists>area slots. abi_assign_arguments fuel T types returns_memory slots0 = Some (area, slots) \<and>
    distinct (concat (map used slots)) \<and>
    set (concat (map used slots)) \<subseteq> between (if returns_memory then 1 else 0) 0 6 8 \<and>
    sorted_wrt (\<lambda>a b. fst a + snd a \<le> fst b) (on_stack slots) \<and>
    (\<forall>p \<in> set (on_stack slots). 8 dvd fst p \<and> fst p + snd p \<le> area) \<and> 8 dvd area"
proof -
  obtain area slots where run: "assign_from fuel T types slots0 (if returns_memory then 1 else 0) 0 0 = Some (area, slots)"
    using assign_from_ends [OF assms(1,2)] by (metis option.exhaust surj_pair)
  show ?thesis using assign_from_ok [OF run assms(3)] assms(4) run unfolding abi_assign_arguments_def by simp
qed

text \<open>A call with a pointer for the result, three 128-bit integers and a structure of two doubles.\<close>

definition call_types :: "ctype list" where
  "call_types = [new_type TYPE_UINT128 16 16 0, new_type TYPE_DOUBLE 8 8 1,
     (new_type TYPE_STRUCT 16 8 2)\<lparr>ty_members := [\<lparr>mb_name = None, mb_type = Some 1, mb_offset = 0\<rparr>, \<lparr>mb_name = None, mb_type = Some 1, mb_offset = 8\<rparr>]\<rparr>]"

definition call_arguments :: "nat option list" where
  "call_arguments = [Some 0, Some 0, Some 0, Some 2]"

definition free_slots :: "arg_slot list" where
  "free_slots = [empty_slot, empty_slot, empty_slot, empty_slot]"

lemma call_kinds:
  "ty_kind (call_types ! 0) = TYPE_UINT128" "ty_kind (call_types ! Suc 0) = TYPE_DOUBLE" "ty_kind (call_types ! 2) = TYPE_STRUCT"
  "ty_members (call_types ! 2) = [\<lparr>mb_name = None, mb_type = Some (Suc 0), mb_offset = 0\<rparr>, \<lparr>mb_name = None, mb_type = Some (Suc 0), mb_offset = 8\<rparr>]"
  "type_size call_types (Some (Suc 0)) = 8" "type_size call_types (Some 2) = 16" "type_size call_types (Some 0) = 16"
  "ty_incomplete (call_types ! 2) = False"
  by (simp_all add: call_types_def new_type_def type_size_def)

lemma call_pieces: "abi_aggregate_pieces (Suc 0) call_types (Some 2) [AGG_INTEGER, AGG_INTEGER] False = Some (2, [AGG_SSE, AGG_SSE], False)"
  by (simp add: abi_aggregate_pieces_def call_kinds walk_field_def mark_piece_def is_vector_type_def size_wrap_def Let_def upt_rec)

lemma call_assigned:
  "\<exists>slots. abi_assign_arguments 1 call_types call_arguments True free_slots = Some (16, slots) \<and>
     map used slots = [[(AGG_INTEGER, 1), (AGG_INTEGER, 2)], [(AGG_INTEGER, 3), (AGG_INTEGER, 4)], [], [(AGG_SSE, 0), (AGG_SSE, 1)]] \<and>
     on_stack slots = [(0, 16)]"
  by (simp add: abi_assign_arguments_def call_arguments_def free_slots_def assign_argument_def call_kinds assign_wide_def
      assign_aggregate_def call_pieces take_registers_def stack_slot_def abi_round_up_def SIZE_MAX_def empty_slot_def Let_def
      used_def on_stack_def size_wrap_def)

lemma call_nested: "nested call_types (\<lambda>t. 0)"
  by (auto simp: nested_def call_types_def new_type_def less_Suc_eq)

theorem arguments_disjoint_witness:
  "\<exists>slots. abi_assign_arguments 1 call_types call_arguments True free_slots = Some (16, slots) \<and>
     distinct (concat (map used slots)) \<and> on_stack slots = [(0, 16)]"
proof -
  obtain slots where run: "abi_assign_arguments 1 call_types call_arguments True free_slots = Some (16, slots)"
    "on_stack slots = [(0, 16)]"
    using call_assigned by blast
  have "area_bound call_types call_arguments \<le> SIZE_MAX - 7"
    by (simp add: area_bound_def call_arguments_def call_kinds SIZE_MAX_def)
  moreover have "t < length call_types \<and> 0 < (1 :: nat)" if "Some t \<in> set call_arguments" for t
    using that by (auto simp: call_arguments_def call_types_def)
  ultimately show ?thesis
    using arguments_disjoint [OF call_nested, of call_arguments 1 free_slots True] run by (simp add: call_arguments_def free_slots_def)
qed

subsection \<open>Classification\<close>

text \<open>
  The scalars of an object at an offset: the object itself, those of its members, or those of the
  elements of an array.
\<close>

inductive leaf :: "ctype list \<Rightarrow> nat \<Rightarrow> nat \<Rightarrow> nat \<Rightarrow> nat \<Rightarrow> bool" for T where
  scalar: "ty_kind (T ! t) \<notin> aggregate_kinds \<union> {TYPE_ARRAY} \<Longrightarrow> ty_size (T ! t) \<noteq> 0 \<Longrightarrow> leaf T t offset offset t"
| member: "ty_kind (T ! t) \<in> aggregate_kinds \<Longrightarrow> m \<in> set (ty_members (T ! t)) \<Longrightarrow> mb_type m = Some u \<Longrightarrow>
    leaf T u (size_wrap (base + mb_offset m)) offset s \<Longrightarrow> leaf T t base offset s"
| element: "ty_kind (T ! t) = TYPE_ARRAY \<Longrightarrow> ty_base (T ! t) = Some b \<Longrightarrow> ty_size (T ! b) \<noteq> 0 \<Longrightarrow> i < ty_array_count (T ! t) \<Longrightarrow>
    leaf T b (size_wrap (base + i * ty_size (T ! b))) offset s \<Longrightarrow> leaf T t base offset s"

inductive_simps leaf_aggregate: "leaf T t base offset s"

definition leaves :: "ctype list \<Rightarrow> nat \<Rightarrow> nat \<Rightarrow> (nat \<times> nat) set" where
  "leaves T t base = {(offset, s). leaf T t base offset s}"

lemma in_leaves: "(offset, s) \<in> leaves T t base \<longleftrightarrow> leaf T t base offset s"
  by (simp add: leaves_def)

lemma leaves_scalar:
  "ty_kind (T ! t) \<notin> aggregate_kinds \<union> {TYPE_ARRAY} \<Longrightarrow> leaves T t base = (if ty_size (T ! t) = 0 then {} else {(base, t)})"
  by (auto simp: set_eq_iff in_leaves leaf_aggregate [of T t base])

lemma leaves_member:
  "ty_kind (T ! t) \<in> aggregate_kinds \<Longrightarrow>
     leaves T t base = (\<Union>m \<in> set (ty_members (T ! t)). case mb_type m of None \<Rightarrow> {} | Some u \<Rightarrow> leaves T u (size_wrap (base + mb_offset m)))"
  by (simp add: set_eq_iff in_leaves leaf_aggregate [of T t base]) (fastforce simp: in_leaves split: option.splits)

lemma leaves_element:
  "ty_kind (T ! t) = TYPE_ARRAY \<Longrightarrow> ty_base (T ! t) = Some b \<Longrightarrow>
     leaves T t base = (if ty_size (T ! b) = 0 then {} else \<Union>i < ty_array_count (T ! t). leaves T b (size_wrap (base + i * ty_size (T ! b))))"
  by (auto simp: set_eq_iff in_leaves leaf_aggregate [of T t base])

text \<open>A scalar that lies inside one eightbyte.\<close>

definition fits :: "ctype list \<Rightarrow> nat \<times> nat \<Rightarrow> bool" where
  "fits T p \<longleftrightarrow> size_wrap (fst p mod 8 + ty_size (T ! snd p)) \<le> 8"

text \<open>The effect of scalars on the marks, whatever their order.\<close>

definition hit :: "(nat \<times> nat) set \<Rightarrow> nat \<Rightarrow> bool" where
  "hit L i \<longleftrightarrow> (\<exists>p \<in> L. fst p div 8 = i)"

definition hard :: "ctype list \<Rightarrow> (nat \<times> nat) set \<Rightarrow> nat \<Rightarrow> bool" where
  "hard T L i \<longleftrightarrow> (\<exists>p \<in> L. fst p div 8 = i \<and> \<not> is_vector_type T (Some (snd p)))"

lemma hit_simps: "hit {} i = False" "hit (L \<union> M) i = (hit L i \<or> hit M i)" "hit {p} i = (fst p div 8 = i)"
  by (auto simp: hit_def)

lemma hard_simps: "hard T {} i = False" "hard T (L \<union> M) i = (hard T L i \<or> hard T M i)"
  "hard T {p} i = (fst p div 8 = i \<and> \<not> is_vector_type T (Some (snd p)))"
  by (auto simp: hard_def)

lemma hard_hit: "hard T L i \<Longrightarrow> hit L i"
  by (auto simp: hard_def hit_def)

definition marked :: "ctype list \<Rightarrow> marks \<Rightarrow> (nat \<times> nat) set \<Rightarrow> marks \<Rightarrow> bool" where
  "marked T m L m' \<longleftrightarrow> (\<forall>i < 2. snd m' ! i = (snd m ! i \<or> hit L i) \<and>
        fst m' ! i = (if hard T L i then AGG_INTEGER else if snd m ! i then fst m ! i else if hit L i then AGG_SSE else fst m ! i))"

lemma marked_empty: "marked T m {} m"
  by (simp add: marked_def hit_simps hard_simps)

lemma marked_trans: "marked T m L m1 \<Longrightarrow> marked T m1 M m2 \<Longrightarrow> marked T m (L \<union> M) m2"
  using hard_hit [of T L] hard_hit [of T M] by (simp add: marked_def hit_simps hard_simps)

lemma marked_piece:
  assumes "length (fst m) = 2" "length (snd m) = 2"
  shows "marked T m {(offset, t)} (mark_piece T t offset m)"
proof -
  have "mark_piece T t offset m = (let i = offset div 8 in if i \<ge> 2 then m
     else if \<not> is_vector_type T (Some t) then ((fst m)[i := AGG_INTEGER], (snd m)[i := True])
     else if \<not> snd m ! i then ((fst m)[i := AGG_SSE], (snd m)[i := True]) else m)"
    by (simp add: mark_piece_def Let_def)
  then show ?thesis using assms by (auto simp: marked_def hit_simps hard_simps Let_def nth_list_update)
qed

text \<open>What a walk over an object establishes.\<close>

definition walked :: "ctype list \<Rightarrow> marks \<Rightarrow> (nat \<times> nat) set \<Rightarrow> bool \<times> marks \<Rightarrow> bool" where
  "walked T m L r \<longleftrightarrow> length (fst (snd r)) = 2 \<and> length (snd (snd r)) = 2 \<and> fst r = (\<forall>p \<in> L. fits T p) \<and> (fst r \<longrightarrow> marked T m L (snd r))"

lemma walked_trans: "walked T m L (True, m1) \<Longrightarrow> walked T m1 M r \<Longrightarrow> walked T m (L \<union> M) r"
  using marked_trans [of T m L m1 M "snd r"] by (auto simp: walked_def)

lemma walked_fail: "walked T m L (False, m1) \<Longrightarrow> walked T m (L \<union> M) (False, m1)"
  by (auto simp: walked_def)

definition walks_to :: "ctype list \<Rightarrow> (nat \<Rightarrow> marks \<Rightarrow> (bool \<times> marks) option) \<Rightarrow> (nat \<Rightarrow> (nat \<times> nat) set) \<Rightarrow> bool" where
  "walks_to T walk L \<longleftrightarrow> (\<forall>b m r. walk b m = Some r \<longrightarrow> length (fst m) = 2 \<longrightarrow> length (snd m) = 2 \<longrightarrow> walked T m (L b) r)"

lemma walks_toD: "walks_to T walk L \<Longrightarrow> walk b m = Some r \<Longrightarrow> length (fst m) = 2 \<Longrightarrow> length (snd m) = 2 \<Longrightarrow> walked T m (L b) r"
  unfolding walks_to_def by blast

lemma walk_elements_walked:
  assumes "walks_to T walk L"
  shows "walk_elements walk n i off el m = Some r \<Longrightarrow> length (fst m) = 2 \<Longrightarrow> length (snd m) = 2 \<Longrightarrow>
     walked T m (\<Union>j \<in> {i..<i + n}. L (size_wrap (off + j * el))) r"
proof (induction n arbitrary: i m)
  case 0
  then show ?case by (auto simp: walked_def marked_empty)
next
  case (Suc n)
  obtain b1 m1 where w: "walk (size_wrap (off + i * el)) m = Some (b1, m1)" using Suc.prems(1) by (cases "walk (size_wrap (off + i * el)) m") auto
  note W = walks_toD [OF assms w Suc.prems(2,3)]
  have split: "(\<Union>j \<in> {i..<i + Suc n}. L (size_wrap (off + j * el))) =
      L (size_wrap (off + i * el)) \<union> (\<Union>j \<in> {Suc i..<Suc i + n}. L (size_wrap (off + j * el)))"
  proof -
    have "{i..<i + Suc n} = insert i {Suc i..<Suc i + n}" by auto
    then show ?thesis by simp
  qed
  show ?case
  proof (cases b1)
    case True
    then have "walk_elements walk n (Suc i) off el m1 = Some r" using Suc.prems(1) w by simp
    then have "walked T m1 (\<Union>j \<in> {Suc i..<Suc i + n}. L (size_wrap (off + j * el))) r"
      using W by (intro Suc.IH) (simp_all add: walked_def)
    moreover have "walked T m (L (size_wrap (off + i * el))) (True, m1)" using W True by simp
    ultimately show ?thesis unfolding split by (rule walked_trans [rotated])
  next
    case False
    then have r: "r = (False, m1)" using Suc.prems(1) w by simp
    show ?thesis unfolding split r by (rule walked_fail) (use W False in simp)
  qed
qed

text \<open>Members have types, arrays have elements, and the elements are structures.\<close>

definition members_typed :: "ctype list \<Rightarrow> bool" where
  "members_typed T \<longleftrightarrow> (\<forall>x \<in> set T. \<forall>m \<in> set (ty_members x). \<exists>u < length T. mb_type m = Some u \<and>
     (ty_kind (T ! u) = TYPE_ARRAY \<longrightarrow> (\<exists>b < length T. ty_base (T ! u) = Some b \<and> ty_kind (T ! b) \<in> aggregate_kinds)))"

lemma walk_field_walked:
  assumes "\<forall>t < length T. ty_kind (T ! t) \<in> aggregate_kinds \<longrightarrow> walks_to T (walk t) (leaves T t)"
    and "members_typed T" "x \<in> set T" "d \<in> set (ty_members x)" "walk_field walk T d base m = Some r" "length (fst m) = 2" "length (snd m) = 2"
  shows "walked T m (leaves T (the (mb_type d)) (size_wrap (base + mb_offset d))) r"
proof -
  obtain u where u: "mb_type d = Some u" "u < length T"
    "ty_kind (T ! u) = TYPE_ARRAY \<Longrightarrow> \<exists>b < length T. ty_base (T ! u) = Some b \<and> ty_kind (T ! b) \<in> aggregate_kinds"
    using assms(2-4) unfolding members_typed_def by blast
  let ?off = "size_wrap (base + mb_offset d)"
  consider (agg) "ty_kind (T ! u) \<in> aggregate_kinds" | (arr) "ty_kind (T ! u) = TYPE_ARRAY" "ty_kind (T ! u) \<notin> aggregate_kinds"
    | (scalar) "ty_kind (T ! u) \<notin> aggregate_kinds \<union> {TYPE_ARRAY}" by blast
  then show ?thesis
  proof cases
    case agg
    then have "walk u ?off m = Some r" using assms(5) u(1) by (auto simp: walk_field_def Let_def)
    moreover have "walks_to T (walk u) (leaves T u)" using assms(1) u(2) agg by blast
    ultimately show ?thesis using walks_toD [of T "walk u" "leaves T u"] assms(6,7) u(1) by simp
  next
    case arr
    obtain b where b: "b < length T" "ty_base (T ! u) = Some b" "ty_kind (T ! b) \<in> aggregate_kinds" using u(3) [OF arr(1)] by blast
    note L = leaves_element [OF arr(1) b(2), of ?off]
    show ?thesis
    proof (cases "ty_size (T ! b) = 0")
      case True
      then have "r = (True, m)" using assms(5) u(1) arr b by (simp add: walk_field_def Let_def type_size_def)
      then show ?thesis using True assms(6,7) u(1) L by (simp add: walked_def marked_empty)
    next
      case False
      then have "walk_elements (walk b) (ty_array_count (T ! u)) 0 ?off (ty_size (T ! b)) m = Some r"
        using assms(5) u(1) arr b by (simp add: walk_field_def Let_def type_size_def)
      moreover have "walks_to T (walk b) (leaves T b)" using assms(1) b(1,3) by blast
      ultimately have "walked T m (\<Union>j \<in> {0..<0 + ty_array_count (T ! u)}. leaves T b (size_wrap (?off + j * ty_size (T ! b)))) r"
        using walk_elements_walked assms(6,7) by blast
      then show ?thesis using False u(1) L by (simp add: atLeast0LessThan)
    qed
  next
    case scalar
    have "walk_field walk T d base m =
        Some (if ty_size (T ! u) = 0 then (True, m) else if fits T (?off, u) then (True, mark_piece T u ?off m) else (False, m))"
      using scalar unfolding walk_field_def u(1) option.case Let_def type_size_def fits_def fst_conv snd_conv
      by (simp add: not_le)
    then have "r = (if ty_size (T ! u) = 0 then (True, m) else if fits T (?off, u) then (True, mark_piece T u ?off m) else (False, m))"
      using assms(5) by simp
    then show ?thesis using marked_piece [OF assms(6,7), of T ?off u] mark_piece_length [of T u ?off m] assms(6,7) u(1) leaves_scalar [OF scalar, of ?off]
      by (simp add: walked_def marked_empty)
  qed
qed

lemma walk_fields_walked:
  assumes "\<forall>t < length T. ty_kind (T ! t) \<in> aggregate_kinds \<longrightarrow> walks_to T (walk t) (leaves T t)"
    and "members_typed T" "x \<in> set T"
  shows "set ds \<subseteq> set (ty_members x) \<Longrightarrow> walk_fields walk T ds base m = Some r \<Longrightarrow> length (fst m) = 2 \<Longrightarrow> length (snd m) = 2 \<Longrightarrow>
    walked T m (\<Union>d \<in> set ds. leaves T (the (mb_type d)) (size_wrap (base + mb_offset d))) r"
proof (induction ds arbitrary: m)
  case Nil
  then show ?case by (auto simp: walked_def marked_empty)
next
  case (Cons d ds)
  obtain b1 m1 where w: "walk_field walk T d base m = Some (b1, m1)" using Cons.prems(2) by (cases "walk_field walk T d base m") auto
  have "d \<in> set (ty_members x)" using Cons.prems(1) by simp
  note W = walk_field_walked [OF assms this w Cons.prems(3,4)]
  have lens: "length (fst m1) = 2" "length (snd m1) = 2" using W by (simp_all add: walked_def)
  have U: "(\<Union>e \<in> set (d # ds). leaves T (the (mb_type e)) (size_wrap (base + mb_offset e))) =
      leaves T (the (mb_type d)) (size_wrap (base + mb_offset d)) \<union> (\<Union>e \<in> set ds. leaves T (the (mb_type e)) (size_wrap (base + mb_offset e)))"
    by simp
  show ?case
  proof (cases b1)
    case True
    then have "walk_fields walk T ds base m1 = Some r" using Cons.prems(2) w by simp
    then have "walked T m1 (\<Union>d \<in> set ds. leaves T (the (mb_type d)) (size_wrap (base + mb_offset d))) r"
      by (rule Cons.IH [OF _ _ lens, rotated]) (use Cons.prems(1) in simp)
    moreover have "walked T m (leaves T (the (mb_type d)) (size_wrap (base + mb_offset d))) (True, m1)" using W True by simp
    ultimately show ?thesis unfolding U by (rule walked_trans [rotated])
  next
    case False
    then have r: "r = (False, m1)" using Cons.prems(2) w by simp
    show ?thesis unfolding U r by (rule walked_fail) (use W False in simp)
  qed
qed

lemma walk_members_walked:
  assumes "members_typed T"
  shows "t < length T \<Longrightarrow> ty_kind (T ! t) \<in> aggregate_kinds \<Longrightarrow> walks_to T (walk_members fuel T t) (leaves T t)"
proof (induction fuel arbitrary: t)
  case 0
  then show ?case by (simp add: walks_to_def)
next
  case (Suc fuel)
  have x: "T ! t \<in> set T" using Suc.prems(1) by simp
  have "mb_type d \<noteq> None" if "d \<in> set (ty_members (T ! t))" for d
    using assms x that unfolding members_typed_def by blast
  then have L: "leaves T t base = (\<Union>d \<in> set (ty_members (T ! t)). leaves T (the (mb_type d)) (size_wrap (base + mb_offset d)))" for base
    unfolding leaves_member [OF Suc.prems(2)] by (intro SUP_cong refl) (force split: option.split)
  have "\<forall>u < length T. ty_kind (T ! u) \<in> aggregate_kinds \<longrightarrow> walks_to T (walk_members fuel T u) (leaves T u)" using Suc.IH by blast
  note W = walk_fields_walked [OF this assms x subset_refl]
  show ?case unfolding walks_to_def L walk_members.simps(2) using W by blast
qed

text \<open>
  Classification of a structure or union of at most sixteen bytes whose arrays hold structures:
  it travels in registers exactly when every scalar in it lies inside one eightbyte, and then an
  eightbyte is of the vector class exactly when it holds a scalar and only floating ones.
\<close>

lemma aggregate_classes:
  assumes "members_typed T" "t < length T" "ty_kind (T ! t) \<in> aggregate_kinds" "\<not> ty_incomplete (T ! t)"
    and "0 < ty_size (T ! t)" "ty_size (T ! t) \<le> 16"
    and "abi_aggregate_pieces fuel T (Some t) [AGG_INTEGER, AGG_INTEGER] False = Some (n, classes, memory)"
  shows "memory = (\<exists>p \<in> leaves T t 0. \<not> fits T p) \<and> n = (if memory then 0 else (ty_size (T ! t) + 7) div 8) \<and>
    (\<forall>i < n. classes ! i = (if (\<exists>p \<in> leaves T t 0. fst p div 8 = i) \<and>
        (\<forall>p \<in> leaves T t 0. fst p div 8 = i \<longrightarrow> is_vector_type T (Some (snd p))) then AGG_SSE else AGG_INTEGER))"
proof -
  let ?m = "([AGG_INTEGER, AGG_INTEGER], [False, False])"
  obtain b m where w: "walk_members fuel T t 0 ?m = Some (b, m)"
    using assms(3-7) by (cases "walk_members fuel T t 0 ?m") (auto simp: abi_aggregate_pieces_def type_size_def Let_def)
  have W: "walked T ?m (leaves T t 0) (b, m)" using walks_toD [OF walk_members_walked [OF assms(1-3)] w] by simp
  show ?thesis
  proof (cases b)
    case False
    then have "n = 0 \<and> memory" using assms(3-7) w by (auto simp: abi_aggregate_pieces_def type_size_def Let_def)
    then show ?thesis using W False by (simp add: walked_def)
  next
    case True
    let ?n = "(ty_size (T ! t) + 7) div 8"
    have r: "n = ?n" "\<not> memory" "classes = map (\<lambda>p. if p < ?n \<and> \<not> snd m ! p then AGG_INTEGER else fst m ! p) [0..<length (fst m)]"
      using True assms(3-7) w by (auto simp: abi_aggregate_pieces_def type_size_def Let_def)
    have m: "marked T ?m (leaves T t 0) m" "length (fst m) = 2" "\<forall>p \<in> leaves T t 0. fits T p" using W True by (simp_all add: walked_def)
    have two: "?n \<le> 2" using assms(6) by simp
    have "classes ! i = (if hit (leaves T t 0) i \<and> \<not> hard T (leaves T t 0) i then AGG_SSE else AGG_INTEGER)" if "i < n" for i
    proof -
      have i: "i < 2" "i < ?n" using that r(1) two by simp_all
      have ini: "snd ?m ! i = False" "fst ?m ! i = AGG_INTEGER" using i(1) by (auto simp: less_2_cases_iff)
      have "snd m ! i = hit (leaves T t 0) i" "fst m ! i = (if hard T (leaves T t 0) i then AGG_INTEGER else if hit (leaves T t 0) i then AGG_SSE else AGG_INTEGER)"
        using m(1) i(1) ini unfolding marked_def by auto
      then show ?thesis using i m(2) unfolding r(3) by simp
    qed
    then show ?thesis using r m(3) unfolding hit_def hard_def by auto
  qed
qed

text \<open>
  C16. Classification of a complete structure or union of one to sixteen bytes, in a store where every
  member has a type and a member that is an array has structures or unions as elements (the code gives
  an array of scalars no class, so \<open>struct { double d[1]; }\<close> is left out here): it ends, the object
  travels in registers exactly when every scalar in it lies inside one
  eightbyte, and then an eightbyte is of the vector class exactly when it holds a scalar and only
  floating ones.
\<close>

theorem aggregate_classified:
  assumes "nested T rank" "rank t < fuel" "members_typed T" "t < length T" "ty_kind (T ! t) \<in> aggregate_kinds" "\<not> ty_incomplete (T ! t)"
    and "0 < ty_size (T ! t)" "ty_size (T ! t) \<le> 16"
  shows "\<exists>n classes memory. abi_aggregate_pieces fuel T (Some t) [AGG_INTEGER, AGG_INTEGER] False = Some (n, classes, memory) \<and>
    memory = (\<exists>p \<in> leaves T t 0. \<not> fits T p) \<and> n = (if memory then 0 else (ty_size (T ! t) + 7) div 8) \<and>
    (\<forall>i < n. classes ! i = (if (\<exists>p \<in> leaves T t 0. fst p div 8 = i) \<and>
        (\<forall>p \<in> leaves T t 0. fst p div 8 = i \<longrightarrow> is_vector_type T (Some (snd p))) then AGG_SSE else AGG_INTEGER))"
proof -
  obtain n classes memory where run: "abi_aggregate_pieces fuel T (Some t) [AGG_INTEGER, AGG_INTEGER] False = Some (n, classes, memory)"
    using aggregate_pieces_ends [OF assms(1), of "Some t" fuel "[AGG_INTEGER, AGG_INTEGER]" False] assms(2,4) by fastforce
  from aggregate_classes [OF assms(3-8) run] run show ?thesis by blast
qed

theorem aggregate_classified_witness:
  "\<exists>classes. abi_aggregate_pieces 1 call_types (Some 2) [AGG_INTEGER, AGG_INTEGER] False = Some (2, classes, False) \<and>
     leaves call_types 2 0 \<subseteq> {p. fits call_types p}"
proof -
  have typed: "members_typed call_types" by (auto simp: members_typed_def call_types_def new_type_def)
  have call: "2 < length call_types" "ty_kind (call_types ! 2) \<in> aggregate_kinds" "\<not> ty_incomplete (call_types ! 2)"
    "0 < ty_size (call_types ! 2)" "ty_size (call_types ! 2) \<le> 16"
    by (simp_all add: call_types_def new_type_def)
  from aggregate_classified [OF call_nested zero_less_one typed call]
  obtain n cs mem where A: "abi_aggregate_pieces 1 call_types (Some 2) [AGG_INTEGER, AGG_INTEGER] False = Some (n, cs, mem)"
    "mem = (\<exists>p \<in> leaves call_types 2 0. \<not> fits call_types p)" by blast
  have "abi_aggregate_pieces 1 call_types (Some 2) [AGG_INTEGER, AGG_INTEGER] False = Some (2, [AGG_SSE, AGG_SSE], False)"
    using call_pieces by simp
  then show ?thesis using A by auto
qed

text \<open>
  An array of doubles in a structure is not seen by the classification: a structure holding one
  double travels in a vector register, and a structure holding an array of one double, which has
  the same scalars, in a general one.
\<close>

lemma scalar_arrays_missed:
  "abi_aggregate_pieces (Suc (Suc 0)) [new_type TYPE_DOUBLE 8 8 0,
       (new_type TYPE_STRUCT 8 8 1)\<lparr>ty_members := [\<lparr>mb_name = None, mb_type = Some 0, mb_offset = 0\<rparr>]\<rparr>] (Some 1) [AGG_INTEGER, AGG_INTEGER] False =
     Some (1, [AGG_SSE, AGG_INTEGER], False) \<and>
   abi_aggregate_pieces (Suc (Suc 0)) [new_type TYPE_DOUBLE 8 8 0, (new_type TYPE_ARRAY 8 8 1)\<lparr>ty_base := Some 0, ty_array_count := 1\<rparr>,
       (new_type TYPE_STRUCT 8 8 2)\<lparr>ty_members := [\<lparr>mb_name = None, mb_type = Some 1, mb_offset = 0\<rparr>]\<rparr>] (Some 2) [AGG_INTEGER, AGG_INTEGER] False =
     Some (1, [AGG_INTEGER, AGG_INTEGER], False)"
  by (simp add: abi_aggregate_pieces_def walk_field_def mark_piece_def is_vector_type_def size_wrap_def new_type_def type_size_def Let_def upt_rec)

end
