(* ===== verification/Ir.thy ===== *)
theory Ir
  imports Types Sources
begin

text \<open>
  The intermediate code (\<open>src/src/ir/ir.h\<close>) and the parts of the front end that the encoder reads: symbols and
  the nodes of initializers (\<open>src/src/semantic/semantic.h\<close>). A \<open>Symbol *\<close> is a number, and the symbols are a
  function of it; a pointer to a node or an instruction with a \<open>next\<close> field is the list from it on, so the null
  pointer is the empty list. Fields that no modelled code reads are left out.
\<close>

subsection \<open>Instructions\<close>

datatype ir_op =
  IR_CONST | IR_FLOAT_CONST | IR_LOAD | IR_STORE | IR_ADDR | IR_ADD | IR_SUB | IR_MUL | IR_DIV | IR_MOD
  | IR_SHL | IR_SHR | IR_BIT_AND | IR_BIT_OR | IR_BIT_XOR | IR_CAST | IR_MEMBER | IR_AGGREGATE
  | IR_WIDE_ADD | IR_WIDE_SUB | IR_WIDE_MUL | IR_WIDE_AND | IR_WIDE_OR | IR_WIDE_XOR | IR_WIDE_SHL | IR_WIDE_SHR
  | IR_NEG | IR_BIT_NOT | IR_LOGICAL_NOT | IR_COMPARE | IR_LOGICAL_AND | IR_LOGICAL_OR | IR_INCREMENT | IR_ZERO
  | IR_COPY | IR_COMPOUND | IR_CONDITIONAL | IR_SWITCH | IR_COMMA | IR_CALL | IR_JUMP | IR_BRANCH | IR_LABEL
  | IR_RETURN | IR_VA_START

text \<open>\<open>CompareOperator\<close>, which an instruction holds as a 32-bit number.\<close>

abbreviation (input) COMPARE_EQUAL :: u32 where "COMPARE_EQUAL \<equiv> 0"
abbreviation (input) COMPARE_NOT_EQUAL :: u32 where "COMPARE_NOT_EQUAL \<equiv> 1"
abbreviation (input) COMPARE_LESS :: u32 where "COMPARE_LESS \<equiv> 2"
abbreviation (input) COMPARE_LESS_EQUAL :: u32 where "COMPARE_LESS_EQUAL \<equiv> 3"
abbreviation (input) COMPARE_GREATER :: u32 where "COMPARE_GREATER \<equiv> 4"
abbreviation (input) COMPARE_GREATER_EQUAL :: u32 where "COMPARE_GREATER_EQUAL \<equiv> 5"

abbreviation (input) IR_FLAG_SIGNED :: u32 where "IR_FLAG_SIGNED \<equiv> 1"
abbreviation (input) IR_FLAG_POST :: u32 where "IR_FLAG_POST \<equiv> 2"
abbreviation (input) IR_FLAG_WIDE_VALUE :: u32 where "IR_FLAG_WIDE_VALUE \<equiv> 4"

abbreviation (input) CC64_VARIADIC_SLOTS :: nat where "CC64_VARIADIC_SLOTS \<equiv> 8"

record source_location =
  lc_source :: "source option"
  lc_line :: u32
  lc_column :: u32

record ir_case =
  ic_value :: u64
  ic_label :: u32

text \<open>
  The scalar fields of an instruction; \<open>nd_bits\<close> is the union of the immediate and the floating value, a
  binary64 encoding.
\<close>

record ir_node =
  nd_op :: ir_op
  nd_type :: "nat option"
  nd_width :: u32
  nd_compare :: u32
  nd_binary :: u32
  nd_flags :: u32
  nd_id :: u32
  nd_true_label :: u32
  nd_false_label :: u32
  nd_end_label :: u32
  nd_default_label :: u32
  nd_symbol :: "nat option"
  nd_offset :: int
  nd_bits :: u64
  nd_cases :: "ir_case list"
  nd_location :: source_location

datatype ir_inst =
  IrInst (in_node: ir_node) (in_a: "ir_inst option") (in_b: "ir_inst option") (in_c: "ir_inst option")
    (in_args: "ir_inst list")

abbreviation "in_op i \<equiv> nd_op (in_node i)"
abbreviation "in_type i \<equiv> nd_type (in_node i)"
abbreviation "in_symbol i \<equiv> nd_symbol (in_node i)"
abbreviation "in_offset i \<equiv> nd_offset (in_node i)"
abbreviation "in_bits i \<equiv> nd_bits (in_node i)"
abbreviation "in_signed i \<equiv> nd_flags (in_node i) AND IR_FLAG_SIGNED \<noteq> 0"
abbreviation "in_post i \<equiv> nd_flags (in_node i) AND IR_FLAG_POST \<noteq> 0"

text \<open>The instructions an instruction points at.\<close>

definition operands :: "ir_inst \<Rightarrow> ir_inst set" where
  "operands i = set_option (in_a i) \<union> set_option (in_b i) \<union> set_option (in_c i) \<union> set (in_args i)"

lemma operands_size: "x \<in> operands i \<Longrightarrow> size x < size i"
proof (cases i)
  case (IrInst nd a b c args)
  moreover have "x \<in> set args \<Longrightarrow> size x \<le> size_list size args" by (simp add: size_list_estimation')
  moreover assume "x \<in> operands i"
  ultimately show ?thesis by (auto simp: operands_def)
qed

record ir_function =
  fn_symbol :: "nat option"
  fn_body :: "ir_inst list"
  fn_frame_size :: nat
  fn_va_area_offset :: int
  fn_return_pointer_offset :: int

record ir_program =
  pr_global_symbols :: "nat option list"

subsection \<open>Syntax nodes and symbols\<close>

datatype node_kind =
  NODE_INTEGER | NODE_FLOAT | NODE_STRING | NODE_IDENTIFIER | NODE_CALL | NODE_UNARY | NODE_BINARY
  | NODE_ASSIGNMENT | NODE_CONDITIONAL | NODE_COMMA | NODE_CAST | NODE_SIZEOF | NODE_ADDRESS | NODE_DEREFERENCE
  | NODE_INDEX | NODE_MEMBER | NODE_INITIALIZER | NODE_COMPOUND_LITERAL | NODE_COMPOUND
  | NODE_EXPRESSION_STATEMENT | NODE_IF | NODE_WHILE | NODE_DO | NODE_FOR | NODE_SWITCH | NODE_CASE
  | NODE_DEFAULT | NODE_BREAK | NODE_CONTINUE | NODE_RETURN | NODE_GOTO | NODE_LABEL | NODE_NULL_STATEMENT
  | NODE_DECLARATION | NODE_FUNCTION_DEFINITION

datatype unary_operator =
  UNARY_PLUS | UNARY_MINUS | UNARY_LOGICAL_NOT | UNARY_BITWISE_NOT | UNARY_PRE_INCREMENT | UNARY_PRE_DECREMENT
  | UNARY_POST_INCREMENT | UNARY_POST_DECREMENT

datatype binary_operator =
  BINARY_ADD | BINARY_SUBTRACT | BINARY_MULTIPLY | BINARY_DIVIDE | BINARY_REMAINDER | BINARY_LEFT_SHIFT
  | BINARY_RIGHT_SHIFT | BINARY_LESS | BINARY_LESS_EQUAL | BINARY_GREATER | BINARY_GREATER_EQUAL | BINARY_EQUAL
  | BINARY_NOT_EQUAL | BINARY_BITWISE_AND | BINARY_BITWISE_XOR | BINARY_BITWISE_OR | BINARY_LOGICAL_AND
  | BINARY_LOGICAL_OR

record ast_fields =
  an_kind :: node_kind
  an_symbol :: "nat option"
  an_literal_symbol :: "nat option"
  an_unary :: unary_operator
  an_binary :: binary_operator
  an_unsigned_integer :: u64
  an_floating :: u64
  an_text :: "byte list"

datatype ast_node = AstNode (as_fields: ast_fields) (as_a: "ast_node list") (as_b: "ast_node list")

record ir_symbol = sym +
  sy_has_frame_offset :: bool
  sy_initializer :: "ast_node list"

text \<open>What encoding a unit only reads: the types and the symbols.\<close>

record unit_env =
  ue_types :: "ctype list"
  ue_symbols :: "nat \<Rightarrow> ir_symbol"

definition symbol_reference :: "ir_symbol \<Rightarrow> symbol_ref" where
  "symbol_reference s =
     \<lparr>sr_address = sy_address s, sr_name = sy_name s, sr_linkage = sy_linkage s, sr_class = sy_class s\<rparr>"

end
