(* ===== verification/Enc_Emit.thy ===== *)
theory Enc_Emit
  imports Ir Abi
begin

text \<open>
  The machine-code layer of the encoder (\<open>src/src/backend/encoder.c\<close>): the code buffer, prefixes and operand
  forms, one function for each instruction form, labels and their fixups, and references to symbols. The state is
  the record \<open>encoder\<close>; a C function that changes it is a function of it, and a run of statements is the list
  of them under \<open>steps\<close>. The pair of a buffer and its size is a list, and memory for it is always found. The
  sections \<open>.text\<close>, \<open>.data\<close> and \<open>.bss\<close> are the first three of the builder. Register numbers are words, as in C.
\<close>

subsection \<open>State\<close>

record label_slot =
  lb_id :: nat
  lb_offset :: nat
  lb_defined :: bool

record label_fixup =
  fx_field :: nat
  fx_label :: nat

record encoder =
  en_diagnostics :: diagnostic_sink
  en_builder :: object_builder
  en_code :: "byte list"
  en_function_offset :: nat
  en_function :: "ir_function option"
  en_main_symbol :: "nat option"
  en_stack_depth :: nat
  en_labels :: "label_slot list"
  en_fixups :: "label_fixup list"
  en_failed :: bool

type_synonym emitter = "encoder \<Rightarrow> encoder"

abbreviation (input) TEXT :: nat where "TEXT \<equiv> 0"
abbreviation (input) DATA :: nat where "DATA \<equiv> 1"
abbreviation (input) BSS :: nat where "BSS \<equiv> 2"

primrec steps :: "('s \<Rightarrow> 's) list \<Rightarrow> 's \<Rightarrow> 's" where
  "steps [] s = s"
| "steps (f # fs) s = steps fs (f s)"

lemma steps_append [simp]: "steps (fs @ gs) s = steps gs (steps fs s)"
  by (induction fs arbitrary: s) simp_all

definition argument_registers :: "u32 list" where
  "argument_registers = [7, 6, 2, 1, 8, 9]"

definition encoder_error :: "u32 \<Rightarrow> source_location option \<Rightarrow> string \<Rightarrow> emitter" where
  "encoder_error ident location message e =
     e\<lparr>en_diagnostics := diagnostic_emit (en_diagnostics e)
         \<lparr>dg_id = ident, dg_phase = DIAG_BACKEND,
          dg_source = (case location of None \<Rightarrow> None | Some l \<Rightarrow> lc_source l),
          dg_line = (case location of None \<Rightarrow> 0 | Some l \<Rightarrow> unat (lc_line l)),
          dg_column = (case location of None \<Rightarrow> 0 | Some l \<Rightarrow> unat (lc_column l)), dg_message = cstr message\<rparr>,
       en_failed := True\<rparr>"

definition deeper :: emitter where
  "deeper e = e\<lparr>en_stack_depth := en_stack_depth e + 1\<rparr>"

definition shallower :: emitter where
  "shallower e = (if en_stack_depth e \<noteq> 0 then e\<lparr>en_stack_depth := en_stack_depth e - 1\<rparr> else e)"

definition fail :: emitter where
  "fail e = e\<lparr>en_failed := True\<rparr>"

subsection \<open>Bytes\<close>

definition emit8 :: "byte \<Rightarrow> emitter" where
  "emit8 b e = (if 1 > SIZE_MAX - length (en_code e) then fail e else e\<lparr>en_code := en_code e @ [b]\<rparr>)"

text \<open>A run of calls of \<open>emit8\<close>.\<close>

definition emit_bytes :: "byte list \<Rightarrow> emitter" where
  "emit_bytes bs = steps (map emit8 bs)"

definition emit32 :: "u32 \<Rightarrow> emitter" where
  "emit32 v = steps (map (\<lambda>i. emit8 (ucast (drop_bit (i * 8) v))) [0..<4])"

definition emit64 :: "u64 \<Rightarrow> emitter" where
  "emit64 v = steps (map (\<lambda>i. emit8 (ucast (drop_bit (i * 8) v))) [0..<8])"

subsection \<open>Prefixes and operands\<close>

definition rex_bits :: "u32 \<Rightarrow> u32 \<Rightarrow> u32" where
  "rex_bits reg rm = (if reg \<ge> 8 then 4 else 0) OR (if rm \<ge> 8 then 1 else 0)"

definition emit_rex :: "bool \<Rightarrow> u32 \<Rightarrow> u32 \<Rightarrow> emitter" where
  "emit_rex w reg rm e =
     (let v = (if w then 8 else 0) OR rex_bits reg rm in
      if v \<noteq> 0 then emit8 (ucast (0x40 OR v)) e else e)"

definition emit_rex_byte_word :: "u32 \<Rightarrow> u32 \<Rightarrow> emitter" where
  "emit_rex_byte_word reg rm e =
     (let v = rex_bits reg rm in
      if v \<noteq> 0 \<or> reg \<ge> 4 \<or> rm \<ge> 4 then emit8 (ucast (0x40 OR v)) e else e)"

definition modrm :: "u32 \<Rightarrow> u32 \<Rightarrow> u32 \<Rightarrow> byte" where
  "modrm mode reg rm = ucast (mode OR push_bit 3 (reg AND 7) OR (rm AND 7))"

definition emit_modrm_reg :: "u32 \<Rightarrow> u32 \<Rightarrow> emitter" where
  "emit_modrm_reg reg rm = emit8 (modrm 0xc0 reg rm)"

definition emit_mem_reg :: "u32 \<Rightarrow> u32 \<Rightarrow> int \<Rightarrow> emitter" where
  "emit_mem_reg base reg displacement =
     (if displacement < INT32_MIN \<or> displacement > INT32_MAX then fail
      else if displacement \<ge> -128 \<and> displacement \<le> 127 then
        steps [emit8 (modrm 0x40 reg base), emit8 (word_of_int displacement)]
      else steps [emit8 (modrm 0x80 reg base), emit32 (word_of_int displacement)])"

definition emit_mem_rip :: "u32 \<Rightarrow> emitter" where
  "emit_mem_rip reg = emit8 (ucast (push_bit 3 (reg AND 7) OR 5))"

subsection \<open>Instructions\<close>

definition emit_lea_mem :: "u32 \<Rightarrow> u32 \<Rightarrow> int \<Rightarrow> emitter" where
  "emit_lea_mem base reg displacement =
     steps [emit_rex True reg base, emit8 0x8d, emit_mem_reg base reg displacement]"

definition emit_mov_reg_reg :: "u32 \<Rightarrow> u32 \<Rightarrow> emitter" where
  "emit_mov_reg_reg dst src = steps [emit_rex True src dst, emit8 0x89, emit_modrm_reg src dst]"

definition emit_mov_reg32_reg :: "u32 \<Rightarrow> u32 \<Rightarrow> emitter" where
  "emit_mov_reg32_reg dst src = steps
     [if src \<ge> 8 then emit8 0x41 else steps [], emit8 0x89, emit_modrm_reg src dst]"

definition emit_mov_reg8_reg :: "u32 \<Rightarrow> u32 \<Rightarrow> emitter" where
  "emit_mov_reg8_reg dst src = steps [emit_rex_byte_word src dst, emit8 0x88, emit_modrm_reg src dst]"

definition emit_mov_reg_imm :: "u32 \<Rightarrow> u64 \<Rightarrow> u32 \<Rightarrow> emitter" where
  "emit_mov_reg_imm reg v width =
     (if width = 8 then
        steps [emit8 (ucast (0x48 OR (if reg \<ge> 8 then 1 else 0 :: u32))), emit8 (ucast (0xb8 + (reg AND 7))), emit64 v]
      else
        steps [if reg \<ge> 8 then emit8 0x41 else steps [], emit8 (ucast (0xb8 + (reg AND 7))), emit32 (ucast v)])"

definition emit_push :: "u32 \<Rightarrow> emitter" where
  "emit_push reg = steps [if reg \<ge> 8 then emit8 0x41 else steps [], emit8 (ucast (0x50 + (reg AND 7)))]"

definition emit_pop :: "u32 \<Rightarrow> emitter" where
  "emit_pop reg = steps [if reg \<ge> 8 then emit8 0x41 else steps [], emit8 (ucast (0x58 + (reg AND 7)))]"

definition emit_alu :: "u32 \<Rightarrow> u32 \<Rightarrow> u32 \<Rightarrow> emitter" where
  "emit_alu opcode dst src = steps [emit_rex True src dst, emit8 (ucast opcode), emit_modrm_reg src dst]"

definition emit_test :: "u32 \<Rightarrow> emitter" where
  "emit_test reg = steps [emit_rex True reg reg, emit8 0x85, emit_modrm_reg reg reg]"

definition emit_setcc :: "u32 \<Rightarrow> emitter" where
  "emit_setcc condition = steps [emit8 0x0f, emit8 (ucast (0x90 + condition)), emit8 0xc0]"

text \<open>No value is the result \<open>false\<close>.\<close>

definition condition_code :: "u32 \<Rightarrow> bool \<Rightarrow> u32 option" where
  "condition_code compare is_signed =
     (if compare = COMPARE_EQUAL then Some 4
      else if compare = COMPARE_NOT_EQUAL then Some 5
      else if compare = COMPARE_LESS then Some (if is_signed then 12 else 2)
      else if compare = COMPARE_LESS_EQUAL then Some (if is_signed then 14 else 6)
      else if compare = COMPARE_GREATER then Some (if is_signed then 15 else 7)
      else if compare = COMPARE_GREATER_EQUAL then Some (if is_signed then 13 else 3)
      else None)"

definition extend_opcode :: "bool \<Rightarrow> nat \<Rightarrow> byte" where
  "extend_opcode is_signed width =
     (if is_signed then (if width = 1 then 0xbe else 0xbf) else (if width = 1 then 0xb6 else 0xb7))"

definition emit_load_mem :: "u32 \<Rightarrow> u32 \<Rightarrow> int \<Rightarrow> nat \<Rightarrow> bool \<Rightarrow> emitter" where
  "emit_load_mem reg base displacement width is_signed = steps
     [if width = 1 \<or> width = 2 then steps [emit_rex True reg base, emit8 0x0f, emit8 (extend_opcode is_signed width)]
      else if width = 4 \<and> is_signed then steps [emit_rex True reg base, emit8 0x63]
      else steps [emit_rex (width = 8) reg base, emit8 0x8b],
      emit_mem_reg base reg displacement]"

definition emit_store_mem :: "u32 \<Rightarrow> u32 \<Rightarrow> int \<Rightarrow> nat \<Rightarrow> emitter" where
  "emit_store_mem src base displacement width = steps
     [if width = 2 then emit8 0x66 else steps [],
      if width = 1 \<or> width = 2 then emit_rex_byte_word src base else emit_rex (width = 8) src base,
      emit8 (if width = 1 then 0x88 else 0x89),
      emit_mem_reg base src displacement]"

text \<open>The chunks an eightbyte is taken apart into: the width of the first and what is left.\<close>

definition next_chunk :: "nat \<Rightarrow> nat \<times> nat" where
  "next_chunk left =
     (if left \<ge> 8 then (8, left - 8) else if left \<ge> 4 then (4, left - 4)
      else if left \<ge> 2 then (2, left - 2) else (1, 0))"

lemma next_chunk_less [simp]: "left \<noteq> 0 \<Longrightarrow> snd (next_chunk left) < left"
  by (simp add: next_chunk_def)

function emit_chunks :: "(int \<Rightarrow> nat \<Rightarrow> emitter) \<Rightarrow> int \<Rightarrow> nat \<Rightarrow> emitter" where
  "emit_chunks move displacement left =
     (if left = 0 then steps []
      else steps [move displacement (fst (next_chunk left)),
                  emit_chunks move (displacement + int (fst (next_chunk left))) (snd (next_chunk left))])"
  by pat_completeness auto
termination by (relation "measure (\<lambda>(m, d, n). n)") simp_all

declare emit_chunks.simps [simp del]

definition emit_load_partial :: "u32 \<Rightarrow> u32 \<Rightarrow> int \<Rightarrow> nat \<Rightarrow> emitter" where
  "emit_load_partial reg base = emit_chunks (\<lambda>displacement width. emit_load_mem reg base displacement width False)"

definition emit_store_partial :: "u32 \<Rightarrow> u32 \<Rightarrow> int \<Rightarrow> nat \<Rightarrow> emitter" where
  "emit_store_partial reg base = emit_chunks (emit_store_mem reg base)"

definition emit_load_piece_vector :: "u32 \<Rightarrow> u32 \<Rightarrow> int \<Rightarrow> nat \<Rightarrow> emitter" where
  "emit_load_piece_vector index base displacement width =
     (if base \<ge> 8 then steps
        [emit_load_partial 10 base displacement width, emit8 0x66, emit_rex (width = 8) index 10,
         emit_bytes [0x0f, 0x6e], emit_modrm_reg index 10]
      else steps
        [emit8 (if width = 4 then 0xf3 else 0xf2), emit_bytes [0x0f, 0x10], emit_rex False index base,
         emit_mem_reg base index displacement])"

definition emit_store_piece_vector :: "u32 \<Rightarrow> u32 \<Rightarrow> int \<Rightarrow> nat \<Rightarrow> emitter" where
  "emit_store_piece_vector index base displacement width = steps
     [emit8 (if width = 4 then 0xf3 else 0xf2), emit_bytes [0x0f, 0x11], emit_rex False index base,
      emit_mem_reg base index displacement]"

subsection \<open>Labels\<close>

fun label_index :: "label_slot list \<Rightarrow> nat \<Rightarrow> nat option" where
  "label_index [] ident = None"
| "label_index (l # ls) ident = (if lb_id l = ident then Some 0 else map_option Suc (label_index ls ident))"

definition add_label :: "encoder \<Rightarrow> nat \<Rightarrow> nat \<times> encoder" where
  "add_label e ident =
     (case label_index (en_labels e) ident of Some i \<Rightarrow> (i, e)
      | None \<Rightarrow> (length (en_labels e),
          e\<lparr>en_labels := en_labels e @ [\<lparr>lb_id = ident, lb_offset = 0, lb_defined = False\<rparr>]\<rparr>))"

definition add_fixup :: "nat \<Rightarrow> nat \<Rightarrow> emitter" where
  "add_fixup field label e = e\<lparr>en_fixups := en_fixups e @ [\<lparr>fx_field = field, fx_label = label\<rparr>]\<rparr>"

text \<open>A zero field of four bytes, and the position it stands at.\<close>

definition emit_jump :: "nat \<Rightarrow> emitter" where
  "emit_jump label e =
     (let e = emit8 0xe9 e; field = length (en_code e) in add_fixup field label (emit32 0 e))"

definition emit_conditional_jump :: "u32 \<Rightarrow> nat \<Rightarrow> emitter" where
  "emit_conditional_jump condition label e =
     (let e = emit8 (ucast (0x80 + condition)) (emit8 0x0f e); field = length (en_code e)
      in add_fixup field label (emit32 0 e))"

definition define_label :: "nat \<Rightarrow> emitter" where
  "define_label ident e =
     (case add_label e ident of (i, e) \<Rightarrow>
        e\<lparr>en_labels := (en_labels e)[i := (en_labels e ! i)\<lparr>lb_offset := length (en_code e), lb_defined := True\<rparr>]\<rparr>)"

definition patch32 :: "nat \<Rightarrow> u32 \<Rightarrow> byte list \<Rightarrow> byte list" where
  "patch32 field v code =
     code[field := ucast v, field + 1 := ucast (drop_bit 8 v), field + 2 := ucast (drop_bit 16 v),
          field + 3 := ucast (drop_bit 24 v)]"

primrec resolve_fixups :: "label_fixup list \<Rightarrow> encoder \<Rightarrow> bool \<times> encoder" where
  "resolve_fixups [] e = (True, e)"
| "resolve_fixups (fixup # fixups) e =
     (case add_label e (fx_label fixup) of (i, e) \<Rightarrow>
        if \<not> lb_defined (en_labels e ! i) then (False, encoder_error 4010 None ''unresolved IR label'' e)
        else let displacement = int (lb_offset (en_labels e ! i)) - int (fx_field fixup + 4) in
          if displacement < INT32_MIN \<or> displacement > INT32_MAX
          then (False, encoder_error 4011 None ''branch displacement overflow'' e)
          else resolve_fixups fixups
            (e\<lparr>en_code := patch32 (fx_field fixup) (word_of_int displacement) (en_code e)\<rparr>))"

definition resolve_labels :: "encoder \<Rightarrow> bool \<times> encoder" where
  "resolve_labels e = resolve_fixups (en_fixups e) e"

subsection \<open>Symbols\<close>

text \<open>A relocation against the text section; whether it was recorded is the first result.\<close>

definition add_text_relocation :: "nat \<Rightarrow> symbol_ref \<Rightarrow> encoder \<Rightarrow> bool \<times> encoder" where
  "add_text_relocation field symbol e =
     (case object_add_relocation (en_builder e) (Some TEXT) (en_function_offset e + field) (Some symbol) REL_PC32 0 4 of
        None \<Rightarrow> (False, e) | Some b \<Rightarrow> (True, e\<lparr>en_builder := b\<rparr>))"

text \<open>A zero field of four bytes with a relocation.\<close>

definition emit_symbol_field :: "symbol_ref \<Rightarrow> encoder \<Rightarrow> bool \<times> encoder" where
  "emit_symbol_field symbol e = add_text_relocation (length (en_code e)) symbol (emit32 0 e)"

definition emit_rip_reference :: "u32 \<Rightarrow> u32 \<Rightarrow> symbol_ref \<Rightarrow> emitter" where
  "emit_rip_reference opcode reg symbol = steps
     [emit_rex True reg 0, emit8 (ucast opcode), emit_mem_rip reg, \<lambda>e. snd (emit_symbol_field symbol e)]"

fun symbol_index_from :: "nat \<Rightarrow> object_symbol list \<Rightarrow> symbol_ref \<Rightarrow> nat option" where
  "symbol_index_from i [] s = None"
| "symbol_index_from i (y # ys) s = (if symbol_matches s y then Some i else symbol_index_from (Suc i) ys s)"

text \<open>The entry of a symbol, made when there is none; \<open>UINT32_MAX\<close> when it cannot be made.\<close>

definition object_symbol_index :: "symbol_ref \<Rightarrow> encoder \<Rightarrow> nat \<times> encoder" where
  "object_symbol_index symbol e =
     (let b = en_builder e in
      case symbol_index_from 0 (b_symbols b) symbol of Some i \<Rightarrow> (i, e)
      | None \<Rightarrow>
        let kind = (if sr_class symbol = SYMBOL_FUNCTION then 2 else 1);
            binding = (if sr_linkage symbol = LINKAGE_INTERNAL then 0 else 1) in
        case object_add_symbol b (sr_name symbol) 0 0xffffffff binding kind 0 False of
          None \<Rightarrow> (UINT32_MAX, e)
        | Some b \<Rightarrow>
            (length (b_symbols b) - 1,
             e\<lparr>en_builder := b\<lparr>b_symbols := (b_symbols b)[length (b_symbols b) - 1 :=
               last (b_symbols b)\<lparr>ob_source_symbol := Some symbol\<rparr>]\<rparr>\<rparr>))"

definition symbol_is_local :: "ir_symbol \<Rightarrow> bool" where
  "symbol_is_local s \<longleftrightarrow>
     sy_has_frame_offset s \<and> sy_storage s \<noteq> STORAGE_STATIC \<and> sy_storage s \<noteq> STORAGE_EXTERN"

text \<open>The cast of a frame offset to \<open>int64_t\<close>.\<close>

definition frame_offset :: "nat \<Rightarrow> int" where
  "frame_offset n = sint (of_nat n :: u64)"

end
