(* ===== verification/Enc_Expr.thy ===== *)
theory Enc_Expr
  imports Enc_Emit
begin

text \<open>
  Expressions of the encoder (\<open>src/src/backend/encoder.c\<close>): each function emits the code of one kind of
  instruction, with the value in RAX or XMM0. The recursion into operands is the argument \<open>enc\<close>; \<open>encode_expr\<close>
  closes it. Types that never end have no pieces here, as the walk over them would not return.
\<close>

subsection \<open>Types and widths\<close>

definition is_float_type :: "ctype list \<Rightarrow> nat option \<Rightarrow> bool" where
  "is_float_type T type = (kind_of T type = Some TYPE_FLOAT \<or> kind_of T type = Some TYPE_DOUBLE)"

definition argument_is_aggregate :: "ctype list \<Rightarrow> nat option \<Rightarrow> bool" where
  "argument_is_aggregate T type =
     (kind_of T type = Some TYPE_STRUCT \<or> kind_of T type = Some TYPE_UNION \<or> kind_of T type = Some TYPE_UINT128)"

definition aggregate_pieces :: "ctype list \<Rightarrow> nat option \<Rightarrow> nat \<times> agg_class list \<times> bool" where
  "aggregate_pieces T type =
     (case abi_aggregate_pieces (Suc (length T)) T type [AGG_INTEGER, AGG_INTEGER] False of
        None \<Rightarrow> (0, [AGG_INTEGER, AGG_INTEGER], False) | Some r \<Rightarrow> r)"

definition ir_width :: "ir_inst \<Rightarrow> nat" where
  "ir_width i = (if nd_width (in_node i) = 0 then 8 else unat (nd_width (in_node i)))"

definition operand_size :: "ctype list \<Rightarrow> nat \<Rightarrow> ir_inst option \<Rightarrow> nat" where
  "operand_size T absent x = (case x of None \<Rightarrow> absent | Some i \<Rightarrow> type_size T (in_type i))"

abbreviation at_location :: "ir_inst \<Rightarrow> source_location option" where
  "at_location i \<equiv> Some (nd_location (in_node i))"

subsection \<open>Vector registers\<close>

definition emit_save_xmm0 :: "nat \<Rightarrow> emitter" where
  "emit_save_xmm0 width = steps
     [emit_bytes [0x48, 0x83, 0xec, 0x08], deeper,
      if width = 4 then emit_bytes [0xf3, 0x0f, 0x11, 0x04, 0x24] else emit_bytes [0xf2, 0x0f, 0x11, 0x04, 0x24]]"

definition emit_restore_xmm :: "u32 \<Rightarrow> nat \<Rightarrow> emitter" where
  "emit_restore_xmm index width = steps
     [if width = 4 then emit_bytes [0xf3, 0x0f, 0x10, ucast (4 OR push_bit 3 index), 0x24]
      else emit_bytes [0xf2, 0x0f, 0x10, ucast (4 OR push_bit 3 index), 0x24],
      emit_bytes [0x48, 0x83, 0xc4, 0x08], shallower]"

definition emit_xmm_load_rax :: "nat \<Rightarrow> emitter" where
  "emit_xmm_load_rax width =
     (if width = 4 then emit_bytes [0xf3, 0x0f, 0x10, 0x00] else emit_bytes [0xf2, 0x0f, 0x10, 0x00])"

definition emit_xmm_move_from_rax :: emitter where
  "emit_xmm_move_from_rax = emit_bytes [0x66, 0x48, 0x0f, 0x6e, 0xc0]"

definition emit_xmm_move_to_rax :: "nat \<Rightarrow> emitter" where
  "emit_xmm_move_to_rax width =
     (if width = 4 then emit_bytes [0xf2, 0x0f, 0x2c, 0xc0] else emit_bytes [0xf2, 0x48, 0x0f, 0x2c, 0xc0])"

definition emit_xmm_from_stack :: emitter where
  "emit_xmm_from_stack = emit_bytes [0xf2, 0x0f, 0x10, 0x04, 0x24]"

definition emit_xmm_to_stack :: emitter where
  "emit_xmm_to_stack = emit_bytes [0xf2, 0x0f, 0x11, 0x04, 0x24]"

definition emit_xmm_negate :: "nat \<Rightarrow> emitter" where
  "emit_xmm_negate width = steps
     [emit_mov_reg_imm 0 (if width = 4 then 0x80000000 else 0x8000000000000000) 8,
      emit8 0x66, emit_rex True 0 0, emit_bytes [0x0f, 0x6e], emit_modrm_reg 1 0,
      if width = 4 then emit_bytes [0x0f, 0x57, 0xc1] else emit_bytes [0x66, 0x0f, 0x57, 0xc1]]"

definition emit_xmm_step :: "bool \<Rightarrow> emitter" where
  "emit_xmm_step down = steps
     [emit_mov_reg_imm 0 (if down then 0xBFF0000000000000 else 0x3FF0000000000000) 8,
      emit8 0x66, emit_rex True 0 0, emit_bytes [0x0f, 0x6e], emit_modrm_reg 1 0]"

definition emit_xmm_second_operand :: emitter where
  "emit_xmm_second_operand = emit_bytes [0x66, 0x0f, 0x28, 0xc8]"

definition emit_xmm_convert_to_double :: "nat \<Rightarrow> emitter" where
  "emit_xmm_convert_to_double width = (if width = 4 then emit_bytes [0xf3, 0x0f, 0x5a, 0xc0] else steps [])"

definition emit_xmm_convert_from_double :: "nat \<Rightarrow> emitter" where
  "emit_xmm_convert_from_double width = (if width = 4 then emit_bytes [0xf2, 0x0f, 0x5a, 0xc0] else steps [])"

text \<open>Room for an eightbyte on the stack, and its release.\<close>

definition reserve_slot :: emitter where
  "reserve_slot = steps [emit_bytes [0x48, 0x83, 0xec, 0x08], deeper]"

definition release_slot :: emitter where
  "release_slot = steps [emit_bytes [0x48, 0x83, 0xc4, 0x08], shallower]"

text \<open>The store of a floating value through the address in R11.\<close>

definition emit_store_xmm0_r11 :: "bool \<Rightarrow> emitter" where
  "emit_store_xmm0_r11 single = steps
     [emit8 (if single then 0xf3 else 0xf2), emit_rex False 0 11, emit_bytes [0x0f, 0x11], emit_mem_reg 11 0 0]"

subsection \<open>Registers and memory at a width\<close>

definition emit_normalize :: "nat \<Rightarrow> bool \<Rightarrow> emitter" where
  "emit_normalize width is_signed =
     (if width = 1 then emit_bytes [0x48, 0x0f, if is_signed then 0xbe else 0xb6, 0xc0]
      else if width = 2 then emit_bytes [0x48, 0x0f, if is_signed then 0xbf else 0xb7, 0xc0]
      else if width = 4 then (if is_signed then emit_bytes [0x48, 0x63, 0xc0] else emit_bytes [0x89, 0xc0])
      else steps [])"

definition emit_load_rax :: "nat \<Rightarrow> bool \<Rightarrow> emitter" where
  "emit_load_rax width is_signed =
     (if width = 1 \<or> width = 2 then emit_bytes [0x48, 0x0f, extend_opcode is_signed width, 0x00]
      else if width = 4 then
        steps [if is_signed then emit_bytes [0x48, 0x63] else emit8 0x8b, emit8 0x00]
      else emit_bytes [0x48, 0x8b, 0x00])"

definition emit_add_imm :: "u32 \<Rightarrow> int \<Rightarrow> emitter" where
  "emit_add_imm reg v =
     (if v \<ge> -128 \<and> v \<le> 127 then
        steps [emit_rex True 0 reg, emit8 0x83, emit_modrm_reg 0 reg, emit8 (word_of_int v)]
      else if v \<ge> INT32_MIN \<and> v \<le> INT32_MAX then
        steps [emit_rex True 0 reg, emit8 0x81, emit_modrm_reg 0 reg, emit32 (word_of_int v)]
      else steps [emit_mov_reg_imm 1 (word_of_int v) 8, emit_rex True 1 reg, emit8 0x01, emit_modrm_reg 1 reg])"

definition emit_binary_opcode :: "ir_op \<Rightarrow> bool \<Rightarrow> emitter" where
  "emit_binary_opcode op is_signed =
     (case op of
        IR_ADD \<Rightarrow> emit_alu 0x01 0 1
      | IR_SUB \<Rightarrow> emit_alu 0x29 0 1
      | IR_MUL \<Rightarrow> steps [emit_rex True 0 1, emit_bytes [0x0f, 0xaf], emit_modrm_reg 0 1]
      | IR_DIV \<Rightarrow>
          (if is_signed then steps [emit_bytes [0x48, 0x99, 0x48, 0xf7], emit_modrm_reg 7 1]
           else steps [emit8 0x31, emit_modrm_reg 2 2, emit_bytes [0x48, 0xf7], emit_modrm_reg 6 1])
      | IR_MOD \<Rightarrow>
          (if is_signed then steps [emit_bytes [0x48, 0x99, 0x48, 0xf7], emit_modrm_reg 7 1, emit_mov_reg_reg 0 2]
           else steps [emit8 0x31, emit_modrm_reg 2 2, emit_bytes [0x48, 0xf7], emit_modrm_reg 6 1, emit_mov_reg_reg 0 2])
      | IR_SHL \<Rightarrow> emit_bytes [0x48, 0xd3, 0xe0]
      | IR_SHR \<Rightarrow> emit_bytes [0x48, 0xd3, if is_signed then 0xf8 else 0xe8]
      | IR_BIT_AND \<Rightarrow> emit_alu 0x21 0 1
      | IR_BIT_OR \<Rightarrow> emit_alu 0x09 0 1
      | IR_BIT_XOR \<Rightarrow> emit_alu 0x31 0 1
      | _ \<Rightarrow> steps [])"

definition compound_ir_op :: "u32 \<Rightarrow> ir_op" where
  "compound_ir_op binary =
     (if binary = 0 then IR_ADD else if binary = 1 then IR_SUB else if binary = 2 then IR_MUL
      else if binary = 3 then IR_DIV else if binary = 4 then IR_MOD else if binary = 5 then IR_SHL
      else if binary = 6 then IR_SHR else if binary = 13 then IR_BIT_AND else if binary = 15 then IR_BIT_OR
      else if binary = 14 then IR_BIT_XOR else IR_ADD)"

text \<open>The floating operation on XMM0 and XMM1; no value for an operator without one.\<close>

definition float_opcode :: "ir_op \<Rightarrow> byte option" where
  "float_opcode op = (case op of IR_ADD \<Rightarrow> Some 0x58 | IR_SUB \<Rightarrow> Some 0x5c | IR_MUL \<Rightarrow> Some 0x59 | IR_DIV \<Rightarrow> Some 0x5e | _ \<Rightarrow> None)"

definition emit_object_copy :: "u64 \<Rightarrow> emitter" where
  "emit_object_copy bytes = steps [emit_mov_reg_imm 1 bytes 8, emit_bytes [0xf3, 0xa4]]"

definition movzx_eax_al :: emitter where
  "movzx_eax_al = emit_bytes [0x0f, 0xb6, 0xc0]"

subsection \<open>Constants\<close>

text \<open>The host's conversion of a binary64 to a binary32 encoding: to the nearest, ties to even.\<close>

definition narrow_encoding :: "u64 \<Rightarrow> u32" where
  "narrow_encoding d =
     (let s = unat (drop_bit 63 d); x = unat (drop_bit 52 d AND 0x7ff); f = unat (d AND 0xfffffffffffff) in
      if x = 0x7ff then of_nat (s * 2 ^ 31 + (if f = 0 then 0x7f800000 else 0x7fc00000 + f div 2 ^ 29 mod 2 ^ 22))
      else if x = 0 then of_nat (s * 2 ^ 31)
      else let low = 29 + (897 - x); m = 2 ^ 52 + f; q = m div 2 ^ low; r = m mod 2 ^ low;
               q = (if r > 2 ^ (low - 1) \<or> r = 2 ^ (low - 1) \<and> odd q then q + 1 else q);
               v = (x - 897) * 2 ^ 23 + q in
        of_nat (s * 2 ^ 31 + (if v \<ge> 0x7f800000 then 0x7f800000 else v)))"

definition encode_float_constant :: "unit_env \<Rightarrow> ir_inst \<Rightarrow> emitter" where
  "encode_float_constant env inst = steps
     [if kind_of (ue_types env) (in_type inst) = Some TYPE_FLOAT
      then emit_mov_reg_imm 0 (ucast (narrow_encoding (in_bits inst))) 8
      else emit_mov_reg_imm 0 (in_bits inst) 8,
      emit_xmm_move_from_rax]"

definition encode_const :: "ir_inst \<Rightarrow> emitter" where
  "encode_const inst =
     (let width = (if nd_width (in_node inst) = 0 then 8 else nd_width (in_node inst)) in
      if width < 8 \<and> in_signed inst then emit_mov_reg_imm 0 (in_bits inst) 8
      else emit_mov_reg_imm 0 (in_bits inst) width)"

type_synonym recursion = "ir_inst option \<Rightarrow> emitter"

text \<open>
  Two operands: the first on the stack while the second is computed, then the second in RCX and the first in RAX.
\<close>

definition emit_two_operands :: "recursion \<Rightarrow> ir_inst \<Rightarrow> emitter" where
  "emit_two_operands enc inst = steps
     [enc (in_a inst), emit_push 0, deeper, enc (in_b inst), emit_mov_reg_reg 1 0, emit_pop 0, shallower]"

subsection \<open>Loads, stores and addresses\<close>

definition encode_load :: "recursion \<Rightarrow> unit_env \<Rightarrow> ir_inst \<Rightarrow> emitter" where
  "encode_load enc env inst =
     (let T = ue_types env; width = ir_width inst; is_signed = in_signed inst in
      if is_float_type T (in_type inst) then
        (let single = (kind_of T (in_type inst) = Some TYPE_FLOAT) in
         case (in_a inst, in_symbol inst) of
           (None, Some s) \<Rightarrow>
             (if symbol_is_local (ue_symbols env s) then steps
                [emit_rex True 0 5, emit8 (if single then 0xf3 else 0xf2), emit_bytes [0x0f, 0x10],
                 emit_mem_reg 5 0 (frame_offset (sy_offset (ue_symbols env s)))]
              else steps
                [emit_rex True 0 0, emit8 (if single then 0xf3 else 0xf2), emit_bytes [0x0f, 0x10], emit_mem_rip 0,
                 \<lambda>e. snd (emit_symbol_field (symbol_reference (ue_symbols env s)) e)])
         | _ \<Rightarrow> steps [enc (in_a inst), emit_xmm_load_rax (type_size T (in_type inst))])
      else
        case (in_a inst, in_symbol inst) of
          (None, Some s) \<Rightarrow>
            (if symbol_is_local (ue_symbols env s) then
               emit_load_mem 0 5 (frame_offset (sy_offset (ue_symbols env s))) width is_signed
             else steps
               [if width = 1 \<or> width = 2 then
                  steps [emit_rex True 0 0, emit8 0x0f, emit8 (extend_opcode is_signed width)]
                else if width = 4 then
                  (if is_signed then steps [emit_rex True 0 0, emit8 0x63] else steps [emit_rex False 0 0, emit8 0x8b])
                else steps [emit_rex True 0 0, emit8 0x8b],
                emit_mem_rip 0,
                \<lambda>e. snd (emit_symbol_field (symbol_reference (ue_symbols env s)) e)])
        | _ \<Rightarrow> steps [enc (in_a inst), emit_load_rax width is_signed])"

definition encode_store :: "recursion \<Rightarrow> unit_env \<Rightarrow> ir_inst \<Rightarrow> emitter" where
  "encode_store enc env inst =
     (if is_float_type (ue_types env) (in_type inst) then steps
        [enc (in_a inst), emit_push 0, deeper, enc (in_b inst), emit_pop 11, shallower,
         emit_store_xmm0_r11 (kind_of (ue_types env) (in_type inst) = Some TYPE_FLOAT)]
      else steps [emit_two_operands enc inst, emit_store_mem 1 0 0 (ir_width inst), emit_mov_reg_reg 0 1])"

definition encode_addr :: "recursion \<Rightarrow> unit_env \<Rightarrow> ir_inst \<Rightarrow> emitter" where
  "encode_addr enc env inst =
     (case (in_a inst, in_symbol inst) of
        (None, Some s) \<Rightarrow>
          (if symbol_is_local (ue_symbols env s) then steps
             [emit_rex True 0 5, emit8 0x8d, emit_mem_reg 5 0 (frame_offset (sy_offset (ue_symbols env s)))]
           else emit_rip_reference 0x8d 0 (symbol_reference (ue_symbols env s)))
      | (None, None) \<Rightarrow> steps [emit_rex True 0 5, emit8 0x8d, emit_mem_reg 5 0 (in_offset inst)]
      | (Some a, _) \<Rightarrow> enc (Some a))"

definition encode_member :: "recursion \<Rightarrow> ir_inst \<Rightarrow> emitter" where
  "encode_member enc inst = steps
     [enc (in_a inst),
      if in_offset inst = 0 then steps []
      else if in_offset inst \<ge> 0 \<and> in_offset inst \<le> INT32_MAX then
        steps [emit_rex True 0 0, emit_bytes [0x81, 0xc0], emit32 (word_of_int (in_offset inst))]
      else steps [emit_bytes [0x48, 0xc7, 0xc0], emit32 (word_of_int (in_offset inst))]]"

subsection \<open>Operators\<close>

definition encode_binary :: "recursion \<Rightarrow> ir_inst \<Rightarrow> emitter" where
  "encode_binary enc inst = steps
     [emit_two_operands enc inst, emit_binary_opcode (in_op inst) (in_signed inst),
      emit_normalize (ir_width inst) (in_signed inst)]"

text \<open>The two operands of a floating operation in XMM0 and XMM1, widened.\<close>

definition emit_float_operands :: "recursion \<Rightarrow> ctype list \<Rightarrow> ir_inst \<Rightarrow> emitter" where
  "emit_float_operands enc T inst = steps
     [enc (in_a inst), emit_xmm_convert_to_double (operand_size T 8 (in_a inst)),
      reserve_slot, emit_xmm_to_stack,
      enc (in_b inst), emit_xmm_convert_to_double (operand_size T 8 (in_b inst)),
      emit_xmm_second_operand, emit_xmm_from_stack, release_slot]"

definition encode_float_binary :: "recursion \<Rightarrow> unit_env \<Rightarrow> ir_inst \<Rightarrow> emitter" where
  "encode_float_binary enc env inst = steps
     [emit_float_operands enc (ue_types env) inst,
      case float_opcode (in_op inst) of None \<Rightarrow> steps [] | Some c \<Rightarrow> emit_bytes [0xf2, 0x0f, c, 0xc1],
      emit_xmm_convert_from_double
        (case in_type inst of None \<Rightarrow> 8 | Some t \<Rightarrow> type_size (ue_types env) (Some t))]"

definition float_condition :: "u32 \<Rightarrow> u32" where
  "float_condition compare =
     (if compare = COMPARE_EQUAL then 4 else if compare = COMPARE_NOT_EQUAL then 5
      else if compare = COMPARE_LESS then 2 else if compare = COMPARE_LESS_EQUAL then 6
      else if compare = COMPARE_GREATER then 7 else if compare = COMPARE_GREATER_EQUAL then 3 else 0)"

definition encode_float_compare :: "recursion \<Rightarrow> unit_env \<Rightarrow> ir_inst \<Rightarrow> emitter" where
  "encode_float_compare enc env inst = steps
     [emit_float_operands enc (ue_types env) inst, emit_bytes [0x66, 0x0f, 0x2e, 0xc1],
      emit_setcc (float_condition (nd_compare (in_node inst))), movzx_eax_al]"

definition encode_compound_float :: "recursion \<Rightarrow> unit_env \<Rightarrow> ir_inst \<Rightarrow> emitter" where
  "encode_compound_float enc env inst =
     (let width = ir_width inst in steps
       [enc (in_a inst), emit_push 0, deeper,
        emit_xmm_load_rax width, emit_xmm_convert_to_double width, reserve_slot, emit_xmm_to_stack,
        enc (in_b inst), emit_xmm_convert_to_double (operand_size (ue_types env) width (in_b inst)),
        emit_xmm_second_operand, emit_xmm_from_stack, release_slot,
        case float_opcode (compound_ir_op (nd_binary (in_node inst))) of
          None \<Rightarrow> encoder_error 4022 (at_location inst) ''operator cannot be applied to a floating object''
        | Some c \<Rightarrow> steps
            [emit_bytes [0xf2, 0x0f, c, 0xc1], emit_xmm_convert_from_double width, emit_pop 11, shallower,
             emit_store_xmm0_r11 (width = 4)]])"

definition encode_compound :: "recursion \<Rightarrow> unit_env \<Rightarrow> ir_inst \<Rightarrow> emitter" where
  "encode_compound enc env inst =
     (if in_a inst = None \<or> in_b inst = None then steps []
      else if is_float_type (ue_types env) (in_type inst) then encode_compound_float enc env inst
      else steps
        [enc (in_a inst), emit_push 0, deeper, emit_load_rax (ir_width inst) (in_signed inst), emit_push 0, deeper,
         enc (in_b inst), emit_mov_reg_reg 1 0, emit_pop 0, shallower,
         emit_binary_opcode (compound_ir_op (nd_binary (in_node inst))) (in_signed inst),
         emit_normalize (ir_width inst) (in_signed inst),
         emit_pop 11, shallower, emit_store_mem 0 11 0 (ir_width inst)])"

definition encode_logical :: "recursion \<Rightarrow> ir_inst \<Rightarrow> emitter" where
  "encode_logical enc inst =
     (let is_and = (in_op inst = IR_LOGICAL_AND); nd = in_node inst;
          out = unat (if is_and then nd_false_label nd else nd_true_label nd) in steps
       [enc (in_a inst), emit_test 0, emit_conditional_jump (if is_and then 4 else 5) out,
        enc (in_b inst), emit_test 0, emit_setcc 5, movzx_eax_al,
        emit_jump (unat (nd_end_label nd)), define_label out,
        if is_and then emit_bytes [0x31, 0xc0] else steps [emit8 0xb8, emit32 1],
        define_label (unat (nd_end_label nd))])"

definition encode_unary :: "recursion \<Rightarrow> unit_env \<Rightarrow> ir_inst \<Rightarrow> emitter" where
  "encode_unary enc env inst =
     (let T = ue_types env; op = in_op inst;
          float_operand = (case in_a inst of None \<Rightarrow> False | Some a \<Rightarrow> is_float_type T (in_type a)) in
      if (is_float_type T (in_type inst) \<or> float_operand) \<and> (op = IR_NEG \<or> op = IR_LOGICAL_NOT) then
        (let width = (if is_float_type T (in_type inst) then type_size T (in_type inst)
                      else operand_size T 8 (in_a inst)) in steps
          [enc (in_a inst),
           if op = IR_NEG then emit_xmm_negate width
           else steps [emit_xmm_convert_to_double width, emit_bytes [0x66, 0x0f, 0x57, 0xc9],
             emit_bytes [0x66, 0x0f, 0x2e, 0xc1], emit_bytes [0x0f, 0x94, 0xc0], emit_bytes [0x0f, 0x9b, 0xc1],
             emit_bytes [0x20, 0xc8], movzx_eax_al]])
      else steps
        [enc (in_a inst),
         case op of
           IR_NEG \<Rightarrow> steps [emit_bytes [0x48, 0xf7], emit_modrm_reg 3 0]
         | IR_BIT_NOT \<Rightarrow> steps [emit_bytes [0x48, 0xf7], emit_modrm_reg 2 0]
         | IR_LOGICAL_NOT \<Rightarrow> steps [emit_test 0, emit_bytes [0x0f, 0x94, 0xc0], movzx_eax_al]
         | _ \<Rightarrow> steps [],
         if op = IR_NEG \<or> op = IR_BIT_NOT then emit_normalize (ir_width inst) (in_signed inst) else steps []])"

definition encode_compare :: "recursion \<Rightarrow> unit_env \<Rightarrow> ir_inst \<Rightarrow> emitter" where
  "encode_compare enc env inst =
     (let T = ue_types env; a_type = (case in_a inst of None \<Rightarrow> None | Some a \<Rightarrow> in_type a) in
      if is_float_type T a_type then encode_float_compare enc env inst
      else steps
        [emit_two_operands enc inst,
         case condition_code (nd_compare (in_node inst)) (type_is_signed T a_type) of
           None \<Rightarrow> encoder_error 4022 (at_location inst) ''invalid comparison''
         | Some c \<Rightarrow> steps [emit_bytes [0x48, 0x39], emit_modrm_reg 1 0, emit_setcc c, movzx_eax_al]])"

definition encode_increment :: "recursion \<Rightarrow> unit_env \<Rightarrow> ir_inst \<Rightarrow> emitter" where
  "encode_increment enc env inst =
     (let T = ue_types env; width = ir_width inst in
      if in_a inst = None then encoder_error 4024 (at_location inst) ''increment requires an address''
      else if is_float_type T (in_type inst) then
        (let operand = type_size T (in_type inst) in steps
          [enc (in_a inst), emit_push 0, deeper, emit_xmm_load_rax operand, emit_xmm_convert_to_double operand,
           emit8 0x66, emit_rex True 0 0, emit_bytes [0x0f, 0x28], emit_modrm_reg 3 0,
           emit_xmm_step (sint (in_bits inst) < 0), emit_bytes [0xf2, 0x0f, 0x58, 0xc1],
           emit_xmm_convert_from_double operand, emit_pop 11, shallower, emit_store_xmm0_r11 (operand = 4),
           if in_post inst then
             steps [emit8 0x66, emit_rex True 3 0, emit_bytes [0x0f, 0x28], emit_modrm_reg 0 3] else steps []])
      else steps
        [enc (in_a inst), emit_push 0, deeper, emit_load_rax width (in_signed inst), emit_mov_reg_reg 10 0,
         emit_add_imm 0 (sint (in_bits inst)), emit_normalize width (in_signed inst), emit_pop 11, shallower,
         emit_store_mem 0 11 0 width, if in_post inst then emit_mov_reg_reg 0 10 else steps []])"

subsection \<open>Objects and control\<close>

definition encode_copy :: "recursion \<Rightarrow> ir_inst \<Rightarrow> emitter" where
  "encode_copy enc inst =
     (if in_a inst = None \<or> in_b inst = None then steps []
      else steps
        [enc (in_a inst), emit_push 0, deeper, enc (in_b inst), emit_mov_reg_reg 6 0, emit_pop 7, shallower,
         emit_mov_reg_reg 11 7, emit_object_copy (in_bits inst), emit_mov_reg_reg 0 11])"

definition encode_zero :: "recursion \<Rightarrow> ir_inst \<Rightarrow> emitter" where
  "encode_zero enc inst =
     (if in_a inst = None then steps []
      else steps
        [enc (in_a inst), emit_push 0, deeper, emit_mov_reg_reg 7 0, emit_mov_reg_imm 1 (in_bits inst) 8,
         emit_bytes [0x31, 0xc0], emit_bytes [0xf3, 0xaa], emit_pop 0, shallower])"

definition emit_case :: "ir_case \<Rightarrow> emitter" where
  "emit_case c = steps
     [emit_mov_reg_imm 1 (ic_value c) 8, emit_rex True 1 0, emit8 0x39, emit_modrm_reg 1 0,
      emit_conditional_jump 4 (unat (ic_label c))]"

definition encode_switch :: "recursion \<Rightarrow> ir_inst \<Rightarrow> emitter" where
  "encode_switch enc inst = steps
     [enc (in_a inst),
      case in_a inst of None \<Rightarrow> steps []
      | Some a \<Rightarrow>
          if nd_width (in_node a) = 4 then
            (if in_signed a then emit_bytes [0x48, 0x63, 0xc0] else emit_bytes [0x89, 0xc0])
          else steps [],
      steps (map emit_case (nd_cases (in_node inst))), emit_jump (unat (nd_default_label (in_node inst)))]"

definition encode_conditional :: "recursion \<Rightarrow> ir_inst \<Rightarrow> emitter" where
  "encode_conditional enc inst =
     (let nd = in_node inst in steps
       [enc (in_a inst), emit_test 0, emit_conditional_jump 4 (unat (nd_false_label nd)),
        enc (in_b inst), emit_jump (unat (nd_end_label nd)), define_label (unat (nd_false_label nd)),
        enc (in_c inst), define_label (unat (nd_end_label nd))])"

definition encode_comma :: "recursion \<Rightarrow> ir_inst \<Rightarrow> emitter" where
  "encode_comma enc inst = steps [enc (in_a inst), enc (in_b inst)]"

subsection \<open>128-bit operations\<close>

definition emit_alu_mem :: "byte \<Rightarrow> u32 \<Rightarrow> u32 \<Rightarrow> int \<Rightarrow> emitter" where
  "emit_alu_mem opcode reg base displacement = steps [emit8 0x48, emit8 opcode, emit_mem_reg base reg displacement]"

definition emit_shift_imm :: "u32 \<Rightarrow> u32 \<Rightarrow> nat \<Rightarrow> emitter" where
  "emit_shift_imm digit reg amount = steps
     [emit_rex True 0 reg, emit8 0xc1, emit8 (ucast (0xc0 OR push_bit 3 digit OR (reg AND 7))), emit8 (of_nat amount)]"

definition emit_mul_reg_mem :: "u32 \<Rightarrow> int \<Rightarrow> emitter" where
  "emit_mul_reg_mem base displacement = steps [emit_rex True 0 base, emit8 0xf7, emit_mem_reg base 4 displacement]"

definition encode_wide_mul :: "int \<Rightarrow> emitter" where
  "encode_wide_mul result = steps
     [emit_load_mem 0 11 0 8 False, emit_mul_reg_mem 10 0, emit_mov_reg_reg 8 0, emit_mov_reg_reg 1 2,
      emit_load_mem 0 11 8 8 False, emit_mul_reg_mem 10 8, emit_mov_reg_reg 9 2,
      emit_load_mem 0 11 8 8 False, emit_mul_reg_mem 10 0, emit_alu 0x01 9 2,
      emit_load_mem 0 11 0 8 False, emit_mul_reg_mem 10 8, emit_alu 0x01 9 2,
      emit_alu 0x01 9 1, emit_store_partial 8 5 result 8, emit_store_partial 9 5 (result + 8) 8]"

definition emit_wide_shift :: "bool \<Rightarrow> nat \<Rightarrow> emitter" where
  "emit_wide_shift to_left amount =
     (if amount = 0 then steps [emit_load_mem 0 11 0 8 False, emit_load_mem 1 11 8 8 False]
      else if amount \<ge> 128 then emit_bytes [0x31, 0xc0, 0x31, 0xc9]
      else if amount \<ge> 64 then steps
        [emit_load_mem (if to_left then 1 else 0) 11 (if to_left then 0 else 8) 8 False,
         emit_shift_imm (if to_left then 4 else 5) (if to_left then 1 else 0) (amount - 64),
         if to_left then emit_bytes [0x31, 0xc0] else emit_bytes [0x31, 0xc9]]
      else if to_left then steps
        [emit_load_mem 9 11 0 8 False, emit_shift_imm 4 9 amount, emit_load_mem 0 11 8 8 False,
         emit_shift_imm 4 0 amount, emit_load_mem 1 11 0 8 False, emit_shift_imm 5 1 (64 - amount),
         emit_alu 0x01 0 1, emit_mov_reg_reg 1 0, emit_mov_reg_reg 0 9]
      else steps
        [emit_load_mem 1 11 8 8 False, emit_shift_imm 5 1 amount, emit_load_mem 0 11 0 8 False,
         emit_shift_imm 5 0 amount, emit_load_mem 9 11 8 8 False, emit_shift_imm 4 9 (64 - amount),
         emit_rex True 9 0, emit8 0x09, emit_modrm_reg 9 0])"

definition wide_opcode :: "ir_op \<Rightarrow> byte" where
  "wide_opcode op =
     (case op of IR_WIDE_ADD \<Rightarrow> 0x03 | IR_WIDE_SUB \<Rightarrow> 0x2b | IR_WIDE_AND \<Rightarrow> 0x23 | IR_WIDE_OR \<Rightarrow> 0x0b | _ \<Rightarrow> 0x33)"

definition emit_wide_halves :: "ir_op \<Rightarrow> emitter" where
  "emit_wide_halves op = steps
     [emit_load_mem 0 11 0 8 False, emit_alu_mem (wide_opcode op) 0 10 0, emit_mov_reg_reg 9 0,
      emit_load_mem 0 11 8 8 False, emit_alu_mem (wide_opcode op) 0 10 8,
      if op = IR_WIDE_SUB then emit_bytes [0x48, 0x19, 0x5c, 0x08] else steps []]"

definition encode_wide :: "recursion \<Rightarrow> ir_inst \<Rightarrow> emitter" where
  "encode_wide enc inst =
     (let op = in_op inst; result = in_offset inst in steps
       [enc (in_a inst), emit_push 0, deeper, enc (in_b inst), emit_pop 11, shallower, emit_mov_reg_reg 10 0,
        if op = IR_WIDE_MUL then encode_wide_mul result
        else if op = IR_WIDE_SHL \<or> op = IR_WIDE_SHR then steps
          [emit_wide_shift (op = IR_WIDE_SHL) (unat (in_bits inst)), emit_store_partial 0 5 result 8,
           emit_store_partial 1 5 (result + 8) 8]
        else steps [emit_wide_halves op, emit_store_partial 9 5 result 8, emit_store_partial 0 5 (result + 8) 8],
        emit_lea_mem 5 0 result])"

definition encode_wide_cast :: "recursion \<Rightarrow> ir_inst \<Rightarrow> emitter" where
  "encode_wide_cast enc inst = steps
     [enc (in_a inst), emit_store_partial 0 5 (in_offset inst) 8, emit_bytes [0x31, 0xc0],
      emit_store_partial 0 5 (in_offset inst + 8) 8, emit_rex True 0 5, emit8 0x8d, emit_mem_reg 5 0 (in_offset inst)]"

definition encode_cast :: "recursion \<Rightarrow> unit_env \<Rightarrow> ir_inst \<Rightarrow> emitter" where
  "encode_cast enc env inst =
     (let T = ue_types env; width = ir_width inst;
          from_wide = (nd_flags (in_node inst) AND IR_FLAG_WIDE_VALUE \<noteq> 0);
          float_operand = (case in_a inst of None \<Rightarrow> False | Some a \<Rightarrow> is_float_type T (in_type a)) in
      if kind_of T (in_type inst) = Some TYPE_UINT128 then
        (if from_wide then enc (in_a inst) else encode_wide_cast enc inst)
      else if from_wide then steps [enc (in_a inst), emit_load_mem 0 0 0 8 False]
      else if is_float_type T (in_type inst) then
        (if float_operand \<and> operand_size T 8 (in_a inst) = type_size T (in_type inst) then enc (in_a inst)
         else steps
           [enc (in_a inst),
            if float_operand then emit_xmm_convert_to_double (operand_size T 8 (in_a inst))
            else emit_bytes [0xf2, 0x48, 0x0f, 0x2a, 0xc0],
            emit_xmm_convert_from_double width])
      else steps
        [enc (in_a inst),
         if float_operand then steps [emit_xmm_convert_to_double (operand_size T 8 (in_a inst)), emit_xmm_move_to_rax width]
         else steps [],
         if width \<noteq> 8 then emit_normalize width (type_is_signed T (in_type inst)) else steps []])"

end
