(* ===== verification/Enc_Call.thy ===== *)
theory Enc_Call
  imports Enc_Expr
begin

text \<open>
  Calls, the dispatch over instructions, statements and whole functions of the encoder
  (\<open>src/src/backend/encoder.c\<close>). The arguments of a call are numbered as in the list of them, and each has the
  slot that \<open>abi_assign_arguments\<close> gives it.
\<close>

subsection \<open>Slots\<close>

definition nth_argument :: "ir_inst \<Rightarrow> nat \<Rightarrow> ir_inst option" where
  "nth_argument inst index = (if index < length (in_args inst) then Some (in_args inst ! index) else None)"

text \<open>A slot as \<open>calloc\<close> leaves it.\<close>

definition zero_slot :: arg_slot where
  "zero_slot = \<lparr>as_ok = False, as_in_register = False, as_memory = False, as_pieces = 0,
     as_classes = [AGG_INTEGER, AGG_INTEGER], as_registers = [0, 0], as_stack_offset = 0, as_size = 0\<rparr>"

definition returns_memory :: "ctype list \<Rightarrow> nat option \<Rightarrow> bool" where
  "returns_memory T type \<longleftrightarrow>
     type \<noteq> None \<and> argument_is_aggregate T type \<and> snd (snd (aggregate_pieces T type))"

definition assign_slots :: "ctype list \<Rightarrow> nat option list \<Rightarrow> bool \<Rightarrow> nat \<times> arg_slot list" where
  "assign_slots T types in_memory =
     (case abi_assign_arguments (Suc (length T)) T types in_memory (replicate (length types) zero_slot) of
        None \<Rightarrow> (0, replicate (length types) zero_slot) | Some r \<Rightarrow> r)"

definition call_slots :: "ctype list \<Rightarrow> ir_inst \<Rightarrow> nat \<times> arg_slot list" where
  "call_slots T inst =
     (if in_args inst = [] then (0, [])
      else assign_slots T (map (\<lambda>a. in_type a) (in_args inst)) (returns_memory T (in_type inst)))"

text \<open>The pieces of a record in order, each no wider than what is left of it.\<close>

primrec piece_moves :: "(nat \<Rightarrow> nat \<Rightarrow> emitter) \<Rightarrow> nat \<Rightarrow> nat \<Rightarrow> nat \<Rightarrow> emitter" where
  "piece_moves move 0 piece remaining = steps []"
| "piece_moves move (Suc pieces) piece remaining =
     (let width = (if remaining \<ge> 8 then 8 else remaining) in
      steps [move piece width, piece_moves move pieces (Suc piece) (remaining - width)])"

subsection \<open>Passing records\<close>

text \<open>The slots of a record from its end down; each is as wide as the odd part of the record.\<close>

function push_slots :: "nat \<Rightarrow> nat \<Rightarrow> emitter" where
  "push_slots bytes end_at =
     (if end_at = 0 then steps []
      else let width = (if bytes mod 8 = 0 \<or> bytes mod 8 > end_at then (if end_at \<ge> 8 then 8 else end_at) else bytes mod 8);
               start = end_at - width in
        steps [emit_load_partial 0 10 (int start) width, emit_push 0, deeper, push_slots bytes start])"
  by pat_completeness auto
termination by (relation "measure snd") (auto split: if_splits)

declare push_slots.simps [simp del]

definition emit_push_aggregate :: "recursion \<Rightarrow> ctype list \<Rightarrow> ir_inst \<Rightarrow> emitter" where
  "emit_push_aggregate enc T arg =
     (let bytes = type_size T (in_type arg); whole = size_wrap (bytes + 7) div 8 * 8 in steps
       [enc (Some arg),
        if whole \<le> 8 then steps [emit_push 0, deeper]
        else steps [emit_mov_reg_reg 10 0, push_slots bytes whole]])"

definition emit_take_aggregate :: "arg_slot \<Rightarrow> ctype list \<Rightarrow> nat option \<Rightarrow> emitter" where
  "emit_take_aggregate slot T type = steps
     [emit_bytes [0x4c, 0x8b, 0x1c, 0x24],
      piece_moves (\<lambda>piece width.
          if as_classes slot ! piece = AGG_SSE
          then emit_load_piece_vector (of_nat (as_registers slot ! piece)) 11 (int piece * 8) width
          else emit_load_partial (argument_registers ! (as_registers slot ! piece)) 11 (int piece * 8) width)
        (as_pieces slot) 0 (type_size T type),
      release_slot]"

subsection \<open>Calls\<close>

definition stack_units :: "arg_slot list \<Rightarrow> nat" where
  "stack_units slots = (\<Sum>slot \<leftarrow> slots. if as_in_register slot then 0 else as_size slot div 8)"

text \<open>The first pass pushes what travels on the stack, the second leaves every other argument there too.\<close>

definition push_stack_argument :: "recursion \<Rightarrow> ctype list \<Rightarrow> ir_inst \<Rightarrow> arg_slot list \<Rightarrow> nat \<Rightarrow> emitter" where
  "push_stack_argument enc T inst slots index =
     (if as_in_register (slots ! index) then steps []
      else case nth_argument inst index of None \<Rightarrow> steps []
      | Some arg \<Rightarrow>
          if argument_is_aggregate T (in_type arg) then emit_push_aggregate enc T arg
          else steps [enc (Some arg),
            if as_classes (slots ! index) ! 0 = AGG_SSE then emit_save_xmm0 (type_size T (in_type arg))
            else steps [emit_push 0, deeper]])"

definition push_register_argument :: "recursion \<Rightarrow> ctype list \<Rightarrow> ir_inst \<Rightarrow> arg_slot list \<Rightarrow> nat \<Rightarrow> emitter" where
  "push_register_argument enc T inst slots index =
     (if \<not> as_in_register (slots ! index) then steps []
      else case nth_argument inst index of None \<Rightarrow> steps []
      | Some arg \<Rightarrow> steps [enc (Some arg),
            if argument_is_aggregate T (in_type arg) \<or> as_classes (slots ! index) ! 0 \<noteq> AGG_SSE
            then steps [emit_push 0, deeper] else emit_save_xmm0 (type_size T (in_type arg))])"

definition load_argument :: "ctype list \<Rightarrow> ir_inst \<Rightarrow> arg_slot list \<Rightarrow> nat \<Rightarrow> emitter" where
  "load_argument T inst slots index =
     (if \<not> as_in_register (slots ! index) then steps []
      else case nth_argument inst index of None \<Rightarrow> steps []
      | Some arg \<Rightarrow>
          let slot = slots ! index in
          if argument_is_aggregate T (in_type arg) then emit_take_aggregate slot T (in_type arg)
          else if as_classes slot ! 0 = AGG_SSE then
            emit_restore_xmm (of_nat (as_registers slot ! 0)) (type_size T (in_type arg))
          else steps [emit_pop (argument_registers ! (as_registers slot ! 0)), shallower])"

definition call_target :: "ir_inst \<Rightarrow> nat option" where
  "call_target inst =
     (case in_a inst of None \<Rightarrow> None | Some f \<Rightarrow> if in_op f = IR_ADDR then in_symbol f else None)"

definition symbol_variadic :: "unit_env \<Rightarrow> nat \<Rightarrow> bool" where
  "symbol_variadic env s =
     (case sy_type (ue_symbols env s) of None \<Rightarrow> False | Some t \<Rightarrow> ty_variadic (ue_types env ! t))"

definition named_parameters :: "ctype list \<Rightarrow> sym list \<Rightarrow> nat" where
  "named_parameters T ps = min 6 (length (filter (\<lambda>p. \<not> is_float_type T (sy_type p)) ps))"

text \<open>The builtin that yields the first unnamed argument slot of the function.\<close>

definition function_type :: "unit_env \<Rightarrow> ir_function \<Rightarrow> ctype" where
  "function_type env f = ue_types env ! the (sy_type (ue_symbols env (the (fn_symbol f))))"

definition encode_va_start :: "unit_env \<Rightarrow> ir_inst \<Rightarrow> emitter" where
  "encode_va_start env inst e =
     (let no_area = encoder_error 4021 (at_location inst) ''va_start used outside a variadic function'' e in
      case en_function e of None \<Rightarrow> no_area
      | Some f \<Rightarrow>
          if \<not> ty_variadic (function_type env f) \<or> fn_va_area_offset f = 0 then no_area
          else steps [emit_rex True 0 5, emit8 0x8d,
            emit_mem_reg 5 0 (fn_va_area_offset f +
              int (named_parameters (ue_types env) (ty_parameters (function_type env f))) * 8)] e)"

text \<open>The transfer of control, with the count of vector registers for a variadic function.\<close>

definition emit_transfer :: "unit_env \<Rightarrow> ir_inst \<Rightarrow> emitter" where
  "emit_transfer env inst = steps
     [case in_type inst of None \<Rightarrow> steps []
      | Some t \<Rightarrow>
          if argument_is_aggregate (ue_types env) (Some t) \<and> fst (aggregate_pieces (ue_types env) (Some t)) = 0 \<and>
             snd (snd (aggregate_pieces (ue_types env) (Some t)))
          then emit_lea_mem 5 (argument_registers ! 0) (in_offset inst) else steps [],
      case call_target inst of
        Some s \<Rightarrow> steps
          [if symbol_variadic env s then emit_bytes [0x31, 0xc0] else steps [],
           emit8 0xe8,
           \<lambda>e. case emit_symbol_field (symbol_reference (ue_symbols env s)) e of (recorded, e) \<Rightarrow>
             if recorded then e else encoder_error 4020 (at_location inst) ''cannot record call relocation'' e]
      | None \<Rightarrow> steps [emit_rex False 2 11, emit8 0xff, emit_modrm_reg 2 11]]"

definition release_area :: "nat \<Rightarrow> nat \<Rightarrow> emitter" where
  "release_area area units =
     (if area = 0 then steps []
      else steps
        [if area \<le> 127 then emit_bytes [0x48, 0x83, 0xc4, of_nat area]
         else steps [emit_bytes [0x48, 0x81, 0xc4], emit32 (of_nat area)],
         \<lambda>e. e\<lparr>en_stack_depth := size_wrap (en_stack_depth e + (2 ^ 64 - units mod 2 ^ 64))\<rparr>])"

definition return_general :: "u32 list" where
  "return_general = [0, 2]"

text \<open>What becomes of the result.\<close>

definition emit_call_result :: "ctype list \<Rightarrow> ir_inst \<Rightarrow> emitter" where
  "emit_call_result T inst =
     (case in_type inst of None \<Rightarrow> steps []
      | Some t \<Rightarrow>
          if argument_is_aggregate T (Some t) then
            (case aggregate_pieces T (Some t) of (pieces, classes, memory) \<Rightarrow>
               if pieces = 0 \<and> \<not> memory then
                 encoder_error 4023 (at_location inst) ''return value cannot be passed under this ABI''
               else if memory then steps []
               else steps
                 [piece_moves (\<lambda>piece width.
                      if classes ! piece = AGG_SSE
                      then emit_store_piece_vector (of_nat piece) 5 (in_offset inst + int piece * 8) width
                      else emit_store_partial (return_general ! piece) 5 (in_offset inst + int piece * 8) width)
                    pieces 0 (type_size T (Some t)),
                  emit_rex True 0 5, emit8 0x8d, emit_mem_reg 5 0 (in_offset inst)])
          else if \<not> is_float_type T (Some t) then emit_normalize (type_size T (Some t)) (type_is_signed T (Some t))
          else steps [])"

definition encode_call :: "recursion \<Rightarrow> unit_env \<Rightarrow> ir_inst \<Rightarrow> emitter" where
  "encode_call enc env inst e =
     (let T = ue_types env; n = length (in_args inst) in
      if n > 64 then encoder_error 4020 (at_location inst) ''call argument limit exceeded'' e
      else case call_slots T inst of (area, slots) \<Rightarrow>
        if \<exists>slot \<in> set slots. \<not> as_ok slot
        then encoder_error 4023 (at_location inst) ''argument cannot be passed under this ABI'' e
        else if n = 0 \<and> map_option (\<lambda>s. sy_name (ue_symbols env s)) (call_target inst) = Some (cstr ''__cc64_va_start'')
        then encode_va_start env inst e
        else let units = stack_units slots; adjust = odd (en_stack_depth e + units) in steps
          [if adjust then reserve_slot else steps [],
           steps (map (push_stack_argument enc T inst slots) (rev [0..<n])),
           steps (map (push_register_argument enc T inst slots) [0..<n]),
           if call_target inst = None then
             steps [enc (in_a inst), emit_push 0, deeper, emit_pop 11, shallower] else steps [],
           steps (map (load_argument T inst slots) (rev [0..<n])),
           emit_transfer env inst,
           release_area area units,
           if adjust then release_slot else steps [],
           emit_call_result T inst] e)"

subsection \<open>Expressions\<close>

definition encode_node :: "recursion \<Rightarrow> unit_env \<Rightarrow> ir_inst \<Rightarrow> emitter" where
  "encode_node enc env inst =
     (case in_op inst of
        IR_CONST \<Rightarrow> encode_const inst
      | IR_FLOAT_CONST \<Rightarrow> encode_float_constant env inst
      | IR_LOAD \<Rightarrow> encode_load enc env inst
      | IR_STORE \<Rightarrow> encode_store enc env inst
      | IR_ADDR \<Rightarrow> encode_addr enc env inst
      | IR_AGGREGATE \<Rightarrow> enc (in_a inst)
      | IR_WIDE_ADD \<Rightarrow> encode_wide enc inst | IR_WIDE_SUB \<Rightarrow> encode_wide enc inst
      | IR_WIDE_MUL \<Rightarrow> encode_wide enc inst | IR_WIDE_AND \<Rightarrow> encode_wide enc inst
      | IR_WIDE_OR \<Rightarrow> encode_wide enc inst | IR_WIDE_XOR \<Rightarrow> encode_wide enc inst
      | IR_WIDE_SHL \<Rightarrow> encode_wide enc inst | IR_WIDE_SHR \<Rightarrow> encode_wide enc inst
      | IR_MEMBER \<Rightarrow> encode_member enc inst
      | IR_CALL \<Rightarrow> encode_call enc env inst
      | IR_CAST \<Rightarrow> encode_cast enc env inst
      | IR_COMMA \<Rightarrow> encode_comma enc inst
      | IR_CONDITIONAL \<Rightarrow> encode_conditional enc inst
      | IR_SWITCH \<Rightarrow> encode_switch enc inst
      | IR_INCREMENT \<Rightarrow> encode_increment enc env inst
      | IR_ZERO \<Rightarrow> encode_zero enc inst
      | IR_COPY \<Rightarrow> encode_copy enc inst
      | IR_COMPOUND \<Rightarrow> encode_compound enc env inst
      | IR_COMPARE \<Rightarrow> encode_compare enc env inst
      | IR_LOGICAL_AND \<Rightarrow> encode_logical enc inst | IR_LOGICAL_OR \<Rightarrow> encode_logical enc inst
      | IR_NEG \<Rightarrow> encode_unary enc env inst | IR_BIT_NOT \<Rightarrow> encode_unary enc env inst
      | IR_LOGICAL_NOT \<Rightarrow> encode_unary enc env inst
      | op \<Rightarrow>
          if op \<in> {IR_ADD, IR_SUB, IR_MUL, IR_DIV, IR_MOD, IR_SHL, IR_SHR, IR_BIT_AND, IR_BIT_OR, IR_BIT_XOR} then
            (if is_float_type (ue_types env) (in_type inst) \<and> op \<in> {IR_ADD, IR_SUB, IR_MUL, IR_DIV}
             then encode_float_binary enc env inst else encode_binary enc inst)
          else encoder_error 4023 (at_location inst) ''invalid expression IR opcode'')"

text \<open>The recursion goes into the operands only.\<close>

lemma nth_argument_operand: "nth_argument inst index = Some x \<Longrightarrow> x \<in> operands inst"
  by (auto simp: nth_argument_def operands_def split: if_splits)

lemma encode_call_cong:
  assumes "\<And>x. x \<in> operands inst \<Longrightarrow> enc (Some x) = enc' (Some x)" "enc (in_a inst) = enc' (in_a inst)"
  shows "encode_call enc env inst = encode_call enc' env inst"
proof -
  have arg: "enc (Some x) = enc' (Some x)" if "nth_argument inst index = Some x" for index x
    using assms(1) nth_argument_operand [OF that] by blast
  have stack: "push_stack_argument enc T inst slots = push_stack_argument enc' T inst slots" for T slots
    by (rule ext) (simp add: push_stack_argument_def emit_push_aggregate_def arg split: option.split)
  have reg: "push_register_argument enc T inst slots = push_register_argument enc' T inst slots" for T slots
    by (rule ext) (simp add: push_register_argument_def arg split: option.split)
  show ?thesis unfolding fun_eq_iff encode_call_def stack reg assms(2) by simp
qed

lemmas recursive_encoders =
  encode_load_def encode_store_def encode_addr_def encode_wide_def encode_member_def encode_cast_def
  encode_wide_cast_def encode_comma_def encode_conditional_def encode_switch_def encode_increment_def
  encode_zero_def encode_copy_def encode_compound_def encode_compound_float_def encode_compare_def
  encode_float_compare_def encode_float_binary_def encode_binary_def encode_logical_def encode_unary_def
  emit_two_operands_def emit_float_operands_def

lemma encode_node_cong [fundef_cong]:
  assumes "inst = inst'" "env = env'" "e = e'"
    "\<And>x. x \<in> operands inst' \<Longrightarrow> enc (Some x) = enc' (Some x)" "enc None = enc' None"
  shows "encode_node enc env inst e = encode_node enc' env' inst' e'"
proof -
  have a: "enc (in_a inst') = enc' (in_a inst')" using assms(4,5) by (cases "in_a inst'") (auto simp: operands_def)
  have b: "enc (in_b inst') = enc' (in_b inst')" using assms(4,5) by (cases "in_b inst'") (auto simp: operands_def)
  have c: "enc (in_c inst') = enc' (in_c inst')" using assms(4,5) by (cases "in_c inst'") (auto simp: operands_def)
  have addr: "encode_addr enc env' inst' = encode_addr enc' env' inst'"
    using a by (auto simp: encode_addr_def split: option.split)
  have "encode_node enc env' inst' = encode_node enc' env' inst'"
    unfolding encode_node_def encode_call_cong [OF assms(4) a, simplified] addr
    unfolding recursive_encoders a b c ..
  with assms(1-3) show ?thesis by simp
qed

function encode_expr :: "unit_env \<Rightarrow> ir_inst option \<Rightarrow> emitter" where
  "encode_expr env None e = e"
| "encode_expr env (Some inst) e =
     (if en_failed e then e else encode_node (\<lambda>x. encode_expr env x) env inst e)"
  by pat_completeness auto
termination
  by (relation "measure (\<lambda>(env, x, e). case x of None \<Rightarrow> 0 | Some i \<Rightarrow> Suc (size i))") (auto dest: operands_size)

end
