(* ===== verification/Enc_Function.thy ===== *)
theory Enc_Function
  imports Enc_Call
begin

text \<open>
  Statements, prologues and whole functions of the encoder (\<open>src/src/backend/encoder.c\<close>).
\<close>

definition emit_epilogue :: emitter where
  "emit_epilogue = steps [emit_bytes [0x48, 0x89], emit_modrm_reg 5 4, emit_pop 5, emit8 0xc3]"

text \<open>A result too large for the registers goes where the caller said; a smaller record into the return registers.\<close>

definition return_memory :: "ctype list \<Rightarrow> ir_inst \<Rightarrow> emitter" where
  "return_memory T inst e =
     (let no_pointer = encoder_error 4023 (at_location inst) ''no return pointer for a memory result'' e in
      case en_function e of None \<Rightarrow> no_pointer
      | Some f \<Rightarrow>
          if fn_return_pointer_offset f = 0 then no_pointer
          else steps
            [emit_mov_reg_reg 6 0, emit_load_mem 7 5 (fn_return_pointer_offset f) 8 False, emit_mov_reg_reg 11 7,
             emit_object_copy (of_nat (type_size T (in_type inst))), emit_mov_reg_reg 0 11, emit_epilogue] e)"

definition return_pieces :: "ctype list \<Rightarrow> ir_inst \<Rightarrow> nat \<Rightarrow> agg_class list \<Rightarrow> emitter" where
  "return_pieces T inst pieces classes = steps
     [emit_mov_reg_reg 11 0,
      piece_moves (\<lambda>piece width.
          if classes ! piece = AGG_SSE
          then emit_load_piece_vector (of_nat piece) 11 (int piece * 8) width
          else emit_load_partial (return_general ! piece) 11 (int piece * 8) width)
        pieces 0 (type_size T (in_type inst)),
      emit_epilogue]"

definition encode_return :: "unit_env \<Rightarrow> ir_inst \<Rightarrow> emitter" where
  "encode_return env inst =
     (let T = ue_types env; type = in_type inst in
      case in_a inst of None \<Rightarrow> emit_epilogue
      | Some a \<Rightarrow> steps
          [encode_expr env (Some a),
           if type \<noteq> None \<and> argument_is_aggregate T type then
             (case aggregate_pieces T type of (pieces, classes, memory) \<Rightarrow>
               if pieces = 0 \<and> \<not> memory then
                 encoder_error 4023 (at_location inst) ''return value cannot be passed under this ABI''
               else if memory then return_memory T inst
               else return_pieces T inst pieces classes)
           else steps
             [if type \<noteq> None \<and> \<not> type_is_void T type then emit_normalize (type_size T type) (type_is_signed T type)
              else steps [],
              emit_epilogue]])"

definition encode_statement :: "unit_env \<Rightarrow> ir_inst \<Rightarrow> emitter" where
  "encode_statement env inst e =
     (if en_failed e then e
      else case in_op inst of
        IR_LABEL \<Rightarrow> define_label (unat (nd_id (in_node inst))) e
      | IR_JUMP \<Rightarrow> emit_jump (unat (nd_id (in_node inst))) e
      | IR_BRANCH \<Rightarrow> steps
          [encode_expr env (in_a inst), emit_test 0,
           emit_conditional_jump 4 (unat (nd_false_label (in_node inst)))] e
      | IR_RETURN \<Rightarrow> encode_return env inst e
      | _ \<Rightarrow> encode_expr env (Some inst) e)"

subsection \<open>Prologue\<close>

definition emit_parameter_pieces :: "arg_slot \<Rightarrow> ctype list \<Rightarrow> nat option \<Rightarrow> int \<Rightarrow> emitter" where
  "emit_parameter_pieces slot T type offset =
     piece_moves (\<lambda>piece width.
         if as_classes slot ! piece = AGG_SSE
         then emit_store_piece_vector (of_nat (as_registers slot ! piece)) 5 (offset + int piece * 8) width
         else emit_store_partial (argument_registers ! (as_registers slot ! piece)) 5 (offset + int piece * 8) width)
       (as_pieces slot) 0 (type_size T type)"

definition emit_parameter :: "ctype list \<Rightarrow> sym \<times> arg_slot \<Rightarrow> emitter" where
  "emit_parameter T ps =
     (case ps of (p, slot) \<Rightarrow>
        if \<not> as_ok slot \<or> \<not> as_in_register slot then steps []
        else if argument_is_aggregate T (sy_type p) then
          emit_parameter_pieces slot T (sy_type p) (frame_offset (sy_offset p))
        else if as_classes slot ! 0 = AGG_SSE then
          emit_store_piece_vector (of_nat (as_registers slot ! 0)) 5 (frame_offset (sy_offset p)) (type_size T (sy_type p))
        else
          emit_store_partial (argument_registers ! (as_registers slot ! 0)) 5 (frame_offset (sy_offset p))
            (type_size T (sy_type p)))"

text \<open>The save area of a variadic function: the argument registers and a copy of the incoming stack slots.\<close>

definition emit_variadic_area :: "int \<Rightarrow> nat \<Rightarrow> emitter" where
  "emit_variadic_area area named =
     (let source = 16 + int (if named > 6 then named - 6 else 0) * 8 in steps
       [steps (map (\<lambda>i. emit_store_mem (argument_registers ! i) 5 (area + int i * 8) 8) [0..<6]),
        steps (map (\<lambda>slot. steps
          [emit_bytes [0x48, 0x8b, 0x85], emit32 (word_of_int (source + int slot * 8)),
           emit_bytes [0x48, 0x89, 0x85], emit32 (word_of_int (area + 48 + int slot * 8))])
          [0..<CC64_VARIADIC_SLOTS])])"

definition emit_prologue :: "unit_env \<Rightarrow> ir_function \<Rightarrow> emitter" where
  "emit_prologue env f =
     (let T = ue_types env; ftype = function_type env f; ps = ty_parameters ftype in steps
       [emit_push 5, emit_mov_reg_reg 5 4,
        if fn_frame_size f \<noteq> 0 then steps [emit_bytes [0x48, 0x81, 0xec], emit32 (of_nat (fn_frame_size f))] else steps [],
        if fn_return_pointer_offset f \<noteq> 0 then emit_store_mem (argument_registers ! 0) 5 (fn_return_pointer_offset f) 8
        else steps [],
        if ps = [] then steps []
        else steps
          [steps (map (emit_parameter T) (zip ps
             (snd (assign_slots T (map (\<lambda>p. sy_type p) ps) (returns_memory T (ty_return ftype)))))),
           if ty_variadic ftype \<and> fn_va_area_offset f \<noteq> 0
           then emit_variadic_area (fn_va_area_offset f) (named_parameters T ps) else steps []]])"

subsection \<open>Functions\<close>

text \<open>The first entry that satisfies a condition, changed.\<close>

fun update_first :: "('a \<Rightarrow> bool) \<Rightarrow> ('a \<Rightarrow> 'a) \<Rightarrow> 'a list \<Rightarrow> 'a list" where
  "update_first P f [] = []"
| "update_first P f (x # xs) = (if P x then f x # xs else x # update_first P f xs)"

definition update_symbols :: "(object_symbol \<Rightarrow> bool) \<Rightarrow> (object_symbol \<Rightarrow> object_symbol) \<Rightarrow> emitter" where
  "update_symbols P f e =
     e\<lparr>en_builder := (en_builder e)\<lparr>b_symbols := update_first P f (b_symbols (en_builder e))\<rparr>\<rparr>"

definition section_size :: "encoder \<Rightarrow> nat \<Rightarrow> nat" where
  "section_size e i = length (os_data (b_sections (en_builder e) ! i))"

definition append_section :: "nat \<Rightarrow> byte list \<Rightarrow> encoder \<Rightarrow> bool \<times> encoder" where
  "append_section i bytes e =
     (case object_append_data (en_builder e) (Some i) bytes of None \<Rightarrow> (False, e) | Some b \<Rightarrow> (True, e\<lparr>en_builder := b\<rparr>))"

definition start_function :: "ir_function \<Rightarrow> emitter" where
  "start_function f e =
     e\<lparr>en_code := [], en_stack_depth := 0, en_labels := [], en_fixups := [],
       en_function_offset := section_size e TEXT, en_function := Some f\<rparr>"

definition encode_body :: "unit_env \<Rightarrow> ir_function \<Rightarrow> emitter" where
  "encode_body env f = steps
     [emit_prologue env f, steps (map (encode_statement env) (fn_body f)),
      \<lambda>e. if en_failed e then e else emit_epilogue e]"

definition encode_function :: "unit_env \<Rightarrow> ir_function \<Rightarrow> encoder \<Rightarrow> bool \<times> encoder" where
  "encode_function env f e =
     (case resolve_labels (encode_body env f (start_function f e)) of (resolved, e) \<Rightarrow>
        if \<not> resolved then (False, e)
        else case append_section TEXT (en_code e) e of (appended, e) \<Rightarrow>
          if \<not> appended then (False, e)
          else
            let e = update_symbols (\<lambda>y. ob_name y = sy_name (ue_symbols env (the (fn_symbol f))))
                  (\<lambda>y. y\<lparr>ob_value := of_nat (en_function_offset e), ob_size := of_nat (length (en_code e))\<rparr>) e
            in (\<not> en_failed e, e\<lparr>en_code := []\<rparr>))"

end
