(* ===== verification/Enc_Data.thy ===== *)
theory Enc_Data
  imports Enc_Function
begin

text \<open>
  The data of a unit (\<open>src/src/backend/encoder.c\<close>): constant initializers written into the bytes of an object,
  with relocations for addresses, and the layout of the objects in the data section. A write outside the bytes of
  the object is no value.
\<close>

subsection \<open>Constant expressions\<close>

fun initializer_address_symbol :: "ast_node list \<Rightarrow> nat option" where
  "initializer_address_symbol [] = None"
| "initializer_address_symbol (AstNode f a b # rest) =
     (if an_kind f = NODE_CAST \<or> an_kind f = NODE_INITIALIZER then initializer_address_symbol a
      else if an_kind f = NODE_STRING then an_literal_symbol f
      else if an_kind f = NODE_IDENTIFIER then an_symbol f
      else if an_kind f = NODE_ADDRESS then initializer_address_symbol a
      else None)"

definition unary_value :: "unary_operator \<Rightarrow> u64 \<Rightarrow> u64 option" where
  "unary_value op x =
     (case op of UNARY_PLUS \<Rightarrow> Some x | UNARY_MINUS \<Rightarrow> Some (0 - x) | UNARY_BITWISE_NOT \<Rightarrow> Some (NOT x)
      | UNARY_LOGICAL_NOT \<Rightarrow> Some (of_bool (x = 0)) | _ \<Rightarrow> None)"

definition binary_value :: "binary_operator \<Rightarrow> u64 \<Rightarrow> u64 \<Rightarrow> u64 option" where
  "binary_value op x y =
     (case op of BINARY_ADD \<Rightarrow> Some (x + y) | BINARY_SUBTRACT \<Rightarrow> Some (x - y) | BINARY_MULTIPLY \<Rightarrow> Some (x * y)
      | BINARY_DIVIDE \<Rightarrow> (if y = 0 then None else Some (x div y))
      | BINARY_REMAINDER \<Rightarrow> (if y = 0 then None else Some (x mod y))
      | BINARY_LEFT_SHIFT \<Rightarrow> Some (push_bit (unat (y AND 63)) x)
      | BINARY_RIGHT_SHIFT \<Rightarrow> Some (drop_bit (unat (y AND 63)) x)
      | BINARY_BITWISE_AND \<Rightarrow> Some (x AND y) | BINARY_BITWISE_OR \<Rightarrow> Some (x OR y) | BINARY_BITWISE_XOR \<Rightarrow> Some (x XOR y)
      | BINARY_LOGICAL_AND \<Rightarrow> Some (of_bool (x \<noteq> 0 \<and> y \<noteq> 0)) | BINARY_LOGICAL_OR \<Rightarrow> Some (of_bool (x \<noteq> 0 \<or> y \<noteq> 0))
      | BINARY_LESS \<Rightarrow> Some (of_bool (x < y)) | BINARY_LESS_EQUAL \<Rightarrow> Some (of_bool (x \<le> y))
      | BINARY_GREATER \<Rightarrow> Some (of_bool (x > y)) | BINARY_GREATER_EQUAL \<Rightarrow> Some (of_bool (x \<ge> y))
      | BINARY_EQUAL \<Rightarrow> Some (of_bool (x = y)) | BINARY_NOT_EQUAL \<Rightarrow> Some (of_bool (x \<noteq> y)))"

fun constant_integer_value :: "(nat \<Rightarrow> ir_symbol) \<Rightarrow> ast_node list \<Rightarrow> u64 option" where
  "constant_integer_value S [] = None"
| "constant_integer_value S (AstNode f a b # rest) =
     (case an_kind f of
        NODE_INTEGER \<Rightarrow> Some (an_unsigned_integer f)
      | NODE_SIZEOF \<Rightarrow> Some (an_unsigned_integer f)
      | NODE_IDENTIFIER \<Rightarrow>
          (case an_symbol f of None \<Rightarrow> None
           | Some s \<Rightarrow> if sy_class (S s) = SYMBOL_ENUM_CONSTANT then Some (word_of_int (sy_enum_value (S s))) else None)
      | NODE_INITIALIZER \<Rightarrow> constant_integer_value S a
      | NODE_CAST \<Rightarrow> constant_integer_value S a
      | NODE_UNARY \<Rightarrow> (case constant_integer_value S a of None \<Rightarrow> None | Some x \<Rightarrow> unary_value (an_unary f) x)
      | NODE_BINARY \<Rightarrow>
          (case constant_integer_value S a of None \<Rightarrow> None
           | Some x \<Rightarrow> (case constant_integer_value S b of None \<Rightarrow> None | Some y \<Rightarrow> binary_value (an_binary f) x y))
      | _ \<Rightarrow> None)"

subsection \<open>Initializers\<close>

text \<open>Bytes from an offset on.\<close>

definition store_at :: "nat \<Rightarrow> byte list \<Rightarrow> byte list \<Rightarrow> byte list option" where
  "store_at base new bytes =
     (if base + length new \<le> length bytes then Some (take base bytes @ new @ drop (base + length new) bytes) else None)"

definition little_bytes :: "nat \<Rightarrow> u64 \<Rightarrow> byte list" where
  "little_bytes n v = map (\<lambda>i. ucast (drop_bit (i * 8) v)) [0..<n]"

definition is_record_kind :: "type_kind \<Rightarrow> bool" where
  "is_record_kind k \<longleftrightarrow> k = TYPE_STRUCT \<or> k = TYPE_UNION"

fun skip_initializer :: "ctype list \<Rightarrow> nat option \<Rightarrow> ast_node list \<Rightarrow> ast_node list" where
  "skip_initializer T type [] = []"
| "skip_initializer T type (AstNode f a b # rest) =
     (if an_kind f = NODE_CAST \<or>
         an_kind f = NODE_INITIALIZER \<and> type \<noteq> None \<and> kind_of T type \<noteq> Some TYPE_ARRAY \<and>
         \<not> is_record_kind (the (kind_of T type))
      then skip_initializer T type a else AstNode f a b # rest)"

text \<open>The result, the encoder and the bytes of the object.\<close>

type_synonym written_data = "(bool \<times> encoder \<times> byte list) option"

text \<open>A value that is not a list of values for an array or a record.\<close>

definition write_scalar :: "unit_env \<Rightarrow> ast_node list \<Rightarrow> nat \<Rightarrow> encoder \<Rightarrow> byte list \<Rightarrow> nat \<Rightarrow> nat \<Rightarrow> nat \<Rightarrow> written_data" where
  "write_scalar env v t e bytes base limit origin =
     (let T = ue_types env; width = (if type_size T (Some t) = 0 then 1 else type_size T (Some t));
          value_fields = as_fields (hd v);
          target = (if type_is_pointer T (Some t) \<and> width = 8 then initializer_address_symbol v else None) in
      if base > limit \<or> width > limit - base then Some (True, e, bytes)
      else case target of
        Some s \<Rightarrow>
          (case store_at base (replicate width 0) bytes of None \<Rightarrow> None
           | Some bytes \<Rightarrow>
             let r = symbol_reference (ue_symbols env s); e = snd (object_symbol_index r e) in
             (case object_add_relocation (en_builder e) (Some DATA) origin (Some r) REL_DATA64 0 8 of
                None \<Rightarrow> Some (False, e, bytes)
              | Some b \<Rightarrow> Some (True, e\<lparr>en_builder := b\<rparr>, bytes)))
      | None \<Rightarrow>
          if an_kind value_fields = NODE_FLOAT \<and> is_float_type T (Some t) then
            map_option (\<lambda>bytes. (True, e, bytes))
              (if kind_of T (Some t) = Some TYPE_FLOAT
               then store_at base (little_bytes (min width 4) (ucast (narrow_encoding (an_floating value_fields)))) bytes
               else store_at base (little_bytes (min width 8) (an_floating value_fields)) bytes)
          else case constant_integer_value (ue_symbols env) v of
            Some raw \<Rightarrow> map_option (\<lambda>bytes. (True, e, bytes)) (store_at base (little_bytes (min width 8) raw) bytes)
          | None \<Rightarrow>
              if an_kind value_fields = NODE_STRING \<and> kind_of T (Some t) = Some TYPE_ARRAY then
                map_option (\<lambda>bytes. (True, e, bytes)) (store_at base (take width (an_text value_fields)) bytes)
              else Some (False, encoder_error 4030 None ''initializer is not a constant expression'' e, bytes))"

text \<open>A single string for an array of characters.\<close>

definition is_string_initializer :: "ctype list \<Rightarrow> nat \<Rightarrow> ast_node list \<Rightarrow> bool" where
  "is_string_initializer T t items \<longleftrightarrow>
     (case items of [x] \<Rightarrow> an_kind (as_fields x) = NODE_STRING \<and> ty_base (T ! t) \<noteq> None \<and>
        type_size T (ty_base (T ! t)) = 1 | _ \<Rightarrow> False)"

text \<open>
  The values of an array from an index on, and of the members of a record. They stop at the first that does not fit
  and at a failure. The recursion is the argument \<open>write\<close>.
\<close>

type_synonym writer = "ast_node list \<Rightarrow> nat option \<Rightarrow> encoder \<Rightarrow> byte list \<Rightarrow> nat \<Rightarrow> nat \<Rightarrow> written_data"

fun write_elements :: "writer \<Rightarrow> nat option \<Rightarrow> nat \<Rightarrow> ast_node list \<Rightarrow> nat \<Rightarrow> encoder \<Rightarrow> byte list \<Rightarrow> nat \<Rightarrow> nat \<Rightarrow> nat \<Rightarrow> written_data" where
  "write_elements write base_type element_size [] index e bytes base limit origin = Some (True, e, bytes)"
| "write_elements write base_type element_size (item # items) index e bytes base limit origin =
     (let offset = size_wrap (base + index * element_size) in
      if offset > limit \<or> element_size > limit - offset then Some (True, e, bytes)
      else case write [item] base_type e bytes offset (size_wrap (origin + offset)) of
        Some (True, e, bytes) \<Rightarrow> write_elements write base_type element_size items (Suc index) e bytes base limit origin
      | r \<Rightarrow> r)"

fun write_fields :: "writer \<Rightarrow> ctype list \<Rightarrow> member list \<Rightarrow> ast_node list \<Rightarrow> encoder \<Rightarrow> byte list \<Rightarrow> nat \<Rightarrow> nat \<Rightarrow> nat \<Rightarrow> written_data" where
  "write_fields write T (m # ms) (item # items) e bytes base limit origin =
     (let offset = size_wrap (base + mb_offset m) in
      if offset > limit \<or> type_size T (mb_type m) > limit - offset then Some (True, e, bytes)
      else case write [item] (mb_type m) e bytes offset (size_wrap (origin + offset)) of
        Some (True, e, bytes) \<Rightarrow> write_fields write T ms items e bytes base limit origin
      | r \<Rightarrow> r)"
| "write_fields write T ms items e bytes base limit origin = Some (True, e, bytes)"

lemma write_elements_cong [fundef_cong]:
  assumes "bt = bt'" "es = es'" "items = items'" "i = i'" "e = e'" "bytes = bytes'" "base = base'" "limit = limit'" "g = g'"
    "\<And>x t e bytes off g. x \<in> set items' \<Longrightarrow> w [x] t e bytes off g = w' [x] t e bytes off g"
  shows "write_elements w bt es items i e bytes base limit g = write_elements w' bt' es' items' i' e' bytes' base' limit' g'"
proof -
  have "write_elements w bt es items i e bytes base limit g = write_elements w' bt es items i e bytes base limit g"
    if "\<And>x t e bytes off g. x \<in> set items \<Longrightarrow> w [x] t e bytes off g = w' [x] t e bytes off g"
    using that
  proof (induction items arbitrary: i e bytes)
    case (Cons x items)
    then show ?case by (auto simp: Let_def split: option.split bool.split)
  qed simp
  with assms show ?thesis by blast
qed

lemma write_fields_cong [fundef_cong]:
  assumes "T = T'" "ms = ms'" "items = items'" "e = e'" "bytes = bytes'" "base = base'" "limit = limit'" "g = g'"
    "\<And>x t e bytes off g. x \<in> set items' \<Longrightarrow> w [x] t e bytes off g = w' [x] t e bytes off g"
  shows "write_fields w T ms items e bytes base limit g = write_fields w' T' ms' items' e' bytes' base' limit' g'"
proof -
  have "write_fields w T ms items e bytes base limit g = write_fields w' T ms items e bytes base limit g"
    if "\<And>x t e bytes off g. x \<in> set items \<Longrightarrow> w [x] t e bytes off g = w' [x] t e bytes off g"
    using that
  proof (induction items arbitrary: ms e bytes)
    case Nil
    show ?case by (cases ms) simp_all
  next
    case (Cons x items)
    then show ?case by (cases ms) (auto simp: Let_def split: option.split bool.split)
  qed
  with assms show ?thesis by blast
qed

lemma element_size_less: "x \<in> set xs \<Longrightarrow> size x < size_list size xs"
  by (induction xs) auto

lemma skip_initializer_size:
  "skip_initializer T type v = AstNode f a b # rest \<Longrightarrow> x \<in> set a \<Longrightarrow> Suc (size x) < size_list size v"
proof (induction T type v rule: skip_initializer.induct)
  case (2 T type g c d rest')
  show ?case
  proof (cases "skip_initializer T type (AstNode g c d # rest') = AstNode g c d # rest'")
    case True
    then show ?thesis using 2(2,3) element_size_less [of x a] by simp
  next
    case False
    then show ?thesis using 2 by (auto split: if_splits)
  qed
qed simp

function write_constant_initializer ::
  "unit_env \<Rightarrow> nat \<Rightarrow> ast_node list \<Rightarrow> nat option \<Rightarrow> encoder \<Rightarrow> byte list \<Rightarrow> nat \<Rightarrow> nat \<Rightarrow> written_data" where
  "write_constant_initializer env limit v type e bytes base origin =
     (case (skip_initializer (ue_types env) type v, type) of
        (AstNode f a b # rest, Some t) \<Rightarrow>
          let T = ue_types env in
          if an_kind f = NODE_INITIALIZER \<and> ty_kind (T ! t) = TYPE_ARRAY then
            (if is_string_initializer T t a \<and> base \<le> limit then
               map_option (\<lambda>bytes. (True, e, bytes))
                 (store_at base (take (limit - base) (an_text (as_fields (hd a)))) bytes)
             else write_elements (\<lambda>v type e bytes base origin. write_constant_initializer env limit v type e bytes base origin)
                    (ty_base (T ! t)) (type_size T (ty_base (T ! t))) a 0 e bytes base limit origin)
          else if an_kind f = NODE_INITIALIZER \<and> is_record_kind (ty_kind (T ! t)) then
            write_fields (\<lambda>v type e bytes base origin. write_constant_initializer env limit v type e bytes base origin)
              T (ty_members (T ! t)) a e bytes base limit origin
          else write_scalar env (AstNode f a b # rest) t e bytes base limit origin
      | _ \<Rightarrow> Some (True, e, bytes))"
  by pat_completeness auto
termination
  by (relation "measure (\<lambda>(env, limit, v, type, e, bytes, base, origin). size_list size v)")
    (auto dest!: skip_initializer_size [OF sym])

end
