(* ===== verification/Enc_Unit.thy ===== *)
theory Enc_Unit
  imports Enc_Data
begin

text \<open>
  The unit level of the encoder (\<open>src/src/backend/encoder.c\<close>): symbols and bytes of global objects, the routines
  that call the system and the startup routine, and the entry points \<open>ir_encoder_create\<close>,
  \<open>ir_encoder_add_function\<close> and \<open>ir_encoder_finish\<close>. The size of the zero-filled section is the length of its
  data, which hold zeros nobody reads.
\<close>

subsection \<open>Global objects\<close>

text \<open>The size \<open>n\<close> for a section without stored data.\<close>

definition resize_section :: "nat \<Rightarrow> nat \<Rightarrow> emitter" where
  "resize_section i n e =
     e\<lparr>en_builder := (en_builder e)\<lparr>b_sections := (b_sections (en_builder e))[i :=
       (b_sections (en_builder e) ! i)\<lparr>os_data :=
          take n (os_data (b_sections (en_builder e) ! i)) @
          replicate (n - length (os_data (b_sections (en_builder e) ! i))) 0\<rparr>]\<rparr>\<rparr>"

definition update_symbol_at :: "nat \<Rightarrow> (object_symbol \<Rightarrow> object_symbol) \<Rightarrow> emitter" where
  "update_symbol_at i f e =
     e\<lparr>en_builder := (en_builder e)\<lparr>b_symbols := (b_symbols (en_builder e))[i := f (b_symbols (en_builder e) ! i)]\<rparr>\<rparr>"

definition prepare_global_symbol :: "unit_env \<Rightarrow> nat option \<Rightarrow> encoder \<Rightarrow> bool \<times> encoder" where
  "prepare_global_symbol env symbol e =
     (case symbol of None \<Rightarrow> (True, e)
      | Some a \<Rightarrow>
        let s = ue_symbols env a; T = ue_types env; initialized = (sy_initializer s \<noteq> []) in
        case object_symbol_index (symbol_reference s) e of (index, e) \<Rightarrow>
          if sy_storage s = STORAGE_EXTERN \<and> sy_initializer s = [] then (index \<noteq> UINT32_MAX, e)
          else if index = UINT32_MAX then (False, e)
          else
            let e = update_symbol_at index (\<lambda>y. y\<lparr>ob_section_index := if initialized then 1 else 2, ob_kind := 1,
                    ob_binding := if sy_linkage s = LINKAGE_INTERNAL then 0 else 1,
                    ob_size := of_nat (type_size T (sy_type s)), ob_defined := True\<rparr>) e in
            if initialized then (True, e)
            else
              let alignment = type_alignment T (sy_type s);
                  low = of_nat (if alignment = 0 then 0 else alignment - 1) :: u64;
                  offset = unat ((of_nat (section_size e BSS) + low) AND NOT low) in
              (True, resize_section BSS (size_wrap (offset + type_size T (sy_type s)))
                 (update_symbol_at index (\<lambda>y. y\<lparr>ob_value := of_nat offset\<rparr>) e)))"

definition encoder_align_up :: "nat \<Rightarrow> nat \<Rightarrow> nat" where
  "encoder_align_up n alignment =
     (if alignment \<le> 1 then n
      else let low = alignment - 1 in
        if n > SIZE_MAX - low then SIZE_MAX else unat (of_nat (n + low) AND NOT (of_nat low) :: u64))"

text \<open>One object: its bytes, the padding in front of them, and its entry among the symbols.\<close>

definition append_object :: "unit_env \<Rightarrow> ir_symbol \<Rightarrow> encoder \<Rightarrow> (bool \<times> encoder) option" where
  "append_object env s e =
     (let T = ue_types env; bytes = (if type_size T (sy_type s) = 0 then 1 else type_size T (sy_type s));
          alignment = max 8 (type_alignment T (sy_type s)); offset = encoder_align_up (section_size e DATA) alignment in
      if offset = SIZE_MAX then Some (False, e)
      else case write_constant_initializer env bytes (sy_initializer s) (sy_type s) e (replicate bytes 0) 0 offset of
        None \<Rightarrow> None
      | Some (False, e, data) \<Rightarrow> Some (False, e)
      | Some (True, e, data) \<Rightarrow>
          case (if offset > section_size e DATA
                then append_section DATA (replicate (offset - section_size e DATA) 0) e else (True, e)) of
            (False, e) \<Rightarrow> Some (False, e)
          | (True, e) \<Rightarrow>
              (case append_section DATA data e of
                 (False, e) \<Rightarrow> Some (False, e)
               | (True, e) \<Rightarrow>
                   Some (True, update_symbols
                     (\<lambda>y. map_option sr_address (ob_source_symbol y) = Some (sy_address s) \<or> ob_name y = sy_name s)
                     (\<lambda>y. y\<lparr>ob_value := of_nat offset, ob_size := of_nat bytes\<rparr>) e)))"

text \<open>A loop over the entries of a table that stops at a failure.\<close>

primrec while_true :: "('a \<Rightarrow> encoder \<Rightarrow> (bool \<times> encoder) option) \<Rightarrow> 'a list \<Rightarrow> encoder \<Rightarrow> (bool \<times> encoder) option" where
  "while_true f [] e = Some (True, e)"
| "while_true f (x # xs) e =
     (case f x e of None \<Rightarrow> None | Some (False, e) \<Rightarrow> Some (False, e) | Some (True, e) \<Rightarrow> while_true f xs e)"

definition append_global_data :: "unit_env \<Rightarrow> ir_program \<Rightarrow> encoder \<Rightarrow> (bool \<times> encoder) option" where
  "append_global_data env program =
     while_true (\<lambda>symbol e.
        case symbol of None \<Rightarrow> Some (True, e)
        | Some a \<Rightarrow> if sy_initializer (ue_symbols env a) = [] then Some (True, e) else append_object env (ue_symbols env a) e)
       (pr_global_symbols program)"

subsection \<open>Routines of the system boundary\<close>

datatype runtime_function =
  RUNTIME_PUTC | RUNTIME_WRITE | RUNTIME_READ | RUNTIME_ALLOC | RUNTIME_FREE | RUNTIME_OPEN | RUNTIME_CREATE
  | RUNTIME_LSEEK | RUNTIME_CLOSE | RUNTIME_DELETE | RUNTIME_EXIT | RUNTIME_START | RUNTIME_CONSOLE_READY
  | RUNTIME_CONSOLE_LINE | RUNTIME_TIME_FIELDS | RUNTIME_DATE_FIELDS

definition runtime_functions :: "(string \<times> runtime_function) list" where
  "runtime_functions =
     [(''cc64_putc'', RUNTIME_PUTC), (''cc64_write'', RUNTIME_WRITE), (''cc64_read'', RUNTIME_READ),
      (''cc64_alloc'', RUNTIME_ALLOC), (''cc64_free'', RUNTIME_FREE), (''cc64_open'', RUNTIME_OPEN),
      (''cc64_create'', RUNTIME_CREATE), (''cc64_lseek'', RUNTIME_LSEEK), (''cc64_close'', RUNTIME_CLOSE),
      (''cc64_delete'', RUNTIME_DELETE), (''cc64_exit'', RUNTIME_EXIT), (''cc64_start'', RUNTIME_START),
      (''cc64_console_ready'', RUNTIME_CONSOLE_READY), (''cc64_console_line'', RUNTIME_CONSOLE_LINE),
      (''cc64_time_fields'', RUNTIME_TIME_FIELDS), (''cc64_date_fields'', RUNTIME_DATE_FIELDS)]"

definition runtime_function_info :: "string \<Rightarrow> runtime_function option" where
  "runtime_function_info name = map_of runtime_functions name"

definition emit_service_int :: emitter where
  "emit_service_int = steps [emit_bytes [0xcd, 0x21], emit_bytes [0x73, 0x07], emit_bytes [0x48, 0xc7, 0xc0], emit32 0xffffffff]"

fun emit_runtime_body :: "runtime_function \<Rightarrow> emitter" where
  "emit_runtime_body RUNTIME_PUTC = steps
     [emit_mov_reg_imm 0 0x200 4, emit_mov_reg_reg 2 7, emit_bytes [0xcd, 0x21], emit_mov_reg_reg 0 7, emit8 0xc3]"
| "emit_runtime_body RUNTIME_WRITE = steps
     [emit_push 3, emit_mov_reg_imm 0 0x4000 4, emit_mov_reg_reg 3 7, emit_mov_reg_reg 1 2, emit_mov_reg_reg 2 6,
      emit_service_int, emit_pop 3, emit8 0xc3]"
| "emit_runtime_body RUNTIME_READ = steps
     [emit_push 3, emit_mov_reg_imm 0 0x3f00 4, emit_mov_reg_reg 3 7, emit_mov_reg_reg 1 2, emit_mov_reg_reg 2 6,
      emit_service_int, emit_pop 3, emit8 0xc3]"
| "emit_runtime_body RUNTIME_ALLOC = steps
     [emit_push 3, emit_mov_reg_reg 3 7, emit_bytes [0x48, 0x83, 0xc3, 0x0f], emit_bytes [0x48, 0xc1, 0xeb, 0x04],
      emit_mov_reg_imm 0 0x4800 4, emit_service_int, emit_pop 3, emit8 0xc3]"
| "emit_runtime_body RUNTIME_FREE = steps
     [emit_push 3, emit_mov_reg_reg 3 7, emit_mov_reg_imm 0 0x4900 4, emit_service_int, emit_pop 3, emit8 0xc3]"
| "emit_runtime_body RUNTIME_OPEN = steps
     [emit_push 3, emit_bytes [0x31, 0xd2], emit_mov_reg_reg 2 7, emit_mov_reg_imm 0 0x3d00 4, emit_service_int,
      emit_pop 3, emit8 0xc3]"
| "emit_runtime_body RUNTIME_CREATE = steps
     [emit_mov_reg_reg 2 7, emit_mov_reg_reg 8 6, emit_mov_reg_imm 0 0x3c00 4, emit_mov_reg8_reg 0 8,
      emit_service_int, emit8 0xc3]"
| "emit_runtime_body RUNTIME_LSEEK = steps
     [emit_mov_reg_reg 8 2, emit_mov_reg_reg 3 7, emit_mov_reg_reg 0 6, emit8 0x99, emit_mov_reg_reg 1 0,
      emit_mov_reg_imm 0 0x4200 4, emit_mov_reg8_reg 0 8, emit_service_int, emit8 0xc3]"
| "emit_runtime_body RUNTIME_CLOSE = steps
     [emit_push 3, emit_mov_reg_reg 3 7, emit_mov_reg_imm 0 0x3e00 4, emit_service_int, emit_pop 3, emit8 0xc3]"
| "emit_runtime_body RUNTIME_DELETE = steps
     [emit_mov_reg_reg 2 7, emit_mov_reg_imm 0 0x1300 4, emit_service_int, emit8 0xc3]"
| "emit_runtime_body RUNTIME_EXIT = steps
     [emit_mov_reg32_reg 0 7, emit_bytes [0xb4, 0x4c], emit_bytes [0xcd, 0x21], emit8 0xc3]"
| "emit_runtime_body RUNTIME_CONSOLE_READY = steps
     [emit_mov_reg_imm 0 0x0b00 4, emit_bytes [0xcd, 0x21], emit_bytes [0x0f, 0xb6, 0xc0], emit_bytes [0x85, 0xc0],
      emit_bytes [0x0f, 0x95, 0xc0], emit_bytes [0x0f, 0xb6, 0xc0], emit8 0xc3]"
| "emit_runtime_body RUNTIME_CONSOLE_LINE = steps
     [emit_mov_reg_imm 0 0x0300 4, emit_bytes [0xcd, 0x21], emit_bytes [0x72, 0x04], emit_bytes [0x0f, 0xb6, 0xc0],
      emit8 0xc3, emit_bytes [0xb8, 0xff, 0xff, 0xff, 0xff], emit8 0xc3]"
| "emit_runtime_body RUNTIME_TIME_FIELDS = steps
     [emit_mov_reg_imm 0 0x2c00 4, emit_bytes [0xcd, 0x21], emit_bytes [0x31, 0xc0], emit_bytes [0x89, 0xc8],
      emit_bytes [0x48, 0xc1, 0xe0, 0x08], emit_bytes [0x8b, 0xfa], emit_bytes [0xc1, 0xef, 0x10],
      emit_bytes [0x48, 0x09, 0xf8], emit8 0xc3]"
| "emit_runtime_body RUNTIME_DATE_FIELDS = steps
     [emit_mov_reg_imm 0 0x2a00 4, emit_bytes [0xcd, 0x21], emit_bytes [0x31, 0xc0], emit_bytes [0x89, 0xc8],
      emit_bytes [0x48, 0xc1, 0xe0, 0x10], emit_bytes [0x8b, 0xfa], emit_bytes [0xc1, 0xef, 0x10],
      emit_bytes [0x48, 0x09, 0xf8], emit8 0xc3]"
| "emit_runtime_body RUNTIME_START = steps []"

subsection \<open>The startup routine\<close>

abbreviation (input) START_ARGUMENTS :: u32 where "START_ARGUMENTS \<equiv> 32"
abbreviation (input) START_TAIL :: u32 where "START_TAIL \<equiv> 144"
abbreviation (input) START_NAME :: u64 where "START_NAME \<equiv> 9"
abbreviation (input) START_NAME_AT :: int where "START_NAME_AT \<equiv> -0xa0 - 9"
abbreviation (input) START_TAIL_AT :: int where "START_TAIL_AT \<equiv> -0xa0"
abbreviation (input) START_VECTOR_AT :: int where "START_VECTOR_AT \<equiv> -0x200"
abbreviation (input) START_FRAME :: u32 where "START_FRAME \<equiv> 0x210"
abbreviation (input) START_SKIP_LENGTH :: nat where "START_SKIP_LENGTH \<equiv> 1"
abbreviation (input) START_SKIP_SPACE :: nat where "START_SKIP_SPACE \<equiv> 2"
abbreviation (input) START_RECORD :: nat where "START_RECORD \<equiv> 3"
abbreviation (input) START_SCAN :: nat where "START_SCAN \<equiv> 4"
abbreviation (input) START_SPLIT :: nat where "START_SPLIT \<equiv> 5"
abbreviation (input) START_DONE :: nat where "START_DONE \<equiv> 6"
abbreviation (input) START_COPY :: nat where "START_COPY \<equiv> 7"
abbreviation (input) START_COPIED :: nat where "START_COPIED \<equiv> 8"
abbreviation (input) START_NAME_COPY :: nat where "START_NAME_COPY \<equiv> 9"
abbreviation (input) START_NAME_COPIED :: nat where "START_NAME_COPIED \<equiv> 10"
abbreviation (input) START_NO_NAME :: nat where "START_NO_NAME \<equiv> 11"
abbreviation (input) START_CALL :: nat where "START_CALL \<equiv> 12"
abbreviation (input) START_SKIP_DELIMITER :: nat where "START_SKIP_DELIMITER \<equiv> 13"

text \<open>The loop that copies RCX bytes from RDI to RSI.\<close>

definition emit_copy_loop :: "nat \<Rightarrow> nat \<Rightarrow> emitter" where
  "emit_copy_loop again out = steps
     [define_label again, emit_bytes [0x48, 0x85, 0xc9], emit_conditional_jump 4 out,
      emit_bytes [0x8a, 0x07], emit_bytes [0x88, 0x06], emit_bytes [0x48, 0xff, 0xc7], emit_bytes [0x48, 0xff, 0xc6],
      emit_bytes [0x48, 0xff, 0xc9], emit_jump again, define_label out]"

text \<open>The frame, the bounded length of the command tail and the copy of the tail.\<close>

definition startup_tail :: emitter where
  "startup_tail = steps
     [emit_push 5, emit_mov_reg_reg 5 4, emit8 0xfc, emit_bytes [0x48, 0x81, 0xec], emit32 START_FRAME,
      emit_mov_reg_reg 10 7, emit_bytes [0x41, 0x0f, 0xb6], emit8 0x82, emit32 0xa0,
      emit_bytes [0x48, 0x3d], emit32 (START_TAIL - 1), emit_conditional_jump 6 START_SKIP_LENGTH,
      emit_mov_reg_imm 0 (ucast (START_TAIL - 1)) 8, define_label START_SKIP_LENGTH,
      emit_lea_mem 5 6 START_TAIL_AT, emit_lea_mem 10 7 0xa1, emit_mov_reg_reg 1 0,
      emit_copy_loop START_COPY START_COPIED, emit_bytes [0xc6, 0x04], emit_bytes [0x06, 0x00]]"

text \<open>The invocation name, a separator, and the test for an empty name.\<close>

definition startup_name :: emitter where
  "startup_name = steps
     [emit_lea_mem 5 6 START_NAME_AT, emit_lea_mem 10 7 0x61, emit_mov_reg_imm 1 (START_NAME - 1) 8,
      emit_copy_loop START_NAME_COPY START_NAME_COPIED, emit_bytes [0xc6, 0x06], emit8 0x20,
      emit_bytes [0x40, 0x0f, 0xb6], emit8 0x85, emit32 (word_of_int START_NAME_AT), emit_bytes [0x84, 0xc0],
      emit_conditional_jump 4 START_NO_NAME, emit_lea_mem 5 2 START_VECTOR_AT, emit_bytes [0x45, 0x31, 0xc0],
      emit_lea_mem 5 11 START_NAME_AT]"

definition emit_compare_cursor :: "byte \<Rightarrow> emitter" where
  "emit_compare_cursor c = steps [emit_bytes [0x41, 0x80, 0x3b], emit8 c]"

definition emit_next_cursor :: emitter where
  "emit_next_cursor = emit_bytes [0x49, 0xff, 0xc3]"

text \<open>The split of the text into arguments.\<close>

definition startup_split :: emitter where
  "startup_split = steps
     [define_label START_SKIP_SPACE, emit_compare_cursor 0, emit_conditional_jump 4 START_DONE,
      emit_compare_cursor 0x20, emit_conditional_jump 4 START_SKIP_DELIMITER,
      emit_compare_cursor 0x09, emit_conditional_jump 5 START_RECORD,
      define_label START_SKIP_DELIMITER, emit_next_cursor, emit_jump START_SKIP_SPACE,
      define_label START_RECORD, emit_bytes [0x4e, 0x89, 0x1c], emit8 0xc2,
      emit_bytes [0x41, 0x83], emit8 0xf8, emit8 (ucast (START_ARGUMENTS - 1)), emit_conditional_jump 7 START_DONE,
      emit_bytes [0x41, 0xff, 0xc0],
      define_label START_SCAN, emit_compare_cursor 0, emit_conditional_jump 4 START_DONE,
      emit_compare_cursor 0x20, emit_conditional_jump 4 START_SPLIT,
      emit_compare_cursor 0x09, emit_conditional_jump 4 START_SPLIT,
      emit_next_cursor, emit_jump START_SCAN,
      define_label START_SPLIT, emit_bytes [0x41, 0xc6, 0x03], emit8 0x00, emit_next_cursor, emit_jump START_SKIP_SPACE]"

text \<open>The end of the vector, the call of main and the exit.\<close>

definition startup_call :: "symbol_ref \<Rightarrow> emitter" where
  "startup_call main = steps
     [define_label START_DONE, emit_bytes [0x4a, 0xc7, 0x04], emit8 0xc2, emit32 0,
      emit_bytes [0x4c, 0x89, 0xc7], emit_bytes [0x48, 0x89, 0xd6], emit_bytes [0x31, 0xd2], emit_jump START_CALL,
      define_label START_NO_NAME, emit_bytes [0x31, 0xff], emit_bytes [0x45, 0x31, 0xc0], define_label START_CALL,
      emit8 0xe8,
      \<lambda>e. let field = length (en_code e); e = snd (object_symbol_index main (emit32 0 e)) in
        case add_text_relocation field main e of (recorded, e) \<Rightarrow>
          if recorded then e else encoder_error 4020 None ''cannot record startup relocation'' e,
      emit_mov_reg_reg 1 0, emit_bytes [0x48, 0x89, 0xec], emit8 0x5d, emit_mov_reg_imm 0 0x4c00 4,
      emit_mov_reg8_reg 0 1, emit_bytes [0xcd, 0x21], emit8 0xc3]"

definition emit_startup_body :: "symbol_ref \<Rightarrow> emitter" where
  "emit_startup_body main = steps
     [startup_tail, startup_name, startup_split, startup_call main, \<lambda>e. snd (resolve_labels e)]"

subsection \<open>Adding the routines\<close>

definition runtime_encoder :: "encoder \<Rightarrow> encoder" where
  "runtime_encoder e =
     \<lparr>en_diagnostics = en_diagnostics e, en_builder = en_builder e, en_code = [],
      en_function_offset = section_size e TEXT, en_function = None, en_main_symbol = None, en_stack_depth = 0,
      en_labels = [], en_fixups = [], en_failed = False\<rparr>"

fun first_index :: "('a \<Rightarrow> bool) \<Rightarrow> 'a list \<Rightarrow> nat option" where
  "first_index P [] = None"
| "first_index P (x # xs) = (if P x then Some 0 else map_option Suc (first_index P xs))"

text \<open>The entry of a routine, made for the startup routine of a unit with \<open>main\<close>; no index skips the routine.\<close>

definition runtime_symbol :: "string \<Rightarrow> encoder \<Rightarrow> bool \<times> nat option \<times> encoder" where
  "runtime_symbol name e =
     (case first_index (\<lambda>y. ob_name y = cstr name) (b_symbols (en_builder e)) of
        Some i \<Rightarrow> (True, Some i, e)
      | None \<Rightarrow>
          if name \<noteq> ''cc64_start'' \<or> en_main_symbol e = None then (True, None, e)
          else case object_add_symbol (en_builder e) (cstr name) 0 0xffffffff 1 2 0 True of
            None \<Rightarrow> (False, None, e)
          | Some b \<Rightarrow> (True, Some (length (b_symbols b) - 1), e\<lparr>en_builder := b\<rparr>))"

definition append_runtime_function :: "unit_env \<Rightarrow> string \<Rightarrow> encoder \<Rightarrow> bool \<times> encoder" where
  "append_runtime_function env name e =
     (case runtime_symbol name e of
        (False, _, e) \<Rightarrow> (False, e)
      | (True, None, e) \<Rightarrow> (True, e)
      | (True, Some i, e) \<Rightarrow>
          if ob_section_index (b_symbols (en_builder e) ! i) \<noteq> 0xffffffff then (True, e)
          else
            let function = (case runtime_function_info name of None \<Rightarrow> RUNTIME_EXIT | Some f \<Rightarrow> f) in
            if function = RUNTIME_START \<and> en_main_symbol e = None then (True, e)
            else
              let r = (case (function, en_main_symbol e) of
                         (RUNTIME_START, Some main) \<Rightarrow>
                           emit_startup_body (symbol_reference (ue_symbols env main)) (runtime_encoder e)
                       | _ \<Rightarrow> emit_runtime_body function (runtime_encoder e));
                  e = e\<lparr>en_diagnostics := en_diagnostics r, en_builder := en_builder r\<rparr> in
              if en_failed r then (False, e)
              else case append_section TEXT (en_code r) e of
                (False, e) \<Rightarrow> (False, e)
              | (True, e) \<Rightarrow>
                  (True, update_symbol_at i (\<lambda>y. y\<lparr>ob_section_index := 0, ob_value := of_nat (en_function_offset r),
                     ob_size := of_nat (length (en_code r)), ob_defined := True\<rparr>) e))"

definition append_runtime_functions :: "unit_env \<Rightarrow> encoder \<Rightarrow> (bool \<times> encoder) option" where
  "append_runtime_functions env = while_true (\<lambda>name e. Some (append_runtime_function env name e)) (map fst runtime_functions)"

subsection \<open>Entry points\<close>

definition ir_encoder_create :: "object_builder \<Rightarrow> diagnostic_sink \<Rightarrow> encoder option" where
  "ir_encoder_create b sink =
     (case object_add_section b (cstr ''.text'') 0 16 of None \<Rightarrow> None
      | Some (b, _) \<Rightarrow>
     (case object_add_section b (cstr ''.data'') 2 8 of None \<Rightarrow> None
      | Some (b, _) \<Rightarrow>
     (case object_add_section b (cstr ''.bss'') 3 8 of None \<Rightarrow> None
      | Some (b, _) \<Rightarrow>
          Some \<lparr>en_diagnostics = sink, en_builder = b, en_code = [], en_function_offset = 0, en_function = None,
            en_main_symbol = None, en_stack_depth = 0, en_labels = [], en_fixups = [], en_failed = False\<rparr>)))"

definition ir_encoder_add_function :: "unit_env \<Rightarrow> ir_function \<Rightarrow> encoder \<Rightarrow> bool \<times> encoder" where
  "ir_encoder_add_function env f e =
     (case fn_symbol f of None \<Rightarrow> (False, e)
      | Some a \<Rightarrow>
        let s = ue_symbols env a; e = (if sy_name s = cstr ''main'' then e\<lparr>en_main_symbol := Some a\<rparr> else e) in
        case object_symbol_index (symbol_reference s) e of (index, e) \<Rightarrow>
          if index = UINT32_MAX then (False, e)
          else encode_function env f (update_symbols
            (\<lambda>y. map_option sr_address (ob_source_symbol y) = Some (sy_address s))
            (\<lambda>y. y\<lparr>ob_section_index := 0, ob_kind := 2, ob_binding := if sy_linkage s = LINKAGE_INTERNAL then 0 else 1\<rparr>) e))"

definition ir_encoder_finish :: "unit_env \<Rightarrow> ir_program \<Rightarrow> encoder \<Rightarrow> (bool \<times> encoder) option" where
  "ir_encoder_finish env program e =
     (case while_true (\<lambda>s e. Some (prepare_global_symbol env s e)) (pr_global_symbols program) e of
        None \<Rightarrow> None
      | Some (False, e) \<Rightarrow> Some (False, e)
      | Some (True, e) \<Rightarrow>
     (case append_global_data env program e of
        None \<Rightarrow> None
      | Some (False, e) \<Rightarrow> Some (False, e)
      | Some (True, e) \<Rightarrow>
     (case append_runtime_functions env e of
        None \<Rightarrow> None
      | Some (False, e) \<Rightarrow> Some (False, e)
      | Some (True, e) \<Rightarrow> Some (\<not> en_failed e, e))))"

end
