(* ===== verification/X64.thy ===== *)
theory X64
  imports Prelude_CC64
begin

text \<open>
  The part of the x86-64 architecture that the encoder's integer code uses, behind the processor manual: decoding of
  prefix_bytes, operand bytes and opcodes, and the effect of an instruction on registers, flags and memory. It is the
  reference the encoder is measured against. Code and data are apart: code is a byte list with a position in it.
  Flags behind an instruction that leaves one of them undefined are unknown. The services behind \<open>int\<close> are a
  function on machines.
\<close>

subsection \<open>Instructions\<close>

datatype operand = Reg nat | Mem "nat option" "(nat \<times> nat) option" int | Rip int

datatype alu_op = ALU_ADD | ALU_OR | ALU_SBB | ALU_AND | ALU_SUB | ALU_XOR | ALU_CMP

datatype shift_op = SHIFT_SHL | SHIFT_SHR | SHIFT_SAR

text \<open>The numbers are widths in bytes; a destination stands before a source.\<close>

datatype instr =
  IMov nat operand operand
  | IMovImm nat nat nat
  | IMovImmS operand int
  | IMovX bool nat nat operand
  | ILea nat operand
  | IAlu alu_op nat operand operand
  | IAluImm alu_op nat operand int
  | IImul nat operand
  | IMul operand
  | IDiv operand
  | IIdiv operand
  | INeg operand
  | INot operand
  | ICqo
  | ICdq
  | IShiftCl shift_op operand
  | IShiftImm shift_op nat operand nat
  | ITest nat nat nat
  | ISetcc nat operand
  | IPush nat
  | IPop nat
  | IJmp int
  | IJcc nat int
  | ICall int
  | IRet
  | IInt nat

subsection \<open>Decoding\<close>

primrec le_value :: "nat list \<Rightarrow> nat" where
  "le_value [] = 0"
| "le_value (x # xs) = x + 256 * le_value xs"

definition signed_value :: "nat \<Rightarrow> nat \<Rightarrow> int" where
  "signed_value bits n = (if n < 2 ^ (bits - 1) then int n else int n - 2 ^ bits)"

definition take_field :: "nat \<Rightarrow> nat list \<Rightarrow> (nat \<times> nat list) option" where
  "take_field n bs = (if length bs < n then None else Some (le_value (take n bs), drop n bs))"

definition take_signed :: "nat \<Rightarrow> nat list \<Rightarrow> (int \<times> nat list) option" where
  "take_signed n bs = map_option (\<lambda>(v, bs). (signed_value (8 * n) v, bs)) (take_field n bs)"

text \<open>A memory operand: its displacement follows the operand bytes.\<close>

definition with_displacement :: "nat \<Rightarrow> (int \<Rightarrow> operand) \<Rightarrow> nat list \<Rightarrow> (operand \<times> nat list) option" where
  "with_displacement mode f bs =
     (if mode = 0 then Some (f 0, bs)
      else map_option (\<lambda>(d, bs). (f d, bs)) (take_signed (if mode = 1 then 1 else 4) bs))"

text \<open>The field of the register and the operand, given the extension bits of the index and the base.\<close>

definition decode_sib :: "nat \<Rightarrow> nat \<Rightarrow> nat \<Rightarrow> nat list \<Rightarrow> (operand \<times> nat list) option" where
  "decode_sib mode x b bs =
     (case bs of [] \<Rightarrow> None
      | s # bs \<Rightarrow>
        let index = s div 8 mod 8 + x; scaled = (if index = 4 then None else Some (index, 2 ^ (s div 64))) in
        if s mod 8 = 5 \<and> mode = 0 then with_displacement 2 (Mem None scaled) bs
        else with_displacement mode (Mem (Some (s mod 8 + b)) scaled) bs)"

definition decode_modrm :: "nat \<Rightarrow> nat \<Rightarrow> nat \<Rightarrow> nat list \<Rightarrow> (nat \<times> operand \<times> nat list) option" where
  "decode_modrm r x b bs =
     (case bs of [] \<Rightarrow> None
      | m # bs \<Rightarrow>
        let mode = m div 64; reg = m div 8 mod 8 + r; rm = m mod 8 in
        map_option (\<lambda>(op, bs). (reg, op, bs))
          (if mode = 3 then Some (Reg (rm + b), bs)
           else if rm = 4 then decode_sib mode x b bs
           else if mode = 0 \<and> rm = 5 then with_displacement 2 Rip bs
           else with_displacement mode (Mem (Some (rm + b)) None) bs))"

definition alu_of :: "nat \<Rightarrow> alu_op option" where
  "alu_of n =
     (if n = 0 then Some ALU_ADD else if n = 1 then Some ALU_OR else if n = 3 then Some ALU_SBB
      else if n = 4 then Some ALU_AND else if n = 5 then Some ALU_SUB else if n = 6 then Some ALU_XOR
      else if n = 7 then Some ALU_CMP else None)"

definition shift_of :: "nat \<Rightarrow> shift_op option" where
  "shift_of n = (if n = 4 then Some SHIFT_SHL else if n = 5 then Some SHIFT_SHR else if n = 7 then Some SHIFT_SAR else None)"

text \<open>The prefix_bytes: operand size, and the bits of REX when there is one.\<close>

record prefix_bytes =
  px_operand :: bool
  px_rex :: "nat option"

definition rex_w :: "prefix_bytes \<Rightarrow> bool" where "rex_w p = (case px_rex p of None \<Rightarrow> False | Some x \<Rightarrow> x \<ge> 8)"
definition rex_r :: "prefix_bytes \<Rightarrow> nat" where "rex_r p = (case px_rex p of None \<Rightarrow> 0 | Some x \<Rightarrow> x div 4 mod 2 * 8)"
definition rex_x :: "prefix_bytes \<Rightarrow> nat" where "rex_x p = (case px_rex p of None \<Rightarrow> 0 | Some x \<Rightarrow> x div 2 mod 2 * 8)"
definition rex_b :: "prefix_bytes \<Rightarrow> nat" where "rex_b p = (case px_rex p of None \<Rightarrow> 0 | Some x \<Rightarrow> x mod 2 * 8)"

definition operand_width :: "prefix_bytes \<Rightarrow> nat" where
  "operand_width p = (if rex_w p then 8 else if px_operand p then 2 else 4)"

text \<open>A byte register: without REX the numbers from four on name other halves, which are not modelled.\<close>

definition byte_register :: "prefix_bytes \<Rightarrow> nat \<Rightarrow> bool" where
  "byte_register p r \<longleftrightarrow> r < 4 \<or> px_rex p \<noteq> None"

definition byte_operand :: "prefix_bytes \<Rightarrow> operand \<Rightarrow> bool" where
  "byte_operand p op = (case op of Reg r \<Rightarrow> byte_register p r | _ \<Rightarrow> True)"

type_synonym decoded = "(instr \<times> nat list) option"

definition with_modrm :: "prefix_bytes \<Rightarrow> (nat \<Rightarrow> operand \<Rightarrow> nat list \<Rightarrow> decoded) \<Rightarrow> nat list \<Rightarrow> decoded" where
  "with_modrm p f bs =
     (case decode_modrm (rex_r p) (rex_x p) (rex_b p) bs of None \<Rightarrow> None | Some (reg, op, bs) \<Rightarrow> f reg op bs)"

definition with_signed :: "nat \<Rightarrow> (int \<Rightarrow> instr) \<Rightarrow> nat list \<Rightarrow> decoded" where
  "with_signed n f bs = map_option (\<lambda>(v, bs). (f v, bs)) (take_signed n bs)"

text \<open>The opcodes behind \<open>0f\<close>.\<close>

definition decode_two_byte :: "prefix_bytes \<Rightarrow> nat \<Rightarrow> nat list \<Rightarrow> decoded" where
  "decode_two_byte p c bs =
     (if 0x80 \<le> c \<and> c < 0x90 then with_signed 4 (IJcc (c - 0x80)) bs
      else if 0x90 \<le> c \<and> c < 0xa0 then
        with_modrm p (\<lambda>reg op bs. if byte_operand p op then Some (ISetcc (c - 0x90) op, bs) else None) bs
      else if c = 0xaf \<and> rex_w p then with_modrm p (\<lambda>reg op bs. Some (IImul reg op, bs)) bs
      else if c = 0xb6 \<or> c = 0xb7 \<or> c = 0xbe \<or> c = 0xbf then
        with_modrm p (\<lambda>reg op bs.
          let width = (if even c then 1 else 2); is_signed = (c \<ge> 0xbe) in
          if (width = 1 \<longrightarrow> byte_operand p op) \<and> (rex_w p \<or> \<not> is_signed) then Some (IMovX is_signed width reg op, bs) else None) bs
      else None)"

definition decode_f7 :: "prefix_bytes \<Rightarrow> nat \<Rightarrow> operand \<Rightarrow> nat list \<Rightarrow> decoded" where
  "decode_f7 p reg op bs =
     (let digit = reg mod 8 in
      if \<not> rex_w p then None
      else if digit = 2 then Some (INot op, bs) else if digit = 3 then Some (INeg op, bs)
      else if digit = 4 then Some (IMul op, bs) else if digit = 6 then Some (IDiv op, bs)
      else if digit = 7 then Some (IIdiv op, bs) else None)"

text \<open>The opcodes of one byte.\<close>

definition decode_opcode :: "prefix_bytes \<Rightarrow> nat \<Rightarrow> nat list \<Rightarrow> decoded" where
  "decode_opcode p c bs =
     (if c < 0x40 \<and> c mod 8 = 1 then
        with_modrm p (\<lambda>reg op bs. map_option (\<lambda>a. (IAlu a (operand_width p) op (Reg reg), bs)) (alu_of (c div 8))) bs
      else if c < 0x40 \<and> c mod 8 = 3 then
        with_modrm p (\<lambda>reg op bs. map_option (\<lambda>a. (IAlu a (operand_width p) (Reg reg) op, bs)) (alu_of (c div 8))) bs
      else if 0x50 \<le> c \<and> c < 0x58 then Some (IPush (c - 0x50 + rex_b p), bs)
      else if 0x58 \<le> c \<and> c < 0x60 then Some (IPop (c - 0x58 + rex_b p), bs)
      else if c = 0x63 \<and> rex_w p then with_modrm p (\<lambda>reg op bs. Some (IMovX True 4 reg op, bs)) bs
      else if 0x70 \<le> c \<and> c < 0x80 then with_signed 1 (IJcc (c - 0x70)) bs
      else if c = 0x81 \<or> c = 0x83 then
        with_modrm p (\<lambda>reg op bs. case alu_of (reg mod 8) of None \<Rightarrow> None
          | Some a \<Rightarrow> with_signed (if c = 0x81 then 4 else 1) (IAluImm a (operand_width p) op) bs) bs
      else if c = 0x85 then
        with_modrm p (\<lambda>reg op bs. case op of Reg r \<Rightarrow> Some (ITest (operand_width p) r reg, bs) | _ \<Rightarrow> None) bs
      else if c = 0x88 then
        with_modrm p (\<lambda>reg op bs. if byte_register p reg \<and> byte_operand p op then Some (IMov 1 op (Reg reg), bs) else None) bs
      else if c = 0x89 then with_modrm p (\<lambda>reg op bs. Some (IMov (operand_width p) op (Reg reg), bs)) bs
      else if c = 0x8a then
        with_modrm p (\<lambda>reg op bs. if byte_register p reg \<and> byte_operand p op then Some (IMov 1 (Reg reg) op, bs) else None) bs
      else if c = 0x8b then with_modrm p (\<lambda>reg op bs. Some (IMov (operand_width p) (Reg reg) op, bs)) bs
      else if c = 0x8d \<and> rex_w p then
        with_modrm p (\<lambda>reg op bs. case op of Reg r \<Rightarrow> None | _ \<Rightarrow> Some (ILea reg op, bs)) bs
      else if c = 0x99 then Some (if rex_w p then ICqo else ICdq, bs)
      else if 0xb8 \<le> c \<and> c < 0xc0 then
        map_option (\<lambda>(v, bs). (IMovImm (if rex_w p then 8 else 4) (c - 0xb8 + rex_b p) v, bs))
          (take_field (if rex_w p then 8 else 4) bs)
      else if c = 0xc1 then
        with_modrm p (\<lambda>reg op bs. case (shift_of (reg mod 8), take_field 1 bs) of
            (Some s, Some (n, bs)) \<Rightarrow> Some (IShiftImm s (operand_width p) op n, bs) | _ \<Rightarrow> None) bs
      else if c = 0xc3 then Some (IRet, bs)
      else if c = 0xc7 \<and> rex_w p then
        with_modrm p (\<lambda>reg op bs. if reg mod 8 = 0 then with_signed 4 (IMovImmS op) bs else None) bs
      else if c = 0xcd then map_option (\<lambda>(v, bs). (IInt v, bs)) (take_field 1 bs)
      else if c = 0xd3 \<and> rex_w p then
        with_modrm p (\<lambda>reg op bs. map_option (\<lambda>s. (IShiftCl s op, bs)) (shift_of (reg mod 8))) bs
      else if c = 0xe8 then with_signed 4 ICall bs
      else if c = 0xe9 then with_signed 4 IJmp bs
      else if c = 0xf7 then with_modrm p (decode_f7 p) bs
      else None)"

definition decode_main :: "prefix_bytes \<Rightarrow> nat list \<Rightarrow> decoded" where
  "decode_main p bs =
     (case bs of [] \<Rightarrow> None
      | c # bs \<Rightarrow> if c = 0x0f then (case bs of [] \<Rightarrow> None | c # bs \<Rightarrow> decode_two_byte p c bs) else decode_opcode p c bs)"

definition decode_rex :: "bool \<Rightarrow> nat list \<Rightarrow> decoded" where
  "decode_rex operand_size bs =
     (case bs of [] \<Rightarrow> None
      | c # cs \<Rightarrow>
        if 0x40 \<le> c \<and> c < 0x50 then decode_main \<lparr>px_operand = operand_size, px_rex = Some (c - 0x40)\<rparr> cs
        else decode_main \<lparr>px_operand = operand_size, px_rex = None\<rparr> bs)"

definition decode_numbers :: "nat list \<Rightarrow> decoded" where
  "decode_numbers bs =
     (case bs of [] \<Rightarrow> None | c # cs \<Rightarrow> if c = 0x66 then decode_rex True cs else decode_rex False bs)"

text \<open>The instruction at the front of the bytes, and its length.\<close>

definition decode :: "byte list \<Rightarrow> (instr \<times> nat) option" where
  "decode bs = map_option (\<lambda>(i, rest). (i, length bs - length rest)) (decode_numbers (map unat bs))"

subsection \<open>Machines\<close>

record flags =
  fl_zero :: bool
  fl_sign :: bool
  fl_carry :: bool
  fl_overflow :: bool

record machine =
  mc_regs :: "nat \<Rightarrow> u64"
  mc_mem :: "u64 \<Rightarrow> byte"
  mc_flags :: "flags option"

abbreviation (input) RAX :: nat where "RAX \<equiv> 0"
abbreviation (input) RCX :: nat where "RCX \<equiv> 1"
abbreviation (input) RDX :: nat where "RDX \<equiv> 2"
abbreviation (input) RBX :: nat where "RBX \<equiv> 3"
abbreviation (input) RSP :: nat where "RSP \<equiv> 4"
abbreviation (input) RBP :: nat where "RBP \<equiv> 5"
abbreviation (input) RSI :: nat where "RSI \<equiv> 6"
abbreviation (input) RDI :: nat where "RDI \<equiv> 7"

primrec read_bytes :: "(u64 \<Rightarrow> byte) \<Rightarrow> u64 \<Rightarrow> nat \<Rightarrow> u64" where
  "read_bytes mem a 0 = 0"
| "read_bytes mem a (Suc n) = ucast (mem a) OR push_bit 8 (read_bytes mem (a + 1) n)"

primrec write_bytes :: "(u64 \<Rightarrow> byte) \<Rightarrow> u64 \<Rightarrow> nat \<Rightarrow> u64 \<Rightarrow> u64 \<Rightarrow> byte" where
  "write_bytes mem a 0 v = mem"
| "write_bytes mem a (Suc n) v = (write_bytes mem (a + 1) n (drop_bit 8 v))(a := ucast v)"

definition low_bytes :: "nat \<Rightarrow> u64 \<Rightarrow> u64" where
  "low_bytes n v = take_bit (8 * n) v"

text \<open>A value of some width, extended to 64 bits.\<close>

definition extended :: "bool \<Rightarrow> nat \<Rightarrow> u64 \<Rightarrow> u64" where
  "extended is_signed n v = (if is_signed then word_of_int (signed_take_bit (8 * n - 1) (uint v)) else take_bit (8 * n) v)"

definition address :: "machine \<Rightarrow> nat option \<Rightarrow> (nat \<times> nat) option \<Rightarrow> int \<Rightarrow> u64" where
  "address m base index d =
     (case base of None \<Rightarrow> 0 | Some b \<Rightarrow> mc_regs m b) +
     (case index of None \<Rightarrow> 0 | Some (i, scale) \<Rightarrow> mc_regs m i * of_nat scale) + word_of_int d"

text \<open>An operand relative to the instruction is memory the model leaves open.\<close>

definition read_operand :: "machine \<Rightarrow> nat \<Rightarrow> operand \<Rightarrow> u64 option" where
  "read_operand m width op =
     (case op of Reg r \<Rightarrow> Some (low_bytes width (mc_regs m r))
      | Mem b i d \<Rightarrow> Some (read_bytes (mc_mem m) (address m b i d) width)
      | Rip d \<Rightarrow> None)"

definition set_reg :: "machine \<Rightarrow> nat \<Rightarrow> u64 \<Rightarrow> machine" where
  "set_reg m r v = m\<lparr>mc_regs := (mc_regs m)(r := v)\<rparr>"

text \<open>A register keeps its upper part when a byte or a word of it is written, and loses it otherwise.\<close>

definition write_operand :: "machine \<Rightarrow> nat \<Rightarrow> operand \<Rightarrow> u64 \<Rightarrow> machine option" where
  "write_operand m width op v =
     (case op of
        Reg r \<Rightarrow> Some (set_reg m r (if width < 4 then mc_regs m r - low_bytes width (mc_regs m r) + low_bytes width v else low_bytes width v))
      | Mem b i d \<Rightarrow> Some (m\<lparr>mc_mem := write_bytes (mc_mem m) (address m b i d) width v\<rparr>)
      | Rip d \<Rightarrow> None)"

definition result_flags :: "nat \<Rightarrow> u64 \<Rightarrow> bool \<Rightarrow> bool \<Rightarrow> flags" where
  "result_flags width v carry overflow =
     \<lparr>fl_zero = (low_bytes width v = 0), fl_sign = bit v (8 * width - 1), fl_carry = carry, fl_overflow = overflow\<rparr>"

definition signed_at :: "nat \<Rightarrow> u64 \<Rightarrow> int" where
  "signed_at width v = signed_take_bit (8 * width - 1) (uint v)"

text \<open>The result and the flags; the operands have no bits above the width.\<close>

definition alu :: "alu_op \<Rightarrow> nat \<Rightarrow> bool \<Rightarrow> u64 \<Rightarrow> u64 \<Rightarrow> u64 \<times> flags" where
  "alu op width carry x y =
     (let c = (if carry then 1 else 0) in
      case op of
        ALU_ADD \<Rightarrow> (x + y, result_flags width (x + y) (uint x + uint y \<ge> 2 ^ (8 * width))
                     (signed_at width x + signed_at width y \<noteq> signed_at width (x + y)))
      | ALU_SUB \<Rightarrow> (x - y, result_flags width (x - y) (x < y) (signed_at width x - signed_at width y \<noteq> signed_at width (x - y)))
      | ALU_CMP \<Rightarrow> (x, result_flags width (x - y) (x < y) (signed_at width x - signed_at width y \<noteq> signed_at width (x - y)))
      | ALU_SBB \<Rightarrow> (x - y - c, result_flags width (x - y - c) (uint x < uint y + uint c)
                     (signed_at width x - signed_at width y - uint c \<noteq> signed_at width (x - y - c)))
      | ALU_AND \<Rightarrow> (x AND y, result_flags width (x AND y) False False)
      | ALU_OR \<Rightarrow> (x OR y, result_flags width (x OR y) False False)
      | ALU_XOR \<Rightarrow> (x XOR y, result_flags width (x XOR y) False False))"

definition exec_alu :: "alu_op \<Rightarrow> nat \<Rightarrow> operand \<Rightarrow> u64 \<Rightarrow> machine \<Rightarrow> machine option" where
  "exec_alu op width dst y m =
     (case (read_operand m width dst, if op = ALU_SBB then map_option fl_carry (mc_flags m) else Some False) of
        (Some x, Some carry) \<Rightarrow>
          (case alu op width carry x y of (v, f) \<Rightarrow>
             let m = m\<lparr>mc_flags := Some f\<rparr> in
             if op = ALU_CMP then Some m else write_operand m width dst v)
      | _ \<Rightarrow> None)"

definition condition :: "nat \<Rightarrow> flags \<Rightarrow> bool option" where
  "condition c f =
     (let base = (if c div 2 = 1 then Some (fl_carry f) else if c div 2 = 2 then Some (fl_zero f)
        else if c div 2 = 3 then Some (fl_carry f \<or> fl_zero f) else if c div 2 = 4 then Some (fl_sign f)
        else if c div 2 = 6 then Some (fl_sign f \<noteq> fl_overflow f)
        else if c div 2 = 7 then Some (fl_zero f \<or> fl_sign f \<noteq> fl_overflow f)
        else if c div 2 = 0 then Some (fl_overflow f) else None)
      in map_option (\<lambda>b. if odd c then \<not> b else b) base)"

definition shift :: "shift_op \<Rightarrow> nat \<Rightarrow> nat \<Rightarrow> u64 \<Rightarrow> u64" where
  "shift op width n v =
     (case op of SHIFT_SHL \<Rightarrow> push_bit n v | SHIFT_SHR \<Rightarrow> drop_bit n v
      | SHIFT_SAR \<Rightarrow> word_of_int (drop_bit n (signed_at width v)))"

definition undefined_flags :: "machine \<Rightarrow> machine" where
  "undefined_flags m = m\<lparr>mc_flags := None\<rparr>"

text \<open>The quotient and the remainder of a 128-bit dividend; no value is a fault.\<close>

definition divide :: "bool \<Rightarrow> u64 \<Rightarrow> machine \<Rightarrow> machine option" where
  "divide is_signed y m =
     (let hi = mc_regs m RDX; lo = mc_regs m RAX in
      if y = 0 then None
      else if is_signed then
        (let n = sint hi * 2 ^ 64 + uint lo; q = (if (n < 0) = (sint y < 0) then \<bar>n\<bar> div \<bar>sint y\<bar> else - (\<bar>n\<bar> div \<bar>sint y\<bar>)) in
         if q < - (2 ^ 63) \<or> q \<ge> 2 ^ 63 then None
         else Some (undefined_flags (set_reg (set_reg m RAX (word_of_int q)) RDX (word_of_int (n - q * sint y)))))
      else
        (let n = uint hi * 2 ^ 64 + uint lo; q = n div uint y in
         if q \<ge> 2 ^ 64 then None
         else Some (undefined_flags (set_reg (set_reg m RAX (word_of_int q)) RDX (word_of_int (n mod uint y))))))"

text \<open>An instruction that does not change the position. No value: a fault, or something not modelled.\<close>

definition push_word :: "u64 \<Rightarrow> machine \<Rightarrow> machine" where
  "push_word v m =
     (let sp = mc_regs m RSP - 8 in (set_reg m RSP sp)\<lparr>mc_mem := write_bytes (mc_mem m) sp 8 v\<rparr>)"

fun exec :: "(nat \<Rightarrow> machine \<Rightarrow> machine) \<Rightarrow> instr \<Rightarrow> machine \<Rightarrow> machine option" where
  "exec svc (IMov width dst src) m =
     (case read_operand m width src of None \<Rightarrow> None | Some v \<Rightarrow> write_operand m width dst v)"
| "exec svc (IMovImm width r v) m = Some (set_reg m r (of_nat v))"
| "exec svc (IMovImmS dst v) m = write_operand m 8 dst (word_of_int v)"
| "exec svc (IMovX is_signed width r src) m =
     map_option (\<lambda>v. set_reg m r (extended is_signed width v)) (read_operand m width src)"
| "exec svc (ILea r op) m = (case op of Mem b i d \<Rightarrow> Some (set_reg m r (address m b i d)) | _ \<Rightarrow> None)"
| "exec svc (IAlu op width dst src) m =
     (case read_operand m width src of None \<Rightarrow> None | Some y \<Rightarrow> exec_alu op width dst y m)"
| "exec svc (IAluImm op width dst v) m = exec_alu op width dst (low_bytes width (word_of_int v)) m"
| "exec svc (IImul r src) m = map_option (\<lambda>y. undefined_flags (set_reg m r (mc_regs m r * y))) (read_operand m 8 src)"
| "exec svc (IMul src) m = map_option (\<lambda>y.
     let p = uint (mc_regs m RAX) * uint y in
     undefined_flags (set_reg (set_reg m RAX (word_of_int p)) RDX (word_of_int (p div 2 ^ 64)))) (read_operand m 8 src)"
| "exec svc (IDiv src) m = (case read_operand m 8 src of None \<Rightarrow> None | Some y \<Rightarrow> divide False y m)"
| "exec svc (IIdiv src) m = (case read_operand m 8 src of None \<Rightarrow> None | Some y \<Rightarrow> divide True y m)"
| "exec svc (INeg dst) m = (case read_operand m 8 dst of None \<Rightarrow> None | Some x \<Rightarrow>
     write_operand (m\<lparr>mc_flags := Some (snd (alu ALU_SUB 8 False 0 x))\<rparr>) 8 dst (- x))"
| "exec svc (INot dst) m = (case read_operand m 8 dst of None \<Rightarrow> None | Some x \<Rightarrow> write_operand m 8 dst (NOT x))"
| "exec svc ICqo m = Some (set_reg m RDX (if sint (mc_regs m RAX) < 0 then - 1 else 0))"
| "exec svc ICdq m = Some (set_reg m RDX (if signed_at 4 (mc_regs m RAX) < 0 then 0xffffffff else 0))"
| "exec svc (IShiftCl op dst) m = (case read_operand m 8 dst of None \<Rightarrow> None | Some x \<Rightarrow>
     write_operand (undefined_flags m) 8 dst (shift op 8 (unat (mc_regs m RCX) mod 64) x))"
| "exec svc (IShiftImm op width dst n) m = (case read_operand m width dst of None \<Rightarrow> None | Some x \<Rightarrow>
     write_operand (undefined_flags m) width dst (shift op width (n mod (if width = 8 then 64 else 32)) x))"
| "exec svc (ITest width a b) m = Some (m\<lparr>mc_flags := Some (snd (alu ALU_AND width False
     (low_bytes width (mc_regs m a)) (low_bytes width (mc_regs m b))))\<rparr>)"
| "exec svc (ISetcc c dst) m = (case mc_flags m of None \<Rightarrow> None | Some f \<Rightarrow>
     (case condition c f of None \<Rightarrow> None | Some b \<Rightarrow> write_operand m 1 dst (if b then 1 else 0)))"
| "exec svc (IPush r) m = Some (push_word (mc_regs m r) m)"
| "exec svc (IPop r) m = Some (set_reg (set_reg m RSP (mc_regs m RSP + 8)) r (read_bytes (mc_mem m) (mc_regs m RSP) 8))"
| "exec svc (IInt n) m = Some (svc n m)"
| "exec svc i m = None"

subsection \<open>Running code\<close>

text \<open>A step from a position in the code. Calls and returns leave the code.\<close>

definition next_position :: "instr \<Rightarrow> nat \<Rightarrow> machine \<Rightarrow> int option" where
  "next_position i behind m =
     (case i of
        IJmp d \<Rightarrow> Some (int behind + d)
      | IJcc c d \<Rightarrow> (case mc_flags m of None \<Rightarrow> None
          | Some f \<Rightarrow> map_option (\<lambda>b. if b then int behind + d else int behind) (condition c f))
      | ICall d \<Rightarrow> None
      | IRet \<Rightarrow> None
      | _ \<Rightarrow> Some (int behind))"

definition is_jump :: "instr \<Rightarrow> bool" where
  "is_jump i = (case i of IJmp _ \<Rightarrow> True | IJcc _ _ \<Rightarrow> True | _ \<Rightarrow> False)"

definition step_code :: "(nat \<Rightarrow> machine \<Rightarrow> machine) \<Rightarrow> byte list \<Rightarrow> nat \<times> machine \<Rightarrow> (nat \<times> machine) option" where
  "step_code svc code c =
     (case c of (at, m) \<Rightarrow>
        case decode (drop at code) of None \<Rightarrow> None
        | Some (i, len) \<Rightarrow>
          (case next_position i (at + len) m of None \<Rightarrow> None
           | Some p \<Rightarrow>
             if p < 0 then None
             else map_option (\<lambda>m. (nat p, m)) (if is_jump i then Some m else exec svc i m)))"

inductive reaches :: "(nat \<Rightarrow> machine \<Rightarrow> machine) \<Rightarrow> byte list \<Rightarrow> nat \<times> machine \<Rightarrow> nat \<times> machine \<Rightarrow> bool" for svc code where
  here: "reaches svc code c c"
| step: "step_code svc code c = Some c' \<Longrightarrow> reaches svc code c' c'' \<Longrightarrow> reaches svc code c c''"

end
