(* ===== verification/Enc_Code.thy ===== *)
theory Enc_Code
  imports Enc_Emit X64
begin

text \<open>
  The instruction forms of the encoder (\<open>src/src/backend/encoder.c\<close>) against the decoder of \<open>X64\<close>: what bytes
  an emitter appends (\<open>emits\<close>), and which instruction they are (\<open>decodes\<close>).
\<close>

subsection \<open>What an emitter appends\<close>

named_theorems emitted \<open>the bytes an emitter appends\<close>

text \<open>
  The bytes are appended when the encoder has not failed before and there is room for them in the code buffer, and
  only then.
\<close>

definition has_room :: "encoder \<Rightarrow> byte list \<Rightarrow> bool" where
  "has_room e bs \<longleftrightarrow> bs = [] \<or> length (en_code e) + length bs \<le> SIZE_MAX"

definition emits :: "emitter \<Rightarrow> byte list \<Rightarrow> bool" where
  "emits f bs \<longleftrightarrow>
     (\<forall>e. (\<not> en_failed (f e) \<longleftrightarrow> \<not> en_failed e \<and> has_room e bs) \<and>
          (\<not> en_failed (f e) \<longrightarrow> en_code (f e) = en_code e @ bs))"

lemma emitsI:
  "(\<And>e. \<not> en_failed (f e) \<longleftrightarrow> \<not> en_failed e \<and> has_room e bs) \<Longrightarrow>
   (\<And>e. \<not> en_failed (f e) \<Longrightarrow> en_code (f e) = en_code e @ bs) \<Longrightarrow> emits f bs"
  by (simp add: emits_def)

lemma emitsD: "emits f bs \<Longrightarrow> \<not> en_failed (f e) \<Longrightarrow> \<not> en_failed e \<and> has_room e bs \<and> en_code (f e) = en_code e @ bs"
  by (simp add: emits_def)

lemma emits_succeeds: "emits f bs \<Longrightarrow> \<not> en_failed e \<Longrightarrow> has_room e bs \<Longrightarrow> \<not> en_failed (f e) \<and> en_code (f e) = en_code e @ bs"
  by (simp add: emits_def)

lemma emits_failed: "emits f bs \<Longrightarrow> en_failed (f e) \<longleftrightarrow> en_failed e \<or> \<not> has_room e bs"
  by (auto simp: emits_def)

lemma emits_steps_Nil [emitted, intro]: "emits (steps []) []"
  by (simp add: emits_def has_room_def)

lemma emits_steps_Cons [emitted, intro]: "emits f a \<Longrightarrow> emits (steps fs) b \<Longrightarrow> emits (steps (f # fs)) (a @ b)"
proof (rule emitsI)
  fix e
  assume f: "emits f a" "emits (steps fs) b"
  have room: "has_room (f e) b \<and> has_room e a \<longleftrightarrow> has_room e (a @ b)" if "en_code (f e) = en_code e @ a"
    using that by (auto simp: has_room_def Suc_le_eq)
  show "\<not> en_failed (steps (f # fs) e) \<longleftrightarrow> \<not> en_failed e \<and> has_room e (a @ b)"
    using emits_failed [OF f(1), of e] emits_failed [OF f(2), of "f e"] room emitsD [OF f(1), of e] by (auto simp: has_room_def)
  assume "\<not> en_failed (steps (f # fs) e)"
  then show "en_code (steps (f # fs) e) = en_code e @ a @ b"
    using emitsD [OF f(2), of "f e"] emitsD [OF f(1), of e] by simp
qed

lemma emits_emit8 [emitted]: "emits (emit8 b) [b]"
  by (auto simp: emits_def emit8_def fail_def has_room_def)

lemma emits_bytes [emitted]: "emits (emit_bytes bs) bs"
proof (induction bs)
  case Nil
  show ?case using emits_steps_Nil by (simp add: emit_bytes_def del: steps.simps)
next
  case (Cons b bs)
  then show ?case using emits_steps_Cons [OF emits_emit8, of "map emit8 bs" bs b] by (simp add: emit_bytes_def del: steps.simps)
qed

definition le4 :: "u32 \<Rightarrow> byte list" where
  "le4 v = [ucast v, ucast (drop_bit 8 v), ucast (drop_bit 16 v), ucast (drop_bit 24 v)]"

definition le8 :: "u64 \<Rightarrow> byte list" where
  "le8 v = map (\<lambda>i. ucast (drop_bit (i * 8) v)) [0..<8]"

lemma emits_emit32 [emitted]: "emits (emit32 v) (le4 v)"
proof -
  have "emit32 v = emit_bytes (le4 v)" by (simp add: emit32_def emit_bytes_def le4_def upt_rec numeral_eq_Suc)
  then show ?thesis by (simp add: emitted)
qed

lemma emits_emit64 [emitted]: "emits (emit64 v) (le8 v)"
proof -
  have "emit64 v = emit_bytes (le8 v)" by (simp add: emit64_def emit_bytes_def le8_def o_def)
  then show ?thesis by (simp add: emitted)
qed

lemma emits_depth [emitted]: "emits deeper []" "emits shallower []"
  by (auto simp: emits_def deeper_def shallower_def has_room_def)

text \<open>The bytes of prefixes and operands.\<close>

definition rex_number :: "bool \<Rightarrow> u32 \<Rightarrow> u32 \<Rightarrow> nat" where
  "rex_number w reg rm = (if w then 8 else 0) + (if reg \<ge> 8 then 4 else 0) + (if rm \<ge> 8 then 1 else 0)"

definition rex_bytes :: "bool \<Rightarrow> u32 \<Rightarrow> u32 \<Rightarrow> byte list" where
  "rex_bytes w reg rm = (if rex_number w reg rm = 0 then [] else [of_nat (0x40 + rex_number w reg rm)])"

lemma emits_rex [emitted]: "emits (emit_rex w reg rm) (rex_bytes w reg rm)"
  using emits_emit8 [of "of_nat (0x40 + rex_number w reg rm)"] emits_steps_Nil
  by (cases w; cases "reg \<ge> 8"; cases "rm \<ge> 8")
    (simp_all add: emit_rex_def [abs_def] rex_bits_def rex_bytes_def rex_number_def emits_def)

definition mem_bytes :: "u32 \<Rightarrow> u32 \<Rightarrow> int \<Rightarrow> byte list" where
  "mem_bytes base reg d =
     (if d \<ge> -128 \<and> d \<le> 127 then [modrm 0x40 reg base, word_of_int d] else modrm 0x80 reg base # le4 (word_of_int d))"

definition is_int32 :: "int \<Rightarrow> bool" where
  "is_int32 d \<longleftrightarrow> INT32_MIN \<le> d \<and> d \<le> INT32_MAX"

lemma emits_mem_reg:
  assumes "is_int32 d"
  shows "emits (emit_mem_reg base reg d) (mem_bytes base reg d)"
proof -
  have "emits (steps [emit8 (modrm 0x40 reg base), emit8 (word_of_int d)]) [modrm 0x40 reg base, word_of_int d]"
    using emits_steps_Cons [OF emits_emit8 emits_steps_Cons [OF emits_emit8 emits_steps_Nil]] by simp
  moreover have "emits (steps [emit8 (modrm 0x80 reg base), emit32 (word_of_int d)]) (modrm 0x80 reg base # le4 (word_of_int d))"
    using emits_steps_Cons [OF emits_emit8 emits_steps_Cons [OF emits_emit32 emits_steps_Nil]] by simp
  ultimately show ?thesis using assms by (simp add: emit_mem_reg_def mem_bytes_def is_int32_def)
qed

lemma mem_reg_in_range: "\<not> en_failed (emit_mem_reg base reg d e) \<Longrightarrow> is_int32 d"
  by (auto simp: emit_mem_reg_def is_int32_def fail_def split: if_splits)

lemma emits_modrm_reg [emitted]: "emits (emit_modrm_reg reg rm) [modrm 0xc0 reg rm]"
  by (simp add: emit_modrm_reg_def emitted)

subsection \<open>Fields of operand bytes\<close>

lemma low_three_bits: "(x :: u32) AND 7 = of_nat (unat x mod 8)"
proof -
  have "x AND 7 = take_bit 3 x" by (simp add: take_bit_eq_mask mask_eq_exp_minus_1)
  moreover have "unat (take_bit 3 x) = take_bit 3 (unat x)" by (simp add: unsigned_take_bit_eq)
  then have "unat (take_bit 3 x) = unat x mod 8" by (simp only: take_bit_eq_mod) simp
  moreover have "x AND 7 = of_nat (unat (x AND 7))" by simp
  ultimately show ?thesis by metis
qed

lemma modrm_number:
  assumes "mode \<in> {0, 0x40, 0x80, 0xc0}"
  shows "unat (modrm mode reg rm) = unat mode + 8 * (unat reg mod 8) + unat rm mod 8"
proof -
  have "unat reg mod 8 \<in> {0, 1, 2, 3, 4, 5, 6, 7}" "unat rm mod 8 \<in> {0, 1, 2, 3, 4, 5, 6, 7}" by auto
  then show ?thesis using assms by (auto simp: modrm_def low_three_bits)
qed


lemma octal_digits:
  fixes a b k :: nat
  assumes "a < 8" "b < 8"
  shows "(64 * k + 8 * a + b) div 64 = k" "(64 * k + 8 * a + b) div 8 mod 8 = a" "(64 * k + 8 * a + b) mod 8 = b"
proof -
  have e: "64 * k + 8 * a + b = b + 8 * (8 * k + a)" "64 * k + 8 * a + b = (8 * a + b) + 64 * k" by simp_all
  show "(64 * k + 8 * a + b) div 64 = k" unfolding e(2) using assms by simp
  have "(b + 8 * (8 * k + a)) mod 8 = b mod 8" by (rule mod_mult_self2)
  then show "(64 * k + 8 * a + b) mod 8 = b" unfolding e(1) using assms by simp
  have "(b + 8 * (8 * k + a)) div 8 = (8 * k + a) + b div 8" by (rule div_mult_self2) simp
  then have "(64 * k + 8 * a + b) div 8 = a + 8 * k" unfolding e(1) using assms by simp
  then show "(64 * k + 8 * a + b) div 8 mod 8 = a" using assms by simp
qed

lemma modrm_parts:
  assumes "k < 4" "mode = 64 * of_nat k"
  shows "unat (modrm mode reg rm) div 64 = k" "unat (modrm mode reg rm) div 8 mod 8 = unat reg mod 8"
    "unat (modrm mode reg rm) mod 8 = unat rm mod 8"
proof -
  have "k \<in> {0, 1, 2, 3}" using assms(1) by auto
  then have "mode \<in> {0, 0x40, 0x80, 0xc0}" "unat mode = 64 * k" using assms(2) by auto
  then have "unat (modrm mode reg rm) = 64 * k + 8 * (unat reg mod 8) + unat rm mod 8" using modrm_number by metis
  then show "unat (modrm mode reg rm) div 64 = k" "unat (modrm mode reg rm) div 8 mod 8 = unat reg mod 8"
    "unat (modrm mode reg rm) mod 8 = unat rm mod 8"
    using octal_digits [of "unat reg mod 8" "unat rm mod 8" k] by simp_all
qed

lemma four_bytes:
  fixes x :: nat
  shows "x mod 256 + 256 * (x div 256 mod 256 + 256 * (x div 65536 mod 256 + 256 * (x div 16777216))) = x"
proof -
  have "x div 65536 = x div 256 div 256" "x div 16777216 = x div 256 div 256 div 256"
    by (simp_all add: div_mult2_eq [symmetric])
  then show ?thesis by (metis mod_mult_div_eq)
qed

lemma le_value_le4: "le_value (map unat (le4 v)) = unat v"
proof -
  have "unat v div 16777216 < 256" using unat_u32_less [of v] by (simp add: div_less_iff_less_mult)
  then have "unat v div 16777216 mod 256 = unat v div 16777216" by simp
  with four_bytes [of "unat v"] show ?thesis
    by (simp add: le4_def unsigned_ucast_eq unsigned_drop_bit_eq take_bit_eq_mod drop_bit_eq_div unat_div)
qed

lemma le4_length [simp]: "length (le4 v) = 4" and le8_length [simp]: "length (le8 w) = 8"
  by (simp_all add: le4_def le8_def)

lemma signed_byte: "-128 \<le> d \<Longrightarrow> d \<le> 127 \<Longrightarrow> signed_value 8 (unat (word_of_int d :: byte)) = d"
proof (cases "d \<ge> 0")
  case False
  moreover assume "-128 \<le> d"
  ultimately have "d mod 256 = d + 256" by presburger
  then show ?thesis using \<open>-128 \<le> d\<close> False by (simp add: signed_value_def unsigned_of_int take_bit_eq_mod nat_less_iff)
qed (simp add: signed_value_def unsigned_of_int take_bit_eq_mod nat_mod_distrib)

lemma signed_word:
  assumes "is_int32 d"
  shows "signed_value 32 (unat (word_of_int d :: u32)) = d"
proof -
  have range: "- 2147483648 \<le> d" "d < 2147483648"
    using assms by (simp_all add: is_int32_def INT32_MIN_def INT32_MAX_def)
  have n: "unat (word_of_int d :: u32) = nat (d mod 4294967296)" by (simp add: unsigned_of_int take_bit_eq_mod)
  have "d mod 4294967296 = (if d \<ge> 0 then d else d + 4294967296)"
  proof (cases "d \<ge> 0")
    case False
    have "(d + 4294967296) mod 4294967296 = d + 4294967296" by (rule mod_pos_pos_trivial) (use range False in auto)
    then show ?thesis using False by simp
  qed (use range in simp)
  then show ?thesis unfolding n using range by (simp add: signed_value_def nat_less_iff)
qed

lemma take_signed_byte:
  "-128 \<le> d \<Longrightarrow> d \<le> 127 \<Longrightarrow> take_signed 1 (unat (word_of_int d :: byte) # bs) = Some (d, bs)"
  using signed_byte by (simp add: take_signed_def take_field_def)

lemma take_field_le4: "take_field 4 (map unat (le4 v) @ bs) = Some (unat v, bs)"
  using le_value_le4 [of v] by (simp add: take_field_def)

lemma take_signed_le4: "is_int32 d \<Longrightarrow> take_signed 4 (map unat (le4 (word_of_int d)) @ bs) = Some (d, bs)"
  using signed_word by (simp add: take_signed_def take_field_le4)

subsection \<open>Decoding operands and prefixes\<close>

abbreviation (input) extension :: "u32 \<Rightarrow> nat" where
  "extension reg \<equiv> (if reg \<ge> 8 then 8 else 0)"

lemma register_number: "reg < 16 \<Longrightarrow> unat reg mod 8 + extension reg = unat reg"
  by (simp add: word_less_nat_alt word_le_nat_alt) presburger

lemma decode_modrm_reg:
  assumes "reg < 16" "rm < 16"
  shows "decode_modrm (extension reg) x (extension rm) (unat (modrm 0xc0 reg rm) # bs) = Some (unat reg, Reg (unat rm), bs)"
  using modrm_parts [of 3 "0xc0" reg rm] register_number [OF assms(1)] register_number [OF assms(2)]
  by (simp add: decode_modrm_def)

text \<open>A base in RSP or R12 would need a further byte; the encoder does not use them as a base.\<close>

definition plain_base :: "u32 \<Rightarrow> bool" where
  "plain_base base \<longleftrightarrow> base < 16 \<and> base \<noteq> 4 \<and> base \<noteq> 12"

lemma plain_base_bits: "plain_base base \<Longrightarrow> unat base mod 8 \<noteq> 4"
proof
  assume p: "plain_base base" and four: "unat base mod 8 = 4"
  then have "unat base < 16" by (simp add: plain_base_def word_less_nat_alt)
  with four have "unat base = 4 \<or> unat base = 12" by presburger
  moreover have "base = of_nat (unat base)" by simp
  ultimately have "base = of_nat 4 \<or> base = of_nat 12" by metis
  then show False using p by (auto simp: plain_base_def)
qed

lemma decode_modrm_mem:
  assumes "reg < 16" "plain_base base" "is_int32 d"
  shows "decode_modrm (extension reg) x (extension base) (map unat (mem_bytes base reg d) @ bs) =
    Some (unat reg, Mem (Some (unat base)) None d, bs)"
proof -
  have b: "base < 16" using assms(2) by (simp add: plain_base_def)
  note parts = plain_base_bits [OF assms(2)] register_number [OF assms(1)] register_number [OF b]
  show ?thesis
  proof (cases "d \<ge> -128 \<and> d \<le> 127")
    case True
    then show ?thesis using parts modrm_parts [of 1 "0x40" reg base] take_signed_byte [of d bs]
      by (simp add: mem_bytes_def decode_modrm_def with_displacement_def)
  next
    case False
    then show ?thesis using parts modrm_parts [of 2 "0x80" reg base] take_signed_le4 [OF assms(3), of bs]
      by (auto simp: mem_bytes_def decode_modrm_def with_displacement_def)
  qed
qed

definition prefix_of :: "bool \<Rightarrow> bool \<Rightarrow> u32 \<Rightarrow> u32 \<Rightarrow> prefix_bytes" where
  "prefix_of operand w reg rm =
     \<lparr>px_operand = operand, px_rex = (if rex_number w reg rm = 0 then None else Some (rex_number w reg rm))\<rparr>"

lemma prefix_of_simps [simp]:
  "rex_w (prefix_of op w reg rm) = w" "rex_r (prefix_of op w reg rm) = extension reg"
  "rex_b (prefix_of op w reg rm) = extension rm" "rex_x (prefix_of op w reg rm) = 0"
  by (auto simp: prefix_of_def rex_w_def rex_r_def rex_b_def rex_x_def rex_number_def)

lemma operand_width_prefix_of: "operand_width (prefix_of op w reg rm) = (if w then 8 else if op then 2 else 4)"
  by (simp add: operand_width_def) (simp add: prefix_of_def)

lemma decode_rex_bytes:
  assumes "\<not> (0x40 \<le> c \<and> c < 0x50)"
  shows "decode_rex op (map unat (rex_bytes w reg rm) @ c # cs) = decode_main (prefix_of op w reg rm) (c # cs)"
  using assms by (auto simp: decode_rex_def rex_bytes_def rex_number_def prefix_of_def)

lemma decode_numbers_rex:
  assumes "\<not> (0x40 \<le> c \<and> c < 0x50)" "c \<noteq> 0x66"
  shows "decode_numbers (map unat (rex_bytes w reg rm) @ c # cs) = decode_main (prefix_of False w reg rm) (c # cs)"
proof -
  have "decode_numbers (map unat (rex_bytes w reg rm) @ c # cs) = decode_rex False (map unat (rex_bytes w reg rm) @ c # cs)"
    using assms(2) by (auto simp: decode_numbers_def rex_bytes_def rex_number_def)
  then show ?thesis using decode_rex_bytes [OF assms(1)] by simp
qed

subsection \<open>Instructions\<close>

definition decodes :: "instr \<Rightarrow> byte list \<Rightarrow> bool" where
  "decodes i bs \<longleftrightarrow> (\<forall>rest. decode (bs @ rest) = Some (i, length bs))"

lemma decodesI:
  assumes "\<And>rest. decode_numbers (map unat bs @ rest) = Some (i, rest)"
  shows "decodes i bs"
  using assms by (simp add: decodes_def decode_def)

lemma emits_eq: "emits f bs \<Longrightarrow> bs = bs' \<Longrightarrow> emits f bs'"
  by simp

lemma emits_if [emitted]: "emits f a \<Longrightarrow> emits g b \<Longrightarrow> emits (if c then f else g) (if c then a else b)"
  by simp

lemmas decoding =
  decode_main_def decode_opcode_def decode_two_byte_def with_modrm_def operand_width_prefix_of with_signed_def
  alu_of_def shift_of_def decode_modrm_reg decode_modrm_mem

text \<open>An instruction of the form prefix, opcode, operands.\<close>

lemma decodes_rex:
  assumes "\<And>rest. decode_main (prefix_of False w reg rm) (unat c # map unat ops @ rest) = Some (i, rest)"
    "unat c \<noteq> 0x66" "\<not> (0x40 \<le> unat c \<and> unat c < 0x50)"
  shows "decodes i (rex_bytes w reg rm @ c # ops)"
  by (rule decodesI) (simp add: decode_numbers_rex [OF assms(3,2)] assms(1))

lemma mov_reg_reg:
  assumes "dst < 16" "src < 16"
  shows "emits (emit_mov_reg_reg dst src) (rex_bytes True src dst @ [0x89, modrm 0xc0 src dst])"
    "decodes (IMov 8 (Reg (unat dst)) (Reg (unat src))) (rex_bytes True src dst @ [0x89, modrm 0xc0 src dst])"
proof -
  show "emits (emit_mov_reg_reg dst src) (rex_bytes True src dst @ [0x89, modrm 0xc0 src dst])"
    unfolding emit_mov_reg_reg_def by (rule emits_eq, (rule emitted)+, simp)
  show "decodes (IMov 8 (Reg (unat dst)) (Reg (unat src))) (rex_bytes True src dst @ [0x89, modrm 0xc0 src dst])"
    by (rule decodes_rex) (simp_all add: decoding assms)
qed

lemma alu_reg_reg:
  assumes "dst < 16" "src < 16" "opcode < 0x40" "unat opcode mod 8 = 1" "alu_of (unat opcode div 8) = Some a"
  shows "emits (emit_alu opcode dst src) (rex_bytes True src dst @ [ucast opcode, modrm 0xc0 src dst])"
    "decodes (IAlu a 8 (Reg (unat dst)) (Reg (unat src))) (rex_bytes True src dst @ [ucast opcode, modrm 0xc0 src dst])"
proof -
  show "emits (emit_alu opcode dst src) (rex_bytes True src dst @ [ucast opcode, modrm 0xc0 src dst])"
    unfolding emit_alu_def by (rule emits_eq, (rule emitted)+, simp)
  have small: "unat opcode < 64" using assms(3) by (simp add: word_less_nat_alt)
  then have c: "unat (ucast opcode :: byte) = unat opcode" by (simp add: unsigned_ucast_eq take_bit_eq_mod)
  have ne: "unat opcode \<noteq> 15" using assms(4) by auto
  show "decodes (IAlu a 8 (Reg (unat dst)) (Reg (unat src))) (rex_bytes True src dst @ [ucast opcode, modrm 0xc0 src dst])"
    by (rule decodes_rex)
      (use small ne in \<open>simp_all add: c decode_main_def decode_opcode_def with_modrm_def operand_width_prefix_of
        decode_modrm_reg assms\<close>)
qed

lemma rex_bytes_short: "rex_bytes False 0 reg = (if reg \<ge> 8 then [0x41] else [])"
  "rex_bytes True 0 reg = [ucast (0x48 OR (if reg \<ge> 8 then 1 else 0 :: u32))]"
  by (simp_all add: rex_bytes_def rex_number_def)

lemma opcode_register:
  assumes "base \<in> {0x50, 0x58, 0xb8}"
  shows "unat (ucast (base + (reg AND 7) :: u32) :: byte) = unat base + unat reg mod 8"
proof -
  have "unat reg mod 8 \<in> {0, 1, 2, 3, 4, 5, 6, 7}" by auto
  then show ?thesis using assms by (auto simp: low_three_bits)
qed

lemma push_reg:
  assumes "reg < 16"
  shows "emits (emit_push reg) (rex_bytes False 0 reg @ [ucast (0x50 + (reg AND 7))])"
    "decodes (IPush (unat reg)) (rex_bytes False 0 reg @ [ucast (0x50 + (reg AND 7))])"
proof -
  show "emits (emit_push reg) (rex_bytes False 0 reg @ [ucast (0x50 + (reg AND 7))])"
    unfolding emit_push_def by (rule emits_eq, (rule emitted)+, simp add: rex_bytes_short)
  have "unat reg mod 8 < 8" by simp
  then show "decodes (IPush (unat reg)) (rex_bytes False 0 reg @ [ucast (0x50 + (reg AND 7))])"
    by (intro decodes_rex) (simp_all add: opcode_register decode_main_def decode_opcode_def register_number assms)
qed

lemma pop_reg:
  assumes "reg < 16"
  shows "emits (emit_pop reg) (rex_bytes False 0 reg @ [ucast (0x58 + (reg AND 7))])"
    "decodes (IPop (unat reg)) (rex_bytes False 0 reg @ [ucast (0x58 + (reg AND 7))])"
proof -
  show "emits (emit_pop reg) (rex_bytes False 0 reg @ [ucast (0x58 + (reg AND 7))])"
    unfolding emit_pop_def by (rule emits_eq, (rule emitted)+, simp add: rex_bytes_short)
  have "unat reg mod 8 < 8" by simp
  then show "decodes (IPop (unat reg)) (rex_bytes False 0 reg @ [ucast (0x58 + (reg AND 7))])"
    by (intro decodes_rex) (simp_all add: opcode_register decode_main_def decode_opcode_def register_number assms)
qed

lemma eight_bytes:
  fixes x :: nat
  shows "x mod 256 + 256 * (x div 2 ^ 8 mod 256 + 256 * (x div 2 ^ 16 mod 256 + 256 * (x div 2 ^ 24 mod 256 +
    256 * (x div 2 ^ 32 mod 256 + 256 * (x div 2 ^ 40 mod 256 + 256 * (x div 2 ^ 48 mod 256 + 256 * (x div 2 ^ 56))))))) = x"
proof -
  have next_byte: "x div 2 ^ n mod 256 + 256 * (x div 2 ^ (n + 8)) = x div 2 ^ n" for n
  proof -
    have "x div 2 ^ (n + 8) = x div 2 ^ n div 256" by (simp add: power_add div_mult2_eq)
    then show ?thesis by (metis mod_mult_div_eq)
  qed
  show ?thesis
    using next_byte [of 0] next_byte [of 8] next_byte [of 16] next_byte [of 24] next_byte [of 32] next_byte [of 40] next_byte [of 48]
    by simp
qed

lemma take_field_le8: "take_field 8 (map unat (le8 v) @ bs) = Some (unat v, bs)"
proof -
  have "unat v div 2 ^ 56 < 256" using unat_u64_less [of v] by (simp add: div_less_iff_less_mult)
  then have "unat v div 2 ^ 56 mod 256 = unat v div 2 ^ 56" by simp
  with eight_bytes [of "unat v"] have "le_value (map unat (le8 v)) = unat v"
    by (simp add: le8_def upt_rec unsigned_ucast_eq unsigned_drop_bit_eq take_bit_eq_mod drop_bit_eq_div unat_div)
  then show ?thesis by (simp add: take_field_def)
qed

lemma mov_reg_imm:
  assumes "reg < 16"
  shows "emits (emit_mov_reg_imm reg v 8) (rex_bytes True 0 reg @ ucast (0xb8 + (reg AND 7)) # le8 v)"
    "decodes (IMovImm 8 (unat reg) (unat v)) (rex_bytes True 0 reg @ ucast (0xb8 + (reg AND 7)) # le8 v)"
    "width \<noteq> 8 \<Longrightarrow> emits (emit_mov_reg_imm reg v width) (rex_bytes False 0 reg @ ucast (0xb8 + (reg AND 7)) # le4 (ucast v))"
    "decodes (IMovImm 4 (unat reg) (unat v mod 2 ^ 32)) (rex_bytes False 0 reg @ ucast (0xb8 + (reg AND 7)) # le4 (ucast v))"
proof -
  show "emits (emit_mov_reg_imm reg v 8) (rex_bytes True 0 reg @ ucast (0xb8 + (reg AND 7)) # le8 v)"
    unfolding emit_mov_reg_imm_def simp_thms if_True by (rule emits_eq, (rule emitted)+, simp add: rex_bytes_short)
  show "emits (emit_mov_reg_imm reg v width) (rex_bytes False 0 reg @ ucast (0xb8 + (reg AND 7)) # le4 (ucast v))"
    if "width \<noteq> 8"
  proof -
    have "emit_mov_reg_imm reg v width =
        steps [if reg \<ge> 8 then emit8 0x41 else steps [], emit8 (ucast (0xb8 + (reg AND 7))), emit32 (ucast v)]"
      using that by (simp add: emit_mov_reg_imm_def)
    then show ?thesis by (elim ssubst) (rule emits_eq, (rule emitted)+, simp add: rex_bytes_short)
  qed
  have o: "unat reg mod 8 < 8" by simp
  then show "decodes (IMovImm 8 (unat reg) (unat v)) (rex_bytes True 0 reg @ ucast (0xb8 + (reg AND 7)) # le8 v)"
    by (intro decodes_rex) (simp_all add: opcode_register decode_main_def decode_opcode_def register_number assms take_field_le8)
  have "unat (ucast v :: u32) = unat v mod 2 ^ 32" by (simp add: unsigned_ucast_eq take_bit_eq_mod)
  with o show "decodes (IMovImm 4 (unat reg) (unat v mod 2 ^ 32)) (rex_bytes False 0 reg @ ucast (0xb8 + (reg AND 7)) # le4 (ucast v))"
    by (intro decodes_rex)
      (simp_all add: opcode_register decode_main_def decode_opcode_def register_number assms take_field_le4)
qed

lemma test_reg:
  assumes "reg < 16"
  shows "emits (emit_test reg) (rex_bytes True reg reg @ [0x85, modrm 0xc0 reg reg])"
    "decodes (ITest 8 (unat reg) (unat reg)) (rex_bytes True reg reg @ [0x85, modrm 0xc0 reg reg])"
proof -
  show "emits (emit_test reg) (rex_bytes True reg reg @ [0x85, modrm 0xc0 reg reg])"
    unfolding emit_test_def by (rule emits_eq, (rule emitted)+, simp)
  show "decodes (ITest 8 (unat reg) (unat reg)) (rex_bytes True reg reg @ [0x85, modrm 0xc0 reg reg])"
    by (rule decodes_rex) (simp_all add: decoding assms)
qed

abbreviation (input) memory_at :: "u32 \<Rightarrow> int \<Rightarrow> operand" where
  "memory_at base d \<equiv> Mem (Some (unat base)) None d"

lemma lea_mem:
  assumes "reg < 16" "plain_base base" "is_int32 d"
  shows "emits (emit_lea_mem base reg d) (rex_bytes True reg base @ 0x8d # mem_bytes base reg d)"
    "decodes (ILea (unat reg) (memory_at base d)) (rex_bytes True reg base @ 0x8d # mem_bytes base reg d)"
proof -
  show "emits (emit_lea_mem base reg d) (rex_bytes True reg base @ 0x8d # mem_bytes base reg d)"
    unfolding emit_lea_mem_def by (rule emits_eq, (rule emitted emits_mem_reg [OF assms(3)])+, simp)
  show "decodes (ILea (unat reg) (memory_at base d)) (rex_bytes True reg base @ 0x8d # mem_bytes base reg d)"
    by (rule decodes_rex) (simp_all add: decoding assms)
qed

text \<open>A load extends a byte, a word or a signed half to the register, as the width says.\<close>

definition load_instr :: "nat \<Rightarrow> bool \<Rightarrow> nat \<Rightarrow> operand \<Rightarrow> instr" where
  "load_instr width is_signed reg op =
     (if width = 1 \<or> width = 2 \<or> width = 4 \<and> is_signed then IMovX is_signed width reg op else IMov width (Reg reg) op)"

definition load_bytes :: "u32 \<Rightarrow> u32 \<Rightarrow> int \<Rightarrow> nat \<Rightarrow> bool \<Rightarrow> byte list" where
  "load_bytes reg base d width is_signed =
     (if width = 1 \<or> width = 2 then rex_bytes True reg base @ 0x0f # extend_opcode is_signed width # mem_bytes base reg d
      else if width = 4 \<and> is_signed then rex_bytes True reg base @ 0x63 # mem_bytes base reg d
      else rex_bytes (width = 8) reg base @ 0x8b # mem_bytes base reg d)"

lemma emits_load: "is_int32 d \<Longrightarrow> emits (emit_load_mem reg base d width is_signed) (load_bytes reg base d width is_signed)"
  unfolding emit_load_mem_def by (rule emits_eq, (rule emitted emits_mem_reg | assumption)+, simp add: load_bytes_def)

lemma decodes_load:
  assumes "reg < 16" "plain_base base" "is_int32 d" "width \<in> {1, 2, 4, 8}"
  shows "decodes (load_instr width is_signed (unat reg) (memory_at base d)) (load_bytes reg base d width is_signed)"
proof -
  have ext: "decodes (IMovX is_signed w (unat reg) (memory_at base d))
      (rex_bytes True reg base @ 0x0f # extend_opcode is_signed w # mem_bytes base reg d)" if "w \<in> {1, 2}" for w
    by (rule decodes_rex) (use that in \<open>auto simp: decoding assms(1-3) extend_opcode_def byte_operand_def\<close>)
  have signed: "decodes (IMovX True 4 (unat reg) (memory_at base d)) (rex_bytes True reg base @ 0x63 # mem_bytes base reg d)"
    by (rule decodes_rex) (simp_all add: decoding assms(1-3))
  have plain: "decodes (IMov (if w then 8 else 4) (Reg (unat reg)) (memory_at base d))
      (rex_bytes w reg base @ 0x8b # mem_bytes base reg d)" for w
    by (rule decodes_rex) (simp_all add: decoding assms(1-3))
  show ?thesis
    using assms(4) ext [of width] signed plain [of "width = 8"] by (auto simp: load_instr_def load_bytes_def)
qed

definition narrow_bytes :: "u32 \<Rightarrow> u32 \<Rightarrow> byte list" where
  "narrow_bytes reg rm =
     (if rex_bits reg rm \<noteq> 0 \<or> reg \<ge> 4 \<or> rm \<ge> 4 then [ucast (0x40 OR rex_bits reg rm)] else [])"

definition store_bytes :: "u32 \<Rightarrow> u32 \<Rightarrow> int \<Rightarrow> nat \<Rightarrow> byte list" where
  "store_bytes src base d width =
     (if width = 2 then [0x66] else []) @
     (if width = 1 \<or> width = 2 then
        narrow_bytes src base
      else rex_bytes (width = 8) src base) @
     (if width = 1 then 0x88 else 0x89) # mem_bytes base src d"

lemma emits_rex_byte_word [emitted]:
  "emits (emit_rex_byte_word reg rm) (narrow_bytes reg rm)"
  using emits_emit8 emits_steps_Nil by (simp add: emit_rex_byte_word_def [abs_def] narrow_bytes_def Let_def emits_def)

lemma emits_store: "is_int32 d \<Longrightarrow> emits (emit_store_mem src base d width) (store_bytes src base d width)"
  unfolding emit_store_mem_def by (rule emits_eq, (rule emitted emits_mem_reg | assumption)+, simp add: store_bytes_def)

text \<open>A prefix that may be there without a bit set: then it selects the low byte registers.\<close>

definition narrow_prefix :: "bool \<Rightarrow> u32 \<Rightarrow> u32 \<Rightarrow> prefix_bytes" where
  "narrow_prefix operand reg rm =
     \<lparr>px_operand = operand, px_rex = (if rex_bits reg rm \<noteq> 0 \<or> reg \<ge> 4 \<or> rm \<ge> 4 then Some (unat (rex_bits reg rm)) else None)\<rparr>"

lemma narrow_prefix_simps [simp]:
  "\<not> rex_w (narrow_prefix op reg rm)" "rex_r (narrow_prefix op reg rm) = extension reg"
  "rex_b (narrow_prefix op reg rm) = extension rm" "rex_x (narrow_prefix op reg rm) = 0"
  by (auto simp: narrow_prefix_def rex_w_def rex_r_def rex_b_def rex_x_def rex_bits_def)

lemma narrow_width: "operand_width (narrow_prefix op reg rm) = (if op then 2 else 4)"
  by (simp add: operand_width_def) (simp add: narrow_prefix_def)

lemma narrow_register: "byte_register (narrow_prefix op reg rm) (unat reg)" "byte_register (narrow_prefix op reg rm) (unat rm)"
  by (auto simp: byte_register_def narrow_prefix_def word_le_nat_alt)

lemma decode_rex_narrow:
  assumes "\<not> (0x40 \<le> c \<and> c < 0x50)"
  shows "decode_rex op (map unat (narrow_bytes reg rm) @ c # cs)
    = decode_main (narrow_prefix op reg rm) (c # cs)"
  using assms by (auto simp: decode_rex_def narrow_prefix_def narrow_bytes_def rex_bits_def)

lemma decode_numbers_narrow:
  assumes "\<not> (0x40 \<le> c \<and> c < 0x50)" "c \<noteq> 0x66"
  shows "decode_numbers (map unat (narrow_bytes reg rm) @ c # cs)
    = decode_main (narrow_prefix False reg rm) (c # cs)"
proof -
  have "decode_numbers (map unat (narrow_bytes reg rm) @ c # cs)
      = decode_rex False (map unat (narrow_bytes reg rm) @ c # cs)"
    using assms(2) by (auto simp: decode_numbers_def narrow_bytes_def rex_bits_def)
  then show ?thesis using decode_rex_narrow [OF assms(1)] by simp
qed

lemma decodes_store:
  assumes "src < 16" "plain_base base" "is_int32 d" "width \<in> {1, 2, 4, 8}"
  shows "decodes (IMov width (memory_at base d) (Reg (unat src))) (store_bytes src base d width)"
proof -
  have wide: "decodes (IMov (if w then 8 else 4) (memory_at base d) (Reg (unat src)))
      (rex_bytes w src base @ 0x89 # mem_bytes base src d)" for w
    by (rule decodes_rex) (simp_all add: decoding assms(1-3))
  have one: "decodes (IMov 1 (memory_at base d) (Reg (unat src))) (store_bytes src base d 1)"
    by (rule decodesI)
      (simp add: store_bytes_def decode_numbers_narrow decoding assms(1-3) narrow_register byte_operand_def)
  have two: "decodes (IMov 2 (memory_at base d) (Reg (unat src))) (store_bytes src base d 2)"
    by (rule decodesI) (simp add: store_bytes_def decode_numbers_def decode_rex_narrow decoding assms(1-3) narrow_width)
  from assms(4) consider "width = 1" | "width = 2" | "width = 4" | "width = 8" by auto
  then show ?thesis
  proof cases
    case 3
    then show ?thesis using wide [of False] by (simp add: store_bytes_def)
  next
    case 4
    then show ?thesis using wide [of True] by (simp add: store_bytes_def)
  qed (use one two in simp_all)
qed

lemma mov_reg8_reg:
  assumes "dst < 16" "src < 16"
  defines "bs \<equiv> narrow_bytes src dst @ [0x88, modrm 0xc0 src dst]"
  shows "emits (emit_mov_reg8_reg dst src) bs" "decodes (IMov 1 (Reg (unat dst)) (Reg (unat src))) bs"
proof -
  show "emits (emit_mov_reg8_reg dst src) bs"
    unfolding emit_mov_reg8_reg_def bs_def by (rule emits_eq, (rule emitted)+, simp)
  show "decodes (IMov 1 (Reg (unat dst)) (Reg (unat src))) bs"
    unfolding bs_def
    by (rule decodesI) (simp add: decode_numbers_narrow decoding assms(1,2) narrow_register byte_operand_def)
qed

lemma setcc_al:
  assumes "c < 16"
  shows "emits (emit_setcc c) [0x0f, ucast (0x90 + c), 0xc0]"
    "decodes (ISetcc (unat c) (Reg 0)) [0x0f, ucast (0x90 + c), 0xc0]"
proof -
  show "emits (emit_setcc c) [0x0f, ucast (0x90 + c), 0xc0]"
    unfolding emit_setcc_def by (rule emits_eq, (rule emitted)+, simp)
  have "unat c < 16" using assms by (simp add: word_less_nat_alt)
  then have "unat (ucast (0x90 + c) :: byte) = 0x90 + unat c"
    by (simp add: unsigned_ucast_eq take_bit_eq_mod unat_word_ariths)
  then show "decodes (ISetcc (unat c) (Reg 0)) [0x0f, ucast (0x90 + c), 0xc0]"
    using \<open>unat c < 16\<close>
    by (intro decodesI) (simp add: decode_numbers_def decode_rex_def decode_main_def decode_two_byte_def with_modrm_def
      rex_r_def rex_b_def decode_modrm_def byte_operand_def byte_register_def)
qed

end
