(* ===== verification/Enc_Value.thy ===== *)
theory Enc_Value
  imports Enc_Call X64 "HOL-Library.Monad_Syntax"
begin

text \<open>
  What integer expressions of the intermediate code mean: a value and a memory, in the terms of the C program and
  not of the machine. The frame says where the local variables are and which addresses the program owns; other
  addresses, as the stack below the frame, are not its business. No value stands for undefined behaviour and for
  the instructions that are left out: calls, jumps, floating and 128-bit values, and globals, whose
  addresses the linker decides.
\<close>

type_synonym memory = "u64 \<Rightarrow> byte"

record frame =
  fr_base :: u64
  fr_owned :: "u64 \<Rightarrow> bool"

definition owned_range :: "frame \<Rightarrow> u64 \<Rightarrow> nat \<Rightarrow> bool" where
  "owned_range fr a n \<longleftrightarrow> list_all (\<lambda>i. fr_owned fr (a + of_nat i)) [0..<n]"

definition machine_width :: "nat \<Rightarrow> bool" where
  "machine_width n \<longleftrightarrow> n = 1 \<or> n = 2 \<or> n = 4 \<or> n = 8"

text \<open>A value of a narrower type is held extended to 64 bits.\<close>

definition wrap :: "nat \<Rightarrow> bool \<Rightarrow> u64 \<Rightarrow> u64" where
  "wrap width is_signed v = (if width = 1 \<or> width = 2 \<or> width = 4 then extended is_signed width v else v)"

definition load_value :: "frame \<Rightarrow> nat \<Rightarrow> bool \<Rightarrow> u64 \<Rightarrow> memory \<Rightarrow> (u64 \<times> memory) option" where
  "load_value fr width is_signed a mem =
     (if machine_width width \<and> owned_range fr a width then Some (wrap width is_signed (read_bytes mem a width), mem) else None)"

definition store_value :: "frame \<Rightarrow> nat \<Rightarrow> u64 \<Rightarrow> u64 \<Rightarrow> memory \<Rightarrow> memory option" where
  "store_value fr width a v mem =
     (if machine_width width \<and> owned_range fr a width then Some (write_bytes mem a width v) else None)"

text \<open>Division truncates towards zero; a shift takes its count modulo 64.\<close>

definition truncated_div :: "int \<Rightarrow> int \<Rightarrow> int" where
  "truncated_div x y = (if (x < 0) = (y < 0) then \<bar>x\<bar> div \<bar>y\<bar> else - (\<bar>x\<bar> div \<bar>y\<bar>))"

definition divisible :: "bool \<Rightarrow> u64 \<Rightarrow> u64 \<Rightarrow> bool" where
  "divisible is_signed x y \<longleftrightarrow> y \<noteq> 0 \<and> \<not> (is_signed \<and> sint x = - (2 ^ 63) \<and> sint y = - 1)"

definition value_op :: "ir_op \<Rightarrow> bool \<Rightarrow> u64 \<Rightarrow> u64 \<Rightarrow> u64 option" where
  "value_op op is_signed x y =
     (case op of
        IR_ADD \<Rightarrow> Some (x + y) | IR_SUB \<Rightarrow> Some (x - y) | IR_MUL \<Rightarrow> Some (x * y)
      | IR_DIV \<Rightarrow>
          (if \<not> divisible is_signed x y then None
           else Some (if is_signed then word_of_int (truncated_div (sint x) (sint y)) else x div y))
      | IR_MOD \<Rightarrow>
          (if \<not> divisible is_signed x y then None
           else Some (if is_signed then word_of_int (sint x - truncated_div (sint x) (sint y) * sint y) else x mod y))
      | IR_SHL \<Rightarrow> Some (push_bit (unat y mod 64) x)
      | IR_SHR \<Rightarrow> Some (if is_signed then word_of_int (drop_bit (unat y mod 64) (sint x)) else drop_bit (unat y mod 64) x)
      | IR_BIT_AND \<Rightarrow> Some (x AND y) | IR_BIT_OR \<Rightarrow> Some (x OR y) | IR_BIT_XOR \<Rightarrow> Some (x XOR y)
      | _ \<Rightarrow> None)"

definition compare_value :: "u32 \<Rightarrow> bool \<Rightarrow> u64 \<Rightarrow> u64 \<Rightarrow> bool option" where
  "compare_value compare is_signed x y =
     (let less = (if is_signed then sint x < sint y else x < y) in
      if compare = COMPARE_EQUAL then Some (x = y)
      else if compare = COMPARE_NOT_EQUAL then Some (x \<noteq> y)
      else if compare = COMPARE_LESS then Some less
      else if compare = COMPARE_LESS_EQUAL then Some (less \<or> x = y)
      else if compare = COMPARE_GREATER then Some (\<not> less \<and> x \<noteq> y)
      else if compare = COMPARE_GREATER_EQUAL then Some (\<not> less)
      else None)"

text \<open>The address of a local variable; its offset has to fit an instruction.\<close>

definition local_address :: "frame \<Rightarrow> int \<Rightarrow> u64 option" where
  "local_address fr offset =
     (if INT32_MIN \<le> offset \<and> offset \<le> INT32_MAX then Some (fr_base fr + word_of_int offset) else None)"

definition local_symbol_address :: "unit_env \<Rightarrow> frame \<Rightarrow> nat \<Rightarrow> u64 option" where
  "local_symbol_address env fr s =
     (if symbol_is_local (ue_symbols env s) then local_address fr (frame_offset (sy_offset (ue_symbols env s))) else None)"

definition integer_operand :: "unit_env \<Rightarrow> ir_inst option \<Rightarrow> bool" where
  "integer_operand env x = (case x of None \<Rightarrow> False | Some i \<Rightarrow> \<not> is_float_type (ue_types env) (in_type i))"

function ir_eval :: "unit_env \<Rightarrow> frame \<Rightarrow> ir_inst \<Rightarrow> memory \<Rightarrow> (u64 \<times> memory) option" where
  "ir_eval env fr (IrInst nd a b c args) mem =
     (let T = ue_types env; inst = IrInst nd a b c args; width = ir_width inst; sg = in_signed inst;
          both = (\<lambda>f. do { x \<leftarrow> a; (v, mem) \<leftarrow> ir_eval env fr x mem; y \<leftarrow> b; (w, mem) \<leftarrow> ir_eval env fr y mem; f v w mem });
          one = (\<lambda>f. do { x \<leftarrow> a; (v, mem) \<leftarrow> ir_eval env fr x mem; f v mem })
      in case nd_op nd of
        IR_CONST \<Rightarrow> if machine_width width \<and> wrap width sg (nd_bits nd) = nd_bits nd then Some (nd_bits nd, mem) else None
      | IR_LOAD \<Rightarrow>
          if is_float_type T (nd_type nd) then None
          else (case (a, nd_symbol nd) of
             (None, Some s) \<Rightarrow> Option.bind (local_symbol_address env fr s) (\<lambda>p. load_value fr width sg p mem)
           | (None, None) \<Rightarrow> None
           | _ \<Rightarrow> one (\<lambda>p mem. load_value fr width sg p mem))
      | IR_STORE \<Rightarrow>
          if is_float_type T (nd_type nd) then None
          else both (\<lambda>p v mem. map_option (\<lambda>mem. (v, mem)) (store_value fr width p v mem))
      | IR_ADDR \<Rightarrow>
          (case (a, nd_symbol nd) of
             (None, Some s) \<Rightarrow> map_option (\<lambda>p. (p, mem)) (local_symbol_address env fr s)
           | (None, None) \<Rightarrow> map_option (\<lambda>p. (p, mem)) (local_address fr (nd_offset nd))
           | _ \<Rightarrow> one (\<lambda>v mem. Some (v, mem)))
      | IR_AGGREGATE \<Rightarrow> one (\<lambda>v mem. Some (v, mem))
      | IR_MEMBER \<Rightarrow> if nd_offset nd \<ge> 0 \<and> nd_offset nd \<le> INT32_MAX then one (\<lambda>v mem. Some (v + word_of_int (nd_offset nd), mem)) else None
      | IR_COMMA \<Rightarrow> both (\<lambda>v w mem. Some (w, mem))
      | IR_CAST \<Rightarrow>
          if kind_of T (nd_type nd) = Some TYPE_UINT128 \<or> nd_flags nd AND IR_FLAG_WIDE_VALUE \<noteq> 0 \<or>
             is_float_type T (nd_type nd) \<or> \<not> integer_operand env a then None
          else one (\<lambda>v mem. Some (wrap width (type_is_signed T (nd_type nd)) v, mem))
      | IR_NEG \<Rightarrow>
          if is_float_type T (nd_type nd) \<or> \<not> integer_operand env a then None else one (\<lambda>v mem. Some (wrap width sg (- v), mem))
      | IR_BIT_NOT \<Rightarrow> one (\<lambda>v mem. Some (wrap width sg (NOT v), mem))
      | IR_LOGICAL_NOT \<Rightarrow>
          if is_float_type T (nd_type nd) \<or> \<not> integer_operand env a then None else one (\<lambda>v mem. Some (of_bool (v = 0), mem))
      | IR_COMPARE \<Rightarrow>
          if \<not> integer_operand env a then None
          else both (\<lambda>v w mem. map_option (\<lambda>r. (of_bool r, mem))
                 (compare_value (nd_compare nd) (type_is_signed T (Option.bind a (\<lambda>x. in_type x))) v w))
      | IR_INCREMENT \<Rightarrow>
          if is_float_type T (nd_type nd) then None
          else one (\<lambda>p mem. do {
            (v, mem) \<leftarrow> load_value fr width sg p mem;
            mem \<leftarrow> store_value fr width p (v + nd_bits nd) mem;
            Some (if in_post inst then v else wrap width sg (v + nd_bits nd), mem) })
      | IR_COMPOUND \<Rightarrow>
          if is_float_type T (nd_type nd) then None
          else do {
            x \<leftarrow> a; y \<leftarrow> b;
            (p, mem) \<leftarrow> ir_eval env fr x mem;
            (v, mem) \<leftarrow> load_value fr width sg p mem;
            (w, mem) \<leftarrow> ir_eval env fr y mem;
            r \<leftarrow> value_op (compound_ir_op (nd_binary nd)) sg v w;
            mem \<leftarrow> store_value fr width p r mem;
            Some (wrap width sg r, mem) }
      | op \<Rightarrow>
          if is_float_type T (nd_type nd) \<and> op \<in> {IR_ADD, IR_SUB, IR_MUL, IR_DIV} then None
          else both (\<lambda>v w mem. map_option (\<lambda>r. (wrap width sg r, mem)) (value_op op sg v w)))"
  by pat_completeness auto
termination by (relation "measure (\<lambda>(env, fr, i, mem). size i)") auto

declare ir_eval.simps [simp del]

end
