(* ===== verification/Enc_Run.thy ===== *)
theory Enc_Run
  imports Enc_Code Enc_Value
begin

text \<open>
  Running emitted code: code embedded anywhere in a larger piece (\<open>runs\<close>), the effect of single instruction
  forms, and the fixed sequences of the encoder for operators and widths.
\<close>

subsection \<open>Code in its surroundings\<close>

type_synonym service = "nat \<Rightarrow> machine \<Rightarrow> machine"

definition runs :: "service \<Rightarrow> byte list \<Rightarrow> machine \<Rightarrow> machine \<Rightarrow> bool" where
  "runs svc bs m m' \<longleftrightarrow>
     (\<forall>pre post. reaches svc (pre @ bs @ post) (length pre, m) (length pre + length bs, m'))"

lemma reaches_trans: "reaches svc code a b \<Longrightarrow> reaches svc code b c \<Longrightarrow> reaches svc code a c"
  by (induction rule: reaches.induct) (auto intro: reaches.step)

lemma runs_Nil [intro, simp]: "runs svc [] m m"
  by (simp add: runs_def reaches.here)

lemma runs_append [intro]:
  assumes "runs svc a m m1" "runs svc b m1 m2"
  shows "runs svc (a @ b) m m2"
  unfolding runs_def
proof (intro allI)
  fix pre post
  have "reaches svc (pre @ a @ b @ post) (length pre, m) (length pre + length a, m1)"
    using assms(1) by (simp add: runs_def)
  moreover have "reaches svc ((pre @ a) @ b @ post) (length (pre @ a), m1) (length (pre @ a) + length b, m2)"
    using assms(2) unfolding runs_def by blast
  ultimately show "reaches svc (pre @ (a @ b) @ post) (length pre, m) (length pre + length (a @ b), m2)"
    by (auto intro: reaches_trans simp: add.assoc)
qed

text \<open>Neither a jump nor a call nor a return.\<close>

definition straight :: "instr \<Rightarrow> bool" where
  "straight i \<longleftrightarrow> (case i of IJmp _ \<Rightarrow> False | IJcc _ _ \<Rightarrow> False | ICall _ \<Rightarrow> False | IRet \<Rightarrow> False | _ \<Rightarrow> True)"

lemma straight_next: "straight i \<Longrightarrow> next_position i p m = Some (int p) \<and> \<not> is_jump i"
  by (auto simp: straight_def next_position_def is_jump_def split: instr.splits)

lemma exec_straight: "exec svc i m = Some m' \<Longrightarrow> straight i"
  by (cases i) (auto simp: straight_def)

lemma runs_instr:
  assumes "decodes i bs" "exec svc i m = Some m'"
  shows "runs svc bs m m'"
  unfolding runs_def
proof (intro allI)
  fix pre post
  have "decode (drop (length pre) (pre @ bs @ post)) = Some (i, length bs)" using assms(1) by (simp add: decodes_def)
  then have "step_code svc (pre @ bs @ post) (length pre, m) = Some (length pre + length bs, m')"
    using straight_next [OF exec_straight [OF assms(2)], of "length pre + length bs" m] assms(2) by (simp add: step_code_def)
  then show "reaches svc (pre @ bs @ post) (length pre, m) (length pre + length bs, m')"
    by (blast intro: reaches.intros)
qed

lemma runs_instrs:
  "decodes i bs \<Longrightarrow> exec svc i m = Some m1 \<Longrightarrow> runs svc cs m1 m2 \<Longrightarrow> runs svc (bs @ cs) m m2"
  using runs_instr by blast

subsection \<open>Memory\<close>

lemma read_bytes_cong:
  "(\<And>i. i < n \<Longrightarrow> mem (a + of_nat i) = mem' (a + of_nat i)) \<Longrightarrow> read_bytes mem a n = read_bytes mem' a n"
proof (induction n arbitrary: a)
  case (Suc n)
  have "mem ((a + 1) + of_nat i) = mem' ((a + 1) + of_nat i)" if "i < n" for i
    using Suc.prems [of "Suc i"] that by (simp add: algebra_simps)
  then show ?case using Suc.IH [of "a + 1"] Suc.prems [of 0] by simp
qed simp

lemma write_bytes_outside: "(\<And>i. i < n \<Longrightarrow> b \<noteq> a + of_nat i) \<Longrightarrow> write_bytes mem a n v b = mem b"
proof (induction n arbitrary: a v)
  case (Suc n)
  have "b \<noteq> (a + 1) + of_nat i" if "i < n" for i
    using Suc.prems [of "Suc i"] that by (simp add: algebra_simps)
  then show ?case using Suc.IH [of "a + 1"] Suc.prems [of 0] by simp
qed simp

lemma write_bytes_cong: "mem b = mem' b \<Longrightarrow> write_bytes mem a n v b = write_bytes mem' a n v b"
  by (induction n arbitrary: a v) simp_all

lemma write_bytes_truncated: "n \<le> 8 \<Longrightarrow> write_bytes mem a n (take_bit (8 * n) v) = write_bytes mem a n v"
proof (induction n arbitrary: a v)
  case (Suc n)
  have "drop_bit 8 (take_bit (8 * Suc n) v) = take_bit (8 * n) (drop_bit 8 v)"
    by (simp add: drop_bit_take_bit)
  moreover have "ucast (take_bit (8 * Suc n) v) = (ucast v :: byte)"
    by (rule bit_word_eqI) (simp add: bit_ucast_iff bit_take_bit_iff)
  ultimately show ?case using Suc by simp
qed simp

lemma read_write_bytes: "n \<le> 8 \<Longrightarrow> read_bytes (write_bytes mem a n v) a n = take_bit (8 * n) v"
proof (induction n arbitrary: a v)
  case (Suc n)
  have below: "(a + 1) + of_nat i \<noteq> a" if "i < n" for i :: nat
  proof
    assume "(a + 1) + of_nat i = a"
    then have "of_nat (Suc i) = (0 :: u64)" by (metis (no_types, lifting) add.assoc add.right_neutral add_left_cancel of_nat_Suc)
    then have "2 ^ 64 dvd Suc i" by (simp only: word_of_nat_eq_0_iff) simp
    then show False using that Suc.prems by (auto dest: dvd_imp_le)
  qed
  have "read_bytes ((write_bytes mem (a + 1) n (drop_bit 8 v))(a := ucast v)) (a + 1) n =
      read_bytes (write_bytes mem (a + 1) n (drop_bit 8 v)) (a + 1) n"
    by (rule read_bytes_cong) (use below in auto)
  also have "\<dots> = take_bit (8 * n) (drop_bit 8 v)" using Suc by simp
  finally have r: "read_bytes (write_bytes mem a (Suc n) v) a (Suc n) = ucast (ucast v :: byte) OR push_bit 8 (take_bit (8 * n) (drop_bit 8 v))"
    by simp
  show ?case unfolding r
    by (rule bit_word_eqI) (auto simp: bit_simps)
qed simp

lemma read_bytes_bound: "n \<le> 8 \<Longrightarrow> take_bit (8 * n) (read_bytes mem a n) = read_bytes mem a n"
proof (induction n arbitrary: a)
  case (Suc n)
  then have ih: "take_bit (8 * n) (read_bytes mem (a + 1) n) = read_bytes mem (a + 1) n" by simp
  have "\<not> bit (read_bytes mem (a + 1) n) k" if "k \<ge> 8 * n" for k
    by (subst ih [symmetric]) (use that in \<open>simp add: bit_take_bit_iff\<close>)
  then show ?case by (intro bit_word_eqI) (auto simp: bit_simps dest: bit_imp_le_length)
qed simp

subsection \<open>The stack\<close>

text \<open>The addresses of the last \<open>n\<close> bytes below the stack pointer.\<close>

definition below :: "u64 \<Rightarrow> nat \<Rightarrow> u64 set" where
  "below sp n = (\<lambda>j. sp - 1 - of_nat j) ` {..<n}"

lemma below_mono: "n \<le> k \<Longrightarrow> below sp n \<subseteq> below sp k"
  by (auto simp: below_def)

lemma below_shift: "below (sp - of_nat k) n \<subseteq> below sp (n + k)"
proof
  fix a
  assume "a \<in> below (sp - of_nat k) n"
  then obtain j where "j < n" "a = sp - of_nat k - 1 - of_nat j" by (auto simp: below_def)
  then have "a = sp - 1 - of_nat (j + k)" "j + k < n + k" by (simp_all add: algebra_simps)
  then show "a \<in> below sp (n + k)" unfolding below_def by (intro image_eqI [of _ _ "j + k"]) auto
qed

text \<open>A slot pushed is in the last bytes, and stays clear of what is below it.\<close>

lemma slot_below: "i < 8 \<Longrightarrow> sp - 8 + of_nat i \<in> below sp 8"
proof -
  assume "i < 8"
  then have "sp - 8 + of_nat i = sp - 1 - of_nat (7 - i)" by (simp add: of_nat_diff algebra_simps)
  moreover have "7 - i < 8" by simp
  ultimately show ?thesis by (auto simp: below_def)
qed

lemma slot_not_below:
  assumes "i < 8" "n + 8 < 2 ^ 64"
  shows "sp + of_nat i \<notin> below sp n"
proof
  assume "sp + of_nat i \<in> below sp n"
  then obtain j where j: "j < n" "sp + of_nat i = sp - 1 - of_nat j" by (auto simp: below_def)
  then have "of_nat (i + j + 1) = (0 :: u64)" by (simp add: algebra_simps)
  then have "2 ^ 64 dvd i + j + 1" by (simp only: word_of_nat_eq_0_iff) simp
  then show False using j(1) assms by (auto dest: dvd_imp_le)
qed

subsection \<open>Machines and frames\<close>

text \<open>
  The machine holds the program's memory and the frame pointer, and has room for \<open>n\<close> bytes below its stack pointer
  that the program does not own.
\<close>

definition related :: "frame \<Rightarrow> nat \<Rightarrow> memory \<Rightarrow> machine \<Rightarrow> bool" where
  "related fr n mem m \<longleftrightarrow>
     (\<forall>a. fr_owned fr a \<longrightarrow> mc_mem m a = mem a) \<and> mc_regs m RBP = fr_base fr \<and>
     (\<forall>a \<in> below (mc_regs m RSP) n. \<not> fr_owned fr a) \<and> n + 8 < 2 ^ 64"

definition scratch :: "nat set" where
  "scratch = {0, 1, 2, 10, 11}"

text \<open>What a computation may change: scratch registers, the program's memory, and the room below the stack.\<close>

definition changes :: "frame \<Rightarrow> nat \<Rightarrow> memory \<Rightarrow> machine \<Rightarrow> machine \<Rightarrow> bool" where
  "changes fr n mem m m' \<longleftrightarrow>
     (\<forall>a. fr_owned fr a \<longrightarrow> mc_mem m' a = mem a) \<and> (\<forall>r. r \<notin> scratch \<longrightarrow> mc_regs m' r = mc_regs m r) \<and>
     (\<forall>a. \<not> fr_owned fr a \<longrightarrow> a \<notin> below (mc_regs m RSP) n \<longrightarrow> mc_mem m' a = mc_mem m a)"

lemma changes_frame: "changes fr n mem m m' \<Longrightarrow> mc_regs m' RBP = mc_regs m RBP \<and> mc_regs m' RSP = mc_regs m RSP"
  by (simp add: changes_def scratch_def)

lemma related_changes: "related fr n mem m \<Longrightarrow> changes fr k mem' m m' \<Longrightarrow> related fr n mem' m'"
  using changes_frame [of fr k mem' m m'] by (simp add: related_def changes_def)

lemma related_mono: "related fr n mem m \<Longrightarrow> k \<le> n \<Longrightarrow> related fr k mem m"
  using below_mono [of k n "mc_regs m RSP"] by (auto simp: related_def)

lemma changes_trans: "changes fr n mem1 m m1 \<Longrightarrow> changes fr n mem2 m1 m2 \<Longrightarrow> changes fr n mem2 m m2"
  using changes_frame [of fr n mem1 m m1] by (simp add: changes_def)

lemma changes_mono: "changes fr k mem m m' \<Longrightarrow> k \<le> n \<Longrightarrow> changes fr n mem m m'"
  using below_mono [of k n "mc_regs m RSP"] by (auto simp: changes_def)

text \<open>A step that leaves memory alone and changes scratch registers only.\<close>

definition register_step :: "machine \<Rightarrow> machine \<Rightarrow> bool" where
  "register_step m m' \<longleftrightarrow> mc_mem m' = mc_mem m \<and> (\<forall>r. r \<notin> scratch \<longrightarrow> mc_regs m' r = mc_regs m r)"

lemma register_step_changes: "related fr n mem m \<Longrightarrow> register_step m m' \<Longrightarrow> changes fr k mem m m'"
  by (simp add: related_def changes_def register_step_def)

lemma register_step_trans: "register_step m m1 \<Longrightarrow> register_step m1 m2 \<Longrightarrow> register_step m m2"
  by (simp add: register_step_def)

text \<open>A push, a computation below it, and the pop of the slot.\<close>

lemma related_push:
  assumes "related fr (n + 8) mem m"
  shows "related fr n mem (push_word v m)"
proof -
  define sp where "sp = mc_regs m RSP"
  have own: "\<not> fr_owned fr a" if "a \<in> below sp (n + 8)" for a
    using assms that by (simp add: related_def sp_def)
  have "write_bytes (mc_mem m) (sp - 8) 8 v a = mc_mem m a" if "fr_owned fr a" for a
  proof (rule write_bytes_outside)
    fix i :: nat
    assume "i < 8"
    then have "sp - 8 + of_nat i \<in> below sp (n + 8)" using slot_below [of i sp] below_mono [of 8 "n + 8" sp] by auto
    then show "a \<noteq> sp - 8 + of_nat i" using own that by auto
  qed
  moreover have "\<not> fr_owned fr a" if "a \<in> below (sp - 8) n" for a
    using own below_shift [of sp 8 n] that by auto
  ultimately show ?thesis
    using assms by (simp add: related_def push_word_def set_reg_def sp_def Let_def)
qed

definition pop_word :: "nat \<Rightarrow> machine \<Rightarrow> machine" where
  "pop_word r m = set_reg (set_reg m RSP (mc_regs m RSP + 8)) r (read_bytes (mc_mem m) (mc_regs m RSP) 8)"

lemma popped:
  assumes "related fr (n + 8) mem m" "changes fr n mem' (push_word v m) m1" "r \<in> scratch"
  shows "mc_regs (pop_word r m1) r = v" "changes fr (n + 8) mem' m (pop_word r m1)"
    "\<And>q. q \<in> scratch \<Longrightarrow> q \<noteq> r \<Longrightarrow> mc_regs (pop_word r m1) q = mc_regs m1 q"
proof -
  define sp where "sp = mc_regs m RSP"
  have r: "r \<noteq> RSP" using assms(3) by (auto simp: scratch_def)
  have sp1: "mc_regs m1 RSP = sp - 8"
    using assms(2) by (simp add: changes_def scratch_def push_word_def set_reg_def sp_def Let_def)
  have own: "\<not> fr_owned fr a" if "a \<in> below sp (n + 8)" for a
    using assms(1) that by (simp add: related_def sp_def)
  have size: "n + 8 < 2 ^ 64" using assms(1) by (simp add: related_def)
  have kept: "mc_mem m1 (sp - 8 + of_nat i) = write_bytes (mc_mem m) (sp - 8) 8 v (sp - 8 + of_nat i)" if "i < 8" for i
  proof -
    have "sp - 8 + of_nat i \<in> below sp (n + 8)" using slot_below [OF that, of sp] below_mono [of 8 "n + 8" sp] by auto
    then have "\<not> fr_owned fr (sp - 8 + of_nat i)" using own by auto
    moreover have "sp - 8 + of_nat i \<notin> below (sp - 8) n" using slot_not_below [OF that size, of "sp - 8"] .
    ultimately show ?thesis using assms(2) by (simp add: changes_def push_word_def set_reg_def sp_def Let_def)
  qed
  have "read_bytes (mc_mem m1) (sp - 8) 8 = read_bytes (write_bytes (mc_mem m) (sp - 8) 8 v) (sp - 8) 8"
    by (rule read_bytes_cong) (rule kept)
  also have "\<dots> = v" by (simp add: read_write_bytes take_bit_word_eq_self)
  finally show "mc_regs (pop_word r m1) r = v" by (simp add: pop_word_def set_reg_def sp1)
  show "mc_regs (pop_word r m1) q = mc_regs m1 q" if "q \<in> scratch" "q \<noteq> r" for q
    using that by (auto simp: pop_word_def set_reg_def scratch_def)
  have outside: "mc_mem m1 a = mc_mem m a" if "\<not> fr_owned fr a" "a \<notin> below sp (n + 8)" for a
  proof -
    have "a \<notin> below (sp - 8) n" using below_shift [of sp 8 n] that(2) by auto
    then have "mc_mem m1 a = write_bytes (mc_mem m) (sp - 8) 8 v a"
      using assms(2) that(1) by (simp add: changes_def push_word_def set_reg_def sp_def Let_def)
    also have "\<dots> = mc_mem m a"
    proof (rule write_bytes_outside)
      fix i :: nat
      assume "i < 8"
      then show "a \<noteq> sp - 8 + of_nat i" using slot_below [of i sp] below_mono [of 8 "n + 8" sp] that(2) by auto
    qed
    finally show ?thesis .
  qed
  show "changes fr (n + 8) mem' m (pop_word r m1)"
    using assms(2,3) outside r
    by (auto simp: changes_def pop_word_def set_reg_def sp1 sp_def [symmetric] push_word_def Let_def)
qed

end
