(* ===== verification/Enc_Ops.thy ===== *)
theory Enc_Ops
  imports Enc_Run
begin

text \<open>
  The fixed sequences of the encoder: operators on RAX and RCX, changes of width, and moves through an address in a
  register, with what they leave in the registers.
\<close>

text \<open>An emitter whose code takes every machine of \<open>P\<close> to one related by \<open>R\<close>.\<close>

definition performs :: "emitter \<Rightarrow> (machine \<Rightarrow> bool) \<Rightarrow> (machine \<Rightarrow> machine \<Rightarrow> bool) \<Rightarrow> bool" where
  "performs f P R \<longleftrightarrow> (\<exists>bs. emits f bs \<and> (\<forall>svc m. P m \<longrightarrow> (\<exists>m'. runs svc bs m m' \<and> R m m')))"

lemma performsI: "emits f bs \<Longrightarrow> (\<And>svc m. P m \<Longrightarrow> \<exists>m'. runs svc bs m m' \<and> R m m') \<Longrightarrow> performs f P R"
  unfolding performs_def by blast

lemma performs_weaken:
  "performs f P R \<Longrightarrow> (\<And>m. P' m \<Longrightarrow> P m) \<Longrightarrow> (\<And>m m'. P' m \<Longrightarrow> R m m' \<Longrightarrow> R' m m') \<Longrightarrow> performs f P' R'"
  unfolding performs_def by blast

text \<open>One instruction.\<close>

lemma performs_instr:
  assumes "emits f bs" "decodes i bs" "\<And>svc m. P m \<Longrightarrow> \<exists>m'. exec svc i m = Some m' \<and> R m m'"
  shows "performs f P R"
  using runs_instr [OF assms(2)] assms(3) by (intro performsI [OF assms(1)]) blast

text \<open>Sequences.\<close>

lemma performs_steps_Nil: "performs (steps []) P (=)"
  by (rule performsI [of _ "[]"]) (auto simp: emitted)

lemma performs_steps_Cons:
  assumes "performs f P R" "performs (steps fs) Q S" "\<And>m m'. P m \<Longrightarrow> R m m' \<Longrightarrow> Q m'"
    "\<And>m m1 m2. P m \<Longrightarrow> R m m1 \<Longrightarrow> S m1 m2 \<Longrightarrow> T m m2"
  shows "performs (steps (f # fs)) P T"
proof -
  obtain a where a: "emits f a" "\<And>svc m. P m \<Longrightarrow> \<exists>m'. runs svc a m m' \<and> R m m'"
    using assms(1) unfolding performs_def by blast
  obtain b where b: "emits (steps fs) b" "\<And>svc m. Q m \<Longrightarrow> \<exists>m'. runs svc b m m' \<and> S m m'"
    using assms(2) unfolding performs_def by blast
  show ?thesis
  proof (rule performsI [OF emits_steps_Cons [OF a(1) b(1)]])
    fix svc m
    assume P: "P m"
    obtain m1 where 1: "runs svc a m m1" "R m m1" using a(2) [OF P] by blast
    obtain m2 where 2: "runs svc b m1 m2" "S m1 m2" using b(2) [OF assms(3) [OF P 1(2)]] by blast
    show "\<exists>m'. runs svc (a @ b) m m' \<and> T m m'" using runs_append [OF 1(1) 2(1)] assms(4) [OF P 1(2) 2(2)] by blast
  qed
qed

lemma performs_single: "performs f P R \<Longrightarrow> performs (steps [f]) P R"
  by (erule performs_steps_Cons [OF _ performs_steps_Nil]) auto

text \<open>Bytes that are written out.\<close>

lemmas written_out =
  decode_numbers_def decode_rex_def decode_main_def decode_opcode_def decode_two_byte_def decode_f7_def with_modrm_def
  rex_w_def rex_r_def rex_x_def rex_b_def decode_modrm_def alu_of_def shift_of_def operand_width_def byte_operand_def
  byte_register_def with_displacement_def with_signed_def

definition sets :: "nat \<Rightarrow> (machine \<Rightarrow> u64) \<Rightarrow> machine \<Rightarrow> machine \<Rightarrow> bool" where
  "sets r f m m' \<longleftrightarrow> mc_mem m' = mc_mem m \<and> mc_regs m' = (mc_regs m)(r := f m)"

lemma low_bytes_8 [simp]: "low_bytes 8 v = v"
  by (simp add: low_bytes_def take_bit_word_eq_self)

lemma performs_mov: "dst < 16 \<Longrightarrow> src < 16 \<Longrightarrow>
    performs (emit_mov_reg_reg dst src) P (sets (unat dst) (\<lambda>m. mc_regs m (unat src)))"
  by (rule performs_instr [OF mov_reg_reg]) (auto simp: read_operand_def write_operand_def set_reg_def sets_def)

lemma performs_alu:
  assumes "opcode < 0x40" "unat opcode mod 8 = 1" "alu_of (unat opcode div 8) = Some a" "a \<in> {ALU_ADD, ALU_OR, ALU_AND, ALU_SUB, ALU_XOR}"
    "dst < 16" "src < 16"
  shows "performs (emit_alu opcode dst src) P
    (sets (unat dst) (\<lambda>m. fst (alu a 8 False (mc_regs m (unat dst)) (mc_regs m (unat src)))))"
  by (rule performs_instr [OF alu_reg_reg [OF assms(5,6,1,2,3)]])
    (use assms(4) in \<open>auto simp: exec_alu_def read_operand_def write_operand_def set_reg_def sets_def split: prod.split\<close>)

subsection \<open>Operators\<close>

lemma performs_imul: "performs (steps [emit_rex True 0 1, emit_bytes [0x0f, 0xaf], emit_modrm_reg 0 1]) P
    (sets 0 (\<lambda>m. mc_regs m 0 * mc_regs m 1))"
proof (rule performs_instr)
  show "emits (steps [emit_rex True 0 1, emit_bytes [0x0f, 0xaf], emit_modrm_reg 0 1]) [0x48, 0x0f, 0xaf, 0xc1]"
    by (rule emits_eq, (rule emitted)+, simp add: rex_bytes_def rex_number_def modrm_def word_le_nat_alt)
  show "decodes (IImul 0 (Reg 1)) [0x48, 0x0f, 0xaf, 0xc1]" by (rule decodesI) (simp add: written_out)
qed (auto simp: read_operand_def set_reg_def sets_def undefined_flags_def)

lemma performs_shift:
  "performs (emit_bytes [0x48, 0xd3, 0xe0]) P (sets 0 (\<lambda>m. push_bit (unat (mc_regs m 1) mod 64) (mc_regs m 0)))"
  "performs (emit_bytes [0x48, 0xd3, 0xe8]) P (sets 0 (\<lambda>m. drop_bit (unat (mc_regs m 1) mod 64) (mc_regs m 0)))"
  "performs (emit_bytes [0x48, 0xd3, 0xf8]) P
     (sets 0 (\<lambda>m. word_of_int (drop_bit (unat (mc_regs m 1) mod 64) (sint (mc_regs m 0)))))"
proof -
  have d: "decodes (IShiftCl SHIFT_SHL (Reg 0)) [0x48, 0xd3, 0xe0]" "decodes (IShiftCl SHIFT_SHR (Reg 0)) [0x48, 0xd3, 0xe8]"
    "decodes (IShiftCl SHIFT_SAR (Reg 0)) [0x48, 0xd3, 0xf8]"
    by (rule decodesI, simp add: written_out)+
  have s: "signed_take_bit 63 (uint v) = sint v" for v :: u64 by (simp add: sint_uint)
  note e = read_operand_def write_operand_def set_reg_def sets_def undefined_flags_def shift_def signed_at_def s
  show "performs (emit_bytes [0x48, 0xd3, 0xe0]) P (sets 0 (\<lambda>m. push_bit (unat (mc_regs m 1) mod 64) (mc_regs m 0)))"
    by (rule performs_instr [OF emits_bytes d(1)]) (auto simp: e)
  show "performs (emit_bytes [0x48, 0xd3, 0xe8]) P (sets 0 (\<lambda>m. drop_bit (unat (mc_regs m 1) mod 64) (mc_regs m 0)))"
    by (rule performs_instr [OF emits_bytes d(2)]) (auto simp: e)
  show "performs (emit_bytes [0x48, 0xd3, 0xf8]) P
     (sets 0 (\<lambda>m. word_of_int (drop_bit (unat (mc_regs m 1) mod 64) (sint (mc_regs m 0)))))"
    by (rule performs_instr [OF emits_bytes d(3)]) (auto simp: e)
qed

text \<open>Division: the dividend in RDX and RAX, the quotient in RAX and the remainder in RDX.\<close>

definition divides :: "bool \<Rightarrow> machine \<Rightarrow> machine \<Rightarrow> bool" where
  "divides is_signed m m' \<longleftrightarrow>
     register_step m m' \<and>
     Some (mc_regs m' 0) = value_op IR_DIV is_signed (mc_regs m 0) (mc_regs m 1) \<and>
     Some (mc_regs m' 2) = value_op IR_MOD is_signed (mc_regs m 0) (mc_regs m 1)"

lemma uint_bound: "0 \<le> uint (x :: u64)" "uint (x :: u64) < 2 ^ 64"
proof -
  have "uint x < 2 ^ LENGTH(64)" by (rule unsigned_less)
  then show "uint x < 2 ^ 64" by simp
qed simp

lemma sint_split: "sint (x :: u64) = (if uint x < 2 ^ 63 then uint x else uint x - 2 ^ 64)"
proof -
  have "sint x = (2 ^ 63 + uint x) mod 2 ^ 64 - 2 ^ 63"
    by (simp add: sint_uint signed_take_bit_eq_take_bit_shift take_bit_eq_mod) (metis add.commute)
  moreover have "(2 ^ 63 + uint x) mod 2 ^ 64 = (if uint x < 2 ^ 63 then uint x + 2 ^ 63 else uint x - 2 ^ 63)"
  proof (cases "uint x < 2 ^ 63")
    case False
    have "(2 ^ 63 + uint x) mod 2 ^ 64 = (uint x - 2 ^ 63 + 2 ^ 64) mod 2 ^ 64" by simp
    also have "\<dots> = uint x - 2 ^ 63"
      unfolding mod_add_self2 by (rule mod_pos_pos_trivial) (use False uint_bound [of x] in auto)
    finally show ?thesis using False by simp
  qed (use uint_bound [of x] in simp)
  ultimately show ?thesis by simp
qed

lemma sint_bound: "- (2 ^ 63) \<le> sint (x :: u64)" "sint (x :: u64) < 2 ^ 63"
proof -
  have "- (2 ^ 63) \<le> (0 :: int)" by simp
  also have "0 \<le> uint x" by simp
  finally show "- (2 ^ 63) \<le> sint x" by (simp add: sint_split)
  show "sint x < 2 ^ 63" using uint_bound [of x] by (simp add: sint_split)
qed

lemma signed_dividend: "sint (if sint x < 0 then - 1 else 0 :: u64) * 2 ^ 64 + uint x = sint (x :: u64)"
  using uint_bound [of x] by (auto simp: sint_split [of x])

lemma truncated_div_range:
  assumes "- (2 ^ 63) \<le> x" "x < 2 ^ 63" "y \<noteq> 0" "\<not> (x = - (2 ^ 63) \<and> y = - 1)"
  shows "- (2 ^ 63) \<le> truncated_div x y" "truncated_div x y < 2 ^ 63"
proof -
  define q where "q = \<bar>x\<bar> div \<bar>y\<bar>"
  have q0: "0 \<le> q" using assms(3) by (simp add: q_def pos_imp_zdiv_nonneg_iff)
  have le: "q \<le> \<bar>x\<bar>" using assms(3) by (simp add: q_def div_le_dividend zdiv_mono2 [of "\<bar>x\<bar>" 1 "\<bar>y\<bar>", simplified])
  have less: "q < 2 ^ 63" if "(x < 0) = (y < 0)"
  proof (cases "x = - (2 ^ 63)")
    case True
    then have "\<bar>y\<bar> \<ge> 2" using that assms(3,4) by auto
    then have "q \<le> \<bar>x\<bar> div 2" unfolding q_def by (intro zdiv_mono2) auto
    then show ?thesis using True by simp
  next
    case False
    then show ?thesis using le assms(1,2) by auto
  qed
  show "- (2 ^ 63) \<le> truncated_div x y" "truncated_div x y < 2 ^ 63"
    using q0 le less assms(1,2) by (auto simp: truncated_div_def q_def [symmetric])
qed

lemma div_code:
  "decodes (IAlu ALU_XOR 4 (Reg 2) (Reg 2)) [0x31, 0xd2]" "decodes ICqo [0x48, 0x99]"
  "decodes (IDiv (Reg 1)) [0x48, 0xf7, 0xf1]" "decodes (IIdiv (Reg 1)) [0x48, 0xf7, 0xf9]"
  by (rule decodesI, simp add: written_out)+

lemma unsigned_quotient:
  assumes "y \<noteq> 0"
  shows "uint x div uint y < 2 ^ 64" "word_of_int (uint x div uint y) = (x div y :: u64)"
    "word_of_int (uint x mod uint y) = (x mod y :: u64)"
proof -
  have "uint (x div y) = uint x div uint y" by (simp add: uint_div)
  then show "uint x div uint y < 2 ^ 64" using uint_bound [of "x div y"] by simp
  show "word_of_int (uint x div uint y) = (x div y :: u64)" "word_of_int (uint x mod uint y) = (x mod y :: u64)"
    by (simp_all add: word_div_def word_mod_def)
qed

lemma performs_div:
  "performs (steps [emit8 0x31, emit_modrm_reg 2 2, emit_bytes [0x48, 0xf7], emit_modrm_reg 6 1])
     (\<lambda>m. divisible False (mc_regs m 0) (mc_regs m 1)) (divides False)"
  "performs (steps [emit_bytes [0x48, 0x99, 0x48, 0xf7], emit_modrm_reg 7 1])
     (\<lambda>m. divisible True (mc_regs m 0) (mc_regs m 1)) (divides True)"
proof -
  have e: "emits (steps [emit8 0x31, emit_modrm_reg 2 2, emit_bytes [0x48, 0xf7], emit_modrm_reg 6 1]) ([0x31, 0xd2] @ [0x48, 0xf7, 0xf1])"
    "emits (steps [emit_bytes [0x48, 0x99, 0x48, 0xf7], emit_modrm_reg 7 1]) ([0x48, 0x99] @ [0x48, 0xf7, 0xf9])"
    by (rule emits_eq, (rule emitted)+, simp add: modrm_def)+
  show "performs (steps [emit8 0x31, emit_modrm_reg 2 2, emit_bytes [0x48, 0xf7], emit_modrm_reg 6 1])
     (\<lambda>m. divisible False (mc_regs m 0) (mc_regs m 1)) (divides False)"
  proof (rule performsI [OF e(1)])
    fix svc and m :: machine
    assume d: "divisible False (mc_regs m 0) (mc_regs m 1)"
    define m1 where "m1 = set_reg (m\<lparr>mc_flags := Some (snd (alu ALU_XOR 4 False (low_bytes 4 (mc_regs m 2)) (low_bytes 4 (mc_regs m 2))))\<rparr>) 2 0"
    have 1: "exec svc (IAlu ALU_XOR 4 (Reg 2) (Reg 2)) m = Some m1"
      by (simp add: m1_def exec_alu_def read_operand_def write_operand_def alu_def low_bytes_def)
    have y: "mc_regs m 1 \<noteq> 0" using d by (simp add: divisible_def)
    define m2 where "m2 = undefined_flags (set_reg (set_reg m1 0 (mc_regs m 0 div mc_regs m 1)) 2 (mc_regs m 0 mod mc_regs m 1))"
    have 2: "exec svc (IDiv (Reg 1)) m1 = Some m2"
      using y unsigned_quotient [OF y, of "mc_regs m 0"]
      by (simp add: m2_def m1_def read_operand_def divide_def set_reg_def)
    have "divides False m m2"
      using d by (simp add: divides_def value_op_def m2_def m1_def register_step_def set_reg_def undefined_flags_def scratch_def)
    then show "\<exists>m'. runs svc ([0x31, 0xd2] @ [0x48, 0xf7, 0xf1]) m m' \<and> divides False m m'"
      using runs_instrs [OF div_code(1) 1 runs_instr [OF div_code(3) 2]] by blast
  qed
  show "performs (steps [emit_bytes [0x48, 0x99, 0x48, 0xf7], emit_modrm_reg 7 1])
     (\<lambda>m. divisible True (mc_regs m 0) (mc_regs m 1)) (divides True)"
  proof (rule performsI [OF e(2)])
    fix svc and m :: machine
    assume d: "divisible True (mc_regs m 0) (mc_regs m 1)"
    define x y where "x = mc_regs m 0" and "y = mc_regs m 1"
    define m1 where "m1 = set_reg m 2 (if sint x < 0 then - 1 else 0)"
    have 1: "exec svc ICqo m = Some m1" by (simp add: m1_def x_def)
    have y: "y \<noteq> 0" "sint y \<noteq> 0" using d by (simp_all add: divisible_def y_def signed_eq_0_iff)
    have r: "- (2 ^ 63) \<le> truncated_div (sint x) (sint y)" "truncated_div (sint x) (sint y) < 2 ^ 63"
      by (rule truncated_div_range; use d y sint_bound [of x] in \<open>auto simp: divisible_def x_def y_def\<close>)+
    define m2 where "m2 = undefined_flags (set_reg (set_reg m1 0 (word_of_int (truncated_div (sint x) (sint y)))) 2
      (word_of_int (sint x - truncated_div (sint x) (sint y) * sint y)))"
    have regs: "mc_regs m1 2 = (if sint x < 0 then - 1 else 0)" "mc_regs m1 0 = x" "mc_regs m1 1 = y"
      by (simp_all add: m1_def set_reg_def x_def y_def)
    have "divide True y m1 = Some m2"
      using y(1) r unfolding divide_def regs signed_dividend Let_def truncated_div_def [symmetric] m2_def by simp
    then have 2: "exec svc (IIdiv (Reg 1)) m1 = Some m2" by (simp add: read_operand_def regs del: One_nat_def)
    have "divides True m m2"
      using d by (simp add: divides_def value_op_def m2_def m1_def register_step_def set_reg_def undefined_flags_def scratch_def
        x_def y_def)
    then show "\<exists>m'. runs svc ([0x48, 0x99] @ [0x48, 0xf7, 0xf9]) m m' \<and> divides True m m'"
      using runs_instrs [OF div_code(2) 1 runs_instr [OF div_code(4) 2]] by blast
  qed
qed

text \<open>A register step that leaves a value in RAX.\<close>

definition yields :: "(machine \<Rightarrow> u64 option) \<Rightarrow> machine \<Rightarrow> machine \<Rightarrow> bool" where
  "yields f m m' \<longleftrightarrow> register_step m m' \<and> Some (mc_regs m' 0) = f m"

lemma sets_yields: "sets 0 f m m' \<Longrightarrow> yields (\<lambda>m. Some (f m)) m m'"
  by (auto simp: sets_def yields_def register_step_def scratch_def)

definition binary_ops :: "ir_op set" where
  "binary_ops = {IR_ADD, IR_SUB, IR_MUL, IR_DIV, IR_MOD, IR_SHL, IR_SHR, IR_BIT_AND, IR_BIT_OR, IR_BIT_XOR}"

lemma performs_binary:
  assumes "op \<in> binary_ops"
  shows "performs (emit_binary_opcode op sg) (\<lambda>m. value_op op sg (mc_regs m 0) (mc_regs m 1) \<noteq> None)
    (yields (\<lambda>m. value_op op sg (mc_regs m 0) (mc_regs m 1)))"
proof -
  have simple: "performs f P (yields (\<lambda>m. Some (g m)))" if "performs f P (sets 0 g)" for f g and P :: "machine \<Rightarrow> bool"
    using that by (rule performs_weaken) (auto dest: sets_yields)
  have ok: "value_op IR_DIV s x y \<noteq> None \<longleftrightarrow> divisible s x y" "value_op IR_MOD s x y \<noteq> None \<longleftrightarrow> divisible s x y" for s x y
    by (simp_all add: value_op_def)
  have mod: "performs (steps [f, emit_mov_reg_reg 0 2]) (\<lambda>m. value_op IR_MOD s (mc_regs m 0) (mc_regs m 1) \<noteq> None)
      (yields (\<lambda>m. value_op IR_MOD s (mc_regs m 0) (mc_regs m 1)))"
    if "performs f (\<lambda>m. divisible s (mc_regs m 0) (mc_regs m 1)) (divides s)" for f s
    unfolding ok
    by (rule performs_steps_Cons [OF that performs_single [OF performs_mov [of 0 2 "\<lambda>m. True"]]])
      (auto simp: divides_def yields_def sets_def register_step_def scratch_def)
  have div: "performs f (\<lambda>m. value_op IR_DIV s (mc_regs m 0) (mc_regs m 1) \<noteq> None)
      (yields (\<lambda>m. value_op IR_DIV s (mc_regs m 0) (mc_regs m 1)))"
    if "performs f (\<lambda>m. divisible s (mc_regs m 0) (mc_regs m 1)) (divides s)" for f s
    unfolding ok using that by (rule performs_weaken) (auto simp: divides_def yields_def)
  have regroup: "steps [a, b, c] = steps [steps [a, b], c]" "steps [a, b, c, d, g] = steps [steps [a, b, c, d], g]"
    for a b c d g :: emitter by (rule ext, simp)+
  have alu: "performs (emit_alu opcode 0 1) P (yields (\<lambda>m. Some (fst (alu a 8 False (mc_regs m 0) (mc_regs m 1)))))"
    if "opcode < 0x40" "unat opcode mod 8 = 1" "alu_of (unat opcode div 8) = Some a" "a \<in> {ALU_ADD, ALU_OR, ALU_AND, ALU_SUB, ALU_XOR}"
    for opcode a and P :: "machine \<Rightarrow> bool"
    by (rule simple) (use performs_alu [OF that, of 0 1 P] in \<open>simp del: One_nat_def\<close>)
  consider "op = IR_ADD" | "op = IR_SUB" | "op = IR_MUL" | "op = IR_DIV" | "op = IR_MOD" | "op = IR_SHL" | "op = IR_SHR"
    | "op = IR_BIT_AND" | "op = IR_BIT_OR" | "op = IR_BIT_XOR" using assms by (auto simp: binary_ops_def)
  then show ?thesis
  proof cases
    case 1
    then show ?thesis using alu [where opcode = "1" and a = ALU_ADD] by (simp add: emit_binary_opcode_def value_op_def alu_of_def alu_def)
  next
    case 2
    then show ?thesis using alu [where opcode = "0x29" and a = ALU_SUB] by (simp add: emit_binary_opcode_def value_op_def alu_of_def alu_def)
  next
    case 3
    then show ?thesis using simple [OF performs_imul] by (simp add: emit_binary_opcode_def value_op_def del: steps.simps)
  next
    case 4
    then show ?thesis using 4 div [OF performs_div(1)] div [OF performs_div(2)]
      by (cases sg) (simp_all add: emit_binary_opcode_def del: steps.simps One_nat_def)
  next
    case 5
    then show ?thesis using 5 mod [OF performs_div(1)] mod [OF performs_div(2)]
      by (cases sg) (simp_all add: emit_binary_opcode_def regroup del: steps.simps One_nat_def)
  next
    case 6
    then show ?thesis using simple [OF performs_shift(1)] by (simp add: emit_binary_opcode_def value_op_def)
  next
    case 7
    then show ?thesis using simple [OF performs_shift(2)] simple [OF performs_shift(3)]
      by (cases sg) (simp_all add: emit_binary_opcode_def value_op_def)
  next
    case 8
    then show ?thesis using alu [where opcode = "0x21" and a = ALU_AND] by (simp add: emit_binary_opcode_def value_op_def alu_of_def alu_def)
  next
    case 9
    then show ?thesis using alu [where opcode = "9" and a = ALU_OR] by (simp add: emit_binary_opcode_def value_op_def alu_of_def alu_def)
  next
    case 10
    then show ?thesis using alu [where opcode = "0x31" and a = ALU_XOR] by (simp add: emit_binary_opcode_def value_op_def alu_of_def alu_def)
  qed
qed

subsection \<open>Widths\<close>

lemma extended_read: "n \<le> 8 \<Longrightarrow> extended s n (take_bit (8 * n) v) = extended s n v"
  if "n > 0"
proof -
  assume "n \<le> 8"
  have "uint (take_bit (8 * n) v) = take_bit (8 * n) (uint v)" by (simp add: unsigned_take_bit_eq)
  moreover have "\<not> 8 * n \<le> 8 * n - Suc 0" using that by simp
  ultimately show ?thesis by (simp add: extended_def signed_take_bit_take_bit)
qed

lemma performs_normalize: "performs (emit_normalize width sg) P (sets 0 (\<lambda>m. wrap width sg (mc_regs m 0)))"
proof -
  have d: "decodes (IMovX True 1 0 (Reg 0)) [0x48, 0x0f, 0xbe, 0xc0]" "decodes (IMovX False 1 0 (Reg 0)) [0x48, 0x0f, 0xb6, 0xc0]"
    "decodes (IMovX True 2 0 (Reg 0)) [0x48, 0x0f, 0xbf, 0xc0]" "decodes (IMovX False 2 0 (Reg 0)) [0x48, 0x0f, 0xb7, 0xc0]"
    "decodes (IMovX True 4 0 (Reg 0)) [0x48, 0x63, 0xc0]" "decodes (IMov 4 (Reg 0) (Reg 0)) [0x89, 0xc0]"
    by (rule decodesI, simp add: written_out)+
  have x: "performs (emit_bytes bs) P (sets 0 (\<lambda>m. extended s n (mc_regs m 0)))"
    if "decodes (IMovX s n 0 (Reg 0)) bs" "n > 0" "n \<le> 8" for s n bs
    by (rule performs_instr [OF emits_bytes that(1)])
      (use extended_read [OF that(2,3)] in \<open>simp add: read_operand_def set_reg_def sets_def low_bytes_def\<close>)
  have m: "performs (emit_bytes [0x89, 0xc0]) P (sets 0 (\<lambda>m. extended False 4 (mc_regs m 0)))"
    by (rule performs_instr [OF emits_bytes d(6)])
      (simp add: read_operand_def write_operand_def set_reg_def sets_def low_bytes_def extended_def)
  have n: "performs (steps []) P (sets 0 (\<lambda>m. mc_regs m 0))"
    by (rule performs_weaken [OF performs_steps_Nil]) (auto simp: sets_def)
  show ?thesis
    using x [OF d(1)] x [OF d(2)] x [OF d(3)] x [OF d(4)] x [OF d(5)] m n
    by (cases sg) (auto simp: emit_normalize_def wrap_def)
qed

subsection \<open>Truth values\<close>

lemma low_byte_written:
  fixes x b :: u64
  assumes "b < 256"
  shows "take_bit 8 (x - take_bit 8 x + b) = b"
proof -
  define p where "p = push_bit 8 (drop_bit 8 x)"
  have x: "x - take_bit 8 x = p" using bits_ident [of 8 x] by (metis add_diff_cancel_right' p_def)
  have b: "take_bit 8 b = b"
  proof (rule word_unat_eq_iff [THEN iffD2])
    have "unat b < 2 ^ 8" using assms by (simp add: word_less_nat_alt)
    then show "unat (take_bit 8 b) = unat b" by (simp only: unsigned_take_bit_eq take_bit_nat_eq_self)
  qed
  have "p AND take_bit 8 b = 0" unfolding p_def by (rule bit_word_eqI) (auto simp: bit_simps)
  then have "p + b = p OR b" unfolding b by (rule disjunctive_add_eq_or)
  moreover have "take_bit 8 p = 0" by (simp add: p_def take_bit_push_bit)
  ultimately show ?thesis by (simp add: x take_bit_or b)
qed

text \<open>A condition in AL, extended to the register.\<close>

lemma performs_setcc:
  assumes "c < 16"
  shows "performs (steps [emit_setcc c, movzx_eax_al]) (\<lambda>m. \<exists>f b. mc_flags m = Some f \<and> condition (unat c) f = Some b)
    (\<lambda>m m'. sets 0 (\<lambda>m. of_bool (the (condition (unat c) (the (mc_flags m))))) m m')"
proof (rule performsI)
  show "emits (steps [emit_setcc c, movzx_eax_al]) ([0x0f, ucast (0x90 + c), 0xc0] @ [0x0f, 0xb6, 0xc0])"
    unfolding movzx_eax_al_def by (rule emits_eq, (rule emitted setcc_al(1) [OF assms])+, simp)
  have movzx: "decodes (IMovX False 1 0 (Reg 0)) [0x0f, 0xb6, 0xc0]" by (rule decodesI) (simp add: written_out)
  fix svc and m :: machine
  assume "\<exists>f b. mc_flags m = Some f \<and> condition (unat c) f = Some b"
  then obtain f b where fb: "mc_flags m = Some f" "condition (unat c) f = Some b" by blast
  define x where "x = mc_regs m 0"
  define m1 where "m1 = set_reg m 0 (x - low_bytes 1 x + low_bytes 1 (of_bool b))"
  have 1: "exec svc (ISetcc (unat c) (Reg 0)) m = Some m1"
    using fb by (simp add: write_operand_def m1_def x_def of_bool_def)
  have "low_bytes 1 (of_bool b) = (of_bool b :: u64)" by (simp add: low_bytes_def)
  then have "low_bytes 1 (x - low_bytes 1 x + low_bytes 1 (of_bool b)) = of_bool b"
    using low_byte_written [of "of_bool b" x] by (simp add: low_bytes_def)
  then have 2: "exec svc (IMovX False 1 0 (Reg 0)) m1 = Some (set_reg m1 0 (of_bool b))"
    using low_byte_written [of "of_bool b" x] by (simp add: read_operand_def m1_def set_reg_def extended_def)
  show "\<exists>m'. runs svc ([0x0f, ucast (0x90 + c), 0xc0] @ [0x0f, 0xb6, 0xc0]) m m' \<and>
      sets 0 (\<lambda>m. of_bool (the (condition (unat c) (the (mc_flags m))))) m m'"
    using runs_instrs [OF setcc_al(2) [OF assms] 1 runs_instr [OF movzx 2]] fb
    by (auto simp: sets_def m1_def set_reg_def)
qed

text \<open>The flags of a comparison tell the order.\<close>

lemma signed_less_flags:
  fixes x y :: u64
  shows "bit (x - y) 63 \<noteq> (sint x - sint y \<noteq> sint (x - y)) \<longleftrightarrow> sint x < sint y"
proof -
  define d where "d = sint x - sint y"
  have neg: "bit v 63 \<longleftrightarrow> sint v < 0" for v :: u64
    using bit_last_iff [of v] by simp
  have d: "- (2 ^ 64) < d" "d < 2 ^ 64" using sint_bound [of x] sint_bound [of y] by (simp_all add: d_def)
  have "x - y = word_of_int d" by (simp add: d_def)
  then have "sint (x - y) = (2 ^ 63 + d) mod 2 ^ 64 - 2 ^ 63"
    by (simp add: signed_of_int signed_take_bit_eq_take_bit_shift take_bit_eq_mod) (metis add.commute)
  moreover have "(2 ^ 63 + d) mod 2 ^ 64 = (if d < - (2 ^ 63) then 2 ^ 63 + d + 2 ^ 64 else if d < 2 ^ 63 then 2 ^ 63 + d else 2 ^ 63 + d - 2 ^ 64)"
  proof -
    consider "d < - (2 ^ 63)" | "- (2 ^ 63) \<le> d" "d < 2 ^ 63" | "2 ^ 63 \<le> d" by linarith
    then show ?thesis
    proof cases
      case 1
      have "(2 ^ 63 + d) mod 2 ^ 64 = (2 ^ 63 + d + 2 ^ 64) mod 2 ^ 64" by (simp only: mod_add_self2)
      also have "\<dots> = 2 ^ 63 + d + 2 ^ 64" by (rule mod_pos_pos_trivial) (use 1 d in auto)
      finally show ?thesis using 1 by simp
    next
      case 2
      have "(2 ^ 63 + d) mod 2 ^ 64 = 2 ^ 63 + d" by (rule mod_pos_pos_trivial) (use 2 in auto)
      then show ?thesis using 2 by simp
    next
      case 3
      have "(2 ^ 63 + d) mod 2 ^ 64 = (2 ^ 63 + d - 2 ^ 64 + 2 ^ 64) mod 2 ^ 64" by simp
      also have "\<dots> = 2 ^ 63 + d - 2 ^ 64" unfolding mod_add_self2 by (rule mod_pos_pos_trivial) (use 3 d in auto)
      finally show ?thesis using 3 by simp
    qed
  qed
  ultimately have "sint (x - y) = (if d < - (2 ^ 63) then d + 2 ^ 64 else if d < 2 ^ 63 then d else d - 2 ^ 64)"
    by simp
  then show ?thesis unfolding neg using d by (auto simp: d_def [symmetric]) (auto simp: d_def)
qed

definition compare_flags :: "u64 \<Rightarrow> u64 \<Rightarrow> flags" where
  "compare_flags x y = snd (alu ALU_CMP 8 False x y)"

lemma compare_flags_simps:
  "fl_zero (compare_flags x y) \<longleftrightarrow> x = y" "fl_carry (compare_flags x y) \<longleftrightarrow> x < y"
  "fl_sign (compare_flags x y) \<noteq> fl_overflow (compare_flags x y) \<longleftrightarrow> sint x < sint y"
  "fl_sign (compare_flags x y) = fl_overflow (compare_flags x y) \<longleftrightarrow> \<not> sint x < sint y"
proof -
  have s: "signed_at 8 v = sint v" for v by (simp add: signed_at_def sint_uint)
  show "fl_zero (compare_flags x y) \<longleftrightarrow> x = y" "fl_carry (compare_flags x y) \<longleftrightarrow> x < y"
    by (simp_all add: compare_flags_def alu_def result_flags_def)
  show "fl_sign (compare_flags x y) \<noteq> fl_overflow (compare_flags x y) \<longleftrightarrow> sint x < sint y"
    using signed_less_flags [of x y] by (simp add: compare_flags_def alu_def result_flags_def s)
  then show "fl_sign (compare_flags x y) = fl_overflow (compare_flags x y) \<longleftrightarrow> \<not> sint x < sint y" by blast
qed

text \<open>Each condition the encoder chooses is the comparison it stands for.\<close>

lemma condition_compare:
  assumes "condition_code compare sg = Some c"
  shows "c < 16" "condition (unat c) (compare_flags x y) = compare_value compare sg x y" "compare_value compare sg x y \<noteq> None"
  using assms by (auto simp: condition_code_def condition_def compare_value_def compare_flags_simps word_less_nat_alt
    split: if_splits)

lemma performs_compare:
  assumes "condition_code compare sg = Some c"
  shows "performs (steps [emit_bytes [0x48, 0x39], emit_modrm_reg 1 0, emit_setcc c, movzx_eax_al]) P
    (yields (\<lambda>m. map_option of_bool (compare_value compare sg (mc_regs m 0) (mc_regs m 1))))"
proof -
  have cmp: "performs (steps [emit_bytes [0x48, 0x39], emit_modrm_reg 1 0]) P
      (\<lambda>m m'. m' = m\<lparr>mc_flags := Some (compare_flags (mc_regs m 0) (mc_regs m 1))\<rparr>)" for P
  proof (rule performs_instr)
    show "emits (steps [emit_bytes [0x48, 0x39], emit_modrm_reg 1 0]) [0x48, 0x39, 0xc8]"
      by (rule emits_eq, (rule emitted)+, simp add: modrm_def)
    show "decodes (IAlu ALU_CMP 8 (Reg 0) (Reg 1)) [0x48, 0x39, 0xc8]" by (rule decodesI) (simp add: written_out)
  qed (simp add: exec_alu_def read_operand_def compare_flags_def split: prod.split)
  have v: "map_option of_bool (compare_value compare sg x y) = Some (of_bool (the (compare_value compare sg x y)) :: u64)" for x y
    using condition_compare(3) [OF assms, of x y] by auto
  have "performs (steps [steps [emit_bytes [0x48, 0x39], emit_modrm_reg 1 0], steps [emit_setcc c, movzx_eax_al]]) P
    (yields (\<lambda>m. map_option of_bool (compare_value compare sg (mc_regs m 0) (mc_regs m 1))))"
    by (rule performs_steps_Cons [OF cmp performs_single [OF performs_setcc [OF condition_compare(1) [OF assms]]]])
      (use condition_compare(2,3) [OF assms] in \<open>auto simp: v yields_def sets_def register_step_def scratch_def\<close>)
  moreover have "steps [steps [a, b], steps [d, f]] = steps [a, b, d, f]" for a b d f :: emitter by (rule ext) simp
  ultimately show ?thesis by simp
qed

lemma performs_not_zero:
  "performs (steps [emit_test 0, emit_bytes [0x0f, 0x94, 0xc0], movzx_eax_al]) P (yields (\<lambda>m. Some (of_bool (mc_regs m 0 = 0))))"
proof -
  have test: "performs (emit_test 0) P (\<lambda>m m'. m' = m\<lparr>mc_flags := Some (snd (alu ALU_AND 8 False (mc_regs m 0) (mc_regs m 0)))\<rparr>)" for P
    by (rule performs_instr [OF test_reg]) simp_all
  have set: "performs (steps [emit_setcc 4, movzx_eax_al]) (\<lambda>m. mc_flags m \<noteq> None)
      (sets 0 (\<lambda>m. of_bool (fl_zero (the (mc_flags m)))))"
    using performs_setcc [of 4] by (rule performs_weaken) (auto simp: condition_def sets_def)
  have "emit_bytes [0x0f, 0x94, 0xc0] = emit_setcc 4" by (rule ext) (simp add: emit_bytes_def emit_setcc_def)
  moreover have "performs (steps [emit_test 0, steps [emit_setcc 4, movzx_eax_al]]) P (yields (\<lambda>m. Some (of_bool (mc_regs m 0 = 0))))"
    by (rule performs_steps_Cons [OF test performs_single [OF set]])
      (auto simp: alu_def result_flags_def yields_def sets_def register_step_def scratch_def)
  moreover have "steps [emit_test 0, steps [f, g]] = steps [emit_test 0, f, g]" for f g by (rule ext) simp
  ultimately show ?thesis by simp
qed

lemma performs_negate:
  "performs (steps [emit_bytes [0x48, 0xf7], emit_modrm_reg 3 0]) P (sets 0 (\<lambda>m. - mc_regs m 0))"
  "performs (steps [emit_bytes [0x48, 0xf7], emit_modrm_reg 2 0]) P (sets 0 (\<lambda>m. NOT (mc_regs m 0)))"
proof -
  have d: "decodes (INeg (Reg 0)) [0x48, 0xf7, 0xd8]" "decodes (INot (Reg 0)) [0x48, 0xf7, 0xd0]"
    by (rule decodesI, simp add: written_out)+
  have e: "emits (steps [emit_bytes [0x48, 0xf7], emit_modrm_reg 3 0]) [0x48, 0xf7, 0xd8]"
    "emits (steps [emit_bytes [0x48, 0xf7], emit_modrm_reg 2 0]) [0x48, 0xf7, 0xd0]"
    by (rule emits_eq, (rule emitted)+, simp add: modrm_def)+
  show "performs (steps [emit_bytes [0x48, 0xf7], emit_modrm_reg 3 0]) P (sets 0 (\<lambda>m. - mc_regs m 0))"
    by (rule performs_instr [OF e(1) d(1)]) (simp add: read_operand_def write_operand_def sets_def set_reg_def)
  show "performs (steps [emit_bytes [0x48, 0xf7], emit_modrm_reg 2 0]) P (sets 0 (\<lambda>m. NOT (mc_regs m 0)))"
    by (rule performs_instr [OF e(2) d(2)]) (simp add: read_operand_def write_operand_def sets_def set_reg_def)
qed

lemma performs_constant:
  "performs (emit_mov_reg_imm 0 v 8) P (sets 0 (\<lambda>m. v))"
  "width \<noteq> 8 \<Longrightarrow> v < 2 ^ 32 \<Longrightarrow> performs (emit_mov_reg_imm 0 v width) P (sets 0 (\<lambda>m. v))"
  "performs (emit_mov_reg_imm 1 v 8) P (sets 1 (\<lambda>m. v))"
proof -
  show "performs (emit_mov_reg_imm 0 v 8) P (sets 0 (\<lambda>m. v))" "performs (emit_mov_reg_imm 1 v 8) P (sets 1 (\<lambda>m. v))"
    by (rule performs_instr [OF mov_reg_imm(1,2)]; simp add: set_reg_def sets_def)+
  show "performs (emit_mov_reg_imm 0 v width) P (sets 0 (\<lambda>m. v))" if "width \<noteq> 8" "v < 2 ^ 32"
  proof -
    have "unat v mod 2 ^ 32 = unat v" using that(2) by (simp add: word_less_nat_alt)
    then show ?thesis
      by (intro performs_instr [OF mov_reg_imm(3) [of 0, OF _ that(1)] mov_reg_imm(4)]) (simp_all add: set_reg_def sets_def)
  qed
qed

text \<open>An immediate added to RAX, in the form its size asks for; the widest goes through RCX. R10 is kept.\<close>

definition adds_imm :: "int \<Rightarrow> machine \<Rightarrow> machine \<Rightarrow> bool" where
  "adds_imm v m m' \<longleftrightarrow> yields (\<lambda>m. Some (mc_regs m 0 + word_of_int v)) m m' \<and> mc_regs m' 10 = mc_regs m 10"

lemma performs_add_imm:
  assumes "- (2 ^ 63) \<le> v" "v < 2 ^ 63"
  shows "performs (emit_add_imm 0 v) P (adds_imm v)"
proof -
  have imm: "performs f P (adds_imm v)"
    if "emits f bs" "decodes (IAluImm ALU_ADD 8 (Reg 0) v) bs" for f bs
    by (rule performs_instr [OF that])
      (auto simp: exec_alu_def read_operand_def write_operand_def set_reg_def alu_def adds_imm_def yields_def register_step_def scratch_def)
  consider "v \<ge> -128" "v \<le> 127" | "\<not> (v \<ge> -128 \<and> v \<le> 127)" "is_int32 v" | "\<not> (v \<ge> -128 \<and> v \<le> 127)" "\<not> is_int32 v" by blast
  then show ?thesis
  proof cases
    case 1
    have "emits (steps [emit_rex True 0 0, emit8 0x83, emit_modrm_reg 0 0, emit8 (word_of_int v)]) [0x48, 0x83, 0xc0, word_of_int v]"
      by (rule emits_eq, (rule emitted)+, simp add: modrm_def rex_bytes_def rex_number_def)
    moreover have "decodes (IAluImm ALU_ADD 8 (Reg 0) v) [0x48, 0x83, 0xc0, word_of_int v]"
      using take_signed_byte [OF 1] by (intro decodesI) (simp add: written_out)
    ultimately show ?thesis using imm 1 by (simp add: emit_add_imm_def del: steps.simps)
  next
    case 2
    have "emits (steps [emit_rex True 0 0, emit8 0x81, emit_modrm_reg 0 0, emit32 (word_of_int v)]) ([0x48, 0x81, 0xc0] @ le4 (word_of_int v))"
      by (rule emits_eq, (rule emitted)+, simp add: modrm_def rex_bytes_def rex_number_def)
    moreover have "decodes (IAluImm ALU_ADD 8 (Reg 0) v) ([0x48, 0x81, 0xc0] @ le4 (word_of_int v))"
      using take_signed_le4 [OF 2(2)] by (intro decodesI) (simp add: written_out)
    ultimately show ?thesis using imm 2 by (auto simp add: emit_add_imm_def is_int32_def simp del: steps.simps)
  next
    case 3
    have "performs (steps [emit_mov_reg_imm 1 (word_of_int v) 8, emit_alu 0x01 0 1]) P (adds_imm v)"
      by (rule performs_steps_Cons [OF performs_constant(3) performs_single [OF performs_alu [of 1 ALU_ADD 0 1 "\<lambda>m. True"]]])
        (auto simp: alu_of_def sets_def adds_imm_def yields_def register_step_def scratch_def alu_def)
    moreover have "emit_add_imm 0 v = steps [emit_mov_reg_imm 1 (word_of_int v) 8, emit_alu 0x01 0 1]"
      using 3 by (auto simp add: emit_add_imm_def is_int32_def emit_alu_def fun_eq_iff)
    ultimately show ?thesis by simp
  qed
qed

subsection \<open>Memory\<close>

text \<open>An instruction that loads a value of some width, extended as its type says.\<close>

lemma exec_load:
  assumes "machine_width width"
  shows "exec svc (load_instr width sg 0 (Mem (Some b) None d)) m =
    Some (set_reg m 0 (wrap width sg (read_bytes (mc_mem m) (mc_regs m b + word_of_int d) width)))"
proof -
  have r: "take_bit (8 * width) (read_bytes (mc_mem m) a width) = read_bytes (mc_mem m) a width" for a
    using assms by (intro read_bytes_bound) (auto simp: machine_width_def)
  from assms consider "width = 1" | "width = 2" | "width = 4" | "width = 8" by (auto simp: machine_width_def)
  then show ?thesis
  proof cases
    case 3
    then show ?thesis using r
      by (cases sg) (simp_all add: load_instr_def read_operand_def write_operand_def address_def wrap_def low_bytes_def extended_def)
  next
    case 4
    then show ?thesis
      by (simp add: load_instr_def read_operand_def write_operand_def address_def wrap_def)
  qed (simp_all add: load_instr_def read_operand_def address_def wrap_def)
qed

lemma performs_load_mem:
  assumes "plain_base base" "is_int32 d" "machine_width width"
  shows "performs (emit_load_mem 0 base d width sg) P
    (sets 0 (\<lambda>m. wrap width sg (read_bytes (mc_mem m) (mc_regs m (unat base) + word_of_int d) width)))"
proof (rule performs_instr [OF emits_load [OF assms(2)]])
  show "decodes (load_instr width sg 0 (memory_at base d)) (load_bytes 0 base d width sg)"
    using decodes_load [of 0 base d width sg] assms by (auto simp: machine_width_def)
qed (simp add: exec_load [OF assms(3)] sets_def set_reg_def)

lemma performs_load_rax:
  assumes "machine_width width"
  shows "performs (emit_load_rax width sg) P (sets 0 (\<lambda>m. wrap width sg (read_bytes (mc_mem m) (mc_regs m 0) width)))"
proof -
  have d: "decodes (load_instr 1 True 0 (Mem (Some 0) None 0)) [0x48, 0x0f, 0xbe, 0]"
    "decodes (load_instr 1 False 0 (Mem (Some 0) None 0)) [0x48, 0x0f, 0xb6, 0]"
    "decodes (load_instr 2 True 0 (Mem (Some 0) None 0)) [0x48, 0x0f, 0xbf, 0]"
    "decodes (load_instr 2 False 0 (Mem (Some 0) None 0)) [0x48, 0x0f, 0xb7, 0]"
    "decodes (load_instr 4 True 0 (Mem (Some 0) None 0)) [0x48, 0x63, 0]"
    "decodes (load_instr 4 False 0 (Mem (Some 0) None 0)) [0x8b, 0]"
    "decodes (load_instr 8 sg 0 (Mem (Some 0) None 0)) [0x48, 0x8b, 0]"
    unfolding load_instr_def by (rule decodesI, simp add: written_out)+
  have l: "performs f P (sets 0 (\<lambda>m. wrap width sg (read_bytes (mc_mem m) (mc_regs m 0) width)))"
    if "emits f bs" "decodes (load_instr width sg 0 (Mem (Some 0) None 0)) bs" for f bs
    by (rule performs_instr [OF that]) (simp add: exec_load [OF assms] sets_def set_reg_def)
  have four: "emits (steps [emit_bytes [0x48, 0x63], emit8 0]) [0x48, 0x63, 0]" "emits (steps [emit8 0x8b, emit8 0]) [0x8b, 0]"
    by (rule emits_eq, (rule emitted)+, simp)+
  from assms consider "width = 1" | "width = 2" | "width = 4" | "width = 8" by (auto simp: machine_width_def)
  then show ?thesis
  proof cases
    case 1
    then show ?thesis using l [OF emits_bytes] d(1,2) by (cases sg) (auto simp: emit_load_rax_def extend_opcode_def)
  next
    case 2
    then show ?thesis using l [OF emits_bytes] d(3,4) by (cases sg) (auto simp: emit_load_rax_def extend_opcode_def)
  next
    case 3
    then show ?thesis using l [OF four(1)] l [OF four(2)] d(5,6)
      by (cases sg) (auto simp add: emit_load_rax_def simp del: steps.simps)
  next
    case 4
    then show ?thesis using l [OF emits_bytes] d(7) by (auto simp: emit_load_rax_def)
  qed
qed

text \<open>A store leaves every register alone.\<close>

definition stores :: "(machine \<Rightarrow> u64) \<Rightarrow> nat \<Rightarrow> (machine \<Rightarrow> u64) \<Rightarrow> machine \<Rightarrow> machine \<Rightarrow> bool" where
  "stores a width f m m' \<longleftrightarrow> mc_regs m' = mc_regs m \<and> mc_mem m' = write_bytes (mc_mem m) (a m) width (f m)"

lemma performs_store_mem:
  assumes "src < 16" "plain_base base" "is_int32 d" "machine_width width"
  shows "performs (emit_store_mem src base d width) P
    (stores (\<lambda>m. mc_regs m (unat base) + word_of_int d) width (\<lambda>m. mc_regs m (unat src)))"
proof (rule performs_instr [OF emits_store [OF assms(3)]])
  show "decodes (IMov width (memory_at base d) (Reg (unat src))) (store_bytes src base d width)"
    using decodes_store [of src base d width] assms by (auto simp: machine_width_def)
  have "width \<le> 8" using assms(4) by (auto simp: machine_width_def)
  then show "\<exists>m'. exec svc (IMov width (memory_at base d) (Reg (unat src))) m = Some m' \<and>
      stores (\<lambda>m. mc_regs m (unat base) + word_of_int d) width (\<lambda>m. mc_regs m (unat src)) m m'" for svc m
    by (simp add: read_operand_def write_operand_def address_def stores_def low_bytes_def write_bytes_truncated)
qed

lemma performs_lea:
  assumes "plain_base base" "is_int32 d"
  shows "performs (steps [emit_rex True 0 base, emit8 0x8d, emit_mem_reg base 0 d]) P
    (sets 0 (\<lambda>m. mc_regs m (unat base) + word_of_int d))"
proof (rule performs_instr)
  show "emits (steps [emit_rex True 0 base, emit8 0x8d, emit_mem_reg base 0 d]) (rex_bytes True 0 base @ 0x8d # mem_bytes base 0 d)"
    using lea_mem(1) [of 0 base d] assms by (simp add: emit_lea_mem_def del: steps.simps)
  show "decodes (ILea 0 (memory_at base d)) (rex_bytes True 0 base @ 0x8d # mem_bytes base 0 d)"
    using lea_mem(2) [of 0 base d] assms by simp
qed (auto simp: address_def set_reg_def sets_def)

lemma performs_member:
  assumes "0 \<le> v" "v \<le> INT32_MAX"
  shows "performs (steps [emit_rex True 0 0, emit_bytes [0x81, 0xc0], emit32 (word_of_int v)]) P (sets 0 (\<lambda>m. mc_regs m 0 + word_of_int v))"
proof (rule performs_instr)
  have r: "is_int32 v" using assms by (simp add: is_int32_def INT32_MIN_def)
  show "emits (steps [emit_rex True 0 0, emit_bytes [0x81, 0xc0], emit32 (word_of_int v)]) ([0x48, 0x81, 0xc0] @ le4 (word_of_int v))"
    by (rule emits_eq, (rule emitted)+, simp add: modrm_def rex_bytes_def rex_number_def)
  show "decodes (IAluImm ALU_ADD 8 (Reg 0) v) ([0x48, 0x81, 0xc0] @ le4 (word_of_int v))"
    using take_signed_le4 [OF r] by (intro decodesI) (simp add: written_out)
qed (auto simp: exec_alu_def read_operand_def write_operand_def set_reg_def alu_def sets_def)

end
