(* ===== verification/Enc_Compute.thy ===== *)
theory Enc_Compute
  imports Enc_Ops
begin

text \<open>
  The code of an expression computes the value the expression means: from every machine that holds the program's
  memory and has room on its stack, it ends behind the code with the value in RAX and with the memory the expression
  leaves, by induction on the expression.
\<close>

subsection \<open>Triples\<close>

text \<open>
  From registers with \<open>A\<close> and the program's memory \<open>mem\<close> the code of \<open>f\<close> leads to registers with \<open>B\<close> and the
  memory \<open>mem'\<close>, with \<open>n\<close> bytes of stack.
\<close>

type_synonym registers = "nat \<Rightarrow> u64"

definition achieves :: "frame \<Rightarrow> nat \<Rightarrow> (registers \<Rightarrow> bool) \<Rightarrow> memory \<Rightarrow> emitter \<Rightarrow> memory \<Rightarrow> (registers \<Rightarrow> bool) \<Rightarrow> bool" where
  "achieves fr n A mem f mem' B \<longleftrightarrow>
     performs f (\<lambda>m. related fr n mem m \<and> A (mc_regs m)) (\<lambda>m m'. changes fr n mem' m m' \<and> B (mc_regs m'))"

lemma achieves_mono:
  assumes "achieves fr k A mem f mem' B" "k \<le> n" "\<And>r. A' r \<Longrightarrow> A r" "\<And>r. B r \<Longrightarrow> B' r"
  shows "achieves fr n A' mem f mem' B'"
  using assms(1) unfolding achieves_def
  by (rule performs_weaken) (use assms(2-) related_mono changes_mono in blast)+

lemma achieves_Nil: "achieves fr n A mem (steps []) mem A"
  unfolding achieves_def
  by (rule performs_weaken [OF performs_steps_Nil]) (auto simp: related_def changes_def)

lemma achieves_Cons:
  assumes "achieves fr n A mem f mem1 B" "achieves fr n B mem1 (steps fs) mem2 C"
  shows "achieves fr n A mem (steps (f # fs)) mem2 C"
  unfolding achieves_def
  by (rule performs_steps_Cons [OF assms [unfolded achieves_def]])
    (use related_changes changes_trans in blast)+

lemma achieves_one: "achieves fr n A mem f mem' B \<Longrightarrow> achieves fr n A mem (steps [f]) mem' B"
  by (erule achieves_Cons [OF _ achieves_Nil])

text \<open>A step that leaves memory alone.\<close>

lemma achieves_step:
  assumes "performs f P R" "\<And>m. related fr n mem m \<Longrightarrow> A (mc_regs m) \<Longrightarrow> P m"
    "\<And>m m'. related fr n mem m \<Longrightarrow> A (mc_regs m) \<Longrightarrow> R m m' \<Longrightarrow> register_step m m' \<and> B (mc_regs m')"
  shows "achieves fr n A mem f mem B"
  using assms(1) unfolding achieves_def
  by (rule performs_weaken) (use assms(2,3) register_step_changes in blast)+

lemma achieves_sets:
  assumes "performs f (\<lambda>m. True) (sets r h)" "r \<in> scratch"
    "\<And>m. related fr n mem m \<Longrightarrow> A (mc_regs m) \<Longrightarrow> B ((mc_regs m)(r := h m))"
  shows "achieves fr n A mem f mem B"
  by (rule achieves_step [OF assms(1)]) (use assms(2,3) in \<open>auto simp: sets_def register_step_def\<close>)

lemma achieves_depth: "achieves fr n A mem deeper mem A" "achieves fr n A mem shallower mem A"
  unfolding achieves_def
  by (rule performsI [OF emits_depth(1)], auto simp: related_def changes_def)
    (rule performsI [OF emits_depth(2)], auto simp: related_def changes_def)

text \<open>A store into the program's memory.\<close>

lemma store_changes:
  assumes "related fr n mem m" "stores a width f m m'" "store_value fr width (a m) (f m) mem = Some mem'"
  shows "changes fr n mem' m m'"
proof -
  have own: "fr_owned fr (a m + of_nat i)" if "i < width" for i
    using assms(3) that by (auto simp: store_value_def owned_range_def list_all_iff split: if_splits)
  have mem': "mem' = write_bytes mem (a m) width (f m)"
    using assms(3) by (simp add: store_value_def split: if_splits)
  have "write_bytes (mc_mem m) (a m) width (f m) b = mc_mem m b" if "\<not> fr_owned fr b" for b
    by (rule write_bytes_outside) (use own that in blast)
  moreover have "write_bytes (mc_mem m) (a m) width (f m) b = mem' b" if "fr_owned fr b" for b
    unfolding mem' by (rule write_bytes_cong) (use assms(1) that in \<open>simp add: related_def\<close>)
  ultimately show ?thesis using assms(2) by (simp add: stores_def changes_def)
qed

lemma achieves_store:
  assumes "performs f (\<lambda>m. True) (stores a width h)"
    "\<And>m. A (mc_regs m) \<Longrightarrow> a m = p \<and> h m = v" "store_value fr width p v mem = Some mem'"
  shows "achieves fr n A mem f mem' A"
  using assms(1) unfolding achieves_def
proof (rule performs_weaken)
  fix m m'
  assume m: "related fr n mem m \<and> A (mc_regs m)" and s: "stores a width h m m'"
  have "a m = p" "h m = v" using assms(2) m by auto
  then show "changes fr n mem' m m' \<and> A (mc_regs m')"
    using store_changes [of fr n mem m a width h m' mem'] m s assms(3) by (simp add: stores_def)
qed simp

text \<open>What a load reads.\<close>

lemma loaded:
  assumes "related fr n mem m" "load_value fr width sg p mem = Some (v, mem')"
  shows "wrap width sg (read_bytes (mc_mem m) p width) = v" "mem' = mem" "machine_width width"
proof -
  have own: "fr_owned fr (p + of_nat i)" if "i < width" for i
    using assms(2) that by (auto simp: load_value_def owned_range_def list_all_iff split: if_splits)
  have "read_bytes (mc_mem m) p width = read_bytes mem p width"
    by (rule read_bytes_cong) (use own assms(1) in \<open>simp add: related_def\<close>)
  then show "wrap width sg (read_bytes (mc_mem m) p width) = v" "mem' = mem" "machine_width width"
    using assms(2) by (auto simp: load_value_def split: if_splits)
qed

lemma load_width: "load_value fr width sg p mem = Some (v, mem') \<Longrightarrow> machine_width width \<and> mem' = mem"
  by (simp add: load_value_def split: if_splits)

lemma achieves_load:
  assumes "performs f (\<lambda>m. True) (sets 0 (\<lambda>m. wrap width sg (read_bytes (mc_mem m) (a m) width)))"
    "\<And>m. related fr n mem m \<Longrightarrow> A (mc_regs m) \<Longrightarrow> a m = p" "load_value fr width sg p mem = Some (v, mem')"
    "\<And>r. A r \<Longrightarrow> B (r(0 := v))"
  shows "achieves fr n A mem f mem' B"
  unfolding conjunct2 [OF load_width [OF assms(3)]]
  by (rule achieves_sets [OF assms(1)]) (use assms(2,4) loaded(1) [OF _ assms(3)] in \<open>auto simp: scratch_def\<close>)

text \<open>A value kept on the stack during a computation.\<close>

lemma achieves_saved:
  assumes body: "achieves fr n (\<lambda>r. r 0 = v) mem (steps gs) mem' B" and r: "r < 16" "unat r \<in> scratch"
  shows "achieves fr (n + 8) (\<lambda>r. r 0 = v) mem (steps (emit_push 0 # deeper # gs @ [emit_pop r, shallower])) mem'
    (\<lambda>q. q (unat r) = v \<and> (\<exists>q'. B q' \<and> (\<forall>k \<in> scratch. k \<noteq> unat r \<longrightarrow> q k = q' k)))"
proof -
  obtain bs where bs: "emits (steps gs) bs"
      "\<And>svc m. related fr n mem m \<Longrightarrow> mc_regs m 0 = v \<Longrightarrow> \<exists>m'. runs svc bs m m' \<and> changes fr n mem' m m' \<and> B (mc_regs m')"
    using body unfolding achieves_def performs_def by blast
  have pop: "emits (steps [emit_pop r, shallower]) ((rex_bytes False 0 r @ [ucast (0x58 + (r AND 7))]) @ [] @ [])"
    by (rule emits_steps_Cons pop_reg(1) [OF r(1)] emits_depth(2) emits_steps_Nil)+
  have "emits (steps [steps gs, steps [emit_pop r, shallower]]) (bs @ ((rex_bytes False 0 r @ [ucast (0x58 + (r AND 7))]) @ [] @ []) @ [])"
    by (rule emits_steps_Cons bs(1) pop emits_steps_Nil)+
  moreover have "steps [steps gs, steps [emit_pop r, shallower]] = steps (gs @ [emit_pop r, shallower])" by (rule ext) simp
  ultimately have tail: "emits (steps (gs @ [emit_pop r, shallower])) (bs @ ((rex_bytes False 0 r @ [ucast (0x58 + (r AND 7))]) @ [] @ []) @ [])"
    by simp
  show ?thesis
    unfolding achieves_def
  proof (rule performsI [OF emits_steps_Cons [OF push_reg(1) emits_steps_Cons [OF emits_depth(1) tail]]], simp)
    fix svc and m :: machine
    assume m: "related fr (n + 8) mem m \<and> mc_regs m 0 = v"
    let ?m0 = "push_word v m"
    have 0: "exec svc (IPush (unat (0 :: u32))) m = Some ?m0" using m by simp
    have "mc_regs ?m0 0 = v" using m by (simp add: push_word_def set_reg_def Let_def)
    then obtain m1 where m1: "runs svc bs ?m0 m1" "changes fr n mem' ?m0 m1" "B (mc_regs m1)"
      using bs(2) [OF related_push] m by blast
    have "exec svc (IPop (unat r)) m1 = Some (pop_word (unat r) m1)" by (simp add: pop_word_def)
    note 2 = runs_instr [OF pop_reg(2) [OF r(1)] this]
    have "runs svc ((rex_bytes False 0 0 @ [ucast (0x50 + (0 AND 7 :: u32))]) @ bs @ rex_bytes False 0 r @ [ucast (0x58 + (r AND 7))])
        m (pop_word (unat r) m1)"
      by (rule runs_instrs [OF push_reg(2) 0 runs_append [OF m1(1) 2]]) simp
    then show "\<exists>m'. runs svc ((rex_bytes False 0 0 @ [ucast (0x50 + (0 AND 7 :: u32))]) @
          [] @ bs @ ((rex_bytes False 0 r @ [ucast (0x58 + (r AND 7))]) @ [] @ []) @ []) m m' \<and>
        changes fr (n + 8) mem' m m' \<and> mc_regs m' (unat r) = v \<and>
        (\<exists>q'. B q' \<and> (\<forall>k\<in>scratch. k \<noteq> unat r \<longrightarrow> mc_regs m' k = q' k))"
      using popped [OF conjunct1 [OF m] m1(2) r(2)] m1(3) by auto
  qed
qed


subsection \<open>Operands\<close>

definition computes :: "unit_env \<Rightarrow> frame \<Rightarrow> ir_inst \<Rightarrow> memory \<Rightarrow> u64 \<Rightarrow> memory \<Rightarrow> bool" where
  "computes env fr x mem v mem' \<longleftrightarrow>
     achieves fr (8 * size x) (\<lambda>r. True) mem (encode_expr env (Some x)) mem' (\<lambda>r. r 0 = v)"

text \<open>What holds of the operands when the instruction comes to be compiled.\<close>

definition operands_compute :: "unit_env \<Rightarrow> frame \<Rightarrow> ir_inst \<Rightarrow> bool" where
  "operands_compute env fr i \<longleftrightarrow>
     (\<forall>x \<in> operands i. \<forall>mem v mem'. ir_eval env fr x mem = Some (v, mem') \<longrightarrow> computes env fr x mem v mem')"

lemma operand_computes:
  assumes "operands_compute env fr i" "x \<in> operands i" "ir_eval env fr x mem = Some (v, mem')" "8 * size x \<le> n"
  shows "achieves fr n A mem (encode_expr env (Some x)) mem' (\<lambda>r. r 0 = v)"
proof -
  have "computes env fr x mem v mem'" using assms(1-3) by (simp add: operands_compute_def)
  then show ?thesis unfolding computes_def by (rule achieves_mono) (use assms(4) in simp_all)
qed

lemma achieves_expr:
  assumes "achieves fr n A mem (encode_node (encode_expr env) env i) mem' B"
  shows "achieves fr n A mem (encode_expr env (Some i)) mem' B"
proof -
  have "emits (encode_expr env (Some i)) bs" if "emits (encode_node (encode_expr env) env i) bs" for bs
    using emitsD [OF that] emits_failed [OF that] by (intro emitsI) (auto split: if_splits)
  then show ?thesis using assms unfolding achieves_def performs_def by blast
qed

text \<open>The first operand in RAX and the second in RCX.\<close>

lemma two_operands:
  assumes ops: "operands_compute env fr i" and i: "in_a i = Some x" "in_b i = Some y"
    and x: "ir_eval env fr x mem = Some (v, mem1)" and y: "ir_eval env fr y mem1 = Some (w, mem2)"
  shows "achieves fr (8 * size i) A mem (emit_two_operands (encode_expr env) i) mem2 (\<lambda>r. r 0 = v \<and> r 1 = w)"
proof -
  have in_i: "x \<in> operands i" "y \<in> operands i" using i by (simp_all add: operands_def)
  then have s: "size x < size i" "size y < size i" by (auto intro: operands_size)
  define n where "n = 8 * (size i - 1)"
  have n: "8 * size i = n + 8" "8 * size y \<le> n" using s by (simp_all add: n_def)
  have mov: "achieves fr n (\<lambda>r. r 0 = w) mem2 (emit_mov_reg_reg 1 0) mem2 (\<lambda>r. r 1 = w)"
    by (rule achieves_sets [OF performs_mov]) (simp_all add: scratch_def)
  have body: "achieves fr n (\<lambda>r. r 0 = v) mem1 (steps [encode_expr env (Some y), emit_mov_reg_reg 1 0]) mem2 (\<lambda>r. r 1 = w)"
    by (rule achieves_Cons [OF operand_computes [OF ops in_i(2) y n(2)] achieves_one [OF mov]])
  have "achieves fr (8 * size i) (\<lambda>r. r 0 = v) mem1
      (steps (emit_push 0 # deeper # [encode_expr env (Some y), emit_mov_reg_reg 1 0] @ [emit_pop 0, shallower])) mem2
      (\<lambda>r. r 0 = v \<and> r 1 = w)"
    unfolding n(1) by (rule achieves_mono [OF achieves_saved [OF body]]) (auto simp: scratch_def)
  then show ?thesis
    unfolding emit_two_operands_def i
    using achieves_Cons [OF operand_computes [OF ops in_i(1) x, of "8 * size i"]] s by simp
qed


subsection \<open>Each kind of instruction\<close>

abbreviation (input) node_computes :: "unit_env \<Rightarrow> frame \<Rightarrow> ir_inst \<Rightarrow> memory \<Rightarrow> u64 \<Rightarrow> memory \<Rightarrow> bool" where
  "node_computes env fr i mem v mem' \<equiv>
     achieves fr (8 * size i) (\<lambda>r. True) mem (encode_node (encode_expr env) env i) mem' (\<lambda>r. r 0 = v)"

lemmas ir_evaluated = ir_eval.simps bind_eq_Some_conv

text \<open>The value of the first operand, and a sequence behind it.\<close>

lemma computes_then:
  assumes "operands_compute env fr i" "in_a i = Some x" "ir_eval env fr x mem = Some (v, mem1)"
    "achieves fr (8 * size i) (\<lambda>r. r 0 = v) mem1 (steps fs) mem2 B"
  shows "achieves fr (8 * size i) A mem (steps (encode_expr env (in_a i) # fs)) mem2 B"
proof -
  have x: "x \<in> operands i" using assms(2) by (simp add: operands_def)
  then have "size x < size i" by (rule operands_size)
  then show ?thesis
    unfolding assms(2) by (intro achieves_Cons [OF operand_computes [OF assms(1) x assms(3)] assms(4)]) simp
qed

lemma computes_only:
  assumes "operands_compute env fr i" "in_a i = Some x" "ir_eval env fr x mem = Some (v, mem1)"
  shows "achieves fr (8 * size i) A mem (encode_expr env (in_a i)) mem1 (\<lambda>r. r 0 = v)"
proof -
  have x: "x \<in> operands i" using assms(2) by (simp add: operands_def)
  then have "size x < size i" by (rule operands_size)
  then show ?thesis unfolding assms(2) by (intro operand_computes [OF assms(1) x assms(3)]) simp
qed

text \<open>Register sequences that set RAX from itself.\<close>

lemma achieves_map:
  assumes "performs f (\<lambda>m. True) (sets 0 (\<lambda>m. h (mc_regs m 0)))"
  shows "achieves fr n (\<lambda>r. r 0 = v) mem f mem (\<lambda>r. r 0 = h v)"
  by (rule achieves_sets [OF assms]) (auto simp: scratch_def)

lemma narrow_constant:
  assumes "wrap width False v = v" "width \<in> {1, 2, 4}"
  shows "v < 2 ^ 32"
proof -
  have "take_bit (8 * width) v = v" using assms by (auto simp: wrap_def extended_def)
  then have "unat v = unat v mod 2 ^ (8 * width)" by (metis take_bit_eq_mod unsigned_take_bit_eq)
  then have "unat v < 2 ^ (8 * width)" by (metis mod_less_divisor zero_less_numeral zero_less_power)
  also have "\<dots> \<le> (2 :: nat) ^ 32" by (rule power_increasing) (use assms(2) in auto)
  finally show ?thesis by (simp add: word_less_nat_alt)
qed

lemma compute_const:
  assumes "ir_eval env fr i mem = Some (v, mem')" "in_op i = IR_CONST"
  shows "node_computes env fr i mem v mem'"
proof (cases i)
  case (IrInst nd a b c args)
  have e: "machine_width (ir_width i)" "wrap (ir_width i) (in_signed i) v = v" "nd_bits nd = v" "mem' = mem"
    using assms by (auto simp: IrInst ir_eval.simps Let_def split: if_splits)
  define width where "width = (if nd_width nd = 0 then 8 else nd_width nd)"
  have w: "unat width = ir_width i" by (simp add: width_def ir_width_def IrInst)
  have const: "encode_const i = emit_mov_reg_imm 0 v (if width < 8 \<and> in_signed i then 8 else width)"
    using e(3) by (simp add: encode_const_def width_def IrInst Let_def)
  have "performs (encode_const i) (\<lambda>m. True) (sets 0 (\<lambda>m. v))"
    unfolding const
  proof (cases "width = 8 \<or> width < 8 \<and> in_signed i")
    case True
    then show "performs (emit_mov_reg_imm 0 v (if width < 8 \<and> in_signed i then 8 else width)) (\<lambda>m. True) (sets 0 (\<lambda>m. v))"
      using performs_constant(1) [of v "\<lambda>m. True"] by auto
  next
    case False
    have "width \<noteq> 8" using False by simp
    then have "unat width \<noteq> 8" using word_unat_eq_iff [of width 8] by simp
    then have "ir_width i \<in> {1, 2, 4} \<and> width \<noteq> 8"
      using e(1) False w by (auto simp: machine_width_def)
    moreover from this have "width < 8" using w by (auto simp: word_less_nat_alt)
    ultimately show "performs (emit_mov_reg_imm 0 v (if width < 8 \<and> in_signed i then 8 else width)) (\<lambda>m. True) (sets 0 (\<lambda>m. v))"
      using False performs_constant(2) [of width v "\<lambda>m. True"] narrow_constant [of "ir_width i" v] e(2) by auto
  qed
  then have "achieves fr (8 * size i) (\<lambda>r. True) mem (encode_const i) mem (\<lambda>r. r 0 = v)"
    by (rule achieves_sets) (simp_all add: scratch_def)
  then show ?thesis using assms(2) e(4) by (simp add: encode_node_def)
qed

lemma local_base: "plain_base 5" "plain_base 0" "plain_base 11"
  by (simp_all add: plain_base_def)

lemma local_symbol_address_value:
  assumes "local_symbol_address env fr s = Some p"
  shows "symbol_is_local (ue_symbols env s)" "is_int32 (frame_offset (sy_offset (ue_symbols env s)))"
    "p = fr_base fr + word_of_int (frame_offset (sy_offset (ue_symbols env s)))"
  using assms by (auto simp: local_symbol_address_def local_address_def is_int32_def split: if_splits)

lemma local_address_range:
  "local_address fr d = Some p \<Longrightarrow> is_int32 d \<and> p = fr_base fr + word_of_int d"
  by (auto simp: local_address_def is_int32_def split: if_splits)

lemma frame_register: "related fr n mem m \<Longrightarrow> mc_regs m 5 = fr_base fr"
  by (simp add: related_def)

lemma compute_load:
  assumes ops: "operands_compute env fr i" and ev: "ir_eval env fr i mem = Some (v, mem')" and op: "in_op i = IR_LOAD"
  shows "node_computes env fr i mem v mem'"
proof (cases i)
  case (IrInst nd a b c args)
  have fl: "\<not> is_float_type (ue_types env) (in_type i)" using ev op by (auto simp: IrInst ir_evaluated Let_def split: if_splits)
  show ?thesis
  proof (cases "in_a i")
    case None
    then obtain s p where s: "in_symbol i = Some s" "local_symbol_address env fr s = Some p"
        "load_value fr (ir_width i) (in_signed i) p mem = Some (v, mem')"
      using ev op fl by (auto simp: IrInst ir_evaluated Let_def split: if_splits option.splits)
    note l = local_symbol_address_value [OF s(2)] and w = conjunct1 [OF load_width [OF s(3)]]
    have "achieves fr (8 * size i) (\<lambda>r. True) mem
        (emit_load_mem 0 5 (frame_offset (sy_offset (ue_symbols env s))) (ir_width i) (in_signed i)) mem' (\<lambda>r. r 0 = v)"
      by (rule achieves_load [OF performs_load_mem [OF local_base(1) l(2) w] _ s(3)]) (simp_all add: frame_register l(3))
    then show ?thesis using op None s(1) l(1) fl by (simp add: encode_node_def encode_load_def Let_def)
  next
    case (Some x)
    then obtain p mem1 where x: "ir_eval env fr x mem = Some (p, mem1)"
        "load_value fr (ir_width i) (in_signed i) p mem1 = Some (v, mem')"
      using ev op fl by (auto simp: IrInst ir_evaluated Let_def split: if_splits option.splits)
    have w: "machine_width (ir_width i)" using load_width [OF x(2)] by simp
    have "achieves fr (8 * size i) (\<lambda>r. r 0 = p) mem1 (emit_load_rax (ir_width i) (in_signed i)) mem' (\<lambda>r. r 0 = v)"
      by (rule achieves_load [OF performs_load_rax [OF w] _ x(2)]) simp_all
    from computes_then [OF ops Some x(1) achieves_one [OF this]]
    show ?thesis using op Some fl by (simp add: encode_node_def encode_load_def Let_def split: option.split)
  qed
qed


lemma compute_store:
  assumes ops: "operands_compute env fr i" and ev: "ir_eval env fr i mem = Some (v, mem')" and op: "in_op i = IR_STORE"
  shows "node_computes env fr i mem v mem'"
proof (cases i)
  case (IrInst nd a b c args)
  have fl: "\<not> is_float_type (ue_types env) (in_type i)" using ev op by (auto simp: IrInst ir_evaluated Let_def split: if_splits)
  obtain x y p mem1 mem2 where x: "in_a i = Some x" "ir_eval env fr x mem = Some (p, mem1)"
      and y: "in_b i = Some y" "ir_eval env fr y mem1 = Some (v, mem2)"
      and s: "store_value fr (ir_width i) p v mem2 = Some mem'"
    using ev op fl by (auto simp: IrInst ir_evaluated Let_def split: option.splits)
  have w: "machine_width (ir_width i)" using s by (simp add: store_value_def split: if_splits)
  have store: "achieves fr n (\<lambda>r. r 0 = p \<and> r 1 = v) mem2 (emit_store_mem 1 0 0 (ir_width i)) mem' (\<lambda>r. r 0 = p \<and> r 1 = v)" for n
    by (rule achieves_store [OF performs_store_mem [OF _ local_base(2) _ w] _ s]) (simp_all add: is_int32_def INT32_MIN_def INT32_MAX_def)
  have mov: "achieves fr n (\<lambda>r. r 0 = p \<and> r 1 = v) mem' (emit_mov_reg_reg 0 1) mem' (\<lambda>r. r 0 = v)" for n
    by (rule achieves_sets [OF performs_mov]) (simp_all add: scratch_def)
  show ?thesis
    using achieves_Cons [OF two_operands [OF ops x(1) y(1) x(2) y(2)] achieves_Cons [OF store achieves_one [OF mov]]] op fl
    by (simp add: encode_node_def encode_store_def del: steps.simps)
qed

lemma compute_addr:
  assumes ops: "operands_compute env fr i" and ev: "ir_eval env fr i mem = Some (v, mem')" and op: "in_op i = IR_ADDR"
  shows "node_computes env fr i mem v mem'"
proof (cases i)
  case (IrInst nd a b c args)
  have lea: "achieves fr (8 * size i) (\<lambda>r. True) mem (steps [emit_rex True 0 5, emit8 0x8d, emit_mem_reg 5 0 d]) mem (\<lambda>r. r 0 = fr_base fr + word_of_int d)"
    if "is_int32 d" for d
    by (rule achieves_sets [OF performs_lea [OF local_base(1) that]]) (simp_all add: scratch_def frame_register)
  show ?thesis
  proof (cases "in_a i")
    case (Some x)
    then have "ir_eval env fr x mem = Some (v, mem')" using ev op by (auto simp: IrInst ir_evaluated Let_def split: option.splits)
    from computes_only [OF ops Some this] show ?thesis using op Some by (simp add: encode_node_def encode_addr_def)
  next
    case None
    show ?thesis
    proof (cases "in_symbol i")
      case (Some s)
      have s: "local_symbol_address env fr s = Some v" "mem' = mem" using ev op None Some by (auto simp: IrInst ir_evaluated Let_def)
      note l = local_symbol_address_value [OF s(1)]
      show ?thesis using lea [OF l(2)] op None Some s(2) l(1,3) by (simp add: encode_node_def encode_addr_def del: steps.simps)
    next
      case none: None
      have "local_address fr (in_offset i) = Some v" "mem' = mem" using ev op None none by (auto simp: IrInst ir_evaluated Let_def)
      then show ?thesis using lea [of "in_offset i"] local_address_range [of fr "in_offset i" v] op None none
        by (simp add: encode_node_def encode_addr_def del: steps.simps)
    qed
  qed
qed

lemma compute_aggregate:
  assumes ops: "operands_compute env fr i" and ev: "ir_eval env fr i mem = Some (v, mem')" and op: "in_op i = IR_AGGREGATE"
  shows "node_computes env fr i mem v mem'"
proof (cases i)
  case (IrInst nd a b c args)
  obtain x where x: "in_a i = Some x" "ir_eval env fr x mem = Some (v, mem')"
    using ev op by (auto simp: IrInst ir_evaluated Let_def)
  show ?thesis using computes_only [OF ops x] op by (simp add: encode_node_def)
qed

lemma compute_member:
  assumes ops: "operands_compute env fr i" and ev: "ir_eval env fr i mem = Some (v, mem')" and op: "in_op i = IR_MEMBER"
  shows "node_computes env fr i mem v mem'"
proof (cases i)
  case (IrInst nd a b c args)
  have range: "0 \<le> in_offset i" "in_offset i \<le> INT32_MAX" using ev op by (auto simp: IrInst ir_evaluated Let_def split: if_splits)
  then obtain x p where x: "in_a i = Some x" "ir_eval env fr x mem = Some (p, mem')" "v = p + word_of_int (in_offset i)"
    using ev op by (auto simp: IrInst ir_evaluated Let_def)
  have add: "achieves fr (8 * size i) (\<lambda>r. r 0 = p) mem' (steps [emit_rex True 0 0, emit_bytes [0x81, 0xc0], emit32 (word_of_int (in_offset i))])
      mem' (\<lambda>r. r 0 = v)"
    unfolding x(3) by (rule achieves_sets [OF performs_member [OF range]]) (simp_all add: scratch_def)
  have zero: "achieves fr (8 * size i) (\<lambda>r. r 0 = p) mem' (steps []) mem' (\<lambda>r. r 0 = v)" if "in_offset i = 0"
    by (rule achieves_mono [OF achieves_Nil [of fr "8 * size i"]]) (use that x(3) in simp_all)
  show ?thesis
  proof (cases "in_offset i = 0")
    case True
    then show ?thesis using computes_then [OF ops x(1,2) achieves_one [OF zero]] op by (simp add: encode_node_def encode_member_def del: steps.simps)
  next
    case False
    then show ?thesis using computes_then [OF ops x(1,2) achieves_one [OF add]] op range
      by (simp add: encode_node_def encode_member_def del: steps.simps)
  qed
qed

lemma compute_comma:
  assumes ops: "operands_compute env fr i" and ev: "ir_eval env fr i mem = Some (v, mem')" and op: "in_op i = IR_COMMA"
  shows "node_computes env fr i mem v mem'"
proof (cases i)
  case (IrInst nd a b c args)
  obtain x y u mem1 where x: "in_a i = Some x" "ir_eval env fr x mem = Some (u, mem1)"
      and y: "in_b i = Some y" "ir_eval env fr y mem1 = Some (v, mem')"
    using ev op by (auto simp: IrInst ir_evaluated Let_def)
  have y_in: "y \<in> operands i" using y(1) by (simp add: operands_def)
  then have "size y < size i" by (rule operands_size)
  then have "achieves fr (8 * size i) (\<lambda>r. r 0 = u) mem1 (encode_expr env (in_b i)) mem' (\<lambda>r. r 0 = v)"
    unfolding y(1) by (intro operand_computes [OF ops y_in y(2)]) simp
  from computes_then [OF ops x achieves_one [OF this]] show ?thesis
    using op by (simp add: encode_node_def encode_comma_def del: steps.simps)
qed

lemma compute_cast:
  assumes ops: "operands_compute env fr i" and ev: "ir_eval env fr i mem = Some (v, mem')" and op: "in_op i = IR_CAST"
  shows "node_computes env fr i mem v mem'"
proof (cases i)
  case (IrInst nd a b c args)
  let ?T = "ue_types env" and ?w = "ir_width i"
  let ?sg = "type_is_signed ?T (in_type i)"
  have c: "kind_of ?T (in_type i) \<noteq> Some TYPE_UINT128" "nd_flags (in_node i) AND IR_FLAG_WIDE_VALUE = 0"
      "\<not> is_float_type ?T (in_type i)" "integer_operand env (in_a i)"
    using ev op by (auto simp: IrInst ir_evaluated Let_def split: if_splits)
  obtain x p where x: "in_a i = Some x" "ir_eval env fr x mem = Some (p, mem')" "v = wrap ?w ?sg p"
    using ev op c by (auto simp: IrInst ir_evaluated Let_def split: if_splits)
  have float: "\<not> is_float_type ?T (in_type x)" using c(4) x(1) by (simp add: integer_operand_def)
  have norm: "achieves fr n (\<lambda>r. r 0 = p) mem' (emit_normalize ?w ?sg) mem' (\<lambda>r. r 0 = v)" for n
    unfolding x(3) by (rule achieves_map [OF performs_normalize])
  have eight: "emit_normalize 8 s = steps []" for s by (simp add: emit_normalize_def)
  have nil: "achieves fr n (\<lambda>r. r 0 = p) mem' (steps []) mem' (\<lambda>r. r 0 = p)" for n by (rule achieves_Nil)
  have "achieves fr (8 * size i) (\<lambda>r. True) mem
      (steps [encode_expr env (in_a i), steps [], if ?w \<noteq> 8 then emit_normalize ?w ?sg else steps []]) mem' (\<lambda>r. r 0 = v)"
    using computes_then [OF ops x(1,2) achieves_Cons [OF nil achieves_one [OF norm]]] eight [of ?sg] by (cases "?w = 8") auto
  then show ?thesis using op c x(1) float by (simp add: encode_node_def encode_cast_def Let_def del: steps.simps)
qed


text \<open>The operators of one operand share their shape.\<close>

lemma compute_unary:
  assumes ops: "operands_compute env fr i" and ev: "ir_eval env fr i mem = Some (v, mem')"
    and op: "in_op i \<in> {IR_NEG, IR_BIT_NOT, IR_LOGICAL_NOT}"
  shows "node_computes env fr i mem v mem'"
proof (cases i)
  case (IrInst nd a b c args)
  let ?n = "8 * size i" and ?norm = "emit_normalize (ir_width i) (in_signed i)"
  have int: "in_op i \<noteq> IR_BIT_NOT \<Longrightarrow> \<not> is_float_type (ue_types env) (in_type i) \<and> integer_operand env (in_a i)"
    using ev op by (auto simp: IrInst ir_evaluated Let_def split: if_splits)
  have float: "\<not> ((is_float_type (ue_types env) (in_type i) \<or>
      (case in_a i of None \<Rightarrow> False | Some a \<Rightarrow> is_float_type (ue_types env) (in_type a))) \<and> (in_op i = IR_NEG \<or> in_op i = IR_LOGICAL_NOT))"
    using int by (auto simp: integer_operand_def split: option.splits)
  have norm: "achieves fr n (\<lambda>r. r 0 = u) mem' ?norm mem' (\<lambda>r. r 0 = wrap (ir_width i) (in_signed i) u)" for n u
    by (rule achieves_map [OF performs_normalize])
  have unary: "encode_node enc env i = encode_unary enc env i" for enc
    using op by (auto simp: encode_node_def)
  from op consider "in_op i = IR_NEG" | "in_op i = IR_BIT_NOT" | "in_op i = IR_LOGICAL_NOT" by auto
  then show ?thesis
  proof cases
    case 1
    then obtain x p where x: "in_a i = Some x" "ir_eval env fr x mem = Some (p, mem')" "v = wrap (ir_width i) (in_signed i) (- p)"
      using ev int by (auto simp: IrInst ir_evaluated Let_def split: if_splits)
    have "achieves fr ?n (\<lambda>r. r 0 = p) mem' (steps [emit_bytes [0x48, 0xf7], emit_modrm_reg 3 0]) mem' (\<lambda>r. r 0 = - p)"
      by (rule achieves_map [OF performs_negate(1)])
    from computes_then [OF ops x(1,2) achieves_Cons [OF this achieves_one [OF norm]]] show ?thesis
      using 1 float x(3) unfolding unary encode_unary_def Let_def if_not_P [OF float] by (simp del: steps.simps)
  next
    case 2
    then obtain x p where x: "in_a i = Some x" "ir_eval env fr x mem = Some (p, mem')" "v = wrap (ir_width i) (in_signed i) (NOT p)"
      using ev by (auto simp: IrInst ir_evaluated Let_def split: if_splits)
    have "achieves fr ?n (\<lambda>r. r 0 = p) mem' (steps [emit_bytes [0x48, 0xf7], emit_modrm_reg 2 0]) mem' (\<lambda>r. r 0 = NOT p)"
      by (rule achieves_map [OF performs_negate(2)])
    from computes_then [OF ops x(1,2) achieves_Cons [OF this achieves_one [OF norm]]] show ?thesis
      using 2 x(3) unfolding unary encode_unary_def Let_def if_not_P [OF float] by (simp del: steps.simps)
  next
    case 3
    then obtain x p where x: "in_a i = Some x" "ir_eval env fr x mem = Some (p, mem')" "v = of_bool (p = 0)"
      using ev int by (auto simp: IrInst ir_evaluated Let_def split: if_splits)
    have zero: "achieves fr ?n (\<lambda>r. r 0 = p) mem' (steps [emit_test 0, emit_bytes [0x0f, 0x94, 0xc0], movzx_eax_al]) mem' (\<lambda>r. r 0 = v)"
      by (rule achieves_step [OF performs_not_zero [of "\<lambda>m. True"]]) (auto simp: yields_def x(3))
    have nil: "achieves fr ?n (\<lambda>r. r 0 = v) mem' (steps []) mem' (\<lambda>r. r 0 = v)" by (rule achieves_Nil)
    from computes_then [OF ops x(1,2) achieves_Cons [OF zero achieves_one [OF nil]]] show ?thesis
      using 3 unfolding unary encode_unary_def Let_def if_not_P [OF float] by (simp del: steps.simps)
  qed
qed

lemma compare_condition:
  assumes "compare_value compare sg x y = Some r"
  obtains c where "condition_code compare sg = Some c"
proof -
  have "condition_code compare sg = None \<Longrightarrow> compare_value compare sg x y = None"
    by (auto simp: compare_value_def condition_code_def Let_def split: if_splits)
  then show ?thesis using assms that by (cases "condition_code compare sg") auto
qed

lemma compute_compare:
  assumes ops: "operands_compute env fr i" and ev: "ir_eval env fr i mem = Some (v, mem')" and op: "in_op i = IR_COMPARE"
  shows "node_computes env fr i mem v mem'"
proof (cases i)
  case (IrInst nd a b c args)
  let ?T = "ue_types env" and ?C = "nd_compare (in_node i)"
  have int: "integer_operand env (in_a i)" using ev op by (auto simp: IrInst ir_evaluated Let_def split: if_splits)
  obtain x y p q r mem1 where x: "in_a i = Some x" "ir_eval env fr x mem = Some (p, mem1)"
      and y: "in_b i = Some y" "ir_eval env fr y mem1 = Some (q, mem')"
      and r: "compare_value ?C (type_is_signed ?T (in_type x)) p q = Some r" "v = of_bool r"
    using ev op int by (auto simp: IrInst ir_evaluated Let_def)
  obtain k where k: "condition_code ?C (type_is_signed ?T (in_type x)) = Some k" using compare_condition [OF r(1)] .
  have float: "\<not> is_float_type ?T (in_type x)" using int x(1) by (simp add: integer_operand_def)
  have "achieves fr (8 * size i) (\<lambda>r. r 0 = p \<and> r 1 = q) mem'
      (steps [emit_bytes [0x48, 0x39], emit_modrm_reg 1 0, emit_setcc k, movzx_eax_al]) mem' (\<lambda>r. r 0 = v)"
    by (rule achieves_step [OF performs_compare [OF k, of "\<lambda>m. True"]]) (use r in \<open>auto simp: yields_def\<close>)
  from achieves_Cons [OF two_operands [OF ops x(1) y(1) x(2) y(2)] achieves_one [OF this]] show ?thesis
    using op x(1) float k by (simp add: encode_node_def encode_compare_def Let_def del: steps.simps)
qed

lemma eval_binary:
  assumes "in_op i \<in> binary_ops"
  shows "ir_eval env fr i mem =
    (if is_float_type (ue_types env) (in_type i) \<and> in_op i \<in> {IR_ADD, IR_SUB, IR_MUL, IR_DIV} then None
     else do {
       x \<leftarrow> in_a i; (v, mem) \<leftarrow> ir_eval env fr x mem; y \<leftarrow> in_b i; (w, mem) \<leftarrow> ir_eval env fr y mem;
       map_option (\<lambda>r. (wrap (ir_width i) (in_signed i) r, mem)) (value_op (in_op i) (in_signed i) v w) })"
proof (cases i)
  case (IrInst nd a b c args)
  show ?thesis using assms unfolding IrInst ir_eval.simps Let_def by (cases "nd_op nd") (simp_all add: binary_ops_def)
qed

lemma compute_binary:
  assumes ops: "operands_compute env fr i" and ev: "ir_eval env fr i mem = Some (v, mem')" and op: "in_op i \<in> binary_ops"
  shows "node_computes env fr i mem v mem'"
proof (cases i)
  case (IrInst nd a b c args)
  let ?op = "in_op i" and ?sg = "in_signed i" and ?w = "ir_width i"
  let ?float = "is_float_type (ue_types env) (in_type i) \<and> ?op \<in> {IR_ADD, IR_SUB, IR_MUL, IR_DIV}"
  have float: "\<not> ?float" using ev by (simp add: eval_binary [OF op] split: if_splits)
  have "\<exists>x y p q mem1 r. in_a i = Some x \<and> ir_eval env fr x mem = Some (p, mem1) \<and> in_b i = Some y \<and>
      ir_eval env fr y mem1 = Some (q, mem') \<and> value_op ?op ?sg p q = Some r \<and> v = wrap ?w ?sg r"
    using ev float unfolding eval_binary [OF op] if_not_P [OF float] bind_eq_Some_conv by (auto simp: bind_eq_Some_conv)
  then obtain x y p q mem1 r where x: "in_a i = Some x" "ir_eval env fr x mem = Some (p, mem1)"
      and y: "in_b i = Some y" "ir_eval env fr y mem1 = Some (q, mem')"
      and r: "value_op ?op ?sg p q = Some r" "v = wrap ?w ?sg r" by blast
  have operate: "achieves fr n (\<lambda>r. r 0 = p \<and> r 1 = q) mem' (emit_binary_opcode ?op ?sg) mem' (\<lambda>q. q 0 = r)" for n
    by (rule achieves_step [OF performs_binary [OF op]]) (use r in \<open>auto simp: yields_def\<close>)
  have norm: "achieves fr n (\<lambda>q. q 0 = r) mem' (emit_normalize ?w ?sg) mem' (\<lambda>r. r 0 = v)" for n
    unfolding r(2) by (rule achieves_map [OF performs_normalize])
  have "encode_node enc env i = encode_binary enc i" for enc
    using op float by (auto simp: encode_node_def binary_ops_def)
  then show ?thesis
    using achieves_Cons [OF two_operands [OF ops x(1) y(1) x(2) y(2)] achieves_Cons [OF operate achieves_one [OF norm]]]
    by (simp add: encode_binary_def del: steps.simps)
qed


text \<open>A value and its extension leave the same bytes in memory.\<close>

lemma store_wrapped:
  assumes "store_value fr width p v mem = Some mem'"
  shows "store_value fr width p (wrap width sg v) mem = Some mem'"
proof -
  have w: "width \<in> {1, 2, 4, 8}" using assms by (auto simp: store_value_def machine_width_def split: if_splits)
  have same: "take_bit (8 * width) (wrap width sg v) = take_bit (8 * width) v"
  proof (cases "width = 8 \<or> \<not> sg")
    case False
    then have "take_bit (8 * width) (word_of_int (signed_take_bit (8 * width - 1) (uint v)) :: u64) = take_bit (8 * width) v"
      using w by (intro bit_word_eqI) (auto simp: bit_simps)
    then show ?thesis using False w by (auto simp: wrap_def extended_def)
  qed (use w in \<open>auto simp: wrap_def extended_def\<close>)
  have "write_bytes mem p width (wrap width sg v) = write_bytes mem p width v"
    using write_bytes_truncated [of width mem p "wrap width sg v"] write_bytes_truncated [of width mem p v] same w by auto
  then show ?thesis using assms by (simp add: store_value_def split: if_splits)
qed

text \<open>The new value in RAX goes to the address in R11.\<close>

lemma achieves_update:
  assumes "store_value fr width p v mem = Some mem'" "\<And>r. A r \<Longrightarrow> r 11 = p \<and> r 0 = wrap width sg v"
  shows "achieves fr n A mem (emit_store_mem 0 11 0 width) mem' A"
proof -
  have w: "machine_width width" using assms(1) by (simp add: store_value_def split: if_splits)
  show ?thesis
    by (rule achieves_store [OF performs_store_mem [OF _ local_base(3) _ w] _ store_wrapped [OF assms(1), of sg]])
      (use assms(2) in \<open>simp_all add: is_int32_def INT32_MIN_def INT32_MAX_def\<close>)
qed

lemma compute_increment:
  assumes ops: "operands_compute env fr i" and ev: "ir_eval env fr i mem = Some (v, mem')" and op: "in_op i = IR_INCREMENT"
  shows "node_computes env fr i mem v mem'"
proof (cases i)
  case (IrInst nd a b c args)
  let ?sg = "in_signed i" and ?w = "ir_width i" and ?k = "in_bits i"
  have fl: "\<not> is_float_type (ue_types env) (in_type i)" using ev op by (auto simp: IrInst ir_evaluated Let_def split: if_splits)
  obtain x p u mem1 mem0 where x: "in_a i = Some x" "ir_eval env fr x mem = Some (p, mem1)"
      and l0: "load_value fr ?w ?sg p mem1 = Some (u, mem0)" and s0: "store_value fr ?w p (u + ?k) mem0 = Some mem'"
      and v: "v = (if in_post i then u else wrap ?w ?sg (u + ?k))"
    using ev op fl by (auto simp: IrInst ir_evaluated Let_def)
  have "mem0 = mem1" using load_width [OF l0] by simp
  note l = l0 [unfolded this] and s = s0 [unfolded this]
  have w: "machine_width ?w" using load_width [OF l] by simp
  let ?kept = "\<lambda>y r. r 0 = y \<and> r (10 :: nat) = (u :: u64)"
  have load: "achieves fr n (\<lambda>r. r 0 = p) mem1 (emit_load_rax ?w ?sg) mem1 (\<lambda>r. r 0 = u)" for n
    by (rule achieves_load [OF performs_load_rax [OF w] _ l]) simp_all
  have keep: "achieves fr n (\<lambda>r. r 0 = u) mem1 (emit_mov_reg_reg 10 0) mem1 (?kept u)" for n
    by (rule achieves_sets [OF performs_mov]) (simp_all add: scratch_def)
  have add: "achieves fr n (?kept u) mem1 (emit_add_imm 0 (sint ?k)) mem1 (?kept (u + ?k))" for n
    by (rule achieves_step [OF performs_add_imm [OF sint_bound, where P = "\<lambda>m. True"]]) (auto simp: adds_imm_def yields_def)
  have norm: "achieves fr n (?kept (u + ?k)) mem1 (emit_normalize ?w ?sg) mem1 (?kept (wrap ?w ?sg (u + ?k)))" for n
    by (rule achieves_sets [OF performs_normalize]) (auto simp: scratch_def)
  let ?new = "\<lambda>r. r 11 = p \<and> ?kept (wrap ?w ?sg (u + ?k)) r"
  have "size x < size i" using x(1) operands_size [of x i] by (simp add: operands_def)
  then have n: "8 * size i = 8 * (size i - 1) + 8" by simp
  have saved: "achieves fr (8 * size i) (\<lambda>r. r 0 = p) mem1
      (steps (emit_push 0 # deeper # [emit_load_rax ?w ?sg, emit_mov_reg_reg 10 0, emit_add_imm 0 (sint ?k), emit_normalize ?w ?sg] @
        [emit_pop 11, shallower])) mem1 ?new"
    unfolding n
    by (rule achieves_mono [OF achieves_saved [OF achieves_Cons [OF load achieves_Cons [OF keep achieves_Cons [OF add achieves_one [OF norm]]]]]])
      (auto simp: scratch_def)
  have store: "achieves fr (8 * size i) ?new mem1 (emit_store_mem 0 11 0 ?w) mem' ?new"
    by (rule achieves_update [OF s, where sg = ?sg]) simp
  have post: "achieves fr (8 * size i) ?new mem' (if in_post i then emit_mov_reg_reg 0 10 else steps []) mem' (\<lambda>r. r 0 = v)"
  proof (cases "in_post i")
    case True
    have "achieves fr (8 * size i) ?new mem' (emit_mov_reg_reg 0 10) mem' (\<lambda>r. r 0 = v)"
      by (rule achieves_sets [OF performs_mov]) (use True v in \<open>simp_all add: scratch_def\<close>)
    then show ?thesis using True by simp
  next
    case False
    have "achieves fr (8 * size i) ?new mem' (steps []) mem' (\<lambda>r. r 0 = v)"
      by (rule achieves_mono [OF achieves_Nil [of fr "8 * size i" ?new]]) (use False v in simp_all)
    then show ?thesis using False by simp
  qed
  have "achieves fr (8 * size i) (\<lambda>r. r 0 = p) mem1 (steps [
      steps (emit_push 0 # deeper # [emit_load_rax ?w ?sg, emit_mov_reg_reg 10 0, emit_add_imm 0 (sint ?k), emit_normalize ?w ?sg] @
        [emit_pop 11, shallower]),
      emit_store_mem 0 11 0 ?w, if in_post i then emit_mov_reg_reg 0 10 else steps []]) mem' (\<lambda>r. r 0 = v)"
    by (rule achieves_Cons [OF saved achieves_Cons [OF store achieves_one [OF post]]])
  moreover have "steps [steps (f1 # f2 # [f3, f4, f5, f6] @ [f7, f8]), f9, f10] = steps [f1, f2, f3, f4, f5, f6, f7, f8, f9, f10]"
    for f1 f2 f3 f4 f5 f6 f7 f8 f9 f10 :: emitter by (rule ext) simp
  ultimately show ?thesis
    using computes_then [OF ops x, of "[emit_push 0, deeper, emit_load_rax ?w ?sg, emit_mov_reg_reg 10 0, emit_add_imm 0 (sint ?k),
        emit_normalize ?w ?sg, emit_pop 11, shallower, emit_store_mem 0 11 0 ?w, if in_post i then emit_mov_reg_reg 0 10 else steps []]"]
      op fl x(1) by (simp add: encode_node_def encode_increment_def Let_def del: steps.simps)
qed

lemma compute_compound:
  assumes ops: "operands_compute env fr i" and ev: "ir_eval env fr i mem = Some (v, mem')" and op: "in_op i = IR_COMPOUND"
  shows "node_computes env fr i mem v mem'"
proof (cases i)
  case (IrInst nd a b c args)
  let ?sg = "in_signed i" and ?w = "ir_width i" and ?op = "compound_ir_op (nd_binary (in_node i))"
  have fl: "\<not> is_float_type (ue_types env) (in_type i)" using ev op by (auto simp: IrInst ir_evaluated Let_def split: if_splits)
  obtain x y p u q r mem1 mem0 mem2 where x: "in_a i = Some x" "ir_eval env fr x mem = Some (p, mem1)"
      and y0: "in_b i = Some y" "ir_eval env fr y mem0 = Some (q, mem2)"
      and l0: "load_value fr ?w ?sg p mem1 = Some (u, mem0)" and r: "value_op ?op ?sg u q = Some r"
      and s: "store_value fr ?w p r mem2 = Some mem'" and v: "v = wrap ?w ?sg r"
    using ev op fl by (auto simp: IrInst ir_evaluated Let_def)
  have "mem0 = mem1" using load_width [OF l0] by simp
  note l = l0 [unfolded this] and y = y0 [unfolded this]
  have w: "machine_width ?w" using load_width [OF l] by simp
  have binary: "?op \<in> binary_ops" by (simp add: compound_ir_op_def binary_ops_def)
  have in_i: "x \<in> operands i" "y \<in> operands i" using x(1) y(1) by (simp_all add: operands_def)
  have "size y + 2 \<le> size i" using x(1) y(1) by (simp add: IrInst)
  then have n: "8 * size i = (8 * (size i - 2) + 8) + 8" "8 * size y \<le> 8 * (size i - 2)" by simp_all
  have load: "achieves fr n (\<lambda>r. r 0 = p) mem1 (emit_load_rax ?w ?sg) mem1 (\<lambda>r. r 0 = u)" for n
    by (rule achieves_load [OF performs_load_rax [OF w] _ l]) simp_all
  have mov: "achieves fr n (\<lambda>r. r 0 = q) mem2 (emit_mov_reg_reg 1 0) mem2 (\<lambda>r. r 1 = q)" for n
    by (rule achieves_sets [OF performs_mov]) (simp_all add: scratch_def)
  have second: "achieves fr (8 * (size i - 2) + 8) (\<lambda>r. r 0 = u) mem1
      (steps (emit_push 0 # deeper # [encode_expr env (Some y), emit_mov_reg_reg 1 0] @ [emit_pop 0, shallower])) mem2
      (\<lambda>r. r 0 = u \<and> r 1 = q)"
    by (rule achieves_mono [OF achieves_saved [OF achieves_Cons [OF operand_computes [OF ops in_i(2) y(2) n(2)] achieves_one [OF mov]]]])
      (auto simp: scratch_def)
  have operate: "achieves fr n (\<lambda>r. r 0 = u \<and> r 1 = q) mem2 (emit_binary_opcode ?op ?sg) mem2 (\<lambda>q. q 0 = r)" for n
    by (rule achieves_step [OF performs_binary [OF binary]]) (use r in \<open>auto simp: yields_def\<close>)
  have norm: "achieves fr n (\<lambda>q. q 0 = r) mem2 (emit_normalize ?w ?sg) mem2 (\<lambda>q. q 0 = wrap ?w ?sg r)" for n
    by (rule achieves_map [OF performs_normalize])
  let ?new = "\<lambda>q. q 11 = p \<and> q 0 = wrap ?w ?sg r"
  let ?second = "steps (emit_push 0 # deeper # [encode_expr env (Some y), emit_mov_reg_reg 1 0] @ [emit_pop 0, shallower])"
  have saved: "achieves fr (8 * size i) (\<lambda>r. r 0 = p) mem1
      (steps (emit_push 0 # deeper # [emit_load_rax ?w ?sg, ?second, emit_binary_opcode ?op ?sg, emit_normalize ?w ?sg] @
        [emit_pop 11, shallower])) mem2 ?new"
    unfolding n(1)
    by (rule achieves_mono [OF achieves_saved [OF achieves_Cons [OF load achieves_Cons [OF second achieves_Cons [OF operate achieves_one [OF norm]]]]]])
      (auto simp: scratch_def)
  have store: "achieves fr (8 * size i) ?new mem2 (emit_store_mem 0 11 0 ?w) mem' (\<lambda>r. r 0 = v)"
    by (rule achieves_mono [OF achieves_update [OF s, where sg = ?sg and A = ?new, of "8 * size i"]]) (use v in simp_all)
  note whole = computes_then [OF ops x achieves_Cons [OF saved achieves_one [OF store]]]
  have "steps [f0, steps (f1 # f2 # [f3, steps (f1 # f2 # [f4, f5] @ [f6, f7]), f8, f9] @ [f10, f11]), f12] =
      steps [f0, f1, f2, f3, f1, f2, f4, f5, f6, f7, f8, f9, f10, f11, f12]"
    for f0 f1 f2 f3 f4 f5 f6 f7 f8 f9 f10 f11 f12 :: emitter by (rule ext) simp
  note whole = whole [unfolded this]
  show ?thesis using whole op fl x(1) y(1) by (simp add: encode_node_def encode_compound_def Let_def del: steps.simps)
qed

subsection \<open>Expressions\<close>

lemma ir_eval_op:
  assumes "ir_eval env fr i mem = Some r"
  shows "in_op i \<in> {IR_CONST, IR_LOAD, IR_STORE, IR_ADDR, IR_AGGREGATE, IR_MEMBER, IR_COMMA, IR_CAST, IR_NEG, IR_BIT_NOT,
    IR_LOGICAL_NOT, IR_COMPARE, IR_INCREMENT, IR_COMPOUND} \<union> binary_ops"
proof (cases i)
  case (IrInst nd a b c args)
  show ?thesis
    using assms unfolding IrInst ir_eval.simps Let_def
    by (cases "nd_op nd") (simp_all add: binary_ops_def value_op_def bind_eq_Some_conv split: if_splits)
qed

lemma expression_computed:
  assumes "ir_eval env fr i mem = Some (v, mem')"
  shows "computes env fr i mem v mem'"
  using assms
proof (induction "size i" arbitrary: i mem v mem' rule: less_induct)
  case less
  then have ops: "operands_compute env fr i" using operands_size by (auto simp: operands_compute_def)
  from ir_eval_op [OF less.prems] consider "in_op i = IR_CONST" | "in_op i = IR_LOAD" | "in_op i = IR_STORE"
    | "in_op i = IR_ADDR" | "in_op i = IR_AGGREGATE" | "in_op i = IR_MEMBER" | "in_op i = IR_COMMA" | "in_op i = IR_CAST"
    | "in_op i \<in> {IR_NEG, IR_BIT_NOT, IR_LOGICAL_NOT}" | "in_op i = IR_COMPARE" | "in_op i = IR_INCREMENT"
    | "in_op i = IR_COMPOUND" | "in_op i \<in> binary_ops" by auto
  then have "node_computes env fr i mem v mem'"
    by cases (blast intro: ops less.prems compute_const compute_load compute_store compute_addr compute_aggregate compute_member
      compute_comma compute_cast compute_unary compute_compare compute_increment compute_compound compute_binary)+
  then show ?case unfolding computes_def by (rule achieves_expr)
qed

text \<open>
  C4. Compiled integer expressions compute what they mean. When an expression has a value in
  \<open>ir_eval\<close>, which leaves out undefined behaviour, calls, jumps, floating and 128-bit values and the
  addresses of globals, the encoder appends the same code to whatever code there is, and fails exactly
  when it had failed before or the code would not fit. From every machine that holds the program's
  memory and has free stack of eight bytes for each unit of the expression's size, that code runs
  through, wherever it stands, to a machine with the value in RAX and with the memory the expression
  leaves. It changes no register but RAX, RCX, RDX, R10 and R11, and no memory but the program's and
  that part of the stack.
\<close>

theorem expression_computes:
  assumes "ir_eval env fr i mem = Some (v, mem')"
  shows "\<exists>bs. emits (encode_expr env (Some i)) bs \<and>
    (\<forall>svc m. related fr (8 * size i) mem m \<longrightarrow>
      (\<exists>m'. runs svc bs m m' \<and> mc_regs m' RAX = v \<and> related fr (8 * size i) mem' m' \<and> changes fr (8 * size i) mem' m m'))"
proof -
  obtain bs where bs: "emits (encode_expr env (Some i)) bs"
    and run: "\<And>svc m. related fr (8 * size i) mem m \<Longrightarrow> \<exists>m'. runs svc bs m m' \<and> changes fr (8 * size i) mem' m m' \<and> mc_regs m' 0 = v"
    using expression_computed [OF assms] unfolding computes_def achieves_def performs_def by blast
  have "\<exists>m'. runs svc bs m m' \<and> mc_regs m' RAX = v \<and> related fr (8 * size i) mem' m' \<and> changes fr (8 * size i) mem' m m'"
    if "related fr (8 * size i) mem m" for svc m
    using run [OF that, of svc] related_changes [OF that] by blast
  with bs show ?thesis by blast
qed

text \<open>The local variable at offset -8 is set to \<open>2 + 3\<close>.\<close>

definition sample_node :: "ir_op \<Rightarrow> int \<Rightarrow> u64 \<Rightarrow> ir_node" where
  "sample_node op offset bits =
     \<lparr>nd_op = op, nd_type = None, nd_width = 8, nd_compare = 0, nd_binary = 0, nd_flags = 0, nd_id = 0, nd_true_label = 0,
      nd_false_label = 0, nd_end_label = 0, nd_default_label = 0, nd_symbol = None, nd_offset = offset, nd_bits = bits,
      nd_cases = [], nd_location = \<lparr>lc_source = None, lc_line = 0, lc_column = 0\<rparr>\<rparr>"

definition sample_store :: ir_inst where
  "sample_store =
     IrInst (sample_node IR_STORE 0 0) (Some (IrInst (sample_node IR_ADDR (- 8) 0) None None None []))
       (Some (IrInst (sample_node IR_ADD 0 0) (Some (IrInst (sample_node IR_CONST 0 2) None None None []))
          (Some (IrInst (sample_node IR_CONST 0 3) None None None [])) None [])) None []"

definition sample_frame :: frame where
  "sample_frame = \<lparr>fr_base = 1000, fr_owned = (\<lambda>a. a < 4096)\<rparr>"

definition sample_machine :: machine where
  "sample_machine = \<lparr>mc_regs = (\<lambda>r. if r = RBP then 1000 else 65536), mc_mem = (\<lambda>a. 0), mc_flags = None\<rparr>"

definition sample_unit :: unit_env where
  "sample_unit = \<lparr>ue_types = [], ue_symbols = (\<lambda>s. undefined)\<rparr>"

lemma sample_store_value:
  "ir_eval sample_unit sample_frame sample_store (\<lambda>a. 0) = Some (5, write_bytes (\<lambda>a. 0) 992 8 5)"
  by (simp add: sample_store_def sample_node_def sample_unit_def ir_evaluated ir_width_def machine_width_def wrap_def is_float_type_def
      kind_of_def local_address_def INT32_MIN_def INT32_MAX_def sample_frame_def store_value_def owned_range_def value_op_def Let_def upt_rec)

lemma sample_related: "related sample_frame (8 * size sample_store) (\<lambda>a. 0) sample_machine"
proof -
  have "\<not> a < 4096" if "a \<in> below 65536 (8 * size sample_store)" for a
  proof -
    obtain j where j: "j < 8 * size sample_store" "a = 65536 - 1 - of_nat j" using \<open>a \<in> _\<close> by (auto simp: below_def)
    have "j < 1000" using j(1) by (simp add: sample_store_def)
    then have a: "a = of_nat (65535 - j)" using j(2) by (simp add: of_nat_diff)
    have "unat a = 65535 - j" unfolding a unat_of_nat by simp
    then show ?thesis using \<open>j < 1000\<close> by (simp add: word_less_nat_alt)
  qed
  then show ?thesis by (auto simp: related_def sample_frame_def sample_machine_def sample_store_def)
qed

theorem expression_computes_witness:
  "\<exists>bs m'. emits (encode_expr sample_unit (Some sample_store)) bs \<and> runs (\<lambda>n m. m) bs sample_machine m' \<and> mc_regs m' 0 = 5 \<and>
     mc_mem m' 992 = 5"
proof -
  from expression_computes [OF sample_store_value] sample_related
  obtain bs m' where "emits (encode_expr sample_unit (Some sample_store)) bs" "runs (\<lambda>n m. m) bs sample_machine m'" "mc_regs m' 0 = 5"
    and "related sample_frame (8 * size sample_store) (write_bytes (\<lambda>a. 0) 992 8 5) m'" by blast
  moreover have "write_bytes (\<lambda>a. 0) 992 (Suc 7) 5 992 = 5" by (simp only: write_bytes.simps fun_upd_same) simp
  with \<open>related _ _ _ m'\<close> have "mc_mem m' 992 = 5" by (simp add: related_def sample_frame_def)
  ultimately show ?thesis by blast
qed

end
