(* ===== verification/Spec2Isabelle.thy ===== *)
theory Spec2Isabelle
  imports Object_Roundtrip Linker Runtime_Text Runtime_Alloc Runtime_Env Pre_Operators Pre_Include_Ok Decimal Types_Ok Scopes Abi_Ok
    Enc_Unit Enc_Compute
begin

text \<open>
  Verification library for CC64, a compiler, linker and target library for C17 on the DOS64 system. The
  sources are under \<open>src/src\<close>; a source text goes through the lexer and the preprocessor
  (\<open>frontend/\<close>), the parser (\<open>parser/\<close>) over types and scopes (\<open>semantic/\<close>), the lowering
  (\<open>ir/\<close>), and the encoder, the argument-passing rules and the object builder (\<open>backend/\<close>); the
  object files are linked (\<open>linker/\<close>) with the target library (\<open>runtime/\<close>) into an image that the system
  loads. \<open>common/\<close> holds the arena, the sources and the diagnostics that the phases share, and
  \<open>driver/\<close> calls the phases in turn.

  \<^bold>\<open>Conventions.\<close> A C struct is a record with the fields of the struct under a short prefix, an enum is a
  datatype or, where files hold it as a number, a set of constants; \<open>uint8_t\<close>, \<open>uint16_t\<close>, \<open>uint32_t\<close> and
  \<open>uint64_t\<close> are words of their width, and \<open>size_t\<close> is a natural number whose wrap-around or
  overflow test is written out where the code can reach it. Shared or circular data are numbers in a store
  (types, scopes, arena blocks) or offsets into one memory (the target string routines), so aliasing is visible.
  A function of C that fails is an option, or a value of the sum type \<open>('e, 'a) res\<close> whose errors are the
  rejections of the code and \<open>OutOfBounds\<close> for an access no buffer covers: safety properties say that this
  last value is never returned. Loops are recursive functions with a measure; where the code itself limits the
  depth, or nothing does, the function has fuel, and a property says that the fuel is enough.

  \<^bold>\<open>Prelude\<close> (\<open>Prelude_CC64\<close>): machine types, C strings, the result type, checked reads and
  writes, the little-endian fields (\<open>put_u16\<close>, \<open>read_u32\<close>, ...), and the collections \<open>res_simps\<close> and
  \<open>le_simps\<close> that evaluate them. \<open>Bytes_LE\<close> holds the locale \<open>field_codec\<close> of a fixed-width field,
  interpreted on the three widths; \<open>Name_Table\<close> the locales \<open>name_map\<close> and \<open>name_table\<close> of a table
  searched by name, interpreted on the bindings of a scope and on the preprocessor's macros.

  \<^bold>\<open>Object files\<close> (\<open>backend/object.c\<close>, and the reader in \<open>linker/linker.c\<close>). \<open>Object_Builder\<close> has the
  builder and every operation that changes it, an invariant, and its preservation along \<open>builder_reachable\<close>;
  \<open>String_Table\<close> (locale \<open>name_pool\<close>) and \<open>Reloc_Order\<close> (locale \<open>strict_comparison\<close>: the exchange
  sort orders relocations) are what the writer uses; \<open>Object_Writer\<close> is the writer, store by store, and
  \<open>Object_Format\<close> shows that its image is one concatenation of records. \<open>Crc\<close> has the checksums and the
  locale \<open>burst_checksum\<close>. \<open>Object_Claims\<close> has the reader's list of claimed ranges (locale
  \<open>claim_set\<close>), \<open>Object_Reader\<close> the reader, \<open>Object_Accept\<close> the proof that it stays inside the file
  and accepts only well-formed objects, \<open>Object_Integrity\<close> the rejection of corrupted files, and
  \<open>Object_Roundtrip\<close> the theorem that it reads back what the writer wrote.

  \<^bold>\<open>Linker\<close> (\<open>linker/linker.c\<close>). \<open>Link_Output\<close> places sections, \<open>Link_Symbols\<close> resolves symbols (locale
  \<open>numbered_names\<close>, interpreted on the table of global symbols), \<open>Link_Image\<close> assembles and relocates the
  payload and writes the image, \<open>Link_MZ64\<close> relates the image to a reference reading of the image contract
  (\<open>mz64_read\<close>; \<open>mz64_load\<close> adds the one rule the linker does not keep), and \<open>Linker\<close> composes them as \<open>link_objects\<close>: no access leaves a buffer, input bytes arrive where
  their section was placed, relocations store the distance they stand for, and the entry calls the startup routine.

  \<^bold>\<open>Compiler support.\<close> \<open>Arena\<close> (\<open>common/arena.c\<close>): allocation, marks and releases, with an invariant along
  the step relation \<open>arena_step\<close>. \<open>Sources\<close> (\<open>common/source.c\<close>, \<open>common/diagnostic.c\<close>): the source
  manager and the diagnostic sink, whose allocations thread the arena.

  \<^bold>\<open>Front end.\<close> \<open>Lexer\<close>, \<open>Lexer_Text\<close> and \<open>Lex_Source\<close> (\<open>frontend/lexer.c\<close>): the lexer over positions in
  the source bytes, the text a token stands for, and the loop over a source, which partitions it into tokens and
  blanks up to its end or the first token the lexer gives up at (\<open>gives_up\<close>). \<open>Numeric\<close> and \<open>Decimal\<close> (\<open>frontend/numeric.c\<close>): floating constants as binary64 encodings.
  The preprocessor (\<open>frontend/preprocessor.c\<close>) is the record \<open>preprocessor\<close> with the arena, sources,
  diagnostics, macros and include stack the C struct points at: \<open>Pre_Macro\<close> is macro expansion,
  \<open>Pre_Expr\<close> the expressions of conditionals, \<open>Pre_Directive\<close> the directives, inclusion and the loop over a
  source; \<open>Pre_Macro_Ok\<close> shows that the depth limit is not what stops expansion, that arguments and
  stringized tokens read back, and where expansion departs from C; \<open>Pre_Expr_Ok\<close> that the expression parser ends;
  \<open>Pre_Grammar\<close> has the conditional expressions of C (\<open>derivable\<close>) and what the parser makes of them, and
  \<open>Pre_Operators\<close> their values as C defines them (\<open>c_binary\<close>, \<open>c_value\<close>), where the code agrees with those
  (\<open>settled\<close>) and what it rejects instead (\<open>refused\<close>); \<open>Pre_Conditional\<close> and \<open>Pre_Include_Ok\<close> treat the groups of
  conditionals and the include stack (collection \<open>keeps_stack\<close>).

  \<^bold>\<open>Semantics.\<close> \<open>Types\<close> and \<open>Types_Ok\<close> (\<open>semantic/semantic.c\<close>): type records in a store, their
  constructors, predicates and conversions, an invariant along \<open>types_step\<close>, the end of the recursions, and
  the usual arithmetic conversions against the standard. \<open>Scopes\<close>: chains of bindings.

  \<^bold>\<open>Argument passing\<close> (\<open>backend/abi.c\<close>). \<open>Abi\<close> classifies aggregates and assigns arguments to registers and
  stack slots; \<open>Abi_Ok\<close> shows that they are disjoint and that the class of a piece follows from the scalars in
  it (relation \<open>leaf\<close>).

  \<^bold>\<open>Encoder\<close> (\<open>backend/encoder.c\<close>). \<open>Ir\<close> has the intermediate code and the symbols and syntax nodes the
  encoder reads; \<open>Enc_Emit\<close> the record \<open>encoder\<close> (diagnostics, builder, code, labels, fixups, stack depth, failure)
  and the functions that append bytes, \<open>Enc_Expr\<close> and \<open>Enc_Call\<close> expressions and calls (\<open>encode_expr\<close>, by
  recursion on the instruction), \<open>Enc_Function\<close> statements, prologues and epilogues, \<open>Enc_Data\<close> the constant
  initializers and \<open>Enc_Unit\<close> the unit with its startup and runtime routines. \<open>X64\<close> is the reference it is measured
  against: decoding and effect of the instructions the integer code uses, with flags left unknown where the
  architecture leaves them undefined. \<open>Enc_Code\<close> relates emitted bytes to instructions (collection \<open>emitted\<close>),
  \<open>Enc_Value\<close> says what an integer expression means (\<open>ir_eval\<close>), \<open>Enc_Run\<close> and \<open>Enc_Ops\<close> run the sequences the
  encoder uses, and \<open>Enc_Compute\<close> shows that the code of an expression computes its value, with stack of eight
  bytes for each unit of the expression's size. Calls, jumps, floating and 128-bit values and the addresses of
  globals are modelled in the encoder but are outside that property.


  \<^bold>\<open>Target library\<close> (\<open>runtime/\<close>). \<open>Runtime_String\<close> and \<open>Runtime_Text\<close> are the string routines over one
  memory, \<open>Runtime_Stdlib\<close> classification, conversions, random numbers and the sort, \<open>Runtime_Alloc\<close> the
  heap and the mappings over the system's allocation service, \<open>Runtime_Env\<close> the environment.

  \<^bold>\<open>Parameters.\<close> What lies outside the sources is an argument of the definitions: the contents of files
  (\<open>files\<close>, in the sources and the preprocessor; the reading, writing and removing of files in the linker), and
  the two allocation thunks of the system in \<open>Runtime_Alloc\<close>. Allocation on the host ends the process when
  it fails (\<open>cc64_xmalloc\<close>), so a model that returns describes the runs that go on.

  \<^bold>\<open>Fuel.\<close> The expression parser takes \<open>expression_fuel\<close>, three steps for each token and three more: every
  three nested calls consume a token. Macro expansion has the 64 levels of the code, and an expansion inside
  fewer than 64 macros never reaches the last, since each level hides one more. Inclusion has the 32 levels of
  the code's own stack. The recursions over types take one level more than there are records:
  every record of a well-formed store refers to earlier ones only (\<open>store_ok\<close>), and the property on these
  recursions says that more fuel changes nothing. Walking the members of an aggregate ends when the fuel exceeds
  the depth of nesting (\<open>nested\<close>).

  \<^bold>\<open>Not modelled.\<close> The parser (\<open>parser/parser.c\<close>) and the lowering (\<open>ir/lower.c\<close>), which build and consume
  pointer graphs of several thousand lines; the driver, the streams, files, terminal and formatted output of
  the target library, which are composition around system calls; the target mathematics, floating-point
  approximations for which the library theories have no executable arithmetic; the utilities that end the
  process; and the self-hosting checks, which are test programs.
\<close>

end
